(* ===== verification/Prelude.thy ===== *)
theory Prelude
  imports Main "HOL-Library.Multiset" "HOL-Library.Signed_Division"
begin

text \<open>
  Shared vocabulary of the development: the result type of the fallible C++ code, the
  machine-integer operations that the cost model uses, and generic facts on lists (sorting,
  counting, maxima) that several components need. Nothing here is specific to one component.
\<close>

named_theorems result_simps \<open>evaluation and inversion of the result monad\<close>
named_theorems arith64_simps \<open>saturating and wrapping arithmetic in the range without overflow\<close>

subsection \<open>Results of fallible code\<close>

text \<open>
  \<open>Failure\<close> is \<^verbatim>\<open>mlir::failure()\<close>, an error the caller handles. \<open>FatalError\<close> is
  \<^verbatim>\<open>llvm::report_fatal_error\<close> and \<open>Unreachable\<close> is \<^verbatim>\<open>llvm_unreachable\<close>: both end
  the process, so a theorem that they do not occur is a safety property.
\<close>

datatype error = Failure | FatalError string | Unreachable string

type_synonym 'a result = "error + 'a"

definition bindR :: "'a result \<Rightarrow> ('a \<Rightarrow> 'b result) \<Rightarrow> 'b result" where
  "bindR m f = (case m of Inl e \<Rightarrow> Inl e | Inr x \<Rightarrow> f x)"

definition crashes :: "'a result \<Rightarrow> bool" where
  "crashes r = (case r of Inl Failure \<Rightarrow> False | Inl _ \<Rightarrow> True | Inr _ \<Rightarrow> False)"

lemma bindR_simps [simp]: "bindR (Inl e) f = Inl e" "bindR (Inr x) f = f x"
  by (simp_all add: bindR_def)

lemma bindR_eq_Inr [result_simps]:
  "bindR m f = Inr y \<longleftrightarrow> (\<exists>x. m = Inr x \<and> f x = Inr y)"
  by (cases m) auto

lemma bindR_cong [fundef_cong]:
  "m = m' \<Longrightarrow> (\<And>x. m' = Inr x \<Longrightarrow> f x = f' x) \<Longrightarrow> bindR m f = bindR m' f'"
  by (cases m') auto

lemma crashes_simps [simp]:
  "\<not> crashes (Inr x)" "\<not> crashes (Inl Failure)"
  "crashes (Inl (FatalError s))" "crashes (Inl (Unreachable s))"
  by (simp_all add: crashes_def)

lemma not_crashes_bindR:
  "\<not> crashes m \<Longrightarrow> (\<And>x. m = Inr x \<Longrightarrow> \<not> crashes (f x)) \<Longrightarrow> \<not> crashes (bindR m f)"
  by (cases m) (auto simp: crashes_def split: error.splits)

text \<open>The first element of a list on which a fallible test is positive.\<close>

fun find_resultM :: "('a \<Rightarrow> 'b option result) \<Rightarrow> 'a list \<Rightarrow> 'b option result" where
  "find_resultM f [] = Inr None"
| "find_resultM f (x # xs) =
     bindR (f x) (\<lambda>r. case r of Some y \<Rightarrow> Inr (Some y) | None \<Rightarrow> find_resultM f xs)"

text \<open>A loop whose body may fail: the state is threaded through the elements in order.\<close>

fun foldR :: "('a \<Rightarrow> 's \<Rightarrow> 's result) \<Rightarrow> 'a list \<Rightarrow> 's \<Rightarrow> 's result" where
  "foldR f [] s = Inr s"
| "foldR f (x # xs) s = bindR (f x s) (foldR f xs)"

lemma foldR_invariant:
  assumes "foldR f xs s = Inr t" and "P s"
    and "\<And>x s t. x \<in> set xs \<Longrightarrow> P s \<Longrightarrow> f x s = Inr t \<Longrightarrow> P t"
  shows "P t"
  using assms
proof (induction xs arbitrary: s)
  case Nil
  then show ?case by simp
next
  case (Cons x xs)
  then obtain u where u: "f x s = Inr u" "foldR f xs u = Inr t"
    by (auto simp: bindR_eq_Inr)
  show ?case
    using u(2) Cons.prems(3)[OF _ Cons.prems(2) u(1)] Cons.prems(3)
    by (intro Cons.IH[of u]) auto
qed

subsection \<open>Maxima\<close>

lemma fold_max_value:
  fixes f :: "'a \<Rightarrow> int"
  shows "fold (\<lambda>v r. max r (f v)) vs c = Max (set (c # map f vs))"
proof (induction vs arbitrary: c)
  case (Cons x xs)
  have "fold (\<lambda>v r. max r (f v)) (x # xs) c = Max (insert (max c (f x)) (f ` set xs))"
    using Cons.IH [of "max c (f x)"] by simp
  also have "\<dots> = Max (insert c (insert (f x) (f ` set xs)))"
    by (cases "xs = []") (simp_all add: max.assoc)
  finally show ?case by simp
qed simp

subsection \<open>Machine integers\<close>

text \<open>
  \<^verbatim>\<open>int64_t\<close> and \<^verbatim>\<open>int\<close> values are \<open>int\<close> (their overflow is undefined in C++);
  \<^verbatim>\<open>unsigned\<close> and \<^verbatim>\<open>uint64_t\<close> values are \<open>nat\<close>. Where the code converts between
  widths or lets an unsigned value wrap, the reduction is written with \<open>to_u32\<close>,
  \<open>trunc_u32\<close> or \<open>wrap_u64\<close>.
\<close>

definition INT64_MAX :: int where
  "INT64_MAX = 9223372036854775807"

definition to_u32 :: "int \<Rightarrow> nat" where
  "to_u32 i = nat (i mod 4294967296)"

definition trunc_u32 :: "nat \<Rightarrow> nat" where
  "trunc_u32 n = nat (int n mod 4294967296)"

definition wrap_u64 :: "nat \<Rightarrow> nat" where
  "wrap_u64 n = nat (int n mod 18446744073709551616)"

lemma INT64_MAX_eq: "INT64_MAX = 2 ^ 63 - 1"
  by (simp add: INT64_MAX_def)

lemma to_u32_id [arith64_simps]: "0 \<le> i \<Longrightarrow> i < 4294967296 \<Longrightarrow> to_u32 i = nat i"
  by (simp add: to_u32_def)

lemma int_to_u32 [arith64_simps]: "0 \<le> i \<Longrightarrow> i < 4294967296 \<Longrightarrow> int (to_u32 i) = i"
  by (simp add: to_u32_def)

lemma trunc_u32_id [arith64_simps]: "n < 4294967296 \<Longrightarrow> trunc_u32 n = n"
  by (simp add: trunc_u32_def)

lemma wrap_u64_id [arith64_simps]: "n < 18446744073709551616 \<Longrightarrow> wrap_u64 n = n"
  by (simp add: wrap_u64_def)

definition saturatingAdd :: "int \<Rightarrow> int \<Rightarrow> int" where
  "saturatingAdd lhs rhs = (if lhs > INT64_MAX - rhs then INT64_MAX else lhs + rhs)"

definition saturatingMultiply :: "int \<Rightarrow> int \<Rightarrow> int" where
  "saturatingMultiply lhs rhs =
     (if lhs \<noteq> 0 \<and> rhs > INT64_MAX sdiv lhs then INT64_MAX else lhs * rhs)"

lemma sdiv_nonneg: "0 \<le> a \<Longrightarrow> 0 \<le> b \<Longrightarrow> (a::int) sdiv b = a div b"
  by (cases "a = 0"; cases "b = 0") (simp_all add: signed_divide_int_def)

lemma smod_nonneg: "0 \<le> a \<Longrightarrow> 0 \<le> b \<Longrightarrow> (a::int) smod b = a mod b"
  by (cases "a = 0"; cases "b = 0") (simp_all add: signed_modulo_int_def)

lemma saturatingAdd_exact [arith64_simps]: "a + b \<le> INT64_MAX \<Longrightarrow> saturatingAdd a b = a + b"
  by (simp add: saturatingAdd_def)

lemma saturatingAdd_min: "saturatingAdd a b = min INT64_MAX (a + b)"
  by (simp add: saturatingAdd_def min_def)

lemma saturatingMultiply_min:
  assumes "0 \<le> a" and "0 \<le> b"
  shows "saturatingMultiply a b = min INT64_MAX (a * b)"
proof (cases "a = 0")
  case True
  then show ?thesis by (simp add: saturatingMultiply_def INT64_MAX_def)
next
  case False
  with assms have a: "0 < a" by simp
  have "b > INT64_MAX div a \<longleftrightarrow> a * b > INT64_MAX"
  proof
    assume b: "b > INT64_MAX div a"
    have "INT64_MAX < a * (INT64_MAX div a + 1)"
      using mult_div_mod_eq [of a INT64_MAX] pos_mod_bound [OF a, of INT64_MAX]
      unfolding distrib_left by linarith
    also have "\<dots> \<le> a * b" using a b by (intro mult_left_mono) auto
    finally show "a * b > INT64_MAX" .
  next
    assume ab: "a * b > INT64_MAX"
    show "b > INT64_MAX div a"
    proof (rule ccontr)
      assume "\<not> ?thesis"
      then have "a * b \<le> a * (INT64_MAX div a)" using a by (intro mult_left_mono) auto
      also have "\<dots> \<le> INT64_MAX" using a by (simp add: minus_mod_eq_mult_div [symmetric])
      finally show False using ab by simp
    qed
  qed
  then show ?thesis
    using a assms by (auto simp: saturatingMultiply_def sdiv_nonneg INT64_MAX_def min_def)
qed

subsection \<open>Timelines\<close>

text \<open>
  Every state of the cost model has a clock and operations that only move it forward. The
  contract is stated once; each state machine of the model is an instance of it. \<open>trace\<close>
  runs a list of operations and records the clock after each.
\<close>

locale timeline =
  fixes inv :: "'s \<Rightarrow> bool"
    and clock :: "'s \<Rightarrow> int"
    and ok :: "'a \<Rightarrow> bool"
    and step :: "'a \<Rightarrow> 's \<Rightarrow> 's result"
  assumes step_inv: "inv s \<Longrightarrow> ok a \<Longrightarrow> step a s = Inr t \<Longrightarrow> inv t"
    and step_clock: "inv s \<Longrightarrow> ok a \<Longrightarrow> step a s = Inr t \<Longrightarrow> clock s \<le> clock t"
begin

fun trace :: "'a list \<Rightarrow> 's \<Rightarrow> (int list \<times> 's) result" where
  "trace [] s = Inr ([], s)"
| "trace (a # as) s =
     bindR (step a s) (\<lambda>t. bindR (trace as t) (\<lambda>(cs, u). Inr (clock t # cs, u)))"

lemma run_inv: "foldR step as s = Inr t \<Longrightarrow> list_all ok as \<Longrightarrow> inv s \<Longrightarrow> inv t"
  by (erule foldR_invariant [where P = inv]) (auto simp: list_all_iff intro: step_inv)

lemma run_clock:
  assumes "foldR step as s = Inr t" and "list_all ok as" and "inv s"
  shows "clock s \<le> clock t"
proof -
  have "inv t \<and> clock s \<le> clock t"
    using assms(1)
  proof (rule foldR_invariant [where P = "\<lambda>t. inv t \<and> clock s \<le> clock t"])
    show "inv s \<and> clock s \<le> clock s" using assms(3) by simp
    fix x u v assume "x \<in> set as" "inv u \<and> clock s \<le> clock u" "step x u = Inr v"
    moreover from this(1) assms(2) have "ok x" by (simp add: list_all_iff)
    ultimately show "inv v \<and> clock s \<le> clock v"
      using step_inv [of u x v] step_clock [of u x v] by simp
  qed
  then show ?thesis by simp
qed

lemma trace_run: "trace as s = Inr (cs, t) \<Longrightarrow> foldR step as s = Inr t \<and> length cs = length as"
  by (induction as arbitrary: s cs) (auto simp: bindR_eq_Inr)

lemma trace_sorted:
  "trace as s = Inr (cs, t) \<Longrightarrow> list_all ok as \<Longrightarrow> inv s \<Longrightarrow>
   inv t \<and> sorted (clock s # cs) \<and> (\<forall>c\<in>set cs. c \<le> clock t)"
proof (induction as arbitrary: s cs)
  case (Cons a as)
  then obtain u cs' where u: "step a s = Inr u" "trace as u = Inr (cs', t)" "cs = clock u # cs'"
    by (auto simp: bindR_eq_Inr)
  have "inv u" "clock s \<le> clock u"
    using Cons.prems u step_inv step_clock by auto
  moreover have "clock u \<le> clock t"
    using trace_run [OF u(2)] run_clock [of as u t] Cons.prems \<open>inv u\<close> by simp
  moreover have "inv t \<and> sorted (clock u # cs') \<and> (\<forall>c\<in>set cs'. c \<le> clock t)"
    using Cons.IH [OF u(2)] Cons.prems \<open>inv u\<close> by simp
  ultimately show ?case using u(3) by auto
qed simp

end

end
