(* ===== verification/Arch_Data.thy ===== *)
theory Arch_Data
  imports Prelude
begin

text \<open>
  The enumerations of the cost model
  (\<^verbatim>\<open>include/mlir/Dialect/WaveAMDMachine/CostModel/CostModelEnums.td\<close>) and the
  structural parameters of each GPU target
  (\<^verbatim>\<open>lib/Dialect/WaveAMDMachine/CostModel/ArchData.cpp\<close>), with the compile-time
  sanity checks as a predicate and the lookup by ISA version.

  What LLVM reports for gfx1250 (its ISA version, its subtarget capabilities) is not code of
  the repository: it is the parameter \<open>llvm_env\<close> of the definitions that ask for it.
\<close>

subsection \<open>Enumerations\<close>

datatype SchedClass =
    NoInst | WriteSALU | Write32Bit | Write64Bit
  | WriteFloatFMA | WriteDouble | WriteTrans32 | WriteSFPU
  | Write2PassMAI | Write4PassMAI | Write8PassMAI | Write16PassMAI
  | WriteXDL2PassWMMA | WriteXDL4PassWMMA | Write4PassWMMA | Write8PassWMMA
  | Write16PassWMMA | WriteVMEM | WriteSMEM | WriteLDS
  | WriteTDM | WriteBranch | WriteBarrier | WriteExport
  | WaitcntPseudo | NumSchedClasses

datatype FunctionalUnit =
    VALU | SALU | VMEM | LGKM | MFMA_XDL
  | TRANS | BRANCH | EXPORT | NoFunctionalUnit | NumFunctionalUnits

datatype WaveIssueArbitration =
    UnsupportedWaveIssueArbitration
  | RoundRobinWaveIssueArbitration

datatype MemoryCounterKind =
    MemoryCounterNone | MemoryCounterVmem | MemoryCounterLgkm
  | MemoryCounterVscnt | MemoryCounterTensor | MemoryCounterAsync

datatype InstructionWaitCounterKind =
    InstructionWaitCounterNone | InstructionWaitCounterVmem | InstructionWaitCounterLgkm
  | InstructionWaitCounterVscnt | InstructionWaitCounterExpcnt | InstructionWaitCounterTensor
  | InstructionWaitCounterAsync

datatype InstructionEventClass =
    InstructionEventNone | InstructionEventVmemLoad | InstructionEventVmemStore
  | InstructionEventLdsDs | InstructionEventSmem | InstructionEventMessage
  | InstructionEventExport | InstructionEventTensor | InstructionEventAsync

text \<open>The numeric values the tables are indexed with, and the printed names.\<close>

definition schedClasses :: "SchedClass list" where
  "schedClasses =
     [NoInst, WriteSALU, Write32Bit, Write64Bit, WriteFloatFMA,
      WriteDouble, WriteTrans32, WriteSFPU, Write2PassMAI, Write4PassMAI,
      Write8PassMAI, Write16PassMAI, WriteXDL2PassWMMA, WriteXDL4PassWMMA, Write4PassWMMA,
      Write8PassWMMA, Write16PassWMMA, WriteVMEM, WriteSMEM, WriteLDS,
      WriteTDM, WriteBranch, WriteBarrier, WriteExport, WaitcntPseudo,
      NumSchedClasses]"

fun sched_index :: "SchedClass \<Rightarrow> nat" where
  "sched_index NoInst = 0"
| "sched_index WriteSALU = 1"
| "sched_index Write32Bit = 2"
| "sched_index Write64Bit = 3"
| "sched_index WriteFloatFMA = 4"
| "sched_index WriteDouble = 5"
| "sched_index WriteTrans32 = 6"
| "sched_index WriteSFPU = 7"
| "sched_index Write2PassMAI = 8"
| "sched_index Write4PassMAI = 9"
| "sched_index Write8PassMAI = 10"
| "sched_index Write16PassMAI = 11"
| "sched_index WriteXDL2PassWMMA = 12"
| "sched_index WriteXDL4PassWMMA = 13"
| "sched_index Write4PassWMMA = 14"
| "sched_index Write8PassWMMA = 15"
| "sched_index Write16PassWMMA = 16"
| "sched_index WriteVMEM = 17"
| "sched_index WriteSMEM = 18"
| "sched_index WriteLDS = 19"
| "sched_index WriteTDM = 20"
| "sched_index WriteBranch = 21"
| "sched_index WriteBarrier = 22"
| "sched_index WriteExport = 23"
| "sched_index WaitcntPseudo = 24"
| "sched_index NumSchedClasses = 25"

fun fu_index :: "FunctionalUnit \<Rightarrow> nat" where
  "fu_index VALU = 0"
| "fu_index SALU = 1"
| "fu_index VMEM = 2"
| "fu_index LGKM = 3"
| "fu_index MFMA_XDL = 4"
| "fu_index TRANS = 5"
| "fu_index BRANCH = 6"
| "fu_index EXPORT = 7"
| "fu_index NoFunctionalUnit = 8"
| "fu_index NumFunctionalUnits = 9"

fun getSchedClassName :: "SchedClass \<Rightarrow> string" where
  "getSchedClassName NoInst = ''NoInst''"
| "getSchedClassName WriteSALU = ''WriteSALU''"
| "getSchedClassName Write32Bit = ''Write32Bit''"
| "getSchedClassName Write64Bit = ''Write64Bit''"
| "getSchedClassName WriteFloatFMA = ''WriteFloatFMA''"
| "getSchedClassName WriteDouble = ''WriteDouble''"
| "getSchedClassName WriteTrans32 = ''WriteTrans32''"
| "getSchedClassName WriteSFPU = ''WriteSFPU''"
| "getSchedClassName Write2PassMAI = ''Write2PassMAI''"
| "getSchedClassName Write4PassMAI = ''Write4PassMAI''"
| "getSchedClassName Write8PassMAI = ''Write8PassMAI''"
| "getSchedClassName Write16PassMAI = ''Write16PassMAI''"
| "getSchedClassName WriteXDL2PassWMMA = ''WriteXDL2PassWMMA''"
| "getSchedClassName WriteXDL4PassWMMA = ''WriteXDL4PassWMMA''"
| "getSchedClassName Write4PassWMMA = ''Write4PassWMMA''"
| "getSchedClassName Write8PassWMMA = ''Write8PassWMMA''"
| "getSchedClassName Write16PassWMMA = ''Write16PassWMMA''"
| "getSchedClassName WriteVMEM = ''WriteVMEM''"
| "getSchedClassName WriteSMEM = ''WriteSMEM''"
| "getSchedClassName WriteLDS = ''WriteLDS''"
| "getSchedClassName WriteTDM = ''WriteTDM''"
| "getSchedClassName WriteBranch = ''WriteBranch''"
| "getSchedClassName WriteBarrier = ''WriteBarrier''"
| "getSchedClassName WriteExport = ''WriteExport''"
| "getSchedClassName WaitcntPseudo = ''WaitcntPseudo''"
| "getSchedClassName NumSchedClasses = ''NumSchedClasses''"

definition symbolizeSchedClass :: "string \<Rightarrow> SchedClass option" where
  "symbolizeSchedClass s = find (\<lambda>c. getSchedClassName c = s) schedClasses"

definition kNumFunctionalUnits :: nat where
  "kNumFunctionalUnits = fu_index NumFunctionalUnits"

lemma sched_index_bound: "c \<noteq> NumSchedClasses \<Longrightarrow> sched_index c < 25"
  by (cases c) auto

lemma sched_index_inj: "sched_index c = sched_index d \<longleftrightarrow> c = d"
  by (cases c; cases d) simp_all

lemma fu_index_bound: "u \<noteq> NumFunctionalUnits \<Longrightarrow> fu_index u < kNumFunctionalUnits"
  by (cases u) (auto simp: kNumFunctionalUnits_def)

lemma fu_index_inj: "fu_index u = fu_index v \<longleftrightarrow> u = v"
  by (cases u; cases v) simp_all

lemma set_schedClasses: "c \<in> set schedClasses"
  by (cases c) (simp_all add: schedClasses_def)

subsection \<open>ISA versions and structural parameters\<close>

record isa_version =
  Major :: nat
  Minor :: nat
  Stepping :: nat

definition isaEq :: "isa_version \<Rightarrow> isa_version \<Rightarrow> bool" where
  "isaEq lhs rhs \<longleftrightarrow>
     Major lhs = Major rhs \<and> Minor lhs = Minor rhs \<and> Stepping lhs = Stepping rhs"

lemma isaEq_iff: "isaEq a b \<longleftrightarrow> a = b"
  by (auto simp: isaEq_def)

record arch_data =
  arch_isa :: isa_version
  arch_name :: string
  wavesPerSIMD :: int
  simdsPerCU :: int
  simdIdOffset :: int
  waveIdOffset :: int
  vgprFileSize :: int
  vgprAllocGranule :: int
  valuPipelineDepth :: int
  wave64IssueMultiplier :: int
  issuesPerCUPerCycle :: int
  simdIssueWidth :: int
  simdIssuePeriod :: int
  ldsCounterLatency :: int
  ldsIssuePeriod :: int
  ldsDmaIssueQueueDepth :: int
  ldsDmaIssueLatency :: int
  ldsDmaIssuePeriod :: int
  waveIssueArbitration :: WaveIssueArbitration
  hasMfmaCoissueRestriction :: bool
  mfmaValuCoexecWindowSlots :: int
  mfmaValuCoexecProducerBurst :: int
  agprCountsAgainstVGPRs :: bool
  hasTransCoexecutionHazard :: bool
  hasWmmaCoexecutionHazard :: bool
  hasScratchBaseForwardingHazard :: bool

definition kGfx803 :: arch_data where
  "kGfx803 =
     \<lparr>arch_isa = \<lparr>Major = 8, Minor = 0, Stepping = 3\<rparr>,
      arch_name = ''gfx803'',
      wavesPerSIMD = 10,
      simdsPerCU = 4,
      simdIdOffset = 4,
      waveIdOffset = 0,
      vgprFileSize = 256,
      vgprAllocGranule = 4,
      valuPipelineDepth = 4,
      wave64IssueMultiplier = 1,
      issuesPerCUPerCycle = 5,
      simdIssueWidth = 1,
      simdIssuePeriod = 4,
      ldsCounterLatency = 5,
      ldsIssuePeriod = 0,
      ldsDmaIssueQueueDepth = 0,
      ldsDmaIssueLatency = 0,
      ldsDmaIssuePeriod = 0,
      waveIssueArbitration = RoundRobinWaveIssueArbitration,
      hasMfmaCoissueRestriction = False,
      mfmaValuCoexecWindowSlots = 0,
      mfmaValuCoexecProducerBurst = 0,
      agprCountsAgainstVGPRs = False,
      hasTransCoexecutionHazard = False,
      hasWmmaCoexecutionHazard = False,
      hasScratchBaseForwardingHazard = False\<rparr>"

definition kGfx942 :: arch_data where
  "kGfx942 =
     \<lparr>arch_isa = \<lparr>Major = 9, Minor = 4, Stepping = 2\<rparr>,
      arch_name = ''gfx942'',
      wavesPerSIMD = 8,
      simdsPerCU = 4,
      simdIdOffset = 4,
      waveIdOffset = 0,
      vgprFileSize = 512,
      vgprAllocGranule = 8,
      valuPipelineDepth = 4,
      wave64IssueMultiplier = 1,
      issuesPerCUPerCycle = 5,
      simdIssueWidth = 1,
      simdIssuePeriod = 4,
      ldsCounterLatency = 5,
      ldsIssuePeriod = 0,
      ldsDmaIssueQueueDepth = 0,
      ldsDmaIssueLatency = 0,
      ldsDmaIssuePeriod = 0,
      waveIssueArbitration = RoundRobinWaveIssueArbitration,
      hasMfmaCoissueRestriction = True,
      mfmaValuCoexecWindowSlots = 0,
      mfmaValuCoexecProducerBurst = 0,
      agprCountsAgainstVGPRs = True,
      hasTransCoexecutionHazard = False,
      hasWmmaCoexecutionHazard = False,
      hasScratchBaseForwardingHazard = False\<rparr>"

definition kGfx950 :: arch_data where
  "kGfx950 =
     \<lparr>arch_isa = \<lparr>Major = 9, Minor = 5, Stepping = 0\<rparr>,
      arch_name = ''gfx950'',
      wavesPerSIMD = 8,
      simdsPerCU = 4,
      simdIdOffset = 4,
      waveIdOffset = 0,
      vgprFileSize = 512,
      vgprAllocGranule = 8,
      valuPipelineDepth = 4,
      wave64IssueMultiplier = 1,
      issuesPerCUPerCycle = 5,
      simdIssueWidth = 1,
      simdIssuePeriod = 4,
      ldsCounterLatency = 20,
      ldsIssuePeriod = 4,
      ldsDmaIssueQueueDepth = 7,
      ldsDmaIssueLatency = 180,
      ldsDmaIssuePeriod = 4,
      waveIssueArbitration = RoundRobinWaveIssueArbitration,
      hasMfmaCoissueRestriction = True,
      mfmaValuCoexecWindowSlots = 6,
      mfmaValuCoexecProducerBurst = 2,
      agprCountsAgainstVGPRs = True,
      hasTransCoexecutionHazard = False,
      hasWmmaCoexecutionHazard = False,
      hasScratchBaseForwardingHazard = False\<rparr>"

definition kGfx1100 :: arch_data where
  "kGfx1100 =
     \<lparr>arch_isa = \<lparr>Major = 11, Minor = 0, Stepping = 0\<rparr>,
      arch_name = ''gfx1100'',
      wavesPerSIMD = 16,
      simdsPerCU = 2,
      simdIdOffset = 8,
      waveIdOffset = 0,
      vgprFileSize = 1536,
      vgprAllocGranule = 24,
      valuPipelineDepth = 5,
      wave64IssueMultiplier = 2,
      issuesPerCUPerCycle = 5,
      simdIssueWidth = 1,
      simdIssuePeriod = 1,
      ldsCounterLatency = 20,
      ldsIssuePeriod = 0,
      ldsDmaIssueQueueDepth = 0,
      ldsDmaIssueLatency = 0,
      ldsDmaIssuePeriod = 0,
      waveIssueArbitration = RoundRobinWaveIssueArbitration,
      hasMfmaCoissueRestriction = False,
      mfmaValuCoexecWindowSlots = 0,
      mfmaValuCoexecProducerBurst = 0,
      agprCountsAgainstVGPRs = False,
      hasTransCoexecutionHazard = False,
      hasWmmaCoexecutionHazard = False,
      hasScratchBaseForwardingHazard = False\<rparr>"

definition kGfx1200 :: arch_data where
  "kGfx1200 =
     \<lparr>arch_isa = \<lparr>Major = 12, Minor = 0, Stepping = 0\<rparr>,
      arch_name = ''gfx1200'',
      wavesPerSIMD = 16,
      simdsPerCU = 2,
      simdIdOffset = 8,
      waveIdOffset = 0,
      vgprFileSize = 1536,
      vgprAllocGranule = 24,
      valuPipelineDepth = 5,
      wave64IssueMultiplier = 2,
      issuesPerCUPerCycle = 5,
      simdIssueWidth = 1,
      simdIssuePeriod = 1,
      ldsCounterLatency = 20,
      ldsIssuePeriod = 0,
      ldsDmaIssueQueueDepth = 0,
      ldsDmaIssueLatency = 0,
      ldsDmaIssuePeriod = 0,
      waveIssueArbitration = RoundRobinWaveIssueArbitration,
      hasMfmaCoissueRestriction = False,
      mfmaValuCoexecWindowSlots = 0,
      mfmaValuCoexecProducerBurst = 0,
      agprCountsAgainstVGPRs = False,
      hasTransCoexecutionHazard = False,
      hasWmmaCoexecutionHazard = False,
      hasScratchBaseForwardingHazard = False\<rparr>"

subsection \<open>gfx1250, built from what LLVM reports\<close>

record amdgpu_capabilities =
  cap_isa :: isa_version
  cap_maxWavesPerEU :: nat
  cap_executionUnitsPerCU :: nat
  cap_totalVGPRs :: nat
  cap_vgprAllocationGranule :: nat
  cap_scheduleIssueWidth :: nat
  cap_transCoexecutionHazard :: bool
  cap_wmmaCoexecutionHazard :: bool
  cap_scratchBaseForwardingHazard :: bool

text \<open>
  \<open>getIsaVersion\<close> is \<^verbatim>\<open>llvm::AMDGPU::getIsaVersion\<close>; \<open>gfx1250_name\<close> is
  \<^verbatim>\<open>getArchNameAMDGCN(GK_GFX1250)\<close>; \<open>gfx1250_capabilities\<close> is what
  \<^verbatim>\<open>getAMDGPUTargetCapabilities\<close> derives from LLVM's subtarget description, if it exists.
\<close>

record llvm_env =
  getIsaVersion :: "string \<Rightarrow> isa_version"
  gfx1250_name :: string
  gfx1250_capabilities :: "amdgpu_capabilities option"

definition int_of_u32 :: "nat \<Rightarrow> int" where
  "int_of_u32 n = (let i = int n mod 4294967296 in
     if i < 2147483648 then i else i - 4294967296)"

definition makeGfx1250 :: "llvm_env \<Rightarrow> arch_data option" where
  "makeGfx1250 env =
     (case gfx1250_capabilities env of
        None \<Rightarrow> None
      | Some c \<Rightarrow>
          if cap_scheduleIssueWidth c = 0 then None
          else Some
     \<lparr>arch_isa = cap_isa c,
      arch_name = gfx1250_name env,
      wavesPerSIMD = int_of_u32 (cap_maxWavesPerEU c),
      simdsPerCU = int_of_u32 (cap_executionUnitsPerCU c),
      simdIdOffset = -1,
      waveIdOffset = -1,
      vgprFileSize = int_of_u32 (cap_totalVGPRs c),
      vgprAllocGranule = int_of_u32 (cap_vgprAllocationGranule c),
      valuPipelineDepth = 0,
      wave64IssueMultiplier = 0,
      issuesPerCUPerCycle = 0,
      simdIssueWidth = int_of_u32 (cap_scheduleIssueWidth c),
      simdIssuePeriod = 1,
      ldsCounterLatency = 0,
      ldsIssuePeriod = 0,
      ldsDmaIssueQueueDepth = 0,
      ldsDmaIssueLatency = 0,
      ldsDmaIssuePeriod = 0,
      waveIssueArbitration = UnsupportedWaveIssueArbitration,
      hasMfmaCoissueRestriction = False,
      mfmaValuCoexecWindowSlots = 0,
      mfmaValuCoexecProducerBurst = 0,
      agprCountsAgainstVGPRs = False,
      hasTransCoexecutionHazard = cap_transCoexecutionHazard c,
      hasWmmaCoexecutionHazard = cap_wmmaCoexecutionHazard c,
      hasScratchBaseForwardingHazard = cap_scratchBaseForwardingHazard c\<rparr>)"

definition getGfx1250IsaVersion :: "llvm_env \<Rightarrow> isa_version" where
  "getGfx1250IsaVersion env = getIsaVersion env (gfx1250_name env)"

subsection \<open>Compile-time checks\<close>

definition saneLdsDmaIssue :: "arch_data \<Rightarrow> bool" where
  "saneLdsDmaIssue A \<longleftrightarrow>
     0 \<le> ldsIssuePeriod A \<and> ldsIssuePeriod A \<le> 64 \<and>
     0 \<le> ldsDmaIssueQueueDepth A \<and> ldsDmaIssueQueueDepth A \<le> 64 \<and>
     0 \<le> ldsDmaIssueLatency A \<and> ldsDmaIssueLatency A \<le> 512 \<and>
     (ldsDmaIssueQueueDepth A = 0) = (ldsDmaIssueLatency A = 0) \<and>
     0 \<le> ldsDmaIssuePeriod A \<and> ldsDmaIssuePeriod A \<le> 64 \<and>
     (ldsDmaIssuePeriod A = 0 \<or> ldsDmaIssueQueueDepth A \<noteq> 0)"

definition saneInstructionIssue :: "arch_data \<Rightarrow> bool" where
  "saneInstructionIssue A \<longleftrightarrow>
     (wave64IssueMultiplier A = 1 \<or> wave64IssueMultiplier A = 2) \<and>
     1 \<le> issuesPerCUPerCycle A \<and> issuesPerCUPerCycle A \<le> 8 \<and>
     1 \<le> simdIssueWidth A \<and> simdIssueWidth A \<le> 8 \<and>
     (simdIssuePeriod A = 1 \<or> simdIssuePeriod A = 4) \<and>
     0 \<le> mfmaValuCoexecWindowSlots A \<and> mfmaValuCoexecWindowSlots A \<le> 64 \<and>
     0 \<le> mfmaValuCoexecProducerBurst A \<and> mfmaValuCoexecProducerBurst A \<le> 64 \<and>
     (mfmaValuCoexecWindowSlots A = 0) = (mfmaValuCoexecProducerBurst A = 0)"

definition sane :: "arch_data \<Rightarrow> bool" where
  "sane A \<longleftrightarrow>
     0 < wavesPerSIMD A \<and> wavesPerSIMD A \<le> 32 \<and>
     (simdsPerCU A = 2 \<or> simdsPerCU A = 4) \<and>
     to_u32 (simdIdOffset A) < 32 \<and>
     to_u32 (waveIdOffset A) < 32 \<and>
     256 \<le> vgprFileSize A \<and> vgprFileSize A \<le> 2048 \<and>
     0 < vgprAllocGranule A \<and> vgprFileSize A smod vgprAllocGranule A = 0 \<and>
     1 \<le> valuPipelineDepth A \<and> valuPipelineDepth A \<le> 8 \<and>
     saneInstructionIssue A \<and>
     0 \<le> ldsCounterLatency A \<and> ldsCounterLatency A \<le> 512 \<and>
     saneLdsDmaIssue A"

lemmas sane_defs = sane_def saneInstructionIssue_def saneLdsDmaIssue_def
lemmas static_arch_defs =
  kGfx803_def kGfx942_def kGfx950_def kGfx1100_def kGfx1200_def

lemma sane_static_archs:
  "sane kGfx803" "sane kGfx942" "sane kGfx950" "sane kGfx1100" "sane kGfx1200"
  by (simp_all add: sane_defs static_arch_defs to_u32_def smod_nonneg)

subsection \<open>Lookup\<close>

definition isArchSupported :: "llvm_env \<Rightarrow> isa_version \<Rightarrow> bool" where
  "isArchSupported env isa =
     (if isaEq isa (arch_isa kGfx803) \<or> isaEq isa (arch_isa kGfx942) \<or>
         isaEq isa (arch_isa kGfx950) \<or> isaEq isa (arch_isa kGfx1100) \<or>
         isaEq isa (arch_isa kGfx1200)
      then True
      else isaEq isa (getGfx1250IsaVersion env) \<and> makeGfx1250 env \<noteq> None)"

definition getArchData :: "llvm_env \<Rightarrow> isa_version \<Rightarrow> arch_data result" where
  "getArchData env isa =
     (if isaEq isa (arch_isa kGfx803) then Inr kGfx803
      else if isaEq isa (arch_isa kGfx942) then Inr kGfx942
      else if isaEq isa (arch_isa kGfx950) then Inr kGfx950
      else if isaEq isa (arch_isa kGfx1100) then Inr kGfx1100
      else if isaEq isa (arch_isa kGfx1200) then Inr kGfx1200
      else case (if isaEq isa (getGfx1250IsaVersion env) then makeGfx1250 env else None) of
             Some a \<Rightarrow> Inr a
           | None \<Rightarrow> Inl (FatalError ''ArchData: unsupported IsaVersion''))"

lemma getArchData_crashes_iff: "crashes (getArchData env isa) \<longleftrightarrow> \<not> isArchSupported env isa"
  by (auto simp: getArchData_def isArchSupported_def split: option.splits)

lemma getArchData_sane:
  "getArchData env isa = Inr a \<Longrightarrow> \<not> isaEq isa (getGfx1250IsaVersion env) \<Longrightarrow>
   sane a \<and> arch_isa a = isa"
  by (auto simp: getArchData_def isaEq_iff sane_static_archs split: if_splits)

end
