(* ===== verification/Resource_State.thy ===== *)
theory Resource_State
  imports Arch_Data
begin

text \<open>
  \<^verbatim>\<open>InstructionResourceState\<close>: the calendars of the shared issue resources of one compute
  unit. A calendar holds half-open reservations \<open>[begin, end)\<close> of some units and has a
  capacity. \<open>query_rs\<close> looks for the first cycle at which all uses of an instruction fit;
  \<open>commit_rs\<close> records them. The waves of a SIMD share the SIMD calendars, two SIMDs share a
  pair's calendars, all share those of the compute unit.

  First the model of \<^verbatim>\<open>InstructionResourceState.h/.cpp\<close>, then what it computes: the sweep
  of \<open>canReserve\<close> decides the capacity bound at every cycle, the finite candidate set of
  \<open>query_rs\<close> contains the least feasible cycle, commits keep every calendar within
  capacity, and forgetting finished reservations is unobservable.
\<close>

subsection \<open>Kinds, scopes and records\<close>

datatype InstructionResourceScope = ScopeWave | ScopeSIMD | ScopeSIMDPair | ScopeCU

datatype InstructionResourceKind =
    ResNone | SimdIssue | CuIssue | ValuPipe | SaluPipe | XdlPipe | MfmaCoissue
  | LdsIssue | LdsDmaIssue | NumResources

record wave_placement =
  simd :: nat
  slot :: nat

record resource_use =
  use_kind :: InstructionResourceKind
  use_scope :: InstructionResourceScope
  use_units :: nat
  use_count :: nat
  use_offset :: int
  use_period :: int
  use_duration :: int

record resource_capacities =
  cap_valuPipe :: nat
  cap_saluPipe :: nat
  cap_xdlPipe :: nat

record resource_query =
  readyCycle :: int
  query_kind :: InstructionResourceKind
  query_scope :: InstructionResourceScope

record reservation =
  res_begin :: int
  res_end :: int
  res_units :: nat

record resource_calendar =
  reservations :: "reservation list"
  capacity :: nat

record resource_state =
  simdResources :: "resource_calendar list list"
  simdPairResources :: "resource_calendar list list"
  cuResources :: "resource_calendar list"
  lastCommittedCycle :: int
  waveCount :: nat

subsection \<open>Indices and names\<close>

text \<open>
  A missing equation of the index functions is the \<^verbatim>\<open>llvm_unreachable\<close> default of the
  switch (or the failed range assertion of \<open>resourceIndex\<close>); every caller is guarded by the
  scope of the kind.
\<close>

definition resourceKinds :: "InstructionResourceKind list" where
  "resourceKinds =
     [SimdIssue, CuIssue, ValuPipe, SaluPipe, XdlPipe, MfmaCoissue, LdsIssue, LdsDmaIssue]"

fun resourceIndex :: "InstructionResourceKind \<Rightarrow> nat" where
  "resourceIndex ResNone = 0"
| "resourceIndex SimdIssue = 1"
| "resourceIndex CuIssue = 2"
| "resourceIndex ValuPipe = 3"
| "resourceIndex SaluPipe = 4"
| "resourceIndex XdlPipe = 5"
| "resourceIndex MfmaCoissue = 6"
| "resourceIndex LdsIssue = 7"
| "resourceIndex LdsDmaIssue = 8"

fun simdResourceIndex :: "InstructionResourceKind \<Rightarrow> nat" where
  "simdResourceIndex SimdIssue = 0"
| "simdResourceIndex ValuPipe = 1"
| "simdResourceIndex SaluPipe = 2"
| "simdResourceIndex XdlPipe = 3"
| "simdResourceIndex MfmaCoissue = 4"

fun simdPairResourceIndex :: "InstructionResourceKind \<Rightarrow> nat" where
  "simdPairResourceIndex LdsIssue = 0"
| "simdPairResourceIndex LdsDmaIssue = 1"

fun cuResourceIndex :: "InstructionResourceKind \<Rightarrow> nat" where
  "cuResourceIndex CuIssue = 0"

fun getInstructionResourceScopeName :: "InstructionResourceScope \<Rightarrow> string" where
  "getInstructionResourceScopeName ScopeWave = ''wave''"
| "getInstructionResourceScopeName ScopeSIMD = ''simd''"
| "getInstructionResourceScopeName ScopeSIMDPair = ''simd_pair''"
| "getInstructionResourceScopeName ScopeCU = ''cu''"

definition getInstructionResourceKindName :: "InstructionResourceKind \<Rightarrow> string" where
  "getInstructionResourceKindName kind =
     [''none'', ''simd_issue'', ''cu_issue'', ''valu_pipe'', ''salu_pipe'', ''xdl_pipe'',
      ''mfma_coissue'', ''lds_issue'', ''lds_dma_issue''] ! resourceIndex kind"

definition getInstructionResourceScope :: "InstructionResourceKind \<Rightarrow> InstructionResourceScope" where
  "getInstructionResourceScope kind =
     [ScopeWave, ScopeSIMD, ScopeCU, ScopeSIMD, ScopeSIMD, ScopeSIMD, ScopeSIMD,
      ScopeSIMDPair, ScopeSIMDPair] ! resourceIndex kind"

lemma scope_simps [simp]:
  "getInstructionResourceScope ResNone = ScopeWave"
  "getInstructionResourceScope SimdIssue = ScopeSIMD"
  "getInstructionResourceScope CuIssue = ScopeCU"
  "getInstructionResourceScope ValuPipe = ScopeSIMD"
  "getInstructionResourceScope SaluPipe = ScopeSIMD"
  "getInstructionResourceScope XdlPipe = ScopeSIMD"
  "getInstructionResourceScope MfmaCoissue = ScopeSIMD"
  "getInstructionResourceScope LdsIssue = ScopeSIMDPair"
  "getInstructionResourceScope LdsDmaIssue = ScopeSIMDPair"
  by (simp_all add: getInstructionResourceScope_def)

subsection \<open>Construction\<close>

definition setCapacity :: "nat \<Rightarrow> nat \<Rightarrow> resource_calendar list \<Rightarrow> resource_calendar list" where
  "setCapacity i c domain = domain[i := (domain ! i)\<lparr>capacity := c\<rparr>]"

definition configure :: "InstructionResourceKind \<Rightarrow> nat \<Rightarrow> resource_state \<Rightarrow> resource_state" where
  "configure kind c s =
     (case getInstructionResourceScope kind of
        ScopeSIMD \<Rightarrow>
          s\<lparr>simdResources := map (setCapacity (simdResourceIndex kind) c) (simdResources s)\<rparr>
      | ScopeSIMDPair \<Rightarrow>
          s\<lparr>simdPairResources :=
              map (setCapacity (simdPairResourceIndex kind) c) (simdPairResources s)\<rparr>
      | ScopeCU \<Rightarrow> s\<lparr>cuResources := setCapacity (cuResourceIndex kind) c (cuResources s)\<rparr>
      | ScopeWave \<Rightarrow> undefined)"

definition emptyCalendar :: resource_calendar where
  "emptyCalendar = \<lparr>reservations = [], capacity = 0\<rparr>"

definition init_rs :: "arch_data \<Rightarrow> nat \<Rightarrow> resource_capacities \<Rightarrow> resource_state" where
  "init_rs arch waves capacities =
     (let n = to_u32 (simdsPerCU arch); pairs = to_u32 (simdsPerCU arch sdiv 2);
          s0 = \<lparr>simdResources = replicate n (replicate 5 emptyCalendar),
                simdPairResources = replicate pairs (replicate 2 emptyCalendar),
                cuResources = replicate 1 emptyCalendar,
                lastCommittedCycle = 0, waveCount = waves\<rparr>;
          s1 = configure SimdIssue (to_u32 (simdIssueWidth arch)) s0;
          s2 = configure CuIssue (to_u32 (issuesPerCUPerCycle arch)) s1;
          s3 = configure ValuPipe (cap_valuPipe capacities) s2;
          s4 = configure SaluPipe (cap_saluPipe capacities) s3;
          s5 = configure XdlPipe (cap_xdlPipe capacities) s4;
          s6 = configure MfmaCoissue (if hasMfmaCoissueRestriction arch then 1 else 0) s5;
          s7 = configure LdsIssue (if ldsIssuePeriod arch = 0 then 0 else 1) s6
      in configure LdsDmaIssue (if ldsDmaIssuePeriod arch = 0 then 0 else 1) s7)"

subsection \<open>Calendars\<close>

text \<open>
  \<^verbatim>\<open>getCalendar\<close> returns a reference; \<open>setCalendar\<close> is the write through it. The wave
  argument of the source only feeds an assertion (\<open>wave < waveCount\<close>).
\<close>

definition getCalendar :: "resource_state \<Rightarrow> wave_placement \<Rightarrow> InstructionResourceKind \<Rightarrow>
    resource_calendar" where
  "getCalendar s placement kind =
     (case getInstructionResourceScope kind of
        ScopeSIMD \<Rightarrow> simdResources s ! simd placement ! simdResourceIndex kind
      | ScopeSIMDPair \<Rightarrow>
          simdPairResources s ! (simd placement div 2) ! simdPairResourceIndex kind
      | ScopeCU \<Rightarrow> cuResources s ! cuResourceIndex kind
      | ScopeWave \<Rightarrow> undefined)"

definition setCalendar :: "wave_placement \<Rightarrow> InstructionResourceKind \<Rightarrow> resource_calendar \<Rightarrow>
    resource_state \<Rightarrow> resource_state" where
  "setCalendar placement kind cal s =
     (case getInstructionResourceScope kind of
        ScopeSIMD \<Rightarrow>
          s\<lparr>simdResources := (simdResources s)[simd placement :=
              (simdResources s ! simd placement)[simdResourceIndex kind := cal]]\<rparr>
      | ScopeSIMDPair \<Rightarrow>
          s\<lparr>simdPairResources := (simdPairResources s)[simd placement div 2 :=
              (simdPairResources s ! (simd placement div 2))[simdPairResourceIndex kind := cal]]\<rparr>
      | ScopeCU \<Rightarrow> s\<lparr>cuResources := (cuResources s)[cuResourceIndex kind := cal]\<rparr>
      | ScopeWave \<Rightarrow> undefined)"

definition isEnabled :: "resource_state \<Rightarrow> InstructionResourceKind \<Rightarrow> bool" where
  "isEnabled s kind =
     (if kind = ResNone \<or> kind = NumResources then False
      else capacity (getCalendar s \<lparr>simd = 0, slot = 0\<rparr> kind) \<noteq> 0)"

subsection \<open>Reservations of a use\<close>

definition appendReservations :: "resource_use \<Rightarrow> int \<Rightarrow> reservation list \<Rightarrow> reservation list" where
  "appendReservations use issueCycle rs =
     (if use_kind use = ResNone \<or> use_count use = 0 \<or> use_units use = 0 \<or> use_duration use \<le> 0
      then rs
      else rs @ map (\<lambda>index.
          let offset = saturatingAdd (use_offset use)
                         (saturatingMultiply (int index) (use_period use));
              start = saturatingAdd issueCycle offset
          in \<lparr>res_begin = start, res_end = saturatingAdd start (use_duration use),
              res_units = use_units use\<rparr>) [0..<use_count use])"

text \<open>\<open>additions[kind]\<close>: what the loop over the uses has appended for one kind.\<close>

definition additions :: "resource_use list \<Rightarrow> int \<Rightarrow> InstructionResourceKind \<Rightarrow> reservation list" where
  "additions uses cycle kind =
     fold (\<lambda>use rs. appendReservations use cycle rs) (filter (\<lambda>u. use_kind u = kind) uses) []"

definition reservationEvents :: "reservation list \<Rightarrow> (int \<times> int) list" where
  "reservationEvents rs =
     concat (map (\<lambda>r. [(res_begin r, int (res_units r)), (res_end r, - int (res_units r))]) rs)"

text \<open>The sweep over the sorted events: all events of one cycle are applied together.\<close>

function sweepEvents :: "int \<Rightarrow> int \<Rightarrow> (int \<times> int) list \<Rightarrow> bool" where
  "sweepEvents cap active [] = True"
| "sweepEvents cap active ((cycle, d) # es) =
     (let delta = d + sum_list (map snd (takeWhile (\<lambda>e. fst e = cycle) es));
          active' = active + delta
      in if active' > cap then False
         else sweepEvents cap active' (dropWhile (\<lambda>e. fst e = cycle) es))"
  by pat_completeness auto
termination
  by (relation "measure (\<lambda>(_, _, es). length es)") (auto simp: length_dropWhile_le le_imp_less_Suc)

definition canReserve :: "resource_calendar \<Rightarrow> reservation list \<Rightarrow> bool" where
  "canReserve calendar rs =
     (if rs = [] then True
      else if capacity calendar = 0 then False
      else sweepEvents (int (capacity calendar)) 0
             (sort_key fst (reservationEvents (reservations calendar) @ reservationEvents rs)))"

definition hasReservation :: "resource_use \<Rightarrow> bool" where
  "hasReservation use \<longleftrightarrow>
     use_kind use \<noteq> ResNone \<and> use_duration use > 0 \<and> use_count use \<noteq> 0 \<and> use_units use \<noteq> 0"

definition validateUses :: "resource_state \<Rightarrow> resource_use list \<Rightarrow> bool" where
  "validateUses s uses =
     list_all (\<lambda>use. \<not> hasReservation use \<or>
       \<not> (use_scope use \<noteq> getInstructionResourceScope (use_kind use) \<or>
          \<not> isEnabled s (use_kind use))) uses"

subsection \<open>Query\<close>

definition getCandidateCycles :: "resource_state \<Rightarrow> wave_placement \<Rightarrow> resource_use list \<Rightarrow>
    int \<Rightarrow> int list" where
  "getCandidateCycles s placement uses initialCycle =
     remdups_adj (sort (initialCycle #
       concat (map (\<lambda>use.
         if \<not> hasReservation use then []
         else concat (map (\<lambda>index.
           let offset = saturatingAdd (use_offset use)
                          (saturatingMultiply (int index) (use_period use))
           in concat (map (\<lambda>r.
                if res_end r \<le> offset then []
                else let candidate = res_end r - offset
                     in if candidate > initialCycle then [candidate] else [])
                (reservations (getCalendar s placement (use_kind use)))))
           [0..<use_count use])) uses)))"

text \<open>\<open>None\<close>: everything fits. \<open>Some\<close>: the first blocked kind and its scope.\<close>

definition canReserveAt :: "resource_state \<Rightarrow> wave_placement \<Rightarrow> resource_use list \<Rightarrow> int \<Rightarrow>
    (InstructionResourceKind \<times> InstructionResourceScope) option" where
  "canReserveAt s placement uses cycle =
     map_option (\<lambda>kind. (kind, getInstructionResourceScope kind))
       (find (\<lambda>kind. additions uses cycle kind \<noteq> [] \<and>
                     \<not> canReserve (getCalendar s placement kind) (additions uses cycle kind))
         resourceKinds)"

fun scanCandidates :: "resource_state \<Rightarrow> wave_placement \<Rightarrow> resource_use list \<Rightarrow> int list \<Rightarrow>
    InstructionResourceKind \<Rightarrow> InstructionResourceScope \<Rightarrow> resource_query result" where
  "scanCandidates s placement uses [] blockedKind blockedScope = Inl Failure"
| "scanCandidates s placement uses (candidate # cs) blockedKind blockedScope =
     (case canReserveAt s placement uses candidate of
        None \<Rightarrow> Inr \<lparr>readyCycle = candidate, query_kind = blockedKind,
                      query_scope = blockedScope\<rparr>
      | Some (kind, scope) \<Rightarrow> scanCandidates s placement uses cs kind scope)"

definition query_rs :: "resource_state \<Rightarrow> wave_placement \<Rightarrow> resource_use list \<Rightarrow> int \<Rightarrow>
    resource_query result" where
  "query_rs s placement uses earliestCycle =
     (if \<not> list_ex hasReservation uses
      then Inr \<lparr>readyCycle = earliestCycle, query_kind = ResNone, query_scope = ScopeWave\<rparr>
      else if \<not> validateUses s uses then Inl Failure
      else
        let initialCycle = max earliestCycle (lastCommittedCycle s);
            candidates = getCandidateCycles s placement uses initialCycle;
            blockedKind = (if lastCommittedCycle s > earliestCycle then CuIssue else ResNone)
        in scanCandidates s placement uses candidates blockedKind
             (getInstructionResourceScope blockedKind))"

subsection \<open>Commit\<close>

definition pruneCalendar :: "int \<Rightarrow> resource_calendar \<Rightarrow> resource_calendar" where
  "pruneCalendar cycle cal =
     cal\<lparr>reservations := filter (\<lambda>r. \<not> res_end r \<le> cycle) (reservations cal)\<rparr>"

definition prune_rs :: "int \<Rightarrow> resource_state \<Rightarrow> resource_state" where
  "prune_rs cycle s =
     s\<lparr>simdResources := map (map (pruneCalendar cycle)) (simdResources s),
       simdPairResources := map (map (pruneCalendar cycle)) (simdPairResources s),
       cuResources := map (pruneCalendar cycle) (cuResources s)\<rparr>"

definition appendKind :: "wave_placement \<Rightarrow> resource_use list \<Rightarrow> int \<Rightarrow> InstructionResourceKind \<Rightarrow>
    resource_state \<Rightarrow> resource_state" where
  "appendKind placement uses cycle kind s =
     (if additions uses cycle kind = [] then s
      else let calendar = getCalendar s placement kind
           in setCalendar placement kind
                (calendar\<lparr>reservations := reservations calendar @ additions uses cycle kind\<rparr>) s)"

definition commit_rs :: "wave_placement \<Rightarrow> resource_use list \<Rightarrow> int \<Rightarrow> resource_state \<Rightarrow>
    resource_state" where
  "commit_rs placement uses issueCycle s =
     (fold (appendKind placement uses issueCycle) resourceKinds (prune_rs issueCycle s))
       \<lparr>lastCommittedCycle := issueCycle\<rparr>"

definition getActiveReservationCount :: "resource_state \<Rightarrow> InstructionResourceKind \<Rightarrow>
    wave_placement \<Rightarrow> int \<Rightarrow> nat" where
  "getActiveReservationCount s kind placement cycle =
     (if \<not> isEnabled s kind then 0
      else length (filter (\<lambda>r. res_begin r \<le> cycle \<and> res_end r > cycle)
             (reservations (getCalendar s placement kind))))"


subsection \<open>What a calendar books at a cycle\<close>

text \<open>
  \<open>usage rs t\<close> is the number of units booked at cycle \<open>t\<close>: the specification the event
  sweep is compared with. \<open>level es t\<close> is the partial sum of the events up to \<open>t\<close>.
\<close>

definition covers :: "reservation \<Rightarrow> int \<Rightarrow> bool" where
  "covers r t \<longleftrightarrow> res_begin r \<le> t \<and> t < res_end r"

definition usage :: "reservation list \<Rightarrow> int \<Rightarrow> int" where
  "usage rs t = (\<Sum>r\<leftarrow>rs. if covers r t then int (res_units r) else 0)"

definition level :: "(int \<times> int) list \<Rightarrow> int \<Rightarrow> int" where
  "level es t = (\<Sum>e\<leftarrow>es. if fst e \<le> t then snd e else 0)"

definition forward :: "reservation list \<Rightarrow> bool" where
  "forward rs \<longleftrightarrow> (\<forall>r\<in>set rs. res_begin r \<le> res_end r)"

definition within :: "nat \<Rightarrow> reservation list \<Rightarrow> bool" where
  "within c rs \<longleftrightarrow> (\<forall>t. usage rs t \<le> int c)"

lemma usage_simps [simp]:
  "usage [] t = 0"
  "usage (r # rs) t = (if covers r t then int (res_units r) else 0) + usage rs t"
  "usage (rs @ rs') t = usage rs t + usage rs' t"
  by (simp_all add: usage_def)

lemma level_simps [simp]:
  "level [] t = 0"
  "level (e # es) t = (if fst e \<le> t then snd e else 0) + level es t"
  "level (es @ es') t = level es t + level es' t"
  by (simp_all add: level_def)

lemma forward_simps [simp]:
  "forward []"
  "forward (r # rs) \<longleftrightarrow> res_begin r \<le> res_end r \<and> forward rs"
  "forward (rs @ rs') \<longleftrightarrow> forward rs \<and> forward rs'"
  by (auto simp: forward_def)

lemma reservationEvents_append [simp]:
  "reservationEvents (rs @ rs') = reservationEvents rs @ reservationEvents rs'"
  by (simp add: reservationEvents_def)

lemma usage_nonneg [simp]: "0 \<le> usage rs t"
  by (induction rs) auto

lemma usage_filter_le: "usage (filter P rs) t \<le> usage rs t"
  by (induction rs) auto

lemma usage_filter_covering:
  "(\<And>r. r \<in> set rs \<Longrightarrow> covers r t \<Longrightarrow> P r) \<Longrightarrow> usage (filter P rs) t = usage rs t"
  by (induction rs) auto

lemma usage_none: "(\<And>r. r \<in> set rs \<Longrightarrow> \<not> covers r t) \<Longrightarrow> usage rs t = 0"
  by (induction rs) auto

lemma usage_mono_covers:
  "(\<And>r. r \<in> set rs \<Longrightarrow> covers r t \<Longrightarrow> covers r t') \<Longrightarrow> usage rs t \<le> usage rs t'"
  by (induction rs) auto

lemma within_prefix: "within c (rs @ rs') \<Longrightarrow> within c rs"
  unfolding within_def usage_simps using usage_nonneg [of rs'] by (meson add_increasing2 order_trans order_refl)

lemma within_filter: "within c rs \<Longrightarrow> within c (filter P rs)"
  unfolding within_def using usage_filter_le order_trans by blast

lemma level_reservationEvents:
  "forward rs \<Longrightarrow> level (reservationEvents rs) t = usage rs t"
  by (induction rs) (auto simp: reservationEvents_def covers_def)

lemma level_sort [simp]: "level (sort_key f es) t = level es t"
proof -
  have "level es t = (\<Sum>e\<in>#mset es. if fst e \<le> t then snd e else 0)" for es
    by (simp add: level_def flip: sum_mset_sum_list)
  then show ?thesis by simp
qed

subsection \<open>The sweep decides the capacity bound\<close>

lemma level_split_cycle:
  assumes "sorted (map fst es)" and "\<forall>e\<in>set es. c \<le> fst e" and "c \<le> t"
  shows "level es t = sum_list (map snd (takeWhile (\<lambda>e. fst e = c) es)) +
           level (dropWhile (\<lambda>e. fst e = c) es) t"
  using assms by (induction es) auto

lemma level_before: "\<forall>e\<in>set es. t < fst e \<Longrightarrow> level es t = 0"
  by (induction es) auto

lemma dropWhile_after:
  assumes "sorted (map fst es)" and "\<forall>e\<in>set es. c \<le> fst e"
    and "e \<in> set (dropWhile (\<lambda>e. fst e = c) es)"
  shows "c < fst (e :: int \<times> int)"
  using assms by (induction es) (auto split: if_splits)

lemma sweepEvents_iff:
  "sorted (map fst es) \<Longrightarrow>
   sweepEvents cap active es \<longleftrightarrow> (\<forall>c\<in>fst ` set es. active + level es c \<le> cap)"
proof (induction cap active es rule: sweepEvents.induct)
  case (1 cap active)
  then show ?case by simp
next
  case (2 cap active cycle d es)
  let ?rest = "dropWhile (\<lambda>e. fst e = cycle) es"
  let ?delta = "d + sum_list (map snd (takeWhile (\<lambda>e. fst e = cycle) es))"
  from 2(2) have srt: "sorted (map fst es)" and ge: "\<forall>e\<in>set es. cycle \<le> fst e" by auto
  have rest_sorted: "sorted (map fst ?rest)"
    using srt by (induction es) auto
  have lev: "level ((cycle, d) # es) t = ?delta + level ?rest t" if "cycle \<le> t" for t
    using level_split_cycle [OF srt ge that] that by simp
  have at: "level ?rest cycle = 0"
    by (intro level_before ballI) (rule dropWhile_after [OF srt ge])
  have keys: "fst ` set ((cycle, d) # es) = insert cycle (fst ` set ?rest)"
  proof -
    have "set es = set (takeWhile (\<lambda>e. fst e = cycle) es) \<union> set ?rest"
      by (metis set_append takeWhile_dropWhile_id)
    moreover have "fst ` set (takeWhile (\<lambda>e. fst e = cycle) es) \<subseteq> {cycle}"
      by (auto dest: set_takeWhileD)
    ultimately show ?thesis by auto
  qed
  have later: "cycle \<le> c" if "c \<in> fst ` set ?rest" for c
    using that dropWhile_after [OF srt ge] by force
  have "sweepEvents cap active ((cycle, d) # es) \<longleftrightarrow>
      active + ?delta \<le> cap \<and> (\<forall>c\<in>fst ` set ?rest. active + ?delta + level ?rest c \<le> cap)"
    using 2(1) rest_sorted by (auto simp: Let_def)
  also have "\<dots> \<longleftrightarrow> (\<forall>c\<in>insert cycle (fst ` set ?rest). active + level ((cycle, d) # es) c \<le> cap)"
    using lev at later by (auto simp: add.assoc simp del: level_simps(2))
  finally show ?case by (simp only: keys)
qed

lemma level_at_events:
  assumes "\<forall>c\<in>fst ` set es. level es c \<le> cap" and "0 \<le> cap"
  shows "level es t \<le> cap"
proof (cases "\<exists>e\<in>set es. fst e \<le> t")
  case False
  then show ?thesis using assms(2) level_before [of es t] by force
next
  case True
  define C where "C = {c \<in> fst ` set es. c \<le> t}"
  have C: "finite C" "C \<noteq> {}" using True by (auto simp: C_def)
  have "level es t = level es (Max C)"
  proof -
    have "fst e \<le> t \<longleftrightarrow> fst e \<le> Max C" if "e \<in> set es" for e
    proof -
      have "Max C \<le> t" using Max_in [OF C] by (simp add: C_def)
      moreover have "fst e \<le> Max C" if "fst e \<le> t"
        using C(1) that \<open>e \<in> set es\<close> by (intro Max_ge) (auto simp: C_def)
      ultimately show ?thesis by auto
    qed
    then show ?thesis unfolding level_def by (auto intro!: arg_cong [where f = sum_list])
  qed
  with assms(1) Max_in [OF C] show ?thesis by (auto simp: C_def)
qed

lemma canReserve_within:
  assumes "forward (reservations cal)" and "forward rs"
  shows "canReserve cal rs \<longleftrightarrow>
    rs = [] \<or> capacity cal \<noteq> 0 \<and> within (capacity cal) (reservations cal @ rs)"
proof -
  let ?es = "sort_key fst (reservationEvents (reservations cal) @ reservationEvents rs)"
  have lev: "level ?es t = usage (reservations cal @ rs) t" for t
    using assms by (simp add: level_reservationEvents)
  have "sweepEvents (int (capacity cal)) 0 ?es \<longleftrightarrow>
      (\<forall>c\<in>fst ` set ?es. level ?es c \<le> int (capacity cal))"
    by (subst sweepEvents_iff) simp_all
  also have "\<dots> \<longleftrightarrow> (\<forall>t. level ?es t \<le> int (capacity cal))"
    using level_at_events [of ?es] by auto
  finally have "sweepEvents (int (capacity cal)) 0 ?es \<longleftrightarrow>
      (\<forall>t. usage (reservations cal @ rs) t \<le> int (capacity cal))"
    by (simp only: lev)
  then show ?thesis by (auto simp: canReserve_def within_def)
qed

subsection \<open>Reservations of an instruction at a cycle\<close>

text \<open>
  \<open>fits64 u c\<close>: the reservations of \<open>u\<close>, issued at cycle \<open>c\<close>, end before
  \<^verbatim>\<open>INT64_MAX\<close>, so that the saturating additions are exact. Beyond it the code
  collapses cycles, and no timing statement is meaningful.
\<close>

definition useOffset :: "resource_use \<Rightarrow> nat \<Rightarrow> int" where
  "useOffset u i = use_offset u + int i * use_period u"

definition fits64 :: "resource_use \<Rightarrow> int \<Rightarrow> bool" where
  "fits64 u c \<longleftrightarrow> 0 \<le> use_offset u \<and> 0 \<le> use_period u \<and> 0 \<le> c \<and>
     c + use_offset u + int (use_count u) * use_period u + use_duration u \<le> INT64_MAX"

definition shift :: "int \<Rightarrow> reservation \<Rightarrow> reservation" where
  "shift d r = r\<lparr>res_begin := res_begin r + d, res_end := res_end r + d\<rparr>"

definition placed :: "resource_use \<Rightarrow> int \<Rightarrow> reservation list" where
  "placed u c = map (\<lambda>i. \<lparr>res_begin = c + useOffset u i,
     res_end = c + useOffset u i + use_duration u, res_units = use_units u\<rparr>) [0..<use_count u]"

lemma fits64_antimono: "fits64 u c \<Longrightarrow> 0 \<le> c' \<Longrightarrow> c' \<le> c \<Longrightarrow> fits64 u c'"
  by (auto simp: fits64_def)

lemma placed_shift: "placed u (c + d) = map (shift d) (placed u c)"
  by (simp add: placed_def shift_def)

lemma covers_shift [simp]: "covers (shift d r) t \<longleftrightarrow> covers r (t - d)"
  by (auto simp: covers_def shift_def)

lemma res_units_shift [simp]: "res_units (shift d r) = res_units r"
  by (simp add: shift_def)

lemma usage_shift: "usage (map (shift d) rs) t = usage rs (t - d)"
  by (induction rs) auto

lemma offset_exact:
  assumes "fits64 u c" and "use_duration u > 0" and "i < use_count u"
  shows "saturatingAdd (use_offset u) (saturatingMultiply (int i) (use_period u)) = useOffset u i"
    and "c + useOffset u i + use_duration u \<le> INT64_MAX" and "0 \<le> useOffset u i"
proof -
  have mul: "int i * use_period u \<le> int (use_count u) * use_period u"
    using assms by (intro mult_right_mono) (auto simp: fits64_def)
  have "0 \<le> int i * use_period u" using assms by (auto simp: fits64_def)
  with mul assms show "saturatingAdd (use_offset u) (saturatingMultiply (int i) (use_period u)) =
      useOffset u i" "c + useOffset u i + use_duration u \<le> INT64_MAX" "0 \<le> useOffset u i"
    by (auto simp: fits64_def useOffset_def saturatingMultiply_min saturatingAdd_min min_def)
qed

lemma appendReservations_placed:
  assumes "hasReservation u" and "fits64 u c"
  shows "appendReservations u c rs = rs @ placed u c"
proof -
  have d: "use_duration u > 0" using assms(1) by (simp add: hasReservation_def)
  have "saturatingAdd c (useOffset u i) = c + useOffset u i"
    "saturatingAdd (c + useOffset u i) (use_duration u) = c + useOffset u i + use_duration u"
    if "i < use_count u" for i
    using offset_exact [OF assms(2) d that] d by (auto simp: saturatingAdd_exact)
  with offset_exact(1) [OF assms(2) d] assms(1) show ?thesis
    by (auto simp: appendReservations_def hasReservation_def placed_def Let_def intro!: map_cong)
qed

lemma appendReservations_none: "\<not> hasReservation u \<Longrightarrow> appendReservations u c rs = rs"
  by (auto simp: appendReservations_def hasReservation_def)

lemma forward_appendReservations: "forward (appendReservations u c rs) \<longleftrightarrow> forward rs"
  by (auto simp: appendReservations_def forward_def Let_def saturatingAdd_min)

lemma fold_append_concat:
  "(\<And>x acc. x \<in> set xs \<Longrightarrow> f x acc = acc @ g x) \<Longrightarrow> fold f xs acc = acc @ concat (map g xs)"
  by (induction xs arbitrary: acc) auto

lemma forward_additions [simp]: "forward (additions uses c k)"
proof -
  have "forward (fold (\<lambda>u. appendReservations u c) us rs) \<longleftrightarrow> forward rs" for us rs
    by (induction us arbitrary: rs) (auto simp: forward_appendReservations)
  then show ?thesis by (simp add: additions_def)
qed

definition allFit :: "resource_use list \<Rightarrow> int \<Rightarrow> bool" where
  "allFit uses c \<longleftrightarrow> (\<forall>u\<in>set uses. hasReservation u \<longrightarrow> fits64 u c)"

definition wanted :: "resource_use list \<Rightarrow> InstructionResourceKind \<Rightarrow> resource_use list" where
  "wanted uses k = filter (\<lambda>u. use_kind u = k \<and> hasReservation u) uses"

lemma allFit_antimono: "allFit uses c \<Longrightarrow> 0 \<le> c' \<Longrightarrow> c' \<le> c \<Longrightarrow> allFit uses c'"
  by (auto simp: allFit_def intro: fits64_antimono)

lemma additions_placed:
  assumes "allFit uses c"
  shows "additions uses c k = concat (map (\<lambda>u. placed u c) (wanted uses k))"
proof -
  have "fold (\<lambda>u. appendReservations u c) us rs =
      rs @ concat (map (\<lambda>u. placed u c) (filter hasReservation us))"
    if "set us \<subseteq> set uses" for us rs
    using that assms
    by (induction us arbitrary: rs)
       (auto simp: appendReservations_placed appendReservations_none allFit_def)
  from this [of "filter (\<lambda>u. use_kind u = k) uses" "[]"] show ?thesis
    by (auto simp: additions_def wanted_def intro!: arg_cong [where f = concat] filter_cong)
qed

lemma additions_shift:
  assumes "allFit uses (c + d)" and "0 \<le> c" and "0 \<le> d"
  shows "additions uses (c + d) k = map (shift d) (additions uses c k)"
proof -
  have "allFit uses c" using assms allFit_antimono [of uses "c + d" c] by simp
  with assms(1) show ?thesis by (simp add: additions_placed placed_shift map_concat o_def)
qed

lemma additions_Nil_iff: "additions uses c k = [] \<longleftrightarrow> wanted uses k = []"
proof -
  have "fold (\<lambda>u. appendReservations u c) us rs = [] \<longleftrightarrow> rs = [] \<and> filter hasReservation us = []"
    for us rs
  proof (induction us arbitrary: rs)
    case (Cons u us)
    have "appendReservations u c rs = [] \<longleftrightarrow> rs = [] \<and> \<not> hasReservation u"
      by (auto simp: appendReservations_def hasReservation_def)
    then show ?case by (auto simp: Cons.IH)
  qed simp
  then show ?thesis by (auto simp: additions_def wanted_def filter_empty_conv)
qed

lemma additions_begin:
  assumes "allFit uses c" and "r \<in> set (additions uses c k)"
  shows "\<exists>u\<in>set (wanted uses k). \<exists>i<use_count u. res_begin r = c + useOffset u i \<and>
    0 \<le> useOffset u i \<and> res_begin r < res_end r"
proof -
  from assms obtain u i where "u \<in> set (wanted uses k)" "i < use_count u"
    "r = \<lparr>res_begin = c + useOffset u i, res_end = c + useOffset u i + use_duration u,
          res_units = use_units u\<rparr>"
    by (auto simp: additions_placed placed_def)
  moreover from this assms(1) have "fits64 u c" "use_duration u > 0"
    by (auto simp: wanted_def allFit_def hasReservation_def)
  ultimately show ?thesis using offset_exact(3) by fastforce
qed

subsection \<open>Well-formed states\<close>

definition validPlacement :: "resource_state \<Rightarrow> wave_placement \<Rightarrow> bool" where
  "validPlacement s p \<longleftrightarrow> simd p < length (simdResources s)"

definition calendarOk :: "resource_calendar \<Rightarrow> bool" where
  "calendarOk cal \<longleftrightarrow> forward (reservations cal) \<and> within (capacity cal) (reservations cal) \<and>
     (\<forall>r\<in>set (reservations cal). res_end r \<le> INT64_MAX)"

definition calendars :: "resource_state \<Rightarrow> resource_calendar list" where
  "calendars s = concat (simdResources s) @ concat (simdPairResources s) @ cuResources s"

definition shaped :: "resource_state \<Rightarrow> bool" where
  "shaped s \<longleftrightarrow> length (simdResources s) = 2 * length (simdPairResources s) \<and>
     list_all (\<lambda>d. length d = 5) (simdResources s) \<and>
     list_all (\<lambda>d. length d = 2) (simdPairResources s) \<and> length (cuResources s) = 1"

text \<open>All SIMDs have the same capacities: \<open>isEnabled\<close> looks at the first one only.\<close>

definition uniform :: "resource_state \<Rightarrow> bool" where
  "uniform s \<longleftrightarrow> (\<forall>p k. validPlacement s p \<longrightarrow> k \<in> set resourceKinds \<longrightarrow>
     capacity (getCalendar s p k) = capacity (getCalendar s \<lparr>simd = 0, slot = 0\<rparr> k))"

definition stateOk :: "resource_state \<Rightarrow> bool" where
  "stateOk s \<longleftrightarrow> shaped s \<and> uniform s \<and> list_all calendarOk (calendars s) \<and>
     0 \<le> lastCommittedCycle s \<and> lastCommittedCycle s \<le> INT64_MAX"

lemma resourceKinds_cases:
  "k \<in> set resourceKinds \<longleftrightarrow> k \<noteq> ResNone \<and> k \<noteq> NumResources"
  by (cases k) (simp_all add: resourceKinds_def)

lemma index_bounds:
  "getInstructionResourceScope k = ScopeSIMD \<Longrightarrow> k \<in> set resourceKinds \<Longrightarrow> simdResourceIndex k < 5"
  "getInstructionResourceScope k = ScopeSIMDPair \<Longrightarrow> k \<in> set resourceKinds \<Longrightarrow>
     simdPairResourceIndex k < 2"
  "getInstructionResourceScope k = ScopeCU \<Longrightarrow> k \<in> set resourceKinds \<Longrightarrow> cuResourceIndex k < 1"
  "k \<in> set resourceKinds \<Longrightarrow> getInstructionResourceScope k \<noteq> ScopeWave"
  by (cases k; simp add: resourceKinds_def)+

lemma pair_bound: "shaped s \<Longrightarrow> validPlacement s p \<Longrightarrow> simd p div 2 < length (simdPairResources s)"
  by (auto simp: shaped_def validPlacement_def)

lemma nth_nth_mem: "i < length xss \<Longrightarrow> j < length (xss ! i) \<Longrightarrow> xss ! i ! j \<in> set (concat xss)"
  by (simp, meson nth_mem)

lemma getCalendar_in:
  assumes "shaped s" and "validPlacement s p" and "k \<in> set resourceKinds"
  shows "getCalendar s p k \<in> set (calendars s)"
proof (cases "getInstructionResourceScope k")
  case ScopeSIMD
  have "simdResources s ! simd p ! simdResourceIndex k \<in> set (concat (simdResources s))"
    using assms index_bounds(1) [OF ScopeSIMD]
    by (intro nth_nth_mem) (auto simp: shaped_def validPlacement_def list_all_length)
  with ScopeSIMD show ?thesis by (simp add: getCalendar_def calendars_def)
next
  case ScopeSIMDPair
  have "simdPairResources s ! (simd p div 2) ! simdPairResourceIndex k
      \<in> set (concat (simdPairResources s))"
    using assms index_bounds(2) [OF ScopeSIMDPair] pair_bound [of s p]
    by (intro nth_nth_mem) (auto simp: shaped_def list_all_length)
  with ScopeSIMDPair show ?thesis by (simp add: getCalendar_def calendars_def)
next
  case ScopeCU
  have "cuResources s ! cuResourceIndex k \<in> set (cuResources s)"
    using assms index_bounds(3) [OF ScopeCU] by (intro nth_mem) (auto simp: shaped_def)
  with ScopeCU show ?thesis by (simp add: getCalendar_def calendars_def)
next
  case ScopeWave
  with assms index_bounds(4) show ?thesis by blast
qed

lemma getCalendar_ok:
  "stateOk s \<Longrightarrow> validPlacement s p \<Longrightarrow> k \<in> set resourceKinds \<Longrightarrow> calendarOk (getCalendar s p k)"
  using getCalendar_in by (auto simp: stateOk_def list_all_iff)

subsection \<open>Feasible cycles and the query\<close>

definition feasible :: "resource_state \<Rightarrow> wave_placement \<Rightarrow> resource_use list \<Rightarrow> int \<Rightarrow> bool" where
  "feasible s p uses c \<longleftrightarrow> (\<forall>k\<in>set resourceKinds. wanted uses k \<noteq> [] \<longrightarrow>
     capacity (getCalendar s p k) \<noteq> 0 \<and>
     within (capacity (getCalendar s p k))
       (reservations (getCalendar s p k) @ additions uses c k))"

lemma canReserveAt_None_iff:
  assumes "stateOk s" and "validPlacement s p"
  shows "canReserveAt s p uses c = None \<longleftrightarrow> feasible s p uses c"
  using getCalendar_ok [OF assms]
  by (auto simp: canReserveAt_def feasible_def find_None_iff canReserve_within calendarOk_def
      additions_Nil_iff)

lemma in_concat_map: "c \<in> set (concat (map f xs)) \<longleftrightarrow> (\<exists>x\<in>set xs. c \<in> set (f x))"
  by auto

lemma in_guarded: "c \<in> set (if b then xs else ys) \<longleftrightarrow> (if b then c \<in> set xs else c \<in> set ys)"
  by simp

lemma candidates_iff:
  "c \<in> set (getCandidateCycles s p uses init) \<longleftrightarrow> c = init \<or>
    (\<exists>u\<in>set uses. hasReservation u \<and> (\<exists>i<use_count u.
       \<exists>r\<in>set (reservations (getCalendar s p (use_kind u))).
         let off = saturatingAdd (use_offset u) (saturatingMultiply (int i) (use_period u))
         in off < res_end r \<and> init < res_end r - off \<and> c = res_end r - off))"
  unfolding getCandidateCycles_def remdups_adj_set set_sort list.set(2)
    in_concat_map in_guarded Let_def insert_iff set_upt atLeast0LessThan
  by (rule arg_cong2 [where f = "(\<or>)"]; simp add: not_le Bex_def)
     (intro ex_cong1; fastforce)

lemma candidates_ge: "c \<in> set (getCandidateCycles s p uses init) \<Longrightarrow> init \<le> c"
  by (auto simp: candidates_iff Let_def)

lemma candidates_sorted: "sorted (getCandidateCycles s p uses init)"
  unfolding getCandidateCycles_def by (rule sorted_remdups_adj) (rule sorted_sort)

lemma feasible_step:
  assumes fit: "allFit uses (c + 1)" and feas: "feasible s p uses (c + 1)"
    and init: "0 \<le> init" "init \<le> c" and no: "\<not> feasible s p uses c"
  shows "c + 1 \<in> set (getCandidateCycles s p uses init)"
proof -
  from no feas obtain k t where k: "k \<in> set resourceKinds" "wanted uses k \<noteq> []"
    and over: "int (capacity (getCalendar s p k)) <
      usage (reservations (getCalendar s p k)) t + usage (additions uses c k) t"
    unfolding feasible_def within_def by (fastforce simp: not_le)
  let ?cal = "getCalendar s p k" and ?new = "additions uses (c + 1) k"
  have fits: "usage (reservations ?cal) t' + usage ?new t' \<le> int (capacity ?cal)" for t'
    using feas k by (auto simp: feasible_def within_def)
  have moved: "usage ?new (t + 1) = usage (additions uses c k) t"
    using additions_shift [OF fit] init by (simp add: usage_shift)
  have "usage (reservations ?cal) (t + 1) < usage (reservations ?cal) t"
    using fits [of "t + 1"] over moved by linarith
  then obtain r where r: "r \<in> set (reservations ?cal)" "res_end r = t + 1"
    using usage_mono_covers [of "reservations ?cal" t "t + 1"] by (fastforce simp: covers_def)
  have "usage ?new t < usage ?new (t + 1)"
    using fits [of t] over moved by linarith
  then obtain r' where r': "r' \<in> set ?new" "res_begin r' = t + 1"
    using usage_mono_covers [of ?new "t + 1" t] by (fastforce simp: covers_def)
  from additions_begin [OF fit r'(1)] obtain u i where
    u: "u \<in> set uses" "use_kind u = k" "hasReservation u" "i < use_count u"
       "res_begin r' = c + 1 + useOffset u i"
    by (auto simp: wanted_def)
  have "fits64 u (c + 1)" "use_duration u > 0"
    using fit u by (auto simp: allFit_def hasReservation_def)
  note off = offset_exact(1) [OF this u(4)]
  have "res_end r - useOffset u i = c + 1" using r r' u by simp
  with r u init off show ?thesis
    unfolding candidates_iff Let_def
    by (intro disjI2 bexI [of _ u] conjI exI [of _ i] bexI [of _ r]) auto
qed

lemma feasible_candidate:
  assumes "init \<le> c" and "0 \<le> init" and "allFit uses c" and "feasible s p uses c"
  shows "\<exists>c'\<in>set (getCandidateCycles s p uses init). c' \<le> c \<and> feasible s p uses c'"
  using assms
proof (induction c rule: int_ge_induct)
  case base
  then show ?case by (auto simp: candidates_iff)
next
  case (step c)
  show ?case
  proof (cases "feasible s p uses c")
    case True
    have "allFit uses c" using step.prems step.hyps by (auto intro: allFit_antimono)
    with step.IH step.prems True obtain c' where
      "c' \<in> set (getCandidateCycles s p uses init)" "c' \<le> c" "feasible s p uses c'" by blast
    then show ?thesis by (intro bexI [of _ c']) auto
  next
    case False
    with feasible_step [OF step.prems(2,3,1) step.hyps] step.prems show ?thesis by blast
  qed
qed

lemma scanCandidates_Inr:
  "scanCandidates s p uses cs k sc = Inr q \<Longrightarrow>
   \<exists>as bs. cs = as @ readyCycle q # bs \<and> canReserveAt s p uses (readyCycle q) = None \<and>
     (\<forall>c\<in>set as. canReserveAt s p uses c \<noteq> None)"
proof (induction cs arbitrary: k sc)
  case (Cons c cs)
  show ?case
  proof (cases "canReserveAt s p uses c")
    case None
    with Cons.prems show ?thesis by (auto intro: exI [of _ "[]"])
  next
    case (Some ks)
    with Cons.prems obtain k' sc' where "scanCandidates s p uses cs k' sc' = Inr q"
      by (cases ks) auto
    from Cons.IH [OF this] obtain as bs where "cs = as @ readyCycle q # bs"
      "canReserveAt s p uses (readyCycle q) = None" "\<forall>c\<in>set as. canReserveAt s p uses c \<noteq> None"
      by blast
    with Some show ?thesis by (intro exI [of _ "c # as"] exI [of _ bs]) auto
  qed
qed simp

lemma scanCandidates_Inl:
  "scanCandidates s p uses cs k sc = Inl err \<Longrightarrow>
   err = Failure \<and> (\<forall>c\<in>set cs. canReserveAt s p uses c \<noteq> None)"
  by (induction cs arbitrary: k sc) (auto split: option.splits)

lemma query_rs_Inr:
  assumes "stateOk s" and "validPlacement s p" and "list_ex hasReservation uses"
    and "query_rs s p uses e = Inr q"
  shows "max e (lastCommittedCycle s) \<le> readyCycle q" and "feasible s p uses (readyCycle q)"
    and "c \<in> set (getCandidateCycles s p uses (max e (lastCommittedCycle s))) \<Longrightarrow>
         c < readyCycle q \<Longrightarrow> \<not> feasible s p uses c"
proof -
  let ?cs = "getCandidateCycles s p uses (max e (lastCommittedCycle s))"
  from assms(3,4) obtain k sc where "scanCandidates s p uses ?cs k sc = Inr q"
    by (auto simp: query_rs_def Let_def split: if_splits)
  from scanCandidates_Inr [OF this] obtain as bs where cs: "?cs = as @ readyCycle q # bs"
    and ready: "canReserveAt s p uses (readyCycle q) = None"
    and blocked: "\<forall>c\<in>set as. canReserveAt s p uses c \<noteq> None" by blast
  show "max e (lastCommittedCycle s) \<le> readyCycle q"
    using candidates_ge [of "readyCycle q" s p uses "max e (lastCommittedCycle s)"] cs by simp
  show "feasible s p uses (readyCycle q)"
    using ready by (simp add: canReserveAt_None_iff [OF assms(1,2)])
  assume "c \<in> set ?cs" "c < readyCycle q"
  moreover have "sorted (as @ readyCycle q # bs)" using candidates_sorted cs by metis
  ultimately have "c \<in> set as" using cs by (auto simp: sorted_append)
  then show "\<not> feasible s p uses c"
    using blocked by (simp add: canReserveAt_None_iff [OF assms(1,2)])
qed

lemma query_rs_minimal:
  assumes "stateOk s" and "validPlacement s p" and "list_ex hasReservation uses"
    and "query_rs s p uses e = Inr q" and "allFit uses (readyCycle q)"
    and "max e (lastCommittedCycle s) \<le> c" and "c < readyCycle q"
  shows "\<not> feasible s p uses c"
proof
  assume feas: "feasible s p uses c"
  have "0 \<le> lastCommittedCycle s" using assms(1) by (simp add: stateOk_def)
  then have pos: "0 \<le> max e (lastCommittedCycle s)" by simp
  have "allFit uses c" using assms(5-7) pos by (auto intro: allFit_antimono)
  from feasible_candidate [OF assms(6) pos this feas]
  show False using query_rs_Inr(3) [OF assms(1-4)] assms(7) by fastforce
qed

subsection \<open>The query succeeds\<close>

definition nonneg :: "resource_use list \<Rightarrow> bool" where
  "nonneg uses \<longleftrightarrow> (\<forall>u\<in>set uses. 0 \<le> use_offset u \<and> 0 \<le> use_period u)"

definition selfFits :: "resource_state \<Rightarrow> wave_placement \<Rightarrow> resource_use list \<Rightarrow> bool" where
  "selfFits s p uses \<longleftrightarrow>
     (\<forall>k\<in>set resourceKinds. within (capacity (getCalendar s p k)) (additions uses 0 k))"

definition horizon :: "resource_state \<Rightarrow> int \<Rightarrow> int" where
  "horizon s init = fold max (map res_end (concat (map reservations (calendars s)))) init"

lemma fold_max_ge: "(init :: int) \<le> fold max xs init \<and> (\<forall>x\<in>set xs. x \<le> fold max xs init)"
  by (induction xs arbitrary: init) force+

lemma horizon_ge: "init \<le> horizon s init"
  by (simp add: horizon_def fold_max_ge)

lemma horizon_end:
  "cal \<in> set (calendars s) \<Longrightarrow> r \<in> set (reservations cal) \<Longrightarrow> res_end r \<le> horizon s init"
  unfolding horizon_def
  using fold_max_ge [of init "map res_end (concat (map reservations (calendars s)))"] by auto

lemma saturated_offset_nonneg:
  "0 \<le> a \<Longrightarrow> 0 \<le> b \<Longrightarrow> 0 \<le> saturatingAdd a (saturatingMultiply (int i) b)"
  by (simp add: saturatingMultiply_min saturatingAdd_min INT64_MAX_def)

definition inWindow :: "int \<Rightarrow> reservation \<Rightarrow> bool" where
  "inWindow c r \<longleftrightarrow> c \<le> res_begin r \<and> res_end r \<le> INT64_MAX \<and> (c < INT64_MAX \<longrightarrow> c < res_end r)"

lemma appendReservations_cases:
  assumes "r \<in> set (appendReservations u c rs)"
  obtains "r \<in> set rs"
  | i where
      "res_begin r = saturatingAdd c
         (saturatingAdd (use_offset u) (saturatingMultiply (int i) (use_period u)))"
      "res_end r = saturatingAdd (res_begin r) (use_duration u)" "0 < use_duration u"
proof (cases "r \<in> set rs")
  case False
  with assms have "\<exists>i. res_begin r = saturatingAdd c
         (saturatingAdd (use_offset u) (saturatingMultiply (int i) (use_period u))) \<and>
      res_end r = saturatingAdd (res_begin r) (use_duration u) \<and> 0 < use_duration u"
    unfolding appendReservations_def Let_def by (fastforce split: if_splits)
  then show thesis using that(2) by blast
qed (rule that(1))

lemma appendReservations_inWindow:
  assumes "0 \<le> use_offset u" and "0 \<le> use_period u" and "c \<le> INT64_MAX"
    and "\<forall>r\<in>set rs. inWindow c r"
  shows "\<forall>r\<in>set (appendReservations u c rs). inWindow c r"
proof
  fix r assume "r \<in> set (appendReservations u c rs)"
  then show "inWindow c r"
  proof (cases rule: appendReservations_cases)
    case 1
    then show ?thesis using assms(4) by blast
  next
    case (2 i)
    from saturated_offset_nonneg [OF assms(1,2), of i]
    have "c \<le> res_begin r" using assms(3) unfolding 2(1) saturatingAdd_min [of c] by simp
    with 2(3) show ?thesis
      unfolding inWindow_def 2(2) saturatingAdd_min [of "res_begin r"] by simp
  qed
qed

lemma additions_inWindow:
  assumes "nonneg uses" and "c \<le> INT64_MAX" and "r \<in> set (additions uses c k)"
  shows "inWindow c r"
proof -
  have "\<forall>r\<in>set (fold (\<lambda>u. appendReservations u c) us rs). inWindow c r"
    if "set us \<subseteq> set uses" "\<forall>r\<in>set rs. inWindow c r" for us rs
    using that
  proof (induction us arbitrary: rs)
    case (Cons u us)
    have "\<forall>r\<in>set (appendReservations u c rs). inWindow c r"
      using Cons.prems assms(1,2) by (intro appendReservations_inWindow) (auto simp: nonneg_def)
    with Cons.prems show ?case by (simp add: Cons.IH)
  qed simp
  from this [of "filter (\<lambda>u. use_kind u = k) uses" "[]"]
  have "\<forall>r\<in>set (additions uses c k). inWindow c r"
    by (simp add: additions_def subset_iff)
  with assms(3) show ?thesis by blast
qed

lemma additions_bounds:
  "nonneg uses \<Longrightarrow> c \<le> INT64_MAX \<Longrightarrow> r \<in> set (additions uses c k) \<Longrightarrow>
   c \<le> res_begin r \<and> res_end r \<le> INT64_MAX"
  using additions_inWindow by (simp add: inWindow_def)

lemma validateUses_enabled:
  assumes "validateUses s uses" and "stateOk s" and "validPlacement s p" and "wanted uses k \<noteq> []"
    and "k \<in> set resourceKinds"
  shows "capacity (getCalendar s p k) \<noteq> 0"
proof -
  from assms(1,4) have "isEnabled s k"
    by (auto simp: validateUses_def wanted_def list_all_iff filter_empty_conv)
  with assms(2,3,5) show ?thesis
    by (auto simp: isEnabled_def stateOk_def uniform_def split: if_splits)
qed

lemma selfFits_shift:
  assumes "selfFits s p uses" and "allFit uses c" and "0 \<le> c" and "k \<in> set resourceKinds"
  shows "within (capacity (getCalendar s p k)) (additions uses c k)"
  using assms additions_shift [of uses 0 c k]
  by (simp add: selfFits_def within_def usage_shift)

lemma feasible_horizon:
  assumes "stateOk s" and "validPlacement s p" and "validateUses s uses" and "selfFits s p uses"
    and h: "h = horizon s init" "0 \<le> init" and "allFit uses h" and "nonneg uses" "h \<le> INT64_MAX"
  shows "feasible s p uses h"
  unfolding feasible_def
proof (intro ballI impI conjI)
  fix k assume k: "k \<in> set resourceKinds" and w: "wanted uses k \<noteq> []"
  let ?cal = "getCalendar s p k"
  show "capacity ?cal \<noteq> 0" by (rule validateUses_enabled [OF assms(3,1,2) w k])
  have ok: "calendarOk ?cal" and mem: "?cal \<in> set (calendars s)"
    using getCalendar_ok [OF assms(1,2) k] getCalendar_in [OF _ assms(2) k] assms(1)
    by (auto simp: stateOk_def)
  have pos: "0 \<le> h" using h horizon_ge [of init s] by simp
  show "within (capacity ?cal) (reservations ?cal @ additions uses h k)"
    unfolding within_def
  proof
    fix t
    show "usage (reservations ?cal @ additions uses h k) t \<le> int (capacity ?cal)"
    proof (cases "t < h")
      case True
      then have "usage (additions uses h k) t = 0"
        using additions_bounds [OF assms(8,9)] by (intro usage_none) (force simp: covers_def)
      with ok show ?thesis by (simp add: calendarOk_def within_def)
    next
      case False
      then have "\<not> covers r t" if "r \<in> set (reservations ?cal)" for r
        using horizon_end [OF mem that, of init] h by (auto simp: covers_def)
      then have "usage (reservations ?cal) t = 0" by (rule usage_none)
      with selfFits_shift [OF assms(4,7) pos k] show ?thesis by (simp add: within_def)
    qed
  qed
qed

lemma query_rs_succeeds:
  assumes "stateOk s" and "validPlacement s p" and "validateUses s uses" and "selfFits s p uses"
    and "h = horizon s (max e (lastCommittedCycle s))" and "allFit uses h" and "nonneg uses"
    and "h \<le> INT64_MAX"
  shows "\<exists>q. query_rs s p uses e = Inr q \<and>
    (list_ex hasReservation uses \<longrightarrow> readyCycle q \<le> h)"
proof (cases "list_ex hasReservation uses")
  case False
  then show ?thesis by (simp add: query_rs_def)
next
  case True
  let ?init = "max e (lastCommittedCycle s)"
  have "0 \<le> lastCommittedCycle s" using assms(1) by (simp add: stateOk_def)
  then have pos: "0 \<le> ?init" by simp
  have "feasible s p uses h"
    using feasible_horizon [OF assms(1-5) pos assms(6-8)] .
  with feasible_candidate [of ?init h uses s p] horizon_ge [of ?init s] assms(5,6) pos obtain c where
    c: "c \<in> set (getCandidateCycles s p uses ?init)" "c \<le> h" "feasible s p uses c" by auto
  show ?thesis
  proof (cases "query_rs s p uses e")
    case (Inl err)
    with True assms(3) c show ?thesis
      by (auto simp: query_rs_def Let_def dest!: scanCandidates_Inl
          simp: canReserveAt_None_iff [OF assms(1,2), symmetric])
  next
    case (Inr q)
    have "readyCycle q \<le> h"
      using query_rs_Inr(3) [OF assms(1,2) True Inr c(1)] c by fastforce
    with Inr show ?thesis by simp
  qed
qed

subsection \<open>Pruned reservations are unobservable\<close>

lemma within_prune:
  assumes "within c rs" and "\<forall>r\<in>set new. d \<le> res_begin r"
  shows "within c (filter (\<lambda>r. \<not> res_end r \<le> d) rs @ new) \<longleftrightarrow> within c (rs @ new)"
proof -
  let ?old = "filter (\<lambda>r. \<not> res_end r \<le> d) rs"
  have "usage (?old @ new) t \<le> int c \<longleftrightarrow> usage (rs @ new) t \<le> int c" for t
  proof (cases "t < d")
    case True
    then have "usage new t = 0"
      using assms(2) by (intro usage_none) (auto simp: covers_def)
    moreover have "usage ?old t \<le> usage rs t" by (rule usage_filter_le)
    moreover have "usage rs t \<le> int c" using assms(1) by (simp add: within_def)
    ultimately show ?thesis by simp
  next
    case False
    then have "usage ?old t = usage rs t"
      by (intro usage_filter_covering) (auto simp: covers_def)
    then show ?thesis by simp
  qed
  then show ?thesis by (simp add: within_def)
qed

lemma prune_rs_simps [simp]:
  "length (simdResources (prune_rs d s)) = length (simdResources s)"
  "length (simdPairResources (prune_rs d s)) = length (simdPairResources s)"
  "length (cuResources (prune_rs d s)) = length (cuResources s)"
  "lastCommittedCycle (prune_rs d s) = lastCommittedCycle s"
  "validPlacement (prune_rs d s) p = validPlacement s p"
  "calendars (prune_rs d s) = map (pruneCalendar d) (calendars s)"
  by (simp_all add: prune_rs_def validPlacement_def calendars_def map_concat)

lemma pruneCalendar_simps [simp]:
  "capacity (pruneCalendar d cal) = capacity cal"
  "reservations (pruneCalendar d cal) = filter (\<lambda>r. \<not> res_end r \<le> d) (reservations cal)"
  by (simp_all add: pruneCalendar_def)

lemma calendarOk_prune: "calendarOk cal \<Longrightarrow> calendarOk (pruneCalendar d cal)"
  by (auto simp: calendarOk_def forward_def intro: within_filter)

lemma shaped_prune [simp]: "shaped (prune_rs d s) = shaped s"
  by (simp add: shaped_def list_all_iff) (simp add: prune_rs_def)

lemma getCalendar_prune:
  assumes "shaped s" and "validPlacement s p" and "k \<in> set resourceKinds"
  shows "getCalendar (prune_rs d s) p k = pruneCalendar d (getCalendar s p k)"
  using assms index_bounds [of k] pair_bound [of s p]
  by (cases "getInstructionResourceScope k")
     (simp_all add: getCalendar_def prune_rs_def shaped_def validPlacement_def list_all_length)

lemma first_valid: "validPlacement s p \<Longrightarrow> validPlacement s \<lparr>simd = 0, slot = 0\<rparr>"
  by (auto simp: validPlacement_def)

lemma capacity_prune:
  "shaped s \<Longrightarrow> validPlacement s p \<Longrightarrow> k \<in> set resourceKinds \<Longrightarrow>
   capacity (getCalendar (prune_rs d s) p k) = capacity (getCalendar s p k)"
  by (simp add: getCalendar_prune)

lemma uniform_prune:
  assumes "shaped s" and "uniform s"
  shows "uniform (prune_rs d s)"
  unfolding uniform_def
proof (intro allI impI)
  fix p k assume "validPlacement (prune_rs d s) p" and k: "k \<in> set resourceKinds"
  then have p: "validPlacement s p" by simp
  have "capacity (getCalendar s p k) = capacity (getCalendar s \<lparr>simd = 0, slot = 0\<rparr> k)"
    using assms(2) p k unfolding uniform_def by blast
  then show "capacity (getCalendar (prune_rs d s) p k) =
      capacity (getCalendar (prune_rs d s) \<lparr>simd = 0, slot = 0\<rparr> k)"
    by (simp only: capacity_prune [OF assms(1) p k] capacity_prune [OF assms(1) first_valid [OF p] k])
qed

lemma stateOk_prune: "stateOk s \<Longrightarrow> stateOk (prune_rs d s)"
  by (simp add: stateOk_def uniform_prune list_all_iff calendarOk_prune)

lemma isEnabled_prune:
  assumes "shaped s" and "validPlacement s p"
  shows "isEnabled (prune_rs d s) k = isEnabled s k"
  using assms first_valid [OF assms(2)]
  by (simp add: isEnabled_def getCalendar_prune resourceKinds_cases)

lemma canReserveAt_prune:
  assumes "stateOk s" and "validPlacement s p" and "nonneg uses" and "d \<le> c" and "c \<le> INT64_MAX"
  shows "canReserveAt (prune_rs d s) p uses c = canReserveAt s p uses c"
proof -
  have "canReserve (getCalendar (prune_rs d s) p k) (additions uses c k) =
      canReserve (getCalendar s p k) (additions uses c k)" if k: "k \<in> set resourceKinds" for k
  proof -
    have ok: "calendarOk (getCalendar s p k)" by (rule getCalendar_ok [OF assms(1,2) k])
    have "\<forall>r\<in>set (additions uses c k). d \<le> res_begin r"
      using additions_bounds [OF assms(3,5)] assms(4) by fastforce
    with ok have "canReserve (pruneCalendar d (getCalendar s p k)) (additions uses c k) =
        canReserve (getCalendar s p k) (additions uses c k)"
      using calendarOk_prune [OF ok, of d]
      by (simp add: calendarOk_def canReserve_within within_prune)
    with assms(1,2) k show ?thesis by (simp add: getCalendar_prune stateOk_def)
  qed
  then show ?thesis
    unfolding canReserveAt_def by (intro arg_cong [where f = "map_option _"] find_cong) auto
qed

lemma scanCandidates_prune:
  assumes "stateOk s" and "validPlacement s p" and "nonneg uses"
    and "\<forall>c\<in>set cs. d \<le> c \<and> c \<le> INT64_MAX"
  shows "scanCandidates (prune_rs d s) p uses cs k sc = scanCandidates s p uses cs k sc"
  using assms(4) canReserveAt_prune [OF assms(1-3)]
  by (induction cs arbitrary: k sc) (auto split: option.splits)

lemma strict_remdups_adj: "sorted (xs :: int list) \<Longrightarrow> sorted_wrt (<) (remdups_adj xs)"
proof (induction xs rule: remdups_adj.induct)
  case (3 x y xs)
  then show ?case by (cases "x = y") (auto dest: order.not_eq_order_implies_strict)
qed simp_all

lemma sorted_candidates_unique:
  "sorted (xs :: int list) \<Longrightarrow> sorted ys \<Longrightarrow> set xs = set ys \<Longrightarrow> remdups_adj xs = remdups_adj ys"
  by (intro strict_sorted_equal) (simp_all add: strict_remdups_adj)

lemma candidates_prune:
  assumes "stateOk s" and "validPlacement s p" and "nonneg uses" and "d \<le> init"
    and "validateUses s uses"
  shows "getCandidateCycles (prune_rs d s) p uses init = getCandidateCycles s p uses init"
proof (rule strict_sorted_equal)
  show "sorted_wrt (<) (getCandidateCycles (prune_rs d s) p uses init)"
    "sorted_wrt (<) (getCandidateCycles s p uses init)"
    unfolding getCandidateCycles_def by (intro strict_remdups_adj sorted_sort)+
  have cal: "reservations (getCalendar (prune_rs d s) p (use_kind u)) =
      filter (\<lambda>r. \<not> res_end r \<le> d) (reservations (getCalendar s p (use_kind u)))"
    if "u \<in> set uses" "hasReservation u" for u
  proof -
    have "isEnabled s (use_kind u)"
      using assms(5) that by (auto simp: validateUses_def list_all_iff)
    then have "use_kind u \<in> set resourceKinds"
      by (auto simp: isEnabled_def resourceKinds_cases split: if_splits)
    with assms(1,2) show ?thesis by (simp add: stateOk_def getCalendar_prune)
  qed
  have off: "0 \<le> saturatingAdd (use_offset u) (saturatingMultiply (int i) (use_period u))"
    if "u \<in> set uses" for u i
    using that assms(3) by (auto simp: nonneg_def intro: saturated_offset_nonneg)
  have "c \<in> set (getCandidateCycles (prune_rs d s) p uses init) \<longleftrightarrow>
      c \<in> set (getCandidateCycles s p uses init)" for c
  proof -
    let ?off = "\<lambda>u i. saturatingAdd (use_offset u) (saturatingMultiply (int i) (use_period u))"
    have "(\<exists>r\<in>set (reservations (getCalendar (prune_rs d s) p (use_kind u))).
          ?off u i < res_end r \<and> init < res_end r - ?off u i \<and> c = res_end r - ?off u i) \<longleftrightarrow>
        (\<exists>r\<in>set (reservations (getCalendar s p (use_kind u))).
          ?off u i < res_end r \<and> init < res_end r - ?off u i \<and> c = res_end r - ?off u i)"
      if "u \<in> set uses" "hasReservation u" for u i
    proof -
      have "\<not> res_end r \<le> d" if "init < res_end r - ?off u i" for r :: reservation
        using off [OF \<open>u \<in> set uses\<close>, of i] assms(4) that by linarith
      then show ?thesis unfolding cal [OF that] by auto
    qed
    then show ?thesis unfolding candidates_iff Let_def by (intro arg_cong2 [where f = "(\<or>)"] refl bex_cong) blast
  qed
  then show "set (getCandidateCycles (prune_rs d s) p uses init) =
      set (getCandidateCycles s p uses init)" by blast
qed

lemma validateUses_prune:
  "shaped s \<Longrightarrow> validPlacement s p \<Longrightarrow> validateUses (prune_rs d s) uses = validateUses s uses"
  by (simp add: validateUses_def isEnabled_prune)

lemma candidates_le:
  assumes "stateOk s" and "validPlacement s p" and "nonneg uses" and "validateUses s uses"
    and "init \<le> INT64_MAX" and "c \<in> set (getCandidateCycles s p uses init)"
  shows "c \<le> INT64_MAX"
  using assms(6) unfolding candidates_iff Let_def
proof (elim disjE bexE exE conjE)
  fix u i r
  assume u: "u \<in> set uses" "hasReservation u" and r: "r \<in> set (reservations (getCalendar s p (use_kind u)))"
    and c: "c = res_end r - saturatingAdd (use_offset u) (saturatingMultiply (int i) (use_period u))"
  have "isEnabled s (use_kind u)"
    using assms(4) u by (auto simp: validateUses_def list_all_iff)
  then have "use_kind u \<in> set resourceKinds"
    by (auto simp: isEnabled_def resourceKinds_cases split: if_splits)
  from getCalendar_ok [OF assms(1,2) this] r have "res_end r \<le> INT64_MAX"
    by (simp add: calendarOk_def)
  moreover have "0 \<le> use_offset u" "0 \<le> use_period u" using u assms(3) by (auto simp: nonneg_def)
  from saturated_offset_nonneg [OF this, of i] have
    "0 \<le> saturatingAdd (use_offset u) (saturatingMultiply (int i) (use_period u))" .
  ultimately show "c \<le> INT64_MAX" using c by simp
qed (use assms(5) in simp)

lemma query_rs_prune:
  assumes "stateOk s" and "validPlacement s p" and "nonneg uses" and "d \<le> lastCommittedCycle s"
    and "e \<le> INT64_MAX"
  shows "query_rs (prune_rs d s) p uses e = query_rs s p uses e"
proof (cases "validateUses s uses")
  case True
  let ?init = "max e (lastCommittedCycle s)"
  have init: "?init \<le> INT64_MAX" "d \<le> ?init" using assms by (simp_all add: stateOk_def)
  have "\<forall>c\<in>set (getCandidateCycles s p uses ?init). d \<le> c \<and> c \<le> INT64_MAX"
    using candidates_le [OF assms(1-3) True init(1)]
      order_trans [OF init(2) candidates_ge [of _ s p uses ?init]] by blast
  note scan = scanCandidates_prune [OF assms(1-3) this]
  have "validateUses (prune_rs d s) uses"
    using True validateUses_prune [OF _ assms(2)] assms(1) by (simp add: stateOk_def)
  with True show ?thesis
    unfolding query_rs_def Let_def prune_rs_simps candidates_prune [OF assms(1-3) init(2) True] scan
    by simp
next
  case False
  with assms validateUses_prune [OF _ assms(2), of d uses] show ?thesis
    by (simp add: query_rs_def stateOk_def)
qed

subsection \<open>Commit\<close>

text \<open>
  A store of calendars indexed by kind: what \<open>getCalendar\<close> and \<open>setCalendar\<close> promise for one
  placement. The client result is the calendar after the loop of \<^verbatim>\<open>commit\<close> over the
  kinds.
\<close>

locale keyed_store =
  fixes valid :: "'s \<Rightarrow> bool"
    and keys :: "'k set"
    and lookup_at :: "'s \<Rightarrow> 'k \<Rightarrow> 'c"
    and store_at :: "'k \<Rightarrow> 'c \<Rightarrow> 's \<Rightarrow> 's"
  assumes store_valid: "valid s \<Longrightarrow> k \<in> keys \<Longrightarrow> valid (store_at k c s)"
    and lookup_store: "valid s \<Longrightarrow> k \<in> keys \<Longrightarrow> k' \<in> keys \<Longrightarrow>
      lookup_at (store_at k c s) k' = (if k' = k then c else lookup_at s k')"
begin

definition update_at :: "('k \<Rightarrow> bool) \<Rightarrow> ('k \<Rightarrow> 'c \<Rightarrow> 'c) \<Rightarrow> 'k \<Rightarrow> 's \<Rightarrow> 's" where
  "update_at skip f k s = (if skip k then s else store_at k (f k (lookup_at s k)) s)"

lemma fold_update:
  assumes "valid s" and "set ks \<subseteq> keys" and "distinct ks" and "k \<in> keys"
  shows "valid (fold (update_at skip f) ks s) \<and>
    lookup_at (fold (update_at skip f) ks s) k =
      (if k \<in> set ks \<and> \<not> skip k then f k (lookup_at s k) else lookup_at s k)"
  using assms
proof (induction ks arbitrary: s)
  case (Cons k' ks)
  have v: "valid (update_at skip f k' s)"
    using Cons.prems by (simp add: update_at_def store_valid)
  have l: "lookup_at (update_at skip f k' s) k =
      (if k = k' \<and> \<not> skip k then f k (lookup_at s k) else lookup_at s k)"
    using Cons.prems by (auto simp: update_at_def lookup_store)
  show ?case
    using Cons.IH [OF v] Cons.prems l by auto
qed simp

end

lemma length_nested_update:
  "n < length xs \<Longrightarrow> length (xs[i := (xs ! i)[j := c]] ! n) = length (xs ! n)"
  by (cases "i = n") auto

lemma setCalendar_shape:
  assumes "k \<in> set resourceKinds"
  shows "shaped s \<Longrightarrow> shaped (setCalendar p k cal s)"
    and "validPlacement (setCalendar p k cal s) p' = validPlacement s p'"
    and "lastCommittedCycle (setCalendar p k cal s) = lastCommittedCycle s"
proof -
  show "shaped s \<Longrightarrow> shaped (setCalendar p k cal s)"
    using assms index_bounds(4)
    by (cases "getInstructionResourceScope k")
       (auto simp: setCalendar_def shaped_def list_all_length length_nested_update)
  show "validPlacement (setCalendar p k cal s) p' = validPlacement s p'"
    "lastCommittedCycle (setCalendar p k cal s) = lastCommittedCycle s"
    using assms index_bounds(4)
    by (cases "getInstructionResourceScope k"; auto simp: setCalendar_def validPlacement_def)+
qed

lemma kind_index_inj:
  assumes "k \<in> set resourceKinds" and "k' \<in> set resourceKinds"
    and "getInstructionResourceScope k = getInstructionResourceScope k'"
  shows "getInstructionResourceScope k = ScopeSIMD \<Longrightarrow>
      simdResourceIndex k = simdResourceIndex k' \<longleftrightarrow> k = k'"
    and "getInstructionResourceScope k = ScopeSIMDPair \<Longrightarrow>
      simdPairResourceIndex k = simdPairResourceIndex k' \<longleftrightarrow> k = k'"
    and "getInstructionResourceScope k = ScopeCU \<Longrightarrow> k = k'"
  using assms unfolding resourceKinds_cases
  by (cases k; simp; cases k'; simp)+

text \<open>The wave placements that share the calendar of a kind with \<open>p\<close>.\<close>

definition sharesCalendar :: "InstructionResourceKind \<Rightarrow> wave_placement \<Rightarrow> wave_placement \<Rightarrow> bool" where
  "sharesCalendar k p p' =
     (case getInstructionResourceScope k of
        ScopeSIMD \<Rightarrow> simd p = simd p'
      | ScopeSIMDPair \<Rightarrow> simd p div 2 = simd p' div 2
      | _ \<Rightarrow> True)"

lemma getCalendar_setCalendar:
  assumes "shaped s" and "validPlacement s p" and "validPlacement s p'"
    and "k \<in> set resourceKinds" and "k' \<in> set resourceKinds"
  shows "getCalendar (setCalendar p k cal s) p' k' =
    (if k' = k \<and> sharesCalendar k p p' then cal else getCalendar s p' k')"
proof (cases "getInstructionResourceScope k' = getInstructionResourceScope k")
  case False
  then have "k' \<noteq> k" by blast
  with False index_bounds(4) [OF assms(4)] show ?thesis
    by (cases "getInstructionResourceScope k"; cases "getInstructionResourceScope k'";
        simp add: getCalendar_def setCalendar_def)
next
  case True
  note inj = kind_index_inj [OF assms(5,4) True]
  show ?thesis
  proof (cases "getInstructionResourceScope k")
    case ScopeWave
    with assms(4) index_bounds(4) show ?thesis by blast
  next
    case ScopeSIMD
    with True assms inj(1) index_bounds(1) [of k] show ?thesis
      by (auto simp: getCalendar_def setCalendar_def sharesCalendar_def shaped_def
          validPlacement_def list_all_length nth_list_update)
  next
    case ScopeSIMDPair
    with True assms inj(2) index_bounds(2) [of k] pair_bound [of s] show ?thesis
      by (auto simp: getCalendar_def setCalendar_def sharesCalendar_def shaped_def
          list_all_length nth_list_update)
  next
    case ScopeCU
    with True assms inj(3) index_bounds(3) [of k] show ?thesis
      by (auto simp: getCalendar_def setCalendar_def sharesCalendar_def shaped_def)
  qed
qed

lemma sharesCalendar_refl [simp]: "sharesCalendar k p p"
  by (simp add: sharesCalendar_def split: InstructionResourceScope.splits)

interpretation calendar_store: keyed_store
  "\<lambda>s. shaped s \<and> validPlacement s p" "set resourceKinds" "\<lambda>s. getCalendar s p"
  "setCalendar p" for p
  by unfold_locales (auto simp: setCalendar_shape getCalendar_setCalendar)

definition booksOk :: "resource_state \<Rightarrow> bool" where
  "booksOk s \<longleftrightarrow> shaped s \<and> uniform s \<and> list_all calendarOk (calendars s)"

lemma stateOk_booksOk:
  "stateOk s \<longleftrightarrow> booksOk s \<and> 0 \<le> lastCommittedCycle s \<and> lastCommittedCycle s \<le> INT64_MAX"
  by (auto simp: stateOk_def booksOk_def)

lemma in_nested_update:
  assumes "x \<in> set (concat (xss[i := (xss ! i)[j := c]]))" and "x \<noteq> c"
  shows "x \<in> set (concat xss)"
proof (cases "i < length xss")
  case True
  from assms(1) obtain ys where ys: "ys \<in> set (xss[i := (xss ! i)[j := c]])" "x \<in> set ys" by auto
  then consider "ys \<in> set xss" | "ys = (xss ! i)[j := c]"
    using set_update_subset_insert by fastforce
  then show ?thesis
  proof cases
    case 2
    then have "x \<in> set (xss ! i)"
      using ys(2) assms(2) set_update_subset_insert [of "xss ! i" j c] by auto
    then show ?thesis using nth_mem [OF True] by auto
  qed (use ys in auto)
qed (use assms in \<open>simp add: list_update_beyond\<close>)

lemma calendars_setCalendar:
  assumes "k \<in> set resourceKinds" and "x \<in> set (calendars (setCalendar p k cal s))" and "x \<noteq> cal"
  shows "x \<in> set (calendars s)"
proof (cases "getInstructionResourceScope k")
  case ScopeWave
  with index_bounds(4) [OF assms(1)] show ?thesis by blast
next
  case ScopeCU
  then have "setCalendar p k cal s =
      s\<lparr>cuResources := (cuResources s)[cuResourceIndex k := cal]\<rparr>" by (simp add: setCalendar_def)
  with assms(2) have "x \<in> set (concat (simdResources s)) \<or>
      x \<in> set (concat (simdPairResources s)) \<or>
      x \<in> set ((cuResources s)[cuResourceIndex k := cal])"
    by (simp add: calendars_def del: set_concat)
  then have "x \<in> set (concat (simdResources s)) \<or>
      x \<in> set (concat (simdPairResources s)) \<or> x \<in> set (cuResources s)"
    using assms(3) set_update_subset_insert [of "cuResources s" "cuResourceIndex k" cal] by blast
  then show ?thesis by (simp add: calendars_def del: set_concat)
next
  case ScopeSIMD
  then have "setCalendar p k cal s = s\<lparr>simdResources := (simdResources s)[simd p :=
      (simdResources s ! simd p)[simdResourceIndex k := cal]]\<rparr>" by (simp add: setCalendar_def)
  with assms(2) have "x \<in> set (concat ((simdResources s)[simd p :=
      (simdResources s ! simd p)[simdResourceIndex k := cal]])) \<or>
      x \<in> set (concat (simdPairResources s)) \<or> x \<in> set (cuResources s)"
    by (simp add: calendars_def del: set_concat)
  then have "x \<in> set (concat (simdResources s)) \<or>
      x \<in> set (concat (simdPairResources s)) \<or> x \<in> set (cuResources s)"
    using in_nested_update [OF _ assms(3)] by blast
  then show ?thesis by (simp add: calendars_def del: set_concat)
next
  case ScopeSIMDPair
  then have "setCalendar p k cal s = s\<lparr>simdPairResources := (simdPairResources s)[simd p div 2 :=
      (simdPairResources s ! (simd p div 2))[simdPairResourceIndex k := cal]]\<rparr>"
    by (simp add: setCalendar_def)
  with assms(2) have "x \<in> set (concat (simdResources s)) \<or>
      x \<in> set (concat ((simdPairResources s)[simd p div 2 :=
        (simdPairResources s ! (simd p div 2))[simdPairResourceIndex k := cal]])) \<or>
      x \<in> set (cuResources s)"
    by (simp add: calendars_def del: set_concat)
  then have "x \<in> set (concat (simdResources s)) \<or>
      x \<in> set (concat (simdPairResources s)) \<or> x \<in> set (cuResources s)"
    using in_nested_update [OF _ assms(3)] by blast
  then show ?thesis by (simp add: calendars_def del: set_concat)
qed

lemma getCalendar_shared: "sharesCalendar k p p' \<Longrightarrow> getCalendar s p' k = getCalendar s p k"
  by (cases "getInstructionResourceScope k") (auto simp: sharesCalendar_def getCalendar_def)

lemma booksOk_setCalendar:
  assumes "booksOk s" and p: "validPlacement s p" and k: "k \<in> set resourceKinds"
    and "calendarOk cal" and same: "capacity cal = capacity (getCalendar s p k)"
  shows "booksOk (setCalendar p k cal s)"
proof -
  have sh: "shaped s" and un: "uniform s" using assms(1) by (auto simp: booksOk_def)
  have cap: "capacity (getCalendar (setCalendar p k cal s) p' k') = capacity (getCalendar s p' k')"
    if "validPlacement s p'" "k' \<in> set resourceKinds" for p' k'
    using getCalendar_setCalendar [OF sh p that(1) k that(2), of cal] same getCalendar_shared
    by metis
  have "uniform (setCalendar p k cal s)"
    unfolding uniform_def
  proof (intro allI impI)
    fix p' k' assume "validPlacement (setCalendar p k cal s) p'" and k': "k' \<in> set resourceKinds"
    then have p': "validPlacement s p'" by (simp add: setCalendar_shape [OF k])
    have "capacity (getCalendar s p' k') = capacity (getCalendar s \<lparr>simd = 0, slot = 0\<rparr> k')"
      using un p' k' unfolding uniform_def by blast
    then show "capacity (getCalendar (setCalendar p k cal s) p' k') =
        capacity (getCalendar (setCalendar p k cal s) \<lparr>simd = 0, slot = 0\<rparr> k')"
      by (simp only: cap [OF p' k'] cap [OF first_valid [OF p'] k'])
  qed
  moreover have "list_all calendarOk (calendars (setCalendar p k cal s))"
    using calendars_setCalendar [OF k, of _ p cal s] assms(1,4)
    unfolding booksOk_def list_all_iff by blast
  ultimately show ?thesis
    using setCalendar_shape(1) [OF k sh] by (simp add: booksOk_def)
qed

definition withAdditions :: "resource_use list \<Rightarrow> int \<Rightarrow> InstructionResourceKind \<Rightarrow>
    resource_calendar \<Rightarrow> resource_calendar" where
  "withAdditions uses c k cal = cal\<lparr>reservations := reservations cal @ additions uses c k\<rparr>"

lemma appendKind_eq:
  "appendKind p uses c k s =
     (if additions uses c k = [] then s
      else setCalendar p k (withAdditions uses c k (getCalendar s p k)) s)"
  by (simp add: appendKind_def withAdditions_def Let_def)

lemma appendKind_update_at:
  "appendKind p uses c = calendar_store.update_at p
     (\<lambda>k. additions uses c k = []) (withAdditions uses c)"
  by (intro ext) (simp add: appendKind_eq calendar_store.update_at_def)

lemma withAdditions_none: "additions uses c k = [] \<Longrightarrow> withAdditions uses c k cal = cal"
  by (simp add: withAdditions_def)

lemma distinct_resourceKinds: "distinct resourceKinds"
  by (simp add: resourceKinds_def)

lemma getCalendar_appendKinds:
  assumes "shaped s" and "validPlacement s p" and "k \<in> set resourceKinds"
  shows "getCalendar (fold (appendKind p uses c) resourceKinds s) p k =
    withAdditions uses c k (getCalendar s p k)"
  unfolding appendKind_update_at
  using calendar_store.fold_update [of s p resourceKinds k] assms distinct_resourceKinds
  by (simp add: withAdditions_none)

lemma calendarOk_withAdditions:
  assumes "calendarOk cal" and "nonneg uses" and "c \<le> INT64_MAX"
    and "within (capacity cal) (reservations cal @ additions uses c k)"
  shows "calendarOk (withAdditions uses c k cal)"
  using assms additions_bounds [OF assms(2,3)]
  by (auto simp: calendarOk_def withAdditions_def)

lemma appendKind_ok:
  assumes "booksOk s" and p: "validPlacement s p" and k: "k \<in> set resourceKinds"
    and "nonneg uses" and "c \<le> INT64_MAX"
    and "within (capacity (getCalendar s p k)) (reservations (getCalendar s p k) @ additions uses c k)"
  shows "booksOk (appendKind p uses c k s)"
proof -
  have "calendarOk (getCalendar s p k)"
    using assms(1) getCalendar_in [OF _ p k] by (auto simp: booksOk_def list_all_iff)
  from booksOk_setCalendar [OF assms(1) p k calendarOk_withAdditions [OF this assms(4-6)]]
  show ?thesis using assms(1) by (simp add: appendKind_eq withAdditions_def)
qed

lemma appendKind_shape:
  assumes "k \<in> set resourceKinds"
  shows "validPlacement (appendKind p uses c k s) p' = validPlacement s p'"
    and "lastCommittedCycle (appendKind p uses c k s) = lastCommittedCycle s"
    and "shaped s \<Longrightarrow> shaped (appendKind p uses c k s)"
  by (simp_all add: appendKind_eq setCalendar_shape [OF assms])

lemma appendKinds_ok:
  assumes "booksOk s" and "validPlacement s p" and "set ks \<subseteq> set resourceKinds" and "distinct ks"
    and "nonneg uses" and "c \<le> INT64_MAX"
    and "\<forall>k\<in>set ks. within (capacity (getCalendar s p k))
           (reservations (getCalendar s p k) @ additions uses c k)"
  shows "booksOk (fold (appendKind p uses c) ks s) \<and>
    (\<forall>p'. validPlacement (fold (appendKind p uses c) ks s) p' = validPlacement s p')"
  using assms
proof (induction ks arbitrary: s)
  case (Cons k ks)
  let ?s = "appendKind p uses c k s"
  have k: "k \<in> set resourceKinds" using Cons.prems(3) by simp
  have sh: "shaped s" using Cons.prems(1) by (simp add: booksOk_def)
  have "booksOk ?s" using Cons.prems by (intro appendKind_ok) auto
  moreover have "validPlacement ?s p" using Cons.prems by (simp add: appendKind_shape [OF k])
  moreover have "getCalendar ?s p k' = getCalendar s p k'" if "k' \<in> set ks" for k'
    using that Cons.prems getCalendar_setCalendar [OF sh Cons.prems(2,2) k, of k']
    by (auto simp: appendKind_eq)
  ultimately show ?case
    using Cons.prems Cons.IH [of ?s] by (simp add: appendKind_shape [OF k])
qed simp

end
