(* ===== verification/Resource_Props.thy ===== *)
theory Resource_Props
  imports Resource_State
begin

text \<open>
  What \<^verbatim>\<open>InstructionResourceState\<close> guarantees to its clients: commits at feasible
  cycles keep every calendar within capacity and never move the clock back, and the pruned
  state issues every instruction at the same cycle as a state that remembers all
  reservations.
\<close>

subsection \<open>Commit keeps the books\<close>

lemma feasible_within:
  assumes "stateOk s" and "validPlacement s p" and "feasible s p uses c" and "k \<in> set resourceKinds"
  shows "within (capacity (getCalendar s p k)) (reservations (getCalendar s p k) @ additions uses c k)"
proof (cases "wanted uses k = []")
  case True
  then have "additions uses c k = []" by (simp add: additions_Nil_iff)
  with getCalendar_ok [OF assms(1,2,4)] show ?thesis by (simp add: calendarOk_def)
next
  case False
  with assms(3,4) show ?thesis by (simp add: feasible_def)
qed

lemma feasible_prune:
  assumes "stateOk s" and "validPlacement s p" and "nonneg uses" and "c \<le> INT64_MAX" and "d \<le> c"
  shows "feasible (prune_rs d s) p uses c = feasible s p uses c"
  using canReserveAt_prune [OF assms(1-3,5,4)] assms(1,2)
  by (simp add: stateOk_prune flip: canReserveAt_None_iff)

text \<open>The commit of a machine that forgets nothing.\<close>

definition history_commit :: "wave_placement \<Rightarrow> resource_use list \<Rightarrow> int \<Rightarrow> resource_state \<Rightarrow>
    resource_state" where
  "history_commit p uses c s =
     (fold (appendKind p uses c) resourceKinds s)\<lparr>lastCommittedCycle := c\<rparr>"

lemma set_clock_simps [simp]:
  "calendars (s\<lparr>lastCommittedCycle := c\<rparr>) = calendars s"
  "shaped (s\<lparr>lastCommittedCycle := c\<rparr>) = shaped s"
  "validPlacement (s\<lparr>lastCommittedCycle := c\<rparr>) p = validPlacement s p"
  "getCalendar (s\<lparr>lastCommittedCycle := c\<rparr>) p k = getCalendar s p k"
  by (simp_all add: calendars_def shaped_def validPlacement_def getCalendar_def
      split: InstructionResourceScope.splits)

lemma booksOk_clock [simp]: "booksOk (s\<lparr>lastCommittedCycle := c\<rparr>) = booksOk s"
  by (simp add: booksOk_def uniform_def)

lemma history_commit_ok:
  assumes "stateOk s" and "validPlacement s p" and "feasible s p uses c" and "nonneg uses"
    and "0 \<le> c" and "c \<le> INT64_MAX"
  shows "stateOk (history_commit p uses c s)"
    and "validPlacement (history_commit p uses c s) p' = validPlacement s p'"
proof -
  have "\<forall>k\<in>set resourceKinds. within (capacity (getCalendar s p k))
      (reservations (getCalendar s p k) @ additions uses c k)"
    using feasible_within [OF assms(1-3)] by blast
  from appendKinds_ok [OF _ assms(2) subset_refl distinct_resourceKinds assms(4,6) this] assms
  show "stateOk (history_commit p uses c s)"
    "validPlacement (history_commit p uses c s) p' = validPlacement s p'"
    by (simp_all add: stateOk_booksOk history_commit_def)
qed

lemma commit_rs_history: "commit_rs p uses c s = history_commit p uses c (prune_rs c s)"
  by (simp add: commit_rs_def history_commit_def)

lemma commit_rs_ok:
  assumes "stateOk s" and "validPlacement s p" and "feasible s p uses c" and "nonneg uses"
    and "0 \<le> c" and "c \<le> INT64_MAX"
  shows "stateOk (commit_rs p uses c s)"
    and "validPlacement (commit_rs p uses c s) p' = validPlacement s p'"
proof -
  have "feasible (prune_rs c s) p uses c"
    using feasible_prune [OF assms(1,2,4,6)] assms(3) by simp
  from history_commit_ok [OF stateOk_prune [OF assms(1)] _ this assms(4-6)] assms(2)
  show "stateOk (commit_rs p uses c s)"
    "validPlacement (commit_rs p uses c s) p' = validPlacement s p'"
    by (simp_all add: commit_rs_history)
qed

lemma commit_rs_clock [simp]: "lastCommittedCycle (commit_rs p uses c s) = c"
  by (simp add: commit_rs_def)

lemma appendKinds_simds:
  "set ks \<subseteq> set resourceKinds \<Longrightarrow>
   length (simdResources (fold (appendKind p uses c) ks s)) = length (simdResources s)"
proof (induction ks arbitrary: s)
  case (Cons k ks)
  have "length (simdResources (setCalendar p k cal s)) = length (simdResources s)" for cal
    using Cons.prems index_bounds(4) [of k]
    by (cases "getInstructionResourceScope k") (auto simp: setCalendar_def)
  then show ?case using Cons by (simp add: appendKind_eq)
qed simp

lemma history_commit_simps [simp]:
  "length (simdResources (history_commit p uses c s)) = length (simdResources s)"
  "lastCommittedCycle (history_commit p uses c s) = c"
  by (simp_all add: history_commit_def appendKinds_simds)

lemma commit_rs_simds [simp]:
  "length (simdResources (commit_rs p uses c s)) = length (simdResources s)"
  by (simp add: commit_rs_history)

subsection \<open>Forgetting commutes with committing\<close>

lemma prune_prune: "d \<le> c \<Longrightarrow> prune_rs c (prune_rs d s) = prune_rs c s"
proof -
  assume "d \<le> c"
  then have "pruneCalendar c (pruneCalendar d cal) = pruneCalendar c cal" for cal
    unfolding pruneCalendar_def by simp (metis (mono_tags, lifting) filter_cong order_trans)
  then have "pruneCalendar c \<circ> pruneCalendar d = pruneCalendar c" by (simp add: fun_eq_iff)
  then show ?thesis by (simp add: prune_rs_def comp_def)
qed

lemma prune_setCalendar:
  assumes "shaped s" and "validPlacement s p" and "k \<in> set resourceKinds"
  shows "prune_rs c (setCalendar p k cal s) = setCalendar p k (pruneCalendar c cal) (prune_rs c s)"
  using assms index_bounds(4) [of k] pair_bound [OF assms(1,2)]
  by (cases "getInstructionResourceScope k")
     (simp_all add: setCalendar_def prune_rs_def map_update validPlacement_def)

lemma prune_withAdditions:
  assumes "nonneg uses" and "c < INT64_MAX"
  shows "pruneCalendar c (withAdditions uses c k cal) = withAdditions uses c k (pruneCalendar c cal)"
proof -
  have "filter (\<lambda>r. \<not> res_end r \<le> c) (additions uses c k) = additions uses c k"
    using additions_inWindow [OF assms(1) less_imp_le [OF assms(2)]] assms(2)
    unfolding inWindow_def by (intro filter_True) fastforce
  then show ?thesis by (simp add: withAdditions_def pruneCalendar_def)
qed

lemma prune_appendKind:
  assumes "shaped s" and "validPlacement s p" and "k \<in> set resourceKinds"
    and "nonneg uses" and "c < INT64_MAX"
  shows "prune_rs c (appendKind p uses c k s) = appendKind p uses c k (prune_rs c s)"
  using assms
  by (simp add: appendKind_eq prune_setCalendar prune_withAdditions getCalendar_prune)

lemma prune_appendKinds:
  assumes "shaped s" and "validPlacement s p" and "set ks \<subseteq> set resourceKinds"
    and "nonneg uses" and "c < INT64_MAX"
  shows "prune_rs c (fold (appendKind p uses c) ks s) = fold (appendKind p uses c) ks (prune_rs c s)"
  using assms
  by (induction ks arbitrary: s) (simp_all add: prune_appendKind appendKind_shape)

lemma commit_rs_prune:
  assumes "shaped s" and "validPlacement s p" and "nonneg uses" and "c < INT64_MAX" and "d \<le> c"
  shows "commit_rs p uses c (prune_rs d s) = prune_rs c (history_commit p uses c s)"
proof -
  have "prune_rs c (t\<lparr>lastCommittedCycle := c\<rparr>) = (prune_rs c t)\<lparr>lastCommittedCycle := c\<rparr>" for t
    by (simp add: prune_rs_def)
  then show ?thesis
    using prune_appendKinds [OF assms(1,2) subset_refl assms(3,4)] assms(5)
    by (simp add: commit_rs_def history_commit_def prune_prune)
qed

subsection \<open>Issuing instructions\<close>

text \<open>
  A request is a placement, the uses of an instruction and the cycle its other constraints
  allow. It is issued at the cycle the query returns.
\<close>

type_synonym request = "wave_placement \<times> resource_use list \<times> int"

definition issue_rs :: "request \<Rightarrow> resource_state \<Rightarrow> resource_state result" where
  "issue_rs = (\<lambda>(p, uses, e) s.
     bindR (query_rs s p uses e) (\<lambda>q. Inr (commit_rs p uses (readyCycle q) s)))"

definition issue_history :: "request \<Rightarrow> resource_state \<Rightarrow> resource_state result" where
  "issue_history = (\<lambda>(p, uses, e) s.
     bindR (query_rs s p uses e) (\<lambda>q. Inr (history_commit p uses (readyCycle q) s)))"

definition requestOk :: "nat \<Rightarrow> request \<Rightarrow> bool" where
  "requestOk n = (\<lambda>(p, uses, e).
     simd p < n \<and> list_ex hasReservation uses \<and> nonneg uses \<and> 0 \<le> e \<and> e \<le> INT64_MAX)"

definition cuOk :: "nat \<Rightarrow> resource_state \<Rightarrow> bool" where
  "cuOk n s \<longleftrightarrow> stateOk s \<and> length (simdResources s) = n"

lemma query_rs_range:
  assumes "stateOk s" and "validPlacement s p" and "list_ex hasReservation uses" and "nonneg uses"
    and "0 \<le> e" and "e \<le> INT64_MAX" and "query_rs s p uses e = Inr q"
  shows "max e (lastCommittedCycle s) \<le> readyCycle q \<and> 0 \<le> readyCycle q \<and>
    readyCycle q \<le> INT64_MAX \<and> feasible s p uses (readyCycle q)"
proof -
  let ?init = "max e (lastCommittedCycle s)"
  have init: "?init \<le> INT64_MAX" using assms by (simp add: stateOk_def)
  have v: "validateUses s uses"
    using assms(3,7) by (auto simp: query_rs_def split: if_splits)
  from assms(3,7) v obtain k sc where
    "scanCandidates s p uses (getCandidateCycles s p uses ?init) k sc = Inr q"
    by (auto simp: query_rs_def Let_def)
  from scanCandidates_Inr [OF this]
  have "readyCycle q \<in> set (getCandidateCycles s p uses ?init)" by fastforce
  from candidates_le [OF assms(1,2,4) v init this] query_rs_Inr(1,2) [OF assms(1-3,7)] assms(5)
  show ?thesis by simp
qed

lemma issue_rs_ok:
  assumes "cuOk n s" and "requestOk n a" and "issue_rs a s = Inr t"
  shows "cuOk n t" and "lastCommittedCycle s \<le> lastCommittedCycle t"
proof -
  obtain p uses e where a: "a = (p, uses, e)" by (cases a) auto
  from assms(3) a obtain q where q: "query_rs s p uses e = Inr q"
    and t: "t = commit_rs p uses (readyCycle q) s"
    by (auto simp: issue_rs_def bindR_eq_Inr)
  from assms(1,2) a have s: "stateOk s" "validPlacement s p" "list_ex hasReservation uses"
      "nonneg uses" "0 \<le> e" "e \<le> INT64_MAX" "length (simdResources s) = n"
    by (auto simp: cuOk_def requestOk_def validPlacement_def)
  note r = query_rs_range [OF s(1-6) q]
  show "cuOk n t"
    using commit_rs_ok(1) [OF s(1,2) _ s(4), of "readyCycle q"] r t s(7) by (simp add: cuOk_def)
  show "lastCommittedCycle s \<le> lastCommittedCycle t" using r t by simp
qed

interpretation resources: timeline "cuOk n" lastCommittedCycle "requestOk n" issue_rs for n
  by unfold_locales (rule issue_rs_ok; assumption)+

lemma issue_rs_forgets:
  assumes "cuOk n s" and "requestOk n a" and "issue_history a s = Inr t"
    and "d \<le> lastCommittedCycle s" and "lastCommittedCycle t < INT64_MAX"
  shows "cuOk n t \<and> lastCommittedCycle s \<le> lastCommittedCycle t \<and>
    issue_rs a (prune_rs d s) = Inr (prune_rs (lastCommittedCycle t) t)"
proof -
  obtain p uses e where a: "a = (p, uses, e)" by (cases a) auto
  from assms(3) a obtain q where q: "query_rs s p uses e = Inr q"
    and t: "t = history_commit p uses (readyCycle q) s"
    by (auto simp: issue_history_def bindR_eq_Inr)
  from assms(1,2) a have s: "stateOk s" "validPlacement s p" "list_ex hasReservation uses"
      "nonneg uses" "0 \<le> e" "e \<le> INT64_MAX" "length (simdResources s) = n"
    by (auto simp: cuOk_def requestOk_def validPlacement_def)
  note r = query_rs_range [OF s(1-6) q]
  have clk: "lastCommittedCycle t = readyCycle q" by (simp add: t)
  have ok: "stateOk t"
    using history_commit_ok(1) [OF s(1,2) _ s(4), of "readyCycle q"] r t by simp
  have "query_rs (prune_rs d s) p uses e = Inr q"
    using query_rs_prune [OF s(1,2,4) assms(4) s(6)] q by simp
  moreover have "commit_rs p uses (readyCycle q) (prune_rs d s) = prune_rs (readyCycle q) t"
    using commit_rs_prune [OF _ s(2,4), of "readyCycle q" d] s(1) r clk assms(4,5) t
    by (simp add: stateOk_def)
  ultimately have "issue_rs a (prune_rs d s) = Inr (prune_rs (lastCommittedCycle t) t)"
    using a clk by (simp add: issue_rs_def)
  then show ?thesis using ok r s(7) clk t by (simp add: cuOk_def)
qed

text \<open>The cycles at which a list of requests issues.\<close>

fun cycles_of :: "(request \<Rightarrow> resource_state \<Rightarrow> resource_state result) \<Rightarrow> request list \<Rightarrow>
    resource_state \<Rightarrow> int list result" where
  "cycles_of step [] s = Inr []"
| "cycles_of step (a # as) s =
     bindR (step a s) (\<lambda>t. bindR (cycles_of step as t) (\<lambda>cs. Inr (lastCommittedCycle t # cs)))"

lemma cycles_of_forgets:
  assumes "cuOk n s" and "list_all (requestOk n) as" and "cycles_of issue_history as s = Inr cs"
    and "d \<le> lastCommittedCycle s" and "list_all (\<lambda>c. c < INT64_MAX) cs"
  shows "cycles_of issue_rs as (prune_rs d s) = Inr cs"
  using assms
proof (induction as arbitrary: s d cs)
  case (Cons a as)
  from Cons.prems(3) obtain t cs' where t: "issue_history a s = Inr t"
    "cycles_of issue_history as t = Inr cs'" "cs = lastCommittedCycle t # cs'"
    by (auto simp: bindR_eq_Inr)
  from issue_rs_forgets [OF Cons.prems(1) _ t(1) Cons.prems(4)] Cons.prems t
  have "cuOk n t" "issue_rs a (prune_rs d s) = Inr (prune_rs (lastCommittedCycle t) t)" by auto
  with Cons.IH [of t cs' "lastCommittedCycle t"] Cons.prems t show ?case by simp
qed simp

subsection \<open>Initial state\<close>

definition blankCalendar :: "nat \<Rightarrow> resource_calendar" where
  "blankCalendar c = \<lparr>reservations = [], capacity = c\<rparr>"

lemma init_rs_eq:
  "init_rs arch waves caps =
    \<lparr>simdResources = replicate (to_u32 (simdsPerCU arch))
       [blankCalendar (to_u32 (simdIssueWidth arch)), blankCalendar (cap_valuPipe caps),
        blankCalendar (cap_saluPipe caps), blankCalendar (cap_xdlPipe caps),
        blankCalendar (if hasMfmaCoissueRestriction arch then 1 else 0)],
     simdPairResources = replicate (to_u32 (simdsPerCU arch sdiv 2))
       [blankCalendar (if ldsIssuePeriod arch = 0 then 0 else 1),
        blankCalendar (if ldsDmaIssuePeriod arch = 0 then 0 else 1)],
     cuResources = [blankCalendar (to_u32 (issuesPerCUPerCycle arch))],
     lastCommittedCycle = 0, waveCount = waves\<rparr>"
  by (simp add: init_rs_def configure_def setCapacity_def emptyCalendar_def blankCalendar_def Let_def
      numeral_eq_Suc)

lemma calendarOk_blank: "calendarOk (blankCalendar c)"
  by (simp add: calendarOk_def blankCalendar_def within_def)

lemma init_rs_ok:
  assumes "0 < simdsPerCU arch" and "simdsPerCU arch < 4294967296" and "even (simdsPerCU arch)"
  shows "stateOk (init_rs arch waves caps)"
    and "validPlacement (init_rs arch waves caps) p \<longleftrightarrow> int (simd p) < simdsPerCU arch"
proof -
  let ?s = "init_rs arch waves caps"
  from assms have n: "to_u32 (simdsPerCU arch) = 2 * to_u32 (simdsPerCU arch sdiv 2)"
    by (auto simp: to_u32_def sdiv_nonneg elim!: evenE)
  show v: "validPlacement ?s p \<longleftrightarrow> int (simd p) < simdsPerCU arch" for p
    using assms by (auto simp: validPlacement_def init_rs_eq to_u32_def)
  have sh: "shaped ?s" using n by (simp add: shaped_def init_rs_eq list_all_iff)
  have "uniform ?s"
    unfolding uniform_def
  proof (intro allI impI)
    fix p k assume p: "validPlacement ?s p" and k: "k \<in> set resourceKinds"
    note b = pair_bound [OF sh p] pair_bound [OF sh first_valid [OF p]]
    show "capacity (getCalendar ?s p k) = capacity (getCalendar ?s \<lparr>simd = 0, slot = 0\<rparr> k)"
      using p first_valid [OF p] b index_bounds(4) [OF k]
      by (cases "getInstructionResourceScope k")
         (simp_all add: getCalendar_def init_rs_eq validPlacement_def)
  qed
  with sh show "stateOk ?s"
    by (auto simp: stateOk_def calendars_def init_rs_eq list_all_iff calendarOk_blank INT64_MAX_def)
qed

subsection \<open>Properties\<close>

text \<open>C2: the event sweep of \<open>canReserve\<close>, which looks only at the cycles where some
  reservation begins or ends, accepts new reservations exactly when the booked units stay
  within the capacity at every cycle.\<close>

theorem canReserve_correct:
  assumes "forward (reservations cal)" and "forward rs" and "rs \<noteq> []"
  shows "canReserve cal rs \<longleftrightarrow>
    capacity cal \<noteq> 0 \<and> (\<forall>t. usage (reservations cal @ rs) t \<le> int (capacity cal))"
  using canReserve_within [OF assms(1,2)] assms(3) by (simp add: within_def)

definition ex_reservation :: "int \<Rightarrow> int \<Rightarrow> reservation" where
  "ex_reservation b e = \<lparr>res_begin = b, res_end = e, res_units = 1\<rparr>"

theorem canReserve_correct_witness:
  "canReserve \<lparr>reservations = [ex_reservation 0 4], capacity = 1\<rparr> [ex_reservation 4 8] \<and>
   (\<forall>t. usage ([ex_reservation 0 4] @ [ex_reservation 4 8]) t \<le> 1) \<and>
   \<not> canReserve \<lparr>reservations = [ex_reservation 0 4], capacity = 1\<rparr> [ex_reservation 3 7]"
proof -
  have yes: "canReserve \<lparr>reservations = [ex_reservation 0 4], capacity = 1\<rparr> [ex_reservation 4 8]"
    and no: "\<not> canReserve \<lparr>reservations = [ex_reservation 0 4], capacity = 1\<rparr> [ex_reservation 3 7]"
    by code_simp+
  have "canReserve \<lparr>reservations = [ex_reservation 0 4], capacity = 1\<rparr> [ex_reservation 4 8] \<longleftrightarrow>
      capacity \<lparr>reservations = [ex_reservation 0 4], capacity = 1\<rparr> \<noteq> 0 \<and>
      (\<forall>t. usage (reservations \<lparr>reservations = [ex_reservation 0 4], capacity = 1\<rparr> @
        [ex_reservation 4 8]) t \<le> int (capacity \<lparr>reservations = [ex_reservation 0 4], capacity = 1\<rparr>))"
    by (rule canReserve_correct) (simp_all add: ex_reservation_def)
  with yes no show ?thesis by simp
qed

text \<open>C5: the query examines finitely many cycles (the earliest one and those where a
  reservation is released for one of the uses), yet the cycle it returns is the least
  feasible one that is neither before the earliest cycle nor before the last commit.\<close>

theorem query_rs_least:
  assumes "stateOk s" and "validPlacement s p" and "list_ex hasReservation uses"
    and "query_rs s p uses e = Inr q" and "allFit uses (readyCycle q)"
  shows "max e (lastCommittedCycle s) \<le> readyCycle q \<and> feasible s p uses (readyCycle q) \<and>
    (\<forall>c. max e (lastCommittedCycle s) \<le> c \<and> c < readyCycle q \<longrightarrow> \<not> feasible s p uses c)"
  using query_rs_Inr(1,2) [OF assms(1-4)] query_rs_minimal [OF assms] by blast

definition ex_use :: "InstructionResourceKind \<Rightarrow> int \<Rightarrow> resource_use" where
  "ex_use k d = \<lparr>use_kind = k, use_scope = getInstructionResourceScope k, use_units = 1,
     use_count = 2, use_offset = 1, use_period = 4, use_duration = d\<rparr>"

definition ex_state :: resource_state where
  "ex_state = init_rs kGfx950 1 \<lparr>cap_valuPipe = 1, cap_saluPipe = 1, cap_xdlPipe = 1\<rparr>"

definition ex_place :: wave_placement where
  "ex_place = \<lparr>simd = 1, slot = 0\<rparr>"

lemma ex_state_ok: "stateOk ex_state" "validPlacement ex_state ex_place"
  using init_rs_ok [of kGfx950] by (simp_all add: ex_state_def ex_place_def kGfx950_def)

definition ex_busy :: resource_state where
  "ex_busy = commit_rs ex_place [ex_use ValuPipe 4] 0 ex_state"

lemma ex_uses_ok: "nonneg [ex_use k d]" "hasReservation (ex_use ValuPipe 4)"
  "0 \<le> c \<Longrightarrow> c \<le> 1000 \<Longrightarrow> 0 \<le> d \<Longrightarrow> d \<le> 1000 \<Longrightarrow> allFit [ex_use k d] c"
  by (simp_all add: nonneg_def ex_use_def hasReservation_def allFit_def fits64_def INT64_MAX_def)

lemma ex_feasible: "feasible ex_state ex_place [ex_use ValuPipe 4] 0"
proof -
  have "canReserveAt ex_state ex_place [ex_use ValuPipe 4] 0 = None" by code_simp
  then show ?thesis by (simp add: canReserveAt_None_iff ex_state_ok)
qed

lemma ex_busy_ok: "stateOk ex_busy" "validPlacement ex_busy ex_place"
  using commit_rs_ok [OF ex_state_ok ex_feasible ex_uses_ok(1)] ex_state_ok
  by (simp_all add: ex_busy_def INT64_MAX_def)

theorem query_rs_least_witness:
  "readyCycle (projr (query_rs ex_busy ex_place [ex_use ValuPipe 4] 2)) = 8 \<and>
   feasible ex_busy ex_place [ex_use ValuPipe 4] 8 \<and>
   \<not> feasible ex_busy ex_place [ex_use ValuPipe 4] 7"
proof -
  have q: "query_rs ex_busy ex_place [ex_use ValuPipe 4] 2 =
      Inr \<lparr>readyCycle = 8, query_kind = ValuPipe, query_scope = ScopeSIMD\<rparr>" by code_simp
  have "lastCommittedCycle ex_busy = 0" by (simp add: ex_busy_def)
  then show ?thesis
    using query_rs_least [OF ex_busy_ok _ q] q by (simp add: ex_uses_ok)
qed

text \<open>the query does not fail when it need not: uses that name enabled resources and fit
  the empty calendars of their placement always get an issue cycle, at the latest when every
  reservation has ended.\<close>

theorem query_rs_total:
  assumes "stateOk s" and "validPlacement s p" and "validateUses s uses" and "selfFits s p uses"
    and "nonneg uses" and "allFit uses (horizon s (max e (lastCommittedCycle s)))"
    and "horizon s (max e (lastCommittedCycle s)) \<le> INT64_MAX"
  shows "\<exists>q. query_rs s p uses e = Inr q \<and>
    (list_ex hasReservation uses \<longrightarrow> readyCycle q \<le> horizon s (max e (lastCommittedCycle s)))"
  by (rule query_rs_succeeds [OF assms(1-4) refl assms(6,5,7)])

lemma within_single: "length rs \<le> n \<Longrightarrow> \<forall>r\<in>set rs. res_units r = 1 \<Longrightarrow> within n rs"
  unfolding within_def
proof
  fix t
  assume "length rs \<le> n" "\<forall>r\<in>set rs. res_units r = 1"
  moreover have "usage rs t \<le> int (length rs)" if "\<forall>r\<in>set rs. res_units r = 1" for rs
    using that by (induction rs) auto
  ultimately show "usage rs t \<le> int n" by force
qed

lemma ex_selfFits: "selfFits ex_busy ex_place [ex_use ValuPipe 4]"
proof -
  have "within (capacity (getCalendar ex_busy ex_place k)) (additions [ex_use ValuPipe 4] 0 k)"
    if k: "k \<in> set resourceKinds" for k
  proof (cases "k = ValuPipe")
    case True
    have "within 1 (additions [ex_use ValuPipe 4] 0 ValuPipe)"
      using feasible_within [OF ex_state_ok ex_feasible, of ValuPipe]
      by (simp add: resourceKinds_def ex_state_def init_rs_eq getCalendar_def ex_place_def
          blankCalendar_def kGfx950_def to_u32_def)
    moreover have "capacity (getCalendar ex_busy ex_place ValuPipe) = 1" by code_simp
    ultimately show ?thesis using True by simp
  next
    case False
    then have "wanted [ex_use ValuPipe 4] k = []" by (simp add: wanted_def ex_use_def)
    then have "additions [ex_use ValuPipe 4] 0 k = []" by (simp add: additions_Nil_iff)
    then show ?thesis by (simp add: within_def)
  qed
  then show ?thesis by (simp add: selfFits_def)
qed

theorem query_rs_total_witness:
  "\<exists>q. query_rs ex_busy ex_place [ex_use ValuPipe 4] 2 = Inr q \<and> readyCycle q \<le> 9"
proof -
  have h: "horizon ex_busy (max 2 (lastCommittedCycle ex_busy)) = 9" by code_simp
  have v: "validateUses ex_busy [ex_use ValuPipe 4]" by code_simp
  show ?thesis
    using query_rs_total [OF ex_busy_ok v ex_selfFits ex_uses_ok(1), of 2]
    by (simp add: h ex_uses_ok INT64_MAX_def)
qed

text \<open>C27: an instruction committed at a feasible cycle leaves every calendar of the compute
  unit within its capacity at every cycle, for all placements, and the assertion of
  \<open>commit\<close> that the pruned calendars can still take the reservations holds.\<close>

theorem commit_rs_within_capacity:
  assumes "stateOk s" and "validPlacement s p" and "feasible s p uses c" and "nonneg uses"
    and "lastCommittedCycle s \<le> c" and "c \<le> INT64_MAX"
  shows "canReserveAt (prune_rs c s) p uses c = None \<and> stateOk (commit_rs p uses c s) \<and>
    (\<forall>cal\<in>set (calendars (commit_rs p uses c s)).
       \<forall>t. usage (reservations cal) t \<le> int (capacity cal))"
proof -
  have "0 \<le> c" using assms(1,5) by (simp add: stateOk_def)
  from commit_rs_ok(1) [OF assms(1-4) this assms(6)]
  have ok: "stateOk (commit_rs p uses c s)" .
  then have "list_all calendarOk (calendars (commit_rs p uses c s))" by (simp add: stateOk_def)
  moreover have "feasible (prune_rs c s) p uses c"
    using feasible_prune [OF assms(1,2,4,6)] assms(3) by simp
  then have "canReserveAt (prune_rs c s) p uses c = None"
    using assms(1,2) by (simp add: canReserveAt_None_iff stateOk_prune)
  ultimately show ?thesis using ok by (auto simp: list_all_iff calendarOk_def within_def)
qed

theorem commit_rs_within_capacity_witness:
  "list_all (\<lambda>cal. \<forall>t. usage (reservations cal) t \<le> int (capacity cal)) (calendars ex_busy)"
  using commit_rs_within_capacity [OF ex_state_ok ex_feasible ex_uses_ok(1)]
  by (simp add: ex_busy_def ex_state_def init_rs_eq INT64_MAX_def list_all_iff)

text \<open>C11: dropping finished reservations at every commit is unobservable: a state pruned up to
  its clock issues a list of requests at exactly the cycles of a machine that remembers all
  reservations (as long as the cycles stay below \<^verbatim>\<open>INT64_MAX\<close>).\<close>

theorem pruning_unobservable:
  assumes "cuOk n s" and "list_all (requestOk n) as" and "cycles_of issue_history as s = Inr cs"
    and "d \<le> lastCommittedCycle s" and "list_all (\<lambda>c. c < INT64_MAX) cs"
  shows "cycles_of issue_rs as (prune_rs d s) = Inr cs"
  by (rule cycles_of_forgets [OF assms])

theorem pruning_unobservable_witness:
  "cycles_of issue_rs [(ex_place, [ex_use ValuPipe 4], 2), (ex_place, [ex_use ValuPipe 4], 3)]
     (prune_rs 0 ex_busy) = Inr [8, 16]"
proof (rule pruning_unobservable [where n = 4])
  show "cuOk 4 ex_busy"
    using ex_busy_ok(1) by (simp add: cuOk_def ex_busy_def ex_state_def init_rs_eq kGfx950_def to_u32_def)
  show "list_all (requestOk 4) [(ex_place, [ex_use ValuPipe 4], 2), (ex_place, [ex_use ValuPipe 4], 3)]"
    using ex_uses_ok(1,2) by (simp add: requestOk_def ex_place_def INT64_MAX_def)
  show "cycles_of issue_history [(ex_place, [ex_use ValuPipe 4], 2), (ex_place, [ex_use ValuPipe 4], 3)]
      ex_busy = Inr [8, 16]" by code_simp
qed (simp_all add: ex_busy_def INT64_MAX_def)

end
