(* ===== verification/Sched_Tables.thy ===== *)
theory Sched_Tables
  imports Arch_Data
begin

text \<open>
  The per-target scheduling tables (\<^verbatim>\<open>LatencyTable.inc\<close>,
  \<^verbatim>\<open>FunctionalUnitTable.inc\<close>) and their lookups (\<^verbatim>\<open>LatencyTable.cpp\<close>,
  \<^verbatim>\<open>FunctionalUnit.cpp\<close>). The tables are lists in the order of the
  \<open>SchedClass\<close> enumeration. A class the target does not support ends the process in
  every lookup; the lemmas show that \<open>isSchedClassSupported\<close> is exactly the guard that
  rules this out, in the latency tables and in the separately generated unit tables alike.
\<close>

subsection \<open>Latency tables\<close>

definition kLatencyGfx942 :: "int list" where
  "kLatencyGfx942 =
     [0, 1, 1, 1, 1, 1, 4, 0, 2, 4, 8, 16, 0, 0, 0, 0, 0,
      80, 5, 5, 0, 8, 500, 4, 0]"

definition kResourceCyclesGfx942 :: "int list" where
  "kResourceCyclesGfx942 =
     [0, 1, 1, 1, 1, 1, 1, 0, 2, 4, 8, 16, 0, 0, 0, 0, 0,
      1, 1, 1, 0, 1, 1, 1, 0]"

definition kIssueCountsGfx942 :: "int list" where
  "kIssueCountsGfx942 =
     [0, 1, 1, 1, 1, 1, 1, 0, 1, 1, 1, 1, 0, 0, 0, 0, 0,
      1, 1, 1, 0, 1, 1, 1, 0]"

definition kSupportedGfx942 :: "bool list" where
  "kSupportedGfx942 =
     [True, True, True, True, True, True, True, False, True,
      True, True, True, False, False, False, False, False, True,
      True, True, False, True, True, True, True]"

definition kLatencyGfx950 :: "int list" where
  "kLatencyGfx950 =
     [0, 1, 1, 1, 1, 1, 4, 0, 2, 4, 8, 16, 0, 0, 0, 0, 0,
      80, 5, 5, 0, 8, 500, 4, 0]"

definition kResourceCyclesGfx950 :: "int list" where
  "kResourceCyclesGfx950 =
     [0, 1, 1, 1, 1, 1, 1, 0, 2, 4, 8, 16, 0, 0, 0, 0, 0,
      1, 1, 1, 0, 1, 1, 1, 0]"

definition kIssueCountsGfx950 :: "int list" where
  "kIssueCountsGfx950 =
     [0, 1, 1, 1, 1, 1, 1, 0, 1, 1, 1, 1, 0, 0, 0, 0, 0,
      1, 1, 1, 0, 1, 1, 1, 0]"

definition kSupportedGfx950 :: "bool list" where
  "kSupportedGfx950 =
     [True, True, True, True, True, True, True, False, True,
      True, True, True, False, False, False, False, False, True,
      True, True, False, True, True, True, True]"

definition kLatencyGfx1100 :: "int list" where
  "kLatencyGfx1100 =
     [0, 2, 5, 6, 5, 38, 10, 4, 0, 0, 0, 0, 0, 0, 0, 0, 5,
      320, 20, 20, 0, 32, 2000, 16, 0]"

definition kResourceCyclesGfx1100 :: "int list" where
  "kResourceCyclesGfx1100 =
     [0, 1, 1, 1, 1, 1, 1, 1, 0, 0, 0, 0, 0, 0, 0, 0, 1,
      1, 1, 1, 0, 1, 1, 1, 0]"

definition kIssueCountsGfx1100 :: "int list" where
  "kIssueCountsGfx1100 =
     [0, 1, 1, 1, 1, 1, 1, 1, 0, 0, 0, 0, 0, 0, 0, 0, 1,
      1, 1, 1, 0, 1, 1, 1, 0]"

definition kSupportedGfx1100 :: "bool list" where
  "kSupportedGfx1100 =
     [True, True, True, True, True, True, True, True, False,
      False, False, False, False, False, False, False, True, True,
      True, True, False, True, True, True, True]"

definition kLatencyGfx1200 :: "int list" where
  "kLatencyGfx1200 =
     [0, 2, 5, 6, 5, 38, 9, 4, 0, 0, 0, 0, 0, 0, 0, 0, 0,
      320, 20, 20, 0, 32, 2000, 16, 0]"

definition kResourceCyclesGfx1200 :: "int list" where
  "kResourceCyclesGfx1200 =
     [0, 1, 1, 1, 1, 1, 1, 1, 0, 0, 0, 0, 0, 0, 0, 0, 0,
      1, 1, 1, 0, 1, 1, 1, 0]"

definition kIssueCountsGfx1200 :: "int list" where
  "kIssueCountsGfx1200 =
     [0, 1, 1, 1, 1, 1, 1, 1, 0, 0, 0, 0, 0, 0, 0, 0, 0,
      1, 1, 1, 0, 1, 1, 1, 0]"

definition kSupportedGfx1200 :: "bool list" where
  "kSupportedGfx1200 =
     [True, True, True, True, True, True, True, True, False,
      False, False, False, False, False, False, False, False, True,
      True, True, False, True, True, True, True]"

definition kLatencyGfx1250 :: "int list" where
  "kLatencyGfx1250 =
     [0, 2, 5, 6, 5, 37, 8, 4, 0, 0, 0, 0, 8, 16, 16, 0, 0,
      320, 20, 20, 320, 32, 2000, 0, 0]"

definition kResourceCyclesGfx1250 :: "int list" where
  "kResourceCyclesGfx1250 =
     [0, 1, 1, 1, 1, 1, 1, 1, 0, 0, 0, 0, 8, 16, 1, 0, 0,
      1, 1, 1, 1, 1, 1, 0, 0]"

definition kIssueCountsGfx1250 :: "int list" where
  "kIssueCountsGfx1250 =
     [0, 1, 1, 1, 1, 1, 1, 1, 0, 0, 0, 0, 1, 1, 1, 0, 0,
      1, 1, 1, 2, 1, 1, 0, 0]"

definition kSupportedGfx1250 :: "bool list" where
  "kSupportedGfx1250 =
     [True, True, True, True, True, True, True, True, False,
      False, False, False, True, True, True, False, False, True,
      True, True, True, True, True, False, True]"

subsection \<open>Functional-unit tables\<close>

definition kFUsGfx942 :: "FunctionalUnit list" where
  "kFUsGfx942 =
     [NoFunctionalUnit, SALU, VALU, VALU, VALU,
      VALU, VALU, NoFunctionalUnit, MFMA_XDL, MFMA_XDL,
      MFMA_XDL, MFMA_XDL, NoFunctionalUnit, NoFunctionalUnit, NoFunctionalUnit,
      NoFunctionalUnit, NoFunctionalUnit, VMEM, LGKM, LGKM,
      NoFunctionalUnit, BRANCH, BRANCH, EXPORT, NoFunctionalUnit]"

definition kFUsGfx950 :: "FunctionalUnit list" where
  "kFUsGfx950 =
     [NoFunctionalUnit, SALU, VALU, VALU, VALU,
      VALU, VALU, NoFunctionalUnit, MFMA_XDL, MFMA_XDL,
      MFMA_XDL, MFMA_XDL, NoFunctionalUnit, NoFunctionalUnit, NoFunctionalUnit,
      NoFunctionalUnit, NoFunctionalUnit, VMEM, LGKM, LGKM,
      NoFunctionalUnit, BRANCH, BRANCH, EXPORT, NoFunctionalUnit]"

definition kFUsGfx1100 :: "FunctionalUnit list" where
  "kFUsGfx1100 =
     [NoFunctionalUnit, SALU, VALU, VALU, VALU,
      VALU, TRANS, SALU, NoFunctionalUnit, NoFunctionalUnit,
      NoFunctionalUnit, NoFunctionalUnit, NoFunctionalUnit, NoFunctionalUnit, NoFunctionalUnit,
      NoFunctionalUnit, VALU, VMEM, LGKM, LGKM,
      NoFunctionalUnit, BRANCH, BRANCH, EXPORT, NoFunctionalUnit]"

definition kFUsGfx1200 :: "FunctionalUnit list" where
  "kFUsGfx1200 =
     [NoFunctionalUnit, SALU, VALU, VALU, VALU,
      VALU, VALU, SALU, NoFunctionalUnit, NoFunctionalUnit,
      NoFunctionalUnit, NoFunctionalUnit, NoFunctionalUnit, NoFunctionalUnit, NoFunctionalUnit,
      NoFunctionalUnit, NoFunctionalUnit, VMEM, LGKM, LGKM,
      NoFunctionalUnit, BRANCH, BRANCH, EXPORT, NoFunctionalUnit]"

definition kFUsGfx1250 :: "FunctionalUnit list" where
  "kFUsGfx1250 =
     [NoFunctionalUnit, SALU, VALU, VALU, VALU,
      VALU, TRANS, SALU, NoFunctionalUnit, NoFunctionalUnit,
      NoFunctionalUnit, NoFunctionalUnit, MFMA_XDL, MFMA_XDL, VALU,
      NoFunctionalUnit, NoFunctionalUnit, VMEM, LGKM, LGKM,
      LGKM, BRANCH, BRANCH, NoFunctionalUnit, NoFunctionalUnit]"

lemmas table_defs =
  kLatencyGfx942_def kResourceCyclesGfx942_def kIssueCountsGfx942_def
  kSupportedGfx942_def kFUsGfx942_def kLatencyGfx950_def
  kResourceCyclesGfx950_def kIssueCountsGfx950_def kSupportedGfx950_def
  kFUsGfx950_def kLatencyGfx1100_def kResourceCyclesGfx1100_def
  kIssueCountsGfx1100_def kSupportedGfx1100_def kFUsGfx1100_def
  kLatencyGfx1200_def kResourceCyclesGfx1200_def kIssueCountsGfx1200_def
  kSupportedGfx1200_def kFUsGfx1200_def kLatencyGfx1250_def
  kResourceCyclesGfx1250_def kIssueCountsGfx1250_def kSupportedGfx1250_def
  kFUsGfx1250_def

subsection \<open>Table selection\<close>

record arch_table =
  tab_isa :: isa_version
  latencies :: "int list"
  resourceCycles :: "int list"
  issueCounts :: "int list"
  supported :: "bool list"

definition kArchTables :: "arch_table list" where
  "kArchTables =
     [\<lparr>tab_isa = \<lparr>Major = 8, Minor = 0, Stepping = 3\<rparr>, latencies = kLatencyGfx942,
       resourceCycles = kResourceCyclesGfx942, issueCounts = kIssueCountsGfx942,
       supported = kSupportedGfx942\<rparr>,
      \<lparr>tab_isa = \<lparr>Major = 9, Minor = 4, Stepping = 2\<rparr>, latencies = kLatencyGfx942,
       resourceCycles = kResourceCyclesGfx942, issueCounts = kIssueCountsGfx942,
       supported = kSupportedGfx942\<rparr>,
      \<lparr>tab_isa = \<lparr>Major = 9, Minor = 5, Stepping = 0\<rparr>, latencies = kLatencyGfx950,
       resourceCycles = kResourceCyclesGfx950, issueCounts = kIssueCountsGfx950,
       supported = kSupportedGfx950\<rparr>,
      \<lparr>tab_isa = \<lparr>Major = 11, Minor = 0, Stepping = 0\<rparr>, latencies = kLatencyGfx1100,
       resourceCycles = kResourceCyclesGfx1100, issueCounts = kIssueCountsGfx1100,
       supported = kSupportedGfx1100\<rparr>,
      \<lparr>tab_isa = \<lparr>Major = 12, Minor = 0, Stepping = 0\<rparr>, latencies = kLatencyGfx1200,
       resourceCycles = kResourceCyclesGfx1200, issueCounts = kIssueCountsGfx1200,
       supported = kSupportedGfx1200\<rparr>]"

definition selectTable :: "llvm_env \<Rightarrow> isa_version \<Rightarrow> arch_table option" where
  "selectTable env isa =
     (let gfx1250 = \<lparr>tab_isa = getGfx1250IsaVersion env, latencies = kLatencyGfx1250,
            resourceCycles = kResourceCyclesGfx1250, issueCounts = kIssueCountsGfx1250,
            supported = kSupportedGfx1250\<rparr>
      in if isaEq (tab_isa gfx1250) isa then Some gfx1250
         else find (\<lambda>e. isaEq (tab_isa e) isa) kArchTables)"

definition kArchFUs :: "(isa_version \<times> FunctionalUnit list) list" where
  "kArchFUs =
     [(\<lparr>Major = 8, Minor = 0, Stepping = 3\<rparr>, kFUsGfx942),
      (\<lparr>Major = 9, Minor = 4, Stepping = 2\<rparr>, kFUsGfx942),
      (\<lparr>Major = 9, Minor = 5, Stepping = 0\<rparr>, kFUsGfx950),
      (\<lparr>Major = 11, Minor = 0, Stepping = 0\<rparr>, kFUsGfx1100),
      (\<lparr>Major = 12, Minor = 0, Stepping = 0\<rparr>, kFUsGfx1200)]"

definition selectFUTable :: "llvm_env \<Rightarrow> isa_version \<Rightarrow> FunctionalUnit list option" where
  "selectFUTable env isa =
     (if isaEq (getGfx1250IsaVersion env) isa then Some kFUsGfx1250
      else map_option snd (find (\<lambda>e. isaEq (fst e) isa) kArchFUs))"

subsection \<open>Lookups\<close>

fun isPlainVALUClass :: "SchedClass \<Rightarrow> bool" where
  "isPlainVALUClass Write32Bit = True"
| "isPlainVALUClass Write64Bit = True"
| "isPlainVALUClass WriteFloatFMA = True"
| "isPlainVALUClass _ = False"

definition getTableCycles ::
    "llvm_env \<Rightarrow> arch_data \<Rightarrow> SchedClass \<Rightarrow> (arch_table \<Rightarrow> int list) \<Rightarrow> int result" where
  "getTableCycles env arch cls member =
     (case selectTable env (arch_isa arch) of
        None \<Rightarrow> Inl (FatalError ''no scheduling table for arch'')
      | Some table \<Rightarrow>
          let idx = sched_index cls; cycles = member table
          in if length cycles \<le> idx then Inl (Unreachable ''invalid SchedClass'')
             else if \<not> supported table ! idx then Inl (FatalError ''class is unsupported'')
             else Inr (cycles ! idx))"

definition isSchedClassSupported :: "llvm_env \<Rightarrow> arch_data \<Rightarrow> SchedClass \<Rightarrow> bool" where
  "isSchedClassSupported env arch cls =
     (case selectTable env (arch_isa arch) of
        None \<Rightarrow> False
      | Some table \<Rightarrow>
          let idx = sched_index cls in idx < length (supported table) \<and> supported table ! idx)"

definition getLatency :: "llvm_env \<Rightarrow> arch_data \<Rightarrow> SchedClass \<Rightarrow> int result" where
  "getLatency env arch cls =
     bindR (getTableCycles env arch cls latencies) (\<lambda>latency.
       if isPlainVALUClass cls then Inr (max latency (valuPipelineDepth arch)) else Inr latency)"

definition getResourceCycles :: "llvm_env \<Rightarrow> arch_data \<Rightarrow> SchedClass \<Rightarrow> int result" where
  "getResourceCycles env arch cls = getTableCycles env arch cls resourceCycles"

definition getIssueCount :: "llvm_env \<Rightarrow> arch_data \<Rightarrow> SchedClass \<Rightarrow> nat result" where
  "getIssueCount env arch cls =
     bindR (getTableCycles env arch cls issueCounts) (\<lambda>n. Inr (to_u32 n))"

definition funit :: "llvm_env \<Rightarrow> arch_data \<Rightarrow> SchedClass \<Rightarrow> FunctionalUnit result" where
  "funit env arch cls =
     (if \<not> isSchedClassSupported env arch cls then Inl (FatalError ''class is unsupported'')
      else case selectFUTable env (arch_isa arch) of
             None \<Rightarrow> Inl (FatalError ''funit: no FU table for arch'')
           | Some table \<Rightarrow>
               let idx = sched_index cls
               in if length table \<le> idx then Inl (Unreachable ''funit: invalid SchedClass'')
                  else Inr (table ! idx))"

subsection \<open>Shape of the tables\<close>

definition table_ok :: "arch_table \<Rightarrow> bool" where
  "table_ok t \<longleftrightarrow>
     length (latencies t) = 25 \<and> length (resourceCycles t) = 25 \<and>
     length (issueCounts t) = 25 \<and> length (supported t) = 25 \<and>
     list_all (\<lambda>n. 0 \<le> n \<and> n < 4294967296) (latencies t) \<and>
     list_all (\<lambda>n. 0 \<le> n \<and> n < 4294967296) (resourceCycles t) \<and>
     list_all (\<lambda>n. 0 \<le> n \<and> n < 4294967296) (issueCounts t)"

lemma kArchTables_ok: "list_all table_ok kArchTables"
  by (simp add: kArchTables_def table_ok_def table_defs)

lemma selectTable_ok:
  assumes "selectTable env isa = Some t"
  shows "table_ok t"
proof -
  have "table_ok t" if "find (\<lambda>e. isaEq (tab_isa e) isa) kArchTables = Some t"
    using that kArchTables_ok by (auto simp: find_Some_iff list_all_length)
  moreover have "table_ok \<lparr>tab_isa = i, latencies = kLatencyGfx1250,
      resourceCycles = kResourceCyclesGfx1250, issueCounts = kIssueCountsGfx1250,
      supported = kSupportedGfx1250\<rparr>" for i
    by (simp add: table_ok_def table_defs)
  ultimately show ?thesis
    using assms by (auto simp: selectTable_def Let_def split: if_splits)
qed

lemma selectFUTable_total:
  assumes "selectTable env isa \<noteq> None"
  shows "\<exists>t. selectFUTable env isa = Some t \<and> length t = 25"
  using assms
  by (auto simp: selectTable_def selectFUTable_def kArchTables_def kArchFUs_def table_defs
      split: if_splits)

lemma isSchedClassSupported_index:
  "isSchedClassSupported env arch cls \<Longrightarrow> sched_index cls < 25"
  by (auto simp: isSchedClassSupported_def Let_def table_ok_def
      dest: selectTable_ok split: option.splits)

lemma getTableCycles_supported:
  assumes "isSchedClassSupported env arch cls"
    and "member \<in> {latencies, resourceCycles, issueCounts}"
  shows "\<exists>n. getTableCycles env arch cls member = Inr n \<and> 0 \<le> n \<and> n < 4294967296"
proof -
  from assms(1) obtain t where t: "selectTable env (arch_isa arch) = Some t"
      "sched_index cls < length (supported t)" "supported t ! sched_index cls"
    by (auto simp: isSchedClassSupported_def Let_def split: option.splits)
  from selectTable_ok [OF t(1)] t(2) assms(2)
  have "length (member t) = 25" "\<forall>i<25. 0 \<le> member t ! i \<and> member t ! i < 4294967296"
      "sched_index cls < 25"
    by (auto simp: table_ok_def list_all_length)
  with t show ?thesis
    by (auto simp: getTableCycles_def Let_def)
qed

lemma supported_lookups:
  assumes "isSchedClassSupported env arch cls"
  shows getLatency_supported: "\<exists>n. getLatency env arch cls = Inr n \<and> 0 \<le> n"
    and getResourceCycles_supported:
      "\<exists>n. getResourceCycles env arch cls = Inr n \<and> 0 \<le> n \<and> n < 4294967296"
    and getIssueCount_supported: "\<exists>n. getIssueCount env arch cls = Inr n"
    and funit_supported: "\<exists>u. funit env arch cls = Inr u"
proof -
  note g = getTableCycles_supported [OF assms]
  show "\<exists>n. getLatency env arch cls = Inr n \<and> 0 \<le> n"
    using g [of latencies] by (auto simp: getLatency_def)
  show "\<exists>n. getResourceCycles env arch cls = Inr n \<and> 0 \<le> n \<and> n < 4294967296"
    using g [of resourceCycles] by (auto simp: getResourceCycles_def)
  show "\<exists>n. getIssueCount env arch cls = Inr n"
    using g [of issueCounts] by (auto simp: getIssueCount_def)
  have "selectTable env (arch_isa arch) \<noteq> None"
    using assms by (auto simp: isSchedClassSupported_def split: option.splits)
  from selectFUTable_total [OF this] obtain t where
    "selectFUTable env (arch_isa arch) = Some t" "length t = 25" by blast
  with assms isSchedClassSupported_index [OF assms] show "\<exists>u. funit env arch cls = Inr u"
    by (simp add: funit_def Let_def)
qed

lemma funit_crashes_iff: "crashes (funit env arch cls) \<longleftrightarrow> \<not> isSchedClassSupported env arch cls"
proof (cases "isSchedClassSupported env arch cls")
  case True
  with funit_supported [OF True] show ?thesis by auto
qed (simp add: funit_def)

end
