(* ===== verification/Calibration.thy ===== *)
theory Calibration
  imports Sched_Tables
begin

text \<open>
  \<^verbatim>\<open>CalibrationData.cpp\<close>: measured latencies that override the tables. Parsing JSON text
  is LLVM's; the loader is modelled from the parsed value on. \<open>json\<close> is the part of
  \<^verbatim>\<open>llvm::json::Value\<close> the loader distinguishes, an object being its members in iteration
  order.
\<close>

subsection \<open>Data\<close>

record calibration_override =
  override_cycles :: int
  override_kernel :: string
  override_notes :: string

record calibration_data =
  cal_arch :: string
  cal_deviceName :: string
  cal_rocmVersion :: string
  cal_measuredAt :: string
  cal_notes :: string
  cal_overrides :: "int \<Rightarrow> calibration_override option"

datatype json =
    JNull
  | JBool bool
  | JInteger int
  | JString string
  | JArray "json list"
  | JObject "(string \<times> json) list"

subsection \<open>Accessors of \<^verbatim>\<open>llvm::json\<close>\<close>

fun getAsObject :: "json \<Rightarrow> (string \<times> json) list option" where
  "getAsObject (JObject members) = Some members"
| "getAsObject _ = None"

definition getInteger :: "(string \<times> json) list \<Rightarrow> string \<Rightarrow> int option" where
  "getInteger obj key = (case map_of obj key of Some (JInteger i) \<Rightarrow> Some i | _ \<Rightarrow> None)"

definition getString :: "(string \<times> json) list \<Rightarrow> string \<Rightarrow> string option" where
  "getString obj key = (case map_of obj key of Some (JString s) \<Rightarrow> Some s | _ \<Rightarrow> None)"

definition getObject :: "(string \<times> json) list \<Rightarrow> string \<Rightarrow> (string \<times> json) list option" where
  "getObject obj key = (case map_of obj key of Some v \<Rightarrow> getAsObject v | None \<Rightarrow> None)"

subsection \<open>Loading\<close>

definition parseSchedClassName :: "string \<Rightarrow> SchedClass" where
  "parseSchedClassName name =
     (case symbolizeSchedClass name of
        Some cls \<Rightarrow> if cls \<noteq> NumSchedClasses then cls else NumSchedClasses
      | None \<Rightarrow> NumSchedClasses)"

text \<open>\<^verbatim>\<open>static_cast<int>\<close> of a 64-bit value.\<close>

definition trunc_i32 :: "int \<Rightarrow> int" where
  "trunc_i32 i = (i + 2147483648) mod 4294967296 - 2147483648"

definition emptyCalibration :: calibration_data where
  "emptyCalibration = \<lparr>cal_arch = [], cal_deviceName = [], cal_rocmVersion = [],
     cal_measuredAt = [], cal_notes = [], cal_overrides = Map.empty\<rparr>"

definition parseOneOverride :: "string \<times> json \<Rightarrow> calibration_data \<Rightarrow>
    calibration_data result" where
  "parseOneOverride kv out =
     (let cls = parseSchedClassName (fst kv) in
      if cls = NumSchedClasses then Inl Failure
      else case getAsObject (snd kv) of
             None \<Rightarrow> Inl Failure
           | Some obj \<Rightarrow>
               (case getInteger obj ''cycles'' of
                  None \<Rightarrow> Inl Failure
                | Some cyc \<Rightarrow>
                    let entry = \<lparr>override_cycles = trunc_i32 cyc,
                          override_kernel = (case getString obj ''kernel'' of
                             Some k \<Rightarrow> k | None \<Rightarrow> []),
                          override_notes = (case getString obj ''notes'' of
                             Some n \<Rightarrow> n | None \<Rightarrow> [])\<rparr>;
                        key = int (sched_index cls)
                    in Inr (out\<lparr>cal_overrides :=
                         (if cal_overrides out key = None
                          then (cal_overrides out)(key \<mapsto> entry)
                          else cal_overrides out)\<rparr>)))"

definition readString :: "(string \<times> json) list \<Rightarrow> string \<Rightarrow> string \<Rightarrow> string" where
  "readString obj key dst = (case getString obj key of Some s \<Rightarrow> s | None \<Rightarrow> dst)"

definition readMetadata :: "(string \<times> json) list \<Rightarrow> calibration_data \<Rightarrow> calibration_data" where
  "readMetadata obj out =
     out\<lparr>cal_arch := readString obj ''arch'' (cal_arch out),
         cal_deviceName := readString obj ''device_name'' (cal_deviceName out),
         cal_rocmVersion := readString obj ''rocm_version'' (cal_rocmVersion out),
         cal_measuredAt := readString obj ''measured_at'' (cal_measuredAt out),
         cal_notes := readString obj ''notes'' (cal_notes out)\<rparr>"

definition parseRoot :: "json \<Rightarrow> calibration_data \<Rightarrow> calibration_data result" where
  "parseRoot root out =
     (case getAsObject root of
        None \<Rightarrow> Inl Failure
      | Some obj \<Rightarrow>
          if (case getInteger obj ''schema_version'' of Some v \<Rightarrow> v \<noteq> 1 | None \<Rightarrow> False)
          then Inl Failure
          else
            let out1 = readMetadata obj out in
            (case getObject obj ''overrides'' of
               None \<Rightarrow> Inr out1
             | Some overridesObj \<Rightarrow> foldR parseOneOverride overridesObj out1))"

text \<open>\<open>parsed\<close> is what \<^verbatim>\<open>llvm::json::parse\<close> returns for the text.\<close>

definition loadFromString :: "json result \<Rightarrow> calibration_data result" where
  "loadFromString parsed = bindR parsed (\<lambda>root. parseRoot root emptyCalibration)"

subsection \<open>Lookups\<close>

definition getOverrideCycles :: "calibration_data \<Rightarrow> SchedClass \<Rightarrow> int option" where
  "getOverrideCycles cal cls =
     (case cal_overrides cal (int (sched_index cls)) of
        None \<Rightarrow> None
      | Some e \<Rightarrow> Some (override_cycles e))"

definition getOverride :: "calibration_data \<Rightarrow> SchedClass \<Rightarrow> calibration_override option" where
  "getOverride cal cls = cal_overrides cal (int (sched_index cls))"

definition matchesArch :: "llvm_env \<Rightarrow> calibration_data \<Rightarrow> arch_data \<Rightarrow> bool" where
  "matchesArch env cal archData =
     (if cal_arch cal = [] then True
      else isaEq (getIsaVersion env (cal_arch cal)) (arch_isa archData))"

definition getCalibratedLatency :: "llvm_env \<Rightarrow> arch_data \<Rightarrow> SchedClass \<Rightarrow> calibration_data \<Rightarrow>
    int result" where
  "getCalibratedLatency env arch cls cal =
     (case getOverrideCycles cal cls of
        Some cyc \<Rightarrow> Inr cyc
      | None \<Rightarrow> getLatency env arch cls)"

subsection \<open>Class names\<close>

lemma getSchedClassName_inj: "getSchedClassName c = getSchedClassName d \<longleftrightarrow> c = d"
  by (cases c; cases d) simp_all

lemma symbolize_name: "symbolizeSchedClass (getSchedClassName c) = Some c"
  by (cases c)
     (simp_all add: symbolizeSchedClass_def schedClasses_def getSchedClassName_inj
        del: getSchedClassName.simps)

lemma parseSchedClassName_eq:
  "c \<noteq> NumSchedClasses \<Longrightarrow> parseSchedClassName s = c \<longleftrightarrow> s = getSchedClassName c"
proof
  assume c: "c \<noteq> NumSchedClasses"
  show "s = getSchedClassName c" if "parseSchedClassName s = c"
    using that c by (auto simp: parseSchedClassName_def symbolizeSchedClass_def find_Some_iff
        split: option.splits if_splits)
  show "parseSchedClassName s = c" if "s = getSchedClassName c"
    using that c by (simp add: parseSchedClassName_def symbolize_name)
qed

subsection \<open>What a loaded file contains\<close>

text \<open>The entry a well-formed member of \<^verbatim>\<open>overrides\<close> describes.\<close>

definition entryOf :: "json \<Rightarrow> calibration_override option" where
  "entryOf v =
     (case getAsObject v of
        None \<Rightarrow> None
      | Some obj \<Rightarrow> map_option (\<lambda>cyc.
          \<lparr>override_cycles = trunc_i32 cyc,
           override_kernel = readString obj ''kernel'' [],
           override_notes = readString obj ''notes'' []\<rparr>) (getInteger obj ''cycles''))"

definition memberOk :: "string \<times> json \<Rightarrow> bool" where
  "memberOk kv \<longleftrightarrow> parseSchedClassName (fst kv) \<noteq> NumSchedClasses \<and> entryOf (snd kv) \<noteq> None"

definition insertOverride :: "string \<times> json \<Rightarrow> calibration_data \<Rightarrow> calibration_data" where
  "insertOverride kv out =
     (let key = int (sched_index (parseSchedClassName (fst kv))) in
      out\<lparr>cal_overrides := (if cal_overrides out key = None
                            then (cal_overrides out)(key := entryOf (snd kv))
                            else cal_overrides out)\<rparr>)"

lemma parseOneOverride_eq:
  "parseOneOverride kv out = (if memberOk kv then Inr (insertOverride kv out) else Inl Failure)"
  by (auto simp: parseOneOverride_def memberOk_def insertOverride_def entryOf_def readString_def
      Let_def split: option.splits)

lemma foldR_overrides:
  "foldR parseOneOverride kvs out =
     (if list_all memberOk kvs then Inr (fold insertOverride kvs out) else Inl Failure)"
  by (induction kvs arbitrary: out) (simp_all add: parseOneOverride_eq)

lemma getOverride_insert:
  assumes "c \<noteq> NumSchedClasses" and "memberOk kv"
  shows "getOverride (insertOverride kv out) c =
    (case getOverride out c of Some e \<Rightarrow> Some e
     | None \<Rightarrow> if fst kv = getSchedClassName c then entryOf (snd kv) else None)"
  using parseSchedClassName_eq [OF assms(1), of "fst kv"]
  by (auto simp: getOverride_def insertOverride_def Let_def sched_index_inj split: option.splits)

lemma getOverride_fold:
  assumes "c \<noteq> NumSchedClasses" and "list_all memberOk kvs"
  shows "getOverride (fold insertOverride kvs out) c =
    (case getOverride out c of Some e \<Rightarrow> Some e
     | None \<Rightarrow> Option.bind (map_of kvs (getSchedClassName c)) entryOf)"
  using assms(2)
proof (induction kvs arbitrary: out)
  case Nil
  then show ?case by (simp split: option.splits)
next
  case (Cons kv kvs)
  then have "memberOk kv" by simp
  with Cons show ?case
    by (cases "getOverride out c"; cases "fst kv = getSchedClassName c"; cases kv)
       (auto simp: getOverride_insert [OF assms(1)] memberOk_def split: option.splits)
qed

subsection \<open>Properties\<close>

text \<open>class names are unambiguous: printing a class and parsing the name is the identity on
  every class, and only the printed name of a class parses to it.\<close>

theorem sched_class_name_roundtrip:
  "parseSchedClassName (getSchedClassName c) = c \<and>
   (parseSchedClassName s = c \<longleftrightarrow> s = getSchedClassName c \<or>
      c = NumSchedClasses \<and> s \<notin> getSchedClassName ` {d. d \<noteq> NumSchedClasses})"
proof -
  have num: "parseSchedClassName t = NumSchedClasses \<longleftrightarrow>
      t \<notin> getSchedClassName ` {d. d \<noteq> NumSchedClasses}" for t
  proof -
    have "parseSchedClassName t \<noteq> NumSchedClasses \<longleftrightarrow> (\<exists>d. d \<noteq> NumSchedClasses \<and> t = getSchedClassName d)"
      using parseSchedClassName_eq by metis
    then show ?thesis by blast
  qed
  show ?thesis
  proof (cases "c = NumSchedClasses")
    case True
    have "getSchedClassName NumSchedClasses \<notin> getSchedClassName ` {d. d \<noteq> NumSchedClasses}"
      by (auto simp: getSchedClassName_inj simp del: getSchedClassName.simps)
    with True num [of s] num [of "getSchedClassName NumSchedClasses"] show ?thesis
      by (auto simp del: getSchedClassName.simps)
  next
    case False
    then show ?thesis using parseSchedClassName_eq [OF False] by auto
  qed
qed

text \<open>a calibration file loads exactly when its schema is version 1 (or absent) and every
  member of \<^verbatim>\<open>overrides\<close> names a class and has integer cycles; what it loads gives every
  class the first member with its name, in whatever order the members are visited.\<close>

theorem loadFromString_correct:
  assumes "getAsObject root = Some obj" and "getInteger obj ''schema_version'' \<in> {None, Some 1}"
    and "getObject obj ''overrides'' = Some kvs"
  shows "case loadFromString (Inr root) of
      Inl err \<Rightarrow> err = Failure \<and> \<not> list_all memberOk kvs
    | Inr cal \<Rightarrow> list_all memberOk kvs \<and> cal_arch cal = readString obj ''arch'' [] \<and>
        (\<forall>c. c \<noteq> NumSchedClasses \<longrightarrow>
          getOverride cal c = Option.bind (map_of kvs (getSchedClassName c)) entryOf)"
proof -
  let ?out = "readMetadata obj emptyCalibration"
  have load: "loadFromString (Inr root) = foldR parseOneOverride kvs ?out"
    using assms by (auto simp: loadFromString_def parseRoot_def)
  have arch: "cal_arch (fold insertOverride kvs out) = cal_arch out" for out
    by (induction kvs arbitrary: out) (simp_all add: insertOverride_def Let_def)
  have none: "getOverride ?out c = None" for c
    by (simp add: readMetadata_def emptyCalibration_def getOverride_def)
  show ?thesis
    using getOverride_fold [of _ kvs ?out]
    by (simp add: load foldR_overrides arch none) (simp add: readMetadata_def emptyCalibration_def)
qed

definition ex_calibration :: json where
  "ex_calibration = JObject
     [(''schema_version'', JInteger 1), (''arch'', JString ''gfx950''),
      (''overrides'', JObject
        [(''WriteVMEM'', JObject [(''cycles'', JInteger 700), (''notes'', JString ''cold'')])])]"

theorem loadFromString_correct_witness:
  "getOverrideCycles (projr (loadFromString (Inr ex_calibration))) WriteVMEM = Some 700 \<and>
   getOverrideCycles (projr (loadFromString (Inr ex_calibration))) WriteLDS = None"
proof -
  let ?kvs = "[(''WriteVMEM'', JObject [(''cycles'', JInteger 700), (''notes'', JString ''cold'')])]"
  let ?obj = "[(''schema_version'', JInteger 1), (''arch'', JString ''gfx950''),
      (''overrides'', JObject ?kvs)]"
  have ok: "list_all memberOk ?kvs" by code_simp
  have c: "case loadFromString (Inr ex_calibration) of
      Inl err \<Rightarrow> err = Failure \<and> \<not> list_all memberOk ?kvs
    | Inr cal \<Rightarrow> list_all memberOk ?kvs \<and> cal_arch cal = readString ?obj ''arch'' [] \<and>
        (\<forall>c. c \<noteq> NumSchedClasses \<longrightarrow>
          getOverride cal c = Option.bind (map_of ?kvs (getSchedClassName c)) entryOf)"
    by (rule loadFromString_correct)
       (simp_all add: ex_calibration_def getInteger_def getObject_def)
  have over: "getOverride cal WriteVMEM =
      Some \<lparr>override_cycles = 700, override_kernel = [], override_notes = ''cold''\<rparr> \<and>
      getOverride cal WriteLDS = None"
    if all: "\<forall>c. c \<noteq> NumSchedClasses \<longrightarrow>
        getOverride cal c = Option.bind (map_of ?kvs (getSchedClassName c)) entryOf" for cal
    using all [rule_format, of WriteVMEM] all [rule_format, of WriteLDS]
    by (simp add: entryOf_def getInteger_def readString_def getString_def trunc_i32_def)
  show ?thesis
  proof (cases "loadFromString (Inr ex_calibration)")
    case (Inl err)
    with c ok show ?thesis by simp
  next
    case (Inr cal)
    with c over [of cal] show ?thesis
      by (simp add: getOverrideCycles_def getOverride_def)
  qed
qed

end
