(* ===== verification/Machine_IR.thy ===== *)
theory Machine_IR
  imports Arch_Data
begin

text \<open>
  The view of the WaveAMDMachine IR that the cost model has: typed SSA values, operations with
  their traits, their wait-counter information and the attributes the model reads
  (\<^verbatim>\<open>IR/WaveAMDMachineTypes.td\<close>, \<^verbatim>\<open>IR/WaveAMDMachineTraits.h\<close>,
  \<^verbatim>\<open>IR/WaveAMDMachineWaitcnt.h\<close>), and the mapping from wait events to hardware
  counters (\<^verbatim>\<open>IR/WaveAMDMachineWaitcntInfo.cpp\<close>).

  An operation class is its C++ class name, so that \<^verbatim>\<open>isa<...>\<close> is membership in a
  list of names; the classes whose attributes the model reads have constructors of their own.
\<close>

subsection \<open>Types and values\<close>

datatype RegClass = SGPR | VGPR | AGPR | SCC | VCC

datatype value_type =
    RegType RegClass int int
  | ImmType
  | MemTokenType
  | BarrierType
  | M0Type

text \<open>A value is its identity together with its type, as \<^verbatim>\<open>Value::getType\<close> sees it.\<close>

record op_value =
  val_id :: nat
  val_type :: value_type

subsection \<open>Wait counters\<close>

datatype WaitcntEvent =
    EventNone | EventVmem | EventVmemStore | EventLds | EventSmem | EventFlat | EventGds
  | EventMessage | EventScratchStore | EventAsync | EventTensor | EventSccWrite

datatype WaitcntCounter =
    CounterNone | CounterVmem | CounterLgkm | CounterVscnt | CounterLoad | CounterStore
  | CounterDs | CounterKm | CounterX | CounterTensor | CounterAsync

datatype WaitCounterFamily = Legacy | Gfx12Split

record waitcnt_info =
  wi_event :: WaitcntEvent
  wi_issueCount :: nat
  wi_outOfOrder :: bool

record waitcnt_counter_mapping =
  map_completion :: WaitcntCounter
  map_source :: WaitcntCounter

record counter_mapping_rule =
  rule_event :: WaitcntEvent
  rule_completion :: WaitcntCounter
  usesXSource :: bool

definition legacyRules :: "counter_mapping_rule list" where
  "legacyRules =
     [\<lparr>rule_event = EventVmem, rule_completion = CounterVmem, usesXSource = False\<rparr>,
      \<lparr>rule_event = EventFlat, rule_completion = CounterVmem, usesXSource = False\<rparr>,
      \<lparr>rule_event = EventVmemStore, rule_completion = CounterVscnt, usesXSource = False\<rparr>,
      \<lparr>rule_event = EventScratchStore, rule_completion = CounterVscnt, usesXSource = False\<rparr>,
      \<lparr>rule_event = EventLds, rule_completion = CounterLgkm, usesXSource = False\<rparr>,
      \<lparr>rule_event = EventSmem, rule_completion = CounterLgkm, usesXSource = False\<rparr>,
      \<lparr>rule_event = EventGds, rule_completion = CounterLgkm, usesXSource = False\<rparr>,
      \<lparr>rule_event = EventMessage, rule_completion = CounterLgkm, usesXSource = False\<rparr>]"

definition splitRules :: "counter_mapping_rule list" where
  "splitRules =
     [\<lparr>rule_event = EventVmem, rule_completion = CounterLoad, usesXSource = True\<rparr>,
      \<lparr>rule_event = EventVmemStore, rule_completion = CounterStore, usesXSource = True\<rparr>,
      \<lparr>rule_event = EventScratchStore, rule_completion = CounterStore, usesXSource = True\<rparr>,
      \<lparr>rule_event = EventLds, rule_completion = CounterDs, usesXSource = False\<rparr>,
      \<lparr>rule_event = EventSmem, rule_completion = CounterKm, usesXSource = True\<rparr>,
      \<lparr>rule_event = EventMessage, rule_completion = CounterKm, usesXSource = False\<rparr>,
      \<lparr>rule_event = EventSccWrite, rule_completion = CounterKm, usesXSource = False\<rparr>,
      \<lparr>rule_event = EventAsync, rule_completion = CounterAsync, usesXSource = False\<rparr>,
      \<lparr>rule_event = EventTensor, rule_completion = CounterTensor, usesXSource = False\<rparr>]"

fun findCounterMapping :: "WaitcntEvent \<Rightarrow> counter_mapping_rule list \<Rightarrow> bool \<Rightarrow>
    waitcnt_counter_mapping option" where
  "findCounterMapping ev [] waitXcnt = None"
| "findCounterMapping ev (rule # rules) waitXcnt =
     (if rule_event rule \<noteq> ev then findCounterMapping ev rules waitXcnt
      else let src = (if waitXcnt \<and> usesXSource rule then CounterX else CounterNone)
           in Some \<lparr>map_completion = rule_completion rule, map_source = src\<rparr>)"

definition getWaitcntCounterMapping :: "WaitcntEvent \<Rightarrow> WaitCounterFamily \<Rightarrow> bool \<Rightarrow>
    waitcnt_counter_mapping option" where
  "getWaitcntCounterMapping ev family waitXcnt =
     (if ev = EventNone then Some \<lparr>map_completion = CounterNone, map_source = CounterNone\<rparr>
      else if family = Legacy then findCounterMapping ev legacyRules False
      else findCounterMapping ev splitRules waitXcnt)"

definition getLegacyWaitcntCounter :: "WaitcntEvent \<Rightarrow> WaitcntCounter" where
  "getLegacyWaitcntCounter ev =
     (case getWaitcntCounterMapping ev Legacy False of
        Some mapping \<Rightarrow> map_completion mapping
      | None \<Rightarrow> CounterNone)"

subsection \<open>Operations\<close>

datatype op_trait =
    VALUOp | SALUOp | SMEMLoadOp | LDSLoadOp | LDSStoreOp | LDSDmaOp | ScratchMemoryOp
  | VMEMLoadOp | VMEMStoreOp | TensorMemoryOp | FlatMemoryOp | DSOp | TransOp
  | TupleMemoryOp | TupleAliasOp | WaitcntOp | TokenOp | TokenJoinOp
  | CompletionFreeTokenOp | CompletionNeutralTokenOp | NoMachineInst | NoAsmEmission
  | MFMAOp | WMMAOp | ReadsExecOp | WritesExecOp | M0WriteHazardOpInterface

datatype op_class =
    NamedOp string
  | SWaitcntOp (vmcnt: "nat option") (expcnt: "nat option") (lgkmcnt: "nat option")
  | SWaitcntVscntOp (vscnt: nat)
  | SWaitcntSplitOp (loadcnt: "nat option") (storecnt: "nat option") (dscnt: "nat option")
      (kmcnt: "nat option") (xcnt: "nat option") (asynccnt: "nat option")
      (tensorcnt: "nat option")
  | DmaIssueDelayOp (delay_dependency: op_value) (delay_skip: "op_value option") (delay_cycles: int)
      (delay_overlap: int)
  | BufferStoreB96Op (soffset96: op_value)
  | BufferStoreB128Op (soffset128: op_value)

fun class_name :: "op_class \<Rightarrow> string" where
  "class_name (NamedOp s) = s"
| "class_name (SWaitcntOp _ _ _) = ''SWaitcntOp''"
| "class_name (SWaitcntVscntOp _) = ''SWaitcntVscntOp''"
| "class_name (SWaitcntSplitOp _ _ _ _ _ _ _) = ''SWaitcntSplitOp''"
| "class_name (DmaIssueDelayOp _ _ _ _) = ''DmaIssueDelayOp''"
| "class_name (BufferStoreB96Op _) = ''BufferStoreB96Op''"
| "class_name (BufferStoreB128Op _) = ''BufferStoreB128Op''"

text \<open>
  \<open>op_issues\<close> is the operation's \<^verbatim>\<open>InstructionIssueOpInterface\<close>: its declared issue
  count as a function of the ISA and the wavefront size, generated by TableGen from the
  operation's definition. \<open>op_waitcnt\<close> is what its \<^verbatim>\<open>WaitcntInfoOpInterface\<close> returns,
  \<open>None\<close> without the interface.
\<close>

record op_info =
  op_id :: nat
  op_class :: op_class
  op_traits :: "op_trait list"
  op_operands :: "op_value list"
  op_results :: "op_value list"
  op_waitcnt :: "waitcnt_info option"
  op_issues :: "(isa_version \<Rightarrow> nat \<Rightarrow> nat) option"
  op_isMachine :: bool

definition isaOp :: "op_info \<Rightarrow> string list \<Rightarrow> bool" where
  "isaOp op names \<longleftrightarrow> class_name (op_class op) \<in> set names"

definition hasTrait :: "op_info \<Rightarrow> op_trait \<Rightarrow> bool" where
  "hasTrait op t \<longleftrightarrow> t \<in> set (op_traits op)"

definition noWaitcntInfo :: waitcnt_info where
  "noWaitcntInfo = \<lparr>wi_event = EventNone, wi_issueCount = 0, wi_outOfOrder = False\<rparr>"

definition getWaitcntInfo :: "op_info \<Rightarrow> waitcnt_info" where
  "getWaitcntInfo op = (case op_waitcnt op of Some info \<Rightarrow> info | None \<Rightarrow> noWaitcntInfo)"

definition isWaveAMDMachineOp :: "op_info \<Rightarrow> bool" where
  "isWaveAMDMachineOp op = op_isMachine op"

definition getRegClass :: "op_value \<Rightarrow> RegClass option" where
  "getRegClass v = (case val_type v of RegType c _ _ \<Rightarrow> Some c | _ \<Rightarrow> None)"

definition isMemToken :: "op_value \<Rightarrow> bool" where
  "isMemToken v \<longleftrightarrow> val_type v = MemTokenType"

text \<open>\<open>VPermlane32SwapB32TupleOp::isSupportedOnIsa\<close>: its \<^verbatim>\<open>archPredicate\<close>.\<close>

definition VPermlane32SwapB32TupleOp_isSupportedOnIsa :: "isa_version \<Rightarrow> bool" where
  "VPermlane32SwapB32TupleOp_isSupportedOnIsa isa \<longleftrightarrow>
     Major isa = 9 \<and> Minor isa = 5 \<and> Stepping isa = 0"

text \<open>\<open>TDMLoadOp\<close> and \<open>TDMStoreOp\<close>: the predicate of \<^verbatim>\<open>WaveAMDMachine_TDMTransfer\<close>.\<close>

definition TDMTransfer_isSupportedOnIsa :: "isa_version \<Rightarrow> bool" where
  "TDMTransfer_isSupportedOnIsa isa \<longleftrightarrow> Major isa = 12 \<and> Minor isa = 5 \<and> Stepping isa = 0"

subsection \<open>Counter mapping\<close>

lemma getLegacyWaitcntCounter_simps [simp]:
  "getLegacyWaitcntCounter EventNone = CounterNone"
  "getLegacyWaitcntCounter EventVmem = CounterVmem"
  "getLegacyWaitcntCounter EventVmemStore = CounterVscnt"
  "getLegacyWaitcntCounter EventLds = CounterLgkm"
  "getLegacyWaitcntCounter EventSmem = CounterLgkm"
  "getLegacyWaitcntCounter EventFlat = CounterVmem"
  "getLegacyWaitcntCounter EventGds = CounterLgkm"
  "getLegacyWaitcntCounter EventMessage = CounterLgkm"
  "getLegacyWaitcntCounter EventScratchStore = CounterVscnt"
  "getLegacyWaitcntCounter EventAsync = CounterNone"
  "getLegacyWaitcntCounter EventTensor = CounterNone"
  "getLegacyWaitcntCounter EventSccWrite = CounterNone"
  by (simp_all add: getLegacyWaitcntCounter_def getWaitcntCounterMapping_def legacyRules_def)

lemma findCounterMapping_source:
  "findCounterMapping ev rules False = Some m \<Longrightarrow> map_source m = CounterNone"
  by (induction rules) (auto split: if_splits)

lemma splitMapping_total:
  "getWaitcntCounterMapping ev Gfx12Split w \<noteq> None \<longleftrightarrow> ev \<notin> {EventFlat, EventGds}"
  by (cases ev) (simp_all add: getWaitcntCounterMapping_def splitRules_def)

end
