(* ===== verification/Op_Classifier.thy ===== *)
theory Op_Classifier
  imports Machine_IR Sched_Tables
begin

text \<open>
  \<^verbatim>\<open>OpClassifier.cpp\<close>: the scheduling class of an operation, its issue count, and its
  part in the MFMA/VALU coexecution model. The class lists are those of the
  \<^verbatim>\<open>TypeSwitch\<close>, one list per arm. An operation that no arm and no trait covers is
  classified as in a release build: a warning and \<open>Write32Bit\<close>.
\<close>

subsection \<open>Class lists\<close>

definition ops_Write4PassMAI :: "string list" where
  "ops_Write4PassMAI =
     [''MfmaF32_16x16x16_F16Op'', ''MfmaF32_16x16x16_BF16Op'', ''MfmaF32_16x16x32_F16Op'',
      ''MfmaF32_16x16x32_BF16Op'', ''MfmaScaleF32_16x16x128_F4F4Op'']"

definition ops_Write8PassMAI :: "string list" where
  "ops_Write8PassMAI =
     [''MfmaF32_32x32x16_F16Op'', ''MfmaF32_32x32x16_BF16Op'', ''MfmaScaleF32_32x32x64_F4F4Op'']"

definition ops_Write16PassWMMA :: "string list" where
  "ops_Write16PassWMMA =
     [''WmmaF32_16x16x16_F16Op'', ''WmmaF32_16x16x16_BF16Op'', ''WmmaI32_16x16x16_IU8Op'']"

definition ops_WriteXDL2PassWMMA :: "string list" where
  "ops_WriteXDL2PassWMMA =
     [''WmmaF32_16x16x32_F16Op'', ''WmmaF32_16x16x32_BF16Op'']"

definition ops_WriteSMEM :: "string list" where
  "ops_WriteSMEM =
     [''SLoadB32Op'', ''SLoadB64Op'', ''SLoadB128Op'']"

definition ops_NoInst :: "string list" where
  "ops_NoInst =
     [''LabelOp'', ''ScheduleTokenOp'', ''AfterOp'', ''ContinueIfOp'', ''YieldOp'', ''ExecIfOp'',
      ''UniformIfOp'', ''UniformLoopOp'']"

definition ops_WaitcntPseudo :: "string list" where
  "ops_WaitcntPseudo =
     [''SWaitAluOp'']"

definition ops_WriteBranch :: "string list" where
  "ops_WriteBranch =
     [''SCBranchScc0Op'', ''SCBranchScc1Op'', ''SCBranchExeczOp'', ''SSetpcB64Op'', ''SEndpgmOp'']"

definition ops_Write64Bit :: "string list" where
  "ops_Write64Bit =
     [''VAddU64Op'', ''VAddU64U32Op'', ''VMovB64TupleOp'', ''VMulU64Op'', ''VXorB64Op'',
      ''VLshlrevB64Op'', ''VLshrrevB64Op'', ''VAshrrevI64Op'']"

definition ops_WriteFloatFMA :: "string list" where
  "ops_WriteFloatFMA =
     [''VFmaF32Op'']"

definition ops_Write32Bit :: "string list" where
  "ops_Write32Bit =
     [''VNopOp'', ''VCvtF16F32Op'', ''VCvtF32F16Op'', ''VCvtF32U32Op'', ''VCvtU32F32Op'',
      ''VCvtPkRtzF16F32Op'', ''VCvtPkF16F32Op'', ''VCvtPkBF16F32Op'', ''VPkAddF16Op'',
      ''VPkMulF16Op'', ''VPkFmaF16Op'', ''VPkAddF32Op'', ''VPkMulF32Op'', ''VPkFmaF32Op'',
      ''VAdd3U32Op'', ''VBfeU32Op'', ''VLshlAddU32Op'', ''VAddLshlU32Op'', ''VAndOrB32Op'',
      ''VOr3B32Op'', ''VXadU32Op'', ''VPermB32Op'', ''VBitOp3B32Op'', ''VMadI32I24Op'',
      ''VMadU32U24Op'', ''VFfbhU32Op'', ''VFfblB32Op'', ''VMulHiU32Op'', ''VAshrrevI32Op'']"

definition ops_WriteTrans32 :: "string list" where
  "ops_WriteTrans32 =
     [''VExpF32Op'', ''VRcpF32Op'', ''VRcpIFlagF32Op'']"

definition ops_WriteSALU :: "string list" where
  "ops_WriteSALU =
     [''SAddI32Op'', ''SSubI32Op'', ''SAddM0I32Op'', ''SAddU64Op'', ''SAddU64U32Op'',
      ''DmaIssueDelayOp'', ''SAndB32Op'', ''SAndB64Op'', ''SAndn2ExecB32Op'', ''SAndn2ExecB64Op'',
      ''SAndSaveexecB32Op'', ''SAndSaveexecB64Op'', ''SCmpEqI32Op'', ''SCmpLgI32Op'',
      ''SCmpGtI32Op'', ''SCmpGeI32Op'', ''SCmpLtI32Op'', ''SCmpLeI32Op'', ''SCmpEqU32Op'',
      ''SCmpEqU32BarrierSeedOp'', ''SCmpLgU32Op'', ''SCmpGtU32Op'', ''SCmpGeU32Op'',
      ''SCmpLtU32Op'', ''SCmpLeU32Op'', ''SCmpEqU64Op'', ''SCmpLgU64Op'', ''SCSelectB32Op'',
      ''SDelayAluOp'', ''SLshlB32Op'', ''SLshlB64Op'', ''SLshrB32Op'', ''SLshrB64Op'',
      ''SAshrI32Op'', ''SAshrI64Op'', ''SMovB32Op'', ''SMovB32TupleOp'', ''SMovB32ValueOp'',
      ''SMovB64ImmOp'', ''SMovExecB64Op'', ''SMovExecLoOp'', ''SMovM0Op'', ''SMovVccB32Op'',
      ''SMovVccB64Op'', ''SMulI32Op'', ''SMulHiU32Op'', ''SMulU64Op'', ''SNopOp'', ''SSleepOp'',
      ''SFf1I32B32Op'', ''SFf1I32B64Op'', ''SFlbitI32B32Op'', ''SFlbitI32B64Op'', ''SOrB32Op'',
      ''SOrB64Op'', ''SReadVccB32Op'', ''SReadVccB64Op'', ''SSendmsgDeallocVgprsOp'',
      ''SSetprioOp'', ''SSetprioIncWgOp'', ''SGetregShaderCyclesOp'', ''SGetregHwIdOp'',
      ''SSetSchedulingModeOp'', ''SXorB32Op'', ''SXorB64Op'']"

definition ops_clusterIdentity :: "string list" where
  "ops_clusterIdentity =
     [''SClusterIdXOp'', ''SClusterIdYOp'', ''SClusterIdZOp'', ''SClusterWorkgroupIdXOp'',
      ''SClusterWorkgroupIdYOp'', ''SClusterWorkgroupIdZOp'', ''SClusterWorkgroupMaxIdXOp'',
      ''SClusterWorkgroupMaxIdYOp'', ''SClusterWorkgroupMaxIdZOp'']"

definition ops_barrierClass :: "string list" where
  "ops_barrierClass =
     [''BarrierWaitOp'', ''ClusterBarrierOp'', ''SBarrierSignalIsFirstOp'',
      ''SBarrierSignalOp'', ''SBarrierWaitOp'', ''SBarrierOp'']"

definition ops_packedMath :: "string list" where
  "ops_packedMath =
     [''VPkAddF16Op'', ''VPkMulF16Op'', ''VPkFmaF16Op'', ''VPkAddF32Op'', ''VPkMulF32Op'',
      ''VPkFmaF32Op'']"

subsection \<open>Classification\<close>

definition fallbackClassify :: "op_info \<Rightarrow> SchedClass" where
  "fallbackClassify op = (if hasTrait op VALUOp then Write32Bit else Write32Bit)"

definition issuesLdsWaitcnt :: "op_info \<Rightarrow> bool" where
  "issuesLdsWaitcnt op \<longleftrightarrow> wi_event (getWaitcntInfo op) = EventLds"

definition isClusterIdentityRead :: "op_info \<Rightarrow> bool" where
  "isClusterIdentityRead op = isaOp op ops_clusterIdentity"

definition isBarrierClassOp :: "op_info \<Rightarrow> bool" where
  "isBarrierClassOp op = isaOp op ops_barrierClass"

definition classifyCopyTuple :: "op_info \<Rightarrow> SchedClass" where
  "classifyCopyTuple op =
     (if getRegClass (hd (op_results op)) = Some SGPR then WriteSALU else Write32Bit)"

definition classifyMappedOp :: "op_info \<Rightarrow> SchedClass" where
  "classifyMappedOp op =
     (if hasTrait op NoMachineInst then NoInst
      else if hasTrait op TensorMemoryOp then WriteTDM
      else if hasTrait op VMEMLoadOp \<or> hasTrait op VMEMStoreOp then WriteVMEM
      else if issuesLdsWaitcnt op then WriteLDS
      else if isClusterIdentityRead op then WriteSALU
      else if isBarrierClassOp op then WriteBarrier
      else if isaOp op ops_Write4PassMAI then Write4PassMAI
      else if isaOp op ops_Write8PassMAI then Write8PassMAI
      else if isaOp op ops_Write16PassWMMA then Write16PassWMMA
      else if isaOp op ops_WriteXDL2PassWMMA then WriteXDL2PassWMMA
      else if isaOp op ops_WriteSMEM then WriteSMEM
      else if isaOp op ops_NoInst then NoInst
      else if isaOp op ops_WaitcntPseudo then WaitcntPseudo
      else if isaOp op ops_WriteBranch then WriteBranch
      else if isaOp op ops_Write64Bit then Write64Bit
      else if isaOp op [''CopyTupleOp''] then classifyCopyTuple op
      else if isaOp op ops_WriteFloatFMA then WriteFloatFMA
      else if isaOp op ops_Write32Bit then Write32Bit
      else if isaOp op ops_WriteTrans32 then WriteTrans32
      else if isaOp op ops_WriteSALU then WriteSALU
      else if hasTrait op VALUOp then Write32Bit
      else NumSchedClasses)"

definition classifyOp :: "op_info \<Rightarrow> SchedClass" where
  "classifyOp op =
     (let cls = classifyMappedOp op in
      if cls \<noteq> NumSchedClasses then cls else fallbackClassify op)"

definition hasSchedClassMapping :: "op_info \<Rightarrow> bool" where
  "hasSchedClassMapping op \<longleftrightarrow> classifyMappedOp op \<noteq> NumSchedClasses"

subsection \<open>Issue counts\<close>

definition validateInstructionIssueCountTarget :: "llvm_env \<Rightarrow> op_info \<Rightarrow> isa_version \<Rightarrow>
    unit result" where
  "validateInstructionIssueCountTarget env op targetIsa =
     (if \<not> isaOp op [''TDMLoadOp'', ''TDMStoreOp''] then Inr ()
      else if \<not> TDMTransfer_isSupportedOnIsa targetIsa then Inl Failure
      else if \<not> isArchSupported env targetIsa then Inl Failure
      else Inr ())"

definition getInstructionIssueCount :: "llvm_env \<Rightarrow> op_info \<Rightarrow> isa_version \<Rightarrow> nat \<Rightarrow>
    nat result" where
  "getInstructionIssueCount env op targetIsa wavefrontSize =
     (case op_issues op of
        None \<Rightarrow> Inr 1
      | Some declared \<Rightarrow>
          let declaredIssues = declared targetIsa wavefrontSize in
          if \<not> isaOp op [''TDMLoadOp'', ''TDMStoreOp''] then Inr (max 1 declaredIssues)
          else
            let cls = classifyOp op in
            bindR (getArchData env targetIsa) (\<lambda>arch.
            bindR (if isSchedClassSupported env arch cls then getIssueCount env arch cls
                   else Inr 1) (\<lambda>llvmIssues.
            Inr (max 1 (max declaredIssues llvmIssues)))))"

definition usesMfmaCoissueResource :: "op_info \<Rightarrow> SchedClass \<Rightarrow> arch_data \<Rightarrow> bool" where
  "usesMfmaCoissueResource op cls arch =
     (if \<not> hasMfmaCoissueRestriction arch then False
      else if hasTrait op MFMAOp \<or> cls = WriteTrans32 then True
      else isaOp op ops_packedMath)"

record coexecution_model =
  openedSlots :: nat
  filledSlots :: nat
  producerBurst :: nat
  waitsForWindow :: bool

definition noCoexecution :: coexecution_model where
  "noCoexecution =
     \<lparr>openedSlots = 0, filledSlots = 0, producerBurst = 0, waitsForWindow = False\<rparr>"

definition getInstructionCoexecutionModel :: "llvm_env \<Rightarrow> op_info \<Rightarrow> SchedClass \<Rightarrow> arch_data \<Rightarrow>
    nat \<Rightarrow> coexecution_model result" where
  "getInstructionCoexecutionModel env op cls arch wavefrontSize =
     (if mfmaValuCoexecWindowSlots arch = 0 \<or> mfmaValuCoexecProducerBurst arch = 0
      then Inr noCoexecution
      else
        bindR (getInstructionIssueCount env op (arch_isa arch) wavefrontSize) (\<lambda>issues.
        bindR (getResourceCycles env arch cls) (\<lambda>resourceCycles.
          let release = max issues (to_u32 (max 1 resourceCycles)) in
          if hasTrait op MFMAOp then
            let window = to_u32 (mfmaValuCoexecWindowSlots arch) in
            if release \<le> window then Inr noCoexecution
            else Inr \<lparr>openedSlots = window, filledSlots = 0,
                      producerBurst = to_u32 (mfmaValuCoexecProducerBurst arch),
                      waitsForWindow = True\<rparr>
          else if usesMfmaCoissueResource op cls arch \<or> \<not> hasTrait op VALUOp
          then Inr noCoexecution
          else Inr (noCoexecution\<lparr>filledSlots := release\<rparr>))))"

subsection \<open>Properties\<close>

lemma classifyOp_valid [simp]: "classifyOp op \<noteq> NumSchedClasses"
  by (simp add: classifyOp_def fallbackClassify_def Let_def)

lemma getInstructionIssueCount_pos:
  "getInstructionIssueCount env op isa wavefrontSize = Inr n \<Longrightarrow> 1 \<le> n"
  by (auto simp: getInstructionIssueCount_def Let_def bindR_eq_Inr split: option.splits if_splits)

lemma getInstructionIssueCount_total:
  assumes "isArchSupported env isa \<or> \<not> isaOp op [''TDMLoadOp'', ''TDMStoreOp'']"
  shows "\<exists>n\<ge>1. getInstructionIssueCount env op isa wavefrontSize = Inr n"
proof (cases "op_issues op")
  case None
  then show ?thesis by (simp add: getInstructionIssueCount_def)
next
  case (Some declared)
  show ?thesis
  proof (cases "isaOp op [''TDMLoadOp'', ''TDMStoreOp'']")
    case False
    with Some show ?thesis by (simp add: getInstructionIssueCount_def Let_def)
  next
    case True
    with assms have "\<not> crashes (getArchData env isa)" by (simp add: getArchData_crashes_iff)
    moreover have "getArchData env isa \<noteq> Inl Failure"
      by (simp add: getArchData_def split: option.splits)
    ultimately obtain arch where arch: "getArchData env isa = Inr arch"
      by (cases "getArchData env isa") (auto simp: crashes_def split: error.splits)
    have "\<exists>m. (if isSchedClassSupported env arch (classifyOp op)
        then getIssueCount env arch (classifyOp op) else Inr 1) = Inr m"
      using getIssueCount_supported [of env arch "classifyOp op"] by auto
    then obtain m where "(if isSchedClassSupported env arch (classifyOp op)
        then getIssueCount env arch (classifyOp op) else Inr 1) = Inr m" by blast
    with Some True arch show ?thesis by (simp add: getInstructionIssueCount_def Let_def)
  qed
qed

text \<open>the validation of an operation against its target is the exact guard of the issue
  count: a validated operation has an issue count of at least one on that target, and no lookup
  behind it ends the process. On a target without a cost model the count of a tensor transfer
  does end the process.\<close>

theorem validated_issue_count:
  "(validateInstructionIssueCountTarget env op isa = Inr () \<longrightarrow>
     (\<exists>n\<ge>1. getInstructionIssueCount env op isa wavefrontSize = Inr n)) \<and>
   (crashes (getInstructionIssueCount env op isa wavefrontSize) \<longrightarrow>
     validateInstructionIssueCountTarget env op isa = Inl Failure)"
proof -
  let ?tdm = "isaOp op [''TDMLoadOp'', ''TDMStoreOp'']"
  have v: "validateInstructionIssueCountTarget env op isa =
      (if ?tdm \<and> \<not> (TDMTransfer_isSupportedOnIsa isa \<and> isArchSupported env isa)
       then Inl Failure else Inr ())"
    by (simp add: validateInstructionIssueCountTarget_def)
  show ?thesis
    using getInstructionIssueCount_total [of env isa op wavefrontSize] by (auto simp: v)
qed

definition ex_env :: llvm_env where
  "ex_env = \<lparr>getIsaVersion = (\<lambda>_. \<lparr>Major = 12, Minor = 5, Stepping = 0\<rparr>),
     gfx1250_name = ''gfx1250'',
     gfx1250_capabilities = Some \<lparr>cap_isa = \<lparr>Major = 12, Minor = 5, Stepping = 0\<rparr>,
       cap_maxWavesPerEU = 16, cap_executionUnitsPerCU = 4, cap_totalVGPRs = 1024,
       cap_vgprAllocationGranule = 16, cap_scheduleIssueWidth = 1,
       cap_transCoexecutionHazard = True, cap_wmmaCoexecutionHazard = True,
       cap_scratchBaseForwardingHazard = False\<rparr>\<rparr>"

definition plainOp :: "op_class \<Rightarrow> op_trait list \<Rightarrow> op_value list \<Rightarrow> op_value list \<Rightarrow> op_info" where
  "plainOp c traits operands results =
     \<lparr>op_id = 0, op_class = c, op_traits = traits, op_operands = operands,
      op_results = results, op_waitcnt = Some noWaitcntInfo,
      op_issues = Some (\<lambda>_ _. 1), op_isMachine = True\<rparr>"

definition ex_tdm :: op_info where
  "ex_tdm = plainOp (NamedOp ''TDMLoadOp'') [TensorMemoryOp] [] []"

definition ex_gfx1250 :: isa_version where
  "ex_gfx1250 = \<lparr>Major = 12, Minor = 5, Stepping = 0\<rparr>"

theorem validated_issue_count_witness:
  "1 \<le> projr (getInstructionIssueCount ex_env ex_tdm ex_gfx1250 32) \<and>
   getInstructionIssueCount ex_env ex_tdm ex_gfx1250 32 = Inr 2"
proof -
  have v: "validateInstructionIssueCountTarget ex_env ex_tdm ex_gfx1250 = Inr ()" by code_simp
  have n: "getInstructionIssueCount ex_env ex_tdm ex_gfx1250 32 = Inr 2" by code_simp
  show ?thesis
    using validated_issue_count [of ex_env ex_tdm ex_gfx1250 32] v n by auto
qed

text \<open>The coexecution model of an operation never both opens and fills a window; a producer
  opens exactly the window of its target and only when it occupies the pipe longer than the
  window, so that every slot of the window can be filled while it runs.\<close>

theorem coexecution_model_exclusive:
  assumes "getInstructionCoexecutionModel env op cls arch wavefrontSize = Inr m"
    and "sane arch"
  shows "(openedSlots m = 0 \<or> filledSlots m = 0) \<and>
    (waitsForWindow m \<longleftrightarrow> openedSlots m \<noteq> 0) \<and>
    (openedSlots m \<noteq> 0 \<longrightarrow> hasTrait op MFMAOp \<and>
       openedSlots m = nat (mfmaValuCoexecWindowSlots arch) \<and>
       producerBurst m = nat (mfmaValuCoexecProducerBurst arch) \<and> 1 \<le> producerBurst m \<and>
       (\<exists>issues. getInstructionIssueCount env op (arch_isa arch) wavefrontSize = Inr issues \<and>
         (\<exists>rc. getResourceCycles env arch cls = Inr rc \<and>
            openedSlots m < max issues (to_u32 (max 1 rc)))))"
proof -
  have range: "0 \<le> mfmaValuCoexecWindowSlots arch" "mfmaValuCoexecWindowSlots arch \<le> 64"
      "0 \<le> mfmaValuCoexecProducerBurst arch" "mfmaValuCoexecProducerBurst arch \<le> 64"
    using assms(2) by (auto simp: sane_def saneInstructionIssue_def)
  then have u32: "to_u32 (mfmaValuCoexecWindowSlots arch) = nat (mfmaValuCoexecWindowSlots arch)"
      "to_u32 (mfmaValuCoexecProducerBurst arch) = nat (mfmaValuCoexecProducerBurst arch)"
    by (simp_all add: to_u32_id)
  show ?thesis
  proof (cases "mfmaValuCoexecWindowSlots arch = 0 \<or> mfmaValuCoexecProducerBurst arch = 0")
    case True
    with assms(1) have "m = noCoexecution"
      by (simp add: getInstructionCoexecutionModel_def)
    then show ?thesis by (simp add: noCoexecution_def)
  next
    case False
    with assms(1) obtain issues rc where
      n: "getInstructionIssueCount env op (arch_isa arch) wavefrontSize = Inr issues"
         "getResourceCycles env arch cls = Inr rc"
      by (auto simp: getInstructionCoexecutionModel_def bindR_eq_Inr)
    let ?release = "max issues (to_u32 (max 1 rc))"
    have pos: "1 \<le> nat (mfmaValuCoexecProducerBurst arch)" using False range by linarith
    have win: "0 < nat (mfmaValuCoexecWindowSlots arch)" using False range by linarith
    have m: "m = noCoexecution \<or> m = noCoexecution\<lparr>filledSlots := ?release\<rparr> \<or>
        hasTrait op MFMAOp \<and> \<not> ?release \<le> nat (mfmaValuCoexecWindowSlots arch) \<and>
        m = \<lparr>openedSlots = nat (mfmaValuCoexecWindowSlots arch), filledSlots = 0,
             producerBurst = nat (mfmaValuCoexecProducerBurst arch), waitsForWindow = True\<rparr>"
      using assms(1) False n u32
      by (simp add: getInstructionCoexecutionModel_def Let_def split: if_splits del: max.bounded_iff)
    show ?thesis
      using m
    proof (elim disjE conjE)
      assume "hasTrait op MFMAOp" and gt: "\<not> ?release \<le> nat (mfmaValuCoexecWindowSlots arch)"
        and eq: "m = \<lparr>openedSlots = nat (mfmaValuCoexecWindowSlots arch), filledSlots = 0,
             producerBurst = nat (mfmaValuCoexecProducerBurst arch), waitsForWindow = True\<rparr>"
      have "nat (mfmaValuCoexecWindowSlots arch) < ?release" using gt by (simp only: not_le)
      then have "\<exists>issues. getInstructionIssueCount env op (arch_isa arch) wavefrontSize = Inr issues \<and>
         (\<exists>rc. getResourceCycles env arch cls = Inr rc \<and>
            openedSlots m < max issues (to_u32 (max 1 rc)))"
        using n by (intro exI conjI) (simp_all only: eq coexecution_model.simps)
      with \<open>hasTrait op MFMAOp\<close> show ?thesis using pos win by (simp add: eq)
    qed (simp_all add: noCoexecution_def)
  qed
qed

definition ex_mfma :: op_info where
  "ex_mfma = plainOp (NamedOp ''MfmaF32_32x32x16_F16Op'') [VALUOp, MFMAOp] [] []"

theorem coexecution_model_exclusive_witness:
  "getInstructionCoexecutionModel ex_env ex_mfma Write8PassMAI kGfx950 64 =
     Inr \<lparr>openedSlots = 6, filledSlots = 0, producerBurst = 2, waitsForWindow = True\<rparr> \<and>
   getResourceCycles ex_env kGfx950 Write8PassMAI = Inr 8 \<and> (6::nat) < max 1 8"
proof -
  have m: "getInstructionCoexecutionModel ex_env ex_mfma Write8PassMAI kGfx950 64 =
     Inr \<lparr>openedSlots = 6, filledSlots = 0, producerBurst = 2, waitsForWindow = True\<rparr>"
    by code_simp
  have rc: "getResourceCycles ex_env kGfx950 Write8PassMAI = Inr 8" by code_simp
  from coexecution_model_exclusive [OF m sane_static_archs(3)] m rc show ?thesis by simp
qed

end
