(* ===== verification/Memory_Timing.thy ===== *)
theory Memory_Timing
  imports Op_Classifier Calibration "HOL-Library.Word"
begin

unbundle bit_operations_syntax

text \<open>
  \<^verbatim>\<open>MemoryCounterTiming.h/.cpp\<close>: which wait counter and which memory issue resources an
  operation uses, and how long its counter and its value take. A resource mask is the
  \<^verbatim>\<open>uint8_t\<close> of the code, an \<open>8 word\<close>.
\<close>

subsection \<open>Resource masks\<close>

datatype MemoryIssueResource =
    ResVmemLoad | ResVmemStore | ResLdsDmaAccept | ResLds | ResSmem

type_synonym resource_mask = "8 word"

fun memoryIssueIndex :: "MemoryIssueResource \<Rightarrow> nat" where
  "memoryIssueIndex ResVmemLoad = 0"
| "memoryIssueIndex ResVmemStore = 1"
| "memoryIssueIndex ResLdsDmaAccept = 2"
| "memoryIssueIndex ResLds = 3"
| "memoryIssueIndex ResSmem = 4"

definition getMemoryIssueResourceMask :: "MemoryIssueResource \<Rightarrow> resource_mask" where
  "getMemoryIssueResourceMask resource = push_bit (memoryIssueIndex resource) 1"

definition hasMemoryIssueResource :: "resource_mask \<Rightarrow> MemoryIssueResource \<Rightarrow> bool" where
  "hasMemoryIssueResource resources resource \<longleftrightarrow>
     resources AND getMemoryIssueResourceMask resource \<noteq> 0"

record counter_latencies =
  counter_vmemLoad :: int
  counter_vmemStore :: int
  counter_smemLoad :: int
  counter_lds :: int

record value_latencies =
  value_vmemLoad :: int
  value_smemLoad :: int
  value_lds :: int

definition noCounterLatencies :: counter_latencies where
  "noCounterLatencies = \<lparr>counter_vmemLoad = -1, counter_vmemStore = -1,
     counter_smemLoad = -1, counter_lds = -1\<rparr>"

definition noValueLatencies :: value_latencies where
  "noValueLatencies = \<lparr>value_vmemLoad = -1, value_smemLoad = -1, value_lds = -1\<rparr>"

subsection \<open>Counters and resources of an operation\<close>

definition hasRegisterResult :: "op_info \<Rightarrow> bool" where
  "hasRegisterResult op = list_ex (\<lambda>r. \<not> isMemToken r) (op_results op)"

definition overrideOrDefault :: "int \<Rightarrow> int \<Rightarrow> int" where
  "overrideOrDefault overrideLatency defaultLatency =
     (if overrideLatency \<ge> 0 then overrideLatency else defaultLatency)"

definition getConfiguredLatency :: "llvm_env \<Rightarrow> arch_data \<Rightarrow> SchedClass \<Rightarrow>
    calibration_data option \<Rightarrow> int result" where
  "getConfiguredLatency env arch cls calibration =
     (case calibration of
        None \<Rightarrow> getLatency env arch cls
      | Some cal \<Rightarrow> getCalibratedLatency env arch cls cal)"

definition waitcntIssueResources :: "(WaitcntEvent \<times> resource_mask) list" where
  "waitcntIssueResources =
     [(EventVmem, getMemoryIssueResourceMask ResVmemLoad),
      (EventFlat, getMemoryIssueResourceMask ResVmemLoad),
      (EventVmemStore, getMemoryIssueResourceMask ResVmemStore),
      (EventScratchStore, getMemoryIssueResourceMask ResVmemStore),
      (EventLds, getMemoryIssueResourceMask ResLds),
      (EventGds, getMemoryIssueResourceMask ResLds),
      (EventMessage, getMemoryIssueResourceMask ResLds),
      (EventSccWrite, 0),
      (EventSmem, getMemoryIssueResourceMask ResSmem),
      (EventNone, 0)]"

definition getWaitcntIssueResources :: "op_info \<Rightarrow> resource_mask result" where
  "getWaitcntIssueResources op =
     (let ev = wi_event (getWaitcntInfo op) in
      if ev = EventAsync \<or> ev = EventTensor then
        let r0 = getMemoryIssueResourceMask ResLds;
            r1 = (if hasTrait op VMEMLoadOp then r0 OR getMemoryIssueResourceMask ResVmemLoad
                  else r0);
            r2 = (if hasTrait op VMEMStoreOp then r1 OR getMemoryIssueResourceMask ResVmemStore
                  else r1)
        in Inr r2
      else if ev = EventNone \<and> hasTrait op VMEMLoadOp
      then Inr (getMemoryIssueResourceMask ResVmemLoad)
      else if ev = EventNone \<and> hasTrait op VMEMStoreOp
      then Inr (getMemoryIssueResourceMask ResVmemStore)
      else case map_of waitcntIssueResources ev of
             None \<Rightarrow> Inl (Unreachable ''unsupported wait event'')
           | Some resources \<Rightarrow> Inr resources)"

definition counterKinds :: "(WaitcntCounter \<times> MemoryCounterKind) list" where
  "counterKinds =
     [(CounterVmem, MemoryCounterVmem), (CounterLgkm, MemoryCounterLgkm),
      (CounterVscnt, MemoryCounterVscnt)]"

definition getMemoryCounterKind :: "op_info \<Rightarrow> MemoryCounterKind result" where
  "getMemoryCounterKind op =
     (let ev = wi_event (getWaitcntInfo op) in
      if ev = EventAsync then Inr MemoryCounterAsync
      else if ev = EventTensor then Inr MemoryCounterTensor
      else let counter = getLegacyWaitcntCounter ev in
           if counter = CounterNone then Inr MemoryCounterNone
           else case map_of counterKinds counter of
                  None \<Rightarrow> Inl (Unreachable ''expected legacy counter'')
                | Some kind \<Rightarrow> Inr kind)"

definition getMemoryIssueResources :: "op_info \<Rightarrow> resource_mask result" where
  "getMemoryIssueResources op =
     bindR (getWaitcntIssueResources op) (\<lambda>resources.
       Inr (if hasTrait op LDSDmaOp \<and> hasTrait op VMEMLoadOp
            then resources OR getMemoryIssueResourceMask ResLdsDmaAccept else resources))"

definition isLdsDmaIssuer :: "op_info \<Rightarrow> bool" where
  "isLdsDmaIssuer op = hasTrait op LDSDmaOp"

subsection \<open>Latencies\<close>

definition getMemoryCounterLatency :: "llvm_env \<Rightarrow> arch_data \<Rightarrow> op_info \<Rightarrow> counter_latencies \<Rightarrow>
    calibration_data option \<Rightarrow> int result" where
  "getMemoryCounterLatency env arch op overrides calibration =
     bindR (getConfiguredLatency env arch (classifyOp op) calibration) (\<lambda>defaultLatency.
       let ev = wi_event (getWaitcntInfo op) in
       if ev = EventVmem \<or> ev = EventFlat
       then Inr (overrideOrDefault (counter_vmemLoad overrides) defaultLatency)
       else if ev = EventVmemStore \<or> ev = EventScratchStore
       then Inr (overrideOrDefault (counter_vmemStore overrides) defaultLatency)
       else if ev \<in> {EventAsync, EventTensor, EventSccWrite} then Inr defaultLatency
       else if ev = EventLds
       then Inr (overrideOrDefault (counter_lds overrides)
              (if ldsCounterLatency arch = 0 then defaultLatency else ldsCounterLatency arch))
       else if ev = EventSmem
       then Inr (overrideOrDefault (counter_smemLoad overrides) defaultLatency)
       else Inl (Unreachable ''op has no memory counter timing''))"

definition hasMemoryValueLatency :: "op_info \<Rightarrow> bool" where
  "hasMemoryValueLatency op =
     (if \<not> hasRegisterResult op then False
      else wi_event (getWaitcntInfo op) \<in> {EventVmem, EventFlat, EventLds, EventSmem})"

definition getMemoryValueLatency :: "llvm_env \<Rightarrow> arch_data \<Rightarrow> op_info \<Rightarrow> counter_latencies \<Rightarrow>
    value_latencies \<Rightarrow> calibration_data option \<Rightarrow> int result" where
  "getMemoryValueLatency env arch op counterOverrides valueOverrides calibration =
     (let ev = wi_event (getWaitcntInfo op);
          counterLatency = getMemoryCounterLatency env arch op counterOverrides calibration in
      if ev = EventVmem \<or> ev = EventFlat
      then bindR counterLatency (\<lambda>l. Inr (overrideOrDefault (value_vmemLoad valueOverrides) l))
      else if ev = EventLds \<and> hasRegisterResult op
      then bindR counterLatency (\<lambda>l. Inr (overrideOrDefault (value_lds valueOverrides) l))
      else if ev = EventSmem
      then bindR counterLatency (\<lambda>l. Inr (overrideOrDefault (value_smemLoad valueOverrides) l))
      else Inl (Unreachable ''op has no memory value timing''))"

subsection \<open>Masks are sets of resources\<close>

lemma memoryIssueIndex_less: "memoryIssueIndex r < 8"
  by (cases r) simp_all

lemma memoryIssueIndex_inj: "memoryIssueIndex r = memoryIssueIndex r' \<longleftrightarrow> r = r'"
  by (cases r; cases r') simp_all

lemma hasMemoryIssueResource_bit:
  "hasMemoryIssueResource m r \<longleftrightarrow> bit m (memoryIssueIndex r)"
proof -
  have "m AND getMemoryIssueResourceMask r = (if bit m (memoryIssueIndex r) then getMemoryIssueResourceMask r else 0)"
    using memoryIssueIndex_less [of r]
    by (intro bit_word_eqI)
       (auto simp: getMemoryIssueResourceMask_def bit_simps)
  moreover have "getMemoryIssueResourceMask r \<noteq> 0"
  proof -
    have "bit (getMemoryIssueResourceMask r) (memoryIssueIndex r)"
      using memoryIssueIndex_less [of r]
      by (simp add: getMemoryIssueResourceMask_def bit_simps)
    then show ?thesis by auto
  qed
  ultimately show ?thesis by (simp add: hasMemoryIssueResource_def)
qed

lemma hasMemoryIssueResource_simps [simp]:
  "\<not> hasMemoryIssueResource 0 r"
  "hasMemoryIssueResource (m OR m') r \<longleftrightarrow> hasMemoryIssueResource m r \<or> hasMemoryIssueResource m' r"
  "hasMemoryIssueResource (getMemoryIssueResourceMask r') r \<longleftrightarrow> r = r'"
  using memoryIssueIndex_less [of r] memoryIssueIndex_less [of r'] memoryIssueIndex_inj [of r r']
  by (auto simp: hasMemoryIssueResource_bit getMemoryIssueResourceMask_def bit_simps)

subsection \<open>Which resources an operation uses\<close>

lemma getWaitcntIssueResources_total: "\<exists>m. getWaitcntIssueResources op = Inr m"
  by (cases "wi_event (getWaitcntInfo op)")
     (simp_all add: getWaitcntIssueResources_def waitcntIssueResources_def Let_def)

lemma getMemoryIssueResources_total: "\<exists>m. getMemoryIssueResources op = Inr m"
  using getWaitcntIssueResources_total [of op] by (auto simp: getMemoryIssueResources_def)

lemma getMemoryIssueResources_accept:
  assumes "getMemoryIssueResources op = Inr m"
  shows "hasMemoryIssueResource m ResLdsDmaAccept \<longleftrightarrow> hasTrait op LDSDmaOp \<and> hasTrait op VMEMLoadOp"
proof -
  obtain r where r: "getWaitcntIssueResources op = Inr r"
    using getWaitcntIssueResources_total by blast
  have "\<not> hasMemoryIssueResource r ResLdsDmaAccept"
    using r by (cases "wi_event (getWaitcntInfo op)")
      (auto simp: getWaitcntIssueResources_def waitcntIssueResources_def Let_def split: if_splits)
  with assms r show ?thesis by (auto simp: getMemoryIssueResources_def split: if_splits)
qed

lemma getMemoryCounterKind_eq:
  "getMemoryCounterKind op = Inr (case wi_event (getWaitcntInfo op) of
     EventVmem \<Rightarrow> MemoryCounterVmem | EventFlat \<Rightarrow> MemoryCounterVmem
   | EventVmemStore \<Rightarrow> MemoryCounterVscnt | EventScratchStore \<Rightarrow> MemoryCounterVscnt
   | EventLds \<Rightarrow> MemoryCounterLgkm | EventSmem \<Rightarrow> MemoryCounterLgkm
   | EventGds \<Rightarrow> MemoryCounterLgkm | EventMessage \<Rightarrow> MemoryCounterLgkm
   | EventAsync \<Rightarrow> MemoryCounterAsync | EventTensor \<Rightarrow> MemoryCounterTensor
   | EventSccWrite \<Rightarrow> MemoryCounterNone | EventNone \<Rightarrow> MemoryCounterNone)"
  by (cases "wi_event (getWaitcntInfo op)")
     (simp_all add: getMemoryCounterKind_def counterKinds_def Let_def)

subsection \<open>Latencies are defined where they are asked for\<close>

definition calibrationOk :: "calibration_data option \<Rightarrow> bool" where
  "calibrationOk cal = (case cal of None \<Rightarrow> True
     | Some c \<Rightarrow> \<forall>cls v. getOverrideCycles c cls = Some v \<longrightarrow> 0 \<le> v)"

lemma getConfiguredLatency_supported:
  assumes "isSchedClassSupported env arch cls" and "calibrationOk cal"
  shows "\<exists>n. getConfiguredLatency env arch cls cal = Inr n \<and> 0 \<le> n"
  using getLatency_supported [OF assms(1)] assms(2)
  by (auto simp: getConfiguredLatency_def getCalibratedLatency_def calibrationOk_def
      split: option.splits)

definition hasCounterTiming :: "WaitcntEvent \<Rightarrow> bool" where
  "hasCounterTiming ev \<longleftrightarrow> ev \<notin> {EventNone, EventGds, EventMessage}"

lemma getMemoryCounterLatency_supported:
  assumes "isSchedClassSupported env arch (classifyOp op)" and "calibrationOk cal"
    and "0 \<le> ldsCounterLatency arch"
  shows "if hasCounterTiming (wi_event (getWaitcntInfo op))
    then \<exists>n. getMemoryCounterLatency env arch op overrides cal = Inr n \<and> 0 \<le> n
    else crashes (getMemoryCounterLatency env arch op overrides cal)"
proof -
  obtain n where n: "getConfiguredLatency env arch (classifyOp op) cal = Inr n" "0 \<le> n"
    using getConfiguredLatency_supported [OF assms(1,2)] by blast
  show ?thesis
    using n assms(3)
    by (cases "wi_event (getWaitcntInfo op)")
       (simp_all add: getMemoryCounterLatency_def hasCounterTiming_def overrideOrDefault_def Let_def)
qed

lemma getMemoryValueLatency_supported:
  assumes "isSchedClassSupported env arch (classifyOp op)" and "calibrationOk cal"
    and "0 \<le> ldsCounterLatency arch" and "hasMemoryValueLatency op"
  shows "\<exists>n. getMemoryValueLatency env arch op co vo cal = Inr n \<and> 0 \<le> n"
proof -
  have ev: "wi_event (getWaitcntInfo op) \<in> {EventVmem, EventFlat, EventLds, EventSmem}"
      "hasRegisterResult op"
    using assms(4) by (auto simp: hasMemoryValueLatency_def split: if_splits)
  then have "hasCounterTiming (wi_event (getWaitcntInfo op))" by (auto simp: hasCounterTiming_def)
  with getMemoryCounterLatency_supported [OF assms(1-3), of co] obtain n where
    "getMemoryCounterLatency env arch op co cal = Inr n" "0 \<le> n" by auto
  with ev show ?thesis
    by (auto simp: getMemoryValueLatency_def overrideOrDefault_def Let_def)
qed

subsection \<open>Properties\<close>

text \<open>for an operation of a class the target supports, the resource mask, the counter kind
  and (where the guard \<open>hasMemoryValueLatency\<close> holds) the value latency are always defined and
  latencies are not negative. The counter latency of an operation that does use a counter ends
  the process exactly for the GDS and message events: the counter kind is no sufficient guard
  for it.\<close>

theorem memory_timing_defined:
  assumes "isSchedClassSupported env arch (classifyOp op)" and "calibrationOk cal"
    and "0 \<le> ldsCounterLatency arch"
  shows "(\<exists>m. getMemoryIssueResources op = Inr m) \<and>
    (hasMemoryValueLatency op \<longrightarrow>
      (\<exists>n\<ge>0. getMemoryValueLatency env arch op co vo cal = Inr n)) \<and>
    (\<exists>k. getMemoryCounterKind op = Inr k \<and>
      (k \<noteq> MemoryCounterNone \<longrightarrow>
        (crashes (getMemoryCounterLatency env arch op co cal) \<longleftrightarrow>
           wi_event (getWaitcntInfo op) \<in> {EventGds, EventMessage}) \<and>
        (wi_event (getWaitcntInfo op) \<notin> {EventGds, EventMessage} \<longrightarrow>
           (\<exists>n\<ge>0. getMemoryCounterLatency env arch op co cal = Inr n))))"
proof -
  have "getMemoryCounterKind op \<noteq> Inr MemoryCounterNone \<Longrightarrow>
      wi_event (getWaitcntInfo op) \<notin> {EventNone, EventSccWrite}"
    by (auto simp: getMemoryCounterKind_eq)
  then show ?thesis
    using getMemoryIssueResources_total [of op] getMemoryValueLatency_supported [OF assms, of co vo]
      getMemoryCounterLatency_supported [OF assms, of co]
    by (cases "wi_event (getWaitcntInfo op)")
       (auto simp: getMemoryCounterKind_eq hasCounterTiming_def)
qed

definition ex_dsRead :: op_info where
  "ex_dsRead = (plainOp (NamedOp ''DsLoadB32Op'') [LDSLoadOp, DSOp] []
     [\<lparr>val_id = 7, val_type = RegType VGPR 1 (-1)\<rparr>])
       \<lparr>op_waitcnt := Some \<lparr>wi_event = EventLds, wi_issueCount = 1, wi_outOfOrder = False\<rparr>\<rparr>"

theorem memory_timing_defined_witness:
  "getMemoryCounterLatency ex_env kGfx950 ex_dsRead noCounterLatencies None = Inr 20 \<and>
   \<not> crashes (getMemoryCounterLatency ex_env kGfx950 ex_dsRead noCounterLatencies None) \<and>
   hasMemoryValueLatency ex_dsRead"
proof -
  have s: "isSchedClassSupported ex_env kGfx950 (classifyOp ex_dsRead)" by code_simp
  have e: "wi_event (getWaitcntInfo ex_dsRead) = EventLds" by code_simp
  have v: "getMemoryCounterLatency ex_env kGfx950 ex_dsRead noCounterLatencies None = Inr 20"
    "hasMemoryValueLatency ex_dsRead" by code_simp+
  have "getMemoryCounterKind ex_dsRead = Inr MemoryCounterLgkm" by code_simp
  then show ?thesis
    using memory_timing_defined [OF s, of None noCounterLatencies noValueLatencies] e v
    by (simp add: calibrationOk_def kGfx950_def)
qed

definition SSendmsgDeallocVgprs :: op_info where
  "SSendmsgDeallocVgprs = (plainOp (NamedOp ''SSendmsgDeallocVgprsOp'') [SALUOp] [] [])
     \<lparr>op_waitcnt := Some \<lparr>wi_event = EventMessage, wi_issueCount = 1, wi_outOfOrder = False\<rparr>\<rparr>"

text \<open>the operation that releases the registers of a wave before it ends
  (\<^verbatim>\<open>s_sendmsg_dealloc_vgprs\<close>, a scalar instruction with a message event) has a memory
  counter on every target that supports scalar instructions, but asking for the latency of that
  counter ends the process.\<close>

theorem dealloc_vgprs_counter_unreachable:
  assumes "isSchedClassSupported env arch WriteSALU" and "calibrationOk cal"
    and "0 \<le> ldsCounterLatency arch"
  shows "classifyOp SSendmsgDeallocVgprs = WriteSALU \<and>
    getMemoryCounterKind SSendmsgDeallocVgprs = Inr MemoryCounterLgkm \<and>
    getMemoryCounterLatency env arch SSendmsgDeallocVgprs overrides cal =
      Inl (Unreachable ''op has no memory counter timing'')"
proof -
  have c: "classifyOp SSendmsgDeallocVgprs = WriteSALU" by code_simp
  have e: "wi_event (getWaitcntInfo SSendmsgDeallocVgprs) = EventMessage" by code_simp
  obtain n where "getConfiguredLatency env arch WriteSALU cal = Inr n"
    using getConfiguredLatency_supported [OF assms(1,2)] by blast
  then show ?thesis
    by (simp add: c getMemoryCounterKind_eq e getMemoryCounterLatency_def Let_def)
qed

theorem dealloc_vgprs_counter_unreachable_witness:
  "crashes (getMemoryCounterLatency ex_env kGfx1100 SSendmsgDeallocVgprs noCounterLatencies None)"
proof -
  have s: "isSchedClassSupported ex_env kGfx1100 WriteSALU" by code_simp
  show ?thesis
    using dealloc_vgprs_counter_unreachable [OF s, of None noCounterLatencies]
    by (simp add: calibrationOk_def kGfx1100_def)
qed

end
