(* ===== verification/Schedule_Model.thy ===== *)
theory Schedule_Model
  imports Memory_Timing
begin

text \<open>
  The scheduling policy of \<^verbatim>\<open>InstructionExecutionState.h/.cpp\<close>: the program-order
  resource state of one compute island (\<open>InstructionScheduleResourceState\<close>), its
  configuration, and the ready-list policy (\<open>InstructionScheduleModel\<close>) that admits and
  ranks candidates by stalls, latencies and register pressure.
\<close>

subsection \<open>Stalls and pipes\<close>

datatype InstructionStallKind =
    StallNone | IssueBackpressure | OperandValue | MemoryValue | MemoryToken | StallWaitcnt
  | InstructionHazard | M0ReadWrite | StoreWriteData | CoexecWindow

datatype InstructionPipeKind = PipeNone | PipeVALU | PipeSALU | PipeXDL

fun stallKindIndex :: "InstructionStallKind \<Rightarrow> nat" where
  "stallKindIndex StallNone = 0"
| "stallKindIndex IssueBackpressure = 1"
| "stallKindIndex OperandValue = 2"
| "stallKindIndex MemoryValue = 3"
| "stallKindIndex MemoryToken = 4"
| "stallKindIndex StallWaitcnt = 5"
| "stallKindIndex InstructionHazard = 6"
| "stallKindIndex M0ReadWrite = 7"
| "stallKindIndex StoreWriteData = 8"
| "stallKindIndex CoexecWindow = 9"

definition getInstructionStallKindName :: "InstructionStallKind \<Rightarrow> string" where
  "getInstructionStallKindName kind =
     [''none'', ''issue_backpressure'', ''operand_value'', ''memory_value'', ''memory_token'',
      ''waitcnt'', ''instruction_hazard'', ''m0_read_write'', ''store_write_data'',
      ''coexec_window''] ! stallKindIndex kind"

fun getInstructionPipeKindName :: "InstructionPipeKind \<Rightarrow> string" where
  "getInstructionPipeKindName PipeNone = ''none''"
| "getInstructionPipeKindName PipeVALU = ''valu''"
| "getInstructionPipeKindName PipeSALU = ''salu''"
| "getInstructionPipeKindName PipeXDL = ''xdl''"

subsection \<open>Register pressure\<close>

record ready_pressure =
  p_sgpr :: int
  p_vgpr :: int
  p_agpr :: int

record pressure_ceiling =
  ceil_sgpr :: nat
  ceil_vgpr :: nat
  ceil_agpr :: nat
  ceil_vgprFamily :: nat

record candidate_metrics =
  pressureDelta :: ready_pressure
  pressurePeakDelta :: ready_pressure
  vgprFamilyPeakDelta :: int
  pressureCeiling :: pressure_ceiling
  autoDrainedNodes :: nat

record pressure_limits =
  lim_sgpr :: nat
  lim_vgpr :: nat
  lim_agpr :: nat
  lim_vgprFamily :: nat
  sgprAllocGranule :: nat
  vgprAllocGranule_lim :: nat
  agprAllocGranule :: nat

record schedule_model =
  pressureLimits :: pressure_limits
  ldsDmaIssueLead :: int
  issueStreams :: nat
  readyPressureWaveCohort :: nat

datatype DmaIssueDelayCohortPolicy = Delayed | Skipped

record execution_config =
  calibration :: "calibration_data option"
  counterLatencies :: counter_latencies
  valueLatencies :: value_latencies
  wavefrontSize :: nat
  issuePeriod :: int
  enablePipeBackpressure :: bool
  smoothLdsDmaIssue :: bool
  ldsDmaIssueWaveStreams :: nat
  valuMaxInFlight :: nat
  saluMaxInFlight :: nat
  xdlMaxInFlight :: nat
  scheduleModel :: schedule_model
  dmaIssueDelayCohortPolicy :: DmaIssueDelayCohortPolicy

definition noLimits :: pressure_limits where
  "noLimits = \<lparr>lim_sgpr = 0, lim_vgpr = 0, lim_agpr = 0, lim_vgprFamily = 0,
     sgprAllocGranule = 0, vgprAllocGranule_lim = 0, agprAllocGranule = 0\<rparr>"

definition init_schedule_model :: schedule_model where
  "init_schedule_model = \<lparr>pressureLimits = noLimits, ldsDmaIssueLead = 0, issueStreams = 1,
     readyPressureWaveCohort = 1\<rparr>"

definition init_config :: "nat \<Rightarrow> execution_config" where
  "init_config wavefront =
     \<lparr>calibration = None, counterLatencies = noCounterLatencies,
      valueLatencies = noValueLatencies, wavefrontSize = wavefront, issuePeriod = 0,
      enablePipeBackpressure = False, smoothLdsDmaIssue = False, ldsDmaIssueWaveStreams = 1,
      valuMaxInFlight = 0, saluMaxInFlight = 0, xdlMaxInFlight = 0,
      scheduleModel = init_schedule_model, dmaIssueDelayCohortPolicy = Delayed\<rparr>"

subsection \<open>Program-order resource state\<close>

record schedule_resource_info =
  info_issueSlots :: nat
  info_releaseSlots :: nat
  info_functionalUnit :: FunctionalUnit
  realInstruction :: bool
  tracked :: bool
  usesMfmaCoissue :: bool

record schedule_resource_preview =
  prev_waitSlots :: int
  prev_releaseSlots :: nat
  prev_functionalUnit :: FunctionalUnit

record schedule_resource_state =
  sr_readyAt :: "int list"
  sr_currentSlot :: int
  sr_mfmaCoissueReadyAt :: int
  sr_trackMfmaCoissue :: bool

fun tracksInstructionScheduleResource :: "FunctionalUnit \<Rightarrow> bool" where
  "tracksInstructionScheduleResource VALU = True"
| "tracksInstructionScheduleResource SALU = True"
| "tracksInstructionScheduleResource MFMA_XDL = True"
| "tracksInstructionScheduleResource TRANS = True"
| "tracksInstructionScheduleResource _ = False"

definition noResourceInfo :: schedule_resource_info where
  "noResourceInfo = \<lparr>info_issueSlots = 0, info_releaseSlots = 0,
     info_functionalUnit = NoFunctionalUnit, realInstruction = False, tracked = False,
     usesMfmaCoissue = False\<rparr>"

definition getInstructionScheduleResourceInfo :: "llvm_env \<Rightarrow> op_info \<Rightarrow> SchedClass \<Rightarrow>
    arch_data \<Rightarrow> nat \<Rightarrow> schedule_resource_info result" where
  "getInstructionScheduleResourceInfo env op cls arch wavefront =
     (if cls = NoInst then Inr noResourceInfo
      else
        bindR (funit env arch cls) (\<lambda>unit.
        bindR (getInstructionIssueCount env op (arch_isa arch) wavefront) (\<lambda>issues.
          let info = \<lparr>info_issueSlots = issues, info_releaseSlots = 0,
                info_functionalUnit = unit, realInstruction = True,
                tracked = tracksInstructionScheduleResource unit,
                usesMfmaCoissue = usesMfmaCoissueResource op cls arch\<rparr>
          in if tracked info
             then bindR (getResourceCycles env arch cls) (\<lambda>rc.
                    Inr (info\<lparr>info_releaseSlots := to_u32 (max 1 rc)\<rparr>))
             else Inr info)))"

definition init_sr :: "bool \<Rightarrow> schedule_resource_state" where
  "init_sr trackMfma = \<lparr>sr_readyAt = replicate kNumFunctionalUnits 0, sr_currentSlot = 0,
     sr_mfmaCoissueReadyAt = 0, sr_trackMfmaCoissue = trackMfma\<rparr>"

definition preview_sr :: "schedule_resource_state \<Rightarrow> schedule_resource_info \<Rightarrow>
    schedule_resource_preview" where
  "preview_sr s info =
     (let result = \<lparr>prev_waitSlots = 0, prev_releaseSlots = 0,
            prev_functionalUnit = info_functionalUnit info\<rparr>
      in if \<not> tracked info then result
         else
           let readySlot = sr_readyAt s ! fu_index (info_functionalUnit info);
               readySlot' = (if sr_trackMfmaCoissue s \<and> usesMfmaCoissue info
                             then max readySlot (sr_mfmaCoissueReadyAt s) else readySlot)
           in result\<lparr>prev_releaseSlots := info_releaseSlots info,
                     prev_waitSlots := max 0 (readySlot' - sr_currentSlot s)\<rparr>)"

definition commit_sr :: "schedule_resource_info \<Rightarrow> schedule_resource_state \<Rightarrow>
    schedule_resource_state" where
  "commit_sr info s =
     (if \<not> realInstruction info then s
      else
        let resource = preview_sr s info;
            issueSlot = sr_currentSlot s + prev_waitSlots resource
        in if \<not> tracked info then
             let slot = issueSlot + int (info_issueSlots info)
             in s\<lparr>sr_currentSlot := slot,
                  sr_readyAt := replicate (length (sr_readyAt s)) slot,
                  sr_mfmaCoissueReadyAt := slot\<rparr>
           else
             let index = fu_index (prev_functionalUnit resource);
                 releaseSlots = max (prev_releaseSlots resource) (info_issueSlots info);
                 s1 = s\<lparr>sr_readyAt := (sr_readyAt s)[index := issueSlot + int releaseSlots]\<rparr>;
                 s2 = (if sr_trackMfmaCoissue s1 \<and> usesMfmaCoissue info
                       then s1\<lparr>sr_mfmaCoissueReadyAt := issueSlot + int releaseSlots\<rparr> else s1)
             in s2\<lparr>sr_currentSlot := issueSlot + int (info_issueSlots info)\<rparr>)"

definition configureInstructionScheduleModel :: "execution_config \<Rightarrow> arch_data \<Rightarrow> nat \<Rightarrow>
    nat \<Rightarrow> pressure_limits \<Rightarrow> execution_config" where
  "configureInstructionScheduleModel config arch targetWaveCount cohort limits =
     (let m0 = scheduleModel config;
          m1 = m0\<lparr>issueStreams := targetWaveCount, readyPressureWaveCohort := cohort,
                  pressureLimits := limits\<rparr>;
          period = (if issuePeriod config > 0 then issuePeriod config
                    else max 1 (simdIssuePeriod arch));
          m2 = (if ldsDmaIssueQueueDepth arch > 0 \<and> ldsDmaIssueLatency arch > 0
                then let serviceInterval = ldsDmaIssueLatency arch sdiv ldsDmaIssueQueueDepth arch
                     in m1\<lparr>ldsDmaIssueLead := serviceInterval sdiv period * period\<rparr>
                else m1)
      in config\<lparr>ldsDmaIssueWaveStreams := targetWaveCount, scheduleModel := m2,
                smoothLdsDmaIssue := targetWaveCount = 1\<rparr>)"

subsection \<open>Pressure limits\<close>

definition canUseReadyRegisterClass :: "int \<Rightarrow> int \<Rightarrow> nat \<Rightarrow> bool" where
  "canUseReadyRegisterClass current delta limit =
     (if delta \<le> 0 then True else limit \<noteq> 0 \<and> current + delta \<le> int limit)"

definition getReadyRegisterPressureLimit :: "nat \<Rightarrow> nat \<Rightarrow> nat" where
  "getReadyRegisterPressureLimit limit allocGranule =
     (if allocGranule = 0 then limit
      else let alignedLimit = limit - limit mod allocGranule
           in if alignedLimit > allocGranule then alignedLimit - allocGranule else 0)"

definition getReadyRegisterPressureCeiling :: "nat \<Rightarrow> nat \<Rightarrow> nat \<Rightarrow> nat" where
  "getReadyRegisterPressureCeiling limit allocGranule baseline =
     max (getReadyRegisterPressureLimit limit allocGranule) baseline"

definition familyGranule :: "pressure_limits \<Rightarrow> nat" where
  "familyGranule limits = max (vgprAllocGranule_lim limits) (agprAllocGranule limits)"

definition canUseReadyCandidate :: "ready_pressure \<Rightarrow> candidate_metrics \<Rightarrow> pressure_limits \<Rightarrow>
    bool" where
  "canUseReadyCandidate current candidate limits =
     (let sgprLimit = getReadyRegisterPressureCeiling (lim_sgpr limits) (sgprAllocGranule limits)
            (ceil_sgpr (pressureCeiling candidate));
          vgprLimit = getReadyRegisterPressureCeiling (lim_vgpr limits)
            (vgprAllocGranule_lim limits) (ceil_vgpr (pressureCeiling candidate));
          agprLimit = getReadyRegisterPressureCeiling (lim_agpr limits) (agprAllocGranule limits)
            (ceil_agpr (pressureCeiling candidate));
          peak = pressurePeakDelta candidate
      in if \<not> canUseReadyRegisterClass (p_sgpr current) (p_sgpr peak) sgprLimit then False
         else if \<not> canUseReadyRegisterClass (p_vgpr current) (p_vgpr peak) vgprLimit \<or>
                 \<not> canUseReadyRegisterClass (p_agpr current) (p_agpr peak) agprLimit then False
         else if lim_vgprFamily limits = 0 then True
         else let familyLimit = getReadyRegisterPressureCeiling (lim_vgprFamily limits)
                    (familyGranule limits) (ceil_vgprFamily (pressureCeiling candidate))
              in canUseReadyRegisterClass (p_vgpr current + p_agpr current)
                   (vgprFamilyPeakDelta candidate) familyLimit)"

definition canFillStall :: "InstructionStallKind \<Rightarrow> FunctionalUnit \<Rightarrow> bool \<Rightarrow> bool" where
  "canFillStall stall candidate usesCoissue =
     (if stall \<noteq> CoexecWindow then True else candidate = VALU \<and> \<not> usesCoissue)"

record filler_compatibility_facts =
  candidateFunctionalUnit :: FunctionalUnit
  blockedMemoryResources :: resource_mask
  candidateMemoryResources :: resource_mask
  filler_stall :: InstructionStallKind
  filler_usesMfmaCoissue :: bool

record filler_facts =
  issueDeadlineCycle :: "int option"
  candidateRequiredCycle :: int
  compatibility :: filler_compatibility_facts
  candidateRealInstruction :: bool
  candidateStalls :: bool

datatype ReadyPressureComparisonMode = ComparisonNone | CandidateOnly | Ordered

datatype ReadyResourceCandidateKind = CandidateNone | StallFiller | Priority

definition requiresStrictBarrierTokenReorder :: "schedule_model \<Rightarrow> bool" where
  "requiresStrictBarrierTokenReorder m \<longleftrightarrow> issueStreams m = 1"

definition shouldBlockStallFillerMemoryResource :: "schedule_model \<Rightarrow> bool" where
  "shouldBlockStallFillerMemoryResource m \<longleftrightarrow> issueStreams m = 1"

definition shouldPrioritizeSteadyStateProducer :: "schedule_model \<Rightarrow> bool" where
  "shouldPrioritizeSteadyStateProducer m \<longleftrightarrow> issueStreams m = 1"

definition divideCeil :: "nat \<Rightarrow> nat \<Rightarrow> nat" where
  "divideCeil n d = (n + d - 1) div d"

definition shouldSelectResourceStallFiller :: "schedule_model \<Rightarrow> nat \<Rightarrow> nat \<Rightarrow>
    ready_pressure \<Rightarrow> candidate_metrics \<Rightarrow> bool" where
  "shouldSelectResourceStallFiller m waitSlots releaseSlots current candidate =
     (if issueStreams m \<le> 1 \<or> waitSlots = 0 then False
      else
        let siblingOverlap =
              (if issueStreams m > 1 \<and> releaseSlots > 1
               then if canUseReadyCandidate current candidate (pressureLimits m)
                    then releaseSlots - divideCeil releaseSlots (issueStreams m)
                    else min (releaseSlots - 1) (issueStreams m - 1)
               else 0)
        in waitSlots > siblingOverlap)"

definition isStallFillerCompatible :: "filler_compatibility_facts \<Rightarrow> bool" where
  "isStallFillerCompatible facts \<longleftrightarrow>
     blockedMemoryResources facts AND candidateMemoryResources facts = 0 \<and>
     canFillStall (filler_stall facts) (candidateFunctionalUnit facts)
       (filler_usesMfmaCoissue facts)"

definition canSelectStallFiller :: "filler_facts \<Rightarrow> bool" where
  "canSelectStallFiller facts =
     (if \<not> candidateRealInstruction facts \<or> candidateStalls facts \<or>
         \<not> isStallFillerCompatible (compatibility facts)
      then False
      else case issueDeadlineCycle facts of
             None \<Rightarrow> True
           | Some deadline \<Rightarrow> candidateRequiredCycle facts \<le> deadline)"

definition canIssueLdsDmaDuringLead :: "schedule_model \<Rightarrow> int \<Rightarrow> bool \<Rightarrow> bool" where
  "canIssueLdsDmaDuringLead m resourceWait dependenciesReady \<longleftrightarrow>
     issueStreams m > 1 \<and> ldsDmaIssueLead m \<noteq> 0 \<and> resourceWait > 0 \<and>
     resourceWait \<le> ldsDmaIssueLead m \<and> dependenciesReady"

definition shouldPrioritizeLongLatency :: "bool \<Rightarrow> int \<Rightarrow> int \<Rightarrow> bool" where
  "shouldPrioritizeLongLatency enabled candidateLatency baselineLatency \<longleftrightarrow>
     enabled \<and> baselineLatency > 0 \<and> candidateLatency > 10 * baselineLatency"

definition shouldPrioritizeLatency :: "int \<Rightarrow> int \<Rightarrow> bool" where
  "shouldPrioritizeLatency candidateLatency baselineLatency \<longleftrightarrow>
     baselineLatency > 0 \<and> candidateLatency \<ge> 2 * max 1 baselineLatency"

definition classifyReadyResourceCandidate :: "FunctionalUnit \<Rightarrow> int \<Rightarrow> nat \<Rightarrow> FunctionalUnit \<Rightarrow>
    int \<Rightarrow> nat \<Rightarrow> nat \<Rightarrow> ReadyResourceCandidateKind" where
  "classifyReadyResourceCandidate blocked waitSlots releaseSlots candidate candidateWaitSlots
       candidateReleaseSlots selectedReleaseSlots =
     (if candidateReleaseSlots = 0 \<or> candidateWaitSlots \<noteq> 0 then CandidateNone
      else if waitSlots \<noteq> 0 then StallFiller
      else if candidate = blocked \<or> candidateReleaseSlots \<le> releaseSlots \<or>
              candidateReleaseSlots \<le> selectedReleaseSlots
      then CandidateNone
      else Priority)"

subsection \<open>Pressure scores\<close>

record pressure_score =
  score_maximum :: nat
  score_total :: nat

definition kReadyPressureScoreScale :: nat where
  "kReadyPressureScoreScale = 1048576"

definition addReadyRegisterPressureScore :: "int \<Rightarrow> nat \<Rightarrow> pressure_score \<Rightarrow> pressure_score" where
  "addReadyRegisterPressureScore pressure limit score =
     (if limit = 0 then score
      else
        let used = nat (max pressure 0);
            normalized = wrap_u64 (used * kReadyPressureScoreScale) div limit
        in \<lparr>score_maximum = max (score_maximum score) normalized,
            score_total = wrap_u64 (score_total score + normalized)\<rparr>)"

definition getReadyRegisterPressureScore :: "ready_pressure \<Rightarrow> candidate_metrics \<Rightarrow>
    pressure_limits \<Rightarrow> pressure_score" where
  "getReadyRegisterPressureScore current candidate limits =
     (let sgprLimit = getReadyRegisterPressureCeiling (lim_sgpr limits) (sgprAllocGranule limits)
            (ceil_sgpr (pressureCeiling candidate));
          vgprLimit = getReadyRegisterPressureCeiling (lim_vgpr limits)
            (vgprAllocGranule_lim limits) (ceil_vgpr (pressureCeiling candidate));
          agprLimit = getReadyRegisterPressureCeiling (lim_agpr limits) (agprAllocGranule limits)
            (ceil_agpr (pressureCeiling candidate));
          d = pressureDelta candidate;
          s0 = \<lparr>score_maximum = 0, score_total = 0\<rparr>;
          s1 = addReadyRegisterPressureScore (p_sgpr current + p_sgpr d) sgprLimit s0
      in if lim_vgprFamily limits \<noteq> 0 then
           let familyLimit = getReadyRegisterPressureCeiling (lim_vgprFamily limits)
                 (familyGranule limits) (ceil_vgprFamily (pressureCeiling candidate));
               s2 = addReadyRegisterPressureScore
                 (p_vgpr current + p_agpr current + p_vgpr d + p_agpr d) familyLimit s1;
               s3 = (if vgprLimit < familyLimit
                 then addReadyRegisterPressureScore (p_vgpr current + p_vgpr d) vgprLimit s2
                 else s2)
           in if agprLimit < familyLimit
              then addReadyRegisterPressureScore (p_agpr current + p_agpr d) agprLimit s3
              else s3
         else
           let s2 = addReadyRegisterPressureScore (p_vgpr current + p_vgpr d) vgprLimit s1
           in addReadyRegisterPressureScore (p_agpr current + p_agpr d) agprLimit s2)"

subsection \<open>Comparison against a budget or a baseline\<close>

definition improvesOverBudgetReadyRegisterClass :: "int \<Rightarrow> int \<Rightarrow> int \<Rightarrow> nat \<Rightarrow> nat \<Rightarrow> bool" where
  "improvesOverBudgetReadyRegisterClass current candidateDelta selectedDelta limit allocGranule =
     (if limit = 0 then False
      else
        let selectedPressure = current + selectedDelta
        in candidateDelta < 0 \<and>
           selectedPressure > int (getReadyRegisterPressureLimit limit allocGranule) \<and>
           current + candidateDelta < selectedPressure)"

definition improvesOverBudgetReadyPressure :: "ready_pressure \<Rightarrow> candidate_metrics \<Rightarrow>
    candidate_metrics \<Rightarrow> pressure_limits \<Rightarrow> bool" where
  "improvesOverBudgetReadyPressure current candidate selected limits =
     (let c = pressureDelta candidate; s = pressureDelta selected in
      if improvesOverBudgetReadyRegisterClass (p_sgpr current) (p_sgpr c) (p_sgpr s)
           (lim_sgpr limits) (sgprAllocGranule limits)
      then True
      else if improvesOverBudgetReadyRegisterClass (p_vgpr current) (p_vgpr c) (p_vgpr s)
                (lim_vgpr limits) (vgprAllocGranule_lim limits) \<or>
              improvesOverBudgetReadyRegisterClass (p_agpr current) (p_agpr c) (p_agpr s)
                (lim_agpr limits) (agprAllocGranule limits)
      then True
      else if lim_vgprFamily limits \<noteq> 0
      then improvesOverBudgetReadyRegisterClass (p_vgpr current + p_agpr current)
             (p_vgpr c + p_agpr c) (p_vgpr s + p_agpr s) (lim_vgprFamily limits)
             (familyGranule limits)
      else False)"

definition canUseReadyRegisterClassAgainstBaseline :: "int \<Rightarrow> int \<Rightarrow> int \<Rightarrow> nat \<Rightarrow> nat \<Rightarrow> bool" where
  "canUseReadyRegisterClassAgainstBaseline current candidatePeakDelta baselinePeakDelta limit
       allocGranule =
     (let candidatePressure = current + candidatePeakDelta;
          baselinePressure = current + baselinePeakDelta;
          ceiling = max (int (getReadyRegisterPressureLimit limit allocGranule)) baselinePressure
      in candidatePressure \<le> ceiling)"

definition canUseReadyRegisterClassAgainstOriginalCeiling :: "int \<Rightarrow> int \<Rightarrow> int \<Rightarrow> nat \<Rightarrow> nat \<Rightarrow>
    nat \<Rightarrow> bool" where
  "canUseReadyRegisterClassAgainstOriginalCeiling current candidatePeakDelta baselinePeakDelta
       originalCeiling limit allocGranule =
     (let candidatePressure = current + candidatePeakDelta;
          baselinePressure = current + baselinePeakDelta;
          ceiling = max (int (max (getReadyRegisterPressureLimit limit allocGranule)
                                originalCeiling)) baselinePressure
      in candidatePressure \<le> ceiling)"

definition canUseReadyVectorCandidateAgainstBaseline :: "ready_pressure \<Rightarrow> candidate_metrics \<Rightarrow>
    candidate_metrics \<Rightarrow> pressure_limits \<Rightarrow> bool" where
  "canUseReadyVectorCandidateAgainstBaseline current candidate baseline limits =
     (let c = pressurePeakDelta candidate; b = pressurePeakDelta baseline in
      if \<not> canUseReadyRegisterClassAgainstBaseline (p_vgpr current) (p_vgpr c) (p_vgpr b)
             (lim_vgpr limits) (vgprAllocGranule_lim limits) \<or>
         \<not> canUseReadyRegisterClassAgainstBaseline (p_agpr current) (p_agpr c) (p_agpr b)
             (lim_agpr limits) (agprAllocGranule limits)
      then False
      else if lim_vgprFamily limits \<noteq> 0
      then canUseReadyRegisterClassAgainstBaseline (p_vgpr current + p_agpr current)
             (vgprFamilyPeakDelta candidate) (vgprFamilyPeakDelta baseline)
             (lim_vgprFamily limits) (familyGranule limits)
      else True)"

definition canUseReadyCandidateAgainstBaseline :: "ready_pressure \<Rightarrow> candidate_metrics \<Rightarrow>
    candidate_metrics \<Rightarrow> pressure_limits \<Rightarrow> bool" where
  "canUseReadyCandidateAgainstBaseline current candidate baseline limits =
     (if \<not> canUseReadyRegisterClassAgainstBaseline (p_sgpr current)
             (p_sgpr (pressurePeakDelta candidate)) (p_sgpr (pressurePeakDelta baseline))
             (lim_sgpr limits) (sgprAllocGranule limits)
      then False
      else canUseReadyVectorCandidateAgainstBaseline current candidate baseline limits)"

definition canUseReadySGPRCandidateOrder :: "ready_pressure \<Rightarrow> candidate_metrics \<Rightarrow>
    candidate_metrics \<Rightarrow> candidate_metrics \<Rightarrow> nat \<Rightarrow> bool" where
  "canUseReadySGPRCandidateOrder current candidateThenBaseline baselineThenCandidate baseline
       limit =
     (if \<not> canUseReadyRegisterClassAgainstBaseline (p_sgpr current)
             (p_sgpr (pressurePeakDelta candidateThenBaseline))
             (p_sgpr (pressurePeakDelta baselineThenCandidate)) limit 0
      then False
      else autoDrainedNodes candidateThenBaseline \<le> autoDrainedNodes baseline \<or>
           canUseReadyRegisterClassAgainstBaseline (p_sgpr current)
             (p_sgpr (pressurePeakDelta candidateThenBaseline))
             (p_sgpr (pressurePeakDelta baseline)) limit 0)"

definition raisesOverBudgetReadyRegisterClass :: "nat \<Rightarrow> int \<Rightarrow> nat \<Rightarrow> nat \<Rightarrow> bool" where
  "raisesOverBudgetReadyRegisterClass ceiling peakDelta limit allocGranule \<longleftrightarrow>
     ceiling > getReadyRegisterPressureLimit limit allocGranule \<and> peakDelta > 0"

subsection \<open>Preferences\<close>

definition shouldPreferSingleWaveReadyPressureOrdered :: "ready_pressure \<Rightarrow>
    candidate_metrics \<Rightarrow> candidate_metrics \<Rightarrow> candidate_metrics \<Rightarrow> candidate_metrics \<Rightarrow> nat \<Rightarrow>
    bool" where
  "shouldPreferSingleWaveReadyPressureOrdered current candidate candidateThenSelected
       selectedThenCandidate selected sgprLimit =
     (if \<not> canUseReadySGPRCandidateOrder current candidateThenSelected selectedThenCandidate
             selected sgprLimit
      then False
      else if p_sgpr (pressurePeakDelta candidate) \<noteq> p_sgpr (pressurePeakDelta selected)
      then p_sgpr (pressurePeakDelta candidate) < p_sgpr (pressurePeakDelta selected)
      else p_sgpr (pressureDelta candidate) < p_sgpr (pressureDelta selected))"

definition reserveReadyPressure :: "candidate_metrics \<Rightarrow> candidate_metrics \<Rightarrow>
    candidate_metrics" where
  "reserveReadyPressure candidate selected =
     (let cd = pressureDelta candidate; sd = pressureDelta selected;
          cp = pressurePeakDelta candidate; sp = pressurePeakDelta selected;
          candidateFinalFamily = p_vgpr cd + p_agpr cd
      in candidate
           \<lparr>pressureDelta := \<lparr>p_sgpr = p_sgpr cd + max 0 (p_sgpr sd),
                              p_vgpr = p_vgpr cd + max 0 (p_vgpr sd),
                              p_agpr = p_agpr cd + max 0 (p_agpr sd)\<rparr>,
            pressurePeakDelta := \<lparr>p_sgpr = max (p_sgpr cp) (p_sgpr cd + p_sgpr sp),
                                  p_vgpr = max (p_vgpr cp) (p_vgpr cd + p_vgpr sp),
                                  p_agpr = max (p_agpr cp) (p_agpr cd + p_agpr sp)\<rparr>,
            vgprFamilyPeakDelta := max (vgprFamilyPeakDelta candidate)
              (candidateFinalFamily + vgprFamilyPeakDelta selected)\<rparr>)"

definition getOverBudgetReadyBalancePreference :: "ready_pressure \<Rightarrow> candidate_metrics \<Rightarrow>
    candidate_metrics \<Rightarrow> pressure_score \<Rightarrow> pressure_score \<Rightarrow> pressure_limits \<Rightarrow> bool \<Rightarrow>
    bool option" where
  "getOverBudgetReadyBalancePreference current candidate selected candidatePressure
       selectedPressure limits bothFit =
     (if \<not> bothFit \<or> \<not> improvesOverBudgetReadyPressure current candidate selected limits
      then None
      else
        let over = p_sgpr current >
              int (getReadyRegisterPressureLimit (lim_sgpr limits) (sgprAllocGranule limits));
            candidateBalance = (if over
              then wrap_u64 (score_total candidatePressure + score_maximum candidatePressure)
              else score_total candidatePressure);
            selectedBalance = (if over
              then wrap_u64 (score_total selectedPressure + score_maximum selectedPressure)
              else score_total selectedPressure)
        in if candidateBalance = selectedBalance then None
           else Some (candidateBalance < selectedBalance))"

definition shouldPreferMultiWaveReadyPressure :: "ready_pressure \<Rightarrow> candidate_metrics \<Rightarrow>
    candidate_metrics \<Rightarrow> pressure_limits \<Rightarrow> bool" where
  "shouldPreferMultiWaveReadyPressure current candidate selected limits =
     (let reserved = reserveReadyPressure candidate selected;
          candidateFits = canUseReadyCandidate current reserved limits;
          selectedFits = canUseReadyCandidate current selected limits
      in if candidateFits \<noteq> selectedFits then candidateFits
         else
           let candidatePressure = getReadyRegisterPressureScore current reserved limits;
               selectedPressure = getReadyRegisterPressureScore current selected limits
           in case getOverBudgetReadyBalancePreference current candidate selected
                     candidatePressure selectedPressure limits (candidateFits \<and> selectedFits) of
                Some b \<Rightarrow> b
              | None \<Rightarrow> score_maximum candidatePressure < score_maximum selectedPressure)"

definition getReadyPressureComparisonMode :: "schedule_model \<Rightarrow> ready_pressure \<Rightarrow>
    candidate_metrics \<Rightarrow> ReadyPressureComparisonMode" where
  "getReadyPressureComparisonMode m current selected =
     (if issueStreams m > 1 then CandidateOnly
      else
        let selectedPeak = p_sgpr current + p_sgpr (pressurePeakDelta selected)
        in if lim_sgpr (pressureLimits m) = 0 \<or> selectedPeak \<le> int (lim_sgpr (pressureLimits m))
           then ComparisonNone else Ordered)"

definition shouldPreferReadyPressureCandidateOnly :: "schedule_model \<Rightarrow> ready_pressure \<Rightarrow>
    candidate_metrics \<Rightarrow> candidate_metrics \<Rightarrow> bool" where
  "shouldPreferReadyPressureCandidateOnly m current candidate selected =
     shouldPreferMultiWaveReadyPressure current candidate selected (pressureLimits m)"

definition shouldPreferReadyPressureOrdered :: "schedule_model \<Rightarrow> ready_pressure \<Rightarrow>
    candidate_metrics \<Rightarrow> candidate_metrics \<Rightarrow> candidate_metrics \<Rightarrow> candidate_metrics \<Rightarrow> bool" where
  "shouldPreferReadyPressureOrdered m current candidate candidateThenSelected
       selectedThenCandidate selected =
     shouldPreferSingleWaveReadyPressureOrdered current candidate candidateThenSelected
       selectedThenCandidate selected (lim_sgpr (pressureLimits m))"

definition canSelectReadyCandidate :: "schedule_model \<Rightarrow> ready_pressure \<Rightarrow> candidate_metrics \<Rightarrow>
    candidate_metrics \<Rightarrow> bool" where
  "canSelectReadyCandidate m current candidateThenBaseline baseline =
     (if issueStreams m \<le> 1
      then canUseReadyRegisterClassAgainstBaseline (p_sgpr current)
             (p_sgpr (pressurePeakDelta candidateThenBaseline))
             (p_sgpr (pressurePeakDelta baseline)) (lim_sgpr (pressureLimits m)) 0
      else if \<not> canUseReadyCandidate current candidateThenBaseline (pressureLimits m) then False
      else canUseReadyCandidateAgainstBaseline current candidateThenBaseline baseline
             (pressureLimits m))"

definition canSelectReadyFullPrefix :: "schedule_model \<Rightarrow> ready_pressure \<Rightarrow> candidate_metrics \<Rightarrow>
    candidate_metrics \<Rightarrow> bool" where
  "canSelectReadyFullPrefix m current candidateThenBaseline baseline =
     (let limits = pressureLimits m; c = pressurePeakDelta candidateThenBaseline;
          b = pressurePeakDelta baseline; k = pressureCeiling candidateThenBaseline in
      if \<not> canUseReadyRegisterClassAgainstOriginalCeiling (p_sgpr current) (p_sgpr c) (p_sgpr b)
             (ceil_sgpr k) (lim_sgpr limits) (sgprAllocGranule limits)
      then False
      else if \<not> canUseReadyRegisterClassAgainstOriginalCeiling (p_vgpr current) (p_vgpr c)
                  (p_vgpr b) (ceil_vgpr k) (lim_vgpr limits) (vgprAllocGranule_lim limits) \<or>
              \<not> canUseReadyRegisterClassAgainstOriginalCeiling (p_agpr current) (p_agpr c)
                  (p_agpr b) (ceil_agpr k) (lim_agpr limits) (agprAllocGranule limits)
      then False
      else if lim_vgprFamily limits = 0 then True
      else canUseReadyRegisterClassAgainstOriginalCeiling (p_vgpr current + p_agpr current)
             (vgprFamilyPeakDelta candidateThenBaseline) (vgprFamilyPeakDelta baseline)
             (ceil_vgprFamily k) (lim_vgprFamily limits) (familyGranule limits))"

definition canSelectReadyStallFiller :: "schedule_model \<Rightarrow> ready_pressure \<Rightarrow>
    candidate_metrics \<Rightarrow> candidate_metrics \<Rightarrow> candidate_metrics \<Rightarrow> bool \<Rightarrow> bool" where
  "canSelectReadyStallFiller m current candidate candidateThenBaseline baseline
       hasReorderedPrefix =
     (let limits = pressureLimits m;
          candidateSgprPeak = p_sgpr current + p_sgpr (pressurePeakDelta candidate) in
      if hasReorderedPrefix \<and> lim_sgpr limits \<noteq> 0 \<and>
         candidateSgprPeak >
           int (getReadyRegisterPressureLimit (lim_sgpr limits) (sgprAllocGranule limits)) \<and>
         p_sgpr (pressureDelta candidate) > 0
      then False
      else if \<not> canSelectReadyCandidate m current candidateThenBaseline baseline then False
      else issueStreams m > 1 \<or>
           canUseReadyVectorCandidateAgainstBaseline current candidateThenBaseline baseline
             limits)"

definition canSelectReadyFiller :: "schedule_model \<Rightarrow> ready_pressure \<Rightarrow> candidate_metrics \<Rightarrow>
    candidate_metrics \<Rightarrow> candidate_metrics \<Rightarrow> bool" where
  "canSelectReadyFiller m current candidate candidateThenBaseline baseline =
     (let limits = pressureLimits m in
      if readyPressureWaveCohort m \<le> 1
      then canSelectReadyCandidate m current candidateThenBaseline baseline
      else if raisesOverBudgetReadyRegisterClass (ceil_sgpr (pressureCeiling candidate))
                (p_sgpr (pressurePeakDelta candidate)) (lim_sgpr limits)
                (sgprAllocGranule limits) \<and>
              p_sgpr (pressureDelta candidate) \<ge> 0
      then False
      else if lim_vgprFamily limits \<noteq> 0 \<and>
              raisesOverBudgetReadyRegisterClass (ceil_vgprFamily (pressureCeiling candidate))
                (vgprFamilyPeakDelta candidate) (lim_vgprFamily limits) (familyGranule limits)
      then False
      else canSelectReadyCandidate m current candidateThenBaseline baseline)"

definition shouldPreferReadyFiller :: "schedule_model \<Rightarrow> ready_pressure \<Rightarrow> candidate_metrics \<Rightarrow>
    candidate_metrics \<Rightarrow> bool" where
  "shouldPreferReadyFiller m current candidate selected =
     (let limits = pressureLimits m;
          candidateFamily = p_vgpr (pressureDelta candidate) + p_agpr (pressureDelta candidate);
          selectedFamily = p_vgpr (pressureDelta selected) + p_agpr (pressureDelta selected);
          candidatePressure = getReadyRegisterPressureScore current candidate limits;
          selectedPressure = getReadyRegisterPressureScore current selected limits in
      if readyPressureWaveCohort m \<le> 1 then False
      else if lim_vgprFamily limits \<noteq> 0 \<and> candidateFamily \<noteq> selectedFamily
      then candidateFamily < selectedFamily
      else if score_maximum candidatePressure \<noteq> score_maximum selectedPressure
      then score_maximum candidatePressure < score_maximum selectedPressure
      else False)"

subsection \<open>The program-order resource state\<close>

text \<open>
  The slots a run of tracked instructions occupies: each entry is an instruction with the slot
  it issues in and the slot its unit is free again. An untracked instruction ends an island:
  it resets the units to the current slot.
\<close>

definition issueSlotOf :: "schedule_resource_state \<Rightarrow> schedule_resource_info \<Rightarrow> int" where
  "issueSlotOf s info = sr_currentSlot s + prev_waitSlots (preview_sr s info)"

definition releaseOf :: "schedule_resource_info \<Rightarrow> int" where
  "releaseOf info = int (max (info_releaseSlots info) (info_issueSlots info))"

fun islandTrace :: "schedule_resource_info list \<Rightarrow> schedule_resource_state \<Rightarrow>
    (schedule_resource_info \<times> int \<times> int) list" where
  "islandTrace [] s = []"
| "islandTrace (info # infos) s =
     (info, issueSlotOf s info, issueSlotOf s info + releaseOf info)
       # islandTrace infos (commit_sr info s)"

definition islandOk :: "schedule_resource_info \<Rightarrow> bool" where
  "islandOk info \<longleftrightarrow> realInstruction info \<and> tracked info \<and>
     info_functionalUnit info \<noteq> NumFunctionalUnits"

lemma commit_sr_tracked:
  assumes "islandOk info" and "length (sr_readyAt s) = kNumFunctionalUnits"
  shows "sr_currentSlot (commit_sr info s) = issueSlotOf s info + int (info_issueSlots info)"
    and "sr_readyAt (commit_sr info s) =
      (sr_readyAt s)[fu_index (info_functionalUnit info) := issueSlotOf s info + releaseOf info]"
    and "sr_mfmaCoissueReadyAt (commit_sr info s) =
      (if sr_trackMfmaCoissue s \<and> usesMfmaCoissue info
       then issueSlotOf s info + releaseOf info else sr_mfmaCoissueReadyAt s)"
    and "sr_trackMfmaCoissue (commit_sr info s) = sr_trackMfmaCoissue s"
  using assms
  by (simp_all add: commit_sr_def islandOk_def issueSlotOf_def releaseOf_def preview_sr_def Let_def)

lemma issueSlotOf_ge:
  assumes "islandOk info"
  shows "sr_currentSlot s \<le> issueSlotOf s info"
    and "sr_readyAt s ! fu_index (info_functionalUnit info) \<le> issueSlotOf s info"
    and "sr_trackMfmaCoissue s \<Longrightarrow> usesMfmaCoissue info \<Longrightarrow>
      sr_mfmaCoissueReadyAt s \<le> issueSlotOf s info"
  using assms by (auto simp: issueSlotOf_def preview_sr_def islandOk_def Let_def)

lemma releaseOf_ge: "int (info_issueSlots info) \<le> releaseOf info" "0 \<le> releaseOf info"
  by (simp_all add: releaseOf_def)

lemma commit_sr_mono:
  assumes "islandOk info" and "length (sr_readyAt s) = kNumFunctionalUnits"
  shows "sr_currentSlot s \<le> sr_currentSlot (commit_sr info s)"
    and "u < kNumFunctionalUnits \<Longrightarrow> sr_readyAt s ! u \<le> sr_readyAt (commit_sr info s) ! u"
    and "sr_mfmaCoissueReadyAt s \<le> sr_mfmaCoissueReadyAt (commit_sr info s) \<or>
      \<not> (sr_trackMfmaCoissue s \<and> usesMfmaCoissue info)"
    and "length (sr_readyAt (commit_sr info s)) = kNumFunctionalUnits"
  using issueSlotOf_ge [OF assms(1), of s] releaseOf_ge [of info] assms(2)
    fu_index_bound [of "info_functionalUnit info"] assms(1)
  by (auto simp: commit_sr_tracked [OF assms] nth_list_update islandOk_def)

lemma islandTrace_after:
  assumes "list_all islandOk infos" and "length (sr_readyAt s) = kNumFunctionalUnits"
    and "(i, b, e) \<in> set (islandTrace infos s)"
  shows "sr_currentSlot s \<le> b \<and> sr_readyAt s ! fu_index (info_functionalUnit i) \<le> b \<and>
    (sr_trackMfmaCoissue s \<and> usesMfmaCoissue i \<longrightarrow> sr_mfmaCoissueReadyAt s \<le> b)"
  using assms
proof (induction infos arbitrary: s)
  case (Cons info infos)
  have ok: "islandOk info" using Cons.prems(1) by simp
  show ?case
  proof (cases "(i, b, e) \<in> set (islandTrace infos (commit_sr info s))")
    case False
    with Cons.prems(3) have "i = info" "b = issueSlotOf s info" by auto
    with issueSlotOf_ge [OF ok] show ?thesis by auto
  next
    case True
    have i: "islandOk i"
    proof -
      have "fst ` set (islandTrace is t) = set is" for "is" t
        by (induction "is" arbitrary: t) auto
      then have "i \<in> set infos" using True by force
      then show ?thesis using Cons.prems(1) by (auto simp: list_all_iff)
    qed
    then have u: "fu_index (info_functionalUnit i) < kNumFunctionalUnits"
      by (simp add: islandOk_def fu_index_bound)
    note mono = commit_sr_mono [OF ok Cons.prems(2)]
    have "sr_mfmaCoissueReadyAt s \<le> sr_mfmaCoissueReadyAt (commit_sr info s)"
      using mono(3) commit_sr_tracked(3) [OF ok Cons.prems(2)] by auto
    then show ?thesis
      using Cons.IH [OF _ mono(4) True] Cons.prems(1) mono(1) mono(2) [OF u]
        commit_sr_tracked(4) [OF ok Cons.prems(2)]
      by auto
  qed
qed simp

lemma islandTrace_sorted:
  assumes "list_all islandOk infos" and "length (sr_readyAt s) = kNumFunctionalUnits"
  shows "sorted_wrt (\<lambda>(i, b, e) (i', b', e').
      b + int (info_issueSlots i) \<le> b' \<and>
      (info_functionalUnit i = info_functionalUnit i' \<longrightarrow> e \<le> b') \<and>
      (sr_trackMfmaCoissue s \<and> usesMfmaCoissue i \<and> usesMfmaCoissue i' \<longrightarrow> e \<le> b'))
    (islandTrace infos s)"
  using assms
proof (induction infos arbitrary: s)
  case (Cons info infos)
  have ok: "islandOk info" and rest: "list_all islandOk infos" using Cons.prems(1) by auto
  note len = commit_sr_mono(4) [OF ok Cons.prems(2)]
  note eqs = commit_sr_tracked [OF ok Cons.prems(2)]
  have u: "fu_index (info_functionalUnit info) < kNumFunctionalUnits"
    using ok by (simp add: islandOk_def fu_index_bound)
  have "issueSlotOf s info + int (info_issueSlots info) \<le> b \<and>
      (info_functionalUnit info = info_functionalUnit i \<longrightarrow>
         issueSlotOf s info + releaseOf info \<le> b) \<and>
      (sr_trackMfmaCoissue s \<and> usesMfmaCoissue info \<and> usesMfmaCoissue i \<longrightarrow>
         issueSlotOf s info + releaseOf info \<le> b)"
    if "(i, b, e) \<in> set (islandTrace infos (commit_sr info s))" for i b e
    using islandTrace_after [OF rest len that] eqs u Cons.prems(2) by auto
  with Cons.IH [OF rest len] eqs(4) show ?case by auto
qed simp

subsection \<open>Limits\<close>

lemma getReadyRegisterPressureLimit_bounds:
  assumes "0 < g"
  shows "getReadyRegisterPressureLimit limit g mod g = 0"
    and "getReadyRegisterPressureLimit limit g \<noteq> 0 \<Longrightarrow>
      getReadyRegisterPressureLimit limit g + g \<le> limit"
    and "limit < getReadyRegisterPressureLimit limit g + 2 * g"
proof -
  define q where "q = limit div g"
  have al: "limit - limit mod g = g * q" by (simp add: q_def minus_mod_eq_mult_div)
  have r: "limit < g * q + g" "g * q \<le> limit"
    using mod_less_divisor [OF assms, of limit] mult_div_mod_eq [of g limit]
    unfolding q_def by linarith+
  have sub: "g * q - g = g * (q - 1)" by (simp add: diff_mult_distrib2)
  show "getReadyRegisterPressureLimit limit g mod g = 0"
    using assms by (simp add: getReadyRegisterPressureLimit_def al Let_def sub)
  show "getReadyRegisterPressureLimit limit g \<noteq> 0 \<Longrightarrow>
      getReadyRegisterPressureLimit limit g + g \<le> limit"
    using assms r by (auto simp: getReadyRegisterPressureLimit_def al Let_def split: if_splits)
  show "limit < getReadyRegisterPressureLimit limit g + 2 * g"
  proof (cases "g < g * q")
    case True
    then show ?thesis using assms r by (simp add: getReadyRegisterPressureLimit_def al Let_def)
  next
    case False
    then have "limit < 2 * g" using r by linarith
    then show ?thesis by simp
  qed
qed

lemma canUseReadyRegisterClass_mono:
  "canUseReadyRegisterClass current delta limit \<Longrightarrow> delta' \<le> delta \<Longrightarrow> limit \<le> limit' \<Longrightarrow>
   canUseReadyRegisterClass current delta' limit'"
  by (auto simp: canUseReadyRegisterClass_def split: if_splits)

lemma ceiling_mono:
  "b \<le> b' \<Longrightarrow> getReadyRegisterPressureCeiling l g b \<le> getReadyRegisterPressureCeiling l g b'"
  by (simp add: getReadyRegisterPressureCeiling_def)

lemma canUseReadyCandidate_iff:
  "canUseReadyCandidate current c limits \<longleftrightarrow>
     canUseReadyRegisterClass (p_sgpr current) (p_sgpr (pressurePeakDelta c))
       (getReadyRegisterPressureCeiling (lim_sgpr limits) (sgprAllocGranule limits)
          (ceil_sgpr (pressureCeiling c))) \<and>
     canUseReadyRegisterClass (p_vgpr current) (p_vgpr (pressurePeakDelta c))
       (getReadyRegisterPressureCeiling (lim_vgpr limits) (vgprAllocGranule_lim limits)
          (ceil_vgpr (pressureCeiling c))) \<and>
     canUseReadyRegisterClass (p_agpr current) (p_agpr (pressurePeakDelta c))
       (getReadyRegisterPressureCeiling (lim_agpr limits) (agprAllocGranule limits)
          (ceil_agpr (pressureCeiling c))) \<and>
     (lim_vgprFamily limits \<noteq> 0 \<longrightarrow>
        canUseReadyRegisterClass (p_vgpr current + p_agpr current) (vgprFamilyPeakDelta c)
          (getReadyRegisterPressureCeiling (lim_vgprFamily limits) (familyGranule limits)
             (ceil_vgprFamily (pressureCeiling c))))"
  by (auto simp: canUseReadyCandidate_def Let_def)

subsection \<open>Properties\<close>

text \<open>C39: in a run of tracked instructions the program-order resource state never lets two
  instructions overlap: issue slots are in program order, a functional unit is free again
  before the next instruction on it issues, and so is the MFMA coissue resource when it is
  tracked.\<close>

theorem schedule_resources_exclusive:
  assumes "list_all islandOk infos" and "length (sr_readyAt s) = kNumFunctionalUnits"
  shows "sorted_wrt (\<lambda>(i, b, e) (i', b', e').
      b + int (info_issueSlots i) \<le> b' \<and>
      (info_functionalUnit i = info_functionalUnit i' \<longrightarrow> e \<le> b') \<and>
      (sr_trackMfmaCoissue s \<and> usesMfmaCoissue i \<and> usesMfmaCoissue i' \<longrightarrow> e \<le> b'))
    (islandTrace infos s)"
  by (rule islandTrace_sorted [OF assms])

definition ex_info :: "FunctionalUnit \<Rightarrow> nat \<Rightarrow> bool \<Rightarrow> schedule_resource_info" where
  "ex_info u release coissue = \<lparr>info_issueSlots = 1, info_releaseSlots = release,
     info_functionalUnit = u, realInstruction = True, tracked = True,
     usesMfmaCoissue = coissue\<rparr>"

theorem schedule_resources_exclusive_witness:
  "map snd (islandTrace [ex_info MFMA_XDL 8 True, ex_info VALU 1 False, ex_info VALU 1 True]
     (init_sr True)) = [(0, 8), (1, 2), (8, 9)] \<and>
   sorted_wrt (\<lambda>(i, b, e) (i', b', e').
      b + int (info_issueSlots i) \<le> b' \<and>
      (info_functionalUnit i = info_functionalUnit i' \<longrightarrow> e \<le> b') \<and>
      (sr_trackMfmaCoissue (init_sr True) \<and> usesMfmaCoissue i \<and> usesMfmaCoissue i' \<longrightarrow> e \<le> b'))
    (islandTrace [ex_info MFMA_XDL 8 True, ex_info VALU 1 False, ex_info VALU 1 True]
      (init_sr True))"
proof
  show "map snd (islandTrace [ex_info MFMA_XDL 8 True, ex_info VALU 1 False, ex_info VALU 1 True]
     (init_sr True)) = [(0, 8), (1, 2), (8, 9)]" by code_simp
qed (rule schedule_resources_exclusive; simp add: islandOk_def ex_info_def init_sr_def)

text \<open>the schedule model of a configured target smooths LDS-DMA issue exactly at one
  wave, and its issue lead is the largest multiple of the issue period that does not exceed
  the service interval of the accept queue.\<close>

theorem configured_lead:
  assumes "0 < ldsDmaIssueQueueDepth arch" and "0 < ldsDmaIssueLatency arch"
    and "config' = configureInstructionScheduleModel config arch waves cohort limits"
    and "period = (if issuePeriod config > 0 then issuePeriod config
      else max 1 (simdIssuePeriod arch))"
  shows "(smoothLdsDmaIssue config' \<longleftrightarrow> waves = 1) \<and>
    issueStreams (scheduleModel config') = waves \<and>
    period dvd ldsDmaIssueLead (scheduleModel config') \<and>
    ldsDmaIssueLead (scheduleModel config') * ldsDmaIssueQueueDepth arch \<le> ldsDmaIssueLatency arch \<and>
    ldsDmaIssueLatency arch <
      (ldsDmaIssueLead (scheduleModel config') + period) * ldsDmaIssueQueueDepth arch"
proof -
  let ?q = "ldsDmaIssueQueueDepth arch" and ?l = "ldsDmaIssueLatency arch"
  define i where "i = ?l div ?q"
  have period: "0 < period" using assms(4) by auto
  have i0: "0 \<le> i" using assms(1,2) by (simp add: i_def pos_imp_zdiv_nonneg_iff)
  have split: "a div d * d \<le> a" "a < (a div d + 1) * d" if "0 < d" for a d :: int
  proof -
    have "a div d * d + a mod d = a" by simp
    with pos_mod_bound [OF that, of a] pos_mod_sign [OF that, of a]
    show "a div d * d \<le> a" "a < (a div d + 1) * d" unfolding distrib_right by linarith+
  qed
  note i = split [OF assms(1), of ?l, folded i_def]
  have lead: "ldsDmaIssueLead (scheduleModel config') = i div period * period"
    using assms i0 period
    by (auto simp: configureInstructionScheduleModel_def Let_def i_def sdiv_nonneg)
  let ?lead = "i div period * period"
  have b: "?lead \<le> i" "i + 1 \<le> ?lead + period"
    using split [OF period, of i] by (simp_all add: distrib_right)
  have "?lead * ?q \<le> i * ?q" "(i + 1) * ?q \<le> (?lead + period) * ?q"
    using b assms(1) by (auto intro: mult_right_mono)
  with i lead show ?thesis
    using assms(3) by (auto simp: configureInstructionScheduleModel_def Let_def)
qed

theorem configured_lead_witness:
  "4 dvd ldsDmaIssueLead (scheduleModel
     (configureInstructionScheduleModel (init_config 64) kGfx950 2 2 noLimits)) \<and>
   ldsDmaIssueLead (scheduleModel
     (configureInstructionScheduleModel (init_config 64) kGfx950 2 2 noLimits)) = 24"
proof -
  have v: "ldsDmaIssueLead (scheduleModel
     (configureInstructionScheduleModel (init_config 64) kGfx950 2 2 noLimits)) = 24" by code_simp
  show ?thesis
    using configured_lead [OF _ _ refl refl, of kGfx950 "init_config 64" 2 2 noLimits] v
    by (simp add: kGfx950_def init_config_def)
qed

text \<open>with several issue streams a candidate is admitted only if no register class gets
  worse: at its peak every class stays within its budget (the ceiling one granule below the
  limit, or the pressure the original order already reaches) and is no higher than what the
  baseline order reaches or the budget allows.\<close>

theorem canSelectReadyCandidate_safe:
  assumes "canSelectReadyCandidate m current c baseline" and "1 < issueStreams m"
    and "limits = pressureLimits m"
  shows "(0 < p_sgpr (pressurePeakDelta c) \<longrightarrow>
      p_sgpr current + p_sgpr (pressurePeakDelta c) \<le> int (getReadyRegisterPressureCeiling
        (lim_sgpr limits) (sgprAllocGranule limits) (ceil_sgpr (pressureCeiling c)))) \<and>
    (0 < p_vgpr (pressurePeakDelta c) \<longrightarrow>
      p_vgpr current + p_vgpr (pressurePeakDelta c) \<le> int (getReadyRegisterPressureCeiling
        (lim_vgpr limits) (vgprAllocGranule_lim limits) (ceil_vgpr (pressureCeiling c)))) \<and>
    p_sgpr current + p_sgpr (pressurePeakDelta c) \<le>
      max (int (getReadyRegisterPressureLimit (lim_sgpr limits) (sgprAllocGranule limits)))
          (p_sgpr current + p_sgpr (pressurePeakDelta baseline)) \<and>
    p_vgpr current + p_vgpr (pressurePeakDelta c) \<le>
      max (int (getReadyRegisterPressureLimit (lim_vgpr limits) (vgprAllocGranule_lim limits)))
          (p_vgpr current + p_vgpr (pressurePeakDelta baseline)) \<and>
    (\<forall>c'. pressureCeiling c' = pressureCeiling c \<longrightarrow>
      p_sgpr (pressurePeakDelta c') \<le> p_sgpr (pressurePeakDelta c) \<longrightarrow>
      p_vgpr (pressurePeakDelta c') \<le> p_vgpr (pressurePeakDelta c) \<longrightarrow>
      p_agpr (pressurePeakDelta c') \<le> p_agpr (pressurePeakDelta c) \<longrightarrow>
      vgprFamilyPeakDelta c' \<le> vgprFamilyPeakDelta c \<longrightarrow>
      canUseReadyCandidate current c' limits)"
proof -
  from assms have fits: "canUseReadyCandidate current c limits"
    and base: "canUseReadyCandidateAgainstBaseline current c baseline limits"
    by (auto simp: canSelectReadyCandidate_def split: if_splits)
  have "canUseReadyCandidate current c' limits"
    if "pressureCeiling c' = pressureCeiling c"
      "p_sgpr (pressurePeakDelta c') \<le> p_sgpr (pressurePeakDelta c)"
      "p_vgpr (pressurePeakDelta c') \<le> p_vgpr (pressurePeakDelta c)"
      "p_agpr (pressurePeakDelta c') \<le> p_agpr (pressurePeakDelta c)"
      "vgprFamilyPeakDelta c' \<le> vgprFamilyPeakDelta c" for c'
    using fits that unfolding canUseReadyCandidate_iff
    by (auto intro: canUseReadyRegisterClass_mono)
  moreover have "canUseReadyRegisterClass (p_sgpr current) (p_sgpr (pressurePeakDelta c))
       (getReadyRegisterPressureCeiling (lim_sgpr limits) (sgprAllocGranule limits)
          (ceil_sgpr (pressureCeiling c)))"
     "canUseReadyRegisterClass (p_vgpr current) (p_vgpr (pressurePeakDelta c))
       (getReadyRegisterPressureCeiling (lim_vgpr limits) (vgprAllocGranule_lim limits)
          (ceil_vgpr (pressureCeiling c)))"
    using fits by (simp_all add: canUseReadyCandidate_iff)
  ultimately show ?thesis
    using base
    by (auto simp: canUseReadyRegisterClass_def canUseReadyCandidateAgainstBaseline_def
        canUseReadyVectorCandidateAgainstBaseline_def canUseReadyRegisterClassAgainstBaseline_def
        Let_def split: if_splits)
qed

definition ex_metrics :: "int \<Rightarrow> int \<Rightarrow> candidate_metrics" where
  "ex_metrics s v = \<lparr>pressureDelta = \<lparr>p_sgpr = 0, p_vgpr = v, p_agpr = 0\<rparr>,
     pressurePeakDelta = \<lparr>p_sgpr = s, p_vgpr = v, p_agpr = 0\<rparr>, vgprFamilyPeakDelta = v,
     pressureCeiling = \<lparr>ceil_sgpr = 0, ceil_vgpr = 0, ceil_agpr = 0, ceil_vgprFamily = 0\<rparr>,
     autoDrainedNodes = 0\<rparr>"

definition ex_model :: schedule_model where
  "ex_model = \<lparr>pressureLimits = \<lparr>lim_sgpr = 100, lim_vgpr = 128, lim_agpr = 0,
      lim_vgprFamily = 0, sgprAllocGranule = 8, vgprAllocGranule_lim = 8, agprAllocGranule = 0\<rparr>,
     ldsDmaIssueLead = 0, issueStreams = 2, readyPressureWaveCohort = 2\<rparr>"

definition ex_pressure :: ready_pressure where
  "ex_pressure = \<lparr>p_sgpr = 20, p_vgpr = 100, p_agpr = 0\<rparr>"

theorem canSelectReadyCandidate_safe_witness:
  "p_vgpr ex_pressure + p_vgpr (pressurePeakDelta (ex_metrics 4 16)) \<le> 120 \<and>
   canSelectReadyCandidate ex_model ex_pressure (ex_metrics 4 16) (ex_metrics 4 24) \<and>
   \<not> canSelectReadyCandidate ex_model ex_pressure (ex_metrics 4 24) (ex_metrics 4 16)"
proof -
  have sel: "canSelectReadyCandidate ex_model ex_pressure (ex_metrics 4 16) (ex_metrics 4 24)"
    and no: "\<not> canSelectReadyCandidate ex_model ex_pressure (ex_metrics 4 24) (ex_metrics 4 16)"
    by code_simp+
  have two: "1 < issueStreams ex_model" by (simp add: ex_model_def)
  have "int (getReadyRegisterPressureCeiling (lim_vgpr (pressureLimits ex_model))
      (vgprAllocGranule_lim (pressureLimits ex_model))
      (ceil_vgpr (pressureCeiling (ex_metrics 4 16)))) = 120" by code_simp
  moreover have "0 < p_vgpr (pressurePeakDelta (ex_metrics 4 16))" by code_simp
  ultimately show ?thesis
    using canSelectReadyCandidate_safe [OF sel two refl] sel no by auto
qed

definition fillerKey :: "schedule_model \<Rightarrow> ready_pressure \<Rightarrow> candidate_metrics \<Rightarrow> int \<times> nat" where
  "fillerKey m current c =
     (if readyPressureWaveCohort m \<le> 1 then (0, 0)
      else (if lim_vgprFamily (pressureLimits m) = 0 then 0
            else p_vgpr (pressureDelta c) + p_agpr (pressureDelta c),
            score_maximum (getReadyRegisterPressureScore current c (pressureLimits m))))"

lemma shouldPreferReadyFiller_key:
  "shouldPreferReadyFiller m current c s \<longleftrightarrow>
     fst (fillerKey m current c) < fst (fillerKey m current s) \<or>
     fst (fillerKey m current c) = fst (fillerKey m current s) \<and>
     snd (fillerKey m current c) < snd (fillerKey m current s)"
  by (auto simp: shouldPreferReadyFiller_def fillerKey_def Let_def)

text \<open>the ranking of fillers is a strict weak order (for every state and model): it is
  irreflexive, transitive, and so is incomparability, so the best filler does not depend on
  the order in which the candidates are visited.\<close>

theorem shouldPreferReadyFiller_order:
  "irreflp (shouldPreferReadyFiller m current) \<and> transp (shouldPreferReadyFiller m current) \<and>
   transp (\<lambda>c s. \<not> shouldPreferReadyFiller m current c s)"
  by (auto simp: irreflp_def transp_def shouldPreferReadyFiller_key)

end
