(* ===== verification/Execution_State.thy ===== *)
theory Execution_State
  imports Schedule_Model Resource_Props
begin

text \<open>
  The state of one wave in \<^verbatim>\<open>InstructionExecutionState.h/.cpp\<close>: when each SSA value is
  ready, the outstanding memory events and their counter queues, the pipe and memory issue
  queues, the issue-slot hazards, and the description of an operation that queries and commits
  work with. The queries are in \<open>Execution_Query\<close>, the commits in \<open>Execution_Commit\<close>.

  \<^verbatim>\<open>uint64_t\<close> issue slots wrap with \<open>wrap_u64\<close>; event identifiers are unbounded (a run
  would need \<open>2 ^ 64\<close> events to wrap). A map is a \<^verbatim>\<open>DenseMap\<close>. The list \<open>prog\<close> is
  the IR that surrounds the operation: the use lists of a value are read from it.
\<close>

subsection \<open>Kinds\<close>

datatype InstructionWaitCounterKind =
    WaitNone | WaitVmem | WaitLgkm | WaitVscnt | WaitExpcnt | WaitTensor | WaitAsync

datatype InstructionEventClass =
    ClassNone | VmemLoad | VmemStore | LdsDs | Message | Smem | Async | Tensor

record issue_slot_hazard_config =
  valuWriteVGPRScalarRead :: nat
  valuWriteVGPRMfmaRead :: nat
  valuWriteVGPRPermlane32Swap :: nat
  valuWriteSGPRValuRead :: nat
  transWriteVGPRValuRead :: nat

definition noSlotHazards :: issue_slot_hazard_config where
  "noSlotHazards = \<lparr>valuWriteVGPRScalarRead = 0, valuWriteVGPRMfmaRead = 0,
     valuWriteVGPRPermlane32Swap = 0, valuWriteSGPRValuRead = 0, transWriteVGPRValuRead = 0\<rparr>"

definition config_empty :: "issue_slot_hazard_config \<Rightarrow> bool" where
  "config_empty c \<longleftrightarrow> valuWriteVGPRScalarRead c = 0 \<and> valuWriteVGPRMfmaRead c = 0 \<and>
     valuWriteVGPRPermlane32Swap c = 0 \<and> valuWriteSGPRValuRead c = 0 \<and>
     transWriteVGPRValuRead c = 0"

record stall_component =
  comp_kind :: InstructionStallKind
  comp_cycles :: int
  comp_resource :: InstructionResourceKind
  comp_scope :: InstructionResourceScope

record instruction_stall =
  stall_kind :: InstructionStallKind
  stall_cycles :: int
  components :: "stall_component list"

record commit_result =
  stall :: instruction_stall
  priorityStall :: instruction_stall
  computePriorityStall :: instruction_stall
  issueCycle :: int
  nextIssueCycle :: int
  valueReadyCycle :: int
  tokenReadyCycle_res :: int

record pending_event =
  ev_op :: nat
  ev_id :: nat
  retireCycle :: int
  ev_counter :: InstructionWaitCounterKind
  ev_class :: InstructionEventClass

record instruction_desc =
  latency :: int
  memoryCounterLatency :: int
  memoryValueLatency :: int
  instructionSpan :: int
  resourceDuration :: int
  issueSlots :: nat
  instructionIssueCount :: nat
  counterIssueCount :: nat
  storeDataHazardLatency :: nat
  mfmaPasses :: nat
  coexecution :: coexecution_model
  desc_pipe :: InstructionPipeKind
  memoryIssueResources :: resource_mask
  desc_counter :: InstructionWaitCounterKind
  eventClass :: InstructionEventClass
  noMachineInst :: bool
  desc_waitcnt :: bool
  legacyVALU :: bool
  desc_trans :: bool
  mfmaCoissueResource :: bool
  laneRead :: bool
  ldsDmaIssue :: bool
  m0Writer :: bool
  m0Consumer :: bool
  storeDataProducer :: bool
  waitsForTokenDeps :: bool
  hasMemoryValue :: bool
  resultReadyAtEnd :: bool

record issue_slot_hazards =
  valuWriteVGPRScalarReadyAt :: nat
  valuWriteVGPRMfmaReadyAt :: nat
  valuWriteVGPRPermlane32SwapReadyAt :: nat
  transWriteVGPRReadyAt :: nat
  valuWriteSGPRReadyAt :: nat
  mfmaResultReadyAt :: nat
  mfmaSrcCOverlapReadyAt :: nat
  mfmaSrcCExactReadyAt :: nat

definition noHazards :: issue_slot_hazards where
  "noHazards = \<lparr>valuWriteVGPRScalarReadyAt = 0, valuWriteVGPRMfmaReadyAt = 0,
     valuWriteVGPRPermlane32SwapReadyAt = 0, transWriteVGPRReadyAt = 0,
     valuWriteSGPRReadyAt = 0, mfmaResultReadyAt = 0, mfmaSrcCOverlapReadyAt = 0,
     mfmaSrcCExactReadyAt = 0\<rparr>"

definition hazards_empty :: "issue_slot_hazards \<Rightarrow> bool" where
  "hazards_empty h \<longleftrightarrow>
     valuWriteVGPRScalarReadyAt h = 0 \<and> valuWriteVGPRMfmaReadyAt h = 0 \<and>
     valuWriteVGPRPermlane32SwapReadyAt h = 0 \<and> transWriteVGPRReadyAt h = 0 \<and>
     valuWriteSGPRReadyAt h = 0 \<and> mfmaResultReadyAt h = 0 \<and>
     mfmaSrcCOverlapReadyAt h = 0 \<and> mfmaSrcCExactReadyAt h = 0"

definition hazards_join :: "issue_slot_hazards \<Rightarrow> issue_slot_hazards \<Rightarrow> issue_slot_hazards" where
  "hazards_join h rhs =
     \<lparr>valuWriteVGPRScalarReadyAt =
        max (valuWriteVGPRScalarReadyAt h) (valuWriteVGPRScalarReadyAt rhs),
      valuWriteVGPRMfmaReadyAt = max (valuWriteVGPRMfmaReadyAt h) (valuWriteVGPRMfmaReadyAt rhs),
      valuWriteVGPRPermlane32SwapReadyAt =
        max (valuWriteVGPRPermlane32SwapReadyAt h) (valuWriteVGPRPermlane32SwapReadyAt rhs),
      transWriteVGPRReadyAt = max (transWriteVGPRReadyAt h) (transWriteVGPRReadyAt rhs),
      valuWriteSGPRReadyAt = max (valuWriteSGPRReadyAt h) (valuWriteSGPRReadyAt rhs),
      mfmaResultReadyAt = max (mfmaResultReadyAt h) (mfmaResultReadyAt rhs),
      mfmaSrcCOverlapReadyAt = max (mfmaSrcCOverlapReadyAt h) (mfmaSrcCOverlapReadyAt rhs),
      mfmaSrcCExactReadyAt = max (mfmaSrcCExactReadyAt h) (mfmaSrcCExactReadyAt rhs)\<rparr>"

record wave_state =
  valueReadyAt :: "op_value \<Rightarrow> int option"
  issueSlotHazards :: "op_value \<Rightarrow> issue_slot_hazards option"
  valueEvent :: "op_value \<Rightarrow> nat option"
  tokenEvents :: "op_value \<Rightarrow> nat list option"
  pendingEvents :: "nat \<Rightarrow> pending_event option"
  waitQueues :: "nat list list"
  pipeQueues :: "int list list"
  memoryIssueQueues :: "int list list"
  es_config :: execution_config
  es_arch :: arch_data
  issueSlotHazardConfig :: issue_slot_hazard_config
  currentCycle :: int
  nextLdsDmaIssueCycle :: int
  mfmaCoissueReadyCycle :: int
  coexecWindowSlots :: nat
  coexecProducerRun :: nat
  currentIssueSlot :: nat
  nextEventId :: nat
  storeDataGap :: nat
  m0DmaCaptureGapArmed :: bool
  m0GapArmed :: bool

subsection \<open>Operands, results and hazards of an operation\<close>

definition dropsTokenCompletion :: "op_info \<Rightarrow> bool" where
  "dropsTokenCompletion op = hasTrait op CompletionFreeTokenOp"

definition isCDNA3Or4 :: "isa_version \<Rightarrow> bool" where
  "isCDNA3Or4 isa \<longleftrightarrow> Major isa = 9 \<and> (Minor isa = 4 \<or> Minor isa = 5)"

definition isCDNA4 :: "isa_version \<Rightarrow> bool" where
  "isCDNA4 isa \<longleftrightarrow> Major isa = 9 \<and> Minor isa = 5"

definition isValuScalarHazardResult :: "RegClass option \<Rightarrow> bool" where
  "isValuScalarHazardResult regClass \<longleftrightarrow> regClass = Some SGPR \<or> regClass = Some VCC"

definition hasRegClass :: "op_value list \<Rightarrow> RegClass \<Rightarrow> bool" where
  "hasRegClass values regClass = list_ex (\<lambda>v. getRegClass v = Some regClass) values"

fun onlyRegClass :: "RegClass \<Rightarrow> bool \<Rightarrow> op_value list \<Rightarrow> bool" where
  "onlyRegClass regClass found [] = found"
| "onlyRegClass regClass found (v # vs) =
     (case getRegClass v of
        None \<Rightarrow> onlyRegClass regClass found vs
      | Some valueClass \<Rightarrow>
          if valueClass \<noteq> regClass then False else onlyRegClass regClass True vs)"

definition hasOnlyRegClass :: "op_value list \<Rightarrow> RegClass \<Rightarrow> bool" where
  "hasOnlyRegClass values regClass = onlyRegClass regClass False values"

definition isLegacyVALU :: "op_info \<Rightarrow> bool" where
  "isLegacyVALU op \<longleftrightarrow> hasTrait op VALUOp \<and> \<not> hasTrait op MFMAOp"

fun getMfmaPassCount :: "SchedClass \<Rightarrow> nat" where
  "getMfmaPassCount Write2PassMAI = 2"
| "getMfmaPassCount Write4PassMAI = 4"
| "getMfmaPassCount Write8PassMAI = 8"
| "getMfmaPassCount Write16PassMAI = 16"
| "getMfmaPassCount _ = 0"

definition issueSlotsUntil :: "nat \<Rightarrow> nat \<Rightarrow> nat" where
  "issueSlotsUntil readyAt now = (if readyAt \<le> now then 0 else trunc_u32 (readyAt - now))"

definition isSGPROffset :: "op_value \<Rightarrow> bool" where
  "isSGPROffset v \<longleftrightarrow> getRegClass v = Some SGPR"

fun getWideBufferStoreSoffset :: "op_class \<Rightarrow> op_value option" where
  "getWideBufferStoreSoffset (BufferStoreB96Op soffset) = Some soffset"
| "getWideBufferStoreSoffset (BufferStoreB128Op soffset) = Some soffset"
| "getWideBufferStoreSoffset _ = None"

definition isWideStoreWriteDataOp :: "op_info \<Rightarrow> bool" where
  "isWideStoreWriteDataOp op =
     isaOp op [''GlobalStoreB96Op'', ''GlobalStoreB128Op'', ''GlobalStoreB96Addr64Op'',
       ''GlobalStoreB128Addr64Op'', ''BufferStoreB96Op'', ''BufferStoreB128Op'']"

text \<open>
  \<^verbatim>\<open>value.getUses()\<close>: the operations of \<open>prog\<close> that use the value, with the operand
  number. \<open>reachesStoreWriteData\<close> is the depth-first search of the source with its
  recursion made explicit: the list holds the uses still to visit, the uses of the current
  operation's results in front. \<open>seen\<close> is the set of alias operations already entered.
\<close>

definition usesOf :: "op_info list \<Rightarrow> op_value \<Rightarrow> (op_info \<times> nat) list" where
  "usesOf prog v =
     concat (map (\<lambda>user. map (\<lambda>i. (user, i))
       (filter (\<lambda>i. op_operands user ! i = v) [0..<length (op_operands user)])) prog)"

definition resultUses :: "op_info list \<Rightarrow> op_info \<Rightarrow> (op_info \<times> nat) list" where
  "resultUses prog op = concat (map (usesOf prog) (op_results op))"

lemma usesOf_prog: "(user, i) \<in> set (usesOf prog v) \<Longrightarrow>
    user \<in> set prog \<and> i < length (op_operands user) \<and> op_operands user ! i = v"
  by (auto simp: usesOf_def)

lemma usesOf_iff: "(user, i) \<in> set (usesOf prog v) \<longleftrightarrow>
    user \<in> set prog \<and> i < length (op_operands user) \<and> op_operands user ! i = v"
  by (auto simp: usesOf_def)

lemma resultUses_iff: "(user, i) \<in> set (resultUses prog op) \<longleftrightarrow>
    user \<in> set prog \<and> i < length (op_operands user) \<and> op_operands user ! i \<in> set (op_results op)"
  by (auto simp: resultUses_def usesOf_iff)

function reachesStoreWriteData :: "op_info list \<Rightarrow> nat set \<Rightarrow> (op_info \<times> nat) list \<Rightarrow> bool" where
  "reachesStoreWriteData prog seen [] = False"
| "reachesStoreWriteData prog seen ((user, operandNumber) # rest) =
     (if operandNumber = 1 \<and> isWideStoreWriteDataOp user then True
      else if \<not> hasTrait user NoMachineInst \<or> op_id user \<in> seen
      then reachesStoreWriteData prog seen rest
      else reachesStoreWriteData prog (insert (op_id user) seen)
             (resultUses prog user @ rest))"
  by pat_completeness auto

termination
proof (relation "measures [\<lambda>(prog, seen, todo).
    card ((op_id ` set prog \<union> op_id ` fst ` set todo) - seen), \<lambda>(_, _, todo). length todo]",
    goal_cases)
  case 1
  then show ?case by simp
next
  case (2 prog seen user i rest)
  let ?old = "(op_id ` set prog \<union> op_id ` fst ` set ((user, i) # rest)) - seen"
  let ?new = "(op_id ` set prog \<union> op_id ` fst ` set rest) - seen"
  have "card ?new \<le> card ?old" by (intro card_mono) auto
  then show ?case by (auto simp: le_less)
next
  case (3 prog seen user i rest)
  let ?old = "(op_id ` set prog \<union> op_id ` fst ` set ((user, i) # rest)) - seen"
  let ?new = "(op_id ` set prog \<union> op_id ` fst ` set (resultUses prog user @ rest)) -
    insert (op_id user) seen"
  have "op_id ` fst ` set (resultUses prog user) \<subseteq> op_id ` set prog"
    by (auto simp: resultUses_iff)
  then have "?new \<subseteq> ?old - {op_id user}" by auto
  moreover have "op_id user \<in> ?old" using 3 by auto
  ultimately have "?new \<subset> ?old" by blast
  then have "card ?new < card ?old" by (intro psubset_card_mono) simp_all
  then show ?case by simp
qed

definition producesStoreWriteData :: "op_info list \<Rightarrow> op_info \<Rightarrow> bool" where
  "producesStoreWriteData prog op =
     (if \<not> hasTrait op VALUOp then False
      else reachesStoreWriteData prog {} (resultUses prog op))"

definition hasMemoryTokenOperand :: "op_info \<Rightarrow> bool" where
  "hasMemoryTokenOperand op = list_ex isMemToken (op_operands op)"

definition consumesM0ThroughHazard :: "op_info \<Rightarrow> bool" where
  "consumesM0ThroughHazard op =
     (if \<not> list_ex (\<lambda>v. val_type v = M0Type) (op_operands op) then False
      else if hasTrait op LDSDmaOp then True
      else isaOp op [''DsLoadAddTidB32Op'', ''DsStoreAddTidB32Op''])"

definition writesM0ThroughHazard :: "op_info \<Rightarrow> bool" where
  "writesM0ThroughHazard op = hasTrait op M0WriteHazardOpInterface"

definition getStoreWriteDataHazard :: "op_info \<Rightarrow> isa_version \<Rightarrow> (op_value \<times> nat) option" where
  "getStoreWriteDataHazard op isa =
     (if \<not> isWideStoreWriteDataOp op then None
      else
        let hazard = (if isCDNA3Or4 isa
              then case getWideBufferStoreSoffset (op_class op) of
                     Some soffset \<Rightarrow> if isSGPROffset soffset then 1 else 2
                   | None \<Rightarrow> 2
              else 1)
        in Some (op_operands op ! 1, hazard))"

definition getValuWriteVGPRMfmaHazardLatency :: nat where
  "getValuWriteVGPRMfmaHazardLatency = 2"

definition getInstructionIssueSlotHazardConfig :: "isa_version \<Rightarrow> issue_slot_hazard_config" where
  "getInstructionIssueSlotHazardConfig isa =
     (if isCDNA3Or4 isa
      then \<lparr>valuWriteVGPRScalarRead = 1,
            valuWriteVGPRMfmaRead = getValuWriteVGPRMfmaHazardLatency,
            valuWriteVGPRPermlane32Swap =
              (if VPermlane32SwapB32TupleOp_isSupportedOnIsa isa then 2 else 0),
            valuWriteSGPRValuRead = 2, transWriteVGPRValuRead = 1\<rparr>
      else noSlotHazards)"

definition getXdlResultHazardLatency :: "isa_version \<Rightarrow> nat \<Rightarrow> nat" where
  "getXdlResultHazardLatency isa passes =
     (if Major isa = 9 \<and> Minor isa = 4 then passes + 3
      else if Major isa = 9 \<and> Minor isa = 5 then passes + 3 + (if passes \<noteq> 2 then 1 else 0)
      else 8)"

definition getXdlSrcCOverlapHazardLatency :: "isa_version \<Rightarrow> nat \<Rightarrow> nat" where
  "getXdlSrcCOverlapHazardLatency isa passes =
     (if Major isa = 9 \<and> Minor isa = 4 then passes + 1
      else if Major isa = 9 \<and> Minor isa = 5 then passes + 2
      else 6)"

definition getXdlSrcCExactHazardLatency :: "isa_version \<Rightarrow> nat \<Rightarrow> nat" where
  "getXdlSrcCExactHazardLatency isa passes =
     (if Major isa = 9 \<and> (Minor isa = 4 \<or> Minor isa = 5) \<and> passes = 2 then 2 else 0)"

definition isXdlResultHazardConsumer :: "op_info \<Rightarrow> bool" where
  "isXdlResultHazardConsumer op \<longleftrightarrow> hasTrait op VMEMLoadOp \<or> hasTrait op VMEMStoreOp \<or>
     wi_event (getWaitcntInfo op) = EventLds \<or> isLegacyVALU op"

definition isInstructionExecutionStateArchSupported :: "llvm_env \<Rightarrow> isa_version \<Rightarrow> bool" where
  "isInstructionExecutionStateArchSupported env isa \<longleftrightarrow>
     isaEq isa \<lparr>Major = 9, Minor = 4, Stepping = 2\<rparr> \<or>
     isaEq isa \<lparr>Major = 9, Minor = 5, Stepping = 0\<rparr> \<or> Major isa = 11 \<or>
     isaEq isa (getGfx1250IsaVersion env)"

definition waitsForMemoryTokenDepsBeforeIssue :: "op_info \<Rightarrow> bool" where
  "waitsForMemoryTokenDepsBeforeIssue op =
     (if \<not> hasMemoryTokenOperand op then False
      else if isaOp op [''ClusterBarrierOp'', ''SBarrierOp'', ''SBarrierSignalIsFirstOp'',
                        ''SBarrierSignalOp'', ''BarrierArriveOp''] then True
      else if hasTrait op LDSDmaOp then True
      else if hasTrait op VMEMStoreOp \<or> hasTrait op LDSStoreOp then True
      else False)"

subsection \<open>Counters, event classes and pipes\<close>

fun toInstructionCounter :: "MemoryCounterKind \<Rightarrow> InstructionWaitCounterKind" where
  "toInstructionCounter MemoryCounterVmem = WaitVmem"
| "toInstructionCounter MemoryCounterLgkm = WaitLgkm"
| "toInstructionCounter MemoryCounterVscnt = WaitVscnt"
| "toInstructionCounter MemoryCounterAsync = WaitAsync"
| "toInstructionCounter MemoryCounterTensor = WaitTensor"
| "toInstructionCounter MemoryCounterNone = WaitNone"

definition eventClasses :: "(WaitcntEvent \<times> InstructionEventClass) list" where
  "eventClasses =
     [(EventVmem, VmemLoad), (EventFlat, VmemLoad), (EventVmemStore, VmemStore),
      (EventScratchStore, VmemStore), (EventLds, LdsDs), (EventGds, LdsDs),
      (EventMessage, Message), (EventSccWrite, Message), (EventSmem, Smem),
      (EventAsync, Async), (EventTensor, Tensor), (EventNone, ClassNone)]"

definition toInstructionEventClass :: "op_info \<Rightarrow> InstructionEventClass result" where
  "toInstructionEventClass op =
     (case map_of eventClasses (wi_event (getWaitcntInfo op)) of
        None \<Rightarrow> Inl (Unreachable ''unsupported wait event'')
      | Some c \<Rightarrow> Inr c)"

fun pipeForFunctionalUnit :: "FunctionalUnit \<Rightarrow> InstructionPipeKind" where
  "pipeForFunctionalUnit VALU = PipeVALU"
| "pipeForFunctionalUnit SALU = PipeSALU"
| "pipeForFunctionalUnit VMEM = PipeNone"
| "pipeForFunctionalUnit LGKM = PipeNone"
| "pipeForFunctionalUnit MFMA_XDL = PipeXDL"
| "pipeForFunctionalUnit TRANS = PipeVALU"
| "pipeForFunctionalUnit BRANCH = PipeSALU"
| "pipeForFunctionalUnit EXPORT = PipeNone"
| "pipeForFunctionalUnit NoFunctionalUnit = PipeNone"

definition pipeFor :: "llvm_env \<Rightarrow> arch_data \<Rightarrow> SchedClass \<Rightarrow> InstructionPipeKind result" where
  "pipeFor env arch cls =
     (if cls = NoInst \<or> cls = WaitcntPseudo then Inr PipeNone
      else bindR (funit env arch cls) (\<lambda>fu. Inr (pipeForFunctionalUnit fu)))"

text \<open>The missing equations are \<^verbatim>\<open>llvm_unreachable\<close>: every caller guards against them.\<close>

fun counterIndex :: "InstructionWaitCounterKind \<Rightarrow> nat" where
  "counterIndex WaitVmem = 0"
| "counterIndex WaitLgkm = 1"
| "counterIndex WaitVscnt = 2"
| "counterIndex WaitExpcnt = 3"
| "counterIndex WaitTensor = 4"
| "counterIndex WaitAsync = 5"

fun resourceForPipe :: "InstructionPipeKind \<Rightarrow> InstructionResourceKind" where
  "resourceForPipe PipeVALU = ValuPipe"
| "resourceForPipe PipeSALU = SaluPipe"
| "resourceForPipe PipeXDL = XdlPipe"
| "resourceForPipe PipeNone = ResNone"

fun pipeIndex :: "InstructionPipeKind \<Rightarrow> nat" where
  "pipeIndex PipeVALU = 0"
| "pipeIndex PipeSALU = 1"
| "pipeIndex PipeXDL = 2"

definition kMemoryIssueResources :: "MemoryIssueResource list" where
  "kMemoryIssueResources = [ResVmemLoad, ResVmemStore, ResLdsDmaAccept, ResLds, ResSmem]"

fun pipeLimit :: "execution_config \<Rightarrow> InstructionPipeKind \<Rightarrow> nat" where
  "pipeLimit config PipeVALU = valuMaxInFlight config"
| "pipeLimit config PipeSALU = saluMaxInFlight config"
| "pipeLimit config PipeXDL = xdlMaxInFlight config"
| "pipeLimit config PipeNone = 0"

definition maxInFlightForPipe :: "execution_config \<Rightarrow> InstructionPipeKind \<Rightarrow> nat" where
  "maxInFlightForPipe config pipe =
     (if \<not> enablePipeBackpressure config then 0 else pipeLimit config pipe)"

definition maxInFlightForMemoryIssue :: "arch_data \<Rightarrow> MemoryIssueResource \<Rightarrow> nat" where
  "maxInFlightForMemoryIssue arch resource =
     (if resource = ResLdsDmaAccept then to_u32 (ldsDmaIssueQueueDepth arch) else 0)"

definition memoryIssueLatency :: "arch_data \<Rightarrow> MemoryIssueResource \<Rightarrow> int" where
  "memoryIssueLatency arch resource =
     (if resource = ResLdsDmaAccept then ldsDmaIssueLatency arch else 0)"

definition appendUniqueEvents :: "nat list \<Rightarrow> nat list \<Rightarrow> nat list" where
  "appendUniqueEvents evs appended =
     fold (\<lambda>i evs. if i \<in> set evs then evs else evs @ [i]) appended evs"

definition kMaxNopCycles :: int where
  "kMaxNopCycles = 16"

definition getDmaIssueDelayNopSpan :: "int \<Rightarrow> int \<Rightarrow> int" where
  "getDmaIssueDelayNopSpan cycles period =
     (let fullChunks = cycles sdiv kMaxNopCycles;
          remainder = cycles smod kMaxNopCycles;
          span = saturatingMultiply fullChunks (max kMaxNopCycles period)
      in if remainder \<noteq> 0 then saturatingAdd span (max remainder period) else span)"

definition getLdsDmaServiceInterval :: "arch_data \<Rightarrow> int \<Rightarrow> nat \<Rightarrow> int" where
  "getLdsDmaServiceInterval arch period waveStreams =
     (if ldsDmaIssueQueueDepth arch \<le> 0 \<or> ldsDmaIssueLatency arch \<le> 0 then 0
      else
        let serviceWidth = saturatingMultiply (ldsDmaIssueQueueDepth arch)
              (int (max 1 waveStreams));
            interval = ldsDmaIssueLatency arch sdiv serviceWidth
        in max period (interval sdiv period * period))"

subsection \<open>Construction\<close>

definition init_es :: "arch_data \<Rightarrow> execution_config \<Rightarrow> wave_state" where
  "init_es arch config =
     \<lparr>valueReadyAt = Map.empty, issueSlotHazards = Map.empty, valueEvent = Map.empty,
      tokenEvents = Map.empty, pendingEvents = Map.empty, waitQueues = replicate 6 [],
      pipeQueues = replicate 3 [], memoryIssueQueues = replicate 5 [], es_config = config,
      es_arch = arch,
      issueSlotHazardConfig = getInstructionIssueSlotHazardConfig (arch_isa arch),
      currentCycle = 0, nextLdsDmaIssueCycle = 0, mfmaCoissueReadyCycle = 0,
      coexecWindowSlots = 0, coexecProducerRun = 0, currentIssueSlot = 0, nextEventId = 1,
      storeDataGap = 0, m0DmaCaptureGapArmed = False, m0GapArmed = False\<rparr>"

definition getIssuePeriod :: "wave_state \<Rightarrow> int" where
  "getIssuePeriod s =
     (if issuePeriod (es_config s) > 0 then issuePeriod (es_config s)
      else max 1 (simdIssuePeriod (es_arch s)))"

definition getInstructionSpan :: "wave_state \<Rightarrow> instruction_desc \<Rightarrow> int" where
  "getInstructionSpan s desc =
     (if instructionSpan desc \<noteq> 0 then instructionSpan desc
      else int (instructionIssueCount desc) * getIssuePeriod s)"

subsection \<open>Description of an operation\<close>

definition to_u64 :: "int \<Rightarrow> nat" where
  "to_u64 i = nat (i mod 18446744073709551616)"

definition emptyDesc :: instruction_desc where
  "emptyDesc =
     \<lparr>latency = 0, memoryCounterLatency = 0, memoryValueLatency = 0, instructionSpan = 0,
      resourceDuration = 0, issueSlots = 1, instructionIssueCount = 1, counterIssueCount = 0,
      storeDataHazardLatency = 0, mfmaPasses = 0, coexecution = noCoexecution,
      desc_pipe = PipeNone, memoryIssueResources = 0, desc_counter = WaitNone,
      eventClass = ClassNone, noMachineInst = False, desc_waitcnt = False, legacyVALU = False,
      desc_trans = False, mfmaCoissueResource = False, laneRead = False, ldsDmaIssue = False,
      m0Writer = False, m0Consumer = False, storeDataProducer = False,
      waitsForTokenDeps = False, hasMemoryValue = False, resultReadyAtEnd = False\<rparr>"

definition skipsDelay :: "execution_config \<Rightarrow> op_value option \<Rightarrow> bool" where
  "skipsDelay config skip \<longleftrightarrow>
     skip \<noteq> None \<and> dmaIssueDelayCohortPolicy config = Skipped"

definition configureDmaIssueDelay :: "wave_state \<Rightarrow> op_info \<Rightarrow> instruction_desc \<Rightarrow>
    instruction_desc" where
  "configureDmaIssueDelay s op desc =
     (case op_class op of
        DmaIssueDelayOp dependency skip cycles overlap \<Rightarrow>
          let period = getIssuePeriod s;
              desc' = desc\<lparr>latency := 0, resultReadyAtEnd := True\<rparr>
          in if skipsDelay (es_config s) skip
             then desc'\<lparr>issueSlots := 1, instructionSpan := period\<rparr>
             else
               let span = getDmaIssueDelayNopSpan cycles period
               in desc'\<lparr>issueSlots :=
                          wrap_u64 (to_u64 cycles + (if skip \<noteq> None then 1 else 0)),
                        instructionSpan :=
                          (if skip \<noteq> None then saturatingAdd period span else span)\<rparr>
      | _ \<Rightarrow> desc)"

text \<open>The memory part of \<^verbatim>\<open>describe\<close>: the counter of the operation and its latencies.\<close>

definition describeMemory :: "llvm_env \<Rightarrow> wave_state \<Rightarrow> op_info \<Rightarrow> instruction_desc \<Rightarrow>
    instruction_desc result" where
  "describeMemory env s op desc =
     bindR (getMemoryCounterKind op) (\<lambda>memoryCounter.
     bindR (toInstructionEventClass op) (\<lambda>evClass.
       let desc = desc\<lparr>desc_counter := toInstructionCounter memoryCounter,
                       eventClass := evClass\<rparr>;
           config = es_config s
       in if memoryCounter = MemoryCounterNone then Inr desc
          else
            bindR (getMemoryCounterLatency env (es_arch s) op (counterLatencies config)
                     (calibration config)) (\<lambda>counterLatency.
              let desc = desc\<lparr>memoryCounterLatency := counterLatency,
                              hasMemoryValue := hasMemoryValueLatency op\<rparr>
              in if hasMemoryValue desc then
                   bindR (getMemoryValueLatency env (es_arch s) op (counterLatencies config)
                            (valueLatencies config) (calibration config)) (\<lambda>valueLatency.
                     Inr (desc\<lparr>memoryValueLatency := valueLatency\<rparr>))
                 else Inr desc)))"

definition describe :: "llvm_env \<Rightarrow> op_info list \<Rightarrow> wave_state \<Rightarrow> op_info \<Rightarrow>
    instruction_desc result" where
  "describe env prog s op =
     (let cls = classifyOp op; arch = es_arch s; wavefront = wavefrontSize (es_config s) in
      if \<not> isSchedClassSupported env arch cls then Inl Failure
      else
        bindR (pipeFor env arch cls) (\<lambda>pipe.
        bindR (getResourceCycles env arch cls) (\<lambda>duration.
        bindR (getInstructionIssueCount env op (arch_isa arch) wavefront) (\<lambda>issues.
        bindR (getInstructionCoexecutionModel env op cls arch wavefront) (\<lambda>coexec.
        bindR (getConfiguredLatency env arch cls (calibration (es_config s))) (\<lambda>lat.
        bindR (getMemoryIssueResources op) (\<lambda>resources.
          let desc = emptyDesc
                \<lparr>desc_waitcnt := hasTrait op WaitcntOp,
                 ldsDmaIssue := hasTrait op LDSDmaOp,
                 m0Writer := writesM0ThroughHazard op,
                 m0Consumer := consumesM0ThroughHazard op,
                 storeDataHazardLatency :=
                   (case getStoreWriteDataHazard op (arch_isa arch) of
                      Some (data, hazard) \<Rightarrow> hazard | None \<Rightarrow> 0),
                 storeDataProducer :=
                   (if storeDataGap s \<noteq> 0 then producesStoreWriteData prog op else False),
                 waitsForTokenDeps := waitsForMemoryTokenDepsBeforeIssue op,
                 noMachineInst := cls = NoInst,
                 legacyVALU := isLegacyVALU op,
                 desc_trans := cls = WriteTrans32,
                 laneRead := isLegacyVALU op \<and> hasRegClass (op_operands op) VGPR \<and>
                   hasOnlyRegClass (op_results op) SGPR,
                 desc_pipe := pipe,
                 resourceDuration := duration,
                 mfmaCoissueResource := usesMfmaCoissueResource op cls arch,
                 instructionIssueCount := issues,
                 coexecution := coexec,
                 counterIssueCount := wi_issueCount (getWaitcntInfo op),
                 issueSlots := issues,
                 mfmaPasses := (if hasTrait op MFMAOp then getMfmaPassCount cls else 0),
                 latency := lat\<rparr>
          in describeMemory env s op
               ((configureDmaIssueDelay s op desc)\<lparr>memoryIssueResources := resources\<rparr>))))))))"

end
