(* ===== verification/Execution_Query.thy ===== *)
theory Execution_Query
  imports Execution_State "HOL-Library.Product_Lexorder"
begin

text \<open>
  The queries of \<^verbatim>\<open>InstructionExecutionState.cpp\<close>: when the operands, tokens, counters,
  pipes and memory issue queues let an operation issue, its issue-slot hazards, the shared
  resources it uses, and the stall that combines them.
\<close>

subsection \<open>Stalls\<close>

definition noStall :: instruction_stall where
  "noStall = \<lparr>stall_kind = StallNone, stall_cycles = 0, components = []\<rparr>"

definition addComponent :: "InstructionStallKind \<Rightarrow> int \<Rightarrow> InstructionResourceKind \<Rightarrow>
    InstructionResourceScope \<Rightarrow> instruction_stall \<Rightarrow> instruction_stall" where
  "addComponent kind cycles resource scope st =
     (if cycles \<le> 0 then st
      else
        let st' = st\<lparr>components := components st @
              [\<lparr>comp_kind = kind, comp_cycles = cycles, comp_resource = resource,
                comp_scope = scope\<rparr>]\<rparr>
        in if cycles > stall_cycles st' then st'\<lparr>stall_cycles := cycles, stall_kind := kind\<rparr>
           else st')"

definition addWaveComponent :: "InstructionStallKind \<Rightarrow> int \<Rightarrow> instruction_stall \<Rightarrow>
    instruction_stall" where
  "addWaveComponent kind cycles = addComponent kind cycles ResNone ScopeWave"

definition getIssueHazardWait :: "instruction_stall \<Rightarrow> nat" where
  "getIssueHazardWait st =
     fold (\<lambda>c wait. if comp_kind c \<in> {InstructionHazard, M0ReadWrite, StoreWriteData}
                    then max wait (to_u32 (comp_cycles c)) else wait) (components st) 0"

subsection \<open>Pending events\<close>

definition hasPendingEvent :: "wave_state \<Rightarrow> nat \<Rightarrow> int \<Rightarrow> bool" where
  "hasPendingEvent s i cycle =
     (case pendingEvents s i of None \<Rightarrow> False | Some ev \<Rightarrow> retireCycle ev > cycle)"

definition waitQueue :: "wave_state \<Rightarrow> InstructionWaitCounterKind \<Rightarrow> nat list" where
  "waitQueue s kind = waitQueues s ! counterIndex kind"

definition getPendingMemoryEventCount :: "wave_state \<Rightarrow> InstructionWaitCounterKind \<Rightarrow> nat" where
  "getPendingMemoryEventCount s kind =
     (if kind = WaitNone then 0
      else length (filter (\<lambda>i. hasPendingEvent s i (currentCycle s)) (waitQueue s kind)))"

definition getPipeInFlightCount :: "wave_state \<Rightarrow> InstructionPipeKind \<Rightarrow> nat" where
  "getPipeInFlightCount s kind =
     (if kind = PipeNone then 0
      else length (filter (\<lambda>ready. ready > currentCycle s) (pipeQueues s ! pipeIndex kind)))"

definition getValueReadyCycle :: "wave_state \<Rightarrow> op_value \<Rightarrow> int" where
  "getValueReadyCycle s v =
     (case valueReadyAt s v of None \<Rightarrow> currentCycle s | Some ready \<Rightarrow> ready)"

definition getResourceCapacities :: "execution_config \<Rightarrow> resource_capacities" where
  "getResourceCapacities config =
     (if \<not> enablePipeBackpressure config
      then \<lparr>cap_valuPipe = 0, cap_saluPipe = 0, cap_xdlPipe = 0\<rparr>
      else \<lparr>cap_valuPipe = valuMaxInFlight config, cap_saluPipe = saluMaxInFlight config,
            cap_xdlPipe = xdlMaxInFlight config\<rparr>)"

subsection \<open>Counters\<close>

text \<open>The loop that collects the pending events of one counter queue.\<close>

fun collectPending :: "wave_state \<Rightarrow> InstructionWaitCounterKind \<Rightarrow> nat \<Rightarrow> int \<Rightarrow>
    InstructionEventClass list \<Rightarrow> nat list \<Rightarrow> pending_event list \<Rightarrow>
    pending_event list result" where
  "collectPending s kind limit cycle classes [] pending = Inr pending"
| "collectPending s kind limit cycle classes (i # ids) pending =
     (case pendingEvents s i of
        None \<Rightarrow> collectPending s kind limit cycle classes ids pending
      | Some ev \<Rightarrow>
          if retireCycle ev \<le> cycle then collectPending s kind limit cycle classes ids pending
          else if classes \<noteq> [] \<and> ev_class ev \<notin> set classes
          then collectPending s kind limit cycle classes ids pending
          else if kind = WaitLgkm \<and> limit \<noteq> 0 \<and> ev_class ev = Smem then Inl Failure
          else collectPending s kind limit cycle classes ids (pending @ [ev]))"

definition counterReadyCycle :: "wave_state \<Rightarrow> InstructionWaitCounterKind \<Rightarrow> nat \<Rightarrow> int \<Rightarrow>
    InstructionEventClass list \<Rightarrow> int result" where
  "counterReadyCycle s kind limit cycle classes =
     bindR (collectPending s kind limit cycle classes (waitQueue s kind) []) (\<lambda>pending.
       if length pending \<le> limit then Inr cycle
       else Inr (retireCycle
         (sort_key (\<lambda>ev. (retireCycle ev, ev_id ev)) pending ! (length pending - limit - 1))))"

definition combineCounterReadyCycle :: "wave_state \<Rightarrow> InstructionWaitCounterKind \<Rightarrow>
    nat option \<Rightarrow> int \<Rightarrow> InstructionEventClass list \<Rightarrow> int \<Rightarrow> int result" where
  "combineCounterReadyCycle s kind limit cycle classes ready =
     (case limit of
        None \<Rightarrow> Inr ready
      | Some n \<Rightarrow>
          bindR (counterReadyCycle s kind n cycle classes) (\<lambda>counterReady.
            Inr (max ready counterReady)))"

definition waitcntReadyCycle :: "wave_state \<Rightarrow> op_info \<Rightarrow> int \<Rightarrow> int result" where
  "waitcntReadyCycle s op cycle =
     (case op_class op of
        SWaitcntVscntOp vs \<Rightarrow> counterReadyCycle s WaitVscnt vs cycle []
      | SWaitcntOp vm ex lg \<Rightarrow>
          bindR (combineCounterReadyCycle s WaitVmem vm cycle [] cycle) (\<lambda>ready.
          bindR (combineCounterReadyCycle s WaitLgkm lg cycle [] ready) (\<lambda>ready.
          combineCounterReadyCycle s WaitExpcnt ex cycle [] ready))
      | SWaitcntSplitOp load store ds km x as tn \<Rightarrow>
          if x \<noteq> None then Inl Failure
          else
            bindR (combineCounterReadyCycle s WaitVmem load cycle [VmemLoad] cycle) (\<lambda>ready.
            bindR (combineCounterReadyCycle s WaitVscnt store cycle [VmemStore] ready) (\<lambda>ready.
            bindR (combineCounterReadyCycle s WaitLgkm ds cycle [LdsDs] ready) (\<lambda>ready.
            bindR (combineCounterReadyCycle s WaitLgkm km cycle [Smem, Message] ready) (\<lambda>ready.
            bindR (combineCounterReadyCycle s WaitAsync as cycle [Async] ready) (\<lambda>ready.
            combineCounterReadyCycle s WaitTensor tn cycle [Tensor] ready)))))
      | _ \<Rightarrow> Inr cycle)"

subsection \<open>Operands and tokens\<close>

definition operandStep :: "wave_state \<Rightarrow> op_info \<Rightarrow> nat \<times> op_value \<Rightarrow>
    int \<times> InstructionStallKind \<Rightarrow> int \<times> InstructionStallKind" where
  "operandStep s op indexed acc =
     (let (operandIndex, operand) = indexed; (ready, kind) = acc in
        if isMemToken operand then (ready, kind)
        else
          let exactMfmaSrcC = hasTrait op MFMAOp \<and> operandIndex = 2 \<and>
                (case issueSlotHazards s operand of None \<Rightarrow> False
                 | Some h \<Rightarrow> mfmaSrcCExactReadyAt h \<noteq> 0)
          in if exactMfmaSrcC then (ready, kind)
             else case valueReadyAt s operand of
                    None \<Rightarrow> (ready, kind)
                  | Some r \<Rightarrow>
                      if r \<le> ready then (ready, kind)
                      else (r, if valueEvent s operand \<noteq> None then MemoryValue else kind))"

definition operandReadyCycle :: "wave_state \<Rightarrow> op_info \<Rightarrow> int \<times> InstructionStallKind" where
  "operandReadyCycle s op =
     fold (operandStep s op) (enumerate 0 (op_operands op)) (currentCycle s, OperandValue)"

definition issueReadyCycle :: "wave_state \<Rightarrow> op_info \<Rightarrow> int \<times> InstructionStallKind" where
  "issueReadyCycle s op =
     (let (ready, kind) = operandReadyCycle s op in
      case op_class op of
        DmaIssueDelayOp dependency skip cycles overlap \<Rightarrow>
          (case valueReadyAt s dependency of
             None \<Rightarrow> (ready, kind)
           | Some r \<Rightarrow> (max ready (saturatingAdd r overlap), kind))
      | _ \<Rightarrow> (ready, kind))"

definition collectTokenDeps :: "wave_state \<Rightarrow> op_info \<Rightarrow> nat list" where
  "collectTokenDeps s op =
     (if dropsTokenCompletion op then []
      else fold (\<lambda>operand deps.
             if \<not> isMemToken operand then deps
             else case tokenEvents s operand of
                    None \<Rightarrow> deps
                  | Some evs \<Rightarrow> appendUniqueEvents deps evs) (op_operands op) [])"

definition eventsReady :: "wave_state \<Rightarrow> nat list \<Rightarrow> int \<Rightarrow> int" where
  "eventsReady s ids ready =
     fold (\<lambda>i ready. case pendingEvents s i of
                       None \<Rightarrow> ready
                     | Some ev \<Rightarrow> max ready (retireCycle ev)) ids ready"

definition tokenReadyCycle :: "wave_state \<Rightarrow> op_info \<Rightarrow> int" where
  "tokenReadyCycle s op = eventsReady s (collectTokenDeps s op) (currentCycle s)"

definition getTokenReadyCycle :: "wave_state \<Rightarrow> op_info \<Rightarrow> nat list \<Rightarrow> int" where
  "getTokenReadyCycle s op newEvents =
     eventsReady s newEvents (eventsReady s (collectTokenDeps s op) (currentCycle s))"

subsection \<open>Pipes and memory issue queues\<close>

definition pipeReadyCycle :: "wave_state \<Rightarrow> InstructionPipeKind \<Rightarrow> int \<Rightarrow> int" where
  "pipeReadyCycle s pipe cycle =
     (let maxInFlight = maxInFlightForPipe (es_config s) pipe in
      if pipe = PipeNone \<or> maxInFlight = 0 then cycle
      else
        let pending = filter (\<lambda>ready. ready > cycle) (pipeQueues s ! pipeIndex pipe)
        in if length pending < maxInFlight then cycle
           else sort pending ! (length pending - maxInFlight))"

definition memoryIssueReadyCycle :: "wave_state \<Rightarrow> MemoryIssueResource \<Rightarrow> nat \<Rightarrow> int \<Rightarrow> int" where
  "memoryIssueReadyCycle s resource issues cycle =
     (let maxInFlight = maxInFlightForMemoryIssue (es_arch s) resource in
      if maxInFlight = 0 \<or> memoryIssueLatency (es_arch s) resource \<le> 0 then cycle
      else
        let pending = filter (\<lambda>ready. ready > cycle)
              (memoryIssueQueues s ! memoryIssueIndex resource);
            needed = min (max 1 issues) maxInFlight
        in if length pending + needed \<le> maxInFlight then cycle
           else sort pending ! (length pending + needed - maxInFlight - 1))"

definition memoryIssuesReadyCycle :: "wave_state \<Rightarrow> resource_mask \<Rightarrow> nat \<Rightarrow> int \<Rightarrow> int" where
  "memoryIssuesReadyCycle s resources issues cycle =
     fold (\<lambda>resource ready.
       if hasMemoryIssueResource resources resource
       then max ready (memoryIssueReadyCycle s resource issues cycle) else ready)
       kMemoryIssueResources cycle"

subsection \<open>Issue-slot hazards\<close>

definition mfmaOperandReadyAt :: "op_info \<Rightarrow> instruction_desc \<Rightarrow> nat \<Rightarrow> issue_slot_hazards \<Rightarrow>
    nat" where
  "mfmaOperandReadyAt op desc operandIndex h =
     (if mfmaPasses desc = 0
      then if isXdlResultHazardConsumer op then mfmaResultReadyAt h else 0
      else if operandIndex \<noteq> 2 then mfmaResultReadyAt h
      else if mfmaSrcCExactReadyAt h \<noteq> 0 then mfmaSrcCExactReadyAt h
      else mfmaSrcCOverlapReadyAt h)"

definition mfmaIssueSlotHazardWait :: "wave_state \<Rightarrow> op_info \<Rightarrow> instruction_desc \<Rightarrow> nat \<Rightarrow>
    issue_slot_hazards \<Rightarrow> nat" where
  "mfmaIssueSlotHazardWait s op desc operandIndex h =
     (let wait = issueSlotsUntil (mfmaOperandReadyAt op desc operandIndex h) (currentIssueSlot s)
      in if mfmaPasses desc \<noteq> 0
         then max wait (issueSlotsUntil (valuWriteVGPRMfmaReadyAt h) (currentIssueSlot s))
         else wait)"

definition legacyValuIssueSlotHazardWait :: "wave_state \<Rightarrow> op_value \<Rightarrow> instruction_desc \<Rightarrow>
    issue_slot_hazards \<Rightarrow> nat" where
  "legacyValuIssueSlotHazardWait s operand desc h =
     (if \<not> legacyVALU desc \<or> config_empty (issueSlotHazardConfig s) then 0
      else
        let regClass = getRegClass operand;
            now = currentIssueSlot s;
            w1 = (if regClass = Some VGPR
                  then let w = (if \<not> desc_trans desc
                                then max 0 (issueSlotsUntil (transWriteVGPRReadyAt h) now) else 0)
                       in if laneRead desc
                          then max w (issueSlotsUntil (valuWriteVGPRScalarReadyAt h) now) else w
                  else 0)
        in if regClass = Some SGPR \<or> regClass = Some VCC
           then max w1 (issueSlotsUntil (valuWriteSGPRReadyAt h) now) else w1)"

definition permlane32SwapIssueSlotHazardWait :: "wave_state \<Rightarrow> op_info \<Rightarrow> issue_slot_hazards \<Rightarrow>
    nat" where
  "permlane32SwapIssueSlotHazardWait s op h =
     (if \<not> isaOp op [''VPermlane32SwapB32TupleOp''] then 0
      else issueSlotsUntil (valuWriteVGPRPermlane32SwapReadyAt h) (currentIssueSlot s))"

definition operandHazardWait :: "wave_state \<Rightarrow> op_info \<Rightarrow> instruction_desc \<Rightarrow> nat \<times> op_value \<Rightarrow>
    nat \<Rightarrow> nat" where
  "operandHazardWait s op desc indexed wait =
     (let (operandIndex, operand) = indexed in
      case issueSlotHazards s operand of
        None \<Rightarrow> wait
      | Some h \<Rightarrow>
          max (max (max wait (mfmaIssueSlotHazardWait s op desc operandIndex h))
                   (legacyValuIssueSlotHazardWait s operand desc h))
              (permlane32SwapIssueSlotHazardWait s op h))"

definition issueSlotHazardWait :: "wave_state \<Rightarrow> op_info \<Rightarrow> instruction_desc \<Rightarrow> nat" where
  "issueSlotHazardWait s op desc =
     fold (operandHazardWait s op desc) (enumerate 0 (op_operands op)) 0"

definition addIssueHazards :: "wave_state \<Rightarrow> op_info \<Rightarrow> instruction_desc \<Rightarrow> instruction_stall \<Rightarrow>
    instruction_stall" where
  "addIssueHazards s op desc st =
     (let st1 = (if m0Consumer desc \<and> m0GapArmed s \<or> m0Writer desc \<and> m0DmaCaptureGapArmed s
                 then addWaveComponent M0ReadWrite 1 st else st);
          st2 = (if storeDataProducer desc \<and> storeDataGap s \<noteq> 0
                 then addWaveComponent StoreWriteData (int (storeDataGap s)) st1 else st1)
      in addWaveComponent InstructionHazard (int (issueSlotHazardWait s op desc)) st2)"

subsection \<open>Shared resources\<close>

definition appendIssueResourceUses :: "wave_state \<Rightarrow> nat \<Rightarrow> int \<Rightarrow> int \<Rightarrow> resource_use list \<Rightarrow>
    resource_use list" where
  "appendIssueResourceUses s n offset period uses =
     (let uses' = uses @ [\<lparr>use_kind = SimdIssue, use_scope = ScopeSIMD, use_units = 1,
            use_count = n, use_offset = offset, use_period = period,
            use_duration = getIssuePeriod s\<rparr>]
      in if issuesPerCUPerCycle (es_arch s) \<noteq> 0
         then uses' @ [\<lparr>use_kind = CuIssue, use_scope = ScopeCU, use_units = 1, use_count = n,
                use_offset = offset, use_period = period, use_duration = 1\<rparr>]
         else uses')"

definition appendDmaIssueResourceUses :: "wave_state \<Rightarrow> op_value option \<Rightarrow> int \<Rightarrow>
    resource_use list \<Rightarrow> resource_use list" where
  "appendDmaIssueResourceUses s skip cycles uses =
     (let skipped = skipsDelay (es_config s) skip;
          period = getIssuePeriod s;
          uses1 = (if skip \<noteq> None then appendIssueResourceUses s 1 0 0 uses else uses)
      in if skipped then uses1
         else
           let nopCount = to_u32 ((cycles + kMaxNopCycles - 1) sdiv kMaxNopCycles);
               nopOffset = (if skip \<noteq> None then period else 0)
           in appendIssueResourceUses s nopCount nopOffset (max kMaxNopCycles period) uses1)"

fun isDmaIssueDelay :: "op_class \<Rightarrow> bool" where
  "isDmaIssueDelay (DmaIssueDelayOp _ _ _ _) = True"
| "isDmaIssueDelay _ = False"

definition appendPipeResourceUse :: "op_info \<Rightarrow> instruction_desc \<Rightarrow> resource_state \<Rightarrow>
    resource_use list \<Rightarrow> resource_use list" where
  "appendPipeResourceUse op desc rs uses =
     (if isDmaIssueDelay (op_class op) \<or> resourceDuration desc \<le> 0 then uses
      else
        let pipe = resourceForPipe (desc_pipe desc)
        in if \<not> isEnabled rs pipe then uses
           else uses @ [\<lparr>use_kind = pipe, use_scope = getInstructionResourceScope pipe,
                  use_units = 1, use_count = 1, use_offset = 0, use_period = 0,
                  use_duration = resourceDuration desc\<rparr>])"

definition appendMfmaCoissueResourceUse :: "instruction_desc \<Rightarrow> resource_state \<Rightarrow>
    resource_use list \<Rightarrow> resource_use list" where
  "appendMfmaCoissueResourceUse desc rs uses =
     (if \<not> mfmaCoissueResource desc \<or> resourceDuration desc \<le> 0 \<or> \<not> isEnabled rs MfmaCoissue
      then uses
      else uses @ [\<lparr>use_kind = MfmaCoissue, use_scope = ScopeSIMD, use_units = 1, use_count = 1,
             use_offset = 0, use_period = 0, use_duration = resourceDuration desc\<rparr>])"

definition appendLdsResourceUses :: "wave_state \<Rightarrow> instruction_desc \<Rightarrow> resource_state \<Rightarrow> int \<Rightarrow>
    resource_use list \<Rightarrow> resource_use list" where
  "appendLdsResourceUses s desc rs period uses =
     (let mask = memoryIssueResources desc;
          usesLds = hasMemoryIssueResource mask ResLds \<or>
            hasMemoryIssueResource mask ResLdsDmaAccept;
          use = (\<lambda>kind duration. \<lparr>use_kind = kind, use_scope = ScopeSIMDPair, use_units = 1,
            use_count = instructionIssueCount desc, use_offset = 0, use_period = period,
            use_duration = duration\<rparr>);
          uses1 = (if usesLds \<and> isEnabled rs LdsIssue
                   then uses @ [use LdsIssue (ldsIssuePeriod (es_arch s))] else uses)
      in if hasMemoryIssueResource mask ResLdsDmaAccept \<and> isEnabled rs LdsDmaIssue
         then uses1 @ [use LdsDmaIssue (ldsDmaIssuePeriod (es_arch s))] else uses1)"

definition getResourceUses :: "wave_state \<Rightarrow> op_info \<Rightarrow> instruction_desc \<Rightarrow> resource_state \<Rightarrow>
    resource_use list" where
  "getResourceUses s op desc rs =
     (if noMachineInst desc then []
      else
        let period = getIssuePeriod s;
            issue = (case op_class op of
              DmaIssueDelayOp dependency skip cycles overlap \<Rightarrow>
                appendDmaIssueResourceUses s skip cycles []
            | _ \<Rightarrow> appendIssueResourceUses s (instructionIssueCount desc) 0 period [])
        in appendLdsResourceUses s desc rs period
             (appendMfmaCoissueResourceUse desc rs (appendPipeResourceUse op desc rs issue)))"

definition addSharedResourceStall :: "wave_state \<Rightarrow> op_info \<Rightarrow> instruction_desc \<Rightarrow>
    resource_state \<Rightarrow> wave_placement \<Rightarrow> instruction_stall \<Rightarrow> instruction_stall result" where
  "addSharedResourceStall s op desc rs placement st =
     (let uses = getResourceUses s op desc rs;
          resourceEarliest = saturatingAdd (currentCycle s) (stall_cycles st)
      in bindR (query_rs rs placement uses resourceEarliest) (\<lambda>resource.
           Inr (if readyCycle resource > resourceEarliest
                then addComponent IssueBackpressure (readyCycle resource - currentCycle s)
                       (query_kind resource) (query_scope resource) st
                else st)))"

subsection \<open>Query\<close>

definition addDependencyStalls :: "wave_state \<Rightarrow> op_info \<Rightarrow> instruction_desc \<Rightarrow>
    instruction_stall \<Rightarrow> instruction_stall result" where
  "addDependencyStalls s op desc st =
     (let now = currentCycle s;
          st1 = (if \<not> hasTrait op NoMachineInst
                 then let (operandsReady, kind) = issueReadyCycle s op
                      in addWaveComponent kind (operandsReady - now) st
                 else st);
          st2 = (if waitsForTokenDeps desc
                 then addWaveComponent MemoryToken (tokenReadyCycle s op - now) st1 else st1)
      in if desc_waitcnt desc
         then bindR (waitcntReadyCycle s op now) (\<lambda>waitReady.
                Inr (addWaveComponent StallWaitcnt (waitReady - now) st2))
         else Inr st2)"

definition addLocalMemoryIssueStalls :: "wave_state \<Rightarrow> instruction_desc \<Rightarrow> instruction_stall \<Rightarrow>
    instruction_stall" where
  "addLocalMemoryIssueStalls s desc st =
     addWaveComponent IssueBackpressure
       (memoryIssuesReadyCycle s (memoryIssueResources desc) (instructionIssueCount desc)
          (currentCycle s) - currentCycle s) st"

definition addLocalResourceStalls :: "wave_state \<Rightarrow> instruction_desc \<Rightarrow> instruction_stall \<Rightarrow>
    instruction_stall" where
  "addLocalResourceStalls s desc st =
     (let now = currentCycle s;
          st1 = addWaveComponent IssueBackpressure
            (pipeReadyCycle s (desc_pipe desc) now - now) st;
          st2 = (if mfmaCoissueResource desc
                 then addComponent IssueBackpressure (mfmaCoissueReadyCycle s - now)
                        MfmaCoissue ScopeSIMD st1
                 else st1);
          st3 = addLocalMemoryIssueStalls s desc st2
      in if ldsDmaIssue desc \<and> smoothLdsDmaIssue (es_config s)
         then addWaveComponent IssueBackpressure (nextLdsDmaIssueCycle s - now) st3 else st3)"

definition addCoexecStall :: "wave_state \<Rightarrow> instruction_desc \<Rightarrow> instruction_stall \<Rightarrow>
    instruction_stall" where
  "addCoexecStall s desc st =
     (if waitsForWindow (coexecution desc) \<and> coexecWindowSlots s \<noteq> 0
      then addWaveComponent CoexecWindow
             (saturatingMultiply (int (coexecWindowSlots s)) (getIssuePeriod s)) st
      else st)"

definition queryWithResources :: "wave_state \<Rightarrow> op_info \<Rightarrow> instruction_desc \<Rightarrow>
    resource_state option \<Rightarrow> wave_placement \<Rightarrow> instruction_stall result" where
  "queryWithResources s op desc rs placement =
     bindR (addDependencyStalls s op desc noStall) (\<lambda>st.
       let st1 = addCoexecStall s desc st in
       case rs of
         None \<Rightarrow> Inr (addIssueHazards s op desc (addLocalResourceStalls s desc st1))
       | Some resources \<Rightarrow>
           addSharedResourceStall s op desc resources placement
             (addIssueHazards s op desc (addLocalMemoryIssueStalls s desc st1)))"

definition validateCommitOp :: "llvm_env \<Rightarrow> op_info \<Rightarrow> arch_data \<Rightarrow> unit result" where
  "validateCommitOp env op arch =
     (if \<not> isInstructionExecutionStateArchSupported env (arch_isa arch) then Inl Failure
      else if \<not> isWaveAMDMachineOp op then Inl Failure
      else Inr ())"

definition noPlacement :: wave_placement where
  "noPlacement = \<lparr>simd = 0, slot = 0\<rparr>"

definition query_es :: "llvm_env \<Rightarrow> op_info list \<Rightarrow> wave_state \<Rightarrow> op_info \<Rightarrow>
    instruction_stall result" where
  "query_es env prog s op =
     bindR (validateCommitOp env op (es_arch s)) (\<lambda>_.
     bindR (describe env prog s op) (\<lambda>desc.
     queryWithResources s op desc None noPlacement))"

end
