(* ===== verification/Execution_Commit.thy ===== *)
theory Execution_Commit
  imports Execution_Query
begin

text \<open>
  The state changes of \<^verbatim>\<open>InstructionExecutionState.cpp\<close>: binding a value to its
  sources, advancing the clock, and committing an operation: its memory events, results,
  pipe and memory issue reservations, hazards and coexecution window.
\<close>

subsection \<open>Pruning and the clock\<close>

definition pruneRetiredEvents :: "int \<Rightarrow> wave_state \<Rightarrow> wave_state" where
  "pruneRetiredEvents cycle s =
     s\<lparr>waitQueues := map (filter (\<lambda>i. hasPendingEvent s i cycle)) (waitQueues s),
       pipeQueues := map (filter (\<lambda>ready. \<not> ready \<le> cycle)) (pipeQueues s),
       memoryIssueQueues := map (filter (\<lambda>ready. \<not> ready \<le> cycle)) (memoryIssueQueues s)\<rparr>"

definition advanceToCycle :: "int \<Rightarrow> wave_state \<Rightarrow> wave_state" where
  "advanceToCycle cycle s = pruneRetiredEvents cycle (s\<lparr>currentCycle := cycle\<rparr>)"

subsection \<open>Binding\<close>

definition bindValues_es :: "op_value \<Rightarrow> op_value list \<Rightarrow> wave_state \<Rightarrow> wave_state" where
  "bindValues_es target sources s =
     (let ready = fold (\<lambda>v ready. max ready (getValueReadyCycle s v)) sources (currentCycle s);
          sourceValueEvent = fold (\<lambda>v ev. case valueEvent s v of None \<Rightarrow> ev | Some i \<Rightarrow> Some i)
            sources None;
          tokenDeps = fold (\<lambda>v deps. case tokenEvents s v of None \<Rightarrow> deps
                                    | Some evs \<Rightarrow> appendUniqueEvents deps evs) sources [];
          joined = fold (\<lambda>v h. case issueSlotHazards s v of None \<Rightarrow> h
                               | Some h' \<Rightarrow> hazards_join h h') sources noHazards;
          hazards = (if length sources \<noteq> 1 \<or> val_type target \<noteq> val_type (hd sources)
                     then joined\<lparr>mfmaSrcCExactReadyAt := 0\<rparr> else joined)
      in s\<lparr>valueReadyAt := (valueReadyAt s)(target \<mapsto> ready),
           valueEvent := (valueEvent s)(target := sourceValueEvent),
           tokenEvents := (tokenEvents s)(target :=
             if tokenDeps \<noteq> [] then Some tokenDeps else None),
           issueSlotHazards := (issueSlotHazards s)(target :=
             if \<not> hazards_empty hazards then Some hazards else None)\<rparr>)"

definition bindValue :: "op_value \<Rightarrow> op_value \<Rightarrow> wave_state \<Rightarrow> wave_state" where
  "bindValue target src s = bindValues_es target [src] s"

definition commitNoMachineInst :: "op_info \<Rightarrow> wave_state \<Rightarrow> int \<times> wave_state" where
  "commitNoMachineInst op s =
     (let sources = (if dropsTokenCompletion op then [] else op_operands op) in
      fold (\<lambda>res (ready, s).
        let s' = bindValues_es res sources s
        in (if \<not> isMemToken res then max ready (getValueReadyCycle s' res) else ready, s'))
        (op_results op) (currentCycle s, s))"

subsection \<open>Memory events and results\<close>

definition eventAt :: "wave_state \<Rightarrow> op_info \<Rightarrow> instruction_desc \<Rightarrow> int \<Rightarrow> nat \<Rightarrow>
    pending_event" where
  "eventAt s op desc cycle issue =
     \<lparr>ev_op = op_id op, ev_id = nextEventId s,
      retireCycle = cycle + int issue * getIssuePeriod s + memoryCounterLatency desc,
      ev_counter = desc_counter desc, ev_class = eventClass desc\<rparr>"

definition commitMemoryEvent :: "op_info \<Rightarrow> instruction_desc \<Rightarrow> int \<Rightarrow> nat \<Rightarrow>
    nat list \<times> wave_state \<Rightarrow> nat list \<times> wave_state" where
  "commitMemoryEvent op desc cycle issue acc =
     (let (newEvents, s) = acc;
          i = nextEventId s;
          queue = counterIndex (desc_counter desc)
      in (newEvents @ [i],
          s\<lparr>nextEventId := i + 1,
            pendingEvents := (pendingEvents s)(i \<mapsto> eventAt s op desc cycle issue),
            waitQueues := (waitQueues s)[queue := waitQueues s ! queue @ [i]]\<rparr>))"

definition commitMemoryEvents :: "op_info \<Rightarrow> instruction_desc \<Rightarrow> int \<Rightarrow> wave_state \<Rightarrow>
    nat list \<times> wave_state" where
  "commitMemoryEvents op desc cycle s =
     (if desc_counter desc = WaitNone then ([], s)
      else fold (commitMemoryEvent op desc cycle) [0..<counterIssueCount desc] ([], s))"

definition getResultReadyCycle :: "wave_state \<Rightarrow> op_info \<Rightarrow> instruction_desc \<Rightarrow> int \<Rightarrow> int" where
  "getResultReadyCycle s op desc cycle =
     (if resultReadyAtEnd desc then saturatingAdd cycle (getInstructionSpan s desc)
      else
        let lat = (if hasMemoryValue desc then memoryValueLatency desc else latency desc)
        in if \<not> list_ex (\<lambda>v. \<not> isMemToken v) (op_results op) then cycle
           else cycle + (int (instructionIssueCount desc) - 1) * getIssuePeriod s + max 0 lat)"

definition commitResult :: "instruction_desc \<Rightarrow> int \<Rightarrow> int \<Rightarrow> nat list \<Rightarrow> nat list \<Rightarrow>
    op_value \<Rightarrow> wave_state \<Rightarrow> wave_state" where
  "commitResult desc cycle ready deps newEvents res s =
     (let resultReady = (if m0Writer desc \<and> val_type res = M0Type then cycle else ready);
          s1 = s\<lparr>valueReadyAt := (valueReadyAt s)(res \<mapsto> resultReady)\<rparr>
      in if isMemToken res then s1\<lparr>tokenEvents := (tokenEvents s1)(res \<mapsto> deps)\<rparr>
         else if newEvents \<noteq> []
         then s1\<lparr>valueEvent := (valueEvent s1)(res \<mapsto> last newEvents)\<rparr>
         else s1)"

definition commitResults :: "op_info \<Rightarrow> instruction_desc \<Rightarrow> int \<Rightarrow> nat list \<Rightarrow> wave_state \<Rightarrow>
    wave_state" where
  "commitResults op desc cycle newEvents s =
     (let deps = appendUniqueEvents (collectTokenDeps s op) newEvents;
          ready = getResultReadyCycle s op desc cycle
      in fold (commitResult desc cycle ready deps newEvents) (op_results op) s)"

subsection \<open>Pipes and memory issue\<close>

definition commitPipe :: "InstructionPipeKind \<Rightarrow> int \<Rightarrow> wave_state \<Rightarrow> wave_state" where
  "commitPipe pipe ready s =
     (if pipe = PipeNone then s
      else s\<lparr>pipeQueues := (pipeQueues s)[pipeIndex pipe :=
             pipeQueues s ! pipeIndex pipe @ [ready]]\<rparr>)"

definition commitMemoryIssueOf :: "instruction_desc \<Rightarrow> int \<Rightarrow> MemoryIssueResource \<Rightarrow>
    wave_state \<Rightarrow> wave_state" where
  "commitMemoryIssueOf desc cycle resource s =
     (if \<not> hasMemoryIssueResource (memoryIssueResources desc) resource then s
      else
        let lat = memoryIssueLatency (es_arch s) resource; queue = memoryIssueIndex resource
        in if maxInFlightForMemoryIssue (es_arch s) resource = 0 \<or> lat \<le> 0 then s
           else s\<lparr>memoryIssueQueues := (memoryIssueQueues s)[queue :=
                  memoryIssueQueues s ! queue @
                    map (\<lambda>issue. cycle + int issue * getIssuePeriod s + lat)
                      [0..<instructionIssueCount desc]]\<rparr>)"

definition commitMemoryIssue :: "instruction_desc \<Rightarrow> int \<Rightarrow> wave_state \<Rightarrow> wave_state" where
  "commitMemoryIssue desc cycle s =
     fold (commitMemoryIssueOf desc cycle) kMemoryIssueResources s"

subsection \<open>Hazards\<close>

definition updateHazards :: "op_value \<Rightarrow> (issue_slot_hazards \<Rightarrow> issue_slot_hazards) \<Rightarrow>
    wave_state \<Rightarrow> wave_state" where
  "updateHazards v f s =
     s\<lparr>issueSlotHazards := (issueSlotHazards s)(v \<mapsto>
         f (case issueSlotHazards s v of None \<Rightarrow> noHazards | Some h \<Rightarrow> h))\<rparr>"

definition slotAfter :: "wave_state \<Rightarrow> nat \<Rightarrow> nat" where
  "slotAfter s n = wrap_u64 (currentIssueSlot s + n)"

definition commitMfmaResult :: "nat \<Rightarrow> op_value \<Rightarrow> wave_state \<Rightarrow> wave_state" where
  "commitMfmaResult passes res s =
     (let isa = arch_isa (es_arch s) in
      updateHazards res (\<lambda>h. h
        \<lparr>mfmaResultReadyAt := slotAfter s (getXdlResultHazardLatency isa passes),
         mfmaSrcCOverlapReadyAt := slotAfter s (getXdlSrcCOverlapHazardLatency isa passes),
         mfmaSrcCExactReadyAt := slotAfter s (getXdlSrcCExactHazardLatency isa passes)\<rparr>) s)"

definition commitValuResult :: "instruction_desc \<Rightarrow> op_value \<Rightarrow> wave_state \<Rightarrow> wave_state" where
  "commitValuResult desc res s =
     (let config = issueSlotHazardConfig s;
          regClass = getRegClass res;
          s1 = (if regClass = Some VGPR
            then updateHazards res (\<lambda>h.
              let h1 = h\<lparr>valuWriteVGPRScalarReadyAt := slotAfter s (valuWriteVGPRScalarRead config),
                         valuWriteVGPRMfmaReadyAt := slotAfter s (valuWriteVGPRMfmaRead config)\<rparr>;
                  h2 = (if valuWriteVGPRPermlane32Swap config \<noteq> 0
                        then h1\<lparr>valuWriteVGPRPermlane32SwapReadyAt :=
                               slotAfter s (valuWriteVGPRPermlane32Swap config)\<rparr>
                        else h1)
              in if desc_trans desc
                 then h2\<lparr>transWriteVGPRReadyAt := slotAfter s (transWriteVGPRValuRead config)\<rparr>
                 else h2) s
            else s)
      in if isValuScalarHazardResult regClass
         then updateHazards res (\<lambda>h. h
                \<lparr>valuWriteSGPRReadyAt := slotAfter s (valuWriteSGPRValuRead config)\<rparr>) s1
         else s1)"

definition commitIssueSlotProducer :: "op_info \<Rightarrow> instruction_desc \<Rightarrow> wave_state \<Rightarrow>
    wave_state" where
  "commitIssueSlotProducer op desc s =
     (if mfmaPasses desc \<noteq> 0 then fold (commitMfmaResult (mfmaPasses desc)) (op_results op) s
      else fold (commitValuResult desc) (op_results op) s)"

definition commitIssueSlotHazards :: "op_info \<Rightarrow> instruction_desc \<Rightarrow> wave_state \<Rightarrow>
    wave_state" where
  "commitIssueSlotHazards op desc s =
     (if mfmaPasses desc \<noteq> 0 \<or> legacyVALU desc \<and> \<not> config_empty (issueSlotHazardConfig s)
      then commitIssueSlotProducer op desc s else s)"

definition consumeCoexecutionWait :: "instruction_desc \<Rightarrow> wave_state \<Rightarrow> wave_state" where
  "consumeCoexecutionWait desc s =
     (if waitsForWindow (coexecution desc) \<and> coexecWindowSlots s \<noteq> 0
      then s\<lparr>coexecWindowSlots := 0\<rparr> else s)"

definition commitCoexecution :: "instruction_desc \<Rightarrow> wave_state \<Rightarrow> wave_state" where
  "commitCoexecution desc s =
     (let coexec = coexecution desc in
      if filledSlots coexec \<noteq> 0
      then s\<lparr>coexecWindowSlots :=
               coexecWindowSlots s - min (coexecWindowSlots s) (filledSlots coexec),
             coexecProducerRun := 0\<rparr>
      else if openedSlots coexec = 0 then s\<lparr>coexecProducerRun := 0\<rparr>
      else
        let run = trunc_u32 (coexecProducerRun s + 1)
        in if run < producerBurst coexec then s\<lparr>coexecProducerRun := run\<rparr>
           else s\<lparr>coexecWindowSlots := openedSlots coexec, coexecProducerRun := 0\<rparr>)"

definition commitM0 :: "instruction_desc \<Rightarrow> wave_state \<Rightarrow> wave_state" where
  "commitM0 desc s =
     (let clears = desc_waitcnt desc \<or> \<not> noMachineInst desc in
      s\<lparr>m0GapArmed := (if m0Writer desc then True
                       else if clears then False else m0GapArmed s),
        m0DmaCaptureGapArmed :=
          (if ldsDmaIssue desc \<and> isCDNA4 (arch_isa (es_arch s)) then True
           else if clears then False else m0DmaCaptureGapArmed s)\<rparr>)"

definition commitStoreData :: "instruction_desc \<Rightarrow> wave_state \<Rightarrow> wave_state" where
  "commitStoreData desc s =
     (let gap = (if storeDataProducer desc \<and> storeDataGap s \<noteq> 0 then 0
                 else if \<not> noMachineInst desc \<and> storeDataGap s \<noteq> 0 then storeDataGap s - 1
                 else storeDataGap s)
      in s\<lparr>storeDataGap := max gap (storeDataHazardLatency desc)\<rparr>)"

subsection \<open>Commit\<close>

text \<open>The first part of \<^verbatim>\<open>commitWithResources\<close>: the stall is spent.\<close>

definition waitForIssue :: "instruction_desc \<Rightarrow> instruction_stall \<Rightarrow> wave_state \<Rightarrow> wave_state" where
  "waitForIssue desc st s =
     (let s1 = advanceToCycle (currentCycle s + stall_cycles st) s;
          s2 = s1\<lparr>currentIssueSlot := wrap_u64 (currentIssueSlot s1 + getIssueHazardWait st)\<rparr>
      in consumeCoexecutionWait desc s2)"

definition commitPseudo :: "op_info \<Rightarrow> instruction_desc \<Rightarrow> instruction_stall \<Rightarrow> wave_state \<Rightarrow>
    commit_result \<times> wave_state" where
  "commitPseudo op desc st s =
     (let (ready, s1) = commitNoMachineInst op s;
          s2 = commitStoreData desc (commitM0 desc s1)
      in (\<lparr>stall = st, priorityStall = st, computePriorityStall = st,
           issueCycle = currentCycle s, nextIssueCycle = currentCycle s2,
           valueReadyCycle = ready, tokenReadyCycle_res = tokenReadyCycle s2 op\<rparr>, s2))"

definition smoothLdsDma :: "instruction_desc \<Rightarrow> bool \<Rightarrow> wave_state \<Rightarrow> wave_state" where
  "smoothLdsDma desc shared s =
     (if ldsDmaIssue desc \<and> smoothLdsDmaIssue (es_config s) \<and> \<not> shared
      then s\<lparr>nextLdsDmaIssueCycle := saturatingAdd (currentCycle s)
               (getLdsDmaServiceInterval (es_arch s) (getIssuePeriod s)
                  (ldsDmaIssueWaveStreams (es_config s)))\<rparr>
      else s)"

definition commitLocalResources :: "instruction_desc \<Rightarrow> int \<Rightarrow> wave_state \<Rightarrow> wave_state" where
  "commitLocalResources desc ready s =
     (let s1 = commitPipe (desc_pipe desc) ready s
      in if mfmaCoissueResource desc
         then s1\<lparr>mfmaCoissueReadyCycle := saturatingAdd (currentCycle s) (resourceDuration desc)\<rparr>
         else s1)"

definition commitMachine :: "op_info \<Rightarrow> instruction_desc \<Rightarrow> instruction_stall \<Rightarrow>
    resource_state option \<Rightarrow> wave_placement \<Rightarrow> wave_state \<Rightarrow>
    commit_result \<times> wave_state \<times> resource_state option" where
  "commitMachine op desc st rs placement s =
     (let cycle = currentCycle s;
          (newEvents, s1) = commitMemoryEvents op desc cycle s;
          s2 = smoothLdsDma desc (rs \<noteq> None) s1;
          ready = getResultReadyCycle s2 op desc cycle;
          s3 = commitResults op desc cycle newEvents s2;
          rs' = map_option (\<lambda>r. commit_rs placement (getResourceUses s3 op desc r) cycle r) rs;
          s4 = (case rs of None \<Rightarrow> commitLocalResources desc ready s3 | Some _ \<Rightarrow> s3);
          s5 = commitMemoryIssue desc cycle s4;
          s6 = s5\<lparr>currentIssueSlot := wrap_u64 (currentIssueSlot s5 + issueSlots desc)\<rparr>;
          s7 = commitIssueSlotHazards op desc (commitCoexecution desc s6);
          s8 = commitStoreData desc (commitM0 desc s7);
          s9 = advanceToCycle (saturatingAdd cycle (getInstructionSpan s8 desc)) s8
      in (\<lparr>stall = st, priorityStall = st, computePriorityStall = st, issueCycle = cycle,
           nextIssueCycle = currentCycle s9, valueReadyCycle = ready,
           tokenReadyCycle_res = getTokenReadyCycle s9 op newEvents\<rparr>, s9, rs'))"

definition commitWithResources :: "llvm_env \<Rightarrow> op_info list \<Rightarrow> op_info \<Rightarrow>
    resource_state option \<Rightarrow> wave_placement \<Rightarrow> wave_state \<Rightarrow>
    (commit_result \<times> wave_state \<times> resource_state option) result" where
  "commitWithResources env prog op rs placement s =
     bindR (validateCommitOp env op (es_arch s)) (\<lambda>_.
     bindR (describe env prog s op) (\<lambda>desc.
     bindR (queryWithResources s op desc rs placement) (\<lambda>queried.
       let s1 = waitForIssue desc queried s
       in if noMachineInst desc
          then let (r, s2) = commitPseudo op desc queried s1 in Inr (r, s2, rs)
          else Inr (commitMachine op desc queried rs placement s1))))"

definition commit_es :: "llvm_env \<Rightarrow> op_info list \<Rightarrow> op_info \<Rightarrow> wave_state \<Rightarrow>
    (commit_result \<times> wave_state) result" where
  "commit_es env prog op s =
     bindR (commitWithResources env prog op None noPlacement s) (\<lambda>(r, s', _). Inr (r, s'))"

subsection \<open>Evaluation\<close>

text \<open>
  The same commits with every intermediate state passed as an argument instead of bound by
  \<open>let\<close>: evaluation by rewriting computes each state once before it is used.
\<close>

definition commitEnd :: "op_info \<Rightarrow> instruction_stall \<Rightarrow> int \<Rightarrow> nat list \<Rightarrow> int \<Rightarrow>
    resource_state option \<Rightarrow> wave_state \<Rightarrow> commit_result \<times> wave_state \<times> resource_state option" where
  "commitEnd op st cycle newEvents ready rs s =
     (\<lparr>stall = st, priorityStall = st, computePriorityStall = st, issueCycle = cycle,
       nextIssueCycle = currentCycle s, valueReadyCycle = ready,
       tokenReadyCycle_res = getTokenReadyCycle s op newEvents\<rparr>, s, rs)"

definition commitClock :: "instruction_desc \<Rightarrow> int \<Rightarrow> wave_state \<Rightarrow> wave_state" where
  "commitClock desc cycle s = advanceToCycle (saturatingAdd cycle (getInstructionSpan s desc)) s"

definition commitSlots :: "instruction_desc \<Rightarrow> wave_state \<Rightarrow> wave_state" where
  "commitSlots desc s = s\<lparr>currentIssueSlot := wrap_u64 (currentIssueSlot s + issueSlots desc)\<rparr>"

definition commitTail :: "op_info \<Rightarrow> instruction_desc \<Rightarrow> instruction_stall \<Rightarrow>
    resource_state option \<Rightarrow> wave_placement \<Rightarrow> int \<Rightarrow> nat list \<Rightarrow> int \<Rightarrow> wave_state \<Rightarrow>
    commit_result \<times> wave_state \<times> resource_state option" where
  "commitTail op desc st rs placement cycle newEvents ready s =
     commitEnd op st cycle newEvents ready
       (case rs of None \<Rightarrow> None
        | Some r \<Rightarrow> Some (commit_rs placement (getResourceUses s op desc r) cycle r))
       (commitClock desc cycle (commitStoreData desc (commitM0 desc
         (commitIssueSlotHazards op desc (commitCoexecution desc (commitSlots desc
           (commitMemoryIssue desc cycle
             (case rs of None \<Rightarrow> commitLocalResources desc ready s | Some _ \<Rightarrow> s))))))))"

definition commitBody :: "op_info \<Rightarrow> instruction_desc \<Rightarrow> instruction_stall \<Rightarrow>
    resource_state option \<Rightarrow> wave_placement \<Rightarrow> int \<Rightarrow> nat list \<Rightarrow> wave_state \<Rightarrow>
    commit_result \<times> wave_state \<times> resource_state option" where
  "commitBody op desc st rs placement cycle newEvents s =
     commitTail op desc st rs placement cycle newEvents (getResultReadyCycle s op desc cycle)
       (commitResults op desc cycle newEvents s)"

lemma commitMachine_code [code]:
  "commitMachine op desc st rs placement s =
     (case commitMemoryEvents op desc (currentCycle s) s of (newEvents, s1) \<Rightarrow>
        commitBody op desc st rs placement (currentCycle s) newEvents
          (smoothLdsDma desc (rs \<noteq> None) s1))"
  unfolding commitMachine_def commitBody_def commitTail_def commitEnd_def commitClock_def
    commitSlots_def Let_def
  by (cases rs) (simp_all add: split_def)

definition commitIssued :: "op_info \<Rightarrow> instruction_desc \<Rightarrow> instruction_stall \<Rightarrow>
    resource_state option \<Rightarrow> wave_placement \<Rightarrow> wave_state \<Rightarrow>
    commit_result \<times> wave_state \<times> resource_state option" where
  "commitIssued op desc st rs placement s =
     (if noMachineInst desc then (case commitPseudo op desc st s of (r, s2) \<Rightarrow> (r, s2, rs))
      else commitMachine op desc st rs placement s)"

lemma commitWithResources_code [code]:
  "commitWithResources env prog op rs placement s =
     (case validateCommitOp env op (es_arch s) of
        Inl e \<Rightarrow> Inl e
      | Inr _ \<Rightarrow>
          (case describe env prog s op of
             Inl e \<Rightarrow> Inl e
           | Inr desc \<Rightarrow>
               (case queryWithResources s op desc rs placement of
                  Inl e \<Rightarrow> Inl e
                | Inr st \<Rightarrow>
                    Inr (commitIssued op desc st rs placement (waitForIssue desc st s)))))"
  unfolding commitWithResources_def commitIssued_def bindR_def Let_def
  by (auto simp: split_def split: sum.splits)

end
