(* ===== verification/Drain.thy ===== *)
theory Drain
  imports Prelude
begin

text \<open>
  The contract of an in-order back-pressure queue. Wait counters, execution pipes and memory
  accept queues all keep the cycles at which their entries retire and answer the same
  question: from which cycle on are at most \<open>k\<close> entries outstanding? \<open>drainCycle\<close> is the
  computation they share (an order statistic of the pending cycles); the locale \<open>drain\<close> states
  the contract once, and each queue of the model is an interpretation of it.
\<close>

definition outstanding :: "int list \<Rightarrow> int \<Rightarrow> nat" where
  "outstanding retires t = length (filter (\<lambda>r. t < r) retires)"

definition drainCycle :: "nat \<Rightarrow> int \<Rightarrow> int list \<Rightarrow> int" where
  "drainCycle k c retires =
     (let pending = filter (\<lambda>r. c < r) retires in
      if length pending \<le> k then c else sort pending ! (length pending - k - 1))"

lemma outstanding_antimono: "t \<le> t' \<Longrightarrow> outstanding retires t' \<le> outstanding retires t"
  by (induction retires) (auto simp: outstanding_def)

lemma outstanding_sort [simp]: "outstanding (sort retires) t = outstanding retires t"
  by (simp add: outstanding_def filter_sort)

lemma outstanding_append [simp]:
  "outstanding (xs @ ys) t = outstanding xs t + outstanding ys t"
  by (simp add: outstanding_def)

lemma outstanding_le_length: "outstanding retires t \<le> length retires"
  by (simp add: outstanding_def)

lemma outstanding_filter: "c \<le> t \<Longrightarrow> outstanding (filter (\<lambda>r. c < r) retires) t = outstanding retires t"
  by (induction retires) (auto simp: outstanding_def)

lemma outstanding_sorted_nth:
  assumes "sorted xs" and "i < length xs"
  shows "outstanding xs (xs ! i) \<le> length xs - i - 1"
    and "t < xs ! i \<Longrightarrow> length xs - i \<le> outstanding xs t"
proof -
  have split: "xs = take i xs @ xs ! i # drop (Suc i) xs"
    by (rule id_take_nth_drop [OF assms(2)])
  have s: "sorted (take i xs @ xs ! i # drop (Suc i) xs)" using assms(1) split by simp
  then have low: "\<forall>x\<in>set (take i xs). x \<le> xs ! i" and high: "\<forall>x\<in>set (drop (Suc i) xs). xs ! i \<le> x"
    by (auto simp: sorted_append)
  have "outstanding xs (xs ! i) =
      outstanding (take i xs) (xs ! i) + outstanding (drop (Suc i) xs) (xs ! i)"
    by (subst split, simp only: outstanding_append) (simp add: outstanding_def)
  moreover have "outstanding (take i xs) (xs ! i) = 0"
    using low by (auto simp: outstanding_def filter_empty_conv)
  ultimately show "outstanding xs (xs ! i) \<le> length xs - i - 1"
    using outstanding_le_length [of "drop (Suc i) xs" "xs ! i"] by simp
  assume t: "t < xs ! i"
  have "outstanding (xs ! i # drop (Suc i) xs) t = length xs - i"
  proof -
    have "filter ((<) t) (drop (Suc i) xs) = drop (Suc i) xs"
      using t high by (auto simp: filter_id_conv)
    then show ?thesis using t assms(2) by (simp add: outstanding_def Suc_diff_Suc)
  qed
  then show "length xs - i \<le> outstanding xs t"
    by (subst split, simp only: outstanding_append)
qed

lemma drainCycle_spec:
  "c \<le> drainCycle k c retires \<and> outstanding retires (drainCycle k c retires) \<le> k \<and>
   (\<forall>t. c \<le> t \<longrightarrow> t < drainCycle k c retires \<longrightarrow> k < outstanding retires t)"
proof (cases "length (filter (\<lambda>r. c < r) retires) \<le> k")
  case True
  then show ?thesis by (simp add: drainCycle_def outstanding_def)
next
  case False
  let ?p = "filter (\<lambda>r. c < r) retires" and ?d = "drainCycle k c retires"
  define i where "i = length ?p - k - 1"
  have i: "i < length (sort ?p)" "length (sort ?p) - i = Suc k" using False by (auto simp: i_def)
  have d: "?d = sort ?p ! i" using False by (simp add: drainCycle_def i_def Let_def)
  have "sort ?p ! i \<in> set ?p" using nth_mem [OF i(1)] by simp
  then have c: "c < ?d" by (simp add: d)
  note nth = outstanding_sorted_nth [OF sorted_sort i(1)]
  have "outstanding ?p ?d \<le> k" using nth(1) i(2) by (simp add: d)
  moreover have "k < outstanding ?p t" if "t < ?d" for t
    using nth(2) [of t] that i(2) by (simp add: d)
  moreover have "outstanding ?p t = outstanding retires t" if "c \<le> t" for t
    using that by (rule outstanding_filter)
  ultimately show ?thesis using c by (metis less_imp_le)
qed

lemma drainCycle_unique:
  assumes "c \<le> d" and "outstanding retires d \<le> k"
    and "\<And>t. c \<le> t \<Longrightarrow> t < d \<Longrightarrow> k < outstanding retires t"
  shows "drainCycle k c retires = d"
proof (rule linorder_cases [of "drainCycle k c retires" d])
  assume "drainCycle k c retires < d"
  with assms(3) [of "drainCycle k c retires"] drainCycle_spec [of c k retires] show ?thesis by auto
next
  assume "d < drainCycle k c retires"
  with assms(1,2) drainCycle_spec [of c k retires] show ?thesis by auto
qed

text \<open>Forgetting entries that have retired by \<open>c\<close> does not change the answers from \<open>c\<close> on.\<close>

lemma drainCycle_prune:
  "c \<le> c' \<Longrightarrow> drainCycle k c' (filter (\<lambda>r. c < r) retires) = drainCycle k c' retires"
proof -
  assume "c \<le> c'"
  then have "filter (\<lambda>r. c' < r) (filter (\<lambda>r. c < r) retires) = filter (\<lambda>r. c' < r) retires"
    by (induction retires) auto
  then show ?thesis by (simp add: drainCycle_def)
qed

lemma drainCycle_mono_clock:
  assumes "c \<le> c'"
  shows "drainCycle k c retires \<le> drainCycle k c' retires"
proof (rule ccontr)
  let ?d = "drainCycle k c' retires"
  assume "\<not> drainCycle k c retires \<le> ?d"
  then have "?d < drainCycle k c retires" by simp
  moreover have "c \<le> ?d" "outstanding retires ?d \<le> k"
    using drainCycle_spec [of c' k retires] assms by auto
  ultimately show False using drainCycle_spec [of c k retires] by (meson leD)
qed

lemma drainCycle_mono_limit:
  assumes "k \<le> k'"
  shows "drainCycle k' c retires \<le> drainCycle k c retires"
proof (rule ccontr)
  let ?d = "drainCycle k c retires"
  assume "\<not> drainCycle k' c retires \<le> ?d"
  then have "?d < drainCycle k' c retires" by simp
  moreover have "c \<le> ?d" "outstanding retires ?d \<le> k'"
    using drainCycle_spec [of c k retires] assms by auto
  ultimately show False using drainCycle_spec [of c k' retires] by (meson leD)
qed

text \<open>
  \<open>retires\<close> is what the queue of a state holds, \<open>limit\<close> how many entries may stay, \<open>ready\<close> the
  code's answer and \<open>enabled\<close> the condition under which the queue is modelled.
\<close>

locale drain =
  fixes retires :: "'s \<Rightarrow> int list"
    and limit :: "'s \<Rightarrow> nat"
    and enabled :: "'s \<Rightarrow> int \<Rightarrow> bool"
    and ready :: "'s \<Rightarrow> int \<Rightarrow> int"
  assumes ready_eq: "enabled s c \<Longrightarrow> ready s c = drainCycle (limit s) c (retires s)"
begin

lemma ready_ge: "enabled s c \<Longrightarrow> c \<le> ready s c"
  using drainCycle_spec [of c "limit s" "retires s"] by (simp add: ready_eq)

lemma ready_drained: "enabled s c \<Longrightarrow> outstanding (retires s) (ready s c) \<le> limit s"
  using drainCycle_spec [of c "limit s" "retires s"] by (simp add: ready_eq)

lemma ready_least:
  "enabled s c \<Longrightarrow> c \<le> t \<Longrightarrow> t < ready s c \<Longrightarrow> limit s < outstanding (retires s) t"
  using drainCycle_spec [of c "limit s" "retires s"] by (simp add: ready_eq)

lemma ready_now_iff: "enabled s c \<Longrightarrow> ready s c = c \<longleftrightarrow> outstanding (retires s) c \<le> limit s"
  using ready_drained [of s c] ready_least [of s c c] ready_ge [of s c] by force

lemma ready_pruned:
  "enabled s c \<Longrightarrow> enabled s' c \<Longrightarrow> d \<le> c \<Longrightarrow> limit s' = limit s \<Longrightarrow>
   retires s' = filter (\<lambda>r. d < r) (retires s) \<Longrightarrow> ready s' c = ready s c"
  by (simp add: ready_eq drainCycle_prune)

end

end
