(* ===== verification/Execution_Queues.thy ===== *)
theory Execution_Queues
  imports Execution_Commit Drain
begin

text \<open>
  What the queries of one wave compute: the counter, pipe and memory issue queues are
  instances of the \<open>drain\<close> contract, a stall is the maximum of its components, and the
  operand, token and hazard waits are upper bounds of what they scan.
\<close>

subsection \<open>Counter queues\<close>

definition classMatches :: "InstructionEventClass list \<Rightarrow> pending_event \<Rightarrow> bool" where
  "classMatches classes ev \<longleftrightarrow> classes = [] \<or> ev_class ev \<in> set classes"

definition counterEvents :: "wave_state \<Rightarrow> InstructionWaitCounterKind \<Rightarrow>
    InstructionEventClass list \<Rightarrow> pending_event list" where
  "counterEvents s kind classes =
     filter (classMatches classes) (List.map_filter (pendingEvents s) (waitQueue s kind))"

definition counterRetires :: "wave_state \<Rightarrow> InstructionWaitCounterKind \<Rightarrow>
    InstructionEventClass list \<Rightarrow> int list" where
  "counterRetires s kind classes = map retireCycle (counterEvents s kind classes)"

text \<open>A nonzero limit cannot be resolved while out-of-order SMEM events are pending.\<close>

definition smemBlocked :: "wave_state \<Rightarrow> InstructionWaitCounterKind \<Rightarrow> nat \<Rightarrow> int \<Rightarrow>
    InstructionEventClass list \<Rightarrow> bool" where
  "smemBlocked s kind limit c classes \<longleftrightarrow> kind = WaitLgkm \<and> limit \<noteq> 0 \<and>
     list_ex (\<lambda>ev. c < retireCycle ev \<and> ev_class ev = Smem) (counterEvents s kind classes)"

lemma collectPending_eq:
  "collectPending s kind limit c classes ids acc =
     (let evs = filter (\<lambda>ev. c < retireCycle ev)
            (filter (classMatches classes) (List.map_filter (pendingEvents s) ids))
      in if kind = WaitLgkm \<and> limit \<noteq> 0 \<and> list_ex (\<lambda>ev. ev_class ev = Smem) evs
         then Inl Failure else Inr (acc @ evs))"
proof (induction ids arbitrary: acc)
  case (Cons i ids)
  then show ?case
    by (cases "pendingEvents s i")
       (auto simp: Let_def classMatches_def List.map_filter_simps)
qed (simp add: List.map_filter_simps)

lemma sort_key_retires:
  "map retireCycle (sort_key (\<lambda>ev. (retireCycle ev, ev_id ev)) evs) = sort (map retireCycle evs)"
proof (rule properties_for_sort [symmetric])
  show "mset (map retireCycle (sort_key (\<lambda>ev. (retireCycle ev, ev_id ev)) evs)) =
      mset (map retireCycle evs)" by simp
  have "sorted (map (\<lambda>ev. (retireCycle ev, ev_id ev))
      (sort_key (\<lambda>ev. (retireCycle ev, ev_id ev)) evs))" by simp
  moreover have "sorted (map (\<lambda>ev. (retireCycle ev, ev_id ev)) xs) \<Longrightarrow> sorted (map retireCycle xs)"
    for xs by (induction xs) (auto simp: less_eq_prod_def)
  ultimately show "sorted (map retireCycle
      (sort_key (\<lambda>ev. (retireCycle ev, ev_id ev)) evs))" by blast
qed

lemma counterReadyCycle_eq:
  "counterReadyCycle s kind limit c classes =
     (if smemBlocked s kind limit c classes then Inl Failure
      else Inr (drainCycle limit c (counterRetires s kind classes)))"
proof (cases "smemBlocked s kind limit c classes")
  case True
  then show ?thesis
    by (auto simp: counterReadyCycle_def collectPending_eq smemBlocked_def counterEvents_def Let_def
        list_ex_iff)
next
  case False
  let ?evs = "filter (\<lambda>ev. c < retireCycle ev) (counterEvents s kind classes)"
  have pending: "collectPending s kind limit c classes (waitQueue s kind) [] = Inr ?evs"
    using False by (auto simp: collectPending_eq smemBlocked_def counterEvents_def Let_def list_ex_iff)
  have r: "filter (\<lambda>r. c < r) (counterRetires s kind classes) = map retireCycle ?evs"
    by (simp add: counterRetires_def filter_map comp_def)
  have "sort_key (\<lambda>ev. (retireCycle ev, ev_id ev)) ?evs ! j = sort_key (\<lambda>ev. (retireCycle ev, ev_id ev)) ?evs ! j
      \<Longrightarrow> j < length ?evs \<Longrightarrow>
      retireCycle (sort_key (\<lambda>ev. (retireCycle ev, ev_id ev)) ?evs ! j) =
      sort (map retireCycle ?evs) ! j" for j
    by (simp flip: sort_key_retires)
  then show ?thesis
    using False by (simp add: counterReadyCycle_def pending drainCycle_def r Let_def)
qed

interpretation counters: drain "\<lambda>s. counterRetires s kind classes" "\<lambda>s. limit"
    "\<lambda>s c. \<not> smemBlocked s kind limit c classes"
    "\<lambda>s c. projr (counterReadyCycle s kind limit c classes)" for kind limit classes
  by unfold_locales (simp add: counterReadyCycle_eq)

subsection \<open>Pipe and memory issue queues\<close>

interpretation pipes: drain "\<lambda>s. pipeQueues s ! pipeIndex pipe"
    "\<lambda>s. maxInFlightForPipe (es_config s) pipe - 1"
    "\<lambda>s c. pipe \<noteq> PipeNone \<and> maxInFlightForPipe (es_config s) pipe \<noteq> 0"
    "\<lambda>s c. pipeReadyCycle s pipe c" for pipe
proof unfold_locales
  fix s :: wave_state and c :: int
  assume on: "pipe \<noteq> PipeNone \<and> maxInFlightForPipe (es_config s) pipe \<noteq> 0"
  then obtain m where m: "maxInFlightForPipe (es_config s) pipe = Suc m"
    by (cases "maxInFlightForPipe (es_config s) pipe") auto
  then show "pipeReadyCycle s pipe c = drainCycle (maxInFlightForPipe (es_config s) pipe - 1) c
      (pipeQueues s ! pipeIndex pipe)"
    using on by (simp add: pipeReadyCycle_def drainCycle_def Let_def less_Suc_eq_le)
qed

definition issueSlack :: "wave_state \<Rightarrow> MemoryIssueResource \<Rightarrow> nat \<Rightarrow> nat" where
  "issueSlack s resource n = maxInFlightForMemoryIssue (es_arch s) resource -
     min (max 1 n) (maxInFlightForMemoryIssue (es_arch s) resource)"

interpretation memoryIssue: drain "\<lambda>s. memoryIssueQueues s ! memoryIssueIndex resource"
    "\<lambda>s. issueSlack s resource n"
    "\<lambda>s c. maxInFlightForMemoryIssue (es_arch s) resource \<noteq> 0 \<and>
       0 < memoryIssueLatency (es_arch s) resource"
    "\<lambda>s c. memoryIssueReadyCycle s resource n c" for resource n
proof unfold_locales
  fix s :: wave_state and c :: int
  let ?m = "maxInFlightForMemoryIssue (es_arch s) resource"
  let ?q = "memoryIssueQueues s ! memoryIssueIndex resource"
  assume on: "?m \<noteq> 0 \<and> 0 < memoryIssueLatency (es_arch s) resource"
  define k where "k = min (max 1 n) ?m"
  have k: "k \<le> ?m" "issueSlack s resource n = ?m - k" by (auto simp: k_def issueSlack_def)
  have "length xs + k \<le> ?m \<longleftrightarrow> length xs \<le> ?m - k" for xs :: "int list" using k by linarith
  moreover have "length xs + k - ?m - 1 = length xs - (?m - k) - 1" for xs :: "int list"
    using k by linarith
  ultimately show "memoryIssueReadyCycle s resource n c = drainCycle (issueSlack s resource n) c ?q"
    using on k unfolding memoryIssueReadyCycle_def drainCycle_def Let_def k_def [symmetric] by simp
qed

lemma pipeReadyCycle_ge: "c \<le> pipeReadyCycle s pipe c"
  using pipes.ready_ge [of pipe s c]
  by (cases "pipe \<noteq> PipeNone \<and> maxInFlightForPipe (es_config s) pipe \<noteq> 0")
     (auto simp: pipeReadyCycle_def Let_def)

lemma memoryIssueReadyCycle_ge: "c \<le> memoryIssueReadyCycle s resource n c"
  using memoryIssue.ready_ge [of s resource c n]
  by (cases "maxInFlightForMemoryIssue (es_arch s) resource \<noteq> 0 \<and>
       0 < memoryIssueLatency (es_arch s) resource")
     (auto simp: memoryIssueReadyCycle_def Let_def)

lemma fold_max_if_ge:
  fixes f :: "'a \<Rightarrow> int"
  shows "c \<le> fold (\<lambda>x b. if P x then max b (f x) else b) xs c \<and>
    (\<forall>x\<in>set xs. P x \<longrightarrow> f x \<le> fold (\<lambda>x b. if P x then max b (f x) else b) xs c)"
proof (induction xs arbitrary: c)
  case (Cons x xs)
  show ?case using Cons [of c] Cons [of "max c (f x)"] by auto
qed simp

lemma kMemoryIssueResources_all: "r \<in> set kMemoryIssueResources"
  by (cases r) (simp_all add: kMemoryIssueResources_def)

lemma memoryIssuesReadyCycle_bounds:
  "c \<le> memoryIssuesReadyCycle s m n c"
  "hasMemoryIssueResource m r \<Longrightarrow> memoryIssueReadyCycle s r n c \<le> memoryIssuesReadyCycle s m n c"
  using fold_max_if_ge [where f = "\<lambda>r. memoryIssueReadyCycle s r n c"
      and P = "hasMemoryIssueResource m" and c = c and xs = kMemoryIssueResources]
    kMemoryIssueResources_all [of r]
  by (auto simp: memoryIssuesReadyCycle_def)

subsection \<open>Stalls\<close>

definition stallOk :: "instruction_stall \<Rightarrow> bool" where
  "stallOk st \<longleftrightarrow>
     (\<forall>c\<in>set (components st). 0 < comp_cycles c \<and> comp_cycles c \<le> stall_cycles st) \<and>
     (if components st = [] then stall_cycles st = 0 \<and> stall_kind st = StallNone
      else \<exists>c\<in>set (components st). comp_cycles c = stall_cycles st \<and> comp_kind c = stall_kind st)"

lemma stallOk_noStall [simp]: "stallOk noStall"
  by (simp add: stallOk_def noStall_def)

lemma stallOk_nonneg: "stallOk st \<Longrightarrow> 0 \<le> stall_cycles st"
  by (auto simp: stallOk_def split: if_splits)

text \<open>Every step of a query extends the stall it gets: \<open>stall_le\<close> composes the steps.\<close>

definition stall_le :: "instruction_stall \<Rightarrow> instruction_stall \<Rightarrow> bool" where
  "stall_le st st' \<longleftrightarrow> (stallOk st \<longrightarrow> stallOk st' \<and> stall_cycles st \<le> stall_cycles st')"

lemma stallOk_addComponent:
  assumes "stallOk st"
  shows "stallOk (addComponent k n r sc st)"
proof (cases "0 < n")
  case True
  let ?c = "\<lparr>comp_kind = k, comp_cycles = n, comp_resource = r, comp_scope = sc\<rparr>"
  show ?thesis
  proof (cases "stall_cycles st < n")
    case gt: True
    have "comp_cycles c \<le> n" if "c \<in> set (components st)" for c
      using assms that gt by (force simp: stallOk_def)
    with True gt assms show ?thesis by (auto simp: stallOk_def addComponent_def Let_def)
  next
    case False
    with True stallOk_nonneg [OF assms] have "stall_cycles st \<noteq> 0" by simp
    with assms have "components st \<noteq> []" by (auto simp: stallOk_def)
    with assms True False show ?thesis by (auto simp: stallOk_def addComponent_def Let_def)
  qed
qed (simp add: addComponent_def assms)

lemma addComponent_ge:
  "stall_cycles st \<le> stall_cycles (addComponent k n r sc st)"
  "0 \<le> stall_cycles st \<Longrightarrow> n \<le> stall_cycles (addComponent k n r sc st)"
  by (auto simp: addComponent_def Let_def)

lemma addWaveComponent_ge:
  "stall_cycles st \<le> stall_cycles (addWaveComponent k n st)"
  "0 \<le> stall_cycles st \<Longrightarrow> n \<le> stall_cycles (addWaveComponent k n st)"
  by (simp_all add: addWaveComponent_def addComponent_ge)

lemma stall_le_refl: "stall_le st st"
  by (simp add: stall_le_def)

lemma stall_le_trans [trans]: "stall_le a b \<Longrightarrow> stall_le b c \<Longrightarrow> stall_le a c"
  by (auto simp: stall_le_def)

lemma stall_le_addComponent: "stall_le a st \<Longrightarrow> stall_le a (addComponent k n r sc st)"
  unfolding stall_le_def using stallOk_addComponent addComponent_ge(1) order_trans by blast

lemma stall_le_addWaveComponent: "stall_le a st \<Longrightarrow> stall_le a (addWaveComponent k n st)"
  unfolding addWaveComponent_def by (rule stall_le_addComponent)

lemma stall_le_if: "stall_le a x \<Longrightarrow> stall_le a y \<Longrightarrow> stall_le a (if b then x else y)"
  by simp

lemmas stall_intros = stall_le_addComponent stall_le_addWaveComponent stall_le_if stall_le_refl

lemma stall_le_addIssueHazards: "stall_le a st \<Longrightarrow> stall_le a (addIssueHazards s op desc st)"
  unfolding addIssueHazards_def Let_def by (intro stall_intros)

lemma stall_le_addLocalMemoryIssueStalls:
  "stall_le a st \<Longrightarrow> stall_le a (addLocalMemoryIssueStalls s desc st)"
  unfolding addLocalMemoryIssueStalls_def by (intro stall_intros)

lemma stall_le_addLocalResourceStalls:
  "stall_le a st \<Longrightarrow> stall_le a (addLocalResourceStalls s desc st)"
  unfolding addLocalResourceStalls_def Let_def
  by (intro stall_intros stall_le_addLocalMemoryIssueStalls)

lemma stall_le_addCoexecStall: "stall_le a st \<Longrightarrow> stall_le a (addCoexecStall s desc st)"
  unfolding addCoexecStall_def by (intro stall_intros)

lemma stall_le_addDependencyStalls:
  "addDependencyStalls s op desc st = Inr st' \<Longrightarrow> stall_le a st \<Longrightarrow> stall_le a st'"
  by (auto simp: addDependencyStalls_def Let_def bindR_eq_Inr split_def split: if_splits
      intro!: stall_intros)

lemma stall_le_addSharedResourceStall:
  "addSharedResourceStall s op desc rs placement st = Inr st' \<Longrightarrow> stall_le a st \<Longrightarrow>
   stall_le a st'"
  by (auto simp: addSharedResourceStall_def Let_def bindR_eq_Inr simp del: if_split
      intro!: stall_intros)

lemma query_steps:
  assumes "queryWithResources s op desc rs placement = Inr st"
  obtains st0 where "addDependencyStalls s op desc noStall = Inr st0" "stallOk st0"
    "stallOk st" "stall_cycles st0 \<le> stall_cycles st"
proof -
  from assms obtain st0 where st0: "addDependencyStalls s op desc noStall = Inr st0"
    by (auto simp: queryWithResources_def bindR_eq_Inr)
  have ok: "stallOk st0"
    using stall_le_addDependencyStalls [OF st0 stall_le_refl] by (simp add: stall_le_def)
  have co: "stall_le st0 (addCoexecStall s desc st0)"
    by (intro stall_le_addCoexecStall stall_le_refl)
  have "stall_le st0 st"
  proof (cases rs)
    case None
    have "stall_le st0 (addIssueHazards s op desc
        (addLocalResourceStalls s desc (addCoexecStall s desc st0)))"
      by (intro stall_le_addIssueHazards stall_le_addLocalResourceStalls co)
    with None assms st0 show ?thesis by (simp add: queryWithResources_def Let_def)
  next
    case (Some r)
    have "stall_le st0 (addIssueHazards s op desc
        (addLocalMemoryIssueStalls s desc (addCoexecStall s desc st0)))"
      by (intro stall_le_addIssueHazards stall_le_addLocalMemoryIssueStalls co)
    with Some assms st0 show ?thesis
      using stall_le_addSharedResourceStall by (simp add: queryWithResources_def Let_def)
  qed
  with ok st0 that show thesis by (simp add: stall_le_def)
qed

end
