(* ===== verification/Execution_Invariant.thy ===== *)
theory Execution_Invariant
  imports Execution_Queues
begin

text \<open>
  The invariant of one wave. Every identifier in a token set, a value or a counter queue
  belongs to a recorded event; a counter queue holds each event at most once and holds
  exactly the events of its counter that have not retired yet. Binding values, advancing the
  clock and committing operations keep it, and the clock never moves back.
\<close>

subsection \<open>The invariant\<close>

definition unretired :: "wave_state \<Rightarrow> nat \<Rightarrow> nat \<Rightarrow> bool" where
  "unretired s q i \<longleftrightarrow> (\<exists>ev. pendingEvents s i = Some ev \<and> counterIndex (ev_counter ev) = q \<and>
     currentCycle s < retireCycle ev)"

definition recorded :: "wave_state \<Rightarrow> nat set" where
  "recorded s = dom (pendingEvents s)"

definition eventsOk :: "wave_state \<Rightarrow> bool" where
  "eventsOk s \<longleftrightarrow> (\<forall>i ev. pendingEvents s i = Some ev \<longrightarrow>
     ev_id ev = i \<and> i < nextEventId s \<and> ev_counter ev \<noteq> WaitNone)"

definition queuesOk :: "wave_state \<Rightarrow> bool" where
  "queuesOk s \<longleftrightarrow> length (waitQueues s) = 6 \<and> length (pipeQueues s) = 3 \<and>
     length (memoryIssueQueues s) = 5 \<and>
     (\<forall>q<6. distinct (waitQueues s ! q) \<and>
        (\<forall>i\<in>set (waitQueues s ! q). \<exists>ev. pendingEvents s i = Some ev \<and>
           counterIndex (ev_counter ev) = q) \<and>
        (\<forall>i. unretired s q i \<longrightarrow> i \<in> set (waitQueues s ! q)))"

definition tokensOk :: "wave_state \<Rightarrow> bool" where
  "tokensOk s \<longleftrightarrow> (\<forall>v ids. tokenEvents s v = Some ids \<longrightarrow> set ids \<subseteq> recorded s \<and> distinct ids) \<and>
     (\<forall>v i. valueEvent s v = Some i \<longrightarrow> i \<in> recorded s)"

definition waveOk :: "wave_state \<Rightarrow> bool" where
  "waveOk s \<longleftrightarrow> eventsOk s \<and> queuesOk s \<and> tokensOk s \<and> currentCycle s \<le> INT64_MAX"

lemma counterIndex_less: "k \<noteq> WaitNone \<Longrightarrow> counterIndex k < 6"
  by (cases k) simp_all

lemma counterIndex_inj:
  "k \<noteq> WaitNone \<Longrightarrow> k' \<noteq> WaitNone \<Longrightarrow> counterIndex k = counterIndex k' \<longleftrightarrow> k = k'"
  by (cases k; cases k') simp_all

lemma nth_less_6: "(q :: nat) < 6 \<longleftrightarrow> q \<in> {0, 1, 2, 3, 4, 5}"
  by auto

lemma init_es_ok: "waveOk (init_es arch config)"
  by (simp add: waveOk_def eventsOk_def queuesOk_def tokensOk_def init_es_def unretired_def
      INT64_MAX_def)

subsection \<open>Fields an operation leaves alone\<close>

text \<open>\<open>sameEvents\<close>: the two states agree on everything the invariant reads.\<close>

definition sameEvents :: "wave_state \<Rightarrow> wave_state \<Rightarrow> bool" where
  "sameEvents s t \<longleftrightarrow> pendingEvents t = pendingEvents s \<and> waitQueues t = waitQueues s \<and>
     nextEventId t = nextEventId s \<and> currentCycle t = currentCycle s \<and>
     length (pipeQueues t) = length (pipeQueues s) \<and>
     length (memoryIssueQueues t) = length (memoryIssueQueues s) \<and>
     es_arch t = es_arch s \<and> es_config t = es_config s"

definition sameTokens :: "wave_state \<Rightarrow> wave_state \<Rightarrow> bool" where
  "sameTokens s t \<longleftrightarrow> sameEvents s t \<and> tokenEvents t = tokenEvents s \<and> valueEvent t = valueEvent s"

lemma sameEvents_refl [simp]: "sameEvents s s" "sameTokens s s"
  by (simp_all add: sameEvents_def sameTokens_def)

lemma sameEvents_trans: "sameEvents a b \<Longrightarrow> sameEvents b c \<Longrightarrow> sameEvents a c"
  by (simp add: sameEvents_def)

lemma sameTokens_trans [trans]: "sameTokens a b \<Longrightarrow> sameTokens b c \<Longrightarrow> sameTokens a c"
  by (auto simp: sameTokens_def intro: sameEvents_trans)

lemma sameEvents_ok:
  assumes "sameEvents s t"
  shows "eventsOk t \<longleftrightarrow> eventsOk s" and "queuesOk t \<longleftrightarrow> queuesOk s" and "recorded t = recorded s"
    and "getIssuePeriod t = getIssuePeriod s"
  using assms
  by (simp_all add: sameEvents_def eventsOk_def queuesOk_def recorded_def unretired_def
      getIssuePeriod_def)

lemma sameTokens_ok: "sameTokens s t \<Longrightarrow> waveOk t \<longleftrightarrow> waveOk s"
  using sameEvents_ok [of s t]
  by (auto simp: waveOk_def tokensOk_def sameTokens_def sameEvents_def)

lemma fold_sameTokens: "(\<And>x s. sameTokens s (f x s)) \<Longrightarrow> sameTokens s (fold f xs s)"
  by (induction xs arbitrary: s) (auto intro: sameTokens_trans)

lemma sameTokens_smoothLdsDma: "sameTokens s (smoothLdsDma desc b s)"
  by (simp add: smoothLdsDma_def sameTokens_def sameEvents_def)

lemma sameTokens_commitPipe: "sameTokens s (commitPipe p r s)"
  by (simp add: commitPipe_def sameTokens_def sameEvents_def)

lemma sameTokens_commitLocalResources: "sameTokens s (commitLocalResources desc r s)"
  using sameTokens_commitPipe [of s "desc_pipe desc" r]
  by (simp add: commitLocalResources_def Let_def sameTokens_def sameEvents_def)

lemma sameTokens_commitMemoryIssue: "sameTokens s (commitMemoryIssue desc c s)"
  unfolding commitMemoryIssue_def
  by (rule fold_sameTokens)
     (simp add: commitMemoryIssueOf_def Let_def sameTokens_def sameEvents_def)

lemma sameTokens_updateHazards: "sameTokens s (updateHazards v f s)"
  by (simp add: updateHazards_def sameTokens_def sameEvents_def)

lemma sameTokens_commitMfmaResult: "sameTokens s (commitMfmaResult n v s)"
  by (simp add: commitMfmaResult_def Let_def sameTokens_updateHazards)

lemma sameTokens_commitValuResult: "sameTokens s (commitValuResult desc v s)"
  by (auto simp: commitValuResult_def Let_def intro: sameTokens_updateHazards
      sameTokens_trans [OF sameTokens_updateHazards sameTokens_updateHazards])

lemma sameTokens_commitIssueSlotHazards: "sameTokens s (commitIssueSlotHazards op desc s)"
  by (simp add: commitIssueSlotHazards_def commitIssueSlotProducer_def fold_sameTokens
      sameTokens_commitMfmaResult sameTokens_commitValuResult)

lemma sameTokens_consumeCoexecutionWait: "sameTokens s (consumeCoexecutionWait desc s)"
  by (simp add: consumeCoexecutionWait_def sameTokens_def sameEvents_def)

lemma sameTokens_commitCoexecution: "sameTokens s (commitCoexecution desc s)"
  by (simp add: commitCoexecution_def Let_def sameTokens_def sameEvents_def)

lemma sameTokens_commitM0: "sameTokens s (commitM0 desc s)"
  by (simp add: commitM0_def Let_def sameTokens_def sameEvents_def)

lemma sameTokens_commitStoreData: "sameTokens s (commitStoreData desc s)"
  by (simp add: commitStoreData_def Let_def sameTokens_def sameEvents_def)

lemma sameTokens_currentIssueSlot: "sameTokens s (s\<lparr>currentIssueSlot := n\<rparr>)"
  by (simp add: sameTokens_def sameEvents_def)

lemmas sameTokens_steps = sameTokens_smoothLdsDma sameTokens_commitLocalResources
  sameTokens_commitMemoryIssue sameTokens_commitIssueSlotHazards sameTokens_commitCoexecution
  sameTokens_commitM0 sameTokens_commitStoreData sameTokens_currentIssueSlot
  sameTokens_consumeCoexecutionWait

subsection \<open>Advancing the clock\<close>

lemma hasPendingEvent_iff:
  "hasPendingEvent s i c \<longleftrightarrow> (\<exists>ev. pendingEvents s i = Some ev \<and> c < retireCycle ev)"
  by (auto simp: hasPendingEvent_def split: option.splits)

lemma advanceToCycle_simps [simp]:
  "currentCycle (advanceToCycle c s) = c"
  "pendingEvents (advanceToCycle c s) = pendingEvents s"
  "tokenEvents (advanceToCycle c s) = tokenEvents s"
  "valueEvent (advanceToCycle c s) = valueEvent s"
  "valueReadyAt (advanceToCycle c s) = valueReadyAt s"
  "issueSlotHazards (advanceToCycle c s) = issueSlotHazards s"
  "nextEventId (advanceToCycle c s) = nextEventId s"
  "currentIssueSlot (advanceToCycle c s) = currentIssueSlot s"
  "es_arch (advanceToCycle c s) = es_arch s"
  "es_config (advanceToCycle c s) = es_config s"
  "waitQueues (advanceToCycle c s) = map (filter (\<lambda>i. hasPendingEvent s i c)) (waitQueues s)"
  "pipeQueues (advanceToCycle c s) = map (filter (\<lambda>r. c < r)) (pipeQueues s)"
  "memoryIssueQueues (advanceToCycle c s) = map (filter (\<lambda>r. c < r)) (memoryIssueQueues s)"
  by (simp_all add: advanceToCycle_def pruneRetiredEvents_def hasPendingEvent_def not_le)

lemma advanceToCycle_ok:
  assumes "waveOk s" and "currentCycle s \<le> c" and "c \<le> INT64_MAX"
  shows "waveOk (advanceToCycle c s)"
proof -
  have "queuesOk (advanceToCycle c s)"
    using assms(1,2)
    by (auto simp: waveOk_def queuesOk_def unretired_def hasPendingEvent_iff)
  then show ?thesis
    using assms by (simp add: waveOk_def eventsOk_def tokensOk_def recorded_def)
qed

text \<open>After the clock has advanced, a counter queue is the set of its unretired events.\<close>

lemma advanced_queue:
  assumes "waveOk s" and "currentCycle s \<le> c" and "q < 6"
  shows "set (waitQueues (advanceToCycle c s) ! q) = {i. unretired (advanceToCycle c s) q i}"
  using assms
  by (auto simp: waveOk_def queuesOk_def unretired_def hasPendingEvent_iff)
     (metis option.inject order_le_less_trans)+

subsection \<open>Token sets\<close>

lemma appendUniqueEvents_set [simp]:
  "set (appendUniqueEvents evs new) = set evs \<union> set new"
  by (induction new arbitrary: evs) (auto simp: appendUniqueEvents_def)

lemma appendUniqueEvents_distinct:
  "distinct evs \<Longrightarrow> distinct (appendUniqueEvents evs new)"
  by (induction new arbitrary: evs) (auto simp: appendUniqueEvents_def)

lemma fold_tokens:
  assumes "tokensOk s" and "set deps \<subseteq> recorded s" and "distinct deps"
    and "\<And>v deps. g v deps = (if P v then deps else case tokenEvents s v of None \<Rightarrow> deps
        | Some evs \<Rightarrow> appendUniqueEvents deps evs)"
  shows "set (fold g vs deps) \<subseteq> recorded s \<and> distinct (fold g vs deps)"
  using assms(2,3)
proof (induction vs arbitrary: deps)
  case (Cons v vs)
  have "set (g v deps) \<subseteq> recorded s \<and> distinct (g v deps)"
    using Cons.prems assms(1)
    by (auto simp: assms(4) tokensOk_def appendUniqueEvents_distinct split: option.splits)
  then show ?case using Cons.IH [of "g v deps"] by simp
qed simp

lemma collectTokenDeps_ok:
  "tokensOk s \<Longrightarrow> set (collectTokenDeps s op) \<subseteq> recorded s \<and> distinct (collectTokenDeps s op)"
  unfolding collectTokenDeps_def
  by (cases "dropsTokenCompletion op")
     (simp_all add: fold_tokens [where P = "\<lambda>v. \<not> isMemToken v"])

subsection \<open>Binding\<close>

lemma bindValues_es_fields [simp]:
  "sameEvents s (bindValues_es target sources s)"
  by (simp add: bindValues_es_def Let_def sameEvents_def)

lemma fold_valueEvent:
  assumes "tokensOk s" and "\<forall>i. acc = Some i \<longrightarrow> i \<in> recorded s"
    and "fold (\<lambda>v ev. case valueEvent s v of None \<Rightarrow> ev | Some i \<Rightarrow> Some i) vs acc = Some i"
  shows "i \<in> recorded s"
  using assms(2,3)
proof (induction vs arbitrary: acc)
  case (Cons v vs)
  show ?case
  proof (cases "valueEvent s v")
    case None
    with Cons.prems Cons.IH [of acc] show ?thesis by simp
  next
    case (Some j)
    with assms(1) have "j \<in> recorded s" by (auto simp: tokensOk_def)
    with Some Cons.prems Cons.IH [of "Some j"] show ?thesis by simp
  qed
qed simp

lemma bindValues_es_ok:
  assumes "waveOk s"
  shows "waveOk (bindValues_es target sources s)"
proof -
  let ?t = "bindValues_es target sources s"
  define deps where "deps = fold (\<lambda>v deps. case tokenEvents s v of None \<Rightarrow> deps
      | Some evs \<Rightarrow> appendUniqueEvents deps evs) sources []"
  define ev where
    "ev = fold (\<lambda>v ev. case valueEvent s v of None \<Rightarrow> ev | Some i \<Rightarrow> Some i) sources None"
  have tok: "tokensOk s" using assms by (simp add: waveOk_def)
  have deps: "set deps \<subseteq> recorded s \<and> distinct deps"
    unfolding deps_def by (rule fold_tokens [OF tok, where P = "\<lambda>_. False"]) simp_all
  have ev: "ev = Some i \<Longrightarrow> i \<in> recorded s" for i
    unfolding ev_def by (rule fold_valueEvent [OF tok]) simp_all
  have t: "tokenEvents ?t = (tokenEvents s)(target := if deps \<noteq> [] then Some deps else None)"
    "valueEvent ?t = (valueEvent s)(target := ev)"
    unfolding bindValues_es_def Let_def deps_def ev_def by simp_all
  note same = bindValues_es_fields [of s target sources]
  have "tokensOk ?t"
    unfolding tokensOk_def t sameEvents_ok(3) [OF same]
    using tok deps ev by (auto simp: tokensOk_def split: if_splits)
  moreover have "currentCycle ?t = currentCycle s" using same by (simp add: sameEvents_def)
  ultimately show ?thesis
    using assms unfolding waveOk_def sameEvents_ok(1,2) [OF same] by simp
qed

lemma commitNoMachineInst_ok:
  assumes "commitNoMachineInst op s = (ready, t)" and "waveOk s"
  shows "waveOk t" and "currentCycle t = currentCycle s" and "currentCycle s \<le> ready"
proof -
  define sources where "sources = (if dropsTokenCompletion op then [] else op_operands op)"
  let ?f = "\<lambda>res (ready, s).
        let s' = bindValues_es res sources s
        in (if \<not> isMemToken res then max ready (getValueReadyCycle s' res) else ready, s')"
  have "fold ?f vs (r, s) = (ready, t) \<Longrightarrow> waveOk s \<Longrightarrow> currentCycle s \<le> r \<Longrightarrow>
      waveOk t \<and> currentCycle t = currentCycle s \<and> currentCycle s \<le> ready" for vs r s
  proof (induction vs arbitrary: r s)
    case (Cons v vs)
    let ?s = "bindValues_es v sources s"
    have c: "currentCycle ?s = currentCycle s"
      using bindValues_es_fields [of s v sources] by (simp add: sameEvents_def)
    have "currentCycle s \<le> (if \<not> isMemToken v then max r (getValueReadyCycle ?s v) else r)"
      using Cons.prems(3) by (simp add: le_max_iff_disj)
    with Cons.prems Cons.IH [of "if \<not> isMemToken v then max r (getValueReadyCycle ?s v) else r" ?s]
    show ?case by (simp add: Let_def c bindValues_es_ok)
  qed simp
  then show "waveOk t" "currentCycle t = currentCycle s" "currentCycle s \<le> ready"
    using assms unfolding commitNoMachineInst_def sources_def [symmetric] Let_def by auto
qed

subsection \<open>Memory events\<close>

text \<open>One step of \<open>commitMemoryEvents\<close> records a fresh event and appends it to its queue.\<close>

lemma commitMemoryEvent_ok:
  assumes "commitMemoryEvent op desc c n (ids, s) = (ids', t)" and "waveOk s"
    and "desc_counter desc \<noteq> WaitNone"
  shows "waveOk t" and "ids' = ids @ [nextEventId s]"
    and "recorded t = insert (nextEventId s) (recorded s)" and "nextEventId s \<notin> recorded s"
    and "nextEventId t = nextEventId s + 1" and "currentCycle t = currentCycle s"
    and "es_arch t = es_arch s" and "es_config t = es_config s"
    and "tokenEvents t = tokenEvents s" and "valueReadyAt t = valueReadyAt s"
proof -
  let ?i = "nextEventId s" and ?q = "counterIndex (desc_counter desc)"
  have t: "t = s\<lparr>nextEventId := ?i + 1,
      pendingEvents := (pendingEvents s)(?i \<mapsto> eventAt s op desc c n),
      waitQueues := (waitQueues s)[?q := waitQueues s ! ?q @ [?i]]\<rparr>"
    and ids: "ids' = ids @ [?i]"
    using assms(1) by (auto simp: commitMemoryEvent_def Let_def)
  from assms(2) have ok: "eventsOk s" "queuesOk s" "tokensOk s" "currentCycle s \<le> INT64_MAX"
    by (auto simp: waveOk_def)
  have fresh: "pendingEvents s ?i = None"
    using ok(1) by (cases "pendingEvents s ?i") (auto simp: eventsOk_def)
  then show new: "?i \<notin> recorded s" by (simp add: recorded_def domIff)
  have q: "?q < 6" by (rule counterIndex_less [OF assms(3)])
  have notin: "?i \<notin> set (waitQueues s ! r)" if "r < 6" for r
    using ok(2) fresh that by (force simp: queuesOk_def)
  have "eventsOk t"
    using ok(1) assms(3) by (auto simp: t eventsOk_def eventAt_def less_Suc_eq)
  moreover have "queuesOk t"
    unfolding queuesOk_def
  proof (intro conjI allI impI)
    show "length (waitQueues t) = 6" "length (pipeQueues t) = 3" "length (memoryIssueQueues t) = 5"
      using ok(2) by (simp_all add: t queuesOk_def)
    fix r :: nat assume r: "r < 6"
    have nth: "waitQueues t ! r = (if r = ?q then waitQueues s ! r @ [?i] else waitQueues s ! r)"
      using ok(2) q r by (auto simp: t queuesOk_def)
    have setq: "set (waitQueues t ! r) =
        (if r = ?q then insert ?i (set (waitQueues s ! r)) else set (waitQueues s ! r))"
      by (simp add: nth)
    have pend: "pendingEvents t = (pendingEvents s)(?i \<mapsto> eventAt s op desc c n)"
      by (simp add: t)
    show "distinct (waitQueues t ! r)"
      using ok(2) r notin [OF r] by (auto simp: nth queuesOk_def)
    show "\<forall>i\<in>set (waitQueues t ! r). \<exists>ev. pendingEvents t i = Some ev \<and>
        counterIndex (ev_counter ev) = r"
      using ok(2) r notin [OF r] unfolding setq pend by (auto simp: queuesOk_def eventAt_def)
    fix i assume "unretired t r i"
    then have "i = ?i \<and> r = ?q \<or> unretired s r i"
      by (auto simp: t unretired_def eventAt_def split: if_splits)
    then show "i \<in> set (waitQueues t ! r)" using ok(2) r by (auto simp: nth queuesOk_def)
  qed
  moreover have rec: "recorded t = insert ?i (recorded s)" by (simp add: t recorded_def)
  moreover from this have "tokensOk t"
    using ok(3) by (auto simp: tokensOk_def t)
  ultimately show "waveOk t" using ok(4) by (simp add: waveOk_def t)
  show "ids' = ids @ [?i]" "recorded t = insert ?i (recorded s)" by (fact ids rec)+
  show "nextEventId t = ?i + 1" "currentCycle t = currentCycle s" "es_arch t = es_arch s"
    "es_config t = es_config s" "tokenEvents t = tokenEvents s"
    "valueReadyAt t = valueReadyAt s" by (simp_all add: t)
qed

lemma commitMemoryEvents_ok:
  assumes "commitMemoryEvents op desc c s = (new, t)" and "waveOk s"
  shows "waveOk t" and "set new \<subseteq> recorded t" and "recorded s \<subseteq> recorded t"
    and "distinct new" and "set new \<inter> recorded s = {}"
    and "length new = (if desc_counter desc = WaitNone then 0 else counterIssueCount desc)"
    and "currentCycle t = currentCycle s" and "es_arch t = es_arch s"
    and "es_config t = es_config s" and "tokenEvents t = tokenEvents s"
    and "valueReadyAt t = valueReadyAt s"
proof -
  define good where "good = (\<lambda>ids t. waveOk t \<and> set ids \<subseteq> recorded t \<and> recorded s \<subseteq> recorded t \<and>
      distinct ids \<and> set ids \<inter> recorded s = {} \<and> currentCycle t = currentCycle s \<and>
      es_arch t = es_arch s \<and> es_config t = es_config s \<and> tokenEvents t = tokenEvents s \<and>
      valueReadyAt t = valueReadyAt s)"
  have step: "good ids' u' \<and> length ids' = Suc (length ids)"
    if "commitMemoryEvent op desc c n (ids, u) = (ids', u')" "good ids u"
      "desc_counter desc \<noteq> WaitNone" for n ids u ids' u'
    using commitMemoryEvent_ok [OF that(1) _ that(3)] that(2)
    by (auto simp: good_def)
  have fold: "good ids' u' \<and> length ids' = length ids + length ns"
    if "fold (commitMemoryEvent op desc c) ns (ids, u) = (ids', u')" "good ids u"
      "desc_counter desc \<noteq> WaitNone" for ns ids u ids' u'
    using that(1,2)
  proof (induction ns arbitrary: ids u)
    case (Cons n ns)
    obtain ids1 u1 where s1: "commitMemoryEvent op desc c n (ids, u) = (ids1, u1)"
      by (cases "commitMemoryEvent op desc c n (ids, u)")
    with Cons.prems Cons.IH [of ids1 u1] step [OF s1 Cons.prems(2) that(3)] show ?case by simp
  qed simp
  have "good [] s" using assms(2) by (simp add: good_def)
  then have "good new t \<and>
      length new = (if desc_counter desc = WaitNone then 0 else counterIssueCount desc)"
    using assms(1) fold [of "[0..<counterIssueCount desc]" "[]" s new t]
    by (auto simp: commitMemoryEvents_def split: if_splits)
  then show "waveOk t" "set new \<subseteq> recorded t" "recorded s \<subseteq> recorded t" "distinct new"
    "set new \<inter> recorded s = {}"
    "length new = (if desc_counter desc = WaitNone then 0 else counterIssueCount desc)"
    "currentCycle t = currentCycle s" "es_arch t = es_arch s" "es_config t = es_config s"
    "tokenEvents t = tokenEvents s" "valueReadyAt t = valueReadyAt s"
    by (simp_all add: good_def)
qed

subsection \<open>Results\<close>

lemma commitResult_same: "sameEvents s (commitResult desc c ready deps new v s)"
  by (simp add: commitResult_def Let_def sameEvents_def)

lemma last_recorded: "set new \<subseteq> recorded s \<Longrightarrow> new \<noteq> [] \<Longrightarrow> \<exists>ev. pendingEvents s (last new) = Some ev"
  using subsetD [OF _ last_in_set, of new "recorded s"] by (auto simp: recorded_def)

lemma commitResult_tokens:
  assumes "tokensOk s" and "set deps \<subseteq> recorded s" and "distinct deps" and "set new \<subseteq> recorded s"
  shows "tokensOk (commitResult desc c ready deps new v s)"
  using assms last_recorded [OF assms(4)]
  by (auto simp: tokensOk_def commitResult_def Let_def recorded_def split: if_splits)

lemma commitResults_ok:
  assumes "waveOk s" and "set new \<subseteq> recorded s" and "distinct new"
  shows "waveOk (commitResults op desc c new s)"
    and "sameEvents s (commitResults op desc c new s)"
proof -
  define deps where "deps = appendUniqueEvents (collectTokenDeps s op) new"
  have tok: "tokensOk s" using assms(1) by (simp add: waveOk_def)
  have deps: "set deps \<subseteq> recorded s" "distinct deps"
    using collectTokenDeps_ok [OF tok, of op] assms(2,3)
    by (auto simp: deps_def appendUniqueEvents_distinct)
  have "sameEvents s (fold (commitResult desc c r deps new) vs s) \<and>
      tokensOk (fold (commitResult desc c r deps new) vs s)"
    if "tokensOk s" "set deps \<subseteq> recorded s" "set new \<subseteq> recorded s" for r vs s
    using that
  proof (induction vs arbitrary: s)
    case (Cons v vs)
    let ?s = "commitResult desc c r deps new v s"
    note same = commitResult_same [of s desc c r deps new v]
    have "tokensOk ?s" using commitResult_tokens Cons.prems deps(2) by blast
    with Cons.IH [of ?s] Cons.prems same sameEvents_ok(3) [OF same] show ?case
      by (auto intro: sameEvents_trans)
  qed simp
  from this [OF tok deps(1) assms(2)]
  have *: "sameEvents s (commitResults op desc c new s)" "tokensOk (commitResults op desc c new s)"
    by (simp_all add: commitResults_def deps_def Let_def)
  from * show "sameEvents s (commitResults op desc c new s)" by simp
  have "currentCycle (commitResults op desc c new s) = currentCycle s"
    using *(1) by (simp add: sameEvents_def)
  with * assms(1) show "waveOk (commitResults op desc c new s)"
    unfolding waveOk_def sameEvents_ok(1,2) [OF *(1)] by simp
qed

subsection \<open>Periods and spans\<close>

lemma getIssuePeriod_pos: "1 \<le> getIssuePeriod s"
  by (simp add: getIssuePeriod_def)

lemma nopSpan_nonneg:
  assumes "0 \<le> cycles" and "1 \<le> period"
  shows "0 \<le> getDmaIssueDelayNopSpan cycles period"
proof -
  have "0 \<le> saturatingMultiply (cycles sdiv 16) (max 16 period)"
    using assms by (subst saturatingMultiply_min) (auto simp: sdiv_nonneg INT64_MAX_def
        pos_imp_zdiv_nonneg_iff)
  then show ?thesis
    using assms
    by (auto simp: getDmaIssueDelayNopSpan_def Let_def kMaxNopCycles_def saturatingAdd_min
        INT64_MAX_def)
qed

text \<open>What the verifier of the delay operation guarantees (\<^verbatim>\<open>DmaIssueDelayOp::verify\<close>).\<close>

definition DmaIssueDelayOp_verify :: "op_info \<Rightarrow> bool" where
  "DmaIssueDelayOp_verify op =
     (case op_class op of
        DmaIssueDelayOp dependency skip cycles overlap \<Rightarrow>
          if cycles \<le> 0 then False
          else if overlap < 0 then False
          else if overlap > cycles then False
          else True
      | _ \<Rightarrow> True)"

lemma describeMemory_fields:
  assumes "describeMemory env s op d = Inr desc"
  shows "instructionSpan desc = instructionSpan d" and "noMachineInst desc = noMachineInst d"
    and "desc_waitcnt desc = desc_waitcnt d" and "waitsForTokenDeps desc = waitsForTokenDeps d"
    and "mfmaPasses desc = mfmaPasses d" and "instructionIssueCount desc = instructionIssueCount d"
    and "resourceDuration desc = resourceDuration d" and "desc_pipe desc = desc_pipe d"
    and "coexecution desc = coexecution d"
  using assms by (auto simp: describeMemory_def Let_def bindR_eq_Inr split: if_splits)

lemma configureDmaIssueDelay_fields:
  "noMachineInst (configureDmaIssueDelay s op d) = noMachineInst d"
  "desc_waitcnt (configureDmaIssueDelay s op d) = desc_waitcnt d"
  "waitsForTokenDeps (configureDmaIssueDelay s op d) = waitsForTokenDeps d"
  "mfmaPasses (configureDmaIssueDelay s op d) = mfmaPasses d"
  "instructionIssueCount (configureDmaIssueDelay s op d) = instructionIssueCount d"
  "resourceDuration (configureDmaIssueDelay s op d) = resourceDuration d"
  "desc_pipe (configureDmaIssueDelay s op d) = desc_pipe d"
  "coexecution (configureDmaIssueDelay s op d) = coexecution d"
  by (simp_all add: configureDmaIssueDelay_def Let_def split: op_class.splits)

lemma configureDmaIssueDelay_span:
  assumes "DmaIssueDelayOp_verify op" and "0 \<le> instructionSpan d"
  shows "0 \<le> instructionSpan (configureDmaIssueDelay s op d)"
proof (cases "isDmaIssueDelay (op_class op)")
  case True
  then obtain dep skip cycles overlap where c: "op_class op = DmaIssueDelayOp dep skip cycles overlap"
    by (cases "op_class op") auto
  with assms(1) have "0 \<le> cycles" by (auto simp: DmaIssueDelayOp_verify_def split: if_splits)
  from nopSpan_nonneg [OF this getIssuePeriod_pos [of s]] getIssuePeriod_pos [of s]
  show ?thesis
    by (auto simp: configureDmaIssueDelay_def c Let_def saturatingAdd_min INT64_MAX_def)
next
  case False
  with assms(2) show ?thesis
    by (cases "op_class op") (simp_all add: configureDmaIssueDelay_def)
qed

text \<open>The fields of a description that the later lemmas read.\<close>

lemma describe_fields:
  assumes "describe env prog s op = Inr desc"
  shows "isSchedClassSupported env (es_arch s) (classifyOp op)"
    and "noMachineInst desc \<longleftrightarrow> classifyOp op = NoInst"
    and "desc_waitcnt desc \<longleftrightarrow> hasTrait op WaitcntOp"
    and "waitsForTokenDeps desc = waitsForMemoryTokenDepsBeforeIssue op"
    and "getInstructionIssueCount env op (arch_isa (es_arch s)) (wavefrontSize (es_config s)) =
      Inr (instructionIssueCount desc)"
    and "getResourceCycles env (es_arch s) (classifyOp op) = Inr (resourceDuration desc)"
    and "mfmaPasses desc =
      (if hasTrait op MFMAOp then getMfmaPassCount (classifyOp op) else 0)"
    and "pipeFor env (es_arch s) (classifyOp op) = Inr (desc_pipe desc)"
    and "DmaIssueDelayOp_verify op \<Longrightarrow> 0 \<le> instructionSpan desc"
proof -
  obtain d where d: "describeMemory env s op d = Inr desc"
    and c: "isSchedClassSupported env (es_arch s) (classifyOp op)"
    "noMachineInst d \<longleftrightarrow> classifyOp op = NoInst"
    "desc_waitcnt d \<longleftrightarrow> hasTrait op WaitcntOp"
    "waitsForTokenDeps d = waitsForMemoryTokenDepsBeforeIssue op"
    "getInstructionIssueCount env op (arch_isa (es_arch s)) (wavefrontSize (es_config s)) =
      Inr (instructionIssueCount d)"
    "getResourceCycles env (es_arch s) (classifyOp op) = Inr (resourceDuration d)"
    "mfmaPasses d = (if hasTrait op MFMAOp then getMfmaPassCount (classifyOp op) else 0)"
    "pipeFor env (es_arch s) (classifyOp op) = Inr (desc_pipe d)"
    "DmaIssueDelayOp_verify op \<Longrightarrow> 0 \<le> instructionSpan d"
    using assms
    by (auto simp: describe_def Let_def bindR_eq_Inr configureDmaIssueDelay_fields
        configureDmaIssueDelay_span emptyDesc_def split: if_splits)
  note f = describeMemory_fields [OF d]
  from c f show "isSchedClassSupported env (es_arch s) (classifyOp op)"
    "noMachineInst desc \<longleftrightarrow> classifyOp op = NoInst"
    "desc_waitcnt desc \<longleftrightarrow> hasTrait op WaitcntOp"
    "waitsForTokenDeps desc = waitsForMemoryTokenDepsBeforeIssue op"
    "getInstructionIssueCount env op (arch_isa (es_arch s)) (wavefrontSize (es_config s)) =
      Inr (instructionIssueCount desc)"
    "getResourceCycles env (es_arch s) (classifyOp op) = Inr (resourceDuration desc)"
    "mfmaPasses desc = (if hasTrait op MFMAOp then getMfmaPassCount (classifyOp op) else 0)"
    "pipeFor env (es_arch s) (classifyOp op) = Inr (desc_pipe desc)"
    "DmaIssueDelayOp_verify op \<Longrightarrow> 0 \<le> instructionSpan desc"
    by simp_all
qed

lemma getInstructionSpan_nonneg:
  "0 \<le> instructionSpan desc \<Longrightarrow> 0 \<le> getInstructionSpan s desc"
  using getIssuePeriod_pos [of s] by (simp add: getInstructionSpan_def)

subsection \<open>Commits\<close>

lemma commitWithResources_cases:
  assumes "commitWithResources env prog op rs placement s = Inr (r, t, rs')"
  obtains desc st where "describe env prog s op = Inr desc"
    and "queryWithResources s op desc rs placement = Inr st"
    and "noMachineInst desc \<longrightarrow> commitPseudo op desc st (waitForIssue desc st s) = (r, t) \<and> rs' = rs"
    and "\<not> noMachineInst desc \<longrightarrow>
      commitMachine op desc st rs placement (waitForIssue desc st s) = (r, t, rs')"
    and "isInstructionExecutionStateArchSupported env (arch_isa (es_arch s))"
    and "isWaveAMDMachineOp op"
proof -
  from assms obtain desc st where v: "validateCommitOp env op (es_arch s) = Inr ()"
    and d: "describe env prog s op = Inr desc"
    and q: "queryWithResources s op desc rs placement = Inr st"
    and c: "(if noMachineInst desc
      then let (r, s2) = commitPseudo op desc st (waitForIssue desc st s) in Inr (r, s2, rs)
      else Inr (commitMachine op desc st rs placement (waitForIssue desc st s))) =
      (Inr (r, t, rs') :: _ result)"
    by (auto simp: commitWithResources_def bindR_eq_Inr Let_def)
  have "commitPseudo op desc st (waitForIssue desc st s) = (r, t) \<and> rs' = rs" if "noMachineInst desc"
    using c that by (cases "commitPseudo op desc st (waitForIssue desc st s)") simp
  moreover have "commitMachine op desc st rs placement (waitForIssue desc st s) = (r, t, rs')"
    if "\<not> noMachineInst desc" using c that by simp
  ultimately show thesis
    using that d q v by (auto simp: validateCommitOp_def split: if_splits)
qed

lemma consumeCoexecutionWait_simps:
  "currentCycle (consumeCoexecutionWait desc s) = currentCycle s"
  "es_arch (consumeCoexecutionWait desc s) = es_arch s"
  "es_config (consumeCoexecutionWait desc s) = es_config s"
  "valueReadyAt (consumeCoexecutionWait desc s) = valueReadyAt s"
  "tokenEvents (consumeCoexecutionWait desc s) = tokenEvents s"
  "pendingEvents (consumeCoexecutionWait desc s) = pendingEvents s"
  "issueSlotHazards (consumeCoexecutionWait desc s) = issueSlotHazards s"
  "currentIssueSlot (consumeCoexecutionWait desc s) = currentIssueSlot s"
  by (simp_all add: consumeCoexecutionWait_def)

lemma waitForIssue_ok:
  assumes "waveOk s" and "stallOk st" and "currentCycle s + stall_cycles st \<le> INT64_MAX"
  shows "waveOk (waitForIssue desc st s)"
    and "currentCycle (waitForIssue desc st s) = currentCycle s + stall_cycles st"
    and "es_arch (waitForIssue desc st s) = es_arch s"
    and "es_config (waitForIssue desc st s) = es_config s"
    and "valueReadyAt (waitForIssue desc st s) = valueReadyAt s"
    and "tokenEvents (waitForIssue desc st s) = tokenEvents s"
    and "pendingEvents (waitForIssue desc st s) = pendingEvents s"
    and "issueSlotHazards (waitForIssue desc st s) = issueSlotHazards s"
    and "currentIssueSlot (waitForIssue desc st s) =
      wrap_u64 (currentIssueSlot s + getIssueHazardWait st)"
proof -
  let ?a = "advanceToCycle (currentCycle s + stall_cycles st) s"
  have "waveOk ?a"
    using assms stallOk_nonneg [OF assms(2)] by (intro advanceToCycle_ok) auto
  moreover have same: "sameTokens ?a (waitForIssue desc st s)"
    unfolding waitForIssue_def Let_def
    by (rule sameTokens_trans [OF sameTokens_currentIssueSlot sameTokens_consumeCoexecutionWait])
  ultimately show "waveOk (waitForIssue desc st s)" using sameTokens_ok [OF same] by blast
  have w: "waitForIssue desc st s = consumeCoexecutionWait desc
      (?a\<lparr>currentIssueSlot := wrap_u64 (currentIssueSlot s + getIssueHazardWait st)\<rparr>)"
    by (simp add: waitForIssue_def Let_def)
  show "currentCycle (waitForIssue desc st s) = currentCycle s + stall_cycles st"
    "es_arch (waitForIssue desc st s) = es_arch s"
    "es_config (waitForIssue desc st s) = es_config s"
    "valueReadyAt (waitForIssue desc st s) = valueReadyAt s"
    "tokenEvents (waitForIssue desc st s) = tokenEvents s"
    "pendingEvents (waitForIssue desc st s) = pendingEvents s"
    "issueSlotHazards (waitForIssue desc st s) = issueSlotHazards s"
    "currentIssueSlot (waitForIssue desc st s) =
      wrap_u64 (currentIssueSlot s + getIssueHazardWait st)"
    unfolding w by (simp_all add: consumeCoexecutionWait_simps)
qed

lemma sameTokens_fields:
  "sameTokens s t \<Longrightarrow> currentCycle t = currentCycle s"
  "sameTokens s t \<Longrightarrow> es_arch t = es_arch s"
  "sameTokens s t \<Longrightarrow> es_config t = es_config s"
  by (simp_all add: sameTokens_def sameEvents_def)

lemma commitPseudo_ok:
  assumes "commitPseudo op desc st s = (r, t)" and "waveOk s"
  shows "waveOk t" and "currentCycle t = currentCycle s" and "issueCycle r = currentCycle s"
    and "nextIssueCycle r = currentCycle t" and "stall r = st" and "currentCycle s \<le> valueReadyCycle r"
proof -
  obtain ready s1 where s1: "commitNoMachineInst op s = (ready, s1)" by fastforce
  note n = commitNoMachineInst_ok [OF s1 assms(2)]
  have t: "t = commitStoreData desc (commitM0 desc s1)" and r: "issueCycle r = currentCycle s"
    "nextIssueCycle r = currentCycle t" "stall r = st" "valueReadyCycle r = ready"
    using assms(1) by (auto simp: commitPseudo_def s1 Let_def)
  have same: "sameTokens s1 t"
    unfolding t by (rule sameTokens_trans [OF sameTokens_commitM0 sameTokens_commitStoreData])
  from n r sameTokens_ok [OF same] sameTokens_fields(1) [OF same]
  show "waveOk t" "currentCycle t = currentCycle s" "issueCycle r = currentCycle s"
    "nextIssueCycle r = currentCycle t" "stall r = st" "currentCycle s \<le> valueReadyCycle r" by simp_all
qed

lemma commitMachine_ok:
  assumes "commitMachine op desc st rs placement s = (r, t, rs')" and "waveOk s"
    and "0 \<le> instructionSpan desc"
  shows "waveOk t" and "currentCycle s \<le> currentCycle t"
    and "currentCycle t = saturatingAdd (currentCycle s) (getInstructionSpan s desc)"
    and "issueCycle r = currentCycle s" and "nextIssueCycle r = currentCycle t" and "stall r = st"
    and "es_arch t = es_arch s" and "es_config t = es_config s"
    and "valueReadyCycle r = getResultReadyCycle s op desc (currentCycle s)"
proof -
  obtain new s1 where s1: "commitMemoryEvents op desc (currentCycle s) s = (new, s1)" by fastforce
  define s2 where "s2 = smoothLdsDma desc (rs \<noteq> None) s1"
  define ready where "ready = getResultReadyCycle s2 op desc (currentCycle s)"
  define s3 where "s3 = commitResults op desc (currentCycle s) new s2"
  define s4 where "s4 = (case rs of None \<Rightarrow> commitLocalResources desc ready s3 | Some _ \<Rightarrow> s3)"
  define s5 where "s5 = commitMemoryIssue desc (currentCycle s) s4"
  define s6 where "s6 = s5\<lparr>currentIssueSlot := wrap_u64 (currentIssueSlot s5 + issueSlots desc)\<rparr>"
  define s7 where "s7 = commitIssueSlotHazards op desc (commitCoexecution desc s6)"
  define s8 where "s8 = commitStoreData desc (commitM0 desc s7)"
  have t: "t = advanceToCycle (saturatingAdd (currentCycle s) (getInstructionSpan s8 desc)) s8"
    and r: "issueCycle r = currentCycle s" "nextIssueCycle r = currentCycle t" "stall r = st"
      "valueReadyCycle r = ready"
    using assms(1)
    unfolding commitMachine_def Let_def s1 prod.case s2_def [symmetric] ready_def [symmetric]
      s3_def [symmetric] s4_def [symmetric] s5_def [symmetric] s6_def [symmetric]
      s7_def [symmetric] s8_def [symmetric] by auto
  note m = commitMemoryEvents_ok [OF s1 assms(2)]
  have c2: "sameTokens s1 s2" unfolding s2_def by (rule sameTokens_smoothLdsDma)
  then have "waveOk s2" "set new \<subseteq> recorded s2"
    using m sameTokens_ok [OF c2] sameEvents_ok(3) [of s1 s2] c2 by (simp_all add: sameTokens_def)
  note res = commitResults_ok [OF this m(4), of op desc "currentCycle s", folded s3_def]
  have "sameTokens s3 s4" unfolding s4_def
    by (cases rs) (simp_all add: sameTokens_commitLocalResources)
  also have "sameTokens s4 s5"
    unfolding s5_def by (rule sameTokens_commitMemoryIssue)
  also have "sameTokens s5 s6"
    unfolding s6_def by (rule sameTokens_currentIssueSlot)
  also have "sameTokens s6 s7" unfolding s7_def
    by (rule sameTokens_trans [OF sameTokens_commitCoexecution sameTokens_commitIssueSlotHazards])
  also have "sameTokens s7 s8" unfolding s8_def
    by (rule sameTokens_trans [OF sameTokens_commitM0 sameTokens_commitStoreData])
  finally have c8: "sameTokens s3 s8" .
  have s8: "waveOk s8" using sameTokens_ok [OF c8] res(1) by simp
  have f: "currentCycle s8 = currentCycle s" "es_arch s8 = es_arch s" "es_config s8 = es_config s"
      "es_arch s2 = es_arch s" "es_config s2 = es_config s"
    using sameTokens_fields [OF c8] sameTokens_fields [OF c2] res(2) m by (simp_all add: sameEvents_def)
  have p: "getInstructionSpan s8 desc = getInstructionSpan s desc" "getIssuePeriod s2 = getIssuePeriod s"
    by (simp_all add: getInstructionSpan_def getIssuePeriod_def f)
  have "currentCycle s \<le> INT64_MAX" using assms(2) by (simp add: waveOk_def)
  then have le: "currentCycle s \<le> saturatingAdd (currentCycle s) (getInstructionSpan s desc)"
      "saturatingAdd (currentCycle s) (getInstructionSpan s desc) \<le> INT64_MAX"
    using getInstructionSpan_nonneg [OF assms(3), of s] by (simp_all add: saturatingAdd_min)
  show "waveOk t" unfolding t p using s8 le f(1) by (intro advanceToCycle_ok) simp_all
  show "currentCycle s \<le> currentCycle t" using le by (simp add: t p)
  show "currentCycle t = saturatingAdd (currentCycle s) (getInstructionSpan s desc)"
    by (simp add: t p)
  show "issueCycle r = currentCycle s" "nextIssueCycle r = currentCycle t" "stall r = st"
    by (fact r)+
  show "es_arch t = es_arch s" "es_config t = es_config s" by (simp_all add: t f)
  show "valueReadyCycle r = getResultReadyCycle s op desc (currentCycle s)"
    by (simp add: r(4) ready_def getResultReadyCycle_def getInstructionSpan_def p)
qed

subsection \<open>The clock of a wave\<close>

text \<open>
  What one commit does to the clock: the operation issues when its stall has passed, and the
  clock ends at its span after that. The hypothesis bounds the issue cycle by the range of
  \<^verbatim>\<open>int64_t\<close>, where the addition of the source is defined.
\<close>

lemma commit_clock:
  assumes "commitWithResources env prog op rs placement s = Inr (r, t, rs')" and "waveOk s"
    and "DmaIssueDelayOp_verify op" and "issueCycle r \<le> INT64_MAX"
  shows "waveOk t" and "issueCycle r = currentCycle s + stall_cycles (stall r)"
    and "stallOk (stall r)" and "issueCycle r \<le> currentCycle t"
    and "nextIssueCycle r = currentCycle t" and "currentCycle s \<le> issueCycle r"
proof -
  obtain desc st where d: "describe env prog s op = Inr desc"
    and q: "queryWithResources s op desc rs placement = Inr st"
    and pseudo: "noMachineInst desc \<longrightarrow>
      commitPseudo op desc st (waitForIssue desc st s) = (r, t) \<and> rs' = rs"
    and machine: "\<not> noMachineInst desc \<longrightarrow>
      commitMachine op desc st rs placement (waitForIssue desc st s) = (r, t, rs')"
    and "isInstructionExecutionStateArchSupported env (arch_isa (es_arch s))"
    and "isWaveAMDMachineOp op"
    by (rule commitWithResources_cases [OF assms(1)]) (rule that)
  let ?w = "waitForIssue desc st s"
  obtain st0 where ok: "stallOk st" by (rule query_steps [OF q])
  have w: "currentCycle ?w = currentCycle s + stall_cycles st"
    by (simp add: waitForIssue_def Let_def consumeCoexecutionWait_simps)
  have cycle: "issueCycle r = currentCycle ?w" "stall r = st"
    using pseudo machine
    by (cases "noMachineInst desc"; auto simp: commitPseudo_def commitMachine_def Let_def
        split: prod.splits)+
  then have le: "currentCycle s + stall_cycles st \<le> INT64_MAX" using assms(4) w by simp
  note wok = waitForIssue_ok(1) [OF assms(2) ok le]
  have "waveOk t \<and> issueCycle r \<le> currentCycle t \<and> nextIssueCycle r = currentCycle t"
  proof (cases "noMachineInst desc")
    case True
    with pseudo have "commitPseudo op desc st ?w = (r, t)" by simp
    from commitPseudo_ok [OF this wok] show ?thesis by simp
  next
    case False
    from commitMachine_ok [OF machine [THEN mp, OF False] wok describe_fields(9) [OF d assms(3)]]
    show ?thesis by simp
  qed
  with cycle w stallOk_nonneg [OF ok] ok
  show "waveOk t" "issueCycle r = currentCycle s + stall_cycles (stall r)" "stallOk (stall r)"
    "issueCycle r \<le> currentCycle t" "nextIssueCycle r = currentCycle t"
    "currentCycle s \<le> issueCycle r" by simp_all
qed

text \<open>One commit as a step of a timeline; leaving the range of the clock ends the run.\<close>

definition commit_step :: "llvm_env \<Rightarrow> op_info list \<Rightarrow> op_info \<Rightarrow> wave_state \<Rightarrow>
    wave_state result" where
  "commit_step env prog op s =
     bindR (commit_es env prog op s) (\<lambda>(r, t).
       if issueCycle r \<le> INT64_MAX then Inr t else Inl (Unreachable ''signed overflow''))"

lemma commit_step_ok:
  assumes "waveOk s" and "DmaIssueDelayOp_verify op" and "commit_step env prog op s = Inr t"
  shows "waveOk t" and "currentCycle s \<le> currentCycle t"
proof -
  from assms(3) obtain r rs' where
    c: "commitWithResources env prog op None noPlacement s = Inr (r, t, rs')"
    and le: "issueCycle r \<le> INT64_MAX"
    by (auto simp: commit_step_def commit_es_def bindR_eq_Inr split: if_splits)
  note k = commit_clock [OF c assms(1,2) le]
  from k show "waveOk t" "currentCycle s \<le> currentCycle t" by auto
qed

interpretation wave: timeline waveOk currentCycle DmaIssueDelayOp_verify "commit_step env prog"
    for env prog
  by unfold_locales (rule commit_step_ok; assumption)+

end
