(* ===== verification/Execution_Props.thy ===== *)
theory Execution_Props
  imports Execution_Invariant
begin

text \<open>
  Properties of one wave: its queues answer with the least admissible cycle, a committed
  operation has waited for its operands, tokens and counters, the clock of a run never moves
  back, and the counter queues count exactly the outstanding events.
\<close>

subsection \<open>Operands\<close>

text \<open>Operand \<open>i\<close> forwards as the exact source C of an MFMA and is not waited for.\<close>

definition forwardsSrcC :: "wave_state \<Rightarrow> op_info \<Rightarrow> nat \<Rightarrow> op_value \<Rightarrow> bool" where
  "forwardsSrcC s op i v \<longleftrightarrow> hasTrait op MFMAOp \<and> i = 2 \<and>
     (\<exists>h. issueSlotHazards s v = Some h \<and> mfmaSrcCExactReadyAt h \<noteq> 0)"

lemma operandStep_fst:
  "fst (operandStep s op (i, v) acc) =
     (if isMemToken v \<or> forwardsSrcC s op i v then fst acc
      else case valueReadyAt s v of None \<Rightarrow> fst acc | Some r \<Rightarrow> max (fst acc) r)"
  by (cases acc) (auto simp: operandStep_def forwardsSrcC_def Let_def split: option.splits)

lemma operandReady_fold:
  "fst acc \<le> fst (fold (operandStep s op) ivs acc) \<and>
   (\<forall>(i, v)\<in>set ivs. \<not> isMemToken v \<longrightarrow> \<not> forwardsSrcC s op i v \<longrightarrow>
      (\<forall>r. valueReadyAt s v = Some r \<longrightarrow> r \<le> fst (fold (operandStep s op) ivs acc)))"
proof (induction ivs arbitrary: acc)
  case (Cons iv ivs)
  obtain i v where iv: "iv = (i, v)" by force
  let ?a = "operandStep s op (i, v) acc"
  have "fst acc \<le> fst ?a"
    by (simp add: operandStep_fst le_max_iff_disj split: option.splits)
  moreover have "\<not> isMemToken v \<Longrightarrow> \<not> forwardsSrcC s op i v \<Longrightarrow> valueReadyAt s v = Some r \<Longrightarrow> r \<le> fst ?a"
    for r by (simp add: operandStep_fst)
  ultimately show ?case using Cons.IH [of ?a] by (fastforce simp: iv intro: order_trans)
qed simp

lemma issueReadyCycle_ge:
  assumes "issueReadyCycle s op = (ready, kind)"
  shows "currentCycle s \<le> ready"
    and "i < length (op_operands op) \<Longrightarrow> \<not> isMemToken (op_operands op ! i) \<Longrightarrow>
      \<not> forwardsSrcC s op i (op_operands op ! i) \<Longrightarrow>
      getValueReadyCycle s (op_operands op ! i) \<le> ready"
    and "op_class op = DmaIssueDelayOp dep skip cycles overlap \<Longrightarrow> valueReadyAt s dep = Some d \<Longrightarrow>
      saturatingAdd d overlap \<le> ready"
proof -
  obtain r k where rk: "operandReadyCycle s op = (r, k)" by force
  have r: "r \<le> ready"
    using assms by (auto simp: issueReadyCycle_def rk split: op_class.splits option.splits)
  have fold: "currentCycle s \<le> r" "\<And>i v. (i, v) \<in> set (enumerate 0 (op_operands op)) \<Longrightarrow>
      \<not> isMemToken v \<Longrightarrow> \<not> forwardsSrcC s op i v \<Longrightarrow> valueReadyAt s v = Some x \<Longrightarrow> x \<le> r" for x
    using operandReady_fold [of "(currentCycle s, OperandValue)" s op
        "enumerate 0 (op_operands op)"] rk
    by (auto simp: operandReadyCycle_def)
  show "currentCycle s \<le> ready" using fold(1) r by simp
  show "getValueReadyCycle s (op_operands op ! i) \<le> ready"
    if "i < length (op_operands op)" "\<not> isMemToken (op_operands op ! i)"
      "\<not> forwardsSrcC s op i (op_operands op ! i)"
  proof -
    have "(i, op_operands op ! i) \<in> set (enumerate 0 (op_operands op))"
      using that(1) by (auto simp: in_set_enumerate_eq)
    with fold(2) [OF this that(2,3)] fold(1) r show ?thesis
      by (auto simp: getValueReadyCycle_def split: option.splits intro: order_trans)
  qed
  show "saturatingAdd d overlap \<le> ready"
    if "op_class op = DmaIssueDelayOp dep skip cycles overlap" "valueReadyAt s dep = Some d"
    using assms that by (auto simp: issueReadyCycle_def rk)
qed

lemma eventsReady_ge:
  "c \<le> eventsReady s ids c"
  "i \<in> set ids \<Longrightarrow> pendingEvents s i = Some ev \<Longrightarrow> retireCycle ev \<le> eventsReady s ids c"
proof -
  have "c \<le> eventsReady s ids c \<and>
      (\<forall>i\<in>set ids. \<forall>ev. pendingEvents s i = Some ev \<longrightarrow> retireCycle ev \<le> eventsReady s ids c)"
  proof (induction ids arbitrary: c)
    case (Cons j ids)
    let ?c = "case pendingEvents s j of None \<Rightarrow> c | Some ev \<Rightarrow> max c (retireCycle ev)"
    have "c \<le> ?c" by (simp split: option.splits)
    moreover have "pendingEvents s j = Some ev \<Longrightarrow> retireCycle ev \<le> ?c" for ev by simp
    moreover have "eventsReady s (j # ids) c = eventsReady s ids ?c" by (simp add: eventsReady_def)
    ultimately show ?case using Cons.IH [of ?c] by (auto intro: order_trans)
  qed (simp add: eventsReady_def)
  then show "c \<le> eventsReady s ids c"
    "i \<in> set ids \<Longrightarrow> pendingEvents s i = Some ev \<Longrightarrow> retireCycle ev \<le> eventsReady s ids c" by auto
qed

subsection \<open>What a query has waited for\<close>

lemma dependency_stalls:
  assumes "addDependencyStalls s op desc noStall = Inr st"
  shows "\<not> hasTrait op NoMachineInst \<Longrightarrow> issueReadyCycle s op = (ready, kind) \<Longrightarrow>
      ready \<le> currentCycle s + stall_cycles st"
    and "waitsForTokenDeps desc \<Longrightarrow> tokenReadyCycle s op \<le> currentCycle s + stall_cycles st"
    and "desc_waitcnt desc \<Longrightarrow> \<exists>w. waitcntReadyCycle s op (currentCycle s) = Inr w \<and>
      w \<le> currentCycle s + stall_cycles st"
proof -
  define st1 where "st1 = (if \<not> hasTrait op NoMachineInst
    then addWaveComponent (snd (issueReadyCycle s op))
      (fst (issueReadyCycle s op) - currentCycle s) noStall else noStall)"
  define st2 where "st2 = (if waitsForTokenDeps desc
    then addWaveComponent MemoryToken (tokenReadyCycle s op - currentCycle s) st1 else st1)"
  have le1: "stall_le noStall st1" unfolding st1_def by (intro stall_intros)
  have le2: "stall_le noStall st2" unfolding st2_def by (intro stall_intros le1)
  then have n1: "0 \<le> stall_cycles st1" and n2: "0 \<le> stall_cycles st2"
    using le1 by (simp_all add: stall_le_def stallOk_nonneg)
  have "stall_le st1 st2" unfolding st2_def by (intro stall_intros)
  with le1 have s12: "stall_cycles st1 \<le> stall_cycles st2" by (simp add: stall_le_def)
  have st: "(if desc_waitcnt desc
      then bindR (waitcntReadyCycle s op (currentCycle s)) (\<lambda>w.
        Inr (addWaveComponent StallWaitcnt (w - currentCycle s) st2))
      else Inr st2) = Inr st"
    using assms unfolding addDependencyStalls_def Let_def st2_def st1_def
    by (simp add: split_def cong: if_cong)
  have s2: "stall_cycles st2 \<le> stall_cycles st"
    using st addWaveComponent_ge(1) by (auto simp: bindR_eq_Inr split: if_splits)
  show "waitsForTokenDeps desc \<Longrightarrow> tokenReadyCycle s op \<le> currentCycle s + stall_cycles st"
    using addWaveComponent_ge(2) [OF n1, of "tokenReadyCycle s op - currentCycle s" MemoryToken] s2
    by (simp add: st2_def)
  show "\<exists>w. waitcntReadyCycle s op (currentCycle s) = Inr w \<and>
      w \<le> currentCycle s + stall_cycles st" if "desc_waitcnt desc"
  proof -
    from st that obtain w where w: "waitcntReadyCycle s op (currentCycle s) = Inr w"
      "st = addWaveComponent StallWaitcnt (w - currentCycle s) st2"
      by (auto simp: bindR_eq_Inr)
    with addWaveComponent_ge(2) [OF n2, of "w - currentCycle s" StallWaitcnt] show ?thesis by simp
  qed
  show "ready \<le> currentCycle s + stall_cycles st"
    if "\<not> hasTrait op NoMachineInst" "issueReadyCycle s op = (ready, kind)"
  proof -
    have "0 \<le> stall_cycles noStall" by (simp add: noStall_def)
    from addWaveComponent_ge(2) [OF this, of "ready - currentCycle s" kind] that s12 s2
    show ?thesis by (simp add: st1_def)
  qed
qed

lemma commit_dependencies:
  assumes "commitWithResources env prog op rs placement s = Inr (r, t, rs')"
  obtains desc st0 where "describe env prog s op = Inr desc"
    and "addDependencyStalls s op desc noStall = Inr st0"
    and "currentCycle s + stall_cycles st0 \<le> issueCycle r"
proof -
  obtain desc st where d: "describe env prog s op = Inr desc"
    and q: "queryWithResources s op desc rs placement = Inr st"
    and p: "noMachineInst desc \<longrightarrow>
      commitPseudo op desc st (waitForIssue desc st s) = (r, t) \<and> rs' = rs"
    and m: "\<not> noMachineInst desc \<longrightarrow>
      commitMachine op desc st rs placement (waitForIssue desc st s) = (r, t, rs')"
    and "isInstructionExecutionStateArchSupported env (arch_isa (es_arch s))"
    and "isWaveAMDMachineOp op"
    by (rule commitWithResources_cases [OF assms]) (rule that)
  have "issueCycle r = currentCycle (waitForIssue desc st s)"
    using p m by (cases "noMachineInst desc"; auto simp: commitPseudo_def commitMachine_def Let_def
        split: prod.splits)
  then have "issueCycle r = currentCycle s + stall_cycles st"
    by (simp add: waitForIssue_def Let_def consumeCoexecutionWait_simps)
  moreover obtain st0 where "addDependencyStalls s op desc noStall = Inr st0"
    "stall_cycles st0 \<le> stall_cycles st" by (rule query_steps [OF q])
  ultimately show thesis using that [OF d] by simp
qed

subsection \<open>Waits and counters\<close>

text \<open>The counters a wait operation names, with the limit and the event classes of each.\<close>

fun waitLimits :: "op_class \<Rightarrow>
    (InstructionWaitCounterKind \<times> nat option \<times> InstructionEventClass list) list" where
  "waitLimits (SWaitcntVscntOp vs) = [(WaitVscnt, Some vs, [])]"
| "waitLimits (SWaitcntOp vm ex lg) = [(WaitVmem, vm, []), (WaitLgkm, lg, []), (WaitExpcnt, ex, [])]"
| "waitLimits (SWaitcntSplitOp load store ds km x as tn) =
     [(WaitVmem, load, [VmemLoad]), (WaitVscnt, store, [VmemStore]), (WaitLgkm, ds, [LdsDs]),
      (WaitLgkm, km, [Smem, Message]), (WaitAsync, as, [Async]), (WaitTensor, tn, [Tensor])]"
| "waitLimits _ = []"

lemma combineCounterReadyCycle_ge:
  assumes "combineCounterReadyCycle s kind limit c classes ready = Inr w"
  shows "ready \<le> w \<and> (\<forall>n. limit = Some n \<longrightarrow> outstanding (counterRetires s kind classes) w \<le> n)"
proof (cases limit)
  case None
  with assms show ?thesis by (simp add: combineCounterReadyCycle_def)
next
  case (Some n)
  with assms obtain d where d: "counterReadyCycle s kind n c classes = Inr d" "w = max ready d"
    by (auto simp: combineCounterReadyCycle_def bindR_eq_Inr)
  then have "d = drainCycle n c (counterRetires s kind classes)"
    by (simp add: counterReadyCycle_eq split: if_splits)
  then have "outstanding (counterRetires s kind classes) d \<le> n"
    using drainCycle_spec [of c n "counterRetires s kind classes"] by simp
  then show ?thesis
    using Some d(2) outstanding_antimono [of d w "counterRetires s kind classes"] by auto
qed

lemma combineCounterReadyCycle_le:
  "combineCounterReadyCycle s kind limit c classes ready = Inr w \<Longrightarrow> ready \<le> w"
  using combineCounterReadyCycle_ge by blast

lemma combineCounterReadyCycle_drained:
  assumes "combineCounterReadyCycle s kind (Some n) c classes ready = Inr w" and "w \<le> w'"
  shows "outstanding (counterRetires s kind classes) w' \<le> n"
  using combineCounterReadyCycle_ge [OF assms(1)]
    outstanding_antimono [OF assms(2), of "counterRetires s kind classes"] by auto

lemma waitcntReadyCycle_drains:
  assumes "waitcntReadyCycle s op c = Inr w" and "(kind, Some n, classes) \<in> set (waitLimits (op_class op))"
  shows "outstanding (counterRetires s kind classes) w \<le> n"
proof (cases "op_class op")
  case (SWaitcntVscntOp vs)
  with assms have "combineCounterReadyCycle s WaitVscnt (Some vs) c [] c = Inr (max c w)"
    by (simp add: waitcntReadyCycle_def combineCounterReadyCycle_def)
  moreover have "c \<le> w" using assms(1) SWaitcntVscntOp drainCycle_spec
    by (auto simp: waitcntReadyCycle_def counterReadyCycle_eq split: if_splits)
  ultimately show ?thesis using assms(2) SWaitcntVscntOp
    by (auto dest: combineCounterReadyCycle_drained)
next
  case (SWaitcntOp vm ex lg)
  with assms(1) obtain w1 w2 where
    w: "combineCounterReadyCycle s WaitVmem vm c [] c = Inr w1"
    "combineCounterReadyCycle s WaitLgkm lg c [] w1 = Inr w2"
    "combineCounterReadyCycle s WaitExpcnt ex c [] w2 = Inr w"
    by (auto simp: waitcntReadyCycle_def bindR_eq_Inr)
  note le = w(2,3) [THEN combineCounterReadyCycle_le]
  show ?thesis using assms(2) SWaitcntOp w le
    by (auto elim!: combineCounterReadyCycle_drained)
next
  case (SWaitcntSplitOp load store ds km x as tn)
  with assms(1) obtain w1 w2 w3 w4 w5 where
    w: "combineCounterReadyCycle s WaitVmem load c [VmemLoad] c = Inr w1"
    "combineCounterReadyCycle s WaitVscnt store c [VmemStore] w1 = Inr w2"
    "combineCounterReadyCycle s WaitLgkm ds c [LdsDs] w2 = Inr w3"
    "combineCounterReadyCycle s WaitLgkm km c [Smem, Message] w3 = Inr w4"
    "combineCounterReadyCycle s WaitAsync as c [Async] w4 = Inr w5"
    "combineCounterReadyCycle s WaitTensor tn c [Tensor] w5 = Inr w"
    by (auto simp: waitcntReadyCycle_def bindR_eq_Inr split: if_splits)
  note le = w(2,3,4,5,6) [THEN combineCounterReadyCycle_le]
  show ?thesis using assms(2) SWaitcntSplitOp w le
    by (auto elim!: combineCounterReadyCycle_drained)
qed (use assms in simp_all)

subsection \<open>Tokens\<close>

lemma collectTokenDeps_mem:
  assumes "\<not> dropsTokenCompletion op" and "v \<in> set (op_operands op)" and "isMemToken v"
    and "tokenEvents s v = Some ids" and "e \<in> set ids"
  shows "e \<in> set (collectTokenDeps s op)"
proof -
  let ?f = "\<lambda>operand deps. if \<not> isMemToken operand then deps
     else case tokenEvents s operand of None \<Rightarrow> deps | Some evs \<Rightarrow> appendUniqueEvents deps evs"
  have "set deps \<subseteq> set (fold ?f vs deps) \<and> (v \<in> set vs \<longrightarrow> e \<in> set (fold ?f vs deps))" for vs deps
  proof (induction vs arbitrary: deps)
    case (Cons x vs)
    have "set deps \<subseteq> set (?f x deps)" by (simp split: option.splits)
    moreover have "x = v \<Longrightarrow> e \<in> set (?f x deps)" using assms(3-5) by simp
    ultimately show ?case using Cons.IH [of "?f x deps"] by auto
  qed simp
  from this [of "[]" "op_operands op"] assms(1,2) show ?thesis by (simp add: collectTokenDeps_def)
qed

lemma pendingCount_unretired:
  assumes "waveOk s" and "kind \<noteq> WaitNone"
  shows "getPendingMemoryEventCount s kind =
    card {i. \<exists>ev. pendingEvents s i = Some ev \<and> ev_counter ev = kind \<and>
      currentCycle s < retireCycle ev}"
proof -
  let ?q = "counterIndex kind"
  let ?live = "filter (\<lambda>i. hasPendingEvent s i (currentCycle s)) (waitQueues s ! ?q)"
  have q: "?q < 6" by (rule counterIndex_less [OF assms(2)])
  have kinds: "pendingEvents s i = Some ev \<Longrightarrow> counterIndex (ev_counter ev) = ?q \<longleftrightarrow> ev_counter ev = kind"
    for i ev
    using assms counterIndex_inj [of "ev_counter ev" kind] by (auto simp: waveOk_def eventsOk_def)
  have "set ?live = {i. unretired s ?q i}"
    using assms(1) q by (auto simp: waveOk_def queuesOk_def hasPendingEvent_iff unretired_def)
      (metis option.inject)
  moreover have "distinct ?live" using assms(1) q by (auto simp: waveOk_def queuesOk_def)
  ultimately have "length ?live = card {i. unretired s ?q i}"
    by (metis distinct_card)
  moreover have "{i. unretired s ?q i} = {i. \<exists>ev. pendingEvents s i = Some ev \<and> ev_counter ev = kind \<and>
      currentCycle s < retireCycle ev}"
    using kinds by (auto simp: unretired_def)
  ultimately show ?thesis using assms(2) by (simp add: getPendingMemoryEventCount_def waitQueue_def)
qed

end
