(* ===== verification/Execution_Example.thy ===== *)
theory Execution_Example
  imports Execution_Props
begin

text \<open>
  Concrete waves on which the properties of the execution state are applied: a wave of a
  \<^verbatim>\<open>gfx950\<close> target that has issued two buffer loads, and the bundles that evaluate
  a query or a commit by rewriting.
\<close>

subsection \<open>Evaluation by rewriting\<close>

lemmas eval_defs =
  legacyRules_def splitRules_def getWaitcntCounterMapping_def getLegacyWaitcntCounter_def
  isaOp_def hasTrait_def noWaitcntInfo_def getWaitcntInfo_def isWaveAMDMachineOp_def
  getRegClass_def isMemToken_def VPermlane32SwapB32TupleOp_isSupportedOnIsa_def
  TDMTransfer_isSupportedOnIsa_def ops_Write4PassMAI_def ops_Write8PassMAI_def
  ops_Write16PassWMMA_def ops_WriteXDL2PassWMMA_def ops_WriteSMEM_def ops_NoInst_def
  ops_WaitcntPseudo_def ops_WriteBranch_def ops_Write64Bit_def ops_WriteFloatFMA_def
  ops_Write32Bit_def ops_WriteTrans32_def ops_WriteSALU_def ops_clusterIdentity_def
  ops_barrierClass_def ops_packedMath_def fallbackClassify_def issuesLdsWaitcnt_def
  isClusterIdentityRead_def isBarrierClassOp_def classifyCopyTuple_def classifyMappedOp_def
  classifyOp_def hasSchedClassMapping_def validateInstructionIssueCountTarget_def
  getInstructionIssueCount_def usesMfmaCoissueResource_def noCoexecution_def
  getInstructionCoexecutionModel_def getMemoryIssueResourceMask_def hasMemoryIssueResource_def
  noCounterLatencies_def noValueLatencies_def hasRegisterResult_def overrideOrDefault_def
  getConfiguredLatency_def waitcntIssueResources_def getWaitcntIssueResources_def
  counterKinds_def getMemoryCounterKind_def getMemoryIssueResources_def isLdsDmaIssuer_def
  getMemoryCounterLatency_def hasMemoryValueLatency_def getMemoryValueLatency_def
  noSlotHazards_def config_empty_def noHazards_def hazards_empty_def hazards_join_def
  dropsTokenCompletion_def isCDNA3Or4_def isCDNA4_def isValuScalarHazardResult_def
  hasRegClass_def hasOnlyRegClass_def isLegacyVALU_def issueSlotsUntil_def isSGPROffset_def
  isWideStoreWriteDataOp_def producesStoreWriteData_def hasMemoryTokenOperand_def
  consumesM0ThroughHazard_def writesM0ThroughHazard_def getStoreWriteDataHazard_def
  getValuWriteVGPRMfmaHazardLatency_def getInstructionIssueSlotHazardConfig_def
  getXdlResultHazardLatency_def getXdlSrcCOverlapHazardLatency_def
  getXdlSrcCExactHazardLatency_def isXdlResultHazardConsumer_def
  isInstructionExecutionStateArchSupported_def waitsForMemoryTokenDepsBeforeIssue_def
  eventClasses_def toInstructionEventClass_def pipeFor_def kMemoryIssueResources_def
  maxInFlightForPipe_def maxInFlightForMemoryIssue_def memoryIssueLatency_def
  appendUniqueEvents_def kMaxNopCycles_def getDmaIssueDelayNopSpan_def
  getLdsDmaServiceInterval_def init_es_def getIssuePeriod_def getInstructionSpan_def
  to_u64_def emptyDesc_def skipsDelay_def configureDmaIssueDelay_def describeMemory_def
  describe_def noStall_def addComponent_def addWaveComponent_def getIssueHazardWait_def
  hasPendingEvent_def waitQueue_def getPendingMemoryEventCount_def getPipeInFlightCount_def
  getValueReadyCycle_def getResourceCapacities_def counterReadyCycle_def
  combineCounterReadyCycle_def waitcntReadyCycle_def operandStep_def operandReadyCycle_def
  issueReadyCycle_def collectTokenDeps_def eventsReady_def tokenReadyCycle_def
  getTokenReadyCycle_def pipeReadyCycle_def memoryIssueReadyCycle_def
  memoryIssuesReadyCycle_def mfmaOperandReadyAt_def mfmaIssueSlotHazardWait_def
  legacyValuIssueSlotHazardWait_def permlane32SwapIssueSlotHazardWait_def
  operandHazardWait_def issueSlotHazardWait_def addIssueHazards_def
  appendIssueResourceUses_def appendDmaIssueResourceUses_def appendPipeResourceUse_def
  appendMfmaCoissueResourceUse_def appendLdsResourceUses_def getResourceUses_def
  addSharedResourceStall_def addDependencyStalls_def addLocalMemoryIssueStalls_def
  addLocalResourceStalls_def addCoexecStall_def queryWithResources_def validateCommitOp_def
  noPlacement_def query_es_def pruneRetiredEvents_def advanceToCycle_def bindValues_es_def
  bindValue_def commitNoMachineInst_def eventAt_def commitMemoryEvent_def
  commitMemoryEvents_def getResultReadyCycle_def commitResult_def commitResults_def
  commitPipe_def commitMemoryIssueOf_def commitMemoryIssue_def updateHazards_def slotAfter_def
  commitMfmaResult_def commitValuResult_def commitIssueSlotProducer_def
  commitIssueSlotHazards_def consumeCoexecutionWait_def commitCoexecution_def commitM0_def
  commitStoreData_def waitForIssue_def commitPseudo_def smoothLdsDma_def
  commitLocalResources_def commit_es_def commitEnd_def commitClock_def commitSlots_def
  commitTail_def commitBody_def commitIssued_def

lemma replicate_literals:
  "replicate 6 x = [x, x, x, x, x, x]" "replicate 5 x = [x, x, x, x, x]" "replicate 3 x = [x, x, x]"
  by (simp_all add: numeral_eq_Suc)

lemmas eval_steps = eval_defs [unfolded Let_def]

lemmas eval_target =
  replicate_literals bindR_def kGfx950_def init_config_def isSchedClassSupported_def
  selectTable_def getLatency_def getTableCycles_def getResourceCycles_def funit_def
  selectFUTable_def kArchTables_def kArchFUs_def table_defs getGfx1250IsaVersion_def isaEq_def
  arith64_simps saturatingMultiply_def saturatingAdd_def INT64_MAX_def init_schedule_model_def
  noLimits_def ex_env_def plainOp_def

lemmas eval_wave = eval_steps eval_target commitMachine_code commitWithResources_code

subsection \<open>Operations\<close>

definition ex_vgpr :: "nat \<Rightarrow> op_value" where
  "ex_vgpr i = \<lparr>val_id = i, val_type = RegType VGPR 1 (-1)\<rparr>"

definition ex_token :: "nat \<Rightarrow> op_value" where
  "ex_token i = \<lparr>val_id = i, val_type = MemTokenType\<rparr>"

definition ex_load :: "nat \<Rightarrow> op_info" where
  "ex_load i = (plainOp (NamedOp ''BufferLoadB32Op'') [VMEMLoadOp] [] [ex_vgpr i, ex_token (i + 100)])
     \<lparr>op_id := i,
      op_waitcnt := Some \<lparr>wi_event = EventVmem, wi_issueCount = 1, wi_outOfOrder = False\<rparr>\<rparr>"

definition ex_valu :: "nat \<Rightarrow> nat \<Rightarrow> op_info" where
  "ex_valu a i = (plainOp (NamedOp ''VAdd3U32Op'') [VALUOp] [ex_vgpr a] [ex_vgpr i])\<lparr>op_id := i\<rparr>"

definition ex_wait :: "nat \<Rightarrow> op_info" where
  "ex_wait n = plainOp (SWaitcntOp (Some n) None None) [WaitcntOp] [] []"

definition ex_barrier :: "nat \<Rightarrow> op_info" where
  "ex_barrier a = plainOp (NamedOp ''SBarrierOp'') [SALUOp] [ex_token a] []"

definition ex_wave :: wave_state where
  "ex_wave = init_es kGfx950 (init_config 64)"

lemmas ex_ops = ex_vgpr_def ex_token_def ex_load_def ex_valu_def ex_wait_def ex_barrier_def
  ex_wave_def

text \<open>The wave after two loads: their events retire at cycles 80 and 84.\<close>

definition ex_event :: "nat \<Rightarrow> int \<Rightarrow> pending_event" where
  "ex_event i r = \<lparr>ev_op = i, ev_id = i, retireCycle = r, ev_counter = WaitVmem,
     ev_class = VmemLoad\<rparr>"

definition ex_loaded :: wave_state where
  "ex_loaded = ex_wave
     \<lparr>valueReadyAt := [ex_vgpr 1 \<mapsto> 80, ex_token 101 \<mapsto> 80, ex_vgpr 2 \<mapsto> 84, ex_token 102 \<mapsto> 84],
      valueEvent := [ex_vgpr 1 \<mapsto> 1, ex_vgpr 2 \<mapsto> 2],
      tokenEvents := [ex_token 101 \<mapsto> [1], ex_token 102 \<mapsto> [2]],
      pendingEvents := [1 \<mapsto> ex_event 1 80, 2 \<mapsto> ex_event 2 84],
      waitQueues := [[1, 2], [], [], [], [], []],
      currentCycle := 8, nextEventId := 3, currentIssueSlot := 2\<rparr>"

end
