(* ===== verification/Wave_Props.thy ===== *)
theory Wave_Props
  imports Execution_Example
begin

text \<open>
  The properties of one wave: its queues answer with the least admissible cycle, a stall is
  the maximum of its components, a committed operation has waited for its operands, tokens,
  counters and issue slots, the clock of a run never moves back, and the counters count
  exactly the outstanding events.
\<close>

subsection \<open>Examples\<close>

lemma ex_loaded_ok: "waveOk ex_loaded"
  by (simp add: waveOk_def eventsOk_def queuesOk_def tokensOk_def unretired_def recorded_def
      ex_loaded_def ex_wave_def init_es_def ex_event_def nth_less_6 INT64_MAX_def)

lemma ex_wait_commit:
  "\<exists>r t rs'. commitWithResources ex_env [] (ex_wait 1) None noPlacement ex_loaded = Inr (r, t, rs') \<and>
     issueCycle r = 80 \<and> currentCycle t = 84"
  by (simp add: eval_wave ex_ops ex_loaded_def ex_event_def)

lemma ex_valu_commit:
  "\<exists>r t rs'. commitWithResources ex_env [] (ex_valu 1 5) None noPlacement ex_loaded = Inr (r, t, rs') \<and>
     issueCycle r = 80 \<and> currentCycle t = 84"
  by (simp add: eval_wave ex_ops ex_loaded_def ex_event_def)

lemma ex_barrier_commit:
  "\<exists>r t rs'. commitWithResources ex_env [] (ex_barrier 102) None noPlacement ex_loaded = Inr (r, t, rs') \<and>
     issueCycle r = 84 \<and> currentCycle t = 88"
  by (simp add: eval_wave ex_ops ex_loaded_def ex_event_def)

subsection \<open>Queues\<close>

text \<open>C23: a wait counter is resolved at the least cycle at which no more than \<open>limit\<close> of the
  matching events of its queue are outstanding; it fails exactly when a nonzero limit meets
  pending out-of-order SMEM events.\<close>

theorem counter_wait_least:
  "case counterReadyCycle s kind limit c classes of
     Inl err \<Rightarrow> err = Failure \<and> smemBlocked s kind limit c classes
   | Inr ready \<Rightarrow> \<not> smemBlocked s kind limit c classes \<and> c \<le> ready \<and>
       outstanding (counterRetires s kind classes) ready \<le> limit \<and>
       (\<forall>t. c \<le> t \<and> t < ready \<longrightarrow> limit < outstanding (counterRetires s kind classes) t)"
proof (cases "smemBlocked s kind limit c classes")
  case True
  then show ?thesis by (simp add: counterReadyCycle_eq)
next
  case False
  with counters.ready_ge [of s kind limit c classes] counters.ready_drained [of s kind limit c classes]
    counters.ready_least [of s kind limit c classes] show ?thesis
    by (simp add: counterReadyCycle_eq)
qed

theorem counter_wait_least_witness:
  "counterReadyCycle ex_loaded WaitVmem 1 8 [] = Inr 80 \<and>
   outstanding (counterRetires ex_loaded WaitVmem []) 80 \<le> 1 \<and>
   1 < outstanding (counterRetires ex_loaded WaitVmem []) 79"
proof -
  have v: "counterReadyCycle ex_loaded WaitVmem 1 8 [] = Inr 80"
    by (simp add: eval_wave ex_ops ex_loaded_def ex_event_def)
  show ?thesis using counter_wait_least [of ex_loaded WaitVmem 1 8 "[]"] v by simp
qed

text \<open>the pipe of an instruction and the accept queue of a memory instruction let it issue
  at the least cycle from which on they have room for it (for all its issues, or for as many as
  the queue holds).\<close>

theorem queue_room:
  "(pipe \<noteq> PipeNone \<and> 0 < maxInFlightForPipe (es_config s) pipe \<longrightarrow>
     (let ready = pipeReadyCycle s pipe c; q = pipeQueues s ! pipeIndex pipe in
        c \<le> ready \<and> outstanding q ready < maxInFlightForPipe (es_config s) pipe \<and>
        (\<forall>t. c \<le> t \<and> t < ready \<longrightarrow> maxInFlightForPipe (es_config s) pipe \<le> outstanding q t))) \<and>
   (0 < maxInFlightForMemoryIssue (es_arch s) resource \<and> 0 < memoryIssueLatency (es_arch s) resource \<longrightarrow>
     (let ready = memoryIssueReadyCycle s resource n c;
          q = memoryIssueQueues s ! memoryIssueIndex resource;
          depth = maxInFlightForMemoryIssue (es_arch s) resource;
          needed = min (max 1 n) depth in
        c \<le> ready \<and> outstanding q ready + needed \<le> depth \<and>
        (\<forall>t. c \<le> t \<and> t < ready \<longrightarrow> depth < outstanding q t + needed)))"
proof (intro conjI impI)
  let ?m = "maxInFlightForPipe (es_config s) pipe" and ?q = "pipeQueues s ! pipeIndex pipe"
  let ?ready = "pipeReadyCycle s pipe c"
  assume "pipe \<noteq> PipeNone \<and> 0 < ?m"
  then have on: "pipe \<noteq> PipeNone \<and> ?m \<noteq> 0" and m: "0 < ?m" by simp_all
  have "outstanding ?q ?ready < ?m" using pipes.ready_drained [OF on, of c] m by linarith
  moreover have "?m \<le> outstanding ?q t" if "c \<le> t \<and> t < ?ready" for t
    using pipes.ready_least [OF on] that m by force
  ultimately show "let ready = ?ready; q = ?q in
      c \<le> ready \<and> outstanding q ready < ?m \<and>
      (\<forall>t. c \<le> t \<and> t < ready \<longrightarrow> ?m \<le> outstanding q t)"
    using pipeReadyCycle_ge [of c s pipe] unfolding Let_def by blast
next
  let ?m = "maxInFlightForMemoryIssue (es_arch s) resource"
    and ?q = "memoryIssueQueues s ! memoryIssueIndex resource"
  let ?needed = "min (max 1 n) ?m" and ?ready = "memoryIssueReadyCycle s resource n c"
  assume "0 < ?m \<and> 0 < memoryIssueLatency (es_arch s) resource"
  then have on: "?m \<noteq> 0 \<and> 0 < memoryIssueLatency (es_arch s) resource" by simp
  have needed: "?needed \<le> ?m" "issueSlack s resource n = ?m - ?needed" by (simp_all add: issueSlack_def)
  have "outstanding ?q ?ready + ?needed \<le> ?m"
    using memoryIssue.ready_drained [OF on, of n c] needed by linarith
  moreover have "?m < outstanding ?q t + ?needed" if "c \<le> t \<and> t < ?ready" for t
    using memoryIssue.ready_least [OF on, of c t n] that needed by linarith
  ultimately show "let ready = ?ready; q = ?q; depth = ?m; needed = min (max 1 n) depth in
      c \<le> ready \<and> outstanding q ready + needed \<le> depth \<and>
      (\<forall>t. c \<le> t \<and> t < ready \<longrightarrow> depth < outstanding q t + needed)"
    using memoryIssueReadyCycle_ge [of c s resource n] unfolding Let_def by blast
qed

text \<open>A SIMD whose VALU pipe holds at most two instructions, with three in flight.\<close>

definition ex_pipes :: wave_state where
  "ex_pipes = ex_wave
     \<lparr>es_config := (init_config 64)\<lparr>enablePipeBackpressure := True, valuMaxInFlight := 2\<rparr>,
      pipeQueues := [[12, 30, 20], [], []],
      memoryIssueQueues := [[], [], [90, 91, 92, 93, 94, 95, 96], [], []]\<rparr>"

theorem queue_room_witness:
  "pipeReadyCycle ex_pipes PipeVALU 8 = 20 \<and> outstanding [12, 30, 20] 20 < 2 \<and>
   2 \<le> outstanding [12, 30, 20] 19 \<and>
   memoryIssueReadyCycle ex_pipes ResLdsDmaAccept 1 8 = 90"
proof -
  have v: "pipeReadyCycle ex_pipes PipeVALU 8 = 20"
    by (simp add: eval_wave ex_ops ex_pipes_def)
  have w: "memoryIssueReadyCycle ex_pipes ResLdsDmaAccept 1 8 = 90"
    by (simp add: eval_wave ex_ops ex_pipes_def)
  show ?thesis
    using conjunct1 [OF queue_room [of PipeVALU ex_pipes 8 ResLdsDmaAccept 1]] v w
    by (simp add: ex_pipes_def ex_wave_def maxInFlightForPipe_def init_es_def Let_def)
qed

subsection \<open>Stalls\<close>

text \<open>the stall of a query is the maximum of its components: every component is positive
  and no longer than the stall, and unless the operation can issue at once the length and the
  kind of the stall are those of one component.\<close>

theorem stall_is_maximum:
  assumes "query_es env prog s op = Inr st"
  shows "(\<forall>c\<in>set (components st). 0 < comp_cycles c \<and> comp_cycles c \<le> stall_cycles st) \<and>
    (stall_cycles st = 0 \<longleftrightarrow> components st = []) \<and>
    (components st = [] \<longrightarrow> stall_kind st = StallNone) \<and>
    (components st \<noteq> [] \<longrightarrow> (\<exists>c\<in>set (components st).
       comp_cycles c = stall_cycles st \<and> comp_kind c = stall_kind st))"
proof -
  obtain desc where q: "queryWithResources s op desc None noPlacement = Inr st"
    using assms by (auto simp: query_es_def bindR_eq_Inr)
  have "stallOk st" by (rule query_steps [OF q])
  then show ?thesis by (auto simp: stallOk_def split: if_splits)
qed

theorem stall_is_maximum_witness:
  "\<exists>st. query_es ex_env [] ex_loaded (ex_valu 1 5) = Inr st \<and> stall_cycles st = 72 \<and>
     stall_kind st = MemoryValue \<and> list_all (\<lambda>c. comp_cycles c \<le> 72) (components st)"
proof -
  obtain st where q: "query_es ex_env [] ex_loaded (ex_valu 1 5) = Inr st"
    and v: "stall_cycles st = 72" "stall_kind st = MemoryValue"
    by (simp add: eval_wave ex_ops ex_loaded_def ex_event_def)
  from stall_is_maximum [OF q] q v show ?thesis by (auto simp: list_all_iff)
qed

subsection \<open>What a committed operation has waited for\<close>

text \<open>C7: when a machine instruction is committed, every operand it has to wait for is ready at
  its issue cycle; the exceptions are memory tokens and an exactly overlapping accumulator of
  an MFMA, which is forwarded.\<close>

theorem operands_ready_at_issue:
  assumes "commitWithResources env prog op rs placement s = Inr (r, t, rs')"
    and "\<not> hasTrait op NoMachineInst" and "i < length (op_operands op)"
    and "\<not> isMemToken (op_operands op ! i)" and "\<not> forwardsSrcC s op i (op_operands op ! i)"
  shows "getValueReadyCycle s (op_operands op ! i) \<le> issueCycle r"
proof -
  obtain desc st where st: "addDependencyStalls s op desc noStall = Inr st"
    and le: "currentCycle s + stall_cycles st \<le> issueCycle r"
    by (rule commit_dependencies [OF assms(1)])
  obtain ready kind where ready: "issueReadyCycle s op = (ready, kind)" by force
  have "getValueReadyCycle s (op_operands op ! i) \<le> ready"
    by (rule issueReadyCycle_ge(2) [OF ready assms(3-5)])
  also have "\<dots> \<le> currentCycle s + stall_cycles st"
    by (rule dependency_stalls(1) [OF st assms(2) ready])
  finally show ?thesis using le by simp
qed

theorem operands_ready_at_issue_witness:
  "\<exists>r t rs'. commitWithResources ex_env [] (ex_valu 1 5) None noPlacement ex_loaded = Inr (r, t, rs') \<and>
     getValueReadyCycle ex_loaded (ex_vgpr 1) \<le> issueCycle r \<and>
     getValueReadyCycle ex_loaded (ex_vgpr 1) = 80"
proof -
  obtain r t rs' where
    c: "commitWithResources ex_env [] (ex_valu 1 5) None noPlacement ex_loaded = Inr (r, t, rs')"
    using ex_valu_commit by blast
  have "getValueReadyCycle ex_loaded (ex_vgpr 1) \<le> issueCycle r"
    using operands_ready_at_issue [OF c, of 0]
    by (simp add: ex_ops plainOp_def hasTrait_def isMemToken_def forwardsSrcC_def)
  moreover have "getValueReadyCycle ex_loaded (ex_vgpr 1) = 80"
    by (simp add: getValueReadyCycle_def ex_loaded_def ex_ops)
  ultimately show ?thesis using c by blast
qed

text \<open>C13: an operation that waits for memory tokens before it issues (barriers, stores and
  LDS-DMA) is committed only when every event behind its token operands has retired.\<close>

theorem tokens_done_at_issue:
  assumes "commitWithResources env prog op rs placement s = Inr (r, t, rs')"
    and "waitsForMemoryTokenDepsBeforeIssue op" and "\<not> dropsTokenCompletion op"
    and "v \<in> set (op_operands op)" and "isMemToken v" and "tokenEvents s v = Some ids"
    and "e \<in> set ids" and "pendingEvents s e = Some ev"
  shows "retireCycle ev \<le> issueCycle r"
proof -
  obtain desc st where d: "describe env prog s op = Inr desc"
    and st: "addDependencyStalls s op desc noStall = Inr st"
    and le: "currentCycle s + stall_cycles st \<le> issueCycle r"
    by (rule commit_dependencies [OF assms(1)])
  have "waitsForTokenDeps desc" using describe_fields(4) [OF d] assms(2) by simp
  then have "tokenReadyCycle s op \<le> currentCycle s + stall_cycles st"
    by (rule dependency_stalls(2) [OF st])
  moreover have "e \<in> set (collectTokenDeps s op)"
    by (rule collectTokenDeps_mem [OF assms(3-7)])
  then have "retireCycle ev \<le> tokenReadyCycle s op"
    using assms(8) by (auto simp: tokenReadyCycle_def intro: eventsReady_ge(2))
  ultimately show ?thesis using le by simp
qed

theorem tokens_done_at_issue_witness:
  "\<exists>r t rs'. commitWithResources ex_env [] (ex_barrier 102) None noPlacement ex_loaded = Inr (r, t, rs') \<and>
     84 \<le> issueCycle r"
proof -
  obtain r t rs' where
    c: "commitWithResources ex_env [] (ex_barrier 102) None noPlacement ex_loaded = Inr (r, t, rs')"
    using ex_barrier_commit by blast
  have "retireCycle (ex_event 2 84) \<le> issueCycle r"
    by (rule tokens_done_at_issue [OF c, of "ex_token 102" "[2]" 2])
       (simp_all add: ex_ops plainOp_def waitsForMemoryTokenDepsBeforeIssue_def
          hasMemoryTokenOperand_def isMemToken_def isaOp_def dropsTokenCompletion_def hasTrait_def
          ex_loaded_def)
  with c show ?thesis by (auto simp: ex_event_def)
qed

text \<open>C12: when a wait instruction is committed, every counter it names is down to its limit at
  the issue cycle: at most that many matching events have not retired.\<close>

theorem waitcnt_drained_at_issue:
  assumes "commitWithResources env prog op rs placement s = Inr (r, t, rs')"
    and "hasTrait op WaitcntOp" and "(kind, Some n, classes) \<in> set (waitLimits (op_class op))"
  shows "outstanding (counterRetires s kind classes) (issueCycle r) \<le> n"
proof -
  obtain desc st where d: "describe env prog s op = Inr desc"
    and st: "addDependencyStalls s op desc noStall = Inr st"
    and le: "currentCycle s + stall_cycles st \<le> issueCycle r"
    by (rule commit_dependencies [OF assms(1)])
  have "desc_waitcnt desc" using describe_fields(3) [OF d] assms(2) by simp
  then obtain w where w: "waitcntReadyCycle s op (currentCycle s) = Inr w"
    "w \<le> currentCycle s + stall_cycles st"
    using dependency_stalls(3) [OF st] by blast
  have "outstanding (counterRetires s kind classes) (issueCycle r) \<le>
      outstanding (counterRetires s kind classes) w"
    using w(2) le by (intro outstanding_antimono) simp
  with waitcntReadyCycle_drains [OF w(1) assms(3)] show ?thesis by simp
qed

theorem waitcnt_drained_at_issue_witness:
  "\<exists>r t rs'. commitWithResources ex_env [] (ex_wait 1) None noPlacement ex_loaded = Inr (r, t, rs') \<and>
     issueCycle r = 80 \<and> outstanding (counterRetires ex_loaded WaitVmem []) 80 \<le> 1"
proof -
  obtain r t rs' where
    c: "commitWithResources ex_env [] (ex_wait 1) None noPlacement ex_loaded = Inr (r, t, rs')"
    and r: "issueCycle r = 80"
    using ex_wait_commit by blast
  have "outstanding (counterRetires ex_loaded WaitVmem []) (issueCycle r) \<le> 1"
    by (rule waitcnt_drained_at_issue [OF c]) (simp_all add: ex_ops plainOp_def hasTrait_def)
  with c r show ?thesis by auto
qed

subsection \<open>Runs of one wave\<close>

text \<open>C6: from the initial state, along every run of committed operations, the clock never moves
  back, and whenever a counter is asked for its value the answer is the number of recorded
  events of that counter that have not retired yet.\<close>

theorem run_counts_outstanding:
  assumes "wave.trace env prog ops (init_es arch config) = Inr (cs, t)"
    and "list_all DmaIssueDelayOp_verify ops" and "kind \<noteq> WaitNone"
  shows "sorted (0 # cs) \<and> length cs = length ops \<and>
    getPendingMemoryEventCount t kind =
      card {i. \<exists>ev. pendingEvents t i = Some ev \<and> ev_counter ev = kind \<and>
        currentCycle t < retireCycle ev}"
proof -
  from wave.trace_sorted [OF assms(1,2) init_es_ok]
  have ok: "waveOk t" and cs: "sorted (currentCycle (init_es arch config) # cs)" by auto
  have "currentCycle (init_es arch config) = 0" by (simp add: init_es_def)
  moreover have "length cs = length ops" using wave.trace_run [OF assms(1)] by simp
  ultimately show ?thesis using cs pendingCount_unretired [OF ok assms(3)] by simp
qed

theorem run_counts_outstanding_witness:
  "\<exists>cs t. wave.trace ex_env [] [ex_load 1] (init_es kGfx950 (init_config 64)) = Inr (cs, t) \<and>
     getPendingMemoryEventCount t WaitVmem = card {i. \<exists>ev. pendingEvents t i = Some ev \<and>
       ev_counter ev = WaitVmem \<and> currentCycle t < retireCycle ev} \<and>
     getPendingMemoryEventCount t WaitVmem = 1"
proof -
  obtain cs t where c: "wave.trace ex_env [] [ex_load 1] (init_es kGfx950 (init_config 64)) = Inr (cs, t)"
    and n: "getPendingMemoryEventCount t WaitVmem = 1"
    by (simp add: commit_step_def eval_wave ex_ops)
  have "list_all DmaIssueDelayOp_verify [ex_load 1]"
    by (simp add: ex_ops plainOp_def DmaIssueDelayOp_verify_def)
  from run_counts_outstanding [OF c this, of WaitVmem] c n show ?thesis by auto
qed

end
