(* ===== verification/Wave_Hazards.thy ===== *)
theory Wave_Hazards
  imports Execution_Example
begin

text \<open>
  Issue-slot hazards of one wave: the wait of an instruction is the least number of issue
  slots after which none of its operands is inside a hazard window; values bound at control
  flow keep the hazards, tokens and ready cycles of their sources; and the search for the
  producer of wide store data is graph reachability.
\<close>

subsection \<open>Required issue slots\<close>

text \<open>
  The issue slots that an instruction must have reached for operand \<open>i\<close> with hazards \<open>h\<close>.
  An MFMA instruction waits for vector writes, for the results of earlier MFMA instructions and,
  at its accumulator (operand 2), for the exact forwarding slot when there is one and for the
  overlap slot otherwise; other instructions that read MFMA results wait for the result.
\<close>

definition mfmaSlots :: "op_info \<Rightarrow> instruction_desc \<Rightarrow> nat \<Rightarrow> issue_slot_hazards \<Rightarrow> nat list" where
  "mfmaSlots op desc i h =
     (if mfmaPasses desc = 0
      then if isXdlResultHazardConsumer op then [mfmaResultReadyAt h] else []
      else [valuWriteVGPRMfmaReadyAt h,
            if i \<noteq> 2 then mfmaResultReadyAt h
            else if mfmaSrcCExactReadyAt h = 0 then mfmaSrcCOverlapReadyAt h
            else mfmaSrcCExactReadyAt h])"

definition valuSlots :: "wave_state \<Rightarrow> instruction_desc \<Rightarrow> op_value \<Rightarrow> issue_slot_hazards \<Rightarrow>
    nat list" where
  "valuSlots s desc v h =
     (if \<not> legacyVALU desc \<or> config_empty (issueSlotHazardConfig s) then []
      else (if getRegClass v = Some VGPR \<and> \<not> desc_trans desc then [transWriteVGPRReadyAt h] else []) @
           (if getRegClass v = Some VGPR \<and> laneRead desc then [valuWriteVGPRScalarReadyAt h] else []) @
           (if getRegClass v = Some SGPR \<or> getRegClass v = Some VCC
            then [valuWriteSGPRReadyAt h] else []))"

definition permlaneSlots :: "op_info \<Rightarrow> issue_slot_hazards \<Rightarrow> nat list" where
  "permlaneSlots op h =
     (if isaOp op [''VPermlane32SwapB32TupleOp''] then [valuWriteVGPRPermlane32SwapReadyAt h]
      else [])"

definition requiredSlots :: "wave_state \<Rightarrow> op_info \<Rightarrow> instruction_desc \<Rightarrow> nat \<Rightarrow> op_value \<Rightarrow>
    issue_slot_hazards \<Rightarrow> nat list" where
  "requiredSlots s op desc i v h =
     mfmaSlots op desc i h @ valuSlots s desc v h @ permlaneSlots op h"

text \<open>No hazard of an operand is so far ahead that the 32-bit wait wraps.\<close>

definition nearSlots :: "wave_state \<Rightarrow> op_info \<Rightarrow> instruction_desc \<Rightarrow> bool" where
  "nearSlots s op desc \<longleftrightarrow> (\<forall>(i, v)\<in>set (enumerate 0 (op_operands op)). \<forall>h.
     issueSlotHazards s v = Some h \<longrightarrow>
     (\<forall>r\<in>set (requiredSlots s op desc i v h). r < currentIssueSlot s + 4294967296))"

lemma issueSlotsUntil_le:
  "r < now + 4294967296 \<Longrightarrow> issueSlotsUntil r now \<le> w \<longleftrightarrow> r \<le> now + w"
  by (auto simp: issueSlotsUntil_def arith64_simps)

lemma issueSlotsUntil_0: "issueSlotsUntil 0 now = 0"
  by (simp add: issueSlotsUntil_def)

definition near :: "wave_state \<Rightarrow> nat list \<Rightarrow> bool" where
  "near s = list_all (\<lambda>r. r < currentIssueSlot s + 4294967296)"

lemma mfmaWait_le:
  "near s (mfmaSlots op desc i h) \<Longrightarrow> mfmaIssueSlotHazardWait s op desc i h \<le> w \<longleftrightarrow>
     list_all (\<lambda>r. r \<le> currentIssueSlot s + w) (mfmaSlots op desc i h)"
  by (cases "mfmaPasses desc = 0")
     (auto simp: near_def mfmaSlots_def mfmaIssueSlotHazardWait_def mfmaOperandReadyAt_def
       issueSlotsUntil_le issueSlotsUntil_0 Let_def)

lemma valuWait_le:
  "near s (valuSlots s desc v h) \<Longrightarrow> legacyValuIssueSlotHazardWait s v desc h \<le> w \<longleftrightarrow>
     list_all (\<lambda>r. r \<le> currentIssueSlot s + w) (valuSlots s desc v h)"
  by (cases "getRegClass v = Some VGPR"; cases "desc_trans desc"; cases "laneRead desc")
     (auto simp: near_def valuSlots_def legacyValuIssueSlotHazardWait_def issueSlotsUntil_le Let_def)

lemma permlaneWait_le:
  "near s (permlaneSlots op h) \<Longrightarrow> permlane32SwapIssueSlotHazardWait s op h \<le> w \<longleftrightarrow>
     list_all (\<lambda>r. r \<le> currentIssueSlot s + w) (permlaneSlots op h)"
  by (cases "isaOp op [''VPermlane32SwapB32TupleOp'']")
     (simp_all add: near_def permlaneSlots_def permlane32SwapIssueSlotHazardWait_def issueSlotsUntil_le)

lemma operandHazardWait_le:
  assumes "\<And>h. issueSlotHazards s v = Some h \<Longrightarrow>
    \<forall>r\<in>set (requiredSlots s op desc i v h). r < currentIssueSlot s + 4294967296"
  shows "operandHazardWait s op desc (i, v) n \<le> w \<longleftrightarrow> n \<le> w \<and> (\<forall>h. issueSlotHazards s v = Some h \<longrightarrow>
    (\<forall>r\<in>set (requiredSlots s op desc i v h). r \<le> currentIssueSlot s + w))"
proof (cases "issueSlotHazards s v")
  case (Some h)
  with assms have near: "near s (mfmaSlots op desc i h)" "near s (valuSlots s desc v h)"
    "near s (permlaneSlots op h)" by (simp_all add: near_def requiredSlots_def list_all_iff)
  have "(\<forall>r\<in>set (requiredSlots s op desc i v h). r \<le> currentIssueSlot s + w) \<longleftrightarrow>
      mfmaIssueSlotHazardWait s op desc i h \<le> w \<and> legacyValuIssueSlotHazardWait s v desc h \<le> w \<and>
      permlane32SwapIssueSlotHazardWait s op h \<le> w"
    unfolding mfmaWait_le [OF near(1)] valuWait_le [OF near(2)] permlaneWait_le [OF near(3)]
    by (auto simp: requiredSlots_def list_all_iff)
  with Some show ?thesis by (simp add: operandHazardWait_def)
qed (simp add: operandHazardWait_def)

lemma fold_operandHazardWait_le:
  assumes "\<And>i v h. (i, v) \<in> set ivs \<Longrightarrow> issueSlotHazards s v = Some h \<Longrightarrow>
    \<forall>r\<in>set (requiredSlots s op desc i v h). r < currentIssueSlot s + 4294967296"
  shows "fold (operandHazardWait s op desc) ivs n \<le> w \<longleftrightarrow> n \<le> w \<and>
    (\<forall>(i, v)\<in>set ivs. \<forall>h. issueSlotHazards s v = Some h \<longrightarrow>
      (\<forall>r\<in>set (requiredSlots s op desc i v h). r \<le> currentIssueSlot s + w))"
  using assms
proof (induction ivs arbitrary: n)
  case (Cons iv ivs)
  obtain i v where iv: "iv = (i, v)" by force
  have IH: "fold (operandHazardWait s op desc) ivs m \<le> w \<longleftrightarrow> m \<le> w \<and>
    (\<forall>(i, v)\<in>set ivs. \<forall>h. issueSlotHazards s v = Some h \<longrightarrow>
      (\<forall>r\<in>set (requiredSlots s op desc i v h). r \<le> currentIssueSlot s + w))" for m
    using Cons.prems by (intro Cons.IH) auto
  have "operandHazardWait s op desc (i, v) n \<le> w \<longleftrightarrow> n \<le> w \<and> (\<forall>h. issueSlotHazards s v = Some h \<longrightarrow>
    (\<forall>r\<in>set (requiredSlots s op desc i v h). r \<le> currentIssueSlot s + w))"
    using Cons.prems iv by (intro operandHazardWait_le) auto
  then show ?case by (simp add: iv IH)
qed simp

lemma issueSlotHazardWait_le:
  assumes "nearSlots s op desc"
  shows "issueSlotHazardWait s op desc \<le> w \<longleftrightarrow> (\<forall>i h. i < length (op_operands op) \<longrightarrow>
    issueSlotHazards s (op_operands op ! i) = Some h \<longrightarrow>
    (\<forall>r\<in>set (requiredSlots s op desc i (op_operands op ! i) h). r \<le> currentIssueSlot s + w))"
proof -
  have "issueSlotHazardWait s op desc \<le> w \<longleftrightarrow>
    (\<forall>(i, v)\<in>set (enumerate 0 (op_operands op)). \<forall>h. issueSlotHazards s v = Some h \<longrightarrow>
      (\<forall>r\<in>set (requiredSlots s op desc i v h). r \<le> currentIssueSlot s + w))"
    unfolding issueSlotHazardWait_def
    using assms by (subst fold_operandHazardWait_le) (auto simp: nearSlots_def)
  then show ?thesis by (fastforce simp: in_set_enumerate_eq)
qed

lemma issueSlotHazardWait_u32: "issueSlotHazardWait s op desc < 4294967296"
proof -
  have u: "issueSlotsUntil r now < 4294967296" for r now
    by (auto simp: issueSlotsUntil_def trunc_u32_def)
  have "mfmaIssueSlotHazardWait s op desc i h < 4294967296"
    "legacyValuIssueSlotHazardWait s v desc h < 4294967296"
    "permlane32SwapIssueSlotHazardWait s op h < 4294967296" for i v h
    using u by (simp_all add: mfmaIssueSlotHazardWait_def legacyValuIssueSlotHazardWait_def
        permlane32SwapIssueSlotHazardWait_def Let_def)
  then have "operandHazardWait s op desc iv n < 4294967296" if "n < 4294967296" for iv n
    using that by (cases iv) (simp add: operandHazardWait_def split: option.splits)
  then have "fold (operandHazardWait s op desc) ivs n < 4294967296" if "n < 4294967296" for ivs n
    using that by (induction ivs arbitrary: n) auto
  then show ?thesis by (simp add: issueSlotHazardWait_def)
qed

subsection \<open>The wait reaches the commit\<close>

lemma components_addComponent: "set (components st) \<subseteq> set (components (addComponent k n r sc st))"
  by (auto simp: addComponent_def Let_def)

lemma component_added:
  "0 < n \<Longrightarrow> \<lparr>comp_kind = k, comp_cycles = n, comp_resource = ResNone, comp_scope = ScopeWave\<rparr>
     \<in> set (components (addWaveComponent k n st))"
  by (simp add: addWaveComponent_def addComponent_def Let_def)

lemma getIssueHazardWait_ge:
  assumes "c \<in> set (components st)" and "comp_kind c \<in> {InstructionHazard, M0ReadWrite, StoreWriteData}"
  shows "to_u32 (comp_cycles c) \<le> getIssueHazardWait st"
proof -
  let ?f = "\<lambda>c wait. if comp_kind c \<in> {InstructionHazard, M0ReadWrite, StoreWriteData}
     then max wait (to_u32 (comp_cycles c)) else wait"
  have "n \<le> fold ?f cs n \<and> (c \<in> set cs \<longrightarrow> to_u32 (comp_cycles c) \<le> fold ?f cs n)" for cs n
  proof (induction cs arbitrary: n)
    case (Cons x xs)
    from Cons [of "?f x n"] show ?case using assms(2) by auto
  qed simp
  with assms(1) show ?thesis unfolding getIssueHazardWait_def by blast
qed

lemma query_hazard_component:
  assumes "queryWithResources s op desc rs placement = Inr st" and "0 < issueSlotHazardWait s op desc"
  shows "\<exists>c\<in>set (components st). comp_kind c = InstructionHazard \<and>
    comp_cycles c = int (issueSlotHazardWait s op desc)"
proof -
  let ?c = "\<lparr>comp_kind = InstructionHazard, comp_cycles = int (issueSlotHazardWait s op desc),
    comp_resource = ResNone, comp_scope = ScopeWave\<rparr>"
  have hazards: "?c \<in> set (components (addIssueHazards s op desc st0))" for st0
    using assms(2) by (simp add: addIssueHazards_def Let_def component_added)
  have shared: "set (components st0) \<subseteq> set (components st1)"
    if "addSharedResourceStall s op desc r p st0 = Inr st1" for r p st0 st1
    using that components_addComponent
    by (auto simp: addSharedResourceStall_def Let_def bindR_eq_Inr split: if_splits; blast)
  have "?c \<in> set (components st)"
  proof (cases rs)
    case None
    with assms(1) hazards show ?thesis by (auto simp: queryWithResources_def bindR_eq_Inr Let_def)
  next
    case (Some r)
    with assms(1) hazards shared show ?thesis
      by (simp add: queryWithResources_def bindR_eq_Inr Let_def) blast
  qed
  then show ?thesis by force
qed

lemma hazardWait_committed:
  assumes "queryWithResources s op desc rs placement = Inr st"
  shows "issueSlotHazardWait s op desc \<le> getIssueHazardWait st"
proof (cases "issueSlotHazardWait s op desc = 0")
  case False
  with query_hazard_component [OF assms] obtain c where c: "c \<in> set (components st)"
    "comp_kind c = InstructionHazard" "comp_cycles c = int (issueSlotHazardWait s op desc)" by auto
  with getIssueHazardWait_ge [OF c(1)] issueSlotHazardWait_u32 [of s op desc] show ?thesis
    by (simp add: to_u32_id)
qed simp

subsection \<open>The issue slot of a commit\<close>

lemma fold_unchanged:
  "(\<And>x s. g (f x s) = g s) \<Longrightarrow> g (fold f xs s) = g s"
  by (induction xs arbitrary: s) simp_all

lemma slot_unchanged [simp]:
  "currentIssueSlot (bindValues_es v sources s) = currentIssueSlot s"
  "currentIssueSlot (smoothLdsDma desc shared s) = currentIssueSlot s"
  "currentIssueSlot (commitResult desc cycle ready deps evs v s) = currentIssueSlot s"
  "currentIssueSlot (commitPipe pipe ready s) = currentIssueSlot s"
  "currentIssueSlot (commitMemoryIssueOf desc cycle resource s) = currentIssueSlot s"
  "currentIssueSlot (updateHazards v f s) = currentIssueSlot s"
  "currentIssueSlot (commitCoexecution desc s) = currentIssueSlot s"
  "currentIssueSlot (commitM0 desc s) = currentIssueSlot s"
  "currentIssueSlot (commitStoreData desc s) = currentIssueSlot s"
  "currentIssueSlot (snd (commitMemoryEvent op desc cycle issue acc)) = currentIssueSlot (snd acc)"
  by (auto simp: bindValues_es_def smoothLdsDma_def commitResult_def commitPipe_def
      commitMemoryIssueOf_def updateHazards_def commitCoexecution_def commitM0_def
      commitStoreData_def commitMemoryEvent_def Let_def split: prod.splits)

lemma slot_unchanged_parts [simp]:
  "currentIssueSlot (snd (commitNoMachineInst op s)) = currentIssueSlot s"
  "currentIssueSlot (snd (commitMemoryEvents op desc cycle s)) = currentIssueSlot s"
  "currentIssueSlot (commitResults op desc cycle evs s) = currentIssueSlot s"
  "currentIssueSlot (commitLocalResources desc ready s) = currentIssueSlot s"
  "currentIssueSlot (commitMemoryIssue desc cycle s) = currentIssueSlot s"
  "currentIssueSlot (commitIssueSlotHazards op desc s) = currentIssueSlot s"
proof -
  note unchanged = fold_unchanged [where g = currentIssueSlot]
    fold_unchanged [where g = "\<lambda>p. currentIssueSlot (snd p)"]
  have valu: "currentIssueSlot (commitValuResult desc v s) = currentIssueSlot s" for v s
    by (simp add: commitValuResult_def Let_def)
  have mfma: "currentIssueSlot (commitMfmaResult passes v s) = currentIssueSlot s" for passes v s
    by (simp add: commitMfmaResult_def Let_def)
  show "currentIssueSlot (snd (commitNoMachineInst op s)) = currentIssueSlot s"
    unfolding commitNoMachineInst_def Let_def by (subst unchanged(2)) (auto split: prod.splits)
  show "currentIssueSlot (snd (commitMemoryEvents op desc cycle s)) = currentIssueSlot s"
    unfolding commitMemoryEvents_def by (simp add: unchanged(2))
  show "currentIssueSlot (commitResults op desc cycle evs s) = currentIssueSlot s"
    unfolding commitResults_def Let_def by (simp add: unchanged(1))
  show "currentIssueSlot (commitLocalResources desc ready s) = currentIssueSlot s"
    by (simp add: commitLocalResources_def Let_def)
  show "currentIssueSlot (commitMemoryIssue desc cycle s) = currentIssueSlot s"
    by (simp add: commitMemoryIssue_def unchanged(1))
  show "currentIssueSlot (commitIssueSlotHazards op desc s) = currentIssueSlot s"
    by (simp add: commitIssueSlotHazards_def commitIssueSlotProducer_def unchanged(1) valu mfma)
qed

lemma waitForIssue_slot:
  "currentIssueSlot (waitForIssue desc st s) = wrap_u64 (currentIssueSlot s + getIssueHazardWait st)"
  by (simp add: waitForIssue_def Let_def consumeCoexecutionWait_simps)

lemma advanceToCycle_slot: "currentIssueSlot (advanceToCycle cycle s) = currentIssueSlot s"
  by (simp add: advanceToCycle_def pruneRetiredEvents_def)

lemma slot_unchanged_pairs:
  "commitNoMachineInst op s = (ready, s') \<Longrightarrow> currentIssueSlot s' = currentIssueSlot s"
  "commitMemoryEvents op desc cycle s = (evs, s') \<Longrightarrow> currentIssueSlot s' = currentIssueSlot s"
  using slot_unchanged_parts(1,2) by (metis snd_conv)+

lemma commitPseudo_slot:
  "commitPseudo op desc st s = (r, t) \<Longrightarrow> currentIssueSlot t = currentIssueSlot s \<and> stall r = st"
  by (auto simp: commitPseudo_def Let_def slot_unchanged_pairs split: prod.splits)

lemma commitMachine_slot:
  "commitMachine op desc st rs placement s = (r, t, rs') \<Longrightarrow>
   currentIssueSlot t = wrap_u64 (currentIssueSlot s + issueSlots desc) \<and> stall r = st"
  by (cases rs) (auto simp: commitMachine_def Let_def advanceToCycle_slot slot_unchanged_pairs
      split: prod.splits)

subsection \<open>Properties\<close>

text \<open>C24: The issue-slot wait of an instruction is the least number of slots after which every
  operand has left its hazard windows (results of MFMA and transcendental instructions, vector
  and scalar writes read by lanes, permutes and MFMA), and a commit spends it: as long as the
  64-bit slot counter does not wrap and no window is 2^32 slots ahead, the committed state has
  moved on by the hazard wait and by the slots of the instruction itself, so the slot at which
  the instruction issued is not below any slot that one of its operands requires.\<close>

theorem issue_slot_hazards_respected:
  assumes "commitWithResources env prog op rs placement s = Inr (r, t, rs')"
    and "describe env prog s op = Inr desc" and "nearSlots s op desc"
    and "currentIssueSlot s + getIssueHazardWait (stall r) + issueSlots desc < 2 ^ 64"
  shows "(issueSlotHazardWait s op desc \<le> w \<longleftrightarrow> (\<forall>i h. i < length (op_operands op) \<longrightarrow>
      issueSlotHazards s (op_operands op ! i) = Some h \<longrightarrow>
      (\<forall>slot\<in>set (requiredSlots s op desc i (op_operands op ! i) h).
         slot \<le> currentIssueSlot s + w))) \<and>
    currentIssueSlot t = currentIssueSlot s + getIssueHazardWait (stall r) +
      (if noMachineInst desc then 0 else issueSlots desc) \<and>
    (\<forall>i h. i < length (op_operands op) \<longrightarrow> issueSlotHazards s (op_operands op ! i) = Some h \<longrightarrow>
      (\<forall>slot\<in>set (requiredSlots s op desc i (op_operands op ! i) h).
         slot + (if noMachineInst desc then 0 else issueSlots desc) \<le> currentIssueSlot t))"
proof -
  obtain desc' st where d: "describe env prog s op = Inr desc'"
    and q: "queryWithResources s op desc' rs placement = Inr st"
    and p: "noMachineInst desc' \<longrightarrow>
      commitPseudo op desc' st (waitForIssue desc' st s) = (r, t) \<and> rs' = rs"
    and m: "\<not> noMachineInst desc' \<longrightarrow>
      commitMachine op desc' st rs placement (waitForIssue desc' st s) = (r, t, rs')"
    and "isInstructionExecutionStateArchSupported env (arch_isa (es_arch s))"
    and "isWaveAMDMachineOp op"
    by (rule commitWithResources_cases [OF assms(1)]) (rule that)
  have desc: "desc' = desc" using d assms(2) by simp
  have st: "stall r = st"
    using p m commitPseudo_slot commitMachine_slot by (cases "noMachineInst desc'") blast+
  have slot: "currentIssueSlot t = currentIssueSlot s + getIssueHazardWait st +
      (if noMachineInst desc then 0 else issueSlots desc)"
    using p m commitPseudo_slot [of op desc' st "waitForIssue desc' st s" r t]
      commitMachine_slot [of op desc' st rs placement "waitForIssue desc' st s" r t rs'] assms(4)
    unfolding desc st waitForIssue_slot by (cases "noMachineInst desc") (auto simp: arith64_simps)
  note least = issueSlotHazardWait_le [OF assms(3)]
  have "slot \<le> currentIssueSlot s + getIssueHazardWait st"
    if "i < length (op_operands op)" "issueSlotHazards s (op_operands op ! i) = Some h"
      "slot \<in> set (requiredSlots s op desc i (op_operands op ! i) h)" for i h slot
    using hazardWait_committed [OF q] that least [of "getIssueHazardWait st"] unfolding desc by blast
  then show ?thesis using slot least st by fastforce
qed

text \<open>A wave in which register 1 was just written by a transcendental instruction.\<close>

definition ex_hazard :: wave_state where
  "ex_hazard = ex_wave\<lparr>currentIssueSlot := 5, currentCycle := 20,
     issueSlotHazards := [ex_vgpr 1 \<mapsto> noHazards\<lparr>transWriteVGPRReadyAt := 6\<rparr>]\<rparr>"

theorem issue_slot_hazards_respected_witness:
  "\<exists>r t rs'. commitWithResources ex_env [] (ex_valu 1 5) None noPlacement ex_hazard = Inr (r, t, rs') \<and>
     7 \<le> currentIssueSlot t"
proof -
  let ?op = "ex_valu 1 5"
  obtain r t rs' desc where
    c: "commitWithResources ex_env [] ?op None noPlacement ex_hazard = Inr (r, t, rs')"
    and d: "describe ex_env [] ex_hazard ?op = Inr desc"
    by (simp add: eval_wave ex_ops ex_hazard_def)
  have near: "nearSlots ex_hazard ?op desc"
    using d by (auto simp: eval_wave ex_ops ex_hazard_def nearSlots_def requiredSlots_def
        mfmaSlots_def valuSlots_def permlaneSlots_def)
  have small: "currentIssueSlot ex_hazard + getIssueHazardWait (stall r) + issueSlots desc < 2 ^ 64"
    and desc: "\<not> noMachineInst desc" "issueSlots desc = 1"
    and slot: "issueSlotHazards ex_hazard (op_operands ?op ! 0) = Some (noHazards\<lparr>transWriteVGPRReadyAt := 6\<rparr>)"
      "6 \<in> set (requiredSlots ex_hazard ?op desc 0 (op_operands ?op ! 0)
        (noHazards\<lparr>transWriteVGPRReadyAt := 6\<rparr>))" "0 < length (op_operands ?op)"
    using c d by (auto simp: eval_wave ex_ops ex_hazard_def requiredSlots_def valuSlots_def)
  note kept = issue_slot_hazards_respected [OF c d near small, THEN conjunct2, THEN conjunct2]
  have "6 + 1 \<le> currentIssueSlot t"
    using kept [rule_format, OF slot(3,1,2)] desc by simp
  then show ?thesis using c by auto
qed

subsection \<open>Binding values\<close>

definition hazardsAt :: "wave_state \<Rightarrow> op_value \<Rightarrow> issue_slot_hazards" where
  "hazardsAt s v = (case issueSlotHazards s v of None \<Rightarrow> noHazards | Some h \<Rightarrow> h)"

text \<open>Every window of \<open>h\<close> that delays an instruction is covered by \<open>h'\<close>; the exact accumulator
  slot does the opposite, it licenses forwarding, and is not part of the order.\<close>

definition hazards_le :: "issue_slot_hazards \<Rightarrow> issue_slot_hazards \<Rightarrow> bool" where
  "hazards_le h h' \<longleftrightarrow>
     valuWriteVGPRScalarReadyAt h \<le> valuWriteVGPRScalarReadyAt h' \<and>
     valuWriteVGPRMfmaReadyAt h \<le> valuWriteVGPRMfmaReadyAt h' \<and>
     valuWriteVGPRPermlane32SwapReadyAt h \<le> valuWriteVGPRPermlane32SwapReadyAt h' \<and>
     transWriteVGPRReadyAt h \<le> transWriteVGPRReadyAt h' \<and>
     valuWriteSGPRReadyAt h \<le> valuWriteSGPRReadyAt h' \<and>
     mfmaResultReadyAt h \<le> mfmaResultReadyAt h' \<and>
     mfmaSrcCOverlapReadyAt h \<le> mfmaSrcCOverlapReadyAt h'"

lemma hazards_le_refl: "hazards_le h h"
  by (simp add: hazards_le_def)

lemma hazards_le_trans [trans]: "hazards_le a b \<Longrightarrow> hazards_le b c \<Longrightarrow> hazards_le a c"
  by (auto simp: hazards_le_def)

lemma hazards_le_noHazards: "hazards_le noHazards h"
  by (simp add: hazards_le_def noHazards_def)

lemma hazards_le_join: "hazards_le h (hazards_join h h')" "hazards_le h' (hazards_join h h')"
  by (simp_all add: hazards_le_def hazards_join_def)

lemma hazards_le_dropped: "hazards_le h h' \<Longrightarrow> hazards_le h (h'\<lparr>mfmaSrcCExactReadyAt := e\<rparr>)"
  by (simp add: hazards_le_def)

lemma hazards_empty_iff: "hazards_empty h \<longleftrightarrow> h = noHazards"
  by (cases h) (auto simp: hazards_empty_def noHazards_def)

lemma fold_hazards_join:
  "hazards_le acc (fold (\<lambda>v h. case issueSlotHazards s v of None \<Rightarrow> h
      | Some h' \<Rightarrow> hazards_join h h') vs acc) \<and>
   (\<forall>v\<in>set vs. hazards_le (hazardsAt s v) (fold (\<lambda>v h. case issueSlotHazards s v of None \<Rightarrow> h
      | Some h' \<Rightarrow> hazards_join h h') vs acc))"
proof (induction vs arbitrary: acc)
  case (Cons x xs)
  let ?a = "case issueSlotHazards s x of None \<Rightarrow> acc | Some h' \<Rightarrow> hazards_join acc h'"
  have "hazards_le acc ?a" "hazards_le (hazardsAt s x) ?a"
    by (auto simp: hazardsAt_def hazards_le_refl hazards_le_join hazards_le_noHazards
        split: option.splits)
  then show ?case using Cons.IH [of ?a] by (auto intro: hazards_le_trans)
qed (simp add: hazards_le_refl)

lemma fold_tokenDeps:
  "set (fold (\<lambda>v deps. case tokenEvents s v of None \<Rightarrow> deps
      | Some evs \<Rightarrow> appendUniqueEvents deps evs) vs acc) =
   set acc \<union> (\<Union>v\<in>set vs. case tokenEvents s v of None \<Rightarrow> {} | Some evs \<Rightarrow> set evs)"
  by (induction vs arbitrary: acc) (auto split: option.splits)

text \<open>binding a value at control flow is a join of its sources: it is ready when the last
  source is (and not before now), its token set is the union of theirs, it is in every hazard
  window a source is in, it keeps an exact accumulator slot only from a single source of its
  own type, and no other value changes.\<close>

theorem bind_joins_sources:
  assumes "t = bindValues_es target sources s"
  shows "valueReadyAt t target = Some (Max (set (currentCycle s # map (getValueReadyCycle s) sources))) \<and>
    (case tokenEvents t target of None \<Rightarrow> {} | Some ids \<Rightarrow> set ids) =
      (\<Union>v\<in>set sources. case tokenEvents s v of None \<Rightarrow> {} | Some ids \<Rightarrow> set ids) \<and>
    (\<forall>v\<in>set sources. hazards_le (hazardsAt s v) (hazardsAt t target)) \<and>
    (mfmaSrcCExactReadyAt (hazardsAt t target) \<noteq> 0 \<longrightarrow>
      (\<exists>v. sources = [v] \<and> val_type v = val_type target)) \<and>
    (\<forall>v. v \<noteq> target \<longrightarrow> valueReadyAt t v = valueReadyAt s v \<and> tokenEvents t v = tokenEvents s v \<and>
      issueSlotHazards t v = issueSlotHazards s v \<and> valueEvent t v = valueEvent s v)"
proof -
  define joined where "joined = fold (\<lambda>v h. case issueSlotHazards s v of None \<Rightarrow> h
      | Some h' \<Rightarrow> hazards_join h h') sources noHazards"
  define kept where "kept = (if length sources \<noteq> 1 \<or> val_type target \<noteq> val_type (hd sources)
    then joined\<lparr>mfmaSrcCExactReadyAt := 0\<rparr> else joined)"
  have haz: "hazardsAt t target = kept"
    using assms by (simp add: bindValues_es_def Let_def joined_def kept_def hazardsAt_def
        hazards_empty_iff)
  have "hazards_le (hazardsAt s v) kept" if "v \<in> set sources" for v
    using fold_hazards_join [where s = s and vs = sources and acc = noHazards] that
    by (auto simp: kept_def joined_def intro: hazards_le_dropped)
  moreover have "\<exists>v. sources = [v] \<and> val_type v = val_type target" if "mfmaSrcCExactReadyAt kept \<noteq> 0"
    using that by (cases sources) (auto simp: kept_def split: if_splits)
  moreover have "valueReadyAt t target =
      Some (Max (set (currentCycle s # map (getValueReadyCycle s) sources)))"
    using assms by (simp add: bindValues_es_def Let_def fold_max_value)
  moreover have "(case tokenEvents t target of None \<Rightarrow> {} | Some ids \<Rightarrow> set ids) =
      (\<Union>v\<in>set sources. case tokenEvents s v of None \<Rightarrow> {} | Some ids \<Rightarrow> set ids)"
  proof -
    define deps where "deps = fold (\<lambda>v deps. case tokenEvents s v of None \<Rightarrow> deps
      | Some evs \<Rightarrow> appendUniqueEvents deps evs) sources []"
    have "tokenEvents t target = (if deps \<noteq> [] then Some deps else None)"
      using assms by (simp add: bindValues_es_def Let_def deps_def)
    then have "(case tokenEvents t target of None \<Rightarrow> {} | Some ids \<Rightarrow> set ids) = set deps" by simp
    also have "\<dots> = (\<Union>v\<in>set sources. case tokenEvents s v of None \<Rightarrow> {} | Some ids \<Rightarrow> set ids)"
      using fold_tokenDeps [of s sources "[]"] by (simp add: deps_def)
    finally show ?thesis .
  qed
  moreover have "\<forall>v. v \<noteq> target \<longrightarrow> valueReadyAt t v = valueReadyAt s v \<and>
      tokenEvents t v = tokenEvents s v \<and> issueSlotHazards t v = issueSlotHazards s v \<and>
      valueEvent t v = valueEvent s v"
    using assms by (simp add: bindValues_es_def Let_def)
  ultimately show ?thesis by (simp only: haz) blast
qed

theorem bind_joins_sources_witness:
  "valueReadyAt (bindValues_es (ex_vgpr 9) [ex_vgpr 1, ex_vgpr 2] ex_loaded) (ex_vgpr 9) = Some 84 \<and>
   (case tokenEvents (bindValues_es (ex_token 9) [ex_token 101, ex_token 102] ex_loaded) (ex_token 9) of
      None \<Rightarrow> {} | Some ids \<Rightarrow> set ids) = {1, 2}"
proof
  have "set (currentCycle ex_loaded # map (getValueReadyCycle ex_loaded) [ex_vgpr 1, ex_vgpr 2]) =
      {8, 80, 84}" by (simp add: ex_loaded_def ex_ops getValueReadyCycle_def)
  then show "valueReadyAt (bindValues_es (ex_vgpr 9) [ex_vgpr 1, ex_vgpr 2] ex_loaded) (ex_vgpr 9) =
      Some 84"
    using bind_joins_sources [OF refl, of "ex_vgpr 9" "[ex_vgpr 1, ex_vgpr 2]" ex_loaded] by simp
  show "(case tokenEvents (bindValues_es (ex_token 9) [ex_token 101, ex_token 102] ex_loaded)
      (ex_token 9) of None \<Rightarrow> {} | Some ids \<Rightarrow> set ids) = {1, 2}"
    using conjunct1 [OF conjunct2 [OF bind_joins_sources [OF refl,
        of "ex_token 9" "[ex_token 101, ex_token 102]" ex_loaded]]]
    by (simp add: ex_loaded_def ex_ops insert_commute)
qed

subsection \<open>Producers of wide store data\<close>

text \<open>The specification of the search: a value reaches the data operand of a wide store through
  operations that are no machine instructions.\<close>

inductive reachesStore :: "op_info list \<Rightarrow> op_value \<Rightarrow> bool" for prog where
  store_data: "user \<in> set prog \<Longrightarrow> isWideStoreWriteDataOp user \<Longrightarrow> 1 < length (op_operands user) \<Longrightarrow>
    op_operands user ! 1 = v \<Longrightarrow> reachesStore prog v"
| via: "user \<in> set prog \<Longrightarrow> hasTrait user NoMachineInst \<Longrightarrow> v \<in> set (op_operands user) \<Longrightarrow>
    r \<in> set (op_results user) \<Longrightarrow> reachesStore prog r \<Longrightarrow> reachesStore prog v"

inductive_cases reachesStore_cases: "reachesStore prog v"

lemma reaches_sound:
  assumes "reachesStoreWriteData prog seen todo"
    and "\<And>user i. (user, i) \<in> set todo \<Longrightarrow> user \<in> set prog \<and> i < length (op_operands user)"
  shows "\<exists>(user, i)\<in>set todo. reachesStore prog (op_operands user ! i)"
  using assms
proof (induction prog seen todo rule: reachesStoreWriteData.induct)
  case (2 prog seen user i rest)
  from "2.prems"(2) [of user i] have user: "user \<in> set prog" "i < length (op_operands user)" by auto
  show ?case
  proof (cases "i = 1 \<and> isWideStoreWriteDataOp user")
    case True
    with user show ?thesis by (auto intro: reachesStore.store_data)
  next
    case no: False
    show ?thesis
    proof (cases "\<not> hasTrait user NoMachineInst \<or> op_id user \<in> seen")
      case True
      with "2.prems" no have "reachesStoreWriteData prog seen rest" by simp
      from "2.IH"(1) [OF no True this] "2.prems"(2) show ?thesis by auto
    next
      case False
      with "2.prems" no have r: "reachesStoreWriteData prog (insert (op_id user) seen)
          (resultUses prog user @ rest)" by simp
      have "u \<in> set prog \<and> j < length (op_operands u)"
        if "(u, j) \<in> set (resultUses prog user @ rest)" for u j
        using that "2.prems"(2) by (auto simp: resultUses_iff)
      from "2.IH"(2) [OF no False r this] obtain u j where
        "(u, j) \<in> set (resultUses prog user @ rest)" "reachesStore prog (op_operands u ! j)" by auto
      then show ?thesis
        using user False by (auto simp: resultUses_iff intro: reachesStore.via)
    qed
  qed
qed simp

text \<open>A search without a hit has closed the set \<open>D\<close> of the operations it entered.\<close>

definition noHit :: "nat set \<Rightarrow> op_info \<times> nat \<Rightarrow> bool" where
  "noHit D use \<longleftrightarrow> \<not> (snd use = 1 \<and> isWideStoreWriteDataOp (fst use)) \<and>
     (hasTrait (fst use) NoMachineInst \<longrightarrow> op_id (fst use) \<in> D)"

lemma reaches_closed:
  assumes "\<not> reachesStoreWriteData prog seen todo" and "inj_on op_id (set prog)"
    and "fst ` set todo \<subseteq> set prog"
  shows "\<exists>D. seen \<subseteq> D \<and> list_all (noHit D) todo \<and>
    (\<forall>u\<in>set prog. op_id u \<in> D - seen \<longrightarrow> list_all (noHit D) (resultUses prog u))"
  using assms
proof (induction prog seen todo rule: reachesStoreWriteData.induct)
  case (2 prog seen user i rest)
  have no: "\<not> (i = 1 \<and> isWideStoreWriteDataOp user)" using "2.prems"(1) by (auto split: if_splits)
  show ?case
  proof (cases "\<not> hasTrait user NoMachineInst \<or> op_id user \<in> seen")
    case True
    with "2.prems"(1) no have r: "\<not> reachesStoreWriteData prog seen rest" by (simp split: if_splits)
    have rest: "fst ` set rest \<subseteq> set prog" using "2.prems"(3) by simp
    from "2.IH"(1) [OF no True r "2.prems"(2) rest] obtain D where D: "seen \<subseteq> D"
      "list_all (noHit D) rest"
      "\<forall>u\<in>set prog. op_id u \<in> D - seen \<longrightarrow> list_all (noHit D) (resultUses prog u)" by blast
    have "noHit D (user, i)" using True no D(1) by (auto simp: noHit_def)
    with D show ?thesis by (intro exI [of _ D]) simp
  next
    case False
    let ?seen = "insert (op_id user) seen"
    from False "2.prems"(1) no
    have r: "\<not> reachesStoreWriteData prog ?seen (resultUses prog user @ rest)"
      by (simp split: if_splits)
    have uses: "fst ` set (resultUses prog user @ rest) \<subseteq> set prog"
      using "2.prems"(3) by (auto simp: resultUses_iff)
    from "2.IH"(2) [OF no False r "2.prems"(2) uses] obtain D where D: "?seen \<subseteq> D"
      "list_all (noHit D) (resultUses prog user @ rest)"
      "\<forall>u\<in>set prog. op_id u \<in> D - ?seen \<longrightarrow> list_all (noHit D) (resultUses prog u)" by blast
    have "list_all (noHit D) (resultUses prog u)" if "u \<in> set prog" "op_id u \<in> D - seen" for u
    proof (cases "op_id u = op_id user")
      case True
      moreover have "user \<in> set prog" using "2.prems"(3) by simp
      ultimately have "u = user" using that(1) "2.prems"(2) by (auto dest: inj_onD)
      with D(2) show ?thesis by simp
    next
      case False
      with that D(3) show ?thesis by simp
    qed
    moreover have "noHit D (user, i)" using no D(1) by (auto simp: noHit_def)
    ultimately show ?thesis using D(1,2) by (intro exI [of _ D]) simp
  qed
qed auto

lemma closed_unreachable:
  assumes "reachesStore prog v" and "v \<in> set (op_results u)"
    and "\<And>u'. u' = u \<or> u' \<in> set prog \<and> op_id u' \<in> D \<Longrightarrow> list_all (noHit D) (resultUses prog u')"
  shows False
  using assms
proof (induction arbitrary: u)
  case (store_data user v)
  then have "(user, 1) \<in> set (resultUses prog u)" by (auto simp: resultUses_iff)
  moreover have "list_all (noHit D) (resultUses prog u)" using store_data.prems(2) by blast
  ultimately show ?case using store_data.hyps(2) by (auto simp: list_all_iff noHit_def)
next
  case (via user v r)
  obtain i where "i < length (op_operands user)" "op_operands user ! i = v"
    using via.hyps(3) by (auto simp: in_set_conv_nth)
  with via.hyps(1) via.prems(1) have "(user, i) \<in> set (resultUses prog u)"
    by (auto simp: resultUses_iff)
  moreover have "list_all (noHit D) (resultUses prog u)" using via.prems(2) by blast
  ultimately have "op_id user \<in> D" using via.hyps(2) by (auto simp: list_all_iff noHit_def)
  with via.hyps(1) via.prems(2) show ?case by (intro via.IH [OF via.hyps(4)]) blast
qed

text \<open>the depth-first search for the consumers of an instruction finds exactly the vector
  instructions with a result that reaches the data operand of a wide store through operations
  that are no machine instructions, on every graph of operations, cyclic or not.\<close>

theorem producesStoreWriteData_reaches:
  assumes "inj_on op_id (set prog)"
  shows "producesStoreWriteData prog op \<longleftrightarrow>
    hasTrait op VALUOp \<and> (\<exists>r\<in>set (op_results op). reachesStore prog r)"
proof (cases "hasTrait op VALUOp")
  case True
  let ?todo = "resultUses prog op"
  have uses: "user \<in> set prog \<and> i < length (op_operands user)" if "(user, i) \<in> set ?todo" for user i
    using that by (auto simp: resultUses_iff)
  have "\<exists>r\<in>set (op_results op). reachesStore prog r" if "reachesStoreWriteData prog {} ?todo"
  proof -
    from reaches_sound [OF that uses] obtain user i where "(user, i) \<in> set ?todo"
      "reachesStore prog (op_operands user ! i)" by blast
    then show ?thesis unfolding resultUses_iff by blast
  qed
  moreover have "\<not> reachesStore prog r" if no: "\<not> reachesStoreWriteData prog {} ?todo"
    and r: "r \<in> set (op_results op)" for r
  proof
    assume reaches: "reachesStore prog r"
    have "fst ` set ?todo \<subseteq> set prog" using uses by force
    from reaches_closed [OF no assms this] obtain D where D: "list_all (noHit D) ?todo"
      "\<forall>u\<in>set prog. op_id u \<in> D - {} \<longrightarrow> list_all (noHit D) (resultUses prog u)" by blast
    show False by (rule closed_unreachable [OF reaches r, of D]) (use D in auto)
  qed
  ultimately have "reachesStoreWriteData prog {} ?todo \<longleftrightarrow>
      (\<exists>r\<in>set (op_results op). reachesStore prog r)" by blast
  with True show ?thesis by (simp add: producesStoreWriteData_def)
qed (simp add: producesStoreWriteData_def)

text \<open>A store behind a loop of two tuple operations that feed each other.\<close>

definition ex_tuple :: "nat \<Rightarrow> nat \<Rightarrow> nat \<Rightarrow> nat \<Rightarrow> op_info" where
  "ex_tuple i a b r = (plainOp (NamedOp ''AfterOp'') [NoMachineInst] [ex_vgpr a, ex_vgpr b] [ex_vgpr r])
     \<lparr>op_id := i\<rparr>"

definition ex_graph :: "op_info list" where
  "ex_graph = [ex_tuple 1 5 7 6, ex_tuple 2 6 6 7,
     (plainOp (NamedOp ''GlobalStoreB128Op'') [VMEMStoreOp] [ex_vgpr 3, ex_vgpr 7] [])\<lparr>op_id := 3\<rparr>]"

theorem producesStoreWriteData_reaches_witness:
  "producesStoreWriteData ex_graph (ex_valu 1 5)"
proof -
  have "inj_on op_id (set ex_graph)" by (simp add: ex_graph_def ex_tuple_def plainOp_def)
  moreover have "hasTrait (ex_valu 1 5) VALUOp" "ex_vgpr 5 \<in> set (op_results (ex_valu 1 5))"
    by (simp_all add: ex_valu_def plainOp_def hasTrait_def)
  moreover have "reachesStore ex_graph (ex_vgpr 7)"
    by (rule reachesStore.store_data [of "ex_graph ! 2"])
       (simp_all add: ex_graph_def plainOp_def isWideStoreWriteDataOp_def isaOp_def)
  then have "reachesStore ex_graph (ex_vgpr 6)"
    by (rule reachesStore.via [of "ex_graph ! 1", rotated -1])
       (simp_all add: ex_graph_def ex_tuple_def plainOp_def hasTrait_def)
  then have "reachesStore ex_graph (ex_vgpr 5)"
    by (rule reachesStore.via [of "ex_graph ! 0", rotated -1])
       (simp_all add: ex_graph_def ex_tuple_def plainOp_def hasTrait_def)
  ultimately show ?thesis using producesStoreWriteData_reaches [of ex_graph "ex_valu 1 5"] by blast
qed

end
