(* ===== verification/Wave_Describe.thy ===== *)
theory Wave_Describe
  imports Execution_Example
begin

text \<open>
  The description of an operation: on which operations it fails or ends the process, and what
  the issue-delay operation is charged, compared with the no-op instructions it expands to.
\<close>

subsection \<open>Totality of the description\<close>

lemma toInstructionEventClass_total: "\<exists>c. toInstructionEventClass op = Inr c"
  by (cases "wi_event (getWaitcntInfo op)")
     (simp_all add: toInstructionEventClass_def eventClasses_def)

lemma pipeFor_supported: "isSchedClassSupported env arch cls \<Longrightarrow> \<exists>p. pipeFor env arch cls = Inr p"
  using funit_supported [of env arch cls] by (auto simp: pipeFor_def)

lemma validated_count:
  "validateInstructionIssueCountTarget env op isa = Inr () \<Longrightarrow>
   \<exists>n. getInstructionIssueCount env op isa wavefront = Inr n"
  using getInstructionIssueCount_total [of env isa op wavefront]
  by (auto simp: validateInstructionIssueCountTarget_def split: if_splits)

lemma coexecution_total:
  assumes "isSchedClassSupported env arch cls"
    and "validateInstructionIssueCountTarget env op (arch_isa arch) = Inr ()"
  shows "\<exists>m. getInstructionCoexecutionModel env op cls arch wavefront = Inr m"
  using validated_count [OF assms(2), of wavefront] getResourceCycles_supported [OF assms(1)]
  by (auto simp: getInstructionCoexecutionModel_def Let_def)

lemma describeMemory_outcome:
  assumes "isSchedClassSupported env (es_arch s) (classifyOp op)"
    and "calibrationOk (calibration (es_config s))" and "0 \<le> ldsCounterLatency (es_arch s)"
  shows "describeMemory env s op desc \<noteq> Inl Failure \<and>
    (crashes (describeMemory env s op desc) \<longleftrightarrow>
      wi_event (getWaitcntInfo op) \<in> {EventGds, EventMessage})"
proof -
  let ?co = "counterLatencies (es_config s)" and ?cal = "calibration (es_config s)"
  let ?ev = "wi_event (getWaitcntInfo op)"
  obtain cls where cls: "toInstructionEventClass op = Inr cls"
    using toInstructionEventClass_total by blast
  obtain k where k: "getMemoryCounterKind op = Inr k"
    and none: "k = MemoryCounterNone \<longleftrightarrow> ?ev \<in> {EventNone, EventSccWrite}"
    by (cases ?ev) (simp_all add: getMemoryCounterKind_eq)
  note counter = getMemoryCounterLatency_supported [OF assms, of ?co]
  show ?thesis
  proof (cases "hasCounterTiming ?ev")
    case True
    with counter obtain n where n: "getMemoryCounterLatency env (es_arch s) op ?co ?cal = Inr n" by auto
    have "\<exists>d. describeMemory env s op desc = Inr d"
      using getMemoryValueLatency_supported [OF assms, of ?co "valueLatencies (es_config s)"]
      by (auto simp: describeMemory_def k cls n Let_def)
    with True show ?thesis by (auto simp: hasCounterTiming_def)
  next
    case False
    with counter have crash: "crashes (getMemoryCounterLatency env (es_arch s) op ?co ?cal)" by simp
    then obtain e where e: "getMemoryCounterLatency env (es_arch s) op ?co ?cal = Inl e" "e \<noteq> Failure"
      by (cases "getMemoryCounterLatency env (es_arch s) op ?co ?cal")
         (auto simp: crashes_def split: error.splits)
    have "describeMemory env s op desc = (if k = MemoryCounterNone
      then Inr (desc\<lparr>desc_counter := toInstructionCounter k, eventClass := cls\<rparr>) else Inl e)"
      by (simp add: describeMemory_def k cls e(1) Let_def)
    with e none False show ?thesis
      by (cases e) (auto simp: hasCounterTiming_def split: if_splits)
  qed
qed

subsection \<open>The cost of an issue delay\<close>

text \<open>The no-op instructions a delay of \<open>c\<close> cycles expands to: as many of the longest form as
  fit, and one for the rest.\<close>

function nopLengths :: "int \<Rightarrow> int list" where
  "nopLengths c = (if c \<le> 0 then [] else if c \<le> kMaxNopCycles then [c]
     else kMaxNopCycles # nopLengths (c - kMaxNopCycles))"
  by pat_completeness auto
termination by (relation "measure nat") (auto simp: kMaxNopCycles_def)

declare nopLengths.simps [simp del]

lemma nopLengths_eq:
  "0 \<le> c \<Longrightarrow> nopLengths c = replicate (nat (c div 16)) 16 @ (if c mod 16 = 0 then [] else [c mod 16])"
proof (induction c rule: nopLengths.induct)
  case (1 c)
  consider "c = 0" | "0 < c" "c < 16" | "c = 16" | "16 < c" using "1.prems" by linarith
  then show ?case
  proof cases
    case 4
    have "nopLengths c = 16 # nopLengths (c - 16)"
      using 4 by (subst nopLengths.simps) (simp add: kMaxNopCycles_def)
    also have "nopLengths (c - 16) = replicate (nat ((c - 16) div 16)) 16 @
        (if (c - 16) mod 16 = 0 then [] else [(c - 16) mod 16])"
      using 4 "1.IH" by (simp add: kMaxNopCycles_def)
    moreover have "nat (c div 16) = Suc (nat ((c - 16) div 16))" using 4 by linarith
    moreover have "(c - 16) mod 16 = c mod 16" by presburger
    ultimately show ?thesis by simp
  qed (subst nopLengths.simps, simp add: kMaxNopCycles_def)+
qed

lemma min_add_min: "0 \<le> (b :: int) \<Longrightarrow> min m (min m a + b) = min m (a + b)"
  by (simp add: min_def)

lemma sum_max_ge:
  fixes p :: int
  shows "sum_list xs \<le> sum_list (map (\<lambda>n. max n p) xs)"
  by (induction xs) (auto intro: add_mono)

subsection \<open>Properties\<close>

text \<open>an operation whose issue count is valid for the target is described exactly when its
  scheduling class is supported, except that the description of an operation with a GDS or
  message event ends the process.\<close>

theorem describe_outcome:
  assumes "validateInstructionIssueCountTarget env op (arch_isa (es_arch s)) = Inr ()"
    and "calibrationOk (calibration (es_config s))" and "0 \<le> ldsCounterLatency (es_arch s)"
  shows "(describe env prog s op = Inl Failure \<longleftrightarrow>
      \<not> isSchedClassSupported env (es_arch s) (classifyOp op)) \<and>
    (crashes (describe env prog s op) \<longleftrightarrow>
      isSchedClassSupported env (es_arch s) (classifyOp op) \<and>
      wi_event (getWaitcntInfo op) \<in> {EventGds, EventMessage})"
proof (cases "isSchedClassSupported env (es_arch s) (classifyOp op)")
  case True
  obtain p rc n m l k where parts: "pipeFor env (es_arch s) (classifyOp op) = Inr p"
    "getResourceCycles env (es_arch s) (classifyOp op) = Inr rc"
    "getInstructionIssueCount env op (arch_isa (es_arch s)) (wavefrontSize (es_config s)) = Inr n"
    "getInstructionCoexecutionModel env op (classifyOp op) (es_arch s) (wavefrontSize (es_config s)) =
      Inr m"
    "getConfiguredLatency env (es_arch s) (classifyOp op) (calibration (es_config s)) = Inr l"
    "getMemoryIssueResources op = Inr k"
    using pipeFor_supported [OF True] getResourceCycles_supported [OF True] validated_count [OF assms(1)]
      coexecution_total [OF True assms(1)] getConfiguredLatency_supported [OF True assms(2)]
      getMemoryIssueResources_total by blast
  have "\<exists>desc. describe env prog s op = describeMemory env s op desc"
    using True by (simp only: describe_def Let_def parts bindR_simps not_True_eq_False if_False) blast
  then show ?thesis using describeMemory_outcome [OF True assms(2,3)] True by force
qed (simp add: describe_def)

theorem describe_outcome_witness:
  "crashes (describe ex_env [] ex_wave SSendmsgDeallocVgprs) \<and>
   \<not> crashes (describe ex_env [] ex_wave (ex_load 1)) \<and>
   describe ex_env [] ex_wave (ex_load 1) \<noteq> Inl Failure"
proof -
  have wave: "calibrationOk (calibration (es_config ex_wave))" "0 \<le> ldsCounterLatency (es_arch ex_wave)"
    "es_arch ex_wave = kGfx950"
    by (simp_all add: ex_wave_def init_es_def init_config_def calibrationOk_def kGfx950_def)
  have "validateInstructionIssueCountTarget ex_env SSendmsgDeallocVgprs (arch_isa kGfx950) = Inr ()"
    "validateInstructionIssueCountTarget ex_env (ex_load 1) (arch_isa kGfx950) = Inr ()"
    "isSchedClassSupported ex_env kGfx950 (classifyOp SSendmsgDeallocVgprs)"
    "isSchedClassSupported ex_env kGfx950 (classifyOp (ex_load 1))"
    "wi_event (getWaitcntInfo SSendmsgDeallocVgprs) = EventMessage"
    "wi_event (getWaitcntInfo (ex_load 1)) = EventVmem"
    by code_simp+
  then show ?thesis
    using describe_outcome [of ex_env SSendmsgDeallocVgprs ex_wave "[]", unfolded wave(3)]
      describe_outcome [of ex_env "ex_load 1" ex_wave "[]", unfolded wave(3)] wave by simp
qed

text \<open>An issue delay is charged what its no-op instructions cost: the sum over the no-ops of
  the larger of their length and the issue period, saturated at the largest clock value, and
  never less than the delay asked for.\<close>

theorem nop_span_is_sum:
  assumes "0 \<le> cycles" and "0 < period"
  shows "getDmaIssueDelayNopSpan cycles period =
      min INT64_MAX (sum_list (map (\<lambda>n. max n period) (nopLengths cycles))) \<and>
    sum_list (nopLengths cycles) = cycles \<and> list_all (\<lambda>n. 0 < n \<and> n \<le> kMaxNopCycles) (nopLengths cycles) \<and>
    min INT64_MAX cycles \<le> getDmaIssueDelayNopSpan cycles period"
proof -
  let ?q = "cycles div 16" and ?r = "cycles mod 16"
  have q: "0 \<le> ?q" "0 \<le> ?r" "?r < 16" using assms by (simp_all add: pos_imp_zdiv_nonneg_iff)
  have sum: "sum_list (map f (nopLengths cycles)) = ?q * f 16 + (if ?r = 0 then 0 else f ?r)"
    for f :: "int \<Rightarrow> int"
    using q(1) by (simp add: nopLengths_eq [OF assms(1)] sum_list_replicate)
  have span: "getDmaIssueDelayNopSpan cycles period =
      min INT64_MAX (sum_list (map (\<lambda>n. max n period) (nopLengths cycles)))"
    using assms q unfolding sum
    by (simp add: getDmaIssueDelayNopSpan_def kMaxNopCycles_def sdiv_nonneg smod_nonneg Let_def
        saturatingMultiply_min saturatingAdd_min min_add_min)
  have "sum_list (nopLengths cycles) = cycles"
    using sum [of "\<lambda>x. x"] mult_div_mod_eq [of 16 cycles] by simp
  moreover have "list_all (\<lambda>n. 0 < n \<and> n \<le> kMaxNopCycles) (nopLengths cycles)"
    using q by (auto simp: nopLengths_eq [OF assms(1)] kMaxNopCycles_def list_all_iff)
  ultimately show ?thesis
    using span sum_max_ge [of "nopLengths cycles" period] by simp
qed

theorem nop_span_is_sum_witness:
  "getDmaIssueDelayNopSpan 37 8 = 40 \<and> nopLengths 37 = [16, 16, 5]"
proof -
  have n: "nopLengths 37 = [16, 16, 5]"
    by (simp add: nopLengths_eq numeral_2_eq_2)
  show ?thesis using nop_span_is_sum [of 37 8] n by (simp add: INT64_MAX_def)
qed

end
