(* ===== verification/Multi_Wave.thy ===== *)
theory Multi_Wave
  imports Execution_Props
begin

text \<open>
  The waves that are resident on one compute unit
  (\<^verbatim>\<open>MultiWaveExecutionState.cpp\<close>): each has its own execution state, all share the
  calendars of the issue resources; the next wave is the one that can issue first, with a
  round-robin priority on every SIMD. A cohort commits an operation on several waves.
\<close>

subsection \<open>Placements\<close>

record wave_candidate =
  cand_cycle :: int
  cand_wave :: nat
  cand_simd :: nat
  roundRobinRank :: nat

definition isEarlier :: "wave_candidate \<Rightarrow> wave_candidate \<Rightarrow> bool" where
  "isEarlier lhs rhs =
     (if cand_cycle lhs \<noteq> cand_cycle rhs then cand_cycle lhs < cand_cycle rhs
      else if cand_simd lhs \<noteq> cand_simd rhs then cand_simd lhs < cand_simd rhs
      else if roundRobinRank lhs \<noteq> roundRobinRank rhs
      then roundRobinRank lhs < roundRobinRank rhs
      else cand_wave lhs < cand_wave rhs)"

text \<open>The loop over the placements with the set of the keys seen so far.\<close>

fun placementsInRange :: "arch_data \<Rightarrow> nat set \<Rightarrow> wave_placement list \<Rightarrow> bool" where
  "placementsInRange arch seen [] = True"
| "placementsInRange arch seen (p # ps) =
     (if simd p \<ge> to_u32 (simdsPerCU arch) \<or> slot p \<ge> to_u32 (wavesPerSIMD arch) then False
      else
        let key = wrap_u64 (simd p * to_u64 (wavesPerSIMD arch) + slot p)
        in if key \<in> seen then False
           else placementsInRange arch (insert key seen) ps)"

definition areWavePlacementsValid :: "arch_data \<Rightarrow> wave_placement list \<Rightarrow> bool" where
  "areWavePlacementsValid arch placements =
     (if placements = [] then False
      else if length placements > wrap_u64 (to_u64 (simdsPerCU arch) * to_u64 (wavesPerSIMD arch))
      then False
      else placementsInRange arch {} placements)"

definition getFullCUWavePlacements :: "arch_data \<Rightarrow> nat \<Rightarrow> wave_placement list" where
  "getFullCUWavePlacements arch waves =
     (if waves = 0 \<or> waves > to_u32 (wavesPerSIMD arch) then []
      else concat (map (\<lambda>simd. map (\<lambda>slot. \<lparr>simd = simd, slot = slot\<rparr>) [0..<waves])
             [0..<to_u32 (simdsPerCU arch)]))"

subsection \<open>State\<close>

record multi_wave =
  mw_placements :: "wave_placement list"
  mw_waves :: "wave_state list"
  roundRobinCursor :: "nat list"
  mw_resources :: resource_state
  mw_arch :: arch_data

definition init_mw :: "arch_data \<Rightarrow> wave_placement list \<Rightarrow> execution_config \<Rightarrow> multi_wave" where
  "init_mw arch placements config =
     \<lparr>mw_placements = placements,
      mw_waves = map (\<lambda>_. init_es arch config) placements,
      roundRobinCursor = replicate (to_u32 (simdsPerCU arch)) 0,
      mw_resources = init_rs arch (length placements) (getResourceCapacities config),
      mw_arch = arch\<rparr>"

definition getWaveCount :: "multi_wave \<Rightarrow> nat" where
  "getWaveCount m = length (mw_waves m)"

definition getPlacement :: "multi_wave \<Rightarrow> nat \<Rightarrow> wave_placement" where
  "getPlacement m wave = mw_placements m ! wave"

definition getWaveCohort :: "multi_wave \<Rightarrow> nat \<Rightarrow> nat \<Rightarrow> nat" where
  "getWaveCohort m wave cohortCount =
     (let placement = getPlacement m wave;
          ordinal = (if length (mw_placements m) > to_u64 (simdsPerCU (mw_arch m))
                     then slot placement else simd placement)
      in ordinal mod cohortCount)"

definition getCurrentCycle :: "multi_wave \<Rightarrow> nat \<Rightarrow> int" where
  "getCurrentCycle m wave = currentCycle (mw_waves m ! wave)"

definition getValueReadyCycle_mw :: "multi_wave \<Rightarrow> nat \<Rightarrow> op_value \<Rightarrow> int" where
  "getValueReadyCycle_mw m wave v = getValueReadyCycle (mw_waves m ! wave) v"

definition updateWave :: "nat \<Rightarrow> (wave_state \<Rightarrow> wave_state) \<Rightarrow> multi_wave \<Rightarrow> multi_wave" where
  "updateWave wave f m = m\<lparr>mw_waves := (mw_waves m)[wave := f (mw_waves m ! wave)]\<rparr>"

definition bindValue_mw :: "nat \<Rightarrow> op_value \<Rightarrow> op_value \<Rightarrow> multi_wave \<Rightarrow> multi_wave" where
  "bindValue_mw wave target src = updateWave wave (bindValue target src)"

definition bindValues_mw :: "nat \<Rightarrow> op_value \<Rightarrow> op_value list \<Rightarrow> multi_wave \<Rightarrow> multi_wave" where
  "bindValues_mw wave target sources = updateWave wave (bindValues_es target sources)"

definition rendezvous :: "multi_wave \<Rightarrow> multi_wave" where
  "rendezvous m =
     (let cycle = fold (\<lambda>wave cycle. max cycle (currentCycle wave)) (mw_waves m) 0
      in m\<lparr>mw_waves := map (advanceToCycle cycle) (mw_waves m)\<rparr>)"

definition getPendingMemoryEventCount_mw :: "multi_wave \<Rightarrow> nat \<Rightarrow> InstructionWaitCounterKind \<Rightarrow>
    nat" where
  "getPendingMemoryEventCount_mw m wave kind = getPendingMemoryEventCount (mw_waves m ! wave) kind"

definition getPipeInFlightCount_mw :: "multi_wave \<Rightarrow> nat \<Rightarrow> InstructionPipeKind \<Rightarrow> nat" where
  "getPipeInFlightCount_mw m wave kind =
     getActiveReservationCount (mw_resources m) (resourceForPipe kind) (getPlacement m wave)
       (getCurrentCycle m wave)"

text \<open>\<^verbatim>\<open>unsigned\<close> arithmetic: the sum with the \<^verbatim>\<open>int\<close> wave count wraps at 32 bits.\<close>

definition getRoundRobinRank :: "multi_wave \<Rightarrow> nat \<Rightarrow> nat" where
  "getRoundRobinRank m wave =
     (let placement = getPlacement m wave;
          cursor = roundRobinCursor m ! simd placement;
          n = wavesPerSIMD (mw_arch m)
      in to_u32 (int (slot placement) + n - int cursor) mod to_u32 n)"

subsection \<open>Stalls\<close>

definition recordComponent :: "stall_component \<Rightarrow> instruction_stall \<Rightarrow> instruction_stall" where
  "recordComponent c st =
     (let st' = st\<lparr>components := components st @ [c]\<rparr>
      in if comp_cycles c > stall_cycles st'
         then st'\<lparr>stall_kind := comp_kind c, stall_cycles := comp_cycles c\<rparr> else st')"

definition filterStall :: "(stall_component \<Rightarrow> bool) \<Rightarrow> instruction_stall \<Rightarrow> instruction_stall" where
  "filterStall keep st =
     fold (\<lambda>c result. if \<not> keep c then result else recordComponent c result) (components st) noStall"

definition getPriorityStall :: "instruction_stall \<Rightarrow> instruction_stall" where
  "getPriorityStall =
     filterStall (\<lambda>c. comp_kind c \<noteq> IssueBackpressure \<or> comp_resource c \<noteq> MfmaCoissue)"

definition getComputePriorityStall :: "instruction_stall \<Rightarrow> instruction_stall" where
  "getComputePriorityStall = filterStall (\<lambda>c. comp_kind c \<noteq> IssueBackpressure)"

definition coverStall :: "int \<Rightarrow> instruction_stall \<Rightarrow> instruction_stall" where
  "coverStall covered raw =
     fold (\<lambda>c st.
       let c' = (if comp_kind c \<noteq> CoexecWindow
                 then c\<lparr>comp_cycles := max 0 (comp_cycles c - covered)\<rparr> else c)
       in if comp_cycles c' = 0 then st else recordComponent c' st) (components raw) noStall"

subsection \<open>Queries\<close>

definition query_mw :: "llvm_env \<Rightarrow> op_info list \<Rightarrow> multi_wave \<Rightarrow> nat \<Rightarrow> op_info \<Rightarrow>
    instruction_stall result" where
  "query_mw env prog m wave op =
     (if wave \<ge> length (mw_waves m) then Inl Failure
      else if \<not> isInstructionExecutionStateArchSupported env (arch_isa (mw_arch m))
      then Inl Failure
      else if \<not> isWaveAMDMachineOp op then Inl Failure
      else
        let s = mw_waves m ! wave in
        bindR (describe env prog s op) (\<lambda>desc.
        queryWithResources s op desc (Some (mw_resources m)) (getPlacement m wave)))"

definition getIssueOpportunityCycle :: "multi_wave \<Rightarrow> nat \<Rightarrow> int result" where
  "getIssueOpportunityCycle m wave =
     (let s = mw_waves m ! wave;
          uses = appendIssueResourceUses s 1 0 (getIssuePeriod s) []
      in bindR (query_rs (mw_resources m) (getPlacement m wave) uses (currentCycle s)) (\<lambda>q.
         Inr (readyCycle q)))"

definition queryAfterIssueOpportunity :: "llvm_env \<Rightarrow> op_info list \<Rightarrow> multi_wave \<Rightarrow> nat \<Rightarrow>
    op_info \<Rightarrow> instruction_stall result" where
  "queryAfterIssueOpportunity env prog m wave op =
     bindR (query_mw env prog m wave op) (\<lambda>raw.
     bindR (getIssueOpportunityCycle m wave) (\<lambda>opportunity.
       Inr (coverStall (max 0 (opportunity - getCurrentCycle m wave)) raw)))"

definition wouldStall :: "llvm_env \<Rightarrow> op_info list \<Rightarrow> multi_wave \<Rightarrow> nat \<Rightarrow> op_info \<Rightarrow>
    bool result" where
  "wouldStall env prog m wave op =
     bindR (queryAfterIssueOpportunity env prog m wave op) (\<lambda>st. Inr (stall_cycles st \<noteq> 0))"

definition validateWaveArbitration :: "arch_data \<Rightarrow> unit result" where
  "validateWaveArbitration arch =
     (if waveIssueArbitration arch = RoundRobinWaveIssueArbitration then Inr () else Inl Failure)"

definition candidateOf :: "multi_wave \<Rightarrow> nat \<Rightarrow> instruction_stall \<Rightarrow> wave_candidate" where
  "candidateOf m wave st =
     \<lparr>cand_cycle = getCurrentCycle m wave + stall_cycles st, cand_wave = wave,
      cand_simd = simd (getPlacement m wave), roundRobinRank = getRoundRobinRank m wave\<rparr>"

definition considerWave :: "llvm_env \<Rightarrow> op_info list \<Rightarrow> multi_wave \<Rightarrow> op_info option list \<Rightarrow> nat \<Rightarrow>
    wave_candidate option \<Rightarrow> wave_candidate option result" where
  "considerWave env prog m candidates wave best =
     (case candidates ! wave of
        None \<Rightarrow> Inr best
      | Some op \<Rightarrow>
          bindR (query_mw env prog m wave op) (\<lambda>st.
            let candidate = candidateOf m wave st
            in Inr (case best of
                      None \<Rightarrow> Some candidate
                    | Some b \<Rightarrow> if isEarlier candidate b then Some candidate else best)))"

definition selectWave :: "llvm_env \<Rightarrow> op_info list \<Rightarrow> multi_wave \<Rightarrow> op_info option list \<Rightarrow>
    nat result" where
  "selectWave env prog m candidates =
     bindR (validateWaveArbitration (mw_arch m)) (\<lambda>_.
     bindR (foldR (considerWave env prog m candidates) [0..<getWaveCount m] None) (\<lambda>best.
       case best of None \<Rightarrow> Inl Failure | Some b \<Rightarrow> Inr (cand_wave b)))"

subsection \<open>Commit\<close>

definition withPriorities :: "commit_result \<Rightarrow> commit_result" where
  "withPriorities r = r\<lparr>priorityStall := getPriorityStall (stall r),
     computePriorityStall := getComputePriorityStall (stall r)\<rparr>"

definition commit_mw :: "llvm_env \<Rightarrow> op_info list \<Rightarrow> nat \<Rightarrow> op_info \<Rightarrow> multi_wave \<Rightarrow>
    (commit_result \<times> multi_wave) result" where
  "commit_mw env prog wave op m =
     (if wave \<ge> length (mw_waves m) then Inl Failure
      else
        let placement = getPlacement m wave in
        bindR (commitWithResources env prog op (Some (mw_resources m)) placement (mw_waves m ! wave))
          (\<lambda>(r, s', rs').
            let m1 = m\<lparr>mw_waves := (mw_waves m)[wave := s'], mw_resources := the rs'\<rparr>;
                r' = withPriorities r
            in if classifyOp op = NoInst then Inr (r', m1)
               else Inr (r', m1\<lparr>roundRobinCursor := (roundRobinCursor m1)
                      [simd placement := trunc_u32 (slot placement + 1)
                         mod to_u32 (wavesPerSIMD (mw_arch m1))]\<rparr>)))"

subsection \<open>Cohorts\<close>

record wave_cohort =
  co_waves :: "nat list"
  co_state :: multi_wave

fun areCohortWavesValidFrom :: "multi_wave \<Rightarrow> nat set \<Rightarrow> nat list \<Rightarrow> bool" where
  "areCohortWavesValidFrom m seen [] = True"
| "areCohortWavesValidFrom m seen (wave # waves) =
     (wave < getWaveCount m \<and> wave \<notin> seen \<and> areCohortWavesValidFrom m (insert wave seen) waves)"

definition areCohortWavesValid :: "multi_wave \<Rightarrow> nat list \<Rightarrow> bool" where
  "areCohortWavesValid m waves \<longleftrightarrow> waves \<noteq> [] \<and> areCohortWavesValidFrom m {} waves"

definition cohortCandidates :: "wave_cohort \<Rightarrow> op_info \<Rightarrow> op_info option list" where
  "cohortCandidates c op =
     fold (\<lambda>wave candidates. candidates[wave := Some op]) (co_waves c)
       (replicate (getWaveCount (co_state c)) None)"

definition queryPriorityStall :: "llvm_env \<Rightarrow> op_info list \<Rightarrow> wave_cohort \<Rightarrow> op_info \<Rightarrow>
    instruction_stall result" where
  "queryPriorityStall env prog c op =
     bindR (selectWave env prog (co_state c) (cohortCandidates c op)) (\<lambda>wave.
     bindR (queryAfterIssueOpportunity env prog (co_state c) wave op) (\<lambda>st.
       Inr (getPriorityStall st)))"

lemma considerWave_some:
  assumes "foldR (considerWave env prog m candidates) waves best = Inr (Some b)"
    and "\<And>b. best = Some b \<Longrightarrow> candidates ! cand_wave b \<noteq> None \<and> cand_wave b < n"
    and "\<forall>w\<in>set waves. w < n"
  shows "candidates ! cand_wave b \<noteq> None \<and> cand_wave b < n"
  using assms
proof (induction waves arbitrary: best)
  case (Cons w waves)
  from Cons.prems(1) obtain best' where
    step: "considerWave env prog m candidates w best = Inr best'"
    and rest: "foldR (considerWave env prog m candidates) waves best' = Inr (Some b)"
    by (auto simp: bindR_eq_Inr)
  have "candidates ! cand_wave b' \<noteq> None \<and> cand_wave b' < n" if "best' = Some b'" for b'
    using step that Cons.prems(2,3)
    by (auto simp: considerWave_def bindR_eq_Inr candidateOf_def Let_def
        split: option.splits if_splits)
  from Cons.IH [OF rest this] Cons.prems(3) show ?case by simp
qed simp

lemma selectWave_candidate:
  assumes "selectWave env prog m candidates = Inr wave"
  shows "wave < getWaveCount m" and "candidates ! wave \<noteq> None"
proof -
  from assms obtain b where
    "foldR (considerWave env prog m candidates) [0..<getWaveCount m] None = Inr (Some b)"
    "wave = cand_wave b"
    by (auto simp: selectWave_def bindR_eq_Inr split: option.splits)
  with considerWave_some [OF this(1), of "getWaveCount m"]
  show "wave < getWaveCount m" "candidates ! wave \<noteq> None" by auto
qed

lemma candidates_decrease:
  assumes "selectWave env prog m candidates = Inr wave" and "length candidates = getWaveCount m"
  shows "length (filter (\<lambda>c. c \<noteq> None) (candidates[wave := None])) <
    length (filter (\<lambda>c. c \<noteq> None) candidates)"
proof -
  let ?n = "\<lambda>cs. length (filter (\<lambda>c. c \<noteq> None) cs)"
  have w: "wave < length candidates" "candidates ! wave \<noteq> None"
    using selectWave_candidate [OF assms(1)] assms(2) by simp_all
  have "?n (take wave candidates @ candidates ! wave # drop (Suc wave) candidates) =
      ?n (take wave candidates) + Suc (?n (drop (Suc wave) candidates))"
    using w(2) by simp
  then have "?n candidates = ?n (take wave candidates) + Suc (?n (drop (Suc wave) candidates))"
    using id_take_nth_drop [OF w(1)] by simp
  then show ?thesis using w(1) by (simp add: upd_conv_take_nth_drop)
qed

text \<open>
  The loop of \<^verbatim>\<open>commit\<close>: it ends because the wave that is selected is one of the
  candidates and leaves them. \<open>first\<close> is the result of the first wave.
\<close>

function cohortLoop :: "llvm_env \<Rightarrow> op_info list \<Rightarrow> op_info \<Rightarrow> op_info option list \<Rightarrow>
    commit_result option \<Rightarrow> multi_wave \<Rightarrow> (commit_result option \<times> multi_wave) result" where
  "cohortLoop env prog op candidates first m =
     (if \<not> list_ex (\<lambda>c. c \<noteq> None) candidates then Inr (first, m)
      else if length candidates \<noteq> getWaveCount m then Inl (Unreachable ''one candidate per wave'')
      else
        bindR (selectWave env prog m candidates) (\<lambda>wave.
        bindR (queryAfterIssueOpportunity env prog m wave op) (\<lambda>st.
        bindR (commit_mw env prog wave op m) (\<lambda>(r, m').
          let first' = (case first of
                Some _ \<Rightarrow> first
              | None \<Rightarrow> Some (withPriorities (r\<lparr>stall := st\<rparr>)))
          in cohortLoop env prog op (candidates[wave := None]) first' m'))))"
  by pat_completeness auto
termination
  by (relation "measure (\<lambda>(env, prog, op, candidates, first, m).
      length (filter (\<lambda>c. c \<noteq> None) candidates))")
     (auto intro: candidates_decrease simp del: not_None_eq)

declare cohortLoop.simps [simp del]

definition commit_cohort :: "llvm_env \<Rightarrow> op_info list \<Rightarrow> op_info \<Rightarrow> wave_cohort \<Rightarrow>
    (commit_result \<times> wave_cohort) result" where
  "commit_cohort env prog op c =
     bindR (cohortLoop env prog op (cohortCandidates c op) None (co_state c)) (\<lambda>(first, m).
       case first of None \<Rightarrow> Inl Failure | Some r \<Rightarrow> Inr (r, c\<lparr>co_state := m\<rparr>))"

definition getCurrentCycle_cohort :: "wave_cohort \<Rightarrow> int" where
  "getCurrentCycle_cohort c =
     fold (\<lambda>wave cycle. min cycle (getCurrentCycle (co_state c) wave)) (tl (co_waves c))
       (getCurrentCycle (co_state c) (hd (co_waves c)))"

definition bindValue_cohort :: "op_value \<Rightarrow> op_value \<Rightarrow> wave_cohort \<Rightarrow> wave_cohort" where
  "bindValue_cohort target src c =
     c\<lparr>co_state := fold (\<lambda>wave. bindValue_mw wave target src) (co_waves c) (co_state c)\<rparr>"

definition bindValues_cohort :: "op_value \<Rightarrow> op_value list \<Rightarrow> wave_cohort \<Rightarrow> wave_cohort" where
  "bindValues_cohort target sources c =
     c\<lparr>co_state := fold (\<lambda>wave. bindValues_mw wave target sources) (co_waves c) (co_state c)\<rparr>"

definition setState :: "multi_wave \<Rightarrow> wave_cohort \<Rightarrow> wave_cohort" where
  "setState m c = c\<lparr>co_state := m\<rparr>"

definition init_cohort :: "multi_wave \<Rightarrow> nat list \<Rightarrow> wave_cohort" where
  "init_cohort m waves = \<lparr>co_waves = waves, co_state = m\<rparr>"

definition takeState :: "wave_cohort \<Rightarrow> multi_wave" where
  "takeState c = co_state c"

definition getScheduleModel_mw :: "multi_wave \<Rightarrow> schedule_model" where
  "getScheduleModel_mw m = scheduleModel (es_config (hd (mw_waves m)))"

definition getScheduleModel_cohort :: "wave_cohort \<Rightarrow> schedule_model" where
  "getScheduleModel_cohort c = getScheduleModel_mw (co_state c)"

end
