(* ===== verification/Multi_Wave_Invariant.thy ===== *)
theory Multi_Wave_Invariant
  imports Multi_Wave
begin

text \<open>
  The invariant of a compute unit: every wave keeps its own invariant, the calendars stay
  within capacity and their clock never moves back, and the placements and round-robin
  cursors stay in range. The main step is that the cycle at which a wave commits is one at
  which the query has found all shared resources free.
\<close>

subsection \<open>Target and configuration of a wave\<close>

lemma foldCommit_arch:
  "(\<And>v s. es_arch (f v s) = es_arch s \<and> es_config (f v s) = es_config s) \<Longrightarrow>
   es_arch (fold f vs s) = es_arch s \<and> es_config (fold f vs s) = es_config s"
  by (induction vs arbitrary: s) simp_all

lemma commitNoMachineInst_arch:
  "commitNoMachineInst op s = (ready, t) \<Longrightarrow> es_arch t = es_arch s \<and> es_config t = es_config s"
proof -
  define sources where "sources = (if dropsTokenCompletion op then [] else op_operands op)"
  let ?f = "\<lambda>res (ready, s).
        let s' = bindValues_es res sources s
        in (if \<not> isMemToken res then max ready (getValueReadyCycle s' res) else ready, s')"
  have "fold ?f vs (r, s) = (ready, t) \<Longrightarrow> es_arch t = es_arch s \<and> es_config t = es_config s" for vs r s
    by (induction vs arbitrary: r s) (auto simp: Let_def bindValues_es_def)
  then show "commitNoMachineInst op s = (ready, t) \<Longrightarrow> es_arch t = es_arch s \<and> es_config t = es_config s"
    by (simp add: commitNoMachineInst_def sources_def Let_def)
qed

lemma commitPseudo_arch:
  assumes "commitPseudo op desc st s = (r, t)"
  shows "es_arch t = es_arch s \<and> es_config t = es_config s"
proof -
  obtain ready s1 where s1: "commitNoMachineInst op s = (ready, s1)" by fastforce
  have t: "t = commitStoreData desc (commitM0 desc s1)"
    using assms by (auto simp: commitPseudo_def s1 Let_def)
  have "sameTokens s1 t" unfolding t by (rule sameTokens_trans [OF sameTokens_commitM0 sameTokens_commitStoreData])
  with commitNoMachineInst_arch [OF s1] show ?thesis by (simp add: sameTokens_fields)
qed

lemma commit_arch:
  assumes "commitWithResources env prog op rs placement s = Inr (r, t, rs')" and "waveOk s"
    and "DmaIssueDelayOp_verify op" and "issueCycle r \<le> INT64_MAX"
  shows "es_arch t = es_arch s \<and> es_config t = es_config s"
proof -
  obtain desc st where d: "describe env prog s op = Inr desc"
    and q: "queryWithResources s op desc rs placement = Inr st"
    and p: "noMachineInst desc \<longrightarrow>
      commitPseudo op desc st (waitForIssue desc st s) = (r, t) \<and> rs' = rs"
    and m: "\<not> noMachineInst desc \<longrightarrow>
      commitMachine op desc st rs placement (waitForIssue desc st s) = (r, t, rs')"
    and "isInstructionExecutionStateArchSupported env (arch_isa (es_arch s))"
    and "isWaveAMDMachineOp op"
    by (rule commitWithResources_cases [OF assms(1)]) (rule that)
  have ok: "stallOk st" by (rule query_steps [OF q])
  have stall: "stall r = st"
    using p m by (cases "noMachineInst desc"; auto simp: commitPseudo_def commitMachine_def Let_def
        split: prod.splits)
  have "currentCycle s + stall_cycles st \<le> INT64_MAX"
    using commit_clock(2) [OF assms] assms(4) stall by simp
  note w = waitForIssue_ok [OF assms(2) ok this, of desc]
  show ?thesis
  proof (cases "noMachineInst desc")
    case True
    with p commitPseudo_arch [of op desc st "waitForIssue desc st s" r t] w(3,4) show ?thesis by auto
  next
    case False
    with m commitMachine_ok(7,8) [OF _ w(1), of op desc st rs placement r t rs']
      describe_fields(9) [OF d assms(3)] w(3,4) show ?thesis by auto
  qed
qed

subsection \<open>The shared resources of an operation\<close>

lemma getResourceUses_cong:
  assumes "es_arch t = es_arch s" and "es_config t = es_config s"
  shows "getResourceUses t op desc rs = getResourceUses s op desc rs"
proof -
  have p: "getIssuePeriod t = getIssuePeriod s" using assms by (simp add: getIssuePeriod_def)
  have "appendIssueResourceUses t = appendIssueResourceUses s"
    by (intro ext) (simp add: appendIssueResourceUses_def assms p)
  moreover from this have "appendDmaIssueResourceUses t = appendDmaIssueResourceUses s"
    by (intro ext) (simp add: appendDmaIssueResourceUses_def assms p Let_def)
  moreover have "appendLdsResourceUses t = appendLdsResourceUses s"
    by (intro ext) (simp add: appendLdsResourceUses_def assms Let_def)
  ultimately show ?thesis by (simp add: getResourceUses_def p cong: op_class.case_cong)
qed

lemma commitMachine_resources:
  assumes "commitMachine op desc st (Some rs) placement s = (r, t, rs')" and "waveOk s"
  shows "rs' = Some (commit_rs placement (getResourceUses s op desc rs) (currentCycle s) rs)"
proof -
  obtain new s1 where s1: "commitMemoryEvents op desc (currentCycle s) s = (new, s1)" by fastforce
  define s2 where "s2 = smoothLdsDma desc True s1"
  define s3 where "s3 = commitResults op desc (currentCycle s) new s2"
  note m = commitMemoryEvents_ok [OF s1 assms(2)]
  have c2: "sameTokens s1 s2" unfolding s2_def by (rule sameTokens_smoothLdsDma)
  have "set new \<subseteq> recorded s2" using m(2) c2 by (simp add: sameEvents_ok(3) [of s1 s2] sameTokens_def)
  from commitResults_ok(2) [OF _ this m(4), of op desc "currentCycle s", folded s3_def]
  have "es_arch s3 = es_arch s" "es_config s3 = es_config s"
    using m(1,8,9) sameTokens_ok [OF c2] sameTokens_fields [OF c2] by (simp_all add: sameEvents_def)
  then have "getResourceUses s3 op desc rs = getResourceUses s op desc rs" by (rule getResourceUses_cong)
  moreover have "rs' = Some (commit_rs placement (getResourceUses s3 op desc rs) (currentCycle s) rs)"
    using assms(1) unfolding commitMachine_def Let_def s1 prod.case s3_def s2_def by auto
  ultimately show ?thesis by simp
qed

lemma nonneg_uses: "nonneg (getResourceUses s op desc rs)"
proof -
  have p: "0 \<le> getIssuePeriod s" using getIssuePeriod_pos [of s] by simp
  have i: "nonneg (appendIssueResourceUses s n off per uses)"
    if "0 \<le> off" "0 \<le> per" "nonneg uses" for n off per uses
    using that by (auto simp: nonneg_def appendIssueResourceUses_def Let_def)
  have d: "nonneg (appendDmaIssueResourceUses s skip c [])" for skip c
    using p by (auto simp: appendDmaIssueResourceUses_def Let_def kMaxNopCycles_def nonneg_def
        appendIssueResourceUses_def)
  have "nonneg (appendPipeResourceUse op desc rs uses)" if "nonneg uses" for uses
    using that by (auto simp: nonneg_def appendPipeResourceUse_def Let_def)
  moreover have "nonneg (appendMfmaCoissueResourceUse desc rs uses)" if "nonneg uses" for uses
    using that by (auto simp: nonneg_def appendMfmaCoissueResourceUse_def)
  moreover have "nonneg (appendLdsResourceUses s desc rs (getIssuePeriod s) uses)" if "nonneg uses" for uses
    using that p by (auto simp: nonneg_def appendLdsResourceUses_def Let_def)
  moreover have "nonneg []" by (simp add: nonneg_def)
  ultimately show ?thesis
    using i [OF _ p] d p by (auto simp: getResourceUses_def Let_def split: op_class.splits)
qed

text \<open>The verified delay of an issue-delay operation counts its no-ops in 32 bits.\<close>

definition delayFits :: "op_info \<Rightarrow> bool" where
  "delayFits op = (case op_class op of
     DmaIssueDelayOp dependency skip cycles overlap \<Rightarrow> cycles < 68719476720 | _ \<Rightarrow> True)"

lemma has_reservation:
  assumes "describe env prog s op = Inr desc" and "\<not> noMachineInst desc"
    and "DmaIssueDelayOp_verify op" and "delayFits op"
  shows "list_ex hasReservation (getResourceUses s op desc rs)"
proof -
  have p: "1 \<le> getIssuePeriod s" by (rule getIssuePeriod_pos)
  have n: "1 \<le> instructionIssueCount desc"
    using describe_fields(5) [OF assms(1)] by (rule getInstructionIssueCount_pos)
  have issue: "list_ex hasReservation (appendIssueResourceUses s k off per uses)"
    if "k \<noteq> 0" for k off per uses
    using that p by (simp add: appendIssueResourceUses_def Let_def hasReservation_def)
  have keep: "list_ex hasReservation uses \<Longrightarrow> list_ex hasReservation (appendIssueResourceUses s k off per uses)"
    for k off per uses by (simp add: appendIssueResourceUses_def Let_def)
  have dma: "list_ex hasReservation (appendDmaIssueResourceUses s skip c uses)"
    if "0 < c" "c < 68719476720" for skip c uses
  proof -
    have "1 \<le> (15 + c) div 16" "(15 + c) div 16 < 4294967296" using that by linarith+
    then have "to_u32 ((15 + c) div 16) \<noteq> 0" by (simp add: to_u32_def)
    with that issue keep show ?thesis
      by (cases skip) (auto simp: appendDmaIssueResourceUses_def Let_def kMaxNopCycles_def
          sdiv_nonneg skipsDelay_def)
  qed
  have "list_ex hasReservation (appendLdsResourceUses s desc rs (getIssuePeriod s)
      (appendMfmaCoissueResourceUse desc rs (appendPipeResourceUse op desc rs uses)))"
    if "list_ex hasReservation uses" for uses
    using that by (simp add: appendLdsResourceUses_def appendMfmaCoissueResourceUse_def
        appendPipeResourceUse_def Let_def)
  then show ?thesis
    using assms(2-4) issue n dma
    by (auto simp: getResourceUses_def Let_def DmaIssueDelayOp_verify_def delayFits_def
        split: op_class.splits if_splits)
qed

subsection \<open>The issue cycle is feasible\<close>

lemma query_shared:
  assumes "queryWithResources s op desc (Some rs) placement = Inr st"
    and "stateOk rs" and "validPlacement rs placement"
    and "list_ex hasReservation (getResourceUses s op desc rs)"
    and "currentCycle s + stall_cycles st \<le> INT64_MAX"
  shows "feasible rs placement (getResourceUses s op desc rs) (currentCycle s + stall_cycles st)"
    and "lastCommittedCycle rs \<le> currentCycle s + stall_cycles st"
proof -
  let ?uses = "getResourceUses s op desc rs"
  from assms(1) obtain st0 st1 where st0: "addDependencyStalls s op desc noStall = Inr st0"
    and st1: "st1 = addIssueHazards s op desc (addLocalMemoryIssueStalls s desc (addCoexecStall s desc st0))"
    and st: "addSharedResourceStall s op desc rs placement st1 = Inr st"
    by (auto simp: queryWithResources_def bindR_eq_Inr Let_def)
  have "stall_le noStall st0" by (rule stall_le_addDependencyStalls [OF st0 stall_le_refl])
  then have "stall_le noStall st1" unfolding st1
    by (intro stall_le_addIssueHazards stall_le_addLocalMemoryIssueStalls stall_le_addCoexecStall)
  then have ok1: "stallOk st1" by (simp add: stall_le_def)
  have "stall_le st1 st" by (rule stall_le_addSharedResourceStall [OF st stall_le_refl])
  with ok1 have le: "stall_cycles st1 \<le> stall_cycles st" by (simp add: stall_le_def)
  define e where "e = currentCycle s + stall_cycles st1"
  have e: "saturatingAdd (currentCycle s) (stall_cycles st1) = e"
    using le assms(5) by (simp add: e_def saturatingAdd_exact)
  obtain q where q: "query_rs rs placement ?uses e = Inr q"
    and st': "st = (if readyCycle q > e then addComponent IssueBackpressure
       (readyCycle q - currentCycle s) (query_kind q) (query_scope q) st1 else st1)"
    using st by (auto simp: addSharedResourceStall_def Let_def e bindR_eq_Inr)
  note ready = query_rs_Inr(1,2) [OF assms(2,3,4) q]
  have "currentCycle s + stall_cycles st = readyCycle q"
    using st' ready(1) stallOk_nonneg [OF ok1]
    by (auto simp: e_def addComponent_def Let_def split: if_splits)
  with ready show "feasible rs placement ?uses (currentCycle s + stall_cycles st)"
    "lastCommittedCycle rs \<le> currentCycle s + stall_cycles st" by auto
qed

lemma commit_shared:
  assumes "commitWithResources env prog op (Some rs) placement s = Inr (r, t, rs')"
    and "waveOk s" and "DmaIssueDelayOp_verify op" and "delayFits op"
    and "issueCycle r \<le> INT64_MAX" and "stateOk rs" and "validPlacement rs placement"
  shows "\<exists>rs2. rs' = Some rs2 \<and> stateOk rs2 \<and> (\<forall>p. validPlacement rs2 p = validPlacement rs p) \<and>
    lastCommittedCycle rs \<le> lastCommittedCycle rs2 \<and>
    (if classifyOp op = NoInst then rs2 = rs
     else lastCommittedCycle rs2 = issueCycle r \<and> (\<exists>desc. describe env prog s op = Inr desc \<and>
       feasible rs placement (getResourceUses s op desc rs) (issueCycle r) \<and>
       rs2 = commit_rs placement (getResourceUses s op desc rs) (issueCycle r) rs))"
proof -
  obtain desc st where d: "describe env prog s op = Inr desc"
    and q: "queryWithResources s op desc (Some rs) placement = Inr st"
    and p: "noMachineInst desc \<longrightarrow>
      commitPseudo op desc st (waitForIssue desc st s) = (r, t) \<and> rs' = Some rs"
    and m: "\<not> noMachineInst desc \<longrightarrow>
      commitMachine op desc st (Some rs) placement (waitForIssue desc st s) = (r, t, rs')"
    and "isInstructionExecutionStateArchSupported env (arch_isa (es_arch s))"
    and "isWaveAMDMachineOp op"
    by (rule commitWithResources_cases [OF assms(1)]) (rule that)
  show ?thesis
  proof (cases "noMachineInst desc")
    case True
    with p assms(6) describe_fields(2) [OF d] show ?thesis by auto
  next
    case False
    note m' = m [rule_format, OF False]
    have ok: "stallOk st" by (rule query_steps [OF q])
    have c: "issueCycle r = currentCycle s + stall_cycles st"
      using m' by (auto simp: commitMachine_def Let_def waitForIssue_def consumeCoexecutionWait_simps
          split: prod.splits)
    note w = waitForIssue_ok [OF assms(2) ok assms(5) [unfolded c], of desc]
    let ?uses = "getResourceUses s op desc rs"
    have rs': "rs' = Some (commit_rs placement ?uses (issueCycle r) rs)"
      using commitMachine_resources [OF m' w(1)] getResourceUses_cong [OF w(3,4)] w(2) c by simp
    have res: "list_ex hasReservation ?uses" by (rule has_reservation [OF d False assms(3,4)])
    note f = query_shared [OF q assms(6,7) res assms(5) [unfolded c], folded c]
    have "0 \<le> issueCycle r" using f(2) assms(6) by (simp add: stateOk_def)
    note k = commit_rs_ok [OF assms(6,7) f(1) nonneg_uses this assms(5)]
    show ?thesis using rs' k f d False describe_fields(2) [OF d] by auto
  qed
qed

subsection \<open>The invariant\<close>

definition cuShape :: "arch_data \<Rightarrow> bool" where
  "cuShape arch \<longleftrightarrow> 0 < wavesPerSIMD arch \<and> wavesPerSIMD arch \<le> 32 \<and>
     (simdsPerCU arch = 2 \<or> simdsPerCU arch = 4)"

lemma sane_cuShape: "sane arch \<Longrightarrow> cuShape arch"
  by (simp add: sane_def cuShape_def)

definition placeOk :: "arch_data \<Rightarrow> wave_placement \<Rightarrow> bool" where
  "placeOk arch p \<longleftrightarrow> simd p < to_u32 (simdsPerCU arch) \<and> slot p < to_u32 (wavesPerSIMD arch)"

definition mwOk :: "multi_wave \<Rightarrow> bool" where
  "mwOk m \<longleftrightarrow> cuShape (mw_arch m) \<and>
     length (mw_waves m) = length (mw_placements m) \<and> distinct (mw_placements m) \<and>
     list_all (placeOk (mw_arch m)) (mw_placements m) \<and>
     list_all (\<lambda>s. waveOk s \<and> es_arch s = mw_arch m) (mw_waves m) \<and>
     stateOk (mw_resources m) \<and>
     (\<forall>p. validPlacement (mw_resources m) p \<longleftrightarrow> simd p < to_u32 (simdsPerCU (mw_arch m))) \<and>
     length (roundRobinCursor m) = to_u32 (simdsPerCU (mw_arch m)) \<and>
     list_all (\<lambda>c. c < to_u32 (wavesPerSIMD (mw_arch m))) (roundRobinCursor m)"

lemma mwOk_wave:
  assumes "mwOk m" and "w < length (mw_waves m)"
  shows "waveOk (mw_waves m ! w)" and "es_arch (mw_waves m ! w) = mw_arch m"
    and "placeOk (mw_arch m) (getPlacement m w)"
    and "validPlacement (mw_resources m) (getPlacement m w)"
    and "simd (getPlacement m w) < length (roundRobinCursor m)"
    and "stateOk (mw_resources m)"
  using assms by (auto simp: mwOk_def getPlacement_def placeOk_def list_all_length)

subsection \<open>Valid placements\<close>

lemma u32_shape:
  assumes "cuShape arch"
  shows "0 < to_u32 (wavesPerSIMD arch)" and "to_u32 (wavesPerSIMD arch) \<le> 32"
    and "to_u64 (wavesPerSIMD arch) = to_u32 (wavesPerSIMD arch)"
    and "to_u64 (simdsPerCU arch) = to_u32 (simdsPerCU arch)"
    and "to_u32 (simdsPerCU arch) = 2 \<or> to_u32 (simdsPerCU arch) = 4"
    and "int (to_u32 (wavesPerSIMD arch)) = wavesPerSIMD arch"
  using assms by (auto simp: cuShape_def to_u32_def to_u64_def)

definition placementKey :: "arch_data \<Rightarrow> wave_placement \<Rightarrow> nat" where
  "placementKey arch p = simd p * to_u32 (wavesPerSIMD arch) + slot p"

lemma placementKey_inj: "inj_on (placementKey arch) {p. placeOk arch p}"
proof (rule inj_onI)
  fix p q assume p: "p \<in> {p. placeOk arch p}" "q \<in> {p. placeOk arch p}"
    and eq: "placementKey arch p = placementKey arch q"
  let ?n = "to_u32 (wavesPerSIMD arch)"
  have "placementKey arch r div ?n = simd r \<and> placementKey arch r mod ?n = slot r" if "placeOk arch r" for r
    using that by (simp add: placementKey_def placeOk_def)
  with p eq have "simd p = simd q" "slot p = slot q" by (metis mem_Collect_eq)+
  then show "p = q" by simp
qed

lemma placementsInRange_iff:
  assumes "cuShape arch"
  shows "placementsInRange arch seen ps \<longleftrightarrow> list_all (placeOk arch) ps \<and>
    distinct (map (placementKey arch) ps) \<and> seen \<inter> placementKey arch ` set ps = {}"
proof (induction ps arbitrary: seen)
  case (Cons p ps)
  have key: "wrap_u64 (simd p * to_u64 (wavesPerSIMD arch) + slot p) = placementKey arch p"
    if ok: "placeOk arch p"
  proof -
    note u = u32_shape [OF assms]
    have "simd p < 4" using ok u(5) by (auto simp: placeOk_def)
    then have "simd p * to_u32 (wavesPerSIMD arch) \<le> 4 * 32" using u(2) by (intro mult_mono) auto
    then show ?thesis using ok u by (simp add: placementKey_def placeOk_def wrap_u64_id)
  qed
  show ?case
  proof (cases "placeOk arch p")
    case True
    with key [OF True] Cons.IH show ?thesis by (auto simp: placeOk_def Let_def)
  qed (auto simp: placeOk_def)
qed simp

lemma placements_capacity:
  assumes "list_all (placeOk arch) ps" and "distinct ps"
  shows "length ps \<le> to_u32 (simdsPerCU arch) * to_u32 (wavesPerSIMD arch)"
proof -
  have "inj_on (\<lambda>p. (simd p, slot p)) (set ps)" by (auto intro!: inj_onI)
  moreover have "(\<lambda>p. (simd p, slot p)) ` set ps \<subseteq>
      {..<to_u32 (simdsPerCU arch)} \<times> {..<to_u32 (wavesPerSIMD arch)}"
    using assms(1) by (auto simp: list_all_iff placeOk_def)
  ultimately have "card (set ps) \<le> card ({..<to_u32 (simdsPerCU arch)} \<times> {..<to_u32 (wavesPerSIMD arch)})"
    by (metis card_image card_mono finite_SigmaI finite_lessThan)
  then show ?thesis using distinct_card [OF assms(2)] by (simp add: card_cartesian_product)
qed

lemma areWavePlacementsValid_iff:
  assumes "cuShape arch"
  shows "areWavePlacementsValid arch ps \<longleftrightarrow>
    ps \<noteq> [] \<and> list_all (placeOk arch) ps \<and> distinct ps"
proof -
  note u = u32_shape [OF assms]
  have "to_u32 (simdsPerCU arch) * to_u32 (wavesPerSIMD arch) \<le> 4 * 32"
    using u(2,5) by (intro mult_mono) auto
  then have cap: "wrap_u64 (to_u64 (simdsPerCU arch) * to_u64 (wavesPerSIMD arch)) =
      to_u32 (simdsPerCU arch) * to_u32 (wavesPerSIMD arch)"
    using u(3,4) by (simp add: wrap_u64_id)
  have "distinct (map (placementKey arch) ps) \<longleftrightarrow> distinct ps" if "list_all (placeOk arch) ps"
  proof -
    have "inj_on (placementKey arch) (set ps)"
      by (rule inj_on_subset [OF placementKey_inj]) (use that in \<open>auto simp: list_all_iff\<close>)
    then show ?thesis by (simp add: distinct_map)
  qed
  then show ?thesis
    using placements_capacity [of arch ps]
    by (auto simp: areWavePlacementsValid_def cap placementsInRange_iff [OF assms] not_less)
qed

lemma init_mw_ok:
  assumes "cuShape arch" and "areWavePlacementsValid arch ps"
  shows "mwOk (init_mw arch ps config)"
proof -
  have n: "0 < simdsPerCU arch" "simdsPerCU arch < 4294967296" "even (simdsPerCU arch)"
    using assms(1) by (auto simp: cuShape_def)
  note r = init_rs_ok [OF n, of "length ps" "getResourceCapacities config"]
  have "int (simd p) < simdsPerCU arch \<longleftrightarrow> simd p < to_u32 (simdsPerCU arch)" for p
    using n by (auto simp: to_u32_def)
  then show ?thesis
    using assms r init_es_ok u32_shape [OF assms(1)]
    by (auto simp: mwOk_def init_mw_def areWavePlacementsValid_iff list_all_iff init_es_def)
qed

subsection \<open>Operations\<close>

lemma list_all_update: "list_all P xs \<Longrightarrow> P x \<Longrightarrow> list_all P (xs[i := x])"
  by (auto simp: list_all_iff dest: subsetD [OF set_update_subset_insert])

lemma mwOk_updateWave:
  assumes "mwOk m" and "waveOk s" and "es_arch s = mw_arch m"
  shows "mwOk (m\<lparr>mw_waves := (mw_waves m)[w := s]\<rparr>)"
  using assms by (simp add: mwOk_def list_all_update)

lemma mwOk_rendezvous:
  assumes "mwOk m"
  shows "mwOk (rendezvous m)"
    and "w < length (mw_waves m) \<Longrightarrow> getCurrentCycle m w \<le> getCurrentCycle (rendezvous m) w"
    and "w < length (mw_waves m) \<Longrightarrow> v < length (mw_waves m) \<Longrightarrow>
      getCurrentCycle (rendezvous m) w = getCurrentCycle (rendezvous m) v"
proof -
  let ?cycle = "fold (\<lambda>s c. max c (currentCycle s)) (mw_waves m) 0"
  have cycle: "?cycle = Max (set (0 # map currentCycle (mw_waves m)))"
    by (simp add: fold_max_value)
  then have ge: "currentCycle s \<le> ?cycle" if "s \<in> set (mw_waves m)" for s using that by simp
  have le: "?cycle \<le> INT64_MAX"
    using assms unfolding cycle by (auto simp: mwOk_def list_all_iff waveOk_def INT64_MAX_def)
  have "waveOk (advanceToCycle ?cycle s)" if "s \<in> set (mw_waves m)" for s
    using assms that ge [OF that] le by (intro advanceToCycle_ok) (auto simp: mwOk_def list_all_iff)
  then show "mwOk (rendezvous m)" using assms by (auto simp: mwOk_def rendezvous_def Let_def list_all_iff)
  show "getCurrentCycle m w \<le> getCurrentCycle (rendezvous m) w" if "w < length (mw_waves m)"
    using ge [OF nth_mem [OF that]] that by (simp add: getCurrentCycle_def rendezvous_def Let_def)
  show "getCurrentCycle (rendezvous m) w = getCurrentCycle (rendezvous m) v"
    if "w < length (mw_waves m)" "v < length (mw_waves m)"
    using that by (simp add: getCurrentCycle_def rendezvous_def Let_def)
qed

end
