(* ===== verification/Multi_Wave_Props.thy ===== *)
theory Multi_Wave_Props
  imports Multi_Wave_Invariant Execution_Example
begin

text \<open>
  The properties of a compute unit: placements, the choice of the next wave and its fairness,
  exclusive use of the shared resources along every run, the stalls that feed the scheduler's
  priorities, and the cohort commit as a sequence of single-wave commits.
\<close>

subsection \<open>Committing on one wave\<close>

lemma mwOk_committed:
  assumes "mwOk m" and "waveOk s" and "es_arch s = mw_arch m" and "stateOk rs"
    and "\<And>p. validPlacement rs p \<longleftrightarrow> validPlacement (mw_resources m) p"
    and "list_all (\<lambda>c. c < to_u32 (wavesPerSIMD (mw_arch m))) cursor"
    and "length cursor = length (roundRobinCursor m)"
  shows "mwOk (m\<lparr>mw_waves := (mw_waves m)[w := s], mw_resources := rs, roundRobinCursor := cursor\<rparr>)"
  using assms by (simp add: mwOk_def list_all_update)

lemma commit_mw_ok:
  assumes "commit_mw env prog w op m = Inr (r, m')" and "mwOk m"
    and "DmaIssueDelayOp_verify op" and "delayFits op" and "issueCycle r \<le> INT64_MAX"
  shows "mwOk m'"
    and "lastCommittedCycle (mw_resources m) \<le> lastCommittedCycle (mw_resources m')"
    and "w < length (mw_waves m)" and "mw_arch m' = mw_arch m" and "mw_placements m' = mw_placements m"
    and "getCurrentCycle m w \<le> issueCycle r" and "issueCycle r \<le> getCurrentCycle m' w"
    and "roundRobinCursor m' = (if classifyOp op = NoInst then roundRobinCursor m
      else (roundRobinCursor m)[simd (getPlacement m w) := trunc_u32 (slot (getPlacement m w) + 1)
        mod to_u32 (wavesPerSIMD (mw_arch m))])"
    and "\<exists>s'. mw_waves m' = (mw_waves m)[w := s']"
    and "classifyOp op \<noteq> NoInst \<Longrightarrow> lastCommittedCycle (mw_resources m') = issueCycle r \<and>
      (\<exists>desc. describe env prog (mw_waves m ! w) op = Inr desc \<and>
        feasible (mw_resources m) (getPlacement m w)
          (getResourceUses (mw_waves m ! w) op desc (mw_resources m)) (issueCycle r))"
proof -
  let ?s = "mw_waves m ! w" and ?p = "getPlacement m w"
  from assms(1) show w: "w < length (mw_waves m)" by (auto simp: commit_mw_def split: if_splits)
  note ok = mwOk_wave [OF assms(2) w]
  from assms(1) w obtain r0 s' rs' where
    c: "commitWithResources env prog op (Some (mw_resources m)) ?p ?s = Inr (r0, s', rs')"
    and r: "r = withPriorities r0"
    and m': "m' = m\<lparr>mw_waves := (mw_waves m)[w := s'], mw_resources := the rs',
      roundRobinCursor := (if classifyOp op = NoInst then roundRobinCursor m
        else (roundRobinCursor m)[simd ?p := trunc_u32 (slot ?p + 1) mod
          to_u32 (wavesPerSIMD (mw_arch m))])\<rparr>"
    by (auto simp: commit_mw_def Let_def bindR_eq_Inr split: if_splits)
  have ic: "issueCycle r0 = issueCycle r" "stall r0 = stall r" by (simp_all add: r withPriorities_def)
  note bound = assms(5) [folded ic(1)]
  obtain rs2 where rs2: "rs' = Some rs2" "stateOk rs2" "\<And>p. validPlacement rs2 p = validPlacement (mw_resources m) p"
    "lastCommittedCycle (mw_resources m) \<le> lastCommittedCycle rs2"
    "classifyOp op \<noteq> NoInst \<Longrightarrow> lastCommittedCycle rs2 = issueCycle r \<and>
      (\<exists>desc. describe env prog ?s op = Inr desc \<and>
        feasible (mw_resources m) ?p (getResourceUses ?s op desc (mw_resources m)) (issueCycle r))"
    using commit_shared [OF c ok(1) assms(3,4) bound ok(6,4)] ic by (auto split: if_splits)
  have s': "waveOk s'" "es_arch s' = mw_arch m"
    using commit_clock(1) [OF c ok(1) assms(3) bound] commit_arch [OF c ok(1) assms(3) bound] ok(2)
    by simp_all
  have "n mod to_u32 (wavesPerSIMD (mw_arch m)) < to_u32 (wavesPerSIMD (mw_arch m))" for n
    using assms(2) u32_shape(1) by (auto simp: mwOk_def)
  then have "list_all (\<lambda>c. c < to_u32 (wavesPerSIMD (mw_arch m))) (roundRobinCursor m')"
    "length (roundRobinCursor m') = length (roundRobinCursor m)"
    using assms(2) by (auto simp: m' mwOk_def intro: list_all_update)
  then show "mwOk m'"
    using mwOk_committed [OF assms(2) s' rs2(2,3), of "roundRobinCursor m'" w]
    by (simp add: m' rs2(1))
  show "lastCommittedCycle (mw_resources m) \<le> lastCommittedCycle (mw_resources m')"
    "mw_arch m' = mw_arch m" "mw_placements m' = mw_placements m"
    "roundRobinCursor m' = (if classifyOp op = NoInst then roundRobinCursor m
      else (roundRobinCursor m)[simd ?p := trunc_u32 (slot ?p + 1) mod
        to_u32 (wavesPerSIMD (mw_arch m))])"
    "\<exists>s'. mw_waves m' = (mw_waves m)[w := s']"
    using rs2 by (auto simp: m')
  show "getCurrentCycle m w \<le> issueCycle r" "issueCycle r \<le> getCurrentCycle m' w"
    using commit_clock(4,6) [OF c ok(1) assms(3) bound] ic w by (simp_all add: getCurrentCycle_def m')
  show "classifyOp op \<noteq> NoInst \<Longrightarrow> lastCommittedCycle (mw_resources m') = issueCycle r \<and>
      (\<exists>desc. describe env prog ?s op = Inr desc \<and>
        feasible (mw_resources m) ?p (getResourceUses ?s op desc (mw_resources m)) (issueCycle r))"
    using rs2 by (simp add: m')
qed

text \<open>One step of a run: a wave commits an operation inside the range of the clock.\<close>

definition mw_step :: "llvm_env \<Rightarrow> op_info list \<Rightarrow> nat \<times> op_info \<Rightarrow> multi_wave \<Rightarrow> multi_wave result" where
  "mw_step env prog a m =
     bindR (commit_mw env prog (fst a) (snd a) m) (\<lambda>(r, m').
       if issueCycle r \<le> INT64_MAX then Inr m' else Inl (Unreachable ''signed overflow''))"

definition mw_clock :: "multi_wave \<Rightarrow> int" where
  "mw_clock m = lastCommittedCycle (mw_resources m)"

definition mw_request :: "nat \<times> op_info \<Rightarrow> bool" where
  "mw_request a \<longleftrightarrow> DmaIssueDelayOp_verify (snd a) \<and> delayFits (snd a)"

interpretation cu: timeline mwOk mw_clock mw_request "mw_step env prog" for env prog
proof unfold_locales
  fix m a m'
  assume ok: "mwOk m" "mw_request a" and step: "mw_step env prog a m = Inr m'"
  from step obtain r where "commit_mw env prog (fst a) (snd a) m = Inr (r, m')"
    "issueCycle r \<le> INT64_MAX"
    by (auto simp: mw_step_def bindR_eq_Inr split: if_splits)
  with ok commit_mw_ok(1,2) show "mwOk m'" "mw_clock m \<le> mw_clock m'"
    by (auto simp: mw_request_def mw_clock_def)
qed

subsection \<open>The order of the candidates\<close>

definition candidateKey :: "wave_candidate \<Rightarrow> int \<times> nat \<times> nat \<times> nat" where
  "candidateKey c = (cand_cycle c, cand_simd c, roundRobinRank c, cand_wave c)"

lemma isEarlier_key: "isEarlier a b \<longleftrightarrow> candidateKey a < candidateKey b"
  by (auto simp: isEarlier_def candidateKey_def less_prod_def')

text \<open>What the scan of \<open>selectWave\<close> knows after the waves \<open>ws\<close>.\<close>

definition bestOf :: "llvm_env \<Rightarrow> op_info list \<Rightarrow> multi_wave \<Rightarrow> op_info option list \<Rightarrow> nat set \<Rightarrow>
    wave_candidate option \<Rightarrow> bool" where
  "bestOf env prog m candidates ws best \<longleftrightarrow>
     (best = None \<longleftrightarrow> (\<forall>v\<in>ws. candidates ! v = None)) \<and>
     (\<forall>v\<in>ws. \<forall>op. candidates ! v = Some op \<longrightarrow> (\<exists>st. query_mw env prog m v op = Inr st \<and>
        (\<forall>b. best = Some b \<longrightarrow> candidateKey b \<le> candidateKey (candidateOf m v st)))) \<and>
     (\<forall>b. best = Some b \<longrightarrow> (\<exists>v\<in>ws. \<exists>op st. candidates ! v = Some op \<and>
        query_mw env prog m v op = Inr st \<and> b = candidateOf m v st))"

lemma considerWave_best:
  assumes "considerWave env prog m candidates w best = Inr best'"
    and "bestOf env prog m candidates ws best"
  shows "bestOf env prog m candidates (insert w ws) best'"
proof (cases "candidates ! w")
  case None
  with assms show ?thesis by (auto simp: considerWave_def bestOf_def)
next
  case (Some op)
  with assms(1) obtain st where st: "query_mw env prog m w op = Inr st"
    and best': "best' = (case best of None \<Rightarrow> Some (candidateOf m w st)
      | Some b \<Rightarrow> if isEarlier (candidateOf m w st) b then Some (candidateOf m w st) else best)"
    by (auto simp: considerWave_def bindR_eq_Inr Let_def)
  show ?thesis
  proof (cases best)
    case None
    with assms(2) Some st best' show ?thesis by (auto simp: bestOf_def)
  next
    case (Some b)
    with assms(2) \<open>candidates ! w = Some op\<close> st best' show ?thesis
      unfolding bestOf_def isEarlier_key
      by (cases "candidateKey (candidateOf m w st) < candidateKey b")
         (fastforce intro: order_trans less_imp_le)+
  qed
qed

lemma scan_best:
  "foldR (considerWave env prog m candidates) vs best = Inr best' \<Longrightarrow>
   bestOf env prog m candidates ws best \<Longrightarrow> bestOf env prog m candidates (ws \<union> set vs) best'"
proof (induction vs arbitrary: best ws)
  case (Cons v vs)
  then obtain b where "considerWave env prog m candidates v best = Inr b"
    "foldR (considerWave env prog m candidates) vs b = Inr best'"
    by (auto simp: bindR_eq_Inr)
  with Cons.IH [OF _ considerWave_best [OF _ Cons.prems(2)]] show ?case by fastforce
qed simp

lemma selectWave_best:
  assumes "selectWave env prog m candidates = Inr w"
  obtains op st where "w < getWaveCount m" and "candidates ! w = Some op"
    and "query_mw env prog m w op = Inr st"
    and "\<And>v op'. v < getWaveCount m \<Longrightarrow> candidates ! v = Some op' \<Longrightarrow>
      \<exists>st'. query_mw env prog m v op' = Inr st' \<and>
        candidateKey (candidateOf m w st) \<le> candidateKey (candidateOf m v st')"
proof -
  from assms obtain b where
    scan: "foldR (considerWave env prog m candidates) [0..<getWaveCount m] None = Inr (Some b)"
    and w: "w = cand_wave b"
    by (auto simp: selectWave_def bindR_eq_Inr split: option.splits)
  have "bestOf env prog m candidates {} None" by (simp add: bestOf_def)
  from scan_best [OF scan this]
  have best: "bestOf env prog m candidates {..<getWaveCount m} (Some b)"
    by (simp add: atLeast0LessThan)
  then obtain v op st where v: "v < getWaveCount m" "candidates ! v = Some op"
    "query_mw env prog m v op = Inr st" "b = candidateOf m v st"
    by (auto simp: bestOf_def)
  then have "v = w" using w by (simp add: candidateOf_def)
  with v best show thesis by (intro that [of op st]) (auto simp: bestOf_def)
qed

subsection \<open>Ranks\<close>

lemma rank_eq:
  assumes "mwOk m" and "w < length (mw_waves m)"
  shows "int (getRoundRobinRank m w) =
    (int (slot (getPlacement m w)) - int (roundRobinCursor m ! simd (getPlacement m w)))
      mod wavesPerSIMD (mw_arch m)"
proof -
  let ?n = "wavesPerSIMD (mw_arch m)" and ?c = "roundRobinCursor m ! simd (getPlacement m w)"
  have n: "0 < ?n" "?n \<le> 32" using assms(1) by (simp_all add: mwOk_def cuShape_def)
  have c: "?c < to_u32 ?n"
    using assms(1) mwOk_wave(5) [OF assms] by (auto simp: mwOk_def list_all_length)
  have s: "slot (getPlacement m w) < to_u32 ?n"
    using mwOk_wave(3) [OF assms] by (simp add: placeOk_def)
  have u: "to_u32 ?n = nat ?n" using n by (simp add: to_u32_def)
  let ?x = "int (slot (getPlacement m w)) + ?n - int ?c"
  have x: "0 \<le> ?x" "?x < 4294967296" using c s n u by linarith+
  have "int (getRoundRobinRank m w) = int (nat ?x) mod int (nat ?n)"
    using x n by (simp add: getRoundRobinRank_def Let_def u to_u32_id zmod_int)
  also have "\<dots> = ?x mod ?n" using x n by simp
  also have "\<dots> = (int (slot (getPlacement m w)) - int ?c) mod ?n"
    by (metis add.commute add_diff_eq diff_add_eq mod_add_self1)
  finally show ?thesis .
qed

lemma mod_inj_range:
  fixes a b c n :: int
  assumes "0 \<le> a" "a < n" "0 \<le> b" "b < n" and "(a - c) mod n = (b - c) mod n"
  shows "a = b"
proof -
  have "n dvd a - b" using assms(5) by (simp add: mod_eq_dvd_iff)
  then show ?thesis using assms(1-4) zdvd_imp_le [of n "a - b"] zdvd_imp_le [of n "b - a"]
    by (cases a b rule: linorder_cases) (auto simp: dvd_diff_commute)
qed

lemma rank_inj:
  assumes "mwOk m" and "w < length (mw_waves m)" and "v < length (mw_waves m)"
    and "simd (getPlacement m v) = simd (getPlacement m w)"
    and "getRoundRobinRank m v = getRoundRobinRank m w"
  shows "v = w"
proof -
  let ?n = "wavesPerSIMD (mw_arch m)"
  have n: "0 < ?n" "?n \<le> 32" using assms(1) by (simp_all add: mwOk_def cuShape_def)
  have s: "int (slot (getPlacement m u)) < ?n" if "u < length (mw_waves m)" for u
    using mwOk_wave(3) [OF assms(1) that] n by (auto simp: placeOk_def to_u32_def)
  have eq: "(int (slot (getPlacement m v)) - int (roundRobinCursor m ! simd (getPlacement m w))) mod ?n =
      (int (slot (getPlacement m w)) - int (roundRobinCursor m ! simd (getPlacement m w))) mod ?n"
    using rank_eq [OF assms(1,3)] unfolding assms(4,5) rank_eq [OF assms(1,2)] by (rule sym)
  have "int (slot (getPlacement m v)) = int (slot (getPlacement m w))"
    by (rule mod_inj_range [OF _ s [OF assms(3)] _ s [OF assms(2)] eq]) simp_all
  then have "slot (getPlacement m v) = slot (getPlacement m w)" by simp
  then have "mw_placements m ! v = mw_placements m ! w" using assms(4) by (simp add: getPlacement_def)
  then show ?thesis using assms(1-3) by (simp add: mwOk_def nth_eq_iff_index_eq)
qed

subsection \<open>Filtered stalls\<close>

lemma fold_record:
  "components (fold (\<lambda>c st. if P c then recordComponent (f c) st else st) cs st) =
     components st @ map f (filter P cs) \<and>
   stall_cycles (fold (\<lambda>c st. if P c then recordComponent (f c) st else st) cs st) =
     fold (\<lambda>c n. max n (comp_cycles c)) (map f (filter P cs)) (stall_cycles st)"
  by (induction cs arbitrary: st) (auto simp: recordComponent_def Let_def max_def)

lemma filterStall_components:
  "components (filterStall keep st) = filter keep (components st)"
  "stall_cycles (filterStall keep st) =
     Max (set (0 # map comp_cycles (filter keep (components st))))"
proof -
  have "filterStall keep st = fold (\<lambda>c st. if keep c then recordComponent c st else st)
      (components st) noStall"
    unfolding filterStall_def by (rule fold_cong) auto
  with fold_record [of keep "\<lambda>c. c" "components st" noStall]
  show "components (filterStall keep st) = filter keep (components st)"
    "stall_cycles (filterStall keep st) =
       Max (set (0 # map comp_cycles (filter keep (components st))))"
    by (simp_all add: noStall_def fold_max_value)
qed

definition coverComponent :: "int \<Rightarrow> stall_component \<Rightarrow> stall_component" where
  "coverComponent covered c = (if comp_kind c \<noteq> CoexecWindow
     then c\<lparr>comp_cycles := max 0 (comp_cycles c - covered)\<rparr> else c)"

lemma coverStall_cycles:
  "stall_cycles (coverStall covered raw) =
     Max (set (0 # map (\<lambda>c. comp_cycles (coverComponent covered c)) (components raw)))"
proof -
  let ?P = "\<lambda>c. comp_cycles (coverComponent covered c) \<noteq> 0"
  have "coverStall covered raw =
      fold (\<lambda>c st. if ?P c then recordComponent (coverComponent covered c) st else st)
        (components raw) noStall"
    unfolding coverStall_def coverComponent_def Let_def by (rule fold_cong) auto
  then have "stall_cycles (coverStall covered raw) =
      Max (insert 0 ((\<lambda>c. comp_cycles (coverComponent covered c)) ` {c \<in> set (components raw). ?P c}))"
    using fold_record [of ?P "coverComponent covered" "components raw" noStall]
    by (simp add: noStall_def fold_max_value)
  also have "insert 0 ((\<lambda>c. comp_cycles (coverComponent covered c)) ` {c \<in> set (components raw). ?P c}) =
      insert 0 ((\<lambda>c. comp_cycles (coverComponent covered c)) ` set (components raw))" by auto
  finally show ?thesis by simp
qed

lemma stallOk_Max:
  assumes "stallOk st"
  shows "stall_cycles st = Max (set (0 # map comp_cycles (components st)))"
proof (rule Max_eqI [symmetric])
  show "y \<le> stall_cycles st" if "y \<in> set (0 # map comp_cycles (components st))" for y
    using that assms stallOk_nonneg [OF assms] by (auto simp: stallOk_def)
  show "stall_cycles st \<in> set (0 # map comp_cycles (components st))"
  proof (cases "components st = []")
    case False
    with assms obtain c where "c \<in> set (components st)" "comp_cycles c = stall_cycles st"
      by (auto simp: stallOk_def)
    then show ?thesis by force
  qed (use assms in \<open>simp add: stallOk_def\<close>)
qed simp

subsection \<open>Examples\<close>

definition ex_places :: "wave_placement list" where
  "ex_places = [\<lparr>simd = 0, slot = 0\<rparr>, \<lparr>simd = 0, slot = 1\<rparr>]"

definition ex_cu :: multi_wave where
  "ex_cu = init_mw kGfx950 ex_places (init_config 64)"

lemma small_replicates: "replicate 4 x = [x, x, x, x]" "replicate 2 x = [x, x]"
  by (simp_all add: numeral_eq_Suc)

lemmas eval_resources =
  query_rs_def getCandidateCycles_def canReserveAt_def additions_def appendReservations_def
  canReserve_def reservationEvents_def hasReservation_def validateUses_def isEnabled_def
  getCalendar_def setCalendar_def commit_rs_def prune_rs_def pruneCalendar_def appendKind_def
  resourceKinds_def blankCalendar_def init_rs_eq sdiv_nonneg small_replicates

lemmas eval_queries =
  query_mw_def getIssueOpportunityCycle_def queryAfterIssueOpportunity_def
  validateWaveArbitration_def candidateOf_def considerWave_def selectWave_def isEarlier_def
  getWaveCount_def getRoundRobinRank_def coverStall_def getPlacement_def getCurrentCycle_def

lemmas eval_commits =
  commit_mw_def init_mw_def withPriorities_def getPriorityStall_def getComputePriorityStall_def
  filterStall_def recordComponent_def ex_cu_def ex_places_def

lemmas eval_cu = eval_wave ex_ops eval_resources [unfolded Let_def] eval_queries [unfolded Let_def]
  eval_commits [unfolded Let_def]

lemma ex_cu_ok: "mwOk ex_cu"
proof -
  have shape: "cuShape kGfx950" by (rule sane_cuShape [OF sane_static_archs(3)])
  have "areWavePlacementsValid kGfx950 ex_places"
    unfolding areWavePlacementsValid_iff [OF shape]
    by (simp add: ex_places_def placeOk_def kGfx950_def to_u32_def)
  then show ?thesis unfolding ex_cu_def by (rule init_mw_ok [OF shape])
qed

lemma ex_cu_commit:
  "\<exists>r m. commit_mw ex_env [] 0 (ex_valu 1 5) ex_cu = Inr (r, m) \<and> issueCycle r = 0 \<and>
     roundRobinCursor m = [1, 0, 0, 0] \<and> mw_clock m = 0 \<and> getCurrentCycle m 0 = 4 \<and>
     getCurrentCycle m 1 = 0"
  by (simp add: eval_cu mw_clock_def)

lemma ex_valu_request: "mw_request (w, ex_valu a i)"
  by (simp add: mw_request_def delayFits_def DmaIssueDelayOp_verify_def ex_valu_def plainOp_def)

subsection \<open>Placements\<close>

lemma fullPlacements:
  assumes "0 < n" and "n \<le> to_u32 (wavesPerSIMD arch)"
  shows "distinct (getFullCUWavePlacements arch n)"
    and "list_all (placeOk arch) (getFullCUWavePlacements arch n)"
    and "length (getFullCUWavePlacements arch n) = to_u32 (simdsPerCU arch) * n"
proof -
  have eq: "getFullCUWavePlacements arch n = concat (map (\<lambda>d. map (\<lambda>k. \<lparr>simd = d, slot = k\<rparr>) [0..<n])
      [0..<to_u32 (simdsPerCU arch)])"
    using assms by (simp add: getFullCUWavePlacements_def)
  show "distinct (getFullCUWavePlacements arch n)" unfolding eq
    by (rule distinct_concat) (use assms(1) in \<open>auto simp: distinct_map inj_on_def\<close>)
  show "list_all (placeOk arch) (getFullCUWavePlacements arch n)"
    using assms unfolding eq by (auto simp: list_all_iff placeOk_def)
  show "length (getFullCUWavePlacements arch n) = to_u32 (simdsPerCU arch) * n"
    unfolding eq by (simp add: length_concat comp_def sum_list_triv)
qed

text \<open>on a target with two or four SIMDs and up to 32 waves each, the check of the placements
  accepts exactly the nonempty lists of distinct placements in range; in particular it accepts
  the placements of a full compute unit, which has one wave for every SIMD and slot.\<close>

theorem placements_valid_iff:
  assumes "cuShape arch"
  shows "(areWavePlacementsValid arch ps \<longleftrightarrow> ps \<noteq> [] \<and> distinct ps \<and>
      list_all (\<lambda>p. int (simd p) < simdsPerCU arch \<and> int (slot p) < wavesPerSIMD arch) ps) \<and>
    (areWavePlacementsValid arch (getFullCUWavePlacements arch n) \<longleftrightarrow>
      0 < n \<and> int n \<le> wavesPerSIMD arch) \<and>
    (0 < n \<and> int n \<le> wavesPerSIMD arch \<longrightarrow>
      int (length (getFullCUWavePlacements arch n)) = simdsPerCU arch * int n)"
proof -
  let ?full = "getFullCUWavePlacements arch n"
  have s: "int (to_u32 (simdsPerCU arch)) = simdsPerCU arch" "0 < to_u32 (simdsPerCU arch)"
    using assms by (auto simp: cuShape_def to_u32_def)
  note u = u32_shape [OF assms]
  have place: "placeOk arch = (\<lambda>p. int (simd p) < simdsPerCU arch \<and> int (slot p) < wavesPerSIMD arch)"
    using s(1) u(6) by (auto simp: placeOk_def fun_eq_iff)
  have n: "int n \<le> wavesPerSIMD arch \<longleftrightarrow> n \<le> to_u32 (wavesPerSIMD arch)" using u(6) by linarith
  have full: "areWavePlacementsValid arch ?full \<longleftrightarrow> 0 < n \<and> n \<le> to_u32 (wavesPerSIMD arch)"
  proof (cases "0 < n \<and> n \<le> to_u32 (wavesPerSIMD arch)")
    case True
    then have "?full \<noteq> []" using fullPlacements(3) [of n arch] s(2) by auto
    with True fullPlacements [of n arch] show ?thesis by (simp add: areWavePlacementsValid_iff [OF assms])
  qed (auto simp: areWavePlacementsValid_iff [OF assms] getFullCUWavePlacements_def)
  have "int (length ?full) = simdsPerCU arch * int n" if "0 < n" "n \<le> to_u32 (wavesPerSIMD arch)"
    using fullPlacements(3) [OF that] s(1) by simp
  then show ?thesis
    unfolding n full areWavePlacementsValid_iff [OF assms, of ps] place by blast
qed

theorem placements_valid_iff_witness:
  "areWavePlacementsValid kGfx950 (getFullCUWavePlacements kGfx950 2) \<and>
   length (getFullCUWavePlacements kGfx950 2) = 8 \<and>
   \<not> areWavePlacementsValid kGfx950 [\<lparr>simd = 0, slot = 0\<rparr>, \<lparr>simd = 0, slot = 0\<rparr>]"
proof -
  have shape: "cuShape kGfx950" by (rule sane_cuShape [OF sane_static_archs(3)])
  show ?thesis
    using placements_valid_iff [OF shape, of "getFullCUWavePlacements kGfx950 2" 2]
      placements_valid_iff [OF shape, of "[\<lparr>simd = 0, slot = 0\<rparr>, \<lparr>simd = 0, slot = 0\<rparr>]" 2]
    by (simp add: kGfx950_def)
qed

subsection \<open>Selection\<close>

text \<open>the wave that is selected is the one that issues first: it is a candidate, every
  candidate has been queried, and none comes before it in the order of issue cycle, SIMD,
  round-robin rank and wave number.\<close>

theorem selectWave_earliest:
  assumes "selectWave env prog m candidates = Inr w"
  shows "\<exists>op st. w < getWaveCount m \<and> candidates ! w = Some op \<and> query_mw env prog m w op = Inr st \<and>
    (\<forall>v op'. v < getWaveCount m \<and> candidates ! v = Some op' \<longrightarrow>
      (\<exists>st'. query_mw env prog m v op' = Inr st' \<and>
        (v = w \<or> isEarlier (candidateOf m w st) (candidateOf m v st'))))"
proof -
  obtain op st where w: "w < getWaveCount m" "candidates ! w = Some op"
    "query_mw env prog m w op = Inr st"
    and least: "\<And>v op'. v < getWaveCount m \<Longrightarrow> candidates ! v = Some op' \<Longrightarrow>
      \<exists>st'. query_mw env prog m v op' = Inr st' \<and>
        candidateKey (candidateOf m w st) \<le> candidateKey (candidateOf m v st')"
    by (rule selectWave_best [OF assms]) (rule that)
  have "candidateKey (candidateOf m w st) < candidateKey (candidateOf m v st')"
    if "candidateKey (candidateOf m w st) \<le> candidateKey (candidateOf m v st')" "v \<noteq> w" for v st'
  proof -
    have "candidateKey (candidateOf m w st) \<noteq> candidateKey (candidateOf m v st')"
      using that(2) by (simp add: candidateKey_def candidateOf_def)
    with that(1) show ?thesis by simp
  qed
  with w least show ?thesis unfolding isEarlier_key by blast
qed

theorem selectWave_earliest_witness:
  "\<exists>st. query_mw ex_env [] ex_cu 0 (ex_valu 1 5) = Inr st \<and>
     selectWave ex_env [] ex_cu [Some (ex_valu 1 5), None] = Inr 0"
proof -
  have w: "selectWave ex_env [] ex_cu [Some (ex_valu 1 5), None] = Inr 0"
    by (simp add: eval_cu)
  from selectWave_earliest [OF w] w show ?thesis by auto
qed

text \<open>arbitration on a SIMD is round robin: all its waves have different ranks, and a wave
  that has just issued a machine instruction has the last rank, so every other wave of its SIMD
  goes first when both can issue in the same cycle.\<close>

theorem round_robin_fair:
  assumes "commit_mw env prog w op m = Inr (r, m')" and "mwOk m"
    and "DmaIssueDelayOp_verify op" and "delayFits op" and "issueCycle r \<le> INT64_MAX"
    and "classifyOp op \<noteq> NoInst" and "v < length (mw_waves m)" and "v \<noteq> w"
    and "simd (getPlacement m v) = simd (getPlacement m w)"
  shows "getRoundRobinRank m v \<noteq> getRoundRobinRank m w \<and>
    getRoundRobinRank m' v < getRoundRobinRank m' w \<and>
    int (getRoundRobinRank m' w) = wavesPerSIMD (mw_arch m) - 1"
proof -
  note k = commit_mw_ok [OF assms(1-5)]
  let ?n = "wavesPerSIMD (mw_arch m)" and ?s = "int (slot (getPlacement m w))"
  have len: "length (mw_waves m') = length (mw_waves m)" using k(9) by auto
  have place: "getPlacement m' u = getPlacement m u" for u by (simp add: getPlacement_def k(5))
  have n: "0 < ?n" "?n \<le> 32" using assms(2) by (simp_all add: mwOk_def cuShape_def)
  have s: "0 \<le> ?s" "?s < ?n"
    using mwOk_wave(3) [OF assms(2) k(3)] n by (auto simp: placeOk_def to_u32_def)
  have u: "to_u32 ?n = nat ?n" using n by (simp add: to_u32_def)
  have "roundRobinCursor m' ! simd (getPlacement m w) = trunc_u32 (slot (getPlacement m w) + 1) mod nat ?n"
    using k(8) assms(6) mwOk_wave(5) [OF assms(2) k(3)] by (simp add: u)
  also have "trunc_u32 (slot (getPlacement m w) + 1) = slot (getPlacement m w) + 1"
    using s n by (intro trunc_u32_id) linarith
  finally have cursor: "int (roundRobinCursor m' ! simd (getPlacement m w)) = (?s + 1) mod ?n"
    using n by (simp add: zmod_int add.commute)
  have w': "w < length (mw_waves m')" and v': "v < length (mw_waves m')" using k(3) assms(7) len by simp_all
  have last: "int (getRoundRobinRank m' w) = ?n - 1"
  proof -
    have "int (getRoundRobinRank m' w) = (?s - (?s + 1) mod ?n) mod ?n"
      using rank_eq [OF k(1) w'] by (simp add: place cursor k(4))
    also have "\<dots> = (?s - (?s + 1)) mod ?n" by (simp only: mod_diff_right_eq)
    also have "\<dots> = ?n - 1" using n by (simp add: zmod_minus1)
    finally show ?thesis .
  qed
  have "getRoundRobinRank m' v \<noteq> getRoundRobinRank m' w"
    using rank_inj [OF k(1) w' v'] assms(8,9) by (auto simp: place)
  moreover have "int (getRoundRobinRank m' v) < ?n"
    using rank_eq [OF k(1) v'] n(1) by (simp add: k(4))
  moreover have "getRoundRobinRank m v \<noteq> getRoundRobinRank m w"
    using rank_inj [OF assms(2) k(3) assms(7)] assms(8,9) by auto
  ultimately show ?thesis using last by linarith
qed

theorem round_robin_fair_witness:
  "\<exists>r m. commit_mw ex_env [] 0 (ex_valu 1 5) ex_cu = Inr (r, m) \<and>
     getRoundRobinRank m 1 < getRoundRobinRank m 0 \<and> int (getRoundRobinRank m 0) = 7"
proof -
  obtain r m where c: "commit_mw ex_env [] 0 (ex_valu 1 5) ex_cu = Inr (r, m)"
    and i: "issueCycle r = 0" using ex_cu_commit by blast
  have req: "DmaIssueDelayOp_verify (ex_valu 1 5)" "delayFits (ex_valu 1 5)"
    using ex_valu_request [of 0 1 5] by (simp_all add: mw_request_def)
  have cls: "classifyOp (ex_valu 1 5) \<noteq> NoInst" by (simp add: eval_wave ex_ops)
  have "wavesPerSIMD (mw_arch ex_cu) = 8" by (simp add: ex_cu_def init_mw_def kGfx950_def)
  with round_robin_fair [OF c ex_cu_ok req _ cls, of 1] c i show ?thesis
    by (auto simp: INT64_MAX_def ex_cu_def init_mw_def ex_places_def getPlacement_def)
qed

subsection \<open>Shared resources\<close>

text \<open>C16: every machine instruction that a wave commits issues at a cycle at which all the shared
  resources it uses are free, and not before the last instruction committed on the compute
  unit: the assertions of the resource calendars hold.\<close>

theorem multi_wave_commit_feasible:
  assumes "commit_mw env prog w op m = Inr (r, m')" and "mwOk m"
    and "DmaIssueDelayOp_verify op" and "delayFits op" and "issueCycle r \<le> INT64_MAX"
    and "classifyOp op \<noteq> NoInst"
  shows "mw_clock m \<le> issueCycle r \<and> mw_clock m' = issueCycle r \<and>
    (\<exists>desc. describe env prog (mw_waves m ! w) op = Inr desc \<and>
      (let uses = getResourceUses (mw_waves m ! w) op desc (mw_resources m) in
         canReserveAt (mw_resources m) (getPlacement m w) uses (issueCycle r) = None))"
proof -
  note k = commit_mw_ok [OF assms(1-5)]
  note ok = mwOk_wave(4,6) [OF assms(2) k(3)]
  from k(2) k(10) [OF assms(6)] show ?thesis
    by (auto simp: mw_clock_def Let_def canReserveAt_None_iff [OF ok(2,1)])
qed

theorem multi_wave_commit_feasible_witness:
  "\<exists>r m. commit_mw ex_env [] 0 (ex_valu 1 5) ex_cu = Inr (r, m) \<and> mw_clock m = issueCycle r \<and>
     mw_clock m = 0"
proof -
  obtain r m where c: "commit_mw ex_env [] 0 (ex_valu 1 5) ex_cu = Inr (r, m)"
    and i: "issueCycle r = 0" using ex_cu_commit by blast
  have req: "DmaIssueDelayOp_verify (ex_valu 1 5)" "delayFits (ex_valu 1 5)"
    using ex_valu_request [of 0 1 5] by (simp_all add: mw_request_def)
  have cls: "classifyOp (ex_valu 1 5) \<noteq> NoInst" by (simp add: eval_wave ex_ops)
  from multi_wave_commit_feasible [OF c ex_cu_ok req _ cls] c i show ?thesis
    by (auto simp: INT64_MAX_def)
qed

text \<open>C28: along every run of a compute unit from its initial state, whatever waves commit
  whatever operations, the clock of the shared resources never moves back and no resource is
  ever booked beyond its capacity.\<close>

theorem compute_unit_run:
  assumes "cu.trace env prog as (init_mw arch ps config) = Inr (cs, m)"
    and "list_all mw_request as" and "cuShape arch" and "areWavePlacementsValid arch ps"
  shows "sorted (0 # cs) \<and> length cs = length as \<and>
    (\<forall>cal\<in>set (calendars (mw_resources m)). \<forall>t. usage (reservations cal) t \<le> int (capacity cal)) \<and>
    (\<forall>s\<in>set (mw_waves m). waveOk s)"
proof -
  note ok = init_mw_ok [OF assms(3,4), of config]
  from cu.trace_sorted [OF assms(1,2) ok] have m: "mwOk m"
    and cs: "sorted (mw_clock (init_mw arch ps config) # cs)" by auto
  have "mw_clock (init_mw arch ps config) = 0"
    by (simp add: mw_clock_def init_mw_def init_rs_eq)
  moreover have "length cs = length as" using cu.trace_run [OF assms(1)] by simp
  moreover have "\<forall>cal\<in>set (calendars (mw_resources m)). \<forall>t. usage (reservations cal) t \<le> int (capacity cal)"
    using m by (auto simp: mwOk_def stateOk_def list_all_iff calendarOk_def within_def)
  ultimately show ?thesis using cs m by (auto simp: mwOk_def list_all_iff)
qed

theorem compute_unit_run_witness:
  "\<exists>cs m. cu.trace ex_env [] [(0, ex_valu 1 5)] (init_mw kGfx950 ex_places (init_config 64)) = Inr (cs, m) \<and>
     sorted (0 # cs) \<and> list_all waveOk (mw_waves m)"
proof -
  obtain r m where c: "commit_mw ex_env [] 0 (ex_valu 1 5) ex_cu = Inr (r, m)"
    and i: "issueCycle r = 0" using ex_cu_commit by blast
  have run: "cu.trace ex_env [] [(0, ex_valu 1 5)] (init_mw kGfx950 ex_places (init_config 64)) =
      Inr ([mw_clock m], m)"
    using c i by (simp add: mw_step_def ex_cu_def INT64_MAX_def)
  have shape: "cuShape kGfx950" by (rule sane_cuShape [OF sane_static_archs(3)])
  have "areWavePlacementsValid kGfx950 ex_places"
    unfolding areWavePlacementsValid_iff [OF shape]
    by (simp add: ex_places_def placeOk_def kGfx950_def to_u32_def)
  from compute_unit_run [OF run _ shape this] run ex_valu_request show ?thesis
    by (auto simp: list_all_iff)
qed

subsection \<open>Stalls for the scheduler\<close>

text \<open>the stalls that feed the priorities are ordered: the compute priority stall (without
  issue back-pressure) is at most the priority stall (without the MFMA coissue resource), which
  is at most the stall; each is the longest of the components it keeps.\<close>

theorem priority_stalls_ordered:
  assumes "query_mw env prog m w op = Inr st"
  shows "0 \<le> stall_cycles (getComputePriorityStall st) \<and>
    stall_cycles (getComputePriorityStall st) \<le> stall_cycles (getPriorityStall st) \<and>
    stall_cycles (getPriorityStall st) \<le> stall_cycles st \<and>
    stall_cycles (getPriorityStall st) = Max (set (0 # map comp_cycles (filter
      (\<lambda>c. comp_kind c \<noteq> IssueBackpressure \<or> comp_resource c \<noteq> MfmaCoissue) (components st)))) \<and>
    stall_cycles (getComputePriorityStall st) = Max (set (0 # map comp_cycles (filter
      (\<lambda>c. comp_kind c \<noteq> IssueBackpressure) (components st))))"
proof -
  from assms obtain s desc where
    q: "queryWithResources s op desc (Some (mw_resources m)) (getPlacement m w) = Inr st"
    by (auto simp: query_mw_def Let_def bindR_eq_Inr split: if_splits)
  have "stallOk st" by (rule query_steps [OF q])
  note full = stallOk_Max [OF this]
  have mono: "Max (set (0 # map comp_cycles (filter P cs))) \<le> Max (set (0 # map comp_cycles (filter Q cs)))"
    if "\<And>c. P c \<Longrightarrow> Q c" for P Q and cs :: "stall_component list"
    using that by (intro Max_mono) auto
  have le: "Max (set (0 # map comp_cycles (filter P cs))) \<le> Max (set (0 # map comp_cycles cs))"
    for P and cs :: "stall_component list" by (intro Max_mono) auto
  have nonneg: "0 \<le> Max (set (0 # map comp_cycles cs))" for cs :: "stall_component list"
    by (rule Max_ge) simp_all
  show ?thesis
    unfolding getPriorityStall_def getComputePriorityStall_def filterStall_components(2) full
    by (intro conjI refl nonneg le mono) simp
qed

theorem priority_stalls_ordered_witness:
  "\<exists>st. query_mw ex_env [] ex_cu 0 (ex_valu 1 5) = Inr st \<and>
     stall_cycles (getPriorityStall st) \<le> stall_cycles st"
proof -
  obtain st where q: "query_mw ex_env [] ex_cu 0 (ex_valu 1 5) = Inr st"
    by (simp add: eval_cu)
  from priority_stalls_ordered [OF q] q show ?thesis by blast
qed

text \<open>waiting for an issue opportunity hides a stall but never more than the time waited:
  the remaining stall is at most the queried one, at least the queried one less the wait, and
  a coexecution window is not hidden at all.\<close>

theorem issue_opportunity_hides:
  assumes "queryAfterIssueOpportunity env prog m w op = Inr st"
  shows "\<exists>raw opportunity. query_mw env prog m w op = Inr raw \<and>
    getIssueOpportunityCycle m w = Inr opportunity \<and>
    0 \<le> stall_cycles st \<and> stall_cycles st \<le> stall_cycles raw \<and>
    stall_cycles raw \<le> stall_cycles st + max 0 (opportunity - getCurrentCycle m w) \<and>
    (\<forall>c\<in>set (components raw). comp_kind c = CoexecWindow \<longrightarrow> comp_cycles c \<le> stall_cycles st)"
proof -
  from assms obtain raw opp where raw: "query_mw env prog m w op = Inr raw"
    and opp: "getIssueOpportunityCycle m w = Inr opp"
    and st: "st = coverStall (max 0 (opp - getCurrentCycle m w)) raw"
    by (auto simp: queryAfterIssueOpportunity_def bindR_eq_Inr)
  let ?d = "max 0 (opp - getCurrentCycle m w)"
  let ?cover = "\<lambda>c. comp_cycles (coverComponent ?d c)"
  obtain s desc where
    q: "queryWithResources s op desc (Some (mw_resources m)) (getPlacement m w) = Inr raw"
    using raw by (auto simp: query_mw_def Let_def bindR_eq_Inr split: if_splits)
  have ok: "stallOk raw" by (rule query_steps [OF q])
  note full = stallOk_Max [OF ok]
  have cycles: "stall_cycles st = Max (set (0 # map ?cover (components raw)))"
    unfolding st by (rule coverStall_cycles)
  have comp: "0 < comp_cycles c" "comp_cycles c \<le> stall_cycles raw" if "c \<in> set (components raw)" for c
    using ok that by (auto simp: stallOk_def)
  have ge: "?cover c \<le> stall_cycles st" if "c \<in> set (components raw)" for c
    unfolding cycles using that by (intro Max_ge) auto
  have nonneg: "0 \<le> stall_cycles st" unfolding cycles by (rule Max_ge) simp_all
  have "stall_cycles st \<le> stall_cycles raw"
    unfolding cycles using comp stallOk_nonneg [OF ok]
    by (intro Max.boundedI) (force simp: coverComponent_def)+
  moreover have "stall_cycles raw \<le> stall_cycles st + ?d"
  proof -
    have "comp_cycles c \<le> stall_cycles st + ?d" if "c \<in> set (components raw)" for c
      using ge [OF that] by (auto simp: coverComponent_def split: if_splits)
    with nonneg show ?thesis unfolding full by (intro Max.boundedI) auto
  qed
  moreover have "comp_cycles c \<le> stall_cycles st"
    if "c \<in> set (components raw)" "comp_kind c = CoexecWindow" for c
    using ge [OF that(1)] that(2) by (simp add: coverComponent_def)
  ultimately show ?thesis using raw opp nonneg by blast
qed

theorem issue_opportunity_hides_witness:
  "\<exists>st raw. queryAfterIssueOpportunity ex_env [] ex_cu 0 (ex_valu 1 5) = Inr st \<and>
     query_mw ex_env [] ex_cu 0 (ex_valu 1 5) = Inr raw \<and> stall_cycles st \<le> stall_cycles raw"
proof -
  obtain st where q: "queryAfterIssueOpportunity ex_env [] ex_cu 0 (ex_valu 1 5) = Inr st"
    by (simp add: eval_cu)
  from issue_opportunity_hides [OF q] q show ?thesis by blast
qed

text \<open>After a rendezvous all waves are at the same cycle, which no wave has passed, and the
  invariant of the compute unit still holds.\<close>

theorem rendezvous_synchronizes:
  assumes "mwOk m" and "w < getWaveCount m" and "v < getWaveCount m"
  shows "getCurrentCycle (rendezvous m) w = getCurrentCycle (rendezvous m) v \<and>
    getCurrentCycle m w \<le> getCurrentCycle (rendezvous m) w \<and> mwOk (rendezvous m)"
  using mwOk_rendezvous(3) [OF assms(1)] mwOk_rendezvous(2) [OF assms(1)]
    mwOk_rendezvous(1) [OF assms(1)] assms(2,3) unfolding getWaveCount_def by blast

theorem rendezvous_synchronizes_witness:
  "\<exists>r m. commit_mw ex_env [] 0 (ex_valu 1 5) ex_cu = Inr (r, m) \<and> getCurrentCycle m 1 = 0 \<and>
     4 \<le> getCurrentCycle (rendezvous m) 1"
proof -
  obtain r m where c: "commit_mw ex_env [] 0 (ex_valu 1 5) ex_cu = Inr (r, m)"
    and i: "issueCycle r = 0" "getCurrentCycle m 0 = 4" "getCurrentCycle m 1 = 0"
    using ex_cu_commit by blast
  have req: "DmaIssueDelayOp_verify (ex_valu 1 5)" "delayFits (ex_valu 1 5)"
    using ex_valu_request [of 0 1 5] by (simp_all add: mw_request_def)
  note k = commit_mw_ok [OF c ex_cu_ok req, unfolded i(1)]
  have "getWaveCount m = 2"
    using k(9) by (auto simp: INT64_MAX_def getWaveCount_def ex_cu_def init_mw_def ex_places_def)
  moreover have "mwOk m" using k(1) by (simp add: INT64_MAX_def)
  ultimately show ?thesis using rendezvous_synchronizes [of m 0 1] c i by auto
qed

subsection \<open>Cohorts\<close>

lemma cohortLoop_done:
  "\<not> list_ex (\<lambda>c. c \<noteq> None) candidates \<Longrightarrow> cohortLoop env prog op candidates first m = Inr (first, m)"
  by (simp only: cohortLoop.simps [of env prog op candidates first m] if_True not_False_eq_True)

lemma cohortLoop_step:
  assumes "cohortLoop env prog op candidates first m = Inr res" and "list_ex (\<lambda>c. c \<noteq> None) candidates"
  obtains wave st r m2 first2 where "length candidates = getWaveCount m"
    and "selectWave env prog m candidates = Inr wave"
    and "queryAfterIssueOpportunity env prog m wave op = Inr st"
    and "commit_mw env prog wave op m = Inr (r, m2)"
    and "first2 = (case first of Some _ \<Rightarrow> first | None \<Rightarrow> Some (withPriorities (r\<lparr>stall := st\<rparr>)))"
    and "cohortLoop env prog op (candidates[wave := None]) first2 m2 = Inr res"
proof -
  let ?next = "\<lambda>r st. case first of Some _ \<Rightarrow> first | None \<Rightarrow> Some (withPriorities (r\<lparr>stall := st\<rparr>))"
  have len: "length candidates = getWaveCount m"
    and run: "bindR (selectWave env prog m candidates) (\<lambda>wave.
      bindR (queryAfterIssueOpportunity env prog m wave op) (\<lambda>st.
      bindR (commit_mw env prog wave op m) (\<lambda>(r, m2).
        cohortLoop env prog op (candidates[wave := None]) (?next r st) m2))) = Inr res"
    using assms(1) [unfolded cohortLoop.simps [of env prog op candidates first m] Let_def] assms(2)
    by (simp_all only: if_False if_True not_True_eq_False not_False_eq_True split: if_splits) simp_all
  from run obtain wave where w: "selectWave env prog m candidates = Inr wave"
    "bindR (queryAfterIssueOpportunity env prog m wave op) (\<lambda>st.
      bindR (commit_mw env prog wave op m) (\<lambda>(r, m2).
        cohortLoop env prog op (candidates[wave := None]) (?next r st) m2)) = Inr res"
    unfolding bindR_eq_Inr [of "selectWave env prog m candidates"] by blast
  from w(2) obtain st where st: "queryAfterIssueOpportunity env prog m wave op = Inr st"
    "bindR (commit_mw env prog wave op m) (\<lambda>(r, m2).
        cohortLoop env prog op (candidates[wave := None]) (?next r st) m2) = Inr res"
    unfolding bindR_eq_Inr [of "queryAfterIssueOpportunity env prog m wave op"] by blast
  from st(2) obtain r m2 where "commit_mw env prog wave op m = Inr (r, m2)"
    "cohortLoop env prog op (candidates[wave := None]) (?next r st) m2 = Inr res"
    unfolding bindR_eq_Inr by auto
  with that [OF len w(1) st(1)] show thesis by blast
qed

lemma cohortLoop_order:
  assumes "cohortLoop env prog op candidates first m = Inr (first', m')"
  shows "\<exists>order. distinct order \<and> set order = {w. w < length candidates \<and> candidates ! w \<noteq> None} \<and>
     foldR (\<lambda>w m. bindR (commit_mw env prog w op m) (\<lambda>(r, m). Inr m)) order m = Inr m'"
  using assms
proof (induction "length (filter (\<lambda>c. c \<noteq> None) candidates)" arbitrary: candidates first m
    rule: less_induct)
  case less
  let ?f = "\<lambda>w m. bindR (commit_mw env prog w op m) (\<lambda>(r, m). Inr m)"
  let ?some = "\<lambda>cs. {w. w < length cs \<and> cs ! w \<noteq> None}"
  show ?case
  proof (cases "list_ex (\<lambda>c. c \<noteq> None) candidates")
    case False
    with less.prems cohortLoop_done [of candidates env prog op first m] have "m' = m" by simp
    moreover have "?some candidates = {}"
      using False unfolding list_ex_iff by (metis (mono_tags, lifting) Collect_empty_eq nth_mem)
    ultimately show ?thesis by (intro exI [of _ "[]"]) simp
  next
    case True
    obtain wave st r m2 first2 where len: "length candidates = getWaveCount m"
      and sel: "selectWave env prog m candidates = Inr wave"
      and "queryAfterIssueOpportunity env prog m wave op = Inr st"
      and c: "commit_mw env prog wave op m = Inr (r, m2)"
      and "first2 = (case first of Some _ \<Rightarrow> first | None \<Rightarrow> Some (withPriorities (r\<lparr>stall := st\<rparr>)))"
      and rest: "cohortLoop env prog op (candidates[wave := None]) first2 m2 = Inr (first', m')"
      by (rule cohortLoop_step [OF less.prems True]) (rule that)
    obtain order where order: "distinct order" "set order = ?some (candidates[wave := None])"
      "foldR ?f order m2 = Inr m'"
      using less.hyps [OF candidates_decrease [OF sel len] rest] by blast
    have w: "wave < length candidates" "candidates ! wave \<noteq> None"
      using selectWave_candidate [OF sel] len by simp_all
    then have "set (wave # order) = ?some candidates" "wave \<notin> set order"
      unfolding order(2) list.set(2) by (auto simp: nth_list_update simp del: not_None_eq)
    moreover have "foldR ?f (wave # order) m = Inr m'" using c order(3) by simp
    ultimately show ?thesis using order(1) by (intro exI [of _ "wave # order"]) simp
  qed
qed

lemma cohortWaves_valid:
  "areCohortWavesValidFrom m seen ws \<longleftrightarrow>
     distinct ws \<and> seen \<inter> set ws = {} \<and> (\<forall>w\<in>set ws. w < getWaveCount m)"
  by (induction ws arbitrary: seen) auto

lemma cohortCandidates_nth:
  "length (fold (\<lambda>w cs. cs[w := Some op]) ws cs) = length cs \<and>
   (w < length cs \<longrightarrow> (fold (\<lambda>w cs. cs[w := Some op]) ws cs ! w \<noteq> None \<longleftrightarrow>
      w \<in> set ws \<or> cs ! w \<noteq> None))"
proof (induction ws arbitrary: cs)
  case (Cons x ws)
  from Cons [of "cs[x := Some op]"] show ?case by (cases "x = w") (auto simp: nth_list_update)
qed simp

text \<open>C29: a cohort commit is a sequence of single-wave commits of the operation in which every
  wave of the cohort occurs exactly once; it produces a result for every nonempty cohort.\<close>

theorem cohort_commits_once:
  assumes "commit_cohort env prog op c = Inr (r, c')"
    and "areCohortWavesValid (co_state c) (co_waves c)"
  shows "\<exists>order. mset order = mset (co_waves c) \<and> co_waves c' = co_waves c \<and>
    foldR (\<lambda>w m. bindR (commit_mw env prog w op m) (\<lambda>(r, m). Inr m)) order (co_state c) =
      Inr (co_state c')"
proof -
  from assms(1) obtain m' where loop: "cohortLoop env prog op (cohortCandidates c op) None (co_state c) = Inr (Some r, m')"
    and c': "c' = c\<lparr>co_state := m'\<rparr>"
    by (auto simp: commit_cohort_def bindR_eq_Inr split: option.splits)
  have waves: "distinct (co_waves c)" "\<forall>w\<in>set (co_waves c). w < getWaveCount (co_state c)"
    using assms(2) by (simp_all add: areCohortWavesValid_def cohortWaves_valid)
  let ?cs = "cohortCandidates c op"
  have "{w. w < length ?cs \<and> ?cs ! w \<noteq> None} = set (co_waves c)"
    using waves(2) cohortCandidates_nth [of op "co_waves c" "replicate (getWaveCount (co_state c)) None"]
    by (auto simp: cohortCandidates_def simp del: not_None_eq)
  with cohortLoop_order [OF loop] obtain order where "distinct order" "set order = set (co_waves c)"
    "foldR (\<lambda>w m. bindR (commit_mw env prog w op m) (\<lambda>(r, m). Inr m)) order (co_state c) = Inr m'"
    by auto
  with waves(1) c' show ?thesis by (intro exI [of _ order]) (simp add: set_eq_iff_mset_eq_distinct)
qed

definition ex_cohort :: wave_cohort where
  "ex_cohort = \<lparr>co_waves = [0], co_state = ex_cu\<rparr>"

theorem cohort_commits_once_witness:
  "\<exists>r c order. commit_cohort ex_env [] (ex_valu 1 5) ex_cohort = Inr (r, c) \<and> mset order = {#0#} \<and>
     foldR (\<lambda>w m. bindR (commit_mw ex_env [] w (ex_valu 1 5) m) (\<lambda>(r, m). Inr m)) order ex_cu =
       Inr (co_state c)"
proof -
  let ?op = "ex_valu 1 5"
  obtain r m where c: "commit_mw ex_env [] 0 ?op ex_cu = Inr (r, m)" using ex_cu_commit by blast
  have cand: "cohortCandidates ex_cohort ?op = [Some ?op, None]"
    by (simp add: cohortCandidates_def ex_cohort_def getWaveCount_def ex_cu_def init_mw_def ex_places_def)
  have sel: "selectWave ex_env [] ex_cu [Some ?op, None] = Inr 0" by (simp add: eval_cu)
  have count: "getWaveCount ex_cu = 2" by (simp add: getWaveCount_def ex_cu_def init_mw_def ex_places_def)
  obtain st where q: "queryAfterIssueOpportunity ex_env [] ex_cu 0 ?op = Inr st"
    by (simp add: eval_cu)
  have loop: "cohortLoop ex_env [] ?op [Some ?op, None] None ex_cu =
      Inr (Some (withPriorities (r\<lparr>stall := st\<rparr>)), m)"
    by (subst cohortLoop.simps) (simp add: sel q c count cohortLoop_done del: One_nat_def)
  have run: "commit_cohort ex_env [] ?op ex_cohort =
      Inr (withPriorities (r\<lparr>stall := st\<rparr>), ex_cohort\<lparr>co_state := m\<rparr>)"
    using loop unfolding commit_cohort_def cand by (simp add: ex_cohort_def del: One_nat_def)
  have "areCohortWavesValid (co_state ex_cohort) (co_waves ex_cohort)"
    by (simp add: areCohortWavesValid_def ex_cohort_def count)
  from cohort_commits_once [OF run this] run show ?thesis by (auto simp: ex_cohort_def)
qed

end
