(* ===== verification/Event_Sim.thy ===== *)
theory Event_Sim
  imports Multi_Wave
begin

text \<open>
  The event simulator (\<^verbatim>\<open>EventSimulator.cpp\<close>): it runs the operations of a kernel on one
  wave, through its structured control flow, or a linear kernel on all waves of a compute
  unit, and reports the completion cycles and a timeline of events.
\<close>

subsection \<open>Configuration and results\<close>

record event_sim_config =
  sim_wavesPerSIMD :: nat
  sim_wavefrontSize :: nat
  tripCountOverride :: int
  sim_calibration :: "calibration_data option"
  recordTimeline :: bool
  completePendingLdsDmaCounters :: bool
  cmaIssueInterval :: int
  sim_counterLatencies :: counter_latencies
  sim_valueLatencies :: value_latencies

datatype EventSimEventKind = OpIssued | ValueReady | CounterDrained | WaveCompleted

record event_sim_event =
  event_cycle :: int
  event_kind :: EventSimEventKind
  event_op :: "nat option"
  event_fu :: FunctionalUnit
  event_counter :: MemoryCounterKind
  event_wave :: nat
  event_simd :: nat

record event_sim_result =
  totalCycles :: int
  issuedOps :: int
  completedCycle :: int
  waveCompletedCycles :: "int list"
  events :: "event_sim_event list"

definition emptyResult :: event_sim_result where
  "emptyResult = \<lparr>totalCycles = 0, issuedOps = 0, completedCycle = 0, waveCompletedCycles = [],
     events = []\<rparr>"

definition isEventSimCmaClass :: "SchedClass \<Rightarrow> bool" where
  "isEventSimCmaClass cls \<longleftrightarrow> cls \<in>
     {Write2PassMAI, Write4PassMAI, Write8PassMAI, Write16PassMAI, WriteXDL2PassWMMA,
      WriteXDL4PassWMMA, Write4PassWMMA, Write8PassWMMA, Write16PassWMMA}"

definition getEventSimIssuePeriod :: "arch_data \<Rightarrow> event_sim_config \<Rightarrow> int" where
  "getEventSimIssuePeriod arch config =
     (let period = max 1 (simdIssuePeriod arch)
      in if sim_wavefrontSize config = 64 then period * max 1 (wave64IssueMultiplier arch)
         else period)"

definition getEventSimCmaIssueInterval :: "arch_data \<Rightarrow> event_sim_config \<Rightarrow> int" where
  "getEventSimCmaIssueInterval arch config =
     (if cmaIssueInterval config > 0 then cmaIssueInterval config
      else if cmaIssueInterval config < 0 then getEventSimIssuePeriod arch config
      else 0)"

definition getEventSimCmaIssueCapacity :: "arch_data \<Rightarrow> nat" where
  "getEventSimCmaIssueCapacity arch = to_u32 (max 1 (simdsPerCU arch))"

definition getEventSimCmaIssueCount :: "op_info \<Rightarrow> SchedClass \<Rightarrow> nat \<Rightarrow> nat" where
  "getEventSimCmaIssueCount op cls issues =
     (if \<not> isLdsDmaIssuer op \<and> \<not> isEventSimCmaClass cls then 0 else max 1 issues)"

definition buildInstructionConfig :: "arch_data \<Rightarrow> event_sim_config \<Rightarrow> execution_config" where
  "buildInstructionConfig arch config =
     (init_config (sim_wavefrontSize config))
       \<lparr>calibration := sim_calibration config, counterLatencies := sim_counterLatencies config,
        valueLatencies := sim_valueLatencies config,
        issuePeriod := getEventSimIssuePeriod arch config\<rparr>"

definition isWaitcntOp :: "op_info \<Rightarrow> bool" where
  "isWaitcntOp op = hasTrait op WaitcntOp"

definition getCounterIssueCount :: "op_info \<Rightarrow> nat" where
  "getCounterIssueCount op = wi_issueCount (getWaitcntInfo op)"

subsection \<open>The order of events\<close>

fun eventKindRank :: "EventSimEventKind \<Rightarrow> int" where
  "eventKindRank OpIssued = 0"
| "eventKindRank ValueReady = 1"
| "eventKindRank CounterDrained = 2"
| "eventKindRank WaveCompleted = 3"

lemma eventKindRank_inj: "eventKindRank a = eventKindRank b \<longleftrightarrow> a = b"
  by (cases a; cases b) simp_all

instantiation EventSimEventKind :: linorder
begin

definition less_eq_EventSimEventKind :: "EventSimEventKind \<Rightarrow> EventSimEventKind \<Rightarrow> bool" where
  "less_eq_EventSimEventKind a b \<longleftrightarrow> eventKindRank a \<le> eventKindRank b"

definition less_EventSimEventKind :: "EventSimEventKind \<Rightarrow> EventSimEventKind \<Rightarrow> bool" where
  "less_EventSimEventKind a b \<longleftrightarrow> eventKindRank a < eventKindRank b"

instance
  by standard (auto simp: less_eq_EventSimEventKind_def less_EventSimEventKind_def eventKindRank_inj)

end

text \<open>
  The comparison functions of the two sorts. An operation is compared by its address, here its
  number, and the null pointer of a completion event is the smallest address. Events with equal
  keys keep their order here; \<^verbatim>\<open>llvm::sort\<close> leaves it open.
\<close>

definition address :: "nat option \<Rightarrow> nat" where
  "address op = (case op of None \<Rightarrow> 0 | Some i \<Rightarrow> Suc i)"

definition eventKey :: "event_sim_event \<Rightarrow> int \<times> EventSimEventKind \<times> nat" where
  "eventKey e = (event_cycle e, event_kind e, address (event_op e))"

definition waveEventKey :: "event_sim_event \<Rightarrow> int \<times> EventSimEventKind \<times> nat \<times> nat" where
  "waveEventKey e = (event_cycle e, event_kind e, event_wave e, address (event_op e))"

subsection \<open>Operations with regions\<close>

text \<open>
  A \<open>Leaf\<close> is an operation the simulator does not look into, with the number of its regions. A
  region is a list of operations that ends with its terminator; an empty list is an empty
  region. \<open>loop_trips\<close> is the attribute \<^verbatim>\<open>waveamdmachine.trip_count\<close>.
\<close>

datatype machine_op =
    Leaf (node_op: op_info) (node_regions: nat)
  | UniformLoop (node_op: op_info) (loop_inits: "op_value list") (loop_arguments: "op_value list")
      (loop_trips: "int option") (loop_body: "machine_op list")
  | UniformIf (node_op: op_info) (if_then: "machine_op list") (if_else: "machine_op list")
  | ExecIf (node_op: op_info) (exec_then: "machine_op list") (exec_else: "machine_op list")

definition getModelLoopTripCount :: "event_sim_config \<Rightarrow> int option \<Rightarrow> int" where
  "getModelLoopTripCount config trip =
     (if tripCountOverride config \<ge> 0 then tripCountOverride config
      else case trip of None \<Rightarrow> 1 | Some n \<Rightarrow> max 0 n)"

definition getYield :: "machine_op list \<Rightarrow> op_info option" where
  "getYield region =
     (if region = [] then None
      else case last region of
        Leaf op n \<Rightarrow> if isaOp op [''YieldOp''] then Some op else None
      | _ \<Rightarrow> None)"

text \<open>The carried values of a loop: all operands of the terminator after the condition.\<close>

definition getCarries :: "machine_op list \<Rightarrow> op_value list option" where
  "getCarries body =
     (if body = [] then None
      else case last body of
        Leaf op n \<Rightarrow> if isaOp op [''ContinueIfOp''] then Some (tl (op_operands op)) else None
      | _ \<Rightarrow> None)"

subsection \<open>One wave\<close>

record timeline_state =
  tl_wave :: wave_state
  tl_result :: event_sim_result
  tl_record :: bool
  lastReady :: int
  lastCounterReady :: int

definition init_timeline :: "arch_data \<Rightarrow> event_sim_config \<Rightarrow> bool \<Rightarrow> timeline_state" where
  "init_timeline arch config rec =
     \<lparr>tl_wave = init_es arch (buildInstructionConfig arch config), tl_result = emptyResult,
      tl_record = rec, lastReady = 0, lastCounterReady = 0\<rparr>"

definition getCompleteCycle :: "event_sim_config \<Rightarrow> timeline_state \<Rightarrow> int" where
  "getCompleteCycle config s =
     (let complete = max (lastReady s) (currentCycle (tl_wave s))
      in if completePendingLdsDmaCounters config then max complete (lastCounterReady s)
         else complete)"

definition record_event :: "event_sim_event \<Rightarrow> timeline_state \<Rightarrow> timeline_state" where
  "record_event e s =
     (if \<not> tl_record s then s
      else s\<lparr>tl_result := (tl_result s)\<lparr>events := events (tl_result s) @ [e]\<rparr>\<rparr>)"

definition waveEvent :: "int \<Rightarrow> EventSimEventKind \<Rightarrow> op_info \<Rightarrow> FunctionalUnit \<Rightarrow>
    MemoryCounterKind \<Rightarrow> event_sim_event" where
  "waveEvent cycle kind op fu counter =
     \<lparr>event_cycle = cycle, event_kind = kind, event_op = Some (op_id op), event_fu = fu,
      event_counter = counter, event_wave = 0, event_simd = 0\<rparr>"

definition recordReadyAt :: "int \<Rightarrow> op_info \<Rightarrow> FunctionalUnit \<Rightarrow> timeline_state \<Rightarrow> timeline_state" where
  "recordReadyAt ready op fu s =
     record_event (waveEvent ready ValueReady op fu MemoryCounterNone)
       (s\<lparr>lastReady := max (lastReady s) ready\<rparr>)"

definition recordValueReady :: "op_info \<Rightarrow> op_value \<Rightarrow> timeline_state \<Rightarrow> timeline_state" where
  "recordValueReady op v s =
     recordReadyAt (getValueReadyCycle (tl_wave s) v) op NoFunctionalUnit s"

definition recordCommittedReady :: "op_info \<Rightarrow> FunctionalUnit \<Rightarrow> commit_result \<Rightarrow> op_value \<Rightarrow>
    timeline_state \<Rightarrow> timeline_state" where
  "recordCommittedReady op fu r v =
     recordReadyAt (if isMemToken v then tokenReadyCycle_res r else valueReadyCycle r) op fu"

text \<open>The cycles at which the counter of an operation is decremented.\<close>

definition counterDrains :: "llvm_env \<Rightarrow> arch_data \<Rightarrow> event_sim_config \<Rightarrow> op_info \<Rightarrow>
    commit_result \<Rightarrow> (MemoryCounterKind \<times> int list) result" where
  "counterDrains env arch config op r =
     bindR (getMemoryCounterKind op) (\<lambda>counter.
       if counter = MemoryCounterNone then Inr (counter, [])
       else
         bindR (getMemoryCounterLatency env arch op (sim_counterLatencies config)
                  (sim_calibration config)) (\<lambda>lat.
           Inr (counter, map (\<lambda>issue.
             issueCycle r + int issue * getEventSimIssuePeriod arch config + lat)
             [0..<getCounterIssueCount op])))"

definition recordMemoryCounters :: "llvm_env \<Rightarrow> arch_data \<Rightarrow> event_sim_config \<Rightarrow> op_info \<Rightarrow>
    FunctionalUnit \<Rightarrow> commit_result \<Rightarrow> timeline_state \<Rightarrow> timeline_state result" where
  "recordMemoryCounters env arch config op fu r s =
     bindR (counterDrains env arch config op r) (\<lambda>(counter, drains).
       Inr (fold (\<lambda>ready s.
         record_event (waveEvent ready CounterDrained op fu counter)
           (s\<lparr>lastCounterReady := max (lastCounterReady s) ready\<rparr>)) drains s))"

text \<open>
  A commit on the clock of \<^verbatim>\<open>int64_t\<close>: beyond its range the additions of the source are
  undefined, and the model ends there.
\<close>

definition commitInRange :: "llvm_env \<Rightarrow> op_info list \<Rightarrow> op_info \<Rightarrow> wave_state \<Rightarrow>
    (commit_result \<times> wave_state) result" where
  "commitInRange env prog op s =
     bindR (commit_es env prog op s) (\<lambda>(r, t).
       if issueCycle r \<le> INT64_MAX then Inr (r, t) else Inl (Unreachable ''signed overflow''))"

definition unitOf :: "llvm_env \<Rightarrow> arch_data \<Rightarrow> op_info \<Rightarrow> FunctionalUnit result" where
  "unitOf env arch op =
     (if classifyOp op \<noteq> NoInst then funit env arch (classifyOp op) else Inr NoFunctionalUnit)"

definition issueOp :: "op_info \<Rightarrow> FunctionalUnit \<Rightarrow> commit_result \<Rightarrow> timeline_state \<Rightarrow>
    timeline_state" where
  "issueOp op fu r s =
     (if classifyOp op \<noteq> NoInst
      then record_event (waveEvent (issueCycle r) OpIssued op fu MemoryCounterNone)
             (s\<lparr>tl_result := (tl_result s)\<lparr>issuedOps := issuedOps (tl_result s) + 1\<rparr>\<rparr>)
      else s)"

definition commitAndRecord :: "llvm_env \<Rightarrow> op_info list \<Rightarrow> arch_data \<Rightarrow> event_sim_config \<Rightarrow>
    op_info \<Rightarrow> timeline_state \<Rightarrow> timeline_state result" where
  "commitAndRecord env prog arch config op s =
     bindR (commitInRange env prog op (tl_wave s)) (\<lambda>(r, wave).
     bindR (unitOf env arch op) (\<lambda>fu.
       let s1 = issueOp op fu r (s\<lparr>tl_wave := wave\<rparr>);
           s2 = (if isWaitcntOp op
                 then record_event (waveEvent (issueCycle r) CounterDrained op NoFunctionalUnit
                        MemoryCounterNone) s1
                 else s1);
           s3 = fold (recordCommittedReady op fu r) (op_results op) s2
       in bindR (recordMemoryCounters env arch config op fu r s3) (\<lambda>s4.
            Inr (if op_results op = []
                 then s4\<lparr>lastReady := max (lastReady s4) (valueReadyCycle r)\<rparr> else s4))))"

text \<open>\<^verbatim>\<open>bindValues\<close> and \<^verbatim>\<open>bindYieldResults\<close>: the pairs are bound one after the other.\<close>

definition bindPairs :: "op_value list \<Rightarrow> op_value list \<Rightarrow> wave_state \<Rightarrow> wave_state" where
  "bindPairs targets sources s = fold (\<lambda>(t, v). bindValue t v) (zip targets sources) s"

definition bindPairs_tl :: "op_value list \<Rightarrow> op_value list \<Rightarrow> timeline_state \<Rightarrow> timeline_state" where
  "bindPairs_tl targets sources s = s\<lparr>tl_wave := bindPairs targets sources (tl_wave s)\<rparr>"

definition bindYieldResults :: "op_value list \<Rightarrow> machine_op list \<Rightarrow> timeline_state \<Rightarrow>
    timeline_state" where
  "bindYieldResults results region s =
     (case getYield region of
        None \<Rightarrow> s
      | Some yield \<Rightarrow>
          fold (\<lambda>(res, v) s. recordValueReady yield res (s\<lparr>tl_wave := bindValue res v (tl_wave s)\<rparr>))
            (zip results (op_operands yield)) s)"

definition trialOf :: "timeline_state \<Rightarrow> timeline_state" where
  "trialOf s = s\<lparr>tl_result := emptyResult, tl_record := False\<rparr>"

text \<open>Context of a run: the target environment, the operations of the kernel (for uses), the
  architecture and the configuration.\<close>

type_synonym sim_context = "llvm_env \<times> op_info list \<times> arch_data \<times> event_sim_config"

definition commitNode :: "sim_context \<Rightarrow> op_info \<Rightarrow> timeline_state \<Rightarrow> timeline_state result" where
  "commitNode ctx op s =
     (case ctx of (env, prog, arch, config) \<Rightarrow> commitAndRecord env prog arch config op s)"

definition sim_config :: "sim_context \<Rightarrow> event_sim_config" where
  "sim_config ctx = snd (snd (snd ctx))"

text \<open>One iteration of a loop whose body has run: the carried values are bound.\<close>

definition endIteration :: "op_info \<Rightarrow> op_value list \<Rightarrow> machine_op list \<Rightarrow> bool \<Rightarrow> timeline_state \<Rightarrow>
    timeline_state result" where
  "endIteration op arguments body isLast s =
     (case getCarries body of
        None \<Rightarrow> Inl Failure
      | Some carries \<Rightarrow>
          Inr (if isLast then bindPairs_tl (op_results op) carries s
               else bindPairs_tl arguments carries s))"

fun runOp :: "sim_context \<Rightarrow> machine_op \<Rightarrow> timeline_state \<Rightarrow> timeline_state result"
and runBlock :: "sim_context \<Rightarrow> machine_op list \<Rightarrow> timeline_state \<Rightarrow> timeline_state result" where
  "runOp ctx (Leaf op n) s =
     (if \<not> isWaveAMDMachineOp op then Inr s else commitNode ctx op s)"
| "runOp ctx (UniformLoop op inits arguments trip body) s =
     bindR (commitNode ctx op s) (\<lambda>s1.
       let trips = getModelLoopTripCount (sim_config ctx) trip in
       if trips \<le> 0 then Inr (bindPairs_tl (op_results op) inits s1)
       else foldR (\<lambda>iter s. bindR (runBlock ctx body s)
                     (endIteration op arguments body (int iter + 1 = trips)))
              [0..<nat trips] (bindPairs_tl arguments inits s1))"
| "runOp ctx (UniformIf op thn els) s =
     bindR (commitNode ctx op s) (\<lambda>s1.
     bindR (runBlock ctx thn (trialOf s1)) (\<lambda>thenTrial.
     bindR (runBlock ctx els (trialOf s1)) (\<lambda>elseTrial.
       if getCompleteCycle (sim_config ctx) thenTrial \<ge> getCompleteCycle (sim_config ctx) elseTrial
       then bindR (runBlock ctx thn s1) (\<lambda>s2. Inr (bindYieldResults (op_results op) thn s2))
       else bindR (runBlock ctx els s1) (\<lambda>s2. Inr (bindYieldResults (op_results op) els s2)))))"
| "runOp ctx (ExecIf op thn els) s =
     bindR (runBlock ctx thn s) (\<lambda>s1.
       let s2 = bindYieldResults (op_results op) thn s1 in
       if els = [] then Inr s2
       else bindR (runBlock ctx els s2) (\<lambda>s3. Inr (bindYieldResults (op_results op) els s3)))"
| "runBlock ctx [] s = Inr s"
| "runBlock ctx (op # ops) s = bindR (runOp ctx op s) (runBlock ctx ops)"

definition sortEvents :: "event_sim_event list \<Rightarrow> event_sim_event list" where
  "sortEvents = sort_key eventKey"

definition finish_timeline :: "event_sim_config \<Rightarrow> timeline_state \<Rightarrow> event_sim_result" where
  "finish_timeline config s =
     (let complete = getCompleteCycle config s;
          s1 = record_event \<lparr>event_cycle = complete, event_kind = WaveCompleted, event_op = None,
                event_fu = NoFunctionalUnit, event_counter = MemoryCounterNone, event_wave = 0,
                event_simd = 0\<rparr>
              (s\<lparr>tl_result := (tl_result s)\<lparr>totalCycles := complete, completedCycle := complete,
                   waveCompletedCycles := [complete]\<rparr>\<rparr>);
          out = tl_result s1
      in if tl_record s1 then out\<lparr>events := sortEvents (events out)\<rparr> else out)"

subsection \<open>The run of one wave\<close>

text \<open>
  A kernel is a list of blocks. Where a pair of value lists is bound, the verifiers of the
  dialect give both the same length (\<^verbatim>\<open>zip_equal\<close>).
\<close>

definition runFunc :: "sim_context \<Rightarrow> machine_op list list \<Rightarrow> timeline_state \<Rightarrow>
    event_sim_result result" where
  "runFunc ctx blocks s =
     bindR (foldR (runBlock ctx) blocks s) (\<lambda>t. Inr (finish_timeline (sim_config ctx) t))"

definition runOps :: "sim_context \<Rightarrow> machine_op list \<Rightarrow> timeline_state \<Rightarrow>
    event_sim_result result" where
  "runOps ctx ops s =
     bindR (foldR (runOp ctx) ops s) (\<lambda>t. Inr (finish_timeline (sim_config ctx) t))"

subsection \<open>All waves of a compute unit\<close>

record multi_timeline =
  mt_state :: multi_wave
  mt_result :: event_sim_result
  mt_pc :: "nat list"
  mt_lastReady :: "int list"
  mt_lastCounterReady :: "int list"

definition init_multi :: "arch_data \<Rightarrow> event_sim_config \<Rightarrow> multi_timeline" where
  "init_multi arch config =
     (let placements = getFullCUWavePlacements arch (sim_wavesPerSIMD config);
          waveCount = length placements
      in \<lparr>mt_state = init_mw arch placements (buildInstructionConfig arch config),
          mt_result = emptyResult, mt_pc = replicate waveCount 0,
          mt_lastReady = replicate waveCount 0, mt_lastCounterReady = replicate waveCount 0\<rparr>)"

definition selectNextWave :: "llvm_env \<Rightarrow> op_info list \<Rightarrow> op_info list \<Rightarrow> multi_timeline \<Rightarrow>
    nat result" where
  "selectNextWave env prog ops t =
     selectWave env prog (mt_state t)
       (map (\<lambda>wave. if mt_pc t ! wave = length ops then None else Some (ops ! (mt_pc t ! wave)))
          [0..<length (mw_placements (mt_state t))])"

definition record_mt :: "event_sim_config \<Rightarrow> event_sim_event \<Rightarrow> multi_timeline \<Rightarrow> multi_timeline" where
  "record_mt config e t =
     (if recordTimeline config
      then t\<lparr>mt_result := (mt_result t)\<lparr>events := events (mt_result t) @ [e]\<rparr>\<rparr> else t)"

definition placedEvent :: "multi_timeline \<Rightarrow> nat \<Rightarrow> event_sim_event \<Rightarrow> event_sim_event" where
  "placedEvent t wave e =
     e\<lparr>event_wave := wave, event_simd := simd (getPlacement (mt_state t) wave)\<rparr>"

definition raiseReady :: "nat \<Rightarrow> int \<Rightarrow> multi_timeline \<Rightarrow> multi_timeline" where
  "raiseReady wave ready t =
     t\<lparr>mt_lastReady := (mt_lastReady t)[wave := max (mt_lastReady t ! wave) ready]\<rparr>"

definition recordReady_mt :: "event_sim_config \<Rightarrow> nat \<Rightarrow> op_info \<Rightarrow> FunctionalUnit \<Rightarrow>
    commit_result \<Rightarrow> op_value \<Rightarrow> multi_timeline \<Rightarrow> multi_timeline" where
  "recordReady_mt config wave op fu r v t =
     (let ready = (if isMemToken v then tokenReadyCycle_res r else valueReadyCycle r)
      in record_mt config
           (placedEvent t wave (waveEvent ready ValueReady op fu MemoryCounterNone))
           (raiseReady wave ready t))"

definition recordCounter_mt :: "event_sim_config \<Rightarrow> nat \<Rightarrow> op_info \<Rightarrow> FunctionalUnit \<Rightarrow>
    MemoryCounterKind \<Rightarrow> int \<Rightarrow> multi_timeline \<Rightarrow> multi_timeline" where
  "recordCounter_mt config wave op fu counter ready t =
     record_mt config (placedEvent t wave (waveEvent ready CounterDrained op fu counter))
       (t\<lparr>mt_lastCounterReady :=
            (mt_lastCounterReady t)[wave := max (mt_lastCounterReady t ! wave) ready]\<rparr>)"

definition recordMemoryCounters_mt :: "llvm_env \<Rightarrow> arch_data \<Rightarrow> event_sim_config \<Rightarrow> nat \<Rightarrow>
    op_info \<Rightarrow> FunctionalUnit \<Rightarrow> commit_result \<Rightarrow> multi_timeline \<Rightarrow> multi_timeline result" where
  "recordMemoryCounters_mt env arch config wave op fu r t =
     bindR (counterDrains env arch config op r) (\<lambda>(counter, drains).
       Inr (fold (recordCounter_mt config wave op fu counter) drains t))"

definition issueOp_mt :: "event_sim_config \<Rightarrow> nat \<Rightarrow> op_info \<Rightarrow> FunctionalUnit \<Rightarrow>
    commit_result \<Rightarrow> multi_timeline \<Rightarrow> multi_timeline" where
  "issueOp_mt config wave op fu r t =
     (if classifyOp op \<noteq> NoInst
      then record_mt config
             (placedEvent t wave (waveEvent (issueCycle r) OpIssued op fu MemoryCounterNone))
             (t\<lparr>mt_result := (mt_result t)\<lparr>issuedOps := issuedOps (mt_result t) + 1\<rparr>\<rparr>)
      else t)"

text \<open>The commit on the clock of \<^verbatim>\<open>int64_t\<close>, as \<open>commitInRange\<close> for one wave.\<close>

definition commitInRange_mt :: "llvm_env \<Rightarrow> op_info list \<Rightarrow> nat \<Rightarrow> op_info \<Rightarrow> multi_wave \<Rightarrow>
    (commit_result \<times> multi_wave) result" where
  "commitInRange_mt env prog wave op m =
     bindR (commit_mw env prog wave op m) (\<lambda>(r, m').
       if issueCycle r \<le> INT64_MAX then Inr (r, m') else Inl (Unreachable ''signed overflow''))"

definition commitWave :: "llvm_env \<Rightarrow> op_info list \<Rightarrow> arch_data \<Rightarrow> event_sim_config \<Rightarrow>
    op_info list \<Rightarrow> nat \<Rightarrow> multi_timeline \<Rightarrow> multi_timeline result" where
  "commitWave env prog arch config ops wave t =
     (let op = ops ! (mt_pc t ! wave) in
      bindR (commitInRange_mt env prog wave op (mt_state t)) (\<lambda>(r, m').
      bindR (unitOf env arch op) (\<lambda>fu.
        let t1 = issueOp_mt config wave op fu r (t\<lparr>mt_state := m'\<rparr>);
            t2 = (if isWaitcntOp op
                  then record_mt config (placedEvent t1 wave (waveEvent (issueCycle r)
                         CounterDrained op NoFunctionalUnit MemoryCounterNone)) t1
                  else t1);
            t3 = fold (recordReady_mt config wave op fu r) (op_results op) t2;
            t4 = (if op_results op = [] then raiseReady wave (valueReadyCycle r) t3 else t3)
        in bindR (recordMemoryCounters_mt env arch config wave op fu r t4) (\<lambda>t5.
             Inr (t5\<lparr>mt_pc := (mt_pc t5)[wave := mt_pc t5 ! wave + 1]\<rparr>)))))"

definition waveComplete :: "event_sim_config \<Rightarrow> multi_timeline \<Rightarrow> nat \<Rightarrow> int" where
  "waveComplete config t wave =
     (let complete = max (mt_lastReady t ! wave) (getCurrentCycle (mt_state t) wave)
      in if completePendingLdsDmaCounters config
         then max complete (mt_lastCounterReady t ! wave) else complete)"

definition completeWave :: "event_sim_config \<Rightarrow> nat \<Rightarrow> multi_timeline \<Rightarrow> multi_timeline" where
  "completeWave config wave t =
     (let complete = waveComplete config t wave;
          out = mt_result t
      in record_mt config
           (placedEvent t wave \<lparr>event_cycle = complete, event_kind = WaveCompleted,
              event_op = None, event_fu = NoFunctionalUnit, event_counter = MemoryCounterNone,
              event_wave = 0, event_simd = 0\<rparr>)
           (t\<lparr>mt_result := out\<lparr>waveCompletedCycles := (waveCompletedCycles out)[wave := complete],
                totalCycles := max (totalCycles out) complete\<rparr>\<rparr>))"

definition finish_multi :: "event_sim_config \<Rightarrow> multi_timeline \<Rightarrow> event_sim_result" where
  "finish_multi config t =
     (let waveCount = length (mw_placements (mt_state t));
          t1 = t\<lparr>mt_result := (mt_result t)\<lparr>waveCompletedCycles := replicate waveCount 0\<rparr>\<rparr>;
          out = mt_result (fold (completeWave config) [0..<waveCount] t1);
          out1 = out\<lparr>completedCycle := totalCycles out\<rparr>
      in if recordTimeline config then out1\<lparr>events := sort_key waveEventKey (events out1)\<rparr>
         else out1)"

definition step_multi :: "llvm_env \<Rightarrow> op_info list \<Rightarrow> arch_data \<Rightarrow> event_sim_config \<Rightarrow>
    op_info list \<Rightarrow> multi_timeline \<Rightarrow> multi_timeline result" where
  "step_multi env prog arch config ops t =
     bindR (selectNextWave env prog ops t) (\<lambda>wave. commitWave env prog arch config ops wave t)"

definition run_multi :: "sim_context \<Rightarrow> op_info list \<Rightarrow> event_sim_result result" where
  "run_multi ctx ops =
     (case ctx of (env, prog, arch, config) \<Rightarrow>
       let t = init_multi arch config;
           waves = length (mw_placements (mt_state t))
       in if waves = 0 then Inl Failure
          else if length ops > 18446744073709551615 div waves then Inl Failure
          else bindR (foldR (\<lambda>step. step_multi env prog arch config ops)
                 [0..<length ops * waves] t) (\<lambda>t'. Inr (finish_multi config t')))"

subsection \<open>Entry points\<close>

fun getNumRegions :: "machine_op \<Rightarrow> nat" where
  "getNumRegions (Leaf op n) = n"
| "getNumRegions (UniformLoop op inits arguments trip body) = 1"
| "getNumRegions (UniformIf op thn els) = 2"
| "getNumRegions (ExecIf op thn els) = 2"

definition validateMultiWaveProgramOp :: "machine_op \<Rightarrow> unit result" where
  "validateMultiWaveProgramOp op =
     (if getNumRegions op \<noteq> 0 then Inl Failure
      else if isaOp (node_op op)
        [''ClusterBarrierOp'', ''SBarrierOp'', ''SBarrierWaitOp'', ''BarrierWaitOp'']
      then Inl Failure
      else Inr ())"

definition collectLinearProgram :: "machine_op list list \<Rightarrow> op_info list result" where
  "collectLinearProgram blocks =
     (if length blocks \<noteq> 1 then Inl Failure
      else foldR (\<lambda>op ops. bindR (validateMultiWaveProgramOp op) (\<lambda>_.
             Inr (if isWaveAMDMachineOp (node_op op) then ops @ [node_op op] else ops)))
             (hd blocks) [])"

definition validateLinearProgram :: "machine_op list \<Rightarrow> unit result" where
  "validateLinearProgram ops = foldR (\<lambda>op _. validateMultiWaveProgramOp op) ops ()"

definition simulateEventTimeline_func :: "sim_context \<Rightarrow> machine_op list list \<Rightarrow>
    event_sim_result result" where
  "simulateEventTimeline_func ctx blocks =
     (case ctx of (env, prog, arch, config) \<Rightarrow>
       if sim_wavesPerSIMD config \<noteq> 0 then
         if sim_wavesPerSIMD config > to_u32 (wavesPerSIMD arch) then Inl Failure
         else bindR (collectLinearProgram blocks) (run_multi ctx)
       else runFunc ctx blocks (init_timeline arch config (recordTimeline config)))"

definition simulateEventTimeline_ops :: "sim_context \<Rightarrow> machine_op list \<Rightarrow>
    event_sim_result result" where
  "simulateEventTimeline_ops ctx ops =
     (case ctx of (env, prog, arch, config) \<Rightarrow>
       if sim_wavesPerSIMD config \<noteq> 0 then
         if sim_wavesPerSIMD config > to_u32 (wavesPerSIMD arch) then Inl Failure
         else bindR (validateLinearProgram ops) (\<lambda>_.
                run_multi ctx (map node_op (filter (isWaveAMDMachineOp \<circ> node_op) ops)))
       else runOps ctx ops (init_timeline arch config (recordTimeline config)))"

end
