(* ===== verification/Event_Sim_Props.thy ===== *)
theory Event_Sim_Props
  imports Event_Sim Multi_Wave_Props
begin

text \<open>
  The properties of the event simulator: recording is not observable, a uniform branch costs its
  slower side, the number of issued instructions, the shape of the recorded timeline, and the
  run of a linear kernel on a full compute unit.
\<close>

subsection \<open>Induction over operations and blocks\<close>

lemma node_block_induct [case_names leaf loop branch exec empty step]:
  assumes "\<And>op n. P (Leaf op n)"
    and "\<And>op inits arguments trip body. Q body \<Longrightarrow> P (UniformLoop op inits arguments trip body)"
    and "\<And>op thn els. Q thn \<Longrightarrow> Q els \<Longrightarrow> P (UniformIf op thn els)"
    and "\<And>op thn els. Q thn \<Longrightarrow> Q els \<Longrightarrow> P (ExecIf op thn els)"
    and "Q []" and "\<And>op ops. P op \<Longrightarrow> Q ops \<Longrightarrow> Q (op # ops)"
  shows "P op" and "Q ops"
proof -
  have block: "(\<And>x. x \<in> set ops \<Longrightarrow> P x) \<Longrightarrow> Q ops" for ops
    by (induction ops) (simp_all add: assms(5,6))
  show op: "P op" for op
    by (induction op) (simp_all add: assms(1-4) block)
  show "Q ops" by (simp add: block op)
qed

subsection \<open>Observations of a timeline\<close>

text \<open>
  An observation relates timelines that differ only in parts that no step reads. Two runs from
  related timelines fail alike or end in related timelines. The trial runs of a uniform branch
  and the runs without a recorded timeline are the two observations of the simulator.
\<close>

abbreviation agree :: "('a \<Rightarrow> 'b \<Rightarrow> bool) \<Rightarrow> 'a result \<Rightarrow> 'b result \<Rightarrow> bool" where
  "agree \<equiv> rel_sum (=)"

lemma agree_bind:
  assumes "agree v a b" and "\<And>x y. v x y \<Longrightarrow> agree u (f x) (g y)"
  shows "agree u (bindR a f) (bindR b g)"
  using assms by (cases a; cases b) auto

lemma agree_bind_same:
  assumes "\<And>x. agree u (f x) (g x)"
  shows "agree u (bindR a f) (bindR a g)"
  using assms by (cases a) auto

lemma agree_foldR:
  assumes "v s t" and "\<And>x s t. x \<in> set xs \<Longrightarrow> v s t \<Longrightarrow> agree v (f x s) (g x t)"
  shows "agree v (foldR f xs s) (foldR g xs t)"
  using assms
proof (induction xs arbitrary: s t)
  case (Cons x xs)
  show ?case
    unfolding foldR.simps
    by (rule agree_bind [where v = v]) (simp_all add: Cons)
qed simp

lemma related_fold:
  assumes "v s t" and "\<And>x s t. v s t \<Longrightarrow> v (f x s) (g x t)"
  shows "v (fold f xs s) (fold g xs t)"
  using assms(1) by (induction xs arbitrary: s t) (simp_all add: assms(2))

definition countIssue :: "timeline_state \<Rightarrow> timeline_state" where
  "countIssue s = s\<lparr>tl_result := (tl_result s)\<lparr>issuedOps := issuedOps (tl_result s) + 1\<rparr>\<rparr>"

locale observation =
  fixes same :: "timeline_state \<Rightarrow> timeline_state \<Rightarrow> bool"
  assumes clocks: "same s t \<Longrightarrow> tl_wave s = tl_wave t \<and> lastReady s = lastReady t \<and>
      lastCounterReady s = lastCounterReady t"
    and on_event: "same s t \<Longrightarrow> same (record_event e s) (record_event e t)"
    and on_count: "same s t \<Longrightarrow> same (countIssue s) (countIssue t)"
    and on_wave: "same s t \<Longrightarrow> same (s\<lparr>tl_wave := w\<rparr>) (t\<lparr>tl_wave := w\<rparr>)"
    and on_ready: "same s t \<Longrightarrow> same (s\<lparr>lastReady := c\<rparr>) (t\<lparr>lastReady := c\<rparr>)"
    and on_counter: "same s t \<Longrightarrow> same (s\<lparr>lastCounterReady := c\<rparr>) (t\<lparr>lastCounterReady := c\<rparr>)"
begin

lemma same_trial: "same s t \<Longrightarrow> trialOf s = trialOf t"
  using clocks [of s t] by (simp add: trialOf_def)

lemma on_readyAt:
  assumes "same s t"
  shows "same (recordReadyAt c op fu s) (recordReadyAt c op fu t)"
  unfolding recordReadyAt_def using clocks [OF assms] by (simp add: on_event on_ready assms)

lemma on_issue:
  assumes "same s t"
  shows "same (issueOp op fu r s) (issueOp op fu r t)"
  using on_event [OF on_count [OF assms]] assms by (simp add: issueOp_def countIssue_def)

lemma on_drain:
  assumes "same s t"
  shows "same (record_event e (s\<lparr>lastCounterReady := max (lastCounterReady s) c\<rparr>))
    (record_event e (t\<lparr>lastCounterReady := max (lastCounterReady t) c\<rparr>))"
  using clocks [OF assms] by (simp add: on_event on_counter assms)

lemma on_counters:
  assumes "same s t"
  shows "agree same (recordMemoryCounters env arch config op fu r s)
    (recordMemoryCounters env arch config op fu r t)"
  unfolding recordMemoryCounters_def
  by (rule agree_bind [where v = "(=)"])
     (auto intro!: related_fold [where v = same] on_drain assms sum.rel_refl)

lemma on_bind:
  assumes "same s t"
  shows "same (s\<lparr>tl_wave := f (tl_wave s)\<rparr>) (t\<lparr>tl_wave := f (tl_wave t)\<rparr>)"
  using clocks [OF assms] by (simp add: on_wave assms)

lemma on_valueReady:
  assumes "same s t"
  shows "same (recordValueReady op v s) (recordValueReady op v t)"
  using clocks [OF assms] by (simp add: recordValueReady_def on_readyAt assms)

lemma on_commit:
  assumes "same s t"
  shows "agree same (commitAndRecord env prog arch config op s)
    (commitAndRecord env prog arch config op t)"
proof -
  have wave: "tl_wave s = tl_wave t" using clocks [OF assms] by simp
  have finished: "same (if P then x\<lparr>lastReady := max (lastReady x) c\<rparr> else x)
      (if P then y\<lparr>lastReady := max (lastReady y) c\<rparr> else y)" if "same x y" for x y P c
    using clocks [OF that] by (simp add: on_ready that)
  show ?thesis
    unfolding commitAndRecord_def wave Let_def case_prod_beta
    by (rule agree_bind_same, rule agree_bind_same, rule agree_bind [where v = same],
        rule on_counters, rule related_fold [where v = same])
       (simp_all add: on_event on_issue on_wave assms recordCommittedReady_def on_readyAt finished)
qed

lemma on_node: "same s t \<Longrightarrow> agree same (commitNode ctx op s) (commitNode ctx op t)"
  by (cases ctx) (simp add: commitNode_def on_commit)

lemma on_pairs: "same s t \<Longrightarrow> same (bindPairs_tl ts vs s) (bindPairs_tl ts vs t)"
  by (simp add: bindPairs_tl_def on_bind)

lemma on_yield:
  assumes "same s t"
  shows "same (bindYieldResults rs region s) (bindYieldResults rs region t)"
  unfolding bindYieldResults_def
  by (auto intro!: related_fold [where v = same] on_valueReady on_bind assms split: option.splits)

lemma on_iteration:
  "same s t \<Longrightarrow> agree same (endIteration op as body l s) (endIteration op as body l t)"
  by (simp add: endIteration_def on_pairs split: option.splits)

lemma on_run:
  shows "\<And>s t. same s t \<Longrightarrow> agree same (runOp ctx op s) (runOp ctx op t)"
    and "\<And>s t. same s t \<Longrightarrow> agree same (runBlock ctx ops s) (runBlock ctx ops t)"
proof (induction op and ops rule: node_block_induct)
  case (leaf op n)
  then show ?case by (simp add: on_node)
next
  case (loop op inits arguments trip body)
  show ?case
    unfolding runOp.simps(2) Let_def
    by (rule agree_bind [where v = same], rule on_node [OF loop.prems])
       (auto intro!: on_pairs agree_foldR [where v = same] agree_bind [where v = same]
         loop.IH on_iteration)
next
  case (branch op thn els)
  show ?case
    unfolding runOp.simps(3)
  proof (rule agree_bind [where v = same], rule on_node [OF branch.prems])
    fix x y assume xy: "same x y"
    show "agree same
       (bindR (runBlock ctx thn (trialOf x)) (\<lambda>thenTrial. bindR (runBlock ctx els (trialOf x))
         (\<lambda>elseTrial. if getCompleteCycle (sim_config ctx) elseTrial
              \<le> getCompleteCycle (sim_config ctx) thenTrial
            then bindR (runBlock ctx thn x) (\<lambda>s2. Inr (bindYieldResults (op_results op) thn s2))
            else bindR (runBlock ctx els x) (\<lambda>s2. Inr (bindYieldResults (op_results op) els s2)))))
       (bindR (runBlock ctx thn (trialOf y)) (\<lambda>thenTrial. bindR (runBlock ctx els (trialOf y))
         (\<lambda>elseTrial. if getCompleteCycle (sim_config ctx) elseTrial
              \<le> getCompleteCycle (sim_config ctx) thenTrial
            then bindR (runBlock ctx thn y) (\<lambda>s2. Inr (bindYieldResults (op_results op) thn s2))
            else bindR (runBlock ctx els y) (\<lambda>s2. Inr (bindYieldResults (op_results op) els s2)))))"
      unfolding same_trial [OF xy]
      by (rule agree_bind_same, rule agree_bind_same)
         (auto intro!: agree_bind [where v = same] branch.IH on_yield xy)
  qed
next
  case (exec op thn els)
  show ?case
    unfolding runOp.simps(4) Let_def
    by (rule agree_bind [where v = same], rule exec.IH(1) [OF exec.prems])
       (auto intro!: agree_bind [where v = same] exec.IH on_yield)
next
  case empty
  then show ?case by simp
next
  case (step op ops)
  show ?case
    unfolding runBlock.simps
    by (rule agree_bind [where v = same], rule step.IH(1) [OF step.prems], rule step.IH(2))
qed

end

text \<open>The two observations: what a trial run keeps, and everything but the recorded events.\<close>

definition sameTrial :: "timeline_state \<Rightarrow> timeline_state \<Rightarrow> bool" where
  "sameTrial s t \<longleftrightarrow>
     tl_wave s = tl_wave t \<and> lastReady s = lastReady t \<and> lastCounterReady s = lastCounterReady t"

definition sameResult :: "event_sim_result \<Rightarrow> event_sim_result \<Rightarrow> bool" where
  "sameResult r r' \<longleftrightarrow> totalCycles r = totalCycles r' \<and> issuedOps r = issuedOps r' \<and>
     completedCycle r = completedCycle r' \<and> waveCompletedCycles r = waveCompletedCycles r'"

lemma sameResult_events: "sameResult r r' \<longleftrightarrow> r\<lparr>events := []\<rparr> = r'\<lparr>events := []\<rparr>"
  by (cases r; cases r') (auto simp: sameResult_def)

definition sameTotals :: "timeline_state \<Rightarrow> timeline_state \<Rightarrow> bool" where
  "sameTotals s t \<longleftrightarrow>
     sameTrial s t \<and> sameResult (tl_result s) (tl_result t)"

interpretation trial: observation sameTrial
  by unfold_locales (auto simp: sameTrial_def record_event_def countIssue_def)

interpretation unrecorded: observation sameTotals
  by unfold_locales (auto simp: sameTotals_def sameTrial_def sameResult_def record_event_def
      countIssue_def)

subsection \<open>Runs without a recorded timeline\<close>

lemma agree_map: "agree (\<lambda>a b. f a = f b) x y \<longleftrightarrow> map_sum id f x = map_sum id f y"
  by (cases x; cases y) auto

lemma recordTimeline_config:
  "counterDrains env arch (config\<lparr>recordTimeline := b\<rparr>) op r = counterDrains env arch config op r"
  "getModelLoopTripCount (config\<lparr>recordTimeline := b\<rparr>) trip = getModelLoopTripCount config trip"
  "getCompleteCycle (config\<lparr>recordTimeline := b\<rparr>) s = getCompleteCycle config s"
  "buildInstructionConfig arch (config\<lparr>recordTimeline := b\<rparr>) = buildInstructionConfig arch config"
  by (simp_all add: counterDrains_def getEventSimIssuePeriod_def getModelLoopTripCount_def
      getCompleteCycle_def buildInstructionConfig_def cong: if_cong)

lemma runOp_config:
  shows "runOp (env, prog, arch, config\<lparr>recordTimeline := b\<rparr>) op = runOp (env, prog, arch, config) op"
    and "runBlock (env, prog, arch, config\<lparr>recordTimeline := b\<rparr>) ops =
      runBlock (env, prog, arch, config) ops"
proof (induction op and ops rule: node_block_induct)
  case (leaf op n)
  show ?case
    by (rule ext) (simp add: commitNode_def commitAndRecord_def recordMemoryCounters_def
        recordTimeline_config cong: if_cong)
next
  case (loop op inits arguments trip body)
  show ?case
    by (rule ext) (simp add: commitNode_def commitAndRecord_def recordMemoryCounters_def
        recordTimeline_config sim_config_def loop cong: if_cong)
next
  case (branch op thn els)
  show ?case
    by (rule ext) (simp add: commitNode_def commitAndRecord_def recordMemoryCounters_def
        recordTimeline_config sim_config_def branch cong: if_cong)
next
  case (exec op thn els)
  show ?case by (rule ext) (simp add: exec Let_def cong: if_cong)
qed (rule ext, simp)+

lemmas runOp_config_fun = ext [OF runOp_config(1)] ext [OF runOp_config(2)]

lemma finish_totals:
  assumes "sameTotals s t"
  shows "sameResult (finish_timeline config s) (finish_timeline (config\<lparr>recordTimeline := b\<rparr>) t)"
  using assms unrecorded.clocks [OF assms]
  by (auto simp: finish_timeline_def Let_def recordTimeline_config getCompleteCycle_def
      record_event_def sameTotals_def sameTrial_def sameResult_def)

lemma init_totals:
  "sameTotals (init_timeline arch config r) (init_timeline arch (config\<lparr>recordTimeline := b\<rparr>) r')"
  by (simp add: sameTotals_def sameTrial_def sameResult_def init_timeline_def
      recordTimeline_config)

text \<open>The same for the waves of a compute unit.\<close>

definition sameTotals_mt :: "multi_timeline \<Rightarrow> multi_timeline \<Rightarrow> bool" where
  "sameTotals_mt t u \<longleftrightarrow>
     mt_state t = mt_state u \<and> mt_pc t = mt_pc u \<and> mt_lastReady t = mt_lastReady u \<and>
     mt_lastCounterReady t = mt_lastCounterReady u \<and>
     sameResult (mt_result t) (mt_result u)"

lemma sameTotals_mt_record:
  "sameTotals_mt t u \<Longrightarrow> sameTotals_mt (record_mt c e t) (record_mt c' e' u)"
  by (simp add: sameTotals_mt_def sameResult_def record_mt_def)

lemma step_totals:
  assumes "sameTotals_mt t u"
  shows "agree sameTotals_mt (step_multi env prog arch config ops t)
    (step_multi env prog arch (config\<lparr>recordTimeline := b\<rparr>) ops u)"
proof -
  let ?c = "config\<lparr>recordTimeline := b\<rparr>"
  have same: "mt_state t = mt_state u" "mt_pc t = mt_pc u"
    using assms by (simp_all add: sameTotals_mt_def)
  have init: "sameTotals_mt (t\<lparr>mt_state := m\<rparr>) (u\<lparr>mt_state := m\<rparr>)" for m
    using assms by (simp add: sameTotals_mt_def)
  have issue: "sameTotals_mt (issueOp_mt config w op fu r t) (issueOp_mt ?c w op fu r u)"
    if "sameTotals_mt t u" for w op fu r t u
  proof -
    have "sameTotals_mt (t\<lparr>mt_result := (mt_result t)\<lparr>issuedOps := issuedOps (mt_result t) + 1\<rparr>\<rparr>)
        (u\<lparr>mt_result := (mt_result u)\<lparr>issuedOps := issuedOps (mt_result u) + 1\<rparr>\<rparr>)"
      using that by (simp add: sameTotals_mt_def sameResult_def)
    then show ?thesis using that by (simp add: issueOp_mt_def sameTotals_mt_record)
  qed
  have raise: "sameTotals_mt (raiseReady w c t) (raiseReady w c u)"
    if "sameTotals_mt t u" for w c t u
    using that by (simp add: sameTotals_mt_def raiseReady_def)
  have ready: "sameTotals_mt (recordReady_mt config w op fu r v t) (recordReady_mt ?c w op fu r v u)"
    if "sameTotals_mt t u" for w op fu r v t u
    unfolding recordReady_mt_def Let_def by (intro sameTotals_mt_record raise that)
  have counter: "sameTotals_mt (recordCounter_mt config w op fu k c t) (recordCounter_mt ?c w op fu k c u)"
    if "sameTotals_mt t u" for w op fu k c t u
    unfolding recordCounter_mt_def
    by (rule sameTotals_mt_record) (use that in \<open>simp add: sameTotals_mt_def\<close>)
  have counters: "agree sameTotals_mt (recordMemoryCounters_mt env arch config w op fu r t)
      (recordMemoryCounters_mt env arch ?c w op fu r u)"
    if "sameTotals_mt t u" for w op fu r t u
    unfolding recordMemoryCounters_mt_def recordTimeline_config
    by (rule agree_bind_same)
       (auto intro!: related_fold [where v = sameTotals_mt] counter that)
  have pc: "sameTotals_mt (t\<lparr>mt_pc := (mt_pc t)[w := Suc (mt_pc t ! w)]\<rparr>)
      (u\<lparr>mt_pc := (mt_pc u)[w := Suc (mt_pc u ! w)]\<rparr>)"
    if "sameTotals_mt t u" for w t u
    using that by (simp add: sameTotals_mt_def)
  show ?thesis
    unfolding step_multi_def selectNextWave_def commitWave_def same Let_def case_prod_beta
    by (rule agree_bind_same, rule agree_bind_same, rule agree_bind_same,
        rule agree_bind [where v = sameTotals_mt], rule counters)
       (auto intro!: related_fold [where v = sameTotals_mt] ready raise issue init
         sameTotals_mt_record pc)
qed

lemma finish_multi_totals:
  assumes "sameTotals_mt t u"
  shows "sameResult (finish_multi config t) (finish_multi (config\<lparr>recordTimeline := b\<rparr>) u)"
proof -
  let ?c = "config\<lparr>recordTimeline := b\<rparr>"
  let ?t = "t\<lparr>mt_result := (mt_result t)\<lparr>waveCompletedCycles := ws\<rparr>\<rparr>"
  let ?u = "u\<lparr>mt_result := (mt_result u)\<lparr>waveCompletedCycles := ws\<rparr>\<rparr>"
  have complete: "sameTotals_mt (completeWave config w t) (completeWave ?c w u)"
    if "sameTotals_mt t u" for w t u
  proof -
    have "waveComplete config t w = waveComplete ?c u w"
      using that by (simp add: waveComplete_def sameTotals_mt_def Let_def)
    with that show ?thesis
      unfolding completeWave_def Let_def
      by (intro sameTotals_mt_record) (simp add: sameTotals_mt_def sameResult_def)
  qed
  have "sameTotals_mt (t\<lparr>mt_result := (mt_result t)\<lparr>waveCompletedCycles := ws\<rparr>\<rparr>)
      (u\<lparr>mt_result := (mt_result u)\<lparr>waveCompletedCycles := ws\<rparr>\<rparr>)" for ws
    using assms by (simp add: sameTotals_mt_def sameResult_def)
  then have "sameTotals_mt
      (fold (completeWave config) waves (t\<lparr>mt_result := (mt_result t)\<lparr>waveCompletedCycles := ws\<rparr>\<rparr>))
      (fold (completeWave ?c) waves (u\<lparr>mt_result := (mt_result u)\<lparr>waveCompletedCycles := ws\<rparr>\<rparr>))"
    for waves ws
    by (rule related_fold) (rule complete)
  from this [of "[0..<length (mw_placements (mt_state u))]"
      "replicate (length (mw_placements (mt_state u))) 0"] assms
  show ?thesis
    by (simp add: finish_multi_def Let_def sameTotals_mt_def sameResult_def)
qed

lemma run_multi_totals:
  "agree sameResult (run_multi (env, prog, arch, config) ops)
     (run_multi (env, prog, arch, config\<lparr>recordTimeline := b\<rparr>) ops)"
proof -
  let ?c = "config\<lparr>recordTimeline := b\<rparr>"
  have init: "init_multi arch ?c = init_multi arch config"
    by (simp add: init_multi_def recordTimeline_config)
  have "agree sameTotals_mt (foldR (\<lambda>step. step_multi env prog arch config ops) steps t)
      (foldR (\<lambda>step. step_multi env prog arch ?c ops) steps t)" for steps :: "nat list" and t
    by (rule agree_foldR) (simp_all add: step_totals, simp add: sameTotals_mt_def sameResult_def)
  then have "agree sameResult
      (bindR (foldR (\<lambda>step. step_multi env prog arch config ops) steps t)
        (\<lambda>t'. Inr (finish_multi config t')))
      (bindR (foldR (\<lambda>step. step_multi env prog arch ?c ops) steps t)
        (\<lambda>t'. Inr (finish_multi ?c t')))" for steps :: "nat list" and t
    by (rule agree_bind) (simp add: finish_multi_totals)
  then show ?thesis
    unfolding run_multi_def Let_def prod.case init
    by (cases "mw_placements (mt_state (init_multi arch config)) = []") simp_all
qed

lemma run_wave_totals:
  assumes "\<And>s t. sameTotals s t \<Longrightarrow> agree sameTotals (run s) (run t)"
  shows "agree sameResult
    (bindR (run (init_timeline arch config r)) (\<lambda>t. Inr (finish_timeline config t)))
    (bindR (run (init_timeline arch (config\<lparr>recordTimeline := b\<rparr>) r'))
      (\<lambda>t. Inr (finish_timeline (config\<lparr>recordTimeline := b\<rparr>) t)))"
  by (rule agree_bind, rule assms [OF init_totals]) (simp add: finish_totals)

subsection \<open>Completion cycles\<close>

lemma recordValueReady_wave [simp]:
  "tl_wave (recordValueReady op v s) = tl_wave s"
  "lastCounterReady (recordValueReady op v s) = lastCounterReady s"
  "lastReady (recordValueReady op v s) = max (lastReady s) (getValueReadyCycle (tl_wave s) v)"
  by (simp_all add: recordValueReady_def recordReadyAt_def record_event_def)

lemma bindValue_cycle [simp]: "currentCycle (bindValue t v s) = currentCycle s"
  using bindValues_es_fields [of s t "[v]"] by (simp add: bindValue_def sameEvents_def)

lemma bindYieldResults_clocks:
  "lastReady s \<le> lastReady (bindYieldResults rs region s) \<and>
   currentCycle (tl_wave (bindYieldResults rs region s)) = currentCycle (tl_wave s) \<and>
   lastCounterReady (bindYieldResults rs region s) = lastCounterReady s"
  unfolding bindYieldResults_def
  by (cases "getYield region", simp, simp,
      rule fold_invariant [where Q = "\<lambda>_. True" and P = "\<lambda>t. lastReady s \<le> lastReady t \<and>
        currentCycle (tl_wave t) = currentCycle (tl_wave s) \<and>
        lastCounterReady t = lastCounterReady s"])
     (simp_all add: case_prod_beta max.coboundedI1)

lemma bindYieldResults_complete:
  "getCompleteCycle config s \<le> getCompleteCycle config (bindYieldResults rs region s)"
  using bindYieldResults_clocks [of s rs region] by (auto simp: getCompleteCycle_def Let_def)

lemma complete_sameTrial: "sameTrial s t \<Longrightarrow> getCompleteCycle config s = getCompleteCycle config t"
  by (simp add: sameTrial_def getCompleteCycle_def Let_def)

lemma trial_complete:
  assumes "runBlock ctx ops s = Inr t" and "runBlock ctx ops (trialOf s) = Inr u"
  shows "getCompleteCycle config t = getCompleteCycle config u"
proof -
  have "sameTrial s (trialOf s)" by (simp add: sameTrial_def trialOf_def)
  from trial.on_run(2) [OF this, of ctx ops] assms show ?thesis
    by (simp add: complete_sameTrial)
qed

subsection \<open>The run of a full compute unit\<close>

lemma foldR_append: "foldR f (xs @ ys) s = bindR (foldR f xs s) (foldR f ys)"
proof (induction xs arbitrary: s)
  case (Cons x xs)
  then show ?case by (cases "f x s") simp_all
qed simp

lemma foldR_count:
  assumes "foldR (\<lambda>i. f) [0..<n] s = Inr t" and "P 0 s"
    and "\<And>k s t. P k s \<Longrightarrow> f s = Inr t \<Longrightarrow> P (Suc k) t"
  shows "P n t"
  using assms(1)
proof (induction n arbitrary: t)
  case (Suc n)
  then obtain u where "foldR (\<lambda>i. f) [0..<n] s = Inr u" "f u = Inr t"
    by (auto simp: foldR_append bindR_eq_Inr)
  with Suc.IH assms(3) show ?case by blast
qed (use assms(2) in simp)

text \<open>
  \<open>sameProgress\<close>: the position of every wave, the totals and the recorded issues are the same.
\<close>

definition issuesOf :: "multi_timeline \<Rightarrow> event_sim_event list" where
  "issuesOf t = filter (\<lambda>e. event_kind e = OpIssued) (events (mt_result t))"

definition sameProgress :: "multi_timeline \<Rightarrow> multi_timeline \<Rightarrow> bool" where
  "sameProgress t u \<longleftrightarrow> mt_pc u = mt_pc t \<and> mt_state u = mt_state t \<and>
     issuedOps (mt_result u) = issuedOps (mt_result t) \<and>
     totalCycles (mt_result u) = totalCycles (mt_result t) \<and> issuesOf u = issuesOf t"

lemma placedEvent_kind [simp]:
  "event_kind (placedEvent t w e) = event_kind e"
  "event_kind (waveEvent c kind op fu counter) = kind"
  by (simp_all add: placedEvent_def waveEvent_def)

lemma sameProgress_refl [simp]: "sameProgress t t"
  and sameProgress_record [simp]: "event_kind e \<noteq> OpIssued \<Longrightarrow>
    sameProgress t (record_mt config e u) \<longleftrightarrow> sameProgress t u"
  and sameProgress_raise [simp]: "sameProgress t (raiseReady w c u) \<longleftrightarrow> sameProgress t u"
  and sameProgress_ready [simp]: "sameProgress t (recordReady_mt config w op fu r a u) \<longleftrightarrow> sameProgress t u"
  and sameProgress_counter [simp]: "sameProgress t (recordCounter_mt config w op fu k c u) \<longleftrightarrow> sameProgress t u"
  by (auto simp: sameProgress_def record_mt_def raiseReady_def recordReady_mt_def
      recordCounter_mt_def issuesOf_def Let_def)

lemma sameProgress_fold:
  assumes "sameProgress s t" and "\<And>x t. sameProgress s t \<Longrightarrow> sameProgress s (f x t)"
  shows "sameProgress s (fold f xs t)"
  by (rule fold_invariant [where Q = "\<lambda>_. True"]) (simp_all add: assms)

lemma commit_mw_frame:
  assumes "commit_mw env prog w op m = Inr (r, m')"
  shows "mw_placements m' = mw_placements m \<and> getWaveCount m' = getWaveCount m"
  using assms
  by (auto simp: commit_mw_def Let_def bindR_eq_Inr getWaveCount_def split: if_splits)

definition realCount :: "op_info list \<Rightarrow> nat" where
  "realCount ops = length (filter (\<lambda>op. classifyOp op \<noteq> NoInst) ops)"

definition issueKey :: "event_sim_event \<Rightarrow> nat \<times> nat option \<times> int" where
  "issueKey e = (event_wave e, event_op e, event_cycle e)"

lemma commitWave_progress:
  assumes "commitWave env prog arch config ops w t = Inr u"
  shows "mt_pc u = (mt_pc t)[w := Suc (mt_pc t ! w)]"
    and "issuedOps (mt_result u) = issuedOps (mt_result t) + int (realCount [ops ! (mt_pc t ! w)])"
    and "totalCycles (mt_result u) = totalCycles (mt_result t)"
    and "mw_placements (mt_state u) = mw_placements (mt_state t)"
    and "getWaveCount (mt_state u) = getWaveCount (mt_state t)"
    and "\<exists>r. commit_mw env prog w (ops ! (mt_pc t ! w)) (mt_state t) = Inr (r, mt_state u) \<and>
      map issueKey (issuesOf u) = map issueKey (issuesOf t) @
        (if recordTimeline config \<and> classifyOp (ops ! (mt_pc t ! w)) \<noteq> NoInst
         then [(w, Some (op_id (ops ! (mt_pc t ! w))), issueCycle r)] else [])"
proof -
  let ?op = "ops ! (mt_pc t ! w)"
  from assms obtain r m' fu counter drains where
    c: "commit_mw env prog w ?op (mt_state t) = Inr (r, m')"
    and u: "u = (\<lambda>t5. t5\<lparr>mt_pc := (mt_pc t5)[w := mt_pc t5 ! w + 1]\<rparr>)
      (fold (recordCounter_mt config w ?op fu counter) drains
        (let t3 = fold (recordReady_mt config w ?op fu r) (op_results ?op)
              (let t1 = issueOp_mt config w ?op fu r (t\<lparr>mt_state := m'\<rparr>)
               in if isWaitcntOp ?op
                  then record_mt config (placedEvent t1 w (waveEvent (issueCycle r)
                         CounterDrained ?op NoFunctionalUnit MemoryCounterNone)) t1
                  else t1)
         in if op_results ?op = [] then raiseReady w (valueReadyCycle r) t3 else t3))"
    by (auto simp: commitWave_def commitInRange_mt_def recordMemoryCounters_mt_def Let_def
        bindR_eq_Inr split: if_splits)
  let ?t1 = "issueOp_mt config w ?op fu r (t\<lparr>mt_state := m'\<rparr>)"
  have t1: "mt_pc ?t1 = mt_pc t" "mt_state ?t1 = m'"
    "issuedOps (mt_result ?t1) = issuedOps (mt_result t) + int (realCount [?op])"
    "totalCycles (mt_result ?t1) = totalCycles (mt_result t)"
    "map issueKey (issuesOf ?t1) = map issueKey (issuesOf t) @
      (if recordTimeline config \<and> classifyOp ?op \<noteq> NoInst
       then [(w, Some (op_id ?op), issueCycle r)] else [])"
    by (simp_all add: issueOp_mt_def realCount_def record_mt_def issuesOf_def issueKey_def)
       (simp add: placedEvent_def waveEvent_def)
  have "sameProgress ?t1 (fold (recordCounter_mt config w ?op fu counter) drains
        (let t3 = fold (recordReady_mt config w ?op fu r) (op_results ?op)
              (let t1 = issueOp_mt config w ?op fu r (t\<lparr>mt_state := m'\<rparr>)
               in if isWaitcntOp ?op
                  then record_mt config (placedEvent t1 w (waveEvent (issueCycle r)
                         CounterDrained ?op NoFunctionalUnit MemoryCounterNone)) t1
                  else t1)
         in if op_results ?op = [] then raiseReady w (valueReadyCycle r) t3 else t3))"
    unfolding Let_def by (intro sameProgress_fold) (simp_all add: sameProgress_fold)
  then have same: "sameProgress ?t1 (u\<lparr>mt_pc := mt_pc t\<rparr>) \<and> mt_pc u = (mt_pc t)[w := Suc (mt_pc t ! w)]"
    by (simp add: u sameProgress_def t1(1) issuesOf_def)
  with c t1 show "\<exists>r. commit_mw env prog w ?op (mt_state t) = Inr (r, mt_state u) \<and>
      map issueKey (issuesOf u) = map issueKey (issuesOf t) @
        (if recordTimeline config \<and> classifyOp ?op \<noteq> NoInst
         then [(w, Some (op_id ?op), issueCycle r)] else [])"
    by (intro exI [of _ r]) (simp add: sameProgress_def issuesOf_def)
  from commit_mw_frame [OF c] same t1
  show "mt_pc u = (mt_pc t)[w := Suc (mt_pc t ! w)]"
    "issuedOps (mt_result u) = issuedOps (mt_result t) + int (realCount [?op])"
    "totalCycles (mt_result u) = totalCycles (mt_result t)"
    "mw_placements (mt_state u) = mw_placements (mt_state t)"
    "getWaveCount (mt_state u) = getWaveCount (mt_state t)"
    by (simp_all add: sameProgress_def)
qed

text \<open>
  The specification of a run on all waves: \<open>interleaving\<close> replays a schedule, a list of entries
  (wave, position in the program, result of the commit), on the state of the compute unit. Every
  entry is the wave that the arbiter selects among those that have not finished, and commits the
  next operation of this wave.
\<close>

fun interleaving :: "llvm_env \<Rightarrow> op_info list \<Rightarrow> op_info list \<Rightarrow> nat list \<Rightarrow>
    (nat \<times> nat \<times> commit_result) list \<Rightarrow> multi_wave \<Rightarrow> multi_wave \<Rightarrow> bool" where
  "interleaving env prog ops pc [] m m' \<longleftrightarrow> m' = m"
| "interleaving env prog ops pc ((w, i, r) # sched) m m' \<longleftrightarrow>
     selectWave env prog m
       (map (\<lambda>w. if pc ! w = length ops then None else Some (ops ! (pc ! w))) [0..<length pc]) = Inr w \<and>
     i = pc ! w \<and>
     (case commit_mw env prog w (ops ! i) m of
        Inl e \<Rightarrow> False
      | Inr (r', m1) \<Rightarrow> r' = r \<and> interleaving env prog ops (pc[w := Suc i]) sched m1 m')"

text \<open>The positions of one wave in a schedule, and the issues a schedule records.\<close>

definition positionsOf :: "nat \<Rightarrow> (nat \<times> nat \<times> commit_result) list \<Rightarrow> nat list" where
  "positionsOf w sched = map (\<lambda>(w, i, r). i) (filter (\<lambda>(w', i, r). w' = w) sched)"

definition scheduledIssues :: "op_info list \<Rightarrow> (nat \<times> nat \<times> commit_result) list \<Rightarrow>
    (nat \<times> nat option \<times> int) list" where
  "scheduledIssues ops sched =
     map (\<lambda>(w, i, r). (w, Some (op_id (ops ! i)), issueCycle r))
       (filter (\<lambda>(w, i, r). classifyOp (ops ! i) \<noteq> NoInst) sched)"

lemma run_interleaving:
  assumes "foldR (\<lambda>step. step_multi env prog arch config ops) steps t = Inr u"
    and "length (mt_pc t) = length (mw_placements (mt_state t))"
    and "length (mt_pc t) = getWaveCount (mt_state t)" and "\<forall>w<length (mt_pc t). mt_pc t ! w \<le> length ops"
  shows "\<exists>sched. interleaving env prog ops (mt_pc t) sched (mt_state t) (mt_state u) \<and>
    (\<forall>e\<in>set sched. fst e < length (mt_pc t)) \<and> length (mt_pc u) = length (mt_pc t) \<and>
    (\<forall>w<length (mt_pc t). mt_pc t ! w \<le> mt_pc u ! w \<and>
      positionsOf w sched = [mt_pc t ! w ..< mt_pc u ! w]) \<and>
    (recordTimeline config \<longrightarrow> map issueKey (issuesOf u) =
      map issueKey (issuesOf t) @ scheduledIssues ops sched)"
  using assms
proof (induction steps arbitrary: t)
  case Nil
  then show ?case by (intro exI [of _ "[]"]) (simp add: positionsOf_def scheduledIssues_def)
next
  case (Cons step steps)
  from Cons.prems(1) obtain v where v: "step_multi env prog arch config ops t = Inr v"
    "foldR (\<lambda>step. step_multi env prog arch config ops) steps v = Inr u"
    by (auto simp: bindR_eq_Inr)
  from v(1) obtain w where sel: "selectNextWave env prog ops t = Inr w"
    and com: "commitWave env prog arch config ops w t = Inr v"
    by (auto simp: step_multi_def bindR_eq_Inr)
  note c = commitWave_progress [OF com]
  from c(6) obtain r where r: "commit_mw env prog w (ops ! (mt_pc t ! w)) (mt_state t) = Inr (r, mt_state v)"
    and keys: "map issueKey (issuesOf v) = map issueKey (issuesOf t) @
      (if recordTimeline config \<and> classifyOp (ops ! (mt_pc t ! w)) \<noteq> NoInst
       then [(w, Some (op_id (ops ! (mt_pc t ! w))), issueCycle r)] else [])" by blast
  from selectWave_candidate [OF sel [unfolded selectNextWave_def]] Cons.prems(2-4)
  have w: "w < length (mt_pc t)" "mt_pc t ! w < length ops"
    by (auto split: if_splits simp: le_neq_implies_less)
  have ok: "length (mt_pc v) = length (mw_placements (mt_state v))"
    "length (mt_pc v) = getWaveCount (mt_state v)" "\<forall>w<length (mt_pc v). mt_pc v ! w \<le> length ops"
    using Cons.prems(2-4) w c(1,4,5) by (auto simp: nth_list_update)
  from Cons.IH [OF v(2) ok] obtain sched where
    sched: "interleaving env prog ops (mt_pc v) sched (mt_state v) (mt_state u)"
      "\<forall>e\<in>set sched. fst e < length (mt_pc v)" "length (mt_pc u) = length (mt_pc v)"
      "\<forall>w<length (mt_pc v). mt_pc v ! w \<le> mt_pc u ! w \<and> positionsOf w sched = [mt_pc v ! w ..< mt_pc u ! w]"
      "recordTimeline config \<longrightarrow> map issueKey (issuesOf u) =
        map issueKey (issuesOf v) @ scheduledIssues ops sched"
    by blast
  let ?s = "(w, mt_pc t ! w, r) # sched"
  have "interleaving env prog ops (mt_pc t) ?s (mt_state t) (mt_state u)"
    using sel sched(1) r Cons.prems(2) by (simp add: selectNextWave_def c(1))
  moreover have "mt_pc t ! x \<le> mt_pc u ! x \<and> positionsOf x ?s = [mt_pc t ! x ..< mt_pc u ! x]"
    if "x < length (mt_pc t)" for x
    using sched(4) [rule_format, of x] that w(1)
    by (cases "x = w") (auto simp: c(1) positionsOf_def upt_conv_Cons)
  moreover have "recordTimeline config \<longrightarrow> map issueKey (issuesOf u) =
      map issueKey (issuesOf t) @ scheduledIssues ops ?s"
    using sched(5) keys by (simp add: scheduledIssues_def)
  ultimately show ?case
    using sched(2,3) w(1) c(1) by (intro exI [of _ ?s]) auto
qed

text \<open>The progress of a run: every wave is inside the program, and the operations issued so far
  are those before the positions of the waves.\<close>

definition progress :: "op_info list \<Rightarrow> nat \<Rightarrow> nat \<Rightarrow> multi_timeline \<Rightarrow> bool" where
  "progress ops waves k t \<longleftrightarrow>
     length (mt_pc t) = waves \<and> length (mw_placements (mt_state t)) = waves \<and>
     getWaveCount (mt_state t) = waves \<and> sum_list (mt_pc t) = k \<and>
     (\<forall>w<waves. mt_pc t ! w \<le> length ops) \<and> totalCycles (mt_result t) = 0 \<and>
     issuedOps (mt_result t) = int (sum_list (map (\<lambda>pc. realCount (take pc ops)) (mt_pc t)))"

lemma progress_step:
  assumes "progress ops waves k t" and "step_multi env prog arch config ops t = Inr u"
  shows "progress ops waves (Suc k) u"
proof -
  from assms(2) obtain w where
    sel: "selectNextWave env prog ops t = Inr w" and com: "commitWave env prog arch config ops w t = Inr u"
    by (auto simp: step_multi_def bindR_eq_Inr)
  note c = commitWave_progress [OF com]
  from selectWave_candidate [OF sel [unfolded selectNextWave_def]] assms(1)
  have w: "w < waves" "mt_pc t ! w \<noteq> length ops"
    by (auto simp: progress_def split: if_splits)
  with assms(1) have lt: "mt_pc t ! w < length ops" by (auto simp: progress_def le_neq_implies_less)
  have real: "realCount (take (Suc (mt_pc t ! w)) ops) =
      realCount (take (mt_pc t ! w) ops) + realCount [ops ! (mt_pc t ! w)]"
    using lt by (simp add: take_Suc_conv_app_nth realCount_def)
  let ?f = "\<lambda>pc. realCount (take pc ops)"
  have "?f (mt_pc t ! w) \<in> set (map ?f (mt_pc t))" "mt_pc t ! w \<in> set (mt_pc t)"
    using w(1) assms(1) by (auto simp: progress_def)
  then have le: "?f (mt_pc t ! w) \<le> sum_list (map ?f (mt_pc t))" "mt_pc t ! w \<le> sum_list (mt_pc t)"
    by (simp_all only: member_le_sum_list)
  show ?thesis
    using assms(1) w le lt unfolding progress_def c
    by (auto simp: sum_list_update map_update real nth_list_update)
qed

lemma progress_all:
  assumes "progress ops waves (length ops * waves) t"
  shows "mt_pc t = replicate waves (length ops)"
    and "issuedOps (mt_result t) = int (waves * realCount ops)"
proof -
  let ?n = "length ops"
  have all: "pc = replicate (length pc) n" if "sum_list pc = n * length pc" "\<forall>w<length pc. pc ! w \<le> n"
    for pc and n :: nat
    using that
  proof (induction pc)
    case (Cons p ps)
    have p: "p \<le> n" using Cons.prems(2) by (metis length_greater_0_conv list.distinct(1) nth_Cons_0)
    have ps: "\<forall>w<length ps. ps ! w \<le> n" using Cons.prems(2) by auto
    then have "sum_list ps \<le> n * length ps"
      using sum_list_mono [of ps id "\<lambda>_. n"]
      by (auto simp: sum_list_triv in_set_conv_nth mult.commute)
    with Cons.prems(1) p have "p = n" "sum_list ps = n * length ps" by auto
    with Cons.IH ps show ?case by simp
  qed simp
  have len: "length (mt_pc t) = waves" using assms by (simp add: progress_def)
  show pc: "mt_pc t = replicate waves ?n"
    using all [of "mt_pc t" ?n] assms by (simp add: progress_def)
  show "issuedOps (mt_result t) = int (waves * realCount ops)"
    using assms by (simp add: progress_def pc map_replicate_const [symmetric] sum_list_replicate)
qed

lemma completeWave_fields:
  "mt_state (completeWave config w t) = mt_state t"
  "mt_lastReady (completeWave config w t) = mt_lastReady t"
  "mt_lastCounterReady (completeWave config w t) = mt_lastCounterReady t"
  "issuedOps (mt_result (completeWave config w t)) = issuedOps (mt_result t)"
  "waveCompletedCycles (mt_result (completeWave config w t)) =
    (waveCompletedCycles (mt_result t))[w := waveComplete config t w]"
  "totalCycles (mt_result (completeWave config w t)) =
    max (totalCycles (mt_result t)) (waveComplete config t w)"
  by (simp_all add: completeWave_def record_mt_def Let_def)

lemma complete_waves:
  assumes "n \<le> waves" and "length (waveCompletedCycles (mt_result t)) = waves"
    and "totalCycles (mt_result t) = 0" and "u = fold (completeWave config) [0..<n] t"
  shows "mt_state u = mt_state t \<and> mt_lastReady u = mt_lastReady t \<and>
    mt_lastCounterReady u = mt_lastCounterReady t \<and>
    issuedOps (mt_result u) = issuedOps (mt_result t) \<and>
    waveCompletedCycles (mt_result u) = map (waveComplete config t) [0..<n] @
      drop n (waveCompletedCycles (mt_result t)) \<and>
    totalCycles (mt_result u) = Max (set (0 # map (waveComplete config t) [0..<n]))"
  using assms(1,4)
proof (induction n arbitrary: u)
  case (Suc n)
  let ?v = "fold (completeWave config) [0..<n] t"
  have IH: "mt_state ?v = mt_state t" "mt_lastReady ?v = mt_lastReady t"
    "mt_lastCounterReady ?v = mt_lastCounterReady t"
    "issuedOps (mt_result ?v) = issuedOps (mt_result t)"
    "waveCompletedCycles (mt_result ?v) = map (waveComplete config t) [0..<n] @
      drop n (waveCompletedCycles (mt_result t))"
    "totalCycles (mt_result ?v) = Max (set (0 # map (waveComplete config t) [0..<n]))"
    using Suc.IH [OF _ refl] Suc.prems(1) by simp_all
  have c: "waveComplete config ?v n = waveComplete config t n"
    unfolding waveComplete_def IH ..
  have u: "u = completeWave config n ?v" using Suc.prems(2) by simp
  have "drop n (waveCompletedCycles (mt_result t)) =
      waveCompletedCycles (mt_result t) ! n # drop (Suc n) (waveCompletedCycles (mt_result t))"
    using assms(2) Suc.prems(1) by (simp add: Cons_nth_drop_Suc)
  then have "(waveCompletedCycles (mt_result ?v))[n := waveComplete config t n] =
      map (waveComplete config t) [0..<Suc n] @ drop (Suc n) (waveCompletedCycles (mt_result t))"
    unfolding IH(5) by (simp add: list_update_append)
  moreover have "max (Max (set (0 # map (waveComplete config t) [0..<n]))) (waveComplete config t n) =
      Max (set (0 # map (waveComplete config t) [0..<Suc n]))"
  proof -
    have "set (0 # map (waveComplete config t) [0..<Suc n]) =
        insert (waveComplete config t n) (set (0 # map (waveComplete config t) [0..<n]))" by auto
    then show ?thesis by (simp only: Max_insert List.finite_set list.simps) (simp add: max.commute)
  qed
  ultimately show ?case
    unfolding u using IH by (simp add: completeWave_fields c)
qed (use assms(3) in simp)

lemma finish_multi_result:
  assumes "progress ops waves (length ops * waves) t" and "out = finish_multi config t"
  shows "issuedOps out = int (waves * realCount ops)"
    and "waveCompletedCycles out = map (waveComplete config t) [0..<waves]"
    and "totalCycles out = Max (set (0 # waveCompletedCycles out))"
    and "completedCycle out = totalCycles out"
proof -
  let ?t1 = "t\<lparr>mt_result := (mt_result t)\<lparr>waveCompletedCycles := replicate waves 0\<rparr>\<rparr>"
  have len: "length (mw_placements (mt_state t)) = waves" and total: "totalCycles (mt_result t) = 0"
    using assms(1) by (simp_all add: progress_def)
  have same: "waveComplete config ?t1 = waveComplete config t"
    by (rule ext) (simp add: waveComplete_def Let_def cong: if_cong)
  have "issuedOps (mt_result (fold (completeWave config) [0..<waves] ?t1)) = issuedOps (mt_result t)"
    "waveCompletedCycles (mt_result (fold (completeWave config) [0..<waves] ?t1)) =
      map (waveComplete config t) [0..<waves]"
    "totalCycles (mt_result (fold (completeWave config) [0..<waves] ?t1)) =
      Max (set (0 # map (waveComplete config t) [0..<waves]))"
    using complete_waves [of waves waves ?t1 _ config, OF _ _ _ refl] total unfolding same by simp_all
  then show "issuedOps out = int (waves * realCount ops)"
    "waveCompletedCycles out = map (waveComplete config t) [0..<waves]"
    "totalCycles out = Max (set (0 # waveCompletedCycles out))"
    "completedCycle out = totalCycles out"
    using progress_all [OF assms(1)] unfolding assms(2) finish_multi_def Let_def len by simp_all
qed

lemma completeWave_issues: "issuesOf (completeWave config w t) = issuesOf t"
  by (simp add: issuesOf_def completeWave_def record_mt_def Let_def)

lemma finish_multi_issues:
  assumes "recordTimeline config"
  shows "mset (map issueKey (filter (\<lambda>e. event_kind e = OpIssued) (events (finish_multi config t)))) =
    mset (map issueKey (issuesOf t))"
proof -
  have fold: "issuesOf (fold (completeWave config) ws s) = issuesOf s" for ws s
    by (induction ws arbitrary: s) (simp_all add: completeWave_issues)
  have base: "issuesOf (t\<lparr>mt_result := (mt_result t)\<lparr>waveCompletedCycles := cs\<rparr>\<rparr>) = issuesOf t" for cs
    by (simp add: issuesOf_def)
  show ?thesis
    using fold base assms
    by (simp add: finish_multi_def Let_def filter_sort issuesOf_def)
qed

lemma run_multi_result:
  assumes "run_multi (env, prog, arch, config) ops = Inr out"
  shows "\<exists>t sched. interleaving env prog ops
      (replicate (length (getFullCUWavePlacements arch (sim_wavesPerSIMD config))) 0) sched
      (init_mw arch (getFullCUWavePlacements arch (sim_wavesPerSIMD config))
        (buildInstructionConfig arch config)) (mt_state t) \<and>
    (\<forall>e\<in>set sched. fst e < length (getFullCUWavePlacements arch (sim_wavesPerSIMD config))) \<and>
    (\<forall>w<length (getFullCUWavePlacements arch (sim_wavesPerSIMD config)).
      positionsOf w sched = [0..<length ops]) \<and>
    (recordTimeline config \<longrightarrow> map issueKey (issuesOf t) = scheduledIssues ops sched) \<and>
    progress ops (length (getFullCUWavePlacements arch (sim_wavesPerSIMD config)))
      (length ops * length (getFullCUWavePlacements arch (sim_wavesPerSIMD config))) t \<and>
    mw_placements (mt_state t) = getFullCUWavePlacements arch (sim_wavesPerSIMD config) \<and>
    out = finish_multi config t"
proof -
  let ?places = "getFullCUWavePlacements arch (sim_wavesPerSIMD config)"
  let ?w = "length ?places"
  have places: "mw_placements (mt_state (init_multi arch config)) = ?places"
    by (simp add: init_multi_def init_mw_def Let_def)
  have init: "progress ops ?w 0 (init_multi arch config)"
    by (simp add: progress_def init_multi_def init_mw_def Let_def getWaveCount_def emptyResult_def
        sum_list_replicate realCount_def)
  from assms obtain t where
    t: "foldR (\<lambda>step. step_multi env prog arch config ops) [0..<length ops * ?w]
      (init_multi arch config) = Inr t" "out = finish_multi config t"
    by (auto simp: run_multi_def Let_def places bindR_eq_Inr split: if_splits)
  have keep: "mw_placements (mt_state u) = mw_placements (mt_state s)"
    if "step_multi env prog arch config ops s = Inr u" for s u
    using that commitWave_progress(4) by (auto simp: step_multi_def bindR_eq_Inr)
  have "progress ops ?w (length ops * ?w) t"
    by (rule foldR_count [OF t(1), where P = "progress ops ?w"]) (auto intro: init progress_step)
  moreover have "mw_placements (mt_state t) = ?places"
    by (rule foldR_count [OF t(1), where P = "\<lambda>k t. mw_placements (mt_state t) = ?places"])
       (simp_all add: places keep)
  moreover
  let ?init = "init_multi arch config"
  have start: "mt_pc ?init = replicate ?w 0" "length (mt_pc ?init) = length (mw_placements (mt_state ?init))"
    "length (mt_pc ?init) = getWaveCount (mt_state ?init)"
    "\<forall>w<length (mt_pc ?init). mt_pc ?init ! w \<le> length ops"
    "mt_state ?init = init_mw arch ?places (buildInstructionConfig arch config)" "issuesOf ?init = []"
    by (simp_all add: init_multi_def init_mw_def Let_def getWaveCount_def issuesOf_def emptyResult_def)
  from run_interleaving [OF t(1) start(2-4)] obtain sched where
    sched: "interleaving env prog ops (mt_pc ?init) sched (mt_state ?init) (mt_state t)"
      "\<forall>e\<in>set sched. fst e < length (mt_pc ?init)"
      "\<forall>w<length (mt_pc ?init). positionsOf w sched = [mt_pc ?init ! w ..< mt_pc t ! w]"
      "recordTimeline config \<longrightarrow> map issueKey (issuesOf t) =
        map issueKey (issuesOf ?init) @ scheduledIssues ops sched"
    by blast
  moreover have "mt_pc t = replicate ?w (length ops)"
    using progress_all(1) \<open>progress ops ?w (length ops * ?w) t\<close> .
  ultimately show ?thesis
    using t(2) start(1,5,6) by (intro exI [of _ t] exI [of _ sched]) simp
qed

lemma collectLinearProgram_eq:
  assumes "collectLinearProgram blocks = Inr ops"
  shows "\<exists>block. blocks = [block] \<and> list_all (\<lambda>op. validateMultiWaveProgramOp op = Inr ()) block \<and>
    ops = map node_op (filter (isWaveAMDMachineOp \<circ> node_op) block)"
proof -
  have collect: "foldR (\<lambda>op ops. bindR (validateMultiWaveProgramOp op) (\<lambda>_.
        Inr (if isWaveAMDMachineOp (node_op op) then ops @ [node_op op] else ops))) block acc = Inr ops \<Longrightarrow>
      list_all (\<lambda>op. validateMultiWaveProgramOp op = Inr ()) block \<and>
      ops = acc @ map node_op (filter (isWaveAMDMachineOp \<circ> node_op) block)" for block acc
  proof (induction block arbitrary: acc)
    case (Cons op block)
    then have valid: "validateMultiWaveProgramOp op = Inr ()"
      by (auto simp: bindR_eq_Inr)
    show ?case
      using Cons.prems Cons.IH [of "if isWaveAMDMachineOp (node_op op) then acc @ [node_op op] else acc"]
      by (simp add: valid split: if_splits)
  qed simp
  from assms obtain block where "blocks = [block]"
    by (auto simp: collectLinearProgram_def length_Suc_conv split: if_splits)
  with assms collect [of block "[]"] show ?thesis by (simp add: collectLinearProgram_def)
qed

subsection \<open>The number of issued instructions\<close>

definition issueOf :: "op_info \<Rightarrow> nat" where
  "issueOf op = (if classifyOp op = NoInst then 0 else 1)"

text \<open>The instructions a node issues at least and at most, from the trip counts of its loops.\<close>

fun issueRange :: "event_sim_config \<Rightarrow> machine_op \<Rightarrow> nat \<times> nat"
and issueRanges :: "event_sim_config \<Rightarrow> machine_op list \<Rightarrow> nat \<times> nat" where
  "issueRange config (Leaf op n) =
     (if isWaveAMDMachineOp op then (issueOf op, issueOf op) else (0, 0))"
| "issueRange config (UniformLoop op inits arguments trip body) =
     (let trips = nat (getModelLoopTripCount config trip)
      in (issueOf op + trips * fst (issueRanges config body),
          issueOf op + trips * snd (issueRanges config body)))"
| "issueRange config (UniformIf op thn els) =
     (issueOf op + min (fst (issueRanges config thn)) (fst (issueRanges config els)),
      issueOf op + max (snd (issueRanges config thn)) (snd (issueRanges config els)))"
| "issueRange config (ExecIf op thn els) =
     (fst (issueRanges config thn) + fst (issueRanges config els),
      snd (issueRanges config thn) + snd (issueRanges config els))"
| "issueRanges config [] = (0, 0)"
| "issueRanges config (op # ops) =
     (fst (issueRange config op) + fst (issueRanges config ops),
      snd (issueRange config op) + snd (issueRanges config ops))"

abbreviation issued :: "timeline_state \<Rightarrow> int" where
  "issued s \<equiv> issuedOps (tl_result s)"

definition issuesWithin :: "nat \<times> nat \<Rightarrow> timeline_state \<Rightarrow> timeline_state \<Rightarrow> bool" where
  "issuesWithin lim s t \<longleftrightarrow>
     issued s + int (fst lim) \<le> issued t \<and> issued t \<le> issued s + int (snd lim)"

lemma issuesWithin_trans:
  "issuesWithin (a, b) s t \<Longrightarrow> issuesWithin (c, d) t u \<Longrightarrow> issuesWithin (a + c, b + d) s u"
  by (simp add: issuesWithin_def)

lemma issued_record [simp]: "issued (record_event e s) = issued s"
  by (simp add: record_event_def)

lemma issued_readyAt [simp]: "issued (recordReadyAt c op fu s) = issued s"
  by (simp add: recordReadyAt_def)

lemma issued_fold: "(\<And>x s. issued (f x s) = issued s) \<Longrightarrow> issued (fold f xs s) = issued s"
  by (induction xs arbitrary: s) simp_all

lemma commit_issued:
  assumes "commitNode ctx op s = Inr t"
  shows "issued t = issued s + int (issueOf op)"
proof -
  have issue: "issued (issueOp op fu r u) = issued u + int (issueOf op)" for fu r u
    by (simp add: issueOp_def issueOf_def)
  have counters: "issued v = issued u" if "recordMemoryCounters env arch config op fu r u = Inr v"
    for env arch config fu r u v
    using that by (auto simp: recordMemoryCounters_def bindR_eq_Inr issued_fold)
  have ready: "issued (fold (recordCommittedReady op fu r) vs u) = issued u" for fu r vs u
    by (rule issued_fold) (simp add: recordCommittedReady_def)
  obtain env prog arch config where "ctx = (env, prog, arch, config)" by (cases ctx)
  with assms show ?thesis
    by (auto simp: commitNode_def commitAndRecord_def bindR_eq_Inr Let_def issue ready
        dest!: counters split: if_splits)
qed

lemma issued_yield [simp]: "issued (bindYieldResults rs region s) = issued s"
  unfolding bindYieldResults_def
  by (auto intro!: issued_fold simp: recordValueReady_def split: option.splits)

lemma issued_pairs [simp]: "issued (bindPairs_tl ts vs s) = issued s"
  by (simp add: bindPairs_tl_def)

lemma loop_issued:
  assumes "foldR f (xs :: 'a list) s = Inr t" and "\<And>x s t. f x s = Inr t \<Longrightarrow> issuesWithin lim s t"
  shows "issuesWithin (length xs * fst lim, length xs * snd lim) s t"
  using assms(1)
proof (induction xs arbitrary: s)
  case (Cons x xs)
  then obtain u where u: "f x s = Inr u" "foldR f xs u = Inr t" by (auto simp: bindR_eq_Inr)
  have "issuesWithin (fst lim, snd lim) s u" using assms(2) [OF u(1)] by simp
  from issuesWithin_trans [OF this Cons.IH [OF u(2)]] show ?case by simp
qed (simp add: issuesWithin_def)

lemma run_issued:
  shows "\<And>s t. runOp ctx op s = Inr t \<Longrightarrow> issuesWithin (issueRange (sim_config ctx) op) s t"
    and "\<And>s t. runBlock ctx ops s = Inr t \<Longrightarrow> issuesWithin (issueRanges (sim_config ctx) ops) s t"
proof (induction op and ops rule: node_block_induct)
  case (leaf op n)
  then show ?case by (auto simp: issuesWithin_def dest: commit_issued split: if_splits)
next
  case (loop op inits arguments trip body)
  let ?trips = "getModelLoopTripCount (sim_config ctx) trip"
  let ?body = "issueRanges (sim_config ctx) body"
  from loop.prems obtain s1 where s1: "commitNode ctx op s = Inr s1"
    and t: "(if ?trips \<le> 0 then Inr (bindPairs_tl (op_results op) inits s1)
      else foldR (\<lambda>iter s. bindR (runBlock ctx body s)
        (endIteration op arguments body (int iter + 1 = ?trips)))
        [0..<nat ?trips] (bindPairs_tl arguments inits s1)) = Inr t"
    by (auto simp: bindR_eq_Inr Let_def)
  have "issuesWithin ?body u v"
    if step: "bindR (runBlock ctx body u) (endIteration op arguments body l) = Inr v" for u v l
  proof -
    from step obtain w where "runBlock ctx body u = Inr w" "endIteration op arguments body l w = Inr v"
      by (auto simp: bindR_eq_Inr)
    with loop.IH show ?thesis
      by (auto simp: endIteration_def issuesWithin_def split: option.splits if_splits)
  qed
  with t have "issuesWithin (nat ?trips * fst ?body, nat ?trips * snd ?body) s1 t"
    by (cases "?trips \<le> 0") (auto dest!: loop_issued simp: issuesWithin_def)
  with commit_issued [OF s1] show ?case by (simp add: issuesWithin_def Let_def)
next
  case (branch op thn els)
  from branch.prems obtain s1 region s2 where s1: "commitNode ctx op s = Inr s1"
    and s2: "runBlock ctx region s1 = Inr s2" "region \<in> {thn, els}"
    and t: "t = bindYieldResults (op_results op) region s2"
    by (auto simp: bindR_eq_Inr split: if_splits)
  have "issuesWithin (issueRanges (sim_config ctx) region) s1 t"
    using s2 t branch.IH by (auto simp: issuesWithin_def)
  with commit_issued [OF s1] s2(2) show ?case by (auto simp: issuesWithin_def)
next
  case (exec op thn els)
  from exec.prems obtain s1 where s1: "runBlock ctx thn s = Inr s1"
    and t: "els = [] \<and> t = bindYieldResults (op_results op) thn s1 \<or>
      (\<exists>s3. runBlock ctx els (bindYieldResults (op_results op) thn s1) = Inr s3 \<and>
        t = bindYieldResults (op_results op) els s3)"
    by (auto simp: bindR_eq_Inr Let_def split: if_splits)
  from t exec.IH(2) have "issuesWithin (issueRanges (sim_config ctx) els) s1 t"
    by (fastforce simp: issuesWithin_def)
  with exec.IH(1) [OF s1] show ?case by (simp add: issuesWithin_def)
next
  case empty
  then show ?case by (simp add: issuesWithin_def)
next
  case (step op ops)
  then obtain u where "runOp ctx op s = Inr u" "runBlock ctx ops u = Inr t"
    by (auto simp: bindR_eq_Inr)
  with step.IH show ?case by (fastforce simp: issuesWithin_def)
qed

subsection \<open>The recorded timeline\<close>

definition eventIn :: "timeline_state \<Rightarrow> event_sim_event \<Rightarrow> bool" where
  "eventIn s e = (case event_kind e of
      OpIssued \<Rightarrow> event_cycle e \<le> currentCycle (tl_wave s)
    | ValueReady \<Rightarrow> event_cycle e \<le> lastReady s
    | CounterDrained \<Rightarrow> event_cycle e \<le> max (currentCycle (tl_wave s)) (lastCounterReady s)
    | WaveCompleted \<Rightarrow> False)"

definition issueEvents :: "event_sim_event list \<Rightarrow> nat" where
  "issueEvents es = length (filter (\<lambda>e. event_kind e = OpIssued) es)"

definition tlOk :: "timeline_state \<Rightarrow> bool" where
  "tlOk s \<longleftrightarrow> waveOk (tl_wave s) \<and> list_all (eventIn s) (events (tl_result s)) \<and>
     (tl_record s \<longrightarrow> issued s = int (issueEvents (events (tl_result s))))"

text \<open>The clocks of a timeline only grow.\<close>

definition clocksLe :: "timeline_state \<Rightarrow> timeline_state \<Rightarrow> bool" where
  "clocksLe s t \<longleftrightarrow> currentCycle (tl_wave s) \<le> currentCycle (tl_wave t) \<and>
     lastReady s \<le> lastReady t \<and> lastCounterReady s \<le> lastCounterReady t"

lemma eventIn_mono: "eventIn s e \<Longrightarrow> clocksLe s t \<Longrightarrow> eventIn t e"
  by (auto simp: eventIn_def clocksLe_def split: EventSimEventKind.splits)

lemma tlOk_move:
  assumes "tlOk s" and "clocksLe s t" and "waveOk (tl_wave t)" and "tl_result t = tl_result s"
    and "tl_record t = tl_record s"
  shows "tlOk t"
  using assms by (auto simp: tlOk_def list_all_iff intro: eventIn_mono)

lemma tlOk_event:
  assumes "tlOk s" and "eventIn s e" and "event_kind e \<noteq> OpIssued"
  shows "tlOk (record_event e s)"
  using assms
  by (auto simp: tlOk_def record_event_def issueEvents_def list_all_iff eventIn_def
      split: EventSimEventKind.splits)

lemma tlOk_later:
  assumes "tlOk s"
  shows "tlOk (s\<lparr>lastReady := max (lastReady s) c\<rparr>)"
    and "tlOk (s\<lparr>lastCounterReady := max (lastCounterReady s) c\<rparr>)"
proof -
  have wave: "waveOk (tl_wave s)" using assms by (simp add: tlOk_def)
  show "tlOk (s\<lparr>lastReady := max (lastReady s) c\<rparr>)"
    "tlOk (s\<lparr>lastCounterReady := max (lastCounterReady s) c\<rparr>)"
    by (rule tlOk_move [OF assms]; simp add: clocksLe_def wave)+
qed

lemma tlOk_readyAt: "tlOk s \<Longrightarrow> tlOk (recordReadyAt c op fu s)"
  unfolding recordReadyAt_def
  by (rule tlOk_event, rule tlOk_later) (simp_all add: eventIn_def waveEvent_def)

lemma tlOk_drain: "tlOk s \<Longrightarrow> tlOk (record_event (waveEvent c CounterDrained op fu k)
    (s\<lparr>lastCounterReady := max (lastCounterReady s) c\<rparr>))"
  by (rule tlOk_event, rule tlOk_later) (simp_all add: eventIn_def waveEvent_def)

lemma tlOk_counters:
  assumes "recordMemoryCounters env arch config op fu r s = Inr t" and "tlOk s"
  shows "tlOk t"
proof -
  from assms(1) obtain k drains where t: "t = fold (\<lambda>ready s.
      record_event (waveEvent ready CounterDrained op fu k)
        (s\<lparr>lastCounterReady := max (lastCounterReady s) ready\<rparr>)) drains s"
    by (auto simp: recordMemoryCounters_def bindR_eq_Inr)
  show ?thesis
    unfolding t
    by (rule fold_invariant [where Q = "\<lambda>_. True"]) (simp_all add: assms(2) tlOk_drain)
qed

lemma tlOk_issue:
  assumes "tlOk s" and "issueCycle r \<le> currentCycle (tl_wave s)"
  shows "tlOk (issueOp op fu r s)"
proof -
  let ?e = "waveEvent (issueCycle r) OpIssued op fu MemoryCounterNone"
  have "eventIn (issueOp op fu r s) e" if "eventIn s e" for e
    using that by (rule eventIn_mono) (simp add: clocksLe_def issueOp_def record_event_def)
  moreover have "eventIn (issueOp op fu r s) ?e"
    using assms(2) by (simp add: eventIn_def waveEvent_def issueOp_def record_event_def)
  ultimately show ?thesis
    using assms(1)
    by (auto simp: tlOk_def issueOp_def record_event_def issueEvents_def list_all_iff waveEvent_def)
qed

lemma tlOk_commit:
  assumes "commitNode ctx op s = Inr t" and "tlOk s" and "DmaIssueDelayOp_verify op"
  shows "tlOk t"
proof -
  obtain env prog arch config where ctx: "ctx = (env, prog, arch, config)" by (cases ctx)
  from assms(1) obtain x fu s4 where
    x: "commitInRange env prog op (tl_wave s) = Inr x"
    and s4: "recordMemoryCounters env arch config op fu (fst x)
        (fold (recordCommittedReady op fu (fst x)) (op_results op)
          (if isWaitcntOp op then record_event (waveEvent (issueCycle (fst x)) CounterDrained op
             NoFunctionalUnit MemoryCounterNone) (issueOp op fu (fst x) (s\<lparr>tl_wave := snd x\<rparr>))
           else issueOp op fu (fst x) (s\<lparr>tl_wave := snd x\<rparr>))) = Inr s4"
    and t: "(if op_results op = []
        then s4\<lparr>lastReady := max (lastReady s4) (valueReadyCycle (fst x))\<rparr> else s4) = t"
    unfolding ctx commitNode_def commitAndRecord_def Let_def prod.case case_prod_beta bindR_eq_Inr
      fst_conv snd_conv sum.inject
    by blast
  obtain r w where rw: "x = (r, w)" by (cases x)
  note c = x [unfolded rw] and s4 = s4 [unfolded rw fst_conv snd_conv]
  from c obtain rs where commit: "commitWithResources env prog op None noPlacement (tl_wave s) = Inr (r, w, rs)"
    and bound: "issueCycle r \<le> INT64_MAX"
    by (auto simp: commitInRange_def commit_es_def bindR_eq_Inr split: if_splits)
  have wave: "waveOk (tl_wave s)" using assms(2) by (simp add: tlOk_def)
  note clock = commit_clock [OF commit wave assms(3) bound]
  have "clocksLe s (s\<lparr>tl_wave := w\<rparr>)" using clock by (simp add: clocksLe_def)
  then have "tlOk (s\<lparr>tl_wave := w\<rparr>)"
    by (rule tlOk_move [OF assms(2)]) (simp_all add: clock(1))
  then have s1: "tlOk (issueOp op fu r (s\<lparr>tl_wave := w\<rparr>))"
    by (rule tlOk_issue) (simp add: clock(4))
  have "currentCycle (tl_wave (issueOp op fu r (s\<lparr>tl_wave := w\<rparr>))) = currentCycle w"
    by (simp add: issueOp_def record_event_def)
  with s1 clock(4) have "tlOk (if isWaitcntOp op
      then record_event (waveEvent (issueCycle r) CounterDrained op
         NoFunctionalUnit MemoryCounterNone) (issueOp op fu r (s\<lparr>tl_wave := w\<rparr>))
      else issueOp op fu r (s\<lparr>tl_wave := w\<rparr>))"
    by (auto intro!: tlOk_event simp: eventIn_def waveEvent_def)
  then have "tlOk (fold (recordCommittedReady op fu r) (op_results op)
      (if isWaitcntOp op then record_event (waveEvent (issueCycle r) CounterDrained op
         NoFunctionalUnit MemoryCounterNone) (issueOp op fu r (s\<lparr>tl_wave := w\<rparr>))
       else issueOp op fu r (s\<lparr>tl_wave := w\<rparr>)))"
    by (rule fold_invariant [where Q = "\<lambda>_. True", rotated])
       (simp_all add: recordCommittedReady_def tlOk_readyAt)
  from tlOk_counters [OF s4 this] tlOk_later show ?thesis unfolding t [symmetric] by simp
qed

lemma tlOk_bind: "tlOk s \<Longrightarrow> tlOk (s\<lparr>tl_wave := bindValue v u (tl_wave s)\<rparr>)"
  by (rule tlOk_move) (simp_all add: clocksLe_def bindValue_def bindValues_es_ok tlOk_def
      bindValue_cycle [unfolded bindValue_def])

lemma tlOk_pairs: "tlOk s \<Longrightarrow> tlOk (bindPairs_tl ts vs s)"
proof -
  have "tlOk (s\<lparr>tl_wave := fold (\<lambda>(t, v). bindValue t v) ps (tl_wave s)\<rparr>)" if "tlOk s" for ps
    using that
  proof (induction ps arbitrary: s)
    case (Cons p ps)
    from Cons.IH [OF tlOk_bind [OF Cons.prems]] show ?case by (simp add: case_prod_beta)
  qed simp
  then show "tlOk s \<Longrightarrow> tlOk (bindPairs_tl ts vs s)" by (simp add: bindPairs_tl_def bindPairs_def)
qed

lemma tlOk_yield:
  assumes "tlOk s" shows "tlOk (bindYieldResults rs region s)"
proof (cases "getYield region")
  case (Some y)
  show ?thesis
    unfolding bindYieldResults_def Some option.case
    by (rule fold_invariant [where Q = "\<lambda>_. True" and P = tlOk])
       (auto intro: assms simp: recordValueReady_def intro!: tlOk_readyAt tlOk_bind)
qed (simp add: bindYieldResults_def assms)

text \<open>The operations of a block, those of its regions included.\<close>

fun opsIn :: "machine_op \<Rightarrow> op_info list" and opsOf :: "machine_op list \<Rightarrow> op_info list" where
  "opsIn (Leaf op n) = [op]"
| "opsIn (UniformLoop op inits arguments trip body) = op # opsOf body"
| "opsIn (UniformIf op thn els) = op # opsOf thn @ opsOf els"
| "opsIn (ExecIf op thn els) = op # opsOf thn @ opsOf els"
| "opsOf [] = []"
| "opsOf (op # ops) = opsIn op @ opsOf ops"

lemma tlOk_run:
  shows "\<And>s t. runOp ctx op s = Inr t \<Longrightarrow> list_all DmaIssueDelayOp_verify (opsIn op) \<Longrightarrow> tlOk s \<Longrightarrow> tlOk t"
    and "\<And>s t. runBlock ctx ops s = Inr t \<Longrightarrow> list_all DmaIssueDelayOp_verify (opsOf ops) \<Longrightarrow> tlOk s \<Longrightarrow> tlOk t"
proof (induction op and ops rule: node_block_induct)
  case (leaf op n)
  then show ?case by (auto intro: tlOk_commit split: if_splits)
next
  case (loop op inits arguments trip body)
  let ?trips = "getModelLoopTripCount (sim_config ctx) trip"
  from loop.prems(1) obtain s1 where s1: "commitNode ctx op s = Inr s1"
    and t: "(if ?trips \<le> 0 then Inr (bindPairs_tl (op_results op) inits s1)
      else foldR (\<lambda>iter s. bindR (runBlock ctx body s)
        (endIteration op arguments body (int iter + 1 = ?trips)))
        [0..<nat ?trips] (bindPairs_tl arguments inits s1)) = Inr t"
    by (auto simp: bindR_eq_Inr Let_def)
  have ok: "tlOk s1" using tlOk_commit [OF s1] loop.prems by simp
  have step: "tlOk v" if "tlOk u" "bindR (runBlock ctx body u) (endIteration op arguments body l) = Inr v"
    for u v l
  proof -
    from that(2) obtain w where "runBlock ctx body u = Inr w" "endIteration op arguments body l w = Inr v"
      by (auto simp: bindR_eq_Inr)
    with loop.IH [OF this(1)] loop.prems(2) that(1) show ?thesis
      by (auto simp: endIteration_def intro: tlOk_pairs split: option.splits if_splits)
  qed
  show ?case
  proof (cases "?trips \<le> 0")
    case True
    with t ok show ?thesis by (auto intro: tlOk_pairs)
  next
    case False
    with t have "foldR (\<lambda>iter s. bindR (runBlock ctx body s)
        (endIteration op arguments body (int iter + 1 = ?trips)))
        [0..<nat ?trips] (bindPairs_tl arguments inits s1) = Inr t" by simp
    then show ?thesis
      by (rule foldR_invariant [where P = tlOk]) (auto intro: tlOk_pairs ok step)
  qed
next
  case (branch op thn els)
  from branch.prems(1) obtain s1 region s2 where s1: "commitNode ctx op s = Inr s1"
    and s2: "runBlock ctx region s1 = Inr s2" "region \<in> {thn, els}"
    and t: "t = bindYieldResults (op_results op) region s2"
    by (auto simp: bindR_eq_Inr split: if_splits)
  have "tlOk s1" using tlOk_commit [OF s1] branch.prems by simp
  with branch.IH branch.prems(2) s2 have "tlOk s2" by auto
  then show ?case unfolding t by (rule tlOk_yield)
next
  case (exec op thn els)
  from exec.prems(1) obtain s1 where s1: "runBlock ctx thn s = Inr s1"
    and t: "els = [] \<and> t = bindYieldResults (op_results op) thn s1 \<or>
      (\<exists>s3. runBlock ctx els (bindYieldResults (op_results op) thn s1) = Inr s3 \<and>
        t = bindYieldResults (op_results op) els s3)"
    by (auto simp: bindR_eq_Inr Let_def split: if_splits)
  have "tlOk (bindYieldResults (op_results op) thn s1)"
    using exec.IH(1) [OF s1] exec.prems by (intro tlOk_yield) simp
  with t exec.IH(2) exec.prems(2) show ?case by (auto intro: tlOk_yield)
next
  case empty
  then show ?case by simp
next
  case (step op ops)
  then obtain u where "runOp ctx op s = Inr u" "runBlock ctx ops u = Inr t"
    by (auto simp: bindR_eq_Inr)
  with step.IH step.prems(2,3) show ?case by auto
qed

lemma tlOk_init: "tlOk (init_timeline arch config r)"
  by (simp add: tlOk_def init_timeline_def emptyResult_def issueEvents_def init_es_ok)

text \<open>The single-wave run of a function, from its blocks.\<close>

lemma func_run:
  assumes "simulateEventTimeline_func (env, prog, arch, config) blocks = Inr out"
    and "sim_wavesPerSIMD config = 0"
  shows "\<exists>t. foldR (runBlock (env, prog, arch, config)) blocks
      (init_timeline arch config (recordTimeline config)) = Inr t \<and> out = finish_timeline config t"
  using assms by (auto simp: simulateEventTimeline_func_def runFunc_def sim_config_def bindR_eq_Inr)

text \<open>The recording flag never changes: the observation that keeps everything.\<close>

interpretation recording: observation "\<lambda>s t. s = t \<and> tl_record s = b" for b
  by unfold_locales (simp_all add: record_event_def countIssue_def)

lemma blocks_record:
  assumes "foldR (runBlock ctx) blocks s = Inr t"
  shows "tl_record t = tl_record s"
  using assms
proof (rule foldR_invariant [where P = "\<lambda>u. tl_record u = tl_record s"])
  fix block u v assume "tl_record u = tl_record s" "runBlock ctx block u = Inr v"
  with recording.on_run(2) [of u u "tl_record s" ctx block] show "tl_record v = tl_record s"
    by simp
qed simp

lemma bindValue_ready [simp]:
  "getValueReadyCycle (bindValue t v s) w =
     (if w = t then max (currentCycle s) (getValueReadyCycle s v) else getValueReadyCycle s w)"
proof -
  have "valueReadyAt (bindValue t v s) =
      (valueReadyAt s)(t \<mapsto> max (currentCycle s) (getValueReadyCycle s v))"
    by (simp add: bindValue_def bindValues_es_def Let_def)
  then show ?thesis unfolding getValueReadyCycle_def bindValue_cycle by simp
qed

lemma bindPairs_simps [simp]:
  "bindPairs [] vs s = s" "bindPairs ts [] s = s"
  "bindPairs (t # ts) (v # vs) s = bindPairs ts vs (bindValue t v s)"
  by (simp_all add: bindPairs_def)

lemma bindPairs_cycle [simp]: "currentCycle (bindPairs ts vs s) = currentCycle s"
proof (induction ts arbitrary: vs s)
  case (Cons t ts)
  then show ?case by (cases vs) simp_all
qed simp

lemma bindPairs_other: "w \<notin> set ts \<Longrightarrow> getValueReadyCycle (bindPairs ts vs s) w = getValueReadyCycle s w"
proof (induction ts arbitrary: vs s)
  case (Cons t ts)
  then show ?case by (cases vs) simp_all
qed simp

subsection \<open>Examples\<close>

definition ex_sim_config :: event_sim_config where
  "ex_sim_config = \<lparr>sim_wavesPerSIMD = 0, sim_wavefrontSize = 64, tripCountOverride = -1,
     sim_calibration = None, recordTimeline = True, completePendingLdsDmaCounters = True,
     cmaIssueInterval = 0, sim_counterLatencies = noCounterLatencies,
     sim_valueLatencies = noValueLatencies\<rparr>"

definition ex_ctx :: sim_context where
  "ex_ctx = (ex_env, [], kGfx950, ex_sim_config)"

definition ex_yield :: "nat \<Rightarrow> machine_op" where
  "ex_yield v = Leaf (plainOp (NamedOp ''YieldOp'') [NoMachineInst] [ex_vgpr v] []) 0"

text \<open>A branch whose first side loads its result, and one whose both sides have it.\<close>

definition ex_if :: machine_op where
  "ex_if = UniformIf (plainOp (NamedOp ''UniformIfOp'') [] [] [ex_vgpr 9])
     [Leaf (ex_load 5) 0, ex_yield 5] [ex_yield 1]"

definition ex_exec :: machine_op where
  "ex_exec = ExecIf (plainOp (NamedOp ''ExecIfOp'') [] [] [ex_vgpr 9])
     [Leaf (ex_load 5) 0, ex_yield 5] [ex_yield 1]"

definition ex_timeline :: timeline_state where
  "ex_timeline = init_timeline kGfx950 ex_sim_config True"

lemmas ex_sim = ex_ctx_def ex_sim_config_def ex_yield_def ex_timeline_def ex_ops

lemmas eval_sim = init_timeline_def buildInstructionConfig_def
  getEventSimIssuePeriod_def commitNode_def commitAndRecord_def commitInRange_def unitOf_def
  issueOp_def record_event_def waveEvent_def recordReadyAt_def recordCommittedReady_def
  recordMemoryCounters_def counterDrains_def getCounterIssueCount_def isWaitcntOp_def
  bindYieldResults_def getYield_def recordValueReady_def trialOf_def emptyResult_def
  getCompleteCycle_def sim_config_def getModelLoopTripCount_def endIteration_def getCarries_def
  bindPairs_tl_def

lemma foldR_weak_cong: "xs = ys \<Longrightarrow> s = t \<Longrightarrow> foldR f xs s = foldR f ys t"
  by simp

lemma small_ranges: "[0..<1] = [0]" "[0..<Suc 0] = [0]"
  by (simp_all add: upt_rec)

lemma ex_if_run:
  "\<exists>t. runOp ex_ctx ex_if ex_timeline = Inr t \<and> getCompleteCycle ex_sim_config t = 80 \<and> issued t = 1"
  by (simp add: ex_if_def eval_wave ex_sim eval_sim [unfolded Let_def])

lemma ex_exec_run:
  "\<exists>t. runOp ex_ctx ex_exec ex_timeline = Inr t \<and>
     getValueReadyCycle (tl_wave t) (ex_vgpr 5) = 80 \<and> getValueReadyCycle (tl_wave t) (ex_vgpr 9) = 4"
  by (simp add: ex_exec_def eval_wave ex_sim eval_sim [unfolded Let_def])

lemma ex_if_sim:
  "\<exists>out. simulateEventTimeline_func ex_ctx [[ex_if]] = Inr out \<and> issuedOps out = 1 \<and>
     totalCycles out = 80"
proof -
  obtain t where t: "runOp ex_ctx ex_if ex_timeline = Inr t" "getCompleteCycle ex_sim_config t = 80"
    "issued t = 1" using ex_if_run by blast
  have "simulateEventTimeline_func ex_ctx [[ex_if]] = Inr (finish_timeline ex_sim_config t)"
    using t(1) by (simp add: simulateEventTimeline_func_def runFunc_def ex_ctx_def sim_config_def
        ex_sim_config_def ex_timeline_def)
  with t(2,3) show ?thesis by (simp add: finish_timeline_def Let_def record_event_def)
qed

definition ex_multi :: sim_context where
  "ex_multi = (ex_env, [], kGfx950\<lparr>simdsPerCU := 1\<rparr>, ex_sim_config\<lparr>sim_wavesPerSIMD := 1\<rparr>)"

definition ex_nop :: machine_op where
  "ex_nop = Leaf (plainOp (NamedOp ''SNopOp'') [] [] []) 0"

lemma ex_multi_sim:
  "\<exists>out. simulateEventTimeline_func ex_multi [[ex_nop]] = Inr out \<and> issuedOps out = 1 \<and>
     totalCycles out = 4"
  by (simp add: simulateEventTimeline_func_def collectLinearProgram_def
      validateMultiWaveProgramOp_def run_multi_def Let_def init_multi_def finish_multi_def
      getFullCUWavePlacements_def ex_multi_def ex_nop_def step_multi_def selectNextWave_def
      commitWave_def commitInRange_mt_def issueOp_mt_def record_mt_def placedEvent_def
      recordReady_mt_def raiseReady_def recordMemoryCounters_mt_def completeWave_def
      waveComplete_def eval_cu ex_sim_config_def eval_sim [unfolded Let_def] small_ranges
      cong: foldR_weak_cong)

text \<open>Two instructions on two waves.\<close>

definition ex_pair_arch :: arch_data where
  "ex_pair_arch = kGfx950\<lparr>simdsPerCU := 2\<rparr>"

definition ex_pair_config :: event_sim_config where
  "ex_pair_config = ex_sim_config\<lparr>sim_wavesPerSIMD := 1\<rparr>"

definition ex_pair :: sim_context where
  "ex_pair = (ex_env, [], ex_pair_arch, ex_pair_config)"

definition ex_slot :: "int \<Rightarrow> int \<Rightarrow> reservation" where
  "ex_slot a b = \<lparr>res_begin = a, res_end = b, res_units = 1\<rparr>"

definition ex_issue :: "int \<Rightarrow> nat \<Rightarrow> event_sim_event" where
  "ex_issue c w = \<lparr>event_cycle = c, event_kind = OpIssued, event_op = Some 0, event_fu = SALU,
     event_counter = MemoryCounterNone, event_wave = w, event_simd = w\<rparr>"

text \<open>
  The compute unit after \<open>n0\<close> and \<open>n1\<close> issues of its two waves, with the reservations of the
  issue slots of the SIMDs and of the compute unit.
\<close>

definition ex_pair_at :: "nat \<Rightarrow> nat \<Rightarrow> reservation list \<Rightarrow> reservation list \<Rightarrow> reservation list \<Rightarrow>
    int \<Rightarrow> event_sim_event list \<Rightarrow> int list \<Rightarrow> multi_timeline" where
  "ex_pair_at n0 n1 r0 r1 cu latest evs ready =
     (let t = init_multi ex_pair_arch ex_pair_config; m = mt_state t; w = mw_waves m ! 0; rs = mw_resources m
      in t\<lparr>mt_state := m\<lparr>
             mw_waves := [w\<lparr>currentCycle := 4 * int n0, currentIssueSlot := n0\<rparr>,
                          w\<lparr>currentCycle := 4 * int n1, currentIssueSlot := n1\<rparr>],
             roundRobinCursor := [min 1 n0, min 1 n1],
             mw_resources := rs\<lparr>
               simdResources := [(simdResources rs ! 0)[0 := \<lparr>reservations = r0, capacity = 1\<rparr>],
                                 (simdResources rs ! 1)[0 := \<lparr>reservations = r1, capacity = 1\<rparr>]],
               cuResources := [\<lparr>reservations = cu, capacity = 5\<rparr>], lastCommittedCycle := latest\<rparr>\<rparr>,
           mt_result := emptyResult\<lparr>issuedOps := int (n0 + n1), events := evs\<rparr>,
           mt_pc := [n0, n1], mt_lastReady := ready\<rparr>)"

lemma pair_ranges: "[0..<2] = [0, 1]" "[0..<Suc (Suc 0)] = [0, 1]" "[0..<4] = [0, 1, 2, 3]"
  by (simp_all add: upt_rec numeral_eq_Suc)

lemmas eval_pair = ex_pair_at_def ex_pair_arch_def ex_pair_config_def ex_slot_def ex_issue_def Let_def init_multi_def
      getFullCUWavePlacements_def ex_nop_def step_multi_def selectNextWave_def
      commitWave_def commitInRange_mt_def issueOp_mt_def record_mt_def placedEvent_def
      recordReady_mt_def raiseReady_def recordMemoryCounters_mt_def completeWave_def
      waveComplete_def eval_cu ex_sim_config_def eval_sim [unfolded Let_def] pair_ranges

lemma ex_pair_step0:
  "step_multi ex_env [] ex_pair_arch ex_pair_config [node_op ex_nop, node_op ex_nop]
     (init_multi ex_pair_arch ex_pair_config) =
   Inr (ex_pair_at 1 0 [ex_slot 0 4] [] [ex_slot 0 1] 0 [ex_issue 0 0] [0, 0])"
  by (simp add: eval_pair cong: foldR_weak_cong)

lemma ex_pair_step1:
  "step_multi ex_env [] ex_pair_arch ex_pair_config [node_op ex_nop, node_op ex_nop]
     (ex_pair_at 1 0 [ex_slot 0 4] [] [ex_slot 0 1] 0 [ex_issue 0 0] [0, 0]) =
   Inr (ex_pair_at 1 1 [ex_slot 0 4] [ex_slot 0 4] [ex_slot 0 1, ex_slot 0 1] 0
      [ex_issue 0 0, ex_issue 0 1] [0, 0])"
  by (simp add: eval_pair cong: foldR_weak_cong)

lemma ex_pair_step2:
  "step_multi ex_env [] ex_pair_arch ex_pair_config [node_op ex_nop, node_op ex_nop]
     (ex_pair_at 1 1 [ex_slot 0 4] [ex_slot 0 4] [ex_slot 0 1, ex_slot 0 1] 0
      [ex_issue 0 0, ex_issue 0 1] [0, 0]) =
   Inr (ex_pair_at 2 1 [ex_slot 4 8] [] [ex_slot 4 5] 4
      [ex_issue 0 0, ex_issue 0 1, ex_issue 4 0] [4, 0])"
  by (simp add: eval_pair cong: foldR_weak_cong)

lemma ex_pair_step3:
  "step_multi ex_env [] ex_pair_arch ex_pair_config [node_op ex_nop, node_op ex_nop]
     (ex_pair_at 2 1 [ex_slot 4 8] [] [ex_slot 4 5] 4
      [ex_issue 0 0, ex_issue 0 1, ex_issue 4 0] [4, 0]) =
   Inr (ex_pair_at 2 2 [ex_slot 4 8] [ex_slot 4 8] [ex_slot 4 5, ex_slot 4 5] 4
      [ex_issue 0 0, ex_issue 0 1, ex_issue 4 0, ex_issue 4 1] [4, 4])"
  by (simp add: eval_pair cong: foldR_weak_cong)

lemma ex_pair_run:
  "run_multi ex_pair [node_op ex_nop, node_op ex_nop] = Inr (finish_multi ex_pair_config
     (ex_pair_at 2 2 [ex_slot 4 8] [ex_slot 4 8] [ex_slot 4 5, ex_slot 4 5] 4
       [ex_issue 0 0, ex_issue 0 1, ex_issue 4 0, ex_issue 4 1] [4, 4]))"
proof -
  have w: "length (mw_placements (mt_state (init_multi ex_pair_arch ex_pair_config))) = 2"
    by (simp add: init_multi_def init_mw_def Let_def getFullCUWavePlacements_def ex_pair_arch_def
        ex_pair_config_def ex_sim_config_def kGfx950_def to_u32_def)
  have n: "[0..<length [node_op ex_nop, node_op ex_nop] * 2] = [0, 1, 2, 3]"
    by (simp add: upt_rec numeral_eq_Suc)
  have small: "\<not> 18446744073709551615 div 2 < length [node_op ex_nop, node_op ex_nop]" by simp
  have two: "(2 :: nat) \<noteq> 0" by simp
  show ?thesis
    unfolding run_multi_def ex_pair_def prod.case Let_def w n if_not_P [OF two] if_not_P [OF small]
    by (simp only: foldR.simps bindR_simps ex_pair_step0 ex_pair_step1 ex_pair_step2 ex_pair_step3)
qed

lemma ex_pair_sim:
  "\<exists>out. simulateEventTimeline_func ex_pair [[ex_nop, ex_nop]] = Inr out \<and> issuedOps out = 4"
proof -
  have "simulateEventTimeline_func ex_pair [[ex_nop, ex_nop]] =
      run_multi ex_pair [node_op ex_nop, node_op ex_nop]"
    by (simp add: simulateEventTimeline_func_def ex_pair_def ex_pair_config_def ex_pair_arch_def
        ex_sim_config_def collectLinearProgram_def validateMultiWaveProgramOp_def ex_nop_def
        plainOp_def isWaveAMDMachineOp_def isaOp_def kGfx950_def to_u32_def)
  moreover have "issuedOps (finish_multi ex_pair_config
     (ex_pair_at 2 2 [ex_slot 4 8] [ex_slot 4 8] [ex_slot 4 5, ex_slot 4 5] 4
       [ex_issue 0 0, ex_issue 0 1, ex_issue 4 0, ex_issue 4 1] [4, 4])) = 4"
    by (simp add: finish_multi_def eval_pair)
  ultimately show ?thesis using ex_pair_run by simp
qed

lemma carries_bound_in_parallel:
  assumes "distinct targets" and "length targets = length sources"
    and "\<forall>j<length sources. \<forall>i<j. targets ! i \<noteq> sources ! j" and "k < length targets"
  shows "getValueReadyCycle (bindPairs targets sources s) (targets ! k) =
    max (currentCycle s) (getValueReadyCycle s (sources ! k))"
  using assms
proof (induction targets arbitrary: sources s k)
  case (Cons t ts)
  then obtain v vs where sources: "sources = v # vs" by (cases sources) auto
  show ?case
  proof (cases k)
    case 0
    with Cons.prems(1) show ?thesis by (simp add: sources bindPairs_other)
  next
    case (Suc m)
    have later: "\<forall>j<length vs. \<forall>i<j. ts ! i \<noteq> vs ! j"
      using Cons.prems(3) unfolding sources by force
    have "t \<noteq> vs ! m" using Cons.prems(2-4) unfolding sources Suc by force
    with Cons.IH [of vs m "bindValue t v s"] Cons.prems later show ?thesis
      by (simp add: sources Suc)
  qed
qed simp

section \<open>Properties\<close>

text \<open>Recording a timeline is not observable. With and without \<^verbatim>\<open>recordTimeline\<close> a
  simulation fails in the same way or gives the same total cycles, completion cycles and number
  of issued operations, for a function and for a list of operations, on one wave and on a full
  compute unit.
\<close>

theorem recording_unobservable:
  "map_sum id (\<lambda>r. r\<lparr>events := []\<rparr>) (simulateEventTimeline_func (env, prog, arch, config) blocks) =
     map_sum id (\<lambda>r. r\<lparr>events := []\<rparr>)
       (simulateEventTimeline_func (env, prog, arch, config\<lparr>recordTimeline := b\<rparr>) blocks) \<and>
   map_sum id (\<lambda>r. r\<lparr>events := []\<rparr>) (simulateEventTimeline_ops (env, prog, arch, config) ops) =
     map_sum id (\<lambda>r. r\<lparr>events := []\<rparr>)
       (simulateEventTimeline_ops (env, prog, arch, config\<lparr>recordTimeline := b\<rparr>) ops)"
proof -
  have block: "agree sameTotals (foldR (runBlock ctx) blocks s) (foldR (runBlock ctx) blocks t)"
    if "sameTotals s t" for ctx s t
    by (rule agree_foldR, rule that) (rule unrecorded.on_run)
  have op: "agree sameTotals (foldR (runOp ctx) ops s) (foldR (runOp ctx) ops t)"
    if "sameTotals s t" for ctx s t
    by (rule agree_foldR, rule that) (rule unrecorded.on_run)
  have "agree sameResult (simulateEventTimeline_func (env, prog, arch, config) blocks)
      (simulateEventTimeline_func (env, prog, arch, config\<lparr>recordTimeline := b\<rparr>) blocks)"
    unfolding simulateEventTimeline_func_def runFunc_def sim_config_def runOp_config_fun
    by (auto intro!: run_wave_totals block agree_bind_same run_multi_totals)
  moreover have "agree sameResult (simulateEventTimeline_ops (env, prog, arch, config) ops)
      (simulateEventTimeline_ops (env, prog, arch, config\<lparr>recordTimeline := b\<rparr>) ops)"
    unfolding simulateEventTimeline_ops_def runOps_def sim_config_def runOp_config_fun
    by (auto intro!: run_wave_totals op agree_bind_same run_multi_totals)
  ultimately show ?thesis
    unfolding sameResult_events agree_map by simp
qed

text \<open>A uniform branch costs its slower side. Both sides are tried from the state after the
  branch; the run goes on with the side that completes later, and its completion cycle at the
  end of the side is the larger of the two trials. Binding the results never lowers it.
\<close>

theorem uniform_if_slower:
  assumes "runOp ctx (UniformIf op thn els) s = Inr t"
  shows "\<exists>s1 thenTrial elseTrial region s2. commitNode ctx op s = Inr s1 \<and>
    runBlock ctx thn (trialOf s1) = Inr thenTrial \<and> runBlock ctx els (trialOf s1) = Inr elseTrial \<and>
    region \<in> {thn, els} \<and> runBlock ctx region s1 = Inr s2 \<and>
    t = bindYieldResults (op_results op) region s2 \<and>
    getCompleteCycle (sim_config ctx) s2 =
      max (getCompleteCycle (sim_config ctx) thenTrial) (getCompleteCycle (sim_config ctx) elseTrial) \<and>
    getCompleteCycle (sim_config ctx) s2 \<le> getCompleteCycle (sim_config ctx) t"
proof -
  let ?cc = "getCompleteCycle (sim_config ctx)"
  from assms obtain s1 thenTrial elseTrial where
    s1: "commitNode ctx op s = Inr s1" and thn: "runBlock ctx thn (trialOf s1) = Inr thenTrial"
    and els: "runBlock ctx els (trialOf s1) = Inr elseTrial"
    and t: "(if ?cc elseTrial \<le> ?cc thenTrial
      then bindR (runBlock ctx thn s1) (\<lambda>s2. Inr (bindYieldResults (op_results op) thn s2))
      else bindR (runBlock ctx els s1) (\<lambda>s2. Inr (bindYieldResults (op_results op) els s2))) = Inr t"
    by (auto simp: bindR_eq_Inr)
  show ?thesis
  proof (cases "?cc elseTrial \<le> ?cc thenTrial")
    case True
    with t obtain s2 where s2: "runBlock ctx thn s1 = Inr s2"
      "t = bindYieldResults (op_results op) thn s2" by (auto simp: bindR_eq_Inr)
    with True trial_complete [OF s2(1) thn] have "?cc s2 = max (?cc thenTrial) (?cc elseTrial)"
      by simp
    with s1 thn els s2 bindYieldResults_complete show ?thesis by blast
  next
    case False
    with t obtain s2 where s2: "runBlock ctx els s1 = Inr s2"
      "t = bindYieldResults (op_results op) els s2" by (auto simp: bindR_eq_Inr)
    with False trial_complete [OF s2(1) els] have "?cc s2 = max (?cc thenTrial) (?cc elseTrial)"
      by simp
    with s1 thn els s2 bindYieldResults_complete show ?thesis by blast
  qed
qed

theorem uniform_if_slower_witness:
  "\<exists>t s1 thenTrial elseTrial. runOp ex_ctx ex_if ex_timeline = Inr t \<and>
     runBlock ex_ctx (if_then ex_if) (trialOf s1) = Inr thenTrial \<and>
     runBlock ex_ctx (if_else ex_if) (trialOf s1) = Inr elseTrial \<and>
     max (getCompleteCycle ex_sim_config thenTrial) (getCompleteCycle ex_sim_config elseTrial) \<le> 80"
proof -
  obtain t where t: "runOp ex_ctx ex_if ex_timeline = Inr t" "getCompleteCycle ex_sim_config t = 80"
    using ex_if_run by blast
  have c: "sim_config ex_ctx = ex_sim_config" by (simp add: sim_config_def ex_ctx_def)
  from uniform_if_slower [OF t(1) [unfolded ex_if_def]] t show ?thesis
    unfolding c by (simp add: ex_if_def) fastforce
qed

text \<open>C25: A successful simulation of a full compute unit is a simulation of a linear kernel: one
  block, no operation with regions and no wave rendezvous, at least one wave and at most as many
  per SIMD as the target has. The run is an interleaving: from the initial state of the compute
  unit, every step commits the next operation of the wave that the arbiter selects among the
  unfinished ones, and every wave goes through the whole kernel once, in program order. The
  recorded issue events are the issues of this schedule, each with its wave, operation and cycle;
  every wave completes no earlier than the clock it ends with; and the kernel completes with its
  last wave.
\<close>

theorem compute_unit_simulation:
  assumes "simulateEventTimeline_func (env, prog, arch, config) blocks = Inr out"
    and "sim_wavesPerSIMD config \<noteq> 0"
    and "places = getFullCUWavePlacements arch (sim_wavesPerSIMD config)"
  shows "sim_wavesPerSIMD config \<le> to_u32 (wavesPerSIMD arch) \<and>
    (\<exists>block ops sched m. blocks = [block] \<and>
      ops = map node_op (filter (isWaveAMDMachineOp \<circ> node_op) block) \<and>
      (\<forall>op\<in>set block. getNumRegions op = 0 \<and> \<not> isaOp (node_op op)
        [''ClusterBarrierOp'', ''SBarrierOp'', ''SBarrierWaitOp'', ''BarrierWaitOp'']) \<and>
      interleaving env prog ops (replicate (length places) 0) sched
        (init_mw arch places (buildInstructionConfig arch config)) m \<and>
      (\<forall>(w, i, r)\<in>set sched. w < length places) \<and>
      (\<forall>w<length places. positionsOf w sched = [0..<length ops] \<and>
        getCurrentCycle m w \<le> waveCompletedCycles out ! w) \<and>
      (recordTimeline config \<longrightarrow>
        mset (map issueKey (filter (\<lambda>e. event_kind e = OpIssued) (events out))) =
        mset (scheduledIssues ops sched)) \<and>
      issuedOps out = int (length (waveCompletedCycles out) *
        length (filter (\<lambda>op. isWaveAMDMachineOp op \<and> classifyOp op \<noteq> NoInst) (map node_op block)))) \<and>
    length (waveCompletedCycles out) = length places \<and> waveCompletedCycles out \<noteq> [] \<and>
    totalCycles out = Max (set (0 # waveCompletedCycles out)) \<and>
    completedCycle out = totalCycles out"
proof -
  from assms obtain ops where
    limit: "sim_wavesPerSIMD config \<le> to_u32 (wavesPerSIMD arch)"
    and ops: "collectLinearProgram blocks = Inr ops"
    and run: "run_multi (env, prog, arch, config) ops = Inr out"
    by (auto simp: simulateEventTimeline_func_def bindR_eq_Inr split: if_splits)
  have places: "places \<noteq> []"
    using run assms(3) by (auto simp: run_multi_def Let_def init_multi_def init_mw_def split: if_splits)
  obtain block where block: "blocks = [block]"
    "list_all (\<lambda>op. validateMultiWaveProgramOp op = Inr ()) block"
    "ops = map node_op (filter (isWaveAMDMachineOp \<circ> node_op) block)"
    using collectLinearProgram_eq [OF ops] by blast
  obtain t sched where sched: "interleaving env prog ops (replicate (length places) 0) sched
      (init_mw arch places (buildInstructionConfig arch config)) (mt_state t)"
      "\<forall>e\<in>set sched. fst e < length places" "\<forall>w<length places. positionsOf w sched = [0..<length ops]"
      "recordTimeline config \<longrightarrow> map issueKey (issuesOf t) = scheduledIssues ops sched"
    and t: "progress ops (length places) (length ops * length places) t" "out = finish_multi config t"
    using run_multi_result [OF run] assms(3) by blast
  note out = finish_multi_result [OF t]
  have count: "realCount ops = length (filter (\<lambda>op. isWaveAMDMachineOp op \<and> classifyOp op \<noteq> NoInst)
      (map node_op block))"
    unfolding realCount_def block(3) by (simp add: filter_map comp_def conj_commute)
  have plain: "\<forall>op\<in>set block. getNumRegions op = 0 \<and> \<not> isaOp (node_op op)
      [''ClusterBarrierOp'', ''SBarrierOp'', ''SBarrierWaitOp'', ''BarrierWaitOp'']"
    using block(2) by (auto simp: list_all_iff validateMultiWaveProgramOp_def split: if_splits)
  have clock: "getCurrentCycle (mt_state t) w \<le> waveCompletedCycles out ! w" if "w < length places" for w
    using that by (simp add: out(2) waveComplete_def Let_def max_def)
  have issues: "recordTimeline config \<longrightarrow>
      mset (map issueKey (filter (\<lambda>e. event_kind e = OpIssued) (events out))) =
      mset (scheduledIssues ops sched)"
    using sched(4) finish_multi_issues [of config t] t(2) by simp
  have len: "length (waveCompletedCycles out) = length places" by (simp add: out(2))
  have "\<exists>block ops sched m. blocks = [block] \<and>
      ops = map node_op (filter (isWaveAMDMachineOp \<circ> node_op) block) \<and>
      (\<forall>op\<in>set block. getNumRegions op = 0 \<and> \<not> isaOp (node_op op)
        [''ClusterBarrierOp'', ''SBarrierOp'', ''SBarrierWaitOp'', ''BarrierWaitOp'']) \<and>
      interleaving env prog ops (replicate (length places) 0) sched
        (init_mw arch places (buildInstructionConfig arch config)) m \<and>
      (\<forall>(w, i, r)\<in>set sched. w < length places) \<and>
      (\<forall>w<length places. positionsOf w sched = [0..<length ops] \<and>
        getCurrentCycle m w \<le> waveCompletedCycles out ! w) \<and>
      (recordTimeline config \<longrightarrow>
        mset (map issueKey (filter (\<lambda>e. event_kind e = OpIssued) (events out))) =
        mset (scheduledIssues ops sched)) \<and>
      issuedOps out = int (length (waveCompletedCycles out) *
        length (filter (\<lambda>op. isWaveAMDMachineOp op \<and> classifyOp op \<noteq> NoInst) (map node_op block)))"
    by (rule exI [of _ block], rule exI [of _ ops], rule exI [of _ sched], rule exI [of _ "mt_state t"])
       (use block(1,3) plain sched(1-3) clock issues out(1) count len in auto)
  with limit out places len show ?thesis by auto
qed

theorem compute_unit_simulation_witness:
  "\<exists>out ops sched m. simulateEventTimeline_func ex_pair [[ex_nop, ex_nop]] = Inr out \<and>
     interleaving ex_env [] ops [0, 0] sched
       (init_mw ex_pair_arch (getFullCUWavePlacements ex_pair_arch 1)
         (buildInstructionConfig ex_pair_arch ex_pair_config)) m \<and>
     positionsOf 0 sched = [0, 1] \<and> positionsOf 1 sched = [0, 1] \<and> issuedOps out = 4"
proof -
  have len: "length (getFullCUWavePlacements ex_pair_arch 1) = 2" and one: "sim_wavesPerSIMD ex_pair_config = 1"
    by (simp_all add: getFullCUWavePlacements_def ex_pair_arch_def ex_pair_config_def
        ex_sim_config_def kGfx950_def to_u32_def)
  have nops: "map node_op (filter (isWaveAMDMachineOp \<circ> node_op) [ex_nop, ex_nop]) =
      [node_op ex_nop, node_op ex_nop]"
    by (simp add: ex_nop_def plainOp_def isWaveAMDMachineOp_def)
  obtain out where out: "simulateEventTimeline_func ex_pair [[ex_nop, ex_nop]] = Inr out"
    "issuedOps out = 4" using ex_pair_sim by blast
  from compute_unit_simulation [OF out(1) [unfolded ex_pair_def] _ refl] obtain block ops sched m where
    s: "[[ex_nop, ex_nop]] = [block]" "ops = map node_op (filter (isWaveAMDMachineOp \<circ> node_op) block)"
      "interleaving ex_env [] ops (replicate 2 0) sched
        (init_mw ex_pair_arch (getFullCUWavePlacements ex_pair_arch 1)
          (buildInstructionConfig ex_pair_arch ex_pair_config)) m"
      "\<forall>w<2. positionsOf w sched = [0..<length ops]"
    unfolding one len by auto
  have "length ops = 2" using s(1,2) nops by simp
  then have "[0..<length ops] = [0, 1]" by (simp add: upt_rec)
  then have "positionsOf 0 sched = [0, 1]" "positionsOf 1 sched = [0, 1]" using s(4) by simp_all
  then show ?thesis
    using out s(3) by (intro exI [of _ out] exI [of _ ops] exI [of _ sched] exI [of _ m])
      (simp add: numeral_2_eq_2)
qed

text \<open>C30: The number of instructions a single-wave simulation issues is known before it runs, up to
  the uniform branches: a loop issues its body once for each trip (the override, the trip
  attribute or one), a divergent branch both sides, a uniform branch one of them.
\<close>

theorem issued_ops_bounds:
  assumes "simulateEventTimeline_func (env, prog, arch, config) blocks = Inr out"
    and "sim_wavesPerSIMD config = 0"
  shows "int (sum_list (map (\<lambda>block. fst (issueRanges config block)) blocks)) \<le> issuedOps out \<and>
    issuedOps out \<le> int (sum_list (map (\<lambda>block. snd (issueRanges config block)) blocks))"
proof -
  obtain t where t: "foldR (runBlock (env, prog, arch, config)) blocks
      (init_timeline arch config (recordTimeline config)) = Inr t" "out = finish_timeline config t"
    using func_run [OF assms] by blast
  have run: "foldR (runBlock (env, prog, arch, config)) blocks s = Inr u \<Longrightarrow>
      issuesWithin (sum_list (map (\<lambda>block. fst (issueRanges config block)) blocks),
        sum_list (map (\<lambda>block. snd (issueRanges config block)) blocks)) s u" for s u
  proof (induction blocks arbitrary: s)
    case (Cons block blocks)
    from Cons.prems obtain v where v: "runBlock (env, prog, arch, config) block s = Inr v"
      "foldR (runBlock (env, prog, arch, config)) blocks v = Inr u"
      by (auto simp: bindR_eq_Inr)
    from run_issued(2) [OF v(1)]
    have "issuesWithin (fst (issueRanges config block), snd (issueRanges config block)) s v"
      by (simp add: sim_config_def)
    from issuesWithin_trans [OF this Cons.IH [OF v(2)]] show ?case by simp
  qed (simp add: issuesWithin_def)
  have "issuedOps out = issued t"
    by (simp add: t(2) finish_timeline_def Let_def record_event_def)
  with run [OF t(1)] show ?thesis
    by (simp add: issuesWithin_def init_timeline_def emptyResult_def)
qed

theorem issued_ops_bounds_witness:
  "issueRanges ex_sim_config [ex_if] = (0, 1) \<and>
   (\<exists>out. simulateEventTimeline_func ex_ctx [[ex_if]] = Inr out \<and> 0 \<le> issuedOps out \<and>
      issuedOps out \<le> 1)"
proof -
  obtain out where out: "simulateEventTimeline_func ex_ctx [[ex_if]] = Inr out"
    using ex_if_sim by blast
  have range: "issueRanges ex_sim_config [ex_if] = (0, 1)"
    by (simp add: ex_if_def ex_yield_def issueOf_def eval_wave ex_ops)
  from issued_ops_bounds [OF out [unfolded ex_ctx_def]] range out show ?thesis
    by (simp add: ex_sim_config_def)
qed

text \<open>The recorded timeline of a single wave is ordered and complete: the events are sorted by
  cycle, kind and operation, there is one issue event for each issued operation, the wave
  completes once, at the total, and no instruction issues and no value becomes ready after that.
  With the pending counters included, the completion is the last event.
\<close>

theorem recorded_timeline:
  assumes "simulateEventTimeline_func (env, prog, arch, config) blocks = Inr out"
    and "sim_wavesPerSIMD config = 0" and "recordTimeline config"
    and "\<forall>block\<in>set blocks. list_all DmaIssueDelayOp_verify (opsOf block)"
  shows "sorted (map eventKey (events out)) \<and>
    int (length (filter (\<lambda>e. event_kind e = OpIssued) (events out))) = issuedOps out \<and>
    map event_cycle (filter (\<lambda>e. event_kind e = WaveCompleted) (events out)) = [totalCycles out] \<and>
    (\<forall>e\<in>set (events out). event_kind e \<noteq> CounterDrained \<or> completePendingLdsDmaCounters config \<longrightarrow>
      event_cycle e \<le> totalCycles out) \<and>
    (completePendingLdsDmaCounters config \<longrightarrow> event_kind (last (events out)) = WaveCompleted)"
proof -
  let ?ctx = "(env, prog, arch, config)"
  obtain t where t: "foldR (runBlock ?ctx) blocks
      (init_timeline arch config (recordTimeline config)) = Inr t" "out = finish_timeline config t"
    using func_run [OF assms(1,2)] by blast
  have ok: "tlOk t"
    by (rule foldR_invariant [OF t(1)]) (use assms(4) tlOk_run(2) tlOk_init in blast)+
  have rec: "tl_record t" using blocks_record [OF t(1)] assms(3) by (simp add: init_timeline_def)
  let ?es = "events (tl_result t)"
  define fin where "fin = \<lparr>event_cycle = getCompleteCycle config t, event_kind = WaveCompleted,
    event_op = None, event_fu = NoFunctionalUnit, event_counter = MemoryCounterNone, event_wave = 0,
    event_simd = 0\<rparr>"
  have out: "events out = sort_key eventKey (?es @ [fin])" "issuedOps out = issued t"
    "totalCycles out = getCompleteCycle config t"
    using rec by (simp_all add: t(2) finish_timeline_def Let_def record_event_def fin_def
        sortEvents_def getCompleteCycle_def)
  have es: "list_all (eventIn t) ?es" "issued t = int (issueEvents ?es)"
    using ok rec by (simp_all add: tlOk_def)
  have kinds: "filter (\<lambda>e. event_kind e = WaveCompleted) ?es = []"
    using es(1) by (auto simp: filter_empty_conv list_all_iff eventIn_def)
  have "mset (filter (\<lambda>e. event_kind e = OpIssued) (events out)) =
      mset (filter (\<lambda>e. event_kind e = OpIssued) ?es)"
    by (simp add: out(1) fin_def)
  then have issue: "length (filter (\<lambda>e. event_kind e = OpIssued) (events out)) = issueEvents ?es"
    unfolding issueEvents_def by (rule mset_eq_length)
  have "mset (filter (\<lambda>e. event_kind e = WaveCompleted) (events out)) = {#fin#}"
    by (simp add: out(1) kinds [THEN arg_cong [where f = mset], simplified]) (simp add: fin_def)
  then have complete: "filter (\<lambda>e. event_kind e = WaveCompleted) (events out) = [fin]"
    by (simp only: mset_single_iff)
  have bound: "event_cycle e \<le> getCompleteCycle config t"
    if "e \<in> set (events out)" "event_kind e \<noteq> CounterDrained \<or> completePendingLdsDmaCounters config" for e
  proof (cases "e = fin")
    case False
    with that(1) es(1) have "eventIn t e" by (auto simp: out(1) list_all_iff)
    with that(2) show ?thesis
      by (auto simp: eventIn_def getCompleteCycle_def Let_def split: EventSimEventKind.splits)
  qed (simp add: fin_def)
  have last: "event_kind (last (events out)) = WaveCompleted" if "completePendingLdsDmaCounters config"
  proof -
    let ?l = "last (events out)"
    have mem: "fin \<in> set (events out)" by (simp add: out(1))
    then have ne: "events out \<noteq> []" by auto
    have srt: "sorted (map eventKey (events out))" by (simp add: out(1))
    have "sorted (map eventKey (butlast (events out) @ [?l]))" using srt ne by simp
    moreover have "fin \<in> set (butlast (events out) @ [?l])" using mem ne by simp
    ultimately have "eventKey fin \<le> eventKey ?l"
      by (auto simp only: map_append sorted_append set_append) auto
    moreover have "event_cycle ?l \<le> event_cycle fin"
      using bound [of ?l] that ne by (simp add: fin_def)
    ultimately have "WaveCompleted \<le> event_kind ?l"
      by (auto simp: eventKey_def fin_def less_eq_prod_def)
    then show ?thesis by (cases "event_kind ?l") (simp_all add: less_eq_EventSimEventKind_def)
  qed
  show ?thesis
    using issue es(2) complete bound last by (simp add: out fin_def)
qed

theorem recorded_timeline_witness:
  "\<exists>out. simulateEventTimeline_func ex_ctx [[ex_if]] = Inr out \<and>
     length (filter (\<lambda>e. event_kind e = OpIssued) (events out)) = 1 \<and>
     map event_cycle (filter (\<lambda>e. event_kind e = WaveCompleted) (events out)) = [80] \<and>
     event_kind (last (events out)) = WaveCompleted"
proof -
  obtain out where out: "simulateEventTimeline_func ex_ctx [[ex_if]] = Inr out"
    "issuedOps out = 1" "totalCycles out = 80" using ex_if_sim by blast
  have "list_all DmaIssueDelayOp_verify (opsOf [ex_if])"
    by (simp add: ex_if_def ex_yield_def ex_load_def plainOp_def DmaIssueDelayOp_verify_def)
  with recorded_timeline [OF out(1) [unfolded ex_ctx_def]] out show ?thesis
    by (simp add: ex_sim_config_def)
qed


text \<open>Loop-carried values are bound one after the other. When no carried value is an argument
  that was bound before it, the binding is the parallel one: every argument is ready when its value
  was, and not before the current cycle. A loop that exchanges two carried values loses the
  readiness of the first: both arguments are then ready with the value bound to the first,
  although the second argument holds the value of the first.\<close>

theorem carries_bound_in_order:
  assumes "distinct targets" and "length targets = length sources"
  shows "((\<forall>j<length sources. \<forall>i<j. targets ! i \<noteq> sources ! j) \<longrightarrow>
      (\<forall>k<length targets. getValueReadyCycle (bindPairs targets sources s) (targets ! k) =
        max (currentCycle s) (getValueReadyCycle s (sources ! k)))) \<and>
    (targets = [a, b] \<and> sources = [b, a] \<longrightarrow>
      getValueReadyCycle (bindPairs targets sources s) a = max (currentCycle s) (getValueReadyCycle s b) \<and>
      getValueReadyCycle (bindPairs targets sources s) b = max (currentCycle s) (getValueReadyCycle s b))"
  using assms carries_bound_in_parallel [OF assms] by auto

theorem carries_bound_in_order_witness:
  "getValueReadyCycle (bindPairs [ex_vgpr 3, ex_vgpr 4] [ex_vgpr 2, ex_vgpr 1] ex_loaded) (ex_vgpr 4) = 80 \<and>
   getValueReadyCycle ex_loaded (ex_vgpr 2) = 84 \<and>
   getValueReadyCycle (bindPairs [ex_vgpr 2, ex_vgpr 1] [ex_vgpr 1, ex_vgpr 2] ex_loaded) (ex_vgpr 1) = 80"
proof -
  have ready: "getValueReadyCycle ex_loaded (ex_vgpr 1) = 80" "getValueReadyCycle ex_loaded (ex_vgpr 2) = 84"
    "currentCycle ex_loaded = 8"
    by (simp_all add: ex_loaded_def ex_ops getValueReadyCycle_def)
  have ne: "ex_vgpr 2 \<noteq> ex_vgpr 1" "ex_vgpr 3 \<noteq> ex_vgpr 4" "ex_vgpr 3 \<noteq> ex_vgpr 1"
    by (simp_all add: ex_vgpr_def)
  have "\<forall>k<2. getValueReadyCycle (bindPairs [ex_vgpr 3, ex_vgpr 4] [ex_vgpr 2, ex_vgpr 1] ex_loaded)
      ([ex_vgpr 3, ex_vgpr 4] ! k) =
      max 8 (getValueReadyCycle ex_loaded ([ex_vgpr 2, ex_vgpr 1] ! k))"
    using carries_bound_in_order [of "[ex_vgpr 3, ex_vgpr 4]" "[ex_vgpr 2, ex_vgpr 1]" ex_loaded
        "ex_vgpr 3" "ex_vgpr 4"] ne ready(3)
    by (simp add: less_Suc_eq numeral_2_eq_2 del: bindPairs_simps)
  from this [rule_format, of 1] have "getValueReadyCycle (bindPairs [ex_vgpr 3, ex_vgpr 4]
      [ex_vgpr 2, ex_vgpr 1] ex_loaded) (ex_vgpr 4) = 80"
    using ready by (simp del: bindPairs_simps)
  moreover have "getValueReadyCycle (bindPairs [ex_vgpr 2, ex_vgpr 1] [ex_vgpr 1, ex_vgpr 2] ex_loaded)
      (ex_vgpr 1) = 80"
    using carries_bound_in_order [of "[ex_vgpr 2, ex_vgpr 1]" "[ex_vgpr 1, ex_vgpr 2]" ex_loaded
        "ex_vgpr 2" "ex_vgpr 1"] ne ready
    by (simp del: bindPairs_simps)
  ultimately show ?thesis using ready(2) by simp
qed

text \<open>The result of a divergent branch with two sides is ready with the value the second side
  yields. The value of the first side does not count, although its lanes come from it and it may
  be ready later.
\<close>

theorem exec_if_result_ready:
  assumes "runOp ctx (ExecIf op thn els) s = Inr t" and "els \<noteq> []" and "getYield els = Some yield"
    and "op_results op = [res]" and "op_operands yield = [v]"
  shows "\<exists>s1 s2. runBlock ctx thn s = Inr s1 \<and>
    runBlock ctx els (bindYieldResults [res] thn s1) = Inr s2 \<and>
    getValueReadyCycle (tl_wave t) res =
      max (currentCycle (tl_wave s2)) (getValueReadyCycle (tl_wave s2) v)"
proof -
  from assms(1,2) obtain s1 s2 where "runBlock ctx thn s = Inr s1"
    "runBlock ctx els (bindYieldResults (op_results op) thn s1) = Inr s2"
    and t: "t = bindYieldResults (op_results op) els s2"
    by (auto simp: bindR_eq_Inr Let_def)
  moreover have "getValueReadyCycle (tl_wave t) res =
      max (currentCycle (tl_wave s2)) (getValueReadyCycle (tl_wave s2) v)"
    by (simp add: t bindYieldResults_def assms(3-5))
  ultimately show ?thesis using assms(4) by auto
qed

theorem exec_if_result_ready_witness:
  "\<exists>t. \<exists>s2 :: timeline_state. runOp ex_ctx ex_exec ex_timeline = Inr t \<and>
     getValueReadyCycle (tl_wave t) (ex_vgpr 9) =
       max (currentCycle (tl_wave s2)) (getValueReadyCycle (tl_wave s2) (ex_vgpr 1)) \<and>
     getValueReadyCycle (tl_wave t) (ex_vgpr 9) = 4 \<and> getValueReadyCycle (tl_wave t) (ex_vgpr 5) = 80"
proof -
  obtain t where t: "runOp ex_ctx ex_exec ex_timeline = Inr t"
    "getValueReadyCycle (tl_wave t) (ex_vgpr 5) = 80" "getValueReadyCycle (tl_wave t) (ex_vgpr 9) = 4"
    using ex_exec_run by blast
  have yield: "getYield [ex_yield 1] = Some (plainOp (NamedOp ''YieldOp'') [NoMachineInst] [ex_vgpr 1] [])"
    by (simp add: getYield_def ex_yield_def plainOp_def isaOp_def)
  obtain s2 :: timeline_state where "getValueReadyCycle (tl_wave t) (ex_vgpr 9) =
      max (currentCycle (tl_wave s2)) (getValueReadyCycle (tl_wave s2) (ex_vgpr 1))"
    using exec_if_result_ready [OF t(1) [unfolded ex_exec_def] _ yield, of "ex_vgpr 9" "ex_vgpr 1"]
    by (auto simp: plainOp_def)
  with t show ?thesis by blast
qed

end
