(* ===== verification/Reg_State.thy ===== *)
theory Reg_State
  imports Prelude Machine_IR "HOL-Library.Product_Lexorder"
begin

text \<open>
  The data of the register allocator and the operations on live ranges that every part of it
  shares: \<^verbatim>\<open>RegAlloc/WaveAMDRegAllocTransformState.h\<close> (values, alias sets, assignments,
  budgets), the interval tests of \<^verbatim>\<open>WaveAMDRegAllocTransformUtils.h\<close> and
  \<^verbatim>\<open>WaveAMDRegAllocTransformLoop.cpp\<close>, and the two routines that build interval lists:
  \<^verbatim>\<open>addLiveRange\<close> (insertion of one use) and
  \<^verbatim>\<open>collectRegAllocTransformAliasSetLiveRanges\<close> (union over the members of a set).
  Intervals are closed: both end positions belong to the range. \<open>live_in\<close> reads a list of
  ranges as the set of positions it covers, the reference of all the interval lemmas.
  \<^verbatim>\<open>unsigned\<close> values are \<open>nat\<close>; \<open>trunc_u32\<close> is written where an unsigned operation of
  the code may wrap.
\<close>

subsection \<open>Data\<close>

record live_range =
  lr_start :: nat
  lr_end :: nat

datatype value_kind = BlockArgument | OpResult

record ra_value =
  rv_path :: "int list"
  rv_ranges :: "live_range list"
  rv_regClass :: RegClass
  rv_kind :: value_kind
  rv_fixed :: "nat option"
  rv_id :: nat
  rv_set :: nat
  rv_start :: nat
  rv_end :: nat
  rv_width :: nat
  rv_offset :: nat
  rv_number :: nat

record alias_value =
  av_path :: "int list"
  av_ranges :: "live_range list"
  av_type :: value_type
  av_id :: nat
  av_start :: nat
  av_end :: nat
  av_aliasSet :: nat
  av_number :: nat
  av_offset :: int
  av_blockArgument :: bool

record alias_set =
  as_members :: "nat list"
  as_ranges :: "live_range list"
  as_regClass :: RegClass
  as_id :: nat
  as_start :: nat
  as_end :: nat
  as_width :: nat

record assignment =
  ra_regClass :: RegClass
  ra_set :: nat
  ra_base :: nat
  ra_width :: nat
  ra_start :: nat
  ra_end :: nat

record budget =
  bu_limit :: nat
  bu_mode :: string

definition UINT_MAX :: nat where
  "UINT_MAX = 4294967295"

fun getRegClassIndex :: "RegClass \<Rightarrow> nat" where
  "getRegClassIndex SGPR = 0"
| "getRegClassIndex VGPR = 1"
| "getRegClassIndex AGPR = 2"
| "getRegClassIndex SCC = 3"
| "getRegClassIndex VCC = 4"

definition isVGPRFamilyClass :: "RegClass \<Rightarrow> bool" where
  "isVGPRFamilyClass regClass \<longleftrightarrow> regClass = VGPR \<or> regClass = AGPR"

text \<open>\<^verbatim>\<open>llvm::alignTo\<close>: the least multiple of the alignment that is not below the value.\<close>

definition alignTo :: "nat \<Rightarrow> nat \<Rightarrow> nat" where
  "alignTo value align = (value + align - 1) div align * align"

definition getCombinedVGPRFamilyPressure :: "nat \<Rightarrow> nat \<Rightarrow> nat" where
  "getCombinedVGPRFamilyPressure agprFootprint vgprFootprint =
     trunc_u32 (agprFootprint + alignTo vgprFootprint 4)"

subsection \<open>Interval tests\<close>

definition liveRangesOverlap :: "live_range \<Rightarrow> live_range \<Rightarrow> bool" where
  "liveRangesOverlap lhs rhs \<longleftrightarrow> lr_start lhs \<le> lr_end rhs \<and> lr_start rhs \<le> lr_end lhs"

fun liveRangeListsOverlap :: "live_range list \<Rightarrow> live_range list \<Rightarrow> bool" where
  "liveRangeListsOverlap (l # ls) (r # rs) =
     (if liveRangesOverlap l r then True
      else if lr_end l < lr_start r then liveRangeListsOverlap ls (r # rs)
      else liveRangeListsOverlap (l # ls) rs)"
| "liveRangeListsOverlap _ _ = False"

text \<open>
  \<^verbatim>\<open>llvm::lower_bound\<close> with the comparison \<^verbatim>\<open>range.end < position\<close>: the suffix that starts at
  the first range whose end is not below the position.
\<close>

definition lowerBoundEnd :: "live_range list \<Rightarrow> nat \<Rightarrow> live_range list" where
  "lowerBoundEnd ranges position = dropWhile (\<lambda>r. lr_end r < position) ranges"

definition liveRangesContainPosition :: "live_range list \<Rightarrow> nat \<Rightarrow> bool" where
  "liveRangesContainPosition ranges position =
     (case lowerBoundEnd ranges position of [] \<Rightarrow> False | r # _ \<Rightarrow> lr_start r \<le> position)"

definition liveRangesOverlapRange :: "live_range list \<Rightarrow> nat \<Rightarrow> nat \<Rightarrow> bool" where
  "liveRangesOverlapRange ranges lo hi =
     (case lowerBoundEnd ranges lo of [] \<Rightarrow> False | r # _ \<Rightarrow> lr_start r \<le> hi)"

definition valueRangeEndsAt :: "ra_value \<Rightarrow> nat \<Rightarrow> bool" where
  "valueRangeEndsAt v position = list_ex (\<lambda>r. lr_end r = position) (rv_ranges v)"

definition assignedRangesOverlap :: "assignment \<Rightarrow> nat \<Rightarrow> nat \<Rightarrow> bool" where
  "assignedRangesOverlap a base width \<longleftrightarrow>
     base < ra_base a + ra_width a \<and> ra_base a < base + width"

definition registerRangeFits :: "nat \<Rightarrow> nat \<Rightarrow> nat \<Rightarrow> bool" where
  "registerRangeFits base width limit \<longleftrightarrow> base \<le> limit \<and> width \<le> limit - base"

lemma registerRangeFits_iff [simp]:
  "registerRangeFits base width limit \<longleftrightarrow> base + width \<le> limit"
  by (auto simp: registerRangeFits_def)

subsection \<open>Building interval lists\<close>

text \<open>
  \<^verbatim>\<open>addLiveRange\<close>: the range that reaches into the new one is widened and swallows the ranges
  that follow it as long as they start inside; when no range reaches into the new one it is
  inserted before the first later range. \<open>rangeCount\<close> is the member \<^verbatim>\<open>valueRangeCount\<close> of the
  builder, which counts the ranges of all values.
\<close>

fun absorbFollowing :: "live_range \<Rightarrow> live_range list \<Rightarrow> nat \<Rightarrow> live_range list \<times> nat" where
  "absorbFollowing r [] rangeCount = ([r], rangeCount)"
| "absorbFollowing r (n # ns) rangeCount =
     (if lr_start n \<le> lr_end r
      then absorbFollowing (r\<lparr>lr_end := max (lr_end r) (lr_end n)\<rparr>) ns (rangeCount - 1)
      else (r # n # ns, rangeCount))"

definition insertLiveRange ::
    "live_range list \<Rightarrow> nat \<Rightarrow> nat \<Rightarrow> nat \<Rightarrow> live_range list \<times> nat" where
  "insertLiveRange ranges lo hi rangeCount =
     (let before = takeWhile (\<lambda>r. lr_end r < lo) ranges
      in case lowerBoundEnd ranges lo of
           [] \<Rightarrow> (before @ [\<lparr>lr_start = lo, lr_end = hi\<rparr>], rangeCount + 1)
         | r # rs \<Rightarrow>
             if lr_start r > hi
             then (before @ \<lparr>lr_start = lo, lr_end = hi\<rparr> # r # rs, rangeCount + 1)
             else (let (widened, rangeCount') = absorbFollowing
                         \<lparr>lr_start = min (lr_start r) lo, lr_end = max (lr_end r) hi\<rparr> rs rangeCount
                   in (before @ widened, rangeCount')))"

definition addLiveRange :: "alias_value \<Rightarrow> nat \<Rightarrow> nat \<Rightarrow> nat \<Rightarrow> alias_value \<times> nat" where
  "addLiveRange record lo hi rangeCount =
     (let record' = record\<lparr>av_start := min (av_start record) lo, av_end := max (av_end record) hi\<rparr>;
          (ranges, rangeCount') = insertLiveRange (av_ranges record') lo hi rangeCount
      in (record'\<lparr>av_ranges := ranges\<rparr>, rangeCount'))"

definition mergeRange :: "live_range \<Rightarrow> live_range list \<Rightarrow> live_range list" where
  "mergeRange r merged =
     (if merged \<noteq> [] \<and> lr_start r \<le> lr_end (last merged)
      then butlast merged @
             [(last merged)\<lparr>lr_end := max (lr_end (last merged)) (lr_end r)\<rparr>]
      else merged @ [r])"

definition lessLiveRange_key :: "live_range \<Rightarrow> nat \<times> nat" where
  "lessLiveRange_key r = (lr_start r, lr_end r)"

definition mergeLiveRanges :: "live_range list \<Rightarrow> live_range list" where
  "mergeLiveRanges ranges = fold mergeRange (sort_key lessLiveRange_key ranges) []"

definition collectRegAllocTransformAliasSetLiveRanges ::
    "alias_set \<Rightarrow> ra_value list \<Rightarrow> alias_set" where
  "collectRegAllocTransformAliasSetLiveRanges s values =
     s\<lparr>as_ranges := mergeLiveRanges
         (as_ranges s @ concat (map (\<lambda>v. rv_ranges (values ! v)) (as_members s)))\<rparr>"

text \<open>
  One alias set as the decoders of the state build it: the envelope is the least start and the
  greatest end of the members, and the ranges are the merged ranges of the members.
\<close>

definition decodeAliasSet ::
    "ra_value list \<Rightarrow> RegClass \<Rightarrow> nat \<Rightarrow> nat \<Rightarrow> nat list \<Rightarrow> alias_set" where
  "decodeAliasSet values regClass setId width members =
     collectRegAllocTransformAliasSetLiveRanges
       \<lparr>as_members = members, as_ranges = [], as_regClass = regClass, as_id = setId,
        as_start = fold (\<lambda>v start. min start (rv_start (values ! v))) members UINT_MAX,
        as_end = fold (\<lambda>v finish. max finish (rv_end (values ! v))) members 0,
        as_width = width\<rparr> values"

definition aliasSetLess_key :: "alias_set \<Rightarrow> nat \<times> nat" where
  "aliasSetLess_key s = (as_start s, as_id s)"

definition sortAliasSets :: "alias_set list \<Rightarrow> alias_set list" where
  "sortAliasSets ss = sort_key aliasSetLess_key ss"

subsection \<open>Positions covered by a list of ranges\<close>

definition live_in :: "live_range list \<Rightarrow> nat \<Rightarrow> bool" where
  "live_in rs p \<longleftrightarrow> (\<exists>r\<in>set rs. lr_start r \<le> p \<and> p \<le> lr_end r)"

fun ordered_ranges :: "live_range list \<Rightarrow> bool" where
  "ordered_ranges [] = True"
| "ordered_ranges (r # rs) \<longleftrightarrow>
     lr_start r \<le> lr_end r \<and> (\<forall>s\<in>set rs. lr_end r < lr_start s) \<and> ordered_ranges rs"

lemma live_in_simps [simp]:
  "\<not> live_in [] p"
  "live_in (r # rs) p \<longleftrightarrow> (lr_start r \<le> p \<and> p \<le> lr_end r) \<or> live_in rs p"
  "live_in (rs @ ss) p \<longleftrightarrow> live_in rs p \<or> live_in ss p"
  by (auto simp: live_in_def)

lemma ordered_nonempty: "ordered_ranges rs \<Longrightarrow> r \<in> set rs \<Longrightarrow> lr_start r \<le> lr_end r"
  by (induction rs) auto

lemma ordered_append:
  "ordered_ranges (rs @ ss) \<longleftrightarrow>
     ordered_ranges rs \<and> ordered_ranges ss \<and>
     (\<forall>r\<in>set rs. \<forall>s\<in>set ss. lr_end r < lr_start s)"
  by (induction rs) auto

lemma ordered_live_ge:
  "ordered_ranges (r # rs) \<Longrightarrow> live_in (r # rs) p \<Longrightarrow> lr_start r \<le> p"
  by (auto simp: live_in_def)

lemma live_in_lowerBound:
  "ordered_ranges rs \<Longrightarrow> q \<le> p \<Longrightarrow> live_in (lowerBoundEnd rs q) p = live_in rs p"
  by (induction rs) (auto simp: lowerBoundEnd_def live_in_def)

lemma lowerBound_ordered: "ordered_ranges rs \<Longrightarrow> ordered_ranges (lowerBoundEnd rs q)"
  by (induction rs) (auto simp: lowerBoundEnd_def)

lemma lowerBound_head: "lowerBoundEnd rs q = r # rest \<Longrightarrow> q \<le> lr_end r"
  unfolding lowerBoundEnd_def by (metis dropWhile_eq_Cons_conv leI)

lemma overlapRange_iff:
  assumes "ordered_ranges rs" and "a \<le> b"
  shows "liveRangesOverlapRange rs a b \<longleftrightarrow> (\<exists>p. a \<le> p \<and> p \<le> b \<and> live_in rs p)"
proof (cases "lowerBoundEnd rs a")
  case Nil
  then have "\<not> live_in rs p" if "a \<le> p" for p
    using live_in_lowerBound [OF assms(1) that] by simp
  then show ?thesis using Nil by (auto simp: liveRangesOverlapRange_def)
next
  case (Cons r rest)
  have r: "a \<le> lr_end r" by (rule lowerBound_head [OF Cons])
  have ord: "ordered_ranges (r # rest)"
    using lowerBound_ordered [OF assms(1), of a] Cons by simp
  have "lr_start r \<le> b \<longleftrightarrow> (\<exists>p. a \<le> p \<and> p \<le> b \<and> live_in (r # rest) p)"
  proof
    assume "lr_start r \<le> b"
    then show "\<exists>p. a \<le> p \<and> p \<le> b \<and> live_in (r # rest) p"
      using r ord assms(2) by (intro exI [of _ "max a (lr_start r)"]) (auto simp: max_def)
  next
    assume "\<exists>p. a \<le> p \<and> p \<le> b \<and> live_in (r # rest) p"
    then show "lr_start r \<le> b" using ordered_live_ge [OF ord] le_trans by blast
  qed
  moreover have "live_in (r # rest) p = live_in rs p" if "a \<le> p" for p
    using live_in_lowerBound [OF assms(1) that] Cons by simp
  ultimately show ?thesis
    using Cons by (simp add: liveRangesOverlapRange_def del: live_in_simps) blast
qed

lemma containPosition_iff:
  "ordered_ranges rs \<Longrightarrow> liveRangesContainPosition rs p \<longleftrightarrow> live_in rs p"
  using overlapRange_iff [of rs p p] le_antisym [of _ p]
  by (auto simp: liveRangesContainPosition_def liveRangesOverlapRange_def)

lemma overlap_iff:
  "lr_start l \<le> lr_end l \<Longrightarrow> lr_start r \<le> lr_end r \<Longrightarrow>
   liveRangesOverlap l r \<longleftrightarrow>
     (\<exists>p. lr_start l \<le> p \<and> p \<le> lr_end l \<and> lr_start r \<le> p \<and> p \<le> lr_end r)"
  unfolding liveRangesOverlap_def
  by (metis le_cases order_trans)

lemma listsOverlap_iff:
  "ordered_ranges ls \<Longrightarrow> ordered_ranges rs \<Longrightarrow>
   liveRangeListsOverlap ls rs \<longleftrightarrow> (\<exists>p. live_in ls p \<and> live_in rs p)"
proof (induction ls rs rule: liveRangeListsOverlap.induct)
  case (1 l ls r rs)
  consider (overlap) "liveRangesOverlap l r"
    | (left) "\<not> liveRangesOverlap l r" "lr_end l < lr_start r"
    | (right) "\<not> liveRangesOverlap l r" "lr_end r < lr_start l"
    unfolding liveRangesOverlap_def by linarith
  then show ?case
  proof cases
    case overlap
    then show ?thesis
      using overlap_iff [of l r] "1.prems" by auto
  next
    case left
    then have "\<not> (lr_start l \<le> p \<and> p \<le> lr_end l)" if "live_in (r # rs) p" for p
      using ordered_live_ge [OF "1.prems"(2) that] by auto
    then show ?thesis using left "1.IH"(1) "1.prems" by auto
  next
    case right
    then have "\<not> (lr_start r \<le> p \<and> p \<le> lr_end r)" if "live_in (l # ls) p" for p
      using ordered_live_ge [OF "1.prems"(1) that] by auto
    moreover have "\<not> lr_end l < lr_start r"
      using right "1.prems" by auto
    ultimately show ?thesis using right "1.IH"(2) "1.prems" by auto
  qed
qed auto

subsection \<open>Insertion of a range\<close>

lemma absorb_live:
  "lr_start r \<le> lr_end r \<Longrightarrow> ordered_ranges ns \<Longrightarrow> (\<forall>n\<in>set ns. lr_start r \<le> lr_start n) \<Longrightarrow>
   live_in (fst (absorbFollowing r ns rangeCount)) p \<longleftrightarrow> live_in (r # ns) p"
proof (induction ns arbitrary: r rangeCount)
  case (Cons n ns)
  show ?case
  proof (cases "lr_start n \<le> lr_end r")
    case True
    have "live_in (fst (absorbFollowing (r\<lparr>lr_end := max (lr_end r) (lr_end n)\<rparr>) ns (rangeCount - 1))) p
            \<longleftrightarrow> live_in (r\<lparr>lr_end := max (lr_end r) (lr_end n)\<rparr> # ns) p"
      using Cons.prems by (intro Cons.IH) auto
    then show ?thesis using True Cons.prems by (auto simp: max_def)
  qed simp
qed simp

lemma absorb_ordered:
  "lr_start r \<le> lr_end r \<Longrightarrow> ordered_ranges ns \<Longrightarrow> (\<forall>n\<in>set ns. lr_start r \<le> lr_start n) \<Longrightarrow>
   ordered_ranges (fst (absorbFollowing r ns rangeCount)) \<and>
   (\<forall>s\<in>set (fst (absorbFollowing r ns rangeCount)). lr_start r \<le> lr_start s)"
proof (induction ns arbitrary: r rangeCount)
  case (Cons n ns)
  show ?case
  proof (cases "lr_start n \<le> lr_end r")
    case True
    then show ?thesis
      using Cons.prems Cons.IH [of "r\<lparr>lr_end := max (lr_end r) (lr_end n)\<rparr>" "rangeCount - 1"] by auto
  next
    case False
    then have "lr_end r < lr_start m" if "m \<in> set (n # ns)" for m
      using Cons.prems that by fastforce
    then show ?thesis using False Cons.prems by auto
  qed
qed simp

lemma lowerBound_split:
  "takeWhile (\<lambda>r. lr_end r < lo) rs @ lowerBoundEnd rs lo = rs"
  by (simp add: lowerBoundEnd_def)

lemma absorb_count:
  "length ns \<le> rangeCount \<Longrightarrow>
   snd (absorbFollowing r ns rangeCount) + length (r # ns) = rangeCount + length (fst (absorbFollowing r ns rangeCount))"
proof (induction ns arbitrary: r rangeCount)
  case (Cons n ns)
  then show ?case
    using Cons.IH [of "rangeCount - 1" "r\<lparr>lr_end := max (lr_end r) (lr_end n)\<rparr>"] by auto
qed simp

lemma insertLiveRange_count:
  assumes "length rs \<le> rangeCount"
  shows "snd (insertLiveRange rs lo hi rangeCount) + length rs =
    rangeCount + length (fst (insertLiveRange rs lo hi rangeCount))"
proof -
  define before where "before = takeWhile (\<lambda>r. lr_end r < lo) rs"
  have n: "length rs = length before + length (lowerBoundEnd rs lo)"
    using lowerBound_split [of lo rs] before_def by (metis length_append)
  then show ?thesis
    using assms absorb_count [of "tl (lowerBoundEnd rs lo)" rangeCount]
    by (auto simp: insertLiveRange_def Let_def split_beta before_def [symmetric] split: list.split)
qed

lemma insertLiveRange_live:
  assumes "ordered_ranges rs" and "lo \<le> hi"
  shows "live_in (fst (insertLiveRange rs lo hi rangeCount)) p \<longleftrightarrow> live_in rs p \<or> (lo \<le> p \<and> p \<le> hi)"
proof -
  define before where "before = takeWhile (\<lambda>r. lr_end r < lo) rs"
  have split: "live_in rs p \<longleftrightarrow> live_in before p \<or> live_in (lowerBoundEnd rs lo) p"
    using lowerBound_split [of lo rs] live_in_simps(3) before_def by metis
  show ?thesis
  proof (cases "lowerBoundEnd rs lo")
    case Nil
    then show ?thesis using split by (auto simp: insertLiveRange_def Let_def split_beta before_def [symmetric])
  next
    case (Cons r rest)
    have ord: "ordered_ranges (r # rest)" and r: "lo \<le> lr_end r"
      using lowerBound_ordered [OF assms(1), of lo] lowerBound_head [OF Cons] Cons by auto
    let ?w = "\<lparr>lr_start = min (lr_start r) lo, lr_end = max (lr_end r) hi\<rparr>"
    have "live_in (fst (absorbFollowing ?w rest rangeCount)) p \<longleftrightarrow> live_in (?w # rest) p"
      using ord by (intro absorb_live) fastforce+
    moreover have "lr_start ?w \<le> p \<and> p \<le> lr_end ?w \<longleftrightarrow>
        (lr_start r \<le> p \<and> p \<le> lr_end r) \<or> (lo \<le> p \<and> p \<le> hi)" if "lr_start r \<le> hi"
      using that r ord assms(2) by (auto simp: min_def max_def)
    ultimately show ?thesis
      using split Cons by (auto simp: insertLiveRange_def Let_def split_beta before_def [symmetric])
  qed
qed

lemma insertLiveRange_ordered:
  assumes "ordered_ranges rs" and "lo \<le> hi"
  shows "ordered_ranges (fst (insertLiveRange rs lo hi rangeCount))"
proof -
  define before where "before = takeWhile (\<lambda>r. lr_end r < lo) rs"
  have b: "ordered_ranges (before @ lowerBoundEnd rs lo)"
    using lowerBound_split [of lo rs] assms(1) before_def by metis
  have below: "\<forall>r\<in>set before. lr_end r < lo"
    unfolding before_def by (auto dest: set_takeWhileD)
  show ?thesis
  proof (cases "lowerBoundEnd rs lo")
    case Nil
    then show ?thesis
      using b below assms(2) by (auto simp: insertLiveRange_def Let_def split_beta before_def [symmetric] ordered_append)
  next
    case (Cons r rest)
    let ?w = "\<lparr>lr_start = min (lr_start r) lo, lr_end = max (lr_end r) hi\<rparr>"
    have ord: "ordered_ranges (r # rest)" and r: "lo \<le> lr_end r"
      using lowerBound_ordered [OF assms(1), of lo] lowerBound_head [OF Cons] Cons by auto
    have w: "ordered_ranges (fst (absorbFollowing ?w rest rangeCount)) \<and>
        (\<forall>s\<in>set (fst (absorbFollowing ?w rest rangeCount)). lr_start ?w \<le> lr_start s)"
      using ord by (intro absorb_ordered) fastforce+
    have sep: "lr_end q < lr_start ?w" if "q \<in> set before" for q
      using that below b Cons by (auto simp: ordered_append)
    have "lr_end q < lr_start s"
      if "q \<in> set before" "s \<in> set (fst (absorbFollowing ?w rest rangeCount))" for q s
      using sep [OF that(1)] w that(2) by fastforce
    then show ?thesis
      using w b below ord Cons assms(2)
      by (auto simp: insertLiveRange_def Let_def split_beta before_def [symmetric] ordered_append)
  qed
qed

text \<open>
  \<open>alias_value_ok\<close>: the ranges are ordered and disjoint, and start and end of the record are the
  first and the last position they cover.
\<close>

definition alias_value_ok :: "alias_value \<Rightarrow> bool" where
  "alias_value_ok v \<longleftrightarrow> ordered_ranges (av_ranges v) \<and>
     live_in (av_ranges v) (av_start v) \<and> live_in (av_ranges v) (av_end v) \<and>
     (\<forall>r\<in>set (av_ranges v). av_start v \<le> lr_start r \<and> lr_end r \<le> av_end v)"

lemma ordered_bounds:
  assumes "ordered_ranges rs"
  shows "(\<forall>r\<in>set rs. a \<le> lr_start r \<and> lr_end r \<le> b) \<longleftrightarrow> (\<forall>p. live_in rs p \<longrightarrow> a \<le> p \<and> p \<le> b)"
proof
  assume "\<forall>r\<in>set rs. a \<le> lr_start r \<and> lr_end r \<le> b"
  then show "\<forall>p. live_in rs p \<longrightarrow> a \<le> p \<and> p \<le> b"
    unfolding live_in_def by (meson le_trans)
next
  assume live: "\<forall>p. live_in rs p \<longrightarrow> a \<le> p \<and> p \<le> b"
  show "\<forall>r\<in>set rs. a \<le> lr_start r \<and> lr_end r \<le> b"
  proof
    fix r assume r: "r \<in> set rs"
    then have "lr_start r \<le> lr_end r" using assms by (induction rs) auto
    then have "live_in rs (lr_start r)" "live_in rs (lr_end r)" using r by (auto simp: live_in_def)
    then show "a \<le> lr_start r \<and> lr_end r \<le> b" using live by blast
  qed
qed

lemma addLiveRange_ok:
  assumes v: "alias_value_ok v" and "lo \<le> hi"
  shows "alias_value_ok (fst (addLiveRange v lo hi rangeCount))"
    and "live_in (av_ranges (fst (addLiveRange v lo hi rangeCount))) p \<longleftrightarrow>
      live_in (av_ranges v) p \<or> (lo \<le> p \<and> p \<le> hi)"
    and "length (av_ranges v) \<le> rangeCount \<Longrightarrow>
      snd (addLiveRange v lo hi rangeCount) + length (av_ranges v) =
        rangeCount + length (av_ranges (fst (addLiveRange v lo hi rangeCount)))"
proof -
  let ?rs = "av_ranges v"
  let ?new = "fst (insertLiveRange ?rs lo hi rangeCount)"
  have o: "ordered_ranges ?rs" using v by (simp add: alias_value_ok_def)
  note new = insertLiveRange_ordered [OF o assms(2)] insertLiveRange_live [OF o assms(2)]
  have sel: "av_ranges (fst (addLiveRange v lo hi rangeCount)) = ?new"
    "av_start (fst (addLiveRange v lo hi rangeCount)) = min (av_start v) lo"
    "av_end (fst (addLiveRange v lo hi rangeCount)) = max (av_end v) hi"
    "snd (addLiveRange v lo hi rangeCount) = snd (insertLiveRange ?rs lo hi rangeCount)"
    by (simp_all add: addLiveRange_def Let_def split_beta)
  show "live_in (av_ranges (fst (addLiveRange v lo hi rangeCount))) p \<longleftrightarrow>
      live_in ?rs p \<or> (lo \<le> p \<and> p \<le> hi)"
    unfolding sel by (rule new(2))
  show "length ?rs \<le> rangeCount \<Longrightarrow> snd (addLiveRange v lo hi rangeCount) + length ?rs =
      rangeCount + length (av_ranges (fst (addLiveRange v lo hi rangeCount)))"
    unfolding sel by (rule insertLiveRange_count)
  have ends: "live_in ?rs (av_start v)" "live_in ?rs (av_end v)"
      "\<forall>p. live_in ?rs p \<longrightarrow> av_start v \<le> p \<and> p \<le> av_end v"
    using v ordered_bounds [OF o] by (simp_all add: alias_value_ok_def)
  have "live_in ?new (min (av_start v) lo)" "live_in ?new (max (av_end v) hi)"
    using ends(1,2) assms(2) by (auto simp: new(2) min_def max_def)
  moreover have "\<forall>p. live_in ?new p \<longrightarrow> min (av_start v) lo \<le> p \<and> p \<le> max (av_end v) hi"
    using ends(3) assms(2) by (auto simp: new(2) min_le_iff_disj le_max_iff_disj)
  ultimately show "alias_value_ok (fst (addLiveRange v lo hi rangeCount))"
    using new(1) ordered_bounds [OF new(1)] by (simp add: alias_value_ok_def sel)
qed

subsection \<open>Merging sorted ranges\<close>

lemma mergeRange_snoc:
  "mergeRange r (ms @ [m]) =
     (if lr_start r \<le> lr_end m then ms @ [m\<lparr>lr_end := max (lr_end m) (lr_end r)\<rparr>]
      else ms @ [m, r])"
  by (simp add: mergeRange_def)

lemma mergeRange_step:
  assumes "ordered_ranges merged" and "lr_start r \<le> lr_end r"
    and "\<forall>m\<in>set merged. lr_start m \<le> lr_start r"
  shows "ordered_ranges (mergeRange r merged)"
    and "live_in (mergeRange r merged) p \<longleftrightarrow> live_in (r # merged) p"
    and "\<forall>m\<in>set (mergeRange r merged). lr_start m \<le> lr_start r"
proof (atomize (full), cases merged rule: rev_cases)
  case Nil
  then show "ordered_ranges (mergeRange r merged) \<and>
      live_in (mergeRange r merged) p = live_in (r # merged) p \<and>
      (\<forall>m\<in>set (mergeRange r merged). lr_start m \<le> lr_start r)"
    using assms by (simp add: mergeRange_def)
next
  case (snoc ms m)
  have "lr_end a < lr_start r" if "a \<in> set ms" for a
    using that assms snoc by (fastforce simp: ordered_append)
  then show "ordered_ranges (mergeRange r merged) \<and>
      live_in (mergeRange r merged) p = live_in (r # merged) p \<and>
      (\<forall>m\<in>set (mergeRange r merged). lr_start m \<le> lr_start r)"
    using assms snoc by (auto simp: mergeRange_snoc ordered_append max_def)
qed

lemma merge_fold:
  "sorted (map lr_start rs) \<Longrightarrow> (\<forall>r\<in>set rs. lr_start r \<le> lr_end r) \<Longrightarrow> ordered_ranges merged \<Longrightarrow>
   (\<forall>m\<in>set merged. \<forall>r\<in>set rs. lr_start m \<le> lr_start r) \<Longrightarrow>
   ordered_ranges (fold mergeRange rs merged) \<and>
   (live_in (fold mergeRange rs merged) p \<longleftrightarrow> live_in (rs @ merged) p)"
proof (induction rs arbitrary: merged)
  case (Cons r rs)
  note step = mergeRange_step [OF Cons.prems(3), of r]
  have s: "ordered_ranges (mergeRange r merged)"
    "\<forall>m\<in>set (mergeRange r merged). lr_start m \<le> lr_start r"
    "live_in (mergeRange r merged) p \<longleftrightarrow> live_in (r # merged) p"
    using step Cons.prems by auto
  have "\<forall>m\<in>set (mergeRange r merged). \<forall>q\<in>set rs. lr_start m \<le> lr_start q"
    using s(2) Cons.prems(1) by fastforce
  then show ?case
    using Cons.IH [of "mergeRange r merged"] Cons.prems s by auto
qed simp

lemma sort_key_starts: "sorted (map lr_start (sort_key lessLiveRange_key rs))"
proof -
  have "sorted (map fst (map lessLiveRange_key (sort_key lessLiveRange_key rs)))"
    using sorted_sort_key [of lessLiveRange_key rs]
    by (auto simp: sorted_wrt_map less_eq_prod_def elim!: sorted_wrt_mono_rel [rotated])
  then show ?thesis by (simp add: lessLiveRange_key_def comp_def)
qed

lemma mergeLiveRanges_ordered:
  "(\<forall>r\<in>set rs. lr_start r \<le> lr_end r) \<Longrightarrow> ordered_ranges (mergeLiveRanges rs)"
  unfolding mergeLiveRanges_def using merge_fold [OF sort_key_starts, of rs "[]"] by simp

lemma mergeLiveRanges_live:
  "(\<forall>r\<in>set rs. lr_start r \<le> lr_end r) \<Longrightarrow> live_in (mergeLiveRanges rs) p \<longleftrightarrow> live_in rs p"
  unfolding mergeLiveRanges_def
  using merge_fold [OF sort_key_starts, of rs "[]" p] by (simp add: live_in_def)

end
