(* ===== verification/Reg_Target.thy ===== *)
theory Reg_Target
  imports Reg_State
begin

text \<open>
  The register file the allocator fills: the limits of the target and the legality of tuple
  bases (\<^verbatim>\<open>RegAlloc/WaveAMDRegisterLimits.{h,cpp}\<close>), the stack of saved execution masks
  that is carved out of the scalar registers (\<^verbatim>\<open>WaveAMDExecIfUtils.cpp\<close>). The numbers in
  \<open>register_limits\<close> come from LLVM's subtarget tables; they are data here.
\<close>

subsection \<open>Register limits\<close>

record register_limits =
  rl_sgprTupleLegalBases :: "(nat \<times> bool list) list"
  rl_maxSGPRsForWaves :: "nat list"
  rl_maxVGPRsForWaves :: "nat list"
  rl_addressableSGPRs :: nat
  rl_addressableVGPRs :: nat
  rl_addressableAGPRs :: nat
  rl_sgprAllocGranule :: nat
  rl_vgprAllocGranule :: nat
  rl_agprAllocGranule :: nat
  rl_vgprTupleAlignment :: nat
  rl_maxWavesPerEU :: nat
  rl_hasTargetCapabilityContract :: bool
  rl_agprCountsAgainstVGPRs :: bool

definition hasSGPRTupleLegalBases :: "register_limits \<Rightarrow> nat \<Rightarrow> bool" where
  "hasSGPRTupleLegalBases limits width \<longleftrightarrow>
     map_of (rl_sgprTupleLegalBases limits) width \<noteq> None"

definition isSGPRTupleBaseLegal :: "register_limits \<Rightarrow> nat \<Rightarrow> nat \<Rightarrow> bool" where
  "isSGPRTupleBaseLegal limits width base =
     (case map_of (rl_sgprTupleLegalBases limits) width of
        None \<Rightarrow> False
      | Some bases \<Rightarrow> base < length bases \<and> bases ! base)"

text \<open>\<^verbatim>\<open>llvm::PowerOf2Ceil\<close>: the least power of two that is not below its argument, 0 for 0.\<close>

fun powerOf2From :: "nat \<Rightarrow> nat \<Rightarrow> nat \<Rightarrow> nat" where
  "powerOf2From 0 p n = p"
| "powerOf2From (Suc fuel) p n = (if n \<le> p then p else powerOf2From fuel (2 * p) n)"

definition PowerOf2Ceil :: "nat \<Rightarrow> nat" where
  "PowerOf2Ceil n = (if n = 0 then 0 else powerOf2From 33 1 n)"

definition isWaveAMDRegisterTupleBaseLegal ::
    "register_limits \<Rightarrow> RegClass \<Rightarrow> nat \<Rightarrow> nat \<Rightarrow> bool" where
  "isWaveAMDRegisterTupleBaseLegal limits regClass width base =
     (if width \<le> 1 then True
      else if regClass = SGPR \<and> hasSGPRTupleLegalBases limits width
      then isSGPRTupleBaseLegal limits width base
      else let alignment = (if regClass = VGPR \<and> rl_vgprTupleAlignment limits \<noteq> 0
                            then rl_vgprTupleAlignment limits
                            else trunc_u32 (PowerOf2Ceil width))
           in base mod alignment = 0)"

definition getMaxWaveAMDRegisterBudgetForWaves :: "nat list \<Rightarrow> nat \<Rightarrow> nat" where
  "getMaxWaveAMDRegisterBudgetForWaves budgets targetWaves =
     (if targetWaves \<ge> length budgets then 0 else budgets ! targetWaves)"

definition getEffectiveWaveAMDRegisterBudget :: "nat \<Rightarrow> nat \<Rightarrow> nat" where
  "getEffectiveWaveAMDRegisterBudget budget reserved =
     (if budget \<le> reserved then 0 else budget - reserved)"

lemma powerOf2From_ge:
  "n \<le> 2 ^ fuel * p \<Longrightarrow> n \<le> powerOf2From fuel p n"
  by (induction fuel arbitrary: p) (auto simp: algebra_simps)

lemma powerOf2From_less:
  "p < 2 * n \<Longrightarrow> powerOf2From fuel p n < 2 * n"
  by (induction fuel arbitrary: p) auto

lemma powerOf2From_pos: "0 < p \<Longrightarrow> 0 < powerOf2From fuel p n"
  by (induction fuel arbitrary: p) auto

lemma PowerOf2Ceil_bounds:
  "0 < n \<Longrightarrow> n < 4294967296 \<Longrightarrow> n \<le> PowerOf2Ceil n \<and> PowerOf2Ceil n < 2 * n"
  unfolding PowerOf2Ceil_def
  using powerOf2From_ge [of n 33 1] powerOf2From_less [of 1 n 33] by auto

subsection \<open>Saved execution masks\<close>

text \<open>
  Operations as \<^verbatim>\<open>collectSaveStackInfo\<close> sees them: an \<^verbatim>\<open>exec_if\<close> with the number of dwords
  of its mask, or any other operation, each with the operations nested in its regions.
\<close>

datatype exec_op = ExecIf nat "exec_op list" | OtherOp "exec_op list"

record save_stack_info =
  si_maxDwords :: nat
  si_maxAlign :: nat

definition alignWaveAMDExecIfSaveSlot :: "nat \<Rightarrow> nat \<Rightarrow> nat" where
  "alignWaveAMDExecIfSaveSlot value align = (value + align - 1) div align * align"

fun collectSaveStackInfo :: "exec_op \<Rightarrow> nat \<Rightarrow> save_stack_info \<Rightarrow> save_stack_info" where
  "collectSaveStackInfo (ExecIf width nested) cursor info =
     (let saveSlot = alignWaveAMDExecIfSaveSlot cursor width;
          cursor' = saveSlot + width;
          info' = \<lparr>si_maxDwords = max (si_maxDwords info) cursor',
                   si_maxAlign = max (si_maxAlign info) width\<rparr>
      in fold (\<lambda>op i. collectSaveStackInfo op cursor' i) nested info')"
| "collectSaveStackInfo (OtherOp nested) cursor info =
     fold (\<lambda>op i. collectSaveStackInfo op cursor i) nested info"

definition getWaveAMDExecIfSaveStackInfo :: "exec_op \<Rightarrow> save_stack_info" where
  "getWaveAMDExecIfSaveStackInfo func =
     collectSaveStackInfo func 0 \<lparr>si_maxDwords = 0, si_maxAlign = 1\<rparr>"

definition getWaveAMDExecIfSaveBudgetReserve :: "exec_op \<Rightarrow> nat" where
  "getWaveAMDExecIfSaveBudgetReserve func =
     (let info = getWaveAMDExecIfSaveStackInfo func
      in if si_maxDwords info = 0 then 0 else si_maxDwords info + si_maxAlign info - 1)"

definition getWaveAMDExecIfAllocatableSGPRBudget :: "exec_op \<Rightarrow> nat \<Rightarrow> nat" where
  "getWaveAMDExecIfAllocatableSGPRBudget func sgprLimit =
     (let info = getWaveAMDExecIfSaveStackInfo func
      in if si_maxDwords info = 0 then sgprLimit
         else if sgprLimit \<le> si_maxDwords info then 0
         else (sgprLimit - si_maxDwords info) div si_maxAlign info * si_maxAlign info)"

definition getWaveAMDExecIfSaveBase :: "exec_op \<Rightarrow> nat \<Rightarrow> nat" where
  "getWaveAMDExecIfSaveBase func sgprCount =
     (let info = getWaveAMDExecIfSaveStackInfo func
      in if si_maxDwords info = 0 then sgprCount
         else if sgprCount < si_maxDwords info
         then alignWaveAMDExecIfSaveSlot sgprCount (si_maxAlign info)
         else alignWaveAMDExecIfSaveSlot (sgprCount - si_maxDwords info) (si_maxAlign info))"

definition getWaveAMDExecIfReservedSGPRCount :: "exec_op \<Rightarrow> nat \<Rightarrow> nat" where
  "getWaveAMDExecIfReservedSGPRCount func sgprCount =
     (let info = getWaveAMDExecIfSaveStackInfo func
      in if si_maxDwords info = 0 then sgprCount
         else alignWaveAMDExecIfSaveSlot sgprCount (si_maxAlign info) + si_maxDwords info)"

text \<open>The slots of the masks that one path through nested \<^verbatim>\<open>exec_if\<close> operations saves.\<close>

fun saveSlots :: "exec_op \<Rightarrow> nat \<Rightarrow> nat list \<Rightarrow> (nat \<times> nat) list" where
  "saveSlots (ExecIf width nested) cursor path =
     (let saveSlot = alignWaveAMDExecIfSaveSlot cursor width
      in (saveSlot, width) #
         (case path of [] \<Rightarrow> []
          | i # is \<Rightarrow> if i < length nested then saveSlots (nested ! i) (saveSlot + width) is else []))"
| "saveSlots (OtherOp nested) cursor path =
     (case path of [] \<Rightarrow> []
      | i # is \<Rightarrow> if i < length nested then saveSlots (nested ! i) cursor is else [])"

fun execWidthsPos :: "exec_op \<Rightarrow> bool" where
  "execWidthsPos (ExecIf width nested) \<longleftrightarrow> 0 < width \<and> (\<forall>op\<in>set nested. execWidthsPos op)"
| "execWidthsPos (OtherOp nested) \<longleftrightarrow> (\<forall>op\<in>set nested. execWidthsPos op)"

lemma alignSlot_ge: "0 < align \<Longrightarrow> value \<le> alignWaveAMDExecIfSaveSlot value align"
proof -
  assume a: "0 < align"
  have "(value + align - 1) mod align < align" using a by simp
  then show ?thesis
    using minus_mod_eq_div_mult [of "value + align - 1" align]
    unfolding alignWaveAMDExecIfSaveSlot_def by linarith
qed

lemma alignSlot_le: "0 < align \<Longrightarrow> align dvd bound \<Longrightarrow> value \<le> bound \<Longrightarrow>
    alignWaveAMDExecIfSaveSlot value align \<le> bound"
proof -
  assume a: "0 < align" "align dvd bound" "value \<le> bound"
  then obtain k where k: "bound = align * k" by auto
  have "value + align - 1 < align * (k + 1)" using a k by simp
  then have "(value + align - 1) div align \<le> k"
    using a(1) by (simp add: div_less_iff_less_mult mult.commute less_Suc_eq_le [symmetric])
  then show ?thesis using k by (simp add: alignWaveAMDExecIfSaveSlot_def mult.commute)
qed

lemma collect_mono:
  "si_maxDwords info \<le> si_maxDwords (collectSaveStackInfo op cursor info) \<and>
   si_maxAlign info \<le> si_maxAlign (collectSaveStackInfo op cursor info)"
proof (induction op cursor info rule: collectSaveStackInfo.induct)
  case (1 width nested cursor info)
  let ?c = "alignWaveAMDExecIfSaveSlot cursor width + width"
  let ?i = "\<lparr>si_maxDwords = max (si_maxDwords info) ?c, si_maxAlign = max (si_maxAlign info) width\<rparr>"
  have "si_maxDwords ?i \<le> si_maxDwords (fold (\<lambda>op i. collectSaveStackInfo op ?c i) ops ?i) \<and>
      si_maxAlign ?i \<le> si_maxAlign (fold (\<lambda>op i. collectSaveStackInfo op ?c i) ops ?i)"
    if "set ops \<subseteq> set nested" for ops
    using that "1.IH" [OF refl refl refl]
    by (induction ops rule: rev_induct) (auto intro: order_trans)
  from this [OF order_refl] show ?case by (auto simp: Let_def)
next
  case (2 nested cursor info)
  have "si_maxDwords info \<le> si_maxDwords (fold (\<lambda>op i. collectSaveStackInfo op cursor i) ops info) \<and>
      si_maxAlign info \<le> si_maxAlign (fold (\<lambda>op i. collectSaveStackInfo op cursor i) ops info)"
    if "set ops \<subseteq> set nested" for ops
    using that "2.IH" by (induction ops rule: rev_induct) (auto intro: order_trans)
  from this [OF order_refl] show ?case by simp
qed

end
