(* ===== verification/Reg_Entry.thy ===== *)
theory Reg_Entry
  imports Reg_Target
begin

text \<open>
  What the register allocator reads from the IR and from the kernel's entry convention: the
  operations that define and use payload values (\<^verbatim>\<open>WaveAMDRegAllocTransformUtils.cpp\<close>,
  the reads of hardware registers and the implicit ABI uses of
  \<^verbatim>\<open>WaveAMDRegAllocTransformLoop.cpp\<close>) and the registers that are live on entry
  (\<^verbatim>\<open>WaveAMDRegisterLimits.cpp\<close>). Values and operations are numbers; \<open>payload_ir\<close> is
  the part of the IR that is consulted. The answers of the generated op interfaces
  (\<^verbatim>\<open>KilledOperandReuseOpInterface\<close>, \<^verbatim>\<open>requiresMCTupleEncoding\<close>) and of the region
  flow analysis (is the region that holds an operation repetitive) are data of that record.
\<close>

subsection \<open>Operations and values\<close>

record payload_op =
  po_name :: string
  po_regionCount :: nat
  po_operands :: "nat list"
  po_results :: "nat list"
  po_reuse :: "(string \<Rightarrow> nat \<Rightarrow> bool) option"
  po_base :: string
  po_dwordOffset :: nat
  po_ancestors :: "(nat \<times> bool) list"
  po_nested :: "nat list"

record payload_ir =
  ir_op :: "nat \<Rightarrow> payload_op"
  ir_def :: "nat \<Rightarrow> nat option"
  ir_type :: "nat \<Rightarrow> value_type"
  ir_tupleUses :: "nat \<Rightarrow> bool list"
  ir_isa :: "string option"
  ir_positions :: "(nat \<times> nat) list"

definition getRegAllocTransformTrackedRegType :: "value_type \<Rightarrow> (RegClass \<times> int \<times> int) option" where
  "getRegAllocTransformTrackedRegType type =
     (case type of
        RegType regClass width index \<Rightarrow>
          (case regClass of SCC \<Rightarrow> None | VCC \<Rightarrow> None | _ \<Rightarrow> Some (regClass, width, index))
      | _ \<Rightarrow> None)"

fun singleTrackedFrom :: "payload_ir \<Rightarrow> bool \<Rightarrow> nat list \<Rightarrow> bool" where
  "singleTrackedFrom ir found [] = found"
| "singleTrackedFrom ir found (r # rs) =
     (if getRegAllocTransformTrackedRegType (ir_type ir r) = None then singleTrackedFrom ir found rs
      else if found then False
      else singleTrackedFrom ir True rs)"

definition hasSingleTrackedGPRResult :: "payload_ir \<Rightarrow> payload_op \<Rightarrow> bool" where
  "hasSingleTrackedGPRResult ir op = singleTrackedFrom ir False (po_results op)"

definition getKilledOperandReuseCandidate ::
    "payload_ir \<Rightarrow> nat option \<Rightarrow> (string \<Rightarrow> nat \<Rightarrow> bool) option" where
  "getKilledOperandReuseCandidate ir opId =
     (case opId of
        None \<Rightarrow> None
      | Some i \<Rightarrow>
          if po_regionCount (ir_op ir i) \<noteq> 0 then None
          else if \<not> hasSingleTrackedGPRResult ir (ir_op ir i) then None
          else po_reuse (ir_op ir i))"

definition isKilledOperandReuseCandidate :: "payload_ir \<Rightarrow> nat option \<Rightarrow> bool" where
  "isKilledOperandReuseCandidate ir opId \<longleftrightarrow> getKilledOperandReuseCandidate ir opId \<noteq> None"

definition canReuseKilledOperandForResult ::
    "(string \<Rightarrow> nat \<Rightarrow> bool) option \<Rightarrow> nat \<Rightarrow> string \<Rightarrow> bool" where
  "canReuseKilledOperandForResult reuse operand isa =
     (case reuse of None \<Rightarrow> False | Some f \<Rightarrow> f isa operand)"

definition canReuseKilledOperandOfOp :: "payload_ir \<Rightarrow> nat \<Rightarrow> nat \<Rightarrow> bool" where
  "canReuseKilledOperandOfOp ir opId operand =
     (if \<not> isKilledOperandReuseCandidate ir (Some opId) then False
      else case ir_isa ir of
        None \<Rightarrow> False
      | Some isa \<Rightarrow>
          canReuseKilledOperandForResult (getKilledOperandReuseCandidate ir (Some opId)) operand isa)"

definition requiresMCTupleEncoding :: "payload_ir \<Rightarrow> nat \<Rightarrow> bool" where
  "requiresMCTupleEncoding ir v = list_ex (\<lambda>u. u) (ir_tupleUses ir v)"

definition fixedHardwareReadNames :: "string list" where
  "fixedHardwareReadNames =
     [''SWorkgroupIdXOp'', ''SWorkgroupIdYOp'', ''SWorkgroupIdZOp'',
      ''VWorkitemIdXOp'', ''VWorkitemIdYOp'', ''VWorkitemIdZOp'']"

definition isFixedHardwareRead :: "payload_ir \<Rightarrow> nat \<Rightarrow> bool" where
  "isFixedHardwareRead ir v =
     (case ir_def ir v of
        None \<Rightarrow> False
      | Some op \<Rightarrow> List.member fixedHardwareReadNames (po_name (ir_op ir op)))"

definition areEquivalentFixedHardwareReads :: "payload_ir \<Rightarrow> nat \<Rightarrow> nat \<Rightarrow> bool" where
  "areEquivalentFixedHardwareReads ir lhs rhs =
     (if \<not> isFixedHardwareRead ir lhs \<or> \<not> isFixedHardwareRead ir rhs then False
      else if ir_type ir lhs \<noteq> ir_type ir rhs then False
      else map_option (\<lambda>op. po_name (ir_op ir op)) (ir_def ir lhs) =
           map_option (\<lambda>op. po_name (ir_op ir op)) (ir_def ir rhs))"

subsection \<open>Names of scalar registers\<close>

definition digitChar :: "nat \<Rightarrow> char" where
  "digitChar d = char_of (48 + d)"

fun showUnsigned :: "nat \<Rightarrow> string" where
  "showUnsigned n =
     (if n < 10 then [digitChar n] else showUnsigned (n div 10) @ [digitChar (n mod 10)])"

declare showUnsigned.simps [simp del]

definition getWaveAMDSGPRName :: "nat \<Rightarrow> nat \<Rightarrow> string" where
  "getWaveAMDSGPRName index width =
     (if width = 1 then ''s'' @ showUnsigned index
      else ''s['' @ showUnsigned index @ '':'' @
           showUnsigned (to_u32 (int index + int width - 1)) @ '']'')"

definition isSpaceChar :: "char \<Rightarrow> bool" where
  "isSpaceChar c \<longleftrightarrow> (of_char c :: nat) = 32 \<or> (9 \<le> (of_char c :: nat) \<and> (of_char c :: nat) \<le> 13)"

definition trimString :: "string \<Rightarrow> string" where
  "trimString s = rev (dropWhile isSpaceChar (rev (dropWhile isSpaceChar s)))"

definition consumeFront :: "char \<Rightarrow> string \<Rightarrow> string option" where
  "consumeFront c s = (case s of [] \<Rightarrow> None | d # ds \<Rightarrow> if d = c then Some ds else None)"

definition splitAt :: "char \<Rightarrow> string \<Rightarrow> string \<times> string" where
  "splitAt c s = (takeWhile (\<lambda>d. d \<noteq> c) s, drop 1 (dropWhile (\<lambda>d. d \<noteq> c) s))"

text \<open>\<^verbatim>\<open>StringRef::getAsInteger(10, unsigned &)\<close>: a non-empty string of digits in range.\<close>

definition digitValue :: "char \<Rightarrow> nat" where
  "digitValue c = of_char c - 48"

definition isDigitChar :: "char \<Rightarrow> bool" where
  "isDigitChar c \<longleftrightarrow> 48 \<le> (of_char c :: nat) \<and> (of_char c :: nat) \<le> 57"

definition decimalValue :: "string \<Rightarrow> nat" where
  "decimalValue s = fold (\<lambda>c n. 10 * n + digitValue c) s 0"

definition getAsUnsigned :: "string \<Rightarrow> nat option" where
  "getAsUnsigned s =
     (if s \<noteq> [] \<and> list_all isDigitChar s \<and> decimalValue s \<le> UINT_MAX
      then Some (decimalValue s) else None)"

definition parseSGPRSpan :: "string \<Rightarrow> (nat \<times> nat) option" where
  "parseSGPRSpan text =
     (case consumeFront CHR ''s'' (trimString text) of
        None \<Rightarrow> None
      | Some afterS \<Rightarrow>
          (case consumeFront CHR ''['' afterS of
             Some body \<Rightarrow>
               let (beginText, text1) = splitAt CHR '':'' body;
                   (endText, text2) = splitAt CHR '']'' text1
               in if beginText = [] \<or> endText = [] \<or> text2 \<noteq> [] then None
                  else (case (getAsUnsigned beginText, getAsUnsigned endText) of
                          (Some b, Some e) \<Rightarrow>
                            if e < b then None else Some (b, trunc_u32 (e - b + 1))
                        | _ \<Rightarrow> None)
           | None \<Rightarrow> map_option (\<lambda>reg. (reg, 1)) (getAsUnsigned afterS)))"

subsection \<open>Entry registers\<close>

record kernel_entry_regs =
  er_workgroupIdSGPRs :: "nat list"
  er_workitemIdVGPRs :: "nat list"
  er_userSGPRCount :: nat
  er_kernargSegmentPtrSGPR :: nat
  er_kernargSegmentPtrWidth :: nat
  er_kernargPreloadDwords :: nat
  er_kernargPreloadOffsetDwords :: nat
  er_reservedSGPRs :: nat
  er_reservedVGPRs :: nat

text \<open>
  The attributes of the function that the entry convention reads; \<open>fa_defaultPreload\<close> is
  what \<^verbatim>\<open>getWaveAMDDefaultKernargPreloadDwords\<close> computes from the subtarget and the layout of
  the kernel arguments.
\<close>

record func_attrs =
  fa_isKernel :: bool
  fa_preloadLength :: "int option"
  fa_preloadOffset :: "int option"
  fa_defaultPreload :: nat
  fa_opNames :: "string list"

definition getUnsignedIntegerAttrOr0 :: "int option \<Rightarrow> nat" where
  "getUnsignedIntegerAttrOr0 attr =
     (case attr of
        None \<Rightarrow> 0
      | Some value \<Rightarrow>
          if value \<le> 0 then 0 else if value > int UINT_MAX then UINT_MAX else nat value)"

definition noEntryRegs :: kernel_entry_regs where
  "noEntryRegs =
     \<lparr>er_workgroupIdSGPRs = [0, 0, 0], er_workitemIdVGPRs = [0, 0, 0], er_userSGPRCount = 0,
      er_kernargSegmentPtrSGPR = 0, er_kernargSegmentPtrWidth = 0, er_kernargPreloadDwords = 0,
      er_kernargPreloadOffsetDwords = 0, er_reservedSGPRs = 0, er_reservedVGPRs = 0\<rparr>"

definition getWaveAMDKernelEntryRegs :: "func_attrs \<Rightarrow> kernel_entry_regs" where
  "getWaveAMDKernelEntryRegs func =
     (if \<not> fa_isKernel func then noEntryRegs
      else
        let len = getUnsignedIntegerAttrOr0 (fa_preloadLength func);
            preload = (if len = 0 \<and> fa_preloadLength func = None \<and> fa_preloadOffset func = None
                       then fa_defaultPreload func else len);
            user = trunc_u32 (2 + preload)
        in \<lparr>er_workgroupIdSGPRs = [user, trunc_u32 (user + 1), trunc_u32 (user + 2)],
            er_workitemIdVGPRs = [0, 1, 2],
            er_userSGPRCount = user,
            er_kernargSegmentPtrSGPR = 0, er_kernargSegmentPtrWidth = 2,
            er_kernargPreloadDwords = preload,
            er_kernargPreloadOffsetDwords = getUnsignedIntegerAttrOr0 (fa_preloadOffset func),
            er_reservedSGPRs = trunc_u32 (user + 3),
            er_reservedVGPRs =
              fold (\<lambda>name n. if name = ''VWorkitemIdYOp'' then max n 2
                             else if name = ''VWorkitemIdZOp'' then max n 3 else n)
                (fa_opNames func) 1\<rparr>)"

definition getKernargPreloadBase ::
    "payload_op \<Rightarrow> RegClass \<Rightarrow> nat \<Rightarrow> kernel_entry_regs \<Rightarrow> nat option" where
  "getKernargPreloadBase op regClass width regs =
     (if regClass \<noteq> SGPR then None
      else if po_dwordOffset op < er_kernargPreloadOffsetDwords regs then None
      else let preloadOffset = po_dwordOffset op - er_kernargPreloadOffsetDwords regs
           in if preloadOffset + width > er_kernargPreloadDwords regs then None
              else Some (trunc_u32 (er_kernargSegmentPtrWidth regs + preloadOffset)))"

definition getWorkitemIdAxis :: "payload_op \<Rightarrow> nat option" where
  "getWorkitemIdAxis op =
     (if po_name op = ''VWorkitemIdXOp'' then Some 0
      else if po_name op = ''VWorkitemIdYOp'' then Some 1
      else if po_name op = ''VWorkitemIdZOp'' then Some 2
      else None)"

definition getEntryRegFixedBase ::
    "payload_ir \<Rightarrow> nat \<Rightarrow> kernel_entry_regs \<Rightarrow> nat option" where
  "getEntryRegFixedBase ir v regs =
     (case ir_def ir v of
        None \<Rightarrow> None
      | Some d \<Rightarrow>
          (case ir_type ir v of
             RegType regClass width index \<Rightarrow>
               let op = ir_op ir d
               in if regClass = VGPR \<and> getWorkitemIdAxis op \<noteq> None
                  then Some (er_workitemIdVGPRs regs ! the (getWorkitemIdAxis op))
                  else if regClass \<noteq> SGPR then None
                  else if po_name op = ''SWorkgroupIdXOp'' then Some (er_workgroupIdSGPRs regs ! 0)
                  else if po_name op = ''SWorkgroupIdYOp'' then Some (er_workgroupIdSGPRs regs ! 1)
                  else if po_name op = ''SWorkgroupIdZOp'' then Some (er_workgroupIdSGPRs regs ! 2)
                  else if po_name op = ''KernargPreloadOp''
                  then getKernargPreloadBase op regClass (nat width) regs
                  else None
           | _ \<Rightarrow> None))"

subsection \<open>Implicit uses of entry registers\<close>

definition lookupPosition :: "payload_ir \<Rightarrow> nat \<Rightarrow> nat" where
  "lookupPosition ir op = (case map_of (ir_positions ir) op of None \<Rightarrow> 0 | Some p \<Rightarrow> p)"

definition getOperationEnd :: "payload_ir \<Rightarrow> nat \<Rightarrow> nat" where
  "getOperationEnd ir op =
     fold (\<lambda>nested finish. case map_of (ir_positions ir) nested of
                             None \<Rightarrow> finish | Some p \<Rightarrow> max finish p)
       (po_nested (ir_op ir op)) (lookupPosition ir op)"

definition getImplicitABIUseEnd :: "payload_ir \<Rightarrow> nat \<Rightarrow> nat" where
  "getImplicitABIUseEnd ir op =
     fold (\<lambda>(parent, repetitive) finish.
             if repetitive then max finish (getOperationEnd ir parent) else finish)
       (po_ancestors (ir_op ir op)) (lookupPosition ir op)"

definition noteReservedLaneUse :: "nat option list \<Rightarrow> nat \<Rightarrow> nat \<Rightarrow> nat option list" where
  "noteReservedLaneUse lastUses lane position =
     (if lane \<ge> length lastUses then lastUses
      else lastUses[lane := Some (case lastUses ! lane of
                                    None \<Rightarrow> position | Some u \<Rightarrow> max u position)])"

definition noteReservedSpanUse ::
    "nat option list \<Rightarrow> nat \<Rightarrow> nat \<Rightarrow> nat \<Rightarrow> nat option list" where
  "noteReservedSpanUse lastUses first width position =
     fold (\<lambda>lane uses. noteReservedLaneUse uses lane position)
       [first ..< trunc_u32 (first + width)] lastUses"

definition getSLoadBase :: "payload_op \<Rightarrow> string option" where
  "getSLoadBase op =
     (if List.member [''SLoadB32Op'', ''SLoadB64Op'', ''SLoadB128Op''] (po_name op)
      then Some (po_base op) else None)"

definition noteImplicitSGPRABIUse ::
    "payload_ir \<Rightarrow> kernel_entry_regs \<Rightarrow> nat \<Rightarrow> nat option list \<Rightarrow> nat option list" where
  "noteImplicitSGPRABIUse ir regs opId lastUses =
     (let op = ir_op ir opId;
          base = getSLoadBase op;
          isPreload = (po_name op = ''KernargPreloadOp'')
      in if base = None \<and> \<not> isPreload then lastUses
         else
           let finish = getImplicitABIUseEnd ir opId;
               uses1 = (case base of
                          None \<Rightarrow> lastUses
                        | Some text \<Rightarrow>
                            (case parseSGPRSpan text of
                               None \<Rightarrow> lastUses
                             | Some (b, w) \<Rightarrow> noteReservedSpanUse lastUses b w finish))
           in if isPreload
              then noteReservedSpanUse uses1 (er_kernargSegmentPtrSGPR regs)
                     (er_kernargSegmentPtrWidth regs) finish
              else uses1)"

subsection \<open>Printing and parsing register names\<close>

lemma digit_simps:
  assumes "d < 10"
  shows "digitValue (digitChar d) = d" and "isDigitChar (digitChar d)"
  using assms by (simp_all add: digitValue_def digitChar_def isDigitChar_def)

lemma showUnsigned_digits:
  "list_all isDigitChar (showUnsigned n) \<and> showUnsigned n \<noteq> []"
proof (induction n rule: showUnsigned.induct)
  case (1 n)
  then show ?case by (subst (1 2) showUnsigned.simps) (auto simp: digit_simps)
qed

lemma showUnsigned_value: "decimalValue (showUnsigned n) = n"
proof (induction n rule: showUnsigned.induct)
  case (1 n)
  then show ?case
    by (subst showUnsigned.simps) (auto simp: decimalValue_def digit_simps)
qed

lemma getAsUnsigned_show: "n \<le> UINT_MAX \<Longrightarrow> getAsUnsigned (showUnsigned n) = Some n"
  by (simp add: getAsUnsigned_def showUnsigned_digits showUnsigned_value)

lemma digit_not:
  assumes "isDigitChar c"
  shows "c \<noteq> CHR '':''" "c \<noteq> CHR '']''" "c \<noteq> CHR ''[''" "\<not> isSpaceChar c"
  using assms by (auto simp: isDigitChar_def isSpaceChar_def)

lemma show_not: "c \<in> set (showUnsigned n) \<Longrightarrow> isDigitChar c"
  using showUnsigned_digits [of n] by (auto simp: list_all_iff)

lemma trim_id:
  assumes "s \<noteq> []" and "\<not> isSpaceChar (hd s)" and "\<not> isSpaceChar (last s)"
  shows "trimString s = s"
proof -
  have "dropWhile isSpaceChar s = s" using assms(1,2) by (cases s) auto
  moreover have "dropWhile isSpaceChar (rev s) = rev s"
    using assms(1,3) by (cases s rule: rev_cases) auto
  ultimately show ?thesis by (simp add: trimString_def)
qed

lemma splitAt_first:
  assumes "c \<notin> set a"
  shows "splitAt c (a @ c # b) = (a, b)"
proof -
  have "takeWhile (\<lambda>d. d \<noteq> c) (a @ c # b) = a" "dropWhile (\<lambda>d. d \<noteq> c) (a @ c # b) = c # b"
    using assms by (induction a) auto
  then show ?thesis by (simp add: splitAt_def)
qed

end
