(* ===== verification/Reg_Scan.thy ===== *)
theory Reg_Scan
  imports Reg_Entry "HOL-Library.AList"
begin

text \<open>
  The linear-scan register allocator, class \<^verbatim>\<open>RegAllocLinearScanner\<close> of
  \<^verbatim>\<open>RegAlloc/WaveAMDRegAllocTransformLoop.cpp\<close>: preparation of the decoded state
  (\<^verbatim>\<open>parseState\<close>), the active assignments, the footprints of the vector register family, the
  conflict tests, the choice of a base and the scan itself.

  Conventions. The heaps of the C++ library are lists whose head is a maximal element for the
  comparison the code passes. The marks that make a query visit an assignment once are the
  list of assignments the query has visited. The memo tables of the code
  (\<^verbatim>\<open>memberConflicts\<close>, \<^verbatim>\<open>budgetCache\<close>, \<^verbatim>\<open>killedOperandReuseIsa\<close>) only cache pure functions
  and are left out. The search for a base is a loop over unsigned numbers that does not end
  when the addition wraps before a base is found: it runs on fuel, one unit for each candidate
  base, and running out of fuel is \<open>Unreachable\<close>.
\<close>

subsection \<open>Input and prepared state\<close>

record scan_input =
  sc_values :: "ra_value list"
  sc_sets :: "alias_set list"
  sc_resolved :: "(nat \<times> nat) list"
  sc_ir :: payload_ir
  sc_budget :: "RegClass \<Rightarrow> budget"
  sc_familyBudget :: "budget option"
  sc_limits :: "register_limits option"
  sc_entry :: kernel_entry_regs

record fixed_reservations =
  fr_reservations :: "assignment list"
  fr_byClass :: "nat list list"

record scan_env = scan_input +
  se_payload :: "nat list"
  se_setIndexById :: "nat list"
  se_sparseSetIndex :: "(nat \<times> nat) list"
  se_fixedBases :: "nat option list"
  se_fixedReads :: "(nat \<times> nat) list"
  se_reservations :: fixed_reservations

record scan_failure =
  sf_overlaps :: "assignment list"
  sf_regClass :: RegClass
  sf_className :: string
  sf_reason :: string
  sf_budgetMode :: string
  sf_set :: nat
  sf_position :: nat
  sf_pressure :: nat
  sf_limit :: nat
  sf_request :: nat

subsection \<open>The index of the alias sets\<close>

fun fillSetIndex :: "nat \<Rightarrow> alias_set list \<Rightarrow> nat list \<Rightarrow> nat list result" where
  "fillSetIndex index [] entries = Inr entries"
| "fillSetIndex index (s # ss) entries =
     (if entries ! as_id s \<noteq> UINT_MAX then Inl Failure
      else fillSetIndex (index + 1) ss (entries[as_id s := index]))"

fun fillSparseSetIndex ::
    "nat \<Rightarrow> alias_set list \<Rightarrow> (nat \<times> nat) list \<Rightarrow> (nat \<times> nat) list result" where
  "fillSparseSetIndex index [] entries = Inr entries"
| "fillSparseSetIndex index (s # ss) entries =
     (if map_of entries (as_id s) \<noteq> None then Inl Failure
      else fillSparseSetIndex (index + 1) ss ((as_id s, index) # entries))"

definition buildSetIndex :: "alias_set list \<Rightarrow> (nat list \<times> (nat \<times> nat) list) result" where
  "buildSetIndex sets =
     (if sets = [] then Inr ([], [])
      else let maxSetId = fold (\<lambda>s m. max m (as_id s)) sets 0
           in if maxSetId \<le> 4 * length sets
              then bindR (fillSetIndex 0 sets (replicate (maxSetId + 1) UINT_MAX))
                     (\<lambda>entries. Inr (entries, []))
              else bindR (fillSparseSetIndex 0 sets []) (\<lambda>entries. Inr ([], entries)))"

definition getSetById :: "scan_env \<Rightarrow> nat \<Rightarrow> alias_set option" where
  "getSetById env setId =
     (if setId < length (se_setIndexById env)
      then (let index = se_setIndexById env ! setId
            in if index = UINT_MAX then None else Some (sc_sets env ! index))
      else map_option (\<lambda>index. sc_sets env ! index) (map_of (se_sparseSetIndex env) setId))"

fun fillPayload :: "(nat \<times> nat) list \<Rightarrow> nat list \<Rightarrow> nat list result" where
  "fillPayload [] payload = Inr payload"
| "fillPayload ((v, valueId) # rest) payload =
     (if valueId \<ge> length payload then Inl Failure
      else fillPayload rest (payload[valueId := v]))"

text \<open>A payload value that no pair resolves is the null value, 0 here.\<close>

definition collectResolvedValues :: "scan_input \<Rightarrow> nat list result" where
  "collectResolvedValues si =
     (if length (sc_resolved si) \<noteq> length (sc_values si) then Inl Failure
      else fillPayload (sc_resolved si) (replicate (length (sc_values si)) 0))"

definition valueLookup :: "('a scan_input_scheme) \<Rightarrow> nat \<Rightarrow> ra_value option" where
  "valueLookup si v = map_option (\<lambda>i. sc_values si ! i) (map_of (sc_resolved si) v)"

subsection \<open>Fixed bases and target constraints\<close>

definition hasTargetTupleConstraint :: "scan_env \<Rightarrow> ra_value \<Rightarrow> bool" where
  "hasTargetTupleConstraint env v =
     (case sc_limits env of
        None \<Rightarrow> False
      | Some limits \<Rightarrow>
          if rv_width v \<le> 1 then False
          else if rv_regClass v = SGPR
          then requiresMCTupleEncoding (sc_ir env) (se_payload env ! rv_id v)
          else rv_regClass v = VGPR \<and> rl_vgprTupleAlignment limits > 1)"

definition targetTupleBaseIsLegal :: "scan_env \<Rightarrow> nat \<Rightarrow> ra_value \<Rightarrow> bool" where
  "targetTupleBaseIsLegal env base v =
     (if \<not> hasTargetTupleConstraint env v then False
      else if rv_regClass v = SGPR
      then isSGPRTupleBaseLegal (the (sc_limits env)) (rv_width v) base
      else isWaveAMDRegisterTupleBaseLegal (the (sc_limits env)) (rv_regClass v) (rv_width v) base)"

definition setMembersMeetTargetConstraints :: "scan_env \<Rightarrow> alias_set \<Rightarrow> nat \<Rightarrow> bool" where
  "setMembersMeetTargetConstraints env s base =
     list_all (\<lambda>valueId.
       let v = sc_values env ! valueId
       in if \<not> hasTargetTupleConstraint env v then True
          else base + rv_offset v \<le> UINT_MAX \<and> targetTupleBaseIsLegal env (base + rv_offset v) v)
       (as_members s)"

definition getRequiredAlignment :: "scan_env \<Rightarrow> alias_set \<Rightarrow> nat" where
  "getRequiredAlignment env s =
     (if as_width s \<le> 1 then 1
      else if as_regClass s = SGPR \<and>
              list_ex (\<lambda>valueId. hasTargetTupleConstraint env (sc_values env ! valueId)) (as_members s)
      then 1
      else case sc_limits env of
        Some limits \<Rightarrow>
          if as_regClass s = VGPR \<and> rl_vgprTupleAlignment limits \<noteq> 0
          then rl_vgprTupleAlignment limits
          else trunc_u32 (PowerOf2Ceil (as_width s))
      | None \<Rightarrow> trunc_u32 (PowerOf2Ceil (as_width s)))"

definition setBaseIsLegal :: "scan_env \<Rightarrow> alias_set \<Rightarrow> nat \<Rightarrow> bool" where
  "setBaseIsLegal env s base \<longleftrightarrow>
     base mod getRequiredAlignment env s = 0 \<and> setMembersMeetTargetConstraints env s base"

fun fixedBaseOfMembers ::
    "ra_value list \<Rightarrow> nat list \<Rightarrow> nat option \<Rightarrow> string option \<times> nat option" where
  "fixedBaseOfMembers values [] base = (None, base)"
| "fixedBaseOfMembers values (m # ms) base =
     (let v = values ! m
      in case rv_fixed v of
           None \<Rightarrow> fixedBaseOfMembers values ms base
         | Some f \<Rightarrow>
             if f < rv_offset v then (Some ''fixed-underflow'', base)
             else if base \<noteq> None \<and> base \<noteq> Some (f - rv_offset v)
             then (Some ''fixed-conflict'', base)
             else fixedBaseOfMembers values ms (Some (f - rv_offset v)))"

definition computeFixedBase :: "scan_env \<Rightarrow> alias_set \<Rightarrow> string option \<times> nat option" where
  "computeFixedBase env s =
     (case fixedBaseOfMembers (sc_values env) (as_members s) None of
        (Some reason, base) \<Rightarrow> (Some reason, base)
      | (None, base) \<Rightarrow>
          (case base of
             Some b \<Rightarrow> if setMembersMeetTargetConstraints env s b then (None, base)
                       else (Some ''fixed-alignment'', base)
           | None \<Rightarrow> (None, None)))"

definition recordFixedFailure :: "scan_env \<Rightarrow> alias_set \<Rightarrow> string \<Rightarrow> scan_failure" where
  "recordFixedFailure env s reason =
     (let budget = sc_budget env (as_regClass s)
      in \<lparr>sf_overlaps = [], sf_regClass = as_regClass s, sf_className = [], sf_reason = reason,
          sf_budgetMode = bu_mode budget, sf_set = as_id s, sf_position = as_start s,
          sf_pressure = as_width s, sf_limit = bu_limit budget, sf_request = as_width s\<rparr>)"

text \<open>A later failure overwrites an earlier one.\<close>

definition computeFixedBases :: "scan_env \<Rightarrow> nat option list \<times> scan_failure option" where
  "computeFixedBases env =
     (let bases = map (\<lambda>s. (s, computeFixedBase env s)) (sc_sets env)
      in (map (\<lambda>(s, r). snd r) bases,
          fold (\<lambda>(s, r) f. case fst r of None \<Rightarrow> f | Some reason \<Rightarrow> Some (recordFixedFailure env s reason))
            bases None))"

text \<open>
  \<^verbatim>\<open>getFixedBase\<close> finds the set by its position in the decoded state; here by its id, which
  is the same for the distinct ids that \<^verbatim>\<open>buildSetIndex\<close> enforces.
\<close>

definition getFixedBase :: "scan_env \<Rightarrow> alias_set \<Rightarrow> nat option" where
  "getFixedBase env s =
     (case map_of (zip (map as_id (sc_sets env)) (se_fixedBases env)) (as_id s) of
        None \<Rightarrow> None | Some base \<Rightarrow> base)"

definition collectFixedHardwareReadSets :: "scan_env \<Rightarrow> (nat \<times> nat) list" where
  "collectFixedHardwareReadSets env =
     concat (map (\<lambda>s.
       if getFixedBase env s = None \<or> length (as_members s) \<noteq> 1 then []
       else let v = se_payload env ! hd (as_members s)
            in if isFixedHardwareRead (sc_ir env) v then [(as_id s, v)] else [])
       (sc_sets env))"

subsection \<open>Reservations\<close>

definition pushReservation :: "assignment \<Rightarrow> fixed_reservations \<Rightarrow> fixed_reservations" where
  "pushReservation r fr =
     (let index = length (fr_reservations fr); c = getRegClassIndex (ra_regClass r)
      in \<lparr>fr_reservations = fr_reservations fr @ [r],
          fr_byClass = (fr_byClass fr)[c := fr_byClass fr ! c @ [index]]\<rparr>)"

definition reservationsOfClass :: "fixed_reservations \<Rightarrow> RegClass \<Rightarrow> assignment list" where
  "reservationsOfClass fr regClass =
     map (\<lambda>index. fr_reservations fr ! index) (fr_byClass fr ! getRegClassIndex regClass)"

definition collectFixedReservations :: "scan_env \<Rightarrow> fixed_reservations \<Rightarrow> fixed_reservations" where
  "collectFixedReservations env fr =
     fold (\<lambda>s fr.
       case getFixedBase env s of
         None \<Rightarrow> fr
       | Some base \<Rightarrow>
           if \<not> registerRangeFits base (as_width s) (bu_limit (sc_budget env (as_regClass s))) then fr
           else fold (\<lambda>r fr. pushReservation
                  \<lparr>ra_regClass = as_regClass s, ra_set = as_id s, ra_base = base,
                   ra_width = as_width s, ra_start = lr_start r, ra_end = lr_end r\<rparr> fr)
                (as_ranges s) fr)
       (sc_sets env) fr"

definition collectEntryABIReservations ::
    "scan_env \<Rightarrow> fixed_reservations \<Rightarrow> fixed_reservations" where
  "collectEntryABIReservations env fr =
     (let regs = sc_entry env
      in if er_reservedSGPRs regs = 0 \<and> er_reservedVGPRs regs = 0 then fr
         else fold (\<lambda>v fr.
           if rv_fixed v = None then fr
           else let value = se_payload env ! rv_id v
                in case getEntryRegFixedBase (sc_ir env) value regs of
                     None \<Rightarrow> fr
                   | Some base \<Rightarrow>
                       let implicitEnd =
                             (if isFixedHardwareRead (sc_ir env) value
                              then getImplicitABIUseEnd (sc_ir env) (the (ir_def (sc_ir env) value))
                              else 0)
                       in fold (\<lambda>(index, r) fr. pushReservation
                            \<lparr>ra_regClass = rv_regClass v,
                             ra_set = trunc_u32 (length (sc_sets env) + length (fr_reservations fr)),
                             ra_base = base, ra_width = rv_width v,
                             ra_start = (if index = 0 then 0 else lr_start r),
                             ra_end = max (lr_end r) implicitEnd\<rparr> fr)
                            (enumerate 0 (rv_ranges v)) fr)
           (sc_values env) fr)"

definition collectImplicitABIReservations ::
    "scan_env \<Rightarrow> fixed_reservations \<Rightarrow> fixed_reservations" where
  "collectImplicitABIReservations env fr =
     (let regs = sc_entry env;
          lastUses = fold (\<lambda>(op, position) uses. noteImplicitSGPRABIUse (sc_ir env) regs op uses)
                       (ir_positions (sc_ir env)) (replicate (er_reservedSGPRs regs) None)
      in fold (\<lambda>(lane, lastUse) fr.
           case lastUse of
             None \<Rightarrow> fr
           | Some position \<Rightarrow> pushReservation
               \<lparr>ra_regClass = SGPR,
                ra_set = trunc_u32 (length (sc_sets env) + length (fr_reservations fr)),
                ra_base = lane, ra_width = 1, ra_start = 0, ra_end = position\<rparr> fr)
           (enumerate 0 lastUses) fr)"

text \<open>
  \<^verbatim>\<open>parseState\<close>: the tables are filled in the order of the code, each step reading what the
  earlier ones left. The failure it may record is returned beside the prepared state.
\<close>

definition parseState :: "scan_input \<Rightarrow> (scan_env \<times> scan_failure option) result" where
  "parseState si =
     bindR (buildSetIndex (sc_sets si)) (\<lambda>(dense, sparse).
     bindR (collectResolvedValues si) (\<lambda>payload.
       let none = \<lparr>fr_reservations = [], fr_byClass = replicate 5 []\<rparr>;
           env0 = \<lparr>sc_values = sc_values si, sc_sets = sc_sets si, sc_resolved = sc_resolved si,
                   sc_ir = sc_ir si, sc_budget = sc_budget si,
                   sc_familyBudget = sc_familyBudget si, sc_limits = sc_limits si,
                   sc_entry = sc_entry si,
                   se_payload = payload, se_setIndexById = dense, se_sparseSetIndex = sparse,
                   se_fixedBases = [], se_fixedReads = [], se_reservations = none\<rparr>;
           (bases, failure) = computeFixedBases env0;
           env1 = env0\<lparr>se_fixedBases := bases\<rparr>;
           env2 = env1\<lparr>se_fixedReads := collectFixedHardwareReadSets env1\<rparr>;
           env3 = env2\<lparr>se_reservations := collectFixedReservations env2 none\<rparr>;
           env4 = env3\<lparr>se_reservations := collectEntryABIReservations env3 (se_reservations env3)\<rparr>;
           env5 = env4\<lparr>se_reservations := collectImplicitABIReservations env4 (se_reservations env4)\<rparr>
       in Inr (env5, failure)))"

subsection \<open>Heaps\<close>

text \<open>
  \<open>lt\<close> is the comparison given to \<^verbatim>\<open>std::push_heap\<close>; the head of the list is the front
  of the heap, an element that is below no other.
\<close>

fun pushHeap :: "('a \<Rightarrow> 'a \<Rightarrow> bool) \<Rightarrow> 'a \<Rightarrow> 'a list \<Rightarrow> 'a list" where
  "pushHeap lt x [] = [x]"
| "pushHeap lt x (y # ys) = (if lt y x then x # y # ys else y # pushHeap lt x ys)"

subsection \<open>Active assignments\<close>

record active_assignments =
  ac_ordered :: "nat list"
  ac_byEnd :: "nat list"
  ac_byClass :: "nat list list"
  ac_byClassLane :: "nat list list list"
  ac_live :: "bool list"
  ac_bySet :: "(nat \<times> nat) list"
  ac_stale :: nat

definition noActive :: active_assignments where
  "noActive = \<lparr>ac_ordered = [], ac_byEnd = [], ac_byClass = replicate 5 [],
     ac_byClassLane = replicate 5 [], ac_live = [], ac_bySet = [], ac_stale = 0\<rparr>"

definition endHeapCompare :: "assignment list \<Rightarrow> nat \<Rightarrow> nat \<Rightarrow> bool" where
  "endHeapCompare as l r \<longleftrightarrow>
     (ra_end (as ! l), ra_set (as ! l)) > (ra_end (as ! r), ra_set (as ! r))"

definition isLive :: "active_assignments \<Rightarrow> nat \<Rightarrow> bool" where
  "isLive ac i \<longleftrightarrow> i < length (ac_live ac) \<and> ac_live ac ! i"

definition resizeList :: "nat \<Rightarrow> 'a \<Rightarrow> 'a list \<Rightarrow> 'a list" where
  "resizeList n x xs = take n xs @ replicate (n - length xs) x"

definition addLanes :: "nat \<Rightarrow> nat \<Rightarrow> nat \<Rightarrow> nat list list \<Rightarrow> nat list list" where
  "addLanes base finish i lanes =
     (let lanes1 = (if finish > length lanes then resizeList finish [] lanes else lanes)
      in fold (\<lambda>lane ls. ls[lane := ls ! lane @ [i]]) [base ..< finish] lanes1)"

definition add_ac :: "nat \<Rightarrow> assignment list \<Rightarrow> active_assignments \<Rightarrow> active_assignments" where
  "add_ac i as ac =
     (let a = as ! i;
          c = getRegClassIndex (ra_regClass a);
          finish = trunc_u32 (ra_base a + ra_width a);
          live1 = (if i \<ge> length (ac_live ac) then resizeList (i + 1) False (ac_live ac)
                   else ac_live ac)
      in ac\<lparr>ac_ordered := ac_ordered ac @ [i],
            ac_byClass := (ac_byClass ac)[c := ac_byClass ac ! c @ [i]],
            ac_byClassLane := (ac_byClassLane ac)
              [c := addLanes (ra_base a) finish i (ac_byClassLane ac ! c)],
            ac_live := live1[i := True],
            ac_bySet := AList.update (ra_set a) i (ac_bySet ac),
            ac_byEnd := pushHeap (endHeapCompare as) i (ac_byEnd ac)\<rparr>)"

definition compact :: "active_assignments \<Rightarrow> active_assignments" where
  "compact ac =
     ac\<lparr>ac_ordered := filter (isLive ac) (ac_ordered ac),
        ac_byClass := map (filter (isLive ac)) (ac_byClass ac),
        ac_byClassLane := map (map (filter (isLive ac))) (ac_byClassLane ac),
        ac_stale := 0\<rparr>"

fun expireLoop ::
    "nat \<Rightarrow> assignment list \<Rightarrow> nat list \<Rightarrow> active_assignments \<Rightarrow> active_assignments" where
  "expireLoop position as [] ac = ac\<lparr>ac_byEnd := []\<rparr>"
| "expireLoop position as (i # is) ac =
     (if ra_end (as ! i) \<ge> position then ac\<lparr>ac_byEnd := i # is\<rparr>
      else if map_of (ac_bySet ac) (ra_set (as ! i)) \<noteq> Some i then expireLoop position as is ac
      else expireLoop position as is
             (ac\<lparr>ac_bySet := AList.delete (ra_set (as ! i)) (ac_bySet ac),
                 ac_live := (ac_live ac)[i := False],
                 ac_stale := ac_stale ac + 1\<rparr>))"

definition expire :: "nat \<Rightarrow> assignment list \<Rightarrow> active_assignments \<Rightarrow> active_assignments" where
  "expire position as ac =
     (let ac1 = expireLoop position as (ac_byEnd ac) ac
      in if ac_stale ac1 > length (ac_bySet ac1) then compact ac1 else ac1)"

definition lookup_ac :: "nat \<Rightarrow> assignment list \<Rightarrow> active_assignments \<Rightarrow> assignment option" where
  "lookup_ac setId as ac = map_option (\<lambda>i. as ! i) (map_of (ac_bySet ac) setId)"

definition forOrdered :: "active_assignments \<Rightarrow> assignment list \<Rightarrow> assignment list" where
  "forOrdered ac as = map (\<lambda>i. as ! i) (filter (isLive ac) (ac_ordered ac))"

definition forRegClass :: "active_assignments \<Rightarrow> RegClass \<Rightarrow> assignment list \<Rightarrow> assignment list" where
  "forRegClass ac regClass as =
     map (\<lambda>i. as ! i) (filter (isLive ac) (ac_byClass ac ! getRegClassIndex regClass))"

text \<open>The first live assignment that a query has not visited yet and that satisfies it.\<close>

fun firstVisit :: "(nat \<Rightarrow> bool) \<Rightarrow> (nat \<Rightarrow> bool) \<Rightarrow> nat list \<Rightarrow> nat list \<Rightarrow> nat option" where
  "firstVisit live P visited [] = None"
| "firstVisit live P visited (i # is) =
     (if \<not> live i \<or> List.member visited i then firstVisit live P visited is
      else if P i then Some i
      else firstVisit live P (i # visited) is)"

definition anyRegClassOverlappingRange ::
    "active_assignments \<Rightarrow> RegClass \<Rightarrow> nat \<Rightarrow> nat \<Rightarrow> assignment list \<Rightarrow> (assignment \<Rightarrow> bool) \<Rightarrow>
     assignment option" where
  "anyRegClassOverlappingRange ac regClass base width as P =
     (let lanes = ac_byClassLane ac ! getRegClassIndex regClass
      in if base \<ge> length lanes then None
         else let finish = min (trunc_u32 (base + width)) (length lanes)
              in map_option (\<lambda>i. as ! i)
                   (firstVisit (isLive ac) (\<lambda>i. P (as ! i)) []
                      (concat (map (\<lambda>lane. lanes ! lane) [base ..< finish]))))"

subsection \<open>Footprints of the vector register family\<close>

record active_range =
  ar_footprint :: nat
  ar_end :: nat
  ar_sequence :: nat

record future_range =
  fu_regClass :: RegClass
  fu_footprint :: nat
  fu_start :: nat
  fu_end :: nat
  fu_sequence :: nat

record footprint_tracker =
  ft_active :: "active_range list list"
  ft_future :: "future_range list"
  ft_position :: "nat option"
  ft_nextSequence :: nat

definition noFootprints :: footprint_tracker where
  "noFootprints = \<lparr>ft_active = [[], []], ft_future = [], ft_position = None, ft_nextSequence = 0\<rparr>"

definition getFamilyIndex :: "RegClass \<Rightarrow> nat" where
  "getFamilyIndex regClass = (if regClass = AGPR then 0 else 1)"

definition activeRangeLess :: "active_range \<Rightarrow> active_range \<Rightarrow> bool" where
  "activeRangeLess l r \<longleftrightarrow>
     (ar_footprint l, ar_end l, ar_sequence l) < (ar_footprint r, ar_end r, ar_sequence r)"

definition futureRangeLess :: "future_range \<Rightarrow> future_range \<Rightarrow> bool" where
  "futureRangeLess l r \<longleftrightarrow> (fu_start l, fu_sequence l) > (fu_start r, fu_sequence r)"

definition addActive :: "future_range \<Rightarrow> footprint_tracker \<Rightarrow> footprint_tracker" where
  "addActive r ft =
     (let f = getFamilyIndex (fu_regClass r);
          x = \<lparr>ar_footprint = fu_footprint r, ar_end = fu_end r, ar_sequence = fu_sequence r\<rparr>
      in ft\<lparr>ft_active := (ft_active ft)[f := pushHeap activeRangeLess x (ft_active ft ! f)]\<rparr>)"

fun advanceFuture :: "nat \<Rightarrow> future_range list \<Rightarrow> footprint_tracker \<Rightarrow> footprint_tracker" where
  "advanceFuture position [] ft = ft\<lparr>ft_future := []\<rparr>"
| "advanceFuture position (r # rs) ft =
     (if fu_start r \<le> position
      then advanceFuture position rs (if fu_end r \<ge> position then addActive r ft else ft)
      else ft\<lparr>ft_future := r # rs\<rparr>)"

definition advance_ft :: "nat \<Rightarrow> footprint_tracker \<Rightarrow> footprint_tracker" where
  "advance_ft position ft =
     (let ft1 = advanceFuture position (ft_future ft) (ft\<lparr>ft_position := Some position\<rparr>)
      in ft1\<lparr>ft_active := map (dropWhile (\<lambda>r. ar_end r < position)) (ft_active ft1)\<rparr>)"

definition add_ft :: "alias_set \<Rightarrow> nat \<Rightarrow> footprint_tracker \<Rightarrow> footprint_tracker" where
  "add_ft s base ft =
     (if \<not> isVGPRFamilyClass (as_regClass s) then ft
      else fold (\<lambda>r ft.
        if lr_end r < the (ft_position ft) then ft
        else let x = \<lparr>fu_regClass = as_regClass s, fu_footprint = trunc_u32 (base + as_width s),
                      fu_start = lr_start r, fu_end = lr_end r, fu_sequence = ft_nextSequence ft\<rparr>;
                 ft1 = ft\<lparr>ft_nextSequence := ft_nextSequence ft + 1\<rparr>
             in if lr_start r \<le> the (ft_position ft) then addActive x ft1
                else ft1\<lparr>ft_future := pushHeap futureRangeLess x (ft_future ft1)\<rparr>)
        (as_ranges s) ft)"

definition get_ft :: "footprint_tracker \<Rightarrow> RegClass \<Rightarrow> nat" where
  "get_ft ft regClass =
     (case ft_active ft ! getFamilyIndex regClass of [] \<Rightarrow> 0 | r # _ \<Rightarrow> ar_footprint r)"

subsection \<open>Scan state\<close>

record scan_state =
  ss_active :: active_assignments
  ss_footprints :: footprint_tracker
  ss_assignments :: "assignment list"
  ss_indexBySet :: "(nat \<times> nat) list"
  ss_failure :: "scan_failure option"

definition init_scan :: scan_state where
  "init_scan = \<lparr>ss_active = noActive, ss_footprints = noFootprints, ss_assignments = [],
     ss_indexBySet = [], ss_failure = None\<rparr>"

subsection \<open>Continuations of a result\<close>

definition getSingleResultValue :: "scan_env \<Rightarrow> alias_set \<Rightarrow> ra_value option" where
  "getSingleResultValue env s =
     (if length (as_members s) \<noteq> 1 then None
      else let v = sc_values env ! hd (as_members s)
           in if rv_kind v \<noteq> OpResult \<or> rv_start v \<noteq> as_start s \<or> rv_offset v \<noteq> 0 \<or>
                 rv_width v \<noteq> as_width s
              then None else Some v)"

text \<open>An operation that reads the result of the set last and may overwrite it with the member.\<close>

definition isDestructiveResultContinuation :: "scan_env \<Rightarrow> alias_set \<Rightarrow> ra_value \<Rightarrow> bool" where
  "isDestructiveResultContinuation env s m =
     (case getSingleResultValue env s of
        None \<Rightarrow> False
      | Some resultValue \<Rightarrow>
          if rv_id resultValue \<ge> length (se_payload env) \<or> rv_id m \<ge> length (se_payload env) \<or>
             rv_kind m \<noteq> OpResult \<or> rv_start m \<noteq> as_end s
          then False
          else let result = se_payload env ! rv_id resultValue;
                   continuation = se_payload env ! rv_id m
               in (case ir_def (sc_ir env) continuation of
                     None \<Rightarrow> False
                   | Some d \<Rightarrow>
                       if \<not> List.member (po_results (ir_op (sc_ir env) d)) continuation then False
                       else (case filter (\<lambda>(n, v). v = result)
                                    (enumerate 0 (po_operands (ir_op (sc_ir env) d))) of
                               [] \<Rightarrow> False
                             | (n, _) # _ \<Rightarrow> canReuseKilledOperandOfOp (sc_ir env) d n)))"

fun blocksReusable ::
    "scan_env \<Rightarrow> alias_set \<Rightarrow> ra_value \<Rightarrow> live_range list \<Rightarrow> live_range list \<Rightarrow> bool" where
  "blocksReusable env s m (mr # ms) (sr # ss) =
     (if liveRangesOverlap mr sr \<and> min (lr_end mr) (lr_end sr) > as_start s \<and>
         (max (lr_start mr) (lr_start sr) \<noteq> as_end s \<or> min (lr_end mr) (lr_end sr) \<noteq> as_end s \<or>
          \<not> isDestructiveResultContinuation env s m)
      then True
      else if lr_end mr < lr_start sr then blocksReusable env s m ms (sr # ss)
      else blocksReusable env s m (mr # ms) ss)"
| "blocksReusable env s m _ _ = False"

definition memberBlocksReusableResult :: "scan_env \<Rightarrow> alias_set \<Rightarrow> ra_value \<Rightarrow> bool" where
  "memberBlocksReusableResult env s m = blocksReusable env s m (rv_ranges m) (as_ranges s)"

text \<open>\<open>None\<close>: an overlap that is not the end of the set; otherwise whether one was seen.\<close>

fun overlapsOnlyAtEnd ::
    "alias_set \<Rightarrow> bool \<Rightarrow> live_range list \<Rightarrow> live_range list \<Rightarrow> bool option" where
  "overlapsOnlyAtEnd s saw (mr # ms) (sr # ss) =
     (if liveRangesOverlap mr sr \<and>
         (max (lr_start mr) (lr_start sr) \<noteq> as_end s \<or> min (lr_end mr) (lr_end sr) \<noteq> as_end s)
      then None
      else let saw' = (saw \<or> liveRangesOverlap mr sr)
           in if lr_end mr < lr_start sr then overlapsOnlyAtEnd s saw' ms (sr # ss)
              else overlapsOnlyAtEnd s saw' (mr # ms) ss)"
| "overlapsOnlyAtEnd s saw _ _ = Some saw"

definition memberOverlapIsDestructiveContinuation :: "scan_env \<Rightarrow> alias_set \<Rightarrow> ra_value \<Rightarrow> bool" where
  "memberOverlapIsDestructiveContinuation env s m =
     (case overlapsOnlyAtEnd s False (rv_ranges m) (as_ranges s) of
        None \<Rightarrow> False
      | Some saw \<Rightarrow> saw \<and> isDestructiveResultContinuation env s m)"

definition memberConflictsWithSet :: "scan_env \<Rightarrow> alias_set \<Rightarrow> ra_value \<Rightarrow> bool" where
  "memberConflictsWithSet env s m \<longleftrightarrow>
     liveRangeListsOverlap (rv_ranges m) (as_ranges s) \<and>
     \<not> memberOverlapIsDestructiveContinuation env s m"

subsection \<open>Conflict tests\<close>

definition setOverlapsRange :: "alias_set \<Rightarrow> nat \<Rightarrow> nat \<Rightarrow> bool" where
  "setOverlapsRange s lo hi = liveRangesOverlapRange (as_ranges s) lo hi"

definition setLiveAtPosition :: "scan_env \<Rightarrow> nat \<Rightarrow> nat \<Rightarrow> bool" where
  "setLiveAtPosition env setId position =
     (case getSetById env setId of
        None \<Rightarrow> True | Some s \<Rightarrow> liveRangesContainPosition (as_ranges s) position)"

fun memberConflictEnd ::
    "scan_env \<Rightarrow> alias_set \<Rightarrow> assignment \<Rightarrow> nat \<Rightarrow> nat list \<Rightarrow> nat option" where
  "memberConflictEnd env s a base [] = None"
| "memberConflictEnd env s a base (m # ms) =
     (let v = sc_values env ! m;
          memberBegin = trunc_u32 (ra_base a + rv_offset v);
          memberEnd = memberBegin + rv_width v
      in if base + as_width s \<le> memberBegin \<or> memberEnd \<le> base then memberConflictEnd env s a base ms
         else if memberConflictsWithSet env s v then Some (trunc_u32 memberEnd)
         else memberConflictEnd env s a base ms)"

definition getActiveAssignmentConflictEnd ::
    "scan_env \<Rightarrow> alias_set \<Rightarrow> assignment \<Rightarrow> nat \<Rightarrow> nat option" where
  "getActiveAssignmentConflictEnd env s a base =
     (case getSetById env (ra_set a) of
        None \<Rightarrow> if setOverlapsRange s (ra_start a) (ra_end a)
                then Some (trunc_u32 (ra_base a + ra_width a)) else None
      | Some assignedSet \<Rightarrow> memberConflictEnd env s a base (as_members assignedSet))"

definition activeAssignmentConflicts :: "scan_env \<Rightarrow> alias_set \<Rightarrow> assignment \<Rightarrow> nat \<Rightarrow> bool" where
  "activeAssignmentConflicts env s a base \<longleftrightarrow> getActiveAssignmentConflictEnd env s a base \<noteq> None"

definition canShareFixedHardwareRead :: "scan_env \<Rightarrow> alias_set \<Rightarrow> assignment \<Rightarrow> nat \<Rightarrow> bool" where
  "canShareFixedHardwareRead env s a base =
     (if getFixedBase env s \<noteq> Some base \<or> ra_base a \<noteq> base \<or> ra_width a \<noteq> as_width s then False
      else case (map_of (se_fixedReads env) (as_id s), map_of (se_fixedReads env) (ra_set a)) of
             (Some l, Some r) \<Rightarrow> areEquivalentFixedHardwareReads (sc_ir env) l r
           | _ \<Rightarrow> False)"

definition findActiveConflictEnd ::
    "scan_env \<Rightarrow> active_assignments \<Rightarrow> assignment list \<Rightarrow> alias_set \<Rightarrow> nat \<Rightarrow> nat option" where
  "findActiveConflictEnd env ac as s base =
     (case anyRegClassOverlappingRange ac (as_regClass s) base (as_width s) as
             (\<lambda>a. assignedRangesOverlap a base (as_width s) \<and>
                  getActiveAssignmentConflictEnd env s a base \<noteq> None \<and>
                  \<not> canShareFixedHardwareRead env s a base) of
        None \<Rightarrow> None
      | Some a \<Rightarrow> getActiveAssignmentConflictEnd env s a base)"

definition conflictsWithActive ::
    "scan_env \<Rightarrow> active_assignments \<Rightarrow> assignment list \<Rightarrow> alias_set \<Rightarrow> nat \<Rightarrow> bool" where
  "conflictsWithActive env ac as s base \<longleftrightarrow> findActiveConflictEnd env ac as s base \<noteq> None"

definition conflictsWithActiveIgnoring ::
    "scan_env \<Rightarrow> active_assignments \<Rightarrow> assignment list \<Rightarrow> alias_set \<Rightarrow> nat \<Rightarrow> nat \<Rightarrow> bool" where
  "conflictsWithActiveIgnoring env ac as s base ignoredSetId \<longleftrightarrow>
     anyRegClassOverlappingRange ac (as_regClass s) base (as_width s) as
       (\<lambda>a. ra_set a \<noteq> ignoredSetId \<and> assignedRangesOverlap a base (as_width s) \<and>
            activeAssignmentConflicts env s a base \<and>
            \<not> canShareFixedHardwareRead env s a base) \<noteq> None"

definition findFixedReservationConflictEnd :: "scan_env \<Rightarrow> alias_set \<Rightarrow> nat \<Rightarrow> nat option" where
  "findFixedReservationConflictEnd env s base =
     map_option (\<lambda>r. trunc_u32 (ra_base r + ra_width r))
       (List.find (\<lambda>r. assignedRangesOverlap r base (as_width s) \<and>
                        setOverlapsRange s (ra_start r) (ra_end r))
          (reservationsOfClass (se_reservations env) (as_regClass s)))"

definition reservationCoveredByIgnoredSource :: "assignment \<Rightarrow> assignment \<Rightarrow> bool" where
  "reservationCoveredByIgnoredSource reserved ignored \<longleftrightarrow>
     ra_regClass reserved = ra_regClass ignored \<and> ra_base reserved \<le> ra_base ignored \<and>
     trunc_u32 (ra_base ignored + ra_width ignored)
       \<le> trunc_u32 (ra_base reserved + ra_width reserved) \<and>
     ra_end reserved = ra_end ignored"

definition conflictsWithFixedReservationIgnoring ::
    "scan_env \<Rightarrow> alias_set \<Rightarrow> nat \<Rightarrow> assignment \<Rightarrow> bool" where
  "conflictsWithFixedReservationIgnoring env s base ignored =
     list_ex (\<lambda>r. assignedRangesOverlap r base (as_width s) \<and>
                  ra_set r \<noteq> ra_set ignored \<and> \<not> reservationCoveredByIgnoredSource r ignored \<and>
                  setOverlapsRange s (ra_start r) (ra_end r))
       (reservationsOfClass (se_reservations env) (as_regClass s))"

definition getFixedReservationOverlaps ::
    "scan_env \<Rightarrow> active_assignments \<Rightarrow> alias_set \<Rightarrow> assignment list" where
  "getFixedReservationOverlaps env ac s =
     filter (\<lambda>r. \<not> (ra_set r = as_id s \<or> map_of (ac_bySet ac) (ra_set r) \<noteq> None) \<and>
                 setOverlapsRange s (ra_start r) (ra_end r))
       (reservationsOfClass (se_reservations env) (as_regClass s))"

subsection \<open>Reusing the register of a killed operand\<close>

definition reusableOperandMatchesSet :: "alias_set \<Rightarrow> ra_value \<Rightarrow> bool" where
  "reusableOperandMatchesSet s source \<longleftrightarrow>
     rv_set source \<noteq> as_id s \<and> rv_regClass source = as_regClass s \<and> rv_width source = as_width s"

definition sourceSubrangeDiesAtBoundary ::
    "scan_env \<Rightarrow> alias_set \<Rightarrow> alias_set \<Rightarrow> ra_value \<Rightarrow> bool" where
  "sourceSubrangeDiesAtBoundary env s sourceSet source =
     list_all (\<lambda>memberId.
       let m = sc_values env ! memberId
       in rv_offset source + as_width s \<le> rv_offset m \<or>
          rv_offset m + rv_width m \<le> rv_offset source \<or>
          \<not> memberBlocksReusableResult env s m)
       (as_members sourceSet)"

definition reusableOperandCoversResult ::
    "scan_env \<Rightarrow> alias_set \<Rightarrow> alias_set \<Rightarrow> ra_value \<Rightarrow> bool" where
  "reusableOperandCoversResult env s sourceSet source \<longleftrightarrow>
     valueRangeEndsAt source (as_start s) \<and>
     registerRangeFits (rv_offset source) (as_width s) (as_width sourceSet) \<and>
     sourceSubrangeDiesAtBoundary env s sourceSet source"

definition reusableBaseIsAvailable ::
    "scan_env \<Rightarrow> scan_state \<Rightarrow> alias_set \<Rightarrow> alias_set \<Rightarrow> assignment \<Rightarrow> nat \<Rightarrow> nat \<Rightarrow> bool" where
  "reusableBaseIsAvailable env st s sourceSet sourceAssignment base limit \<longleftrightarrow>
     registerRangeFits base (as_width s) limit \<and>
     setBaseIsLegal env s base \<and>
     \<not> conflictsWithActiveIgnoring env (ss_active st) (ss_assignments st) s base (as_id sourceSet) \<and>
     \<not> conflictsWithFixedReservationIgnoring env s base sourceAssignment"

definition getReusableOperandBase ::
    "scan_env \<Rightarrow> scan_state \<Rightarrow> alias_set \<Rightarrow> ra_value \<Rightarrow> nat \<Rightarrow> nat option" where
  "getReusableOperandBase env st s source limit =
     (if \<not> reusableOperandMatchesSet s source then None
      else case getSetById env (rv_set source) of
        None \<Rightarrow> None
      | Some sourceSet \<Rightarrow>
          (case lookup_ac (as_id sourceSet) (ss_assignments st) (ss_active st) of
             None \<Rightarrow> None
           | Some a \<Rightarrow>
               if \<not> reusableOperandCoversResult env s sourceSet source then None
               else if \<not> registerRangeFits (ra_base a) (rv_offset source) limit then None
               else let base = ra_base a + rv_offset source
                    in if reusableBaseIsAvailable env st s sourceSet a base limit
                       then Some base else None))"

definition findReusableInputBaseForDef ::
    "scan_env \<Rightarrow> scan_state \<Rightarrow> alias_set \<Rightarrow> nat \<Rightarrow> nat option \<Rightarrow> nat option" where
  "findReusableInputBaseForDef env st s limit d =
     (case getKilledOperandReuseCandidate (sc_ir env) d of
        None \<Rightarrow> None
      | Some reuse \<Rightarrow>
          (case ir_isa (sc_ir env) of
             None \<Rightarrow> None
           | Some isa \<Rightarrow>
               fold (\<lambda>(n, operand) best.
                 if \<not> canReuseKilledOperandForResult (Some reuse) n isa then best
                 else (case valueLookup env operand of
                   None \<Rightarrow> best
                 | Some source \<Rightarrow>
                     (case getReusableOperandBase env st s source limit of
                        None \<Rightarrow> best
                      | Some base \<Rightarrow>
                          (case best of
                             None \<Rightarrow> Some base
                           | Some b \<Rightarrow> if base < b then Some base else best))))
                 (enumerate 0 (po_operands (ir_op (sc_ir env) (the d)))) None))"

definition findReusableInputBase ::
    "scan_env \<Rightarrow> scan_state \<Rightarrow> alias_set \<Rightarrow> nat \<Rightarrow> nat option" where
  "findReusableInputBase env st s limit =
     (case getSingleResultValue env s of
        None \<Rightarrow> None
      | Some v \<Rightarrow>
          if rv_id v \<ge> length (se_payload env) \<or> as_width s > limit then None
          else findReusableInputBaseForDef env st s limit
                 (ir_def (sc_ir env) (se_payload env ! rv_id v)))"

subsection \<open>Choosing a base\<close>

fun findFreeLoop ::
    "nat \<Rightarrow> scan_env \<Rightarrow> scan_state \<Rightarrow> alias_set \<Rightarrow> nat \<Rightarrow> nat \<Rightarrow> nat \<Rightarrow> nat option result" where
  "findFreeLoop 0 env st s maxBase alignment base =
     Inl (Unreachable ''the search for a base does not end'')"
| "findFreeLoop (Suc fuel) env st s maxBase alignment base =
     (if base > maxBase then Inr None
      else if \<not> setBaseIsLegal env s base
      then findFreeLoop fuel env st s maxBase alignment (trunc_u32 (base + alignment))
      else let active = findActiveConflictEnd env (ss_active st) (ss_assignments st) s base;
               conflictEnd = (if active = None then findFixedReservationConflictEnd env s base
                              else active)
           in case conflictEnd of
                None \<Rightarrow> Inr (Some base)
              | Some e \<Rightarrow>
                  let next = trunc_u32 (alignTo e alignment);
                      base' = (if e > base \<and> next > base then to_u32 (int next - int alignment)
                               else base)
                  in findFreeLoop fuel env st s maxBase alignment (trunc_u32 (base' + alignment)))"

definition findFreeBase ::
    "scan_env \<Rightarrow> scan_state \<Rightarrow> alias_set \<Rightarrow> nat \<Rightarrow> nat option \<Rightarrow> nat option result" where
  "findFreeBase env st s limit beforeBase =
     (if as_width s > limit then Inr None
      else if beforeBase = Some 0 then Inr None
      else let maxBase = (case beforeBase of
                            None \<Rightarrow> limit - as_width s
                          | Some b \<Rightarrow> min (limit - as_width s) (b - 1))
           in findFreeLoop (maxBase + 2) env st s maxBase (getRequiredAlignment env s) 0)"

subsection \<open>Failures\<close>

definition addFamilyFootprint :: "RegClass \<Rightarrow> nat \<Rightarrow> nat \<Rightarrow> nat \<times> nat \<Rightarrow> nat \<times> nat" where
  "addFamilyFootprint regClass base width footprints =
     (case footprints of (agpr, vgpr) \<Rightarrow>
        (if regClass = AGPR then max agpr (trunc_u32 (base + width)) else agpr,
         if regClass = VGPR then max vgpr (trunc_u32 (base + width)) else vgpr))"

definition recordCombinedPressureFailure ::
    "budget \<Rightarrow> RegClass \<Rightarrow> nat \<Rightarrow> nat \<Rightarrow> nat \<Rightarrow> nat \<Rightarrow> assignment list \<Rightarrow> string \<Rightarrow> scan_failure" where
  "recordCombinedPressureFailure family regClass setId position width pressure overlaps reason =
     \<lparr>sf_overlaps = filter (\<lambda>a. isVGPRFamilyClass (ra_regClass a)) overlaps,
      sf_regClass = regClass, sf_className = ''vgpr_agpr'', sf_reason = reason,
      sf_budgetMode = bu_mode family, sf_set = setId, sf_position = position,
      sf_pressure = pressure, sf_limit = bu_limit family, sf_request = width\<rparr>"

definition checkCombinedPressureFailure ::
    "scan_env \<Rightarrow> scan_state \<Rightarrow> alias_set \<Rightarrow> nat \<Rightarrow> scan_failure option" where
  "checkCombinedPressureFailure env st s base =
     (case sc_familyBudget env of
        None \<Rightarrow> None
      | Some family \<Rightarrow>
          if \<not> isVGPRFamilyClass (as_regClass s) then None
          else let (agpr, vgpr) = addFamilyFootprint (as_regClass s) base (as_width s)
                     (get_ft (ss_footprints st) AGPR, get_ft (ss_footprints st) VGPR);
                   pressure = getCombinedVGPRFamilyPressure agpr vgpr
               in if pressure \<le> bu_limit family then None
                  else Some (recordCombinedPressureFailure family (as_regClass s) (as_id s)
                         (as_start s) (as_width s) pressure
                         (forOrdered (ss_active st) (ss_assignments st)) ''pressure''))"

fun combinedFootprintFailure ::
    "budget \<Rightarrow> assignment list \<Rightarrow> assignment list \<Rightarrow> nat \<times> nat \<Rightarrow> scan_failure option" where
  "combinedFootprintFailure family prior [] footprints = None"
| "combinedFootprintFailure family prior (a # as) footprints =
     (if \<not> isVGPRFamilyClass (ra_regClass a)
      then combinedFootprintFailure family (prior @ [a]) as footprints
      else let footprints' = addFamilyFootprint (ra_regClass a) (ra_base a) (ra_width a) footprints;
               pressure = getCombinedVGPRFamilyPressure (fst footprints') (snd footprints')
           in if pressure \<le> bu_limit family
              then combinedFootprintFailure family (prior @ [a]) as footprints'
              else Some (recordCombinedPressureFailure family (ra_regClass a) (ra_set a)
                     (ra_start a) (ra_width a) pressure prior ''allocated-footprint''))"

definition checkCombinedFootprintFailure :: "scan_env \<Rightarrow> assignment list \<Rightarrow> scan_failure option" where
  "checkCombinedFootprintFailure env as =
     (case sc_familyBudget env of
        None \<Rightarrow> None | Some family \<Rightarrow> combinedFootprintFailure family [] as (0, 0))"

definition livePressureOverlaps :: "scan_env \<Rightarrow> scan_state \<Rightarrow> alias_set \<Rightarrow> assignment list" where
  "livePressureOverlaps env st s =
     filter (\<lambda>a. setLiveAtPosition env (ra_set a) (as_start s))
       (forRegClass (ss_active st) (as_regClass s) (ss_assignments st))"

definition getPressureAtFailure ::
    "scan_env \<Rightarrow> scan_state \<Rightarrow> alias_set \<Rightarrow> assignment list \<Rightarrow> nat" where
  "getPressureAtFailure env st s fixedOverlaps =
     fold (\<lambda>r p. trunc_u32 (p + ra_width r)) fixedOverlaps
       (fold (\<lambda>a p. trunc_u32 (p + ra_width a)) (livePressureOverlaps env st s) (as_width s))"

definition recordPressureFailure ::
    "scan_env \<Rightarrow> scan_state \<Rightarrow> alias_set \<Rightarrow> budget \<Rightarrow> assignment list \<Rightarrow> scan_failure" where
  "recordPressureFailure env st s budget fixedOverlaps =
     \<lparr>sf_overlaps = livePressureOverlaps env st s @ fixedOverlaps,
      sf_regClass = as_regClass s, sf_className = [], sf_reason = ''pressure'',
      sf_budgetMode = bu_mode budget, sf_set = as_id s, sf_position = as_start s,
      sf_pressure = getPressureAtFailure env st s fixedOverlaps,
      sf_limit = bu_limit budget, sf_request = as_width s\<rparr>"

subsection \<open>The scan\<close>

definition addAssignment :: "scan_env \<Rightarrow> alias_set \<Rightarrow> nat \<Rightarrow> scan_state \<Rightarrow> scan_state" where
  "addAssignment env s base st =
     (let assigned = \<lparr>ra_regClass = as_regClass s, ra_set = as_id s, ra_base = base,
                      ra_width = as_width s, ra_start = as_start s, ra_end = as_end s\<rparr>;
          index = length (ss_assignments st);
          as = ss_assignments st @ [assigned]
      in st\<lparr>ss_assignments := as,
            ss_indexBySet := AList.update (as_id s) index (ss_indexBySet st),
            ss_active := add_ac index as (ss_active st),
            ss_footprints := (if sc_familyBudget env = None then ss_footprints st
                              else add_ft s base (ss_footprints st))\<rparr>)"

definition finishSet :: "scan_env \<Rightarrow> alias_set \<Rightarrow> nat \<Rightarrow> scan_state \<Rightarrow> scan_state" where
  "finishSet env s base st =
     (case checkCombinedPressureFailure env st s base of
        Some f \<Rightarrow> st\<lparr>ss_failure := Some f\<rparr>
      | None \<Rightarrow> addAssignment env s base st)"

definition allocateFixedSet :: "scan_env \<Rightarrow> alias_set \<Rightarrow> budget \<Rightarrow> nat \<Rightarrow> scan_state \<Rightarrow> scan_state" where
  "allocateFixedSet env s budget fixedBase st =
     (let conflict = (conflictsWithActive env (ss_active st) (ss_assignments st) s fixedBase \<and>
                      findReusableInputBase env st s (bu_limit budget) \<noteq> Some fixedBase)
      in if \<not> registerRangeFits fixedBase (as_width s) (bu_limit budget) \<or> conflict
         then st\<lparr>ss_failure := Some (recordPressureFailure env st s budget [])\<rparr>
         else finishSet env s fixedBase st)"

definition allocateSet :: "scan_env \<Rightarrow> alias_set \<Rightarrow> scan_state \<Rightarrow> scan_state result" where
  "allocateSet env s st =
     (let budget = sc_budget env (as_regClass s)
      in case getFixedBase env s of
           Some fixedBase \<Rightarrow> Inr (allocateFixedSet env s budget fixedBase st)
         | None \<Rightarrow>
             let reusable = findReusableInputBase env st s (bu_limit budget)
             in bindR (findFreeBase env st s (bu_limit budget) reusable) (\<lambda>free.
                let base = (if free = None then reusable else free)
                in case base of
                     None \<Rightarrow> Inr (st\<lparr>ss_failure := Some (recordPressureFailure env st s budget
                               (getFixedReservationOverlaps env (ss_active st) s))\<rparr>)
                   | Some b \<Rightarrow> Inr (finishSet env s b st)))"

definition beginSet :: "scan_env \<Rightarrow> alias_set \<Rightarrow> scan_state \<Rightarrow> scan_state" where
  "beginSet env s st =
     st\<lparr>ss_active := expire (as_start s) (ss_assignments st) (ss_active st),
        ss_footprints := (if sc_familyBudget env = None then ss_footprints st
                          else advance_ft (as_start s) (ss_footprints st))\<rparr>"

fun scanSets :: "scan_env \<Rightarrow> alias_set list \<Rightarrow> scan_state \<Rightarrow> scan_state result" where
  "scanSets env [] st = Inr st"
| "scanSets env (s # ss) st =
     bindR (allocateSet env s (beginSet env s st)) (\<lambda>st'.
       if ss_failure st' \<noteq> None then Inr st' else scanSets env ss st')"

datatype scan_outcome =
    ScanFailed scan_failure
  | ScanSucceeded "assignment list" "(nat \<times> RegClass \<times> nat \<times> nat) list"

text \<open>
  \<^verbatim>\<open>buildPendingAssignments\<close>: for every payload value its class, its width and the register
  index it gets.
\<close>

definition getAssignmentBySet :: "scan_state \<Rightarrow> nat \<Rightarrow> assignment option" where
  "getAssignmentBySet st setId =
     map_option (\<lambda>i. ss_assignments st ! i) (map_of (ss_indexBySet st) setId)"

fun buildPendingAssignments ::
    "scan_env \<Rightarrow> scan_state \<Rightarrow> ra_value list \<Rightarrow> (nat \<times> RegClass \<times> nat \<times> nat) list result" where
  "buildPendingAssignments env st [] = Inr []"
| "buildPendingAssignments env st (v # vs) =
     (case getAssignmentBySet st (rv_set v) of
        None \<Rightarrow> Inl Failure
      | Some a \<Rightarrow>
          bindR (buildPendingAssignments env st vs) (\<lambda>rest.
            Inr ((se_payload env ! rv_id v, rv_regClass v, rv_width v,
                  trunc_u32 (ra_base a + rv_offset v)) # rest)))"

text \<open>
  \<^verbatim>\<open>run\<close>, up to the attributes it writes: the failure of the preparation, of the scan or of
  the final footprint check, or the assignments with the register of every value. \<open>typesOk\<close>
  is the outcome of \<^verbatim>\<open>refreshFuncTypeFromBody\<close>, which rejects inconsistent return types.
\<close>

definition run_scan :: "scan_input \<Rightarrow> bool \<Rightarrow> scan_outcome result" where
  "run_scan si typesOk =
     bindR (parseState si) (\<lambda>(env, failure).
       case failure of
         Some f \<Rightarrow> Inr (ScanFailed f)
       | None \<Rightarrow>
           bindR (scanSets env (sc_sets env) init_scan) (\<lambda>st.
             case ss_failure st of
               Some f \<Rightarrow> Inr (ScanFailed f)
             | None \<Rightarrow>
                 (case checkCombinedFootprintFailure env (ss_assignments st) of
                    Some f \<Rightarrow> Inr (ScanFailed f)
                  | None \<Rightarrow>
                      bindR (buildPendingAssignments env st (sc_values env)) (\<lambda>pending.
                        if typesOk then Inr (ScanSucceeded (ss_assignments st) pending)
                        else Inl Failure))))"

end
