(* ===== verification/Reg_Scan_Inv.thy ===== *)
theory Reg_Scan_Inv
  imports Reg_Scan
begin

text \<open>
  Invariants of the linear scan: well-formed decoded states (\<open>state_ok\<close>, what the verifier
  of the packed state enforces and the decoders build), the books of the active assignments
  (\<open>active_ok\<close>: exactly the assignments that reach the current position are live, and every
  index finds them), the meaning of the interval walks of the scan, and the queries over the
  lanes.
\<close>

subsection \<open>Well-formed states\<close>

definition value_ok :: "ra_value \<Rightarrow> bool" where
  "value_ok v \<longleftrightarrow>
     rv_ranges v \<noteq> [] \<and> ordered_ranges (rv_ranges v) \<and>
     rv_start v = lr_start (hd (rv_ranges v)) \<and> rv_end v = lr_end (last (rv_ranges v)) \<and>
     rv_end v \<le> UINT_MAX \<and> 0 < rv_width v"

definition set_ok :: "ra_value list \<Rightarrow> alias_set \<Rightarrow> bool" where
  "set_ok values s \<longleftrightarrow>
     as_members s \<noteq> [] \<and>
     s = decodeAliasSet values (as_regClass s) (as_id s) (as_width s) (as_members s) \<and>
     list_all (\<lambda>m. m < length values \<and> rv_set (values ! m) = as_id s \<and>
                    rv_regClass (values ! m) = as_regClass s \<and>
                    rv_offset (values ! m) + rv_width (values ! m) \<le> as_width s)
       (as_members s)"

definition state_ok :: "ra_value list \<Rightarrow> alias_set list \<Rightarrow> bool" where
  "state_ok values sets \<longleftrightarrow>
     list_all value_ok values \<and>
     map rv_id values = [0..<length values] \<and>
     list_all (\<lambda>v. list_ex (\<lambda>s. as_id s = rv_set v \<and> List.member (as_members s) (rv_id v)) sets)
       values \<and>
     list_all (set_ok values) sets \<and>
     distinct (map as_id sets) \<and>
     sorted (map as_start sets) \<and>
     length sets < UINT_MAX"

lemma ordered_envelope:
  "ordered_ranges rs \<Longrightarrow> rs \<noteq> [] \<Longrightarrow> live_in rs p \<Longrightarrow> lr_start (hd rs) \<le> p \<and> p \<le> lr_end (last rs)"
proof (induction rs)
  case (Cons r rs)
  show ?case
  proof (cases "rs = []")
    case False
    have l: "lr_start (last rs) \<le> lr_end (last rs)" "lr_end r < lr_start (last rs)"
      using Cons.prems(1) ordered_nonempty [of rs "last rs"] False by auto
    have "lr_end r < lr_start (hd rs)" using Cons.prems(1) False by simp
    show ?thesis
    proof (cases "live_in rs p")
      case True
      have "lr_start (hd rs) \<le> p \<and> p \<le> lr_end (last rs)"
        using Cons.IH Cons.prems(1) False True by simp
      moreover have "lr_start r \<le> lr_end r" using Cons.prems(1) by simp
      ultimately have "lr_start r \<le> p" "p \<le> lr_end (last rs)"
        using \<open>lr_end r < lr_start (hd rs)\<close> by linarith+
      then show ?thesis using False by simp
    next
      case not: False
      then have "lr_start r \<le> p" "p \<le> lr_end r" using Cons.prems(3) by auto
      then have "p \<le> lr_end (last rs)" using l by linarith
      then show ?thesis using \<open>lr_start r \<le> p\<close> False by simp
    qed
  qed (use Cons.prems in auto)
qed simp

lemma ordered_start_live: "ordered_ranges rs \<Longrightarrow> rs \<noteq> [] \<Longrightarrow> live_in rs (lr_start (hd rs))"
  by (cases rs) auto

lemma value_ok_live: "value_ok v \<Longrightarrow> live_in (rv_ranges v) p \<Longrightarrow> rv_start v \<le> p \<and> p \<le> rv_end v"
  using ordered_envelope [of "rv_ranges v" p] by (simp add: value_ok_def)

lemma fold_min_le: "fold (\<lambda>v (n::nat). min n (f v)) vs c \<le> c \<and>
    (\<forall>v\<in>set vs. fold (\<lambda>v n. min n (f v)) vs c \<le> f v)"
proof (induction vs arbitrary: c)
  case (Cons v vs)
  from Cons.IH [of "min c (f v)"] show ?case by auto
qed simp

lemma fold_max_le: "c \<le> fold (\<lambda>v (n::nat). max n (f v)) vs c \<and>
    (\<forall>v\<in>set vs. f v \<le> fold (\<lambda>v n. max n (f v)) vs c)"
proof (induction vs arbitrary: c)
  case (Cons v vs)
  from Cons.IH [of "max c (f v)"] show ?case by auto
qed simp

lemma fold_min_attained: "vs \<noteq> [] \<Longrightarrow> (\<forall>v\<in>set vs. f v \<le> c) \<Longrightarrow>
    \<exists>v\<in>set vs. fold (\<lambda>v (n::nat). min n (f v)) vs c = f v"
proof (induction vs arbitrary: c)
  case (Cons v vs)
  then have m: "min c (f v) = f v" by simp
  show ?case
  proof (cases "vs \<noteq> [] \<and> (\<forall>w\<in>set vs. f w \<le> f v)")
    case True
    then show ?thesis using Cons.IH [of "f v"] m by auto
  next
    case False
    have mono: "fold (\<lambda>v (n::nat). min n (f v)) vs k \<in> insert k (f ` set vs)" for k
    proof (induction vs arbitrary: k)
      case (Cons w ws)
      from Cons.IH [of "min k (f w)"] show ?case by (auto simp: min_def split: if_splits)
    qed simp
    from mono [of "f v"] m show ?thesis by auto
  qed
qed simp

lemma set_ok_simps:
  assumes "set_ok values s"
  shows "as_ranges s = mergeLiveRanges (concat (map (\<lambda>m. rv_ranges (values ! m)) (as_members s)))"
    and "as_start s = fold (\<lambda>v n. min n (rv_start (values ! v))) (as_members s) UINT_MAX"
    and "as_end s = fold (\<lambda>v n. max n (rv_end (values ! v))) (as_members s) 0"
proof -
  have e: "s = decodeAliasSet values (as_regClass s) (as_id s) (as_width s) (as_members s)"
    using assms by (simp add: set_ok_def)
  show "as_ranges s = mergeLiveRanges (concat (map (\<lambda>m. rv_ranges (values ! m)) (as_members s)))"
    by (subst e) (simp add: decodeAliasSet_def collectRegAllocTransformAliasSetLiveRanges_def)
  show "as_start s = fold (\<lambda>v n. min n (rv_start (values ! v))) (as_members s) UINT_MAX"
    by (subst e) (simp add: decodeAliasSet_def collectRegAllocTransformAliasSetLiveRanges_def)
  show "as_end s = fold (\<lambda>v n. max n (rv_end (values ! v))) (as_members s) 0"
    by (subst e) (simp add: decodeAliasSet_def collectRegAllocTransformAliasSetLiveRanges_def)
qed


lemma set_ok_member:
  assumes "list_all value_ok values" and "set_ok values s" and "m \<in> set (as_members s)"
  shows "m < length values" and "value_ok (values ! m)" and "rv_set (values ! m) = as_id s"
    and "rv_regClass (values ! m) = as_regClass s"
    and "rv_offset (values ! m) + rv_width (values ! m) \<le> as_width s"
  using assms by (auto simp: set_ok_def list_all_iff)

lemma set_ok_ranges:
  assumes "list_all value_ok values" and "set_ok values s"
  shows "ordered_ranges (as_ranges s)"
    and "live_in (as_ranges s) p \<longleftrightarrow> (\<exists>m\<in>set (as_members s). live_in (rv_ranges (values ! m)) p)"
proof -
  let ?rs = "concat (map (\<lambda>m. rv_ranges (values ! m)) (as_members s))"
  have ne: "\<forall>r\<in>set ?rs. lr_start r \<le> lr_end r"
    using set_ok_member [OF assms] by (auto simp: value_ok_def dest: ordered_nonempty)
  show "ordered_ranges (as_ranges s)"
    using mergeLiveRanges_ordered [OF ne] set_ok_simps(1) [OF assms(2)] by simp
  show "live_in (as_ranges s) p \<longleftrightarrow> (\<exists>m\<in>set (as_members s). live_in (rv_ranges (values ! m)) p)"
    using mergeLiveRanges_live [OF ne, of p] set_ok_simps(1) [OF assms(2)]
    by (auto simp: live_in_def)
qed

lemma set_ok_bounds:
  assumes "list_all value_ok values" and "set_ok values s" and "m \<in> set (as_members s)"
  shows "as_start s \<le> rv_start (values ! m)" and "rv_end (values ! m) \<le> as_end s"
  using fold_min_le [of "\<lambda>v. rv_start (values ! v)" "as_members s" UINT_MAX]
    fold_max_le [of 0 "\<lambda>v. rv_end (values ! v)" "as_members s"]
    set_ok_simps [OF assms(2)] assms(3) by auto

lemma set_ok_live:
  assumes "list_all value_ok values" and "set_ok values s" and "live_in (as_ranges s) p"
  shows "as_start s \<le> p \<and> p \<le> as_end s"
proof -
  obtain m where m: "m \<in> set (as_members s)" "live_in (rv_ranges (values ! m)) p"
    using set_ok_ranges(2) [OF assms(1,2)] assms(3) by blast
  then show ?thesis
    using set_ok_bounds [OF assms(1,2) m(1)]
      value_ok_live [OF set_ok_member(2) [OF assms(1,2) m(1)] m(2)] by simp
qed

lemma set_ok_start:
  assumes "list_all value_ok values" and "set_ok values s"
  shows "live_in (as_ranges s) (as_start s)" and "as_start s \<le> as_end s"
    and "as_ranges s \<noteq> []" and "lr_start (hd (as_ranges s)) = as_start s"
proof -
  have ne: "as_members s \<noteq> []" using assms(2) by (simp add: set_ok_def)
  have "\<forall>m\<in>set (as_members s). rv_start (values ! m) \<le> UINT_MAX"
  proof
    fix m assume m: "m \<in> set (as_members s)"
    have v: "value_ok (values ! m)" by (rule set_ok_member(2) [OF assms m])
    then have "live_in (rv_ranges (values ! m)) (rv_start (values ! m))"
      using ordered_start_live by (simp add: value_ok_def)
    then have "rv_start (values ! m) \<le> rv_end (values ! m)"
      using value_ok_live [OF v] by blast
    then show "rv_start (values ! m) \<le> UINT_MAX" using v by (simp add: value_ok_def)
  qed
  from fold_min_attained [OF ne this] obtain m where
    m: "m \<in> set (as_members s)" "as_start s = rv_start (values ! m)"
    using set_ok_simps(2) [OF assms(2)] by auto
  have v: "value_ok (values ! m)" by (rule set_ok_member(2) [OF assms m(1)])
  then have "live_in (rv_ranges (values ! m)) (as_start s)"
    using ordered_start_live m(2) by (simp add: value_ok_def)
  then show live: "live_in (as_ranges s) (as_start s)"
    using set_ok_ranges(2) [OF assms] m(1) by blast
  then show "as_start s \<le> as_end s" using set_ok_live [OF assms] by blast
  show nonempty: "as_ranges s \<noteq> []" using live by auto
  have "live_in (as_ranges s) (lr_start (hd (as_ranges s)))"
    by (rule ordered_start_live [OF set_ok_ranges(1) [OF assms] nonempty])
  then show "lr_start (hd (as_ranges s)) = as_start s"
    using set_ok_live [OF assms] ordered_envelope [OF set_ok_ranges(1) [OF assms] nonempty live]
    by (metis le_antisym)
qed

subsection \<open>The walks over two interval lists\<close>

text \<open>
  When the walk of \<^verbatim>\<open>memberOverlapIsDestructiveContinuation\<close> does not give up, member and set
  are live together at the end of the set only.
\<close>

lemma overlapsOnlyAtEnd_sound:
  "overlapsOnlyAtEnd s saw ms ss = Some b \<Longrightarrow> ordered_ranges ms \<Longrightarrow> ordered_ranges ss \<Longrightarrow>
   (\<forall>r\<in>set ss. lr_end r \<le> as_end s) \<Longrightarrow> live_in ms p \<Longrightarrow> live_in ss p \<Longrightarrow> p = as_end s"
proof (induction s saw ms ss rule: overlapsOnlyAtEnd.induct)
  case (1 s saw mr ms sr ss)
  show ?case
  proof (cases "liveRangesOverlap mr sr")
    case True
    then have o: "max (lr_start mr) (lr_start sr) = as_end s" "min (lr_end mr) (lr_end sr) = as_end s"
      using "1.prems"(1) by (auto split: if_splits)
    then have e: "lr_end sr = as_end s" "as_end s \<le> lr_end mr"
      using "1.prems"(4) by auto
    have "\<not> live_in ss p"
      using "1.prems"(3,4) e ordered_nonempty [of ss] by (fastforce simp: live_in_def)
    moreover have "\<not> (live_in ms p \<and> lr_start sr \<le> p \<and> p \<le> lr_end sr)"
      using "1.prems"(2) e by (fastforce simp: live_in_def)
    ultimately have "lr_start mr \<le> p \<and> p \<le> lr_end mr \<and> lr_start sr \<le> p \<and> p \<le> lr_end sr"
      using "1.prems"(5,6) by auto
    then show ?thesis using o by (auto simp: max_def min_def split: if_splits)
  next
    case False
    show ?thesis
    proof (cases "lr_end mr < lr_start sr")
      case True
      then have "\<not> (lr_start mr \<le> p \<and> p \<le> lr_end mr)"
        using ordered_live_ge [OF "1.prems"(3,6)] by auto
      then show ?thesis using False True "1.IH"(1) "1.prems" by (auto split: if_splits)
    next
      case right: False
      then have "lr_end sr < lr_start mr" using False unfolding liveRangesOverlap_def by linarith
      then have "\<not> (lr_start sr \<le> p \<and> p \<le> lr_end sr)"
        using ordered_live_ge [OF "1.prems"(2,5)] by auto
      then show ?thesis using False right "1.IH"(2) "1.prems" by (auto split: if_splits)
    qed
  qed
qed auto

text \<open>
  The walk of \<^verbatim>\<open>memberBlocksReusableResult\<close> moves past a range of the set that it found
  overlapping, so it does not look at later ranges of the member that meet the same range of
  the set. \<open>resumedAt\<close> says that this has happened before \<open>p\<close>: a member that ends where the set
  starts is live again, from \<open>q\<close> on, before the first range of the set is over.
\<close>

definition resumedAt :: "alias_set \<Rightarrow> live_range list \<Rightarrow> live_range list \<Rightarrow> nat \<Rightarrow> bool" where
  "resumedAt s ms ss p \<longleftrightarrow>
     (\<exists>r\<in>set ms. \<exists>q\<in>set ms. \<exists>t\<in>set ss.
        lr_end r = as_start s \<and> as_start s < lr_start q \<and> lr_start q \<le> p \<and>
        lr_start t \<le> as_start s \<and> lr_start q \<le> lr_end t)"

lemma resumedAt_Cons:
  "resumedAt s ms ss p \<Longrightarrow> resumedAt s (m # ms) ss p"
  "resumedAt s ms ss p \<Longrightarrow> resumedAt s ms (r # ss) p"
  by (auto simp: resumedAt_def)

lemma blocksReusable_sound:
  "\<not> blocksReusable env s m ms ss \<Longrightarrow> ordered_ranges ms \<Longrightarrow> ordered_ranges ss \<Longrightarrow>
   (\<forall>r\<in>set ss. as_start s \<le> lr_start r \<and> lr_end r \<le> as_end s) \<Longrightarrow>
   live_in ms p \<Longrightarrow> live_in ss p \<Longrightarrow>
   p = as_start s \<or> (p = as_end s \<and> isDestructiveResultContinuation env s m) \<or> resumedAt s ms ss p"
proof (induction env s m ms ss rule: blocksReusable.induct)
  case (1 env s m mr ms sr ss)
  have sr: "as_start s \<le> lr_start sr" "lr_end sr \<le> as_end s" using "1.prems"(4) by auto
  show ?case
  proof (cases "liveRangesOverlap mr sr")
    case True
    then have not_left: "\<not> lr_end mr < lr_start sr" unfolding liveRangesOverlap_def by simp
    let ?c = "liveRangesOverlap mr sr \<and> min (lr_end mr) (lr_end sr) > as_start s \<and>
         (max (lr_start mr) (lr_start sr) \<noteq> as_end s \<or> min (lr_end mr) (lr_end sr) \<noteq> as_end s \<or>
          \<not> isDestructiveResultContinuation env s m)"
    have nc: "\<not> ?c"
    proof
      assume ?c
      from "1.prems"(1) [unfolded blocksReusable.simps if_P [OF this]] show False by simp
    qed
    have next_ok: "\<not> blocksReusable env s m (mr # ms) ss"
      using "1.prems"(1) [unfolded blocksReusable.simps if_not_P [OF nc] if_not_P [OF not_left]] .
    have skip: "lr_end sr < lr_start q \<or> (lr_end mr = as_start s \<and> lr_start sr \<le> as_start s \<and> as_start s < lr_start q)"
      if q: "q \<in> set ms" for q
    proof -
      have later: "lr_end mr < lr_start q" using "1.prems"(2) q by simp
      consider (start) "min (lr_end mr) (lr_end sr) \<le> as_start s"
        | (finish) "min (lr_end mr) (lr_end sr) = as_end s"
        using "1.prems"(1) True by (auto split: if_splits)
      then show ?thesis
      proof cases
        case start
        show ?thesis
        proof (cases "lr_end sr \<le> as_start s")
          case True
          then show ?thesis
            using later sr \<open>liveRangesOverlap mr sr\<close> unfolding liveRangesOverlap_def by linarith
        next
          case False
          then have "lr_end mr \<le> as_start s" using start by (simp add: min_def split: if_splits)
          then have "lr_end mr = as_start s" "lr_start sr = as_start s"
            using \<open>liveRangesOverlap mr sr\<close> sr unfolding liveRangesOverlap_def by linarith+
          then show ?thesis using later by simp
        qed
      next
        case finish
        then show ?thesis using sr later by (auto simp: min_def split: if_splits)
      qed
    qed
    have both: "p = as_start s \<or> (p = as_end s \<and> isDestructiveResultContinuation env s m)"
      if "lr_start mr \<le> p" "p \<le> lr_end mr" "lr_start sr \<le> p" "p \<le> lr_end sr"
      using that "1.prems"(1) True sr by (auto simp: max_def min_def split: if_splits)
    consider "lr_start mr \<le> p \<and> p \<le> lr_end mr \<and> lr_start sr \<le> p \<and> p \<le> lr_end sr"
      | (later) "live_in ss p"
      | (again) q where "q \<in> set ms" "lr_start q \<le> p" "p \<le> lr_end q" "lr_start sr \<le> p" "p \<le> lr_end sr"
      using "1.prems"(5,6) by (auto simp: live_in_def)
    then show ?thesis
    proof cases
      case 1
      then show ?thesis using both by blast
    next
      case later
      then show ?thesis
        using "1.IH"(2) [OF nc not_left next_ok "1.prems"(2) _ _ "1.prems"(5)] "1.prems"(3,4)
          resumedAt_Cons(2) by auto
    next
      case again
      then have "resumedAt s (mr # ms) (sr # ss) p"
        using skip [OF again(1)] unfolding resumedAt_def
        by (intro bexI [of _ mr] bexI [of _ q] bexI [of _ sr]) auto
      then show ?thesis by blast
    qed
  next
    case False
    show ?thesis
    proof (cases "lr_end mr < lr_start sr")
      case True
      then have "\<not> (lr_start mr \<le> p \<and> p \<le> lr_end mr)"
        using ordered_live_ge [OF "1.prems"(3,6)] by auto
      then show ?thesis
        using False True "1.IH"(1) "1.prems" resumedAt_Cons(1) by (auto split: if_splits)
    next
      case right: False
      then have "lr_end sr < lr_start mr" using False unfolding liveRangesOverlap_def by linarith
      then have "\<not> (lr_start sr \<le> p \<and> p \<le> lr_end sr)"
        using ordered_live_ge [OF "1.prems"(2,5)] by auto
      then show ?thesis
        using False right "1.IH"(2) "1.prems" resumedAt_Cons(2) by (auto split: if_splits)
    qed
  qed
qed auto

end
