(* ===== verification/Reg_Active.thy ===== *)
theory Reg_Active
  imports Reg_Scan_Inv
begin

text \<open>
  The active assignments of the linear scan: heaps of the C++ library as a contract (locale
  \<open>heap_order\<close>, interpreted on the three comparisons the allocator uses), the queries over the
  lanes of a register class, and the invariant \<open>active_ok\<close> that expiry and insertion keep.
\<close>

subsection \<open>Heaps\<close>

locale heap_order =
  fixes lt :: "'a \<Rightarrow> 'a \<Rightarrow> bool"
  assumes lt_trans: "lt a b \<Longrightarrow> lt b c \<Longrightarrow> lt a c"
    and lt_irrefl: "\<not> lt a a"
begin

lemma push_set: "set (pushHeap lt x ys) = insert x (set ys)"
  by (induction ys) auto

lemma push_ordered:
  "sorted_wrt (\<lambda>a b. \<not> lt a b) ys \<Longrightarrow> sorted_wrt (\<lambda>a b. \<not> lt a b) (pushHeap lt x ys)"
proof (induction ys)
  case (Cons y ys)
  show ?case
  proof (cases "lt y x")
    case True
    have "\<not> lt x z" if "z \<in> set (y # ys)" for z
      using that Cons.prems lt_trans [OF True] lt_irrefl by auto
    then show ?thesis using True Cons.prems by auto
  next
    case False
    then show ?thesis using Cons by (auto simp: push_set)
  qed
qed simp

lemma front_maximal: "sorted_wrt (\<lambda>a b. \<not> lt a b) (x # xs) \<Longrightarrow> y \<in> set (x # xs) \<Longrightarrow> \<not> lt x y"
  using lt_irrefl by auto

end

interpretation end_heap: heap_order "endHeapCompare as" for as
  by unfold_locales (auto simp: endHeapCompare_def)

interpretation footprint_heap: heap_order activeRangeLess
  by unfold_locales (auto simp: activeRangeLess_def)

interpretation future_heap: heap_order futureRangeLess
  by unfold_locales (auto simp: futureRangeLess_def)

subsection \<open>Queries\<close>

lemma firstVisit_find:
  "\<forall>i\<in>set visited. \<not> (live i \<and> P i) \<Longrightarrow>
   firstVisit live P visited is = List.find (\<lambda>i. live i \<and> P i) is"
  by (induction live P visited "is" rule: firstVisit.induct)
    auto

lemma find_None: "List.find Q xs = None \<longleftrightarrow> (\<forall>x\<in>set xs. \<not> Q x)"
  by (induction xs) auto

lemma find_Some: "List.find Q xs = Some x \<Longrightarrow> x \<in> set xs \<and> Q x"
  by (induction xs) (auto split: if_splits)

lemma getRegClassIndex_inj: "getRegClassIndex c = getRegClassIndex d \<longleftrightarrow> c = d"
  by (cases c; cases d) simp_all

lemma getRegClassIndex_less: "getRegClassIndex c < 5"
  by (cases c) simp_all

definition lane_of :: "assignment \<Rightarrow> nat \<Rightarrow> bool" where
  "lane_of a lane \<longleftrightarrow> ra_base a \<le> lane \<and> lane < ra_base a + ra_width a"

definition lanes_ok :: "assignment list \<Rightarrow> (nat \<Rightarrow> bool) \<Rightarrow> RegClass \<Rightarrow> nat list list \<Rightarrow> bool" where
  "lanes_ok as live c lanes \<longleftrightarrow>
     (\<forall>lane < length lanes. \<forall>i\<in>set (lanes ! lane).
        i < length as \<and> ra_regClass (as ! i) = c \<and> lane_of (as ! i) lane) \<and>
     (\<forall>i lane. live i \<longrightarrow> ra_regClass (as ! i) = c \<longrightarrow> lane_of (as ! i) lane \<longrightarrow>
        lane < length lanes \<and> i \<in> set (lanes ! lane))"

definition class_list_ok :: "assignment list \<Rightarrow> (nat \<Rightarrow> bool) \<Rightarrow> RegClass \<Rightarrow> nat list \<Rightarrow> bool" where
  "class_list_ok as live c is \<longleftrightarrow>
     (\<forall>i\<in>set is. i < length as \<and> ra_regClass (as ! i) = c) \<and>
     (\<forall>i. live i \<longrightarrow> ra_regClass (as ! i) = c \<longrightarrow> i \<in> set is)"

definition active_ok :: "nat \<Rightarrow> assignment list \<Rightarrow> active_assignments \<Rightarrow> bool" where
  "active_ok pos as ac \<longleftrightarrow>
     length (ac_byClass ac) = 5 \<and> length (ac_byClassLane ac) = 5 \<and>
     distinct (map ra_set as) \<and> distinct (map fst (ac_bySet ac)) \<and>
     (\<forall>i. isLive ac i \<longleftrightarrow> i < length as \<and> pos \<le> ra_end (as ! i)) \<and>
     (\<forall>k i. map_of (ac_bySet ac) k = Some i \<longleftrightarrow> isLive ac i \<and> ra_set (as ! i) = k) \<and>
     (\<forall>i\<in>set (ac_byEnd ac). i < length as) \<and> (\<forall>i. isLive ac i \<longrightarrow> i \<in> set (ac_byEnd ac)) \<and>
     sorted_wrt (\<lambda>a b. \<not> endHeapCompare as a b) (ac_byEnd ac) \<and>
     (\<forall>c. lanes_ok as (isLive ac) c (ac_byClassLane ac ! getRegClassIndex c)) \<and>
     (\<forall>c. class_list_ok as (isLive ac) c (ac_byClass ac ! getRegClassIndex c)) \<and>
     (\<forall>i. isLive ac i \<longrightarrow> i \<in> set (ac_ordered ac))"

lemma active_okD:
  assumes "active_ok pos as ac"
  shows "length (ac_byClass ac) = 5" and "length (ac_byClassLane ac) = 5"
    and "distinct (map ra_set as)" and "distinct (map fst (ac_bySet ac))"
    and "isLive ac i \<longleftrightarrow> i < length as \<and> pos \<le> ra_end (as ! i)"
    and "map_of (ac_bySet ac) k = Some i \<longleftrightarrow> isLive ac i \<and> ra_set (as ! i) = k"
    and "i \<in> set (ac_byEnd ac) \<Longrightarrow> i < length as" and "isLive ac i \<Longrightarrow> i \<in> set (ac_byEnd ac)"
    and "sorted_wrt (\<lambda>a b. \<not> endHeapCompare as a b) (ac_byEnd ac)"
    and "lanes_ok as (isLive ac) c (ac_byClassLane ac ! getRegClassIndex c)"
    and "class_list_ok as (isLive ac) c (ac_byClass ac ! getRegClassIndex c)"
    and "isLive ac i \<Longrightarrow> i \<in> set (ac_ordered ac)"
  using assms unfolding active_ok_def by simp_all

lemma overlap_lane:
  "assignedRangesOverlap a base width \<longleftrightarrow>
     (\<exists>lane. base \<le> lane \<and> lane < base + width \<and> lane_of a lane)" if "0 < ra_width a" "0 < width"
proof
  assume "assignedRangesOverlap a base width"
  then show "\<exists>lane. base \<le> lane \<and> lane < base + width \<and> lane_of a lane"
    using that by (intro exI [of _ "max base (ra_base a)"])
      (auto simp: assignedRangesOverlap_def lane_of_def max_def)
next
  assume "\<exists>lane. base \<le> lane \<and> lane < base + width \<and> lane_of a lane"
  then show "assignedRangesOverlap a base width"
    by (auto simp: assignedRangesOverlap_def lane_of_def)
qed

text \<open>
  A query over the lanes finds an assignment exactly when a live assignment of the class that
  overlaps the register range satisfies the predicate.
\<close>

lemma query_None:
  assumes ok: "active_ok pos as ac" and small: "base + width < 4294967296" and "0 < width"
    and pos: "\<forall>a\<in>set as. 0 < ra_width a"
  shows "anyRegClassOverlappingRange ac c base width as P = None \<longleftrightarrow>
    (\<forall>i. isLive ac i \<longrightarrow> ra_regClass (as ! i) = c \<longrightarrow> assignedRangesOverlap (as ! i) base width \<longrightarrow>
       \<not> P (as ! i))"
proof -
  let ?lanes = "ac_byClassLane ac ! getRegClassIndex c"
  let ?upper = "min (trunc_u32 (base + width)) (length ?lanes)"
  let ?is = "concat (map (\<lambda>lane. ?lanes ! lane) [base ..< ?upper])"
  have lanes: "lanes_ok as (isLive ac) c ?lanes" using ok by (simp add: active_ok_def)
  have bound: "i < length as" if "isLive ac i" for i using that ok by (simp add: active_ok_def)
  have e: "trunc_u32 (base + width) = base + width" using small by (simp add: arith64_simps)
  have visited: "i \<in> set ?is \<longleftrightarrow> ra_regClass (as ! i) = c \<and> assignedRangesOverlap (as ! i) base width"
    if live: "isLive ac i" for i
  proof
    assume "i \<in> set ?is"
    then obtain lane where l: "base \<le> lane" "lane < base + width" "lane < length ?lanes"
        "i \<in> set (?lanes ! lane)"
      using e by auto
    then show "ra_regClass (as ! i) = c \<and> assignedRangesOverlap (as ! i) base width"
      using lanes bound live pos overlap_lane [of "as ! i" width base] assms(3)
      unfolding lanes_ok_def by (metis nth_mem)
  next
    assume a: "ra_regClass (as ! i) = c \<and> assignedRangesOverlap (as ! i) base width"
    then obtain lane where l: "base \<le> lane" "lane < base + width" "lane_of (as ! i) lane"
      using overlap_lane [of "as ! i" width base] pos bound assms(3) live by (metis nth_mem)
    then have "lane < length ?lanes \<and> i \<in> set (?lanes ! lane)"
      using lanes a live unfolding lanes_ok_def by blast
    then show "i \<in> set ?is" using l e by auto
  qed
  have "anyRegClassOverlappingRange ac c base width as P = None \<longleftrightarrow>
      List.find (\<lambda>i. isLive ac i \<and> P (as ! i)) ?is = None"
    by (auto simp: anyRegClassOverlappingRange_def Let_def firstVisit_find)
  also have "\<dots> \<longleftrightarrow> (\<forall>i. isLive ac i \<longrightarrow> i \<in> set ?is \<longrightarrow> \<not> P (as ! i))"
    unfolding find_None by blast
  also have "\<dots> \<longleftrightarrow> (\<forall>i. isLive ac i \<longrightarrow> ra_regClass (as ! i) = c \<longrightarrow>
      assignedRangesOverlap (as ! i) base width \<longrightarrow> \<not> P (as ! i))"
    using visited by blast
  finally show ?thesis .
qed

lemma query_Some:
  assumes ok: "active_ok pos as ac"
    and q: "anyRegClassOverlappingRange ac c base width as P = Some a"
  shows "\<exists>i. isLive ac i \<and> a = as ! i \<and> ra_regClass a = c \<and> P a"
proof -
  let ?lanes = "ac_byClassLane ac ! getRegClassIndex c"
  have lanes: "lanes_ok as (isLive ac) c ?lanes" using ok by (simp add: active_ok_def)
  obtain i where i: "a = as ! i"
      "List.find (\<lambda>i. isLive ac i \<and> P (as ! i))
         (concat (map (\<lambda>lane. ?lanes ! lane)
            [base ..< min (trunc_u32 (base + width)) (length ?lanes)])) = Some i"
    using q by (auto simp: anyRegClassOverlappingRange_def Let_def firstVisit_find split: if_splits)
  from find_Some [OF i(2)] obtain lane where
    "isLive ac i" "P (as ! i)" "lane < length ?lanes" "i \<in> set (?lanes ! lane)" by auto
  then show ?thesis using i(1) lanes unfolding lanes_ok_def by blast
qed

subsection \<open>Expiry\<close>

lemma isLive_off: "isLive (ac\<lparr>ac_bySet := m, ac_live := (ac_live ac)[i := False], ac_stale := n\<rparr>) j
    \<longleftrightarrow> isLive ac j \<and> j \<noteq> i"
  by (cases "j = i") (auto simp: isLive_def)

lemma map_of_delete: "map_of (AList.delete k m) l = (if l = k then None else map_of m l)"
  by (simp add: AList.delete_conv)

lemma expireLoop_books:
  assumes "distinct (map ra_set as)"
  shows "(\<forall>k i. map_of (ac_bySet ac) k = Some i \<longleftrightarrow> isLive ac i \<and> ra_set (as ! i) = k) \<Longrightarrow>
    (\<forall>i. isLive ac i \<longrightarrow> i < length as) \<Longrightarrow> distinct (map fst (ac_bySet ac)) \<Longrightarrow>
    sorted_wrt (\<lambda>a b. \<not> endHeapCompare as a b) is \<Longrightarrow>
    ac' = expireLoop pos as is ac \<Longrightarrow>
    (\<forall>k i. map_of (ac_bySet ac') k = Some i \<longleftrightarrow> isLive ac' i \<and> ra_set (as ! i) = k) \<and>
    distinct (map fst (ac_bySet ac')) \<and>
    (\<forall>i. isLive ac' i \<longleftrightarrow> isLive ac i \<and> \<not> (i \<in> set is \<and> ra_end (as ! i) < pos)) \<and>
    ac_byEnd ac' = filter (\<lambda>i. pos \<le> ra_end (as ! i)) is \<and>
    ac_ordered ac' = ac_ordered ac \<and> ac_byClass ac' = ac_byClass ac \<and>
    ac_byClassLane ac' = ac_byClassLane ac"
proof (induction "is" arbitrary: ac)
  case Nil
  then show ?case by (simp add: isLive_def)
next
  case (Cons i "is")
  show ?case
  proof (cases "pos \<le> ra_end (as ! i)")
    case True
    have "pos \<le> ra_end (as ! j)" if "j \<in> set (i # is)" for j
      using end_heap.front_maximal [OF Cons.prems(4) that] True
      by (auto simp: endHeapCompare_def)
    then have "filter (\<lambda>i. pos \<le> ra_end (as ! i)) (i # is) = i # is"
      by (auto simp: filter_id_conv)
    moreover have "\<not> (j \<in> set (i # is) \<and> ra_end (as ! j) < pos)" for j
      using \<open>\<And>j. j \<in> set (i # is) \<Longrightarrow> pos \<le> ra_end (as ! j)\<close> [of j] by auto
    moreover have "ac' = ac\<lparr>ac_byEnd := i # is\<rparr>" using Cons.prems(5) True by simp
    ultimately show ?thesis using Cons.prems(1-3) by (simp add: isLive_def)
  next
    case low: False
    show ?thesis
    proof (cases "map_of (ac_bySet ac) (ra_set (as ! i)) = Some i")
      case False
      have "\<not> isLive ac i" using Cons.prems(1) False by blast
      then show ?thesis
        using Cons.IH [OF Cons.prems(1-3)] Cons.prems(4,5) low False by auto
    next
      case True
      let ?ac = "ac\<lparr>ac_bySet := AList.delete (ra_set (as ! i)) (ac_bySet ac),
                 ac_live := (ac_live ac)[i := False], ac_stale := ac_stale ac + 1\<rparr>"
      have live: "isLive ac i" using Cons.prems(1) True by blast
      have books: "map_of (ac_bySet ?ac) k = Some j \<longleftrightarrow> isLive ?ac j \<and> ra_set (as ! j) = k" for k j
      proof -
        have "isLive ac j \<Longrightarrow> ra_set (as ! j) = ra_set (as ! i) \<Longrightarrow> j = i"
          using Cons.prems(1) True by (metis option.inject)
        then show ?thesis
          using Cons.prems(1) by (auto simp: map_of_delete isLive_off)
      qed
      have "distinct (map fst (ac_bySet ?ac))"
        using Cons.prems(3) by (simp add: AList.distinct_delete)
      moreover have "\<forall>j. isLive ?ac j \<longrightarrow> j < length as"
        using Cons.prems(2) by (simp add: isLive_off)
      ultimately have "(\<forall>k j. map_of (ac_bySet ac') k = Some j \<longleftrightarrow> isLive ac' j \<and> ra_set (as ! j) = k) \<and>
          distinct (map fst (ac_bySet ac')) \<and>
          (\<forall>j. isLive ac' j \<longleftrightarrow> isLive ?ac j \<and> \<not> (j \<in> set is \<and> ra_end (as ! j) < pos)) \<and>
          ac_byEnd ac' = filter (\<lambda>i. pos \<le> ra_end (as ! i)) is \<and>
          ac_ordered ac' = ac_ordered ?ac \<and> ac_byClass ac' = ac_byClass ?ac \<and>
          ac_byClassLane ac' = ac_byClassLane ?ac"
        using books Cons.prems(4,5) low True by (intro Cons.IH) auto
      then show ?thesis using low by (auto simp: isLive_off)
    qed
  qed
qed

lemma isLive_compact: "isLive (compact ac) i \<longleftrightarrow> isLive ac i"
  by (simp add: compact_def isLive_def)

lemma isLive_filter_mono:
  "lanes_ok as live c lanes \<Longrightarrow> (\<And>i. live' i \<Longrightarrow> live i) \<Longrightarrow> lanes_ok as live' c lanes"
  "class_list_ok as live c is \<Longrightarrow> (\<And>i. live' i \<Longrightarrow> live i) \<Longrightarrow> class_list_ok as live' c is"
  unfolding lanes_ok_def class_list_ok_def by blast+

lemma lanes_ok_filter:
  "lanes_ok as live c lanes \<Longrightarrow> lanes_ok as live c (map (filter live) lanes)"
  "class_list_ok as live c is \<Longrightarrow> class_list_ok as live c (filter live is)"
  unfolding lanes_ok_def class_list_ok_def by auto

lemma active_ok_compact: "active_ok pos as ac \<Longrightarrow> active_ok pos as (compact ac)"
proof -
  assume ok: "active_ok pos as ac"
  have i: "isLive (compact ac) = isLive ac" by (rule ext) (rule isLive_compact)
  have lanes: "lanes_ok as (isLive ac) c (ac_byClassLane (compact ac) ! getRegClassIndex c)" for c
    using ok lanes_ok_filter(1) [of as "isLive ac" c "ac_byClassLane ac ! getRegClassIndex c"]
      getRegClassIndex_less [of c] by (simp add: active_ok_def compact_def)
  have cls: "class_list_ok as (isLive ac) c (ac_byClass (compact ac) ! getRegClassIndex c)" for c
    using ok lanes_ok_filter(2) [of as "isLive ac" c "ac_byClass ac ! getRegClassIndex c"]
      getRegClassIndex_less [of c] by (simp add: active_ok_def compact_def)
  have "\<forall>j. isLive ac j \<longrightarrow> j \<in> set (ac_ordered (compact ac))"
    using ok by (simp add: active_ok_def compact_def)
  moreover have "ac_bySet (compact ac) = ac_bySet ac" "ac_byEnd (compact ac) = ac_byEnd ac"
    "length (ac_byClass (compact ac)) = length (ac_byClass ac)"
    "length (ac_byClassLane (compact ac)) = length (ac_byClassLane ac)"
    by (simp_all add: compact_def)
  ultimately show ?thesis using ok lanes cls unfolding active_ok_def i by simp
qed

lemma active_ok_expire:
  assumes ok: "active_ok pos as ac" and "pos \<le> pos'"
  shows "active_ok pos' as (expire pos' as ac)"
proof -
  define ac' where "ac' = expireLoop pos' as (ac_byEnd ac) ac"
  note d = active_okD [OF ok]
  have "\<forall>k i. map_of (ac_bySet ac) k = Some i \<longleftrightarrow> isLive ac i \<and> ra_set (as ! i) = k"
    "\<forall>i. isLive ac i \<longrightarrow> i < length as"
    using d(6) d(5) by blast+
  note books = expireLoop_books [OF d(3) this d(4) d(9) ac'_def]
  note b = books [THEN conjunct1, rule_format] books [THEN conjunct2, THEN conjunct1]
    books [THEN conjunct2, THEN conjunct2, THEN conjunct1, rule_format]
    books [THEN conjunct2, THEN conjunct2, THEN conjunct2, THEN conjunct1]
    books [THEN conjunct2, THEN conjunct2, THEN conjunct2, THEN conjunct2, THEN conjunct1]
    books [THEN conjunct2, THEN conjunct2, THEN conjunct2, THEN conjunct2, THEN conjunct2, THEN conjunct1]
    books [THEN conjunct2, THEN conjunct2, THEN conjunct2, THEN conjunct2, THEN conjunct2, THEN conjunct2]
  have live: "isLive ac' i \<longleftrightarrow> i < length as \<and> pos' \<le> ra_end (as ! i)" for i
    using b(3) [of i] d(5) [of i] d(8) [of i] assms(2) by auto
  have sub: "isLive ac' i \<Longrightarrow> isLive ac i" for i using b(3) [of i] by simp
  have lanes: "lanes_ok as (isLive ac') c (ac_byClassLane ac' ! getRegClassIndex c)" for c
    unfolding b(7) by (rule isLive_filter_mono(1) [OF d(10) sub])
  have cls: "class_list_ok as (isLive ac') c (ac_byClass ac' ! getRegClassIndex c)" for c
    unfolding b(6) by (rule isLive_filter_mono(2) [OF d(11) sub])
  have ends: "i < length as" if "i \<in> set (ac_byEnd ac')" for i
    using that d(7) unfolding b(4) by simp
  have kept: "i \<in> set (ac_byEnd ac') \<and> i \<in> set (ac_ordered ac')" if "isLive ac' i" for i
    using live [of i] that d(8) [OF sub [OF that]] d(12) [OF sub [OF that]] unfolding b(4,5) by simp
  have heap: "sorted_wrt (\<lambda>a b. \<not> endHeapCompare as a b) (ac_byEnd ac')"
    unfolding b(4) by (rule sorted_wrt_filter [OF d(9)])
  have "active_ok pos' as ac'"
    unfolding active_ok_def
    using d(1-3) b(1,2) live lanes cls ends kept heap unfolding b(6,7)
    by (intro conjI allI ballI impI) simp_all
  then show ?thesis
    using active_ok_compact by (simp add: expire_def Let_def ac'_def [symmetric])
qed

subsection \<open>Insertion\<close>

lemma fold_lanes:
  "distinct ks \<Longrightarrow> (\<forall>k\<in>set ks. k < length ls) \<Longrightarrow>
   length (fold (\<lambda>k ls. ls[k := ls ! k @ [i]]) ks ls) = length ls \<and>
   (\<forall>k < length ls. fold (\<lambda>k ls. ls[k := ls ! k @ [i]]) ks ls ! k =
      (if k \<in> set ks then ls ! k @ [i] else ls ! k))"
proof (induction ks arbitrary: ls)
  case (Cons k ks)
  then show ?case using Cons.IH [of "ls[k := ls ! k @ [i]]"] by (auto simp: nth_list_update)
qed simp

lemma resizeList_simps:
  "length (resizeList n x xs) = n"
  "k < n \<Longrightarrow> resizeList n x xs ! k = (if k < length xs then xs ! k else x)"
  by (auto simp: resizeList_def nth_append)

lemma addLanes_simps:
  "length (addLanes base finish i lanes) = max finish (length lanes)"
  "k < max finish (length lanes) \<Longrightarrow> addLanes base finish i lanes ! k =
     (if k < length lanes then lanes ! k else []) @ (if base \<le> k \<and> k < finish then [i] else [])"
proof -
  let ?ls = "if finish > length lanes then resizeList finish [] lanes else lanes"
  have len: "length ?ls = max finish (length lanes)" by (auto simp: resizeList_simps)
  have f: "length (addLanes base finish i lanes) = length ?ls"
    "\<And>k. k < length ?ls \<Longrightarrow> addLanes base finish i lanes ! k =
       (if base \<le> k \<and> k < finish then ?ls ! k @ [i] else ?ls ! k)"
    using fold_lanes [of "[base..<finish]" ?ls i] len
    by (auto simp: addLanes_def Let_def)
  show "length (addLanes base finish i lanes) = max finish (length lanes)"
    using f(1) len by simp
  show "k < max finish (length lanes) \<Longrightarrow> addLanes base finish i lanes ! k =
     (if k < length lanes then lanes ! k else []) @ (if base \<le> k \<and> k < finish then [i] else [])"
    using f(2) [of k] len by (auto simp: resizeList_simps)
qed

lemma isLive_add: "isLive (add_ac n as ac) i \<longleftrightarrow> isLive ac i \<or> i = n"
  by (cases "i = n") (auto simp: isLive_def add_ac_def Let_def resizeList_simps split: if_splits)

lemma add_ac_simps:
  "ac_ordered (add_ac n as ac) = ac_ordered ac @ [n]"
  "ac_bySet (add_ac n as ac) = AList.update (ra_set (as ! n)) n (ac_bySet ac)"
  "ac_byEnd (add_ac n as ac) = pushHeap (endHeapCompare as) n (ac_byEnd ac)"
  "length (ac_byClass (add_ac n as ac)) = length (ac_byClass ac)"
  "length (ac_byClassLane (add_ac n as ac)) = length (ac_byClassLane ac)"
  by (simp_all add: add_ac_def Let_def)

lemma add_ac_class:
  assumes "length (ac_byClass ac) = 5" and "length (ac_byClassLane ac) = 5"
  shows "ac_byClass (add_ac n as ac) ! getRegClassIndex c =
      ac_byClass ac ! getRegClassIndex c @ (if ra_regClass (as ! n) = c then [n] else [])"
    and "ac_byClassLane (add_ac n as ac) ! getRegClassIndex c =
      (if ra_regClass (as ! n) = c
       then addLanes (ra_base (as ! n)) (trunc_u32 (ra_base (as ! n) + ra_width (as ! n))) n
              (ac_byClassLane ac ! getRegClassIndex c)
       else ac_byClassLane ac ! getRegClassIndex c)"
  using assms getRegClassIndex_less [of c]
  by (auto simp: add_ac_def Let_def nth_list_update getRegClassIndex_inj)

lemma lanes_ok_add:
  assumes lanes: "lanes_ok as live c lanes" and small: "ra_base a + ra_width a < 4294967296"
    and live: "\<And>i. live i \<Longrightarrow> i < length as"
  shows "lanes_ok (as @ [a]) (\<lambda>i. live i \<or> i = length as) c
    (if ra_regClass a = c
     then addLanes (ra_base a) (trunc_u32 (ra_base a + ra_width a)) (length as) lanes else lanes)"
proof -
  have e: "trunc_u32 (ra_base a + ra_width a) = ra_base a + ra_width a"
    using small by (simp add: arith64_simps)
  have old: "i < length as \<Longrightarrow> (as @ [a]) ! i = as ! i" for i by (simp add: nth_append)
  have elem: "i < length as \<and> ra_regClass (as ! i) = c \<and> lane_of (as ! i) k"
    if "k < length lanes" "i \<in> set (lanes ! k)" for i k
    using lanes that unfolding lanes_ok_def by blast
  have covers: "k < length lanes \<and> i \<in> set (lanes ! k)"
    if "live i" "ra_regClass (as ! i) = c" "lane_of (as ! i) k" for i k
    using lanes that unfolding lanes_ok_def by blast
  show ?thesis
  proof (cases "ra_regClass a = c")
    case False
    have "i < length (as @ [a]) \<and> ra_regClass ((as @ [a]) ! i) = c \<and> lane_of ((as @ [a]) ! i) k"
      if "k < length lanes" "i \<in> set (lanes ! k)" for i k
      using elem [OF that] old [of i] by simp
    moreover have "k < length lanes \<and> i \<in> set (lanes ! k)"
      if "live i \<or> i = length as" "ra_regClass ((as @ [a]) ! i) = c" "lane_of ((as @ [a]) ! i) k" for i k
      using that covers [of i k] live [of i] old [of i] False by auto
    ultimately show ?thesis using False unfolding lanes_ok_def by simp
  next
    case True
    let ?new = "addLanes (ra_base a) (ra_base a + ra_width a) (length as) lanes"
    have nth: "set (?new ! k) = (if k < length lanes then set (lanes ! k) else {}) \<union>
        (if lane_of a k then {length as} else {})"
      if "k < max (ra_base a + ra_width a) (length lanes)" for k
      using addLanes_simps(2) [OF that] by (auto simp: lane_of_def)
    have sound: "i < length (as @ [a]) \<and> ra_regClass ((as @ [a]) ! i) = c \<and> lane_of ((as @ [a]) ! i) k"
      if "k < length ?new" "i \<in> set (?new ! k)" for i k
      using that nth [of k] elem [of k i] old [of i] True
      by (auto simp: addLanes_simps(1) split: if_splits)
    have complete: "k < length ?new \<and> i \<in> set (?new ! k)"
      if "live i \<or> i = length as" "ra_regClass ((as @ [a]) ! i) = c" "lane_of ((as @ [a]) ! i) k" for i k
    proof (cases "i = length as")
      case True
      then have "lane_of a k" using that(3) by simp
      then show ?thesis using nth [of k] True by (auto simp: addLanes_simps(1) lane_of_def)
    next
      case False
      then have "k < length lanes \<and> i \<in> set (lanes ! k)"
        using that covers [of i k] live old by auto
      then show ?thesis using nth [of k] by (auto simp: addLanes_simps(1))
    qed
    show ?thesis using True e sound complete unfolding lanes_ok_def by simp
  qed
qed

lemma active_ok_add:
  assumes ok: "active_ok pos as ac" and new: "ra_set a \<notin> set (map ra_set as)"
    and pos: "pos \<le> ra_end a" and small: "ra_base a + ra_width a < 4294967296"
  shows "active_ok pos (as @ [a]) (add_ac (length as) (as @ [a]) ac)"
proof -
  let ?as = "as @ [a]" and ?n = "length as"
  let ?ac = "add_ac ?n ?as ac"
  note d = active_okD [OF ok]
  have old: "i < ?n \<Longrightarrow> ?as ! i = as ! i" for i by (simp add: nth_append)
  have live: "isLive ?ac = (\<lambda>i. isLive ac i \<or> i = ?n)" by (rule ext) (rule isLive_add)
  have bound: "isLive ac i \<Longrightarrow> i < ?n" for i using d(5) by blast
  have livepos: "isLive ?ac i \<longleftrightarrow> i < length ?as \<and> pos \<le> ra_end (?as ! i)" for i
    using d(5) [of i] pos unfolding live by (auto simp: nth_append)
  have books: "map_of (ac_bySet ?ac) k = Some i \<longleftrightarrow> isLive ?ac i \<and> ra_set (?as ! i) = k" for k i
  proof (cases "k = ra_set a")
    case True
    have "\<not> (isLive ac i \<and> ra_set (as ! i) = k)"
      using new True bound [of i] nth_mem [of i as] by (metis imageI set_map)
    then show ?thesis
      using True bound old unfolding live add_ac_simps by (auto simp: AList.update_conv nth_append)
  next
    case False
    then show ?thesis
      using d(6) [of k i] bound old unfolding live add_ac_simps
      by (auto simp: AList.update_conv nth_append)
  qed
  have same: "endHeapCompare ?as i j = endHeapCompare as i j"
    if "i \<in> set (ac_byEnd ac)" "j \<in> set (ac_byEnd ac)" for i j
    using d(7) [OF that(1)] d(7) [OF that(2)] by (simp add: endHeapCompare_def nth_append)
  have "sorted_wrt (\<lambda>a b. \<not> endHeapCompare ?as a b) (ac_byEnd ac)"
    by (rule sorted_wrt_mono_rel [OF _ d(9)]) (simp add: same)
  then have heap: "sorted_wrt (\<lambda>a b. \<not> endHeapCompare ?as a b) (ac_byEnd ?ac)"
    unfolding add_ac_simps by (rule end_heap.push_ordered)
  have ends: "i \<in> set (ac_byEnd ?ac) \<Longrightarrow> i < length ?as" for i
    unfolding add_ac_simps using d(7) [of i] by (auto simp: end_heap.push_set)
  have kept: "isLive ?ac i \<Longrightarrow> i \<in> set (ac_byEnd ?ac) \<and> i \<in> set (ac_ordered ?ac)" for i
    unfolding add_ac_simps live using d(8) [of i] d(12) [of i] by (auto simp: end_heap.push_set)
  have lanes: "lanes_ok ?as (isLive ?ac) c (ac_byClassLane ?ac ! getRegClassIndex c)" for c
    unfolding live add_ac_class(2) [OF d(1,2)] nth_append_length
    by (rule lanes_ok_add [OF d(10) small bound])
  have cls: "class_list_ok ?as (isLive ?ac) c (ac_byClass ?ac ! getRegClassIndex c)" for c
  proof -
    let ?l = "ac_byClass ac ! getRegClassIndex c"
    have in_old: "i < ?n \<and> ra_regClass (as ! i) = c" if "i \<in> set ?l" for i
      using d(11) [of c] that unfolding class_list_ok_def by blast
    have from_live: "i \<in> set ?l" if "isLive ac i" "ra_regClass (as ! i) = c" for i
      using d(11) [of c] that unfolding class_list_ok_def by blast
    have sound: "i < length ?as \<and> ra_regClass (?as ! i) = c"
      if "i \<in> set (?l @ (if ra_regClass a = c then [?n] else []))" for i
      using that in_old [of i] old [of i] by (cases "i \<in> set ?l") (auto split: if_splits)
    have complete: "i \<in> set (?l @ (if ra_regClass a = c then [?n] else []))"
      if "isLive ac i \<or> i = ?n" "ra_regClass (?as ! i) = c" for i
      using that from_live [of i] bound [of i] old [of i] by (cases "i = ?n") auto
    show ?thesis
      unfolding class_list_ok_def live add_ac_class(1) [OF d(1,2)] nth_append_length
      using sound complete by blast
  qed
  have sets: "distinct (map ra_set ?as)" using d(3) new by simp
  have keys: "distinct (map fst (ac_bySet ?ac))"
    unfolding add_ac_simps by (rule AList.distinct_update [OF d(4)])
  have len: "length (ac_byClass ?ac) = 5" "length (ac_byClassLane ?ac) = 5"
    unfolding add_ac_simps by (rule d(1), rule d(2))
  have all: "\<forall>i. isLive ?ac i \<longleftrightarrow> i < length ?as \<and> pos \<le> ra_end (?as ! i)"
    "\<forall>k i. map_of (ac_bySet ?ac) k = Some i \<longleftrightarrow> isLive ?ac i \<and> ra_set (?as ! i) = k"
    "\<forall>i\<in>set (ac_byEnd ?ac). i < length ?as"
    "\<forall>i. isLive ?ac i \<longrightarrow> i \<in> set (ac_byEnd ?ac)"
    "\<forall>i. isLive ?ac i \<longrightarrow> i \<in> set (ac_ordered ?ac)"
    using livepos books ends kept by blast+
  show ?thesis
    unfolding active_ok_def
    by (intro conjI allI [of "\<lambda>c. lanes_ok ?as (isLive ?ac) c (ac_byClassLane ?ac ! getRegClassIndex c)"]
        allI [of "\<lambda>c. class_list_ok ?as (isLive ?ac) c (ac_byClass ?ac ! getRegClassIndex c)"])
      (rule len sets keys all heap lanes cls)+
qed

lemma active_ok_init: "active_ok 0 [] noActive"
  unfolding active_ok_def noActive_def isLive_def lanes_ok_def class_list_ok_def
  using getRegClassIndex_less by (auto simp: nth_append)

end
