(* ===== verification/Reg_Scan_Props.thy ===== *)
theory Reg_Scan_Props
  imports Reg_Active
begin

text \<open>
  Correctness of the linear scan. \<open>env_ok\<close> collects what the scan relies on: a well-formed
  decoded state and budgets, reservations and alignments far below the unsigned range.
  \<open>scan_ok\<close> is the invariant of the scan; its core is \<open>separated\<close>: two assignments of one
  register class hold a register at the same position only where the code means them to share
  it. On top of it: the search for a base is a first fit, and the outcome of a run.
\<close>

subsection \<open>What the scan relies on\<close>

definition env_ok :: "scan_env \<Rightarrow> bool" where
  "env_ok env \<longleftrightarrow>
     state_ok (sc_values env) (sc_sets env) \<and>
     (\<forall>k s. getSetById env k = Some s \<longleftrightarrow> s \<in> set (sc_sets env) \<and> as_id s = k) \<and>
     (\<forall>c. bu_limit (sc_budget env c) \<le> 1073741824) \<and>
     (\<forall>c. \<forall>r\<in>set (reservationsOfClass (se_reservations env) c).
        ra_base r + ra_width r \<le> 1073741824) \<and>
     (\<forall>limits. sc_limits env = Some limits \<longrightarrow> rl_vgprTupleAlignment limits \<le> 1073741824)"

lemma env_okD:
  assumes "env_ok env"
  shows "list_all value_ok (sc_values env)"
    and "s \<in> set (sc_sets env) \<Longrightarrow> set_ok (sc_values env) s"
    and "s \<in> set (sc_sets env) \<Longrightarrow> getSetById env (as_id s) = Some s"
    and "bu_limit (sc_budget env c) \<le> 1073741824"
    and "distinct (map as_id (sc_sets env))" and "sorted (map as_start (sc_sets env))"
    and "v \<in> set (sc_values env) \<Longrightarrow> \<exists>s\<in>set (sc_sets env). as_id s = rv_set v \<and> rv_id v \<in> set (as_members s)"
    and "v \<in> set (sc_values env) \<Longrightarrow> sc_values env ! rv_id v = v"
    and "getSetById env k = Some s \<Longrightarrow> s \<in> set (sc_sets env) \<and> as_id s = k"
proof -
  have st: "state_ok (sc_values env) (sc_sets env)" using assms by (simp add: env_ok_def)
  show "list_all value_ok (sc_values env)" "distinct (map as_id (sc_sets env))"
    "sorted (map as_start (sc_sets env))"
    using st by (simp_all add: state_ok_def)
  show "s \<in> set (sc_sets env) \<Longrightarrow> set_ok (sc_values env) s"
    using st by (simp add: state_ok_def list_all_iff)
  show "s \<in> set (sc_sets env) \<Longrightarrow> getSetById env (as_id s) = Some s"
    "bu_limit (sc_budget env c) \<le> 1073741824"
    "getSetById env k = Some s \<Longrightarrow> s \<in> set (sc_sets env) \<and> as_id s = k"
    using assms by (simp_all add: env_ok_def)
  show "v \<in> set (sc_values env) \<Longrightarrow>
      \<exists>s\<in>set (sc_sets env). as_id s = rv_set v \<and> rv_id v \<in> set (as_members s)"
    using st by (auto simp: state_ok_def list_all_iff list_ex_iff)
  assume "v \<in> set (sc_values env)"
  then obtain i where i: "i < length (sc_values env)" "v = sc_values env ! i"
    by (auto simp: in_set_conv_nth)
  have "map rv_id (sc_values env) ! i = [0..<length (sc_values env)] ! i"
    using st by (simp add: state_ok_def)
  then show "sc_values env ! rv_id v = v" using i by simp
qed

definition assignment_ok :: "scan_env \<Rightarrow> assignment \<Rightarrow> bool" where
  "assignment_ok env a \<longleftrightarrow>
     (\<exists>s\<in>set (sc_sets env).
        a = \<lparr>ra_regClass = as_regClass s, ra_set = as_id s, ra_base = ra_base a,
             ra_width = as_width s, ra_start = as_start s, ra_end = as_end s\<rparr> \<and>
        ra_base a + as_width s \<le> bu_limit (sc_budget env (as_regClass s)) \<and>
        (case getFixedBase env s of
           Some b \<Rightarrow> ra_base a = b
         | None \<Rightarrow> setBaseIsLegal env s (ra_base a)))"

text \<open>The registers of a value inside the assignment of its set meet those of another assignment.\<close>

definition sharesRegister :: "assignment \<Rightarrow> ra_value \<Rightarrow> assignment \<Rightarrow> bool" where
  "sharesRegister a v b \<longleftrightarrow>
     ra_base a + rv_offset v < ra_base b + ra_width b \<and>
     ra_base b < ra_base a + rv_offset v + rv_width v"

definition reusesOperandOf :: "scan_env \<Rightarrow> alias_set \<Rightarrow> nat \<Rightarrow> bool" where
  "reusesOperandOf env s setId \<longleftrightarrow>
     (case getSingleResultValue env s of
        None \<Rightarrow> False
      | Some result \<Rightarrow>
          (case ir_def (sc_ir env) (se_payload env ! rv_id result) of
             None \<Rightarrow> False
           | Some d \<Rightarrow>
               (\<exists>(n, operand)\<in>set (enumerate 0 (po_operands (ir_op (sc_ir env) d))).
                  canReuseKilledOperandOfOp (sc_ir env) d n \<and>
                  (case valueLookup env operand of
                     None \<Rightarrow> False
                   | Some u \<Rightarrow> rv_set u = setId \<and> valueRangeEndsAt u (as_start s)))))"

text \<open>
  The three ways in which a register is shared at a position: equal reads of a hardware
  register, the first position of a result written into a killed operand, and the last position
  of a result that its reader overwrites. \<open>overlooked\<close> is a fourth, which the code does not mean: a
  result written into a killed operand that is live again later, which the walk over the ranges
  does not see.
\<close>

definition mayShare :: "scan_env \<Rightarrow> assignment \<Rightarrow> ra_value \<Rightarrow> alias_set \<Rightarrow> nat \<Rightarrow> nat \<Rightarrow> bool" where
  "mayShare env a v s base p \<longleftrightarrow>
     canShareFixedHardwareRead env s a base \<or>
     (p = as_start s \<and> reusesOperandOf env s (ra_set a)) \<or>
     (p = as_end s \<and> isDestructiveResultContinuation env s v)"

definition overlooked :: "scan_env \<Rightarrow> nat \<Rightarrow> ra_value \<Rightarrow> alias_set \<Rightarrow> nat \<Rightarrow> bool" where
  "overlooked env setId v s p \<longleftrightarrow>
     reusesOperandOf env s setId \<and> resumedAt s (rv_ranges v) (as_ranges s) p"

definition separatedFrom :: "scan_env \<Rightarrow> assignment \<Rightarrow> alias_set \<Rightarrow> assignment \<Rightarrow> bool" where
  "separatedFrom env a s b \<longleftrightarrow>
     (ra_regClass a = ra_regClass b \<longrightarrow>
      (\<forall>v\<in>set (sc_values env). rv_set v = ra_set a \<longrightarrow> sharesRegister a v b \<longrightarrow>
         (\<forall>p. live_in (rv_ranges v) p \<longrightarrow> live_in (as_ranges s) p \<longrightarrow>
            mayShare env a v s (ra_base b) p \<or> overlooked env (ra_set a) v s p)))"

definition separated :: "scan_env \<Rightarrow> assignment list \<Rightarrow> bool" where
  "separated env as \<longleftrightarrow>
     (\<forall>j < length as. \<forall>i < j. \<forall>s\<in>set (sc_sets env). as_id s = ra_set (as ! j) \<longrightarrow>
        separatedFrom env (as ! i) s (as ! j))"

subsection \<open>Conflicts between a set and an assignment\<close>

lemma assignment_ok_bounds:
  assumes "env_ok env" and "assignment_ok env a"
  shows "0 < ra_width a" and "ra_base a + ra_width a \<le> 1073741824"
proof -
  obtain s where s: "s \<in> set (sc_sets env)" "ra_width a = as_width s"
      "ra_base a + as_width s \<le> bu_limit (sc_budget env (as_regClass s))"
    using assms(2) unfolding assignment_ok_def by (metis assignment.select_convs(4))
  have ok: "set_ok (sc_values env) s" by (rule env_okD(2) [OF assms(1) s(1)])
  then obtain m where m: "m \<in> set (as_members s)"
    unfolding set_ok_def by (metis last_in_set)
  have "0 < rv_width (sc_values env ! m)"
    using set_ok_member(2) [OF env_okD(1) [OF assms(1)] ok m] by (simp add: value_ok_def)
  then show "0 < ra_width a"
    using set_ok_member(5) [OF env_okD(1) [OF assms(1)] ok m] s(2) by simp
  show "ra_base a + ra_width a \<le> 1073741824"
    using s env_okD(4) [OF assms(1), of "as_regClass s"] by simp
qed

lemma memberConflictEnd_None:
  "memberConflictEnd env s a base ms = None \<Longrightarrow> m \<in> set ms \<Longrightarrow> v = sc_values env ! m \<Longrightarrow>
   ra_base a + rv_offset v < 4294967296 \<Longrightarrow>
   ra_base a + rv_offset v < base + as_width s \<Longrightarrow> base < ra_base a + rv_offset v + rv_width v \<Longrightarrow>
   \<not> memberConflictsWithSet env s v"
  by (induction ms) (auto simp: Let_def arith64_simps split: if_splits)

lemma memberConflictEnd_Some:
  "memberConflictEnd env s a base ms = Some e \<Longrightarrow>
   (\<forall>m\<in>set ms. ra_base a + rv_offset (sc_values env ! m) + rv_width (sc_values env ! m) < 4294967296) \<Longrightarrow>
   \<exists>m\<in>set ms. let v = sc_values env ! m in
      e = ra_base a + rv_offset v + rv_width v \<and> base < e \<and>
      ra_base a + rv_offset v < base + as_width s \<and> memberConflictsWithSet env s v"
proof (induction ms)
  case (Cons m ms)
  let ?v = "sc_values env ! m"
  have b: "ra_base a + rv_offset ?v + rv_width ?v < 4294967296" using Cons.prems(2) by simp
  then have t: "trunc_u32 (ra_base a + rv_offset ?v) = ra_base a + rv_offset ?v"
    "trunc_u32 (ra_base a + rv_offset ?v + rv_width ?v) = ra_base a + rv_offset ?v + rv_width ?v"
    by (simp_all add: arith64_simps)
  show ?case
  proof (cases "base + as_width s \<le> ra_base a + rv_offset ?v \<or>
      ra_base a + rv_offset ?v + rv_width ?v \<le> base \<or> \<not> memberConflictsWithSet env s ?v")
    case True
    then have "memberConflictEnd env s a base ms = Some e"
      using Cons.prems(1) t by (auto simp: Let_def split: if_splits)
    then show ?thesis using Cons by simp
  next
    case False
    then have "e = ra_base a + rv_offset ?v + rv_width ?v"
      using Cons.prems(1) t by (simp add: Let_def)
    then show ?thesis using False by (auto simp: Let_def)
  qed
qed simp

lemma no_member_conflict:
  assumes "value_ok v" and "list_all value_ok values" and "set_ok values s"
    and "\<not> memberConflictsWithSet env s v"
    and "live_in (rv_ranges v) p" and "live_in (as_ranges s) p"
  shows "p = as_end s \<and> isDestructiveResultContinuation env s v"
proof -
  have o: "ordered_ranges (rv_ranges v)" "ordered_ranges (as_ranges s)"
    using assms(1) set_ok_ranges(1) [OF assms(2,3)] by (simp_all add: value_ok_def)
  then have "liveRangeListsOverlap (rv_ranges v) (as_ranges s)"
    using listsOverlap_iff assms(5,6) by blast
  then obtain b where b: "overlapsOnlyAtEnd s False (rv_ranges v) (as_ranges s) = Some b"
      "isDestructiveResultContinuation env s v"
    using assms(4)
    by (auto simp: memberConflictsWithSet_def memberOverlapIsDestructiveContinuation_def
        split: option.splits)
  have "\<forall>r\<in>set (as_ranges s). lr_end r \<le> as_end s"
  proof
    fix r assume r: "r \<in> set (as_ranges s)"
    then have "live_in (as_ranges s) (lr_end r)"
      using ordered_nonempty [OF o(2) r] by (auto simp: live_in_def)
    then show "lr_end r \<le> as_end s" using set_ok_live [OF assms(2,3)] by blast
  qed
  then show ?thesis using overlapsOnlyAtEnd_sound [OF b(1) o _ assms(5,6)] b(2) by blast
qed

text \<open>The range of a set: every range starts and ends inside the envelope.\<close>

lemma set_ranges_inside:
  assumes "list_all value_ok values" and "set_ok values s" and "r \<in> set (as_ranges s)"
  shows "as_start s \<le> lr_start r" and "lr_end r \<le> as_end s"
proof -
  have n: "lr_start r \<le> lr_end r"
    using ordered_nonempty [OF set_ok_ranges(1) [OF assms(1,2)] assms(3)] .
  then have "live_in (as_ranges s) (lr_start r)" "live_in (as_ranges s) (lr_end r)"
    using assms(3) by (auto simp: live_in_def)
  then show "as_start s \<le> lr_start r" "lr_end r \<le> as_end s"
    using set_ok_live [OF assms(1,2)] by blast+
qed

lemma assignment_set:
  assumes "env_ok env" and "assignment_ok env a"
  obtains A where "A \<in> set (sc_sets env)" and "ra_set a = as_id A" and "ra_width a = as_width A"
    and "ra_regClass a = as_regClass A" and "ra_start a = as_start A" and "ra_end a = as_end A"
    and "getSetById env (ra_set a) = Some A"
proof -
  obtain A where A: "A \<in> set (sc_sets env)"
      "a = \<lparr>ra_regClass = as_regClass A, ra_set = as_id A, ra_base = ra_base a,
            ra_width = as_width A, ra_start = as_start A, ra_end = as_end A\<rparr>"
    using assms(2) unfolding assignment_ok_def by blast
  have "ra_set a = as_id A" "ra_width a = as_width A" "ra_regClass a = as_regClass A"
    "ra_start a = as_start A" "ra_end a = as_end A"
    by (subst A(2), simp)+
  then show thesis using that A(1) env_okD(3) [OF assms(1) A(1)] by simp
qed

lemma value_member:
  assumes "env_ok env" and "A \<in> set (sc_sets env)" and "v \<in> set (sc_values env)"
    and "rv_set v = as_id A"
  shows "rv_id v \<in> set (as_members A)" and "sc_values env ! rv_id v = v"
    and "rv_offset v + rv_width v \<le> as_width A" and "rv_regClass v = as_regClass A"
    and "live_in (rv_ranges v) p \<Longrightarrow> as_start A \<le> p \<and> p \<le> as_end A"
proof -
  obtain s where s: "s \<in> set (sc_sets env)" "as_id s = rv_set v" "rv_id v \<in> set (as_members s)"
    using env_okD(7) [OF assms(1,3)] by blast
  have "s = A"
    using env_okD(5) [OF assms(1)] s(1,2) assms(2,4) by (metis inj_on_contraD distinct_map)
  then show m: "rv_id v \<in> set (as_members A)" using s(3) by simp
  show e: "sc_values env ! rv_id v = v" by (rule env_okD(8) [OF assms(1,3)])
  note ok = env_okD(1) [OF assms(1)] env_okD(2) [OF assms(1,2)]
  show "rv_offset v + rv_width v \<le> as_width A" "rv_regClass v = as_regClass A"
    using set_ok_member(4,5) [OF ok m] e by simp_all
  show "as_start A \<le> p \<and> p \<le> as_end A" if "live_in (rv_ranges v) p"
  proof -
    have "live_in (as_ranges A) p" using set_ok_ranges(2) [OF ok] m e that by metis
    then show ?thesis by (rule set_ok_live [OF ok])
  qed
qed

lemma separated_dead:
  assumes "env_ok env" and "assignment_ok env a" and "s \<in> set (sc_sets env)"
    and "ra_end a < as_start s"
  shows "separatedFrom env a s b"
proof -
  obtain A where A: "A \<in> set (sc_sets env)" "ra_set a = as_id A" "ra_end a = as_end A"
    using assignment_set [OF assms(1,2)] by metis
  have "\<not> live_in (as_ranges s) p" if "v \<in> set (sc_values env)" "rv_set v = ra_set a"
      "live_in (rv_ranges v) p" for v p
  proof
    assume "live_in (as_ranges s) p"
    then have "as_start s \<le> p"
      using set_ok_live [OF env_okD(1) [OF assms(1)] env_okD(2) [OF assms(1,3)]] by blast
    moreover have "p \<le> ra_end a"
      using value_member(5) [OF assms(1) A(1) that(1) _ that(3)] that(2) A by simp
    ultimately show False using assms(4) by simp
  qed
  then show ?thesis unfolding separatedFrom_def by blast
qed

lemma separated_clear:
  assumes env: "env_ok env" and a: "assignment_ok env a" and s: "s \<in> set (sc_sets env)"
    and clear: "getActiveAssignmentConflictEnd env s a (ra_base b) = None \<or>
      canShareFixedHardwareRead env s a (ra_base b)"
    and width: "ra_width b = as_width s"
  shows "separatedFrom env a s b"
proof (cases "canShareFixedHardwareRead env s a (ra_base b)")
  case True
  then show ?thesis by (simp add: separatedFrom_def mayShare_def)
next
  case False
  obtain A where A: "A \<in> set (sc_sets env)" "ra_set a = as_id A" "ra_width a = as_width A"
      "getSetById env (ra_set a) = Some A"
    using assignment_set [OF env a] by metis
  have none: "memberConflictEnd env s a (ra_base b) (as_members A) = None"
    using clear False A(4) by (simp add: getActiveAssignmentConflictEnd_def)
  have "p = as_end s \<and> isDestructiveResultContinuation env s v"
    if v: "v \<in> set (sc_values env)" "rv_set v = ra_set a" and r: "sharesRegister a v b"
      and p: "live_in (rv_ranges v) p" "live_in (as_ranges s) p" for v p
  proof -
    note m = value_member [OF env A(1) v(1)]
    have e: "rv_set v = as_id A" using v(2) A(2) by simp
    have "ra_base a + rv_offset v < 4294967296"
      using assignment_ok_bounds(2) [OF env a] m(3) [OF e] A(3) by simp
    then have "\<not> memberConflictsWithSet env s v"
      using memberConflictEnd_None [OF none m(1) [OF e] m(2) [OF e, symmetric]] r width
      by (simp add: sharesRegister_def)
    moreover have "value_ok v" using env_okD(1) [OF env] v(1) by (simp add: list_all_iff)
    ultimately show ?thesis
      using no_member_conflict [OF _ env_okD(1) [OF env] env_okD(2) [OF env s]] p by blast
  qed
  then show ?thesis by (auto simp: separatedFrom_def mayShare_def)
qed

lemma getReusableOperandBase_Some:
  assumes "getReusableOperandBase env st s source limit = Some base"
  obtains A a where "getSetById env (rv_set source) = Some A"
    and "lookup_ac (as_id A) (ss_assignments st) (ss_active st) = Some a"
    and "reusableOperandMatchesSet s source" and "reusableOperandCoversResult env s A source"
    and "base = ra_base a + rv_offset source"
    and "reusableBaseIsAvailable env st s A a base limit"
  using assms that
  by (auto simp: getReusableOperandBase_def Let_def split: if_splits option.splits)

lemma separated_reuse:
  assumes env: "env_ok env" and a: "assignment_ok env a" and s: "s \<in> set (sc_sets env)"
    and A: "getSetById env (ra_set a) = Some A"
    and covers: "reusableOperandCoversResult env s A source"
    and base: "ra_base b = ra_base a + rv_offset source" and width: "ra_width b = as_width s"
    and reuses: "reusesOperandOf env s (ra_set a)"
  shows "separatedFrom env a s b"
proof -
  obtain A' where A': "A' \<in> set (sc_sets env)" "ra_set a = as_id A'" "ra_width a = as_width A'"
      "ra_regClass a = as_regClass A'" "getSetById env (ra_set a) = Some A'"
    using assignment_set [OF env a] by metis
  with A have AA: "A' = A" by simp
  have "p = as_start s \<or> (p = as_end s \<and> isDestructiveResultContinuation env s v) \<or>
      resumedAt s (rv_ranges v) (as_ranges s) p"
    if v: "v \<in> set (sc_values env)" "rv_set v = ra_set a" and r: "sharesRegister a v b"
      and p: "live_in (rv_ranges v) p" "live_in (as_ranges s) p" for v p
  proof -
    have e: "rv_set v = as_id A" using v(2) A' AA by simp
    note m = value_member [OF env A'(1) [unfolded AA] v(1) e]
    have "\<not> memberBlocksReusableResult env s v"
      using covers m(1,2) r base width
      by (auto simp: reusableOperandCoversResult_def sourceSubrangeDiesAtBoundary_def
          sharesRegister_def list_all_iff Let_def)
    then have nb: "\<not> blocksReusable env s v (rv_ranges v) (as_ranges s)"
      by (simp add: memberBlocksReusableResult_def)
    have o: "ordered_ranges (rv_ranges v)"
      using env_okD(1) [OF env] v(1) by (simp add: list_all_iff value_ok_def)
    note sok = env_okD(1) [OF env] env_okD(2) [OF env s]
    show ?thesis
      using blocksReusable_sound [OF nb o set_ok_ranges(1) [OF sok] _ p]
        set_ranges_inside [OF sok] by blast
  qed
  then show ?thesis
    using reuses unfolding separatedFrom_def mayShare_def overlooked_def by blast
qed

subsection \<open>What the choice of a base guarantees\<close>

lemma findFreeLoop_Some:
  "findFreeLoop fuel env st s maxBase alignment base = Inr (Some b) \<Longrightarrow>
   b \<le> maxBase \<and> setBaseIsLegal env s b \<and>
   findActiveConflictEnd env (ss_active st) (ss_assignments st) s b = None \<and>
   findFixedReservationConflictEnd env s b = None"
proof (induction fuel arbitrary: base)
  case (Suc fuel)
  let ?active = "findActiveConflictEnd env (ss_active st) (ss_assignments st) s base"
  let ?e = "if ?active = None then findFixedReservationConflictEnd env s base else ?active"
  have base: "\<not> maxBase < base"
  proof
    assume "maxBase < base"
    then show False using Suc.prems by simp
  qed
  show ?case
  proof (cases "\<not> setBaseIsLegal env s base")
    case True
    then show ?thesis
      using Suc.prems base by (intro Suc.IH [of "trunc_u32 (base + alignment)"]) simp
  next
    case legal: False
    show ?thesis
    proof (cases ?e)
      case None
      then show ?thesis using Suc.prems base legal by (simp add: Let_def split: if_splits)
    next
      case (Some e)
      then show ?thesis
        using Suc.prems base legal by (simp only: findFreeLoop.simps Let_def if_False option.case)
          (rule Suc.IH)
    qed
  qed
qed simp

lemma findFreeBase_Some:
  assumes "findFreeBase env st s limit before = Inr (Some b)"
  shows "b + as_width s \<le> limit" and "setBaseIsLegal env s b"
    and "findActiveConflictEnd env (ss_active st) (ss_assignments st) s b = None"
    and "findFixedReservationConflictEnd env s b = None"
proof -
  have w: "as_width s \<le> limit" using assms by (simp add: findFreeBase_def split: if_splits)
  define maxBase where "maxBase = (case before of
      None \<Rightarrow> limit - as_width s | Some b \<Rightarrow> min (limit - as_width s) (b - 1))"
  have m: "maxBase \<le> limit - as_width s"
    "findFreeLoop (maxBase + 2) env st s maxBase (getRequiredAlignment env s) 0 = Inr (Some b)"
     apply (simp add: maxBase_def split: option.split)
    using assms by (simp add: findFreeBase_def Let_def maxBase_def
        del: findFreeLoop.simps add_2_eq_Suc' split: if_splits)
  note f = findFreeLoop_Some [OF m(2)]
  show "b + as_width s \<le> limit" "setBaseIsLegal env s b"
    "findActiveConflictEnd env (ss_active st) (ss_assignments st) s b = None"
    "findFixedReservationConflictEnd env s b = None"
    using f m(1) w by (simp_all add: le_diff_conv2)
qed

lemma fold_choice:
  assumes "\<And>x best. f x best = best \<or> f x best = g x" and "fold f xs c = Some b"
  shows "c = Some b \<or> (\<exists>x\<in>set xs. g x = Some b)"
  using assms(2)
proof (induction xs arbitrary: c)
  case (Cons x xs)
  have "f x c = Some b \<or> (\<exists>x\<in>set xs. g x = Some b)"
    using Cons.prems by (intro Cons.IH) simp
  then show ?case using assms(1) [of x c] by auto
qed simp

lemma findReusable_Some:
  assumes "findReusableInputBase env st s limit = Some b"
  obtains source A a where "getSetById env (rv_set source) = Some A"
    and "lookup_ac (as_id A) (ss_assignments st) (ss_active st) = Some a"
    and "reusableOperandMatchesSet s source" and "reusableOperandCoversResult env s A source"
    and "b = ra_base a + rv_offset source" and "reusableBaseIsAvailable env st s A a b limit"
    and "getSingleResultValue env s \<noteq> None" and "reusesOperandOf env s (rv_set source)"
proof -
  obtain r where r: "getSingleResultValue env s = Some r" "rv_id r < length (se_payload env)"
      "findReusableInputBaseForDef env st s limit (ir_def (sc_ir env) (se_payload env ! rv_id r)) = Some b"
    using assms by (auto simp: findReusableInputBase_def split: option.splits if_splits)
  let ?d = "ir_def (sc_ir env) (se_payload env ! rv_id r)"
  obtain reuse isa where ri: "getKilledOperandReuseCandidate (sc_ir env) ?d = Some reuse"
      "ir_isa (sc_ir env) = Some isa"
    using r(3) by (auto simp: findReusableInputBaseForDef_def split: option.splits)
  then obtain d where d: "?d = Some d"
    by (auto simp: getKilledOperandReuseCandidate_def split: option.splits)
  define g where "g = (\<lambda>(n, operand).
      if \<not> canReuseKilledOperandForResult (Some reuse) n isa then None
      else case valueLookup env operand of
        None \<Rightarrow> None | Some source \<Rightarrow> getReusableOperandBase env st s source limit)"
  define f where "f = (\<lambda>(n, operand) best.
      if \<not> canReuseKilledOperandForResult (Some reuse) n isa then best
      else (case valueLookup env operand of
        None \<Rightarrow> best
      | Some source \<Rightarrow>
          (case getReusableOperandBase env st s source limit of
             None \<Rightarrow> best
           | Some base \<Rightarrow>
               (case best of
                  None \<Rightarrow> Some base
                | Some b \<Rightarrow> if base < b then Some base else best))))"
  have choice: "f x best = best \<or> f x best = g x" for x best
    unfolding f_def g_def by (cases x) (simp split: option.split)
  let ?ops = "enumerate 0 (po_operands (ir_op (sc_ir env) d))"
  have "fold f ?ops None = Some b"
    using r(3) unfolding findReusableInputBaseForDef_def ri(1) ri(2) option.case f_def
    unfolding d option.sel .
  from fold_choice [OF choice this]
  obtain n operand where x: "(n, operand) \<in> set ?ops" "g (n, operand) = Some b"
    by auto
  then obtain source where src: "canReuseKilledOperandForResult (Some reuse) n isa"
      "valueLookup env operand = Some source" "getReusableOperandBase env st s source limit = Some b"
    by (auto simp: g_def split: if_splits option.splits)
  obtain A a where A: "getSetById env (rv_set source) = Some A"
      "lookup_ac (as_id A) (ss_assignments st) (ss_active st) = Some a"
      "reusableOperandMatchesSet s source" "reusableOperandCoversResult env s A source"
      "b = ra_base a + rv_offset source" "reusableBaseIsAvailable env st s A a b limit"
    using getReusableOperandBase_Some [OF src(3)] .
  have "canReuseKilledOperandOfOp (sc_ir env) d n"
    using src(1) ri d by (simp add: canReuseKilledOperandOfOp_def isKilledOperandReuseCandidate_def)
  moreover have "valueRangeEndsAt source (as_start s)"
    using A(4) by (simp add: reusableOperandCoversResult_def)
  ultimately have "reusesOperandOf env s (rv_set source)"
    using r(1) d x(1) src(2) by (force simp: reusesOperandOf_def)
  then show thesis using that A r(1) by blast
qed

subsection \<open>One set\<close>

definition scan_ok :: "scan_env \<Rightarrow> nat \<Rightarrow> scan_state \<Rightarrow> bool" where
  "scan_ok env pos st \<longleftrightarrow>
     active_ok pos (ss_assignments st) (ss_active st) \<and>
     (\<forall>a\<in>set (ss_assignments st). assignment_ok env a) \<and>
     separated env (ss_assignments st) \<and>
     (\<forall>k i. map_of (ss_indexBySet st) k = Some i \<longleftrightarrow>
        i < length (ss_assignments st) \<and> ra_set (ss_assignments st ! i) = k)"

text \<open>Every assignment is separated from the set at the base, live or not.\<close>

definition base_ok :: "scan_env \<Rightarrow> scan_state \<Rightarrow> alias_set \<Rightarrow> nat \<Rightarrow> bool" where
  "base_ok env st s b \<longleftrightarrow>
     (\<forall>a\<in>set (ss_assignments st). separatedFrom env a s
        \<lparr>ra_regClass = as_regClass s, ra_set = as_id s, ra_base = b, ra_width = as_width s,
         ra_start = as_start s, ra_end = as_end s\<rparr>) \<and>
     b + as_width s \<le> bu_limit (sc_budget env (as_regClass s)) \<and>
     (case getFixedBase env s of Some f \<Rightarrow> b = f | None \<Rightarrow> setBaseIsLegal env s b)"

lemma live_or_dead:
  assumes env: "env_ok env" and ok: "scan_ok env (as_start s) st" and s: "s \<in> set (sc_sets env)"
    and live: "\<And>i. isLive (ss_active st) i \<Longrightarrow>
      separatedFrom env (ss_assignments st ! i) s b"
  shows "\<forall>a\<in>set (ss_assignments st). separatedFrom env a s b"
proof
  fix a assume a: "a \<in> set (ss_assignments st)"
  then obtain i where i: "i < length (ss_assignments st)" "a = ss_assignments st ! i"
    by (auto simp: in_set_conv_nth)
  have aok: "assignment_ok env a" using ok a by (simp add: scan_ok_def)
  have act: "active_ok (as_start s) (ss_assignments st) (ss_active st)"
    using ok by (simp add: scan_ok_def)
  show "separatedFrom env a s b"
  proof (cases "isLive (ss_active st) i")
    case True
    then show ?thesis using live i(2) by simp
  next
    case False
    then have "ra_end a < as_start s" using active_okD(5) [OF act, of i] i by simp
    then show ?thesis by (rule separated_dead [OF env aok s])
  qed
qed

lemma query_clear:
  assumes env: "env_ok env" and ok: "scan_ok env pos st" and s: "s \<in> set (sc_sets env)"
    and small: "b + as_width s \<le> 1073741824"
    and q: "anyRegClassOverlappingRange (ss_active st) (as_regClass s) b (as_width s)
        (ss_assignments st) P = None"
    and P: "\<And>a. a \<in> set (ss_assignments st) \<Longrightarrow> ignored \<noteq> Some (ra_set a) \<Longrightarrow>
        assignedRangesOverlap a b (as_width s) \<Longrightarrow> \<not> P a \<Longrightarrow>
        getActiveAssignmentConflictEnd env s a b = None \<or> canShareFixedHardwareRead env s a b"
    and live: "isLive (ss_active st) i" and other: "ignored \<noteq> Some (ra_set (ss_assignments st ! i))"
    and base: "ra_base c = b" "ra_width c = as_width s" "ra_regClass c = as_regClass s"
  shows "separatedFrom env (ss_assignments st ! i) s c"
proof -
  let ?a = "ss_assignments st ! i"
  have act: "active_ok pos (ss_assignments st) (ss_active st)"
    and aoks: "\<forall>a\<in>set (ss_assignments st). assignment_ok env a"
    using ok by (simp_all add: scan_ok_def)
  have mem: "?a \<in> set (ss_assignments st)" using active_okD(5) [OF act, of i] live by simp
  have w: "0 < as_width s"
  proof -
    have ok: "set_ok (sc_values env) s" by (rule env_okD(2) [OF env s])
    then obtain m where m: "m \<in> set (as_members s)"
      unfolding set_ok_def by (metis last_in_set)
    show ?thesis
      using set_ok_member(2,5) [OF env_okD(1) [OF env] ok m] by (simp add: value_ok_def)
  qed
  have pos: "\<forall>a\<in>set (ss_assignments st). 0 < ra_width a"
    using aoks assignment_ok_bounds(1) [OF env] by blast
  show ?thesis
  proof (cases "ra_regClass ?a = as_regClass s \<and> assignedRangesOverlap ?a b (as_width s)")
    case True
    then have "\<not> P ?a"
      using query_None [OF act _ w pos, of b "as_regClass s" P] small q live by simp
    then show ?thesis
      using separated_clear [OF env aoks [rule_format, OF mem] s _ base(2)] P [OF mem other] True base(1)
      by simp
  next
    case False
    then consider "ra_regClass ?a \<noteq> as_regClass s" | "\<not> assignedRangesOverlap ?a b (as_width s)"
      by blast
    then show ?thesis
    proof cases
      case 1
      then show ?thesis using base(3) by (simp add: separatedFrom_def)
    next
      case 2
      obtain A where A: "A \<in> set (sc_sets env)" "ra_set ?a = as_id A" "ra_width ?a = as_width A"
        using assignment_set [OF env aoks [rule_format, OF mem]] by metis
      have "\<not> sharesRegister ?a v c" if "v \<in> set (sc_values env)" "rv_set v = ra_set ?a" for v
        using value_member(3) [OF env A(1) that(1)] that(2) A 2 base
        by (auto simp: sharesRegister_def assignedRangesOverlap_def)
      then show ?thesis by (auto simp: separatedFrom_def)
    qed
  qed
qed

lemma base_ok_free:
  assumes env: "env_ok env" and ok: "scan_ok env (as_start s) st" and s: "s \<in> set (sc_sets env)"
    and fits: "b + as_width s \<le> bu_limit (sc_budget env (as_regClass s))"
    and none: "findActiveConflictEnd env (ss_active st) (ss_assignments st) s b = None"
    and fixed: "case getFixedBase env s of Some f \<Rightarrow> b = f | None \<Rightarrow> setBaseIsLegal env s b"
  shows "base_ok env st s b"
proof -
  let ?P = "\<lambda>a. assignedRangesOverlap a b (as_width s) \<and>
      getActiveAssignmentConflictEnd env s a b \<noteq> None \<and> \<not> canShareFixedHardwareRead env s a b"
  have act: "active_ok (as_start s) (ss_assignments st) (ss_active st)"
    using ok by (simp add: scan_ok_def)
  have q: "anyRegClassOverlappingRange (ss_active st) (as_regClass s) b (as_width s)
      (ss_assignments st) ?P = None"
  proof (rule ccontr)
    assume "\<not> ?thesis"
    then obtain a where "anyRegClassOverlappingRange (ss_active st) (as_regClass s) b (as_width s)
        (ss_assignments st) ?P = Some a" by auto
    then show False
      using none query_Some [OF act, of "as_regClass s" b "as_width s" ?P a]
      by (auto simp: findActiveConflictEnd_def)
  qed
  have small: "b + as_width s \<le> 1073741824"
    using fits env_okD(4) [OF env, of "as_regClass s"] by simp
  show ?thesis
    unfolding base_ok_def
  proof (intro conjI live_or_dead [OF env ok s] fits fixed)
    fix i assume live: "isLive (ss_active st) i"
    then have "ss_assignments st ! i \<in> set (ss_assignments st)"
      using active_okD(5) [OF act, of i] by simp
    then show "separatedFrom env (ss_assignments st ! i) s
        \<lparr>ra_regClass = as_regClass s, ra_set = as_id s, ra_base = b, ra_width = as_width s,
         ra_start = as_start s, ra_end = as_end s\<rparr>"
      by (intro query_clear [OF env ok s small q _ live, where ignored = None]) auto
  qed
qed

lemma base_ok_reuse:
  assumes env: "env_ok env" and ok: "scan_ok env (as_start s) st" and s: "s \<in> set (sc_sets env)"
    and reuse: "findReusableInputBase env st s (bu_limit (sc_budget env (as_regClass s))) = Some b"
    and fixed: "case getFixedBase env s of Some f \<Rightarrow> b = f | None \<Rightarrow> True"
  shows "base_ok env st s b"
proof -
  let ?c = "\<lparr>ra_regClass = as_regClass s, ra_set = as_id s, ra_base = b, ra_width = as_width s,
         ra_start = as_start s, ra_end = as_end s\<rparr>"
  obtain source A a where A: "getSetById env (rv_set source) = Some A"
      "lookup_ac (as_id A) (ss_assignments st) (ss_active st) = Some a"
      "reusableOperandCoversResult env s A source" "b = ra_base a + rv_offset source"
      "reusableBaseIsAvailable env st s A a b (bu_limit (sc_budget env (as_regClass s)))"
      "getSingleResultValue env s \<noteq> None" "reusesOperandOf env s (rv_set source)"
    using findReusable_Some [OF reuse] by metis
  have act: "active_ok (as_start s) (ss_assignments st) (ss_active st)"
    and aoks: "\<forall>a\<in>set (ss_assignments st). assignment_ok env a"
    using ok by (simp_all add: scan_ok_def)
  obtain i0 where i0: "isLive (ss_active st) i0" "ra_set (ss_assignments st ! i0) = as_id A"
      "a = ss_assignments st ! i0"
    using A(2) active_okD(6) [OF act, of "as_id A"] by (auto simp: lookup_ac_def)
  have mem0: "a \<in> set (ss_assignments st)" using active_okD(5) [OF act, of i0] i0 by simp
  obtain A' where A': "getSetById env (ra_set a) = Some A'" "ra_set a = as_id A'"
    using assignment_set [OF env aoks [rule_format, OF mem0]] by metis
  have fits: "b + as_width s \<le> bu_limit (sc_budget env (as_regClass s))"
    and legal: "setBaseIsLegal env s b"
    and q: "anyRegClassOverlappingRange (ss_active st) (as_regClass s) b (as_width s)
       (ss_assignments st)
       (\<lambda>a. ra_set a \<noteq> as_id A \<and> assignedRangesOverlap a b (as_width s) \<and>
            activeAssignmentConflicts env s a b \<and> \<not> canShareFixedHardwareRead env s a b) = None"
    using A(5) by (simp_all add: reusableBaseIsAvailable_def conflictsWithActiveIgnoring_def)
  have small: "b + as_width s \<le> 1073741824"
    using fits env_okD(4) [OF env, of "as_regClass s"] by simp
  have sets: "as_id A = rv_set source" using env_okD(9) [OF env A(1)] by simp
  show ?thesis
    unfolding base_ok_def
  proof (intro conjI live_or_dead [OF env ok s] fits)
    show "case getFixedBase env s of None \<Rightarrow> setBaseIsLegal env s b | Some f \<Rightarrow> b = f"
      using fixed legal by (simp split: option.splits)
    fix i assume live: "isLive (ss_active st) i"
    then have mem: "ss_assignments st ! i \<in> set (ss_assignments st)"
      using active_okD(5) [OF act, of i] by simp
    show "separatedFrom env (ss_assignments st ! i) s ?c"
    proof (cases "ra_set (ss_assignments st ! i) = as_id A")
      case False
      then show ?thesis
        by (intro query_clear [OF env ok s small q _ live, where ignored = "Some (as_id A)"])
          (auto simp: activeAssignmentConflicts_def)
    next
      case True
      then have "i = i0"
        using active_okD(6) [OF act, of "as_id A"] live i0 by (metis option.inject)
      then show ?thesis
        using separated_reuse [OF env aoks [rule_format, OF mem0] s _ A(3), of ?c]
          A(1,4,7) i0 sets by simp
    qed
  qed
qed


text \<open>The outcome of one set: a recorded failure, or an assignment at a base that is fine.\<close>

lemma finishSet_cases:
  "ss_failure (finishSet env s b st) \<noteq> None \<or> finishSet env s b st = addAssignment env s b st"
  by (simp add: finishSet_def split: option.split)

lemma allocateSet_cases:
  assumes env: "env_ok env" and ok: "scan_ok env (as_start s) st" and s: "s \<in> set (sc_sets env)"
    and step: "allocateSet env s st = Inr st'"
  shows "ss_failure st' \<noteq> None \<or> (\<exists>b. base_ok env st s b \<and> st' = addAssignment env s b st)"
proof (cases "getFixedBase env s")
  case (Some f)
  let ?budget = "sc_budget env (as_regClass s)"
  have st': "st' = allocateFixedSet env s ?budget f st"
    using step Some by (simp add: allocateSet_def Let_def)
  have fixed: "case getFixedBase env s of Some f' \<Rightarrow> f = f' | None \<Rightarrow> setBaseIsLegal env s f"
    using Some by simp
  show ?thesis
  proof (cases "\<not> registerRangeFits f (as_width s) (bu_limit ?budget) \<or>
      (conflictsWithActive env (ss_active st) (ss_assignments st) s f \<and>
       findReusableInputBase env st s (bu_limit ?budget) \<noteq> Some f)")
    case True
    then have "ss_failure st' \<noteq> None" using st' by (simp add: allocateFixedSet_def Let_def)
    then show ?thesis ..
  next
    case False
    have "base_ok env st s f"
    proof (cases "conflictsWithActive env (ss_active st) (ss_assignments st) s f")
      case True
      then show ?thesis
        using base_ok_reuse [OF env ok s, of f] False Some by simp
    next
      case no: False
      then show ?thesis
        using base_ok_free [OF env ok s, of f] False fixed by (simp add: conflictsWithActive_def)
    qed
    moreover have "st' = finishSet env s f st"
      unfolding st' allocateFixedSet_def Let_def if_not_P [OF False] ..
    ultimately show ?thesis using finishSet_cases by metis
  qed
next
  case None
  let ?limit = "bu_limit (sc_budget env (as_regClass s))"
  let ?reuse = "findReusableInputBase env st s ?limit"
  obtain free where free: "findFreeBase env st s ?limit ?reuse = Inr free"
    using step None by (auto simp: allocateSet_def Let_def bindR_eq_Inr)
  show ?thesis
  proof (cases "if free = None then ?reuse else free")
    case base: None
    then have "ss_failure st' \<noteq> None"
      using step None free by (auto simp: allocateSet_def Let_def split: if_splits)
    then show ?thesis ..
  next
    case base: (Some b)
    then have "st' = finishSet env s b st"
      using step None free by (auto simp: allocateSet_def Let_def split: if_splits)
    moreover have "base_ok env st s b"
    proof (cases free)
      case no: None
      then show ?thesis using base None base_ok_reuse [OF env ok s, of b] by simp
    next
      case (Some c)
      then have "findFreeBase env st s ?limit ?reuse = Inr (Some b)" using base free by simp
      note f = findFreeBase_Some [OF this]
      show ?thesis using base_ok_free [OF env ok s f(1) f(3)] f(2) None by simp
    qed
    ultimately show ?thesis using finishSet_cases by metis
  qed
qed

lemma addAssignment_ok:
  assumes env: "env_ok env" and ok: "scan_ok env (as_start s) st" and s: "s \<in> set (sc_sets env)"
    and b: "base_ok env st s b" and new: "as_id s \<notin> ra_set ` set (ss_assignments st)"
  shows "scan_ok env (as_start s) (addAssignment env s b st)"
    and "ss_assignments (addAssignment env s b st) = ss_assignments st @
      [\<lparr>ra_regClass = as_regClass s, ra_set = as_id s, ra_base = b, ra_width = as_width s,
        ra_start = as_start s, ra_end = as_end s\<rparr>]"
    and "ss_failure (addAssignment env s b st) = ss_failure st"
proof -
  let ?c = "\<lparr>ra_regClass = as_regClass s, ra_set = as_id s, ra_base = b, ra_width = as_width s,
        ra_start = as_start s, ra_end = as_end s\<rparr>"
  let ?st = "addAssignment env s b st"
  show as: "ss_assignments ?st = ss_assignments st @ [?c]"
    and "ss_failure ?st = ss_failure st"
    by (simp_all add: addAssignment_def Let_def)
  have books: "ss_active ?st = add_ac (length (ss_assignments st)) (ss_assignments st @ [?c]) (ss_active st)"
    "ss_indexBySet ?st = AList.update (as_id s) (length (ss_assignments st)) (ss_indexBySet st)"
    by (simp_all add: addAssignment_def Let_def)
  have fits: "b + as_width s \<le> 1073741824"
    using b env_okD(4) [OF env, of "as_regClass s"] by (simp add: base_ok_def)
  have "as_start s \<le> as_end s"
    by (rule set_ok_start(2) [OF env_okD(1) [OF env] env_okD(2) [OF env s]])
  then have act: "active_ok (as_start s) (ss_assignments st @ [?c])
      (add_ac (length (ss_assignments st)) (ss_assignments st @ [?c]) (ss_active st))"
    using ok new fits by (intro active_ok_add) (simp_all add: scan_ok_def)
  have "assignment_ok env ?c"
    using s b unfolding assignment_ok_def base_ok_def
    by (intro bexI [of _ s]) (simp_all split: option.splits)
  then have aoks: "\<forall>a\<in>set (ss_assignments st @ [?c]). assignment_ok env a"
    using ok by (simp add: scan_ok_def)
  have sep: "separated env (ss_assignments st @ [?c])"
    unfolding separated_def
  proof (intro allI impI ballI)
    fix j i t
    assume j: "j < length (ss_assignments st @ [?c])" and i: "i < j" and t: "t \<in> set (sc_sets env)"
      and id: "as_id t = ra_set ((ss_assignments st @ [?c]) ! j)"
    show "separatedFrom env ((ss_assignments st @ [?c]) ! i) t ((ss_assignments st @ [?c]) ! j)"
    proof (cases "j = length (ss_assignments st)")
      case False
      then show ?thesis using ok j i t id by (simp add: scan_ok_def separated_def nth_append)
    next
      case True
      then have "t = s"
        using id t s env_okD(5) [OF env] by (simp add: distinct_map inj_on_def)
      moreover have "ss_assignments st ! i \<in> set (ss_assignments st)" using i True by simp
      ultimately show ?thesis using b i True by (simp add: base_ok_def nth_append)
    qed
  qed
  have index: "map_of (ss_indexBySet ?st) k = Some i \<longleftrightarrow>
      i < length (ss_assignments st @ [?c]) \<and> ra_set ((ss_assignments st @ [?c]) ! i) = k" for k i
  proof -
    have old: "map_of (ss_indexBySet st) k = Some i \<longleftrightarrow>
        i < length (ss_assignments st) \<and> ra_set (ss_assignments st ! i) = k"
      using ok by (simp add: scan_ok_def)
    have "i < length (ss_assignments st) \<Longrightarrow> ra_set (ss_assignments st ! i) \<noteq> as_id s"
      using new by (metis imageI nth_mem)
    then show ?thesis
      using old unfolding books(2) by (auto simp: AList.update_conv nth_append)
  qed
  show "scan_ok env (as_start s) ?st"
    unfolding scan_ok_def as books(1) using act aoks sep index by blast
qed

lemma beginSet_ok:
  assumes "scan_ok env pos st" and "pos \<le> as_start s"
  shows "scan_ok env (as_start s) (beginSet env s st)"
  using assms active_ok_expire [of pos "ss_assignments st" "ss_active st" "as_start s"]
  by (simp add: scan_ok_def beginSet_def)

lemma scanSets_ok:
  assumes env: "env_ok env"
  shows "scanSets env ss st = Inr st' \<Longrightarrow> set ss \<subseteq> set (sc_sets env) \<Longrightarrow>
    sorted (map as_start ss) \<Longrightarrow> distinct (map as_id ss) \<Longrightarrow>
    as_id ` set ss \<inter> ra_set ` set (ss_assignments st) = {} \<Longrightarrow>
    (\<forall>s\<in>set ss. pos \<le> as_start s) \<Longrightarrow> scan_ok env pos st \<Longrightarrow> ss_failure st' = None \<Longrightarrow>
    (\<exists>pos'. scan_ok env pos' st') \<and>
    map ra_set (ss_assignments st') = map ra_set (ss_assignments st) @ map as_id ss"
proof (induction ss arbitrary: pos st)
  case Nil
  then show ?case by auto
next
  case (Cons s ss)
  let ?st0 = "beginSet env s st"
  have s: "s \<in> set (sc_sets env)" using Cons.prems(2) by simp
  obtain st1 where st1: "allocateSet env s ?st0 = Inr st1"
      "(if ss_failure st1 \<noteq> None then Inr st1 else scanSets env ss st1) = Inr st'"
    using Cons.prems(1) by (auto simp: bindR_eq_Inr)
  have nofail: "ss_failure st1 = None" using st1(2) Cons.prems(8) by (auto split: if_splits)
  have ok0: "scan_ok env (as_start s) ?st0"
    using beginSet_ok [OF Cons.prems(7)] Cons.prems(6) by simp
  obtain b where b: "base_ok env ?st0 s b" "st1 = addAssignment env s b ?st0"
    using allocateSet_cases [OF env ok0 s st1(1)] nofail by blast
  have as0: "ss_assignments ?st0 = ss_assignments st" by (simp add: beginSet_def)
  have new: "as_id s \<notin> ra_set ` set (ss_assignments ?st0)"
    using Cons.prems(5) as0 by auto
  note ok1 = addAssignment_ok [OF env ok0 s b(1) new, folded b(2)]
  have "(\<exists>pos'. scan_ok env pos' st') \<and>
      map ra_set (ss_assignments st') = map ra_set (ss_assignments st1) @ map as_id ss"
  proof (rule Cons.IH [OF _ _ _ _ _ _ ok1(1) Cons.prems(8)])
    show "scanSets env ss st1 = Inr st'" using st1(2) nofail by simp
    show "set ss \<subseteq> set (sc_sets env)" "sorted (map as_start ss)" "distinct (map as_id ss)"
      "\<forall>t\<in>set ss. as_start s \<le> as_start t"
      using Cons.prems(2,3,4) by auto
    show "as_id ` set ss \<inter> ra_set ` set (ss_assignments st1) = {}"
      using Cons.prems(4,5) ok1(2) as0 by auto
  qed
  then show ?case using ok1(2) as0 by simp
qed

lemma scan_ok_init: "scan_ok env 0 init_scan"
  using active_ok_init by (simp add: scan_ok_def init_scan_def separated_def)

end
