(* ===== verification/Reg_Parse.thy ===== *)
theory Reg_Parse
  imports Reg_Scan_Props
begin

text \<open>
  The preparation of the scan: the index of the alias sets (dense or sparse) is a lookup by id
  and rejects duplicate ids, the reservations stay far below the unsigned range, and an input
  that satisfies \<open>input_ok\<close> prepares an environment that satisfies \<open>env_ok\<close>.
\<close>

subsection \<open>The index of the alias sets\<close>

lemma fillSetIndex_ok:
  "fillSetIndex k ss entries = Inr es \<Longrightarrow> \<forall>s\<in>set ss. as_id s < length entries \<Longrightarrow>
   k + length ss \<le> UINT_MAX \<Longrightarrow>
   length es = length entries \<and> distinct (map as_id ss) \<and>
   (\<forall>s\<in>set ss. entries ! as_id s = UINT_MAX) \<and>
   (\<forall>j < length ss. es ! as_id (ss ! j) = k + j) \<and>
   (\<forall>x. x \<notin> as_id ` set ss \<longrightarrow> es ! x = entries ! x)"
proof (induction ss arbitrary: k entries)
  case (Cons s ss)
  have free: "entries ! as_id s = UINT_MAX" and rest:
      "fillSetIndex (k + 1) ss (entries[as_id s := k]) = Inr es"
    using Cons.prems(1) by (simp_all split: if_splits)
  have len: "\<forall>t\<in>set ss. as_id t < length (entries[as_id s := k])" using Cons.prems(2) by simp
  note IH = Cons.IH [OF rest len]
  have ih: "length es = length entries" "distinct (map as_id ss)"
    "\<forall>t\<in>set ss. entries[as_id s := k] ! as_id t = UINT_MAX"
    "\<forall>j < length ss. es ! as_id (ss ! j) = k + 1 + j"
    "\<forall>x. x \<notin> as_id ` set ss \<longrightarrow> es ! x = entries[as_id s := k] ! x"
    using IH Cons.prems(3) by simp_all
  have s: "as_id s < length entries" and k: "k < UINT_MAX" using Cons.prems(2,3) by simp_all
  have new: "as_id s \<notin> as_id ` set ss"
    using ih(3) s k by (force simp: nth_list_update)
  have old: "\<forall>t\<in>set ss. entries ! as_id t = UINT_MAX"
    using ih(3) new by (metis imageI nth_list_update_neq)
  have first: "es ! as_id s = k" using ih(5) new s by simp
  have "es ! as_id ((s # ss) ! j) = k + j" if "j < length (s # ss)" for j
    using that first ih(4) by (cases j) auto
  moreover have "es ! x = entries ! x" if "x \<notin> as_id ` set (s # ss)" for x
    using that ih(5) by auto
  ultimately show ?case using ih(1,2) new old free by auto
qed simp

lemma fillSetIndex_total:
  "distinct (map as_id ss) \<Longrightarrow> \<forall>s\<in>set ss. as_id s < length entries \<and> entries ! as_id s = UINT_MAX \<Longrightarrow>
   \<exists>es. fillSetIndex k ss entries = Inr es"
proof (induction ss arbitrary: k entries)
  case (Cons s ss)
  have "\<forall>t\<in>set ss. as_id t < length (entries[as_id s := k]) \<and> entries[as_id s := k] ! as_id t = UINT_MAX"
    using Cons.prems by (auto simp: nth_list_update)
  then show ?case using Cons.IH [of "entries[as_id s := k]" "k + 1"] Cons.prems by simp
qed simp

lemma fillSparse_ok:
  "fillSparseSetIndex k ss entries = Inr es \<Longrightarrow>
   distinct (map as_id ss) \<and> (\<forall>s\<in>set ss. map_of entries (as_id s) = None) \<and>
   (\<forall>j < length ss. map_of es (as_id (ss ! j)) = Some (k + j)) \<and>
   (\<forall>x. x \<notin> as_id ` set ss \<longrightarrow> map_of es x = map_of entries x)"
proof (induction ss arbitrary: k entries)
  case (Cons s ss)
  have free: "map_of entries (as_id s) = None" and rest:
      "fillSparseSetIndex (k + 1) ss ((as_id s, k) # entries) = Inr es"
    using Cons.prems by (simp_all split: if_splits)
  note ih = Cons.IH [OF rest]
  have new: "as_id s \<notin> as_id ` set ss" using ih by (auto split: if_splits)
  have "map_of es (as_id ((s # ss) ! j)) = Some (k + j)" if "j < length (s # ss)" for j
    using that ih new by (cases j) auto
  then show ?case using ih new free by (auto split: if_splits)
qed simp

lemma fillSparse_total:
  "distinct (map as_id ss) \<Longrightarrow> \<forall>s\<in>set ss. map_of entries (as_id s) = None \<Longrightarrow>
   \<exists>es. fillSparseSetIndex k ss entries = Inr es"
proof (induction ss arbitrary: k entries)
  case (Cons s ss)
  have "\<forall>t\<in>set ss. map_of ((as_id s, k) # entries) (as_id t) = None"
    using Cons.prems by (auto simp: image_iff)
  then show ?case using Cons.IH [of "(as_id s, k) # entries" "k + 1"] Cons.prems by simp
qed simp

lemma max_id: "\<forall>s\<in>set ss. as_id s \<le> fold (\<lambda>s m. max m (as_id s)) ss 0"
  using fold_max_le [of 0 as_id ss] by simp

lemma buildSetIndex_ok:
  assumes "length ss < UINT_MAX"
  shows "(\<exists>r. buildSetIndex ss = Inr r) \<longleftrightarrow> distinct (map as_id ss)"
proof -
  let ?m = "fold (\<lambda>s m. max m (as_id s)) ss 0"
  have ids: "\<forall>s\<in>set ss. as_id s < length (replicate (?m + 1) UINT_MAX)"
    using max_id by (auto simp: less_Suc_eq_le)
  have dense: "(\<exists>es. fillSetIndex 0 ss (replicate (?m + 1) UINT_MAX) = Inr es) \<longleftrightarrow>
      distinct (map as_id ss)"
    using fillSetIndex_ok [OF _ ids, of 0] fillSetIndex_total [of ss "replicate (?m + 1) UINT_MAX" 0]
      ids assms by (auto simp del: replicate_Suc)
  have sparse: "(\<exists>es. fillSparseSetIndex 0 ss [] = Inr es) \<longleftrightarrow> distinct (map as_id ss)"
    using fillSparse_ok [of 0 ss "[]"] fillSparse_total [of ss "[]" 0] by auto
  show ?thesis
    using dense sparse by (auto simp: buildSetIndex_def Let_def bindR_eq_Inr)
qed

lemma getSetById_index:
  assumes b: "buildSetIndex (sc_sets env) = Inr (se_setIndexById env, se_sparseSetIndex env)"
    and small: "length (sc_sets env) < UINT_MAX"
  shows "getSetById env k = Some s \<longleftrightarrow> s \<in> set (sc_sets env) \<and> as_id s = k"
proof -
  let ?ss = "sc_sets env" and ?m = "fold (\<lambda>s m. max m (as_id s)) (sc_sets env) 0"
  have dist: "distinct (map as_id ?ss)" using buildSetIndex_ok [OF small] b by blast
  have by_index: "s \<in> set ?ss \<and> as_id s = k \<longleftrightarrow> (\<exists>j < length ?ss. s = ?ss ! j \<and> as_id (?ss ! j) = k)"
    by (auto simp: in_set_conv_nth)
  have uniq: "i = j" if "i < length ?ss" "j < length ?ss" "as_id (?ss ! i) = as_id (?ss ! j)" for i j
    using dist that by (metis distinct_conv_nth length_map nth_map)
  consider (empty) "?ss = []" | (dense) "?ss \<noteq> []" "?m \<le> 4 * length ?ss"
    | (sparse) "?ss \<noteq> []" "\<not> ?m \<le> 4 * length ?ss" by blast
  then show ?thesis
  proof cases
    case empty
    then show ?thesis using b by (simp add: buildSetIndex_def getSetById_def)
  next
    case dense
    have ids: "\<forall>s\<in>set ?ss. as_id s < length (replicate (?m + 1) UINT_MAX)"
      using max_id by (auto simp: less_Suc_eq_le)
    have f: "fillSetIndex 0 ?ss (replicate (?m + 1) UINT_MAX) = Inr (se_setIndexById env)"
      and none: "se_sparseSetIndex env = []"
      using b dense by (auto simp: buildSetIndex_def Let_def bindR_eq_Inr)
    note spec = fillSetIndex_ok [OF f ids]
    have len: "length (se_setIndexById env) = ?m + 1" using spec small by simp
    have at: "j < length ?ss \<Longrightarrow> se_setIndexById env ! as_id (?ss ! j) = j" for j
      using spec small by simp
    have other: "k \<notin> as_id ` set ?ss \<Longrightarrow> k < ?m + 1 \<Longrightarrow> se_setIndexById env ! k = UINT_MAX"
      using spec small by (simp del: replicate_Suc)
    show ?thesis
    proof (cases "k \<in> as_id ` set ?ss")
      case True
      then obtain j where j: "j < length ?ss" "as_id (?ss ! j) = k" by (auto simp: in_set_conv_nth)
      then have "k < ?m + 1" using max_id [of ?ss] by (metis le_imp_less_Suc Suc_eq_plus1 nth_mem)
      then have "getSetById env k = Some (?ss ! j)"
        using at [OF j(1)] j small len by (simp add: getSetById_def Let_def)
      then show ?thesis using by_index j uniq by auto
    next
      case False
      then have "getSetById env k = None"
        using other none len by (auto simp: getSetById_def Let_def)
      then show ?thesis using False by auto
    qed
  next
    case sparse
    have f: "fillSparseSetIndex 0 ?ss [] = Inr (se_sparseSetIndex env)" "se_setIndexById env = []"
      using b sparse by (auto simp: buildSetIndex_def Let_def bindR_eq_Inr)
    note spec = fillSparse_ok [OF f(1)]
    have g: "getSetById env k = map_option (\<lambda>i. ?ss ! i) (map_of (se_sparseSetIndex env) k)"
      using f(2) by (simp add: getSetById_def)
    show ?thesis
    proof (cases "k \<in> as_id ` set ?ss")
      case True
      then obtain j where j: "j < length ?ss" "as_id (?ss ! j) = k" by (auto simp: in_set_conv_nth)
      then have "getSetById env k = Some (?ss ! j)" using spec g by auto
      then show ?thesis using by_index j uniq by auto
    next
      case False
      then show ?thesis using spec g by auto
    qed
  qed
qed

subsection \<open>Reservations\<close>

definition fr_ok :: "(assignment \<Rightarrow> bool) \<Rightarrow> fixed_reservations \<Rightarrow> bool" where
  "fr_ok P fr \<longleftrightarrow>
     length (fr_byClass fr) = 5 \<and>
     (\<forall>c. \<forall>i\<in>set (fr_byClass fr ! getRegClassIndex c).
        i < length (fr_reservations fr) \<and> P (fr_reservations fr ! i))"

lemma fr_ok_push: "fr_ok P fr \<Longrightarrow> P r \<Longrightarrow> fr_ok P (pushReservation r fr)"
  using getRegClassIndex_less
  by (auto simp: fr_ok_def pushReservation_def Let_def nth_list_update nth_append less_SucI)

lemma fr_ok_class: "fr_ok P fr \<Longrightarrow> r \<in> set (reservationsOfClass fr c) \<Longrightarrow> P r"
  by (auto simp: fr_ok_def reservationsOfClass_def)

lemma fold_fr_ok:
  assumes "fr_ok P fr" and "\<And>x fr. x \<in> set xs \<Longrightarrow> fr_ok P fr \<Longrightarrow> fr_ok P (f x fr)"
  shows "fr_ok P (fold f xs fr)"
  using assms by (induction xs arbitrary: fr) auto

lemma fr_ok_none: "fr_ok P \<lparr>fr_reservations = [], fr_byClass = replicate 5 []\<rparr>"
  using getRegClassIndex_less by (simp add: fr_ok_def)

definition small_reservation :: "assignment \<Rightarrow> bool" where
  "small_reservation r \<longleftrightarrow> ra_base r + ra_width r \<le> 1073741824"

definition entry_ok :: "kernel_entry_regs \<Rightarrow> bool" where
  "entry_ok regs \<longleftrightarrow>
     length (er_workgroupIdSGPRs regs) = 3 \<and> length (er_workitemIdVGPRs regs) = 3 \<and>
     (\<forall>r\<in>set (er_workgroupIdSGPRs regs @ er_workitemIdVGPRs regs). r \<le> 268435456) \<and>
     er_kernargSegmentPtrWidth regs + er_kernargPreloadDwords regs \<le> 268435456 \<and>
     er_reservedSGPRs regs \<le> 268435456"

lemma entry_base_small:
  assumes "entry_ok regs" and "getEntryRegFixedBase ir v regs = Some base"
  shows "base \<le> 268435456"
proof -
  have axis: "y < 3" if "getWorkitemIdAxis op = Some y" for op y
    using that by (auto simp: getWorkitemIdAxis_def split: if_splits)
  have items: "er_workitemIdVGPRs regs ! i \<le> 268435456" "er_workgroupIdSGPRs regs ! i \<le> 268435456"
    if "i < 3" for i
    using assms(1) that unfolding entry_ok_def by (metis nth_mem Un_iff set_append)+
  have preload: "b \<le> 268435456" if "getKernargPreloadBase op c w regs = Some b" for op c w b
  proof -
    have "b = trunc_u32 (er_kernargSegmentPtrWidth regs +
        (po_dwordOffset op - er_kernargPreloadOffsetDwords regs))"
      "po_dwordOffset op - er_kernargPreloadOffsetDwords regs + w \<le> er_kernargPreloadDwords regs"
      using that by (auto simp: getKernargPreloadBase_def Let_def split: if_splits)
    then show ?thesis using assms(1) by (simp add: entry_ok_def arith64_simps)
  qed
  show ?thesis
    using assms(2) items axis preload
    by (auto simp: getEntryRegFixedBase_def Let_def split: option.splits value_type.splits if_splits)
qed

subsection \<open>Prepared environments\<close>

definition input_ok :: "scan_input \<Rightarrow> bool" where
  "input_ok si \<longleftrightarrow>
     state_ok (sc_values si) (sc_sets si) \<and>
     (\<forall>c. bu_limit (sc_budget si c) \<le> 1073741824) \<and>
     (\<forall>limits. sc_limits si = Some limits \<longrightarrow> rl_vgprTupleAlignment limits \<le> 1073741824) \<and>
     (\<forall>v\<in>set (sc_values si). rv_width v \<le> 268435456) \<and>
     entry_ok (sc_entry si)"

lemma fixed_reservations_small:
  assumes "\<forall>c. bu_limit (sc_budget env c) \<le> 1073741824" and "fr_ok small_reservation fr"
  shows "fr_ok small_reservation (collectFixedReservations env fr)"
  unfolding collectFixedReservations_def
proof (rule fold_fr_ok [OF assms(2)])
  fix s :: alias_set and fr :: fixed_reservations
  assume fr: "fr_ok small_reservation fr"
  have b: "bu_limit (sc_budget env (as_regClass s)) \<le> 1073741824" using assms(1) by blast
  have "fr_ok small_reservation (fold (\<lambda>r fr. pushReservation
      \<lparr>ra_regClass = as_regClass s, ra_set = as_id s, ra_base = base, ra_width = as_width s,
       ra_start = lr_start r, ra_end = lr_end r\<rparr> fr) (as_ranges s) fr)"
    if "base + as_width s \<le> bu_limit (sc_budget env (as_regClass s))" for base
    using that b by (intro fold_fr_ok [OF fr] fr_ok_push) (simp_all add: small_reservation_def)
  then show "fr_ok small_reservation (case getFixedBase env s of None \<Rightarrow> fr
      | Some base \<Rightarrow>
          if \<not> registerRangeFits base (as_width s) (bu_limit (sc_budget env (as_regClass s))) then fr
          else fold (\<lambda>r fr. pushReservation
            \<lparr>ra_regClass = as_regClass s, ra_set = as_id s, ra_base = base, ra_width = as_width s,
             ra_start = lr_start r, ra_end = lr_end r\<rparr> fr) (as_ranges s) fr)"
    using fr by (simp split: option.split)
qed

lemma entry_reservations_small:
  assumes "entry_ok (sc_entry env)" and "\<forall>v\<in>set (sc_values env). rv_width v \<le> 268435456"
    and "fr_ok small_reservation fr"
  shows "fr_ok small_reservation (collectEntryABIReservations env fr)"
proof -
  have inner: "fr_ok small_reservation (fold (\<lambda>(index, r) fr. pushReservation
      \<lparr>ra_regClass = rv_regClass v,
       ra_set = trunc_u32 (length (sc_sets env) + length (fr_reservations fr)),
       ra_base = base, ra_width = rv_width v, ra_start = (if index = 0 then 0 else lr_start r),
       ra_end = max (lr_end r) e\<rparr> fr) (enumerate 0 (rv_ranges v)) fr)"
    if "v \<in> set (sc_values env)" "fr_ok small_reservation fr"
      "getEntryRegFixedBase (sc_ir env) value (sc_entry env) = Some base" for v fr base e "value"
    using entry_base_small [OF assms(1) that(3)] assms(2) that(1)
    by (intro fold_fr_ok [OF that(2)]) (auto intro!: fr_ok_push simp: small_reservation_def)
  show ?thesis
  proof (cases "er_reservedSGPRs (sc_entry env) = 0 \<and> er_reservedVGPRs (sc_entry env) = 0")
    case True
    then show ?thesis using assms(3) by (simp add: collectEntryABIReservations_def)
  next
    case False
    show ?thesis
      unfolding collectEntryABIReservations_def Let_def if_not_P [OF False]
    proof (rule fold_fr_ok [OF assms(3)], goal_cases)
      case (1 v fr)
      then show ?case
      proof (cases "getEntryRegFixedBase (sc_ir env) (se_payload env ! rv_id v) (sc_entry env)")
        case (Some base)
        show ?thesis
          using inner [OF 1 Some] 1(2) unfolding Some option.case Let_def by (cases "rv_fixed v = None") simp_all
      qed simp
    qed
  qed
qed

lemma fold_same_length:
  "(\<And>x us. length (f x us) = length us) \<Longrightarrow> length (fold f xs us) = length us"
  by (induction xs arbitrary: us) auto

lemma implicit_reservations_small:
  assumes "entry_ok (sc_entry env)" and "fr_ok small_reservation fr"
  shows "fr_ok small_reservation (collectImplicitABIReservations env fr)"
proof -
  have lane: "length (noteReservedLaneUse us l p) = length us" for us l p
    by (simp add: noteReservedLaneUse_def)
  have span: "length (noteReservedSpanUse us b w p) = length us" for us b w p
    unfolding noteReservedSpanUse_def by (rule fold_same_length) (rule lane)
  have step: "length (noteImplicitSGPRABIUse ir regs op us) = length us" for ir regs op us
    by (auto simp: noteImplicitSGPRABIUse_def Let_def span split: option.split)
  define uses where "uses = fold (\<lambda>(op, position) uses. noteImplicitSGPRABIUse (sc_ir env) (sc_entry env) op uses)
      (ir_positions (sc_ir env)) (replicate (er_reservedSGPRs (sc_entry env)) None)"
  have "length uses = er_reservedSGPRs (sc_entry env)"
    unfolding uses_def by (subst fold_same_length) (auto simp: step)
  then have len: "length uses \<le> 268435456" using assms(1) by (simp add: entry_ok_def)
  have lanes: "l \<le> 268435456" if "(l, u) \<in> set (enumerate 0 uses)" for l u
    using that len by (auto simp: in_set_enumerate_eq)
  show ?thesis
    unfolding collectImplicitABIReservations_def Let_def uses_def [symmetric]
  proof (rule fold_fr_ok [OF assms(2)], goal_cases)
    case (1 x fr)
    then show ?case
      using lanes [of "fst x" "snd x"]
      by (auto intro!: fr_ok_push simp: small_reservation_def split: option.split prod.split)
  qed
qed

lemma parseState_env:
  assumes "parseState si = Inr (env, f)"
  shows "sc_values env = sc_values si" and "sc_sets env = sc_sets si" and "sc_ir env = sc_ir si"
    and "sc_budget env = sc_budget si" and "sc_familyBudget env = sc_familyBudget si"
    and "sc_limits env = sc_limits si" and "sc_resolved env = sc_resolved si"
    and "buildSetIndex (sc_sets env) = Inr (se_setIndexById env, se_sparseSetIndex env)"
    and "collectResolvedValues si = Inr (se_payload env)"
    and "\<forall>c. bu_limit (sc_budget si c) \<le> 1073741824 \<Longrightarrow> entry_ok (sc_entry si) \<Longrightarrow>
      \<forall>v\<in>set (sc_values si). rv_width v \<le> 268435456 \<Longrightarrow>
      fr_ok small_reservation (se_reservations env)"
proof -
  obtain dense sparse payload where p: "buildSetIndex (sc_sets si) = Inr (dense, sparse)"
      "collectResolvedValues si = Inr payload"
    using assms by (auto simp: parseState_def bindR_eq_Inr)
  define none where "none = \<lparr>fr_reservations = [], fr_byClass = replicate 5 []\<rparr>"
  define env0 where "env0 = \<lparr>sc_values = sc_values si, sc_sets = sc_sets si, sc_resolved = sc_resolved si,
       sc_ir = sc_ir si, sc_budget = sc_budget si,
       sc_familyBudget = sc_familyBudget si, sc_limits = sc_limits si, sc_entry = sc_entry si,
       se_payload = payload, se_setIndexById = dense, se_sparseSetIndex = sparse,
       se_fixedBases = [], se_fixedReads = [], se_reservations = none\<rparr>"
  obtain bases failure where b: "computeFixedBases env0 = (bases, failure)" by fastforce
  define env1 where "env1 = env0\<lparr>se_fixedBases := bases\<rparr>"
  define env2 where "env2 = env1\<lparr>se_fixedReads := collectFixedHardwareReadSets env1\<rparr>"
  define env3 where "env3 = env2\<lparr>se_reservations := collectFixedReservations env2 none\<rparr>"
  define env4 where "env4 = env3\<lparr>se_reservations := collectEntryABIReservations env3 (se_reservations env3)\<rparr>"
  have e: "env = env4\<lparr>se_reservations := collectImplicitABIReservations env4 (se_reservations env4)\<rparr>"
  proof -
    have "parseState si = Inr (env4\<lparr>se_reservations :=
        collectImplicitABIReservations env4 (se_reservations env4)\<rparr>, failure)"
      by (simp only: parseState_def p bindR_simps prod.case Let_def none_def [symmetric]
          env0_def [symmetric] b env1_def [symmetric] env2_def [symmetric] env3_def [symmetric]
          env4_def [symmetric])
    then show ?thesis using assms by simp
  qed
  show "sc_values env = sc_values si" "sc_sets env = sc_sets si" "sc_ir env = sc_ir si"
    "sc_budget env = sc_budget si" "sc_familyBudget env = sc_familyBudget si"
    "sc_limits env = sc_limits si" "sc_resolved env = sc_resolved si"
    "buildSetIndex (sc_sets env) = Inr (se_setIndexById env, se_sparseSetIndex env)"
    "collectResolvedValues si = Inr (se_payload env)"
    by (simp_all add: e env4_def env3_def env2_def env1_def env0_def p)
  assume small: "\<forall>c. bu_limit (sc_budget si c) \<le> 1073741824" and entry: "entry_ok (sc_entry si)"
    and widths: "\<forall>v\<in>set (sc_values si). rv_width v \<le> 268435456"
  have "fr_ok small_reservation (se_reservations env3)"
    using fixed_reservations_small [of env2 none] small fr_ok_none
    by (simp add: env3_def env2_def env1_def env0_def none_def)
  then have "fr_ok small_reservation (se_reservations env4)"
    using entry_reservations_small [of env3 "se_reservations env3"] entry widths
    by (simp add: env4_def) (simp add: env3_def env2_def env1_def env0_def)
  then show "fr_ok small_reservation (se_reservations env)"
    using implicit_reservations_small [of env4 "se_reservations env4"] entry
    by (simp add: e) (simp add: env4_def env3_def env2_def env1_def env0_def)
qed

lemma parseState_env_ok:
  assumes "input_ok si" and "parseState si = Inr (env, f)"
  shows "env_ok env"
proof -
  note e = parseState_env [OF assms(2)]
  have st: "state_ok (sc_values env) (sc_sets env)" using assms(1) e by (simp add: input_ok_def)
  have small: "length (sc_sets env) < UINT_MAX" using st by (simp add: state_ok_def)
  have "fr_ok small_reservation (se_reservations env)"
    using assms(1) by (intro e(10)) (simp_all add: input_ok_def)
  then have "\<forall>c. \<forall>r\<in>set (reservationsOfClass (se_reservations env) c). ra_base r + ra_width r \<le> 1073741824"
    using fr_ok_class small_reservation_def by blast
  then show ?thesis
    using st getSetById_index [OF e(8) small] assms(1) e by (simp add: env_ok_def input_ok_def)
qed

subsection \<open>The fixed bases of the prepared state\<close>

lemma fixedBaseOfMembers_ok:
  "fixedBaseOfMembers values ms base = (None, r) \<Longrightarrow>
   (base \<noteq> None \<longrightarrow> r = base) \<and>
   (\<forall>m\<in>set ms. \<forall>f. rv_fixed (values ! m) = Some f \<longrightarrow>
      rv_offset (values ! m) \<le> f \<and> r = Some (f - rv_offset (values ! m)))"
proof (induction ms arbitrary: base)
  case (Cons m ms)
  show ?case
  proof (cases "rv_fixed (values ! m)")
    case None
    then show ?thesis using Cons.IH [of base] Cons.prems by (auto simp: Let_def)
  next
    case (Some f)
    let ?b = "f - rv_offset (values ! m)"
    have ok: "rv_offset (values ! m) \<le> f" "base = None \<or> base = Some ?b"
      and rest: "fixedBaseOfMembers values ms (Some ?b) = (None, r)"
      using Cons.prems Some by (auto simp: Let_def split: if_splits)
    then show ?thesis using Cons.IH [OF rest] Some by auto
  qed
qed simp

lemma computeFixedBase_ok:
  assumes "computeFixedBase env s = (None, r)"
  shows "fixedBaseOfMembers (sc_values env) (as_members s) None = (None, r)"
    and "r = Some b \<Longrightarrow> setMembersMeetTargetConstraints env s b"
  using assms by (auto simp: computeFixedBase_def split: prod.splits option.splits if_splits)

lemma computeFixedBases_eq:
  assumes "sc_values env' = sc_values env" and "sc_sets env' = sc_sets env"
    and "sc_ir env' = sc_ir env" and "sc_limits env' = sc_limits env"
    and "sc_budget env' = sc_budget env" and "se_payload env' = se_payload env"
  shows "computeFixedBases env' = computeFixedBases env"
proof -
  have "hasTargetTupleConstraint env' = hasTargetTupleConstraint env"
    by (intro ext) (simp only: hasTargetTupleConstraint_def assms)
  then have "targetTupleBaseIsLegal env' = targetTupleBaseIsLegal env"
    using assms by (intro ext) (simp add: targetTupleBaseIsLegal_def)
  then have "setMembersMeetTargetConstraints env' = setMembersMeetTargetConstraints env"
    using assms \<open>hasTargetTupleConstraint env' = hasTargetTupleConstraint env\<close>
    by (intro ext) (simp add: setMembersMeetTargetConstraints_def)
  then have "computeFixedBase env' = computeFixedBase env"
    by (intro ext) (simp only: computeFixedBase_def assms)
  moreover have "recordFixedFailure env' = recordFixedFailure env"
    using assms by (intro ext) (simp add: recordFixedFailure_def)
  ultimately show ?thesis by (simp only: computeFixedBases_def assms)
qed

lemma parseState_bases:
  assumes "parseState si = Inr (env, f)"
  shows "computeFixedBases env = (se_fixedBases env, f)"
proof -
  obtain dense sparse payload where p: "buildSetIndex (sc_sets si) = Inr (dense, sparse)"
      "collectResolvedValues si = Inr payload"
    using assms by (auto simp: parseState_def bindR_eq_Inr)
  define env0 where "env0 = \<lparr>sc_values = sc_values si, sc_sets = sc_sets si, sc_resolved = sc_resolved si,
       sc_ir = sc_ir si, sc_budget = sc_budget si,
       sc_familyBudget = sc_familyBudget si, sc_limits = sc_limits si, sc_entry = sc_entry si,
       se_payload = payload, se_setIndexById = dense, se_sparseSetIndex = sparse,
       se_fixedBases = [], se_fixedReads = [],
       se_reservations = \<lparr>fr_reservations = [], fr_byClass = replicate 5 []\<rparr>\<rparr>"
  obtain bases failure where b: "computeFixedBases env0 = (bases, failure)" by fastforce
  have "se_fixedBases env = bases" "f = failure"
    using assms by (auto simp: parseState_def p Let_def env0_def [symmetric] b)
  moreover have "se_payload env = se_payload env0"
    using parseState_env(9) [OF assms] p(2) by (simp add: env0_def)
  ultimately show ?thesis
    using computeFixedBases_eq [of env env0] parseState_env(1-6) [OF assms] b
    by (simp add: env0_def)
qed

lemma fixed_failure_None:
  "fold (\<lambda>(s, r) f. case fst r of None \<Rightarrow> f | Some reason \<Rightarrow> Some (g s reason))
     (bases :: ('a \<times> 'b option \<times> 'c) list) f0 = None \<Longrightarrow>
   f0 = None \<and> (\<forall>(s, r)\<in>set bases. fst r = None)"
proof (induction bases arbitrary: f0)
  case (Cons x bases)
  obtain s r where x: "x = (s, r)" by (cases x)
  show ?case
  proof (cases "fst r")
    case None
    then show ?thesis using Cons x by simp
  next
    case (Some reason)
    then have "fold (\<lambda>(s, r) f. case fst r of None \<Rightarrow> f | Some reason \<Rightarrow> Some (g s reason)) bases
        (Some (g s reason)) = None"
      using Cons.prems x by simp
    then show ?thesis using Cons.IH [of "Some (g s reason)"] by simp
  qed
qed simp

lemma getFixedBase_ok:
  assumes parse: "parseState si = Inr (env, None)" and d: "distinct (map as_id (sc_sets env))"
    and s: "s \<in> set (sc_sets env)"
  shows "computeFixedBase env s = (None, getFixedBase env s)"
proof -
  let ?bases = "map (\<lambda>s. (s, computeFixedBase env s)) (sc_sets env)"
  have b: "se_fixedBases env = map (\<lambda>s. snd (computeFixedBase env s)) (sc_sets env)"
    "fold (\<lambda>(s, r) f. case fst r of None \<Rightarrow> f | Some reason \<Rightarrow> Some (recordFixedFailure env s reason))
       ?bases None = None"
    using parseState_bases [OF parse] by (simp_all add: computeFixedBases_def comp_def)
  have "fst (computeFixedBase env s) = None"
    using fixed_failure_None [OF b(2)] s by auto
  moreover have "map_of (zip (map as_id (sc_sets env)) (se_fixedBases env)) (as_id s) =
      Some (snd (computeFixedBase env s))"
  proof -
    have "zip (map as_id (sc_sets env)) (se_fixedBases env) =
        map (\<lambda>s. (as_id s, snd (computeFixedBase env s))) (sc_sets env)"
      by (simp add: b(1) zip_map_map zip_same_conv_map)
    moreover have "(as_id s, snd (computeFixedBase env s)) \<in>
        set (map (\<lambda>s. (as_id s, snd (computeFixedBase env s))) (sc_sets env))"
      using s by auto
    ultimately show ?thesis using d by (simp add: map_of_eq_Some_iff comp_def)
  qed
  ultimately show ?thesis by (simp add: getFixedBase_def prod_eq_iff)
qed

subsection \<open>A successful run\<close>

lemma run_scan_success:
  assumes "input_ok si" and "run_scan si typesOk = Inr (ScanSucceeded as pending)"
    and "parseState si = Inr (env, f)"
  obtains st pos where "env_ok env" and "scan_ok env pos st" and "ss_assignments st = as"
    and "map ra_set as = map as_id (sc_sets si)"
    and "buildPendingAssignments env st (sc_values si) = Inr pending"
    and "checkCombinedFootprintFailure env as = None"
    and "scanSets env (sc_sets env) init_scan = Inr st"
proof -
  have env: "env_ok env" by (rule parseState_env_ok [OF assms(1,3)])
  note e = parseState_env [OF assms(3)]
  obtain st where st: "scanSets env (sc_sets env) init_scan = Inr st" "ss_failure st = None"
      "checkCombinedFootprintFailure env (ss_assignments st) = None" "ss_assignments st = as"
      "buildPendingAssignments env st (sc_values env) = Inr pending"
    using assms(2,3) by (auto simp: run_scan_def bindR_eq_Inr split: option.splits if_splits)
  have "(\<exists>pos. scan_ok env pos st) \<and>
      map ra_set (ss_assignments st) = map ra_set (ss_assignments init_scan) @ map as_id (sc_sets env)"
    using env_okD(5,6) [OF env] scan_ok_init
    by (intro scanSets_ok [OF env st(1), of 0]) (simp_all add: init_scan_def st(2))
  then show thesis using that [OF env _ st(4) _ _ _ st(1)] st e by (auto simp: init_scan_def)
qed

lemma pending_nth:
  "buildPendingAssignments env st vs = Inr pending \<Longrightarrow>
   length pending = length vs \<and>
   (\<forall>i < length vs. \<exists>a. getAssignmentBySet st (rv_set (vs ! i)) = Some a \<and>
      pending ! i = (se_payload env ! rv_id (vs ! i), rv_regClass (vs ! i), rv_width (vs ! i),
        trunc_u32 (ra_base a + rv_offset (vs ! i))))"
proof (induction vs arbitrary: pending)
  case (Cons v vs)
  then obtain a rest where a: "getAssignmentBySet st (rv_set v) = Some a"
      "buildPendingAssignments env st vs = Inr rest"
      "pending = (se_payload env ! rv_id v, rv_regClass v, rv_width v,
        trunc_u32 (ra_base a + rv_offset v)) # rest"
    by (auto simp: bindR_eq_Inr split: option.splits)
  have ih: "length rest = length vs" "\<forall>i < length vs. \<exists>a. getAssignmentBySet st (rv_set (vs ! i)) = Some a \<and>
      rest ! i = (se_payload env ! rv_id (vs ! i), rv_regClass (vs ! i), rv_width (vs ! i),
        trunc_u32 (ra_base a + rv_offset (vs ! i)))"
    using Cons.IH [OF a(2)] by blast+
  show ?case
  proof (intro conjI allI impI)
    show "length pending = length (v # vs)" using a(3) ih(1) by simp
    fix i assume "i < length (v # vs)"
    then show "\<exists>a. getAssignmentBySet st (rv_set ((v # vs) ! i)) = Some a \<and>
        pending ! i = (se_payload env ! rv_id ((v # vs) ! i), rv_regClass ((v # vs) ! i),
          rv_width ((v # vs) ! i), trunc_u32 (ra_base a + rv_offset ((v # vs) ! i)))"
      using a ih(2) by (cases i) auto
  qed
qed simp

text \<open>The register a value gets, and the assignment of its set.\<close>

lemma pending_value:
  assumes env: "env_ok env" and ok: "scan_ok env pos st"
    and ids: "map ra_set (ss_assignments st) = map as_id (sc_sets env)"
    and p: "buildPendingAssignments env st (sc_values env) = Inr pending"
    and i: "i < length (sc_values env)"
  obtains k A where "k < length (ss_assignments st)" and "A \<in> set (sc_sets env)"
    and "rv_set (sc_values env ! i) = as_id A" and "ra_set (ss_assignments st ! k) = as_id A"
    and "assignment_ok env (ss_assignments st ! k)"
    and "snd (snd (snd (pending ! i))) =
      ra_base (ss_assignments st ! k) + rv_offset (sc_values env ! i)"
    and "fst (snd (snd (pending ! i))) = rv_width (sc_values env ! i)"
    and "fst (snd (pending ! i)) = rv_regClass (sc_values env ! i)"
    and "rv_offset (sc_values env ! i) + rv_width (sc_values env ! i)
      \<le> ra_width (ss_assignments st ! k)"
    and "ra_regClass (ss_assignments st ! k) = rv_regClass (sc_values env ! i)"
proof -
  let ?v = "sc_values env ! i"
  have v: "?v \<in> set (sc_values env)" using i by simp
  obtain a where a: "getAssignmentBySet st (rv_set ?v) = Some a"
      "pending ! i = (se_payload env ! rv_id ?v, rv_regClass ?v, rv_width ?v,
        trunc_u32 (ra_base a + rv_offset ?v))"
    using pending_nth [OF p] i by blast
  then obtain k where k: "k < length (ss_assignments st)" "ra_set (ss_assignments st ! k) = rv_set ?v"
      "a = ss_assignments st ! k"
    using ok by (auto simp: getAssignmentBySet_def scan_ok_def)
  have aok: "assignment_ok env a" using ok k by (simp add: scan_ok_def)
  obtain A where A: "A \<in> set (sc_sets env)" "ra_set a = as_id A" "ra_width a = as_width A"
      "ra_regClass a = as_regClass A"
    using assignment_set [OF env aok] by metis
  have e: "rv_set ?v = as_id A" using k A by simp
  note m = value_member(3,4) [OF env A(1) v e]
  have "trunc_u32 (ra_base a + rv_offset ?v) = ra_base a + rv_offset ?v"
    using assignment_ok_bounds(2) [OF env aok] m(1) A(3) by (simp add: arith64_simps)
  then show thesis using that [OF k(1) A(1) e] k A m a aok by simp
qed

end
