(* ===== verification/Reg_First_Fit.thy ===== *)
theory Reg_First_Fit
  imports Reg_Parse
begin

text \<open>
  The search for a base is a first fit. The loop of \<^verbatim>\<open>findFreeBase\<close> jumps over whole
  conflicts; here it is shown equal to a search that tries every base in turn, and to need no
  more steps than there are candidate bases, so that it always ends.
\<close>

definition baseIsFree :: "scan_env \<Rightarrow> scan_state \<Rightarrow> alias_set \<Rightarrow> nat \<Rightarrow> bool" where
  "baseIsFree env st s b \<longleftrightarrow>
     setBaseIsLegal env s b \<and>
     findActiveConflictEnd env (ss_active st) (ss_assignments st) s b = None \<and>
     findFixedReservationConflictEnd env s b = None"

lemma alignTo_props:
  assumes "0 < k"
  shows "v \<le> alignTo v k" and "alignTo v k < v + k" and "k dvd alignTo v k"
    and "k dvd b \<Longrightarrow> v \<le> b \<Longrightarrow> alignTo v k \<le> b"
proof -
  have e: "alignTo v k + (v + k - 1) mod k = v + k - 1"
    unfolding alignTo_def by (metis add.commute mult.commute mult_div_mod_eq)
  have m: "(v + k - 1) mod k < k" using assms by simp
  show "v \<le> alignTo v k" "alignTo v k < v + k" using e m assms by linarith+
  show "k dvd alignTo v k" by (simp add: alignTo_def)
  assume "k dvd b" "v \<le> b"
  then obtain q where q: "b = k * q" by blast
  have "v + k - 1 < k * Suc q" using \<open>v \<le> b\<close> q assms by simp
  then have "(v + k - 1) div k < Suc q" using assms by (metis div_less_iff_less_mult mult.commute)
  then show "alignTo v k \<le> b" by (simp add: alignTo_def q)
qed

lemma set_width_positive:
  assumes "env_ok env" and "s \<in> set (sc_sets env)"
  shows "0 < as_width s"
proof -
  have ok: "set_ok (sc_values env) s" by (rule env_okD(2) [OF assms])
  then obtain m where m: "m \<in> set (as_members s)"
    unfolding set_ok_def by (metis last_in_set)
  show ?thesis
    using set_ok_member(2,5) [OF env_okD(1) [OF assms(1)] ok m] by (simp add: value_ok_def)
qed

lemma alignment_bounds:
  assumes "env_ok env" and "as_width s \<le> 1073741824"
  shows "0 < getRequiredAlignment env s" and "getRequiredAlignment env s \<le> 2147483648"
proof -
  have p: "0 < trunc_u32 (PowerOf2Ceil (as_width s)) \<and>
      trunc_u32 (PowerOf2Ceil (as_width s)) \<le> 2147483648" if "1 < as_width s"
    using PowerOf2Ceil_bounds [of "as_width s"] that assms(2) by (simp add: arith64_simps)
  have l: "rl_vgprTupleAlignment limits \<le> 1073741824" if "sc_limits env = Some limits" for limits
    using assms(1) that by (simp add: env_ok_def)
  show "0 < getRequiredAlignment env s" "getRequiredAlignment env s \<le> 2147483648"
    using p by (auto simp: getRequiredAlignment_def dest!: l split: option.split)
qed

lemma base_multiple: "setBaseIsLegal env s b \<Longrightarrow> getRequiredAlignment env s dvd b"
  by (simp add: setBaseIsLegal_def dvd_eq_mod_eq_0)

text \<open>A conflict at a base is one at every base below its end.\<close>

lemma active_conflict_source:
  assumes env: "env_ok env" and ok: "scan_ok env pos st" and s: "s \<in> set (sc_sets env)"
    and c: "findActiveConflictEnd env (ss_active st) (ss_assignments st) s base = Some e"
  obtains i A m where "isLive (ss_active st) i" and "ss_assignments st ! i \<in> set (ss_assignments st)"
    and "ra_regClass (ss_assignments st ! i) = as_regClass s"
    and "getSetById env (ra_set (ss_assignments st ! i)) = Some A" and "m \<in> set (as_members A)"
    and "rv_offset (sc_values env ! m) + rv_width (sc_values env ! m) \<le> ra_width (ss_assignments st ! i)"
    and "ra_base (ss_assignments st ! i) + ra_width (ss_assignments st ! i) \<le> 1073741824"
    and "e = ra_base (ss_assignments st ! i) + rv_offset (sc_values env ! m) + rv_width (sc_values env ! m)"
    and "base < e"
    and "ra_base (ss_assignments st ! i) + rv_offset (sc_values env ! m) < base + as_width s"
    and "memberConflictsWithSet env s (sc_values env ! m)"
proof -
  let ?as = "ss_assignments st"
  let ?P = "\<lambda>base a. assignedRangesOverlap a base (as_width s) \<and>
      getActiveAssignmentConflictEnd env s a base \<noteq> None \<and> \<not> canShareFixedHardwareRead env s a base"
  have act: "active_ok pos ?as (ss_active st)" and aoks: "\<forall>a\<in>set ?as. assignment_ok env a"
    using ok by (simp_all add: scan_ok_def)
  obtain a where q: "anyRegClassOverlappingRange (ss_active st) (as_regClass s) base (as_width s)
      ?as (?P base) = Some a" and e: "getActiveAssignmentConflictEnd env s a base = Some e"
    using c by (auto simp: findActiveConflictEnd_def split: option.splits)
  obtain i where i: "isLive (ss_active st) i" "a = ?as ! i" "ra_regClass a = as_regClass s"
    using query_Some [OF act q] by blast
  then have mem: "a \<in> set ?as" using active_okD(5) [OF act, of i] by simp
  note aok = aoks [rule_format, OF mem]
  obtain A where A: "A \<in> set (sc_sets env)" "ra_width a = as_width A" "getSetById env (ra_set a) = Some A"
    using assignment_set [OF env aok] by metis
  note sA = env_okD(1) [OF env] env_okD(2) [OF env A(1)]
  have inside: "rv_offset (sc_values env ! m) + rv_width (sc_values env ! m) \<le> ra_width a"
    if "m \<in> set (as_members A)" for m
    using set_ok_member(5) [OF sA that] A(2) by simp
  have bound: "ra_base a + ra_width a \<le> 1073741824" by (rule assignment_ok_bounds(2) [OF env aok])
  have ends: "\<forall>m\<in>set (as_members A).
      ra_base a + rv_offset (sc_values env ! m) + rv_width (sc_values env ! m) < 4294967296"
  proof
    fix m assume "m \<in> set (as_members A)"
    from inside [OF this] bound
    show "ra_base a + rv_offset (sc_values env ! m) + rv_width (sc_values env ! m) < 4294967296"
      by linarith
  qed
  have mc: "memberConflictEnd env s a base (as_members A) = Some e"
    using e A(3) by (simp add: getActiveAssignmentConflictEnd_def)
  obtain m where m: "m \<in> set (as_members A)"
      "e = ra_base a + rv_offset (sc_values env ! m) + rv_width (sc_values env ! m)" "base < e"
      "ra_base a + rv_offset (sc_values env ! m) < base + as_width s"
      "memberConflictsWithSet env s (sc_values env ! m)"
    using memberConflictEnd_Some [OF mc ends] unfolding Let_def by metis
  show thesis
    using that [of i A m] i mem A(3) m inside [OF m(1)] bound by simp
qed

lemma active_conflict_end:
  assumes "env_ok env" and "scan_ok env pos st" and "s \<in> set (sc_sets env)"
    and "findActiveConflictEnd env (ss_active st) (ss_assignments st) s base = Some e"
  shows "e \<le> 1073741824 \<and> base < e"
  by (rule active_conflict_source [OF assms]) linarith

lemma active_conflict_persists:
  assumes env: "env_ok env" and ok: "scan_ok env pos st" and s: "s \<in> set (sc_sets env)"
    and nofix: "getFixedBase env s = None"
    and c: "findActiveConflictEnd env (ss_active st) (ss_assignments st) s base = Some e"
    and b: "base \<le> b" "b < e" and small: "b + as_width s \<le> 1073741824"
  shows "findActiveConflictEnd env (ss_active st) (ss_assignments st) s b \<noteq> None"
proof -
  let ?as = "ss_assignments st"
  let ?P = "\<lambda>a. assignedRangesOverlap a b (as_width s) \<and>
      getActiveAssignmentConflictEnd env s a b \<noteq> None \<and> \<not> canShareFixedHardwareRead env s a b"
  have act: "active_ok pos ?as (ss_active st)" and aoks: "\<forall>a\<in>set ?as. assignment_ok env a"
    using ok by (simp_all add: scan_ok_def)
  obtain i A m where i: "isLive (ss_active st) i" "?as ! i \<in> set ?as"
      "ra_regClass (?as ! i) = as_regClass s"
    and A: "getSetById env (ra_set (?as ! i)) = Some A" "m \<in> set (as_members A)"
    and inside: "rv_offset (sc_values env ! m) + rv_width (sc_values env ! m) \<le> ra_width (?as ! i)"
      "ra_base (?as ! i) + ra_width (?as ! i) \<le> 1073741824"
    and m: "e = ra_base (?as ! i) + rv_offset (sc_values env ! m) + rv_width (sc_values env ! m)"
      "base < e" "ra_base (?as ! i) + rv_offset (sc_values env ! m) < base + as_width s"
      "memberConflictsWithSet env s (sc_values env ! m)"
    by (rule active_conflict_source [OF env ok s c])
  have conflict: "getActiveAssignmentConflictEnd env s (?as ! i) b \<noteq> None"
  proof
    assume "getActiveAssignmentConflictEnd env s (?as ! i) b = None"
    then have n: "memberConflictEnd env s (?as ! i) b (as_members A) = None"
      using A(1) by (simp add: getActiveAssignmentConflictEnd_def)
    show False
      using memberConflictEnd_None [OF n A(2) refl] m b inside by simp
  qed
  have overlap: "assignedRangesOverlap (?as ! i) b (as_width s)"
    using m(1,3) b inside by (simp add: assignedRangesOverlap_def)
  have share: "\<not> canShareFixedHardwareRead env s (?as ! i) b"
    using nofix by (simp add: canShareFixedHardwareRead_def)
  have pos: "\<forall>a\<in>set ?as. 0 < ra_width a" using aoks assignment_ok_bounds(1) [OF env] by blast
  have "anyRegClassOverlappingRange (ss_active st) (as_regClass s) b (as_width s) ?as ?P \<noteq> None"
    using query_None [OF act _ set_width_positive [OF env s] pos, of b "as_regClass s" ?P]
      small i conflict overlap share by auto
  then obtain a' where a': "anyRegClassOverlappingRange (ss_active st) (as_regClass s) b (as_width s)
      ?as ?P = Some a'" by blast
  then have "?P a'" using query_Some [OF act a'] by blast
  then show ?thesis using a' by (simp add: findActiveConflictEnd_def)
qed

lemma reservation_conflict_persists:
  assumes env: "env_ok env"
    and c: "findFixedReservationConflictEnd env s base = Some e"
  shows "e \<le> 1073741824 \<and> base < e"
    and "base \<le> b \<Longrightarrow> b < e \<Longrightarrow> findFixedReservationConflictEnd env s b \<noteq> None"
proof -
  let ?rs = "reservationsOfClass (se_reservations env) (as_regClass s)"
  obtain r where r: "List.find (\<lambda>r. assignedRangesOverlap r base (as_width s) \<and>
      setOverlapsRange s (ra_start r) (ra_end r)) ?rs = Some r"
      "e = trunc_u32 (ra_base r + ra_width r)"
    using c by (auto simp: findFixedReservationConflictEnd_def)
  then have f: "r \<in> set ?rs" "assignedRangesOverlap r base (as_width s)"
      "setOverlapsRange s (ra_start r) (ra_end r)"
    by (auto simp: find_Some_iff)
  have "ra_base r + ra_width r \<le> 1073741824" using env f(1) by (simp add: env_ok_def)
  then have e: "e = ra_base r + ra_width r" "e \<le> 1073741824" using r(2) by (simp_all add: arith64_simps)
  show "e \<le> 1073741824 \<and> base < e" using f(2) e by (simp add: assignedRangesOverlap_def)
  assume b: "base \<le> b" "b < e"
  have "assignedRangesOverlap r b (as_width s)"
    using f(2) e b by (simp add: assignedRangesOverlap_def)
  then show "findFixedReservationConflictEnd env s b \<noteq> None"
    using f by (auto simp: findFixedReservationConflictEnd_def find_None_iff)
qed

lemma find_upt_skip:
  assumes "\<forall>b. lo \<le> b \<longrightarrow> b < hi \<longrightarrow> b \<le> m \<longrightarrow> \<not> P b" and "lo \<le> hi"
  shows "List.find P [lo ..< m + 1] = List.find P [hi ..< m + 1]"
proof (cases "hi \<le> m + 1")
  case True
  then have "[lo ..< m + 1] = [lo ..< hi] @ [hi ..< m + 1]"
    using assms(2) by (metis le_iff_add upt_add_eq_append)
  moreover have "List.find P ([lo ..< hi] @ ys) = List.find P ys" for ys
  proof -
    have "List.find P (xs @ ys) = List.find P ys" if "\<forall>x\<in>set xs. \<not> P x" for xs
      using that by (induction xs) auto
    then show ?thesis using assms(1) True by simp
  qed
  ultimately show ?thesis by simp
next
  case False
  then have "\<forall>b. lo \<le> b \<longrightarrow> b \<le> m \<longrightarrow> \<not> P b" using assms(1) by simp
  then have "List.find P [lo ..< m + 1] = None" by (auto simp: find_None_iff)
  then show ?thesis using False by simp
qed

text \<open>The loop goes up through the multiples of the alignment and skips no free base.\<close>

lemma findFreeLoop_first_fit:
  assumes env: "env_ok env" and ok: "scan_ok env pos st" and s: "s \<in> set (sc_sets env)"
    and nofix: "getFixedBase env s = None"
    and max: "maxBase + as_width s \<le> 1073741824" and k: "k = getRequiredAlignment env s"
  shows "k dvd base \<Longrightarrow> maxBase + 2 \<le> fuel + base \<Longrightarrow> 1 \<le> fuel \<Longrightarrow>
    findFreeLoop fuel env st s maxBase k base =
      Inr (List.find (baseIsFree env st s) [base ..< maxBase + 1])"
proof (induction fuel arbitrary: base)
  case (Suc fuel)
  have kb: "0 < k" "k \<le> 2147483648" using alignment_bounds [OF env, of s] max k by simp_all
  have multiples: "\<not> baseIsFree env st s b" if "base < b" "b < base + k" for b
  proof
    assume "baseIsFree env st s b"
    then have "k dvd b" using base_multiple k by (simp add: baseIsFree_def)
    then have "k dvd b - base" using Suc.prems(1) by (rule dvd_diff_nat)
    moreover have "0 < b - base" "b - base < k" using that by linarith+
    ultimately show False using nat_dvd_not_less by blast
  qed
  show ?case
  proof (cases "maxBase < base")
    case True
    then show ?thesis by simp
  next
    case base: False
    then have fuel: "maxBase + 2 \<le> fuel + (base + d)" "1 \<le> fuel" if "1 \<le> d" for d
      using that Suc.prems by linarith+
    have go: "findFreeLoop fuel env st s maxBase k (trunc_u32 next) =
        Inr (List.find (baseIsFree env st s) [base ..< maxBase + 1])"
      if n: "k dvd next" "base < next" "next < 4294967296"
        "\<forall>b. base \<le> b \<longrightarrow> b < next \<longrightarrow> b \<le> maxBase \<longrightarrow> \<not> baseIsFree env st s b" for "next"
    proof -
      have t: "trunc_u32 next = next" using n(3) by (simp add: arith64_simps)
      have "findFreeLoop fuel env st s maxBase k next =
          Inr (List.find (baseIsFree env st s) [next ..< maxBase + 1])"
        using fuel [of "next - base"] n(1,2) by (intro Suc.IH) simp_all
      then show ?thesis
        unfolding t using find_upt_skip [OF n(4)] n(2) by simp
    qed
    show ?thesis
    proof (cases "setBaseIsLegal env s base")
      case False
      then have "\<not> baseIsFree env st s base" by (simp add: baseIsFree_def)
      then have "\<forall>b. base \<le> b \<longrightarrow> b < base + k \<longrightarrow> b \<le> maxBase \<longrightarrow> \<not> baseIsFree env st s b"
        using multiples by (metis le_neq_implies_less)
      then show ?thesis
        using go [of "base + k"] Suc.prems(1) kb base max False by simp
    next
      case legal: True
      let ?active = "findActiveConflictEnd env (ss_active st) (ss_assignments st) s base"
      let ?upper = "if ?active = None then findFixedReservationConflictEnd env s base else ?active"
      show ?thesis
      proof (cases ?upper)
        case None
        then have "baseIsFree env st s base" using legal by (simp add: baseIsFree_def split: if_splits)
        moreover have "[base ..< maxBase + 1] = base # [Suc base ..< maxBase + 1]"
          using base by (simp add: upt_conv_Cons del: upt_Suc)
        ultimately show ?thesis
          using None base legal by (simp add: Let_def del: upt_Suc split: if_splits)
      next
        case (Some e)
        have small: "b + as_width s \<le> 1073741824" if "b \<le> maxBase" for b using that max by simp
        have e: "e \<le> 1073741824 \<and> base < e"
        proof (cases "?active = None")
          case True
          then show ?thesis using reservation_conflict_persists(1) [OF env] Some by simp
        next
          case False
          then have "?active = Some e" using Some by (simp split: if_splits)
          then show ?thesis by (rule active_conflict_end [OF env ok s])
        qed
        have below: "\<not> baseIsFree env st s b" if "base \<le> b" "b < e" "b \<le> maxBase" for b
        proof (cases "?active = None")
          case True
          then show ?thesis
            using reservation_conflict_persists(2) [OF env _ that(1,2)] Some by (simp add: baseIsFree_def)
        next
          case False
          then have "?active = Some e" using Some by (simp split: if_splits)
          then show ?thesis
            using active_conflict_persists [OF env ok s nofix _ that(1,2) small [OF that(3)]]
            by (simp add: baseIsFree_def)
        qed
        note al = alignTo_props [OF kb(1), where v = e]
        have "\<not> baseIsFree env st s b" if "base \<le> b" "b < alignTo e k" "b \<le> maxBase" for b
        proof (cases "b < e")
          case True
          then show ?thesis using below that by simp
        next
          case False
          then have "\<not> k dvd b" using al(4) [of b] that(2) by linarith
          then show ?thesis using base_multiple [of env s b] k by (auto simp: baseIsFree_def)
        qed
        moreover have t: "trunc_u32 (alignTo e k) = alignTo e k" "alignTo e k < 4294967296"
          using al(2) e kb by (simp_all add: arith64_simps)
        moreover have "to_u32 (int (alignTo e k) - int k) + k = alignTo e k"
        proof -
          have "k \<le> alignTo e k" using al(1,3) e by (intro dvd_imp_le) simp_all
          then have "int (alignTo e k) - int k = int (alignTo e k - k)" by simp
          then show ?thesis using \<open>k \<le> alignTo e k\<close> t(2) by (simp add: to_u32_def arith64_simps nat_mod_as_int)
        qed
        ultimately show ?thesis
          using go [of "alignTo e k"] al(1,3) e Some base legal by (simp add: Let_def split: if_splits)
      qed
    qed
  qed
qed simp

lemma find_upt_restrict:
  assumes "m \<le> n" and "\<And>b. b \<le> n \<Longrightarrow> Q b \<longleftrightarrow> b \<le> m"
  shows "List.find (\<lambda>b. P b \<and> Q b) [0 ..< n + 1] = List.find P [0 ..< m + 1]"
proof -
  have append: "List.find R (xs @ ys) = (case List.find R xs of None \<Rightarrow> List.find R ys | Some x \<Rightarrow> Some x)"
    for R :: "nat \<Rightarrow> bool" and xs ys by (induction xs) auto
  have "[0 ..< n + 1] = [0 ..< m + 1] @ [m + 1 ..< n + 1]"
    using assms(1) by (metis add_le_cancel_right le_iff_add le0 upt_add_eq_append)
  moreover have "List.find (\<lambda>b. P b \<and> Q b) [m + 1 ..< n + 1] = None"
    using assms(2) by (auto simp: find_None_iff)
  moreover have "List.find (\<lambda>b. P b \<and> Q b) [0 ..< m + 1] = List.find P [0 ..< m + 1]"
    using assms by (intro find_cong) auto
  ultimately show ?thesis by (simp only: append split: option.split) simp
qed

lemma findFreeBase_least:
  assumes env: "env_ok env" and ok: "scan_ok env pos st" and s: "s \<in> set (sc_sets env)"
    and nofix: "getFixedBase env s = None" and limit: "limit \<le> 1073741824"
  shows "findFreeBase env st s limit before =
    Inr (List.find (\<lambda>b. baseIsFree env st s b \<and>
      (b + as_width s \<le> limit \<and> (case before of None \<Rightarrow> True | Some r \<Rightarrow> b < r))) [0 ..< limit + 1])"
proof (cases "as_width s > limit \<or> before = Some 0")
  case True
  then have "findFreeBase env st s limit before = Inr None" by (auto simp: findFreeBase_def)
  moreover have "List.find (\<lambda>b. baseIsFree env st s b \<and>
      (b + as_width s \<le> limit \<and> (case before of None \<Rightarrow> True | Some r \<Rightarrow> b < r))) [0 ..< limit + 1] = None"
    using True by (auto simp: find_None_iff)
  ultimately show ?thesis by simp
next
  case False
  define maxBase where "maxBase = (case before of
      None \<Rightarrow> limit - as_width s | Some b \<Rightarrow> min (limit - as_width s) (b - 1))"
  let ?k = "getRequiredAlignment env s"
  have m: "maxBase \<le> limit - as_width s" by (simp add: maxBase_def split: option.split)
  have free: "findFreeBase env st s limit before = findFreeLoop (maxBase + 2) env st s maxBase ?k 0"
    using False by (simp add: findFreeBase_def Let_def maxBase_def del: findFreeLoop.simps add_2_eq_Suc')
  have "findFreeLoop (maxBase + 2) env st s maxBase ?k 0 =
      Inr (List.find (baseIsFree env st s) [0 ..< maxBase + 1])"
    using m limit False by (intro findFreeLoop_first_fit [OF env ok s nofix _ refl]) auto
  moreover have "List.find (\<lambda>b. baseIsFree env st s b \<and>
      (b + as_width s \<le> limit \<and> (case before of None \<Rightarrow> True | Some r \<Rightarrow> b < r))) [0 ..< limit + 1] =
      List.find (baseIsFree env st s) [0 ..< maxBase + 1]"
  proof (rule find_upt_restrict)
    show "maxBase \<le> limit" using m by simp
    fix b assume "b \<le> limit"
    show "(b + as_width s \<le> limit \<and> (case before of None \<Rightarrow> True | Some r \<Rightarrow> b < r)) \<longleftrightarrow> b \<le> maxBase"
      using False by (cases before) (auto simp: maxBase_def)
  qed
  ultimately show ?thesis using free by simp
qed

text \<open>C14: The search for a register base is a first fit and ends. In every reachable state
  of the scan, \<^verbatim>\<open>findFreeBase\<close>, which jumps over whole conflicts, returns the least base below
  the limit (and below the base that could be reused) that is legal and conflicts with no active
  assignment and no fixed reservation, and nothing exactly when there is none; its loop never runs
  out of the steps it is given.\<close>

theorem findFreeBase_first_fit:
  assumes env: "env_ok env" and ok: "scan_ok env pos st" and s: "s \<in> set (sc_sets env)"
    and nofix: "getFixedBase env s = None" and limit: "limit \<le> 1073741824"
  shows "findFreeBase env st s limit before =
    Inr (List.find (\<lambda>b. baseIsFree env st s b \<and>
      (b + as_width s \<le> limit \<and> (case before of None \<Rightarrow> True | Some r \<Rightarrow> b < r))) [0 ..< limit + 1])"
  using findFreeBase_least [OF assms] .

end
