(* ===== verification/Reg_Example.thy ===== *)
theory Reg_Example
  imports Reg_Parse "HOL-Library.Code_Target_Nat"
begin

text \<open>
  A small kernel for the witnesses of the register-allocation properties: a value, and the
  result of an operation that reads it last and may overwrite its register.
\<close>

definition ex_value :: "nat \<Rightarrow> value_kind \<Rightarrow> live_range list \<Rightarrow> ra_value" where
  "ex_value i k rs =
     \<lparr>rv_path = [], rv_ranges = rs, rv_regClass = SGPR, rv_kind = k, rv_fixed = None, rv_id = i,
      rv_set = i, rv_start = lr_start (hd rs), rv_end = lr_end (last rs), rv_width = 1,
      rv_offset = 0, rv_number = 0\<rparr>"

definition ex_set :: "nat \<Rightarrow> live_range list \<Rightarrow> alias_set" where
  "ex_set i rs =
     \<lparr>as_members = [i], as_ranges = rs, as_regClass = SGPR, as_id = i,
      as_start = lr_start (hd rs), as_end = lr_end (last rs), as_width = 1\<rparr>"

definition ex_range :: "nat \<Rightarrow> nat \<Rightarrow> live_range" where
  "ex_range a b = \<lparr>lr_start = a, lr_end = b\<rparr>"

definition ex_reuse_op :: payload_op where
  "ex_reuse_op =
     \<lparr>po_name = ''SAddU32Op'', po_regionCount = 0, po_operands = [10], po_results = [11],
      po_reuse = Some (\<lambda>isa n. n = 0), po_base = [], po_dwordOffset = 0, po_ancestors = [],
      po_nested = []\<rparr>"

definition ex_ir :: payload_ir where
  "ex_ir = \<lparr>ir_op = (\<lambda>_. ex_reuse_op), ir_def = (\<lambda>v. if v = 11 then Some 0 else None),
     ir_type = (\<lambda>_. RegType SGPR 1 (-1)), ir_tupleUses = (\<lambda>_. []), ir_isa = Some ''gfx950'',
     ir_positions = []\<rparr>"

definition ex_input :: scan_input where
  "ex_input =
     \<lparr>sc_values = [ex_value 0 BlockArgument [ex_range 0 1], ex_value 1 OpResult [ex_range 1 2]],
      sc_sets = [ex_set 0 [ex_range 0 1], ex_set 1 [ex_range 1 2]],
      sc_resolved = [(10, 0), (11, 1)], sc_ir = ex_ir,
      sc_budget = (\<lambda>_. \<lparr>bu_limit = 4, bu_mode = ''occupancy''\<rparr>), sc_familyBudget = None,
      sc_limits = None, sc_entry = noEntryRegs\<rparr>"

definition ex_env :: scan_env where
  "ex_env =
     \<lparr>sc_values = sc_values ex_input, sc_sets = sc_sets ex_input,
      sc_resolved = sc_resolved ex_input, sc_ir = ex_ir, sc_budget = sc_budget ex_input,
      sc_familyBudget = None, sc_limits = None, sc_entry = noEntryRegs,
      se_payload = [10, 11], se_setIndexById = [0, 1], se_sparseSetIndex = [],
      se_fixedBases = [None, None], se_fixedReads = [],
      se_reservations = \<lparr>fr_reservations = [], fr_byClass = replicate 5 []\<rparr>\<rparr>"

lemmas ex_defs = ex_value_def ex_set_def ex_range_def ex_reuse_op_def ex_ir_def ex_input_def

lemma ex_parse: "parseState ex_input = Inr (ex_env, None)"
  by (simp add: parseState_def ex_defs ex_env_def buildSetIndex_def collectResolvedValues_def
      computeFixedBases_def computeFixedBase_def collectFixedHardwareReadSets_def getFixedBase_def
      collectFixedReservations_def collectEntryABIReservations_def
      collectImplicitABIReservations_def noEntryRegs_def UINT_MAX_def Let_def numeral_2_eq_2)

lemma ex_input_ok: "input_ok ex_input"
  by (simp add: input_ok_def state_ok_def set_ok_def value_ok_def ex_defs UINT_MAX_def entry_ok_def
      noEntryRegs_def decodeAliasSet_def collectRegAllocTransformAliasSetLiveRanges_def
      mergeLiveRanges_def mergeRange_def upt_rec)


definition ex_assignments :: "assignment list" where
  "ex_assignments =
     [\<lparr>ra_regClass = SGPR, ra_set = 0, ra_base = 0, ra_width = 1, ra_start = 0, ra_end = 1\<rparr>,
      \<lparr>ra_regClass = SGPR, ra_set = 1, ra_base = 0, ra_width = 1, ra_start = 1, ra_end = 2\<rparr>]"

definition ex_active :: active_assignments where
  "ex_active = \<lparr>ac_ordered = [0], ac_byEnd = [0], ac_byClass = [[0], [], [], [], []],
     ac_byClassLane = [[[0]], [], [], [], []], ac_live = [True], ac_bySet = [(0, 0)], ac_stale = 0\<rparr>"

definition ex_state :: scan_state where
  "ex_state = init_scan\<lparr>ss_active := ex_active, ss_assignments := take 1 ex_assignments,
     ss_indexBySet := [(0, 0)]\<rparr>"

lemmas ex_scan_defs = beginSet_def allocateSet_def findReusableInputBase_def
  findReusableInputBaseForDef_def findFreeBase_def findActiveConflictEnd_def
  anyRegClassOverlappingRange_def findFixedReservationConflictEnd_def reservationsOfClass_def
  setBaseIsLegal_def setMembersMeetTargetConstraints_def hasTargetTupleConstraint_def
  getRequiredAlignment_def finishSet_def checkCombinedPressureFailure_def addAssignment_def
  add_ac_def expire_def getFixedBase_def getSingleResultValue_def noActive_def addLanes_def
  resizeList_def trunc_u32_def


lemma ex_run:
  "run_scan ex_input True = Inr (ScanSucceeded ex_assignments [(10, SGPR, 1, 0), (11, SGPR, 1, 0)])"
  by code_simp

end
