(* ===== verification/Reg_Alloc_Props.thy ===== *)
theory Reg_Alloc_Props
  imports Reg_First_Fit Reg_Example
begin

text \<open>
  The properties of the linear-scan register allocator: values that are live together
  hold a common register only in the three ways the allocator means and in one that its reuse walk
  overlooks, every register
  lies inside the budget of its class and at its fixed or a legal base, the search for a base
  is a first fit, and the interval structures the scan rests on mean what they should.
\<close>

subsection \<open>No clash\<close>

definition sharedAsMeant :: "scan_env \<Rightarrow> assignment list \<Rightarrow> ra_value \<Rightarrow> ra_value \<Rightarrow> nat \<Rightarrow> bool" where
  "sharedAsMeant env as v w p \<longleftrightarrow>
     (\<exists>a\<in>set as. \<exists>b\<in>set as. \<exists>s\<in>set (sc_sets env).
        ra_set a = rv_set v \<and> ra_set b = rv_set w \<and> as_id s = rv_set w \<and>
        mayShare env a v s (ra_base b) p)"

definition sharedOverlooked :: "scan_env \<Rightarrow> ra_value \<Rightarrow> ra_value \<Rightarrow> nat \<Rightarrow> bool" where
  "sharedOverlooked env v w p \<longleftrightarrow>
     (\<exists>s\<in>set (sc_sets env). as_id s = rv_set w \<and> overlooked env (rv_set v) v s p)"

lemma clash_shared:
  assumes env: "env_ok env" and ok: "scan_ok env pos st"
    and k: "k1 < k2" "k2 < length (ss_assignments st)"
    and v: "v \<in> set (sc_values env)" "ra_set (ss_assignments st ! k1) = rv_set v"
    and w: "w \<in> set (sc_values env)" "ra_set (ss_assignments st ! k2) = rv_set w"
    and cls: "ra_regClass (ss_assignments st ! k1) = ra_regClass (ss_assignments st ! k2)"
    and shares: "sharesRegister (ss_assignments st ! k1) v (ss_assignments st ! k2)"
    and p: "live_in (rv_ranges v) p" "live_in (rv_ranges w) p"
  shows "sharedAsMeant env (ss_assignments st) v w p \<or> sharedOverlooked env v w p"
proof -
  have mem: "ss_assignments st ! k1 \<in> set (ss_assignments st)"
    "ss_assignments st ! k2 \<in> set (ss_assignments st)"
    using k by simp_all
  have aok: "assignment_ok env (ss_assignments st ! k2)" using ok mem(2) by (simp add: scan_ok_def)
  obtain B where B: "B \<in> set (sc_sets env)" "ra_set (ss_assignments st ! k2) = as_id B"
    using assignment_set [OF env aok] by metis
  have e: "rv_set w = as_id B" using w(2) B(2) by simp
  note m = value_member(1,2) [OF env B(1) w(1) e]
  have live: "live_in (as_ranges B) p"
    using set_ok_ranges(2) [OF env_okD(1) [OF env] env_okD(2) [OF env B(1)]] m p(2) by metis
  have "separatedFrom env (ss_assignments st ! k1) B (ss_assignments st ! k2)"
    using ok k B unfolding scan_ok_def separated_def by metis
  then have "mayShare env (ss_assignments st ! k1) v B (ra_base (ss_assignments st ! k2)) p \<or>
      overlooked env (rv_set v) v B p"
    using cls v shares p(1) live unfolding separatedFrom_def by metis
  then show ?thesis
    using mem v(2) w(2) B(1) e unfolding sharedAsMeant_def sharedOverlooked_def by metis
qed

lemma pending_registers_inside:
  assumes "r = a + off" and "off + w \<le> (width :: nat)" and "r < r' + w'" and "r' = b + off'"
    and "off' + w' \<le> width'" and "r' < r + w"
  shows "a + off < b + width'" and "b < a + off + w"
  using assms by linarith+

text \<open>C1: When two live values hold a common register, the allocation is one of four known cases.
  When the linear scan of a well-formed state succeeds, take any two values of different alias
  sets and the register tuples that the allocation gives them. If the tuples are in the same
  register class and overlap, then at every position at which both values are live either the
  sharing is one of the three that the allocator intends (equal reads of a hardware register, a
  result written over an operand of the same operation that dies there, or a result that its last
  reader overwrites), or it is the one unintended case: a result written over an operand whose
  value ends where the set of the result starts and is live again later, before the first range
  of that set is over, which the reuse walk overlooks. No other clash is possible;
  \<open>reuse_walk_clash\<close> below shows that the fourth case occurs.\<close>

theorem values_never_clash:
  assumes si: "input_ok si" and run: "run_scan si typesOk = Inr (ScanSucceeded as pending)"
    and parse: "parseState si = Inr (env, f)"
    and i: "i < length (sc_values si)" and j: "j < length (sc_values si)"
    and sets: "rv_set (sc_values si ! i) \<noteq> rv_set (sc_values si ! j)"
    and pi: "pending ! i = (x, c, w, r)" and pj: "pending ! j = (y, c, w', r')"
    and overlap: "r < r' + w'" "r' < r + w"
    and live: "live_in (rv_ranges (sc_values si ! i)) p" "live_in (rv_ranges (sc_values si ! j)) p"
  shows "sharedAsMeant env as (sc_values si ! i) (sc_values si ! j) p \<or>
         sharedAsMeant env as (sc_values si ! j) (sc_values si ! i) p \<or>
         sharedOverlooked env (sc_values si ! i) (sc_values si ! j) p \<or>
         sharedOverlooked env (sc_values si ! j) (sc_values si ! i) p"
proof -
  obtain st pos where env: "env_ok env" and ok: "scan_ok env pos st"
      and as: "ss_assignments st = as" and ids: "map ra_set as = map as_id (sc_sets si)"
      and p: "buildPendingAssignments env st (sc_values si) = Inr pending"
    using run_scan_success [OF si run parse] by metis
  note e = parseState_env(1,2) [OF parse]
  have ids': "map ra_set (ss_assignments st) = map as_id (sc_sets env)"
    and p': "buildPendingAssignments env st (sc_values env) = Inr pending"
    and ij: "i < length (sc_values env)" "j < length (sc_values env)"
    using ids p e as i j by simp_all
  let ?v = "sc_values env ! i" and ?w = "sc_values env ! j"
  obtain k A where k: "k < length as" "A \<in> set (sc_sets env)" "rv_set ?v = as_id A"
      "ra_set (as ! k) = as_id A" "r = ra_base (as ! k) + rv_offset ?v" "w = rv_width ?v"
      "c = rv_regClass ?v" "rv_offset ?v + rv_width ?v \<le> ra_width (as ! k)"
      "ra_regClass (as ! k) = rv_regClass ?v"
    using pending_value [OF env ok ids' p' ij(1)] pi as by (metis fst_conv snd_conv)
  obtain l B where l: "l < length as" "B \<in> set (sc_sets env)" "rv_set ?w = as_id B"
      "ra_set (as ! l) = as_id B" "r' = ra_base (as ! l) + rv_offset ?w" "w' = rv_width ?w"
      "c = rv_regClass ?w" "rv_offset ?w + rv_width ?w \<le> ra_width (as ! l)"
      "ra_regClass (as ! l) = rv_regClass ?w"
    using pending_value [OF env ok ids' p' ij(2)] pj as by (metis fst_conv snd_conv)
  have mem: "?v \<in> set (sc_values env)" "?w \<in> set (sc_values env)" using ij by simp_all
  have live': "live_in (rv_ranges ?v) p" "live_in (rv_ranges ?w) p" using live e by simp_all
  have "k \<noteq> l" using sets k(3,4) l(3,4) e by metis
  then consider "k < l" | "l < k" by linarith
  then have "sharedAsMeant env as ?v ?w p \<or> sharedAsMeant env as ?w ?v p \<or>
      sharedOverlooked env ?v ?w p \<or> sharedOverlooked env ?w ?v p"
  proof cases
    case 1
    have "sharesRegister (as ! k) ?v (as ! l)"
      unfolding sharesRegister_def
      using pending_registers_inside [OF k(5) _ overlap(1) l(5) _ overlap(2)] k(6,8) l(6,8) by metis
    then show ?thesis
      using clash_shared [OF env ok 1 _ mem(1) _ mem(2)] live' k l as by metis
  next
    case 2
    have "sharesRegister (as ! l) ?w (as ! k)"
      unfolding sharesRegister_def
      using pending_registers_inside [OF l(5) _ overlap(2) k(5) _ overlap(1)] k(6,8) l(6,8) by metis
    then show ?thesis
      using clash_shared [OF env ok 2 _ mem(2) _ mem(1)] live' k l as by metis
  qed
  then show ?thesis using e by simp
qed

lemma env_value_id:
  assumes env: "env_ok env" and i: "i < length (sc_values env)"
  shows "rv_id (sc_values env ! i) = i"
proof -
  have "map rv_id (sc_values env) ! i = [0..<length (sc_values env)] ! i"
    using env by (simp add: env_ok_def state_ok_def)
  then show ?thesis using i by simp
qed

text \<open>The entry of a value in the result of a scan that ended in a good state.\<close>

lemma pending_placed:
  assumes env: "env_ok env" and ok: "scan_ok env pos st"
    and fixed: "\<forall>s\<in>set (sc_sets env). computeFixedBase env s = (None, getFixedBase env s)"
    and ids: "map ra_set (ss_assignments st) = map as_id (sc_sets env)"
    and p: "buildPendingAssignments env st (sc_values env) = Inr pending"
    and i: "i < length (sc_values env)"
  shows "\<exists>a\<in>set (ss_assignments st). \<exists>s\<in>set (sc_sets env).
    ra_set a = as_id s \<and> as_id s = rv_set (sc_values env ! i) \<and>
    pending ! i = (se_payload env ! i, rv_regClass (sc_values env ! i),
      rv_width (sc_values env ! i), ra_base a + rv_offset (sc_values env ! i)) \<and>
    ra_base a + rv_offset (sc_values env ! i) + rv_width (sc_values env ! i)
      \<le> bu_limit (sc_budget env (rv_regClass (sc_values env ! i))) \<and>
    (\<forall>g. rv_fixed (sc_values env ! i) = Some g \<longrightarrow> ra_base a + rv_offset (sc_values env ! i) = g) \<and>
    (case getFixedBase env s of
       Some b \<Rightarrow> ra_base a = b \<and> setMembersMeetTargetConstraints env s b
     | None \<Rightarrow> setBaseIsLegal env s (ra_base a))"
proof -
  let ?v = "sc_values env ! i"
  obtain k A where k: "k < length (ss_assignments st)" "A \<in> set (sc_sets env)"
      "rv_set ?v = as_id A" "ra_set (ss_assignments st ! k) = as_id A"
      "assignment_ok env (ss_assignments st ! k)"
      "snd (snd (snd (pending ! i))) = ra_base (ss_assignments st ! k) + rv_offset ?v"
      "rv_offset ?v + rv_width ?v \<le> ra_width (ss_assignments st ! k)"
      "ra_regClass (ss_assignments st ! k) = rv_regClass ?v"
    using pending_value [OF env ok ids p i] by metis
  let ?a = "ss_assignments st ! k"
  obtain s where s: "s \<in> set (sc_sets env)"
      "?a = \<lparr>ra_regClass = as_regClass s, ra_set = as_id s, ra_base = ra_base ?a,
           ra_width = as_width s, ra_start = as_start s, ra_end = as_end s\<rparr>"
      "ra_base ?a + as_width s \<le> bu_limit (sc_budget env (as_regClass s))"
      "case getFixedBase env s of Some b \<Rightarrow> ra_base ?a = b | None \<Rightarrow> setBaseIsLegal env s (ra_base ?a)"
    using k(5) unfolding assignment_ok_def by blast
  have sel: "ra_regClass ?a = as_regClass s" "ra_set ?a = as_id s" "ra_width ?a = as_width s"
    by (subst s(2), simp)+
  have "rv_id ?v = i" using env_value_id [OF env i] .
  then obtain a' :: assignment where "pending ! i = (se_payload env ! i, rv_regClass ?v, rv_width ?v,
      trunc_u32 (ra_base a' + rv_offset ?v))"
    using pending_nth [OF p] i by metis
  then have "pending ! i = (se_payload env ! i, rv_regClass ?v, rv_width ?v, ra_base ?a + rv_offset ?v)"
    using k(6) by simp
  moreover have "ra_base ?a + rv_offset ?v + rv_width ?v \<le> bu_limit (sc_budget env (rv_regClass ?v))"
    using s(3) k(7,8) sel by simp
  moreover have "\<forall>g. rv_fixed ?v = Some g \<longrightarrow> ra_base ?a + rv_offset ?v = g"
  proof (intro allI impI)
    fix g assume g: "rv_fixed ?v = Some g"
    have "rv_set ?v = as_id s" using k(3,4) sel(2) by simp
    then have "rv_id ?v \<in> set (as_members s)"
      using value_member(1) [OF env s(1)] i by simp
    then have "rv_offset ?v \<le> g" "getFixedBase env s = Some (g - rv_offset ?v)"
      using fixedBaseOfMembers_ok [OF computeFixedBase_ok(1) [OF fixed [rule_format, OF s(1)]]] g
        \<open>rv_id ?v = i\<close> by auto
    then show "ra_base ?a + rv_offset ?v = g" using s(4) by simp
  qed
  moreover have "case getFixedBase env s of
       Some b \<Rightarrow> ra_base ?a = b \<and> setMembersMeetTargetConstraints env s b
     | None \<Rightarrow> setBaseIsLegal env s (ra_base ?a)"
    using s(4) computeFixedBase_ok(2) [OF fixed [rule_format, OF s(1)]] by (simp split: option.splits)
  ultimately show ?thesis
    using s(1) sel(2) k(1,3,4) by (intro bexI [of _ ?a] bexI [of _ s]) simp_all
qed

text \<open>C8: A successful allocation is complete and legal. Every alias set has exactly one
  assignment, in the order of the sets; every value gets the class and width it had and the
  register at its offset inside the assignment of its set, which is its own fixed register when
  it has one; this register tuple lies inside the budget of its class; and the base of the set is
  legal: a fixed base is the one its members demand and meets the target constraints of the
  tuples of all members, a chosen base is besides aligned as the set requires.\<close>

theorem registers_within_budget:
  assumes si: "input_ok si" and run: "run_scan si typesOk = Inr (ScanSucceeded as pending)"
    and parse: "parseState si = Inr (env, f)"
  shows "map ra_set as = map as_id (sc_sets si) \<and>
    length pending = length (sc_values si) \<and>
    (\<forall>i < length (sc_values si). \<exists>a\<in>set as. \<exists>s\<in>set (sc_sets si).
       ra_set a = as_id s \<and> as_id s = rv_set (sc_values si ! i) \<and>
       pending ! i = (se_payload env ! i, rv_regClass (sc_values si ! i),
          rv_width (sc_values si ! i), ra_base a + rv_offset (sc_values si ! i)) \<and>
       ra_base a + rv_offset (sc_values si ! i) + rv_width (sc_values si ! i)
         \<le> bu_limit (sc_budget si (rv_regClass (sc_values si ! i))) \<and>
       (\<forall>g. rv_fixed (sc_values si ! i) = Some g \<longrightarrow>
          ra_base a + rv_offset (sc_values si ! i) = g) \<and>
       (case getFixedBase env s of
          Some b \<Rightarrow> ra_base a = b \<and> setMembersMeetTargetConstraints env s b
        | None \<Rightarrow> setBaseIsLegal env s (ra_base a)))"
proof -
  obtain st pos where env: "env_ok env" and ok: "scan_ok env pos st"
      and as: "ss_assignments st = as" and ids: "map ra_set as = map as_id (sc_sets si)"
      and p: "buildPendingAssignments env st (sc_values si) = Inr pending"
    using run_scan_success [OF si run parse] by metis
  note e = parseState_env(1,2,4) [OF parse]
  have ids': "map ra_set (ss_assignments st) = map as_id (sc_sets env)"
    and p': "buildPendingAssignments env st (sc_values env) = Inr pending"
    using ids p e as by simp_all
  have "f = None"
    using run parse by (auto simp: run_scan_def split: option.splits)
  then have "\<forall>s\<in>set (sc_sets env). computeFixedBase env s = (None, getFixedBase env s)"
    using getFixedBase_ok parse env_okD(5) [OF env] by metis
  note placed = pending_placed [OF env ok this ids' p']
  show ?thesis
  proof (intro conjI allI impI ids)
    show "length pending = length (sc_values si)" using pending_nth [OF p] by blast
    fix i assume "i < length (sc_values si)"
    then have "i < length (sc_values env)" using e by simp
    from placed [OF this] show "\<exists>a\<in>set as. \<exists>s\<in>set (sc_sets si).
       ra_set a = as_id s \<and> as_id s = rv_set (sc_values si ! i) \<and>
       pending ! i = (se_payload env ! i, rv_regClass (sc_values si ! i),
          rv_width (sc_values si ! i), ra_base a + rv_offset (sc_values si ! i)) \<and>
       ra_base a + rv_offset (sc_values si ! i) + rv_width (sc_values si ! i)
         \<le> bu_limit (sc_budget si (rv_regClass (sc_values si ! i))) \<and>
       (\<forall>g. rv_fixed (sc_values si ! i) = Some g \<longrightarrow>
          ra_base a + rv_offset (sc_values si ! i) = g) \<and>
       (case getFixedBase env s of
          Some b \<Rightarrow> ra_base a = b \<and> setMembersMeetTargetConstraints env s b
        | None \<Rightarrow> setBaseIsLegal env s (ra_base a))"
      unfolding as e .
  qed
qed

subsection \<open>A run always ends\<close>

lemma allocateSet_total:
  assumes env: "env_ok env" and ok: "scan_ok env pos st" and s: "s \<in> set (sc_sets env)"
  obtains st' where "allocateSet env s st = Inr st'"
proof (cases "getFixedBase env s")
  case None
  let ?limit = "bu_limit (sc_budget env (as_regClass s))"
  obtain free where
    free: "findFreeBase env st s ?limit (findReusableInputBase env st s ?limit) = Inr free"
    using findFreeBase_least [OF env ok s None env_okD(4) [OF env, of "as_regClass s"]] by blast
  show thesis
  proof (cases "if free = None then findReusableInputBase env st s ?limit else free")
    case N: None
    then show thesis using that None free by (simp add: allocateSet_def Let_def)
  next
    case (Some b)
    then show thesis using that None free by (simp add: allocateSet_def Let_def)
  qed
next
  case (Some f)
  then show thesis using that by (simp add: allocateSet_def Let_def)
qed

lemma scanSets_total:
  assumes env: "env_ok env"
  shows "set ss \<subseteq> set (sc_sets env) \<Longrightarrow> sorted (map as_start ss) \<Longrightarrow> distinct (map as_id ss) \<Longrightarrow>
    as_id ` set ss \<inter> ra_set ` set (ss_assignments st) = {} \<Longrightarrow>
    (\<forall>s\<in>set ss. pos \<le> as_start s) \<Longrightarrow> scan_ok env pos st \<Longrightarrow>
    \<exists>st'. scanSets env ss st = Inr st'"
proof (induction ss arbitrary: pos st)
  case (Cons s ss)
  let ?st0 = "beginSet env s st"
  have s: "s \<in> set (sc_sets env)" using Cons.prems(1) by simp
  have ok0: "scan_ok env (as_start s) ?st0"
    using beginSet_ok [OF Cons.prems(6)] Cons.prems(5) by simp
  obtain st1 where st1: "allocateSet env s ?st0 = Inr st1"
    by (rule allocateSet_total [OF env ok0 s])
  show ?case
  proof (cases "ss_failure st1 = None")
    case False
    then show ?thesis using st1 by simp
  next
    case True
    obtain b where b: "base_ok env ?st0 s b" "st1 = addAssignment env s b ?st0"
      using allocateSet_cases [OF env ok0 s st1] True by blast
    have as0: "ss_assignments ?st0 = ss_assignments st" by (simp add: beginSet_def)
    have new: "as_id s \<notin> ra_set ` set (ss_assignments ?st0)" using Cons.prems(4) as0 by auto
    note ok1 = addAssignment_ok [OF env ok0 s b(1) new, folded b(2)]
    have "\<exists>st'. scanSets env ss st1 = Inr st'"
    proof (rule Cons.IH [OF _ _ _ _ _ ok1(1)])
      show "set ss \<subseteq> set (sc_sets env)" "sorted (map as_start ss)" "distinct (map as_id ss)"
        "\<forall>t\<in>set ss. as_start s \<le> as_start t"
        using Cons.prems(1,2,3) by auto
      show "as_id ` set ss \<inter> ra_set ` set (ss_assignments st1) = {}"
        using Cons.prems(3,4) ok1(2) as0 by auto
    qed
    then show ?thesis using st1 True by simp
  qed
qed simp

lemma buildPending_total:
  assumes "\<forall>v\<in>set vs. getAssignmentBySet st (rv_set v) \<noteq> None"
  shows "\<exists>pending. buildPendingAssignments env st vs = Inr pending"
  using assms by (induction vs) (auto simp: bindR_eq_Inr)

lemma scan_pending_total:
  assumes env: "env_ok env" and st: "scanSets env (sc_sets env) init_scan = Inr st"
    and none: "ss_failure st = None"
  shows "\<exists>pending. buildPendingAssignments env st (sc_values env) = Inr pending"
proof -
  have "(\<exists>pos. scan_ok env pos st) \<and>
      map ra_set (ss_assignments st) = map ra_set (ss_assignments init_scan) @ map as_id (sc_sets env)"
    using env_okD(5,6) [OF env] scan_ok_init
    by (intro scanSets_ok [OF env st, of 0]) (simp_all add: init_scan_def none)
  then obtain pos where ok: "scan_ok env pos st"
      and ids: "map ra_set (ss_assignments st) = map as_id (sc_sets env)"
    by (auto simp: init_scan_def)
  have "getAssignmentBySet st (rv_set v) \<noteq> None" if "v \<in> set (sc_values env)" for v
  proof -
    have "rv_set v \<in> set (map as_id (sc_sets env))" using env_okD(7) [OF env that] by force
    then obtain i where "i < length (ss_assignments st)" "ra_set (ss_assignments st ! i) = rv_set v"
      unfolding ids [symmetric] by (auto simp: in_set_conv_nth)
    then have "map_of (ss_indexBySet st) (rv_set v) = Some i" using ok by (simp add: scan_ok_def)
    then show ?thesis by (simp add: getAssignmentBySet_def)
  qed
  then show ?thesis by (intro buildPending_total) blast
qed

text \<open>C18: The linear scan ends on every well-formed state. Once the values resolve to payload
  values, \<^verbatim>\<open>RegAllocLinearScanner::run\<close> returns an outcome (an allocation or a recorded failure):
  the index of the sets is built without a duplicate, the search for a base always ends (the fuel
  of the model is never used up) and every value finds the assignment of its set.\<close>

theorem run_scan_total:
  assumes si: "input_ok si" and payload: "collectResolvedValues si = Inr payload"
  shows "\<exists>outcome. run_scan si True = Inr outcome"
proof -
  have st: "state_ok (sc_values si) (sc_sets si)" using si by (simp add: input_ok_def)
  then have "length (sc_sets si) < UINT_MAX" "distinct (map as_id (sc_sets si))"
    by (simp_all add: state_ok_def)
  then obtain r where "buildSetIndex (sc_sets si) = Inr r" using buildSetIndex_ok by blast
  then have "\<exists>x. parseState si = Inr x"
    using payload by (cases r) (simp add: parseState_def Let_def split_beta)
  then obtain env f where p: "parseState si = Inr (env, f)" by auto
  have env: "env_ok env" by (rule parseState_env_ok [OF si p])
  show ?thesis
  proof (cases f)
    case (Some failure)
    then show ?thesis using p by (simp add: run_scan_def)
  next
    case None
    have "\<exists>st. scanSets env (sc_sets env) init_scan = Inr st"
      using env_okD(5,6) [OF env] scan_ok_init
      by (intro scanSets_total [OF env, where pos = 0]) (simp_all add: init_scan_def)
    then obtain st where st: "scanSets env (sc_sets env) init_scan = Inr st" ..
    show ?thesis
    proof (cases "ss_failure st")
      case (Some failure)
      then show ?thesis using p None st by (simp add: run_scan_def)
    next
      case N: None
      obtain pending where "buildPendingAssignments env st (sc_values env) = Inr pending"
        using scan_pending_total [OF env st N] by blast
      then show ?thesis using p None st N by (simp add: run_scan_def split: option.split)
    qed
  qed
qed

subsection \<open>The footprint of the vector register family\<close>

definition familyFootprint :: "RegClass \<Rightarrow> assignment list \<Rightarrow> nat" where
  "familyFootprint c as =
     fold (\<lambda>a m. max m (ra_base a + ra_width a)) (filter (\<lambda>a. ra_regClass a = c) as) 0"

lemma combinedFootprintFailure_None:
  "combinedFootprintFailure family prior as (g, v) = None \<Longrightarrow>
   \<forall>a\<in>set as. ra_base a + ra_width a < 4294967296 \<Longrightarrow>
   (\<exists>a\<in>set as. isVGPRFamilyClass (ra_regClass a)) \<or>
     getCombinedVGPRFamilyPressure g v \<le> bu_limit family \<Longrightarrow>
   getCombinedVGPRFamilyPressure
     (fold (\<lambda>a m. max m (ra_base a + ra_width a)) (filter (\<lambda>a. ra_regClass a = AGPR) as) g)
     (fold (\<lambda>a m. max m (ra_base a + ra_width a)) (filter (\<lambda>a. ra_regClass a = VGPR) as) v)
     \<le> bu_limit family"
proof (induction as arbitrary: prior g v)
  case (Cons a as)
  have t: "trunc_u32 (ra_base a + ra_width a) = ra_base a + ra_width a"
    using Cons.prems(2) by (simp add: arith64_simps)
  show ?case
  proof (cases "isVGPRFamilyClass (ra_regClass a)")
    case False
    then have c: "ra_regClass a \<noteq> AGPR" "ra_regClass a \<noteq> VGPR" by (auto simp: isVGPRFamilyClass_def)
    have "combinedFootprintFailure family (prior @ [a]) as (g, v) = None"
      using Cons.prems(1) False by simp
    then show ?thesis using Cons.IH [of "prior @ [a]" g v] Cons.prems(2,3) False c by simp
  next
    case True
    obtain g' v' where f: "addFamilyFootprint (ra_regClass a) (ra_base a) (ra_width a) (g, v) = (g', v')"
      by fastforce
    then have gv: "g' = (if ra_regClass a = AGPR then max g (ra_base a + ra_width a) else g)"
      "v' = (if ra_regClass a = VGPR then max v (ra_base a + ra_width a) else v)"
      using t by (auto simp: addFamilyFootprint_def)
    have rest: "getCombinedVGPRFamilyPressure g' v' \<le> bu_limit family"
      "combinedFootprintFailure family (prior @ [a]) as (g', v') = None"
      using Cons.prems(1) True f by (simp_all add: Let_def split: if_splits)
    then show ?thesis
      using Cons.IH [OF rest(2)] Cons.prems(2) gv by (simp split: if_splits)
  qed
qed simp

text \<open>C38: When the vector registers share one budget with the accumulator registers, a
  successful allocation respects it: the highest accumulator register in use plus the highest
  vector register in use, rounded up to four, is at most the limit of the family.\<close>

theorem family_budget_respected:
  assumes si: "input_ok si" and run: "run_scan si typesOk = Inr (ScanSucceeded as pending)"
    and family: "sc_familyBudget si = Some family"
  shows "getCombinedVGPRFamilyPressure (familyFootprint AGPR as) (familyFootprint VGPR as)
    \<le> bu_limit family"
proof -
  obtain env f where parse: "parseState si = Inr (env, f)"
    using run by (auto simp: run_scan_def bindR_eq_Inr)
  obtain st pos where env: "env_ok env" and ok: "scan_ok env pos st"
      and as: "ss_assignments st = as"
      and c: "checkCombinedFootprintFailure env as = None"
    using run_scan_success [OF si run parse] by metis
  have fam: "sc_familyBudget env = Some family" using parseState_env(5) [OF parse] family by simp
  have "\<forall>a\<in>set as. ra_base a + ra_width a < 4294967296"
    using ok as assignment_ok_bounds(2) [OF env] by (fastforce simp: scan_ok_def)
  moreover have "combinedFootprintFailure family [] as (0, 0) = None"
    using c fam by (simp add: checkCombinedFootprintFailure_def)
  moreover have "getCombinedVGPRFamilyPressure 0 0 = 0"
    by (simp add: getCombinedVGPRFamilyPressure_def alignTo_def arith64_simps)
  ultimately show ?thesis
    using combinedFootprintFailure_None [of family "[]" as 0 0] by (simp add: familyFootprint_def)
qed

subsection \<open>Names of registers\<close>

text \<open>Parsing the name of a scalar register tuple gives the tuple back:
  \<^verbatim>\<open>parseSGPRSpan\<close> on \<^verbatim>\<open>getWaveAMDSGPRName\<close> of an index and a width is this index and width,
  for single registers and for tuples, whenever the tuple fits the 32-bit register numbers.\<close>

theorem sgpr_name_roundtrip:
  assumes "1 \<le> width" and "width \<le> UINT_MAX" and "index + width \<le> UINT_MAX + 1"
  shows "parseSGPRSpan (getWaveAMDSGPRName index width) = Some (index, width)"
proof (cases "width = 1")
  case True
  have hd: "trimString (''s'' @ showUnsigned index) = ''s'' @ showUnsigned index"
    using showUnsigned_digits [of index] digit_not(4) show_not [of "last (showUnsigned index)" index]
    by (intro trim_id) (auto simp: isSpaceChar_def)
  have none: "consumeFront CHR ''['' (showUnsigned index) = None"
    using showUnsigned_digits [of index]
    by (auto simp: consumeFront_def isDigitChar_def split: list.splits)
  show ?thesis
    using True assms none hd
    by (simp add: parseSGPRSpan_def getWaveAMDSGPRName_def consumeFront_def [of "CHR ''s''"]
        getAsUnsigned_show)
next
  case False
  let ?e = "index + width - 1"
  have "0 \<le> int index + int width - 1" "int index + int width - 1 < 4294967296"
    using assms by (simp_all add: UINT_MAX_def)
  then have e: "to_u32 (int index + int width - 1) = ?e"
    using assms(1) by (simp add: arith64_simps)
  have name: "getWaveAMDSGPRName index width =
      CHR ''s'' # CHR ''['' # showUnsigned index @ CHR '':'' # showUnsigned ?e @ [CHR '']'']"
    using False e by (simp add: getWaveAMDSGPRName_def)
  have trim: "trimString (getWaveAMDSGPRName index width) = getWaveAMDSGPRName index width"
    unfolding name by (intro trim_id) (simp_all add: isSpaceChar_def)
  have not_in: "CHR '':'' \<notin> set (showUnsigned n)" "CHR '']'' \<notin> set (showUnsigned n)" for n
    using show_not [of _ n] digit_not(1,2) by blast+
  have split: "splitAt CHR '':'' (showUnsigned index @ CHR '':'' # showUnsigned ?e @ [CHR '']'']) =
      (showUnsigned index, showUnsigned ?e @ [CHR '']''])"
    "splitAt CHR '']'' (showUnsigned ?e @ [CHR '']'']) = (showUnsigned ?e, [])"
    using splitAt_first [OF not_in(1)] splitAt_first [OF not_in(2), of ?e "[]"] by simp_all
  have w: "trunc_u32 (Suc (?e - index)) = width" "index \<le> ?e"
    using assms by (simp_all add: arith64_simps UINT_MAX_def)
  have show_ok: "getAsUnsigned (showUnsigned index) = Some index"
      "getAsUnsigned (showUnsigned ?e) = Some ?e" "showUnsigned n \<noteq> []" for n
    using assms showUnsigned_digits by (simp_all add: getAsUnsigned_show)
  show ?thesis
    unfolding parseSGPRSpan_def trim
    using w split show_ok by (simp add: name consumeFront_def)
qed

theorem sgpr_name_roundtrip_witness:
  "parseSGPRSpan (getWaveAMDSGPRName 12 4) = Some (12, 4)"
  by (rule sgpr_name_roundtrip) (simp_all add: UINT_MAX_def)

subsection \<open>Interval lists\<close>

text \<open>C37: The interval lists mean sets of positions. Inserting a use with \<^verbatim>\<open>addLiveRange\<close> into the
  record of a value covers exactly the old positions and the new interval, keeps the ranges
  ordered and disjoint, keeps start and end of the record at the first and last covered position,
  and changes the range counter by the change of the number of ranges. Merging the ranges of the
  members of an alias set covers exactly the positions of the members. On such lists the
  two-pointer overlap test is true exactly when some position is covered by both lists, the
  binary search for an interval exactly when it meets a covered position, and the binary search
  for a position exactly when that position is covered.\<close>

theorem live_ranges_exact:
  assumes v: "alias_value_ok v" and "lo \<le> hi" and "length (av_ranges v) \<le> n"
    and qs: "\<forall>r\<in>set qs. lr_start r \<le> lr_end r" and add: "addLiveRange v lo hi n = (v', n')"
  shows "alias_value_ok v' \<and> ordered_ranges (mergeLiveRanges qs) \<and>
    n' + length (av_ranges v) = n + length (av_ranges v') \<and>
    (\<forall>p. live_in (av_ranges v') p \<longleftrightarrow> live_in (av_ranges v) p \<or> (lo \<le> p \<and> p \<le> hi)) \<and>
    (\<forall>p. live_in (mergeLiveRanges qs) p \<longleftrightarrow> live_in qs p) \<and>
    (liveRangeListsOverlap (av_ranges v') (mergeLiveRanges qs) \<longleftrightarrow>
       (\<exists>p. (live_in (av_ranges v) p \<or> (lo \<le> p \<and> p \<le> hi)) \<and> live_in qs p)) \<and>
    (\<forall>a b. a \<le> b \<longrightarrow> (liveRangesOverlapRange (mergeLiveRanges qs) a b \<longleftrightarrow>
       (\<exists>p. a \<le> p \<and> p \<le> b \<and> live_in qs p))) \<and>
    (\<forall>p. liveRangesContainPosition (mergeLiveRanges qs) p \<longleftrightarrow> live_in qs p) \<and>
    (\<forall>p. liveRangesContainPosition (av_ranges v') p \<longleftrightarrow>
       live_in (av_ranges v) p \<or> (lo \<le> p \<and> p \<le> hi))"
proof -
  have v': "v' = fst (addLiveRange v lo hi n)" "n' = snd (addLiveRange v lo hi n)"
    using add by simp_all
  note added = addLiveRange_ok [OF v assms(2), of n, folded v']
  note merge = mergeLiveRanges_ordered [OF qs] mergeLiveRanges_live [OF qs]
  have o: "ordered_ranges (av_ranges v')" using added(1) by (simp add: alias_value_ok_def)
  show ?thesis
    using added merge assms(3) listsOverlap_iff [OF o merge(1)] containPosition_iff [OF o]
      overlapRange_iff [OF merge(1)] containPosition_iff [OF merge(1)] by simp
qed

definition ex_alias_value :: alias_value where
  "ex_alias_value =
     \<lparr>av_path = [], av_ranges = [ex_range 0 2, ex_range 4 5, ex_range 9 9], av_type = RegType SGPR 1 (-1),
      av_id = 0, av_start = 0, av_end = 9, av_aliasSet = 0, av_number = 0, av_offset = 0,
      av_blockArgument = False\<rparr>"

theorem live_ranges_exact_witness:
  "addLiveRange ex_alias_value 2 6 10 = (ex_alias_value\<lparr>av_ranges := [ex_range 0 6, ex_range 9 9]\<rparr>, 9) \<and>
   liveRangesContainPosition [ex_range 0 6, ex_range 9 9] 3"
proof -
  have add: "addLiveRange ex_alias_value 2 6 10 =
      (ex_alias_value\<lparr>av_ranges := [ex_range 0 6, ex_range 9 9]\<rparr>, 9)"
    by code_simp
  have "alias_value_ok ex_alias_value"
    by (simp add: alias_value_ok_def ex_alias_value_def ex_range_def)
  then show ?thesis
    using live_ranges_exact [OF _ _ _ _ add, of "[]"] add
    by (simp add: ex_alias_value_def)
qed

subsection \<open>A walk that gives up too early\<close>

text \<open>
  A set that is live from 1 to 5, and a value that is live from 0 to 1 and again from 3 to 4.
\<close>

definition ex_hole :: ra_value where
  "ex_hole = ex_value 0 BlockArgument [ex_range 0 1, ex_range 3 4]"

definition hole_input :: scan_input where
  "hole_input = ex_input
     \<lparr>sc_values := [ex_hole, ex_value 1 OpResult [ex_range 1 5]],
      sc_sets := [ex_set 0 [ex_range 0 1, ex_range 3 4], ex_set 1 [ex_range 1 5]]\<rparr>"

definition hole_assignments :: "assignment list" where
  "hole_assignments =
     [\<lparr>ra_regClass = SGPR, ra_set = 0, ra_base = 0, ra_width = 1, ra_start = 0, ra_end = 4\<rparr>,
      \<lparr>ra_regClass = SGPR, ra_set = 1, ra_base = 0, ra_width = 1, ra_start = 1, ra_end = 5\<rparr>]"

text \<open>The walk that decides whether a killed operand blocks the reuse of its register
  skips ranges: after the tolerated overlap at position 1 \<^verbatim>\<open>memberBlocksReusableResult\<close> advances
  past the range of the result and answers that nothing blocks the reuse, although the general
  test finds the conflict. So on a well-formed state the scan succeeds with both values in
  register 0, and both are live at position 3, where none of the three intended sharings holds.\<close>

theorem reuse_walk_clash:
  "input_ok hole_input \<and>
   run_scan hole_input True =
     Inr (ScanSucceeded hole_assignments [(10, SGPR, 1, 0), (11, SGPR, 1, 0)]) \<and>
   live_in (rv_ranges (sc_values hole_input ! 0)) 3 \<and>
   live_in (rv_ranges (sc_values hole_input ! 1)) 3 \<and>
   memberConflictsWithSet ex_env (ex_set 1 [ex_range 1 5]) ex_hole \<and>
   \<not> memberBlocksReusableResult ex_env (ex_set 1 [ex_range 1 5]) ex_hole"
proof (intro conjI)
  show "input_ok hole_input"
    by (simp add: hole_input_def ex_hole_def input_ok_def state_ok_def set_ok_def value_ok_def ex_defs
        UINT_MAX_def entry_ok_def noEntryRegs_def decodeAliasSet_def
        collectRegAllocTransformAliasSetLiveRanges_def mergeLiveRanges_def lessLiveRange_key_def
        mergeRange_def upt_rec)
qed (code_simp+)

subsection \<open>Witnesses of the allocation properties\<close>

lemma ex_not_overlooked:
  "\<not> sharedOverlooked ex_env (ex_value 0 BlockArgument [ex_range 0 1]) (ex_value 1 OpResult [ex_range 1 2]) p"
  "\<not> sharedOverlooked ex_env (ex_value 1 OpResult [ex_range 1 2]) (ex_value 0 BlockArgument [ex_range 0 1]) p"
  by (auto simp: sharedOverlooked_def overlooked_def resumedAt_def ex_env_def ex_defs)

theorem values_never_clash_witness:
  "sharedAsMeant ex_env ex_assignments (ex_value 0 BlockArgument [ex_range 0 1])
     (ex_value 1 OpResult [ex_range 1 2]) 1 \<or>
   sharedAsMeant ex_env ex_assignments (ex_value 1 OpResult [ex_range 1 2])
     (ex_value 0 BlockArgument [ex_range 0 1]) 1"
proof -
  have v: "sc_values ex_input ! 0 = ex_value 0 BlockArgument [ex_range 0 1]"
    "sc_values ex_input ! 1 = ex_value 1 OpResult [ex_range 1 2]"
    by (simp_all add: ex_input_def)
  have n: "length (sc_values ex_input) = 2" by (simp add: ex_input_def)
  show ?thesis
    using values_never_clash [OF ex_input_ok ex_run ex_parse, of 0 1 10 SGPR 1 0 11 1 0 1] v n
      ex_not_overlooked by (simp add: ex_value_def ex_range_def)
qed

theorem registers_within_budget_witness:
  "map ra_set ex_assignments = [0, 1]"
  using registers_within_budget [OF ex_input_ok ex_run ex_parse] by (simp add: ex_input_def ex_set_def)

theorem run_scan_total_witness:
  "\<exists>outcome. run_scan ex_input True = Inr outcome"
  using run_scan_total [OF ex_input_ok, of "[10, 11]"]
  by (simp add: collectResolvedValues_def ex_input_def)

lemma ex_family_run:
  "run_scan (ex_input\<lparr>sc_familyBudget := Some \<lparr>bu_limit = 8, bu_mode = ''occupancy''\<rparr>\<rparr>) True =
    Inr (ScanSucceeded ex_assignments [(10, SGPR, 1, 0), (11, SGPR, 1, 0)])"
  by code_simp

theorem family_budget_respected_witness:
  "getCombinedVGPRFamilyPressure (familyFootprint AGPR ex_assignments)
     (familyFootprint VGPR ex_assignments) \<le> 8"
proof -
  have "input_ok (ex_input\<lparr>sc_familyBudget := Some \<lparr>bu_limit = 8, bu_mode = ''occupancy''\<rparr>\<rparr>)"
    using ex_input_ok by (simp add: input_ok_def)
  from family_budget_respected [OF this ex_family_run] show ?thesis by simp
qed

theorem findFreeBase_first_fit_witness:
  "findFreeBase ex_env init_scan (ex_set 0 [ex_range 0 1]) 4 None = Inr (Some 0)"
proof -
  have env: "env_ok ex_env" by (rule parseState_env_ok [OF ex_input_ok ex_parse])
  have s: "ex_set 0 [ex_range 0 1] \<in> set (sc_sets ex_env)" by (simp add: ex_env_def ex_input_def)
  have n: "getFixedBase ex_env (ex_set 0 [ex_range 0 1]) = None" by code_simp
  have "List.find (\<lambda>b. baseIsFree ex_env init_scan (ex_set 0 [ex_range 0 1]) b \<and>
      (b + as_width (ex_set 0 [ex_range 0 1]) \<le> 4 \<and> True)) [0 ..< 4 + 1] = Some 0"
    by code_simp
  then show ?thesis
    using findFreeBase_first_fit [OF env scan_ok_init s n, of 4 None] by simp
qed

end
