(* ===== verification/Reg_Exec_Save.thy ===== *)
theory Reg_Exec_Save
  imports Reg_Target "HOL-Library.Code_Target_Nat"
begin

text \<open>
  The stack of saved execution masks (\<^verbatim>\<open>WaveAMDExecIfUtils.cpp\<close>): the slots that one
  path through nested \<^verbatim>\<open>exec_if\<close> operations uses never overlap and end inside the reserved
  area, and an allocation that stays within the budget given to it leaves room for that area.
\<close>

lemma fold_collect_mono:
  "si_maxDwords info \<le> si_maxDwords (fold (\<lambda>op i. collectSaveStackInfo op cursor i) ops info)"
proof (induction ops arbitrary: info)
  case (Cons op ops)
  from Cons.IH [of "collectSaveStackInfo op cursor info"] collect_mono [of info op cursor]
  show ?case by simp
qed simp

lemma fold_collect_member:
  assumes "op \<in> set ops" and "\<And>info. n \<le> si_maxDwords (collectSaveStackInfo op cursor info)"
  shows "n \<le> si_maxDwords (fold (\<lambda>op i. collectSaveStackInfo op cursor i) ops info)"
  using assms(1)
proof (induction ops arbitrary: info)
  case (Cons x ops)
  then show ?case
    using assms(2) [of info] fold_collect_mono [of "collectSaveStackInfo op cursor info" cursor ops]
    by (auto intro: order_trans)
qed simp

lemma saveSlots_inside:
  "(slot, w) \<in> set (saveSlots op cursor path) \<Longrightarrow>
   slot + w \<le> si_maxDwords (collectSaveStackInfo op cursor info)"
proof (induction op cursor path arbitrary: info rule: saveSlots.induct)
  case (1 width nested cursor path)
  let ?slot = "alignWaveAMDExecIfSaveSlot cursor width"
  let ?i = "\<lparr>si_maxDwords = max (si_maxDwords info) (?slot + width),
             si_maxAlign = max (si_maxAlign info) width\<rparr>"
  show ?case
  proof (cases "(slot, w) = (?slot, width)")
    case True
    then show ?thesis
      using fold_collect_mono [of ?i "?slot + width" nested] by (simp add: Let_def)
  next
    case False
    then obtain i js where i: "path = i # js" "i < length nested"
        "(slot, w) \<in> set (saveSlots (nested ! i) (?slot + width) js)"
      using "1.prems" by (auto simp: Let_def split: list.splits if_splits)
    have "slot + w \<le> si_maxDwords (fold (\<lambda>op j. collectSaveStackInfo op (?slot + width) j) nested ?i)"
      using i "1.IH" [OF refl i(1,2,3)] by (intro fold_collect_member [of "nested ! i"]) simp_all
    then show ?thesis by (simp add: Let_def)
  qed
next
  case (2 nested cursor path)
  then obtain i js where i: "path = i # js" "i < length nested"
      "(slot, w) \<in> set (saveSlots (nested ! i) cursor js)"
    by (auto split: list.splits if_splits)
  show ?case
    using i "2.IH" [OF i] by (simp add: fold_collect_member [of "nested ! i"])
qed

lemma saveSlots_above:
  "execWidthsPos op \<Longrightarrow> (slot, w) \<in> set (saveSlots op cursor path) \<Longrightarrow> cursor \<le> slot"
proof (induction op cursor path rule: saveSlots.induct)
  case (1 width nested cursor path)
  have c: "cursor \<le> alignWaveAMDExecIfSaveSlot cursor width" using 1(2) by (intro alignSlot_ge) simp
  show ?case
  proof (cases "(slot, w) = (alignWaveAMDExecIfSaveSlot cursor width, width)")
    case False
    then obtain i js where i: "path = i # js" "i < length nested"
        "(slot, w) \<in> set (saveSlots (nested ! i) (alignWaveAMDExecIfSaveSlot cursor width + width) js)"
      using "1.prems"(2) by (auto simp: Let_def split: list.splits if_splits)
    have "execWidthsPos (nested ! i)" using "1.prems"(1) i(2) by simp
    then show ?thesis using "1.IH" [OF refl i(1,2) _ i(3)] c by simp
  qed (use c in simp)
next
  case (2 nested cursor path)
  then obtain i js where i: "path = i # js" "i < length nested"
      "(slot, w) \<in> set (saveSlots (nested ! i) cursor js)"
    by (auto split: list.splits if_splits)
  then show ?case using "2.IH" [OF i(1,2) _ i(3)] "2.prems"(1) by simp
qed

lemma saveSlots_disjoint:
  "execWidthsPos op \<Longrightarrow>
   sorted_wrt (\<lambda>(s, w) (s', w'). s + w \<le> s') (saveSlots op cursor path)"
proof (induction op cursor path rule: saveSlots.induct)
  case (1 width nested cursor path)
  let ?slot = "alignWaveAMDExecIfSaveSlot cursor width"
  show ?case
  proof (cases path)
    case (Cons i js)
    show ?thesis
    proof (cases "i < length nested")
      case True
      then have w: "execWidthsPos (nested ! i)" using "1.prems" by simp
      show ?thesis
        using "1.IH" [OF refl Cons True w] saveSlots_above [OF w, of _ _ "?slot + width" js] True Cons
        by (auto simp: Let_def)
    qed (simp add: Cons Let_def)
  qed (simp add: Let_def)
next
  case (2 nested cursor path)
  show ?case
  proof (cases path)
    case (Cons i js)
    then show ?thesis using "2.IH" [OF Cons] "2.prems" by simp
  qed simp
qed

lemma saveAlign_pos: "1 \<le> si_maxAlign (getWaveAMDExecIfSaveStackInfo func)"
  using collect_mono [of "\<lparr>si_maxDwords = 0, si_maxAlign = 1\<rparr>" func 0]
  by (simp add: getWaveAMDExecIfSaveStackInfo_def)

lemma allocatable_le: "getWaveAMDExecIfAllocatableSGPRBudget func limit \<le> limit"
proof -
  have "(limit - d) div al * al \<le> limit" for d al :: nat
    using div_times_less_eq_dividend [of "limit - d" al] by linarith
  then show ?thesis by (simp add: getWaveAMDExecIfAllocatableSGPRBudget_def Let_def)
qed

lemma reserved_le_limit:
  assumes "0 < getWaveAMDExecIfAllocatableSGPRBudget func limit"
    and "used \<le> getWaveAMDExecIfAllocatableSGPRBudget func limit"
  shows "getWaveAMDExecIfReservedSGPRCount func used \<le> limit"
proof -
  define dwords where "dwords = si_maxDwords (getWaveAMDExecIfSaveStackInfo func)"
  define al where "al = si_maxAlign (getWaveAMDExecIfSaveStackInfo func)"
  have a1: "1 \<le> al" unfolding al_def by (rule saveAlign_pos)
  let ?slot = "alignWaveAMDExecIfSaveSlot used al"
  show ?thesis
  proof (cases "dwords = 0")
    case True
    then show ?thesis
      using assms(2) by (simp add: getWaveAMDExecIfAllocatableSGPRBudget_def
          getWaveAMDExecIfReservedSGPRCount_def dwords_def Let_def)
  next
    case False
    let ?budget = "(limit - dwords) div al * al"
    have b: "used \<le> ?budget" "dwords < limit"
      using assms False
      by (simp_all add: getWaveAMDExecIfAllocatableSGPRBudget_def dwords_def [symmetric]
          al_def [symmetric] Let_def split: if_splits)
    have "?slot \<le> ?budget" using a1 b(1) by (intro alignSlot_le) simp_all
    also have "?budget \<le> limit - dwords" by simp
    finally show ?thesis
      using False b(2)
      by (simp add: getWaveAMDExecIfReservedSGPRCount_def dwords_def [symmetric] al_def [symmetric] Let_def)
  qed
qed

text \<open>C26: The saved execution masks of nested \<^verbatim>\<open>exec_if\<close> operations fit the register file. If the
  allocation uses at most the scalar budget that \<^verbatim>\<open>getWaveAMDExecIfAllocatableSGPRBudget\<close> leaves
  (and leaves any), the registers reserved with the saves are at most the limit, the save area
  starts above every allocated register, and along every path of nested operations the slots are
  disjoint and end inside the reserved registers.\<close>

theorem exec_if_saves_fit:
  assumes "execWidthsPos func"
    and "0 < getWaveAMDExecIfAllocatableSGPRBudget func limit"
    and "used \<le> getWaveAMDExecIfAllocatableSGPRBudget func limit"
  shows "getWaveAMDExecIfReservedSGPRCount func used \<le> limit \<and>
    used \<le> getWaveAMDExecIfSaveBase func (getWaveAMDExecIfReservedSGPRCount func used) \<and>
    sorted_wrt (\<lambda>(s, w) (s', w'). s + w \<le> s') (saveSlots func 0 path) \<and>
    (\<forall>(slot, w)\<in>set (saveSlots func 0 path).
       getWaveAMDExecIfSaveBase func (getWaveAMDExecIfReservedSGPRCount func used) + slot + w
         \<le> getWaveAMDExecIfReservedSGPRCount func used)"
proof -
  define dwords where "dwords = si_maxDwords (getWaveAMDExecIfSaveStackInfo func)"
  define al where "al = si_maxAlign (getWaveAMDExecIfSaveStackInfo func)"
  have a1: "1 \<le> al" unfolding al_def by (rule saveAlign_pos)
  have inside: "slot + w \<le> dwords" if "(slot, w) \<in> set (saveSlots func 0 path)" for slot w
    using saveSlots_inside [OF that] by (simp add: dwords_def getWaveAMDExecIfSaveStackInfo_def)
  let ?slot = "alignWaveAMDExecIfSaveSlot used al"
  have total: "getWaveAMDExecIfReservedSGPRCount func used =
      (if dwords = 0 then used else ?slot + dwords)"
    by (simp add: getWaveAMDExecIfReservedSGPRCount_def dwords_def al_def Let_def)
  have idem: "alignWaveAMDExecIfSaveSlot ?slot al = ?slot"
  proof (rule antisym)
    show "alignWaveAMDExecIfSaveSlot ?slot al \<le> ?slot"
    proof (rule alignSlot_le)
      show "al dvd ?slot" by (simp add: alignWaveAMDExecIfSaveSlot_def)
    qed (use a1 in simp_all)
    show "?slot \<le> alignWaveAMDExecIfSaveSlot ?slot al" using a1 by (intro alignSlot_ge) simp
  qed
  have base: "getWaveAMDExecIfSaveBase func (getWaveAMDExecIfReservedSGPRCount func used) =
      (if dwords = 0 then used else ?slot)"
    using idem total
    by (simp add: getWaveAMDExecIfSaveBase_def dwords_def [symmetric] al_def [symmetric] Let_def)
  have "getWaveAMDExecIfReservedSGPRCount func used \<le> limit"
    by (rule reserved_le_limit [OF assms(2,3)])
  moreover have "used \<le> ?slot" using a1 by (intro alignSlot_ge) simp
  moreover have "base + slot + w \<le> total"
    if "(slot, w) \<in> set (saveSlots func 0 path)" "base = (if dwords = 0 then used else ?slot)"
      "total = (if dwords = 0 then used else ?slot + dwords)" for slot w base total
    using inside [OF that(1)] that(2,3) by (simp split: if_splits)
  ultimately show ?thesis
    using saveSlots_disjoint [OF assms(1), of 0 path] base total by auto
qed

text \<open>A mask of two dwords, and one of one dword inside it.\<close>

theorem exec_if_saves_fit_witness:
  "let func = ExecIf 2 [OtherOp [ExecIf 1 []]]
   in getWaveAMDExecIfReservedSGPRCount func 98 \<le> 102 \<and>
      saveSlots func 0 [0, 0] = [(0, 2), (2, 1)]"
proof -
  have "getWaveAMDExecIfAllocatableSGPRBudget (ExecIf 2 [OtherOp [ExecIf 1 []]]) 102 = 98"
    by code_simp
  then have "getWaveAMDExecIfReservedSGPRCount (ExecIf 2 [OtherOp [ExecIf 1 []]]) 98 \<le> 102"
    using exec_if_saves_fit [of "ExecIf 2 [OtherOp [ExecIf 1 []]]" 102 98 "[]"] by simp
  then show ?thesis
    by (simp add: alignWaveAMDExecIfSaveSlot_def Let_def)
qed

end
