(* ===== verification/Reg_Budget.thy ===== *)
theory Reg_Budget
  imports Reg_Exec_Save
begin

text \<open>
  The number of registers the allocator may use, last part of
  \<^verbatim>\<open>RegAlloc/WaveAMDRegAllocTransformState.cpp\<close>: a limit requested by an attribute, else the
  addressable registers of the target, else a default; lowered to what the target can address and
  to what leaves room for the requested number of waves; and, for scalar registers, lowered by the
  area of the saved execution masks. A function is seen as the attributes of itself and of its
  ancestors, what the target reports (from LLVM: data here), and its \<^verbatim>\<open>exec_if\<close> operations.
\<close>

subsection \<open>Attributes\<close>

text \<open>An integer attribute has a type, unsigned or not, and an \<^verbatim>\<open>APInt\<close> of the width of the type.\<close>

record int_attr =
  ia_unsigned :: bool
  ia_bits :: nat
  ia_value :: nat

datatype attribute = IntegerAttr int_attr | OtherAttr

type_synonym attributes = "(string \<times> attribute) list"

record budget_func =
  bf_chain :: "attributes list"
  bf_hasTarget :: bool
  bf_limits :: "register_limits result"
  bf_exec :: exec_op

definition kTargetWavesAttr :: string where
  "kTargetWavesAttr = ''waveamdmachine.target_waves''"

definition isNegativeAttr :: "int_attr \<Rightarrow> bool" where
  "isNegativeAttr a \<longleftrightarrow> \<not> ia_unsigned a \<and> 2 ^ ia_bits a \<le> 2 * ia_value a"

definition getUnsignedIntegerAttr :: "attributes option \<Rightarrow> string \<Rightarrow> nat option" where
  "getUnsignedIntegerAttr op1 name =
     (case op1 of
        None \<Rightarrow> None
      | Some attrs \<Rightarrow>
          (case map_of attrs name of
             Some (IntegerAttr a) \<Rightarrow>
               if ia_value a = 0 \<or> isNegativeAttr a then Some 0
               else if ia_value a \<ge> 2 ^ 32 then Some UINT_MAX
               else Some (ia_value a)
           | _ \<Rightarrow> None))"

fun findAncestorAttr :: "attributes list \<Rightarrow> string \<Rightarrow> attribute option" where
  "findAncestorAttr [] name = None"
| "findAncestorAttr (attrs # ancestors) name =
     (case map_of attrs name of Some a \<Rightarrow> Some a | None \<Rightarrow> findAncestorAttr ancestors name)"

definition functionAttrs :: "budget_func \<Rightarrow> attributes option" where
  "functionAttrs func = (case bf_chain func of [] \<Rightarrow> None | attrs # _ \<Rightarrow> Some attrs)"

definition parentAttrs :: "budget_func \<Rightarrow> attributes option" where
  "parentAttrs func = (case bf_chain func of _ # attrs # _ \<Rightarrow> Some attrs | _ \<Rightarrow> None)"

subsection \<open>The budget of a register class\<close>

definition getRegClassBudgetAttr :: "RegClass \<Rightarrow> string" where
  "getRegClassBudgetAttr regClass =
     (case regClass of
        SGPR \<Rightarrow> ''waveamdmachine.sgpr_count_max''
      | VGPR \<Rightarrow> ''waveamdmachine.vgpr_count_max''
      | AGPR \<Rightarrow> ''waveamdmachine.agpr_count_max''
      | SCC \<Rightarrow> []
      | VCC \<Rightarrow> [])"

definition getTargetRegisterLimits :: "budget_func \<Rightarrow> register_limits option" where
  "getTargetRegisterLimits func =
     (if \<not> bf_hasTarget func then None
      else case bf_limits func of Inl _ \<Rightarrow> None | Inr limits \<Rightarrow> Some limits)"

definition getTargetAddressableBudget :: "register_limits \<Rightarrow> RegClass \<Rightarrow> nat option" where
  "getTargetAddressableBudget limits regClass =
     (case regClass of
        SGPR \<Rightarrow> Some (rl_addressableSGPRs limits)
      | VGPR \<Rightarrow> Some (rl_addressableVGPRs limits)
      | AGPR \<Rightarrow> Some (rl_addressableAGPRs limits)
      | SCC \<Rightarrow> None
      | VCC \<Rightarrow> None)"

definition getRegAllocTransformDefaultBudgetLimit :: "RegClass \<Rightarrow> nat" where
  "getRegAllocTransformDefaultBudgetLimit regClass =
     (case regClass of SGPR \<Rightarrow> 128 | VGPR \<Rightarrow> 256 | AGPR \<Rightarrow> 256 | SCC \<Rightarrow> 0 | VCC \<Rightarrow> 0)"

definition adjustSGPRBudgetForExecIfSaveStack :: "budget_func \<Rightarrow> RegClass \<Rightarrow> nat \<Rightarrow> nat" where
  "adjustSGPRBudgetForExecIfSaveStack func regClass limit =
     (if regClass \<noteq> SGPR then limit
      else getWaveAMDExecIfAllocatableSGPRBudget (bf_exec func) limit)"

definition selectRegAllocTransformBudget ::
    "budget_func \<Rightarrow> RegClass \<Rightarrow> register_limits option \<Rightarrow> budget" where
  "selectRegAllocTransformBudget func regClass targetLimits =
     (let attrName = getRegClassBudgetAttr regClass
      in case getUnsignedIntegerAttr (functionAttrs func) attrName of
           Some limit \<Rightarrow> \<lparr>bu_limit = limit, bu_mode = ''func_attr''\<rparr>
         | None \<Rightarrow>
             (case getUnsignedIntegerAttr (parentAttrs func) attrName of
                Some limit \<Rightarrow> \<lparr>bu_limit = limit, bu_mode = ''module_attr''\<rparr>
              | None \<Rightarrow>
                  (case Option.bind targetLimits (\<lambda>l. getTargetAddressableBudget l regClass) of
                     Some limit \<Rightarrow> \<lparr>bu_limit = limit, bu_mode = ''target_addressable''\<rparr>
                   | None \<Rightarrow> \<lparr>bu_limit = getRegAllocTransformDefaultBudgetLimit regClass,
                               bu_mode = ''default''\<rparr>)))"

definition clampRegAllocTransformBudgetToAddressable ::
    "budget \<Rightarrow> register_limits option \<Rightarrow> RegClass \<Rightarrow> budget" where
  "clampRegAllocTransformBudgetToAddressable b targetLimits regClass =
     (case targetLimits of
        None \<Rightarrow> b
      | Some limits \<Rightarrow>
          if \<not> rl_hasTargetCapabilityContract limits then b
          else (case getTargetAddressableBudget limits regClass of
            None \<Rightarrow> b
          | Some limit \<Rightarrow>
              if limit \<ge> bu_limit b then b
              else \<lparr>bu_limit = limit, bu_mode = ''target_addressable''\<rparr>))"

definition getRegAllocBudgetTargetWaves :: "budget_func \<Rightarrow> nat option" where
  "getRegAllocBudgetTargetWaves func =
     (case findAncestorAttr (bf_chain func) kTargetWavesAttr of
        Some (IntegerAttr a) \<Rightarrow>
          if ia_value a = 0 \<or> isNegativeAttr a \<or> ia_value a \<ge> 2 ^ 32 then None
          else Some (ia_value a)
      | _ \<Rightarrow> None)"

definition getRegAllocOccupancyBudget :: "register_limits \<Rightarrow> RegClass \<Rightarrow> nat \<Rightarrow> nat" where
  "getRegAllocOccupancyBudget limits regClass targetWaves =
     (if regClass = SGPR
      then getMaxWaveAMDRegisterBudgetForWaves (rl_maxSGPRsForWaves limits) targetWaves
      else if regClass = VGPR
      then getMaxWaveAMDRegisterBudgetForWaves (rl_maxVGPRsForWaves limits) targetWaves
      else 0)"

definition clampRegAllocTransformBudgetToOccupancy ::
    "budget \<Rightarrow> register_limits option \<Rightarrow> RegClass \<Rightarrow> nat option \<Rightarrow> budget" where
  "clampRegAllocTransformBudgetToOccupancy b targetLimits regClass targetWaves =
     (case (targetLimits, targetWaves) of
        (Some limits, Some waves) \<Rightarrow>
          if \<not> rl_hasTargetCapabilityContract limits \<or> waves > rl_maxWavesPerEU limits then b
          else let limit = getRegAllocOccupancyBudget limits regClass waves
               in if limit = 0 \<or> limit \<ge> bu_limit b then b
                  else \<lparr>bu_limit = limit, bu_mode = ''target_waves''\<rparr>
      | _ \<Rightarrow> b)"

definition getRegAllocTransformBudget :: "budget_func \<Rightarrow> RegClass \<Rightarrow> budget" where
  "getRegAllocTransformBudget func regClass =
     (let targetLimits = getTargetRegisterLimits func;
          b0 = selectRegAllocTransformBudget func regClass targetLimits;
          b1 = clampRegAllocTransformBudgetToAddressable b0 targetLimits regClass;
          b2 = clampRegAllocTransformBudgetToOccupancy b1 targetLimits regClass
                 (getRegAllocBudgetTargetWaves func)
      in b2\<lparr>bu_limit := adjustSGPRBudgetForExecIfSaveStack func regClass (bu_limit b2)\<rparr>)"

subsection \<open>The budget of the vector registers together\<close>

definition getTargetWaves :: "budget_func \<Rightarrow> nat \<Rightarrow> nat option result" where
  "getTargetWaves func maxWavesPerEU =
     (case findAncestorAttr (bf_chain func) kTargetWavesAttr of
        None \<Rightarrow> Inr None
      | Some OtherAttr \<Rightarrow> Inl Failure
      | Some (IntegerAttr a) \<Rightarrow>
          if ia_value a = 0 \<or> isNegativeAttr a then Inl Failure
          else if ia_value a \<ge> 2 ^ 32 \<or> ia_value a > maxWavesPerEU then Inl Failure
          else Inr (Some (ia_value a)))"

definition getRegAllocTransformVGPRFamilyBudget :: "budget_func \<Rightarrow> budget option result" where
  "getRegAllocTransformVGPRFamilyBudget func =
     (if findAncestorAttr (bf_chain func) kTargetWavesAttr = None then Inr None
      else bindR (bf_limits func) (\<lambda>limits.
        bindR (getTargetWaves func (rl_maxWavesPerEU limits)) (\<lambda>targetWaves.
          case targetWaves of
            None \<Rightarrow> Inr None
          | Some waves \<Rightarrow>
              if \<not> rl_agprCountsAgainstVGPRs limits then Inr None
              else let limit = getMaxWaveAMDRegisterBudgetForWaves (rl_maxVGPRsForWaves limits) waves
                   in if limit = 0 then Inl Failure
                      else Inr (Some \<lparr>bu_limit = limit,
                                      bu_mode = ''target_waves_combined_vgpr_agpr''\<rparr>))))"

subsection \<open>Bounds\<close>

text \<open>The limits that apply to a register class of a function whose target has a contract.\<close>

definition requestedLimit :: "budget_func \<Rightarrow> RegClass \<Rightarrow> nat option" where
  "requestedLimit func regClass =
     (case getUnsignedIntegerAttr (functionAttrs func) (getRegClassBudgetAttr regClass) of
        Some limit \<Rightarrow> Some limit
      | None \<Rightarrow> getUnsignedIntegerAttr (parentAttrs func) (getRegClassBudgetAttr regClass))"

definition occupancyLimit :: "budget_func \<Rightarrow> register_limits \<Rightarrow> RegClass \<Rightarrow> nat option" where
  "occupancyLimit func limits regClass =
     (case getRegAllocBudgetTargetWaves func of
        None \<Rightarrow> None
      | Some waves \<Rightarrow>
          let limit = getRegAllocOccupancyBudget limits regClass waves
          in if waves > rl_maxWavesPerEU limits \<or> limit = 0 then None else Some limit)"

definition optionList :: "'a option \<Rightarrow> 'a list" where
  "optionList x = (case x of None \<Rightarrow> [] | Some y \<Rightarrow> [y])"

lemma selected_limit:
  assumes "getTargetAddressableBudget limits regClass = Some addressable"
  shows "bu_limit (selectRegAllocTransformBudget func regClass (Some limits)) =
    (case requestedLimit func regClass of Some r \<Rightarrow> r | None \<Rightarrow> addressable)"
  using assms
  by (simp add: selectRegAllocTransformBudget_def requestedLimit_def Let_def split: option.split)

lemma clamped_addressable:
  assumes "rl_hasTargetCapabilityContract limits"
    and "getTargetAddressableBudget limits regClass = Some addressable"
  shows "bu_limit (clampRegAllocTransformBudgetToAddressable b (Some limits) regClass) =
    min (bu_limit b) addressable"
  using assms by (simp add: clampRegAllocTransformBudgetToAddressable_def)

lemma clamped_occupancy:
  assumes "rl_hasTargetCapabilityContract limits"
  shows "bu_limit (clampRegAllocTransformBudgetToOccupancy b (Some limits) regClass
      (getRegAllocBudgetTargetWaves func)) =
    fold min (optionList (occupancyLimit func limits regClass)) (bu_limit b)"
  using assms
  by (auto simp: clampRegAllocTransformBudgetToOccupancy_def occupancyLimit_def optionList_def Let_def
      split: option.split)

lemma budget_limit:
  assumes "getTargetRegisterLimits func = Some limits" and "rl_hasTargetCapabilityContract limits"
    and "getTargetAddressableBudget limits regClass = Some addressable"
  shows "bu_limit (getRegAllocTransformBudget func regClass) =
    adjustSGPRBudgetForExecIfSaveStack func regClass
      (fold min (optionList (requestedLimit func regClass) @ optionList (occupancyLimit func limits regClass))
        addressable)"
  using assms
  by (simp add: getRegAllocTransformBudget_def Let_def clamped_occupancy clamped_addressable
      selected_limit optionList_def min.commute split: option.split)

text \<open>C40: The register budget is what all limits allow. On a target with a capability contract the
  budget of a class that is allocated (\<^verbatim>\<open>getRegAllocTransformBudget\<close>) is the least of the
  addressable registers, the limit requested by an attribute of the function or, without one, of
  its parent, and the registers that leave room for the requested waves; of a scalar budget the
  area of the saved execution masks is taken off, and an allocation that keeps the scalar budget
  fits all these limits together with that area.\<close>

theorem register_budget_least:
  assumes limits: "getTargetRegisterLimits func = Some limits" "rl_hasTargetCapabilityContract limits"
    and a: "getTargetAddressableBudget limits regClass = Some addressable"
    and caps: "caps = addressable # optionList (requestedLimit func regClass) @
      optionList (occupancyLimit func limits regClass)"
  shows "(regClass \<noteq> SGPR \<longrightarrow> bu_limit (getRegAllocTransformBudget func regClass) = Min (set caps)) \<and>
    bu_limit (getRegAllocTransformBudget func regClass) \<le> Min (set caps) \<and>
    (regClass = SGPR \<longrightarrow> 0 < bu_limit (getRegAllocTransformBudget func SGPR) \<longrightarrow>
      (\<forall>used \<le> bu_limit (getRegAllocTransformBudget func SGPR).
         getWaveAMDExecIfReservedSGPRCount (bf_exec func) used \<le> Min (set caps)))"
proof -
  have m: "fold min (optionList (requestedLimit func regClass) @
      optionList (occupancyLimit func limits regClass)) addressable = Min (set caps)"
    unfolding caps by (simp only: Min.set_eq_fold)
  note b = budget_limit [OF limits a, unfolded m]
  show ?thesis
  proof (cases "regClass = SGPR")
    case True
    then have e: "bu_limit (getRegAllocTransformBudget func SGPR) =
        getWaveAMDExecIfAllocatableSGPRBudget (bf_exec func) (Min (set caps))"
      using b by (simp add: adjustSGPRBudgetForExecIfSaveStack_def)
    then show ?thesis
      using True allocatable_le [of "bf_exec func" "Min (set caps)"]
        reserved_le_limit [of "bf_exec func" "Min (set caps)"] by simp
  next
    case False
    then show ?thesis using b by (simp add: adjustSGPRBudgetForExecIfSaveStack_def)
  qed
qed

definition ex_limits :: register_limits where
  "ex_limits = \<lparr>rl_sgprTupleLegalBases = [], rl_maxSGPRsForWaves = [0, 102, 96],
     rl_maxVGPRsForWaves = [0, 512, 256], rl_addressableSGPRs = 102, rl_addressableVGPRs = 256,
     rl_addressableAGPRs = 256, rl_sgprAllocGranule = 8, rl_vgprAllocGranule = 8,
     rl_agprAllocGranule = 8, rl_vgprTupleAlignment = 1, rl_maxWavesPerEU = 2,
     rl_hasTargetCapabilityContract = True, rl_agprCountsAgainstVGPRs = True\<rparr>"

definition ex_budget_func :: budget_func where
  "ex_budget_func =
     \<lparr>bf_chain = [[(''waveamdmachine.sgpr_count_max'',
                     IntegerAttr \<lparr>ia_unsigned = False, ia_bits = 32, ia_value = 100\<rparr>)],
                  [(''waveamdmachine.target_waves'',
                     IntegerAttr \<lparr>ia_unsigned = False, ia_bits = 32, ia_value = 2\<rparr>)]],
      bf_hasTarget = True, bf_limits = Inr ex_limits,
      bf_exec = ExecIf 2 [OtherOp [ExecIf 1 []]]\<rparr>"

theorem register_budget_least_witness:
  "bu_limit (getRegAllocTransformBudget ex_budget_func SGPR) = 92 \<and>
   getWaveAMDExecIfReservedSGPRCount (bf_exec ex_budget_func) 92 \<le> 96"
proof -
  have l: "getTargetRegisterLimits ex_budget_func = Some ex_limits"
      "rl_hasTargetCapabilityContract ex_limits" "getTargetAddressableBudget ex_limits SGPR = Some 102"
    by (simp_all add: getTargetRegisterLimits_def ex_budget_func_def ex_limits_def
        getTargetAddressableBudget_def)
  have b: "bu_limit (getRegAllocTransformBudget ex_budget_func SGPR) = 92"
    "occupancyLimit ex_budget_func ex_limits SGPR = Some 96"
    "requestedLimit ex_budget_func SGPR = Some 100"
    by code_simp+
  show ?thesis
    using register_budget_least [OF l refl] b by (simp add: optionList_def)
qed

text \<open>The family budget is the number of vector registers that leave room for the waves, for a
  number of waves that the target can hold.\<close>

lemma getTargetWaves_Some:
  "getTargetWaves func maxWaves = Inr (Some waves) \<Longrightarrow> 0 < waves \<and> waves \<le> maxWaves"
  by (auto simp: getTargetWaves_def split: option.splits if_splits attribute.splits)

lemma family_budget_cases:
  assumes "getRegAllocTransformVGPRFamilyBudget func = Inr (Some b)"
  shows "\<exists>limits waves. bf_limits func = Inr limits \<and> 0 < waves \<and> waves \<le> rl_maxWavesPerEU limits \<and>
    rl_agprCountsAgainstVGPRs limits \<and> waves < length (rl_maxVGPRsForWaves limits) \<and>
    bu_limit b = rl_maxVGPRsForWaves limits ! waves \<and> 0 < bu_limit b"
proof -
  obtain limits waves where l: "bf_limits func = Inr limits"
      and w: "getTargetWaves func (rl_maxWavesPerEU limits) = Inr (Some waves)"
      and b: "rl_agprCountsAgainstVGPRs limits"
        "bu_limit b = getMaxWaveAMDRegisterBudgetForWaves (rl_maxVGPRsForWaves limits) waves" "0 < bu_limit b"
    using assms
    by (auto simp: getRegAllocTransformVGPRFamilyBudget_def bindR_eq_Inr Let_def
        split: if_splits option.split_asm)
  show ?thesis
    using getTargetWaves_Some [OF w] b l
    by (auto simp: getMaxWaveAMDRegisterBudgetForWaves_def split: if_splits)
qed

end
