(* ===== verification/Wave_Expr.thy ===== *)
theory Wave_Expr
  imports Prelude "HOL-Library.Word" "HOL-Library.Signed_Division"
begin

unbundle bit_operations_syntax

text \<open>
  The integer expressions of the Wave dialect (\<^verbatim>\<open>lib/Dialect/Wave/IR/Wave.cpp\<close>): scalar and
  SIMD integer types, the binary operation with its verifier, and its folder. A value is the
  tree of the operations that define it; SSA sharing is not represented, the operations have no
  effects. An \<^verbatim>\<open>APInt\<close> of width \<open>b\<close> is a natural number below \<open>2 ^ b\<close>. A SIMD value is
  evaluated for one lane, since the operations are elementwise; a splat has the value of its
  scalar. What a binary operation computes is taken from its constant folder
  (\<^verbatim>\<open>foldWaveBinaryConstants\<close>); where the folder declines (division by zero, signed
  overflow of a division, a shift by the width or more) the operation has no defined value.
\<close>

subsection \<open>Types and values\<close>

datatype elem_type = IndexType | IntegerType nat

datatype wave_type = ScalarType elem_type | SimdType elem_type nat | MaskType nat

datatype BinaryKind =
    AddI | SubI | MulI | ShLI | ShRUI | ShRSI | AndI | OrI | XOrI
  | DivUI | DivSI | RemUI | RemSI | MulHUI

datatype CmpIPredicate = CmpUge | CmpSge | CmpSlt

datatype CastExtension = ExtendSign | ExtendZero

datatype expr =
    Operand nat wave_type
  | Constant wave_type nat
  | Splat wave_type expr
  | Binary wave_type BinaryKind expr expr
  | CmpI wave_type CmpIPredicate expr expr
  | Select wave_type expr expr expr
  | URecip wave_type expr
  | Ctz expr
  | IntConvert wave_type "CastExtension option" expr

definition scalarElementType :: "wave_type \<Rightarrow> elem_type" where
  "scalarElementType type =
     (case type of ScalarType e \<Rightarrow> e | SimdType e _ \<Rightarrow> e | MaskType _ \<Rightarrow> IntegerType 1)"

definition elementBits :: "wave_type \<Rightarrow> nat" where
  "elementBits type = (case scalarElementType type of IndexType \<Rightarrow> 64 | IntegerType w \<Rightarrow> w)"

fun typeOf :: "expr \<Rightarrow> wave_type" where
  "typeOf (Operand _ t) = t"
| "typeOf (Constant t _) = t"
| "typeOf (Splat t _) = t"
| "typeOf (Binary t _ _ _) = t"
| "typeOf (CmpI t _ _ _) =
     (case t of SimdType _ w \<Rightarrow> MaskType w | _ \<Rightarrow> ScalarType (IntegerType 1))"
| "typeOf (Select t _ _ _) = t"
| "typeOf (URecip t _) = t"
| "typeOf (Ctz e) = typeOf e"
| "typeOf (IntConvert t _ _) = t"

definition exprBits :: "expr \<Rightarrow> nat" where
  "exprBits e = elementBits (typeOf e)"

subsection \<open>Folding constants\<close>

definition toSigned :: "nat \<Rightarrow> nat \<Rightarrow> int" where
  "toSigned bits n = (if 2 * n < 2 ^ bits then int n else int n - 2 ^ bits)"

definition ofSigned :: "nat \<Rightarrow> int \<Rightarrow> nat" where
  "ofSigned bits i = nat (i mod 2 ^ bits)"

definition foldWaveAddSubMulConstants :: "BinaryKind \<Rightarrow> nat \<Rightarrow> nat \<Rightarrow> nat \<Rightarrow> nat option" where
  "foldWaveAddSubMulConstants kind bits a b =
     (case kind of
        AddI \<Rightarrow> Some ((a + b) mod 2 ^ bits)
      | SubI \<Rightarrow> Some ((a + 2 ^ bits - b) mod 2 ^ bits)
      | MulI \<Rightarrow> Some ((a * b) mod 2 ^ bits)
      | _ \<Rightarrow> None)"

definition foldWaveShiftConstants :: "BinaryKind \<Rightarrow> nat \<Rightarrow> nat \<Rightarrow> nat \<Rightarrow> nat option" where
  "foldWaveShiftConstants kind bits a b =
     (case kind of
        ShLI \<Rightarrow> if b < bits then Some ((a * 2 ^ b) mod 2 ^ bits) else None
      | ShRUI \<Rightarrow> if b < bits then Some (a div 2 ^ b) else None
      | ShRSI \<Rightarrow> if b < bits then Some (ofSigned bits (toSigned bits a div 2 ^ b)) else None
      | _ \<Rightarrow> None)"

definition foldWaveBitwiseConstants :: "BinaryKind \<Rightarrow> nat \<Rightarrow> nat \<Rightarrow> nat option" where
  "foldWaveBitwiseConstants kind a b =
     (case kind of
        AndI \<Rightarrow> Some (a AND b) | OrI \<Rightarrow> Some (a OR b) | XOrI \<Rightarrow> Some (a XOR b) | _ \<Rightarrow> None)"

definition foldWaveDivRemConstants :: "BinaryKind \<Rightarrow> nat \<Rightarrow> nat \<Rightarrow> nat \<Rightarrow> nat option" where
  "foldWaveDivRemConstants kind bits a b =
     (case kind of
        DivUI \<Rightarrow> if b = 0 then None else Some (a div b)
      | DivSI \<Rightarrow>
          if b = 0 \<or> (toSigned bits a = - (2 ^ bits div 2) \<and> toSigned bits b = -1) then None
          else Some (ofSigned bits (toSigned bits a sdiv toSigned bits b))
      | RemUI \<Rightarrow> if b = 0 then None else Some (a mod b)
      | RemSI \<Rightarrow> if b = 0 then None else Some (ofSigned bits (toSigned bits a smod toSigned bits b))
      | _ \<Rightarrow> None)"

definition foldWaveMulHUIConstants :: "BinaryKind \<Rightarrow> nat \<Rightarrow> nat \<Rightarrow> nat \<Rightarrow> nat option" where
  "foldWaveMulHUIConstants kind bits a b =
     (if kind = MulHUI then Some ((a * b) div 2 ^ bits) else None)"

fun firstSome :: "'a option list \<Rightarrow> 'a option" where
  "firstSome [] = None"
| "firstSome (x # xs) = (case x of None \<Rightarrow> firstSome xs | Some y \<Rightarrow> Some y)"

definition foldWaveBinaryConstants :: "BinaryKind \<Rightarrow> nat \<Rightarrow> nat \<Rightarrow> nat \<Rightarrow> nat option" where
  "foldWaveBinaryConstants kind bits a b =
     firstSome [foldWaveAddSubMulConstants kind bits a b, foldWaveShiftConstants kind bits a b,
       foldWaveBitwiseConstants kind a b, foldWaveDivRemConstants kind bits a b,
       foldWaveMulHUIConstants kind bits a b]"

subsection \<open>The verifier of the binary operation\<close>

definition classifyWaveBinaryOperand :: "wave_type \<Rightarrow> (elem_type \<times> nat option) option" where
  "classifyWaveBinaryOperand type =
     (case type of
        ScalarType e \<Rightarrow> Some (e, None)
      | SimdType e w \<Rightarrow> Some (e, Some w)
      | MaskType _ \<Rightarrow> None)"

definition verifyWaveBinaryResult :: "wave_type \<Rightarrow> elem_type \<Rightarrow> nat option \<Rightarrow> bool" where
  "verifyWaveBinaryResult resultType elementType simdWidth =
     (case simdWidth of
        None \<Rightarrow> resultType = ScalarType elementType
      | Some w \<Rightarrow> (case resultType of SimdType e v \<Rightarrow> v = w \<and> e = elementType | _ \<Rightarrow> False))"

definition supportsWaveBinaryOverflowFlags :: "BinaryKind \<Rightarrow> bool" where
  "supportsWaveBinaryOverflowFlags kind \<longleftrightarrow> List.member [AddI, SubI, MulI, ShLI] kind"

definition verifyBinaryOp :: "BinaryKind \<Rightarrow> bool \<Rightarrow> wave_type \<Rightarrow> wave_type \<Rightarrow> wave_type \<Rightarrow> bool" where
  "verifyBinaryOp kind hasFlags resultType lhs rhs =
     (case (classifyWaveBinaryOperand lhs, classifyWaveBinaryOperand rhs) of
        (Some (le, lw), Some (re, rw)) \<Rightarrow>
          le = re \<and> \<not> (lw \<noteq> None \<and> rw \<noteq> None \<and> lw \<noteq> rw) \<and>
          (hasFlags \<longrightarrow> supportsWaveBinaryOverflowFlags kind) \<and>
          verifyWaveBinaryResult resultType le (if lw \<noteq> None then lw else rw)
      | _ \<Rightarrow> False)"

subsection \<open>The folder of the binary operation\<close>

datatype fold_result = FoldToValue expr | FoldToAttr nat

definition constantAttr :: "expr \<Rightarrow> nat option" where
  "constantAttr e = (case e of Constant _ n \<Rightarrow> Some n | _ \<Rightarrow> None)"

definition foldToResultValue :: "expr \<Rightarrow> wave_type \<Rightarrow> fold_result option" where
  "foldToResultValue v resultType = (if typeOf v = resultType then Some (FoldToValue v) else None)"

definition isAllOnes :: "nat \<Rightarrow> nat option \<Rightarrow> bool" where
  "isAllOnes bits attr \<longleftrightarrow> attr = Some (2 ^ bits - 1)"

text \<open>
  The identities read the attributes of the constant operands. \<open>same\<close> tells that both operands
  are the same value; the zero attribute of an integer type always exists.
\<close>

definition foldWaveAddIdentity :: "BinaryKind \<Rightarrow> wave_type \<Rightarrow> expr \<Rightarrow> expr \<Rightarrow> fold_result option" where
  "foldWaveAddIdentity kind t l r =
     (if kind \<noteq> AddI then None
      else if constantAttr r = Some 0 then foldToResultValue l t
      else if constantAttr l = Some 0 then foldToResultValue r t
      else None)"

definition foldWaveSubIdentity ::
    "BinaryKind \<Rightarrow> wave_type \<Rightarrow> bool \<Rightarrow> expr \<Rightarrow> expr \<Rightarrow> fold_result option" where
  "foldWaveSubIdentity kind t same l r =
     (if kind \<noteq> SubI then None
      else if same then Some (FoldToAttr 0)
      else if constantAttr r = Some 0 then foldToResultValue l t
      else None)"

definition foldWaveMulIdentity :: "BinaryKind \<Rightarrow> wave_type \<Rightarrow> expr \<Rightarrow> expr \<Rightarrow> fold_result option" where
  "foldWaveMulIdentity kind t l r =
     (if kind \<noteq> MulI then None
      else if constantAttr r = Some 0 then foldToResultValue r t
      else if constantAttr l = Some 0 then foldToResultValue l t
      else if constantAttr r = Some 1 then foldToResultValue l t
      else if constantAttr l = Some 1 then foldToResultValue r t
      else None)"

definition foldWaveShiftIdentity :: "BinaryKind \<Rightarrow> wave_type \<Rightarrow> expr \<Rightarrow> expr \<Rightarrow> fold_result option" where
  "foldWaveShiftIdentity kind t l r =
     (if List.member [ShLI, ShRUI, ShRSI] kind \<and> constantAttr r = Some 0
      then foldToResultValue l t else None)"

definition foldWaveAndIdentity :: "BinaryKind \<Rightarrow> wave_type \<Rightarrow> expr \<Rightarrow> expr \<Rightarrow> fold_result option" where
  "foldWaveAndIdentity kind t l r =
     (if kind \<noteq> AndI then None
      else if constantAttr r = Some 0 then foldToResultValue r t
      else if constantAttr l = Some 0 then foldToResultValue l t
      else if isAllOnes (elementBits t) (constantAttr r) then foldToResultValue l t
      else if isAllOnes (elementBits t) (constantAttr l) then foldToResultValue r t
      else None)"

definition foldWaveOrIdentity :: "BinaryKind \<Rightarrow> wave_type \<Rightarrow> expr \<Rightarrow> expr \<Rightarrow> fold_result option" where
  "foldWaveOrIdentity kind t l r =
     (if kind \<noteq> OrI then None
      else if constantAttr r = Some 0 then foldToResultValue l t
      else if constantAttr l = Some 0 then foldToResultValue r t
      else if isAllOnes (elementBits t) (constantAttr r) then foldToResultValue r t
      else if isAllOnes (elementBits t) (constantAttr l) then foldToResultValue l t
      else None)"

definition foldWaveXOrIdentity ::
    "BinaryKind \<Rightarrow> wave_type \<Rightarrow> bool \<Rightarrow> expr \<Rightarrow> expr \<Rightarrow> fold_result option" where
  "foldWaveXOrIdentity kind t same l r =
     (if kind \<noteq> XOrI then None
      else if same then Some (FoldToAttr 0)
      else if constantAttr r = Some 0 then foldToResultValue l t
      else if constantAttr l = Some 0 then foldToResultValue r t
      else None)"

definition foldWaveDivRemIdentity :: "BinaryKind \<Rightarrow> wave_type \<Rightarrow> expr \<Rightarrow> expr \<Rightarrow> fold_result option" where
  "foldWaveDivRemIdentity kind t l r =
     (if kind = DivUI \<or> kind = DivSI
      then (if constantAttr r = Some 1 then foldToResultValue l t else None)
      else if kind = RemUI \<or> kind = RemSI
      then (if constantAttr r = Some 1 then Some (FoldToAttr 0) else None)
      else None)"

definition foldWaveBinaryIdentity ::
    "BinaryKind \<Rightarrow> wave_type \<Rightarrow> bool \<Rightarrow> expr \<Rightarrow> expr \<Rightarrow> fold_result option" where
  "foldWaveBinaryIdentity kind t same l r =
     firstSome [foldWaveAddIdentity kind t l r, foldWaveSubIdentity kind t same l r,
       foldWaveMulIdentity kind t l r, foldWaveShiftIdentity kind t l r,
       foldWaveAndIdentity kind t l r, foldWaveOrIdentity kind t l r,
       foldWaveXOrIdentity kind t same l r, foldWaveDivRemIdentity kind t l r]"

definition foldBinaryOp ::
    "BinaryKind \<Rightarrow> wave_type \<Rightarrow> bool \<Rightarrow> expr \<Rightarrow> expr \<Rightarrow> fold_result option" where
  "foldBinaryOp kind t same l r =
     (case foldWaveBinaryIdentity kind t same l r of
        Some f \<Rightarrow> Some f
      | None \<Rightarrow>
          (case (constantAttr l, constantAttr r) of
             (Some a, Some b) \<Rightarrow>
               map_option FoldToAttr (foldWaveBinaryConstants kind (elementBits t) a b)
           | _ \<Rightarrow> None))"

subsection \<open>The folder of integer conversions\<close>

text \<open>A conversion truncates, or extends by the extension of its policy, by the sign if it has none.\<close>

definition foldWaveIntConvert :: "nat \<Rightarrow> nat \<Rightarrow> CastExtension option \<Rightarrow> nat \<Rightarrow> nat" where
  "foldWaveIntConvert sourceBits resultBits extension n =
     (if resultBits > sourceBits
      then (if extension = Some ExtendZero then n
            else ofSigned resultBits (toSigned sourceBits n))
      else if resultBits < sourceBits then n mod 2 ^ resultBits
      else n)"

definition verifyWaveCastExtensionPolicy :: "wave_type \<Rightarrow> wave_type \<Rightarrow> CastExtension option \<Rightarrow> bool" where
  "verifyWaveCastExtensionPolicy source res extension \<longleftrightarrow>
     (extension \<noteq> None \<longleftrightarrow> elementBits source < elementBits res)"

text \<open>
  Folding a narrowing of another conversion gives the source of the inner one, or narrows it
  directly. The second form updates the operation in place: the result is the new operation.
\<close>

definition foldNarrowingIntConvert :: "wave_type \<Rightarrow> CastExtension option \<Rightarrow> expr \<Rightarrow> expr option" where
  "foldNarrowingIntConvert t x source =
     (if exprBits source \<le> elementBits t then None
      else case source of
        IntConvert _ _ inner \<Rightarrow>
          if exprBits inner = elementBits t \<and> typeOf inner = t then Some inner
          else if exprBits inner \<le> elementBits t then None
          else Some (IntConvert t x inner)
      | _ \<Rightarrow> None)"

definition foldIntConvertOp :: "wave_type \<Rightarrow> CastExtension option \<Rightarrow> expr \<Rightarrow> fold_result option" where
  "foldIntConvertOp t x source =
     (if typeOf source = t then Some (FoldToValue source)
      else case foldNarrowingIntConvert t x source of
        Some e \<Rightarrow> Some (FoldToValue e)
      | None \<Rightarrow> map_option (\<lambda>n. FoldToAttr (foldWaveIntConvert (exprBits source) (elementBits t) x n))
          (constantAttr source))"

subsection \<open>Evaluation\<close>

definition evalBinary :: "BinaryKind \<Rightarrow> nat \<Rightarrow> nat \<Rightarrow> nat \<Rightarrow> nat" where
  "evalBinary kind bits a b =
     (case foldWaveBinaryConstants kind bits a b of None \<Rightarrow> 0 | Some n \<Rightarrow> n)"

definition evalCmp :: "CmpIPredicate \<Rightarrow> nat \<Rightarrow> nat \<Rightarrow> nat \<Rightarrow> nat" where
  "evalCmp predicate bits a b =
     of_bool (case predicate of
        CmpUge \<Rightarrow> b \<le> a
      | CmpSge \<Rightarrow> toSigned bits b \<le> toSigned bits a
      | CmpSlt \<Rightarrow> toSigned bits a < toSigned bits b)"

fun ctzLoop :: "nat \<Rightarrow> nat \<Rightarrow> nat" where
  "ctzLoop 0 n = 0"
| "ctzLoop (Suc k) n = (if odd n then 0 else Suc (ctzLoop k (n div 2)))"

text \<open>\<open>urecip\<close> is the reciprocal estimate of the machine, a parameter.\<close>

fun evalExpr :: "(nat \<Rightarrow> nat) \<Rightarrow> (nat \<Rightarrow> nat) \<Rightarrow> expr \<Rightarrow> nat" where
  "evalExpr urecip env (Operand i _) = env i"
| "evalExpr urecip env (Constant _ n) = n"
| "evalExpr urecip env (Splat _ e) = evalExpr urecip env e"
| "evalExpr urecip env (Binary t kind l r) =
     evalBinary kind (elementBits t) (evalExpr urecip env l) (evalExpr urecip env r)"
| "evalExpr urecip env (CmpI t p l r) =
     evalCmp p (elementBits t) (evalExpr urecip env l) (evalExpr urecip env r)"
| "evalExpr urecip env (Select _ c a b) =
     (if evalExpr urecip env c \<noteq> 0 then evalExpr urecip env a else evalExpr urecip env b)"
| "evalExpr urecip env (URecip _ e) = urecip (evalExpr urecip env e)"
| "evalExpr urecip env (Ctz e) = ctzLoop (elementBits (typeOf e)) (evalExpr urecip env e)"
| "evalExpr urecip env (IntConvert t x e) =
     foldWaveIntConvert (elementBits (typeOf e)) (elementBits t) x (evalExpr urecip env e)"

end
