(* ===== verification/Wave_Fold.thy ===== *)
theory Wave_Fold
  imports Wave_Expr
begin

text \<open>
  The folders of binary operations and integer conversions are sound: whenever an operation has
  a defined value, what the folder puts in its place has that value. The arithmetic of the
  operations used by the division expansion is collected as \<open>eval_simps\<close>.
\<close>

named_theorems eval_simps \<open>values of operations on bounded operands\<close>

subsection \<open>Bitwise operations on bounded numbers\<close>

lemma and_ones: "a < 2 ^ n \<Longrightarrow> a AND (2 ^ n - 1) = (a :: nat)"
  by (metis mask_eq_exp_minus_1 take_bit_eq_mask take_bit_nat_eq_self)

lemma and_low: "a AND (2 ^ n - 1) = a mod (2 ^ n :: nat)"
  by (metis mask_eq_exp_minus_1 take_bit_eq_mask take_bit_eq_mod)

lemma or_ones: "a < 2 ^ n \<Longrightarrow> a OR (2 ^ n - 1) = (2 ^ n - 1 :: nat)"
  by (rule bit_eqI)
    (metis bit_mask_iff bit_or_iff mask_eq_exp_minus_1 take_bit_nat_eq_self_iff bit_take_bit_iff)

lemma bit_below: "a < 2 ^ n \<Longrightarrow> bit (a :: nat) k \<Longrightarrow> k < n"
  by (metis bit_take_bit_iff take_bit_nat_eq_self)

lemma xor_ones:
  assumes "a < 2 ^ n"
  shows "a XOR (2 ^ n - 1) = 2 ^ n - 1 - (a :: nat)"
proof -
  let ?m = "2 ^ n - 1 :: nat"
  have m: "?m = mask n" by (simp add: mask_eq_exp_minus_1)
  have "a AND (a XOR ?m) = 0"
    unfolding m using bit_below [OF assms]
    by (intro bit_eqI) (auto simp: bit_and_iff bit_xor_iff bit_mask_iff)
  then have "a + (a XOR ?m) = a XOR (a XOR ?m)" by (rule disjunctive_add_eq_xor)
  also have "\<dots> = ?m" by (simp add: xor.assoc [symmetric])
  finally show ?thesis by linarith
qed

lemma or_bit:
  assumes "a mod 2 ^ Suc k = (0 :: nat)"
  shows "a OR 2 ^ k = a + 2 ^ k"
proof -
  have "\<not> bit a k"
    using assms by (metis bit_take_bit_iff bit_0_eq bot_apply lessI take_bit_eq_mod bot_bool_def)
  then have "a AND 2 ^ k = 0"
    by (intro bit_eqI) (auto simp: bit_and_iff bit_exp_iff)
  then show ?thesis by (simp add: disjunctive_add_eq_or)
qed

lemma or_low_bit: "c \<le> 1 \<Longrightarrow> (2 * a) OR c = 2 * a + (c :: nat)"
proof -
  assume "c \<le> 1"
  then have "c = 0 \<or> c = 1" by auto
  moreover have "(2 * a) AND 1 = 0" by (simp add: and_one_eq)
  ultimately show ?thesis using disjunctive_add_eq_or [of "2 * a" "1 :: nat"] by auto
qed

subsection \<open>Signed values\<close>

lemma toSigned_bounds:
  assumes "n < 2 ^ bits" and "0 < bits"
  shows "- (2 ^ (bits - 1)) \<le> toSigned bits n" and "toSigned bits n < 2 ^ (bits - 1)"
proof -
  have p: "(2::nat) ^ bits = 2 * 2 ^ (bits - 1)" "(2::int) ^ bits = 2 * 2 ^ (bits - 1)"
    using assms(2) by (simp_all add: power_eq_if)
  have "int n < 2 ^ bits" using assms(1) by (metis of_nat_less_numeral_power_cancel_iff)
  moreover have "2 * n < 2 ^ bits \<longleftrightarrow> int n < 2 ^ (bits - 1)"
    unfolding p(1) by (simp add: of_nat_less_numeral_power_cancel_iff)
  ultimately show "- (2 ^ (bits - 1)) \<le> toSigned bits n" "toSigned bits n < 2 ^ (bits - 1)"
    using p(2) by (auto simp: toSigned_def split: if_splits)
qed

lemma ofSigned_toSigned [simp]: "n < 2 ^ bits \<Longrightarrow> ofSigned bits (toSigned bits n) = n"
  by (simp add: ofSigned_def toSigned_def of_nat_less_numeral_power_cancel_iff nat_mod_as_int)

lemma ofSigned_less [simp]: "ofSigned bits i < 2 ^ bits"
proof -
  have "i mod 2 ^ bits < 2 ^ bits" by simp
  then show ?thesis
    unfolding ofSigned_def by (metis nat_less_iff of_nat_numeral of_nat_power pos_mod_sign zero_less_numeral zero_less_power)
qed

lemma toSigned_mod: "toSigned bits n mod 2 ^ bits = int n mod 2 ^ bits"
  by (simp add: toSigned_def)

lemma toSigned_nonneg: "2 * n < 2 ^ bits \<Longrightarrow> toSigned bits n = int n"
  by (simp add: toSigned_def)

lemma toSigned_ofSigned:
  assumes "0 < bits" and "- (2 ^ (bits - 1)) \<le> i" and "i < 2 ^ (bits - 1)"
  shows "toSigned bits (ofSigned bits i) = i"
proof -
  have p: "(2::nat) ^ bits = 2 * 2 ^ (bits - 1)" "(2::int) ^ bits = 2 * 2 ^ (bits - 1)"
    using assms(1) by (simp_all add: power_eq_if)
  define h :: int where "h = 2 ^ (bits - 1)"
  have h: "(2::int) ^ bits = 2 * h" "- h \<le> i" "i < h" using p(2) assms(2,3) by (simp_all add: h_def)
  have small: "2 * n < 2 ^ bits \<longleftrightarrow> int n < h" for n
  proof -
    have "2 * n < 2 ^ bits \<longleftrightarrow> n < 2 ^ (bits - 1)" unfolding p(1) by simp
    also have "\<dots> \<longleftrightarrow> int n < h" by (simp add: h_def of_nat_less_numeral_power_cancel_iff)
    finally show ?thesis .
  qed
  show ?thesis
  proof (cases "0 \<le> i")
    case True
    then have "i mod (2 * h) = i" using h by (intro mod_pos_pos_trivial) auto
    then show ?thesis using True h small [of "nat i"] by (simp add: ofSigned_def toSigned_def)
  next
    case False
    have "i mod (2 * h) = (i + 2 * h) mod (2 * h)" by simp
    also have "\<dots> = i + 2 * h" using False h by (intro mod_pos_pos_trivial) auto
    finally have "i mod (2 * h) = i + 2 * h" .
    then show ?thesis
      using False h small [of "nat (i + 2 * h)"] by (simp add: ofSigned_def toSigned_def)
  qed
qed

subsection \<open>What the operations compute\<close>

lemma evalBinary_simps [simp]:
  "evalBinary AddI bits a b = (a + b) mod 2 ^ bits"
  "evalBinary SubI bits a b = (a + 2 ^ bits - b) mod 2 ^ bits"
  "evalBinary MulI bits a b = (a * b) mod 2 ^ bits"
  "b < bits \<Longrightarrow> evalBinary ShLI bits a b = (a * 2 ^ b) mod 2 ^ bits"
  "b < bits \<Longrightarrow> evalBinary ShRUI bits a b = a div 2 ^ b"
  "b < bits \<Longrightarrow> evalBinary ShRSI bits a b = ofSigned bits (toSigned bits a div 2 ^ b)"
  "evalBinary AndI bits a b = a AND b"
  "evalBinary OrI bits a b = a OR b"
  "evalBinary XOrI bits a b = a XOR b"
  "evalBinary MulHUI bits a b = (a * b) div 2 ^ bits"
  by (simp_all add: evalBinary_def foldWaveBinaryConstants_def foldWaveAddSubMulConstants_def
      foldWaveShiftConstants_def foldWaveBitwiseConstants_def foldWaveDivRemConstants_def
      foldWaveMulHUIConstants_def)

lemma fold_divrem:
  "foldWaveBinaryConstants DivUI bits a b = (if b = 0 then None else Some (a div b))"
  "foldWaveBinaryConstants RemUI bits a b = (if b = 0 then None else Some (a mod b))"
  "foldWaveBinaryConstants DivSI bits a b =
     (if b = 0 \<or> (toSigned bits a = - (2 ^ bits div 2) \<and> toSigned bits b = -1) then None
      else Some (ofSigned bits (toSigned bits a sdiv toSigned bits b)))"
  "foldWaveBinaryConstants RemSI bits a b =
     (if b = 0 then None else Some (ofSigned bits (toSigned bits a smod toSigned bits b)))"
  by (simp_all add: foldWaveBinaryConstants_def foldWaveAddSubMulConstants_def
      foldWaveShiftConstants_def foldWaveBitwiseConstants_def foldWaveDivRemConstants_def
      foldWaveMulHUIConstants_def)

lemma sub_exact [eval_simps]:
  assumes "b \<le> a" and "a < 2 ^ bits"
  shows "(a + 2 ^ bits - b) mod 2 ^ bits = (a - b :: nat)"
proof -
  have "a + 2 ^ bits - b = (a - b) + 2 ^ bits" using assms(1) by linarith
  moreover have "a - b < 2 ^ bits" using assms(2) by linarith
  ultimately show ?thesis by (metis mod_add_self2 mod_less)
qed

lemma constantAttr_value: "constantAttr e = Some n \<Longrightarrow> evalExpr u env e = n"
  by (cases e) (auto simp: constantAttr_def)

subsection \<open>Folding is sound\<close>

definition foldValue :: "(nat \<Rightarrow> nat) \<Rightarrow> (nat \<Rightarrow> nat) \<Rightarrow> fold_result \<Rightarrow> nat" where
  "foldValue u env f = (case f of FoldToValue e \<Rightarrow> evalExpr u env e | FoldToAttr n \<Rightarrow> n)"

lemma foldToResultValue_value:
  "foldToResultValue v t = Some f \<Longrightarrow> foldValue u env f = evalExpr u env v"
  by (auto simp: foldToResultValue_def foldValue_def split: if_splits)

lemma toSigned_one:
  assumes "1 < (2 :: nat) ^ bits"
  shows "toSigned bits 1 = 1 \<or> (bits = 1 \<and> toSigned bits 1 = -1)"
proof (cases "bits = 1")
  case False
  then have "2 < (2::nat) ^ bits"
    using assms power_strict_increasing [of 1 bits "2::nat"] by (cases bits) auto
  then show ?thesis by (simp add: toSigned_def)
qed (simp add: toSigned_def)

lemma divsi_one:
  assumes "foldWaveBinaryConstants DivSI bits a 1 = Some v" and "a < 2 ^ bits" and "1 < (2::nat) ^ bits"
  shows "v = a"
proof -
  consider "toSigned bits 1 = 1" | "bits = 1" "toSigned bits 1 = -1" using toSigned_one [OF assms(3)] by blast
  then show ?thesis
  proof cases
    case 1
    have "toSigned bits a sdiv 1 = toSigned bits a" by (simp add: signed_divide_int_def mult_sgn_abs)
    then show ?thesis using assms 1 by (simp add: fold_divrem split: if_splits)
  next
    case 2
    have "a = 0 \<or> a = 1" using assms(2) 2(1) by auto
    then show ?thesis
      using assms(1) 2 by (auto simp: fold_divrem toSigned_def ofSigned_def signed_divide_int_def split: if_splits)
  qed
qed

lemma remsi_one:
  assumes "foldWaveBinaryConstants RemSI bits a 1 = Some v" and "1 < (2::nat) ^ bits"
  shows "v = 0"
proof -
  have "toSigned bits a smod toSigned bits 1 = 0"
    using toSigned_one [OF assms(2)] by (auto simp: signed_modulo_int_def signed_divide_int_def abs_sgn)
  then show ?thesis using assms by (simp add: fold_divrem ofSigned_def)
qed

subsection \<open>Identities\<close>

text \<open>
  The identities of a kind, one lemma for each group of kinds: what is known of the operands
  (\<open>identity_of\<close>) is that they fit the type, that the identity folder answers \<open>f\<close>, and that the
  operation has the value \<open>v\<close>.
\<close>

lemmas identity_defs = foldWaveBinaryIdentity_def foldWaveAddIdentity_def foldWaveSubIdentity_def
  foldWaveMulIdentity_def foldWaveShiftIdentity_def foldWaveAndIdentity_def
  foldWaveOrIdentity_def foldWaveXOrIdentity_def foldWaveDivRemIdentity_def

lemmas constant_fold_defs = foldWaveBinaryConstants_def foldWaveAddSubMulConstants_def
  foldWaveShiftConstants_def foldWaveBitwiseConstants_def foldWaveDivRemConstants_def
  foldWaveMulHUIConstants_def

definition identity_of ::
    "(nat \<Rightarrow> nat) \<Rightarrow> (nat \<Rightarrow> nat) \<Rightarrow> BinaryKind \<Rightarrow> wave_type \<Rightarrow> bool \<Rightarrow> expr \<Rightarrow> expr \<Rightarrow> fold_result \<Rightarrow> nat \<Rightarrow> bool" where
  "identity_of u env kind t same l r f v \<longleftrightarrow>
     foldWaveBinaryIdentity kind t same l r = Some f \<and> (same \<longrightarrow> l = r) \<and>
     evalExpr u env l < 2 ^ elementBits t \<and> evalExpr u env r < 2 ^ elementBits t \<and>
     foldWaveBinaryConstants kind (elementBits t) (evalExpr u env l) (evalExpr u env r) = Some v"

lemma identity_ofD:
  assumes "identity_of u env kind t same l r f v"
  shows "foldWaveBinaryIdentity kind t same l r = Some f" "same \<longrightarrow> l = r"
    "evalExpr u env l < 2 ^ elementBits t" "evalExpr u env r < 2 ^ elementBits t"
    "foldWaveBinaryConstants kind (elementBits t) (evalExpr u env l) (evalExpr u env r) = Some v"
    "v = evalBinary kind (elementBits t) (evalExpr u env l) (evalExpr u env r)"
  using assms by (simp_all add: identity_of_def evalBinary_def)

lemma foldValue_attr [simp]: "foldValue u env (FoldToAttr n) = n"
  by (simp add: foldValue_def)

lemma identity_arithmetic:
  assumes i: "identity_of u env kind t same l r f v" and k: "kind = AddI \<or> kind = SubI \<or> kind = MulI"
  shows "foldValue u env f = v"
proof -
  note c = constantAttr_value [of l _ u env] constantAttr_value [of r _ u env]
  note res = foldToResultValue_value [of _ t _ u env]
  from k consider "kind = AddI" | "kind = SubI" | "kind = MulI" by blast
  moreover have "0 < b" if "Suc 0 < 2 ^ b" for b using that by (cases b) auto
  ultimately show ?thesis
    using identity_ofD(1-4,6) [OF i]
    by cases (auto simp: identity_defs dest!: c res
        split: if_splits option.splits)
qed

lemma identity_shift:
  assumes i: "identity_of u env kind t same l r f v"
    and k: "kind = ShLI \<or> kind = ShRUI \<or> kind = ShRSI"
  shows "foldValue u env f = v"
proof -
  note c = constantAttr_value [of l _ u env] constantAttr_value [of r _ u env]
  note res = foldToResultValue_value [of _ t _ u env]
  from k consider "kind = ShLI" | "kind = ShRUI" | "kind = ShRSI" by blast
  then show ?thesis
    using identity_ofD(1,3-5) [OF i]
    by cases (auto simp: identity_defs constant_fold_defs dest!: c res split: if_splits option.splits)
qed

lemma identity_bitwise:
  assumes i: "identity_of u env kind t same l r f v" and k: "kind = AndI \<or> kind = OrI \<or> kind = XOrI"
  shows "foldValue u env f = v"
proof -
  note c = constantAttr_value [of l _ u env] constantAttr_value [of r _ u env]
  note b = identity_ofD(3,4) [OF i]
  note ones = and_ones [OF b(1)] and_ones [OF b(2)] or_ones [OF b(1)] or_ones [OF b(2)]
  note res = foldToResultValue_value [of _ t _ u env]
  from k consider "kind = AndI" | "kind = OrI" | "kind = XOrI" by blast
  then show ?thesis
    using identity_ofD(1-4,6) [OF i] ones
    by cases (auto simp: identity_defs isAllOnes_def and.commute or.commute
 dest!: c res split: if_splits option.splits)
qed

lemma identity_divrem:
  assumes i: "identity_of u env kind t same l r f v"
    and k: "kind = DivUI \<or> kind = DivSI \<or> kind = RemUI \<or> kind = RemSI"
  shows "foldValue u env f = v"
proof -
  note c = constantAttr_value [of l _ u env] constantAttr_value [of r _ u env]
  note res = foldToResultValue_value [of _ t _ u env]
  note one = divsi_one [of "elementBits t" "evalExpr u env l" v]
    remsi_one [of "elementBits t" "evalExpr u env l" v]
  from k consider (d) "kind = DivUI \<or> kind = RemUI" | (s) "kind = DivSI \<or> kind = RemSI" by blast
  then show ?thesis
  proof cases
    case d
    then show ?thesis
      using identity_ofD(1,5) [OF i]
      by (auto simp: identity_defs fold_divrem dest!: c res
          split: if_splits option.splits)
  next
    case s
    then show ?thesis
      using identity_ofD(1,3-5) [OF i] one
      by (auto simp: identity_defs dest!: c res
          split: if_splits option.splits)
  qed
qed

lemma identity_sound:
  assumes i: "identity_of u env kind t same l r f v"
  shows "foldValue u env f = v"
proof (cases kind)
  case MulHUI
  then show ?thesis using identity_ofD(1) [OF i] by (auto simp: identity_defs split: if_splits)
qed (use identity_arithmetic [OF i] identity_shift [OF i] identity_bitwise [OF i]
      identity_divrem [OF i] in simp_all)

text \<open>C15: Folding a binary operation (\<^verbatim>\<open>foldBinaryOp\<close>: the identities of all fourteen kinds,
  then the constants) is sound. Whenever the folder replaces an operation by one of its operands
  or by a constant, and the operation has a defined value \<open>v\<close> on the values of its operands, the
  replacement has the value \<open>v\<close>.\<close>

theorem fold_binary_sound:
  assumes f: "foldBinaryOp kind t same l r = Some f" and same: "same \<longrightarrow> l = r"
    and l: "evalExpr u env l < 2 ^ elementBits t" and r: "evalExpr u env r < 2 ^ elementBits t"
    and v: "foldWaveBinaryConstants kind (elementBits t) (evalExpr u env l) (evalExpr u env r) = Some v"
  shows "foldValue u env f = v"
proof (cases "foldWaveBinaryIdentity kind t same l r")
  case None
  then obtain a b where ab: "constantAttr l = Some a" "constantAttr r = Some b"
      "map_option FoldToAttr (foldWaveBinaryConstants kind (elementBits t) a b) = Some f"
    using f by (auto simp: foldBinaryOp_def split: option.splits)
  then show ?thesis
    using v constantAttr_value [OF ab(1), of u env] constantAttr_value [OF ab(2), of u env]
    by (auto simp: foldValue_def)
next
  case (Some g)
  then have "identity_of u env kind t same l r f v"
    using assms by (simp add: foldBinaryOp_def identity_of_def)
  then show ?thesis by (rule identity_sound)
qed

theorem fold_binary_sound_witness:
  "foldValue id (\<lambda>_. 41)
     (FoldToValue (Operand 0 (ScalarType (IntegerType 32)))) = 41"
proof -
  let ?t = "ScalarType (IntegerType 32)"
  have "foldBinaryOp AndI ?t False (Operand 0 ?t) (Constant ?t 4294967295) =
      Some (FoldToValue (Operand 0 ?t))"
    by (simp add: foldBinaryOp_def foldWaveBinaryIdentity_def foldWaveAddIdentity_def
        foldWaveSubIdentity_def foldWaveMulIdentity_def foldWaveShiftIdentity_def
        foldWaveAndIdentity_def constantAttr_def isAllOnes_def elementBits_def
        scalarElementType_def foldToResultValue_def)
  then show ?thesis
    by (rule fold_binary_sound)
      (simp_all add: elementBits_def scalarElementType_def foldWaveBinaryConstants_def
        foldWaveAddSubMulConstants_def foldWaveShiftConstants_def foldWaveBitwiseConstants_def)
qed

lemma convert_mod:
  assumes "k \<le> sourceBits" and "k \<le> resultBits"
  shows "foldWaveIntConvert sourceBits resultBits x n mod 2 ^ k = n mod 2 ^ k"
proof -
  have d: "(2::nat) ^ k dvd 2 ^ resultBits" "(2::int) ^ k dvd 2 ^ resultBits"
    "(2::int) ^ k dvd 2 ^ sourceBits"
    using assms by (simp_all add: le_imp_power_dvd)
  have "int (ofSigned resultBits (toSigned sourceBits n)) mod 2 ^ k = toSigned sourceBits n mod 2 ^ k"
    using d(2) by (simp add: ofSigned_def mod_mod_cancel)
  also have "\<dots> = toSigned sourceBits n mod 2 ^ sourceBits mod 2 ^ k"
    using d(3) by (simp add: mod_mod_cancel)
  also have "\<dots> = int n mod 2 ^ k" using d(3) by (simp add: toSigned_mod mod_mod_cancel)
  finally have "int (ofSigned resultBits (toSigned sourceBits n) mod 2 ^ k) = int (n mod 2 ^ k)"
    by (simp add: of_nat_mod)
  then have "ofSigned resultBits (toSigned sourceBits n) mod 2 ^ k = n mod 2 ^ k"
    by (simp only: of_nat_eq_iff)
  then show ?thesis using d(1) by (simp add: foldWaveIntConvert_def mod_mod_cancel)
qed

text \<open>C32: Folding an integer conversion (\<^verbatim>\<open>foldIntConvertOp\<close>) is sound. Whether it drops a
  conversion to the same type, cancels a narrowing of a widening, shortens a chain of conversions
  or computes a constant, the replacement has the value of the conversion for every source value
  that fits its type.\<close>

theorem fold_convert_sound:
  assumes f: "foldIntConvertOp t x source = Some f"
    and b: "evalExpr u env source < 2 ^ exprBits source"
    and inner: "\<forall>t' x' i. source = IntConvert t' x' i \<longrightarrow> evalExpr u env i < 2 ^ exprBits i"
  shows "foldValue u env f = evalExpr u env (IntConvert t x source)"
proof (cases "typeOf source = t")
  case True
  then show ?thesis using f by (auto simp: foldIntConvertOp_def foldValue_def foldWaveIntConvert_def)
next
  case False
  show ?thesis
  proof (cases "foldNarrowingIntConvert t x source")
    case None
    then obtain n where "constantAttr source = Some n"
        "f = FoldToAttr (foldWaveIntConvert (exprBits source) (elementBits t) x n)"
      using f False by (auto simp: foldIntConvertOp_def)
    then show ?thesis using constantAttr_value [of source n u env] by (simp add: foldValue_def exprBits_def)
  next
    case (Some e)
    then obtain t' x' i where s: "source = IntConvert t' x' i" and narrow: "elementBits t < elementBits t'"
      by (auto simp: foldNarrowingIntConvert_def exprBits_def split: if_splits expr.splits)
    have i: "evalExpr u env i < 2 ^ exprBits i" using inner s by blast
    have val: "evalExpr u env (IntConvert t x source) =
        foldWaveIntConvert (exprBits i) (elementBits t') x' (evalExpr u env i) mod 2 ^ elementBits t"
      using narrow by (simp add: s foldWaveIntConvert_def [of "elementBits t'"] exprBits_def)
    have fe: "foldValue u env f = evalExpr u env e"
      using f False Some by (auto simp: foldIntConvertOp_def foldValue_def)
    consider (same) "exprBits i = elementBits t" "e = i"
      | (shorter) "elementBits t < exprBits i" "e = IntConvert t x i"
      using Some narrow by (auto simp: s foldNarrowingIntConvert_def exprBits_def split: if_splits)
    then show ?thesis
    proof cases
      case same
      then show ?thesis
        using val fe i narrow convert_mod [of "elementBits t" "exprBits i" "elementBits t'" x'] by simp
    next
      case shorter
      then show ?thesis
        using val fe i narrow convert_mod [of "elementBits t" "exprBits i" "elementBits t'" x']
        by (simp add: foldWaveIntConvert_def [of "exprBits i" "elementBits t"] exprBits_def [symmetric])
    qed
  qed
qed

theorem fold_convert_sound_witness:
  "let i32 = ScalarType (IntegerType 32); i64 = ScalarType (IntegerType 64);
       e = IntConvert i64 (Some ExtendSign) (Operand 0 i32)
   in foldIntConvertOp i32 None e = Some (FoldToValue (Operand 0 i32)) \<and>
      evalExpr id (\<lambda>_. 7) (IntConvert i32 None e) = 7"
proof -
  let ?i32 = "ScalarType (IntegerType 32)" and ?i64 = "ScalarType (IntegerType 64)"
  let ?e = "IntConvert ?i64 (Some ExtendSign) (Operand 0 ?i32)"
  have f: "foldIntConvertOp ?i32 None ?e = Some (FoldToValue (Operand 0 ?i32))"
    by (simp add: foldIntConvertOp_def foldNarrowingIntConvert_def exprBits_def elementBits_def
        scalarElementType_def)
  have "foldValue id (\<lambda>_. 7) (FoldToValue (Operand 0 ?i32)) =
      evalExpr id (\<lambda>_. 7) (IntConvert ?i32 None ?e)"
    by (rule fold_convert_sound [OF f])
      (simp_all add: exprBits_def elementBits_def scalarElementType_def foldWaveIntConvert_def ofSigned_def toSigned_def)
  then show ?thesis using f by (simp add: foldValue_def)
qed

end
