(* ===== verification/Int_Div.thy ===== *)
theory Int_Div
  imports Wave_Fold
begin

text \<open>
  The expansion of integer division and remainder,
  \<^verbatim>\<open>lib/Dialect/Wave/Transforms/WaveExpandIntegerDivRem.cpp\<close>. A function that builds operations
  is a function that builds the expression of the value it returns. \<open>magics\<close> stands for
  \<^verbatim>\<open>llvm::UnsignedDivisionByConstantInfo::get\<close> of LLVM (a parameter: bit width and divisor to
  the magic data). The questions to the range analysis and to the symbolic store are the record
  \<open>proofs\<close>: what the functions \<^verbatim>\<open>isProven...\<close> of this file answer for a value; these functions
  (lines 375 to 800) are taken as a parameter. Constants are naturals: \<^verbatim>\<open>createConstantLike\<close> and
  the bits of the restoring division are \<^verbatim>\<open>uint64_t\<close> in the code, which is the same up to 64-bit
  elements, and the pass rejects wider ones before it builds anything.
\<close>

subsection \<open>Constants and types\<close>

record div_rem_values =
  dr_quotient :: expr
  dr_remainder :: expr

definition isDivRem :: "BinaryKind \<Rightarrow> bool" where
  "isDivRem kind \<longleftrightarrow> kind = DivUI \<or> kind = DivSI \<or> kind = RemUI \<or> kind = RemSI"

definition isSignedDivRem :: "BinaryKind \<Rightarrow> bool" where
  "isSignedDivRem kind \<longleftrightarrow> kind = DivSI \<or> kind = RemSI"

definition signedI32Max :: int where
  "signedI32Max = 2147483647"

definition signedI32Min :: int where
  "signedI32Min = - 2147483648"

definition i32Like :: "wave_type \<Rightarrow> wave_type" where
  "i32Like type =
     (case type of SimdType _ w \<Rightarrow> SimdType (IntegerType 32) w | _ \<Rightarrow> ScalarType (IntegerType 32))"

definition canNarrowDivRemTypeToI32 :: "wave_type \<Rightarrow> bool" where
  "canNarrowDivRemTypeToI32 type \<longleftrightarrow>
     scalarElementType type = IndexType \<or> scalarElementType type = IntegerType 64"

definition maskToBits :: "nat \<Rightarrow> nat \<Rightarrow> nat" where
  "maskToBits value bits = (if bits = 64 then value else value AND (2 ^ bits - 1))"

definition sextOrTrunc :: "nat \<Rightarrow> nat \<Rightarrow> nat \<Rightarrow> nat" where
  "sextOrTrunc fromBits toBits n =
     (if toBits \<le> fromBits then n mod 2 ^ toBits else ofSigned toBits (toSigned fromBits n))"

fun getConstantAPInt :: "expr \<Rightarrow> nat \<Rightarrow> nat option" where
  "getConstantAPInt (Splat _ source) bits = getConstantAPInt source bits"
| "getConstantAPInt (Constant t n) bits = Some (sextOrTrunc (elementBits t) bits n)"
| "getConstantAPInt _ bits = None"

definition createScalarConstant :: "elem_type \<Rightarrow> nat \<Rightarrow> expr" where
  "createScalarConstant type raw =
     Constant (ScalarType type) (maskToBits raw (elementBits (ScalarType type)))"

definition createConstantLike :: "wave_type \<Rightarrow> nat \<Rightarrow> expr" where
  "createConstantLike type raw =
     (case type of
        SimdType e w \<Rightarrow> Splat type (createScalarConstant e raw)
      | _ \<Rightarrow> createScalarConstant (scalarElementType type) raw)"

definition asType :: "expr \<Rightarrow> wave_type \<Rightarrow> expr" where
  "asType value type =
     (if typeOf value = type then value
      else case type of
        SimdType e w \<Rightarrow> if typeOf value = ScalarType e then Splat type value else value
      | _ \<Rightarrow> value)"

definition createNeg :: "wave_type \<Rightarrow> expr \<Rightarrow> expr" where
  "createNeg type value = Binary type SubI (createConstantLike type 0) value"

definition createCompare :: "CmpIPredicate \<Rightarrow> expr \<Rightarrow> expr \<Rightarrow> wave_type \<Rightarrow> expr" where
  "createCompare predicate lhs rhs valueType =
     (case valueType of
        SimdType _ _ \<Rightarrow> CmpI valueType predicate (asType lhs valueType) (asType rhs valueType)
      | _ \<Rightarrow> CmpI valueType predicate lhs rhs)"

definition createSelect :: "wave_type \<Rightarrow> expr \<Rightarrow> expr \<Rightarrow> expr \<Rightarrow> expr" where
  "createSelect type condition trueValue falseValue =
     Select type condition (asType trueValue type) (asType falseValue type)"

definition createShiftAmount :: "wave_type \<Rightarrow> nat \<Rightarrow> expr" where
  "createShiftAmount type amount = createScalarConstant (scalarElementType type) amount"

definition createURecip :: "wave_type \<Rightarrow> expr \<Rightarrow> expr" where
  "createURecip type value = URecip type (asType value type)"

subsection \<open>Division by a constant\<close>

definition createUMulHi :: "wave_type \<Rightarrow> expr \<Rightarrow> nat \<Rightarrow> bool \<Rightarrow> expr" where
  "createUMulHi type value multiplier useNativeI32MulHi =
     (let bits = elementBits type in
      if useNativeI32MulHi \<and> bits = 32
      then Binary type MulHUI value (createScalarConstant (scalarElementType type) multiplier)
      else
        let halfBits = bits div 2;
            halfMask = 2 ^ halfBits - 1;
            mask = createScalarConstant (scalarElementType type) halfMask;
            shift = createShiftAmount type halfBits;
            x0 = Binary type AndI value mask;
            x1 = Binary type ShRUI value shift;
            m0 = createScalarConstant (scalarElementType type) (multiplier AND halfMask);
            m1 = createScalarConstant (scalarElementType type) (multiplier div 2 ^ halfBits);
            p00 = Binary type MulI x0 m0;
            p01 = Binary type MulI x0 m1;
            p10 = Binary type MulI x1 m0;
            p11 = Binary type MulI x1 m1;
            p00Hi = Binary type ShRUI p00 shift;
            p01Lo = Binary type AndI p01 mask;
            p10Lo = Binary type AndI p10 mask;
            middle = Binary type AddI (Binary type AddI p00Hi p01Lo) p10Lo;
            hi = Binary type AddI (Binary type AddI p11 (Binary type ShRUI p01 shift))
                   (Binary type ShRUI p10 shift)
        in Binary type AddI hi (Binary type ShRUI middle shift))"

record magic_info =
  mg_magic :: nat
  mg_isAdd :: bool
  mg_preShift :: nat
  mg_postShift :: nat

definition createUnsignedMagicQuotient ::
    "(nat \<Rightarrow> nat \<Rightarrow> magic_info) \<Rightarrow> wave_type \<Rightarrow> expr \<Rightarrow> nat \<Rightarrow> bool \<Rightarrow> expr" where
  "createUnsignedMagicQuotient magics type numerator divisor useNativeI32MulHi =
     (let bits = elementBits type;
          mg = magics bits (maskToBits divisor bits);
          q0 = (if mg_preShift mg \<noteq> 0
                then Binary type ShRUI numerator (createShiftAmount type (mg_preShift mg))
                else numerator);
          q1 = createUMulHi type q0 (mg_magic mg) useNativeI32MulHi;
          q2 = (if mg_isAdd mg
                then let npq = Binary type ShRUI (Binary type SubI numerator q1)
                                 (createShiftAmount type 1)
                     in Binary type AddI npq q1
                else q1)
      in if mg_postShift mg \<noteq> 0
         then Binary type ShRUI q2 (createShiftAmount type (mg_postShift mg))
         else q2)"

definition isPowerOf2 :: "nat \<Rightarrow> bool" where
  "isPowerOf2 n \<longleftrightarrow> n \<noteq> 0 \<and> n AND (n - 1) = 0"

text \<open>\<^verbatim>\<open>llvm::Log2_64\<close>: the position of the highest bit.\<close>

fun log2Floor :: "nat \<Rightarrow> nat" where
  "log2Floor n = (if n \<le> 1 then 0 else Suc (log2Floor (n div 2)))"

declare log2Floor.simps [simp del]

definition tryCreateUnsignedConstDivRem ::
    "(nat \<Rightarrow> nat \<Rightarrow> magic_info) \<Rightarrow> wave_type \<Rightarrow> expr \<Rightarrow> nat \<Rightarrow> bool \<Rightarrow> div_rem_values option" where
  "tryCreateUnsignedConstDivRem magics type numerator rawDivisor useNativeI32MulHi =
     (let bits = elementBits type;
          divisor = maskToBits rawDivisor bits
      in if divisor = 0 then None
         else if divisor = 1
         then Some \<lparr>dr_quotient = numerator, dr_remainder = createConstantLike type 0\<rparr>
         else if isPowerOf2 divisor
         then Some \<lparr>dr_quotient = Binary type ShRUI numerator (createShiftAmount type (log2Floor divisor)),
                    dr_remainder = Binary type AndI numerator
                      (createScalarConstant (scalarElementType type) (divisor - 1))\<rparr>
         else let quotient = createUnsignedMagicQuotient magics type numerator divisor useNativeI32MulHi;
                  scaled = Binary type MulI quotient
                    (createScalarConstant (scalarElementType type) divisor)
              in Some \<lparr>dr_quotient = quotient, dr_remainder = Binary type SubI numerator scaled\<rparr>)"

subsection \<open>Division by a value\<close>

definition restoringStep :: "wave_type \<Rightarrow> expr \<Rightarrow> expr \<Rightarrow> nat \<Rightarrow> expr \<times> expr \<Rightarrow> expr \<times> expr" where
  "restoringStep type numerator divisor bit_index = (\<lambda>(quotient, remainder).
     let one = createScalarConstant (scalarElementType type) 1;
         nextBit = Binary type AndI
           (Binary type ShRUI numerator (createShiftAmount type bit_index)) one;
         remainder1 = Binary type OrI
           (Binary type ShLI remainder (createShiftAmount type 1)) nextBit;
         reduced = Binary type SubI remainder1 divisor;
         withBit = Binary type OrI quotient (createConstantLike type (2 ^ bit_index));
         take = createCompare CmpUge remainder1 divisor type
     in (createSelect type take withBit quotient, createSelect type take reduced remainder1))"

definition createUnsignedRestoringDivRem :: "wave_type \<Rightarrow> expr \<Rightarrow> expr \<Rightarrow> div_rem_values" where
  "createUnsignedRestoringDivRem type numerator divisor =
     (let (q, r) = fold (restoringStep type numerator divisor) (rev [0 ..< elementBits type])
                     (createConstantLike type 0, createConstantLike type 0)
      in \<lparr>dr_quotient = q, dr_remainder = r\<rparr>)"

definition correctionStep :: "wave_type \<Rightarrow> expr \<Rightarrow> expr \<times> expr \<Rightarrow> expr \<times> expr" where
  "correctionStep type divisor = (\<lambda>(quotient, remainder).
     let incrementedQuotient = Binary type AddI quotient (createConstantLike type 1);
         reducedRemainder = Binary type SubI remainder divisor;
         take = createCompare CmpUge remainder divisor type
     in (createSelect type take incrementedQuotient quotient,
         createSelect type take reducedRemainder remainder))"

definition createUnsignedI32DivRem :: "wave_type \<Rightarrow> expr \<Rightarrow> expr \<Rightarrow> div_rem_values" where
  "createUnsignedI32DivRem type numerator divisor =
     (let z0 = createURecip type divisor;
          negDivisor = createNeg type divisor;
          negYZ = Binary type MulI negDivisor z0;
          z = Binary type AddI z0 (Binary type MulHUI z0 negYZ);
          quotient = Binary type MulHUI numerator z;
          remainder = Binary type SubI numerator (Binary type MulI quotient divisor);
          (q, r) = (correctionStep type divisor ^^ 2) (quotient, remainder)
      in \<lparr>dr_quotient = q, dr_remainder = r\<rparr>)"

definition createUnsignedDivRem ::
    "(nat \<Rightarrow> nat \<Rightarrow> magic_info) \<Rightarrow> wave_type \<Rightarrow> expr \<Rightarrow> expr \<Rightarrow> bool \<Rightarrow> div_rem_values" where
  "createUnsignedDivRem magics type numerator0 divisor0 useNativeI32ConstMulHi =
     (let numerator = asType numerator0 type;
          divisor = asType divisor0 type;
          general = (if elementBits type = 32 then createUnsignedI32DivRem type numerator divisor
                     else createUnsignedRestoringDivRem type numerator divisor)
      in case getConstantAPInt divisor (elementBits type) of
           None \<Rightarrow> general
         | Some c \<Rightarrow>
             (case tryCreateUnsignedConstDivRem magics type numerator c useNativeI32ConstMulHi of
                Some result \<Rightarrow> result
              | None \<Rightarrow> general))"

subsection \<open>Signed division\<close>

definition signedAbs :: "nat \<Rightarrow> nat \<Rightarrow> nat" where
  "signedAbs bits value = (if toSigned bits value < 0 then 2 ^ bits - value else value)"

definition tryCreateSignedPositivePow2Value ::
    "wave_type \<Rightarrow> BinaryKind \<Rightarrow> expr \<Rightarrow> nat \<Rightarrow> expr option" where
  "tryCreateSignedPositivePow2Value type kind lhs rhsConst =
     (if toSigned (elementBits type) rhsConst \<le> 0 then None
      else if \<not> isPowerOf2 rhsConst then None
      else
        let zero = createConstantLike type 0
        in if rhsConst = 1 then Some (if kind = DivSI then asType lhs type else zero)
           else
             let lhsNeg = createCompare CmpSlt lhs zero type;
                 bias = createSelect type lhsNeg (createConstantLike type (rhsConst - 1)) zero;
                 shift = log2Floor rhsConst;
                 adjusted = Binary type AddI lhs bias;
                 quotient = Binary type ShRSI adjusted (createShiftAmount type shift)
             in if kind = DivSI then Some quotient
                else Some (Binary type SubI lhs
                       (Binary type ShLI quotient (createShiftAmount type shift))))"

definition createSignedDivRem ::
    "(nat \<Rightarrow> nat \<Rightarrow> magic_info) \<Rightarrow> wave_type \<Rightarrow> expr \<Rightarrow> expr \<Rightarrow> bool \<Rightarrow> div_rem_values" where
  "createSignedDivRem magics type lhs0 rhs0 divisorPositive =
     (let lhs = asType lhs0 type;
          rhs = asType rhs0 type;
          bits = elementBits type;
          signShift = createShiftAmount type (bits - 1);
          lhsSign = Binary type ShRSI lhs signShift;
          absLhs = Binary type SubI (Binary type XOrI lhs lhsSign) lhsSign;
          rhsConst = getConstantAPInt rhs bits;
          (absRhs, quotientSign) =
            (if divisorPositive then (rhs, lhsSign)
             else case rhsConst of
               Some c \<Rightarrow>
                 (createConstantLike type (signedAbs bits c),
                  if toSigned bits c < 0
                  then Binary type XOrI lhsSign (createConstantLike type (2 ^ 64 - 1))
                  else lhsSign)
             | None \<Rightarrow>
                 let rhsSign = Binary type ShRSI rhs signShift
                 in (Binary type SubI (Binary type XOrI rhs rhsSign) rhsSign,
                     Binary type XOrI lhsSign rhsSign));
          unsignedResult = createUnsignedDivRem magics type absLhs absRhs (rhsConst \<noteq> None)
      in \<lparr>dr_quotient = Binary type SubI
            (Binary type XOrI (dr_quotient unsignedResult) quotientSign) quotientSign,
          dr_remainder = Binary type SubI
            (Binary type XOrI (dr_remainder unsignedResult) lhsSign) lhsSign\<rparr>)"

subsection \<open>Using what is known of the operands\<close>

record proofs =
  pf_signedLowerBound :: "expr \<Rightarrow> int \<Rightarrow> bool"
  pf_signedI32Range :: "expr \<Rightarrow> int \<Rightarrow> bool"
  pf_positivePow2 :: "expr \<Rightarrow> bool"

definition isProvenNonNegative :: "proofs \<Rightarrow> expr \<Rightarrow> bool" where
  "isProvenNonNegative pf value = pf_signedLowerBound pf value 0"

definition isProvenPositive :: "proofs \<Rightarrow> expr \<Rightarrow> bool" where
  "isProvenPositive pf value = pf_signedLowerBound pf value 1"

definition tryCreateDynamicPow2Value ::
    "proofs \<Rightarrow> wave_type \<Rightarrow> BinaryKind \<Rightarrow> expr \<Rightarrow> expr \<Rightarrow> expr \<Rightarrow> expr \<Rightarrow> expr option" where
  "tryCreateDynamicPow2Value pf type kind lhs rhs lhsProof rhsProof =
     (if getConstantAPInt rhsProof (elementBits type) \<noteq> None then None
      else if \<not> pf_positivePow2 pf rhsProof then None
      else if isSignedDivRem kind \<and> \<not> isProvenNonNegative pf lhsProof then None
      else if kind = DivUI \<or> kind = DivSI
      then let shiftSource = (case rhs of Splat _ source \<Rightarrow> source | _ \<Rightarrow> rhs)
           in Some (Binary type ShRUI (asType lhs type) (Ctz shiftSource))
      else Some (Binary type AndI lhs
             (Binary type SubI (asType rhs type) (createConstantLike type 1))))"

definition createI32View :: "expr \<Rightarrow> expr" where
  "createI32View value =
     (case getConstantAPInt value (exprBits value) of
        Some c \<Rightarrow> createConstantLike (i32Like (typeOf value)) c
      | None \<Rightarrow> IntConvert (i32Like (typeOf value)) None value)"

definition createNarrowDivRem ::
    "(nat \<Rightarrow> nat \<Rightarrow> magic_info) \<Rightarrow> proofs \<Rightarrow> BinaryKind \<Rightarrow> expr \<Rightarrow> expr \<Rightarrow> expr \<Rightarrow> expr \<Rightarrow>
     (expr \<times> CastExtension) option" where
  "createNarrowDivRem magics pf kind opLhs opRhs lhs rhs =
     (let i32 = typeOf lhs
      in if pf_signedI32Range pf opLhs 0 \<and> pf_signedI32Range pf opRhs 0
         then (case tryCreateDynamicPow2Value pf i32 kind lhs rhs opLhs opRhs of
                 Some pow2 \<Rightarrow> Some (pow2, ExtendZero)
               | None \<Rightarrow>
                   let res = createUnsignedDivRem magics i32 lhs rhs False
                   in Some (if kind = DivUI \<or> kind = DivSI then dr_quotient res
                            else dr_remainder res, ExtendZero))
         else if \<not> isSignedDivRem kind \<or> \<not> pf_signedI32Range pf opLhs signedI32Min \<or>
                 \<not> pf_signedI32Range pf opRhs signedI32Min
         then None
         else let res = createSignedDivRem magics i32 lhs rhs (isProvenPositive pf opRhs)
              in Some (if kind = DivSI then dr_quotient res else dr_remainder res, ExtendSign))"

text \<open>
  The users of the operation, as the narrowed expansion sees them: an identity, whether the user
  is a cast of kind \<^verbatim>\<open>IntConvert\<close>, and the type of its result. \<^verbatim>\<open>replaceNarrowingUsers\<close> replaces the
  conversions to 32-bit elements by the narrowed value itself: the pairs of a replaced user and
  its replacement.
\<close>

record result_user =
  ru_id :: nat
  ru_isIntConvert :: bool
  ru_type :: wave_type

definition replaceNarrowingUsers :: "result_user list \<Rightarrow> expr \<Rightarrow> (nat \<times> expr) list" where
  "replaceNarrowingUsers users replacement =
     map (\<lambda>user. (ru_id user, replacement))
       (filter (\<lambda>user. ru_isIntConvert user \<and> elementBits (ru_type user) = 32) users)"

definition tryExpandIndexDivRemAsI32 ::
    "(nat \<Rightarrow> nat \<Rightarrow> magic_info) \<Rightarrow> proofs \<Rightarrow> wave_type \<Rightarrow> BinaryKind \<Rightarrow> expr \<Rightarrow> expr \<Rightarrow>
     result_user list \<Rightarrow> (expr \<times> (nat \<times> expr) list) option" where
  "tryExpandIndexDivRemAsI32 magics pf type kind lhs rhs users =
     (if \<not> canNarrowDivRemTypeToI32 type then None
      else map_option (\<lambda>(value, extension).
               (IntConvert type (Some extension) value, replaceNarrowingUsers users value))
             (createNarrowDivRem magics pf kind lhs rhs (createI32View lhs) (createI32View rhs)))"

definition tryCreateSignedAsUnsignedValue ::
    "(nat \<Rightarrow> nat \<Rightarrow> magic_info) \<Rightarrow> proofs \<Rightarrow> wave_type \<Rightarrow> BinaryKind \<Rightarrow> expr \<Rightarrow> expr \<Rightarrow> expr option" where
  "tryCreateSignedAsUnsignedValue magics pf type kind lhs rhs =
     (if \<not> isSignedDivRem kind \<or> \<not> isProvenNonNegative pf lhs \<or> \<not> isProvenPositive pf rhs then None
      else let res = createUnsignedDivRem magics type lhs rhs True
           in Some (if kind = DivSI then dr_quotient res else dr_remainder res))"

definition tryCreateSignedConstPow2Value :: "wave_type \<Rightarrow> BinaryKind \<Rightarrow> expr \<Rightarrow> expr \<Rightarrow> expr option" where
  "tryCreateSignedConstPow2Value type kind lhs rhs =
     (if \<not> isSignedDivRem kind then None
      else case getConstantAPInt rhs (elementBits type) of
        None \<Rightarrow> None
      | Some c \<Rightarrow> tryCreateSignedPositivePow2Value type kind lhs c)"

text \<open>\<^verbatim>\<open>expandDivRem\<close>: the replacement of the operation, and the users replaced on the way.\<close>

definition expandDivRem ::
    "(nat \<Rightarrow> nat \<Rightarrow> magic_info) \<Rightarrow> proofs \<Rightarrow> wave_type \<Rightarrow> BinaryKind \<Rightarrow> expr \<Rightarrow> expr \<Rightarrow>
     result_user list \<Rightarrow> expr \<times> (nat \<times> expr) list" where
  "expandDivRem magics pf type kind lhs rhs users =
     (case tryExpandIndexDivRemAsI32 magics pf type kind lhs rhs users of
        Some narrow \<Rightarrow> narrow
      | None \<Rightarrow>
          (case firstSome [tryCreateDynamicPow2Value pf type kind lhs rhs lhs rhs,
                           tryCreateSignedAsUnsignedValue magics pf type kind lhs rhs,
                           tryCreateSignedConstPow2Value type kind lhs rhs] of
             Some value \<Rightarrow> (value, [])
           | None \<Rightarrow>
               let res = (if isSignedDivRem kind
                          then createSignedDivRem magics type lhs rhs (isProvenPositive pf rhs)
                          else createUnsignedDivRem magics type lhs rhs False)
               in (if kind = DivUI \<or> kind = DivSI then dr_quotient res else dr_remainder res, [])))"

text \<open>\<^verbatim>\<open>WaveNormalizeIntegerDivRemPass\<close> on one operation.\<close>

definition normalizeDivRem :: "proofs \<Rightarrow> BinaryKind \<Rightarrow> expr \<Rightarrow> expr \<Rightarrow> BinaryKind" where
  "normalizeDivRem pf kind lhs rhs =
     (if \<not> isSignedDivRem kind \<or> \<not> isProvenNonNegative pf lhs \<or> \<not> isProvenPositive pf rhs then kind
      else if kind = DivSI then DivUI else RemUI)"

text \<open>
  \<^verbatim>\<open>WaveExpandIntegerDivRemPass\<close> on the operations of a function: an element of more than 64
  bits is an error, otherwise every operation is expanded, the last one first.
\<close>

definition expandIntegerDivRemPass ::
    "(nat \<Rightarrow> nat \<Rightarrow> magic_info) \<Rightarrow> proofs \<Rightarrow>
     (wave_type \<times> BinaryKind \<times> expr \<times> expr \<times> result_user list) list \<Rightarrow>
     (expr \<times> (nat \<times> expr) list) list result" where
  "expandIntegerDivRemPass magics pf ops =
     (let divs = filter (\<lambda>(t, kind, l, r, users). isDivRem kind) ops
      in if list_ex (\<lambda>(t, kind, l, r, users). elementBits t > 64) divs then Inl Failure
         else Inr (map (\<lambda>(t, kind, l, r, users). expandDivRem magics pf t kind l r users) (rev divs)))"

end
