(* ===== verification/Wave_Typing.thy ===== *)
theory Wave_Typing
  imports Wave_Fold
begin

text \<open>
  The verifiers of the operations of an expression (\<^verbatim>\<open>SplatOp\<close>, \<^verbatim>\<open>CmpIOp\<close>, \<^verbatim>\<open>SelectOp\<close>,
  \<^verbatim>\<open>URecipOp\<close>, \<^verbatim>\<open>CtzOp\<close> and \<^verbatim>\<open>CastOp::verify\<close> of \<^verbatim>\<open>Wave.cpp\<close>; scalar comparisons are
  \<^verbatim>\<open>arith.cmpi\<close>, whose operands have one type) and the expressions all of whose operations
  pass them.
\<close>

definition isMaskType :: "wave_type \<Rightarrow> bool" where
  "isMaskType type = (case type of MaskType _ \<Rightarrow> True | _ \<Rightarrow> False)"

lemma isMaskType_iff [simp]: "isMaskType t \<longleftrightarrow> (\<exists>w. t = MaskType w)"
  by (cases t) (simp_all add: isMaskType_def)

definition verifySplatOp :: "wave_type \<Rightarrow> wave_type \<Rightarrow> bool" where
  "verifySplatOp res source \<longleftrightarrow>
     (case res of SimdType e _ \<Rightarrow> source = ScalarType e | _ \<Rightarrow> False)"

definition verifyCmpIOp :: "wave_type \<Rightarrow> wave_type \<Rightarrow> wave_type \<Rightarrow> bool" where
  "verifyCmpIOp valueType lhs rhs \<longleftrightarrow> lhs = valueType \<and> rhs = valueType"

definition verifySelectOp :: "wave_type \<Rightarrow> wave_type \<Rightarrow> bool" where
  "verifySelectOp res condition =
     (if condition = ScalarType (IntegerType 1) then True
      else case condition of
        MaskType w \<Rightarrow>
          (case res of SimdType _ v \<Rightarrow> v = w | MaskType v \<Rightarrow> v = w | ScalarType _ \<Rightarrow> False)
      | _ \<Rightarrow> False)"

definition verifyURecipOp :: "wave_type \<Rightarrow> wave_type \<Rightarrow> bool" where
  "verifyURecipOp source res \<longleftrightarrow>
     source = res \<and> \<not> isMaskType source \<and> scalarElementType source = IntegerType 32"

definition verifyCtzOp :: "wave_type \<Rightarrow> bool" where
  "verifyCtzOp type =
     (case type of
        MaskType _ \<Rightarrow> False
      | _ \<Rightarrow> List.member [IndexType, IntegerType 32, IntegerType 64] (scalarElementType type))"

definition simdWidthOf :: "wave_type \<Rightarrow> nat option" where
  "simdWidthOf type = (case type of SimdType _ w \<Rightarrow> Some w | _ \<Rightarrow> None)"

definition verifyIntConvertOp :: "wave_type \<Rightarrow> wave_type \<Rightarrow> CastExtension option \<Rightarrow> bool" where
  "verifyIntConvertOp source res extension \<longleftrightarrow>
     \<not> isMaskType source \<and> \<not> isMaskType res \<and>
     simdWidthOf source = simdWidthOf res \<and> verifyWaveCastExtensionPolicy source res extension"

fun wellTyped :: "expr \<Rightarrow> bool" where
  "wellTyped (Operand i t) \<longleftrightarrow> True"
| "wellTyped (Constant t n) \<longleftrightarrow> n < 2 ^ elementBits t"
| "wellTyped (Splat t e) \<longleftrightarrow> wellTyped e \<and> verifySplatOp t (typeOf e)"
| "wellTyped (Binary t k l r) \<longleftrightarrow>
     wellTyped l \<and> wellTyped r \<and> verifyBinaryOp k False t (typeOf l) (typeOf r)"
| "wellTyped (CmpI t p l r) \<longleftrightarrow>
     wellTyped l \<and> wellTyped r \<and> verifyCmpIOp t (typeOf l) (typeOf r)"
| "wellTyped (Select t c a b) \<longleftrightarrow>
     wellTyped c \<and> wellTyped a \<and> wellTyped b \<and> typeOf a = t \<and> typeOf b = t \<and>
     verifySelectOp t (typeOf c)"
| "wellTyped (URecip t e) \<longleftrightarrow> wellTyped e \<and> verifyURecipOp (typeOf e) t"
| "wellTyped (Ctz e) \<longleftrightarrow> wellTyped e \<and> verifyCtzOp (typeOf e)"
| "wellTyped (IntConvert t x e) \<longleftrightarrow> wellTyped e \<and> verifyIntConvertOp (typeOf e) t x"

lemma verifySplatOp_simps [simp]:
  "verifySplatOp (SimdType e w) s \<longleftrightarrow> s = ScalarType e" "\<not> verifySplatOp (ScalarType e) s"
  "\<not> verifySplatOp (MaskType w) s"
  by (simp_all add: verifySplatOp_def)

lemma verifySplatOp_bits: "verifySplatOp t s \<Longrightarrow> elementBits t = elementBits s"
  by (cases t) (auto simp: elementBits_def scalarElementType_def)

text \<open>A binary operation on a typed pair of operands: same elements, SIMD if one operand is.\<close>

lemma verifyBinaryOp_same [simp]:
  "t = ScalarType e \<or> t = SimdType e w \<Longrightarrow> verifyBinaryOp k False t t t"
  by (auto simp: verifyBinaryOp_def classifyWaveBinaryOperand_def verifyWaveBinaryResult_def)

lemma verifyBinaryOp_scalar [simp]:
  "(\<forall>w. t \<noteq> MaskType w) \<Longrightarrow> verifyBinaryOp k False t t (ScalarType (scalarElementType t))"
  by (cases t) (simp_all add: verifyBinaryOp_def classifyWaveBinaryOperand_def
      verifyWaveBinaryResult_def scalarElementType_def)

end
