(* ===== verification/Int_Div_Unsigned.thy ===== *)
theory Int_Div_Unsigned
  imports Int_Div Wave_Typing
begin

text \<open>
  The unsigned division expansions compute quotient and remainder: the high half of a product
  from four half-width products, division by a constant with LLVM's magic numbers, restoring
  division at every width, and the 32-bit division from a reciprocal estimate. \<open>magic_ok\<close>
  states what magic numbers satisfy (Hacker's Delight, 10-9: the error of the scaled reciprocal
  times the greatest numerator with the greatest remainder stays below the scale), and
  \<open>reciprocal_estimate\<close> how close the estimate of the machine is.
\<close>

subsection \<open>Values of the building blocks\<close>

lemma maskToBits_small: "raw < 2 ^ bits \<Longrightarrow> maskToBits raw bits = raw"
  using and_ones [of raw bits] by (simp add: maskToBits_def)

lemma elementBits_scalar [simp]: "elementBits (ScalarType (scalarElementType t)) = elementBits t"
  by (simp add: elementBits_def scalarElementType_def)

lemma eval_scalarConstant:
  "raw < 2 ^ elementBits t \<Longrightarrow>
   evalExpr u env (createScalarConstant (scalarElementType t) raw) = raw"
  by (simp add: createScalarConstant_def maskToBits_small)

lemma eval_constantLike:
  "raw < 2 ^ elementBits t \<Longrightarrow> evalExpr u env (createConstantLike t raw) = raw"
  using eval_scalarConstant [of raw t u env]
  by (auto simp: createConstantLike_def scalarElementType_def split: wave_type.splits)

lemma eval_shiftAmount:
  assumes "n < elementBits t"
  shows "evalExpr u env (createShiftAmount t n) = n"
proof -
  have "n < 2 ^ elementBits t" using assms less_exp [of n] by (meson less_trans less_exp)
  then show ?thesis by (simp add: createShiftAmount_def eval_scalarConstant)
qed

lemma eval_asType [simp]: "evalExpr u env (asType v t) = evalExpr u env v"
  by (simp add: asType_def split: wave_type.split)

lemma eval_compare [simp]:
  "evalExpr u env (createCompare p l r t) =
   evalCmp p (elementBits t) (evalExpr u env l) (evalExpr u env r)"
  by (simp add: createCompare_def split: wave_type.split)

lemma eval_select [simp]:
  "evalExpr u env (createSelect t c a b) =
   (if evalExpr u env c \<noteq> 0 then evalExpr u env a else evalExpr u env b)"
  by (simp add: createSelect_def)

lemma evalCmp_uge [simp]: "evalCmp CmpUge bits a b \<noteq> 0 \<longleftrightarrow> b \<le> a" "evalCmp CmpUge bits a b = 0 \<longleftrightarrow> a < b"
  by (auto simp: evalCmp_def)

lemma pos_two_power: "0 < bits \<Longrightarrow> (1::nat) < 2 ^ bits"
  by (metis one_less_numeral_iff one_less_power semiring_norm(76))

subsection \<open>The high half of a product\<close>

lemma mul_hi_halves:
  fixes x m B :: nat
  assumes B: "2 \<le> B" and x: "x < B * B" and m: "m < B * B"
  defines "x0 \<equiv> x mod B" and "x1 \<equiv> x div B" and "m0 \<equiv> m mod B" and "m1 \<equiv> m div B"
  defines "mid \<equiv> (x0 * m0) div B + (x0 * m1) mod B + (x1 * m0) mod B"
  shows "x1 * m1 + (x0 * m1) div B + (x1 * m0) div B + mid div B = (x * m) div (B * B)"
    and "mid < B * B" and "(x * m) div (B * B) < B * B"
    and "x0 * m0 < B * B" and "x0 * m1 < B * B" and "x1 * m0 < B * B" and "x1 * m1 < B * B"
proof -
  have s: "x0 < B" "x1 < B" "m0 < B" "m1 < B"
    using B x m by (simp_all add: x0_def x1_def m0_def m1_def less_mult_imp_div_less)
  show p: "x0 * m0 < B * B" "x0 * m1 < B * B" "x1 * m0 < B * B" "x1 * m1 < B * B"
    using s by (simp_all add: mult_strict_mono)
  define y1 y2 y3 where "y1 = (x0 * m0) div B" and "y2 = (x0 * m1) mod B" and "y3 = (x1 * m0) mod B"
  have y: "y1 < B" "y2 < B" "y3 < B"
    using p(1) B by (simp_all add: y1_def y2_def y3_def less_mult_imp_div_less)
  have mid: "mid = y1 + y2 + y3" by (simp add: mid_def y1_def y2_def y3_def)
  show "mid < B * B"
  proof (cases "B = 2")
    case False
    then have "3 * B \<le> B * B" using B by (intro mult_le_mono1) linarith
    then show ?thesis using y mid by linarith
  qed (use y mid in auto)
  show "(x * m) div (B * B) < B * B"
    using x m B by (intro less_mult_imp_div_less mult_strict_mono) auto
  have split: "(k :: nat) = B * (k div B) + k mod B" for k by simp
  have "x * m = (x1 * B + x0) * (m1 * B + m0)"
    unfolding x0_def x1_def m0_def m1_def by simp
  also have "\<dots> = x1 * m1 * (B * B) + (x0 * m1 + x1 * m0) * B + x0 * m0"
    by (simp add: algebra_simps)
  also have "x0 * m1 = B * ((x0 * m1) div B) + y2" unfolding y2_def by (rule split)
  also have "x1 * m0 = B * ((x1 * m0) div B) + y3" unfolding y3_def by (rule split)
  also have "x0 * m0 = B * y1 + (x0 * m0) mod B" unfolding y1_def by (rule split)
  finally have e: "x * m = (x1 * m1 + (x0 * m1) div B + (x1 * m0) div B) * (B * B) +
      (mid * B + (x0 * m0) mod B)"
    unfolding mid by (simp add: algebra_simps)
  have "(mid * B + (x0 * m0) mod B) div (B * B) = mid div B"
    using B by (simp add: div_mult2_eq)
  then show "x1 * m1 + (x0 * m1) div B + (x1 * m0) div B + mid div B = (x * m) div (B * B)"
    unfolding e using B by simp
qed

lemma mul_hi_wrapped:
  fixes x m B :: nat
  assumes B: "2 \<le> B" and x: "x < B * B" and m: "m < B * B"
  defines "x0 \<equiv> x mod B" and "x1 \<equiv> x div B" and "m0 \<equiv> m mod B" and "m1 \<equiv> m div B"
  shows "((((x1 * m1) mod (B * B) + (x0 * m1) mod (B * B) div B) mod (B * B) +
            (x1 * m0) mod (B * B) div B) mod (B * B) +
          ((((x0 * m0) mod (B * B) div B + (x0 * m1) mod (B * B) mod B) mod (B * B) +
            (x1 * m0) mod (B * B) mod B) mod (B * B)) div B) mod (B * B) = (x * m) div (B * B)"
proof -
  note h = mul_hi_halves [OF B x m, folded x0_def x1_def m0_def m1_def]
  have s: "(x0 * m0) div B + (x0 * m1) mod B < B * B"
    "x1 * m1 + (x0 * m1) div B < B * B" "x1 * m1 + (x0 * m1) div B + (x1 * m0) div B < B * B"
    using h(1,2,3) by linarith+
  show ?thesis
    by (simp only: mod_less [OF h(4)] mod_less [OF h(5)] mod_less [OF h(6)] mod_less [OF h(7)]
        mod_less [OF s(1)] mod_less [OF s(2)] mod_less [OF s(3)] mod_less [OF h(2)] h(1) mod_less [OF h(3)])
qed

lemma eval_UMulHi:
  assumes x: "evalExpr u env v < 2 ^ elementBits t" and m: "m < 2 ^ elementBits t"
    and pos: "0 < elementBits t" and even: "even (elementBits t)"
  shows "evalExpr u env (createUMulHi t v m native) = (evalExpr u env v * m) div 2 ^ elementBits t"
proof (cases "native \<and> elementBits t = 32")
  case True
  then show ?thesis using m by (simp add: createUMulHi_def eval_scalarConstant)
next
  case False
  define h where "h = elementBits t div 2"
  have bits: "elementBits t = h + h" using even unfolding h_def by (metis dvd_mult_div_cancel mult_2)
  have h: "0 < h" "h < elementBits t" using pos bits by simp_all
  define B :: nat where "B = 2 ^ h"
  have BB: "2 ^ elementBits t = B * B" by (simp add: B_def bits power_add)
  have B2: "2 \<le> B" using h(1) by (simp add: B_def self_le_power)
  let ?x = "evalExpr u env v"
  have x': "?x < B * B" and m': "m < B * B" using x m BB by simp_all
  have low: "n AND (B - 1) = n mod B" for n unfolding B_def by (rule and_low)
  have le: "B \<le> B * B" using B2 by simp
  have c1: "B - 1 < 2 ^ elementBits t" and c2: "m AND (B - 1) < 2 ^ elementBits t"
    and c3: "m div B < 2 ^ elementBits t"
    using B2 le m' mod_less_divisor [of B m] div_le_dividend [of m B] unfolding BB low by linarith+
  note ev = eval_scalarConstant [OF c1] eval_scalarConstant [OF c2]
    eval_scalarConstant [OF c3] eval_shiftAmount [OF h(2)]
  have "evalExpr u env (createUMulHi t v m native) = (?x * m) div (B * B)"
    unfolding mul_hi_wrapped [OF B2 x' m', symmetric]
    unfolding createUMulHi_def Let_def if_not_P [OF False] h_def [symmetric] B_def [symmetric]
    using h(2) by (simp add: ev [unfolded low] low BB B_def [symmetric] del: One_nat_def)
  then show ?thesis by (simp add: BB)
qed

subsection \<open>Division by magic numbers\<close>

definition magic_ok :: "nat \<Rightarrow> nat \<Rightarrow> magic_info \<Rightarrow> bool" where
  "magic_ok bits d mg \<longleftrightarrow>
     (let pre = mg_preShift mg; post = mg_postShift mg; d' = d div 2 ^ pre;
          p = bits + post + of_bool (mg_isAdd mg);
          M = mg_magic mg + of_bool (mg_isAdd mg) * 2 ^ bits;
          nc = 2 ^ (bits - pre) - 2 ^ (bits - pre) mod d' - 1
      in mg_magic mg < 2 ^ bits \<and> pre < bits \<and> post < bits \<and> 2 ^ pre dvd d \<and> 0 < d \<and>
         (mg_isAdd mg \<longrightarrow> pre = 0) \<and> d' \<le> 2 ^ (bits - pre) \<and>
         2 ^ p \<le> M * d' \<and> (M * d' - 2 ^ p) * nc < 2 ^ p)"

definition magics_ok :: "(nat \<Rightarrow> nat \<Rightarrow> magic_info) \<Rightarrow> nat \<Rightarrow> bool" where
  "magics_ok magics bits \<longleftrightarrow>
     (\<forall>d. 1 < d \<longrightarrow> d < 2 ^ bits \<longrightarrow> \<not> isPowerOf2 d \<longrightarrow> magic_ok bits d (magics bits d))"

text \<open>
  The theorem of the magic numbers: a scaled reciprocal whose error is small enough for the
  greatest numerator of greatest remainder is exact for every numerator.
\<close>

lemma magic_division:
  fixes M d n N S :: nat
  assumes d: "0 < d" "d \<le> N" and n: "n < N" and lower: "S \<le> M * d"
    and err: "(M * d - S) * (N - N mod d - 1) < S"
  shows "(n * M) div S = n div d"
proof -
  define e where "e = M * d - S"
  define nc where "nc = N - N mod d - 1"
  define q r where "q = n div d" and "r = n mod d"
  have Md: "M * d = S + e" using lower by (simp add: e_def)
  have S: "0 < S" using err by simp
  have enc: "e * nc < S" using err by (simp add: e_def nc_def)
  have nqr: "n = q * d + r" "r < d" using d by (simp_all add: q_def r_def)
  define k where "k = N div d"
  have N: "N = k * d + N mod d" by (simp add: k_def)
  have k: "0 < k" using d by (simp add: k_def div_greater_zero_iff)
  have "0 < k * d" using d k by simp
  then have nc: "nc + 1 = k * d" using N unfolding nc_def by linarith
  have qk: "q \<le> k" using n d by (simp add: q_def k_def div_le_mono)
  have upper: "n * e < (d - r) * S"
  proof (cases "n \<le> nc")
    case True
    have "n * e \<le> nc * e" using True by simp
    also have "\<dots> < S" using enc by (simp add: mult.commute)
    also have "\<dots> = 1 * S" by simp
    also have "\<dots> \<le> (d - r) * S" using nqr(2) by (intro mult_le_mono1) linarith
    finally show ?thesis .
  next
    case False
    have "q = k"
    proof (rule ccontr)
      assume "q \<noteq> k"
      then have "(q + 1) * d \<le> k * d" using qk by (intro mult_le_mono1) simp
      then show False using False nc nqr by simp
    qed
    then have n': "n = nc + 1 + r" using nqr nc by simp
    have rd: "r + 1 < d"
    proof -
      have "r < N mod d" using n N \<open>q = k\<close> nqr by simp
      moreover have "N mod d < d" using d by simp
      ultimately show ?thesis by simp
    qed
    have "d - 1 \<le> nc"
    proof -
      have "1 * d \<le> k * d" using k by (intro mult_le_mono1) simp
      then show ?thesis using nc by linarith
    qed
    then have "(r + 1) * e \<le> nc * e" using rd by (intro mult_le_mono1) linarith
    then have "n * e \<le> 2 * (nc * e)" unfolding n' by (simp add: algebra_simps)
    also have "\<dots> < 2 * S" using enc by (simp add: mult.commute)
    also have "\<dots> \<le> (d - r) * S" using rd by (intro mult_le_mono1) linarith
    finally show ?thesis .
  qed
  have scaled: "n * M * d = q * S * d + (r * S + n * e)"
  proof -
    have "n * M * d = n * (S + e)" using Md by (simp add: mult.assoc)
    also have "\<dots> = (q * d + r) * S + n * e" using nqr(1) by (simp add: algebra_simps)
    finally show ?thesis by (simp add: algebra_simps)
  qed
  have "r * S + n * e < d * S"
  proof -
    have "r * S + n * e < r * S + (d - r) * S" using upper by simp
    also have "\<dots> = d * S" using nqr(2) by (simp add: add_mult_distrib [symmetric])
    finally show ?thesis .
  qed
  then have "q * S * d \<le> n * M * d" "n * M * d < (q + 1) * S * d"
    using scaled by (simp_all add: algebra_simps)
  then have "q * S \<le> n * M" "n * M < (q + 1) * S" using d by (simp_all only: mult_le_cancel2 mult_less_cancel2)
  then have "(n * M) div S = q" using S by (intro div_nat_eqI) (simp_all add: mult.commute)
  then show ?thesis by (simp add: q_def)
qed

lemma magic_okD:
  assumes "magic_ok bits d mg"
  shows "mg_magic mg < 2 ^ bits" and "mg_preShift mg < bits" and "mg_postShift mg < bits"
    and "mg_isAdd mg \<Longrightarrow> mg_preShift mg = 0"
    and "n < 2 ^ bits \<Longrightarrow>
      ((n div 2 ^ mg_preShift mg) * (mg_magic mg + of_bool (mg_isAdd mg) * 2 ^ bits)) div
        2 ^ (bits + mg_postShift mg + of_bool (mg_isAdd mg)) = n div d"
proof -
  define pre where "pre = mg_preShift mg"
  define d' where "d' = d div 2 ^ pre"
  have m: "mg_magic mg < 2 ^ bits" "pre < bits" "mg_postShift mg < bits" "2 ^ pre dvd d" "0 < d"
    "mg_isAdd mg \<longrightarrow> pre = 0" "d' \<le> 2 ^ (bits - pre)"
    "2 ^ (bits + mg_postShift mg + of_bool (mg_isAdd mg)) \<le>
       (mg_magic mg + of_bool (mg_isAdd mg) * 2 ^ bits) * d'"
    "((mg_magic mg + of_bool (mg_isAdd mg) * 2 ^ bits) * d' -
        2 ^ (bits + mg_postShift mg + of_bool (mg_isAdd mg))) *
       (2 ^ (bits - pre) - 2 ^ (bits - pre) mod d' - 1) <
       2 ^ (bits + mg_postShift mg + of_bool (mg_isAdd mg))"
    using assms unfolding magic_ok_def Let_def pre_def d'_def by blast+
  show "mg_magic mg < 2 ^ bits" "mg_preShift mg < bits" "mg_postShift mg < bits"
    "mg_isAdd mg \<Longrightarrow> mg_preShift mg = 0"
    using m by (simp_all add: pre_def)
  assume n: "n < 2 ^ bits"
  have d: "d = d' * 2 ^ pre" "0 < d'" using m(4,5) by (auto simp: d'_def)
  have "(2::nat) ^ bits = 2 ^ (bits - pre) * 2 ^ pre" using m(2) by (simp add: power_add [symmetric])
  then have "n div 2 ^ pre < 2 ^ (bits - pre)" using n by (simp add: less_mult_imp_div_less)
  then have "((n div 2 ^ pre) * (mg_magic mg + of_bool (mg_isAdd mg) * 2 ^ bits)) div
      2 ^ (bits + mg_postShift mg + of_bool (mg_isAdd mg)) = n div 2 ^ pre div d'"
    by (intro magic_division [OF d(2) m(7) _ m(8,9)])
  also have "\<dots> = n div (2 ^ pre * d')" by (simp only: div_mult2_eq)
  also have "\<dots> = n div d" using d(1) by (simp only: mult.commute)
  finally show "((n div 2 ^ mg_preShift mg) * (mg_magic mg + of_bool (mg_isAdd mg) * 2 ^ bits)) div
        2 ^ (bits + mg_postShift mg + of_bool (mg_isAdd mg)) = n div d"
    by (simp only: pre_def)
qed

lemma eval_magicQuotient:
  assumes x: "evalExpr u env v < 2 ^ elementBits t" and d: "d < 2 ^ elementBits t"
    and pos: "0 < elementBits t" and even: "even (elementBits t)"
    and mg: "magic_ok (elementBits t) d (magics (elementBits t) d)"
  shows "evalExpr u env (createUnsignedMagicQuotient magics t v d native) = evalExpr u env v div d"
proof -
  let ?b = "elementBits t" and ?n = "evalExpr u env v"
  define mg' where "mg' = magics ?b d"
  note ok = magic_okD [OF mg, folded mg'_def]
  define q0 where "q0 = (if mg_preShift mg' \<noteq> 0
      then Binary t ShRUI v (createShiftAmount t (mg_preShift mg')) else v)"
  define q1 where "q1 = createUMulHi t q0 (mg_magic mg') native"
  define q2 where "q2 = (if mg_isAdd mg'
      then Binary t AddI (Binary t ShRUI (Binary t SubI v q1) (createShiftAmount t 1)) q1 else q1)"
  have mask: "maskToBits d ?b = d" by (rule maskToBits_small [OF d])
  have e: "createUnsignedMagicQuotient magics t v d native =
      (if mg_postShift mg' \<noteq> 0 then Binary t ShRUI q2 (createShiftAmount t (mg_postShift mg')) else q2)"
    by (simp add: createUnsignedMagicQuotient_def Let_def mask q0_def q1_def q2_def mg'_def)
  have q0: "evalExpr u env q0 = ?n div 2 ^ mg_preShift mg'"
    using ok(2) by (simp add: q0_def eval_shiftAmount)
  then have small: "evalExpr u env q0 < 2 ^ ?b"
    using x by (simp add: order_le_less_trans [OF div_le_dividend])
  have q1: "evalExpr u env q1 = (evalExpr u env q0 * mg_magic mg') div 2 ^ ?b"
    unfolding q1_def by (rule eval_UMulHi [OF small ok(1) pos even])
  have post: "evalExpr u env (createUnsignedMagicQuotient magics t v d native) =
      evalExpr u env q2 div 2 ^ mg_postShift mg'"
    using ok(3) by (simp add: e eval_shiftAmount)
  show ?thesis
  proof (cases "mg_isAdd mg'")
    case False
    then show ?thesis
      using post q0 q1 ok(5) [OF x] by (simp add: q2_def div_mult2_eq [symmetric] power_add)
  next
    case True
    have q0': "evalExpr u env q0 = ?n" using q0 ok(4) True by simp
    define k where "k = evalExpr u env q1"
    have kn: "k \<le> ?n"
    proof -
      have "k = (?n * mg_magic mg') div 2 ^ ?b" using q1 q0' k_def by simp
      also have "\<dots> \<le> (?n * 2 ^ ?b) div 2 ^ ?b"
        using ok(1) by (intro div_le_mono mult_le_mono2) simp
      finally show ?thesis by simp
    qed
    have b1: "1 < ?b \<or> ?b = 1" using pos by auto
    have odd: "?b \<noteq> 1" using even by auto
    have shift1: "evalExpr u env (createShiftAmount t 1) = 1"
      using b1 odd by (intro eval_shiftAmount) auto
    have half: "(?n - k) div 2 + k = (?n + k) div 2" using kn by linarith
    have lt: "(?n + k) div 2 < 2 ^ ?b" using kn x by linarith
    have "evalExpr u env q2 = (?n + k) div 2"
      using True b1 odd kn x shift1 half lt
      by (simp add: q2_def k_def [symmetric] sub_exact del: One_nat_def)
    then have "evalExpr u env (createUnsignedMagicQuotient magics t v d native) =
        (?n + (?n * mg_magic mg') div 2 ^ ?b) div 2 ^ Suc (mg_postShift mg')"
      using post q1 q0' k_def by (simp add: div_mult2_eq)
    also have "?n + (?n * mg_magic mg') div 2 ^ ?b = (?n * (mg_magic mg' + 2 ^ ?b)) div 2 ^ ?b"
      by (simp add: algebra_simps)
    also have "\<dots> div 2 ^ Suc (mg_postShift mg') =
        (?n * (mg_magic mg' + 2 ^ ?b)) div 2 ^ (?b + mg_postShift mg' + 1)"
      by (simp add: div_mult2_eq [symmetric] power_add mult.commute mult.left_commute)
    finally show ?thesis using ok(5) [OF x] ok(4) True by simp
  qed
qed

subsection \<open>Powers of two\<close>

lemma isPowerOf2_iff: "isPowerOf2 n \<longleftrightarrow> (\<exists>k. n = 2 ^ k)"
proof
  show "\<exists>k. n = 2 ^ k \<Longrightarrow> isPowerOf2 n"
    using and_low [of "2 ^ k" k for k] by (auto simp: isPowerOf2_def)
  show "isPowerOf2 n \<Longrightarrow> \<exists>k. n = 2 ^ k"
  proof (induction n rule: less_induct)
    case (less n)
    then have n: "n \<noteq> 0" and z: "n AND (n - 1) = 0" by (simp_all add: isPowerOf2_def)
    have rec: "(n div 2) AND ((n - 1) div 2) = 0"
      using z and_rec [of n "n - 1"] by simp
    show ?case
    proof (cases "odd n")
      case True
      then have "(n - 1) div 2 = n div 2" by (auto elim!: oddE)
      then have "n div 2 = 0" using rec by simp
      then have "n < 2" by (simp add: div_eq_0_iff)
      then have "n = 2 ^ 0" using n by simp
      then show ?thesis ..
    next
      case False
      then obtain m where m: "n = 2 * m" by (auto elim!: evenE)
      then have "(n - 1) div 2 = m - 1" using n by (cases m) auto
      then have "isPowerOf2 m" using rec m n by (simp add: isPowerOf2_def)
      then obtain k where "m = 2 ^ k" using less.IH [of m] m n by auto
      then have "n = 2 ^ Suc k" using m by simp
      then show ?thesis ..
    qed
  qed
qed

lemma log2Floor_power [simp]: "log2Floor (2 ^ k) = k"
proof (induction k)
  case 0
  then show ?case by (simp add: log2Floor.simps)
next
  case (Suc k)
  have "\<not> 2 ^ Suc k \<le> (1::nat)" using pos_two_power [of "Suc k"] by linarith
  then show ?case using Suc by (subst log2Floor.simps) simp
qed

text \<open>The round-up method always gives magic numbers: the parameter can be instantiated.\<close>

fun ceilLog2From :: "nat \<Rightarrow> nat \<Rightarrow> nat \<Rightarrow> nat" where
  "ceilLog2From 0 l d = l"
| "ceilLog2From (Suc fuel) l d = (if d \<le> 2 ^ l then l else ceilLog2From fuel (Suc l) d)"

definition roundUpMagics :: "nat \<Rightarrow> nat \<Rightarrow> magic_info" where
  "roundUpMagics bits d =
     (let l = ceilLog2From bits 0 d
      in \<lparr>mg_magic = (2 ^ (bits + l) + d - 1) div d - 2 ^ bits, mg_isAdd = True,
          mg_preShift = 0, mg_postShift = l - 1\<rparr>)"

lemma ceilLog2From_props:
  "d \<le> 2 ^ (l + fuel) \<Longrightarrow> d \<le> 2 ^ ceilLog2From fuel l d \<and> l \<le> ceilLog2From fuel l d \<and>
   (l < ceilLog2From fuel l d \<longrightarrow> 2 ^ (ceilLog2From fuel l d - 1) < d) \<and> ceilLog2From fuel l d \<le> l + fuel"
proof (induction fuel arbitrary: l)
  case (Suc fuel)
  show ?case
  proof (cases "d \<le> 2 ^ l")
    case False
    have "d \<le> 2 ^ (Suc l + fuel)" using Suc.prems by simp
    note ih = Suc.IH [OF this]
    have "2 ^ (ceilLog2From fuel (Suc l) d - 1) < d"
    proof (cases "Suc l < ceilLog2From fuel (Suc l) d")
      case True
      then show ?thesis using ih by blast
    next
      case no: False
      then have "ceilLog2From fuel (Suc l) d = Suc l" using ih by simp
      then show ?thesis using False by simp
    qed
    then show ?thesis using ih False by simp
  qed simp
qed simp

lemma roundUpMagics_ok: "magics_ok roundUpMagics bits"
  unfolding magics_ok_def
proof (intro allI impI)
  fix d :: nat
  assume d: "1 < d" "d < 2 ^ bits" "\<not> isPowerOf2 d"
  define l where "l = ceilLog2From bits 0 d"
  have l: "d \<le> 2 ^ l" "l \<le> bits" "0 < l \<Longrightarrow> 2 ^ (l - 1) < d"
    using ceilLog2From_props [of d 0 bits] d(2) by (auto simp: l_def)
  have l0: "0 < l" using l(1) d(1) by (cases l) auto
  define S :: nat where "S = 2 ^ (bits + l)"
  define M where "M = (S + d - 1) div d"
  have Sp: "S = 2 ^ bits * 2 ^ l" by (simp add: S_def power_add)
  have Md: "S \<le> M * d" "M * d < S + d"
  proof -
    have e: "M * d + (S + d - 1) mod d = S + d - 1" unfolding M_def by (rule div_mult_mod_eq)
    have "(S + d - 1) mod d < d" using d(1) by simp
    then show "S \<le> M * d" "M * d < S + d" using e d(1) by linarith+
  qed
  have "2 ^ bits * d \<le> S" unfolding Sp using l(1) by simp
  then have "2 ^ bits * d \<le> M * d" using Md(1) by linarith
  then have low: "2 ^ bits \<le> M" using d(1) by simp
  have half: "2 ^ l = 2 * 2 ^ (l - 1)" using l0 by (simp add: power_eq_if)
  have high: "M < 2 * 2 ^ bits"
  proof (rule ccontr)
    assume "\<not> M < 2 * 2 ^ bits"
    then have "2 * 2 ^ bits * d \<le> M * d" by (intro mult_le_mono1) simp
    moreover have "2 * 2 ^ bits * (2 ^ (l - 1) + 1) \<le> 2 * 2 ^ bits * d"
      using l(3) [OF l0] by (intro mult_le_mono2) simp
    moreover have "2 * 2 ^ bits * (2 ^ (l - 1) + 1) = S + 2 * 2 ^ bits"
      unfolding Sp half by (simp add: algebra_simps)
    ultimately have "S + 2 * 2 ^ bits < S + d" using Md(2) by linarith
    then show False using d(2) by simp
  qed
  have err: "(M * d - S) * (2 ^ bits - 2 ^ bits mod d - 1) < S"
  proof -
    have "(M * d - S) * (2 ^ bits - 2 ^ bits mod d - 1) \<le> 2 ^ l * (2 ^ bits - 1)"
      using Md(2) l(1) by (intro mult_le_mono) linarith+
    also have "\<dots> < 2 ^ l * 2 ^ bits" by simp
    finally show ?thesis by (simp add: Sp mult.commute)
  qed
  have p: "bits + (l - 1) + 1 = bits + l" using l0 by simp
  have M': "(M - 2 ^ bits) + 2 ^ bits = M" using low by simp
  have mg: "roundUpMagics bits d = \<lparr>mg_magic = M - 2 ^ bits, mg_isAdd = True, mg_preShift = 0, mg_postShift = l - 1\<rparr>"
    by (simp add: roundUpMagics_def Let_def M_def S_def l_def)
  have bound: "M - 2 ^ bits < 2 ^ bits" "l - 1 < bits" using high low l(2) l0 by linarith+
  show "magic_ok bits d (roundUpMagics bits d)"
    unfolding magic_ok_def mg Let_def using p M' Md(1) err d l bound
    by (simp add: S_def del: One_nat_def)
qed

subsection \<open>Division by a constant\<close>

definition computesDivRem :: "(nat \<Rightarrow> nat) \<Rightarrow> (nat \<Rightarrow> nat) \<Rightarrow> div_rem_values \<Rightarrow> nat \<Rightarrow> nat \<Rightarrow> bool" where
  "computesDivRem u env res n d \<longleftrightarrow>
     evalExpr u env (dr_quotient res) = n div d \<and> evalExpr u env (dr_remainder res) = n mod d"

lemma eval_constDivRem:
  assumes res: "tryCreateUnsignedConstDivRem magics t v d native = Some res"
    and x: "evalExpr u env v < 2 ^ elementBits t" and d: "d < 2 ^ elementBits t"
    and pos: "0 < elementBits t" and even: "even (elementBits t)"
    and mg: "magics_ok magics (elementBits t)"
  shows "computesDivRem u env res (evalExpr u env v) d"
proof -
  let ?n = "evalExpr u env v" and ?b = "elementBits t"
  have mask: "maskToBits d ?b = d" by (rule maskToBits_small [OF d])
  note res' = res [unfolded tryCreateUnsignedConstDivRem_def Let_def mask]
  have d0: "d \<noteq> 0" using res' by (auto split: if_splits)
  consider (one) "d = 1" | (pow2) "d \<noteq> 1" "isPowerOf2 d" | (general) "d \<noteq> 1" "\<not> isPowerOf2 d" by blast
  then show ?thesis
  proof cases
    case one
    then show ?thesis using res' by (auto simp: computesDivRem_def eval_constantLike)
  next
    case pow2
    then obtain k where k: "d = 2 ^ k" by (auto simp: isPowerOf2_iff)
    have kb: "k < ?b" using d k by (simp add: power_less_imp_less_exp)
    have c: "evalExpr u env (createScalarConstant (scalarElementType t) (d - 1)) = d - 1"
      using d by (intro eval_scalarConstant) linarith
    show ?thesis
      using res' pow2 d0 kb c and_low [of ?n k]
      by (auto simp: computesDivRem_def eval_shiftAmount k)
  next
    case general
    have q: "evalExpr u env (createUnsignedMagicQuotient magics t v d native) = ?n div d"
      using mg d0 general d by (intro eval_magicQuotient [OF x d pos even]) (auto simp: magics_ok_def)
    have c: "evalExpr u env (createScalarConstant (scalarElementType t) d) = d"
      using d by (rule eval_scalarConstant)
    have le: "?n div d * d \<le> ?n" by (rule div_times_less_eq_dividend)
    then have lt: "?n div d * d < 2 ^ ?b" using x by linarith
    show ?thesis
      using res' general d0 q c le x mod_less [OF lt] sub_exact [OF le x] minus_div_mult_eq_mod [of ?n d]
      by (auto simp: computesDivRem_def)
  qed
qed

subsection \<open>Restoring division\<close>

lemma bit_step:
  fixes n k :: nat
  shows "(n div 2 ^ k) mod 2 + 2 * (n div 2 ^ Suc k) = n div 2 ^ k"
  using div_mult_mod_eq [of "n div 2 ^ k" 2] by (simp add: div_mult2_eq [symmetric] mult.commute)

lemma div_mod_unique: "a = x + y * d \<Longrightarrow> x < d \<Longrightarrow> a div d = y \<and> a mod d = (x :: nat)"
  by simp

lemma restoring_step:
  fixes n d k :: nat
  assumes d: "0 < d"
  defines "rem \<equiv> 2 * ((n div 2 ^ Suc k) mod d) + (n div 2 ^ k) mod 2"
  shows "(n div 2 ^ k) mod d = (if d \<le> rem then rem - d else rem)"
    and "(n div 2 ^ k) div d = 2 * ((n div 2 ^ Suc k) div d) + of_bool (d \<le> rem)"
    and "rem \<le> n div 2 ^ k"
proof -
  let ?q = "(n div 2 ^ Suc k) div d" and ?r = "(n div 2 ^ Suc k) mod d"
  have n: "n div 2 ^ k = 2 * (?q * d) + rem"
  proof -
    have "n div 2 ^ k = (n div 2 ^ k) mod 2 + 2 * (n div 2 ^ Suc k)" by (rule bit_step [symmetric])
    moreover have "n div 2 ^ Suc k = ?q * d + ?r" by (rule div_mult_mod_eq [symmetric])
    ultimately show ?thesis unfolding rem_def by linarith
  qed
  show "rem \<le> n div 2 ^ k" using n by linarith
  have r: "?r < d" using d by simp
  have "(n div 2 ^ k) mod 2 \<le> 1" by (simp add: mod_2_eq_odd)
  then have r2: "rem < 2 * d" using r unfolding rem_def by linarith
  have "(n div 2 ^ k) mod d = (if d \<le> rem then rem - d else rem) \<and>
      (n div 2 ^ k) div d = 2 * ?q + of_bool (d \<le> rem)"
  proof (cases "d \<le> rem")
    case True
    have e: "n div 2 ^ k = (rem - d) + (2 * ?q + 1) * d" using n True by (simp add: algebra_simps)
    have "rem - d < d" using True r2 by linarith
    then show ?thesis using True div_mod_unique [OF e] by simp
  next
    case False
    have e: "n div 2 ^ k = rem + (2 * ?q) * d" using n by (simp add: algebra_simps)
    then show ?thesis using False div_mod_unique [OF e] by simp
  qed
  then show "(n div 2 ^ k) mod d = (if d \<le> rem then rem - d else rem)"
    "(n div 2 ^ k) div d = 2 * ?q + of_bool (d \<le> rem)" by blast+
qed

lemma eval_restoringStep:
  fixes t :: wave_type
  assumes n: "evalExpr u env v < 2 ^ elementBits t" and d: "0 < evalExpr u env dv" "evalExpr u env dv < 2 ^ elementBits t"
    and k: "k < elementBits t" and s: "1 < elementBits t"
    and q: "evalExpr u env q = (evalExpr u env v div 2 ^ Suc k) div evalExpr u env dv * 2 ^ Suc k"
    and r: "evalExpr u env r = (evalExpr u env v div 2 ^ Suc k) mod evalExpr u env dv"
    and res: "restoringStep t v dv k (q, r) = (q', r')"
  shows "evalExpr u env q' = (evalExpr u env v div 2 ^ k) div evalExpr u env dv * 2 ^ k"
    and "evalExpr u env r' = (evalExpr u env v div 2 ^ k) mod evalExpr u env dv"
proof -
  let ?n = "evalExpr u env v" and ?d = "evalExpr u env dv" and ?b = "elementBits t"
  define rem where "rem = 2 * ((?n div 2 ^ Suc k) mod ?d) + (?n div 2 ^ k) mod 2"
  note step = restoring_step [OF d(1), of ?n k, folded rem_def]
  have pos: "0 < ?b" using k by simp
  have one: "evalExpr u env (createScalarConstant (scalarElementType t) 1) = 1"
    using pos_two_power [OF pos] by (rule eval_scalarConstant)
  have bitv: "(2::nat) ^ k < 2 ^ ?b" using k by simp
  have remb: "rem < 2 ^ ?b" using step(3) n by (meson div_le_dividend le_less_trans)
  have nb: "(?n div 2 ^ k) AND 1 = (?n div 2 ^ k) mod 2" by (simp add: and_one_eq mod_2_eq_odd)
  define r1 where "r1 = Binary t OrI (Binary t ShLI r (createShiftAmount t 1))
      (Binary t AndI (Binary t ShRUI v (createShiftAmount t k)) (createScalarConstant (scalarElementType t) 1))"
  have r1: "evalExpr u env r1 = rem"
  proof -
    have "2 * evalExpr u env r < 2 ^ ?b" using remb r by (simp add: rem_def)
    then have sh: "evalExpr u env (Binary t ShLI r (createShiftAmount t 1)) = 2 * evalExpr u env r"
      using s eval_shiftAmount [OF s, of u env] by (simp add: mult.commute)
    have "evalExpr u env r1 = (2 * evalExpr u env r) OR ((?n div 2 ^ k) mod 2)"
      unfolding r1_def evalExpr.simps(4) [of _ _ _ OrI] sh
      using eval_shiftAmount [OF k, of u env] k one nb by simp
    also have "\<dots> = rem" using or_low_bit [of "(?n div 2 ^ k) mod 2" "evalExpr u env r"] r
      by (simp add: rem_def mod_2_eq_odd)
    finally show ?thesis .
  qed
  have q'r': "q' = createSelect t (createCompare CmpUge r1 dv t) (Binary t OrI q (createConstantLike t (2 ^ k))) q"
    "r' = createSelect t (createCompare CmpUge r1 dv t) (Binary t SubI r1 dv) r1"
    using res by (simp_all add: restoringStep_def Let_def r1_def)
  have "(?n div 2 ^ Suc k) div ?d * 2 ^ Suc k mod 2 ^ Suc k = 0" by simp
  then have or: "evalExpr u env q OR 2 ^ k = evalExpr u env q + 2 ^ k"
    unfolding q by (rule or_bit)
  show "evalExpr u env r' = (?n div 2 ^ k) mod ?d"
    using step(1) remb r1 sub_exact [of ?d rem ?b] by (simp add: q'r')
  show "evalExpr u env q' = (?n div 2 ^ k) div ?d * 2 ^ k"
    using step(2) r1 or q eval_constantLike [OF bitv, of u env]
    by (simp add: q'r' add_mult_distrib)
qed

lemma eval_restoring_prefix:
  assumes n: "evalExpr u env v < 2 ^ elementBits t"
    and d: "0 < evalExpr u env dv" "evalExpr u env dv < 2 ^ elementBits t" and s: "1 < elementBits t"
  shows "k \<le> elementBits t \<Longrightarrow>
    fold (restoringStep t v dv) (rev [k ..< elementBits t])
      (createConstantLike t 0, createConstantLike t 0) = (q, r) \<Longrightarrow>
    evalExpr u env q = (evalExpr u env v div 2 ^ k) div evalExpr u env dv * 2 ^ k \<and>
    evalExpr u env r = (evalExpr u env v div 2 ^ k) mod evalExpr u env dv"
proof (induction "elementBits t - k" arbitrary: k q r)
  case 0
  then have "k = elementBits t" by simp
  then show ?case using "0.prems" n by (auto simp: eval_constantLike)
next
  case (Suc j)
  have k: "k < elementBits t" using Suc.hyps(2) by linarith
  then have split: "rev [k ..< elementBits t] = rev [Suc k ..< elementBits t] @ [k]"
    by (simp add: upt_conv_Cons)
  obtain q0 r0 where qr0: "fold (restoringStep t v dv) (rev [Suc k ..< elementBits t])
      (createConstantLike t 0, createConstantLike t 0) = (q0, r0)" by fastforce
  have step: "restoringStep t v dv k (q0, r0) = (q, r)"
    using Suc.prems(2) qr0 by (simp add: split)
  have "evalExpr u env q0 = (evalExpr u env v div 2 ^ Suc k) div evalExpr u env dv * 2 ^ Suc k \<and>
      evalExpr u env r0 = (evalExpr u env v div 2 ^ Suc k) mod evalExpr u env dv"
    using Suc.hyps(2) k by (intro Suc.hyps(1) [OF _ _ qr0]) simp_all
  then show ?case using eval_restoringStep [OF n d k s _ _ step] by blast
qed

lemma eval_restoringDivRem:
  assumes "evalExpr u env v < 2 ^ elementBits t"
    and "0 < evalExpr u env dv" and "evalExpr u env dv < 2 ^ elementBits t" and "1 < elementBits t"
  shows "computesDivRem u env (createUnsignedRestoringDivRem t v dv) (evalExpr u env v) (evalExpr u env dv)"
proof -
  obtain q r where qr: "fold (restoringStep t v dv) (rev [0 ..< elementBits t])
      (createConstantLike t 0, createConstantLike t 0) = (q, r)" by fastforce
  show ?thesis
    using eval_restoring_prefix [OF assms le0 qr]
    by (simp add: createUnsignedRestoringDivRem_def qr computesDivRem_def)
qed

subsection \<open>Division from a reciprocal estimate\<close>

text \<open>
  The estimate is never above \<open>2 ^ 32 / d\<close>, and it misses it by less than one plus a relative
  error of \<open>2 ^ -17\<close> (the single-precision reciprocal of the machine is better than that).
\<close>

definition reciprocal_estimate :: "(nat \<Rightarrow> nat) \<Rightarrow> bool" where
  "reciprocal_estimate u \<longleftrightarrow>
     (\<forall>d. 0 < d \<longrightarrow> d < 4294967296 \<longrightarrow>
        u d < 4294967296 \<and> u d * d \<le> 4294967296 \<and> 4294967296 \<le> (u d + 1) * d + 32768)"

lemma estimate_error:
  fixes z d W :: int
  assumes W: "W = 4294967296" and d: "0 < d" "d < W" and z: "0 < z" "z * d \<le> W" "W \<le> (z + 1) * d + 32768"
  shows "(W - z * d)\<^sup>2 \<le> W * d"
proof -
  define e where "e = W - z * d"
  have e: "0 \<le> e" "e \<le> d + 32768" using z by (simp_all add: e_def algebra_simps)
  show ?thesis
  proof (cases "d \<le> W - 131072")
    case True
    have "e\<^sup>2 \<le> (d + 32768)\<^sup>2" using e by (intro power_mono) simp_all
    also have "\<dots> = d * d + 65536 * d + 1073741824" by (simp add: power2_eq_square algebra_simps)
    also have "\<dots> \<le> W * d"
    proof (cases "d \<le> 2147483648")
      case small: True
      have "d * d + 65536 * d + 1073741824 \<le> d * (d + 65536 + 1073741824)"
        using d by (simp add: algebra_simps)
      also have "\<dots> \<le> d * W" using small d W by (intro mult_left_mono) simp_all
      finally show ?thesis by (simp add: mult.commute)
    next
      case large: False
      have "d * d + 65536 * d + 1073741824 \<le> d * (d + 65537)"
        using large by (simp add: algebra_simps)
      also have "\<dots> \<le> d * W" using True d W by (intro mult_left_mono) simp_all
      finally show ?thesis by (simp add: mult.commute)
    qed
    finally show ?thesis by (simp add: e_def)
  next
    case False
    have "z = 1"
    proof (rule ccontr)
      assume "z \<noteq> 1"
      then have "2 * d \<le> z * d" using z(1) d by (intro mult_right_mono) auto
      then show False using False z(2) W by linarith
    qed
    then have "e \<le> 131072" using False by (simp add: e_def)
    then have "e\<^sup>2 \<le> 131072\<^sup>2" using e(1) by (intro power_mono) simp_all
    also have "\<dots> \<le> W * d" using False W by simp
    finally show ?thesis by (simp add: e_def)
  qed
qed


lemma div_bounds: "a div 4294967296 * 4294967296 \<le> (a :: nat)" "a < (a div 4294967296 + 1) * 4294967296"
  using div_times_less_eq_dividend [of a 4294967296] dividend_less_div_times [of 4294967296 a]
  by simp_all

text \<open>One Newton step, then the quotient is at most two too small.\<close>

lemma newton_quotient:
  fixes n d z :: nat
  assumes d: "0 < d" "d < 4294967296" and n: "n < 4294967296"
    and z: "z < 4294967296" "z * d \<le> 4294967296" "4294967296 \<le> (z + 1) * d + 32768"
  defines "e \<equiv> ((4294967296 - d) * z) mod 4294967296"
  defines "z' \<equiv> z + z * e div 4294967296"
  shows "z' < 4294967296" and "n * z' div 4294967296 \<le> n div d" and "n div d \<le> n * z' div 4294967296 + 2"
proof -
  let ?W = "4294967296 :: nat"
  let ?q = "n * z' div ?W"
  have both: "z' < ?W \<and> z' * d \<le> ?W \<and> ?W < (z' + 2) * d"
  proof (cases "z = 0")
    case True
    then show ?thesis using z(3) by (simp add: z'_def)
  next
    case False
    have zd: "0 < z * d" using False d by simp
    have "(?W - d) * z = (?W - z * d) + ?W * (z - 1)"
    proof -
      have "(?W - d) * z = ?W * z - z * d" by (simp add: diff_mult_distrib mult.commute [of z d])
      also have "?W * z = ?W * (z - 1) + ?W" using False by (cases z) simp_all
      finally show ?thesis using z(2) by linarith
    qed
    then have e: "e = ?W - z * d" using zd unfolding e_def by simp
    define t where "t = z * e div ?W"
    have t: "t * ?W \<le> z * e" "z * e < (t + 1) * ?W"
      unfolding t_def by (rule div_bounds)+
    have z': "z' = z + t" by (simp add: z'_def t_def)
    define Z T E D V :: int where "Z = int z" and "T = int t" and "E = int e" and "D = int d" and "V = 4294967296"
    have i: "E = V - Z * D" "T * V \<le> Z * E" "Z * E < (T + 1) * V" "0 < D" "D < V" "0 < Z" "0 \<le> E" "0 \<le> T"
    proof -
      show "E = V - Z * D" using e z(2) by (simp add: E_def V_def Z_def D_def of_nat_diff)
      have "int (t * ?W) \<le> int (z * e)" "int (z * e) < int ((t + 1) * ?W)" using t by linarith+
      then show "T * V \<le> Z * E" "Z * E < (T + 1) * V"
        by (simp_all add: T_def V_def Z_def E_def)
    qed (use d False in \<open>simp_all add: D_def V_def Z_def E_def T_def\<close>)
    have zW: "Z * D = V - E" using i(1) by simp
    have "V \<le> (Z + 1) * D + 32768"
    proof -
      have "int ?W \<le> int ((z + 1) * d + 32768)" using z(3) by linarith
      then show ?thesis by (simp add: V_def Z_def D_def algebra_simps)
    qed
    then have "(V - Z * D)\<^sup>2 \<le> V * D"
      using i by (intro estimate_error) (simp_all add: V_def)
    then have E2: "E * E \<le> V * D" by (simp add: i(1) [symmetric] power2_eq_square)
    have sq: "Z * D * V + Z * E * D = V * V - E * E"
    proof -
      have "Z * D * V + Z * E * D = (Z * D) * (V + E)" by (simp add: algebra_simps)
      also have "\<dots> = (V - E) * (V + E)" by (simp add: zW)
      also have "\<dots> = V * V - E * E" by (simp add: algebra_simps)
      finally show ?thesis .
    qed
    have up: "(Z + T) * D * V \<le> V * V - E * E"
    proof -
      have "T * V * D \<le> Z * E * D" using i(2,4) by (intro mult_right_mono) simp_all
      then show ?thesis using sq by (simp add: algebra_simps)
    qed
    have low: "V * V - E * E - D * V < (Z + T) * D * V"
    proof -
      have "Z * E * D < (T + 1) * V * D" using i(3,4) by (intro mult_strict_right_mono) simp_all
      then show ?thesis using sq by (simp add: algebra_simps)
    qed
    have V: "0 < V" by (simp add: V_def)
    have a: "(Z + T) * D \<le> V"
    proof (rule ccontr)
      assume "\<not> (Z + T) * D \<le> V"
      then have "V * V < (Z + T) * D * V" using V by (intro mult_strict_right_mono) simp_all
      then show False using up zero_le_square [of E] by linarith
    qed
    have b: "V < (Z + T + 2) * D"
    proof (rule ccontr)
      assume "\<not> V < (Z + T + 2) * D"
      then have "(Z + T) * D + 2 * D \<le> V" by (simp add: algebra_simps)
      then have "((Z + T) * D + 2 * D) * V \<le> V * V" using V by (intro mult_right_mono) simp_all
      then have "(Z + T) * D * V + 2 * (D * V) \<le> V * V" by (simp add: algebra_simps)
      moreover have "E * E \<le> D * V" using E2 by (simp add: mult.commute)
      ultimately show False using low by linarith
    qed
    have c: "Z + T < V"
    proof (cases "E = 0")
      case True
      then have "T * V \<le> 0" using i(2) by simp
      then have "T \<le> 0" using V by (simp add: mult_le_0_iff)
      then show ?thesis using z(1) by (simp add: Z_def V_def)
    next
      case False
      then have "0 < E * E" using i(7) by simp
      then have lt: "(Z + T) * D * V < V * V" using up by linarith
      have "0 \<le> (Z + T) * V" using i(6,8) V by simp
      then have "(Z + T) * V * 1 \<le> (Z + T) * V * D" using i(4) by (intro mult_left_mono) simp_all
      then have "(Z + T) * V < V * V" using lt by (simp add: algebra_simps)
      then show ?thesis using V by simp
    qed
    have "int z' = Z + T" by (simp add: z' Z_def T_def)
    then have "int z' < int ?W" "int (z' * d) \<le> int ?W" "int ?W < int ((z' + 2) * d)"
      using a b c by (simp_all add: V_def D_def algebra_simps)
    then show ?thesis by linarith
  qed
  then show "z' < ?W" by blast
  have q: "?q * ?W \<le> n * z'" "n * z' < (?q + 1) * ?W"
    by (rule div_bounds)+
  show "?q \<le> n div d"
  proof -
    have "?q * d * ?W \<le> n * z' * d" using q(1) by (metis mult.assoc mult.commute mult_le_mono1)
    also have "\<dots> \<le> n * ?W" using both by (simp add: mult.assoc)
    finally have "?q * d \<le> n" by simp
    then show ?thesis using d by (simp add: less_eq_div_iff_mult_less_eq)
  qed
  have "n < (?q + 3) * d"
  proof (rule ccontr)
    assume "\<not> n < (?q + 3) * d"
    then have "(?q + 3) * d * ?W \<le> n * ?W" by (intro mult_le_mono1) simp
    moreover have "n * ?W \<le> n * ((z' + 2) * d)" using both by (intro mult_le_mono2) simp
    moreover have "n * ((z' + 2) * d) = n * z' * d + 2 * (n * d)" by (simp add: algebra_simps)
    moreover have "n * z' * d < (?q + 1) * ?W * d" using q(2) d by simp
    moreover have "n * d \<le> ?W * d" using n by simp
    moreover have "(?q + 3) * d * ?W = (?q + 1) * ?W * d + 2 * (?W * d)" by (simp add: algebra_simps)
    ultimately show False by linarith
  qed
  then have "n div d < ?q + 3" using d by (simp add: div_less_iff_less_mult)
  then show "n div d \<le> ?q + 2" by simp
qed

lemma eval_correctionStep:
  assumes b: "elementBits t = 32" and d: "0 < evalExpr u env dv" "evalExpr u env dv < 4294967296"
    and n: "n < 4294967296" and q: "evalExpr u env q \<le> n div evalExpr u env dv"
    and r: "evalExpr u env r = n - evalExpr u env q * evalExpr u env dv"
    and step: "correctionStep t dv (q, r) = (q', r')"
  shows "evalExpr u env q' = min (evalExpr u env q + 1) (n div evalExpr u env dv)"
    and "evalExpr u env r' = n - evalExpr u env q' * evalExpr u env dv"
proof -
  let ?d = "evalExpr u env dv" and ?Q = "evalExpr u env q"
  have s: "q' = createSelect t (createCompare CmpUge r dv t) (Binary t AddI q (createConstantLike t 1)) q"
    "r' = createSelect t (createCompare CmpUge r dv t) (Binary t SubI r dv) r"
    using step by (simp_all add: correctionStep_def Let_def)
  have one: "evalExpr u env (createConstantLike t 1) = 1" using b by (intro eval_constantLike) simp
  have Qd: "?Q * ?d \<le> n" using q d by (simp add: less_eq_div_iff_mult_less_eq)
  have take: "?d \<le> evalExpr u env r \<longleftrightarrow> ?Q < n div ?d"
  proof -
    have "?d \<le> n - ?Q * ?d \<longleftrightarrow> (?Q + 1) * ?d \<le> n" using Qd by (simp add: algebra_simps) linarith
    also have "\<dots> \<longleftrightarrow> ?Q + 1 \<le> n div ?d" using d by (simp add: less_eq_div_iff_mult_less_eq)
    finally show ?thesis by (simp add: r Suc_le_eq)
  qed
  have Q1: "?Q + 1 < 2 ^ 32" if "?Q < n div ?d"
  proof -
    have "?Q + 1 \<le> n" using that div_le_dividend [of n ?d] by linarith
    then show ?thesis using n by simp
  qed
  have rb: "evalExpr u env r < 2 ^ 32" using n r by simp
  show "evalExpr u env q' = min (?Q + 1) (n div ?d)"
  proof (cases "?Q < n div ?d")
    case True
    then have "evalExpr u env q' = ?Q + 1" using Q1 take one b by (simp add: s del: One_nat_def)
    then show ?thesis using True by simp
  next
    case False
    then show ?thesis using q take by (simp add: s)
  qed
  show "evalExpr u env r' = n - evalExpr u env q' * ?d"
  proof (cases "?Q < n div ?d")
    case True
    then have "evalExpr u env r' = evalExpr u env r - ?d" "evalExpr u env q' = ?Q + 1"
      using take rb b Q1 one sub_exact [of ?d "evalExpr u env r" 32] by (simp_all add: s del: One_nat_def)
    then show ?thesis by (simp add: r algebra_simps)
  next
    case False
    then show ?thesis using q take by (simp add: s r)
  qed
qed

lemma eval_I32DivRem:
  assumes b: "elementBits t = 32" and n: "evalExpr u env v < 4294967296"
    and d: "0 < evalExpr u env dv" "evalExpr u env dv < 4294967296" and u: "reciprocal_estimate u"
  shows "computesDivRem u env (createUnsignedI32DivRem t v dv) (evalExpr u env v) (evalExpr u env dv)"
proof -
  let ?n = "evalExpr u env v" and ?d = "evalExpr u env dv" and ?W = "4294967296 :: nat"
  define z0 where "z0 = createURecip t dv"
  define negYZ where "negYZ = Binary t MulI (createNeg t dv) z0"
  define z where "z = Binary t AddI z0 (Binary t MulHUI z0 negYZ)"
  define q where "q = Binary t MulHUI v z"
  define r where "r = Binary t SubI v (Binary t MulI q dv)"
  have Z0: "evalExpr u env z0 = u ?d" by (simp add: z0_def createURecip_def)
  have Z: "u ?d < ?W" "u ?d * ?d \<le> ?W" "?W \<le> (u ?d + 1) * ?d + 32768"
    using u d by (simp_all add: reciprocal_estimate_def)
  have "evalExpr u env (createConstantLike t 0) = 0" using b by (intro eval_constantLike) simp
  then have neg: "evalExpr u env (createNeg t dv) = ?W - ?d"
    using b d by (simp add: createNeg_def)
  have NYZ: "evalExpr u env negYZ = ((?W - ?d) * u ?d) mod ?W"
    using b by (simp add: negYZ_def neg Z0)
  note newton = newton_quotient [OF d n Z]
  have ZZ: "evalExpr u env z = u ?d + u ?d * (((?W - ?d) * u ?d) mod ?W) div ?W"
    using newton(1) b by (simp add: z_def Z0 NYZ)
  have Q: "evalExpr u env q \<le> ?n div ?d" "?n div ?d \<le> evalExpr u env q + 2"
    using newton(2,3) b by (simp_all add: q_def ZZ)
  have Qd: "evalExpr u env q * ?d \<le> ?n" using Q(1) d by (simp add: less_eq_div_iff_mult_less_eq)
  have R: "evalExpr u env r = ?n - evalExpr u env q * ?d"
    using Qd n b sub_exact [OF Qd, of 32] by (simp add: r_def)
  obtain q1 r1 where s1: "correctionStep t dv (q, r) = (q1, r1)" by fastforce
  obtain q2 r2 where s2: "correctionStep t dv (q1, r1) = (q2, r2)" by fastforce
  note c1 = eval_correctionStep [OF b d n Q(1) R s1]
  have Q1: "evalExpr u env q1 \<le> ?n div ?d" using c1(1) by simp
  note c2 = eval_correctionStep [OF b d n Q1 c1(2) s2]
  have "evalExpr u env q2 = ?n div ?d" using c1(1) c2(1) Q by simp
  moreover have "evalExpr u env r2 = ?n mod ?d"
    using c2(2) calculation by (simp add: minus_div_mult_eq_mod)
  moreover have "createUnsignedI32DivRem t v dv = \<lparr>dr_quotient = q2, dr_remainder = r2\<rparr>"
    using s1 s2 by (simp add: createUnsignedI32DivRem_def Let_def z0_def [symmetric] negYZ_def [symmetric]
        z_def [symmetric] q_def [symmetric] r_def [symmetric] numeral_2_eq_2)
  ultimately show ?thesis by (simp add: computesDivRem_def)
qed

subsection \<open>Unsigned division\<close>

lemma ofSigned_same: "n < 2 ^ bits \<Longrightarrow> sextOrTrunc bits bits n = n"
  by (simp add: sextOrTrunc_def)

lemma getConstantAPInt_value:
  "getConstantAPInt e bits = Some c \<Longrightarrow> wellTyped e \<Longrightarrow> exprBits e = bits \<Longrightarrow>
   evalExpr u env e = c \<and> c < 2 ^ bits"
proof (induction e bits rule: getConstantAPInt.induct)
  case (1 t source bits)
  then show ?case using verifySplatOp_bits [of t "typeOf source"] by (simp add: exprBits_def)
next
  case (2 t n bits)
  then show ?case by (auto simp: exprBits_def sextOrTrunc_def)
qed auto

text \<open>
  What an operand of an operation of type \<open>t\<close> is: a value of the same elements, scalar or of
  the type itself, whose value fits.
\<close>

definition operandOf :: "(nat \<Rightarrow> nat) \<Rightarrow> (nat \<Rightarrow> nat) \<Rightarrow> wave_type \<Rightarrow> expr \<Rightarrow> bool" where
  "operandOf u env t e \<longleftrightarrow>
     wellTyped e \<and> (typeOf e = t \<or> typeOf e = ScalarType (scalarElementType t)) \<and>
     evalExpr u env e < 2 ^ elementBits t"

lemma operandOf_bits: "operandOf u env t e \<Longrightarrow> exprBits e = elementBits t"
  unfolding operandOf_def exprBits_def by auto

lemma asType_operand:
  assumes "operandOf u env t e" and "\<forall>w. t \<noteq> MaskType w"
  shows "wellTyped (asType e t)" and "typeOf (asType e t) = t"
    and "operandOf u env t (asType e t)"
proof -
  show "wellTyped (asType e t)" "typeOf (asType e t) = t"
    using assms by (auto simp: operandOf_def asType_def scalarElementType_def split: wave_type.splits)
  then show "operandOf u env t (asType e t)" using assms(1) by (simp add: operandOf_def)
qed

lemma eval_unsignedDivRem:
  assumes n: "operandOf u env t num" and d: "operandOf u env t dv" and d0: "0 < evalExpr u env dv"
    and b: "1 < elementBits t"
    and const: "getConstantAPInt dv (elementBits t) \<noteq> None \<Longrightarrow>
      even (elementBits t) \<and> magics_ok magics (elementBits t)"
    and estimate: "elementBits t = 32 \<Longrightarrow> reciprocal_estimate u"
  shows "computesDivRem u env (createUnsignedDivRem magics t num dv native)
    (evalExpr u env num) (evalExpr u env dv)"
proof -
  let ?b = "elementBits t" and ?num = "asType num t" and ?dv = "asType dv t"
  note bounds = n [unfolded operandOf_def] d [unfolded operandOf_def]
  have num: "evalExpr u env ?num < 2 ^ ?b" and dvb: "evalExpr u env ?dv < 2 ^ ?b"
    and dv0: "0 < evalExpr u env ?dv"
    using bounds d0 by simp_all
  have same: "getConstantAPInt ?dv ?b = getConstantAPInt dv ?b"
    by (simp add: asType_def split: wave_type.split)
  define general where "general = (if ?b = 32 then createUnsignedI32DivRem t ?num ?dv
      else createUnsignedRestoringDivRem t ?num ?dv)"
  have gen: "computesDivRem u env general (evalExpr u env ?num) (evalExpr u env ?dv)"
  proof (cases "?b = 32")
    case True
    then show ?thesis
      using eval_I32DivRem [OF True _ dv0 _ estimate [OF True], of ?num] num dvb
      by (simp add: general_def)
  next
    case False
    then show ?thesis
      using eval_restoringDivRem [OF num dv0 dvb b] by (simp add: general_def)
  qed
  show ?thesis
  proof (cases "getConstantAPInt dv ?b")
    case None
    then show ?thesis
      using gen same by (simp add: createUnsignedDivRem_def Let_def general_def)
  next
    case (Some c)
    have c: "evalExpr u env dv = c" "c < 2 ^ ?b"
      using getConstantAPInt_value [OF Some _ operandOf_bits [OF d], of u env] bounds by simp_all
    show ?thesis
    proof (cases "tryCreateUnsignedConstDivRem magics t ?num c native")
      case None
      then show ?thesis
        using gen same Some by (simp add: createUnsignedDivRem_def Let_def general_def)
    next
      case res: (Some res)
      have "computesDivRem u env res (evalExpr u env ?num) c"
        using const Some b by (intro eval_constDivRem [OF res num c(2)]) simp_all
      then show ?thesis
        using res same Some c by (simp add: createUnsignedDivRem_def Let_def)
    qed
  qed
qed

end
