(* ===== verification/Int_Div_Signed.thy ===== *)
theory Int_Div_Signed
  imports Int_Div_Unsigned
begin

text \<open>
  The signed division expansions: sign masks and conditional negation around the unsigned
  division, and the bias of the numerator for a positive power of two.
\<close>

subsection \<open>Types of the building blocks\<close>

definition numericType :: "wave_type \<Rightarrow> bool" where
  "numericType t \<longleftrightarrow> \<not> isMaskType t"

definition ofType :: "wave_type \<Rightarrow> expr \<Rightarrow> bool" where
  "ofType t e \<longleftrightarrow> wellTyped e \<and> typeOf e = t"

definition operandType :: "wave_type \<Rightarrow> expr \<Rightarrow> bool" where
  "operandType t e \<longleftrightarrow> wellTyped e \<and> (typeOf e = t \<or> typeOf e = ScalarType (scalarElementType t))"

lemma ofType_operand: "ofType t e \<Longrightarrow> operandType t e"
  by (simp add: ofType_def operandType_def)

lemma operandOf_type: "operandOf u env t e \<longleftrightarrow> operandType t e \<and> evalExpr u env e < 2 ^ elementBits t"
  by (auto simp: operandOf_def operandType_def)

lemma maskToBits_less: "raw < 2 ^ 64 \<Longrightarrow> maskToBits raw bits < 2 ^ bits"
  unfolding maskToBits_def and_low by simp

lemma type_scalarConstant [intro]:
  "raw < 2 ^ 64 \<Longrightarrow> operandType t (createScalarConstant (scalarElementType t) raw)"
  using maskToBits_less [of raw] by (simp add: operandType_def createScalarConstant_def)

lemma type_constantLike [intro]:
  "raw < 2 ^ 64 \<Longrightarrow> numericType t \<Longrightarrow> ofType t (createConstantLike t raw)"
  using maskToBits_less [of raw]
  by (cases t) (auto simp: ofType_def createConstantLike_def createScalarConstant_def numericType_def
      scalarElementType_def)

lemma type_shiftAmount [intro]: "n < 2 ^ 64 \<Longrightarrow> operandType t (createShiftAmount t n)"
  by (simp add: createShiftAmount_def type_scalarConstant)

lemma type_asType [intro]: "numericType t \<Longrightarrow> operandType t e \<Longrightarrow> ofType t (asType e t)"
  by (cases t) (auto simp: operandType_def ofType_def asType_def scalarElementType_def numericType_def)

lemma verifyBinary_mixed:
  assumes "numericType t" and "l = t \<or> l = ScalarType (scalarElementType t)"
    and "r = t \<or> r = ScalarType (scalarElementType t)" and "l = t \<or> r = t"
  shows "verifyBinaryOp k False t l r"
  using assms by (cases t) (auto simp: numericType_def verifyBinaryOp_def classifyWaveBinaryOperand_def
      verifyWaveBinaryResult_def scalarElementType_def)

lemma type_binary [intro]:
  "numericType t \<Longrightarrow> ofType t l \<Longrightarrow> operandType t r \<Longrightarrow> ofType t (Binary t k l r)"
  "numericType t \<Longrightarrow> operandType t l \<Longrightarrow> ofType t r \<Longrightarrow> ofType t (Binary t k l r)"
  by (auto simp: ofType_def operandType_def intro!: verifyBinary_mixed)

lemma asType_id: "ofType t e \<Longrightarrow> asType e t = e"
  by (simp add: ofType_def asType_def)

lemma type_select [intro]:
  assumes "numericType t" and "operandType t a" and "operandType t b"
    and "operandType t x" and "operandType t y"
  shows "ofType t (createSelect t (createCompare p x y t) a b)"
  using assms type_asType [OF assms(1)]
  by (cases t) (auto simp: ofType_def createSelect_def createCompare_def numericType_def
      verifyCmpIOp_def verifySelectOp_def operandType_def scalarElementType_def)

subsection \<open>Signs and conditional negation\<close>

lemma eval_sign:
  assumes x: "evalExpr u env v < 2 ^ elementBits t" and b: "0 < elementBits t"
  shows "evalExpr u env (Binary t ShRSI v (createShiftAmount t (elementBits t - 1))) =
    (if toSigned (elementBits t) (evalExpr u env v) < 0 then 2 ^ elementBits t - 1 else 0)"
proof -
  let ?b = "elementBits t" and ?x = "toSigned (elementBits t) (evalExpr u env v)"
  note bounds = toSigned_bounds [OF x b]
  have sh: "evalExpr u env (createShiftAmount t (?b - 1)) = ?b - 1"
    using b by (intro eval_shiftAmount) simp
  have d: "?x div 2 ^ (?b - 1) = (if ?x < 0 then -1 else 0)"
  proof (cases "?x < 0")
    case True
    have "(?x + 2 ^ (?b - 1)) div 2 ^ (?b - 1) = 0"
      using True bounds by (intro div_pos_pos_trivial) linarith+
    then show ?thesis using True by (simp add: div_add_self2)
  next
    case False
    then show ?thesis using bounds by (simp add: div_pos_pos_trivial)
  qed
  have "ofSigned ?b (-1) = 2 ^ ?b - 1"
    by (simp add: ofSigned_def zmod_minus1 nat_diff_distrib nat_power_eq)
  moreover have "ofSigned ?b 0 = 0" by (simp add: ofSigned_def)
  ultimately show ?thesis using sh d b by simp
qed

lemma ofSigned_neg:
  assumes "n < 2 ^ bits"
  shows "ofSigned bits (- int n) = (2 ^ bits - n) mod 2 ^ bits"
proof (cases "n = 0")
  case False
  have "int n < 2 ^ bits" using assms by simp
  then have "(- int n) mod 2 ^ bits = 2 ^ bits - int n"
    using False by (subst zmod_zminus1_eq_if) simp
  then show ?thesis using assms False by (simp add: ofSigned_def nat_diff_distrib' nat_power_eq)
qed (simp add: ofSigned_def)

lemma eval_conditional_negation:
  assumes v: "evalExpr u env v < 2 ^ elementBits t"
    and s: "evalExpr u env s = (if neg then 2 ^ elementBits t - 1 else 0)"
  shows "evalExpr u env (Binary t SubI (Binary t XOrI v s) s) =
    ofSigned (elementBits t) (if neg then - int (evalExpr u env v) else int (evalExpr u env v))"
proof -
  let ?N = "2 ^ elementBits t :: nat" and ?v = "evalExpr u env v"
  have N: "int ?N = 2 ^ elementBits t" by simp
  show ?thesis
  proof (cases neg)
    case True
    have "evalExpr u env (Binary t SubI (Binary t XOrI v s) s) = (?N - 1 - ?v + ?N - (?N - 1)) mod ?N"
      using True s xor_ones [OF v] by (simp del: One_nat_def)
    also have "?N - 1 - ?v + ?N - (?N - 1) = ?N - ?v" using v by linarith
    finally show ?thesis using True ofSigned_neg [OF v] by simp
  next
    case False
    then show ?thesis using s v
      by (simp add: ofSigned_def nat_mod_distrib nat_power_eq)
  qed
qed

lemma ofSigned_wrap:
  assumes "n < 2 ^ bits"
  shows "ofSigned bits (toSigned bits n) = n" "ofSigned bits (int n) = n"
    "ofSigned bits (- toSigned bits n) = ofSigned bits (- int n)"
proof -
  show w: "ofSigned bits (int n) = n"
    using assms by (simp add: ofSigned_def nat_mod_distrib nat_power_eq)
  have c: "(toSigned bits n - int n) mod 2 ^ bits = 0"
    by (simp add: toSigned_def)
  then have m: "toSigned bits n mod 2 ^ bits = int n mod 2 ^ bits"
    by (metis mod_0_imp_dvd mod_eq_dvd_iff)
  then show "ofSigned bits (toSigned bits n) = n"
    and "ofSigned bits (- toSigned bits n) = ofSigned bits (- int n)"
    using w mod_minus_eq [of "toSigned bits n" "2 ^ bits"] mod_minus_eq [of "int n" "2 ^ bits"]
    by (simp_all add: ofSigned_def m)
qed

text \<open>The conditional negation by its own sign is the absolute value.\<close>

lemma toSigned_abs:
  assumes "n < 2 ^ bits" and "0 < bits"
  shows "(if toSigned bits n < 0 then ofSigned bits (- int n) else n) = nat \<bar>toSigned bits n\<bar>"
    and "nat \<bar>toSigned bits n\<bar> < 2 ^ bits"
proof -
  have N: "int (2 ^ bits) = 2 ^ bits" by simp
  show l: "nat \<bar>toSigned bits n\<bar> < 2 ^ bits"
    using toSigned_bounds [OF assms] assms
    by (auto simp: toSigned_def nat_less_iff split: if_splits)
  show "(if toSigned bits n < 0 then ofSigned bits (- int n) else n) = nat \<bar>toSigned bits n\<bar>"
  proof (cases "toSigned bits n < 0")
    case True
    then have s: "toSigned bits n = int n - 2 ^ bits" "0 < n"
      using assms by (auto simp: toSigned_def split: if_splits)
    have "ofSigned bits (- int n) = 2 ^ bits - n"
      using ofSigned_neg [OF assms(1)] assms(1) s(2) by simp
    then show ?thesis using True s by (simp add: nat_diff_distrib' nat_power_eq)
  next
    case False
    then show ?thesis using assms by (auto simp: toSigned_def split: if_splits)
  qed
qed

lemma eval_abs:
  assumes v: "evalExpr u env v < 2 ^ elementBits t" and b: "0 < elementBits t"
    and s: "evalExpr u env s =
      (if toSigned (elementBits t) (evalExpr u env v) < 0 then 2 ^ elementBits t - 1 else 0)"
  shows "evalExpr u env (Binary t SubI (Binary t XOrI v s) s) =
    nat \<bar>toSigned (elementBits t) (evalExpr u env v)\<bar>"
  using eval_conditional_negation [OF v s] toSigned_abs(1) [OF v b] ofSigned_wrap(2) [OF v] by (cases "toSigned (elementBits t) (evalExpr u env v) < 0") (simp_all del: evalExpr.simps)

subsection \<open>Signed division\<close>

definition computesSignedDivRem ::
    "(nat \<Rightarrow> nat) \<Rightarrow> (nat \<Rightarrow> nat) \<Rightarrow> nat \<Rightarrow> div_rem_values \<Rightarrow> int \<Rightarrow> int \<Rightarrow> bool" where
  "computesSignedDivRem u env bits res a b \<longleftrightarrow>
     evalExpr u env (dr_quotient res) = ofSigned bits (a sdiv b) \<and>
     evalExpr u env (dr_remainder res) = ofSigned bits (a smod b)"

text \<open>The divisor's part of the signed expansion: its absolute value and the quotient's sign.\<close>

lemma eval_all_ones:
  assumes "elementBits t \<le> 64"
  shows "evalExpr u env (createConstantLike t (2 ^ 64 - 1)) = 2 ^ elementBits t - 1"
proof -
  have "maskToBits (2 ^ 64 - 1) (elementBits t) = 2 ^ elementBits t - 1"
  proof (cases "elementBits t = 64")
    case False
    have "take_bit (elementBits t) (mask 64 :: nat) = mask (elementBits t)"
      using assms by (simp add: min_absorb1)
    then have "(2 ^ 64 - 1 :: nat) mod 2 ^ elementBits t = 2 ^ elementBits t - 1"
      by (simp only: take_bit_eq_mod mask_eq_exp_minus_1)
    then show ?thesis using False unfolding maskToBits_def and_low by simp
  qed (simp add: maskToBits_def)
  then show ?thesis
    by (auto simp: createConstantLike_def createScalarConstant_def scalarElementType_def
        elementBits_def split: wave_type.splits)
qed

lemma getConstantAPInt_asType [simp]: "getConstantAPInt (asType e t) bits = getConstantAPInt e bits"
  by (simp add: asType_def split: wave_type.split)

lemma eval_signed_results:
  assumes c: "computesDivRem u env res (nat \<bar>a\<bar>) (nat \<bar>b\<bar>)"
    and small: "nat \<bar>a\<bar> < 2 ^ elementBits t"
    and ls: "evalExpr u env ls = (if a < 0 then 2 ^ elementBits t - 1 else 0)"
    and qs: "evalExpr u env qs = (if (a < 0) \<noteq> (b < 0) then 2 ^ elementBits t - 1 else 0)"
    and b: "b \<noteq> 0"
  shows "computesSignedDivRem u env (elementBits t)
    \<lparr>dr_quotient = Binary t SubI (Binary t XOrI (dr_quotient res) qs) qs,
     dr_remainder = Binary t SubI (Binary t XOrI (dr_remainder res) ls) ls\<rparr> a b"
proof -
  have q: "evalExpr u env (dr_quotient res) = nat \<bar>a\<bar> div nat \<bar>b\<bar>"
    and r: "evalExpr u env (dr_remainder res) = nat \<bar>a\<bar> mod nat \<bar>b\<bar>"
    using c by (simp_all add: computesDivRem_def)
  have iq: "int (nat \<bar>a\<bar> div nat \<bar>b\<bar>) = \<bar>a\<bar> div \<bar>b\<bar>" and ir: "int (nat \<bar>a\<bar> mod nat \<bar>b\<bar>) = \<bar>a\<bar> mod \<bar>b\<bar>"
    by (simp_all add: zdiv_int zmod_int)
  have qb: "evalExpr u env (dr_quotient res) < 2 ^ elementBits t"
    and rb: "evalExpr u env (dr_remainder res) < 2 ^ elementBits t"
    using small le_less_trans [OF div_le_dividend] le_less_trans [OF mod_less_eq_dividend]
    unfolding q r by blast+
  have sd: "a sdiv b = (if (a < 0) \<noteq> (b < 0) then - (\<bar>a\<bar> div \<bar>b\<bar>) else \<bar>a\<bar> div \<bar>b\<bar>)"
    using b by (cases "a = 0") (auto simp: signed_divide_int_def sgn_if)
  have sm: "a smod b = (if a < 0 then - (\<bar>a\<bar> mod \<bar>b\<bar>) else \<bar>a\<bar> mod \<bar>b\<bar>)"
    by (cases "a = 0") (auto simp: signed_modulo_int_def sgn_if)
  show ?thesis
    using eval_conditional_negation [OF qb qs] eval_conditional_negation [OF rb ls]
    unfolding computesSignedDivRem_def q r iq ir sd sm div_rem_values.simps by (rule conjI)
qed

lemma eval_xor_signs:
  assumes "evalExpr u env s = (if p then 2 ^ elementBits t - 1 else 0)"
    and "evalExpr u env s' = (if p' then 2 ^ elementBits t - 1 else 0)"
  shows "evalExpr u env (Binary t XOrI s s') = (if p \<noteq> p' then 2 ^ elementBits t - 1 else 0)"
  using assms xor_ones [of "0 :: nat" "elementBits t"] by auto

lemma type_sign:
  assumes "numericType t" and "ofType t v" and "elementBits t \<le> 64"
  shows "ofType t (Binary t ShRSI v (createShiftAmount t (elementBits t - 1)))"
    and "ofType t (Binary t SubI (Binary t XOrI v
      (Binary t ShRSI v (createShiftAmount t (elementBits t - 1))))
      (Binary t ShRSI v (createShiftAmount t (elementBits t - 1))))"
proof -
  have "elementBits t - 1 < 2 ^ 64" using assms(3) by (simp add: less_le_trans)
  then show s: "ofType t (Binary t ShRSI v (createShiftAmount t (elementBits t - 1)))"
    using assms by (intro type_binary(1) type_shiftAmount)
  show "ofType t (Binary t SubI (Binary t XOrI v
      (Binary t ShRSI v (createShiftAmount t (elementBits t - 1))))
      (Binary t ShRSI v (createShiftAmount t (elementBits t - 1))))"
    using assms s type_binary(1) ofType_operand by blast
qed

lemma operandOf_intro:
  "ofType t e \<Longrightarrow> evalExpr u env e < 2 ^ elementBits t \<Longrightarrow> operandOf u env t e"
  by (simp add: operandOf_type ofType_operand)

lemma signedAbs_value:
  assumes "c < 2 ^ bits" and "0 < bits"
  shows "signedAbs bits c = nat \<bar>toSigned bits c\<bar>"
  using assms by (auto simp: signedAbs_def toSigned_def nat_diff_distrib' nat_power_eq split: if_splits)

text \<open>
  The three ways the expansion treats its divisor: known positive, a constant, and any value.
\<close>

definition signedDivisor :: "wave_type \<Rightarrow> expr \<Rightarrow> expr \<Rightarrow> bool \<Rightarrow> expr \<times> expr" where
  "signedDivisor type lhsSign rhs divisorPositive =
     (if divisorPositive then (rhs, lhsSign)
      else case getConstantAPInt rhs (elementBits type) of
        Some c \<Rightarrow>
          (createConstantLike type (signedAbs (elementBits type) c),
           if toSigned (elementBits type) c < 0
           then Binary type XOrI lhsSign (createConstantLike type (2 ^ 64 - 1)) else lhsSign)
      | None \<Rightarrow>
          let rhsSign = Binary type ShRSI rhs (createShiftAmount type (elementBits type - 1))
          in (Binary type SubI (Binary type XOrI rhs rhsSign) rhsSign,
              Binary type XOrI lhsSign rhsSign))"

lemma eval_signedDivisor:
  assumes t: "numericType t" and bits: "0 < elementBits t" "elementBits t \<le> 64"
    and r: "operandOf u env t rhs" "ofType t rhs"
    and ls: "evalExpr u env ls = (if neg then 2 ^ elementBits t - 1 else 0)"
    and pos: "dp \<Longrightarrow> 0 < toSigned (elementBits t) (evalExpr u env rhs)"
    and res: "signedDivisor t ls rhs dp = (absRhs, qs)"
  shows "operandOf u env t absRhs"
    and "evalExpr u env absRhs = nat \<bar>toSigned (elementBits t) (evalExpr u env rhs)\<bar>"
    and "evalExpr u env qs =
      (if neg \<noteq> (toSigned (elementBits t) (evalExpr u env rhs) < 0) then 2 ^ elementBits t - 1 else 0)"
    and "getConstantAPInt absRhs (elementBits t) \<noteq> None \<Longrightarrow>
      getConstantAPInt rhs (elementBits t) \<noteq> None"
proof -
  let ?b = "elementBits t" and ?r = "evalExpr u env rhs"
  have rb: "?r < 2 ^ ?b" using r(1) by (simp add: operandOf_def)
  note abs = toSigned_abs [OF rb bits(1)]
  have "operandOf u env t absRhs \<and> evalExpr u env absRhs = nat \<bar>toSigned ?b ?r\<bar> \<and>
      evalExpr u env qs = (if neg \<noteq> (toSigned ?b ?r < 0) then 2 ^ ?b - 1 else 0) \<and>
      (getConstantAPInt absRhs ?b \<noteq> None \<longrightarrow> getConstantAPInt rhs ?b \<noteq> None)"
  proof (cases dp)
    case True
    then have e: "absRhs = rhs" "qs = ls" using res by (simp_all add: signedDivisor_def)
    show ?thesis using pos [OF True] r ls abs(1) unfolding e by simp
  next
    case dp: False
    show ?thesis
    proof (cases "getConstantAPInt rhs ?b")
      case (Some c)
      have c: "?r = c" "c < 2 ^ ?b"
        using getConstantAPInt_value [OF Some _ operandOf_bits [OF r(1)], of u env] r by (simp_all add: ofType_def)
      have e: "absRhs = createConstantLike t (signedAbs ?b c)"
        "qs = (if toSigned ?b c < 0 then Binary t XOrI ls (createConstantLike t (2 ^ 64 - 1)) else ls)"
        using res dp Some by (simp_all add: signedDivisor_def)
      have s: "signedAbs ?b c = nat \<bar>toSigned ?b ?r\<bar>" using signedAbs_value c bits by simp
      have small: "signedAbs ?b c < 2 ^ ?b" using abs(2) s by simp
      have "(2::nat) ^ ?b \<le> 2 ^ 64" using bits by (intro power_increasing) auto
      then have ty: "ofType t absRhs" unfolding e using small t
        by (intro type_constantLike less_le_trans [OF small])
      have ev: "evalExpr u env absRhs = nat \<bar>toSigned ?b ?r\<bar>"
        unfolding e using eval_constantLike [OF small] s by simp
      have "evalExpr u env qs = (if neg \<noteq> (toSigned ?b ?r < 0) then 2 ^ ?b - 1 else 0)"
        unfolding e(2) c(1)
        using eval_xor_signs [OF ls, of "createConstantLike t (2 ^ 64 - 1)" True]
          eval_all_ones [OF bits(2), of u env] ls by simp
      then show ?thesis using ty ev abs(2) Some by (simp add: operandOf_intro)
    next
      case None
      let ?s = "Binary t ShRSI rhs (createShiftAmount t (?b - 1))"
      have e: "absRhs = Binary t SubI (Binary t XOrI rhs ?s) ?s" "qs = Binary t XOrI ls ?s"
        using res dp None by (simp_all add: signedDivisor_def Let_def)
      note sg = eval_sign [OF rb bits(1)]
      have ev: "evalExpr u env absRhs = nat \<bar>toSigned ?b ?r\<bar>"
        unfolding e by (rule eval_abs [OF rb bits(1) sg])
      have ty: "ofType t absRhs" unfolding e by (rule type_sign(2) [OF t r(2) bits(2)])
      have "evalExpr u env qs = (if neg \<noteq> (toSigned ?b ?r < 0) then 2 ^ ?b - 1 else 0)"
        unfolding e by (rule eval_xor_signs [OF ls sg])
      moreover have "getConstantAPInt absRhs ?b = None" unfolding e by simp
      ultimately show ?thesis using ty ev abs(2) by (simp add: operandOf_intro)
    qed
  qed
  then show "operandOf u env t absRhs"
    "evalExpr u env absRhs = nat \<bar>toSigned (elementBits t) (evalExpr u env rhs)\<bar>"
    "evalExpr u env qs =
      (if neg \<noteq> (toSigned (elementBits t) (evalExpr u env rhs) < 0) then 2 ^ elementBits t - 1 else 0)"
    "getConstantAPInt absRhs (elementBits t) \<noteq> None \<Longrightarrow>
      getConstantAPInt rhs (elementBits t) \<noteq> None"
    by blast+
qed

lemma eval_signedDivRem:
  assumes t: "numericType t" and bits: "1 < elementBits t" "elementBits t \<le> 64"
    and l: "operandOf u env t lhs" and r: "operandOf u env t rhs" and r0: "evalExpr u env rhs \<noteq> 0"
    and pos: "dp \<Longrightarrow> 0 < toSigned (elementBits t) (evalExpr u env rhs)"
    and const: "getConstantAPInt rhs (elementBits t) \<noteq> None \<Longrightarrow>
      even (elementBits t) \<and> magics_ok magics (elementBits t)"
    and estimate: "elementBits t = 32 \<Longrightarrow> reciprocal_estimate u"
  shows "computesSignedDivRem u env (elementBits t) (createSignedDivRem magics t lhs rhs dp)
    (toSigned (elementBits t) (evalExpr u env lhs)) (toSigned (elementBits t) (evalExpr u env rhs))"
proof -
  let ?b = "elementBits t" and ?lhs = "asType lhs t" and ?rhs = "asType rhs t"
  have lt: "ofType t ?lhs" "ofType t ?rhs"
    using t l r by (simp_all add: type_asType operandOf_type)
  have lo: "operandOf u env t ?lhs" and ro: "operandOf u env t ?rhs"
    using l r lt by (simp_all add: operandOf_type ofType_operand)
  have lb: "evalExpr u env ?lhs < 2 ^ ?b" and rb: "evalExpr u env ?rhs < 2 ^ ?b"
    using l r by (simp_all add: operandOf_def)
  have b0: "0 < ?b" using bits by simp
  define ls where "ls = Binary t ShRSI ?lhs (createShiftAmount t (?b - 1))"
  note sg = eval_sign [OF lb b0, folded ls_def]
  define al where "al = Binary t SubI (Binary t XOrI ?lhs ls) ls"
  have al: "evalExpr u env al = nat \<bar>toSigned ?b (evalExpr u env ?lhs)\<bar>"
    unfolding al_def by (rule eval_abs [OF lb b0 sg])
  have alo: "operandOf u env t al"
    using type_sign(2) [OF t lt(1) bits(2), folded ls_def, folded al_def] al toSigned_abs(2) [OF lb b0]
    by (simp add: operandOf_intro)
  obtain ar qs where d: "signedDivisor t ls ?rhs dp = (ar, qs)" by fastforce
  have pos': "dp \<Longrightarrow> 0 < toSigned ?b (evalExpr u env ?rhs)" using pos by simp
  note dv = eval_signedDivisor [OF t b0 bits(2) ro lt(2) sg pos' d]
  have nz: "toSigned ?b (evalExpr u env rhs) \<noteq> 0"
    using r0 rb by (auto simp: toSigned_def split: if_splits)
  have ar0: "0 < evalExpr u env ar" using nz dv(2) by simp
  define res where "res = createUnsignedDivRem magics t al ar (getConstantAPInt ?rhs ?b \<noteq> None)"
  have "computesDivRem u env res (evalExpr u env al) (evalExpr u env ar)"
    unfolding res_def using dv(4) const estimate
    by (intro eval_unsignedDivRem [OF alo dv(1) ar0 bits(1)]) simp_all
  then have c: "computesDivRem u env res (nat \<bar>toSigned ?b (evalExpr u env lhs)\<bar>)
      (nat \<bar>toSigned ?b (evalExpr u env rhs)\<bar>)"
    using al dv(2) by simp
  have "createSignedDivRem magics t lhs rhs dp =
    \<lparr>dr_quotient = Binary t SubI (Binary t XOrI (dr_quotient res) qs) qs,
     dr_remainder = Binary t SubI (Binary t XOrI (dr_remainder res) ls) ls\<rparr>"
    using d unfolding createSignedDivRem_def Let_def signedDivisor_def ls_def [symmetric]
      al_def [symmetric]
    by (simp add: res_def split: if_splits option.splits)
  then show ?thesis
    using eval_signed_results [OF c _ _ _ nz, of t ls qs] toSigned_abs(2) [OF lb b0] sg dv(3) by simp
qed

end
