(* ===== verification/Int_Div_Types.thy ===== *)
theory Int_Div_Types
  imports Int_Div_Signed
begin

text \<open>
  The expansions build operations that pass their verifiers and have the type of the operation
  they replace.
\<close>

definition divRemOfType :: "wave_type \<Rightarrow> div_rem_values \<Rightarrow> bool" where
  "divRemOfType t res \<longleftrightarrow> ofType t (dr_quotient res) \<and> ofType t (dr_remainder res)"

lemma operand_binary:
  "numericType t \<Longrightarrow> ofType t l \<Longrightarrow> operandType t r \<Longrightarrow> operandType t (Binary t k l r)"
  by (simp add: ofType_operand type_binary(1))

lemmas type_rules = type_binary(1) operand_binary type_scalarConstant type_shiftAmount

lemma bits_less_64: "elementBits t \<le> 64 \<Longrightarrow> n < 2 ^ elementBits t \<Longrightarrow> n < (2 :: nat) ^ 64"
  by (erule less_le_trans) (rule power_increasing, simp_all)

lemma shift_less_64: "elementBits t \<le> 64 \<Longrightarrow> n \<le> elementBits t \<Longrightarrow> n < (2 :: nat) ^ 64"
  by simp

lemma type_UMulHi:
  assumes t: "numericType t" "elementBits t \<le> 64" and v: "ofType t v" and m: "m < 2 ^ elementBits t"
  shows "ofType t (createUMulHi t v m native)"
proof -
  have h: "elementBits t div 2 \<le> elementBits t" by simp
  have p: "(0::nat) < 2 ^ (elementBits t div 2)" by simp
  have hm: "(2::nat) ^ (elementBits t div 2) \<le> 2 ^ elementBits t" by (intro power_increasing) simp_all
  have c1: "(2::nat) ^ (elementBits t div 2) - 1 < 2 ^ 64"
    using p hm by (intro bits_less_64 [OF t(2)]) linarith
  have c2: "m AND (2 ^ (elementBits t div 2) - 1) < 2 ^ 64"
    unfolding and_low using mod_less_divisor [OF p, of m] hm by (intro bits_less_64 [OF t(2)]) linarith
  have c3: "m div 2 ^ (elementBits t div 2) < 2 ^ 64"
    using le_less_trans [OF div_le_dividend m] by (rule bits_less_64 [OF t(2)])
  note shift_less_64 [OF t(2) h] bits_less_64 [OF t(2) m]
  then show ?thesis
    unfolding createUMulHi_def Let_def
    by (cases "native \<and> elementBits t = 32")
      (simp_all only: if_P if_not_P simp_thms, (intro type_rules t v c1 c2 c3 | assumption)+)
qed

lemma type_magicQuotient:
  assumes t: "numericType t" "elementBits t \<le> 64" and v: "ofType t v"
    and d: "d < 2 ^ elementBits t" and mg: "magic_ok (elementBits t) d (magics (elementBits t) d)"
  shows "ofType t (createUnsignedMagicQuotient magics t v d native)"
proof -
  define mg' where "mg' = magics (elementBits t) d"
  note ok = magic_okD(1,2,3) [OF mg, folded mg'_def]
  have s: "mg_preShift mg' < 2 ^ 64" "mg_postShift mg' < 2 ^ 64" "1 < (2 :: nat) ^ 64"
    using ok t(2) by simp_all
  define q0 where "q0 = (if mg_preShift mg' \<noteq> 0
      then Binary t ShRUI v (createShiftAmount t (mg_preShift mg')) else v)"
  define q1 where "q1 = createUMulHi t q0 (mg_magic mg') native"
  define q2 where "q2 = (if mg_isAdd mg'
      then Binary t AddI (Binary t ShRUI (Binary t SubI v q1) (createShiftAmount t 1)) q1 else q1)"
  have q0: "ofType t q0" using v by (auto simp: q0_def intro!: type_rules t s)
  have q1: "ofType t q1" unfolding q1_def by (rule type_UMulHi [OF t q0 ok(1)])
  have q2: "ofType t q2"
    using q1 v s(3) by (auto simp: q2_def ofType_operand simp del: One_nat_def intro!: type_rules t)
  have "createUnsignedMagicQuotient magics t v d native =
    (if mg_postShift mg' \<noteq> 0 then Binary t ShRUI q2 (createShiftAmount t (mg_postShift mg')) else q2)"
    using d by (simp add: createUnsignedMagicQuotient_def Let_def maskToBits_small mg'_def q0_def
        q1_def q2_def)
  then show ?thesis using q2 by (auto intro!: type_rules t s)
qed

lemma type_constDivRem:
  assumes res: "tryCreateUnsignedConstDivRem magics t v d native = Some res"
    and t: "numericType t" "elementBits t \<le> 64" and v: "ofType t v"
    and d: "d < 2 ^ elementBits t" and mg: "magics_ok magics (elementBits t)"
  shows "divRemOfType t res"
proof -
  have dm: "maskToBits d (elementBits t) = d" using d by (rule maskToBits_small)
  have d0: "d \<noteq> 0" using res dm by (auto simp: tryCreateUnsignedConstDivRem_def Let_def split: if_splits)
  have d64: "d < 2 ^ 64" "d - 1 < 2 ^ 64" using bits_less_64 [OF t(2) d] by simp_all
  consider "d = 1" | "d \<noteq> 1" "isPowerOf2 d" | "1 < d" "\<not> isPowerOf2 d" using d0 by linarith
  then show ?thesis
  proof cases
    case 1
    then show ?thesis using res dm v t
      by (auto simp: tryCreateUnsignedConstDivRem_def Let_def divRemOfType_def type_constantLike)
  next
    case 2
    obtain k where k: "d = 2 ^ k" using 2 isPowerOf2_iff by blast
    have "log2Floor d < 2 ^ 64" using less_trans [OF less_exp [of k]] d64(1) unfolding k by simp
    then show ?thesis using res dm 2 d0 v t d64
      by (auto simp: tryCreateUnsignedConstDivRem_def Let_def divRemOfType_def simp del: One_nat_def
          intro!: type_rules)
  next
    case 3
    have "magic_ok (elementBits t) d (magics (elementBits t) d)" using mg 3 d by (simp add: magics_ok_def)
    then have q: "ofType t (createUnsignedMagicQuotient magics t v d native)"
      by (rule type_magicQuotient [OF t v d])
    then show ?thesis using res dm 3 d0 v t d64
      by (auto simp: tryCreateUnsignedConstDivRem_def Let_def divRemOfType_def simp del: One_nat_def
          intro!: type_rules)
  qed
qed

lemma type_restoringStep:
  assumes t: "numericType t" "elementBits t \<le> 64" and v: "ofType t v" "ofType t d"
    and i: "i < elementBits t" and q: "ofType t q" "ofType t r"
    and res: "restoringStep t v d i (q, r) = (q', r')"
  shows "ofType t q'" and "ofType t r'"
proof -
  have i64: "i < 64" using i t(2) by simp
  then have c: "i < 2 ^ 64" "(1 :: nat) < 2 ^ 64" "2 ^ i < (2 :: nat) ^ 64"
    by (simp_all only: power_strict_increasing_iff) simp_all
  define r1 where "r1 = Binary t OrI (Binary t ShLI r (createShiftAmount t 1))
    (Binary t AndI (Binary t ShRUI v (createShiftAmount t i)) (createScalarConstant (scalarElementType t) 1))"
  define take where "take = createCompare CmpUge r1 d t"
  have r1: "ofType t r1" unfolding r1_def by (intro type_rules t v q c)
  have e: "q' = createSelect t take (Binary t OrI q (createConstantLike t (2 ^ i))) q"
    "r' = createSelect t take (Binary t SubI r1 d) r1"
    using res by (simp_all add: restoringStep_def Let_def r1_def take_def)
  have w: "ofType t (Binary t OrI q (createConstantLike t (2 ^ i)))"
    using q(1) c(3) t(1) by (intro type_binary(1) ofType_operand type_constantLike)
  have s: "ofType t (Binary t SubI r1 d)" using r1 v t(1) by (intro type_binary(1) ofType_operand)
  show "ofType t q'" "ofType t r'"
    unfolding e take_def using w s r1 v q t(1) by (intro type_select ofType_operand; simp)+
qed

lemma type_restoringDivRem:
  assumes t: "numericType t" "elementBits t \<le> 64" and v: "ofType t v" "ofType t d"
  shows "divRemOfType t (createUnsignedRestoringDivRem t v d)"
proof -
  have "ofType t (fst (fold (restoringStep t v d) is' qr)) \<and> ofType t (snd (fold (restoringStep t v d) is' qr))"
    if "\<forall>i \<in> set is'. i < elementBits t" "ofType t (fst qr)" "ofType t (snd qr)" for is' qr
    using that
  proof (induction is' arbitrary: qr)
    case (Cons i rest)
    obtain q r q' r' where qr: "qr = (q, r)" "restoringStep t v d i (q, r) = (q', r')"
      by (metis surj_pair)
    have "ofType t q'" "ofType t r'"
      using type_restoringStep [OF t v _ _ _ qr(2)] Cons.prems qr(1) by simp_all
    then show ?case using Cons qr by simp
  qed simp
  note f = this [of "rev [0 ..< elementBits t]" "(createConstantLike t 0, createConstantLike t 0)"]
  have z: "ofType t (createConstantLike t 0)" using t(1) by (simp add: type_constantLike)
  show ?thesis
    using f z by (simp add: createUnsignedRestoringDivRem_def divRemOfType_def split_beta)
qed

lemma type_correctionStep:
  assumes t: "numericType t" and d: "ofType t d" and q: "ofType t q" "ofType t r"
    and res: "correctionStep t d (q, r) = (q', r')"
  shows "ofType t q'" and "ofType t r'"
proof -
  have e: "q' = createSelect t (createCompare CmpUge r d t) (Binary t AddI q (createConstantLike t 1)) q"
    "r' = createSelect t (createCompare CmpUge r d t) (Binary t SubI r d) r"
    using res by (simp_all add: correctionStep_def Let_def)
  have one: "ofType t (createConstantLike t 1)" using t by (simp add: type_constantLike)
  have w: "ofType t (Binary t AddI q (createConstantLike t 1))" "ofType t (Binary t SubI r d)"
    using q d one t by (auto intro!: type_binary(1) ofType_operand simp del: One_nat_def)
  show "ofType t q'" "ofType t r'"
    unfolding e using w q d t by (intro type_select ofType_operand; simp)+
qed

lemma type_I32DivRem:
  assumes t: "numericType t" "elementBits t = 32" and v: "ofType t v" "ofType t d"
  shows "divRemOfType t (createUnsignedI32DivRem t v d)"
proof -
  define z0 where "z0 = createURecip t d"
  define negYZ where "negYZ = Binary t MulI (createNeg t d) z0"
  define z where "z = Binary t AddI z0 (Binary t MulHUI z0 negYZ)"
  define q where "q = Binary t MulHUI v z"
  define r where "r = Binary t SubI v (Binary t MulI q d)"
  have e: "scalarElementType t = IntegerType 32"
    using t(2) by (simp add: elementBits_def split: elem_type.splits)
  have z0: "ofType t z0"
    using v(2) t(1) e unfolding z0_def createURecip_def asType_id [OF v(2)]
    by (auto simp: ofType_def verifyURecipOp_def numericType_def)
  have n: "ofType t (createNeg t d)"
    unfolding createNeg_def using t(1) v(2) by (intro type_binary(1) type_constantLike ofType_operand) simp_all
  have y: "ofType t negYZ" unfolding negYZ_def by (intro type_binary(1) ofType_operand t n z0)
  have z: "ofType t z" unfolding z_def by (intro type_binary(1) ofType_operand t y z0)
  have q: "ofType t q" unfolding q_def by (intro type_binary(1) ofType_operand t v z)
  have r: "ofType t r" unfolding r_def by (intro type_binary(1) ofType_operand t v q)
  obtain q1 r1 where s1: "correctionStep t d (q, r) = (q1, r1)" by fastforce
  obtain q2 r2 where s2: "correctionStep t d (q1, r1) = (q2, r2)" by fastforce
  note c1 = type_correctionStep [OF t(1) v(2) q r s1]
  note c2 = type_correctionStep [OF t(1) v(2) c1 s2]
  have "createUnsignedI32DivRem t v d = \<lparr>dr_quotient = q2, dr_remainder = r2\<rparr>"
    using s1 s2 by (simp add: createUnsignedI32DivRem_def Let_def z0_def [symmetric] negYZ_def [symmetric]
        z_def [symmetric] q_def [symmetric] r_def [symmetric] numeral_2_eq_2)
  then show ?thesis using c2 by (simp add: divRemOfType_def)
qed

lemma type_unsignedDivRem:
  assumes t: "numericType t" "elementBits t \<le> 64" and v: "operandType t v" "operandType t d"
    and m: "getConstantAPInt d (elementBits t) \<noteq> None \<Longrightarrow> magics_ok magics (elementBits t)"
  shows "divRemOfType t (createUnsignedDivRem magics t v d native)"
proof -
  have o: "ofType t (asType v t)" "ofType t (asType d t)" using t v by (simp_all add: type_asType)
  define general where "general = (if elementBits t = 32 then createUnsignedI32DivRem t (asType v t) (asType d t)
      else createUnsignedRestoringDivRem t (asType v t) (asType d t))"
  have g: "divRemOfType t general"
    unfolding general_def using type_I32DivRem [OF t(1) _ o] type_restoringDivRem [OF t o] by simp
  show ?thesis
  proof (cases "getConstantAPInt d (elementBits t)")
    case None
    then show ?thesis using g by (simp add: createUnsignedDivRem_def Let_def general_def)
  next
    case (Some c)
    have c: "c < 2 ^ elementBits t"
      using getConstantAPInt_value [OF Some, of undefined undefined] v(2)
      by (auto simp: operandType_def exprBits_def)
    show ?thesis
    proof (cases "tryCreateUnsignedConstDivRem magics t (asType v t) c native")
      case None
      then show ?thesis using g Some by (simp add: createUnsignedDivRem_def Let_def general_def)
    next
      case res: (Some res)
      have "divRemOfType t res" using type_constDivRem [OF res t o(1) c] m Some by simp
      then show ?thesis using res Some by (simp add: createUnsignedDivRem_def Let_def)
    qed
  qed
qed

subsection \<open>Signed expansions\<close>

lemma type_signedDivisor:
  assumes t: "numericType t" "elementBits t \<le> 64" and r: "ofType t rhs" and ls: "ofType t ls"
    and res: "signedDivisor t ls rhs dp = (absRhs, qs)"
  shows "ofType t absRhs" and "ofType t qs"
    and "getConstantAPInt absRhs (elementBits t) \<noteq> None \<Longrightarrow> getConstantAPInt rhs (elementBits t) \<noteq> None"
proof -
  note sg = type_sign [OF t(1) r t(2)]
  have "ofType t absRhs \<and> ofType t qs \<and>
    (getConstantAPInt absRhs (elementBits t) \<noteq> None \<longrightarrow> getConstantAPInt rhs (elementBits t) \<noteq> None)"
  proof (cases dp)
    case True
    then show ?thesis using res r ls by (auto simp: signedDivisor_def)
  next
    case dp: False
    show ?thesis
    proof (cases "getConstantAPInt rhs (elementBits t)")
      case None
      have e: "absRhs = Binary t SubI (Binary t XOrI rhs (Binary t ShRSI rhs (createShiftAmount t (elementBits t - 1))))
          (Binary t ShRSI rhs (createShiftAmount t (elementBits t - 1)))"
        "qs = Binary t XOrI ls (Binary t ShRSI rhs (createShiftAmount t (elementBits t - 1)))"
        using res dp None by (simp_all add: signedDivisor_def Let_def)
      have "ofType t qs" unfolding e by (intro type_binary(1) ofType_operand t ls sg(1))
      then show ?thesis using sg(2) by (simp add: e(1))
    next
      case (Some c)
      have c: "c < 2 ^ elementBits t"
        using getConstantAPInt_value [OF Some, of undefined undefined] r by (auto simp: ofType_def exprBits_def)
      have "signedAbs (elementBits t) c < 2 ^ 64"
        using c bits_less_64 [OF t(2) c] bits_less_64 [OF t(2), of "2 ^ elementBits t - c"]
        by (auto simp: signedAbs_def toSigned_def split: if_splits)
      moreover have "(2 ^ 64 - 1 :: nat) < 2 ^ 64" by simp
      ultimately show ?thesis
        using res dp Some ls t(1)
        by (auto simp: signedDivisor_def type_constantLike ofType_operand intro!: type_binary(1))
    qed
  qed
  then show "ofType t absRhs" "ofType t qs"
    "getConstantAPInt absRhs (elementBits t) \<noteq> None \<Longrightarrow> getConstantAPInt rhs (elementBits t) \<noteq> None"
    by blast+
qed

lemma type_signedDivRem:
  assumes t: "numericType t" "elementBits t \<le> 64" and v: "operandType t lhs" "operandType t rhs"
    and m: "getConstantAPInt rhs (elementBits t) \<noteq> None \<Longrightarrow> magics_ok magics (elementBits t)"
  shows "divRemOfType t (createSignedDivRem magics t lhs rhs dp)"
proof -
  have o: "ofType t (asType lhs t)" "ofType t (asType rhs t)" using t v by (simp_all add: type_asType)
  define ls where "ls = Binary t ShRSI (asType lhs t) (createShiftAmount t (elementBits t - 1))"
  define al where "al = Binary t SubI (Binary t XOrI (asType lhs t) ls) ls"
  note sg = type_sign [OF t(1) o(1) t(2), folded ls_def, folded al_def]
  obtain ar qs where d: "signedDivisor t ls (asType rhs t) dp = (ar, qs)" by fastforce
  note dv = type_signedDivisor [OF t o(2) sg(1) d]
  define res where "res = createUnsignedDivRem magics t al ar (getConstantAPInt (asType rhs t) (elementBits t) \<noteq> None)"
  have "divRemOfType t res"
    unfolding res_def using dv sg m by (intro type_unsignedDivRem t ofType_operand) simp_all
  moreover have "createSignedDivRem magics t lhs rhs dp =
    \<lparr>dr_quotient = Binary t SubI (Binary t XOrI (dr_quotient res) qs) qs,
     dr_remainder = Binary t SubI (Binary t XOrI (dr_remainder res) ls) ls\<rparr>"
    using d unfolding createSignedDivRem_def Let_def signedDivisor_def ls_def [symmetric]
      al_def [symmetric]
    by (simp add: res_def split: if_splits option.splits)
  ultimately show ?thesis
    using dv(2) sg(1) t(1) by (auto simp: divRemOfType_def ofType_operand intro!: type_binary(1))
qed

lemma type_signedPow2:
  assumes res: "tryCreateSignedPositivePow2Value t kind lhs c = Some e"
    and t: "numericType t" "elementBits t \<le> 64" and l: "operandType t lhs" and c: "c < 2 ^ elementBits t"
  shows "ofType t e"
proof -
  have c64: "c < 2 ^ 64" "c - 1 < 2 ^ 64" using bits_less_64 [OF t(2) c] by simp_all
  have z: "ofType t (createConstantLike t 0)" "ofType t (createConstantLike t (c - 1))"
    using t(1) c64 by (simp_all add: type_constantLike)
  have p2: "isPowerOf2 c" using res by (auto simp: tryCreateSignedPositivePow2Value_def split: if_splits)
  then obtain k where k: "c = 2 ^ k" using isPowerOf2_iff by blast
  have k64: "k < 2 ^ 64" using c64(1) less_exp [of k] unfolding k by linarith
  define bias where "bias = createSelect t (createCompare CmpSlt lhs (createConstantLike t 0) t)
      (createConstantLike t (c - 1)) (createConstantLike t 0)"
  define q where "q = Binary t ShRSI (Binary t AddI lhs bias) (createShiftAmount t k)"
  have b: "ofType t bias" unfolding bias_def using z l t(1) by (intro type_select; simp add: ofType_operand)
  have q: "ofType t q" unfolding q_def using k64 t(1) l b by (intro type_binary(1) type_shiftAmount type_binary(2))
  have r: "ofType t (Binary t SubI lhs (Binary t ShLI q (createShiftAmount t k)))"
    using k64 q l t(1) by (intro type_binary(2) type_binary(1) type_shiftAmount)
  have "e = asType lhs t \<or> e = createConstantLike t 0 \<or> e = q \<or>
    e = Binary t SubI lhs (Binary t ShLI q (createShiftAmount t k))"
    using res by (auto simp: tryCreateSignedPositivePow2Value_def Let_def k q_def bias_def split: if_splits)
  then show ?thesis using q r z(1) type_asType [OF t(1) l] by blast
qed

subsection \<open>The expansion\<close>

lemma type_dynamicPow2:
  assumes res: "tryCreateDynamicPow2Value pf t kind lhs rhs lp rp = Some e"
    and t: "numericType t" and v: "operandType t lhs" "operandType t rhs"
    and ctz: "scalarElementType t \<in> {IndexType, IntegerType 32, IntegerType 64}"
  shows "ofType t e"
proof (cases "kind = DivUI \<or> kind = DivSI")
  case True
  define s where "s = (case rhs of Splat _ source \<Rightarrow> source | _ \<Rightarrow> rhs)"
  have e: "e = Binary t ShRUI (asType lhs t) (Ctz s)"
    using res True by (auto simp: tryCreateDynamicPow2Value_def s_def Let_def split: if_splits)
  have s: "operandType t s"
    using v(2) t
    by (cases rhs; cases t) (auto simp: s_def operandType_def scalarElementType_def numericType_def)
  then have "verifyCtzOp (typeOf s)"
    using t ctz by (cases t) (auto simp: operandType_def verifyCtzOp_def numericType_def scalarElementType_def)
  then have "operandType t (Ctz s)" using s by (simp add: operandType_def)
  then show ?thesis unfolding e using t v by (intro type_binary(1) type_asType)
next
  case False
  have e: "e = Binary t AndI lhs (Binary t SubI (asType rhs t) (createConstantLike t 1))"
    using res False by (auto simp: tryCreateDynamicPow2Value_def split: if_splits)
  have "ofType t (Binary t SubI (asType rhs t) (createConstantLike t 1))"
    by (intro type_binary(1) type_asType t v ofType_operand [OF type_constantLike]) simp
  then show ?thesis unfolding e by (rule type_binary(2) [OF t v(1)])
qed

lemma type_narrow:
  assumes res: "createNarrowDivRem magics pf kind opLhs opRhs lhs rhs = Some (e, x)"
    and t: "numericType t" "scalarElementType t = IntegerType 32" "typeOf lhs = t"
    and v: "operandType t lhs" "operandType t rhs" and m: "magics_ok magics 32"
  shows "ofType t e"
proof -
  have b: "elementBits t = 32" using t(2) by (simp add: elementBits_def)
  have b64: "elementBits t \<le> 64" using b by simp
  have mg: "magics_ok magics (elementBits t)" using m b by simp
  note u = type_unsignedDivRem [OF t(1) b64 v mg] and s = type_signedDivRem [OF t(1) b64 v mg]
  show ?thesis
    using res t(3) type_dynamicPow2 [OF _ t(1) v] t(2) u [unfolded divRemOfType_def] s [unfolded divRemOfType_def]
    by (auto simp: createNarrowDivRem_def Let_def split: if_splits option.splits)
qed

lemma i32Like_simps [simp]:
  "elementBits (i32Like t) = 32" "numericType (i32Like t)" "scalarElementType (i32Like t) = IntegerType 32"
  by (auto simp: i32Like_def elementBits_def scalarElementType_def numericType_def split: wave_type.split)

lemma type_I32View:
  assumes w: "wellTyped v" and b: "exprBits v = 64" and n: "numericType (typeOf v)"
  shows "ofType (i32Like (typeOf v)) (createI32View v)"
proof (cases "getConstantAPInt v (exprBits v)")
  case (Some c)
  have "c < 2 ^ 64" using getConstantAPInt_value [OF Some w refl, of undefined undefined] b by simp
  then show ?thesis using Some by (simp add: createI32View_def type_constantLike)
next
  case None
  have "verifyIntConvertOp (typeOf v) (i32Like (typeOf v)) None"
    using n b by (auto simp: verifyIntConvertOp_def numericType_def i32Like_def simdWidthOf_def
        verifyWaveCastExtensionPolicy_def exprBits_def elementBits_def scalarElementType_def
        split: wave_type.splits)
  then show ?thesis using None w by (simp add: createI32View_def ofType_def)
qed

lemma i32Like_operand:
  assumes "typeOf r = t \<or> typeOf r = ScalarType (scalarElementType t)" and "numericType t"
  shows "typeOf r = t \<and> i32Like (typeOf r) = i32Like t \<or>
    i32Like (typeOf r) = ScalarType (scalarElementType (i32Like t))"
  using assms by (cases t) (auto simp: i32Like_def scalarElementType_def)

lemma type_I32View_operand:
  assumes o: "operandType t v" and b: "elementBits t = 64" and n: "numericType t"
  shows "operandType (i32Like t) (createI32View v)"
proof -
  have "exprBits v = 64" "numericType (typeOf v)"
    using o b n by (auto simp: operandType_def exprBits_def numericType_def)
  then have "ofType (i32Like (typeOf v)) (createI32View v)"
    using o by (intro type_I32View) (simp_all add: operandType_def)
  then show ?thesis
    using i32Like_operand [of v t] o n by (auto simp: operandType_def ofType_def)
qed

lemma type_expandIndex:
  assumes res: "tryExpandIndexDivRemAsI32 magics pf t kind lhs rhs users = Some (e, replaced)"
    and t: "numericType t" "typeOf lhs = t" and v: "operandType t lhs" "operandType t rhs"
    and m: "magics_ok magics 32"
  shows "ofType t e" and "\<forall>(user, value)\<in>set replaced. ofType (i32Like t) value"
proof -
  have b: "elementBits t = 64"
    using res by (auto simp: tryExpandIndexDivRemAsI32_def canNarrowDivRemTypeToI32_def elementBits_def
        split: if_splits)
  obtain e' x where n: "createNarrowDivRem magics pf kind lhs rhs (createI32View lhs) (createI32View rhs) = Some (e', x)"
    and e: "e = IntConvert t (Some x) e'" and reps: "replaced = replaceNarrowingUsers users e'"
    using res by (auto simp: tryExpandIndexDivRemAsI32_def split: if_splits)
  have lw: "wellTyped lhs" "exprBits lhs = 64" "numericType (typeOf lhs)"
    using v(1) t b by (simp_all add: operandType_def exprBits_def)
  have tl: "typeOf (createI32View lhs) = i32Like t"
    using type_I32View [OF lw] t by (simp add: ofType_def)
  have ty: "ofType (i32Like t) e'"
    by (rule type_narrow [OF n _ _ tl]) (simp_all add: type_I32View_operand v b t m)
  then show "\<forall>(user, value)\<in>set replaced. ofType (i32Like t) value"
    by (auto simp: reps replaceNarrowingUsers_def)
  show "ofType t e"
    using ty t(1) b unfolding e
    by (auto simp: ofType_def verifyIntConvertOp_def numericType_def i32Like_def simdWidthOf_def
        verifyWaveCastExtensionPolicy_def elementBits_def scalarElementType_def split: wave_type.splits)
qed

lemma expandDivRem_cases:
  obtains (narrow) e replaced where "expandDivRem magics pf t kind lhs rhs users = (e, replaced)"
      "tryExpandIndexDivRemAsI32 magics pf t kind lhs rhs users = Some (e, replaced)"
  | (pow2) e where "expandDivRem magics pf t kind lhs rhs users = (e, [])"
      "tryCreateDynamicPow2Value pf t kind lhs rhs lhs rhs = Some e"
  | (unsigned) e where "expandDivRem magics pf t kind lhs rhs users = (e, [])"
      "tryCreateSignedAsUnsignedValue magics pf t kind lhs rhs = Some e"
  | (const_pow2) e where "expandDivRem magics pf t kind lhs rhs users = (e, [])"
      "tryCreateSignedConstPow2Value t kind lhs rhs = Some e"
  | (signed_general) "isSignedDivRem kind" "expandDivRem magics pf t kind lhs rhs users =
      (if kind = DivUI \<or> kind = DivSI
       then dr_quotient (createSignedDivRem magics t lhs rhs (isProvenPositive pf rhs))
       else dr_remainder (createSignedDivRem magics t lhs rhs (isProvenPositive pf rhs)), [])"
  | (unsigned_general) "\<not> isSignedDivRem kind" "expandDivRem magics pf t kind lhs rhs users =
      (if kind = DivUI \<or> kind = DivSI then dr_quotient (createUnsignedDivRem magics t lhs rhs False)
       else dr_remainder (createUnsignedDivRem magics t lhs rhs False), [])"
proof (cases "tryExpandIndexDivRemAsI32 magics pf t kind lhs rhs users")
  case a: None
  show thesis
  proof (cases "tryCreateDynamicPow2Value pf t kind lhs rhs lhs rhs")
    case b: None
    show thesis
    proof (cases "tryCreateSignedAsUnsignedValue magics pf t kind lhs rhs")
      case c: None
      show thesis
      proof (cases "tryCreateSignedConstPow2Value t kind lhs rhs")
        case d: None
        show thesis
          by (cases "isSignedDivRem kind")
            (rule that(5,6), simp, simp add: expandDivRem_def Let_def a b c d)+
      qed (rule that(4), simp add: expandDivRem_def a b c, assumption)
    qed (rule that(3), simp add: expandDivRem_def a b, assumption)
  qed (rule that(2), simp add: expandDivRem_def a, assumption)
next
  case (Some narrowed)
  then show thesis by (cases narrowed) (rule that(1), simp_all add: expandDivRem_def)
qed

text \<open>Only operations on 64-bit elements are narrowed, so only they replace users.\<close>

lemma expandDivRem_wide:
  assumes "elementBits t \<noteq> 64"
  shows "snd (expandDivRem magics pf t kind lhs rhs users) = []"
proof -
  have "tryExpandIndexDivRemAsI32 magics pf t kind lhs rhs users = None"
    using assms by (auto simp: tryExpandIndexDivRemAsI32_def canNarrowDivRemTypeToI32_def elementBits_def)
  then show ?thesis by (simp add: expandDivRem_def Let_def split: option.split)
qed

lemma type_expandDivRem:
  assumes t: "numericType t" "elementBits t \<le> 64" "typeOf lhs = t" and v: "operandType t lhs" "operandType t rhs"
    and m: "\<And>bits. magics_ok magics bits"
    and ctz: "\<exists>lp. pf_positivePow2 pf lp \<Longrightarrow> scalarElementType t \<in> {IndexType, IntegerType 32, IntegerType 64}"
  shows "ofType t (fst (expandDivRem magics pf t kind lhs rhs users)) \<and>
    (\<forall>(user, value)\<in>set (snd (expandDivRem magics pf t kind lhs rhs users)). ofType (i32Like t) value)"
proof -
  have d: "ofType t e" if "tryCreateDynamicPow2Value pf t kind lhs rhs lhs rhs = Some e" for e
  proof -
    have "pf_positivePow2 pf rhs"
      using that by (auto simp: tryCreateDynamicPow2Value_def split: if_splits)
    then show ?thesis using type_dynamicPow2 [OF that t(1) v] ctz by blast
  qed
  note un = type_unsignedDivRem [OF t(1,2) v m] and sg = type_signedDivRem [OF t(1,2) v m]
  have s: "ofType t e" if "tryCreateSignedAsUnsignedValue magics pf t kind lhs rhs = Some e" for e
    using that un [unfolded divRemOfType_def]
    by (auto simp: tryCreateSignedAsUnsignedValue_def Let_def split: if_splits)
  have c: "ofType t e" if h: "tryCreateSignedConstPow2Value t kind lhs rhs = Some e" for e
  proof -
    obtain n where n: "getConstantAPInt rhs (elementBits t) = Some n"
      and e: "tryCreateSignedPositivePow2Value t kind lhs n = Some e"
      using h unfolding tryCreateSignedConstPow2Value_def
      by (cases "isSignedDivRem kind"; cases "getConstantAPInt rhs (elementBits t)") simp_all
    have "n < 2 ^ elementBits t"
      using getConstantAPInt_value [OF n, of undefined undefined] v(2) by (auto simp: operandType_def exprBits_def)
    then show ?thesis by (rule type_signedPow2 [OF e t(1,2) v(1)])
  qed
  show ?thesis
  proof (cases rule: expandDivRem_cases [of magics pf t kind lhs rhs users])
    case narrow
    show ?thesis
      using type_expandIndex [OF narrow(2) t(1,3) v m] by (simp add: narrow(1))
  next
    case pow2
    show ?thesis using d [OF pow2(2)] by (simp add: pow2(1))
  next
    case unsigned
    show ?thesis using s [OF unsigned(2)] by (simp add: unsigned(1))
  next
    case const_pow2
    show ?thesis using c [OF const_pow2(2)] by (simp add: const_pow2(1))
  next
    case signed_general
    show ?thesis unfolding signed_general(2) using sg [unfolded divRemOfType_def] by simp
  next
    case unsigned_general
    show ?thesis unfolding unsigned_general(2) using un [unfolded divRemOfType_def] by simp
  qed
qed

end
