(* ===== verification/Int_Div_Expand.thy ===== *)
theory Int_Div_Expand
  imports Int_Div_Types
begin

text \<open>
  The special cases of the expansion (a signed division by a positive power of two, a divisor
  known to be a power of two, operands known to be non-negative, operands known to fit 32 bits)
  and the whole expansion of one operation: it computes what the constant folder computes.
\<close>

subsection \<open>Signed values modulo the width\<close>

lemma ofSigned_mod: "i mod 2 ^ bits = j mod 2 ^ bits \<Longrightarrow> ofSigned bits i = ofSigned bits j"
  by (simp add: ofSigned_def)

lemma int_ofSigned: "int (ofSigned bits i) = i mod 2 ^ bits"
  by (simp add: ofSigned_def)

lemma ofSigned_int: "n mod 2 ^ bits = ofSigned bits (int n)"
  by (simp add: ofSigned_def nat_mod_distrib nat_power_eq)

lemma ofSigned_add: "(ofSigned bits i + ofSigned bits j) mod 2 ^ bits = ofSigned bits (i + j)"
  unfolding ofSigned_int by (rule ofSigned_mod) (simp add: int_ofSigned mod_add_eq)

lemma ofSigned_sub: "(ofSigned bits i + 2 ^ bits - ofSigned bits j) mod 2 ^ bits = ofSigned bits (i - j)"
proof -
  have le: "ofSigned bits j \<le> ofSigned bits i + 2 ^ bits"
    using ofSigned_less [of bits j] by linarith
  have "int (ofSigned bits i + 2 ^ bits - ofSigned bits j) = i mod 2 ^ bits + 2 ^ bits - j mod 2 ^ bits"
    using le by (simp add: of_nat_diff int_ofSigned)
  then have "int (ofSigned bits i + 2 ^ bits - ofSigned bits j) mod 2 ^ bits = (i - j) mod 2 ^ bits"
    by (metis add_diff_eq diff_add_eq mod_add_self2 mod_diff_eq)
  then show ?thesis unfolding ofSigned_int by (rule ofSigned_mod)
qed

lemma ofSigned_shift: "(ofSigned bits i * 2 ^ k) mod 2 ^ bits = ofSigned bits (i * 2 ^ k)"
  unfolding ofSigned_int by (rule ofSigned_mod) (simp add: int_ofSigned mod_mult_left_eq)

lemma toSigned_of_less: "n < 2 ^ (bits - 1) \<Longrightarrow> 0 < bits \<Longrightarrow> toSigned bits n = int n"
  by (cases bits) (simp_all add: toSigned_def)

lemma toSigned_positive:
  assumes "0 < toSigned bits n" and "n < 2 ^ bits"
  shows "toSigned bits n = int n" and "0 < bits \<Longrightarrow> n < 2 ^ (bits - 1)"
proof -
  show e: "toSigned bits n = int n" using assms by (auto simp: toSigned_def split: if_splits)
  assume "0 < bits"
  then have "int n < 2 ^ (bits - 1)" using toSigned_bounds(2) [OF assms(2)] e by simp
  then show "n < 2 ^ (bits - 1)" by simp
qed

text \<open>A truncating division by a power of two is a shift of the biased numerator.\<close>

lemma sdiv_bias:
  fixes a :: int
  assumes c: "0 < c"
  shows "(a + (if a < 0 then c - 1 else 0)) div c = a sdiv c"
proof (cases "a < 0")
  case True
  have "a sdiv c = - ((- a) div c)"
    using True c by (simp add: signed_divide_int_def sgn_if)
  also have "\<dots> = (a + (c - 1)) div c"
  proof -
    define q r where "q = (- a) div c" and "r = (- a) mod c"
    have a: "- a = c * q + r" "0 \<le> r" "r < c" using c by (simp_all add: q_def r_def)
    have "a + (c - 1) = (c - 1 - r) + (- q) * c" using a(1) by (simp add: algebra_simps)
    then have "(a + (c - 1)) div c = (c - 1 - r) div c - q" using c by (metis add_uminus_conv_diff add.commute div_mult_self1 less_numeral_extra(3))
    moreover have "(c - 1 - r) div c = 0" using a by (intro div_pos_pos_trivial) linarith+
    ultimately show ?thesis by (simp add: q_def)
  qed
  finally show ?thesis using True by simp
next
  case False
  then show ?thesis using c by (cases "a = 0") (simp_all add: signed_divide_int_def sgn_if)
qed

subsection \<open>Signed division by a positive power of two\<close>

text \<open>The signed result of a division of kind \<open>DivSI\<close> or \<open>RemSI\<close>.\<close>

definition signedResult :: "BinaryKind \<Rightarrow> nat \<Rightarrow> int \<Rightarrow> int \<Rightarrow> nat" where
  "signedResult kind bits a b = ofSigned bits (if kind = DivSI then a sdiv b else a smod b)"

lemma toSigned_represents:
  assumes "n < 2 ^ bits" and "0 < bits" and "- (2 ^ (bits - 1)) \<le> i" and "i < 2 ^ (bits - 1)"
    and "n = ofSigned bits i"
  shows "toSigned bits n = i"
  using assms toSigned_ofSigned by simp

lemma eval_signedPow2:
  assumes res: "tryCreateSignedPositivePow2Value t kind lhs c = Some e"
    and l: "evalExpr u env lhs < 2 ^ elementBits t" and c: "c < 2 ^ elementBits t"
    and b: "0 < elementBits t" and kind: "kind = DivSI \<or> kind = RemSI"
  shows "evalExpr u env e =
    signedResult kind (elementBits t) (toSigned (elementBits t) (evalExpr u env lhs)) (toSigned (elementBits t) c)"
proof -
  let ?b = "elementBits t" and ?l = "evalExpr u env lhs"
  define a where "a = toSigned ?b ?l"
  have pos: "0 < toSigned ?b c" and p2: "isPowerOf2 c"
    using res by (auto simp: tryCreateSignedPositivePow2Value_def Let_def split: if_splits)
  note tc = toSigned_positive [OF pos c]
  have z: "evalExpr u env (createConstantLike t 0) = 0" by (rule eval_constantLike) simp
  have la: "?l = ofSigned ?b a" using l by (simp add: a_def)
  note ab = toSigned_bounds [OF l b, folded a_def]
  show ?thesis
  proof (cases "c = 1")
    case True
    then have "e = (if kind = DivSI then asType lhs t else createConstantLike t 0)"
      using res pos p2 by (simp add: tryCreateSignedPositivePow2Value_def)
    then show ?thesis
      using True tc(1) l kind z
      by (auto simp: signedResult_def signed_modulo_int_def) (simp add: ofSigned_def)
  next
    case False
    obtain k where k: "c = 2 ^ k" using p2 isPowerOf2_iff by blast
    have kb: "k < ?b - 1" using tc(2) [OF b] unfolding k by simp
    define bias where "bias = createSelect t (createCompare CmpSlt lhs (createConstantLike t 0) t)
      (createConstantLike t (c - 1)) (createConstantLike t 0)"
    define q where "q = Binary t ShRSI (Binary t AddI lhs bias) (createShiftAmount t k)"
    have e: "e = (if kind = DivSI then q
        else Binary t SubI lhs (Binary t ShLI q (createShiftAmount t k)))"
      using res pos p2 False
      by (simp add: tryCreateSignedPositivePow2Value_def Let_def k q_def bias_def split: if_splits)
    have c1: "evalExpr u env (createConstantLike t (c - 1)) = c - 1"
      using c by (intro eval_constantLike) simp
    have ci: "int (c - 1) = 2 ^ k - 1" by (simp add: k of_nat_diff)
    have bv: "evalExpr u env bias = ofSigned ?b (if a < 0 then 2 ^ k - 1 else 0)"
    proof -
      have "toSigned ?b 0 = 0" by (simp add: toSigned_def)
      then have "evalExpr u env bias = (if a < 0 then c - 1 else 0)"
        unfolding bias_def eval_select eval_compare z c1 by (simp add: evalCmp_def a_def)
      moreover have "c - 1 = ofSigned ?b (2 ^ k - 1)"
        using c unfolding ci [symmetric] by (simp add: ofSigned_int [symmetric])
      ultimately show ?thesis by (simp add: ofSigned_def)
    qed
    define s where "s = a + (if a < 0 then 2 ^ k - 1 else 0)"
    have sum: "evalExpr u env (Binary t AddI lhs bias) = ofSigned ?b s"
      using bv la by (simp add: ofSigned_add s_def)
    have k2: "(2::int) ^ k \<le> 2 ^ (?b - 1)" using kb by (intro power_increasing) auto
    have k1: "(1::int) \<le> 2 ^ k" by simp
    have sb: "- (2 ^ (?b - 1)) \<le> s" "s < 2 ^ (?b - 1)"
      using ab k1 k2 unfolding s_def by (cases "a < 0"; simp only: if_True if_False; linarith)+
    have ev: "evalExpr u env (createShiftAmount t k) = k" using kb by (intro eval_shiftAmount) simp
    have kb': "k < ?b" using kb by simp
    have qv: "evalExpr u env q = ofSigned ?b (a sdiv 2 ^ k)"
      unfolding q_def evalExpr.simps(4) [of u env t ShRSI] ev sum evalBinary_simps(6) [OF kb'] toSigned_ofSigned [OF b sb]
      unfolding s_def by (subst sdiv_bias) simp_all
    have "evalExpr u env (Binary t SubI lhs (Binary t ShLI q (createShiftAmount t k))) =
      ofSigned ?b (a - a sdiv 2 ^ k * 2 ^ k)"
      unfolding evalExpr.simps(4) qv ev evalBinary_simps(4) [OF kb'] evalBinary_simps(2) la
        ofSigned_shift ofSigned_sub by (rule refl)
    then show ?thesis
      using qv tc(1) by (simp add: e signedResult_def a_def [symmetric] k minus_sdiv_mult_eq_smod)
  qed
qed

subsection \<open>Division by a value known to be a power of two\<close>

lemma ctzLoop_power: "k < n \<Longrightarrow> ctzLoop n (2 ^ k) = k"
proof (induction n arbitrary: k)
  case (Suc n)
  then show ?case by (cases k) simp_all
qed simp

text \<open>
  What the answers of the analyses mean: a lower bound and a 32-bit range of the signed value,
  and a positive power of two, each for the value of every expression they are asked about.
\<close>

definition sound_proofs :: "(nat \<Rightarrow> nat) \<Rightarrow> (nat \<Rightarrow> nat) \<Rightarrow> proofs \<Rightarrow> expr list \<Rightarrow> bool" where
  "sound_proofs u env pf asked \<longleftrightarrow>
     (\<forall>e \<in> set asked.
        (\<forall>l. pf_signedLowerBound pf e l \<longrightarrow> l \<le> toSigned (exprBits e) (evalExpr u env e)) \<and>
        (\<forall>l. pf_signedI32Range pf e l \<longrightarrow>
           l \<le> toSigned (exprBits e) (evalExpr u env e) \<and>
           toSigned (exprBits e) (evalExpr u env e) \<le> signedI32Max) \<and>
        (pf_positivePow2 pf e \<longrightarrow>
           (\<exists>k. k + 1 < exprBits e \<and> evalExpr u env e = 2 ^ k)))"

text \<open>The result of a division of any kind on values in which both readings agree.\<close>

definition unsignedResult :: "BinaryKind \<Rightarrow> nat \<Rightarrow> nat \<Rightarrow> nat" where
  "unsignedResult kind a b = (if kind = DivUI \<or> kind = DivSI then a div b else a mod b)"

lemma eval_dynamicPow2:
  assumes res: "tryCreateDynamicPow2Value pf t kind lhs rhs lp rp = Some e"
    and l: "evalExpr u env lhs < 2 ^ elementBits t"
    and r: "evalExpr u env rhs = 2 ^ k" "k < elementBits t" "exprBits rhs = elementBits t"
    and ty: "wellTyped rhs"
  shows "evalExpr u env e = unsignedResult kind (evalExpr u env lhs) (evalExpr u env rhs)"
proof (cases "kind = DivUI \<or> kind = DivSI")
  case True
  define s where "s = (case rhs of Splat _ source \<Rightarrow> source | _ \<Rightarrow> rhs)"
  have e: "e = Binary t ShRUI (asType lhs t) (Ctz s)"
    using res True by (auto simp: tryCreateDynamicPow2Value_def s_def Let_def split: if_splits)
  have "evalExpr u env s = 2 ^ k" "elementBits (typeOf s) = elementBits t"
    using r ty by (auto simp: s_def exprBits_def verifySplatOp_bits split: expr.split)
  then show ?thesis using True r by (simp add: e ctzLoop_power unsignedResult_def)
next
  case False
  have e: "e = Binary t AndI lhs (Binary t SubI (asType rhs t) (createConstantLike t 1))"
    using res False by (auto simp: tryCreateDynamicPow2Value_def split: if_splits)
  have one: "evalExpr u env (createConstantLike t 1) = 1"
    using r(2) by (intro eval_constantLike pos_two_power) linarith
  have "(2 ^ k + 2 ^ elementBits t - 1) mod 2 ^ elementBits t = (2 ^ k - 1 :: nat)"
    using r(2) by (intro sub_exact) simp_all
  then show ?thesis
    using False r by (simp add: e one and_low unsignedResult_def del: One_nat_def)
qed

text \<open>On non-negative operands the signed and the unsigned results agree.\<close>

lemma signed_unsigned_result:
  assumes "0 \<le> toSigned bits a" and "0 \<le> toSigned bits b" and "a < 2 ^ bits" and "b < 2 ^ bits"
  shows "signedResult kind bits (toSigned bits a) (toSigned bits b) =
    (if kind = DivSI then a div b else a mod b)"
proof -
  have s: "toSigned bits a = int a" "toSigned bits b = int b"
    using assms by (auto simp: toSigned_def split: if_splits)
  have d: "int a sdiv int b = int (a div b)" "int a smod int b = int (a mod b)"
    by (cases "a = 0"; cases "b = 0"; simp add: signed_divide_int_def signed_modulo_int_def zdiv_int zmod_int)+
  have "a div b < 2 ^ bits" "a mod b < 2 ^ bits"
    using assms(3) le_less_trans [OF div_le_dividend] le_less_trans [OF mod_less_eq_dividend] by blast+
  then show ?thesis by (simp add: signedResult_def s d ofSigned_int [symmetric])
qed

subsection \<open>Narrowing to 32 bits\<close>

lemma toSigned_narrow:
  assumes n: "n < 2 ^ 64" and lo: "signedI32Min \<le> toSigned 64 n" and hi: "toSigned 64 n \<le> signedI32Max"
  shows "toSigned 32 (n mod 2 ^ 32) = toSigned 64 n"
proof -
  have "int (n mod 2 ^ 32) = toSigned 64 n mod 2 ^ 32"
  proof -
    have "toSigned 64 n mod 2 ^ 32 = int n mod 2 ^ 32"
      unfolding toSigned_def by (cases "2 * n < 2 ^ 64") (simp_all add: mod_diff_right_eq [symmetric])
    then show ?thesis by (simp add: zmod_int)
  qed
  then have "n mod 2 ^ 32 = ofSigned 32 (toSigned 64 n)"
    unfolding ofSigned_def by (metis nat_int)
  then show ?thesis
    using lo hi toSigned_ofSigned [of 32 "toSigned 64 n"]
    by (simp add: signedI32Min_def signedI32Max_def)
qed

lemma eval_I32View:
  assumes w: "wellTyped v" and b: "exprBits v = 64" and n: "numericType (typeOf v)"
    and v: "evalExpr u env v < 2 ^ 64"
  shows "ofType (i32Like (typeOf v)) (createI32View v)"
    and "evalExpr u env (createI32View v) = evalExpr u env v mod 2 ^ 32"
proof -
  have "ofType (i32Like (typeOf v)) (createI32View v) \<and>
      evalExpr u env (createI32View v) = evalExpr u env v mod 2 ^ 32"
  proof (cases "getConstantAPInt v (exprBits v)")
    case (Some c)
    have c: "evalExpr u env v = c" "c < 2 ^ 64"
      using getConstantAPInt_value [OF Some w refl, of u env] b by simp_all
    have m: "maskToBits c 32 = c mod 2 ^ 32" unfolding maskToBits_def and_low by simp
    have e: "createI32View v = createConstantLike (i32Like (typeOf v)) c"
      using Some by (simp add: createI32View_def)
    have "evalExpr u env (createI32View v) = c mod 2 ^ 32"
      using m unfolding e
      by (auto simp: createConstantLike_def createScalarConstant_def i32Like_def elementBits_def
          scalarElementType_def split: wave_type.split)
    then show ?thesis using c unfolding e by (simp add: type_constantLike)
  next
    case None
    have e: "createI32View v = IntConvert (i32Like (typeOf v)) None v"
      using None by (simp add: createI32View_def)
    have "verifyIntConvertOp (typeOf v) (i32Like (typeOf v)) None"
      using n b by (auto simp: verifyIntConvertOp_def numericType_def i32Like_def simdWidthOf_def
          verifyWaveCastExtensionPolicy_def exprBits_def elementBits_def scalarElementType_def
          split: wave_type.splits)
    then show ?thesis
      using w b unfolding e by (simp add: ofType_def foldWaveIntConvert_def exprBits_def)
  qed
  then show "ofType (i32Like (typeOf v)) (createI32View v)"
    "evalExpr u env (createI32View v) = evalExpr u env v mod 2 ^ 32" by blast+
qed

lemma eval_widen:
  assumes n: "n < 2 ^ 32"
  shows "foldWaveIntConvert 32 64 (Some ExtendZero) n = n"
    and "foldWaveIntConvert 32 64 (Some ExtendSign) n = ofSigned 64 (toSigned 32 n)"
  by (simp_all add: foldWaveIntConvert_def)

lemma sdiv_range:
  fixes a b :: int
  assumes a: "signedI32Min \<le> a" "a \<le> signedI32Max" and b: "b \<noteq> 0"
    and o: "\<not> (a = signedI32Min \<and> b = -1)"
  shows "signedI32Min \<le> a sdiv b" "a sdiv b \<le> signedI32Max"
    and "signedI32Min \<le> a smod b" "a smod b \<le> signedI32Max"
proof -
  have q: "0 \<le> \<bar>a\<bar> div \<bar>b\<bar>" "\<bar>a\<bar> div \<bar>b\<bar> \<le> \<bar>a\<bar>" using b
    by (simp_all add: pos_imp_zdiv_nonneg_iff) (metis abs_ge_zero div_by_1 zdiv_mono2 zero_less_abs_iff zero_less_one int_one_le_iff_zero_less)
  have m: "0 \<le> \<bar>a\<bar> mod \<bar>b\<bar>" "\<bar>a\<bar> mod \<bar>b\<bar> \<le> \<bar>a\<bar>" using b
    by (simp_all add: zmod_le_nonneg_dividend)
  have big: "\<bar>a\<bar> div \<bar>b\<bar> \<le> signedI32Max" if "\<not> (a < 0 \<and> 0 < b)" "\<not> (0 \<le> a \<and> b < 0)"
  proof (cases "a = signedI32Min")
    case True
    then have "b \<le> -2" using that o b by (auto simp: signedI32Min_def)
    then have "\<bar>a\<bar> div \<bar>b\<bar> \<le> \<bar>a\<bar> div 2" by (intro zdiv_mono2) auto
    then show ?thesis using True by (simp add: signedI32Min_def signedI32Max_def)
  next
    case False
    then have "\<bar>a\<bar> \<le> signedI32Max" using a by (simp add: signedI32Min_def signedI32Max_def)
    then show ?thesis using q by linarith
  qed
  have ab: "\<bar>a\<bar> \<le> - signedI32Min" using a by (auto simp: signedI32Min_def signedI32Max_def)
  have qm: "\<bar>a\<bar> div \<bar>b\<bar> \<le> - signedI32Min" and mm: "\<bar>a\<bar> mod \<bar>b\<bar> \<le> - signedI32Min"
    using q(2) m(2) ab by linarith+
  show "signedI32Min \<le> a sdiv b" "a sdiv b \<le> signedI32Max"
    using q qm big a b
    by (auto simp: signed_divide_int_def sgn_if signedI32Min_def signedI32Max_def)
  show "signedI32Min \<le> a smod b" "a smod b \<le> signedI32Max"
    using m mm a by (auto simp: signed_modulo_int_def sgn_if signedI32Min_def signedI32Max_def)
qed

subsection \<open>The value an expansion must have\<close>

definition divRemResult :: "BinaryKind \<Rightarrow> nat \<Rightarrow> nat \<Rightarrow> nat \<Rightarrow> nat" where
  "divRemResult kind bits a b =
     (if isSignedDivRem kind then signedResult kind bits (toSigned bits a) (toSigned bits b)
      else unsignedResult kind a b)"

lemma fold_divRemResult:
  assumes "foldWaveBinaryConstants kind bits a b = Some v" and "isDivRem kind"
  shows "b \<noteq> 0" and "v = divRemResult kind bits a b"
  using assms
  by (auto simp: isDivRem_def fold_divrem divRemResult_def isSignedDivRem_def signedResult_def
      unsignedResult_def split: if_splits)

lemma divRemResult_nonneg:
  assumes "isDivRem kind" and "0 \<le> toSigned bits a" and "0 \<le> toSigned bits b"
    and "a < 2 ^ bits" and "b < 2 ^ bits"
  shows "divRemResult kind bits a b = unsignedResult kind a b"
  using assms signed_unsigned_result [OF assms(2-5), of kind]
  by (auto simp: divRemResult_def unsignedResult_def isSignedDivRem_def isDivRem_def)

lemma computesDivRem_result:
  "computesDivRem u env res a b \<Longrightarrow>
   evalExpr u env (if kind = DivUI \<or> kind = DivSI then dr_quotient res else dr_remainder res) =
   unsignedResult kind a b"
  by (simp add: computesDivRem_def unsignedResult_def)

lemma computesSignedDivRem_result:
  "computesSignedDivRem u env bits res a b \<Longrightarrow>
   evalExpr u env (if kind = DivSI then dr_quotient res else dr_remainder res) = signedResult kind bits a b"
  by (simp add: computesSignedDivRem_def signedResult_def)

lemma sound_proofsD:
  assumes "sound_proofs u env pf asked" and "e \<in> set asked"
  shows "pf_signedLowerBound pf e l \<Longrightarrow> l \<le> toSigned (exprBits e) (evalExpr u env e)"
    and "pf_signedI32Range pf e l \<Longrightarrow> l \<le> toSigned (exprBits e) (evalExpr u env e)"
    and "pf_signedI32Range pf e l \<Longrightarrow> toSigned (exprBits e) (evalExpr u env e) \<le> signedI32Max"
    and "pf_positivePow2 pf e \<Longrightarrow> \<exists>k. k + 1 < exprBits e \<and> evalExpr u env e = 2 ^ k"
  using assms unfolding sound_proofs_def by blast+

lemma nonneg_range:
  assumes "0 \<le> toSigned 64 n" and "toSigned 64 n \<le> signedI32Max" and "n < 2 ^ 64"
  shows "n < 2 ^ 31" and "n mod 2 ^ 32 = n"
proof -
  show l: "n < 2 ^ 31"
    using assms by (auto simp: toSigned_def signedI32Max_def split: if_splits)
  show "n mod 2 ^ 32 = n" using l by simp
qed

subsection \<open>The narrowed expansion\<close>

text \<open>The operation: its operands and the type of its left one, which is that of the result.\<close>

definition operationOf ::
    "(nat \<Rightarrow> nat) \<Rightarrow> (nat \<Rightarrow> nat) \<Rightarrow> wave_type \<Rightarrow> BinaryKind \<Rightarrow> expr \<Rightarrow> expr \<Rightarrow> bool" where
  "operationOf u env t kind lhs rhs \<longleftrightarrow>
     numericType t \<and> isDivRem kind \<and> typeOf lhs = t \<and> operandOf u env t lhs \<and>
     operandOf u env t rhs \<and> evalExpr u env rhs \<noteq> 0"

lemma operationOf_views:
  assumes o: "operationOf u env t kind lhs rhs" and b: "elementBits t = 64"
  shows "typeOf (createI32View lhs) = i32Like t"
    and "operandOf u env (i32Like t) (createI32View lhs)"
    and "operandOf u env (i32Like t) (createI32View rhs)"
    and "evalExpr u env (createI32View lhs) = evalExpr u env lhs mod 2 ^ 32"
    and "evalExpr u env (createI32View rhs) = evalExpr u env rhs mod 2 ^ 32"
proof -
  have t: "numericType t" "typeOf lhs = t" "operandOf u env t lhs" "operandOf u env t rhs"
    using o by (simp_all add: operationOf_def)
  have tr: "typeOf rhs = t \<or> typeOf rhs = ScalarType (scalarElementType t)"
    using t(4) by (simp add: operandOf_def)
  have nr: "numericType (typeOf rhs)" using t(1) tr by (auto simp: numericType_def)
  have w: "wellTyped lhs" "wellTyped rhs" "evalExpr u env lhs < 2 ^ 64" "evalExpr u env rhs < 2 ^ 64"
    using t(3,4) b by (simp_all add: operandOf_def)
  have eb: "exprBits lhs = 64" "exprBits rhs = 64"
    using operandOf_bits [OF t(3)] operandOf_bits [OF t(4)] b by simp_all
  have nl: "numericType (typeOf lhs)" using t(1,2) by simp
  note lv = eval_I32View [OF w(1) eb(1) nl w(3)] and rv = eval_I32View [OF w(2) eb(2) nr w(4)]
  show "typeOf (createI32View lhs) = i32Like t" using lv(1) t(2) by (simp add: ofType_def)
  show "evalExpr u env (createI32View lhs) = evalExpr u env lhs mod 2 ^ 32"
    and "evalExpr u env (createI32View rhs) = evalExpr u env rhs mod 2 ^ 32"
    by (rule lv(2), rule rv(2))
  show "operandOf u env (i32Like t) (createI32View lhs)"
    using lv t(2) by (intro operandOf_intro) simp_all
  show "operandOf u env (i32Like t) (createI32View rhs)"
    using rv i32Like_operand [OF tr t(1)]
    by (auto simp: operandOf_def ofType_def)
qed

lemma unsignedResult_le: "unsignedResult kind a b \<le> a"
  by (simp add: unsignedResult_def)

lemma eval_narrow_nonneg:
  assumes o: "operationOf u env t kind lhs rhs" and b: "elementBits t = 64"
    and sound: "sound_proofs u env pf [lhs, rhs]"
    and r: "pf_signedI32Range pf lhs 0" "pf_signedI32Range pf rhs 0"
    and m: "magics_ok magics 32" and est: "reciprocal_estimate u"
    and res: "createNarrowDivRem magics pf kind lhs rhs (createI32View lhs) (createI32View rhs) =
      Some (e, x)"
  shows "x = ExtendZero"
    and "evalExpr u env e = unsignedResult kind (evalExpr u env lhs) (evalExpr u env rhs)"
    and "unsignedResult kind (evalExpr u env lhs) (evalExpr u env rhs) < 2 ^ 32"
proof -
  note v = operationOf_views [OF o b]
  let ?l = "evalExpr u env lhs" and ?r = "evalExpr u env rhs" and ?t = "i32Like t"
  have ops: "operandOf u env t lhs" "operandOf u env t rhs" "?r \<noteq> 0"
    using o by (simp_all add: operationOf_def)
  have eb: "exprBits lhs = 64" "exprBits rhs = 64"
    using operandOf_bits [OF ops(1)] operandOf_bits [OF ops(2)] b by simp_all
  have lt: "?l < 2 ^ 64" "?r < 2 ^ 64" using ops b by (simp_all add: operandOf_def)
  have rg: "0 \<le> toSigned 64 ?l" "toSigned 64 ?l \<le> signedI32Max" "0 \<le> toSigned 64 ?r"
    "toSigned 64 ?r \<le> signedI32Max"
    using sound_proofsD(2,3) [OF sound, of lhs 0] sound_proofsD(2,3) [OF sound, of rhs 0] r eb by simp_all
  note nl = nonneg_range [OF rg(1,2) lt(1)] and nr = nonneg_range [OF rg(3,4) lt(2)]
  have vl: "evalExpr u env (createI32View lhs) = ?l" and vr: "evalExpr u env (createI32View rhs) = ?r"
    using v(4,5) nl(2) nr(2) by simp_all
  show "unsignedResult kind ?l ?r < 2 ^ 32"
    using unsignedResult_le [of kind ?l ?r] nl(1) by simp
  have "x = ExtendZero \<and> evalExpr u env e = unsignedResult kind ?l ?r"
  proof (cases "tryCreateDynamicPow2Value pf ?t kind (createI32View lhs) (createI32View rhs) lhs rhs")
    case (Some p)
    have e: "e = p" "x = ExtendZero" using res r Some v(1) by (simp_all add: createNarrowDivRem_def)
    have pw: "pf_positivePow2 pf rhs"
      using Some by (auto simp: tryCreateDynamicPow2Value_def split: if_splits)
    obtain k where k: "?r = 2 ^ k" using sound_proofsD(4) [OF sound, of rhs] pw by auto
    have k31: "k < 31" using nr(1) unfolding k by (subst (asm) power_strict_increasing_iff) simp_all
    have "evalExpr u env p = unsignedResult kind ?l ?r"
      using eval_dynamicPow2 [OF Some, of u env k] vl vr k k31 nl(1) v(3) operandOf_bits [OF v(3)]
      by (simp add: operandOf_def)
    then show ?thesis using e by simp
  next
    case None
    define res' where "res' = createUnsignedDivRem magics ?t (createI32View lhs) (createI32View rhs) False"
    have e: "e = (if kind = DivUI \<or> kind = DivSI then dr_quotient res' else dr_remainder res')"
      "x = ExtendZero"
      using res r None by (auto simp: createNarrowDivRem_def Let_def res'_def v(1))
    have c: "computesDivRem u env res' ?l ?r"
      unfolding res'_def vl [symmetric] vr [symmetric]
      using m est vr ops(3) by (intro eval_unsignedDivRem v) simp_all
    show ?thesis using e computesDivRem_result [OF c, of kind] by simp
  qed
  then show "x = ExtendZero"
    "evalExpr u env e = unsignedResult kind (evalExpr u env lhs) (evalExpr u env rhs)" by blast+
qed

lemma eval_narrow_signed_value:
  assumes o: "operationOf u env t kind lhs rhs" and b: "elementBits t = 64"
    and sound: "sound_proofs u env pf [lhs, rhs]"
    and nonneg: "\<not> (pf_signedI32Range pf lhs 0 \<and> pf_signedI32Range pf rhs 0)"
    and m: "magics_ok magics 32" and est: "reciprocal_estimate u"
    and res: "createNarrowDivRem magics pf kind lhs rhs (createI32View lhs) (createI32View rhs) =
      Some (e, x)"
  shows "x = ExtendSign" and "isSignedDivRem kind"
    and "evalExpr u env e = signedResult kind 32
      (toSigned 64 (evalExpr u env lhs)) (toSigned 64 (evalExpr u env rhs))"
    and "signedI32Min \<le> toSigned 64 (evalExpr u env lhs)" and "toSigned 64 (evalExpr u env lhs) \<le> signedI32Max"
    and "toSigned 64 (evalExpr u env rhs) \<noteq> 0"
proof -
  note v = operationOf_views [OF o b]
  let ?l = "evalExpr u env lhs" and ?r = "evalExpr u env rhs" and ?t = "i32Like t"
  let ?a = "toSigned 64 ?l" and ?b = "toSigned 64 ?r"
  have ops: "operandOf u env t lhs" "operandOf u env t rhs" "?r \<noteq> 0"
    using o by (simp_all add: operationOf_def)
  have eb: "exprBits lhs = 64" "exprBits rhs = 64"
    using operandOf_bits [OF ops(1)] operandOf_bits [OF ops(2)] b by simp_all
  have lt: "?l < 2 ^ 64" "?r < 2 ^ 64" using ops b by (simp_all add: operandOf_def)
  have c: "isSignedDivRem kind" "pf_signedI32Range pf lhs signedI32Min" "pf_signedI32Range pf rhs signedI32Min"
    using res nonneg by (auto simp: createNarrowDivRem_def split: if_splits)
  define res' where "res' = createSignedDivRem magics ?t (createI32View lhs) (createI32View rhs) (isProvenPositive pf rhs)"
  have e: "e = (if kind = DivSI then dr_quotient res' else dr_remainder res')" "x = ExtendSign"
    using res nonneg c v(1) unfolding createNarrowDivRem_def Let_def res'_def by auto
  have rg: "signedI32Min \<le> ?a" "?a \<le> signedI32Max" "signedI32Min \<le> ?b" "?b \<le> signedI32Max"
    using sound_proofsD(2,3) [OF sound, of lhs signedI32Min] sound_proofsD(2,3) [OF sound, of rhs signedI32Min]
      c eb by simp_all
  have sl: "toSigned 32 (evalExpr u env (createI32View lhs)) = ?a"
    and sr: "toSigned 32 (evalExpr u env (createI32View rhs)) = ?b"
    using v(4,5) toSigned_narrow [OF lt(1) rg(1,2)] toSigned_narrow [OF lt(2) rg(3,4)] by simp_all
  have b0: "?b \<noteq> 0" using ops(3) lt(2) by (auto simp: toSigned_def split: if_splits)
  have r0: "evalExpr u env (createI32View rhs) \<noteq> 0"
  proof
    assume "evalExpr u env (createI32View rhs) = 0"
    then have "toSigned 32 (evalExpr u env (createI32View rhs)) = 0" by (simp add: toSigned_def)
    then show False using sr b0 by simp
  qed
  have pos: "isProvenPositive pf rhs \<Longrightarrow> 0 < ?b"
    using sound_proofsD(1) [OF sound, of rhs 1] eb by (simp add: isProvenPositive_def)
  have cs: "computesSignedDivRem u env 32 res' ?a ?b"
    using eval_signedDivRem [OF _ _ _ v(2,3) r0, of "isProvenPositive pf rhs" magics] m est pos
    by (simp add: sl sr res'_def)
  have ev: "evalExpr u env e = signedResult kind 32 ?a ?b"
    unfolding e by (rule computesSignedDivRem_result [OF cs])
  show "x = ExtendSign" "isSignedDivRem kind" by (rule e(2), rule c(1))
  show "evalExpr u env e = signedResult kind 32 ?a ?b" "signedI32Min \<le> ?a" "?a \<le> signedI32Max" "?b \<noteq> 0"
    by (rule ev, rule rg(1), rule rg(2), rule b0)
qed

lemma eval_narrow_signed:
  assumes o: "operationOf u env t kind lhs rhs" and b: "elementBits t = 64"
    and sound: "sound_proofs u env pf [lhs, rhs]"
    and nonneg: "\<not> (pf_signedI32Range pf lhs 0 \<and> pf_signedI32Range pf rhs 0)"
    and m: "magics_ok magics 32" and est: "reciprocal_estimate u"
    and res: "createNarrowDivRem magics pf kind lhs rhs (createI32View lhs) (createI32View rhs) =
      Some (e, x)"
    and o2: "\<not> (kind = DivSI \<and> toSigned 64 (evalExpr u env lhs) = signedI32Min \<and>
      toSigned 64 (evalExpr u env rhs) = -1)"
  shows "x = ExtendSign" and "isSignedDivRem kind"
    and "toSigned 32 (evalExpr u env e) =
      (if kind = DivSI then toSigned 64 (evalExpr u env lhs) sdiv toSigned 64 (evalExpr u env rhs)
       else toSigned 64 (evalExpr u env lhs) smod toSigned 64 (evalExpr u env rhs))"
    and "evalExpr u env e < 2 ^ 32"
proof -
  let ?a = "toSigned 64 (evalExpr u env lhs)" and ?b = "toSigned 64 (evalExpr u env rhs)"
  note V = eval_narrow_signed_value [OF o b sound nonneg m est res]
  note c = V(2) and ev = V(3) and rg = V(4,5) and b0 = V(6)
  have range: "signedI32Min \<le> (if kind = DivSI then ?a sdiv ?b else ?a smod ?b)"
    "(if kind = DivSI then ?a sdiv ?b else ?a smod ?b) \<le> signedI32Max"
  proof -
    have "signedI32Min \<le> i \<and> i \<le> signedI32Max"
      if "i = (if kind = DivSI then ?a sdiv ?b else ?a smod ?b)" for i
    proof (cases "?a = signedI32Min \<and> ?b = -1")
      case True
      then show ?thesis using o2 that
        by (auto simp: signed_modulo_int_def signedI32Min_def signedI32Max_def)
    next
      case False
      then show ?thesis using sdiv_range [OF rg b0 False] that by simp
    qed
    then show "signedI32Min \<le> (if kind = DivSI then ?a sdiv ?b else ?a smod ?b)"
      "(if kind = DivSI then ?a sdiv ?b else ?a smod ?b) \<le> signedI32Max" by blast+
  qed
  show "x = ExtendSign" "isSignedDivRem kind" by (rule V(1), rule c)
  show "toSigned 32 (evalExpr u env e) = (if kind = DivSI then ?a sdiv ?b else ?a smod ?b)"
    unfolding ev signedResult_def
    using range by (intro toSigned_ofSigned) (simp_all add: signedI32Min_def signedI32Max_def)
  show "evalExpr u env e < 2 ^ 32" unfolding ev signedResult_def by (rule ofSigned_less)
qed

lemma narrow_of_extension:
  assumes "x < 2 ^ 32"
  shows "foldWaveIntConvert 32 64 (Some ext) x mod 2 ^ 32 = x"
proof (cases "ext = ExtendZero \<or> x < 2147483648")
  case True
  then show ?thesis
    using assms by (cases ext) (auto simp: foldWaveIntConvert_def ofSigned_def toSigned_def)
next
  case False
  have "(int x - 4294967296) mod 18446744073709551616 =
      (int x - 4294967296 + 18446744073709551616) mod 18446744073709551616"
    by (simp only: mod_add_self2)
  also have "\<dots> = int (x + 4294967296 * 4294967295)" using assms by simp
  finally have "nat ((int x - 4294967296) mod 18446744073709551616) = x + 4294967296 * 4294967295"
    by (simp only: nat_int)
  then have "nat ((int x - 4294967296) mod 18446744073709551616) mod 4294967296 = x"
    using assms by (simp only: mod_mult_self2) simp
  then show ?thesis
    using assms False by (cases ext) (auto simp: foldWaveIntConvert_def ofSigned_def toSigned_def)
qed

lemma eval_expandIndex:
  assumes res: "tryExpandIndexDivRemAsI32 magics pf t kind lhs rhs users = Some (e, replaced)"
    and o: "operationOf u env t kind lhs rhs"
    and sound: "sound_proofs u env pf [lhs, rhs]"
    and m: "magics_ok magics 32" and est: "reciprocal_estimate u"
    and o2: "\<not> (kind = DivSI \<and> toSigned 64 (evalExpr u env lhs) = signedI32Min \<and>
      toSigned 64 (evalExpr u env rhs) = -1)"
  shows "evalExpr u env e = divRemResult kind (elementBits t) (evalExpr u env lhs) (evalExpr u env rhs)"
    and "\<forall>(user, value)\<in>set replaced. evalExpr u env value = evalExpr u env e mod 2 ^ 32"
proof -
  let ?l = "evalExpr u env lhs" and ?r = "evalExpr u env rhs"
  have b: "elementBits t = 64"
    using res by (auto simp: tryExpandIndexDivRemAsI32_def canNarrowDivRemTypeToI32_def elementBits_def
        split: if_splits)
  have ops: "operandOf u env t lhs" "operandOf u env t rhs" "isDivRem kind" "numericType t"
    using o by (simp_all add: operationOf_def)
  have lt: "?l < 2 ^ 64" "?r < 2 ^ 64" using ops b by (simp_all add: operandOf_def)
  obtain e' x where n: "createNarrowDivRem magics pf kind lhs rhs (createI32View lhs) (createI32View rhs) = Some (e', x)"
    and e: "e = IntConvert t (Some x) e'" and reps: "replaced = replaceNarrowingUsers users e'"
    using res by (auto simp: tryExpandIndexDivRemAsI32_def split: if_splits)
  note v = operationOf_views [OF o b]
  have ty: "ofType (i32Like t) e'"
    using v by (intro type_narrow [OF n _ _ v(1)]) (simp_all add: m operandOf_type)
  then have eb: "elementBits (typeOf e') = 32" by (simp add: ofType_def)
  have small: "evalExpr u env e' < 2 ^ 32"
  proof (cases "pf_signedI32Range pf lhs 0 \<and> pf_signedI32Range pf rhs 0")
    case True
    then show ?thesis using eval_narrow_nonneg [OF o b sound _ _ m est n] by simp
  next
    case False
    show ?thesis by (rule eval_narrow_signed(4) [OF o b sound False m est n o2])
  qed
  show "\<forall>(user, value)\<in>set replaced. evalExpr u env value = evalExpr u env e mod 2 ^ 32"
    using narrow_of_extension [OF small] by (auto simp: reps e eb b replaceNarrowingUsers_def)
  show "evalExpr u env e = divRemResult kind (elementBits t) ?l ?r"
  proof (cases "pf_signedI32Range pf lhs 0 \<and> pf_signedI32Range pf rhs 0")
    case True
    note N = eval_narrow_nonneg [OF o b sound _ _ m est n]
    have rg: "0 \<le> toSigned 64 ?l" "0 \<le> toSigned 64 ?r"
      using sound_proofsD(2) [OF sound, of lhs 0] sound_proofsD(2) [OF sound, of rhs 0] True
        operandOf_bits [OF ops(1)] operandOf_bits [OF ops(2)] b by simp_all
    have "evalExpr u env e = unsignedResult kind ?l ?r"
      using N True by (simp add: e eb b foldWaveIntConvert_def)
    then show ?thesis using divRemResult_nonneg [OF ops(3) rg lt] b by simp
  next
    case False
    note S = eval_narrow_signed [OF o b sound False m est n o2]
    have "evalExpr u env e = ofSigned 64 (toSigned 32 (evalExpr u env e'))"
      using S(1) by (simp add: e eb b foldWaveIntConvert_def)
    then show ?thesis using S(2,3) b by (simp add: divRemResult_def signedResult_def)
  qed
qed

subsection \<open>The expansion\<close>

lemma eval_signedAsUnsigned:
  assumes res: "tryCreateSignedAsUnsignedValue magics pf t kind lhs rhs = Some e"
    and o: "operationOf u env t kind lhs rhs" and sound: "sound_proofs u env pf [lhs, rhs]"
    and b: "1 < elementBits t" "even (elementBits t)" and m: "\<And>bits. magics_ok magics bits"
    and est: "reciprocal_estimate u"
  shows "evalExpr u env e = divRemResult kind (elementBits t) (evalExpr u env lhs) (evalExpr u env rhs)"
proof -
  let ?l = "evalExpr u env lhs" and ?r = "evalExpr u env rhs"
  have ops: "operandOf u env t lhs" "operandOf u env t rhs" "isDivRem kind" "0 < ?r"
    using o by (simp_all add: operationOf_def)
  have c: "isSignedDivRem kind" "isProvenNonNegative pf lhs" "isProvenPositive pf rhs"
    and e: "e = (if kind = DivSI then dr_quotient (createUnsignedDivRem magics t lhs rhs True)
      else dr_remainder (createUnsignedDivRem magics t lhs rhs True))"
    using res by (auto simp: tryCreateSignedAsUnsignedValue_def Let_def split: if_splits)
  have "0 \<le> toSigned (elementBits t) ?l" "1 \<le> toSigned (elementBits t) ?r"
    using sound_proofsD(1) [OF sound, of lhs 0] sound_proofsD(1) [OF sound, of rhs 1] c
      operandOf_bits [OF ops(1)] operandOf_bits [OF ops(2)]
    by (simp_all add: isProvenNonNegative_def isProvenPositive_def)
  then have r: "divRemResult kind (elementBits t) ?l ?r = unsignedResult kind ?l ?r"
    using ops by (intro divRemResult_nonneg) (simp_all add: operandOf_def)
  have "computesDivRem u env (createUnsignedDivRem magics t lhs rhs True) ?l ?r"
    using b m est by (intro eval_unsignedDivRem ops) simp_all
  then show ?thesis
    using c(1) by (auto simp: r e computesDivRem_def unsignedResult_def isSignedDivRem_def)
qed

lemma eval_signedConstPow2:
  assumes res: "tryCreateSignedConstPow2Value t kind lhs rhs = Some e"
    and o: "operationOf u env t kind lhs rhs" and b: "1 < elementBits t"
  shows "evalExpr u env e = divRemResult kind (elementBits t) (evalExpr u env lhs) (evalExpr u env rhs)"
proof -
  have ops: "operandOf u env t lhs" "operandOf u env t rhs"
    using o by (simp_all add: operationOf_def)
  have k: "isSignedDivRem kind" using res by (auto simp: tryCreateSignedConstPow2Value_def split: if_splits)
  obtain c where c: "getConstantAPInt rhs (elementBits t) = Some c"
    and e: "tryCreateSignedPositivePow2Value t kind lhs c = Some e"
    using res k unfolding tryCreateSignedConstPow2Value_def
    by (cases "getConstantAPInt rhs (elementBits t)") simp_all
  have cv: "evalExpr u env rhs = c" "c < 2 ^ elementBits t"
    using getConstantAPInt_value [OF c _ operandOf_bits [OF ops(2)], of u env] ops(2)
    by (simp_all add: operandOf_def)
  show ?thesis
    using eval_signedPow2 [OF e _ cv(2), of u env] ops(1) b k cv(1)
    by (simp add: divRemResult_def operandOf_def isSignedDivRem_def)
qed

lemma eval_dynamicPow2_operation:
  assumes res: "tryCreateDynamicPow2Value pf t kind lhs rhs lhs rhs = Some e"
    and o: "operationOf u env t kind lhs rhs" and sound: "sound_proofs u env pf [lhs, rhs]"
  shows "evalExpr u env e = divRemResult kind (elementBits t) (evalExpr u env lhs) (evalExpr u env rhs)"
proof -
  let ?l = "evalExpr u env lhs" and ?r = "evalExpr u env rhs"
  have ops: "operandOf u env t lhs" "operandOf u env t rhs" "isDivRem kind"
    using o by (simp_all add: operationOf_def)
  note bits = operandOf_bits [OF ops(1)] operandOf_bits [OF ops(2)]
  have pw: "pf_positivePow2 pf rhs" and nn: "isSignedDivRem kind \<Longrightarrow> isProvenNonNegative pf lhs"
    using res by (auto simp: tryCreateDynamicPow2Value_def split: if_splits)
  obtain k where k: "k + 1 < elementBits t" "?r = 2 ^ k"
    using sound_proofsD(4) [OF sound, of rhs] pw bits by auto
  have "evalExpr u env e = unsignedResult kind ?l ?r"
    using k bits ops by (intro eval_dynamicPow2 [OF res, of u env k]) (simp_all add: operandOf_def)
  moreover have "divRemResult kind (elementBits t) ?l ?r = unsignedResult kind ?l ?r"
  proof (cases "isSignedDivRem kind")
    case True
    have "0 \<le> toSigned (elementBits t) ?l"
      using sound_proofsD(1) [OF sound, of lhs 0] nn [OF True] bits by (simp add: isProvenNonNegative_def)
    moreover have "0 \<le> toSigned (elementBits t) ?r"
    proof -
      have "(2::nat) * 2 ^ k < 2 ^ elementBits t"
        using k(1) by (metis Suc_eq_plus1 power_Suc power_strict_increasing_iff one_less_numeral_iff semiring_norm(76))
      then show ?thesis by (simp add: k(2) toSigned_def)
    qed
    ultimately show ?thesis using ops by (intro divRemResult_nonneg) (simp_all add: operandOf_def)
  qed (simp add: divRemResult_def)
  ultimately show ?thesis by simp
qed

lemma eval_expandDivRem:
  assumes o: "operationOf u env t kind lhs rhs" and sound: "sound_proofs u env pf [lhs, rhs]"
    and b: "1 < elementBits t" "elementBits t \<le> 64" "even (elementBits t)"
    and m: "\<And>bits. magics_ok magics bits" and est: "reciprocal_estimate u"
    and o2: "elementBits t = 64 \<Longrightarrow> kind = DivSI \<Longrightarrow>
      \<not> (toSigned 64 (evalExpr u env lhs) = signedI32Min \<and> toSigned 64 (evalExpr u env rhs) = -1)"
  shows "evalExpr u env (fst (expandDivRem magics pf t kind lhs rhs users)) =
      divRemResult kind (elementBits t) (evalExpr u env lhs) (evalExpr u env rhs) \<and>
    (\<forall>(user, value)\<in>set (snd (expandDivRem magics pf t kind lhs rhs users)).
      evalExpr u env value =
        divRemResult kind (elementBits t) (evalExpr u env lhs) (evalExpr u env rhs) mod 2 ^ 32)"
proof -
  let ?l = "evalExpr u env lhs" and ?r = "evalExpr u env rhs"
  have ops: "operandOf u env t lhs" "operandOf u env t rhs" "isDivRem kind" "0 < ?r" "numericType t"
    using o by (simp_all add: operationOf_def)
  note bits = operandOf_bits [OF ops(1)] operandOf_bits [OF ops(2)]
  show ?thesis
  proof (cases rule: expandDivRem_cases [of magics pf t kind lhs rhs users])
    case narrow
    have "elementBits t = 64"
      using narrow(2) by (auto simp: tryExpandIndexDivRemAsI32_def canNarrowDivRemTypeToI32_def
          elementBits_def split: if_splits)
    then have no: "\<not> (kind = DivSI \<and> toSigned 64 ?l = signedI32Min \<and> toSigned 64 ?r = -1)"
      using o2 by blast
    note n = eval_expandIndex [OF narrow(2) o sound m est no]
    show ?thesis using n(2) unfolding narrow(1) fst_conv snd_conv n(1) by blast
  next
    case pow2
    show ?thesis using eval_dynamicPow2_operation [OF pow2(2) o sound] by (simp add: pow2(1))
  next
    case unsigned
    show ?thesis using eval_signedAsUnsigned [OF unsigned(2) o sound b(1,3) m est] by (simp add: unsigned(1))
  next
    case const_pow2
    show ?thesis using eval_signedConstPow2 [OF const_pow2(2) o b(1)] by (simp add: const_pow2(1))
  next
    case signed_general
    have pos: "isProvenPositive pf rhs \<Longrightarrow> 0 < toSigned (elementBits t) ?r"
      using sound_proofsD(1) [OF sound, of rhs 1] bits by (simp add: isProvenPositive_def)
    have "computesSignedDivRem u env (elementBits t)
        (createSignedDivRem magics t lhs rhs (isProvenPositive pf rhs))
        (toSigned (elementBits t) ?l) (toSigned (elementBits t) ?r)"
      using ops b m est pos by (intro eval_signedDivRem) simp_all
    then show ?thesis
      using signed_general ops(3)
      by (auto simp: computesSignedDivRem_def divRemResult_def signedResult_def isSignedDivRem_def)
  next
    case unsigned_general
    have "computesDivRem u env (createUnsignedDivRem magics t lhs rhs False) ?l ?r"
      using ops b m est by (intro eval_unsignedDivRem) simp_all
    then show ?thesis
      using unsigned_general by (simp add: computesDivRem_def divRemResult_def unsignedResult_def)
  qed
qed

end
