(* ===== verification/Int_Div_Props.thy ===== *)
theory Int_Div_Props
  imports Int_Div_Expand "HOL-Library.Code_Target_Nat"
begin

text \<open>
  The properties of the division expansions, and the inputs on which they do not hold. The
  concrete instances use \<open>roundUpMagics\<close> for LLVM's magic numbers and the exact reciprocal for
  the estimate of the machine.
\<close>

subsection \<open>Concrete parameters\<close>

definition exactRecip :: "nat \<Rightarrow> nat" where
  "exactRecip d = min (4294967296 div d) 4294967295"

lemma exactRecip_estimate: "reciprocal_estimate exactRecip"
  unfolding reciprocal_estimate_def
proof (intro allI impI)
  fix d :: nat
  assume d: "0 < d" "d < 4294967296"
  show "exactRecip d < 4294967296 \<and> exactRecip d * d \<le> 4294967296 \<and>
    4294967296 \<le> (exactRecip d + 1) * d + 32768"
  proof (cases "d = 1")
    case False
    then have "4294967296 div d \<le> 4294967296 div 2" using d by (intro div_le_mono2) simp_all
    then have e: "exactRecip d = 4294967296 div d" by (simp add: exactRecip_def)
    have "4294967296 < (4294967296 div d + 1) * d" using dividend_less_div_times [of d 4294967296] d by simp
    moreover have "4294967296 div d * d \<le> 4294967296" by (rule div_times_less_eq_dividend)
    ultimately show ?thesis using e \<open>4294967296 div d \<le> 4294967296 div 2\<close> by simp
  qed (simp add: exactRecip_def)
qed

definition noProofs :: proofs where
  "noProofs = \<lparr>pf_signedLowerBound = (\<lambda>e l. False), pf_signedI32Range = (\<lambda>e l. False),
     pf_positivePow2 = (\<lambda>e. False)\<rparr>"

text \<open>The analysis that knows the 32-bit range of every operand, and nothing else.\<close>

definition rangeProofs :: "int \<Rightarrow> proofs" where
  "rangeProofs lower = \<lparr>pf_signedLowerBound = (\<lambda>e l. False),
     pf_signedI32Range = (\<lambda>e l. l \<le> lower), pf_positivePow2 = (\<lambda>e. False)\<rparr>"

lemma noProofs_sound: "sound_proofs u env noProofs asked"
  by (simp add: sound_proofs_def noProofs_def)

abbreviation i64 :: wave_type where "i64 \<equiv> ScalarType (IntegerType 64)"
abbreviation i32 :: wave_type where "i32 \<equiv> ScalarType (IntegerType 32)"

subsection \<open>The expansion\<close>

text \<open>C3: The expansion of an integer division or remainder of any of the four kinds
  (\<^verbatim>\<open>expandDivRem\<close>) computes what the operation means, under these conditions: the element
  width \<open>b\<close> is even, above 1 and at most 64; the left operand has the type of the result; the
  range and power-of-two analyses answer soundly; the magic numbers of LLVM and the reciprocal
  estimate of the machine keep their contracts; and the operation is not the 64-bit signed
  quotient of the least 32-bit value by minus one. Then, for all values of the operands on which
  the constant folder gives a result \<open>v\<close> (so not a division by zero nor the overflowing signed
  division), whichever of the narrowed, power-of-two, magic-number, reciprocal, restoring and
  sign-corrected forms is built, the expression evaluates to \<open>v\<close>, and every conversion of the
  result to 32-bit elements that the narrowed form replaces gets the value of that conversion.
  The conditions are needed: \<open>odd_width_magic_wrong\<close> and \<open>narrow_quotient_overflows\<close> below
  show wrong results at an odd width and for the excluded quotient.\<close>

theorem expansion_correct:
  assumes "numericType t" and "isDivRem kind" and "typeOf lhs = t"
    and "operandOf u env t lhs" and "operandOf u env t rhs"
    and "1 < elementBits t" and "elementBits t \<le> 64" and "even (elementBits t)"
    and "sound_proofs u env pf [lhs, rhs]"
    and "\<And>bits. magics_ok magics bits" and "reciprocal_estimate u"
    and "elementBits t = 64 \<Longrightarrow> kind = DivSI \<Longrightarrow>
      \<not> (toSigned 64 (evalExpr u env lhs) = signedI32Min \<and> toSigned 64 (evalExpr u env rhs) = -1)"
    and fold: "foldWaveBinaryConstants kind (elementBits t) (evalExpr u env lhs) (evalExpr u env rhs) = Some v"
  shows "evalExpr u env (fst (expandDivRem magics pf t kind lhs rhs users)) = v \<and>
    (\<forall>(user, value)\<in>set (snd (expandDivRem magics pf t kind lhs rhs users)).
      evalExpr u env value = foldWaveIntConvert (elementBits t) 32 None v)"
proof -
  have v: "divRemResult kind (elementBits t) (evalExpr u env lhs) (evalExpr u env rhs) = v"
    and o: "operationOf u env t kind lhs rhs"
    using assms fold_divRemResult [OF fold] by (simp_all add: operationOf_def)
  have e: "evalExpr u env (fst (expandDivRem magics pf t kind lhs rhs users)) = v \<and>
    (\<forall>(user, value)\<in>set (snd (expandDivRem magics pf t kind lhs rhs users)).
      evalExpr u env value = v mod 2 ^ 32)"
    unfolding v [symmetric] using assms by (intro eval_expandDivRem [OF o]) blast+
  show ?thesis
  proof (cases "elementBits t = 64")
    case True
    then show ?thesis using e by (simp add: foldWaveIntConvert_def)
  next
    case False
    then have "snd (expandDivRem magics pf t kind lhs rhs users) = []"
      using expandDivRem_wide [of t magics pf kind lhs rhs users] by blast
    then show ?thesis using e by simp
  qed
qed

theorem expansion_correct_witness:
  "evalExpr exactRecip (\<lambda>i. if i = 0 then 2 ^ 64 - 7 else 2)
     (fst (expandDivRem roundUpMagics noProofs i64 RemSI (Operand 0 i64) (Operand 1 i64) [])) = 2 ^ 64 - 1"
proof (rule expansion_correct [THEN conjunct1])
  show "foldWaveBinaryConstants RemSI (elementBits i64)
      (evalExpr exactRecip (\<lambda>i. if i = 0 then 2 ^ 64 - 7 else 2) (Operand 0 i64))
      (evalExpr exactRecip (\<lambda>i. if i = 0 then 2 ^ 64 - 7 else 2) (Operand 1 i64)) = Some (2 ^ 64 - 1)"
    by code_simp
qed (simp_all add: numericType_def isDivRem_def operandOf_def elementBits_def scalarElementType_def
    noProofs_sound roundUpMagics_ok exactRecip_estimate)

text \<open>C31: The expansion builds valid IR of the right type, under these conditions: the elements
  have at most 64 bits; the left operand has the type of the result (so not a uniform left with a
  SIMD right operand) and the right operand that type or its scalar element; LLVM's magic numbers
  keep their contract; and a divisor is taken for a power of two only on the element types that
  count-trailing-zeros accepts. Then every operation of the expression that \<^verbatim>\<open>expandDivRem\<close> builds
  passes its verifier, the expression has the type of the operation it replaces, and the values
  that replace narrowing users are valid and have the 32-bit type of the same shape. The
  conditions are needed: \<open>narrow_uniform_ill_typed\<close> and \<open>pow2_narrow_width_ill_typed\<close> below
  show the invalid IR built without them.\<close>

theorem expansion_well_typed:
  assumes "numericType t" and "elementBits t \<le> 64" and "typeOf lhs = t"
    and "wellTyped lhs" and "wellTyped rhs"
    and "typeOf rhs = t \<or> typeOf rhs = ScalarType (scalarElementType t)"
    and "\<And>bits. magics_ok magics bits"
    and "\<exists>e. pf_positivePow2 pf e \<Longrightarrow> scalarElementType t \<in> {IndexType, IntegerType 32, IntegerType 64}"
    and "expandDivRem magics pf t kind lhs rhs users = (e, replaced)"
  shows "wellTyped e \<and> typeOf e = t \<and>
    (\<forall>(user, value)\<in>set replaced. wellTyped value \<and> typeOf value = i32Like t)"
proof -
  have "operandType t lhs" "operandType t rhs" using assms(3-6) by (simp_all add: operandType_def)
  then show ?thesis
    using type_expandDivRem [of t lhs rhs magics pf kind users] assms(1-3,7,8)
    unfolding assms(9) by (auto simp: ofType_def)
qed

theorem expansion_well_typed_witness:
  "let t = SimdType (IntegerType 16) 64; l = Operand 0 t;
       e = fst (expandDivRem roundUpMagics noProofs t DivSI l (Constant (ScalarType (IntegerType 16)) 7) [])
   in wellTyped e \<and> typeOf e = t"
  unfolding Let_def
  using expansion_well_typed [OF _ _ _ _ _ _ _ _ prod.collapse [symmetric],
      of "SimdType (IntegerType 16) 64" "Operand 0 (SimdType (IntegerType 16) 64)"
        "Constant (ScalarType (IntegerType 16)) 7" roundUpMagics noProofs DivSI "[]"]
  by (simp add: numericType_def elementBits_def scalarElementType_def roundUpMagics_ok noProofs_def)

text \<open>C19: Restoring division (\<^verbatim>\<open>createUnsignedRestoringDivRem\<close>) is exact at every width above
  one bit: for a numerator and a nonzero divisor that fit the element type, the quotient and the
  remainder built from the unrolled shift-and-subtract steps evaluate to \<open>n div d\<close> and
  \<open>n mod d\<close>.\<close>

theorem restoring_division_exact:
  assumes "evalExpr u env num < 2 ^ elementBits t" and "0 < evalExpr u env dv"
    and "evalExpr u env dv < 2 ^ elementBits t" and "1 < elementBits t"
  shows "computesDivRem u env (createUnsignedRestoringDivRem t num dv) (evalExpr u env num) (evalExpr u env dv)"
  by (rule eval_restoringDivRem [OF assms])

theorem restoring_division_exact_witness:
  "let t = ScalarType (IntegerType 6)
   in computesDivRem id (\<lambda>i. if i = 0 then 61 else 9)
        (createUnsignedRestoringDivRem t (Operand 0 t) (Operand 1 t)) 61 9"
  using restoring_division_exact [of id "\<lambda>i. if i = 0 then 61 else 9"
      "Operand 0 (ScalarType (IntegerType 6))" "ScalarType (IntegerType 6)"
      "Operand 1 (ScalarType (IntegerType 6))"]
  by (simp add: elementBits_def scalarElementType_def)

text \<open>C20: The 32-bit division from a reciprocal estimate (\<^verbatim>\<open>createUnsignedI32DivRem\<close>) is exact.
  For every numerator and nonzero divisor of 32 bits and every estimate that is never above
  \<open>2 ^ 32 / d\<close> and misses it by at most one plus a relative error of \<open>2 ^ -17\<close>, one Newton step, a
  high multiplication and two corrections give exactly \<open>n div d\<close> and \<open>n mod d\<close>.\<close>

theorem reciprocal_division_exact:
  assumes "elementBits t = 32" and "evalExpr u env num < 2 ^ 32"
    and "0 < evalExpr u env dv" and "evalExpr u env dv < 2 ^ 32" and "reciprocal_estimate u"
  shows "computesDivRem u env (createUnsignedI32DivRem t num dv) (evalExpr u env num) (evalExpr u env dv)"
  using eval_I32DivRem [OF assms(1), of u env num dv] assms by simp

theorem reciprocal_division_exact_witness:
  "computesDivRem exactRecip (\<lambda>i. if i = 0 then 4294967295 else 7)
     (createUnsignedI32DivRem i32 (Operand 0 i32) (Operand 1 i32)) 4294967295 7"
  using reciprocal_division_exact [of i32 exactRecip "\<lambda>i. if i = 0 then 4294967295 else 7"
      "Operand 0 i32" "Operand 1 i32"] exactRecip_estimate
  by (simp add: elementBits_def scalarElementType_def)

text \<open>C17: Division by a constant (\<^verbatim>\<open>tryCreateUnsignedConstDivRem\<close>) is exact at every even width:
  whenever it builds a result for a divisor \<open>d\<close>, be it by a shift and a mask or by LLVM's magic
  number with its pre-shift, high multiplication from four half-width products, add fix-up and
  post-shift, the quotient and the remainder evaluate to \<open>n div d\<close> and \<open>n mod d\<close>.\<close>

theorem constant_division_exact:
  assumes "tryCreateUnsignedConstDivRem magics t num d native = Some res"
    and "evalExpr u env num < 2 ^ elementBits t" and "d < 2 ^ elementBits t"
    and "0 < elementBits t" and "even (elementBits t)" and "magics_ok magics (elementBits t)"
  shows "computesDivRem u env res (evalExpr u env num) d"
  using assms by (intro eval_constDivRem)

theorem constant_division_exact_witness:
  "computesDivRem id (\<lambda>i. 1000)
     (the (tryCreateUnsignedConstDivRem roundUpMagics i32 (Operand 0 i32) 7 False)) 1000 7"
proof -
  have "\<exists>res. tryCreateUnsignedConstDivRem roundUpMagics i32 (Operand 0 i32) 7 False = Some res"
    by (simp add: tryCreateUnsignedConstDivRem_def Let_def maskToBits_small elementBits_def
        scalarElementType_def)
  then show ?thesis
    using constant_division_exact [of roundUpMagics i32 "Operand 0 i32" 7 False _ id "\<lambda>i. 1000"]
      roundUpMagics_ok
    by (auto simp: elementBits_def scalarElementType_def)
qed

text \<open>C21: The signed expansion (\<^verbatim>\<open>createSignedDivRem\<close>) divides with truncation towards zero.
  For operands of 2 to 64-bit elements with nonzero divisor, whichever treatment of the divisor is
  chosen (known positive, a constant, or any value), the quotient and the remainder that it builds
  from the unsigned expansion of the absolute values and from conditional negations by sign masks
  evaluate to the two's complement of the truncated quotient and of the remainder with the sign of
  the numerator. A constant divisor needs an even width, since the unsigned expansion by magic
  numbers is wrong at odd widths (\<open>odd_width_magic_wrong\<close>), and LLVM's magic numbers to keep
  their contract; at 32 bits the reciprocal estimate keeps its contract.\<close>

theorem signed_division_truncates:
  assumes "numericType t" and "1 < elementBits t" and "elementBits t \<le> 64"
    and "operandOf u env t lhs" and "operandOf u env t rhs" and "evalExpr u env rhs \<noteq> 0"
    and "positive \<Longrightarrow> 0 < toSigned (elementBits t) (evalExpr u env rhs)"
    and "getConstantAPInt rhs (elementBits t) \<noteq> None \<Longrightarrow>
      even (elementBits t) \<and> magics_ok magics (elementBits t)"
    and "elementBits t = 32 \<Longrightarrow> reciprocal_estimate u"
  shows "computesSignedDivRem u env (elementBits t) (createSignedDivRem magics t lhs rhs positive)
    (toSigned (elementBits t) (evalExpr u env lhs)) (toSigned (elementBits t) (evalExpr u env rhs))"
  using assms by (rule eval_signedDivRem)

theorem signed_division_truncates_witness:
  "let t = ScalarType (IntegerType 16)
   in computesSignedDivRem id (\<lambda>i. if i = 0 then 65529 else 65534) 16
        (createSignedDivRem roundUpMagics t (Operand 0 t) (Operand 1 t) False) (-7) (-2)"
proof -
  let ?t = "ScalarType (IntegerType 16)" and ?env = "\<lambda>i. if i = 0 then 65529 else 65534"
  have "elementBits ?t = 16" "toSigned 16 65529 = -7" "toSigned 16 65534 = -2"
    by (simp_all add: elementBits_def scalarElementType_def toSigned_def)
  then show ?thesis
    using signed_division_truncates [of ?t id ?env "Operand 0 ?t" "Operand 1 ?t" False roundUpMagics]
    by (simp add: numericType_def operandOf_def)
qed

text \<open>Normalization (\<^verbatim>\<open>WaveNormalizeIntegerDivRemPass\<close>) preserves the result of the
  operation. When the analyses answer soundly, the operation of the kind it leaves gives, on the
  values of the operands, the result of the operation of the original kind wherever that one is
  defined; and it leaves no signed operation whose operands are proven non-negative and
  positive.\<close>

theorem normalization_preserves:
  assumes kind: "isDivRem kind"
    and sound: "sound_proofs u env pf [lhs, rhs]"
    and bits: "exprBits lhs = bits" "exprBits rhs = bits"
    and l: "evalExpr u env lhs < 2 ^ bits" and r: "evalExpr u env rhs < 2 ^ bits"
    and fold: "foldWaveBinaryConstants kind bits (evalExpr u env lhs) (evalExpr u env rhs) = Some v"
  shows "foldWaveBinaryConstants (normalizeDivRem pf kind lhs rhs) bits
      (evalExpr u env lhs) (evalExpr u env rhs) = Some v \<and>
    \<not> (isProvenNonNegative pf lhs \<and> isProvenPositive pf rhs \<and>
        isSignedDivRem (normalizeDivRem pf kind lhs rhs))"
proof
  let ?l = "evalExpr u env lhs" and ?r = "evalExpr u env rhs"
  note f = fold_divRemResult [OF fold kind]
  show "foldWaveBinaryConstants (normalizeDivRem pf kind lhs rhs) bits ?l ?r = Some v"
  proof (cases "isSignedDivRem kind \<and> isProvenNonNegative pf lhs \<and> isProvenPositive pf rhs")
    case True
    have "0 \<le> toSigned bits ?l" "0 \<le> toSigned bits ?r"
      using sound_proofsD(1) [OF sound, of lhs 0] sound_proofsD(1) [OF sound, of rhs 1] True bits
      by (simp_all add: isProvenNonNegative_def isProvenPositive_def)
    then have "v = unsignedResult kind ?l ?r"
      using divRemResult_nonneg [OF kind _ _ l r] f(2) by simp
    then show ?thesis
      using True f(1) by (auto simp: normalizeDivRem_def unsignedResult_def isSignedDivRem_def fold_divrem)
  next
    case False
    then have "normalizeDivRem pf kind lhs rhs = kind" by (auto simp: normalizeDivRem_def)
    then show ?thesis using fold by simp
  qed
  show "\<not> (isProvenNonNegative pf lhs \<and> isProvenPositive pf rhs \<and>
        isSignedDivRem (normalizeDivRem pf kind lhs rhs))"
    by (auto simp: normalizeDivRem_def isSignedDivRem_def)
qed

definition positiveProofs :: proofs where
  "positiveProofs = \<lparr>pf_signedLowerBound = (\<lambda>e l. l \<le> 1), pf_signedI32Range = (\<lambda>e l. False),
     pf_positivePow2 = (\<lambda>e. False)\<rparr>"

theorem normalization_preserves_witness:
  "foldWaveBinaryConstants (normalizeDivRem positiveProofs DivSI (Operand 0 i64) (Operand 1 i64)) 64
     41 7 = Some 5"
proof -
  have b: "exprBits (Operand 0 i64) = 64" "exprBits (Operand 1 i64) = 64"
    by (simp_all add: exprBits_def elementBits_def scalarElementType_def)
  have s: "sound_proofs id (\<lambda>i. if i = 0 then 41 else 7) positiveProofs [Operand 0 i64, Operand 1 i64]"
    by (simp add: sound_proofs_def positiveProofs_def exprBits_def elementBits_def
        scalarElementType_def toSigned_def)
  have f: "foldWaveBinaryConstants DivSI 64 41 7 = Some 5" by code_simp
  show ?thesis
    using normalization_preserves [OF _ s b, of DivSI 5] f by (simp add: isDivRem_def)
qed

subsection \<open>Where the expansion is wrong\<close>

text \<open>The narrowed signed division overflows. The operands of a 64-bit signed division that
  are known to fit 32 bits, the least 32-bit value and minus one, have the quotient \<open>2 ^ 31\<close>,
  which the 64-bit operation computes; the expansion divides in 32 bits and sign-extends, and
  gives minus \<open>2 ^ 31\<close>.\<close>

theorem narrow_quotient_overflows:
  "let env = (\<lambda>i. if i = 0 then 2 ^ 64 - 2 ^ 31 else 2 ^ 64 - 1);
       l = Operand 0 i64; r = Operand 1 i64; pf = rangeProofs signedI32Min
   in sound_proofs exactRecip env pf [l, r] \<and>
      foldWaveBinaryConstants DivSI 64 (env 0) (env 1) = Some (2 ^ 31) \<and>
      evalExpr exactRecip env (fst (expandDivRem roundUpMagics pf i64 DivSI l r [])) = 2 ^ 64 - 2 ^ 31"
proof -
  let ?env = "\<lambda>i :: nat. if i = 0 then 2 ^ 64 - 2 ^ 31 else 2 ^ 64 - 1 :: nat"
  let ?l = "Operand 0 i64" and ?r = "Operand 1 i64" and ?pf = "rangeProofs signedI32Min"
  have f: "foldWaveBinaryConstants DivSI 64 (?env 0) (?env 1) = Some (2 ^ 31)" by code_simp
  have a: "toSigned 64 (evalExpr exactRecip ?env ?l) = - 2147483648"
    "toSigned 64 (evalExpr exactRecip ?env ?r) = -1"
    by (simp_all add: toSigned_def)
  have b: "exprBits ?l = 64" "exprBits ?r = 64" "elementBits i64 = 64"
    by (simp_all add: exprBits_def elementBits_def scalarElementType_def)
  have s: "sound_proofs exactRecip ?env ?pf [?l, ?r]"
    using a b by (simp add: sound_proofs_def rangeProofs_def signedI32Min_def signedI32Max_def)
  have o: "operationOf exactRecip ?env i64 DivSI ?l ?r"
    by (simp add: operationOf_def numericType_def isDivRem_def operandOf_def b(3))
  obtain e where e: "createNarrowDivRem roundUpMagics ?pf DivSI ?l ?r (createI32View ?l) (createI32View ?r) =
      Some (e, ExtendSign)"
    by (auto simp: createNarrowDivRem_def Let_def rangeProofs_def signedI32Min_def isSignedDivRem_def)
  have nn: "\<not> (pf_signedI32Range ?pf ?l 0 \<and> pf_signedI32Range ?pf ?r 0)"
    by (simp add: rangeProofs_def signedI32Min_def)
  note V = eval_narrow_signed_value [OF o b(3) s nn roundUpMagics_ok exactRecip_estimate e]
  have "signedResult DivSI 32 (- 2147483648) (-1) = 2147483648"
    by (simp add: signedResult_def signed_divide_int_def ofSigned_def)
  then have ev: "evalExpr exactRecip ?env e = 2147483648" using V(3) unfolding a by simp
  have "ofType (i32Like i64) e"
    using operationOf_views [OF o b(3)]
    by (intro type_narrow [OF e]) (simp_all add: roundUpMagics_ok operandOf_type)
  then have "elementBits (typeOf e) = 32" by (simp add: ofType_def)
  moreover have "fst (expandDivRem roundUpMagics ?pf i64 DivSI ?l ?r []) = IntConvert i64 (Some ExtendSign) e"
    using e by (simp add: expandDivRem_def tryExpandIndexDivRemAsI32_def canNarrowDivRemTypeToI32_def
        scalarElementType_def)
  moreover have "toSigned 32 2147483648 = - 2147483648" by (simp add: toSigned_def)
  ultimately have "evalExpr exactRecip ?env (fst (expandDivRem roundUpMagics ?pf i64 DivSI ?l ?r [])) = 2 ^ 64 - 2 ^ 31"
    using ev b(3) by (simp add: foldWaveIntConvert_def ofSigned_def)
  then show ?thesis using f s by (simp add: Let_def)
qed

text \<open>The high product is wrong at odd widths. At five bits, with the magic number 22 and the
  post-shift one that divide every five-bit numerator by three exactly, the four half-width
  products drop the odd bit and the expansion of \<open>31 / 3\<close> does not evaluate to ten.\<close>

theorem odd_width_magic_wrong:
  "let t = ScalarType (IntegerType 5);
       magics = (\<lambda>bits d. \<lparr>mg_magic = 22, mg_isAdd = False, mg_preShift = 0, mg_postShift = 1\<rparr>)
   in magic_ok 5 3 (magics 5 3) \<and> foldWaveBinaryConstants DivUI 5 31 3 = Some 10 \<and>
      evalExpr id (\<lambda>_. 31) (fst (expandDivRem magics noProofs t DivUI (Operand 0 t) (Constant t 3) [])) \<noteq> 10"
  by code_simp

text \<open>Narrowing a division of a uniform value by a SIMD value builds invalid IR. The operation
  passes its verifier and its operands are known to fit 32 bits, but the narrowed operations
  take the type of the narrowed left operand, so a scalar result type meets a SIMD operand.\<close>

theorem narrow_uniform_ill_typed:
  "let simd = SimdType (IntegerType 64) 64; l = Operand 0 i64; r = Operand 1 simd
   in verifyBinaryOp RemUI False simd (typeOf l) (typeOf r) \<and>
      \<not> wellTyped (fst (expandDivRem roundUpMagics (rangeProofs 0) simd RemUI l r []))"
  by code_simp

text \<open>A division by a power of two on 16-bit elements builds invalid IR: the shift amount is a
  count of trailing zeros, whose verifier accepts 32-bit, 64-bit and index elements only.\<close>

theorem pow2_narrow_width_ill_typed:
  "let t = ScalarType (IntegerType 16);
       pf = noProofs\<lparr>pf_positivePow2 := (\<lambda>e. e = Operand 1 t)\<rparr>
   in verifyBinaryOp DivUI False t t t \<and>
      \<not> wellTyped (fst (expandDivRem roundUpMagics pf t DivUI (Operand 0 t) (Operand 1 t) []))"
  by code_simp

end
