(* ===== verification/Mod_Recurrence.thy ===== *)
theory Mod_Recurrence
  imports Int_Div_Expand
begin

text \<open>
  Remainders of induction variables, the pass \<^verbatim>\<open>WaveStrengthReduceModulo\<close> of
  \<^verbatim>\<open>lib/Dialect/Wave/Transforms/WaveExpandIntegerDivRem.cpp\<close>. In a loop over \<open>i\<close> with constant
  step the remainders \<open>i mod d\<close> are carried as an additional loop value that each iteration
  advances by \<open>step mod d\<close>, and remainders of \<open>i + c\<close> or \<open>i mod d + c\<close> are derived from it. A value
  of the loop body is an \<open>Operand\<close> numbered by the operation or block argument that defines it, or
  a constant; \<open>fl_ops\<close> is what the walk over the body collects.
\<close>

subsection \<open>Loops\<close>

record loop_op =
  lo_result :: nat
  lo_kind :: BinaryKind
  lo_type :: wave_type
  lo_lhs :: expr
  lo_rhs :: expr
  lo_nuw :: bool
  lo_nsw :: bool

record for_loop =
  fl_type :: wave_type
  fl_inductionVar :: nat
  fl_unsignedCmp :: bool
  fl_lower :: expr
  fl_upper :: expr
  fl_step :: expr
  fl_ops :: "loop_op list"

definition resultOf :: "loop_op \<Rightarrow> expr" where
  "resultOf o1 = Operand (lo_result o1) (lo_type o1)"

definition inductionOf :: "for_loop \<Rightarrow> expr" where
  "inductionOf loop = Operand (fl_inductionVar loop) (fl_type loop)"

definition definingOp :: "loop_op list \<Rightarrow> expr \<Rightarrow> loop_op option" where
  "definingOp ops value = List.find (\<lambda>o1. resultOf o1 = value) ops"

text \<open>
  The questions to the analyses. \<open>lp_unsignedMax\<close> is the greatest unsigned value of the integer
  range, \<open>lp_signedUpperBound\<close> the symbolic proof of a signed upper bound.
\<close>

record loop_proofs =
  lp_proofs :: proofs
  lp_unsignedMax :: "expr \<Rightarrow> nat option"
  lp_signedUpperBound :: "expr \<Rightarrow> int \<Rightarrow> bool"

definition upperFromAnalyses :: "loop_proofs \<Rightarrow> expr \<Rightarrow> bool" where
  "upperFromAnalyses lp value =
     (let bits = exprBits value; signedMin = 2 ^ (bits - 1)
      in case getConstantAPInt value bits of
           Some c \<Rightarrow> c \<le> signedMin
         | None \<Rightarrow>
             (case lp_unsignedMax lp value of Some m \<Rightarrow> m \<le> signedMin | None \<Rightarrow> False) \<or>
             (pf_signedLowerBound (lp_proofs lp) value 0 \<and>
              lp_signedUpperBound lp value (2 ^ (bits - 1) - 1)))"

fun isProvenUnsignedUpperAtMostSignedMin :: "loop_proofs \<Rightarrow> expr \<Rightarrow> bool" where
  "isProvenUnsignedUpperAtMostSignedMin lp (Splat _ source) =
     isProvenUnsignedUpperAtMostSignedMin lp source"
| "isProvenUnsignedUpperAtMostSignedMin lp value = upperFromAnalyses lp value"

subsection \<open>Recurrences\<close>

record derived_modulo =
  dm_op :: loop_op
  dm_increment :: nat

record modulo_recurrence =
  mr_baseOps :: "loop_op list"
  mr_derivedOps :: "derived_modulo list"
  mr_divisor :: nat
  mr_step :: nat
  mr_kind :: BinaryKind

record modulo_offset =
  mo_add :: loop_op
  mo_value :: expr
  mo_addsInduction :: bool

definition isModulo :: "BinaryKind \<Rightarrow> bool" where
  "isModulo kind \<longleftrightarrow> kind = RemUI \<or> kind = RemSI"

definition getPositiveConstant :: "expr \<Rightarrow> nat \<Rightarrow> nat option" where
  "getPositiveConstant value bits =
     (case getConstantAPInt value bits of
        None \<Rightarrow> None
      | Some c \<Rightarrow> if toSigned bits c > 0 then Some c else None)"

definition getModuloDivisor :: "expr \<Rightarrow> nat \<Rightarrow> BinaryKind \<Rightarrow> nat option" where
  "getModuloDivisor value bits kind =
     (case getConstantAPInt value bits of
        None \<Rightarrow> None
      | Some c \<Rightarrow> if c = 0 \<or> (kind = RemSI \<and> toSigned bits c < 0) then None else Some c)"

definition isRecurrenceLegal :: "loop_proofs \<Rightarrow> for_loop \<Rightarrow> BinaryKind \<Rightarrow> bool \<Rightarrow> bool" where
  "isRecurrenceLegal lp loop kind nonNegative \<longleftrightarrow>
     (if kind = RemUI then fl_unsignedCmp loop \<or> nonNegative
      else nonNegative \<and>
        (\<not> fl_unsignedCmp loop \<or> isProvenUnsignedUpperAtMostSignedMin lp (fl_upper loop)))"

definition sameRecurrence :: "BinaryKind \<Rightarrow> nat \<Rightarrow> modulo_recurrence \<Rightarrow> bool" where
  "sameRecurrence kind divisor rec \<longleftrightarrow> mr_kind rec = kind \<and> mr_divisor rec = divisor"

definition findModuloRecurrence ::
    "modulo_recurrence list \<Rightarrow> BinaryKind \<Rightarrow> nat \<Rightarrow> modulo_recurrence option" where
  "findModuloRecurrence recs kind divisor = List.find (sameRecurrence kind divisor) recs"

text \<open>The code updates the recurrence it found in place: the first one of the kind and divisor.\<close>

fun updateRecurrence ::
    "BinaryKind \<Rightarrow> nat \<Rightarrow> (modulo_recurrence \<Rightarrow> modulo_recurrence) \<Rightarrow>
     modulo_recurrence list \<Rightarrow> modulo_recurrence list" where
  "updateRecurrence kind divisor f [] = []"
| "updateRecurrence kind divisor f (rec # recs) =
     (if sameRecurrence kind divisor rec then f rec # recs
      else rec # updateRecurrence kind divisor f recs)"

definition isBaseModuloValue :: "expr \<Rightarrow> modulo_recurrence \<Rightarrow> bool" where
  "isBaseModuloValue value rec \<longleftrightarrow> list_ex (\<lambda>o1. resultOf o1 = value) (mr_baseOps rec)"

definition matchModuloOffset ::
    "for_loop \<Rightarrow> loop_op \<Rightarrow> modulo_recurrence \<Rightarrow> modulo_offset option" where
  "matchModuloOffset loop o1 rec =
     (case definingOp (fl_ops loop) (lo_lhs o1) of
        None \<Rightarrow> None
      | Some add \<Rightarrow>
          if lo_kind add \<noteq> AddI then None
          else if lo_lhs add = inductionOf loop
          then Some \<lparr>mo_add = add, mo_value = lo_rhs add, mo_addsInduction = True\<rparr>
          else if lo_rhs add = inductionOf loop
          then Some \<lparr>mo_add = add, mo_value = lo_lhs add, mo_addsInduction = True\<rparr>
          else if isBaseModuloValue (lo_lhs add) rec
          then Some \<lparr>mo_add = add, mo_value = lo_rhs add, mo_addsInduction = False\<rparr>
          else if isBaseModuloValue (lo_rhs add) rec
          then Some \<lparr>mo_add = add, mo_value = lo_lhs add, mo_addsInduction = False\<rparr>
          else None)"

definition isModuloOffsetLegal ::
    "modulo_offset \<Rightarrow> modulo_recurrence \<Rightarrow> nat \<Rightarrow> nat \<Rightarrow> bool \<Rightarrow> bool" where
  "isModuloOffsetLegal offset rec constant1 bits inductionNonNegative =
     (if \<not> mo_addsInduction offset
      then let maxValue = (if mr_kind rec = RemSI then 2 ^ (bits - 1) - 1 else 2 ^ bits - 1);
               baseMax = (mr_divisor rec - 1) mod 2 ^ bits
           in constant1 \<le> (maxValue + 2 ^ bits - baseMax) mod 2 ^ bits
      else if mr_kind rec = RemSI then lo_nsw (mo_add offset)
      else lo_nuw (mo_add offset) \<or> (inductionNonNegative \<and> lo_nsw (mo_add offset)))"

definition getDerivedModuloIncrement ::
    "for_loop \<Rightarrow> loop_op \<Rightarrow> modulo_recurrence \<Rightarrow> bool \<Rightarrow> nat option" where
  "getDerivedModuloIncrement loop o1 rec inductionNonNegative =
     (if isBaseModuloValue (lo_lhs o1) rec then Some 0
      else case matchModuloOffset loop o1 rec of
        None \<Rightarrow> None
      | Some offset \<Rightarrow>
          let bits = elementBits (lo_type o1)
          in (case getConstantAPInt (mo_value offset) bits of
                None \<Rightarrow> None
              | Some c \<Rightarrow>
                  if mr_kind rec = RemSI \<and> toSigned bits c < 0 then None
                  else if \<not> isModuloOffsetLegal offset rec c bits inductionNonNegative then None
                  else Some (c mod mr_divisor rec)))"

definition getBaseModuloDivisor ::
    "loop_proofs \<Rightarrow> for_loop \<Rightarrow> nat \<Rightarrow> bool \<Rightarrow> loop_op \<Rightarrow> nat option" where
  "getBaseModuloDivisor lp loop bits nonNegative o1 =
     (if \<not> isModulo (lo_kind o1) then None
      else if lo_type o1 \<noteq> fl_type loop then None
      else if lo_lhs o1 \<noteq> inductionOf loop then None
      else case getModuloDivisor (lo_rhs o1) bits (lo_kind o1) of
        None \<Rightarrow> None
      | Some divisor \<Rightarrow>
          if divisor = 1 then None
          else if isPowerOf2 divisor then None
          else if \<not> isRecurrenceLegal lp loop (lo_kind o1) nonNegative then None
          else Some divisor)"

definition collectBaseModulo ::
    "loop_proofs \<Rightarrow> for_loop \<Rightarrow> nat \<Rightarrow> nat \<Rightarrow> bool \<Rightarrow> loop_op \<Rightarrow>
     modulo_recurrence list \<Rightarrow> modulo_recurrence list" where
  "collectBaseModulo lp loop bits step nonNegative o1 recs =
     (case getBaseModuloDivisor lp loop bits nonNegative o1 of
        None \<Rightarrow> recs
      | Some divisor \<Rightarrow>
          let recs' = (if findModuloRecurrence recs (lo_kind o1) divisor = None
                then recs @ [\<lparr>mr_baseOps = [], mr_derivedOps = [], mr_divisor = divisor,
                               mr_step = step mod divisor, mr_kind = lo_kind o1\<rparr>]
                else recs)
          in updateRecurrence (lo_kind o1) divisor
               (\<lambda>rec. rec\<lparr>mr_baseOps := mr_baseOps rec @ [o1]\<rparr>) recs')"

definition findDerivedModuloRecurrence ::
    "for_loop \<Rightarrow> nat \<Rightarrow> loop_op \<Rightarrow> modulo_recurrence list \<Rightarrow> modulo_recurrence option" where
  "findDerivedModuloRecurrence loop bits o1 recs =
     (if \<not> isModulo (lo_kind o1) \<or> lo_type o1 \<noteq> fl_type loop then None
      else case getModuloDivisor (lo_rhs o1) bits (lo_kind o1) of
        None \<Rightarrow> None
      | Some divisor \<Rightarrow>
          (case findModuloRecurrence recs (lo_kind o1) divisor of
             None \<Rightarrow> None
           | Some rec \<Rightarrow> if List.member (mr_baseOps rec) o1 then None else Some rec))"

definition collectDerivedModulo ::
    "for_loop \<Rightarrow> nat \<Rightarrow> bool \<Rightarrow> loop_op \<Rightarrow> modulo_recurrence list \<Rightarrow> modulo_recurrence list" where
  "collectDerivedModulo loop bits nonNegative o1 recs =
     (case findDerivedModuloRecurrence loop bits o1 recs of
        None \<Rightarrow> recs
      | Some rec \<Rightarrow>
          (case getDerivedModuloIncrement loop o1 rec nonNegative of
             None \<Rightarrow> recs
           | Some increment \<Rightarrow>
               updateRecurrence (mr_kind rec) (mr_divisor rec)
                 (\<lambda>r. r\<lparr>mr_derivedOps := mr_derivedOps r @
                          [\<lparr>dm_op = o1, dm_increment = increment\<rparr>]\<rparr>) recs))"

definition collectModuloRecurrences :: "loop_proofs \<Rightarrow> for_loop \<Rightarrow> modulo_recurrence list" where
  "collectModuloRecurrences lp loop =
     (let type = fl_type loop; bits = elementBits type
      in if (case type of ScalarType _ \<Rightarrow> False | _ \<Rightarrow> True) \<or> bits > 64 then []
         else case getPositiveConstant (fl_step loop) bits of
           None \<Rightarrow> []
         | Some step \<Rightarrow>
             let nonNegative = isProvenNonNegative (lp_proofs lp) (fl_lower loop);
                 recs = fold (collectBaseModulo lp loop bits step nonNegative) (fl_ops loop) []
             in if recs = [] then []
                else fold (collectDerivedModulo loop bits nonNegative) (fl_ops loop) recs)"

subsection \<open>The rewritten loop\<close>

definition createModuloIncrement ::
    "wave_type \<Rightarrow> expr \<Rightarrow> BinaryKind \<Rightarrow> nat \<Rightarrow> nat \<Rightarrow> expr" where
  "createModuloIncrement type residue kind divisor increment =
     (if increment = 0 then residue
      else let threshold = createConstantLike type (divisor - increment);
               predicate = (if kind = RemUI then CmpUge else CmpSge);
               wrap = createCompare predicate residue threshold type;
               wrapped = Binary type SubI residue threshold;
               advanced = Binary type AddI residue (createConstantLike type increment)
           in createSelect type wrap wrapped advanced)"

text \<open>
  What the rewrite leaves: the initial values and the yielded values of the carried residues, the
  range that is assumed of each (when it can be written as a signed 64-bit range), and the
  replacement of every operation that it removes. The residues are the block arguments numbered
  from \<open>fresh\<close>; an assumption has the value of its operand.
\<close>

record modulo_rewrite =
  mw_initial :: "expr list"
  mw_yield :: "expr list"
  mw_assumed :: "(int \<times> int) option list"
  mw_replaced :: "(nat \<times> expr) list"

definition replacementsOf :: "wave_type \<Rightarrow> expr \<Rightarrow> modulo_recurrence \<Rightarrow> (nat \<times> expr) list" where
  "replacementsOf type residue rec =
     map (\<lambda>o1. (lo_result o1, residue)) (mr_baseOps rec) @
     map (\<lambda>d. (lo_result (dm_op d),
            createModuloIncrement type residue (mr_kind rec) (mr_divisor rec) (dm_increment d)))
       (mr_derivedOps rec)"

definition rangeAssumed :: "modulo_recurrence \<Rightarrow> (int \<times> int) option" where
  "rangeAssumed rec =
     (if mr_divisor rec - 1 \<le> 2 ^ 63 - 1 then Some (0, int (mr_divisor rec) - 1) else None)"

definition rewriteModuloRecurrences ::
    "for_loop \<Rightarrow> nat \<Rightarrow> modulo_recurrence list \<Rightarrow> modulo_rewrite" where
  "rewriteModuloRecurrences loop fresh recs =
     (let type = fl_type loop;
          residue = (\<lambda>k. Operand (fresh + k) type)
      in \<lparr>mw_initial = map (\<lambda>rec. Binary type (mr_kind rec) (fl_lower loop)
                              (createConstantLike type (mr_divisor rec))) recs,
          mw_yield = map (\<lambda>(k, rec). createModuloIncrement type (residue k) (mr_kind rec)
                            (mr_divisor rec) (mr_step rec)) (enumerate 0 recs),
          mw_assumed = map rangeAssumed recs,
          mw_replaced = concat (map (\<lambda>(k, rec). replacementsOf type (residue k) rec)
                                 (enumerate 0 recs))\<rparr>)"

subsection \<open>What the loops compute\<close>

text \<open>
  The induction variable of an iteration, read as the comparison of the loop reads it, and the
  iterations that are executed.
\<close>

definition readBound :: "for_loop \<Rightarrow> nat \<Rightarrow> int" where
  "readBound loop n = (if fl_unsignedCmp loop then int n else toSigned (elementBits (fl_type loop)) n)"

definition inductionAt :: "(nat \<Rightarrow> nat) \<Rightarrow> (nat \<Rightarrow> nat) \<Rightarrow> for_loop \<Rightarrow> nat \<Rightarrow> int" where
  "inductionAt u env loop k =
     readBound loop (evalExpr u env (fl_lower loop)) + int k * int (evalExpr u env (fl_step loop))"

definition executes :: "(nat \<Rightarrow> nat) \<Rightarrow> (nat \<Rightarrow> nat) \<Rightarrow> for_loop \<Rightarrow> nat \<Rightarrow> bool" where
  "executes u env loop k \<longleftrightarrow>
     inductionAt u env loop k < readBound loop (evalExpr u env (fl_upper loop))"

definition bindResidues :: "(nat \<Rightarrow> nat) \<Rightarrow> nat \<Rightarrow> nat list \<Rightarrow> nat \<Rightarrow> nat" where
  "bindResidues env fresh values i =
     (if fresh \<le> i \<and> i < fresh + length values then values ! (i - fresh) else env i)"

fun residuesAt ::
    "(nat \<Rightarrow> nat) \<Rightarrow> (nat \<Rightarrow> nat) \<Rightarrow> nat \<Rightarrow> modulo_rewrite \<Rightarrow> nat \<Rightarrow> nat list" where
  "residuesAt u env fresh rw 0 = map (evalExpr u env) (mw_initial rw)"
| "residuesAt u env fresh rw (Suc k) =
     map (evalExpr u (bindResidues env fresh (residuesAt u env fresh rw k))) (mw_yield rw)"

text \<open>
  An operation is executed with a defined result: the value its folder computes, without the
  overflow its flags exclude.
\<close>

definition keepsFlags :: "(nat \<Rightarrow> nat) \<Rightarrow> (nat \<Rightarrow> nat) \<Rightarrow> loop_op \<Rightarrow> bool" where
  "keepsFlags u env o1 \<longleftrightarrow>
     (let bits = elementBits (lo_type o1); a = evalExpr u env (lo_lhs o1); b = evalExpr u env (lo_rhs o1)
      in lo_kind o1 = AddI \<longrightarrow>
           (lo_nuw o1 \<longrightarrow> a + b < 2 ^ bits) \<and>
           (lo_nsw o1 \<longrightarrow> - (2 ^ (bits - 1)) \<le> toSigned bits a + toSigned bits b \<and>
              toSigned bits a + toSigned bits b < 2 ^ (bits - 1)))"

definition executed_op :: "(nat \<Rightarrow> nat) \<Rightarrow> (nat \<Rightarrow> nat) \<Rightarrow> loop_op \<Rightarrow> bool" where
  "executed_op u env o1 \<longleftrightarrow>
     foldWaveBinaryConstants (lo_kind o1) (elementBits (lo_type o1))
       (evalExpr u env (lo_lhs o1)) (evalExpr u env (lo_rhs o1)) = Some (env (lo_result o1)) \<and>
     keepsFlags u env o1"

end
