(* ===== verification/Mod_Props.thy ===== *)
theory Mod_Props
  imports Mod_Recurrence Int_Div_Props
begin

text \<open>
  The carried residues are the remainders they replace. \<open>rec_ok\<close> is what the collection
  guarantees of a recurrence, \<open>residue_at\<close> the closed form of the residue of an iteration. The
  theorem excludes two kinds of offsets that the legality check lets through; for both there is a
  loop on which the rewritten remainder is wrong.
\<close>

subsection \<open>Well-formed loops\<close>

definition op_ok :: "loop_op \<Rightarrow> bool" where
  "op_ok o1 \<longleftrightarrow> wellTyped (lo_lhs o1) \<and> wellTyped (lo_rhs o1) \<and>
     verifyBinaryOp (lo_kind o1) (lo_nuw o1 \<or> lo_nsw o1) (lo_type o1)
       (typeOf (lo_lhs o1)) (typeOf (lo_rhs o1))"

definition loop_ok :: "for_loop \<Rightarrow> nat \<Rightarrow> bool" where
  "loop_ok loop fresh \<longleftrightarrow>
     list_all op_ok (fl_ops loop) \<and> distinct (map lo_result (fl_ops loop)) \<and>
     list_all (\<lambda>o1. lo_result o1 < fresh) (fl_ops loop) \<and> fl_inductionVar loop < fresh \<and>
     typeOf (fl_lower loop) = fl_type loop \<and> typeOf (fl_upper loop) = fl_type loop \<and>
     typeOf (fl_step loop) = fl_type loop \<and> wellTyped (fl_lower loop) \<and>
     wellTyped (fl_upper loop) \<and> wellTyped (fl_step loop)"

lemma op_ok_scalar:
  assumes "op_ok o1" and "lo_type o1 = ScalarType e"
  shows "typeOf (lo_lhs o1) = ScalarType e" and "typeOf (lo_rhs o1) = ScalarType e"
    and "wellTyped (lo_lhs o1)" and "wellTyped (lo_rhs o1)"
  using assms
  by (auto simp: op_ok_def verifyBinaryOp_def classifyWaveBinaryOperand_def verifyWaveBinaryResult_def
      split: wave_type.splits option.splits if_splits)

lemma constant_value:
  assumes "getConstantAPInt e bits = Some c" and "wellTyped e" and "exprBits e = bits"
  shows "evalExpr u env e = c" and "c < 2 ^ bits"
  using getConstantAPInt_value [OF assms] by simp_all

lemma getModuloDivisor_value:
  assumes "getModuloDivisor e bits kind = Some d" and "wellTyped e" and "exprBits e = bits"
  shows "evalExpr u env e = d" and "0 < d" and "d < 2 ^ bits"
    and "kind = RemSI \<Longrightarrow> 2 * d < 2 ^ bits"
proof -
  have c: "getConstantAPInt e bits = Some d" "d \<noteq> 0" "kind = RemSI \<longrightarrow> 0 \<le> toSigned bits d"
    using assms(1) by (auto simp: getModuloDivisor_def split: option.splits if_splits)
  show "evalExpr u env e = d" "d < 2 ^ bits" using constant_value [OF c(1) assms(2,3)] by simp_all
  show "0 < d" using c(2) by simp
  show "2 * d < 2 ^ bits" if "kind = RemSI"
  proof (rule ccontr)
    assume "\<not> 2 * d < 2 ^ bits"
    moreover have "int d < 2 ^ bits"
      using \<open>d < 2 ^ bits\<close> by (metis of_nat_less_numeral_power_cancel_iff)
    ultimately show False using c(3) that by (simp add: toSigned_def)
  qed
qed

subsection \<open>What the collection guarantees\<close>

lemma in_updateRecurrence:
  assumes "r \<in> set (updateRecurrence kind d f recs)"
  shows "r \<in> set recs \<or> (\<exists>r'\<in>set recs. sameRecurrence kind d r' \<and> r = f r')"
  using assms by (induction recs) (auto split: if_splits)

lemma length_updateRecurrence [simp]: "length (updateRecurrence kind d f recs) = length recs"
  by (induction recs) auto

lemma updateRecurrence_absent:
  assumes "\<forall>r\<in>set recs. \<not> sameRecurrence kind d r"
  shows "updateRecurrence kind d f (recs @ recs') = recs @ updateRecurrence kind d f recs'"
  using assms by (induction recs) auto

definition modulo_op :: "for_loop \<Rightarrow> BinaryKind \<Rightarrow> nat \<Rightarrow> loop_op \<Rightarrow> bool" where
  "modulo_op loop kind d o1 \<longleftrightarrow>
     o1 \<in> set (fl_ops loop) \<and> lo_kind o1 = kind \<and> lo_type o1 = fl_type loop \<and>
     getModuloDivisor (lo_rhs o1) (elementBits (fl_type loop)) kind = Some d"

definition rec_ok ::
    "loop_proofs \<Rightarrow> for_loop \<Rightarrow> nat \<Rightarrow> bool \<Rightarrow> modulo_recurrence \<Rightarrow> bool" where
  "rec_ok lp loop step nonNegative rec \<longleftrightarrow>
     isModulo (mr_kind rec) \<and> isRecurrenceLegal lp loop (mr_kind rec) nonNegative \<and>
     mr_divisor rec \<noteq> 1 \<and> mr_step rec = step mod mr_divisor rec \<and> mr_baseOps rec \<noteq> [] \<and>
     (\<forall>o1\<in>set (mr_baseOps rec). modulo_op loop (mr_kind rec) (mr_divisor rec) o1 \<and>
        lo_lhs o1 = inductionOf loop) \<and>
     (\<forall>d\<in>set (mr_derivedOps rec). modulo_op loop (mr_kind rec) (mr_divisor rec) (dm_op d) \<and>
        getDerivedModuloIncrement loop (dm_op d) rec nonNegative = Some (dm_increment d))"

lemma getBaseModuloDivisor_Some:
  assumes "getBaseModuloDivisor lp loop (elementBits (fl_type loop)) nn o1 = Some d"
    and "o1 \<in> set (fl_ops loop)"
  shows "isModulo (lo_kind o1)" and "isRecurrenceLegal lp loop (lo_kind o1) nn" and "d \<noteq> 1"
    and "lo_lhs o1 = inductionOf loop" and "modulo_op loop (lo_kind o1) d o1"
  using assms by (auto simp: getBaseModuloDivisor_def modulo_op_def split: if_splits option.splits)

text \<open>Recording a derived operation changes nothing that the increments depend on.\<close>

lemma getDerived_cong:
  assumes "mr_baseOps r = mr_baseOps r'" and "mr_kind r = mr_kind r'" and "mr_divisor r = mr_divisor r'"
  shows "getDerivedModuloIncrement loop o1 r nn = getDerivedModuloIncrement loop o1 r' nn"
proof -
  have "isBaseModuloValue v r = isBaseModuloValue v r'" for v
    using assms by (simp add: isBaseModuloValue_def)
  moreover from this have "matchModuloOffset loop o1 r = matchModuloOffset loop o1 r'"
    by (simp add: matchModuloOffset_def split: option.split)
  moreover have "isModuloOffsetLegal off r = isModuloOffsetLegal off r'" for off
    using assms by (intro ext) (simp add: isModuloOffsetLegal_def)
  ultimately show ?thesis
    using assms by (simp add: getDerivedModuloIncrement_def Let_def split: option.split)
qed

lemma fresh_recurrence_ok:
  assumes "rec_ok lp loop step nn r \<or>
      (mr_baseOps r = [] \<and> mr_derivedOps r = [] \<and> mr_divisor r = d \<and> mr_kind r = lo_kind o1 \<and>
       mr_step r = step mod d)"
    and "mr_derivedOps r = []" and "sameRecurrence (lo_kind o1) d r"
    and "getBaseModuloDivisor lp loop (elementBits (fl_type loop)) nn o1 = Some d"
    and "o1 \<in> set (fl_ops loop)"
  shows "rec_ok lp loop step nn (r\<lparr>mr_baseOps := mr_baseOps r @ [o1]\<rparr>)"
  using assms getBaseModuloDivisor_Some [OF assms(4,5)]
  by (auto simp: rec_ok_def sameRecurrence_def)

lemma collectBaseModulo_ok:
  assumes o1: "o1 \<in> set (fl_ops loop)"
    and ok: "\<forall>r\<in>set recs. rec_ok lp loop step nn r \<and> mr_derivedOps r = []"
    and r: "r \<in> set (collectBaseModulo lp loop (elementBits (fl_type loop)) step nn o1 recs)"
  shows "rec_ok lp loop step nn r \<and> mr_derivedOps r = []"
proof (cases "getBaseModuloDivisor lp loop (elementBits (fl_type loop)) nn o1")
  case None
  then show ?thesis using ok r by (simp add: collectBaseModulo_def)
next
  case (Some d)
  let ?new = "\<lparr>mr_baseOps = [], mr_derivedOps = [], mr_divisor = d, mr_step = step mod d,
      mr_kind = lo_kind o1\<rparr>"
  let ?f = "\<lambda>rec. rec\<lparr>mr_baseOps := mr_baseOps rec @ [o1]\<rparr>"
  let ?old = "findModuloRecurrence recs (lo_kind o1) d"
  have e: "collectBaseModulo lp loop (elementBits (fl_type loop)) step nn o1 recs =
      updateRecurrence (lo_kind o1) d ?f (if ?old = None then recs @ [?new] else recs)"
    using Some by (simp add: collectBaseModulo_def Let_def)
  show ?thesis
  proof (cases "?old = None")
    case True
    then have none: "\<forall>r\<in>set recs. \<not> sameRecurrence (lo_kind o1) d r"
      by (simp add: findModuloRecurrence_def find_None_iff)
    have "updateRecurrence (lo_kind o1) d ?f (recs @ [?new]) = recs @ [?f ?new]"
      using updateRecurrence_absent [OF none, of ?f "[?new]"] by (simp add: sameRecurrence_def)
    then have "collectBaseModulo lp loop (elementBits (fl_type loop)) step nn o1 recs = recs @ [?f ?new]"
      unfolding e using True by (simp only: if_True simp_thms)
    then have "r \<in> set recs \<or> r = ?f ?new" using r by auto
    moreover have "rec_ok lp loop step nn (?f ?new)"
      by (rule fresh_recurrence_ok [OF _ _ _ Some o1]) (simp_all add: sameRecurrence_def)
    moreover have "mr_derivedOps (?f ?new) = []" by simp
    ultimately show ?thesis using ok by blast
  next
    case False
    then have "r \<in> set (updateRecurrence (lo_kind o1) d ?f recs)"
      using r unfolding e by (simp only: if_False simp_thms)
    from in_updateRecurrence [OF this]
    have "r \<in> set recs \<or> (\<exists>r'\<in>set recs. sameRecurrence (lo_kind o1) d r' \<and> r = ?f r')" .
    then consider "r \<in> set recs"
      | r' where "r' \<in> set recs" "sameRecurrence (lo_kind o1) d r'" "r = ?f r'" by blast
    then show ?thesis
    proof cases
      case 2
      have "rec_ok lp loop step nn (?f r')"
        using ok 2(1,2) by (intro fresh_recurrence_ok [OF _ _ _ Some o1]) simp_all
      then show ?thesis using ok 2 by simp
    qed (use ok in simp)
  qed
qed

lemma findModuloRecurrence_Some:
  assumes "findModuloRecurrence recs kind d = Some rec"
  shows "rec \<in> set recs" and "mr_kind rec = kind" and "mr_divisor rec = d"
  using assms by (auto simp: findModuloRecurrence_def sameRecurrence_def find_Some_iff)

lemma collectDerivedModulo_ok:
  assumes o1: "o1 \<in> set (fl_ops loop)" and ok: "\<forall>r\<in>set recs. rec_ok lp loop step nn r"
    and distinct: "distinct (map (\<lambda>r. (mr_kind r, mr_divisor r)) recs)"
    and r: "r \<in> set (collectDerivedModulo loop (elementBits (fl_type loop)) nn o1 recs)"
  shows "rec_ok lp loop step nn r"
proof (cases "findDerivedModuloRecurrence loop (elementBits (fl_type loop)) o1 recs")
  case None
  then show ?thesis using ok r by (simp add: collectDerivedModulo_def)
next
  case rec: (Some rec)
  show ?thesis
  proof (cases "getDerivedModuloIncrement loop o1 rec nn")
    case None
    then show ?thesis using ok r rec by (simp add: collectDerivedModulo_def)
  next
    case (Some inc)
    let ?f = "\<lambda>r. r\<lparr>mr_derivedOps := mr_derivedOps r @ [\<lparr>dm_op = o1, dm_increment = inc\<rparr>]\<rparr>"
    obtain d where d: "lo_type o1 = fl_type loop"
        "getModuloDivisor (lo_rhs o1) (elementBits (fl_type loop)) (lo_kind o1) = Some d"
        "findModuloRecurrence recs (lo_kind o1) d = Some rec"
      using rec by (auto simp: findDerivedModuloRecurrence_def split: if_splits option.splits)
    note f = findModuloRecurrence_Some [OF d(3)]
    have "r \<in> set recs \<or> (\<exists>r'\<in>set recs. sameRecurrence (mr_kind rec) (mr_divisor rec) r' \<and> r = ?f r')"
      using r rec Some in_updateRecurrence by (fastforce simp: collectDerivedModulo_def)
    then consider "r \<in> set recs"
      | r' where "r' \<in> set recs" "sameRecurrence (mr_kind rec) (mr_divisor rec) r'" "r = ?f r'" by blast
    then show ?thesis
    proof cases
      case 1
      then show ?thesis using ok by simp
    next
      case 2
      have "r' = rec"
        using distinct 2(1,2) f(1) unfolding sameRecurrence_def distinct_map inj_on_def by auto
      then have rr: "r = ?f rec" using 2(3) by simp
      have same: "getDerivedModuloIncrement loop o' r nn = getDerivedModuloIncrement loop o' rec nn" for o'
        unfolding rr by (intro getDerived_cong) simp_all
      have "modulo_op loop (mr_kind rec) (mr_divisor rec) o1"
        using o1 d f by (simp add: modulo_op_def)
      then show ?thesis
        using ok f(1) Some same unfolding rec_ok_def by (auto simp: rr)
    qed
  qed
qed

lemma keys_updateRecurrence:
  assumes "\<And>r. (mr_kind (f r), mr_divisor (f r)) = (mr_kind r, mr_divisor r)"
  shows "map (\<lambda>r. (mr_kind r, mr_divisor r)) (updateRecurrence kind d f recs) =
    map (\<lambda>r. (mr_kind r, mr_divisor r)) recs"
  using assms by (induction recs) auto

lemma collectBaseModulo_distinct:
  assumes "distinct (map (\<lambda>r. (mr_kind r, mr_divisor r)) recs)"
  shows "distinct (map (\<lambda>r. (mr_kind r, mr_divisor r)) (collectBaseModulo lp loop bits step nn o1 recs))"
  using assms
  by (auto simp: collectBaseModulo_def Let_def keys_updateRecurrence findModuloRecurrence_def
      find_None_iff sameRecurrence_def split: option.split)

lemma keys_collectDerivedModulo:
  "map (\<lambda>r. (mr_kind r, mr_divisor r)) (collectDerivedModulo loop bits nn o1 recs) =
   map (\<lambda>r. (mr_kind r, mr_divisor r)) recs"
  by (auto simp: collectDerivedModulo_def keys_updateRecurrence split: option.split)

lemma fold_collectBase:
  assumes "set ops \<subseteq> set (fl_ops loop)"
    and "\<forall>r\<in>set recs. rec_ok lp loop step nn r \<and> mr_derivedOps r = []"
    and "distinct (map (\<lambda>r. (mr_kind r, mr_divisor r)) recs)"
  shows "(\<forall>r\<in>set (fold (collectBaseModulo lp loop (elementBits (fl_type loop)) step nn) ops recs).
      rec_ok lp loop step nn r) \<and>
    distinct (map (\<lambda>r. (mr_kind r, mr_divisor r))
      (fold (collectBaseModulo lp loop (elementBits (fl_type loop)) step nn) ops recs))"
  using assms
proof (induction ops arbitrary: recs)
  case (Cons o1 ops)
  let ?recs = "collectBaseModulo lp loop (elementBits (fl_type loop)) step nn o1 recs"
  have o1: "o1 \<in> set (fl_ops loop)" and ops: "set ops \<subseteq> set (fl_ops loop)"
    using Cons.prems(1) by simp_all
  have "\<forall>r\<in>set ?recs. rec_ok lp loop step nn r \<and> mr_derivedOps r = []"
    using collectBaseModulo_ok [OF o1 Cons.prems(2)] by blast
  from Cons.IH [OF ops this collectBaseModulo_distinct [OF Cons.prems(3)]]
  show ?case unfolding fold_simps .
qed simp

lemma fold_collectDerived:
  assumes "set ops \<subseteq> set (fl_ops loop)" and "\<forall>r\<in>set recs. rec_ok lp loop step nn r"
    and "distinct (map (\<lambda>r. (mr_kind r, mr_divisor r)) recs)"
  shows "\<forall>r\<in>set (fold (collectDerivedModulo loop (elementBits (fl_type loop)) nn) ops recs).
    rec_ok lp loop step nn r"
  using assms
proof (induction ops arbitrary: recs)
  case (Cons o1 ops)
  let ?recs = "collectDerivedModulo loop (elementBits (fl_type loop)) nn o1 recs"
  have o1: "o1 \<in> set (fl_ops loop)" and ops: "set ops \<subseteq> set (fl_ops loop)"
    using Cons.prems(1) by simp_all
  have ok: "\<forall>r\<in>set ?recs. rec_ok lp loop step nn r"
    using collectDerivedModulo_ok [OF o1 Cons.prems(2,3)] by blast
  have "distinct (map (\<lambda>r. (mr_kind r, mr_divisor r)) ?recs)"
    using Cons.prems(3) by (simp only: keys_collectDerivedModulo)
  from Cons.IH [OF ops ok this] show ?case unfolding fold_simps .
qed simp

lemma collected_ok:
  assumes "r \<in> set (collectModuloRecurrences lp loop)"
  shows "\<exists>e step. fl_type loop = ScalarType e \<and> elementBits (fl_type loop) \<le> 64 \<and>
    getPositiveConstant (fl_step loop) (elementBits (fl_type loop)) = Some step \<and>
    rec_ok lp loop step (isProvenNonNegative (lp_proofs lp) (fl_lower loop)) r"
proof -
  let ?bits = "elementBits (fl_type loop)"
  let ?nn = "isProvenNonNegative (lp_proofs lp) (fl_lower loop)"
  let ?base = "\<lambda>step. fold (collectBaseModulo lp loop ?bits step ?nn) (fl_ops loop) []"
  obtain step where s: "getPositiveConstant (fl_step loop) ?bits = Some step"
    using assms by (cases "getPositiveConstant (fl_step loop) ?bits")
      (auto simp: collectModuloRecurrences_def Let_def split: if_splits)
  have t: "\<exists>e. fl_type loop = ScalarType e" "?bits \<le> 64"
    using assms by (auto simp: collectModuloRecurrences_def Let_def
        split: if_splits wave_type.splits)
  have "r \<in> set (if ?base step = [] then []
      else fold (collectDerivedModulo loop ?bits ?nn) (fl_ops loop) (?base step))"
    using assms s t by (auto simp: collectModuloRecurrences_def Let_def)
  then have r: "r \<in> set (fold (collectDerivedModulo loop ?bits ?nn) (fl_ops loop) (?base step))"
    by (cases "?base step = []") simp_all
  have base: "(\<forall>r\<in>set (?base step). rec_ok lp loop step ?nn r) \<and>
      distinct (map (\<lambda>r. (mr_kind r, mr_divisor r)) (?base step))"
    by (rule fold_collectBase) simp_all
  have "rec_ok lp loop step ?nn r"
    using fold_collectDerived [OF subset_refl conjunct1 [OF base] conjunct2 [OF base]] r by blast
  then show ?thesis using s t by blast
qed

subsection \<open>Values\<close>

lemma toSigned_small: "2 * n < 2 ^ bits \<Longrightarrow> toSigned bits n = int n"
  by (rule toSigned_nonneg)

lemma toSigned_nonneg_iff: "n < 2 ^ bits \<Longrightarrow> 0 \<le> toSigned bits n \<longleftrightarrow> 2 * n < 2 ^ bits"
proof -
  assume "n < 2 ^ bits"
  then have "int n < 2 ^ bits" by (metis of_nat_less_numeral_power_cancel_iff)
  then show ?thesis by (simp add: toSigned_def)
qed

lemma rem_value:
  assumes kind: "isModulo kind" and d: "0 < d" and a: "a < 2 ^ bits"
    and small: "kind = RemSI \<Longrightarrow> 2 * a < 2 ^ bits \<and> 2 * d < 2 ^ bits"
  shows "foldWaveBinaryConstants kind bits a d = Some (a mod d)"
proof (cases "kind = RemUI")
  case True
  then show ?thesis using d by (simp add: fold_divrem)
next
  case False
  then have k: "kind = RemSI" using kind by (simp add: isModulo_def)
  have s: "toSigned bits a = int a" "toSigned bits d = int d"
    using small [OF k] by (simp_all add: toSigned_small)
  have "int a smod int d = int (a mod d)" by (simp add: smod_nonneg zmod_int)
  moreover have "ofSigned bits (int (a mod d)) = a mod d"
  proof -
    have "a mod d < 2 ^ bits" using a mod_less_eq_dividend [of a d] by linarith
    then have "int (a mod d) < 2 ^ bits" by (metis of_nat_less_numeral_power_cancel_iff)
    then have "int (a mod d) mod 2 ^ bits = int (a mod d)"
      by (intro mod_pos_pos_trivial) simp_all
    then show ?thesis by (simp only: ofSigned_def nat_int)
  qed
  ultimately show ?thesis using d k s by (simp add: fold_divrem)
qed

lemma eval_moduloIncrement:
  assumes r: "evalExpr u env residue < d" and inc: "inc < d" and d: "d < 2 ^ elementBits t"
    and kind: "isModulo kind" and small: "kind = RemSI \<Longrightarrow> 2 * d < 2 ^ elementBits t"
  shows "evalExpr u env (createModuloIncrement t residue kind d inc) = (evalExpr u env residue + inc) mod d"
proof (cases "inc = 0")
  case True
  then show ?thesis using r by (simp add: createModuloIncrement_def)
next
  case False
  let ?r = "evalExpr u env residue" and ?b = "elementBits t"
  have c: "evalExpr u env (createConstantLike t (d - inc)) = d - inc"
    "evalExpr u env (createConstantLike t inc) = inc"
    using d inc by (simp_all add: eval_constantLike)
  have cmp: "evalCmp (if kind = RemUI then CmpUge else CmpSge) ?b ?r (d - inc) \<noteq> 0 \<longleftrightarrow> d - inc \<le> ?r"
  proof (cases "kind = RemUI")
    case False
    then have "kind = RemSI" using kind by (simp add: isModulo_def)
    then have "2 * ?r < 2 ^ ?b" "2 * (d - inc) < 2 ^ ?b" using small r inc by auto
    then show ?thesis using False by (simp add: evalCmp_def toSigned_small)
  qed auto
  have sum: "(?r + inc) mod d = (if d - inc \<le> ?r then ?r - (d - inc) else ?r + inc)"
    using r inc by (auto simp: mod_if)
  have "evalExpr u env (createModuloIncrement t residue kind d inc) =
      (if d - inc \<le> ?r then (?r + 2 ^ ?b - (d - inc)) mod 2 ^ ?b else (?r + inc) mod 2 ^ ?b)"
    using False cmp c by (simp add: createModuloIncrement_def Let_def)
  also have "\<dots> = (if d - inc \<le> ?r then ?r - (d - inc) else ?r + inc)"
  proof (cases "d - inc \<le> ?r")
    case True
    then have e: "?r + 2 ^ ?b - (d - inc) = (?r - (d - inc)) + 2 ^ ?b" by simp
    have "?r - (d - inc) < 2 ^ ?b" using r d by linarith
    then show ?thesis unfolding if_P [OF True] e mod_add_self2 by (rule mod_less)
  qed (use d inc in auto)
  finally show ?thesis using sum by simp
qed

subsection \<open>The carried residues\<close>

text \<open>
  What is known of the numbers of a loop: \<open>lower\<close> is the start of the induction variable, not
  negative as the comparison reads it, and \<open>step\<close> the step.
\<close>

definition divisor_ok :: "nat \<Rightarrow> modulo_recurrence \<Rightarrow> bool" where
  "divisor_ok bits rec \<longleftrightarrow> isModulo (mr_kind rec) \<and> 0 < mr_divisor rec \<and> mr_divisor rec < 2 ^ bits \<and>
     (mr_kind rec = RemSI \<longrightarrow> 2 * mr_divisor rec < 2 ^ bits)"

lemma residues_closed:
  assumes recs: "\<forall>rec\<in>set recs. divisor_ok (elementBits (fl_type loop)) rec \<and>
      mr_step rec = step mod mr_divisor rec \<and>
      (mr_kind rec = RemSI \<longrightarrow> 2 * lower < 2 ^ elementBits (fl_type loop))"
    and lower: "evalExpr u env (fl_lower loop) = lower" "lower < 2 ^ elementBits (fl_type loop)"
  shows "residuesAt u env fresh (rewriteModuloRecurrences loop fresh recs) k =
    map (\<lambda>rec. (lower + k * step) mod mr_divisor rec) recs"
proof (induction k)
  case 0
  have "evalExpr u env (Binary (fl_type loop) (mr_kind rec) (fl_lower loop)
      (createConstantLike (fl_type loop) (mr_divisor rec))) = lower mod mr_divisor rec"
    if "rec \<in> set recs" for rec
    using recs that lower rem_value [of "mr_kind rec" "mr_divisor rec" lower "elementBits (fl_type loop)"]
    by (simp add: divisor_ok_def eval_constantLike evalBinary_def)
  then show ?case by (simp add: rewriteModuloRecurrences_def Let_def)
next
  case (Suc k)
  let ?rw = "rewriteModuloRecurrences loop fresh recs"
  let ?env = "bindResidues env fresh (residuesAt u env fresh ?rw k)"
  show ?case
  proof (rule nth_equalityI)
    show "length (residuesAt u env fresh ?rw (Suc k)) =
        length (map (\<lambda>rec. (lower + Suc k * step) mod mr_divisor rec) recs)"
      by (simp add: rewriteModuloRecurrences_def Let_def)
    fix j assume "j < length (residuesAt u env fresh ?rw (Suc k))"
    then have j: "j < length recs" by (simp add: rewriteModuloRecurrences_def Let_def)
    let ?rec = "recs ! j"
    have ok: "divisor_ok (elementBits (fl_type loop)) ?rec" "mr_step ?rec = step mod mr_divisor ?rec"
      using recs j by simp_all
    have now: "evalExpr u ?env (Operand (fresh + j) (fl_type loop)) = (lower + k * step) mod mr_divisor ?rec"
      using j by (simp add: bindResidues_def Suc.IH)
    have "residuesAt u env fresh ?rw (Suc k) ! j =
        evalExpr u ?env (createModuloIncrement (fl_type loop) (Operand (fresh + j) (fl_type loop))
          (mr_kind ?rec) (mr_divisor ?rec) (mr_step ?rec))"
      using j by (simp add: rewriteModuloRecurrences_def Let_def nth_enumerate_eq)
    also have "\<dots> = ((lower + k * step) mod mr_divisor ?rec + mr_step ?rec) mod mr_divisor ?rec"
      using ok now eval_moduloIncrement [of u ?env "Operand (fresh + j) (fl_type loop)"
          "mr_divisor ?rec" "mr_step ?rec" "fl_type loop" "mr_kind ?rec"]
      by (simp add: divisor_ok_def)
    also have "\<dots> = (lower + Suc k * step) mod mr_divisor ?rec"
      using ok(2) by (simp add: mod_add_eq ac_simps)
    finally show "residuesAt u env fresh ?rw (Suc k) ! j =
        map (\<lambda>rec. (lower + Suc k * step) mod mr_divisor rec) recs ! j"
      using j by simp
  qed
qed

subsection \<open>The operations that are replaced\<close>

text \<open>
  The iteration of a loop in numbers: \<open>n\<close> is the induction variable, \<open>bits\<close> its width. It is not
  above the signed range when the loop compares signed values or the upper bound is known to be
  at most the least signed value.
\<close>

definition iteration_ok :: "loop_proofs \<Rightarrow> for_loop \<Rightarrow> nat \<Rightarrow> bool" where
  "iteration_ok lp loop n \<longleftrightarrow>
     n < 2 ^ elementBits (fl_type loop) \<and>
     (\<not> fl_unsignedCmp loop \<or> isProvenUnsignedUpperAtMostSignedMin lp (fl_upper loop) \<longrightarrow>
        2 * n < 2 ^ elementBits (fl_type loop))"

definition offsets_safe :: "for_loop \<Rightarrow> bool" where
  "offsets_safe loop \<longleftrightarrow>
     list_all (\<lambda>add. lo_kind add = AddI \<and> lo_nsw add \<and> \<not> lo_nuw add \<longrightarrow>
       \<not> fl_unsignedCmp loop \<and>
       list_all (\<lambda>v. case getConstantAPInt v (elementBits (fl_type loop)) of
          None \<Rightarrow> True | Some c \<Rightarrow> 2 * c < 2 ^ elementBits (fl_type loop)) [lo_lhs add, lo_rhs add])
     (fl_ops loop)"

definition closed_ops :: "loop_op list \<Rightarrow> loop_op list \<Rightarrow> bool" where
  "closed_ops ops E \<longleftrightarrow> list_all (\<lambda>o1. List.member ops o1 \<and>
     (case definingOp ops (lo_lhs o1) of None \<Rightarrow> True | Some d \<Rightarrow> List.member E d) \<and>
     (case definingOp ops (lo_rhs o1) of None \<Rightarrow> True | Some d \<Rightarrow> List.member E d)) E"

lemma definingOp_result:
  assumes "distinct (map lo_result ops)" and "o1 \<in> set ops" and "resultOf o1 = v"
  shows "definingOp ops v = Some o1"
proof -
  have "resultOf o2 = v \<longleftrightarrow> o2 = o1" if "o2 \<in> set ops" for o2
    using assms that by (auto simp: resultOf_def distinct_map inj_on_def)
  then have "List.find (\<lambda>o2. resultOf o2 = v) ops = List.find (\<lambda>o2. o2 = o1) ops"
    by (intro find_cong) simp_all
  also have "\<dots> = Some o1" using assms(2) by (induction ops) auto
  finally show ?thesis by (simp add: definingOp_def)
qed

lemma closed_opsD:
  assumes E: "closed_ops ops E" and o1: "o1 \<in> set E"
  shows "o1 \<in> set ops"
    and "definingOp ops (lo_lhs o1) = Some d \<or> definingOp ops (lo_rhs o1) = Some d \<Longrightarrow> d \<in> set E"
proof -
  have "List.member ops o1 \<and>
     (case definingOp ops (lo_lhs o1) of None \<Rightarrow> True | Some d \<Rightarrow> List.member E d) \<and>
     (case definingOp ops (lo_rhs o1) of None \<Rightarrow> True | Some d \<Rightarrow> List.member E d)"
    using assms unfolding closed_ops_def list_all_iff by blast
  then show "o1 \<in> set ops"
    "definingOp ops (lo_lhs o1) = Some d \<or> definingOp ops (lo_rhs o1) = Some d \<Longrightarrow> d \<in> set E"
    by (auto split: option.splits)
qed

lemma definingOp_Some: "definingOp ops v = Some d \<Longrightarrow> d \<in> set ops \<and> resultOf d = v"
  by (auto simp: definingOp_def find_Some_iff)

lemma eval_resultOf [simp]: "evalExpr u env (resultOf o1) = env (lo_result o1)"
  by (simp add: resultOf_def)

lemma eval_inductionOf [simp]: "evalExpr u env (inductionOf loop) = env (fl_inductionVar loop)"
  by (simp add: inductionOf_def)

text \<open>The value of a modulo operation whose left operand has a small value.\<close>

lemma modulo_op_value:
  assumes m: "modulo_op loop kind d o1" and kind: "isModulo kind"
    and op: "op_ok o1" and t: "fl_type loop = ScalarType e" and ex: "executed_op u env o1"
    and x: "evalExpr u env (lo_lhs o1) < 2 ^ elementBits (fl_type loop)"
    and small: "kind = RemSI \<Longrightarrow> 2 * evalExpr u env (lo_lhs o1) < 2 ^ elementBits (fl_type loop)"
  shows "env (lo_result o1) = evalExpr u env (lo_lhs o1) mod d"
proof -
  have o1: "lo_kind o1 = kind" "lo_type o1 = fl_type loop"
      "getModuloDivisor (lo_rhs o1) (elementBits (fl_type loop)) kind = Some d"
    using m by (simp_all add: modulo_op_def)
  note sc = op_ok_scalar [OF op, unfolded o1(2), OF t]
  have "exprBits (lo_rhs o1) = elementBits (fl_type loop)" using sc(2) t by (simp add: exprBits_def)
  note d = getModuloDivisor_value [OF o1(3) sc(4) this]
  have "foldWaveBinaryConstants kind (elementBits (fl_type loop)) (evalExpr u env (lo_lhs o1)) d =
      Some (evalExpr u env (lo_lhs o1) mod d)"
    using d small by (intro rem_value [OF kind _ x]) simp_all
  then show ?thesis using ex o1 d(1) [of u env] by (simp add: executed_op_def)
qed

lemma rec_divisor_ok:
  assumes rec: "rec_ok lp loop step nn rec" and t: "fl_type loop = ScalarType e"
    and ops: "list_all op_ok (fl_ops loop)"
  shows "divisor_ok (elementBits (fl_type loop)) rec"
proof -
  define o1 where "o1 = hd (mr_baseOps rec)"
  have "o1 \<in> set (mr_baseOps rec)" using rec by (simp add: rec_ok_def o1_def)
  then have m: "modulo_op loop (mr_kind rec) (mr_divisor rec) o1" using rec by (simp add: rec_ok_def)
  then have o1: "op_ok o1" "lo_type o1 = fl_type loop"
      "getModuloDivisor (lo_rhs o1) (elementBits (fl_type loop)) (mr_kind rec) = Some (mr_divisor rec)"
    using ops by (simp_all add: modulo_op_def list_all_iff)
  note sc = op_ok_scalar [OF o1(1), unfolded o1(2), OF t]
  have "exprBits (lo_rhs o1) = elementBits (fl_type loop)" using sc(2) t by (simp add: exprBits_def)
  from getModuloDivisor_value [OF o1(3) sc(4) this]
  show ?thesis using rec by (simp add: divisor_ok_def rec_ok_def)
qed

lemma small_induction:
  assumes rec: "rec_ok lp loop step nn rec" and n: "iteration_ok lp loop n" and s: "mr_kind rec = RemSI"
  shows "2 * n < 2 ^ elementBits (fl_type loop)"
  using assms by (auto simp: rec_ok_def isRecurrenceLegal_def iteration_ok_def)

lemma base_op_value:
  assumes rec: "rec_ok lp loop step nn rec" and n: "iteration_ok lp loop n"
    and t: "fl_type loop = ScalarType e" and ops: "list_all op_ok (fl_ops loop)"
    and o1: "o1 \<in> set (mr_baseOps rec)" and ex: "executed_op u env o1"
    and iv: "env (fl_inductionVar loop) = n"
  shows "env (lo_result o1) = n mod mr_divisor rec"
proof -
  have b: "modulo_op loop (mr_kind rec) (mr_divisor rec) o1" "lo_lhs o1 = inductionOf loop"
      "isModulo (mr_kind rec)"
    using rec o1 by (simp_all add: rec_ok_def)
  then have "op_ok o1" using ops by (simp add: modulo_op_def list_all_iff)
  from modulo_op_value [OF b(1,3) this t ex] show ?thesis
    using n small_induction [OF rec n] iv b(2) by (simp add: iteration_ok_def)
qed

text \<open>The offset of a derived operation: an addition of a constant to another value.\<close>

definition adds :: "loop_op \<Rightarrow> expr \<Rightarrow> expr \<Rightarrow> bool" where
  "adds add v c \<longleftrightarrow> lo_kind add = AddI \<and> (lo_lhs add = v \<and> lo_rhs add = c \<or> lo_rhs add = v \<and> lo_lhs add = c)"

lemma matchModuloOffset_Some:
  assumes "matchModuloOffset loop o1 rec = Some off"
  obtains v where "definingOp (fl_ops loop) (lo_lhs o1) = Some (mo_add off)"
    and "adds (mo_add off) v (mo_value off)"
    and "mo_addsInduction off \<Longrightarrow> v = inductionOf loop"
    and "\<not> mo_addsInduction off \<Longrightarrow> isBaseModuloValue v rec"
proof -
  obtain add where d: "definingOp (fl_ops loop) (lo_lhs o1) = Some add"
    using assms by (cases "definingOp (fl_ops loop) (lo_lhs o1)") (simp_all add: matchModuloOffset_def)
  then have "mo_add off = add" and "\<exists>v. adds add v (mo_value off) \<and>
      (if mo_addsInduction off then v = inductionOf loop else isBaseModuloValue v rec)"
    using assms by (fastforce simp: matchModuloOffset_def adds_def split: if_splits)+
  then show thesis using that d by (metis (full_types))
qed

lemma adds_value:
  assumes a: "adds add v w" and op: "op_ok add" and t: "lo_type add = ScalarType e"
    and c: "getConstantAPInt w (elementBits (ScalarType e)) = Some c"
    and ex: "executed_op u env add"
  shows "c < 2 ^ elementBits (ScalarType e)"
    and "evalExpr u env v + c < 2 ^ elementBits (ScalarType e) \<Longrightarrow>
      env (lo_result add) = evalExpr u env v + c"
    and "lo_nuw add \<Longrightarrow> evalExpr u env v + c < 2 ^ elementBits (ScalarType e)"
    and "lo_nsw add \<Longrightarrow> 2 * evalExpr u env v < 2 ^ elementBits (ScalarType e) \<Longrightarrow>
      2 * c < 2 ^ elementBits (ScalarType e) \<Longrightarrow>
      2 * (evalExpr u env v + c) < 2 ^ elementBits (ScalarType e)"
proof -
  let ?b = "elementBits (ScalarType e)"
  note sc = op_ok_scalar [OF op t]
  have "wellTyped w" "exprBits w = ?b" using a sc by (auto simp: adds_def exprBits_def)
  note w = constant_value [OF c this]
  show "c < 2 ^ ?b" by (rule w(2))
  have sum: "evalExpr u env (lo_lhs add) + evalExpr u env (lo_rhs add) = evalExpr u env v + c"
    "toSigned ?b (evalExpr u env (lo_lhs add)) + toSigned ?b (evalExpr u env (lo_rhs add)) =
       toSigned ?b (evalExpr u env v) + toSigned ?b c"
    and k: "lo_kind add = AddI"
    using a w(1) [of u env] by (auto simp: adds_def)
  have "(evalExpr u env v + c) mod 2 ^ ?b = env (lo_result add)"
    using ex k t sum
    by (simp add: executed_op_def foldWaveBinaryConstants_def foldWaveAddSubMulConstants_def)
  then show "evalExpr u env v + c < 2 ^ ?b \<Longrightarrow> env (lo_result add) = evalExpr u env v + c" by simp
  have f: "keepsFlags u env add" using ex by (simp add: executed_op_def)
  show "lo_nuw add \<Longrightarrow> evalExpr u env v + c < 2 ^ ?b"
    using f k t sum by (simp add: keepsFlags_def Let_def)
  assume nsw: "lo_nsw add" and small: "2 * evalExpr u env v < 2 ^ ?b" "2 * c < 2 ^ ?b"
  show "2 * (evalExpr u env v + c) < 2 ^ ?b"
  proof (cases "?b = 0")
    case False
    then have p: "(2::nat) ^ ?b = 2 * 2 ^ (?b - 1)" by (simp add: power_eq_if)
    have "int (evalExpr u env v + c) < 2 ^ (?b - 1)"
      using f k t sum nsw small by (simp add: keepsFlags_def Let_def toSigned_small)
    then have "evalExpr u env v + c < 2 ^ (?b - 1)" by (metis of_nat_less_numeral_power_cancel_iff)
    then show ?thesis unfolding p by simp
  qed (use small in simp)
qed

lemma base_value_executed:
  assumes rec: "rec_ok lp loop step nn rec" and n: "iteration_ok lp loop n"
    and t: "fl_type loop = ScalarType e" and ops: "list_all op_ok (fl_ops loop)"
    and distinct: "distinct (map lo_result (fl_ops loop))"
    and E: "closed_ops (fl_ops loop) E" "\<forall>o1\<in>set E. executed_op u env o1"
    and iv: "env (fl_inductionVar loop) = n"
    and v: "isBaseModuloValue v rec" and o1: "o1 \<in> set E" and arg: "v = lo_lhs o1 \<or> v = lo_rhs o1"
  shows "evalExpr u env v = n mod mr_divisor rec"
proof -
  obtain base where base: "base \<in> set (mr_baseOps rec)" "resultOf base = v"
    using v by (auto simp: isBaseModuloValue_def list_ex_iff)
  then have "base \<in> set (fl_ops loop)" using rec by (simp add: rec_ok_def modulo_op_def)
  then have "definingOp (fl_ops loop) v = Some base" using base(2) by (rule definingOp_result [OF distinct])
  then have "base \<in> set E" using closed_opsD(2) [OF E(1) o1] arg by auto
  then have "env (lo_result base) = n mod mr_divisor rec"
    using E(2) iv base_op_value [OF rec n t ops base(1), of u env] by blast
  then show ?thesis using base(2) by auto
qed

text \<open>
  The value of a derived operation. The left operand is a residue itself, or a sum that does not
  wrap; where the legality rests on the signed flag, \<open>offsets_safe\<close> gives that it does not.
\<close>

lemma base_offset_exact:
  assumes legal: "isModuloOffsetLegal off rec c bits nn" and d: "divisor_ok bits rec"
    and no: "\<not> mo_addsInduction off" and x: "x < mr_divisor rec" and c: "c < 2 ^ bits"
  shows "x + c < 2 ^ bits" and "mr_kind rec = RemSI \<Longrightarrow> 2 * (x + c) < 2 ^ bits"
proof -
  have dd: "0 < mr_divisor rec" "mr_divisor rec < 2 ^ bits" using d by (simp_all add: divisor_ok_def)
  have "bits \<noteq> 0" using dd by (cases bits) auto
  then have p: "(2::nat) ^ bits = 2 * 2 ^ (bits - 1)" by (simp add: power_eq_if)
  define m :: nat where "m = (if mr_kind rec = RemSI then 2 ^ (bits - 1) - 1 else 2 ^ bits - 1)"
  have dm: "mr_divisor rec - 1 \<le> m" using d p by (auto simp: m_def divisor_ok_def)
  have b: "(mr_divisor rec - 1) mod 2 ^ bits = mr_divisor rec - 1" using dd by simp
  have "(0::nat) < 2 ^ (bits - 1)" by simp
  moreover have "(if b then h - 1 else 2 * h - 1) < 2 * h" if "0 < h" for h :: nat and b
    using that by auto
  ultimately have mm: "m < 2 ^ bits" unfolding m_def p by blast
  have e: "m + 2 ^ bits - (mr_divisor rec - 1) = (m - (mr_divisor rec - 1)) + 2 ^ bits"
    using dm by simp
  have "(m + 2 ^ bits - (mr_divisor rec - 1)) mod 2 ^ bits = m - (mr_divisor rec - 1)"
    using mm unfolding e mod_add_self2 by (intro mod_less) linarith
  then have "c \<le> m - (mr_divisor rec - 1)"
    using legal no b by (simp add: isModuloOffsetLegal_def Let_def m_def)
  then have s: "x + c \<le> m" using x dm by linarith
  then show "x + c < 2 ^ bits" using mm by linarith
  show "2 * (x + c) < 2 ^ bits" if "mr_kind rec = RemSI"
  proof -
    have "y < h" if "y \<le> h - 1" "0 < h" for y h :: nat using that by linarith
    moreover have "x + c \<le> 2 ^ (bits - 1) - 1" using s that unfolding m_def by simp
    ultimately have "x + c < 2 ^ (bits - 1)" using \<open>0 < 2 ^ (bits - 1)\<close> by blast
    then show ?thesis unfolding p by simp
  qed
qed

lemma derived_op_value:
  assumes rec: "rec_ok lp loop step nn rec" and n: "iteration_ok lp loop n"
    and t: "fl_type loop = ScalarType e" and ops: "list_all op_ok (fl_ops loop)"
    and distinct: "distinct (map lo_result (fl_ops loop))" and safe: "offsets_safe loop"
    and E: "closed_ops (fl_ops loop) E" "\<forall>o1\<in>set E. executed_op u env o1"
    and iv: "env (fl_inductionVar loop) = n"
    and dm: "dm \<in> set (mr_derivedOps rec)" and o1: "dm_op dm \<in> set E"
  shows "env (lo_result (dm_op dm)) = (n + dm_increment dm) mod mr_divisor rec"
    and "dm_increment dm < mr_divisor rec"
proof -
  let ?o = "dm_op dm" and ?d = "mr_divisor rec" and ?b = "elementBits (fl_type loop)"
  have m: "modulo_op loop (mr_kind rec) ?d ?o" "isModulo (mr_kind rec)"
      "getDerivedModuloIncrement loop ?o rec nn = Some (dm_increment dm)"
    using rec dm by (simp_all add: rec_ok_def)
  have ok: "op_ok ?o" "lo_type ?o = fl_type loop" using m(1) ops by (simp_all add: modulo_op_def list_all_iff)
  note d = rec_divisor_ok [OF rec t ops]
  have d0: "0 < ?d" "?d < 2 ^ ?b" "mr_kind rec = RemSI \<Longrightarrow> 2 * ?d < 2 ^ ?b"
    using d by (simp_all add: divisor_ok_def)
  note base = base_value_executed [OF rec n t ops distinct E iv]
  note val = modulo_op_value [OF m(1,2) ok(1) t, of u env]
  have exo: "executed_op u env ?o" using E(2) o1 by simp
  have "\<exists>c. dm_increment dm = c mod ?d \<and> (evalExpr u env (lo_lhs ?o)) mod ?d = (n + c) mod ?d \<and>
      evalExpr u env (lo_lhs ?o) < 2 ^ ?b \<and>
      (mr_kind rec = RemSI \<longrightarrow> 2 * evalExpr u env (lo_lhs ?o) < 2 ^ ?b)"
  proof (cases "isBaseModuloValue (lo_lhs ?o) rec")
    case True
    have x: "evalExpr u env (lo_lhs ?o) = n mod ?d" by (rule base [OF True o1]) simp
    have "n mod ?d < ?d" using d0(1) by simp
    then have "n mod ?d < 2 ^ ?b \<and> (mr_kind rec = RemSI \<longrightarrow> 2 * (n mod ?d) < 2 ^ ?b)"
      using d0(2,3) by linarith
    then show ?thesis using m(3) True x d0 by (intro exI [of _ 0]) (simp add: getDerivedModuloIncrement_def)
  next
    case False
    then obtain off c where off: "matchModuloOffset loop ?o rec = Some off"
        "getConstantAPInt (mo_value off) ?b = Some c"
        "mr_kind rec = RemSI \<longrightarrow> 0 \<le> toSigned ?b c" "isModuloOffsetLegal off rec c ?b nn"
        "dm_increment dm = c mod ?d"
      using m(3) ok(2) by (force simp: getDerivedModuloIncrement_def Let_def split: option.splits if_splits)
    obtain v where v: "definingOp (fl_ops loop) (lo_lhs ?o) = Some (mo_add off)"
        "adds (mo_add off) v (mo_value off)"
        "mo_addsInduction off \<Longrightarrow> v = inductionOf loop"
        "\<not> mo_addsInduction off \<Longrightarrow> isBaseModuloValue v rec"
      using matchModuloOffset_Some [OF off(1)] by metis
    let ?a = "mo_add off"
    have a: "?a \<in> set E" "executed_op u env ?a" "?a \<in> set (fl_ops loop)" "resultOf ?a = lo_lhs ?o"
      using closed_opsD [OF E(1) o1] E(2) v(1) definingOp_Some [OF v(1)] by auto
    have aok: "op_ok ?a" using a(3) ops by (simp add: list_all_iff)
    have ta: "lo_type ?a = ScalarType e"
      using op_ok_scalar(1) [OF ok(1), of e] ok(2) t a(4) by (metis resultOf_def typeOf.simps(1))
    have x: "evalExpr u env (lo_lhs ?o) = env (lo_result ?a)" by (simp add: a(4) [symmetric])
    note sum = adds_value [OF v(2) aok ta off(2) [unfolded t] a(2), folded t]
    have c2: "0 \<le> toSigned ?b c \<longleftrightarrow> 2 * c < 2 ^ ?b" using sum(1) by (rule toSigned_nonneg_iff)
    have bound: "evalExpr u env v + c < 2 ^ ?b \<and>
        (mr_kind rec = RemSI \<longrightarrow> 2 * (evalExpr u env v + c) < 2 ^ ?b) \<and> evalExpr u env v mod ?d = n mod ?d"
    proof (cases "mo_addsInduction off")
      case no: False
      have ev: "evalExpr u env v = n mod ?d"
        using v(2) by (intro base [OF v(4) [OF no] a(1)]) (auto simp: adds_def)
      then have "evalExpr u env v < ?d" using d0(1) by simp
      from base_offset_exact [OF off(4) d no this sum(1)] ev show ?thesis by simp
    next
      case ind: True
      have ev: "evalExpr u env v = n" using v(3) [OF ind] iv by simp
      show ?thesis
      proof (cases "lo_nuw ?a \<and> mr_kind rec \<noteq> RemSI")
        case True
        then show ?thesis using sum(3) ev by simp
      next
        case False
        have nsw: "lo_nsw ?a \<or> lo_nuw ?a" "mr_kind rec = RemSI \<longrightarrow> lo_nsw ?a"
          "\<not> lo_nuw ?a \<Longrightarrow> lo_nsw ?a"
          using off(4) ind by (auto simp: isModuloOffsetLegal_def split: if_splits)
        have small: "2 * n < 2 ^ ?b \<and> 2 * c < 2 ^ ?b"
        proof (cases "mr_kind rec = RemSI")
          case True
          then show ?thesis using small_induction [OF rec n] off(3) c2 by simp
        next
          case nors: False
          then have "\<not> lo_nuw ?a" "lo_nsw ?a" using False nsw(3) by auto
          then have "\<not> fl_unsignedCmp loop \<and> 2 * c < 2 ^ ?b"
            using safe a(3) v(2) off(2) by (auto simp: offsets_safe_def list_all_iff adds_def)
          then show ?thesis using n by (simp add: iteration_ok_def)
        qed
        moreover have "lo_nsw ?a" using False nsw by auto
        ultimately have "2 * (n + c) < 2 ^ ?b" using sum(4) ev by simp
        then show ?thesis using ev by simp
      qed
    qed
    then have "env (lo_result ?a) = evalExpr u env v + c" using sum(2) by simp
    moreover have "(evalExpr u env v + c) mod ?d = (n + c) mod ?d"
      using bound by (metis mod_add_left_eq)
    ultimately show ?thesis using bound off(5) x by auto
  qed
  then obtain c where c: "dm_increment dm = c mod ?d" "evalExpr u env (lo_lhs ?o) mod ?d = (n + c) mod ?d"
      "evalExpr u env (lo_lhs ?o) < 2 ^ ?b"
      "mr_kind rec = RemSI \<longrightarrow> 2 * evalExpr u env (lo_lhs ?o) < 2 ^ ?b" by blast
  have "env (lo_result ?o) = (n + c) mod ?d" using val [OF exo c(3)] c(2,4) by simp
  then show "env (lo_result ?o) = (n + dm_increment dm) mod ?d" using c(1) by (simp add: mod_add_right_eq)
  show "dm_increment dm < ?d" using c(1) d0(1) by simp
qed

subsection \<open>The iterations of the loop\<close>

text \<open>What the answers of the analyses mean: bounds of the values that are asked for.\<close>

definition sound_loop_proofs ::
    "(nat \<Rightarrow> nat) \<Rightarrow> (nat \<Rightarrow> nat) \<Rightarrow> loop_proofs \<Rightarrow> expr list \<Rightarrow> bool" where
  "sound_loop_proofs u env lp asked \<longleftrightarrow>
     sound_proofs u env (lp_proofs lp) asked \<and>
     (\<forall>e\<in>set asked. (\<forall>m. lp_unsignedMax lp e = Some m \<longrightarrow> evalExpr u env e \<le> m) \<and>
        (\<forall>b. lp_signedUpperBound lp e b \<longrightarrow> toSigned (exprBits e) (evalExpr u env e) \<le> b))"

lemma upper_proven:
  assumes sound: "sound_loop_proofs u env lp asked" "e \<in> set asked" and proven: "upperFromAnalyses lp e"
    and e: "wellTyped e" and b: "evalExpr u env e < 2 ^ exprBits e" "0 < exprBits e"
  shows "evalExpr u env e \<le> 2 ^ (exprBits e - 1)"
proof (cases "getConstantAPInt e (exprBits e)")
  case (Some c)
  then show ?thesis
    using proven constant_value(1) [OF Some e refl, of u env] by (simp add: upperFromAnalyses_def Let_def)
next
  case None
  let ?b = "exprBits e" and ?v = "evalExpr u env e"
  have p: "(2::nat) ^ ?b = 2 * 2 ^ (?b - 1)" using b(2) by (simp add: power_eq_if)
  consider m where "lp_unsignedMax lp e = Some m" "m \<le> 2 ^ (?b - 1)"
    | "pf_signedLowerBound (lp_proofs lp) e 0"
    using proven None by (auto simp: upperFromAnalyses_def Let_def split: option.splits)
  then show ?thesis
  proof cases
    case 1
    then show ?thesis using sound by (fastforce simp: sound_loop_proofs_def)
  next
    case 2
    then have "0 \<le> toSigned ?b ?v"
      using sound sound_proofsD(1) [of u env "lp_proofs lp" asked e] by (auto simp: sound_loop_proofs_def)
    then have "2 * ?v < 2 ^ ?b" using toSigned_nonneg_iff [OF b(1)] by simp
    then show ?thesis unfolding p by simp
  qed
qed

lemma iteration_number:
  assumes loop: "loop_ok loop fresh" and t: "fl_type loop = ScalarType e"
    and sound: "sound_loop_proofs u env lp [fl_lower loop, fl_upper loop]"
    and vals: "evalExpr u env (fl_lower loop) < 2 ^ elementBits (fl_type loop)"
      "evalExpr u env (fl_upper loop) < 2 ^ elementBits (fl_type loop)"
    and rec: "rec_ok lp loop step (isProvenNonNegative (lp_proofs lp) (fl_lower loop)) rec"
    and pos: "0 < elementBits (fl_type loop)" and exec: "executes u env loop k"
  shows "inductionAt u env loop k =
      int (evalExpr u env (fl_lower loop) + k * evalExpr u env (fl_step loop))"
    and "iteration_ok lp loop (evalExpr u env (fl_lower loop) + k * evalExpr u env (fl_step loop))"
    and "mr_kind rec = RemSI \<Longrightarrow> 2 * evalExpr u env (fl_lower loop) < 2 ^ elementBits (fl_type loop)"
proof -
  let ?b = "elementBits (fl_type loop)" and ?L = "evalExpr u env (fl_lower loop)"
    and ?U = "evalExpr u env (fl_upper loop)"
  let ?n = "?L + k * evalExpr u env (fl_step loop)"
  have p: "(2::nat) ^ ?b = 2 * 2 ^ (?b - 1)" using pos by (simp add: power_eq_if)
  have bits: "exprBits (fl_lower loop) = ?b" "exprBits (fl_upper loop) = ?b"
    using loop by (simp_all add: loop_ok_def exprBits_def)
  have nonneg: "2 * ?L < 2 ^ ?b" if "isProvenNonNegative (lp_proofs lp) (fl_lower loop)"
  proof -
    have "0 \<le> toSigned ?b ?L"
      using that sound sound_proofsD(1) [of u env "lp_proofs lp" "[fl_lower loop, fl_upper loop]" "fl_lower loop"] bits
      by (auto simp: sound_loop_proofs_def isProvenNonNegative_def)
    then show ?thesis using toSigned_nonneg_iff [OF vals(1)] by simp
  qed
  have legal: "fl_unsignedCmp loop \<or> isProvenNonNegative (lp_proofs lp) (fl_lower loop)"
    "mr_kind rec = RemSI \<Longrightarrow> isProvenNonNegative (lp_proofs lp) (fl_lower loop)"
    using rec by (auto simp: rec_ok_def isRecurrenceLegal_def split: if_splits)
  then show "mr_kind rec = RemSI \<Longrightarrow> 2 * ?L < 2 ^ ?b" using nonneg by blast
  have "readBound loop ?L = int ?L"
    using legal(1) nonneg by (auto simp: readBound_def toSigned_small)
  then show iv: "inductionAt u env loop k = int ?n" by (simp add: inductionAt_def)
  have below: "int ?n < readBound loop ?U" using exec iv by (simp add: executes_def)
  have le: "readBound loop ?U \<le> int ?U" by (simp add: readBound_def toSigned_def)
  then have "?n < ?U" using below by linarith
  then have small: "?n < 2 ^ ?b" using vals(2) by linarith
  have "2 * ?n < 2 ^ ?b" if signed: "\<not> fl_unsignedCmp loop"
  proof -
    have "int ?n < toSigned ?b ?U" using below signed by (simp add: readBound_def)
    moreover from this have "0 \<le> toSigned ?b ?U" by linarith
    then have "2 * ?U < 2 ^ ?b" using toSigned_nonneg_iff [OF vals(2)] by simp
    moreover have "2 * ?n \<le> 2 * ?U" using \<open>?n < ?U\<close> by simp
    ultimately show ?thesis by (meson order_le_less_trans)
  qed
  moreover have "2 * ?n < 2 ^ ?b" if proven: "isProvenUnsignedUpperAtMostSignedMin lp (fl_upper loop)"
  proof -
    have ty: "typeOf (fl_upper loop) = ScalarType e" "wellTyped (fl_upper loop)"
      using loop t by (simp_all add: loop_ok_def)
    then have "upperFromAnalyses lp (fl_upper loop)" using proven by (cases "fl_upper loop") auto
    from upper_proven [OF sound _ this ty(2)] have "?U \<le> 2 ^ (?b - 1)"
      using vals(2) pos bits by simp
    then show ?thesis unfolding p using \<open>?n < ?U\<close> by simp
  qed
  ultimately show "iteration_ok lp loop ?n" using small by (auto simp: iteration_ok_def)
qed

lemma step_value:
  assumes "loop_ok loop fresh"
    and "getPositiveConstant (fl_step loop) (elementBits (fl_type loop)) = Some step"
  shows "evalExpr u env (fl_step loop) = step"
  using assms constant_value(1) [of "fl_step loop" "elementBits (fl_type loop)" step u env]
  by (auto simp: loop_ok_def exprBits_def getPositiveConstant_def split: option.splits if_splits)

text \<open>What one recurrence is replaced by has the values of the operations.\<close>

lemma replacement_value:
  assumes rec: "rec_ok lp loop step nn rec" and n: "iteration_ok lp loop n"
    and t: "fl_type loop = ScalarType e" and ops: "list_all op_ok (fl_ops loop)"
    and distinct: "distinct (map lo_result (fl_ops loop))" and safe: "offsets_safe loop"
    and E: "closed_ops (fl_ops loop) E" "\<forall>o1\<in>set E. executed_op u env o1"
    and iv: "env (fl_inductionVar loop) = n"
    and o1: "o1 \<in> set E" and r: "(lo_result o1, x) \<in> set (replacementsOf (fl_type loop) residue rec)"
    and res: "evalExpr u env' residue = n mod mr_divisor rec"
  shows "evalExpr u env' x = env (lo_result o1)"
proof -
  have same: "o2 = o1" if "o2 \<in> set (fl_ops loop)" "lo_result o2 = lo_result o1" for o2
    using that distinct closed_opsD(1) [OF E(1) o1] by (auto simp: distinct_map inj_on_def)
  have in_ops: "modulo_op loop k d o2 \<Longrightarrow> o2 \<in> set (fl_ops loop)" for k d o2 by (simp add: modulo_op_def)
  have ex: "executed_op u env o1" using E(2) o1 by simp
  consider "o1 \<in> set (mr_baseOps rec)" "x = residue"
    | dm where "dm \<in> set (mr_derivedOps rec)" "dm_op dm = o1"
      "x = createModuloIncrement (fl_type loop) residue (mr_kind rec) (mr_divisor rec) (dm_increment dm)"
    using r rec same in_ops unfolding replacementsOf_def rec_ok_def by fastforce
  then show ?thesis
  proof cases
    case 1
    then show ?thesis using base_op_value [OF rec n t ops 1(1) ex iv] res by simp
  next
    case 2
    note v = derived_op_value [OF rec n t ops distinct safe E iv 2(1)]
    have d: "divisor_ok (elementBits (fl_type loop)) rec" by (rule rec_divisor_ok [OF rec t ops])
    have "evalExpr u env' x = (n mod mr_divisor rec + dm_increment dm) mod mr_divisor rec"
      using d v(2) o1 2(2,3) res eval_moduloIncrement [of u env' residue "mr_divisor rec"
          "dm_increment dm" "fl_type loop" "mr_kind rec"]
      by (simp add: divisor_ok_def)
    then show ?thesis using v(1) o1 2(2) by (simp add: mod_add_left_eq)
  qed
qed

text \<open>C36: Carrying residues through a loop is correct, under these conditions: the loop is well
  formed, over integers; the analyses answer soundly; and every addition of the body that has the
  signed flag and not the unsigned one adds a non-negative constant and is in a loop that compares
  signed values (\<open>offsets_safe\<close>). Then in every iteration that is executed the expression by
  which \<^verbatim>\<open>rewriteModuloRecurrences\<close> replaces a remainder of the induction variable, or of a
  constant offset of it, has the value that the removed operation had, for signed and unsigned
  remainders and comparisons, whatever the values of the body; and the ranges that the rewrite
  lets later passes assume of the residues hold. The last condition is needed: the pass accepts
  other offsets, and \<open>negative_offset_wrong\<close> and \<open>unsigned_loop_offset_wrong\<close> below show that
  the replaced values are then wrong.\<close>

theorem modulo_recurrence_exact:
  assumes loop: "loop_ok loop fresh" and safe: "offsets_safe loop"
    and sound: "sound_loop_proofs u env lp [fl_lower loop, fl_upper loop]"
    and vals: "evalExpr u env (fl_lower loop) < 2 ^ elementBits (fl_type loop)"
      "evalExpr u env (fl_upper loop) < 2 ^ elementBits (fl_type loop)"
    and recs: "collectModuloRecurrences lp loop = recs"
    and rw: "rewriteModuloRecurrences loop fresh recs = rw"
    and exec: "executes u env loop k"
    and iv: "int (env' (fl_inductionVar loop)) =
      inductionAt u env loop k mod 2 ^ elementBits (fl_type loop)"
    and E: "closed_ops (fl_ops loop) E" "\<forall>o1\<in>set E. executed_op u env' o1"
  shows "(\<forall>o1\<in>set E. \<forall>x. (lo_result o1, x) \<in> set (mw_replaced rw) \<longrightarrow>
      evalExpr u (bindResidues env' fresh (residuesAt u env fresh rw k)) x = env' (lo_result o1)) \<and>
    (\<forall>j<length recs. case mw_assumed rw ! j of
        None \<Rightarrow> True
      | Some (a, b) \<Rightarrow> a \<le> int (residuesAt u env fresh rw k ! j) \<and>
                       int (residuesAt u env fresh rw k ! j) \<le> b)"
proof (cases "recs = []")
  case True
  then show ?thesis using rw by (auto simp: rewriteModuloRecurrences_def Let_def)
next
  case False
  let ?b = "elementBits (fl_type loop)" and ?L = "evalExpr u env (fl_lower loop)"
    and ?nn = "isProvenNonNegative (lp_proofs lp) (fl_lower loop)"
  obtain e step where t: "fl_type loop = ScalarType e"
      and s: "getPositiveConstant (fl_step loop) ?b = Some step"
    using collected_ok [of "hd recs" lp loop] recs False by auto
  have ok: "rec_ok lp loop step ?nn rec" if "rec \<in> set recs" for rec
    using collected_ok [of rec lp loop] that recs s by auto
  have ops: "list_all op_ok (fl_ops loop)" "distinct (map lo_result (fl_ops loop))"
    using loop by (simp_all add: loop_ok_def)
  have d: "divisor_ok ?b rec" if "rec \<in> set recs" for rec by (rule rec_divisor_ok [OF ok [OF that] t ops(1)])
  have pos: "0 < ?b"
    using d [of "hd recs"] False by (cases "?b = 0") (auto simp: divisor_ok_def)
  have step: "evalExpr u env (fl_step loop) = step" by (rule step_value [OF loop s])
  note num = iteration_number [OF loop t sound vals ok pos exec, unfolded step]
  define n where "n = ?L + k * step"
  have hd: "hd recs \<in> set recs" using False by simp
  have n: "iteration_ok lp loop n" using num(2) [OF hd] by (simp add: n_def)
  have "int n < 2 ^ ?b" using n by (metis iteration_ok_def of_nat_less_numeral_power_cancel_iff)
  then have "int (env' (fl_inductionVar loop)) = int n" using iv num(1) [OF hd, folded n_def] by simp
  then have iv': "env' (fl_inductionVar loop) = n" by (simp only: of_nat_eq_iff)
  have res: "residuesAt u env fresh rw k = map (\<lambda>rec. n mod mr_divisor rec) recs"
    unfolding n_def rw [symmetric]
    using ok d num(3) vals(1) by (intro residues_closed) (auto simp: rec_ok_def)
  have "evalExpr u (bindResidues env' fresh (residuesAt u env fresh rw k)) x = env' (lo_result o1)"
    if o1: "o1 \<in> set E" and x: "(lo_result o1, x) \<in> set (mw_replaced rw)" for o1 x
  proof -
    obtain j where j: "j < length recs"
        "(lo_result o1, x) \<in> set (replacementsOf (fl_type loop) (Operand (fresh + j) (fl_type loop)) (recs ! j))"
      using x unfolding rw [symmetric]
      by (auto simp: rewriteModuloRecurrences_def Let_def in_set_enumerate_eq)
    show ?thesis
      using j(1)
      by (intro replacement_value [OF ok n t ops safe E iv' o1 j(2)])
        (simp_all add: bindResidues_def res)
  qed
  moreover have "case mw_assumed rw ! j of None \<Rightarrow> True
      | Some (a, b) \<Rightarrow> a \<le> int (residuesAt u env fresh rw k ! j) \<and>
                       int (residuesAt u env fresh rw k ! j) \<le> b"
    if j: "j < length recs" for j
  proof -
    have "0 < mr_divisor (recs ! j)" using d [OF nth_mem [OF j]] by (simp add: divisor_ok_def)
    then have "n mod mr_divisor (recs ! j) < mr_divisor (recs ! j)" by simp
    then show ?thesis
      using j unfolding rw [symmetric] res [unfolded rw [symmetric]]
      by (auto simp: rewriteModuloRecurrences_def Let_def rangeAssumed_def)
  qed
  ultimately show ?thesis by blast
qed

subsection \<open>Concrete loops\<close>

text \<open>
  Loops over \<open>t\<close> whose body has a remainder by seven of the induction variable (result 1), an
  offset \<open>c\<close> of it (result 2) and the remainder of the sum (result 3), then an offset of the first
  remainder (result 4) and its remainder (result 5).
\<close>

definition ex_loop :: "wave_type \<Rightarrow> bool \<Rightarrow> nat \<Rightarrow> nat \<Rightarrow> nat \<Rightarrow> nat \<Rightarrow> bool \<Rightarrow> for_loop" where
  "ex_loop t ucmp lower upper step c nuw =
     (let o1 = (\<lambda>r k l x u s. \<lparr>lo_result = r, lo_kind = k, lo_type = t, lo_lhs = Operand l t,
                  lo_rhs = Constant t x, lo_nuw = u, lo_nsw = s\<rparr>)
      in \<lparr>fl_type = t, fl_inductionVar = 0, fl_unsignedCmp = ucmp, fl_lower = Constant t lower,
          fl_upper = Constant t upper, fl_step = Constant t step,
          fl_ops = [o1 1 RemUI 0 7 False False, o1 2 AddI 0 c nuw (\<not> nuw), o1 3 RemUI 2 7 False False,
                    o1 4 AddI 1 4 False False, o1 5 RemUI 4 7 False False]\<rparr>)"

text \<open>The analysis that knows the signed value of a constant.\<close>

definition ex_proofs :: loop_proofs where
  "ex_proofs = \<lparr>lp_proofs = noProofs\<lparr>pf_signedLowerBound := (\<lambda>e l.
       case e of Constant t n \<Rightarrow> l \<le> toSigned (elementBits t) n | _ \<Rightarrow> False)\<rparr>,
     lp_unsignedMax = (\<lambda>e. None), lp_signedUpperBound = (\<lambda>e b. False)\<rparr>"

definition ex_rewrite :: "for_loop \<Rightarrow> modulo_rewrite" where
  "ex_rewrite loop = rewriteModuloRecurrences loop 10 (collectModuloRecurrences ex_proofs loop)"

text \<open>The value of a replacement in an iteration whose values are \<open>env\<close>.\<close>

definition replacedValue :: "for_loop \<Rightarrow> nat \<Rightarrow> (nat \<Rightarrow> nat) \<Rightarrow> nat \<Rightarrow> nat option" where
  "replacedValue loop k env i =
     map_option (evalExpr id (bindResidues env 10 (residuesAt id (\<lambda>_. 0) 10 (ex_rewrite loop) k)))
       (map_of (mw_replaced (ex_rewrite loop)) i)"

definition ex_values :: "nat list \<Rightarrow> nat \<Rightarrow> nat" where
  "ex_values vs i = (if i < length vs then vs ! i else 0)"

lemma ex_proofs_sound: "sound_loop_proofs u env ex_proofs [Constant t a, Constant t b]"
  by (simp add: sound_loop_proofs_def sound_proofs_def ex_proofs_def noProofs_def exprBits_def)

theorem modulo_recurrence_exact_witness:
  "map (replacedValue (ex_loop i32 True 3 100 2 5 True) 4 (ex_values [11, 4, 16, 2, 8, 1])) [1, 3, 5] =
   [Some 4, Some 2, Some 1]"
proof -
  let ?loop = "ex_loop i32 True 3 100 2 5 True" and ?env = "ex_values [11, 4, 16, 2, 8, 1]"
  have c: "loop_ok ?loop 10" "offsets_safe ?loop" "executes id (\<lambda>_. 0) ?loop 4"
    "closed_ops (fl_ops ?loop) (fl_ops ?loop)"
    by code_simp+
  have v: "evalExpr id (\<lambda>_. 0) (fl_lower ?loop) < 2 ^ elementBits (fl_type ?loop)"
    "evalExpr id (\<lambda>_. 0) (fl_upper ?loop) < 2 ^ elementBits (fl_type ?loop)"
    "int (?env (fl_inductionVar ?loop)) =
       inductionAt id (\<lambda>_. 0) ?loop 4 mod 2 ^ elementBits (fl_type ?loop)"
    by code_simp+
  have e: "\<forall>o1\<in>set (fl_ops ?loop). executed_op id ?env o1" by code_simp
  have s: "sound_loop_proofs id (\<lambda>_. 0) ex_proofs [fl_lower ?loop, fl_upper ?loop]"
    by (simp add: ex_loop_def ex_proofs_sound)
  note exact = conjunct1 [OF modulo_recurrence_exact [OF c(1,2) s v(1,2) refl refl c(3) v(3) c(4) e,
        folded ex_rewrite_def]]
  have value_of: "replacedValue ?loop 4 ?env i = Some (?env i)"
    if mapped: "map_of (mw_replaced (ex_rewrite ?loop)) i \<noteq> None" and i: "i \<in> lo_result ` set (fl_ops ?loop)" for i
  proof -
    obtain x where x: "map_of (mw_replaced (ex_rewrite ?loop)) i = Some x" using mapped by blast
    then have "(i, x) \<in> set (mw_replaced (ex_rewrite ?loop))" by (rule map_of_SomeD)
    then show ?thesis using exact i x by (auto simp: replacedValue_def)
  qed
  have "map_of (mw_replaced (ex_rewrite ?loop)) 1 \<noteq> None" "map_of (mw_replaced (ex_rewrite ?loop)) 3 \<noteq> None"
    "map_of (mw_replaced (ex_rewrite ?loop)) 5 \<noteq> None"
    by code_simp+
  moreover have "1 \<in> lo_result ` set (fl_ops ?loop)" "3 \<in> lo_result ` set (fl_ops ?loop)"
    "5 \<in> lo_result ` set (fl_ops ?loop)"
    by code_simp+
  ultimately show ?thesis using value_of by (simp add: ex_values_def)
qed

subsection \<open>Offsets for which the replacement is wrong\<close>

text \<open>A negative offset with the signed flag: in a signed loop from zero, the unsigned remainder of
  \<open>i - 1\<close> by seven at \<open>i = 5\<close> is four; the addition does not wrap as a signed one, but it does as an
  unsigned one, and the rewrite derives \<open>(5 + (2 ^ 32 - 1) mod 7) mod 7 = 1\<close>.\<close>

theorem negative_offset_wrong:
  "let loop = ex_loop i32 False 0 100 1 4294967295 False; env = ex_values [5, 5, 4, 4, 9, 2]
   in loop_ok loop 10 \<and> executes id (\<lambda>_. 0) loop 5 \<and> inductionAt id (\<lambda>_. 0) loop 5 = 5 \<and>
      list_all (executed_op id env) (fl_ops loop) \<and>
      env 3 = 4 \<and> replacedValue loop 5 env 3 = Some 1"
  by code_simp

text \<open>A loop that compares unsigned values: with eight bits, a start that is not negative and the
  offset five, \<open>i = 254\<close> reads as minus two, the addition does not wrap as a signed one and gives
  three, but the rewrite derives \<open>(254 mod 7 + 5) mod 7 = 0\<close>.\<close>

theorem unsigned_loop_offset_wrong:
  "let t = ScalarType (IntegerType 8);
       loop = ex_loop t True 100 255 77 5 False; env = ex_values [254, 2, 3, 3, 6, 6]
   in loop_ok loop 10 \<and> executes id (\<lambda>_. 0) loop 2 \<and> inductionAt id (\<lambda>_. 0) loop 2 = 254 \<and>
      list_all (executed_op id env) (fl_ops loop) \<and>
      env 3 = 3 \<and> replacedValue loop 2 env 3 = Some 0"
  by code_simp

end
