(* ===== verification/Redist_Slots.thy ===== *)
theory Redist_Slots
  imports Prelude Complex_Main "HOL-Library.Word"
begin

unbundle bit_operations_syntax

text \<open>
  Redistribution of values between the work items of a group: the order of the slots inside a
  packet (\<^verbatim>\<open>lib/Dialect/Wave/Transforms/WaveRedistributePlanning.cpp\<close>). A mask selects the bits of a
  slot number that count inside a vector; the packed slot has the selected bits at the bottom and
  the others above. Slot numbers are natural numbers; the symbolic expressions are those that
  \<^verbatim>\<open>sym::composeExpr...\<close> build (\<^verbatim>\<open>IR/WaveSymbols.h\<close>), with the value the symbolic library gives
  them: division is exact, a remainder has the sign of its divisor, bit operations are those of
  the integers.
\<close>

subsection \<open>Symbolic expressions\<close>

datatype ExprBinaryOp = SymAdd | SymSub | SymMul | SymDiv | SymMod | SymXor | SymAnd | SymOr |
  SymMax | SymMin

datatype sym_expr =
    SymInt int
  | SymVar string
  | SymBinary ExprBinaryOp sym_expr sym_expr
  | SymFloor sym_expr

fun evalSym :: "(string \<Rightarrow> int) \<Rightarrow> sym_expr \<Rightarrow> rat" where
  "evalSym env (SymInt i) = of_int i"
| "evalSym env (SymVar x) = of_int (env x)"
| "evalSym env (SymFloor e) = of_int \<lfloor>evalSym env e\<rfloor>"
| "evalSym env (SymBinary op l r) =
     (let a = evalSym env l; b = evalSym env r
      in case op of
           SymAdd \<Rightarrow> a + b
         | SymSub \<Rightarrow> a - b
         | SymMul \<Rightarrow> a * b
         | SymDiv \<Rightarrow> a / b
         | SymMod \<Rightarrow> a - b * of_int \<lfloor>a / b\<rfloor>
         | SymXor \<Rightarrow> of_int (\<lfloor>a\<rfloor> XOR \<lfloor>b\<rfloor>)
         | SymAnd \<Rightarrow> of_int (\<lfloor>a\<rfloor> AND \<lfloor>b\<rfloor>)
         | SymOr \<Rightarrow> of_int (\<lfloor>a\<rfloor> OR \<lfloor>b\<rfloor>)
         | SymMax \<Rightarrow> max a b
         | SymMin \<Rightarrow> min a b)"

definition composeWithInt :: "sym_expr \<Rightarrow> ExprBinaryOp \<Rightarrow> int \<Rightarrow> sym_expr" where
  "composeWithInt lhs op rhs = SymBinary op lhs (SymInt rhs)"

definition floorDiv :: "sym_expr \<Rightarrow> int \<Rightarrow> sym_expr" where
  "floorDiv value divisor = SymFloor (composeWithInt value SymDiv divisor)"

text \<open>Expressions with an integer as value.\<close>

definition hasValue :: "(string \<Rightarrow> int) \<Rightarrow> sym_expr \<Rightarrow> int \<Rightarrow> bool" where
  "hasValue env e n \<longleftrightarrow> evalSym env e = of_int n"

lemma hasValue_atoms [simp]: "hasValue env (SymInt i) i" "hasValue env (SymVar x) (env x)"
  by (simp_all add: hasValue_def)

lemma hasValue_floorDiv: "hasValue env e n \<Longrightarrow> hasValue env (floorDiv e d) (n div d)"
  by (simp add: hasValue_def floorDiv_def composeWithInt_def Let_def floor_divide_of_int_eq)

lemma hasValue_withInt:
  assumes "hasValue env e n"
  shows "hasValue env (composeWithInt e SymAdd d) (n + d)"
    and "hasValue env (composeWithInt e SymMul d) (n * d)"
    and "hasValue env (composeWithInt e SymMod d) (n mod d)"
    and "hasValue env (composeWithInt e SymAnd d) (n AND d)"
    and "hasValue env (composeWithInt e SymXor d) (n XOR d)"
proof -
  have "(of_int (n mod d) :: rat) = of_int n - of_int d * of_int (n div d)"
    by (metis add_diff_cancel_left' mult_div_mod_eq of_int_add of_int_mult)
  then show "hasValue env (composeWithInt e SymMod d) (n mod d)"
    using assms by (simp add: hasValue_def composeWithInt_def Let_def floor_divide_of_int_eq)
qed (use assms in \<open>simp_all add: hasValue_def composeWithInt_def Let_def\<close>)

lemma hasValue_binary:
  assumes "hasValue env a m" and "hasValue env b n"
  shows "hasValue env (SymBinary SymAdd a b) (m + n)"
    and "hasValue env (SymBinary SymSub a b) (m - n)"
    and "hasValue env (SymBinary SymXor a b) (m XOR n)"
  using assms by (simp_all add: hasValue_def Let_def)

lemmas hasValue_rules = hasValue_floorDiv hasValue_withInt hasValue_binary

subsection \<open>Operations and plans\<close>

text \<open>
  A redistribution maps the slots of the items of a group of blocks to source slots
  (\<^verbatim>\<open>RedistributeOp\<close>); its counts are positive. \<^verbatim>\<open>PacketPlan\<close> and \<^verbatim>\<open>GroupWindow\<close> are the
  structures of \<^verbatim>\<open>WaveRedistributePlanning.h\<close>.
\<close>

record redistribute_op =
  rd_blocks :: nat
  rd_items :: nat
  rd_sourceSlots :: nat
  rd_resultSlots :: nat

record packet_plan =
  pp_sourceItem :: sym_expr
  pp_sourceWithin :: sym_expr
  pp_sourceGroup :: sym_expr
  pp_sourceWithinMask :: nat
  pp_resultWithinMask :: nat
  pp_vectorElements :: nat
  pp_sourceGroups :: nat
  pp_resultGroups :: nat

record group_window =
  gw_stage :: sym_expr
  gw_local :: sym_expr
  gw_localGroups :: nat
  gw_stageCount :: nat

text \<open>\<^verbatim>\<open>llvm::checkedMul\<close> and \<^verbatim>\<open>llvm::checkedAdd\<close> on non-negative 64-bit numbers.\<close>

definition checkedMul :: "nat \<Rightarrow> nat \<Rightarrow> nat option" where
  "checkedMul a b = (if a * b \<le> 2 ^ 63 - 1 then Some (a * b) else None)"

definition checkedAdd :: "nat \<Rightarrow> nat \<Rightarrow> nat option" where
  "checkedAdd a b = (if a + b \<le> 2 ^ 63 - 1 then Some (a + b) else None)"

text \<open>A loop that pushes one result for every element and stops at the first failure.\<close>

fun collectR :: "('a \<Rightarrow> 'b result) \<Rightarrow> 'a list \<Rightarrow> 'b list result" where
  "collectR f [] = Inr []"
| "collectR f (x # xs) = bindR (f x) (\<lambda>y. bindR (collectR f xs) (\<lambda>ys. Inr (y # ys)))"

lemma collectR_nth:
  assumes "collectR f xs = Inr ys"
  shows "length ys = length xs" and "i < length xs \<Longrightarrow> f (xs ! i) = Inr (ys ! i)"
proof -
  have "length ys = length xs \<and> (\<forall>i < length xs. f (xs ! i) = Inr (ys ! i))"
    using assms by (induction xs arbitrary: ys) (auto simp: result_simps nth_Cons split: nat.splits)
  then show "length ys = length xs" "i < length xs \<Longrightarrow> f (xs ! i) = Inr (ys ! i)" by auto
qed

subsection \<open>Slot permutations\<close>

fun popcount :: "nat \<Rightarrow> nat" where
  "popcount n = (if n = 0 then 0 else n mod 2 + popcount (n div 2))"

declare popcount.simps [simp del]

text \<open>\<^verbatim>\<open>llvm::Log2_64\<close> is the position of the highest bit.\<close>

fun bitLength :: "nat \<Rightarrow> nat" where
  "bitLength n = (if n = 0 then 0 else Suc (bitLength (n div 2)))"

declare bitLength.simps [simp del]

definition Log2_64 :: "nat \<Rightarrow> nat" where
  "Log2_64 n = bitLength n - 1"

definition isPowerOf2_64 :: "nat \<Rightarrow> bool" where
  "isPowerOf2_64 n \<longleftrightarrow> n \<noteq> 0 \<and> n AND (n - 1) = 0"

definition isIdentitySlotPermutation :: "nat \<Rightarrow> nat \<Rightarrow> bool" where
  "isIdentitySlotPermutation slots withinMask \<longleftrightarrow>
     \<not> isPowerOf2_64 slots \<or> withinMask = 2 ^ popcount withinMask - 1"

text \<open>
  The two loops visit the selected bits and then the others, from the lowest up; \<^verbatim>\<open>packedBit\<close>
  counts the visits. \<open>slotBitPairs\<close> lists the packed bit and the logical bit of every visit.
\<close>

definition slotBitPairs :: "nat \<Rightarrow> nat \<Rightarrow> (nat \<times> nat) list" where
  "slotBitPairs withinMask slotBits =
     enumerate 0 (filter (bit withinMask) [0 ..< slotBits] @
                  filter (\<lambda>b. \<not> bit withinMask b) [0 ..< slotBits])"

text \<open>Bit \<open>s\<close> of a number, moved to position \<open>t\<close>.\<close>

definition movedBit :: "nat \<Rightarrow> nat \<Rightarrow> int \<Rightarrow> int" where
  "movedBit s t x = push_bit t (drop_bit s x AND 1)"

definition packedToLogicalSlot :: "nat \<Rightarrow> nat \<Rightarrow> int \<Rightarrow> int" where
  "packedToLogicalSlot withinMask slots packedSlot =
     (if isIdentitySlotPermutation slots withinMask then packedSlot
      else fold (\<lambda>(packedBit, logicalBit) logicalSlot.
             logicalSlot OR movedBit packedBit logicalBit packedSlot)
           (slotBitPairs withinMask (Log2_64 slots)) 0)"

definition logicalToPackedSlot :: "nat \<Rightarrow> nat \<Rightarrow> int \<Rightarrow> int" where
  "logicalToPackedSlot withinMask slots logicalSlot =
     (if isIdentitySlotPermutation slots withinMask then logicalSlot
      else fold (\<lambda>(packedBit, logicalBit) packedSlot.
             packedSlot OR movedBit logicalBit packedBit logicalSlot)
           (slotBitPairs withinMask (Log2_64 slots)) 0)"

definition appendSlotPermutationBit ::
    "sym_expr \<Rightarrow> nat \<Rightarrow> nat \<Rightarrow> bool \<Rightarrow> sym_expr \<Rightarrow> sym_expr" where
  "appendSlotPermutationBit value logicalBit packedBit inv1 result1 =
     (let sourceBit = (if inv1 then packedBit else logicalBit);
          resultBit = (if inv1 then logicalBit else packedBit);
          b = composeWithInt (floorDiv value (2 ^ sourceBit)) SymMod 2;
          b' = (if resultBit \<noteq> 0 then composeWithInt b SymMul (2 ^ resultBit) else b)
      in SymBinary SymAdd result1 b')"

definition composeSlotPermutation :: "sym_expr \<Rightarrow> nat \<Rightarrow> nat \<Rightarrow> bool \<Rightarrow> sym_expr" where
  "composeSlotPermutation value slots withinMask inv1 =
     (if isIdentitySlotPermutation slots withinMask then value
      else fold (\<lambda>(packedBit, logicalBit) result1.
             appendSlotPermutationBit value logicalBit packedBit inv1 result1)
           (slotBitPairs withinMask (Log2_64 slots)) (SymInt 0))"

subsection \<open>Moving bits\<close>

text \<open>A loop that moves bit \<open>s\<close> of \<open>x\<close> to bit \<open>t\<close> for every pair, with distinct targets.\<close>

definition moveBits :: "(nat \<times> nat) list \<Rightarrow> int \<Rightarrow> int" where
  "moveBits ps x = fold (\<lambda>(s, t) acc. acc OR movedBit s t x) ps 0"

lemma bit_moved: "bit (movedBit s t x) k \<longleftrightarrow> k = t \<and> bit (x :: int) s"
  by (auto simp: movedBit_def bit_push_bit_iff bit_and_iff bit_drop_bit_eq bit_1_iff bit_exp_iff)

lemma bit_moveBits_acc:
  "bit (fold (\<lambda>(s, t) acc. acc OR movedBit s t x) ps a) k \<longleftrightarrow>
   bit (a :: int) k \<or> (\<exists>s. (s, k) \<in> set ps \<and> bit x s)"
  by (induction ps arbitrary: a) (auto simp: bit_or_iff bit_moved)

lemma bit_moveBits: "bit (moveBits ps x) k \<longleftrightarrow> (\<exists>s. (s, k) \<in> set ps \<and> bit x s)"
  by (simp add: moveBits_def bit_moveBits_acc)

lemma moveBits_sum:
  assumes "distinct (map snd ps)" and "\<And>s t. (s, t) \<in> set ps \<Longrightarrow> \<not> bit a t"
  shows "fold (\<lambda>(s, t) acc. acc + movedBit s t x) ps a =
    fold (\<lambda>(s, t) acc. acc OR movedBit s t x) ps (a :: int)"
  using assms
proof (induction ps arbitrary: a)
  case (Cons p ps)
  obtain s t where p: "p = (s, t)" by (cases p)
  have z: "a AND movedBit s t x = 0"
    using Cons.prems(2) [of s t] by (intro bit_eqI) (auto simp: p bit_and_iff bit_moved)
  have free: "\<not> bit (a OR movedBit s t x) t'" if "(s', t') \<in> set ps" for s' t'
    using that Cons.prems p by (force simp: bit_or_iff bit_moved)
  show ?case
    using Cons.IH [of "a OR movedBit s t x"] free Cons.prems(1) z
    by (simp add: p disjunctive_add_eq_or)
qed simp

lemma slotBitPairs_props:
  "map fst (slotBitPairs m n) = [0 ..< n]" "distinct (map snd (slotBitPairs m n))"
  "set (map snd (slotBitPairs m n)) = {0 ..< n}" "distinct (map fst (slotBitPairs m n))"
proof -
  let ?os = "filter (bit m) [0 ..< n] @ filter (\<lambda>b. \<not> bit m b) [0 ..< n]"
  have len: "length ?os = n" using sum_length_filter_compl [of "bit m" "[0 ..< n]"] by simp
  show f: "map fst (slotBitPairs m n) = [0 ..< n]"
    unfolding slotBitPairs_def map_fst_enumerate len by simp
  show "distinct (map fst (slotBitPairs m n))" unfolding f by simp
  show "distinct (map snd (slotBitPairs m n))" unfolding slotBitPairs_def map_snd_enumerate by auto
  show "set (map snd (slotBitPairs m n)) = {0 ..< n}"
    unfolding slotBitPairs_def map_snd_enumerate by auto
qed

text \<open>Moving bits forth along distinct pairs and back is the identity on small numbers.\<close>

lemma moveBits_back:
  assumes "distinct (map snd ps)" and "distinct (map fst ps)" and "set (map fst ps) = {0 ..< n}"
    and x: "0 \<le> x" "x < 2 ^ n"
  shows "moveBits (map prod.swap ps) (moveBits ps x) = x"
proof (rule bit_eqI)
  fix k
  have small: "bit x k \<Longrightarrow> k < n"
    using x by (metis bit_take_bit_iff take_bit_int_eq_self)
  have "(\<exists>t. (k, t) \<in> set ps \<and> (\<exists>s. (s, t) \<in> set ps \<and> bit x s)) \<longleftrightarrow> (\<exists>t. (k, t) \<in> set ps) \<and> bit x k"
    using assms(1) unfolding distinct_map inj_on_def by force
  moreover have swapped: "(s, t) \<in> set (map prod.swap ps) \<longleftrightarrow> (t, s) \<in> set ps" for s t
    by force
  moreover have "(\<exists>t. (k, t) \<in> set ps) \<longleftrightarrow> k < n" using assms(3) by force
  ultimately show "bit (moveBits (map prod.swap ps) (moveBits ps x)) k = bit x k"
    using small by (simp only: bit_moveBits swapped) blast
qed

lemma moveBits_small:
  assumes "set (map snd ps) = {0 ..< n}"
  shows "0 \<le> moveBits ps x" and "moveBits ps x < 2 ^ n"
proof -
  have "take_bit n (moveBits ps x) = moveBits ps x"
    using assms by (intro bit_eqI) (force simp: bit_take_bit_iff bit_moveBits)
  then show "0 \<le> moveBits ps x" "moveBits ps x < 2 ^ n"
    by (metis take_bit_nonnegative, metis take_bit_int_less_exp)
qed

lemma permutations_moveBits:
  assumes "\<not> isIdentitySlotPermutation slots m"
  shows "packedToLogicalSlot m slots x = moveBits (slotBitPairs m (Log2_64 slots)) x"
    and "logicalToPackedSlot m slots x = moveBits (map prod.swap (slotBitPairs m (Log2_64 slots))) x"
  using assms
  by (simp_all add: packedToLogicalSlot_def logicalToPackedSlot_def moveBits_def fold_map comp_def
      case_prod_unfold prod.swap_def)

lemma bitLength_bounds: "n < 2 ^ bitLength n" "0 < n \<Longrightarrow> 2 ^ (bitLength n - 1) \<le> n"
proof (induction n rule: bitLength.induct)
  case (1 n)
  show "n < 2 ^ bitLength n" using 1(1) by (cases "n = 0") (simp_all add: bitLength.simps [of n])
  assume n: "0 < n"
  show "2 ^ (bitLength n - 1) \<le> n"
  proof (cases "n div 2 = 0")
    case True
    then show ?thesis using n by (simp add: bitLength.simps [of n] bitLength.simps [of 0])
  next
    case False
    then have "0 < bitLength (n div 2)" by (simp add: bitLength.simps [of "n div 2"])
    then obtain k where k: "bitLength (n div 2) = Suc k" by (cases "bitLength (n div 2)") auto
    then have "2 ^ k \<le> n div 2" using 1(2) n False by simp
    then show ?thesis using n k by (simp add: bitLength.simps [of n])
  qed
qed

lemma power_of_two_slots:
  assumes "isPowerOf2_64 slots"
  shows "slots = 2 ^ Log2_64 slots"
proof -
  define k where "k = Log2_64 slots"
  have s: "0 < slots" "slots AND (slots - 1) = 0" using assms by (simp_all add: isPowerOf2_64_def)
  have l: "2 ^ k \<le> slots" using bitLength_bounds(2) [OF s(1)] by (simp add: k_def Log2_64_def)
  have "0 < bitLength slots" using s(1) by (simp add: bitLength.simps [of slots])
  then have u: "slots < 2 ^ Suc k" using bitLength_bounds(1) [of slots] by (simp add: k_def Log2_64_def)
  show ?thesis
  proof (rule ccontr)
    assume "slots \<noteq> 2 ^ Log2_64 slots"
    then have "2 ^ k \<le> slots - 1" using l by (simp add: k_def)
    then have d: "(slots - 1) div 2 ^ k = 1" "slots div 2 ^ k = 1"
      using u l by (intro div_nat_eqI; simp)+
    then have "bit slots k \<and> bit (slots - 1) k" by (simp add: bit_iff_odd)
    then have "bit (slots AND (slots - 1)) k" by (simp only: bit_and_iff)
    then show False using s(2) by simp
  qed
qed

text \<open>The two translations are inverse to each other on slot numbers in range.\<close>

lemma slot_roundtrip:
  assumes "0 \<le> x" and "x < int slots"
  shows "logicalToPackedSlot m slots (packedToLogicalSlot m slots x) = x"
    and "packedToLogicalSlot m slots (logicalToPackedSlot m slots x) = x"
    and "0 \<le> packedToLogicalSlot m slots x \<and> packedToLogicalSlot m slots x < int slots"
    and "0 \<le> logicalToPackedSlot m slots x \<and> logicalToPackedSlot m slots x < int slots"
proof -
  let ?ps = "slotBitPairs m (Log2_64 slots)"
  let ?P = "\<lambda>y. 0 \<le> y \<and> y < int slots"
  have "logicalToPackedSlot m slots (packedToLogicalSlot m slots x) = x \<and>
      packedToLogicalSlot m slots (logicalToPackedSlot m slots x) = x \<and>
      ?P (packedToLogicalSlot m slots x) \<and> ?P (logicalToPackedSlot m slots x)"
  proof (cases "isIdentitySlotPermutation slots m")
    case True
    then show ?thesis using assms by (simp add: packedToLogicalSlot_def logicalToPackedSlot_def)
  next
    case False
    then have two: "int slots = 2 ^ Log2_64 slots"
      using power_of_two_slots [of slots] by (auto simp: isIdentitySlotPermutation_def)
    note props = slotBitPairs_props [of m "Log2_64 slots"]
    have swap: "map prod.swap (map prod.swap ?ps) = ?ps" "map fst (map prod.swap ?ps) = map snd ?ps"
      "map snd (map prod.swap ?ps) = map fst ?ps" by (simp_all add: comp_def)
    have xs: "0 \<le> x" "x < 2 ^ Log2_64 slots" using assms two by simp_all
    have dom: "set (map fst ?ps) = {0 ..< Log2_64 slots}" unfolding props(1) by simp
    show ?thesis
      unfolding permutations_moveBits [OF False] two
      using moveBits_back [OF props(2,4) dom xs]
        moveBits_back [of "map prod.swap ?ps", unfolded swap, OF props(4,2) props(3) xs]
        moveBits_small [OF props(3)] moveBits_small [of "map prod.swap ?ps", unfolded swap, OF dom]
      by blast
  qed
  then show "logicalToPackedSlot m slots (packedToLogicalSlot m slots x) = x"
    "packedToLogicalSlot m slots (logicalToPackedSlot m slots x) = x"
    "?P (packedToLogicalSlot m slots x)" "?P (logicalToPackedSlot m slots x)" by auto
qed

subsection \<open>The expression of a permutation\<close>

lemma moved_bit_value:
  assumes "hasValue env e x"
  shows "hasValue env (composeWithInt (composeWithInt (floorDiv e (2 ^ s)) SymMod 2) SymMul (2 ^ t))
           (movedBit s t x)"
    and "hasValue env (composeWithInt (floorDiv e (2 ^ s)) SymMod 2) (movedBit s 0 x)"
proof -
  have "hasValue env (floorDiv e (2 ^ s)) (x div 2 ^ s)"
    using assms by (rule hasValue_floorDiv)
  then have b: "hasValue env (composeWithInt (floorDiv e (2 ^ s)) SymMod 2) (x div 2 ^ s mod 2)"
    by (rule hasValue_withInt)
  have v: "x div 2 ^ s mod 2 = drop_bit s x AND 1"
    by (simp add: drop_bit_eq_div and_one_eq)
  show "hasValue env (composeWithInt (floorDiv e (2 ^ s)) SymMod 2) (movedBit s 0 x)"
    using b v by (simp add: movedBit_def)
  show "hasValue env (composeWithInt (composeWithInt (floorDiv e (2 ^ s)) SymMod 2) SymMul (2 ^ t))
      (movedBit s t x)"
    using hasValue_withInt(2) [OF b, of "2 ^ t"] v by (simp add: movedBit_def push_bit_eq_mult)
qed

lemma appendSlotPermutationBit_value:
  assumes "hasValue env value x" and "hasValue env r a"
  shows "hasValue env (appendSlotPermutationBit value l p inv1 r)
           (a + movedBit (if inv1 then p else l) (if inv1 then l else p) x)"
  using assms moved_bit_value [OF assms(1)]
  by (auto simp: appendSlotPermutationBit_def Let_def intro!: hasValue_binary)

lemma append_fold_value:
  assumes "hasValue env value x" and "hasValue env r a"
  shows "hasValue env
     (fold (\<lambda>(p, l) result1. appendSlotPermutationBit value l p inv1 result1) ps r)
     (fold (\<lambda>(s, t) acc. acc + movedBit s t x)
        (if inv1 then ps else map prod.swap ps) a)"
  using assms(2)
proof (induction ps arbitrary: r a)
  case (Cons q ps)
  obtain p l where q: "q = (p, l)" by (cases q)
  show ?case
    using Cons.IH [OF appendSlotPermutationBit_value [OF assms(1) Cons.prems, of l p inv1]]
    by (cases inv1) (simp_all add: q)
qed simp

text \<open>
  The expression has the packed slot as value, and the logical slot when \<open>inv1\<close> is set.
\<close>

lemma composeSlotPermutation_value:
  assumes "hasValue env value x"
  shows "hasValue env (composeSlotPermutation value slots m inv1)
           (if inv1 then packedToLogicalSlot m slots x else logicalToPackedSlot m slots x)"
proof (cases "isIdentitySlotPermutation slots m")
  case True
  then show ?thesis using assms
    by (simp add: composeSlotPermutation_def packedToLogicalSlot_def logicalToPackedSlot_def)
next
  case False
  let ?ps = "slotBitPairs m (Log2_64 slots)"
  let ?qs = "if inv1 then ?ps else map prod.swap ?ps"
  have "distinct (map snd ?qs)"
    using slotBitPairs_props [of m "Log2_64 slots"] by (simp add: comp_def)
  then have "moveBits ?qs x = fold (\<lambda>(s, t) acc. acc + movedBit s t x) ?qs 0"
    unfolding moveBits_def by (intro moveBits_sum [symmetric]) simp_all
  then show ?thesis
    using append_fold_value [OF assms, of "SymInt 0" 0 inv1 ?ps] False
    by (auto simp: composeSlotPermutation_def permutations_moveBits)
qed

end
