(* ===== verification/Redist_Layout.thy ===== *)
theory Redist_Layout
  imports Prelude Redist_Slots
begin

unbundle bit_operations_syntax

text \<open>
  The layout of the local-memory scratch buffer of a redistribution,
  \<^verbatim>\<open>lib/Dialect/Wave/Transforms/WaveRedistributeLayoutPlanning.cpp\<close>: work items store vectors to
  the buffer and load them back; the items are permuted so that the lanes of a wave hit different
  banks. Candidates are scored by their bank conflicts, the best one is kept. Coordinates and
  addresses are natural numbers (the products are bounded by \<^verbatim>\<open>kMaxLayoutPoints\<close> and checked
  arithmetic), scores are integers. What the symbolic store answers for the coordinates of a point
  is the parameter \<open>literals\<close>; the topology of the local memory is data of the target.
\<close>

subsection \<open>Layouts\<close>

record scratch_layout =
  sl_itemXors :: "(nat \<times> nat) list"
  sl_groupShift :: nat
  sl_phaseBits :: nat
  sl_itemShift :: nat

definition identityLayout :: scratch_layout where
  "identityLayout = \<lparr>sl_itemXors = [], sl_groupShift = 0, sl_phaseBits = 0, sl_itemShift = 0\<rparr>"

definition physicalItem :: "scratch_layout \<Rightarrow> nat \<Rightarrow> nat \<Rightarrow> nat" where
  "physicalItem layout item localGroup =
     (let physical = fold (\<lambda>(sourceBit, targetBit) p.
              p XOR push_bit targetBit (drop_bit sourceBit item AND 1)) (sl_itemXors layout) item
      in if sl_phaseBits layout \<noteq> 0
         then let phase = drop_bit (sl_groupShift layout) localGroup AND (2 ^ sl_phaseBits layout - 1)
              in physical XOR push_bit (sl_itemShift layout) phase
         else physical)"

definition physicalVectorAddress :: "scratch_layout \<Rightarrow> nat \<Rightarrow> nat \<Rightarrow> nat \<Rightarrow> nat \<Rightarrow> nat" where
  "physicalVectorAddress layout items vectorElements item localGroup =
     (localGroup * items + physicalItem layout item localGroup) * vectorElements"

subsection \<open>Bank conflicts\<close>

datatype lane_grouping = Contiguous | DsReadB128CombinedQuads

record lds_topology =
  lt_bankCount :: nat
  lt_dwordsPerLane :: nat
  lt_loadLaneGrouping :: lane_grouping

definition getAMDGPULDSLanePhase :: "lds_topology \<Rightarrow> bool \<Rightarrow> nat \<Rightarrow> nat" where
  "getAMDGPULDSLanePhase topology load lane =
     (if load \<and> lt_loadLaneGrouping topology = DsReadB128CombinedQuads
      then let quarter = (lane AND 31) div 4
           in 2 * (lane div 32) + (popcount quarter AND 1)
      else let lanesPerPhase = max 1 (lt_bankCount topology div lt_dwordsPerLane topology)
           in lane div lanesPerPhase)"

text \<open>
  What the target says of its local memory (\<^verbatim>\<open>WaveAMDMachineTarget.cpp\<close>): the instruction set
  version and the two feature bits for the number of banks. \<^verbatim>\<open>accessBits\<close> is a 32-bit number.
\<close>

record lds_subtarget =
  ls_isaMajor :: nat
  ls_isaMinor :: nat
  ls_bankCount32 :: bool
  ls_bankCount16 :: bool

definition getAMDGPULocalMemoryBankCount :: "lds_subtarget \<Rightarrow> nat" where
  "getAMDGPULocalMemoryBankCount sti =
     (if (ls_isaMajor sti = 9 \<and> ls_isaMinor sti = 5) \<or> (ls_isaMajor sti = 12 \<and> ls_isaMinor sti = 5)
      then 64
      else if ls_bankCount32 sti then 32
      else if ls_bankCount16 sti then 16
      else 0)"

definition getAMDGPULDSAccessTopology :: "lds_subtarget \<Rightarrow> nat \<Rightarrow> lds_topology" where
  "getAMDGPULDSAccessTopology sti accessBits =
     (let hasPermutedB128Read =
            (ls_isaMajor sti = 9 \<and> ls_isaMinor sti = 5) \<or> (ls_isaMajor sti = 12 \<and> ls_isaMinor sti = 5)
      in \<lparr>lt_bankCount = getAMDGPULocalMemoryBankCount sti,
          lt_dwordsPerLane = max 1 ((accessBits + 31) mod 2 ^ 32 div 32),
          lt_loadLaneGrouping =
            (if hasPermutedB128Read \<and> accessBits = 128 then DsReadB128CombinedQuads else Contiguous)\<rparr>)"

text \<open>
  \<open>None\<close> stands for an operation without a target module; otherwise the subtarget, or the error of
  creating it.
\<close>

definition getSharedMemoryAccessTopology ::
    "lds_subtarget result option \<Rightarrow> nat \<Rightarrow> lds_topology result" where
  "getSharedMemoryAccessTopology targetModule accessBits =
     (case targetModule of
        None \<Rightarrow> Inr \<lparr>lt_bankCount = 32, lt_dwordsPerLane = max 1 ((accessBits + 31) mod 2 ^ 32 div 32),
                      lt_loadLaneGrouping = Contiguous\<rparr>
      | Some subtarget \<Rightarrow> bindR subtarget (\<lambda>sti. Inr (getAMDGPULDSAccessTopology sti accessBits)))"

record scratch_access_shape =
  sh_vectorBits :: nat
  sh_workPerScore :: nat

datatype ScratchAccessKind = Load | Store

text \<open>
  The words that the lanes of a phase touch, in the order of the lanes: the words of the lane at
  \<open>address\<close>, of which a load counts each only once.
\<close>

definition laneWords :: "nat \<Rightarrow> nat \<Rightarrow> nat \<Rightarrow> nat list" where
  "laneWords elementBits vectorBits address =
     (let firstBit = address * elementBits;
          firstWord = firstBit div 32;
          lastWord = (firstBit + vectorBits - 1) div 32
      in [firstWord ..< lastWord + 1])"

definition bankUse :: "ScratchAccessKind \<Rightarrow> nat \<Rightarrow> nat list \<Rightarrow> nat list" where
  "bankUse kind banks ws =
     (let counted = (if kind = Store then ws else remdups ws)
      in map (\<lambda>bank. length (filter (\<lambda>word. word mod banks = bank) counted)) [0 ..< banks])"

definition scorePhase ::
    "nat list \<Rightarrow> nat \<Rightarrow> scratch_access_shape \<Rightarrow> ScratchAccessKind \<Rightarrow> lds_topology \<Rightarrow> nat \<Rightarrow> int" where
  "scorePhase addresses elementBits shape kind topology phase =
     (let lanes = filter (\<lambda>lane. getAMDGPULDSLanePhase topology (kind = Load) lane = phase)
                    [0 ..< length addresses];
          ws = concat (map (\<lambda>lane. laneWords elementBits (sh_vectorBits shape) (addresses ! lane)) lanes)
      in int (fold max (bankUse kind (lt_bankCount topology) ws) 0) - 1)"

definition scoreScratchBankAccesses ::
    "nat list \<Rightarrow> nat \<Rightarrow> scratch_access_shape \<Rightarrow> ScratchAccessKind \<Rightarrow> lds_topology \<Rightarrow> int" where
  "scoreScratchBankAccesses addresses elementBits shape kind topology =
     (let phases = fold (\<lambda>lane n. max n (getAMDGPULDSLanePhase topology (kind = Load) lane + 1))
                     [0 ..< length addresses] 0
      in sum_list (map (scorePhase addresses elementBits shape kind topology) [0 ..< phases]))"

text \<open>
  The first lanes of the waves: \<^verbatim>\<open>wave\<close> runs over the multiples of the wave width, which is positive.
\<close>

definition waveStarts :: "nat \<Rightarrow> nat \<Rightarrow> nat list" where
  "waveStarts items waveWidth = map (\<lambda>k. k * waveWidth) [0 ..< (items + waveWidth - 1) div waveWidth]"

record scratch_load_point =
  lp_item :: nat
  lp_localGroup :: nat

record scratch_access_pattern =
  ap_blocks :: nat
  ap_items :: nat
  ap_resultGroups :: nat
  ap_loads :: "scratch_load_point list"

definition get_ap :: "scratch_access_pattern \<Rightarrow> nat \<Rightarrow> nat \<Rightarrow> nat \<Rightarrow> scratch_load_point" where
  "get_ap pattern block resultGroup item =
     ap_loads pattern ! ((block * ap_resultGroups pattern + resultGroup) * ap_items pattern + item)"

definition scoreStoreLayout ::
    "scratch_layout \<Rightarrow> redistribute_op \<Rightarrow> packet_plan \<Rightarrow> nat \<Rightarrow> nat \<Rightarrow> nat \<Rightarrow>
     scratch_access_shape \<Rightarrow> lds_topology \<Rightarrow> int" where
  "scoreStoreLayout layout op packet localGroups waveWidth elementBits shape topology =
     (let items = rd_items op
      in sum_list (concat (map (\<lambda>block. concat (map (\<lambda>group.
           let localGroup = group mod localGroups
           in map (\<lambda>wave.
                let lanes = min waveWidth (items - wave);
                    addresses = map (\<lambda>lane. physicalVectorAddress layout items
                      (pp_vectorElements packet) (wave + lane) localGroup) [0 ..< lanes]
                in scoreScratchBankAccesses addresses elementBits shape Store topology)
              (waveStarts items waveWidth)) [0 ..< pp_sourceGroups packet])) [0 ..< rd_blocks op])))"

definition scoreLoadLayout ::
    "scratch_layout \<Rightarrow> scratch_access_pattern \<Rightarrow> packet_plan \<Rightarrow> nat \<Rightarrow> nat \<Rightarrow>
     scratch_access_shape \<Rightarrow> lds_topology \<Rightarrow> int" where
  "scoreLoadLayout layout pattern packet waveWidth elementBits shape topology =
     sum_list (concat (map (\<lambda>block. concat (map (\<lambda>group.
       map (\<lambda>wave.
         let lanes = min waveWidth (ap_items pattern - wave);
             addresses = map (\<lambda>lane.
               let point = get_ap pattern block group (wave + lane)
               in physicalVectorAddress layout (ap_items pattern) (pp_vectorElements packet)
                    (lp_item point) (lp_localGroup point)) [0 ..< lanes]
         in scoreScratchBankAccesses addresses elementBits shape Load topology)
       (waveStarts (ap_items pattern) waveWidth)) [0 ..< ap_resultGroups pattern]))
     [0 ..< ap_blocks pattern]))"

definition scoreScratchLayout ::
    "redistribute_op \<Rightarrow> scratch_access_pattern \<Rightarrow> packet_plan \<Rightarrow> nat \<Rightarrow> nat \<Rightarrow> nat \<Rightarrow>
     scratch_access_shape \<Rightarrow> lds_topology \<Rightarrow> scratch_layout \<Rightarrow> int" where
  "scoreScratchLayout op pattern packet localGroups waveWidth elementBits shape topology layout =
     scoreStoreLayout layout op packet localGroups waveWidth elementBits shape topology +
     scoreLoadLayout layout pattern packet waveWidth elementBits shape topology"

subsection \<open>Selection\<close>

record scored_layout =
  sc_layout :: scratch_layout
  sc_conflicts :: int

definition isBetter :: "scored_layout \<Rightarrow> scored_layout \<Rightarrow> bool" where
  "isBetter candidate best \<longleftrightarrow> sc_conflicts candidate < sc_conflicts best"

text \<open>
  The work budget is the number of points that may still be visited; \<^verbatim>\<open>consumeScore\<close> takes the
  work of one score off it, or refuses and leaves it.
\<close>

definition kMaxLayoutPoints :: nat where "kMaxLayoutPoints = 2 ^ 20"

definition kMaxLayoutWork :: nat where "kMaxLayoutWork = 2 ^ 22"

definition consumeScore :: "nat \<Rightarrow> nat \<Rightarrow> nat option" where
  "consumeScore workPerScore remaining =
     (if workPerScore > remaining then None else Some (remaining - workPerScore))"

definition phaseCandidates :: "nat \<Rightarrow> nat \<Rightarrow> scratch_layout list" where
  "phaseCandidates groupBits itemBits =
     concat (map (\<lambda>groupShift.
       concat (map (\<lambda>phaseBits.
         map (\<lambda>itemShift. identityLayout\<lparr>sl_groupShift := groupShift, sl_phaseBits := phaseBits,
                                         sl_itemShift := itemShift\<rparr>)
           [0 ..< itemBits - phaseBits + 1])
       [1 ..< min (groupBits - groupShift) itemBits + 1]))
     [0 ..< groupBits])"

fun tryPhases ::
    "(scratch_layout \<Rightarrow> int) \<Rightarrow> nat \<Rightarrow> scratch_layout list \<Rightarrow> nat \<Rightarrow> scored_layout \<Rightarrow>
     scored_layout \<times> nat" where
  "tryPhases score work [] budget best = (best, budget)"
| "tryPhases score work (candidate # cs) budget best =
     (case consumeScore work budget of
        None \<Rightarrow> (best, budget)
      | Some budget' \<Rightarrow>
          let scored = \<lparr>sc_layout = candidate, sc_conflicts = score candidate\<rparr>
          in tryPhases score work cs budget' (if isBetter scored best then scored else best))"

definition selectPhaseLayout ::
    "(scratch_layout \<Rightarrow> int) \<Rightarrow> nat \<Rightarrow> nat \<Rightarrow> nat \<Rightarrow> nat \<Rightarrow> scored_layout \<Rightarrow> scored_layout \<times> nat" where
  "selectPhaseLayout score work groupBits itemBits budget best =
     tryPhases score work (phaseCandidates groupBits itemBits) budget best"

definition prefersItemXor ::
    "nat \<times> nat \<Rightarrow> (nat \<times> nat) option \<Rightarrow> int \<Rightarrow> int \<Rightarrow> int \<Rightarrow> bool" where
  "prefersItemXor candidate best conflicts iterationConflicts baselineConflicts \<longleftrightarrow>
     conflicts = iterationConflicts \<and> conflicts < baselineConflicts \<and>
     (case best of
        None \<Rightarrow> True
      | Some b \<Rightarrow> fst candidate > fst b \<or> (fst candidate = fst b \<and> snd candidate < snd b))"

definition itemXorPairs :: "nat \<Rightarrow> (nat \<times> nat) list" where
  "itemXorPairs itemBits =
     concat (map (\<lambda>sourceBit. map (\<lambda>targetBit. (sourceBit, targetBit)) [0 ..< sourceBit])
       [1 ..< itemBits])"

definition scoredXor ::
    "(scratch_layout \<Rightarrow> int) \<Rightarrow> scored_layout \<Rightarrow> nat \<times> nat \<Rightarrow> scored_layout" where
  "scoredXor score best itemXor =
     (let candidate = (sc_layout best)\<lparr>sl_itemXors := sl_itemXors (sc_layout best) @ [itemXor]\<rparr>
      in \<lparr>sc_layout = candidate, sc_conflicts = score candidate\<rparr>)"

text \<open>
  One round over the pairs: the best extension of \<open>best\<close> by one exclusive-or, and whether the budget
  was used up, in which case the search ends with what the round has.
\<close>

fun xorRound ::
    "(scratch_layout \<Rightarrow> int) \<Rightarrow> nat \<Rightarrow> bool \<Rightarrow> scored_layout \<Rightarrow> (nat \<times> nat) list \<Rightarrow> nat \<Rightarrow>
     scored_layout \<Rightarrow> (nat \<times> nat) option \<Rightarrow> scored_layout \<times> nat \<times> bool" where
  "xorRound score work wide best [] budget iterationBest iterationXor = (iterationBest, budget, False)"
| "xorRound score work wide best (p # ps) budget iterationBest iterationXor =
     (if List.member (sl_itemXors (sc_layout best)) p
      then xorRound score work wide best ps budget iterationBest iterationXor
      else case consumeScore work budget of
        None \<Rightarrow> (iterationBest, budget, True)
      | Some budget' \<Rightarrow>
          let scored = scoredXor score best p;
              betterTie = (wide \<and> prefersItemXor p iterationXor (sc_conflicts scored)
                             (sc_conflicts iterationBest) (sc_conflicts best))
          in if isBetter scored iterationBest \<or> betterTie
             then xorRound score work wide best ps budget' scored (Some p)
             else xorRound score work wide best ps budget' iterationBest iterationXor)"

text \<open>What a round gives: its start, or its start extended by one of the pairs.\<close>

definition extends ::
    "(scratch_layout \<Rightarrow> int) \<Rightarrow> scored_layout \<Rightarrow> (nat \<times> nat) set \<Rightarrow> scored_layout \<Rightarrow> bool" where
  "extends score best Q r \<longleftrightarrow> r = best \<or>
     (\<exists>p\<in>Q. p \<notin> set (sl_itemXors (sc_layout best)) \<and> r = scoredXor score best p)"

lemma xorRound_extends:
  assumes "xorRound score work wide best ps budget ib ix = (r, b', ex)"
    and "extends score best Q ib" and "set ps \<subseteq> Q"
  shows "extends score best Q r"
  using assms
proof (induction ps arbitrary: budget ib ix)
  case (Cons p ps)
  note IH = Cons.IH [OF _ _ subset_trans [OF set_subset_Cons Cons.prems(3)]]
  show ?case
  proof (cases "p \<in> set (sl_itemXors (sc_layout best)) \<or> consumeScore work budget = None")
    case True
    then show ?thesis using Cons.prems(1,2) IH [of budget ib ix] by (auto split: if_splits)
  next
    case False
    then obtain b where b: "consumeScore work budget = Some b"
        "p \<notin> set (sl_itemXors (sc_layout best))" by blast
    have e: "extends score best Q (scoredXor score best p)"
      using b(2) Cons.prems(3) by (auto simp: extends_def)
    show ?thesis
      using Cons.prems(1) b IH [OF _ Cons.prems(2)] IH [OF _ e]
      by (auto simp: Let_def split: if_splits)
  qed
qed simp

text \<open>Each improvement uses one more pair.\<close>

lemma extends_fewer:
  assumes "extends score best (set qs) r" and "r \<noteq> best"
  shows "card (set qs - set (sl_itemXors (sc_layout r))) < card (set qs - set (sl_itemXors (sc_layout best)))"
proof -
  let ?xs = "sl_itemXors (sc_layout best)"
  obtain p where p: "p \<in> set qs" "p \<notin> set ?xs" "r = scoredXor score best p"
    using assms by (auto simp: extends_def)
  then have "sl_itemXors (sc_layout r) = ?xs @ [p]" by (simp add: scoredXor_def Let_def)
  then have "set qs - set (sl_itemXors (sc_layout r)) \<subset> set qs - set ?xs" using p(1,2) by auto
  then show ?thesis by (intro psubset_card_mono) auto
qed

function selectItemXorLayout ::
    "(scratch_layout \<Rightarrow> int) \<Rightarrow> nat \<Rightarrow> nat \<Rightarrow> bool \<Rightarrow> nat \<Rightarrow> scored_layout \<Rightarrow> scored_layout \<times> nat" where
  "selectItemXorLayout score work itemBits wide budget best =
     (case xorRound score work wide best (itemXorPairs itemBits) budget best None of
        (iterationBest, budget', exhausted) \<Rightarrow>
          if exhausted then (iterationBest, budget')
          else if sc_conflicts iterationBest < sc_conflicts best
          then selectItemXorLayout score work itemBits wide budget' iterationBest
          else (iterationBest, budget'))"
  by pat_completeness auto

termination
proof (relation "measure (\<lambda>(score, work, itemBits, wide, budget, best).
    card (set (itemXorPairs itemBits) - set (sl_itemXors (sc_layout best))))")
  fix score :: "scratch_layout \<Rightarrow> int" and work itemBits wide budget best ib y budget' ex
  assume "(ib, y) = xorRound score work wide best (itemXorPairs itemBits) budget best None"
    "(budget', ex) = y" "\<not> ex" and less: "sc_conflicts ib < sc_conflicts best"
  then have r: "xorRound score work wide best (itemXorPairs itemBits) budget best None = (ib, budget', ex)"
    by simp
  have "extends score best (set (itemXorPairs itemBits)) ib"
    by (rule xorRound_extends [OF r _ subset_refl]) (simp add: extends_def)
  moreover have "ib \<noteq> best" using less by auto
  ultimately show "((score, work, itemBits, wide, budget', ib), (score, work, itemBits, wide, budget, best))
      \<in> measure (\<lambda>(score, work, itemBits, wide, budget, best).
        card (set (itemXorPairs itemBits) - set (sl_itemXors (sc_layout best))))"
    using extends_fewer by simp
qed simp

declare selectItemXorLayout.simps [simp del]

subsection \<open>Inputs\<close>

definition getScratchLayoutPoints :: "redistribute_op \<Rightarrow> packet_plan \<Rightarrow> nat option" where
  "getScratchLayoutPoints op packet =
     Option.bind (checkedAdd (pp_sourceGroups packet) (pp_resultGroups packet)) (\<lambda>groups.
     Option.bind (checkedMul groups (rd_items op)) (\<lambda>points. checkedMul points (rd_blocks op)))"

definition getScratchAccessShape :: "nat \<Rightarrow> packet_plan \<Rightarrow> nat \<Rightarrow> scratch_access_shape option" where
  "getScratchAccessShape points packet elementBits =
     (if pp_vectorElements packet = 0 \<or> elementBits = 0 then None
      else Option.bind (checkedMul (pp_vectorElements packet) elementBits) (\<lambda>vectorBits.
        Option.bind (checkedAdd vectorBits 31) (\<lambda>roundedBits.
          let dwords = max 1 (roundedBits div 32)
          in if points > (2 ^ 64 - 1) div dwords then None
             else Some \<lparr>sh_vectorBits = vectorBits, sh_workPerScore = points * dwords\<rparr>)))"

definition getScratchLayoutShape ::
    "redistribute_op \<Rightarrow> packet_plan \<Rightarrow> nat \<Rightarrow> scratch_access_shape option" where
  "getScratchLayoutShape op packet elementBits =
     (case getScratchLayoutPoints op packet of
        None \<Rightarrow> None
      | Some points \<Rightarrow>
          if points = 0 \<or> points > kMaxLayoutPoints then None
          else (case getScratchAccessShape points packet elementBits of
            None \<Rightarrow> None
          | Some shape \<Rightarrow> if sh_workPerScore shape = 0 then None else Some shape))"

text \<open>
  \<open>literals block item slot\<close> is what the source item and the local group simplify to at a point of
  the carrier, each an integer or no literal; \<open>None\<close> when the simplification fails.
\<close>

definition getScratchLoadPoint ::
    "redistribute_op \<Rightarrow> nat \<Rightarrow> int option \<times> int option \<Rightarrow> scratch_load_point result" where
  "getScratchLoadPoint op localGroups values =
     (case values of
        (Some sourceItem, Some localGroup) \<Rightarrow>
          if sourceItem < 0 \<or> sourceItem \<ge> int (rd_items op) \<or> localGroup < 0 \<or>
             localGroup \<ge> int localGroups
          then Inl Failure
          else Inr \<lparr>lp_item = nat sourceItem, lp_localGroup = nat localGroup\<rparr>
      | _ \<Rightarrow> Inl Failure)"

definition specializeLoadPoint ::
    "redistribute_op \<Rightarrow> packet_plan \<Rightarrow> nat \<Rightarrow>
     (nat \<Rightarrow> nat \<Rightarrow> int \<Rightarrow> (int option \<times> int option) option) \<Rightarrow> nat \<Rightarrow> nat \<Rightarrow> nat \<Rightarrow>
     scratch_load_point result" where
  "specializeLoadPoint op packet localGroups literals block item resultGroup =
     (let resultSlots = rd_resultSlots op;
          packedSlot = resultGroup * pp_vectorElements packet;
          slot = packedToLogicalSlot (pp_resultWithinMask packet) resultSlots (int packedSlot)
      in case literals block item slot of
           None \<Rightarrow> Inl Failure
         | Some values \<Rightarrow> getScratchLoadPoint op localGroups values)"

definition buildScratchAccessPattern ::
    "redistribute_op \<Rightarrow> packet_plan \<Rightarrow> nat \<Rightarrow>
     (nat \<Rightarrow> nat \<Rightarrow> int \<Rightarrow> (int option \<times> int option) option) \<Rightarrow> scratch_access_pattern result" where
  "buildScratchAccessPattern op packet localGroups literals =
     bindR (collectR
              (\<lambda>(block, group, item). specializeLoadPoint op packet localGroups literals block item group)
            (concat (map (\<lambda>block. concat (map (\<lambda>group. map (\<lambda>item. (block, group, item))
               [0 ..< rd_items op]) [0 ..< pp_resultGroups packet])) [0 ..< rd_blocks op])))
       (\<lambda>loads. Inr \<lparr>ap_blocks = rd_blocks op, ap_items = rd_items op,
                     ap_resultGroups = pp_resultGroups packet, ap_loads = loads\<rparr>)"

definition buildScratchLayoutInputs ::
    "redistribute_op \<Rightarrow> packet_plan \<Rightarrow> group_window \<Rightarrow> nat \<Rightarrow>
     (nat \<Rightarrow> nat \<Rightarrow> int \<Rightarrow> (int option \<times> int option) option) \<Rightarrow> lds_subtarget result option \<Rightarrow>
     (scratch_access_pattern \<times> scratch_access_shape \<times> lds_topology) option result" where
  "buildScratchLayoutInputs op packet window elementBits literals targetModule =
     (case getScratchLayoutShape op packet elementBits of
        None \<Rightarrow> Inr None
      | Some shape \<Rightarrow>
          bindR (buildScratchAccessPattern op packet (gw_localGroups window) literals) (\<lambda>pattern.
          bindR (getSharedMemoryAccessTopology targetModule (sh_vectorBits shape mod 2 ^ 32)) (\<lambda>topology.
            if lt_bankCount topology = 0 then Inl Failure
            else Inr (Some (pattern, shape, topology)))))"

subsection \<open>The selected layout\<close>

definition Log2_64_Ceil :: "nat \<Rightarrow> nat" where
  "Log2_64_Ceil n = bitLength (n - 1)"

fun countr_zero :: "nat \<Rightarrow> nat" where
  "countr_zero n = (if n = 0 then 64 else if odd n then 0 else Suc (countr_zero (n div 2)))"

declare countr_zero.simps [simp del]

text \<open>
  The choice for prepared inputs. When loads are grouped in the way of the target, the layout for
  contiguous groups is found first, with a budget of its own, and kept at once if it has no
  conflicts under the topology of the target.
\<close>

definition chooseLayout ::
    "(lds_topology \<Rightarrow> scratch_layout \<Rightarrow> int) \<Rightarrow> nat \<Rightarrow> lds_topology \<Rightarrow> nat \<Rightarrow> nat \<Rightarrow> scratch_layout" where
  "chooseLayout scoreOn work topology groupBits itemBits =
     (case consumeScore work kMaxLayoutWork of
        None \<Rightarrow> identityLayout
      | Some budget \<Rightarrow>
          let best = \<lparr>sc_layout = identityLayout, sc_conflicts = scoreOn topology identityLayout\<rparr>;
              targetSpecific = (lt_loadLaneGrouping topology \<noteq> Contiguous);
              finish = (\<lambda>best.
                let (phased, budget') = selectPhaseLayout (scoreOn topology) work groupBits itemBits budget best;
                    (xored, _) = selectItemXorLayout (scoreOn topology) work itemBits targetSpecific budget' phased
                in sc_layout xored)
          in if targetSpecific
             then let contiguousTopology = \<lparr>lt_bankCount = 32,
                        lt_dwordsPerLane = lt_dwordsPerLane topology, lt_loadLaneGrouping = Contiguous\<rparr>;
                      score = scoreOn contiguousTopology;
                      start = \<lparr>sc_layout = identityLayout, sc_conflicts = score identityLayout\<rparr>;
                      (phased, b1) = selectPhaseLayout score work groupBits itemBits kMaxLayoutWork start;
                      (xored, _) = selectItemXorLayout score work itemBits True b1 phased;
                      targetScored = \<lparr>sc_layout = sc_layout xored,
                                      sc_conflicts = scoreOn topology (sc_layout xored)\<rparr>
                  in if sc_conflicts targetScored = 0 then sc_layout targetScored
                     else finish (if isBetter targetScored best then targetScored else best)
             else finish best)"

definition selectScratchPhysicalLayout ::
    "redistribute_op \<Rightarrow> packet_plan \<Rightarrow> group_window \<Rightarrow> nat \<Rightarrow> nat \<Rightarrow>
     (nat \<Rightarrow> nat \<Rightarrow> int \<Rightarrow> (int option \<times> int option) option) \<Rightarrow> lds_subtarget result option \<Rightarrow>
     scratch_layout result" where
  "selectScratchPhysicalLayout op packet window waveWidth elementBits literals targetModule =
     bindR (buildScratchLayoutInputs op packet window elementBits literals targetModule) (\<lambda>inputs.
       case inputs of
         None \<Rightarrow> Inr identityLayout
       | Some (pattern, shape, topology) \<Rightarrow>
           Inr (chooseLayout
             (\<lambda>t. scoreScratchLayout op pattern packet (gw_localGroups window) waveWidth elementBits shape t)
             (sh_workPerScore shape) topology
             (if gw_localGroups window > 1 then Log2_64_Ceil (gw_localGroups window) else 0)
             (countr_zero (rd_items op))))"

subsection \<open>The expression of the physical item\<close>

text \<open>\<^verbatim>\<open>masksByShift\<close> is an ordered map: the masks in the order of their shifts.\<close>

definition masksByShift :: "(nat \<times> nat) list \<Rightarrow> (nat \<times> nat) list" where
  "masksByShift xors =
     map (\<lambda>shift. (shift, fold (\<lambda>(sourceBit, targetBit) mask1.
            if sourceBit - targetBit = shift then mask1 OR 2 ^ targetBit else mask1) xors 0))
       (remdups (sort (map (\<lambda>(sourceBit, targetBit). sourceBit - targetBit) xors)))"

definition composeItemXors :: "sym_expr \<Rightarrow> scratch_layout \<Rightarrow> sym_expr" where
  "composeItemXors item layout =
     fold (\<lambda>(shift, mask1) physical.
       SymBinary SymXor physical (composeWithInt (floorDiv item (2 ^ shift)) SymAnd (int mask1)))
     (masksByShift (sl_itemXors layout)) item"

definition composeScratchPhysicalItem :: "sym_expr \<Rightarrow> sym_expr \<Rightarrow> scratch_layout \<Rightarrow> sym_expr" where
  "composeScratchPhysicalItem item localGroup layout =
     (let physical = composeItemXors item layout
      in if sl_phaseBits layout = 0 then physical
         else let phase = composeWithInt (composeWithInt
                    (floorDiv localGroup (2 ^ sl_groupShift layout)) SymMod (2 ^ sl_phaseBits layout))
                    SymMul (2 ^ sl_itemShift layout)
              in SymBinary SymXor physical phase)"

end
