(* ===== verification/Redist_Layout_Props.thy ===== *)
theory Redist_Layout_Props
  imports Redist_Layout
begin

unbundle bit_operations_syntax

text \<open>
  What the selected layout of the scratch buffer promises: it permutes the items inside the aligned
  tiles, so no two vectors overlap; it never has more bank conflicts than the identity; and the
  expression that is emitted for it computes it.
\<close>

subsection \<open>Layouts that the search visits\<close>

definition validLayout :: "nat \<Rightarrow> scratch_layout \<Rightarrow> bool" where
  "validLayout itemBits layout \<longleftrightarrow>
     (\<forall>(s, t) \<in> set (sl_itemXors layout). t < s \<and> s < itemBits) \<and>
     distinct (sl_itemXors layout) \<and>
     (sl_phaseBits layout \<noteq> 0 \<longrightarrow> sl_itemShift layout + sl_phaseBits layout \<le> itemBits)"

lemma valid_identity: "validLayout itemBits identityLayout"
  by (simp add: validLayout_def identityLayout_def)

lemma valid_phaseCandidates:
  "candidate \<in> set (phaseCandidates groupBits itemBits) \<Longrightarrow> validLayout itemBits candidate"
  by (auto simp: phaseCandidates_def validLayout_def identityLayout_def)

lemma itemXorPairs_upper: "(s, t) \<in> set (itemXorPairs itemBits) \<longleftrightarrow> t < s \<and> s < itemBits"
  by (force simp: itemXorPairs_def)

lemma valid_scoredXor:
  assumes "validLayout itemBits (sc_layout best)" and "p \<in> set (itemXorPairs itemBits)"
    and "p \<notin> set (sl_itemXors (sc_layout best))"
  shows "validLayout itemBits (sc_layout (scoredXor score best p))"
  using assms by (cases p) (auto simp: validLayout_def scoredXor_def Let_def itemXorPairs_upper)

text \<open>What every stage keeps: the layout is valid, scored by its score, and no worse than \<open>bound\<close>.\<close>

definition goodScored :: "(scratch_layout \<Rightarrow> int) \<Rightarrow> nat \<Rightarrow> int \<Rightarrow> scored_layout \<Rightarrow> bool" where
  "goodScored score itemBits bound scored \<longleftrightarrow>
     validLayout itemBits (sc_layout scored) \<and> sc_conflicts scored = score (sc_layout scored) \<and>
     sc_conflicts scored \<le> bound"

lemma goodScored_tryPhases:
  assumes "goodScored score itemBits bound best" and "\<And>c. c \<in> set cs \<Longrightarrow> validLayout itemBits c"
    and "tryPhases score work cs budget best = (r, b)"
  shows "goodScored score itemBits bound r"
  using assms
proof (induction score work cs budget best arbitrary: r b rule: tryPhases.induct)
  case (2 score work c cs budget best)
  show ?case
  proof (cases "consumeScore work budget")
    case None
    then show ?thesis using "2.prems" by simp
  next
    case (Some b')
    have "goodScored score itemBits bound
        (if isBetter \<lparr>sc_layout = c, sc_conflicts = score c\<rparr> best
         then \<lparr>sc_layout = c, sc_conflicts = score c\<rparr> else best)"
      using "2.prems"(1,2) by (auto simp: goodScored_def isBetter_def)
    from "2.IH" [OF Some refl this] show ?thesis using "2.prems"(2,3) Some by (simp add: Let_def)
  qed
qed simp

lemma goodScored_phase:
  assumes "goodScored score itemBits bound best"
    and "selectPhaseLayout score work groupBits itemBits budget best = (r, b)"
  shows "goodScored score itemBits bound r"
  by (rule goodScored_tryPhases [OF assms(1) valid_phaseCandidates assms(2) [unfolded selectPhaseLayout_def]])

lemma xorRound_conflicts:
  assumes "xorRound score work wide best ps budget ib ix = (r, b', ex)"
    and "sc_conflicts ib \<le> sc_conflicts best"
  shows "sc_conflicts r \<le> sc_conflicts best"
  using assms
proof (induction ps arbitrary: budget ib ix)
  case (Cons p ps)
  show ?case
  proof (cases "p \<in> set (sl_itemXors (sc_layout best)) \<or> consumeScore work budget = None")
    case True
    then show ?thesis using Cons.prems Cons.IH [of budget ib ix] by (auto split: if_splits)
  next
    case False
    then obtain b where b: "consumeScore work budget = Some b"
        "p \<notin> set (sl_itemXors (sc_layout best))" by blast
    let ?s = "scoredXor score best p"
    show ?thesis
    proof (cases "isBetter ?s ib \<or> (wide \<and> prefersItemXor p ix (sc_conflicts ?s) (sc_conflicts ib) (sc_conflicts best))")
      case True
      then have "sc_conflicts ?s \<le> sc_conflicts best"
        using Cons.prems(2) by (auto simp: isBetter_def prefersItemXor_def)
      then show ?thesis using Cons.IH [of b ?s "Some p"] Cons.prems(1) b True by (simp add: Let_def)
    next
      case False
      then show ?thesis using Cons.IH [of b ib ix] Cons.prems b by (simp add: Let_def split: if_splits)
    qed
  qed
qed simp

lemma goodScored_xorRound:
  assumes "goodScored score itemBits bound best"
    and r: "xorRound score work wide best (itemXorPairs itemBits) budget best None = (r, b, ex)"
  shows "goodScored score itemBits bound r"
proof -
  have "extends score best (set (itemXorPairs itemBits)) r"
    by (rule xorRound_extends [OF r _ subset_refl]) (simp add: extends_def)
  moreover have "sc_conflicts r \<le> sc_conflicts best" by (rule xorRound_conflicts [OF r order_refl])
  ultimately show ?thesis
    using assms(1) valid_scoredXor [of itemBits best]
    by (auto simp: extends_def goodScored_def scoredXor_def Let_def)
qed

lemma goodScored_xors:
  assumes "goodScored score itemBits bound best"
    and "selectItemXorLayout score work itemBits wide budget best = (r, b)"
  shows "goodScored score itemBits bound r"
  using assms
proof (induction score work itemBits wide budget best arbitrary: r b rule: selectItemXorLayout.induct)
  case (1 score work itemBits wide budget best)
  obtain ib b' ex where x: "xorRound score work wide best (itemXorPairs itemBits) budget best None = (ib, b', ex)"
    by (metis prod_cases3)
  note good = goodScored_xorRound [OF "1.prems"(1) x]
  show ?case
  proof (cases "\<not> ex \<and> sc_conflicts ib < sc_conflicts best")
    case True
    then show ?thesis
      using "1.IH" [OF x [symmetric] refl _ _ good] "1.prems"(2) x
      by (simp add: selectItemXorLayout.simps [of score work itemBits wide budget best])
  next
    case False
    then show ?thesis
      using good "1.prems"(2) x
      by (auto simp: selectItemXorLayout.simps [of score work itemBits wide budget best] split: if_splits)
  qed
qed

text \<open>The choice is valid and, when scores are not negative, no worse than the identity.\<close>

lemma chooseLayout_good:
  assumes nonneg: "\<And>layout. 0 \<le> scoreOn topology layout"
  shows "validLayout itemBits (chooseLayout scoreOn work topology groupBits itemBits) \<and>
    scoreOn topology (chooseLayout scoreOn work topology groupBits itemBits)
      \<le> scoreOn topology identityLayout"
proof -
  let ?score = "scoreOn topology"
  let ?ok = "\<lambda>layout. validLayout itemBits layout \<and> ?score layout \<le> ?score identityLayout"
  let ?best = "\<lparr>sc_layout = identityLayout, sc_conflicts = ?score identityLayout\<rparr>"
  have start: "goodScored s itemBits (s identityLayout)
      \<lparr>sc_layout = identityLayout, sc_conflicts = s identityLayout\<rparr>" for s
    by (simp add: goodScored_def valid_identity)
  have stages: "goodScored s itemBits bound (fst (selectItemXorLayout s work itemBits wide
      (snd (selectPhaseLayout s work groupBits itemBits budget best))
      (fst (selectPhaseLayout s work groupBits itemBits budget best))))"
    if "goodScored s itemBits bound best" for s bound best wide budget
    using goodScored_xors [OF goodScored_phase [OF that]] by (metis prod.collapse)
  show ?thesis
  proof (cases "consumeScore work kMaxLayoutWork")
    case None
    then show ?thesis by (simp add: chooseLayout_def valid_identity)
  next
    case (Some budget)
    let ?ct = "\<lparr>lt_bankCount = 32, lt_dwordsPerLane = lt_dwordsPerLane topology, lt_loadLaneGrouping = Contiguous\<rparr>"
    let ?c = "selectItemXorLayout (scoreOn ?ct) work itemBits True
      (snd (selectPhaseLayout (scoreOn ?ct) work groupBits itemBits kMaxLayoutWork
        \<lparr>sc_layout = identityLayout, sc_conflicts = scoreOn ?ct identityLayout\<rparr>))
      (fst (selectPhaseLayout (scoreOn ?ct) work groupBits itemBits kMaxLayoutWork
        \<lparr>sc_layout = identityLayout, sc_conflicts = scoreOn ?ct identityLayout\<rparr>))"
    let ?t = "\<lparr>sc_layout = sc_layout (fst ?c), sc_conflicts = ?score (sc_layout (fst ?c))\<rparr>"
    have c: "validLayout itemBits (sc_layout (fst ?c))"
      using stages [OF start] by (simp add: goodScored_def)
    have fin: "?ok (sc_layout (fst (selectItemXorLayout ?score work itemBits wide
        (snd (selectPhaseLayout ?score work groupBits itemBits budget best))
        (fst (selectPhaseLayout ?score work groupBits itemBits budget best)))))"
      if "goodScored ?score itemBits (?score identityLayout) best" for best wide
      using stages [OF that, of wide budget] by (simp add: goodScored_def)
    show ?thesis
    proof (cases "lt_loadLaneGrouping topology = Contiguous")
      case True
      then show ?thesis using Some fin [OF start]
        by (simp add: chooseLayout_def case_prod_unfold Let_def)
    next
      case False
      have b: "goodScored ?score itemBits (?score identityLayout) (if isBetter ?t ?best then ?t else ?best)"
        using c start [of ?score] by (auto simp: goodScored_def isBetter_def)
      have z: "?ok (sc_layout ?t)" if "sc_conflicts ?t = 0"
        using that c nonneg [of identityLayout] by simp
      show ?thesis using Some False fin [OF b] z
        by (simp add: chooseLayout_def case_prod_unfold Let_def)
    qed
  qed
qed

subsection \<open>The permutation\<close>

lemma bit_xor_fold:
  "bit (fold (\<lambda>(s, t) p. p XOR push_bit t (drop_bit s x AND 1)) xs q) k \<longleftrightarrow>
   bit (q :: nat) k \<noteq> odd (length (filter (\<lambda>(s, t). t = k \<and> bit x s) xs))"
proof (induction xs arbitrary: q)
  case (Cons y xs)
  obtain s t where y: "y = (s, t)" by (cases y)
  have "bit (push_bit t (drop_bit s x AND 1)) k \<longleftrightarrow> t = k \<and> bit x s"
    by (auto simp: bit_push_bit_iff bit_and_iff bit_drop_bit_eq bit_1_iff bit_exp_iff
        bit_iff_odd_drop_bit [of x s])
  then show ?case using Cons.IH by (auto simp: y bit_xor_iff)
qed simp

definition phaseValue :: "scratch_layout \<Rightarrow> nat \<Rightarrow> nat" where
  "phaseValue layout g = (if sl_phaseBits layout \<noteq> 0
     then push_bit (sl_itemShift layout) (drop_bit (sl_groupShift layout) g mod 2 ^ sl_phaseBits layout)
     else 0)"

lemma and_mask_mod: "(n :: nat) AND (2 ^ k - 1) = n mod 2 ^ k"
  by (metis mask_eq_exp_minus_1 take_bit_eq_mask take_bit_eq_mod)

lemma bit_physicalItem:
  "bit (physicalItem layout x g) k \<longleftrightarrow>
   (bit x k \<noteq> odd (length (filter (\<lambda>(s, t). t = k \<and> bit x s) (sl_itemXors layout)))) \<noteq>
   bit (phaseValue layout g) k"
proof (cases "sl_phaseBits layout = 0")
  case True
  have z: "\<not> bit (0 :: nat) k" by simp
  show ?thesis by (simp only: True physicalItem_def Let_def phaseValue_def bit_xor_fold z if_False simp_thms)
next
  case False
  then show ?thesis
    by (simp only: physicalItem_def Let_def phaseValue_def bit_xor_iff bit_xor_fold and_mask_mod
        if_True if_False simp_thms)
qed

text \<open>Above the tile the bits stay; the highest bit where two items differ stays different.\<close>

lemma physicalItem_tile:
  assumes "validLayout itemBits layout"
  shows "physicalItem layout x g div 2 ^ itemBits = x div 2 ^ itemBits"
proof -
  have "bit (physicalItem layout x g) k = bit x k" if k: "itemBits \<le> k" for k
  proof -
    have "filter (\<lambda>(s, t). t = k \<and> bit x s) (sl_itemXors layout) = []"
      using assms k by (fastforce simp: validLayout_def filter_empty_conv)
    moreover have "phaseValue layout g < 2 ^ k"
    proof (cases "sl_phaseBits layout = 0")
      case False
      let ?v = "drop_bit (sl_groupShift layout) g mod 2 ^ sl_phaseBits layout"
      have "?v < 2 ^ sl_phaseBits layout" by simp
      then have "?v * 2 ^ sl_itemShift layout < 2 ^ sl_phaseBits layout * 2 ^ sl_itemShift layout" by simp
      also have "\<dots> = 2 ^ (sl_itemShift layout + sl_phaseBits layout)" by (simp add: power_add)
      also have "\<dots> \<le> 2 ^ k" using assms k False by (intro power_increasing) (auto simp: validLayout_def)
      finally show ?thesis using False by (simp add: phaseValue_def push_bit_eq_mult)
    qed (simp add: phaseValue_def)
    then have "\<not> bit (phaseValue layout g) k" by (simp add: bit_iff_odd)
    ultimately show ?thesis by (simp add: bit_physicalItem)
  qed
  then show ?thesis
    by (simp flip: drop_bit_eq_div) (intro bit_eqI, simp add: bit_drop_bit_eq)
qed

lemma bit_less: "bit (n :: nat) k \<Longrightarrow> k < n"
proof (rule ccontr)
  assume b: "bit n k" and "\<not> k < n"
  then have "n < 2 ^ k" using less_exp [of k] by linarith
  then show False using b by (simp add: bit_iff_odd)
qed

lemma highest_difference:
  assumes "x \<noteq> (y :: nat)"
  shows "\<exists>k. bit x k \<noteq> bit y k \<and> (\<forall>j > k. bit x j = bit y j)"
proof -
  define P where "P k \<longleftrightarrow> bit x k \<noteq> bit y k" for k
  have ex: "\<exists>k. P k" using assms unfolding P_def by (metis bit_eq_iff)
  have bound: "k \<le> x + y" if "P k" for k
    using that bit_less [of x k] bit_less [of y k] unfolding P_def by fastforce
  have "P (Greatest P)" by (rule GreatestI_ex_nat [OF ex bound])
  moreover have "k \<le> Greatest P" if "P k" for k by (rule Greatest_le_nat [of P k "x + y"], fact that, rule bound)
  ultimately have "\<exists>k. P k \<and> (\<forall>j > k. \<not> P j)" by (auto simp: not_le [symmetric])
  then show ?thesis by (auto simp: P_def)
qed

lemma physicalItem_inj:
  assumes "validLayout itemBits layout" and "physicalItem layout x g = physicalItem layout y g"
  shows "x = y"
proof (rule ccontr)
  assume "x \<noteq> y"
  then obtain k where k: "bit x k \<noteq> bit y k" "\<And>j. j > k \<Longrightarrow> bit x j = bit y j"
    using highest_difference by blast
  have "filter (\<lambda>(s, t). t = k \<and> bit x s) (sl_itemXors layout) =
      filter (\<lambda>(s, t). t = k \<and> bit y s) (sl_itemXors layout)"
    using assms(1) k(2) by (intro filter_cong) (auto simp: validLayout_def)
  then show False using k(1) assms(2) bit_physicalItem [of layout x g k] bit_physicalItem [of layout y g k]
    by auto
qed

lemma physicalItem_range:
  assumes "validLayout itemBits layout" and "2 ^ itemBits dvd items" and "x < items"
  shows "physicalItem layout x g < items"
proof -
  obtain q where q: "items = 2 ^ itemBits * q" using assms(2) by blast
  then have "x div 2 ^ itemBits < q" using assms(3) by (simp add: less_mult_imp_div_less mult.commute)
  then show ?thesis
    by (simp add: q flip: physicalItem_tile [OF assms(1), of x g]) (simp add: div_less_iff_less_mult mult.commute)
qed

lemma physicalItem_permutes:
  assumes "validLayout itemBits layout" and "2 ^ itemBits dvd items"
  shows "bij_betw (\<lambda>x. physicalItem layout x g) {0 ..< items} {0 ..< items}"
proof -
  have "inj_on (\<lambda>x. physicalItem layout x g) {0 ..< items}"
    using physicalItem_inj [OF assms(1)] by (auto simp: inj_on_def)
  moreover have "(\<lambda>x. physicalItem layout x g) ` {0 ..< items} \<subseteq> {0 ..< items}"
    using physicalItem_range [OF assms] by auto
  ultimately show ?thesis by (simp add: bij_betw_def endo_inj_surj)
qed

lemma countr_zero_dvd: "n \<noteq> 0 \<Longrightarrow> 2 ^ countr_zero n dvd n"
proof (induction n rule: countr_zero.induct)
  case (1 n)
  then show ?case by (cases "odd n") (auto simp: countr_zero.simps [of n])
qed

subsection \<open>Scores\<close>

lemma lane_phase_below:
  assumes "p \<le> getAMDGPULDSLanePhase topology load lane"
  shows "\<exists>l \<le> lane. getAMDGPULDSLanePhase topology load l = p"
proof (cases "load \<and> lt_loadLaneGrouping topology = DsReadB128CombinedQuads")
  case True
  have phase: "getAMDGPULDSLanePhase topology load l = 2 * (l div 32) + popcount (l mod 32 div 4) mod 2" for l
    using True and_mask_mod [of l 5] by (simp add: getAMDGPULDSLanePhase_def Let_def and_one_eq)
  show ?thesis
  proof (cases "p = getAMDGPULDSLanePhase topology load lane")
    case False
    define l where "l = 32 * (p div 2) + 4 * (p mod 2)"
    have p: "p \<le> 2 * (lane div 32)" using assms False unfolding phase by linarith
    have "p mod 2 = 0 \<or> p mod 2 = 1" by auto
    then have l: "l div 32 = p div 2" "l mod 32 div 4 = p mod 2" unfolding l_def by auto
    have "l \<le> 16 * p" using mult_div_mod_eq [of 2 p] unfolding l_def by linarith
    have "16 * p \<le> lane" using p mult_div_mod_eq [of 32 lane] by linarith
    then have "l \<le> lane" using \<open>l \<le> 16 * p\<close> by linarith
    moreover note l
    moreover have "popcount 0 = 0" "popcount 1 = 1"
      using popcount.simps [of 0] popcount.simps [of 1] by simp_all
    then have "popcount (p mod 2) mod 2 = p mod 2"
      using \<open>p mod 2 = 0 \<or> p mod 2 = 1\<close> by auto
    ultimately show ?thesis using phase [of l] by (intro exI [of _ l]) simp
  qed (auto)
next
  case False
  define L where "L = max 1 (lt_bankCount topology div lt_dwordsPerLane topology)"
  have phase: "getAMDGPULDSLanePhase topology load l = l div L" for l
    using False unfolding getAMDGPULDSLanePhase_def Let_def L_def by (simp only: if_False)
  have "0 < L" by (simp add: L_def)
  then have "p * L \<le> lane" "p * L div L = p"
    using assms by (simp_all add: phase less_eq_div_iff_mult_less_eq)
  then show ?thesis using phase by auto
qed

lemma fold_phases:
  "p < fold (\<lambda>lane n. max n (f lane + 1)) ls m \<Longrightarrow> p < m \<or> (\<exists>l \<in> set ls. p \<le> (f l :: nat))"
proof (induction ls arbitrary: m)
  case (Cons a ls)
  then show ?case using Cons.IH [of "max m (f a + 1)"] by (auto simp: less_max_iff_disj less_Suc_eq_le)
qed simp

text \<open>Every phase that is scored has a lane, every lane touches a word: no score is negative.\<close>

lemma fold_max_bound: "x \<in> set xs \<Longrightarrow> (x :: nat) \<le> fold max xs m"
proof (induction xs arbitrary: m)
  case (Cons y ys)
  have mono: "m \<le> fold max ys m" for m by (induction ys arbitrary: m) (auto intro: order_trans [OF max.cobounded2])
  show ?case using Cons mono [of "max y m"] by auto
qed simp

lemma laneWords_nonempty: "vectorBits \<noteq> 0 \<Longrightarrow> laneWords elementBits vectorBits address \<noteq> []"
proof -
  assume "vectorBits \<noteq> 0"
  then have "address * elementBits div 32 \<le> (address * elementBits + vectorBits - 1) div 32"
    by (intro div_le_mono) simp
  then show ?thesis by (simp add: laneWords_def Let_def)
qed

lemma bankUse_hit:
  assumes "ws \<noteq> []" and "banks \<noteq> 0"
  shows "\<exists>n \<in> set (bankUse kind banks ws). 1 \<le> n"
proof -
  let ?c = "if kind = Store then ws else remdups ws"
  have h: "hd ws \<in> set ?c" using assms(1) by simp
  let ?hits = "filter (\<lambda>word. word mod banks = hd ws mod banks) ?c"
  have "hd ws \<in> set ?hits" using h by simp
  then have "1 \<le> length ?hits" using length_pos_if_in_set [of "hd ws" ?hits] by linarith
  moreover have "length ?hits \<in> set (bankUse kind banks ws)"
    using assms(2) unfolding bankUse_def Let_def by (auto intro!: image_eqI [of _ _ "hd ws mod banks"])
  ultimately show ?thesis by blast
qed

lemma scorePhase_nonneg:
  assumes phase: "phase < fold (\<lambda>lane n. max n (getAMDGPULDSLanePhase topology (kind = Load) lane + 1))
      [0 ..< length addresses] 0"
    and banks: "lt_bankCount topology \<noteq> 0" and bits: "sh_vectorBits shape \<noteq> 0"
  shows "0 \<le> scorePhase addresses elementBits shape kind topology phase"
proof -
  let ?f = "getAMDGPULDSLanePhase topology (kind = Load)"
  obtain lane where lane: "lane < length addresses" "phase \<le> ?f lane"
    using fold_phases [OF phase] by auto
  obtain l where "l \<le> lane" and f: "?f l = phase" using lane_phase_below [OF lane(2)] by blast
  then have l: "l < length addresses" "?f l = phase" using lane(1) by simp_all
  let ?lanes = "filter (\<lambda>lane. ?f lane = phase) [0 ..< length addresses]"
  let ?ws = "concat (map (\<lambda>lane. laneWords elementBits (sh_vectorBits shape) (addresses ! lane)) ?lanes)"
  have "l \<in> set ?lanes" using l by simp
  then have "?ws \<noteq> []" using laneWords_nonempty [OF bits] by (auto simp: concat_eq_Nil_conv)
  then obtain n where "n \<in> set (bankUse kind (lt_bankCount topology) ?ws)" "1 \<le> n"
    using bankUse_hit banks by blast
  then have "1 \<le> fold max (bankUse kind (lt_bankCount topology) ?ws) 0"
    using fold_max_bound order_trans by blast
  then show ?thesis by (simp add: scorePhase_def Let_def)
qed

lemma score_nonneg:
  assumes "lt_bankCount topology \<noteq> 0" and "sh_vectorBits shape \<noteq> 0"
  shows "0 \<le> scoreScratchLayout op pattern packet localGroups waveWidth elementBits shape topology layout"
proof -
  have a: "0 \<le> scoreScratchBankAccesses addresses elementBits shape kind topology" for addresses kind
    using scorePhase_nonneg [OF _ assms]
    by (auto simp: scoreScratchBankAccesses_def Let_def intro!: sum_list_nonneg)
  have "0 \<le> scoreStoreLayout layout op packet localGroups waveWidth elementBits shape topology"
    using a by (auto simp: scoreStoreLayout_def Let_def intro!: sum_list_nonneg split: if_splits)
  moreover have "0 \<le> scoreLoadLayout layout pattern packet waveWidth elementBits shape topology"
    using a by (auto simp: scoreLoadLayout_def Let_def intro!: sum_list_nonneg split: if_splits)
  ultimately show ?thesis by (simp add: scoreScratchLayout_def)
qed

text \<open>What the inputs promise, and with them the selected layout.\<close>

lemma inputs_sane:
  assumes "buildScratchLayoutInputs op packet window elementBits literals targetModule
      = Inr (Some (pattern, shape, topology))"
  shows "lt_bankCount topology \<noteq> 0" and "sh_vectorBits shape \<noteq> 0"
  using assms
  by (auto simp: buildScratchLayoutInputs_def result_simps getScratchLayoutShape_def
      getScratchAccessShape_def checkedMul_def checkedAdd_def Let_def bind_eq_Some_conv
      split: option.splits if_splits)

lemma selected_cases:
  assumes "selectScratchPhysicalLayout op packet window waveWidth elementBits literals targetModule = Inr layout"
  shows "validLayout (countr_zero (rd_items op)) layout"
    and "buildScratchLayoutInputs op packet window elementBits literals targetModule
        = Inr (Some (pattern, shape, topology)) \<Longrightarrow>
      scoreScratchLayout op pattern packet (gw_localGroups window) waveWidth elementBits shape topology layout
      \<le> scoreScratchLayout op pattern packet (gw_localGroups window) waveWidth elementBits shape topology
          identityLayout"
proof -
  obtain inputs where i: "buildScratchLayoutInputs op packet window elementBits literals targetModule = Inr inputs"
    using assms by (auto simp: selectScratchPhysicalLayout_def result_simps)
  show "validLayout (countr_zero (rd_items op)) layout"
  proof (cases inputs)
    case None
    then show ?thesis using assms i by (simp add: selectScratchPhysicalLayout_def valid_identity)
  next
    case (Some x)
    obtain pattern shape topology where "x = (pattern, shape, topology)" by (cases x)
    with i Some have s: "buildScratchLayoutInputs op packet window elementBits literals targetModule
        = Inr (Some (pattern, shape, topology))" by simp
    show ?thesis
      using assms chooseLayout_good [where topology = topology and
        scoreOn = "\<lambda>t. scoreScratchLayout op pattern packet (gw_localGroups window) waveWidth elementBits shape t",
        OF score_nonneg [OF inputs_sane [OF s]]]
      by (auto simp: selectScratchPhysicalLayout_def s)
  qed
  show "scoreScratchLayout op pattern packet (gw_localGroups window) waveWidth elementBits shape topology layout
      \<le> scoreScratchLayout op pattern packet (gw_localGroups window) waveWidth elementBits shape topology
          identityLayout"
    if s: "buildScratchLayoutInputs op packet window elementBits literals targetModule
        = Inr (Some (pattern, shape, topology))"
    using assms chooseLayout_good [where topology = topology and
        scoreOn = "\<lambda>t. scoreScratchLayout op pattern packet (gw_localGroups window) waveWidth elementBits shape t",
        OF score_nonneg [OF inputs_sane [OF s]]]
    by (auto simp: selectScratchPhysicalLayout_def s)
qed

subsection \<open>The expression\<close>

lemma bit_mask_fold:
  "bit (fold (\<lambda>(s, t) mask1. if s - t = d then mask1 OR 2 ^ t else mask1) xs (m :: nat)) k \<longleftrightarrow>
   bit m k \<or> (\<exists>s. (s, k) \<in> set xs \<and> s - k = d)"
  by (induction xs arbitrary: m) (auto simp: bit_or_iff bit_exp_iff split: if_splits)

lemma bit_masked_fold:
  "bit (fold (\<lambda>(d, mask1) p. p XOR (drop_bit d x AND mask1)) ms q) k \<longleftrightarrow>
   bit (q :: nat) k \<noteq> odd (length (filter (\<lambda>(d, mask1). bit mask1 k \<and> bit x (d + k)) ms))"
proof (induction ms arbitrary: q)
  case (Cons m ms)
  obtain d mask1 where m: "m = (d, mask1)" by (cases m)
  have "bit (q XOR (drop_bit d x AND mask1)) k \<longleftrightarrow> bit q k \<noteq> (bit mask1 k \<and> bit x (d + k))"
    by (auto simp: bit_xor_iff bit_and_iff bit_drop_bit_eq)
  then show ?case by (simp add: m Cons.IH) blast
qed simp

text \<open>The masks of the shifts name the same exclusive-ors as the pairs.\<close>

lemma masks_same_count:
  assumes "\<forall>(s, t) \<in> set xors. t < s" and "distinct xors"
  shows "length (filter (\<lambda>(d, mask1). bit mask1 k \<and> bit (x :: nat) (d + k)) (masksByShift xors)) =
    length (filter (\<lambda>(s, t). t = k \<and> bit x s) xors)"
proof -
  let ?mask = "\<lambda>d. fold (\<lambda>(s, t) mask1. if s - t = d then mask1 OR 2 ^ t else mask1) xors (0 :: nat)"
  let ?shifts = "remdups (sort (map (\<lambda>(s, t). s - t) xors))"
  have mask: "bit (?mask d) k \<longleftrightarrow> (\<exists>s. (s, k) \<in> set xors \<and> s - k = d)" for d
    by (simp add: bit_mask_fold)
  let ?A = "{d \<in> set ?shifts. bit (?mask d) k \<and> bit x (d + k)}"
  let ?B = "{(s, t) \<in> set xors. t = k \<and> bit x s}"
  have "length (filter (\<lambda>(d, mask1). bit mask1 k \<and> bit x (d + k)) (masksByShift xors)) =
      length (filter (\<lambda>d. bit (?mask d) k \<and> bit x (d + k)) ?shifts)"
    by (simp add: masksByShift_def filter_map comp_def)
  also have "\<dots> = card ?A"
    using distinct_card [of "filter (\<lambda>d. bit (?mask d) k \<and> bit x (d + k)) ?shifts"] by simp
  also have "\<dots> = card ?B"
  proof (rule bij_betw_same_card [of "\<lambda>d. (d + k, k)"], rule bij_betwI')
    fix d assume d: "d \<in> ?A"
    then obtain s where s: "(s, k) \<in> set xors" "s - k = d" using mask by auto
    then have "s = d + k" using assms(1) by auto
    moreover have "bit x (d + k)" using d by blast
    ultimately show "(d + k, k) \<in> ?B" using s(1) by simp
  next
    fix y assume "y \<in> ?B"
    then obtain s where s: "y = (s, k)" "(s, k) \<in> set xors" "bit x s" by auto
    then have "k < s" using assms(1) by auto
    then have "s - k \<in> ?A" using s mask [of "s - k"] by force
    then show "\<exists>d \<in> ?A. y = (d + k, k)" using s \<open>k < s\<close> by (intro bexI [of _ "s - k"]) auto
  qed auto
  also have "\<dots> = length (filter (\<lambda>(s, t). t = k \<and> bit x s) xors)"
    using distinct_card [of "filter (\<lambda>(s, t). t = k \<and> bit x s) xors"] assms(2)
    by (simp add: case_prod_unfold)
  finally show ?thesis .
qed

lemma composeItemXors_value:
  assumes "hasValue env item (int x)"
  shows "hasValue env (composeItemXors item layout)
    (int (fold (\<lambda>(d, mask1) p. p XOR (drop_bit d x AND mask1)) (masksByShift (sl_itemXors layout)) x))"
proof -
  have "hasValue env (fold (\<lambda>(d, mask1) physical. SymBinary SymXor physical
        (composeWithInt (floorDiv item (2 ^ d)) SymAnd (int mask1))) ms e)
      (int (fold (\<lambda>(d, mask1) p. p XOR (drop_bit d x AND mask1)) ms q))"
    if "hasValue env e (int q)" for ms e q
    using that
  proof (induction ms arbitrary: e q)
    case (Cons m ms)
    obtain d mask1 where m: "m = (d, mask1)" by (cases m)
    have "int x div 2 ^ d = int (drop_bit d x)" by (simp add: drop_bit_eq_div zdiv_int)
    then have "hasValue env (composeWithInt (floorDiv item (2 ^ d)) SymAnd (int mask1)) (int (drop_bit d x AND mask1))"
      using hasValue_withInt(4) [OF hasValue_floorDiv [OF assms, of "2 ^ d"], of "int mask1"]
      by (simp add: of_nat_and_eq)
    then have "hasValue env (SymBinary SymXor e (composeWithInt (floorDiv item (2 ^ d)) SymAnd (int mask1)))
        (int (q XOR (drop_bit d x AND mask1)))"
      using hasValue_binary(3) [OF Cons.prems] by (simp add: of_nat_xor_eq)
    then show ?case using Cons.IH by (simp add: m)
  qed simp
  from this [OF assms] show ?thesis by (simp add: composeItemXors_def)
qed

lemma composeScratchPhysicalItem_value:
  assumes valid: "validLayout itemBits layout"
    and item: "hasValue env item (int x)" and group: "hasValue env localGroup (int g)"
  shows "hasValue env (composeScratchPhysicalItem item localGroup layout) (int (physicalItem layout x g))"
proof -
  let ?x = "fold (\<lambda>(d, mask1) p. p XOR (drop_bit d x AND mask1)) (masksByShift (sl_itemXors layout)) x"
  have upper: "\<forall>(s, t) \<in> set (sl_itemXors layout). t < s" "distinct (sl_itemXors layout)"
    using valid by (auto simp: validLayout_def)
  have same: "physicalItem layout x g = ?x XOR phaseValue layout g"
    using masks_same_count [OF upper]
    by (intro bit_eqI) (simp only: bit_physicalItem bit_xor_iff bit_masked_fold)
  note xs = composeItemXors_value [OF item, of layout]
  show ?thesis
  proof (cases "sl_phaseBits layout = 0")
    case True
    then show ?thesis using xs same by (simp add: composeScratchPhysicalItem_def Let_def phaseValue_def)
  next
    case False
    let ?e = "composeWithInt (composeWithInt (floorDiv localGroup (2 ^ sl_groupShift layout)) SymMod
      (2 ^ sl_phaseBits layout)) SymMul (2 ^ sl_itemShift layout)"
    have "hasValue env ?e (int g div 2 ^ sl_groupShift layout mod 2 ^ sl_phaseBits layout * 2 ^ sl_itemShift layout)"
      by (intro hasValue_rules group)
    moreover have "int g div 2 ^ sl_groupShift layout mod 2 ^ sl_phaseBits layout * 2 ^ sl_itemShift layout =
        int (phaseValue layout g)"
      using False by (simp add: phaseValue_def push_bit_eq_mult drop_bit_eq_div zdiv_int zmod_int)
    ultimately show ?thesis
      using hasValue_binary(3) [OF xs] False
      by (simp add: composeScratchPhysicalItem_def Let_def same of_nat_xor_eq)
  qed
qed

end
