(* ===== verification/Redist_Packet.thy ===== *)
theory Redist_Packet
  imports Prelude Redist_Slots "HOL-Library.Signed_Division"
begin

unbundle bit_operations_syntax

text \<open>
  The packet plans of a redistribution, \<^verbatim>\<open>lib/Dialect/Wave/Transforms/WaveRedistributePlanning.cpp\<close>:
  the slots of the result are grouped into vectors whose elements come from one source item and
  one vector of the source. Slots are renumbered by masks; a plan is found by proofs about the
  symbolic relation (\<^verbatim>\<open>searchPowerOfTwoPacketPlan\<close>) or by evaluating it at every point
  (\<^verbatim>\<open>searchEnumeratedPacketPlan\<close>). Diagnostics are dropped; the memo of checks only saves work.
\<close>

subsection \<open>Predicates, index maps and the symbolic store\<close>

datatype PredCmpOp = CmpLt | CmpLe | CmpGt | CmpGe | CmpEq | CmpNe

datatype sym_pred =
    SymCmp sym_expr PredCmpOp sym_expr
  | SymPredAnd sym_pred sym_pred
  | SymPredOr sym_pred sym_pred
  | SymPredNot sym_pred

fun evalPred :: "(string \<Rightarrow> int) \<Rightarrow> sym_pred \<Rightarrow> bool" where
  "evalPred env (SymCmp l op r) =
     (case op of
        CmpLt \<Rightarrow> evalSym env l < evalSym env r
      | CmpLe \<Rightarrow> evalSym env l \<le> evalSym env r
      | CmpGt \<Rightarrow> evalSym env l > evalSym env r
      | CmpGe \<Rightarrow> evalSym env l \<ge> evalSym env r
      | CmpEq \<Rightarrow> evalSym env l = evalSym env r
      | CmpNe \<Rightarrow> evalSym env l \<noteq> evalSym env r)"
| "evalPred env (SymPredAnd p q) \<longleftrightarrow> evalPred env p \<and> evalPred env q"
| "evalPred env (SymPredOr p q) \<longleftrightarrow> evalPred env p \<or> evalPred env q"
| "evalPred env (SymPredNot p) \<longleftrightarrow> \<not> evalPred env p"

text \<open>\<^verbatim>\<open>indexing::IndexMap\<close> without what only the emission of code reads.\<close>

record map_input =
  in_variable :: sym_expr
  in_extent :: "nat option"

record index_map =
  im_inputs :: "map_input list"
  im_facts :: "sym_pred list"
  im_requirements :: "sym_pred list"
  im_definitions :: "(sym_expr \<times> sym_expr) list"
  im_exprs :: "sym_expr list"

text \<open>The points of a map: the inputs are inside their extents, facts and definitions hold.\<close>

definition inDomain :: "index_map \<Rightarrow> (string \<Rightarrow> int) \<Rightarrow> bool" where
  "inDomain carrier env \<longleftrightarrow>
     (\<forall>input \<in> set (im_inputs carrier). \<forall>extent. in_extent input = Some extent \<longrightarrow>
        (\<exists>n. hasValue env (in_variable input) n \<and> 0 \<le> n \<and> n < int extent)) \<and>
     (\<forall>p \<in> set (im_facts carrier). evalPred env p) \<and>
     (\<forall>(target, replacement) \<in> set (im_definitions carrier). evalSym env target = evalSym env replacement)"

text \<open>
  The symbolic store is a library; the planning uses these operations of it. \<open>st_check\<close> and
  \<open>st_simplify\<close> are \<^verbatim>\<open>indexing::check\<close> and \<^verbatim>\<open>indexing::simplify\<close>, the proof boundary over it.
\<close>

datatype CheckResult = CheckTrue | CheckFalse | CheckUnknown

record sym_store =
  st_isIntegerValued :: "sym_expr \<Rightarrow> bool"
  st_substituteExpr :: "sym_expr \<Rightarrow> (sym_expr \<times> sym_expr) list \<Rightarrow> sym_expr"
  st_simplifyExpr :: "sym_expr \<Rightarrow> sym_expr"
  st_simplify :: "index_map \<Rightarrow> sym_expr list \<Rightarrow> sym_expr list result"
  st_check :: "index_map \<Rightarrow> sym_pred list \<Rightarrow> CheckResult result"

text \<open>Integer payload of a literal, \<^verbatim>\<open>sym::getIntegerLiteralValue\<close>.\<close>

fun getIntegerLiteralValue :: "sym_expr \<Rightarrow> int option" where
  "getIntegerLiteralValue (SymInt i) = Some i"
| "getIntegerLiteralValue _ = None"

definition kBlock :: string where "kBlock = ''block''"
definition kItem :: string where "kItem = ''item''"
definition kSlot :: string where "kSlot = ''slot''"

definition getInput :: "index_map \<Rightarrow> string \<Rightarrow> map_input result" where
  "getInput carrier name =
     (case find (\<lambda>candidate. in_variable candidate = SymVar name) (im_inputs carrier) of
        None \<Rightarrow> Inl (Unreachable ''missing index-map input'')
      | Some input \<Rightarrow> Inr input)"

subsection \<open>Requirements\<close>

definition appendCoordinateRequirements :: "sym_store \<Rightarrow> sym_expr \<Rightarrow> nat \<Rightarrow> sym_pred list" where
  "appendCoordinateRequirements st expression extent =
     (if \<not> st_isIntegerValued st expression then [SymCmp expression CmpEq (SymFloor expression)] else []) @
     [SymCmp expression CmpGe (SymInt 0), SymCmp expression CmpLt (SymInt (int extent))]"

definition equal_pred :: "sym_expr \<Rightarrow> sym_expr \<Rightarrow> sym_pred" where
  "equal_pred lhs rhs = SymCmp lhs CmpEq rhs"

definition buildSlotPermutationProof :: "nat \<Rightarrow> nat \<Rightarrow> string \<Rightarrow> sym_expr \<times> sym_expr \<times> sym_pred" where
  "buildSlotPermutationProof slots withinMask symbol =
     (let variable = SymVar symbol;
          packed = composeSlotPermutation variable slots withinMask False;
          inv1 = composeSlotPermutation packed slots withinMask True
      in (variable, packed, equal_pred variable inv1))"

definition proveSlotPermutation :: "sym_store \<Rightarrow> nat \<Rightarrow> nat \<Rightarrow> string \<Rightarrow> bool result" where
  "proveSlotPermutation st slots withinMask symbol =
     (if isIdentitySlotPermutation slots withinMask then Inr True
      else case buildSlotPermutationProof slots withinMask symbol of
        (variable, packed, exact) \<Rightarrow>
          let domain = \<lparr>im_inputs = [\<lparr>in_variable = variable, in_extent = Some slots\<rparr>], im_facts = [],
                        im_requirements = [], im_definitions = [], im_exprs = [packed]\<rparr>;
              goals = exact # appendCoordinateRequirements st packed slots
          in bindR (st_check st domain goals) (\<lambda>result1. Inr (result1 = CheckTrue)))"

record coordinate_factor =
  cf_group :: sym_expr
  cf_within :: sym_expr

definition factorCoordinate :: "sym_expr \<Rightarrow> nat \<Rightarrow> coordinate_factor" where
  "factorCoordinate value size1 =
     \<lparr>cf_group = floorDiv value (int size1), cf_within = composeWithInt value SymMod (int size1)\<rparr>"

definition appendFactorProof ::
    "sym_store \<Rightarrow> sym_expr \<Rightarrow> coordinate_factor \<Rightarrow> nat \<Rightarrow> nat \<Rightarrow> sym_pred list" where
  "appendFactorProof st value factor extent size1 =
     (let base = composeWithInt (cf_group factor) SymMul (int size1);
          reconstructed = SymBinary SymAdd base (cf_within factor);
          exact = equal_pred value reconstructed
      in appendCoordinateRequirements st (cf_group factor) ((extent + size1 - 1) div size1) @
         appendCoordinateRequirements st (cf_within factor) size1 @ [exact])"

subsection \<open>Dependencies between the bits of the slots\<close>

record packet_bit_dependencies =
  pd_ownerInvariant :: nat
  pd_sourceByResultBit :: "nat list"

definition proves :: "sym_store \<Rightarrow> index_map \<Rightarrow> sym_pred \<Rightarrow> bool result" where
  "proves st carrier goal = bindR (st_check st carrier [goal]) (\<lambda>r. Inr (r = CheckTrue))"

definition isInvariantUnderSubstitution ::
    "sym_store \<Rightarrow> index_map \<Rightarrow> sym_expr \<Rightarrow> (sym_expr \<times> sym_expr) list \<Rightarrow> bool result" where
  "isInvariantUnderSubstitution st carrier expression substitution =
     proves st carrier (equal_pred expression (st_substituteExpr st expression substitution))"

definition toggleCoordinateBit :: "sym_expr \<Rightarrow> nat \<Rightarrow> sym_expr" where
  "toggleCoordinateBit value bitValue =
     (if bitValue = 0 then value
      else let quotient = floorDiv value (int bitValue);
               selected = composeWithInt quotient SymMod 2;
               correction = composeWithInt selected SymMul (2 * int bitValue);
               raised = composeWithInt value SymAdd (int bitValue)
           in SymBinary SymSub raised correction)"

text \<open>The loops over slots, over source bits and over result bits, each ending at its first answer.\<close>

fun proveSpecializedAt ::
    "sym_store \<Rightarrow> index_map \<Rightarrow> sym_expr \<Rightarrow> sym_expr \<Rightarrow> nat \<Rightarrow> nat \<Rightarrow> nat list \<Rightarrow> bool result" where
  "proveSpecializedAt st carrier resultSlot sourceSlot resultBitValue sourceBitValue [] = Inr True"
| "proveSpecializedAt st carrier resultSlot sourceSlot resultBitValue sourceBitValue (slot # slots) =
     (let source = st_substituteExpr st sourceSlot [(resultSlot, SymInt (int slot))];
          toggled = st_substituteExpr st sourceSlot [(resultSlot, SymInt (int (slot XOR resultBitValue)))];
          expected = toggleCoordinateBit source sourceBitValue
      in bindR (proves st carrier (equal_pred toggled expected)) (\<lambda>proven.
           if \<not> proven then Inr False
           else proveSpecializedAt st carrier resultSlot sourceSlot resultBitValue sourceBitValue slots))"

definition proveSpecializedSourceToggle ::
    "sym_store \<Rightarrow> index_map \<Rightarrow> sym_expr \<Rightarrow> nat \<Rightarrow> nat \<Rightarrow> nat \<Rightarrow> bool result" where
  "proveSpecializedSourceToggle st carrier sourceSlot resultBit resultBits sourceBitValue =
     bindR (getInput carrier kSlot) (\<lambda>input.
       proveSpecializedAt st carrier (in_variable input) sourceSlot (2 ^ resultBit) sourceBitValue
         [0 ..< 2 ^ resultBits])"

fun findSourceToggleAmong ::
    "sym_store \<Rightarrow> index_map \<Rightarrow> sym_expr \<Rightarrow> sym_expr \<Rightarrow> nat \<Rightarrow> nat \<Rightarrow> nat \<Rightarrow> nat list \<Rightarrow>
     nat option result" where
  "findSourceToggleAmong st carrier sourceSlot toggledSource sourceBits resultBits resultBit [] = Inr None"
| "findSourceToggleAmong st carrier sourceSlot toggledSource sourceBits resultBits resultBit (sourceBit # bs) =
     (let candidate = (if sourceBit = sourceBits then 0 else 2 ^ sourceBit);
          expected = toggleCoordinateBit sourceSlot candidate
      in bindR (proves st carrier (equal_pred toggledSource expected)) (\<lambda>proven.
           if proven then Inr (Some candidate)
           else bindR (proveSpecializedSourceToggle st carrier sourceSlot resultBit resultBits candidate)
             (\<lambda>specialized.
               if specialized then Inr (Some candidate)
               else findSourceToggleAmong st carrier sourceSlot toggledSource sourceBits resultBits resultBit bs)))"

definition findDirectSourceToggle ::
    "sym_store \<Rightarrow> index_map \<Rightarrow> sym_expr \<Rightarrow> sym_expr \<Rightarrow> nat \<Rightarrow> nat \<Rightarrow> nat \<Rightarrow> nat option result" where
  "findDirectSourceToggle st carrier sourceSlot toggledSource sourceBits resultBits resultBit =
     findSourceToggleAmong st carrier sourceSlot toggledSource sourceBits resultBits resultBit
       [0 ..< sourceBits + 1]"

fun dependentSourceBitsAmong ::
    "sym_store \<Rightarrow> index_map \<Rightarrow> sym_expr \<Rightarrow> (sym_expr \<times> sym_expr) list \<Rightarrow> nat list \<Rightarrow> nat \<Rightarrow> nat result" where
  "dependentSourceBitsAmong st carrier sourceSlot substitution [] dependencies = Inr dependencies"
| "dependentSourceBitsAmong st carrier sourceSlot substitution (sourceBit # bs) dependencies =
     (let factor = factorCoordinate sourceSlot (2 ^ sourceBit);
          b = composeWithInt (cf_group factor) SymMod 2
      in bindR (isInvariantUnderSubstitution st carrier b substitution) (\<lambda>invariant.
           dependentSourceBitsAmong st carrier sourceSlot substitution bs
             (if \<not> invariant then dependencies OR 2 ^ sourceBit else dependencies)))"

definition findDependentSourceBits ::
    "sym_store \<Rightarrow> index_map \<Rightarrow> sym_expr \<Rightarrow> nat \<Rightarrow> (sym_expr \<times> sym_expr) list \<Rightarrow> nat result" where
  "findDependentSourceBits st carrier sourceSlot sourceBits substitution =
     dependentSourceBitsAmong st carrier sourceSlot substitution [0 ..< sourceBits] 0"

definition appendPacketBitDependencies ::
    "sym_store \<Rightarrow> index_map \<Rightarrow> sym_expr \<Rightarrow> sym_expr \<Rightarrow> sym_expr \<Rightarrow> nat \<Rightarrow> nat \<Rightarrow> nat \<Rightarrow>
     packet_bit_dependencies \<Rightarrow> packet_bit_dependencies result" where
  "appendPacketBitDependencies st carrier resultSlot owner sourceSlot sourceBits resultBits resultBit
       dependencies =
     (let toggled = composeWithInt resultSlot SymXor (2 ^ resultBit);
          substitution = [(resultSlot, toggled)]
      in bindR (isInvariantUnderSubstitution st carrier owner substitution) (\<lambda>ownerInvariant.
           if \<not> ownerInvariant then Inr dependencies
           else
             let dependencies' = dependencies
                   \<lparr>pd_ownerInvariant := pd_ownerInvariant dependencies OR 2 ^ resultBit\<rparr>;
                 toggledSource = st_substituteExpr st sourceSlot substitution;
                 found = (\<lambda>source. dependencies'
                   \<lparr>pd_sourceByResultBit := (pd_sourceByResultBit dependencies')[resultBit := source]\<rparr>)
             in bindR (findDirectSourceToggle st carrier sourceSlot toggledSource sourceBits resultBits resultBit)
                 (\<lambda>direct.
                   case direct of
                     Some source \<Rightarrow> Inr (found source)
                   | None \<Rightarrow>
                       bindR (findDependentSourceBits st carrier sourceSlot sourceBits substitution)
                         (\<lambda>dependent. Inr (found dependent)))))"

fun analyzeResultBits ::
    "sym_store \<Rightarrow> index_map \<Rightarrow> sym_expr \<Rightarrow> sym_expr \<Rightarrow> sym_expr \<Rightarrow> nat \<Rightarrow> nat \<Rightarrow> nat list \<Rightarrow>
     packet_bit_dependencies \<Rightarrow> packet_bit_dependencies result" where
  "analyzeResultBits st carrier resultSlot owner sourceSlot sourceBits resultBits [] dependencies =
     Inr dependencies"
| "analyzeResultBits st carrier resultSlot owner sourceSlot sourceBits resultBits (resultBit # bs) dependencies =
     bindR (appendPacketBitDependencies st carrier resultSlot owner sourceSlot sourceBits resultBits resultBit
              dependencies)
       (analyzeResultBits st carrier resultSlot owner sourceSlot sourceBits resultBits bs)"

definition analyzePacketBitDependencies ::
    "sym_store \<Rightarrow> index_map \<Rightarrow> sym_expr \<Rightarrow> sym_expr \<Rightarrow> nat \<Rightarrow> nat \<Rightarrow> packet_bit_dependencies result" where
  "analyzePacketBitDependencies st carrier owner sourceSlot sourceBits resultBits =
     bindR (getInput carrier kSlot) (\<lambda>input.
       analyzeResultBits st carrier (in_variable input) owner sourceSlot sourceBits resultBits
         [0 ..< resultBits]
         \<lparr>pd_ownerInvariant = 0, pd_sourceByResultBit = replicate resultBits 0\<rparr>)"

definition addMaskBits :: "nat \<Rightarrow> nat \<Rightarrow> bool \<Rightarrow> nat list \<Rightarrow> nat \<Rightarrow> nat" where
  "addMaskBits resultMask withinBits alsoResultBit =
     fold (\<lambda>b sourceMask. if popcount sourceMask < withinBits \<and> bit resultMask b = alsoResultBit
                          then sourceMask OR 2 ^ b else sourceMask)"

definition getSourceWithinMask :: "packet_bit_dependencies \<Rightarrow> nat \<Rightarrow> nat \<Rightarrow> nat \<Rightarrow> nat" where
  "getSourceWithinMask dependencies resultMask sourceBits withinBits =
     (let sourceMask = fold (\<lambda>b sourceMask.
            if bit resultMask b then sourceMask OR pd_sourceByResultBit dependencies ! b else sourceMask)
            [0 ..< length (pd_sourceByResultBit dependencies)] 0
      in if popcount sourceMask > withinBits then 0
         else addMaskBits resultMask withinBits False [0 ..< sourceBits]
                (addMaskBits resultMask withinBits True [0 ..< sourceBits] sourceMask))"

subsection \<open>Proved packet plans\<close>

definition provePacketPermutations :: "sym_store \<Rightarrow> nat \<Rightarrow> nat \<Rightarrow> nat \<Rightarrow> nat \<Rightarrow> bool result" where
  "provePacketPermutations st sourceSlots resultSlots sourceMask resultMask =
     bindR (proveSlotPermutation st sourceSlots sourceMask ''source_packet_slot'') (\<lambda>source.
     bindR (proveSlotPermutation st resultSlots resultMask ''result_packet_slot'') (\<lambda>result1.
       Inr (source \<and> result1)))"

record packet_partition =
  pt_packedSource :: sym_expr
  pt_packedResult :: sym_expr
  pt_source :: coordinate_factor
  pt_result :: coordinate_factor

definition buildPacketPartition ::
    "index_map \<Rightarrow> sym_expr \<Rightarrow> nat \<Rightarrow> nat \<Rightarrow> nat \<Rightarrow> nat \<Rightarrow> nat \<Rightarrow> packet_partition result" where
  "buildPacketPartition carrier sourceSlot sourceSlots resultSlots vectorElements sourceMask resultMask =
     bindR (getInput carrier kSlot) (\<lambda>input.
       let packedSource = composeSlotPermutation sourceSlot sourceSlots sourceMask False;
           packedResult = composeSlotPermutation (in_variable input) resultSlots resultMask False
       in Inr \<lparr>pt_packedSource = packedSource, pt_packedResult = packedResult,
               pt_source = factorCoordinate packedSource vectorElements,
               pt_result = factorCoordinate packedResult vectorElements\<rparr>)"

definition provePacketPartition ::
    "sym_store \<Rightarrow> index_map \<Rightarrow> packet_partition \<Rightarrow> nat \<Rightarrow> nat \<Rightarrow> nat \<Rightarrow> bool result" where
  "provePacketPartition st carrier partition1 sourceSlots resultSlots vectorElements =
     (let goals =
            appendFactorProof st (pt_packedSource partition1) (pt_source partition1) sourceSlots vectorElements @
            appendFactorProof st (pt_packedResult partition1) (pt_result partition1) resultSlots vectorElements
      in bindR (st_check st carrier goals) (\<lambda>proven. Inr (proven = CheckTrue)))"

definition planOf ::
    "sym_expr \<Rightarrow> packet_partition \<Rightarrow> nat \<Rightarrow> nat \<Rightarrow> nat \<Rightarrow> nat \<Rightarrow> nat \<Rightarrow> packet_plan" where
  "planOf sourceItem partition1 sourceMask resultMask vectorElements sourceSlots resultSlots =
     \<lparr>pp_sourceItem = sourceItem, pp_sourceWithin = cf_within (pt_source partition1),
      pp_sourceGroup = cf_group (pt_source partition1), pp_sourceWithinMask = sourceMask,
      pp_resultWithinMask = resultMask, pp_vectorElements = vectorElements,
      pp_sourceGroups = sourceSlots div vectorElements, pp_resultGroups = resultSlots div vectorElements\<rparr>"

definition provePacketPlan ::
    "sym_store \<Rightarrow> index_map \<Rightarrow> sym_expr \<Rightarrow> sym_expr \<Rightarrow> nat \<Rightarrow> nat \<Rightarrow> nat \<Rightarrow> nat \<Rightarrow> nat \<Rightarrow>
     packet_plan option result" where
  "provePacketPlan st carrier sourceItem sourceSlot sourceSlots resultSlots vectorElements sourceMask resultMask =
     bindR (provePacketPermutations st sourceSlots resultSlots sourceMask resultMask) (\<lambda>permutations.
       if \<not> permutations then Inr None
       else bindR (buildPacketPartition carrier sourceSlot sourceSlots resultSlots vectorElements sourceMask
                     resultMask) (\<lambda>partition1.
         bindR (provePacketPartition st carrier partition1 sourceSlots resultSlots vectorElements) (\<lambda>proven.
           if \<not> proven then Inr None
           else Inr (Some (planOf sourceItem partition1 sourceMask resultMask vectorElements sourceSlots
                             resultSlots)))))"

fun searchMasksAmong ::
    "sym_store \<Rightarrow> index_map \<Rightarrow> sym_expr \<Rightarrow> sym_expr \<Rightarrow> nat \<Rightarrow> nat \<Rightarrow> nat \<Rightarrow>
     packet_bit_dependencies \<Rightarrow> nat \<Rightarrow> bool \<Rightarrow> nat list \<Rightarrow> packet_plan option result" where
  "searchMasksAmong st carrier sourceItem sourceSlot sourceSlots resultSlots vectorElements dependencies
       sourceBits allowResultPermutation [] = Inr None"
| "searchMasksAmong st carrier sourceItem sourceSlot sourceSlots resultSlots vectorElements dependencies
       sourceBits allowResultPermutation (resultMask # masks) =
     (let withinBits = Log2_64 vectorElements;
          rest = searchMasksAmong st carrier sourceItem sourceSlot sourceSlots resultSlots vectorElements
                   dependencies sourceBits allowResultPermutation masks
      in if popcount resultMask \<noteq> withinBits \<or>
            (\<not> allowResultPermutation \<and> resultMask \<noteq> vectorElements - 1) \<or>
            resultMask AND pd_ownerInvariant dependencies \<noteq> resultMask
         then rest
         else
           let sourceMask = getSourceWithinMask dependencies resultMask sourceBits withinBits
           in if popcount sourceMask \<noteq> withinBits then rest
              else bindR (provePacketPlan st carrier sourceItem sourceSlot sourceSlots resultSlots
                            vectorElements sourceMask resultMask) (\<lambda>candidate.
                if candidate \<noteq> None then Inr candidate else rest))"

definition searchPacketPlanMasks ::
    "sym_store \<Rightarrow> index_map \<Rightarrow> sym_expr \<Rightarrow> sym_expr \<Rightarrow> nat \<Rightarrow> nat \<Rightarrow> nat \<Rightarrow>
     packet_bit_dependencies \<Rightarrow> nat \<Rightarrow> nat \<Rightarrow> bool \<Rightarrow> packet_plan option result" where
  "searchPacketPlanMasks st carrier sourceItem sourceSlot sourceSlots resultSlots vectorElements dependencies
       sourceBits resultBits allowResultPermutation =
     searchMasksAmong st carrier sourceItem sourceSlot sourceSlots resultSlots vectorElements dependencies
       sourceBits allowResultPermutation [0 ..< 2 ^ resultBits]"

text \<open>Both searches halve the width of the vectors, from the widest one.\<close>

fun halvings :: "nat \<Rightarrow> nat \<Rightarrow> nat list" where
  "halvings least n = (if n > least then n # halvings least (n div 2) else [])"

declare halvings.simps [simp del]

fun searchWidths :: "(nat \<Rightarrow> packet_plan option result) \<Rightarrow> nat list \<Rightarrow> packet_plan option result" where
  "searchWidths f [] = Inr None"
| "searchWidths f (vectorElements # ves) =
     bindR (f vectorElements) (\<lambda>candidate.
       if candidate \<noteq> None then Inr candidate else searchWidths f ves)"

definition searchPowerOfTwoPacketPlan ::
    "sym_store \<Rightarrow> index_map \<Rightarrow> sym_expr \<Rightarrow> sym_expr \<Rightarrow> sym_expr \<Rightarrow> nat \<Rightarrow> nat \<Rightarrow> nat \<Rightarrow> bool \<Rightarrow>
     packet_plan option result" where
  "searchPowerOfTwoPacketPlan st carrier owner sourceItem sourceSlot sourceSlots resultSlots
       maxVectorElements allowResultPermutation =
     (let sourceBits = Log2_64 sourceSlots;
          resultBits = Log2_64 resultSlots
      in bindR (analyzePacketBitDependencies st carrier owner sourceSlot sourceBits resultBits)
          (\<lambda>dependencies.
            searchWidths (\<lambda>vectorElements.
              searchPacketPlanMasks st carrier sourceItem sourceSlot sourceSlots resultSlots vectorElements
                dependencies sourceBits resultBits allowResultPermutation)
              (halvings 0 maxVectorElements)))"

subsection \<open>Enumerated packet plans\<close>

definition kMaxEnumeratedPacketPoints :: nat where "kMaxEnumeratedPacketPoints = 2 ^ 20"

record enumerated_point =
  ep_sourceItem :: int
  ep_sourceSlot :: int

definition evaluatePacketCoordinate ::
    "sym_store \<Rightarrow> index_map \<Rightarrow> sym_expr \<Rightarrow> nat \<Rightarrow> nat \<Rightarrow> nat \<Rightarrow> int result" where
  "evaluatePacketCoordinate st carrier expression block item slot =
     bindR (getInput carrier kBlock) (\<lambda>blockInput.
     bindR (getInput carrier kItem) (\<lambda>itemInput.
     bindR (getInput carrier kSlot) (\<lambda>slotInput.
       let substitutions = [(in_variable blockInput, SymInt (int block)),
                            (in_variable itemInput, SymInt (int item)),
                            (in_variable slotInput, SymInt (int slot))];
           simplified = st_simplifyExpr st (st_substituteExpr st expression substitutions)
       in case getIntegerLiteralValue simplified of
            Some literal \<Rightarrow> Inr literal
          | None \<Rightarrow> Inl Failure)))"

definition enumeratePacketPoints ::
    "sym_store \<Rightarrow> index_map \<Rightarrow> sym_expr \<Rightarrow> sym_expr \<Rightarrow> nat \<Rightarrow> nat \<Rightarrow> nat \<Rightarrow> enumerated_point list result" where
  "enumeratePacketPoints st carrier sourceItem sourceSlot blocks items resultSlots =
     collectR (\<lambda>(block, item, slot).
         bindR (evaluatePacketCoordinate st carrier sourceItem block item slot) (\<lambda>mappedItem.
         bindR (evaluatePacketCoordinate st carrier sourceSlot block item slot) (\<lambda>mappedSlot.
           Inr \<lparr>ep_sourceItem = mappedItem, ep_sourceSlot = mappedSlot\<rparr>)))
       (concat (map (\<lambda>block. concat (map (\<lambda>item. map (\<lambda>slot. (block, item, slot)) [0 ..< resultSlots])
          [0 ..< items])) [0 ..< blocks]))"

text \<open>
  The vector starting at \<open>packedResult\<close> of one item: all its elements come from the source item
  and the source vector of the first. Divisions of slot numbers truncate.
\<close>

definition supportsVector ::
    "enumerated_point list \<Rightarrow> nat \<Rightarrow> nat \<Rightarrow> nat \<Rightarrow> nat \<Rightarrow> nat \<Rightarrow> nat \<Rightarrow> nat \<Rightarrow> bool" where
  "supportsVector points base sourceSlots resultSlots vectorElements sourceMask resultMask packedResult \<longleftrightarrow>
     (let first = points ! (base + nat (packedToLogicalSlot resultMask resultSlots (int packedResult)));
          sourceGroup = logicalToPackedSlot sourceMask sourceSlots (ep_sourceSlot first) sdiv int vectorElements
      in list_all (\<lambda>offset.
           let next1 = points ! (base + nat (packedToLogicalSlot resultMask resultSlots (int (packedResult + offset))));
               nextSourceGroup = logicalToPackedSlot sourceMask sourceSlots (ep_sourceSlot next1) sdiv int vectorElements
           in ep_sourceItem next1 = ep_sourceItem first \<and> nextSourceGroup = sourceGroup)
         [1 ..< vectorElements])"

definition supportsEnumeratedPacket ::
    "enumerated_point list \<Rightarrow> nat \<Rightarrow> nat \<Rightarrow> nat \<Rightarrow> nat \<Rightarrow> nat \<Rightarrow> nat \<Rightarrow> nat \<Rightarrow> bool" where
  "supportsEnumeratedPacket points blocks items sourceSlots resultSlots vectorElements sourceMask resultMask \<longleftrightarrow>
     list_all (\<lambda>block. list_all (\<lambda>item.
         let base = (block * items + item) * resultSlots
         in list_all (\<lambda>k. supportsVector points base sourceSlots resultSlots vectorElements sourceMask
                            resultMask (k * vectorElements))
              [0 ..< (resultSlots + vectorElements - 1) div vectorElements])
       [0 ..< items]) [0 ..< blocks]"

text \<open>The pairs of masks in the order of the two loops.\<close>

definition enumeratedMasks :: "nat \<Rightarrow> nat \<Rightarrow> nat \<Rightarrow> bool \<Rightarrow> (nat \<times> nat) list" where
  "enumeratedMasks sourceBits resultBits vectorElements allowResultPermutation =
     (let withinBits = Log2_64 vectorElements
      in concat (map (\<lambda>resultMask.
           if popcount resultMask \<noteq> withinBits \<or>
              (\<not> allowResultPermutation \<and> resultMask \<noteq> vectorElements - 1)
           then []
           else map (Pair resultMask) (filter (\<lambda>sourceMask. popcount sourceMask = withinBits) [0 ..< 2 ^ sourceBits]))
         [0 ..< 2 ^ resultBits]))"

definition searchEnumeratedPacketMasks ::
    "index_map \<Rightarrow> enumerated_point list \<Rightarrow> sym_expr \<Rightarrow> sym_expr \<Rightarrow> nat \<Rightarrow> nat \<Rightarrow> nat \<Rightarrow> nat \<Rightarrow> nat \<Rightarrow>
     nat \<Rightarrow> bool \<Rightarrow> packet_plan option result" where
  "searchEnumeratedPacketMasks carrier points sourceItem sourceSlot blocks items sourceSlots resultSlots
       maxVectorElements minVectorElements allowResultPermutation =
     searchWidths (\<lambda>vectorElements.
       case find (\<lambda>(resultMask, sourceMask).
              supportsEnumeratedPacket points blocks items sourceSlots resultSlots vectorElements sourceMask
                resultMask)
            (enumeratedMasks (Log2_64 sourceSlots) (Log2_64 resultSlots) vectorElements allowResultPermutation) of
         None \<Rightarrow> Inr None
       | Some (resultMask, sourceMask) \<Rightarrow>
           bindR (buildPacketPartition carrier sourceSlot sourceSlots resultSlots vectorElements sourceMask
                    resultMask) (\<lambda>partition1.
             Inr (Some (planOf sourceItem partition1 sourceMask resultMask vectorElements sourceSlots
                          resultSlots))))
       (halvings minVectorElements maxVectorElements)"

definition searchEnumeratedPacketPlan ::
    "sym_store \<Rightarrow> redistribute_op \<Rightarrow> index_map \<Rightarrow> sym_expr \<Rightarrow> sym_expr \<Rightarrow> nat \<Rightarrow> nat \<Rightarrow> nat \<Rightarrow> nat \<Rightarrow>
     bool \<Rightarrow> packet_plan option result" where
  "searchEnumeratedPacketPlan st op carrier sourceItem sourceSlot sourceSlots resultSlots maxVectorElements
       minVectorElements allowResultPermutation =
     (let blocks = rd_blocks op; items = rd_items op;
          pointCount = Option.bind (checkedMul blocks items) (\<lambda>points. checkedMul points resultSlots)
      in case pointCount of
           None \<Rightarrow> Inr None
         | Some count1 \<Rightarrow>
             if count1 > kMaxEnumeratedPacketPoints then Inr None
             else bindR (enumeratePacketPoints st carrier sourceItem sourceSlot blocks items resultSlots)
               (\<lambda>points. searchEnumeratedPacketMasks carrier points sourceItem sourceSlot blocks items
                  sourceSlots resultSlots maxVectorElements minVectorElements allowResultPermutation))"

subsection \<open>The plan\<close>

fun doubleUpTo :: "nat \<Rightarrow> nat \<Rightarrow> nat \<Rightarrow> nat" where
  "doubleUpTo 0 limit vectorElements = vectorElements"
| "doubleUpTo (Suc fuel) limit vectorElements =
     (if vectorElements \<le> limit div 2 then doubleUpTo fuel limit (vectorElements * 2) else vectorElements)"

text \<open>The width doubles from one, so \<open>limit\<close> rounds are enough.\<close>

definition getMaxPacketVectorElements :: "nat \<Rightarrow> nat \<Rightarrow> nat \<Rightarrow> nat option" where
  "getMaxPacketVectorElements sourceSlots resultSlots maxElements =
     (if sourceSlots = 0 \<or> resultSlots = 0 \<or> maxElements = 0 then None
      else let limit = min sourceSlots (min resultSlots maxElements)
           in Some (doubleUpTo limit limit 1))"

definition proveInitialPacketPlan ::
    "sym_store \<Rightarrow> index_map \<Rightarrow> sym_expr \<Rightarrow> sym_expr \<Rightarrow> sym_expr \<Rightarrow> nat \<Rightarrow> nat \<Rightarrow> nat \<Rightarrow> bool \<Rightarrow>
     packet_plan option result" where
  "proveInitialPacketPlan st carrier owner sourceItem sourceSlot sourceSlots resultSlots maxVectorElements
       allowResultPermutation =
     (if isPowerOf2_64 sourceSlots \<and> isPowerOf2_64 resultSlots
      then searchPowerOfTwoPacketPlan st carrier owner sourceItem sourceSlot sourceSlots resultSlots
             maxVectorElements allowResultPermutation
      else provePacketPlan st carrier sourceItem sourceSlot sourceSlots resultSlots 1 0 0)"

definition refineEnumeratedPacketPlan ::
    "sym_store \<Rightarrow> redistribute_op \<Rightarrow> index_map \<Rightarrow> sym_expr \<Rightarrow> sym_expr \<Rightarrow> nat \<Rightarrow> nat \<Rightarrow> nat \<Rightarrow> bool \<Rightarrow>
     packet_plan option \<Rightarrow> packet_plan option result" where
  "refineEnumeratedPacketPlan st op carrier sourceItem sourceSlot sourceSlots resultSlots maxVectorElements
       allowResultPermutation candidate =
     (if \<not> allowResultPermutation \<or> \<not> isPowerOf2_64 sourceSlots \<or> \<not> isPowerOf2_64 resultSlots \<or>
         (case candidate of None \<Rightarrow> False | Some plan \<Rightarrow> pp_vectorElements plan \<ge> maxVectorElements)
      then Inr candidate
      else bindR (searchEnumeratedPacketPlan st op carrier sourceItem sourceSlot sourceSlots resultSlots
                    maxVectorElements
                    (case candidate of None \<Rightarrow> 0 | Some plan \<Rightarrow> pp_vectorElements plan)
                    allowResultPermutation)
        (\<lambda>enumerated. Inr (if enumerated \<noteq> None then enumerated else candidate)))"

definition buildPacketPlan ::
    "sym_store \<Rightarrow> redistribute_op \<Rightarrow> index_map \<Rightarrow> nat \<Rightarrow> nat option \<Rightarrow> bool \<Rightarrow> packet_plan result" where
  "buildPacketPlan st op carrier maxElements waveWidth allowResultPermutation =
     (case im_exprs carrier of
        [sourceBlock, sourceItem, sourceSlot] \<Rightarrow>
          (case getMaxPacketVectorElements (rd_sourceSlots op) (rd_resultSlots op) maxElements of
             None \<Rightarrow> Inl Failure
           | Some maxVectorElements \<Rightarrow>
               let owner = (case waveWidth of
                     Some width \<Rightarrow> composeWithInt sourceItem SymMod (int width)
                   | None \<Rightarrow> sourceItem)
               in bindR (proveInitialPacketPlan st carrier owner sourceItem sourceSlot (rd_sourceSlots op)
                           (rd_resultSlots op) maxVectorElements allowResultPermutation) (\<lambda>candidate.
                  bindR (refineEnumeratedPacketPlan st op carrier sourceItem sourceSlot (rd_sourceSlots op)
                           (rd_resultSlots op) maxVectorElements allowResultPermutation candidate)
                    (\<lambda>refined. case refined of Some plan \<Rightarrow> Inr plan | None \<Rightarrow> Inl Failure)))
      | _ \<Rightarrow> Inl (Unreachable ''redistribution map must carry block, item, and slot''))"

subsection \<open>Group windows\<close>

definition proveGroupWindow ::
    "sym_store \<Rightarrow> index_map \<Rightarrow> sym_expr \<Rightarrow> nat \<Rightarrow> nat \<Rightarrow> (sym_expr \<times> sym_expr) list \<Rightarrow> bool \<Rightarrow>
     group_window option result" where
  "proveGroupWindow st carrier sourceGroup sourceGroups localGroups atItemZero requireItemInvariant =
     (let factor = factorCoordinate sourceGroup localGroups;
          stageCount = (sourceGroups + localGroups - 1) div localGroups;
          reference = st_substituteExpr st (cf_group factor) atItemZero;
          goals = appendFactorProof st sourceGroup factor sourceGroups localGroups @
            (if requireItemInvariant then [equal_pred (cf_group factor) reference] else []);
          window = (\<lambda>stage. \<lparr>gw_stage = stage, gw_local = cf_within factor, gw_localGroups = localGroups,
                             gw_stageCount = stageCount\<rparr>)
      in bindR (st_check st carrier goals) (\<lambda>proven.
           if proven \<noteq> CheckTrue then Inr None
           else if requireItemInvariant
           then bindR (st_simplify st carrier [reference]) (\<lambda>simplified. Inr (Some (window (hd simplified))))
           else Inr (Some (window (cf_group factor)))))"

fun fiberAmong ::
    "sym_store \<Rightarrow> index_map \<Rightarrow> sym_expr \<Rightarrow> nat \<Rightarrow> (sym_expr \<times> sym_expr) list \<Rightarrow> nat list \<Rightarrow>
     group_window option result" where
  "fiberAmong st carrier sourceGroup sourceGroups atItemZero [] =
     Inr (Some \<lparr>gw_stage = SymInt 0, gw_local = sourceGroup, gw_localGroups = sourceGroups, gw_stageCount = 1\<rparr>)"
| "fiberAmong st carrier sourceGroup sourceGroups atItemZero (localGroups # ls) =
     bindR (proveGroupWindow st carrier sourceGroup sourceGroups localGroups atItemZero True) (\<lambda>candidate.
       if candidate \<noteq> None then Inr candidate
       else fiberAmong st carrier sourceGroup sourceGroups atItemZero ls)"

definition findGroupWindowFiber ::
    "sym_store \<Rightarrow> index_map \<Rightarrow> sym_expr \<Rightarrow> nat \<Rightarrow> (sym_expr \<times> sym_expr) list \<Rightarrow> group_window option result" where
  "findGroupWindowFiber st carrier sourceGroup sourceGroups atItemZero =
     fiberAmong st carrier sourceGroup sourceGroups atItemZero [1 ..< sourceGroups]"

definition buildGroupWindow ::
    "sym_store \<Rightarrow> index_map \<Rightarrow> sym_expr \<Rightarrow> nat \<Rightarrow> nat \<Rightarrow> group_window result" where
  "buildGroupWindow st carrier sourceGroup sourceGroups maxLocalGroups =
     (if sourceGroups = 0 \<or> maxLocalGroups = 0 then Inl Failure
      else bindR (getInput carrier kItem) (\<lambda>item.
        let atItemZero = [(in_variable item, SymInt 0)]
        in bindR (findGroupWindowFiber st carrier sourceGroup sourceGroups atItemZero) (\<lambda>fiber.
             case fiber of
               None \<Rightarrow> Inl Failure
             | Some window \<Rightarrow>
                 let localGroups = min (gw_localGroups window) maxLocalGroups
                 in if localGroups = gw_localGroups window then Inr window
                    else bindR (proveGroupWindow st carrier sourceGroup sourceGroups localGroups atItemZero False)
                      (\<lambda>refined. case refined of Some w \<Rightarrow> Inr w | None \<Rightarrow> Inl Failure))))"

end
