(* ===== verification/Redist_Packet_Props.thy ===== *)
theory Redist_Packet_Props
  imports Redist_Packet
begin

unbundle bit_operations_syntax

text \<open>
  What a packet plan promises: slots of the result in one vector come from one source item and one
  vector of the source. The proofs about bits of the slot become statements about slot numbers:
  two slots share a vector exactly when they agree outside the mask.
\<close>

subsection \<open>Masks\<close>

lemma popcount_filter:
  "m < 2 ^ n \<Longrightarrow> length (filter (bit m) [0 ..< n]) = popcount m"
proof (induction n arbitrary: m)
  case 0
  then show ?case by (simp add: popcount.simps [of 0])
next
  case (Suc n)
  have u: "[0 ..< Suc n] = 0 # map Suc [0 ..< n]" by (simp add: map_Suc_upt upt_conv_Cons del: upt_Suc)
  have "filter (bit m) (map Suc [0 ..< n]) = map Suc (filter (bit (m div 2)) [0 ..< n])"
    by (simp add: filter_map comp_def bit_Suc)
  moreover have "length (filter (bit (m div 2)) [0 ..< n]) = popcount (m div 2)"
    using Suc by (intro Suc.IH) simp
  moreover have "popcount m = m mod 2 + popcount (m div 2)"
    by (cases "m = 0") (simp_all add: popcount.simps [of m] popcount.simps [of 0])
  ultimately show ?case unfolding u by (auto simp: bit_0 mod2_eq_if)
qed

lemma Log2_64_power [simp]: "Log2_64 (2 ^ k) = k"
proof -
  have "(2 :: nat) ^ k < 2 ^ bitLength (2 ^ k)" "(2 :: nat) ^ (bitLength (2 ^ k) - 1) \<le> 2 ^ k"
    using bitLength_bounds [of "2 ^ k"] by simp_all
  then have "k < bitLength (2 ^ k)" "bitLength (2 ^ k) - 1 \<le> k" by simp_all
  then show ?thesis unfolding Log2_64_def by linarith
qed

lemma slotBitPairs_zip:
  "set (slotBitPairs m n) =
     {(k, (filter (bit m) [0 ..< n] @ filter (\<lambda>b. \<not> bit m b) [0 ..< n]) ! k) | k. k < n}"
proof -
  have "length (filter (bit m) [0 ..< n] @ filter (\<lambda>b. \<not> bit m b) [0 ..< n]) = n"
    using sum_length_filter_compl [of "bit m" "[0 ..< n]"] by simp
  then show ?thesis unfolding slotBitPairs_def enumerate_eq_zip set_zip
    by (auto intro!: exI)
qed

lemma div_power_eq_iff:
  "(x :: int) div 2 ^ w = y div 2 ^ w \<longleftrightarrow> (\<forall>k \<ge> w. bit x k = bit y k)"
proof -
  have "x div 2 ^ w = y div 2 ^ w \<longleftrightarrow> (\<forall>k. bit (drop_bit w x) k = bit (drop_bit w y) k)"
    by (simp add: bit_eq_iff flip: drop_bit_eq_div)
  also have "\<dots> \<longleftrightarrow> (\<forall>k \<ge> w. bit x k = bit y k)"
    by (simp add: bit_drop_bit_eq) (metis le_add_diff_inverse le_add1)
  finally show ?thesis .
qed

lemma small_bits: "(0 :: int) \<le> x \<Longrightarrow> x < 2 ^ n \<Longrightarrow> bit x b \<Longrightarrow> b < n"
  by (metis bit_take_bit_iff take_bit_int_eq_self)

text \<open>Two slots share a vector exactly when they agree outside the mask.\<close>

lemma packed_group_eq_iff:
  assumes m: "m < 2 ^ n" "popcount m = w"
    and x: "0 \<le> x" "x < 2 ^ n" and y: "0 \<le> y" "y < 2 ^ n"
  shows "logicalToPackedSlot m (2 ^ n) x div 2 ^ w = logicalToPackedSlot m (2 ^ n) y div 2 ^ w \<longleftrightarrow>
    (\<forall>b < n. \<not> bit m b \<longrightarrow> bit x b = bit y b)"
proof (cases "isIdentitySlotPermutation (2 ^ n) m")
  case True
  have two: "isPowerOf2_64 (2 ^ n)"
  proof -
    have "(2 :: nat) ^ n AND (2 ^ n - 1) = 2 ^ n mod 2 ^ n"
      by (metis mask_eq_exp_minus_1 take_bit_eq_mask take_bit_eq_mod)
    then show ?thesis by (simp add: isPowerOf2_64_def)
  qed
  then have "m = 2 ^ w - 1" using True m(2) by (simp add: isIdentitySlotPermutation_def)
  then have b: "bit m b \<longleftrightarrow> b < w" for b by (metis bit_mask_iff mask_eq_exp_minus_1 possible_bit_nat)
  have "(\<forall>k \<ge> w. bit x k = bit y k) \<longleftrightarrow> (\<forall>b < n. \<not> b < w \<longrightarrow> bit x b = bit y b)"
    using small_bits [OF x] small_bits [OF y] by (metis not_le)
  then show ?thesis using True by (simp add: logicalToPackedSlot_def div_power_eq_iff b)
next
  case False
  let ?sel = "filter (bit m) [0 ..< n]" and ?uns = "filter (\<lambda>b. \<not> bit m b) [0 ..< n]"
  have len: "length ?sel = w" "length (?sel @ ?uns) = n"
    using popcount_filter [OF m(1)] m(2) sum_length_filter_compl [of "bit m" "[0 ..< n]"] by simp_all
  have packed: "bit (logicalToPackedSlot m (2 ^ n) z) k \<longleftrightarrow> k < n \<and> bit z ((?sel @ ?uns) ! k)" for z k
  proof -
    have "(l, k) \<in> set (map prod.swap (slotBitPairs m n)) \<longleftrightarrow> k < n \<and> l = (?sel @ ?uns) ! k" for l
      unfolding set_map slotBitPairs_zip by force
    then show ?thesis
      using permutations_moveBits(2) [OF False, of z] by (simp only: bit_moveBits Log2_64_power) blast
  qed
  have "logicalToPackedSlot m (2 ^ n) x div 2 ^ w = logicalToPackedSlot m (2 ^ n) y div 2 ^ w \<longleftrightarrow>
      (\<forall>k. w \<le> k \<and> k < n \<longrightarrow> bit x ((?sel @ ?uns) ! k) = bit y ((?sel @ ?uns) ! k))"
    unfolding div_power_eq_iff packed by blast
  also have "\<dots> \<longleftrightarrow> (\<forall>j < length ?uns. bit x (?uns ! j) = bit y (?uns ! j))"
  proof (rule iffI; intro allI impI)
    fix j assume a: "\<forall>k. w \<le> k \<and> k < n \<longrightarrow> bit x ((?sel @ ?uns) ! k) = bit y ((?sel @ ?uns) ! k)"
      and j: "j < length ?uns"
    have "w + j < n" using j len by (metis length_append nat_add_left_cancel_less)
    moreover have "(?sel @ ?uns) ! (w + j) = ?uns ! j" using len(1) by (metis nth_append_length_plus)
    ultimately show "bit x (?uns ! j) = bit y (?uns ! j)" using a le_add1 by metis
  next
    fix k assume a: "\<forall>j < length ?uns. bit x (?uns ! j) = bit y (?uns ! j)" and k: "w \<le> k \<and> k < n"
    have "(?sel @ ?uns) ! k = ?uns ! (k - w)" using k len(1) by (simp only: nth_append) simp
    moreover have "k - w < length ?uns" using k len by (simp only: length_append) linarith
    ultimately show "bit x ((?sel @ ?uns) ! k) = bit y ((?sel @ ?uns) ! k)" using a by metis
  qed
  also have "\<dots> \<longleftrightarrow> (\<forall>b \<in> set ?uns. bit x b = bit y b)" by (metis in_set_conv_nth)
  also have "\<dots> \<longleftrightarrow> (\<forall>b < n. \<not> bit m b \<longrightarrow> bit x b = bit y b)" by auto
  finally show ?thesis .
qed

text \<open>What no flip of a masked bit changes is the same for all slots that agree outside the mask.\<close>

lemma flip_chain:
  assumes flip: "\<And>z b. z < 2 ^ n \<Longrightarrow> b < n \<Longrightarrow> bit m b \<Longrightarrow> f (z XOR 2 ^ b) = f z"
    and x: "x < 2 ^ n" and y: "y < 2 ^ n"
    and agree: "\<forall>b < n. \<not> bit m b \<longrightarrow> bit x b = bit y b"
  shows "f x = (f (y :: nat) :: 'a)"
proof -
  define z where "z k = take_bit k y OR push_bit k (drop_bit k x)" for k
  have bits: "bit (z k) b = (if b < k then bit y b else bit x b)" for k b
    by (auto simp: z_def bit_or_iff bit_take_bit_iff bit_push_bit_iff bit_drop_bit_eq)
  have below: "z k < 2 ^ n" for k
  proof -
    have "take_bit n (z k) = z k"
      using x y by (intro bit_eqI) (metis bit_take_bit_iff bits take_bit_nat_eq_self_iff)
    then show ?thesis by (metis take_bit_nat_eq_self_iff)
  qed
  have step: "f (z (Suc k)) = f (z k)" if "k < n" for k
  proof (cases "bit x k = bit y k")
    case True
    then have "z (Suc k) = z k" by (intro bit_eqI) (auto simp: bits less_Suc_eq)
    then show ?thesis by simp
  next
    case False
    then have "z (Suc k) = z k XOR 2 ^ k"
      by (intro bit_eqI) (auto simp: bits bit_xor_iff bit_exp_iff less_Suc_eq)
    moreover have "bit m k" using agree that False by blast
    ultimately show ?thesis using flip [OF below that, of k] by simp
  qed
  have "f (z k) = f (z 0)" if "k \<le> n" for k using that step by (induction k) auto
  moreover have "z 0 = x" by (simp add: z_def)
  moreover have "z n = y"
    using y below [of n] x by (intro bit_eqI) (metis bits bit_take_bit_iff take_bit_nat_eq_self)
  ultimately show ?thesis by (metis order_refl)
qed

subsection \<open>What the symbolic store promises\<close>

text \<open>
  Checks answer true only for what holds at every point of the map, substitution is simultaneous,
  simplification keeps the value (the contracts of \<^verbatim>\<open>WaveSymbols.h\<close> and \<^verbatim>\<open>WaveIndexMap.h\<close>).
\<close>

definition soundStore :: "sym_store \<Rightarrow> bool" where
  "soundStore st \<longleftrightarrow>
     (\<forall>carrier goals env. st_check st carrier goals = Inr CheckTrue \<longrightarrow> inDomain carrier env \<longrightarrow>
        list_all (evalPred env) goals) \<and>
     (\<forall>e subs env env'. list_all (\<lambda>(target, _). \<exists>x. target = SymVar x) subs \<longrightarrow>
        (\<forall>x. hasValue env (case map_of subs (SymVar x) of None \<Rightarrow> SymVar x | Some r \<Rightarrow> r) (env' x)) \<longrightarrow>
        evalSym env (st_substituteExpr st e subs) = evalSym env' e) \<and>
     (\<forall>e env. evalSym env (st_simplifyExpr st e) = evalSym env e) \<and>
     (\<forall>carrier es es' env. st_simplify st carrier es = Inr es' \<longrightarrow> inDomain carrier env \<longrightarrow>
        map (evalSym env) es' = map (evalSym env) es)"

lemma sound_check:
  "soundStore st \<Longrightarrow> st_check st carrier goals = Inr CheckTrue \<Longrightarrow> inDomain carrier env \<Longrightarrow>
   list_all (evalPred env) goals"
  unfolding soundStore_def by blast

lemma sound_substitute:
  assumes "soundStore st" and "list_all (\<lambda>(target, _). \<exists>x. target = SymVar x) subs"
    and "\<And>x. hasValue env (case map_of subs (SymVar x) of None \<Rightarrow> SymVar x | Some r \<Rightarrow> r) (env' x)"
  shows "evalSym env (st_substituteExpr st e subs) = evalSym env' e"
  using assms unfolding soundStore_def by blast

lemma sound_simplifyExpr: "soundStore st \<Longrightarrow> evalSym env (st_simplifyExpr st e) = evalSym env e"
  unfolding soundStore_def by blast

lemma sound_simplify:
  "soundStore st \<Longrightarrow> st_simplify st carrier es = Inr es' \<Longrightarrow> inDomain carrier env \<Longrightarrow>
   map (evalSym env) es' = map (evalSym env) es"
  unfolding soundStore_def by blast

lemma substitute_one:
  assumes "soundStore st" and "hasValue env r n"
  shows "evalSym env (st_substituteExpr st e [(SymVar x, r)]) = evalSym (env(x := n)) e"
  by (rule sound_substitute [OF assms(1)]) (use assms(2) in auto)

lemma proves_sound:
  assumes "soundStore st" and "proves st carrier goal = Inr True" and "inDomain carrier env"
  shows "evalPred env goal"
  using assms(2) sound_check [OF assms(1) _ assms(3), of "[goal]"] by (auto simp: proves_def result_simps)

lemma equal_pred_sound: "evalPred env (equal_pred a b) \<Longrightarrow> evalSym env a = evalSym env b"
  by (simp add: equal_pred_def)

lemma getInput_variable: "getInput carrier name = Inr input \<Longrightarrow> in_variable input = SymVar name"
  by (auto simp: getInput_def find_Some_iff split: option.splits)

lemma xor_power:
  "int (n XOR 2 ^ s) = int n + 2 ^ s - 2 * 2 ^ s * (int n div 2 ^ s mod 2)"
proof -
  have "int n div 2 ^ s mod 2 = of_bool (bit (int n) s)"
    by (auto simp: bit_iff_odd odd_iff_mod_2_eq_one)
  moreover have "int (n XOR 2 ^ s) = flip_bit s (int n)"
    by (simp add: of_nat_xor_eq flip_bit_eq_xor push_bit_eq_mult)
  ultimately show ?thesis
    by (cases "bit (int n) s") (simp_all add: flip_bit_eq_if set_bit_eq unset_bit_eq)
qed

lemma toggleCoordinateBit_value:
  assumes "hasValue env v (int n)" and "c = 0 \<or> c = 2 ^ s"
  shows "hasValue env (toggleCoordinateBit v c) (int (n XOR c))"
proof (cases "c = 0")
  case False
  then have c: "c = 2 ^ s" using assms(2) by blast
  have "hasValue env (SymBinary SymSub (composeWithInt v SymAdd (int c))
      (composeWithInt (composeWithInt (floorDiv v (int c)) SymMod 2) SymMul (2 * int c)))
      (int n + int c - int n div int c mod 2 * (2 * int c))"
    by (intro hasValue_rules assms(1))
  then show ?thesis using False c xor_power [of n s]
    by (simp add: toggleCoordinateBit_def Let_def mult.commute)
qed (use assms in \<open>simp add: toggleCoordinateBit_def\<close>)

subsection \<open>The dependencies are sound\<close>

text \<open>
  One item of one block: \<open>env\<close> fixes both, the slot of the result runs; \<open>slotOf\<close> is the source slot.
\<close>

abbreviation atSlot :: "(string \<Rightarrow> int) \<Rightarrow> nat \<Rightarrow> string \<Rightarrow> int" where
  "atSlot env x \<equiv> env(kSlot := int x)"

definition slotRow ::
    "index_map \<Rightarrow> (string \<Rightarrow> int) \<Rightarrow> nat \<Rightarrow> sym_expr \<Rightarrow> (nat \<Rightarrow> nat) \<Rightarrow> bool" where
  "slotRow carrier env resultSlots sourceSlot slotOf \<longleftrightarrow>
     (\<forall>x < resultSlots. inDomain carrier (atSlot env x) \<and>
        hasValue (atSlot env x) sourceSlot (int (slotOf x)))"

definition bitDependsOnly :: "nat \<Rightarrow> nat \<Rightarrow> (nat \<Rightarrow> nat) \<Rightarrow> nat \<Rightarrow> nat \<Rightarrow> bool" where
  "bitDependsOnly resultBits sourceBits slotOf r D \<longleftrightarrow>
     (\<forall>x < 2 ^ resultBits. \<forall>b < sourceBits. \<not> bit D b \<longrightarrow>
        bit (slotOf (x XOR 2 ^ r)) b = bit (slotOf x) b)"

lemma nat_below: "(\<And>b. bit D b \<Longrightarrow> b < n) \<Longrightarrow> (D :: nat) < 2 ^ n"
proof -
  assume "\<And>b. bit D b \<Longrightarrow> b < n"
  then have "take_bit n D = D" by (intro bit_eqI) (auto simp: bit_take_bit_iff)
  then show ?thesis by (metis take_bit_nat_eq_self_iff)
qed

lemma below_bits: "(D :: nat) < 2 ^ n \<Longrightarrow> bit D b \<Longrightarrow> b < n"
  by (metis bit_take_bit_iff take_bit_nat_eq_self_iff)

lemma xor_below: "x < 2 ^ n \<Longrightarrow> r < n \<Longrightarrow> x XOR 2 ^ r < (2 :: nat) ^ n"
  by (rule nat_below) (auto simp: bit_xor_iff bit_exp_iff dest: below_bits)

lemma substitute_flip:
  assumes "soundStore st"
  shows "evalSym (atSlot env x) (st_substituteExpr st e [(SymVar kSlot, composeWithInt (SymVar kSlot) SymXor (2 ^ r))]) =
    evalSym (atSlot env (x XOR 2 ^ r)) e"
proof -
  have "hasValue (atSlot env x) (composeWithInt (SymVar kSlot) SymXor (2 ^ r)) (int x XOR 2 ^ r)"
    using hasValue_withInt(5) [of "atSlot env x" "SymVar kSlot" "int x" "2 ^ r"] by (simp add: hasValue_def)
  then have "hasValue (atSlot env x) (composeWithInt (SymVar kSlot) SymXor (2 ^ r)) (int (x XOR 2 ^ r))"
    by (simp add: of_nat_xor_eq)
  from substitute_one [OF assms this, of e kSlot] show ?thesis by simp
qed

lemma invariant_flip:
  assumes "soundStore st" and "inDomain carrier (atSlot env x)"
    and "isInvariantUnderSubstitution st carrier e
      [(SymVar kSlot, composeWithInt (SymVar kSlot) SymXor (2 ^ r))] = Inr True"
  shows "evalSym (atSlot env (x XOR 2 ^ r)) e = evalSym (atSlot env x) e"
  using equal_pred_sound [OF proves_sound [OF assms(1) _ assms(2)]] assms(3) substitute_flip [OF assms(1)]
  by (simp add: isInvariantUnderSubstitution_def)

lemma hasValue_unique: "hasValue env e m \<Longrightarrow> hasValue env e n \<Longrightarrow> m = n"
  by (simp add: hasValue_def)

lemma specialized_toggle:
  assumes st: "soundStore st" and row: "slotRow carrier env (2 ^ resultBits) sourceSlot slotOf"
    and r: "r < resultBits" and c: "c = 0 \<or> c = 2 ^ s"
    and proven: "proveSpecializedAt st carrier (SymVar kSlot) sourceSlot (2 ^ r) c slots = Inr True"
    and x: "x \<in> set slots" "x < 2 ^ resultBits"
  shows "slotOf (x XOR 2 ^ r) = slotOf x XOR c"
  using proven x(1)
proof (induction slots)
  case (Cons slot slots)
  have at: "evalSym (atSlot env x) (st_substituteExpr st sourceSlot [(SymVar kSlot, SymInt (int y))]) =
      evalSym (atSlot env y) sourceSlot" for y
    using substitute_one [OF st, of "atSlot env x" "SymInt (int y)" "int y" sourceSlot kSlot] by simp
  show ?case
  proof (cases "x = slot")
    case True
    have v: "hasValue (atSlot env y) sourceSlot (int (slotOf y))" if "y < 2 ^ resultBits" for y
      using row that by (simp add: slotRow_def)
    let ?sub = "\<lambda>y. st_substituteExpr st sourceSlot [(SymVar kSlot, SymInt (int y))]"
    have sub: "hasValue (atSlot env x) (?sub y) (int (slotOf y))" if "y < 2 ^ resultBits" for y
      using v [OF that] at [of y] by (simp add: hasValue_def)
    have "proves st carrier (equal_pred (?sub (x XOR 2 ^ r)) (toggleCoordinateBit (?sub x) c)) = Inr True"
      using Cons.prems(1) True by (auto simp: Let_def result_simps split: if_splits)
    moreover have "inDomain carrier (atSlot env x)" using row x(2) by (simp add: slotRow_def)
    ultimately have "evalSym (atSlot env x) (?sub (x XOR 2 ^ r)) = evalSym (atSlot env x) (toggleCoordinateBit (?sub x) c)"
      using equal_pred_sound proves_sound [OF st] by blast
    then show ?thesis
      using sub [OF xor_below [OF x(2) r]] toggleCoordinateBit_value [OF sub [OF x(2)] c] by (simp add: hasValue_def)
  next
    case False
    then show ?thesis using Cons by (auto simp: Let_def result_simps split: if_splits)
  qed
qed simp

lemma direct_toggle:
  assumes st: "soundStore st" and row: "slotRow carrier env (2 ^ resultBits) sourceSlot slotOf"
    and r: "r < resultBits"
    and found: "findSourceToggleAmong st carrier sourceSlot
      (st_substituteExpr st sourceSlot [(SymVar kSlot, composeWithInt (SymVar kSlot) SymXor (2 ^ r))])
      sourceBits resultBits r bs = Inr (Some c)"
    and bs: "set bs \<subseteq> {0 .. sourceBits}"
  shows "(c = 0 \<or> (\<exists>s < sourceBits. c = 2 ^ s)) \<and> (\<forall>x < 2 ^ resultBits. slotOf (x XOR 2 ^ r) = slotOf x XOR c)"
  using found bs
proof (induction bs)
  case (Cons b bs)
  let ?c = "if b = sourceBits then 0 else (2 :: nat) ^ b"
  let ?flip = "st_substituteExpr st sourceSlot [(SymVar kSlot, composeWithInt (SymVar kSlot) SymXor (2 ^ r))]"
  have shape: "?c = 0 \<or> ?c = 2 ^ b" "?c = 0 \<or> (\<exists>s < sourceBits. ?c = 2 ^ s)" using Cons.prems(2) by auto
  have vals: "hasValue (atSlot env y) sourceSlot (int (slotOf y))" "inDomain carrier (atSlot env y)"
    if "y < 2 ^ resultBits" for y using row that by (simp_all add: slotRow_def)
  consider (direct) "proves st carrier (equal_pred ?flip (toggleCoordinateBit sourceSlot ?c)) = Inr True" "c = ?c"
    | (specialized) "proveSpecializedSourceToggle st carrier sourceSlot r resultBits ?c = Inr True" "c = ?c"
    | (later) "findSourceToggleAmong st carrier sourceSlot ?flip sourceBits resultBits r bs = Inr (Some c)"
    using Cons.prems(1) by (auto simp: Let_def result_simps split: if_splits)
  then show ?case
  proof cases
    case direct
    have "slotOf (x XOR 2 ^ r) = slotOf x XOR c" if x: "x < 2 ^ resultBits" for x
    proof -
      have "evalSym (atSlot env x) ?flip = evalSym (atSlot env x) (toggleCoordinateBit sourceSlot ?c)"
        using equal_pred_sound [OF proves_sound [OF st direct(1) vals(2) [OF x]]] .
      then show ?thesis
        using substitute_flip [OF st] vals(1) [OF xor_below [OF x r]]
          toggleCoordinateBit_value [OF vals(1) [OF x] shape(1)] direct(2)
        by (simp add: hasValue_def)
    qed
    then show ?thesis using shape(2) direct(2) by blast
  next
    case specialized
    have "proveSpecializedAt st carrier (SymVar kSlot) sourceSlot (2 ^ r) ?c [0 ..< 2 ^ resultBits] = Inr True"
      using specialized(1) by (auto simp: proveSpecializedSourceToggle_def result_simps getInput_variable)
    then have "\<forall>x < 2 ^ resultBits. slotOf (x XOR 2 ^ r) = slotOf x XOR ?c"
      using specialized_toggle [OF st row r shape(1)] by simp
    then show ?thesis using shape(2) specialized(2) by blast
  next
    case later
    then show ?thesis using Cons.IH Cons.prems(2) by simp
  qed
qed simp

lemma dependent_bits:
  assumes st: "soundStore st" and row: "slotRow carrier env (2 ^ resultBits) sourceSlot slotOf"
    and r: "r < resultBits"
    and found: "dependentSourceBitsAmong st carrier sourceSlot
      [(SymVar kSlot, composeWithInt (SymVar kSlot) SymXor (2 ^ r))] bs D0 = Inr D"
  shows "(\<forall>b. bit D b \<longrightarrow> bit D0 b \<or> b \<in> set bs) \<and> (\<forall>b. bit D0 b \<longrightarrow> bit D b) \<and>
    (\<forall>b \<in> set bs. \<not> bit D b \<longrightarrow> (\<forall>x < 2 ^ resultBits. bit (slotOf (x XOR 2 ^ r)) b = bit (slotOf x) b))"
  using found
proof (induction bs arbitrary: D0)
  case (Cons s bs)
  let ?sub = "[(SymVar kSlot, composeWithInt (SymVar kSlot) SymXor (2 ^ r))]"
  let ?e = "composeWithInt (floorDiv sourceSlot (2 ^ s)) SymMod 2"
  obtain inv where inv: "isInvariantUnderSubstitution st carrier ?e ?sub = Inr inv"
    and rest: "dependentSourceBitsAmong st carrier sourceSlot ?sub bs (if \<not> inv then D0 OR 2 ^ s else D0) = Inr D"
    using Cons.prems by (auto simp: Let_def result_simps factorCoordinate_def)
  have same: "bit (slotOf (x XOR 2 ^ r)) s = bit (slotOf x) s" if inv and x: "x < 2 ^ resultBits" for x
  proof -
    have v: "hasValue (atSlot env y) ?e (int (slotOf y) div 2 ^ s mod 2)" if "y < 2 ^ resultBits" for y
      using row that by (intro hasValue_rules) (simp add: slotRow_def)
    have "evalSym (atSlot env (x XOR 2 ^ r)) ?e = evalSym (atSlot env x) ?e"
      using row x inv \<open>inv\<close> by (intro invariant_flip [OF st]) (simp_all add: slotRow_def)
    then have "int (slotOf (x XOR 2 ^ r)) div 2 ^ s mod 2 = int (slotOf x) div 2 ^ s mod 2"
      using v [OF x] v [OF xor_below [OF x r]] by (simp add: hasValue_def)
    then have "bit (int (slotOf (x XOR 2 ^ r))) s = bit (int (slotOf x)) s"
      by (simp add: bit_iff_odd odd_iff_mod_2_eq_one)
    then show ?thesis by (simp add: bit_of_nat_iff_bit)
  qed
  show ?case
    using Cons.IH [OF rest] same
    by (cases inv) (auto simp: bit_or_iff bit_exp_iff)
qed simp

text \<open>What the analysis keeps: the marked bits leave the owner alone, the source bits are bounded.\<close>

definition soundDependencies ::
    "(string \<Rightarrow> int) \<Rightarrow> sym_expr \<Rightarrow> nat \<Rightarrow> nat \<Rightarrow> (nat \<Rightarrow> nat) \<Rightarrow> packet_bit_dependencies \<Rightarrow> bool" where
  "soundDependencies env owner sourceBits resultBits slotOf dependencies \<longleftrightarrow>
     length (pd_sourceByResultBit dependencies) = resultBits \<and>
     (\<forall>r < resultBits. pd_sourceByResultBit dependencies ! r < 2 ^ sourceBits \<and>
        (bit (pd_ownerInvariant dependencies) r \<longrightarrow>
           (\<forall>x < 2 ^ resultBits. evalSym (atSlot env (x XOR 2 ^ r)) owner = evalSym (atSlot env x) owner) \<and>
           bitDependsOnly resultBits sourceBits slotOf r (pd_sourceByResultBit dependencies ! r)))"

lemma soundDependencies_flips:
  assumes "soundDependencies env owner sourceBits resultBits slotOf deps"
    and "r < resultBits" and "bit (pd_ownerInvariant deps) r" and "x < 2 ^ resultBits"
  shows "evalSym (atSlot env (x XOR 2 ^ r)) owner = evalSym (atSlot env x) owner"
    and "b < sourceBits \<Longrightarrow> \<not> bit (pd_sourceByResultBit deps ! r) b \<Longrightarrow>
      bit (slotOf (x XOR 2 ^ r)) b = bit (slotOf x) b"
proof -
  have "(\<forall>x < 2 ^ resultBits. evalSym (atSlot env (x XOR 2 ^ r)) owner = evalSym (atSlot env x) owner) \<and>
      bitDependsOnly resultBits sourceBits slotOf r (pd_sourceByResultBit deps ! r)"
    using assms(1-3) unfolding soundDependencies_def by blast
  then show "evalSym (atSlot env (x XOR 2 ^ r)) owner = evalSym (atSlot env x) owner"
    "b < sourceBits \<Longrightarrow> \<not> bit (pd_sourceByResultBit deps ! r) b \<Longrightarrow>
      bit (slotOf (x XOR 2 ^ r)) b = bit (slotOf x) b"
    using assms(4) unfolding bitDependsOnly_def by blast+
qed

lemma soundDependencies_append:
  assumes st: "soundStore st" and row: "slotRow carrier env (2 ^ resultBits) sourceSlot slotOf"
    and r: "r < resultBits" and old: "soundDependencies env owner sourceBits resultBits slotOf deps"
    and new: "appendPacketBitDependencies st carrier (SymVar kSlot) owner sourceSlot sourceBits resultBits r deps
      = Inr deps'"
  shows "soundDependencies env owner sourceBits resultBits slotOf deps'"
proof -
  let ?sub = "[(SymVar kSlot, composeWithInt (SymVar kSlot) SymXor (2 ^ r))]"
  obtain inv where inv: "isInvariantUnderSubstitution st carrier owner ?sub = Inr inv"
    using new by (auto simp: appendPacketBitDependencies_def Let_def result_simps)
  show ?thesis
  proof (cases inv)
    case False
    then show ?thesis using new inv old by (simp add: appendPacketBitDependencies_def Let_def)
  next
    case True
    let ?upd = "\<lambda>D. deps\<lparr>pd_ownerInvariant := pd_ownerInvariant deps OR 2 ^ r,
      pd_sourceByResultBit := (pd_sourceByResultBit deps)[r := D]\<rparr>"
    have own: "evalSym (atSlot env (x XOR 2 ^ r)) owner = evalSym (atSlot env x) owner"
      if "x < 2 ^ resultBits" for x
      using row that inv True by (intro invariant_flip [OF st]) (simp_all add: slotRow_def)
    have upd: "soundDependencies env owner sourceBits resultBits slotOf (?upd D)"
      if "D < 2 ^ sourceBits" "bitDependsOnly resultBits sourceBits slotOf r D" for D
      using old own that r by (auto simp: soundDependencies_def nth_list_update bit_or_iff bit_exp_iff)
    obtain direct where direct: "findDirectSourceToggle st carrier sourceSlot (st_substituteExpr st sourceSlot ?sub)
        sourceBits resultBits r = Inr direct"
      using new inv True by (auto simp: appendPacketBitDependencies_def Let_def result_simps)
    show ?thesis
    proof (cases direct)
      case (Some c)
      have c: "c = 0 \<or> (\<exists>s < sourceBits. c = 2 ^ s)"
        and flip: "\<forall>x < 2 ^ resultBits. slotOf (x XOR 2 ^ r) = slotOf x XOR c"
        using direct_toggle [OF st row r, of sourceBits "[0 ..< sourceBits + 1]" c] direct Some
        unfolding findDirectSourceToggle_def by (auto simp: atLeastLessThanSuc_atLeastAtMost simp del: upt_Suc)
      have "c < 2 ^ sourceBits" using c by auto
      moreover have "bitDependsOnly resultBits sourceBits slotOf r c"
        using flip by (simp add: bitDependsOnly_def bit_xor_iff)
      moreover have "deps' = ?upd c"
        using new inv True direct Some by (simp add: appendPacketBitDependencies_def Let_def)
      ultimately show ?thesis using upd by simp
    next
      case None
      obtain D where D: "findDependentSourceBits st carrier sourceSlot sourceBits ?sub = Inr D"
        and d: "deps' = ?upd D"
        using new inv True direct None by (auto simp: appendPacketBitDependencies_def Let_def result_simps)
      have bits: "(\<forall>b. bit D b \<longrightarrow> bit (0 :: nat) b \<or> b \<in> set [0 ..< sourceBits])"
        "\<forall>b \<in> set [0 ..< sourceBits]. \<not> bit D b \<longrightarrow>
          (\<forall>x < 2 ^ resultBits. bit (slotOf (x XOR 2 ^ r)) b = bit (slotOf x) b)"
        using dependent_bits [OF st row r] D unfolding findDependentSourceBits_def by blast+
      have "D < 2 ^ sourceBits" using bits(1) by (intro nat_below) auto
      moreover have "bitDependsOnly resultBits sourceBits slotOf r D" using bits(2) by (simp add: bitDependsOnly_def)
      ultimately show ?thesis using upd d by simp
    qed
  qed
qed

lemma soundDependencies_analyze:
  assumes st: "soundStore st" and row: "slotRow carrier env (2 ^ resultBits) sourceSlot slotOf"
    and a: "analyzePacketBitDependencies st carrier owner sourceSlot sourceBits resultBits = Inr deps"
  shows "soundDependencies env owner sourceBits resultBits slotOf deps"
proof -
  have step: "soundDependencies env owner sourceBits resultBits slotOf deps'"
    if "analyzeResultBits st carrier (SymVar kSlot) owner sourceSlot sourceBits resultBits rs deps0 = Inr deps'"
      and "soundDependencies env owner sourceBits resultBits slotOf deps0" and "set rs \<subseteq> {..< resultBits}"
    for rs deps0 deps'
    using that
  proof (induction rs arbitrary: deps0)
    case (Cons r rs)
    then show ?case using soundDependencies_append [OF st row] by (auto simp: result_simps)
  qed simp
  have "soundDependencies env owner sourceBits resultBits slotOf
      \<lparr>pd_ownerInvariant = 0, pd_sourceByResultBit = replicate resultBits 0\<rparr>"
    by (simp add: soundDependencies_def)
  with step a show ?thesis
    by (fastforce simp: analyzePacketBitDependencies_def result_simps getInput_variable)
qed

text \<open>The mask of the source covers what the bits of the result move.\<close>

lemma addMaskBits_bits:
  "bit (addMaskBits resultMask w also bs m) b \<Longrightarrow> bit m b \<or> b \<in> set bs"
  "bit m b \<Longrightarrow> bit (addMaskBits resultMask w also bs m) b"
proof -
  have "(bit (addMaskBits resultMask w also bs m) b \<longrightarrow> bit m b \<or> b \<in> set bs) \<and>
      (bit m b \<longrightarrow> bit (addMaskBits resultMask w also bs m) b)"
  proof (induction bs arbitrary: m)
    case (Cons c bs)
    let ?m = "if popcount m < w \<and> bit resultMask c = also then m OR 2 ^ c else m"
    have "addMaskBits resultMask w also (c # bs) m = addMaskBits resultMask w also bs ?m"
      by (simp add: addMaskBits_def)
    moreover have "bit ?m b \<Longrightarrow> bit m b \<or> b = c" "bit m b \<Longrightarrow> bit ?m b"
      by (auto simp: bit_or_iff bit_exp_iff split: if_splits)
    ultimately show ?case using Cons.IH [of ?m] by auto
  qed (simp add: addMaskBits_def)
  then show "bit (addMaskBits resultMask w also bs m) b \<Longrightarrow> bit m b \<or> b \<in> set bs"
    "bit m b \<Longrightarrow> bit (addMaskBits resultMask w also bs m) b" by auto
qed

lemma bit_union_fold:
  "bit (fold (\<lambda>b sourceMask. if bit resultMask b then sourceMask OR f b else sourceMask) bs (m :: nat)) k \<longleftrightarrow>
   bit m k \<or> (\<exists>b \<in> set bs. bit resultMask b \<and> bit (f b) k)"
  by (induction bs arbitrary: m) (auto simp: bit_or_iff split: if_splits)

lemma getSourceWithinMask_covers:
  assumes deps: "soundDependencies env owner sourceBits resultBits slotOf deps"
    and mask: "popcount (getSourceWithinMask deps resultMask sourceBits w) = w"
  shows "getSourceWithinMask deps resultMask sourceBits w < 2 ^ sourceBits"
    and "0 < w \<Longrightarrow> r < resultBits \<Longrightarrow> bit resultMask r \<Longrightarrow> bit (pd_sourceByResultBit deps ! r) b \<Longrightarrow>
      bit (getSourceWithinMask deps resultMask sourceBits w) b"
proof -
  let ?u = "fold (\<lambda>b sourceMask. if bit resultMask b then sourceMask OR pd_sourceByResultBit deps ! b
      else sourceMask) [0 ..< length (pd_sourceByResultBit deps)] 0"
  let ?m = "addMaskBits resultMask w False [0 ..< sourceBits] (addMaskBits resultMask w True [0 ..< sourceBits] ?u)"
  have len: "length (pd_sourceByResultBit deps) = resultBits"
    using deps by (simp add: soundDependencies_def)
  have eq: "getSourceWithinMask deps resultMask sourceBits w = (if popcount ?u > w then 0 else ?m)"
    by (simp only: getSourceWithinMask_def Let_def)
  have "?m < 2 ^ sourceBits"
  proof (rule nat_below)
    fix b assume "bit ?m b"
    then have "bit ?u b \<or> b \<in> set [0 ..< sourceBits]" using addMaskBits_bits(1) by blast
    then show "b < sourceBits"
      using deps len below_bits by (auto simp: bit_union_fold soundDependencies_def)
  qed
  then show "getSourceWithinMask deps resultMask sourceBits w < 2 ^ sourceBits" by (simp add: eq)
  assume w: "0 < w" and r: "r < resultBits" "bit resultMask r" and b: "bit (pd_sourceByResultBit deps ! r) b"
  have "bit ?u b" using r b len by (auto simp: bit_union_fold)
  then have "bit ?m b" using addMaskBits_bits(2) by blast
  moreover have "\<not> popcount ?u > w" using mask w by (auto simp: eq popcount.simps [of 0] split: if_splits)
  ultimately show "bit (getSourceWithinMask deps resultMask sourceBits w) b" by (simp add: eq)
qed

subsection \<open>Plans that the searches return\<close>

text \<open>Slots of one vector, and plans whose vectors come from one owner and one vector of the source.\<close>

definition sameVector :: "nat \<Rightarrow> nat \<Rightarrow> nat \<Rightarrow> nat \<Rightarrow> nat \<Rightarrow> bool" where
  "sameVector mask1 slots vectorElements x y \<longleftrightarrow>
     logicalToPackedSlot mask1 slots (int x) div int vectorElements =
     logicalToPackedSlot mask1 slots (int y) div int vectorElements"

definition uniformRow ::
    "packet_plan \<Rightarrow> nat \<Rightarrow> nat \<Rightarrow> (nat \<Rightarrow> 'a) \<Rightarrow> (nat \<Rightarrow> nat) \<Rightarrow> bool" where
  "uniformRow plan sourceSlots resultSlots ownerOf slotOf \<longleftrightarrow>
     (\<forall>x < resultSlots. \<forall>y < resultSlots.
        sameVector (pp_resultWithinMask plan) resultSlots (pp_vectorElements plan) x y \<longrightarrow>
        ownerOf x = ownerOf y \<and>
        sameVector (pp_sourceWithinMask plan) sourceSlots (pp_vectorElements plan) (slotOf x) (slotOf y))"

definition planShape :: "index_map \<Rightarrow> sym_expr \<Rightarrow> sym_expr \<Rightarrow> nat \<Rightarrow> nat \<Rightarrow> packet_plan \<Rightarrow> bool" where
  "planShape carrier sourceItem sourceSlot sourceSlots resultSlots plan \<longleftrightarrow>
     (\<exists>vectorElements sourceMask resultMask partition1.
        buildPacketPartition carrier sourceSlot sourceSlots resultSlots vectorElements sourceMask resultMask
          = Inr partition1 \<and>
        plan = planOf sourceItem partition1 sourceMask resultMask vectorElements sourceSlots resultSlots)"

lemma halvings_powers: "k \<in> set (halvings least (2 ^ n)) \<Longrightarrow> \<exists>j \<le> n. k = 2 ^ j"
proof (induction n)
  case 0
  have "halvings least 0 = []" by (simp add: halvings.simps [of least 0])
  then show ?case using 0 by (simp add: halvings.simps [of least "Suc 0"] split: if_splits)
next
  case (Suc n)
  then consider "k = 2 ^ Suc n" | "k \<in> set (halvings least (2 ^ n))"
    by (auto simp: halvings.simps [of least "2 * 2 ^ n"] split: if_splits)
  then show ?case using Suc.IH by cases (auto intro: le_SucI)
qed

lemma searchWidths_found:
  "searchWidths f ves = Inr (Some plan) \<Longrightarrow> \<exists>ve \<in> set ves. f ve = Inr (Some plan)"
  by (induction ves) (auto simp: result_simps split: if_splits)

lemma provePacketPlan_found:
  assumes "provePacketPlan st carrier sourceItem sourceSlot sourceSlots resultSlots ve sourceMask resultMask
    = Inr (Some plan)"
  shows "\<exists>partition1. buildPacketPartition carrier sourceSlot sourceSlots resultSlots ve sourceMask resultMask
      = Inr partition1 \<and> plan = planOf sourceItem partition1 sourceMask resultMask ve sourceSlots resultSlots"
  using assms by (auto simp: provePacketPlan_def result_simps split: if_splits)

lemma searchMasksAmong_found:
  assumes "searchMasksAmong st carrier sourceItem sourceSlot sourceSlots resultSlots ve deps sourceBits allow masks
    = Inr (Some plan)"
  shows "\<exists>resultMask \<in> set masks. popcount resultMask = Log2_64 ve \<and>
    resultMask AND pd_ownerInvariant deps = resultMask \<and>
    popcount (getSourceWithinMask deps resultMask sourceBits (Log2_64 ve)) = Log2_64 ve \<and>
    provePacketPlan st carrier sourceItem sourceSlot sourceSlots resultSlots ve
      (getSourceWithinMask deps resultMask sourceBits (Log2_64 ve)) resultMask = Inr (Some plan)"
  using assms by (induction masks) (auto simp: Let_def result_simps split: if_splits)

lemma planOf_fields [simp]:
  "pp_sourceItem (planOf si pt sm rm ve ss rs) = si" "pp_sourceWithinMask (planOf si pt sm rm ve ss rs) = sm"
  "pp_resultWithinMask (planOf si pt sm rm ve ss rs) = rm" "pp_vectorElements (planOf si pt sm rm ve ss rs) = ve"
  "pp_sourceGroups (planOf si pt sm rm ve ss rs) = ss div ve"
  "pp_resultGroups (planOf si pt sm rm ve ss rs) = rs div ve"
  "pp_sourceWithin (planOf si pt sm rm ve ss rs) = cf_within (pt_source pt)"
  "pp_sourceGroup (planOf si pt sm rm ve ss rs) = cf_group (pt_source pt)"
  by (simp_all add: planOf_def)

lemma packed_zero_mask: "logicalToPackedSlot 0 slots x = x"
  by (simp add: logicalToPackedSlot_def isIdentitySlotPermutation_def popcount.simps [of 0])

lemma popcount_zero: "popcount m = 0 \<Longrightarrow> m = 0"
proof (induction m rule: popcount.induct)
  case (1 n)
  show ?case
  proof (rule ccontr)
    assume n: "n \<noteq> 0"
    then have "n mod 2 = 0" "popcount (n div 2) = 0" using "1.prems" by (simp_all add: popcount.simps [of n])
    then show False using "1.IH" n by auto
  qed
qed

lemma int_below: "x < 2 ^ n \<Longrightarrow> int x < 2 ^ n"
  by (metis of_nat_less_iff of_nat_numeral of_nat_power)

lemma powerOfTwo_uniform:
  assumes st: "soundStore st" and row: "slotRow carrier env (2 ^ resultBits) sourceSlot slotOf"
    and range: "\<And>x. x < 2 ^ resultBits \<Longrightarrow> slotOf x < 2 ^ sourceBits"
    and found: "searchPowerOfTwoPacketPlan st carrier owner sourceItem sourceSlot (2 ^ sourceBits) (2 ^ resultBits)
      (2 ^ k) allow = Inr (Some plan)"
  shows "planShape carrier sourceItem sourceSlot (2 ^ sourceBits) (2 ^ resultBits) plan \<and>
    (\<exists>j \<le> k. pp_vectorElements plan = 2 ^ j) \<and>
    uniformRow plan (2 ^ sourceBits) (2 ^ resultBits) (\<lambda>x. evalSym (atSlot env x) owner) slotOf"
proof -
  obtain deps where deps: "analyzePacketBitDependencies st carrier owner sourceSlot sourceBits resultBits = Inr deps"
    and w: "searchWidths (\<lambda>ve. searchPacketPlanMasks st carrier sourceItem sourceSlot (2 ^ sourceBits)
      (2 ^ resultBits) ve deps sourceBits resultBits allow) (halvings 0 (2 ^ k)) = Inr (Some plan)"
    using found unfolding searchPowerOfTwoPacketPlan_def Let_def Log2_64_power bindR_eq_Inr by blast
  obtain ve where ve: "ve \<in> set (halvings 0 (2 ^ k))"
    and m: "searchPacketPlanMasks st carrier sourceItem sourceSlot (2 ^ sourceBits) (2 ^ resultBits) ve deps
      sourceBits resultBits allow = Inr (Some plan)"
    using searchWidths_found [OF w] by blast
  note good = soundDependencies_analyze [OF st row deps]
  obtain j where j: "ve = 2 ^ j" "j \<le> k" using halvings_powers [OF ve] by blast
  let ?sm = "\<lambda>rm. getSourceWithinMask deps rm sourceBits j"
  obtain rm where rm: "rm < 2 ^ resultBits" "popcount rm = j" "rm AND pd_ownerInvariant deps = rm"
    and sm: "popcount (?sm rm) = j"
    and p: "provePacketPlan st carrier sourceItem sourceSlot (2 ^ sourceBits) (2 ^ resultBits) ve (?sm rm) rm
      = Inr (Some plan)"
    using searchMasksAmong_found [OF m [unfolded searchPacketPlanMasks_def]]
    unfolding j Log2_64_power by auto
  obtain pt where pt: "buildPacketPartition carrier sourceSlot (2 ^ sourceBits) (2 ^ resultBits) ve (?sm rm) rm = Inr pt"
    and plan: "plan = planOf sourceItem pt (?sm rm) rm ve (2 ^ sourceBits) (2 ^ resultBits)"
    using provePacketPlan_found [OF p] by blast
  have own: "bit (pd_ownerInvariant deps) r" if "bit rm r" for r
  proof -
    have "bit (rm AND pd_ownerInvariant deps) r" using that unfolding rm(3) .
    then show ?thesis by (simp only: bit_and_iff)
  qed
  have owner_flip: "evalSym (atSlot env (z XOR 2 ^ b)) owner = evalSym (atSlot env z) owner"
    if "z < 2 ^ resultBits" "b < resultBits" "bit rm b" for z b :: nat
    by (rule soundDependencies_flips(1) [OF good that(2) own [OF that(3)] that(1)])
  have "evalSym (atSlot env x) owner = evalSym (atSlot env y) owner \<and>
      sameVector (?sm rm) (2 ^ sourceBits) ve (slotOf x) (slotOf y)"
    if x: "x < 2 ^ resultBits" and y: "y < 2 ^ resultBits" and same: "sameVector rm (2 ^ resultBits) ve x y" for x y
  proof -
    have xy: "0 \<le> int x" "int x < 2 ^ resultBits" "0 \<le> int y" "int y < 2 ^ resultBits"
      using int_below x y by simp_all
    have agree: "\<forall>b < resultBits. \<not> bit rm b \<longrightarrow> bit x b = bit y b"
      using same packed_group_eq_iff [OF rm(1,2) xy] by (simp add: sameVector_def j bit_of_nat_iff_bit)
    have o: "evalSym (atSlot env x) owner = evalSym (atSlot env y) owner"
      by (rule flip_chain [where f = "\<lambda>x. evalSym (atSlot env x) owner", OF owner_flip x y agree])
    have "sameVector (?sm rm) (2 ^ sourceBits) ve (slotOf x) (slotOf y)"
    proof (cases "j = 0")
      case True
      have z: "rm = 0" "?sm rm = 0"
        using popcount_zero [OF rm(2) [unfolded True]] popcount_zero [OF sm [unfolded True]] True by simp_all
      have "x = y" using same unfolding sameVector_def z j(1) True packed_zero_mask by simp
      then show ?thesis by (simp add: sameVector_def)
    next
      case False
      have b: "bit (slotOf x) b = bit (slotOf y) b" if b: "b < sourceBits" "\<not> bit (?sm rm) b" for b
      proof (rule flip_chain [where f = "\<lambda>x. bit (slotOf x) b", OF _ x y agree])
        fix z r :: nat assume z: "z < 2 ^ resultBits" "r < resultBits" "bit rm r"
        then have "\<not> bit (pd_sourceByResultBit deps ! r) b"
          using getSourceWithinMask_covers(2) [OF good sm] False b(2) by blast
        then show "bit (slotOf (z XOR 2 ^ r)) b = bit (slotOf z) b"
          by (rule soundDependencies_flips(2) [OF good z(2) own [OF z(3)] z(1) b(1)])
      qed
      have r: "0 \<le> int (slotOf z)" "int (slotOf z) < 2 ^ sourceBits" if "z < 2 ^ resultBits" for z
        using int_below [OF range [OF that]] by simp_all
      show ?thesis
        using packed_group_eq_iff [OF getSourceWithinMask_covers(1) [OF good sm] sm r [OF x] r [OF y]] b
        by (simp add: sameVector_def j bit_of_nat_iff_bit)
    qed
    with o show ?thesis by blast
  qed
  then show ?thesis using pt plan j by (auto simp: uniformRow_def planShape_def)
qed

subsection \<open>Enumerated plans\<close>

lemma nth_concat_blocks:
  assumes "\<And>x. x \<in> set xs \<Longrightarrow> length (f x) = n" and "i < length xs" and "j < n"
  shows "concat (map f xs) ! (i * n + j) = f (xs ! i) ! j"
  using assms
proof (induction xs arbitrary: i)
  case (Cons x xs)
  show ?case
  proof (cases i)
    case 0
    then show ?thesis using Cons.prems by (simp add: nth_append)
  next
    case (Suc i')
    then show ?thesis using Cons.IH [of i'] Cons.prems by (simp add: nth_append)
  qed
qed simp

lemma length_concat_blocks:
  "(\<And>x. x \<in> set xs \<Longrightarrow> length (f x) = n) \<Longrightarrow> length (concat (map f xs)) = length xs * n"
  by (induction xs) auto

lemma nth_points:
  assumes "b < blocks" and "i < items" and "s < slots"
  defines "pts \<equiv> concat (map (\<lambda>block. concat (map (\<lambda>item. map (\<lambda>slot. (block, item, slot)) [0 ..< slots])
      [0 ..< items])) [0 ..< blocks])"
  shows "pts ! ((b * items + i) * slots + s) = (b, i, s)" and "(b * items + i) * slots + s < length pts"
proof -
  let ?row = "\<lambda>block item. map (\<lambda>slot. (block, item, slot)) [0 ..< slots]"
  let ?block = "\<lambda>block. concat (map (?row block) [0 ..< items])"
  have len: "length (?block block) = items * slots" for block
    using length_concat_blocks [of "[0 ..< items]" "?row block" slots] by simp
  have "i * slots + s < Suc i * slots" using assms(3) by simp
  also have "\<dots> \<le> items * slots" using assms(2) by (intro mult_le_mono1) simp
  finally have j: "i * slots + s < items * slots" .
  have eq: "(b * items + i) * slots + s = b * (items * slots) + (i * slots + s)"
    by (simp add: algebra_simps)
  have "pts ! (b * (items * slots) + (i * slots + s)) = ?block ([0 ..< blocks] ! b) ! (i * slots + s)"
    unfolding pts_def by (rule nth_concat_blocks [OF len]) (use assms(1) j in simp_all)
  also have "\<dots> = ?row b ([0 ..< items] ! i) ! s"
    using assms(1) nth_concat_blocks [of "[0 ..< items]" "?row b" slots i s] assms(2,3) by simp
  finally show "pts ! ((b * items + i) * slots + s) = (b, i, s)" unfolding eq using assms(2,3) by simp
  have "length pts = blocks * (items * slots)"
    unfolding pts_def using length_concat_blocks [of "[0 ..< blocks]" ?block "items * slots", OF len] by simp
  moreover have "b * (items * slots) + (i * slots + s) < Suc b * (items * slots)" using j by simp
  moreover have "\<dots> \<le> blocks * (items * slots)" using assms(1) by (intro mult_le_mono1) simp
  ultimately show "(b * items + i) * slots + s < length pts" unfolding eq by linarith
qed

lemma evaluatePacketCoordinate_value:
  assumes st: "soundStore st" and v: "evaluatePacketCoordinate st carrier e b i x = Inr v"
    and env: "env kBlock = int b" "env kItem = int i"
  shows "hasValue (atSlot env x) e v"
proof -
  let ?subs = "[(SymVar kBlock, SymInt (int b)), (SymVar kItem, SymInt (int i)), (SymVar kSlot, SymInt (int x))]"
  have lit: "getIntegerLiteralValue (st_simplifyExpr st (st_substituteExpr st e ?subs)) = Some v"
    using v by (auto simp: evaluatePacketCoordinate_def result_simps getInput_variable Let_def split: option.splits)
  have names: "kBlock \<noteq> kItem" "kBlock \<noteq> kSlot" "kItem \<noteq> kSlot" by (simp_all add: kBlock_def kItem_def kSlot_def)
  have "evalSym env (st_substituteExpr st e ?subs) = evalSym (atSlot env x) e"
  proof (rule sound_substitute [OF st])
    fix y
    show "hasValue env (case map_of ?subs (SymVar y) of None \<Rightarrow> SymVar y | Some r \<Rightarrow> r) ((atSlot env x) y)"
      using env names by auto
  qed simp
  moreover have "evalSym env (st_simplifyExpr st (st_substituteExpr st e ?subs)) = of_int v"
    using lit by (cases "st_simplifyExpr st (st_substituteExpr st e ?subs)") auto
  ultimately show ?thesis by (simp add: sound_simplifyExpr [OF st] hasValue_def)
qed

lemma enumerated_value:
  assumes st: "soundStore st"
    and points: "enumeratePacketPoints st carrier sourceItem sourceSlot blocks items slots = Inr points"
    and "b < blocks" and "i < items" and "x < slots" and env: "env kBlock = int b" "env kItem = int i"
  shows "hasValue (atSlot env x) sourceItem (ep_sourceItem (points ! ((b * items + i) * slots + x)))"
    and "hasValue (atSlot env x) sourceSlot (ep_sourceSlot (points ! ((b * items + i) * slots + x)))"
proof -
  note nth = nth_points [OF assms(3-5)]
  have "bindR (evaluatePacketCoordinate st carrier sourceItem b i x) (\<lambda>mappedItem.
      bindR (evaluatePacketCoordinate st carrier sourceSlot b i x) (\<lambda>mappedSlot.
        Inr \<lparr>ep_sourceItem = mappedItem, ep_sourceSlot = mappedSlot\<rparr>))
      = Inr (points ! ((b * items + i) * slots + x))"
    using collectR_nth(2) [OF points [unfolded enumeratePacketPoints_def] nth(2)] unfolding nth(1) by simp
  then obtain mi ms where "evaluatePacketCoordinate st carrier sourceItem b i x = Inr mi"
    "evaluatePacketCoordinate st carrier sourceSlot b i x = Inr ms"
    "points ! ((b * items + i) * slots + x) = \<lparr>ep_sourceItem = mi, ep_sourceSlot = ms\<rparr>"
    by (auto simp: result_simps)
  then show "hasValue (atSlot env x) sourceItem (ep_sourceItem (points ! ((b * items + i) * slots + x)))"
    "hasValue (atSlot env x) sourceSlot (ep_sourceSlot (points ! ((b * items + i) * slots + x)))"
    using evaluatePacketCoordinate_value [OF st _ env] by auto
qed

text \<open>The vector of a slot is checked against the first slot of that vector.\<close>

lemma supportsVector_slot:
  assumes s: "supportsVector points base sourceSlots slots ve sourceMask resultMask (k * ve)"
    and x: "x < slots" and k: "logicalToPackedSlot resultMask slots (int x) div int ve = int k" and ve: "0 < ve"
  defines "first \<equiv> points ! (base + nat (packedToLogicalSlot resultMask slots (int (k * ve))))"
  shows "ep_sourceItem (points ! (base + x)) = ep_sourceItem first \<and>
    logicalToPackedSlot sourceMask sourceSlots (ep_sourceSlot (points ! (base + x))) sdiv int ve =
    logicalToPackedSlot sourceMask sourceSlots (ep_sourceSlot first) sdiv int ve"
proof -
  let ?p = "logicalToPackedSlot resultMask slots (int x)"
  define off where "off = nat (?p mod int ve)"
  have p: "?p = int (k * ve + off)"
    using k ve div_mult_mod_eq [of ?p "int ve"] by (simp add: off_def)
  have again: "nat (packedToLogicalSlot resultMask slots (int (k * ve + off))) = x"
    using slot_roundtrip(2) [of "int x" slots resultMask] x unfolding p [symmetric] by simp
  have "off < ve" using ve by (simp add: off_def nat_less_iff)
  then show ?thesis
  proof (cases "off = 0")
    case True
    then show ?thesis using again by (simp add: first_def)
  next
    case False
    then have "off \<in> set [1 ..< ve]" using \<open>off < ve\<close> by simp
    then show ?thesis
      using s again by (auto simp: supportsVector_def list_all_iff first_def Let_def)
  qed
qed

lemma enumerated_uniform:
  assumes st: "soundStore st"
    and points: "enumeratePacketPoints st carrier sourceItem sourceSlot blocks items (2 ^ resultBits) = Inr points"
    and b: "b < blocks" "i < items" and env: "env kBlock = int b" "env kItem = int i"
    and row: "slotRow carrier env (2 ^ resultBits) sourceSlot slotOf"
    and item: "\<And>x. x < 2 ^ resultBits \<Longrightarrow> hasValue (atSlot env x) sourceItem (itemOf x)"
    and range: "\<And>x. x < 2 ^ resultBits \<Longrightarrow> slotOf x < 2 ^ sourceBits"
    and found: "searchEnumeratedPacketMasks carrier points sourceItem sourceSlot blocks items (2 ^ sourceBits)
      (2 ^ resultBits) (2 ^ k) least allow = Inr (Some plan)" and k: "k \<le> resultBits"
  shows "planShape carrier sourceItem sourceSlot (2 ^ sourceBits) (2 ^ resultBits) plan \<and>
    (\<exists>j \<le> k. pp_vectorElements plan = 2 ^ j) \<and>
    uniformRow plan (2 ^ sourceBits) (2 ^ resultBits) itemOf slotOf"
proof -
  obtain ve where ve: "ve \<in> set (halvings least (2 ^ k))"
    and f: "(case find (\<lambda>(resultMask, sourceMask).
              supportsEnumeratedPacket points blocks items (2 ^ sourceBits) (2 ^ resultBits) ve sourceMask
                resultMask) (enumeratedMasks sourceBits resultBits ve allow) of
         None \<Rightarrow> Inr None
       | Some (resultMask, sourceMask) \<Rightarrow>
           bindR (buildPacketPartition carrier sourceSlot (2 ^ sourceBits) (2 ^ resultBits) ve sourceMask
                    resultMask) (\<lambda>partition1.
             Inr (Some (planOf sourceItem partition1 sourceMask resultMask ve (2 ^ sourceBits)
                          (2 ^ resultBits))))) = Inr (Some plan)"
    using searchWidths_found [OF found [unfolded searchEnumeratedPacketMasks_def]] unfolding Log2_64_power by blast
  obtain j where j: "ve = 2 ^ j" "j \<le> k" using halvings_powers [OF ve] by blast
  obtain rm sm pt where s: "supportsEnumeratedPacket points blocks items (2 ^ sourceBits) (2 ^ resultBits) ve sm rm"
    and pt: "buildPacketPartition carrier sourceSlot (2 ^ sourceBits) (2 ^ resultBits) ve sm rm = Inr pt"
    and plan: "plan = planOf sourceItem pt sm rm ve (2 ^ sourceBits) (2 ^ resultBits)"
    using f by (auto simp: find_Some_iff result_simps split: option.splits)
  have vpos: "0 < ve" by (simp add: j)
  have width: "(2 ^ resultBits + ve - 1) div ve = 2 ^ resultBits div ve"
  proof -
    have "ve dvd 2 ^ resultBits" using j k by (simp add: le_imp_power_dvd)
    then obtain q where q: "2 ^ resultBits = ve * q" by blast
    then show ?thesis using vpos by (simp add: div_nat_eqI)
  qed
  let ?base = "(b * items + i) * 2 ^ resultBits"
  have vector: "supportsVector points ?base (2 ^ sourceBits) (2 ^ resultBits) ve sm rm (v * ve)"
    if "v < 2 ^ resultBits div ve" for v
    using s b that unfolding supportsEnumeratedPacket_def width by (auto simp: list_all_iff Let_def)
  have val: "ep_sourceItem (points ! (?base + x)) = itemOf x"
    "ep_sourceSlot (points ! (?base + x)) = int (slotOf x)" if x: "x < 2 ^ resultBits" for x
    using enumerated_value [OF st points b x env] item [OF x] row x
    by (auto simp: slotRow_def intro: hasValue_unique)
  have "itemOf x = itemOf y \<and> sameVector sm (2 ^ sourceBits) ve (slotOf x) (slotOf y)"
    if x: "x < 2 ^ resultBits" and y: "y < 2 ^ resultBits" and same: "sameVector rm (2 ^ resultBits) ve x y" for x y
  proof -
    let ?p = "logicalToPackedSlot rm (2 ^ resultBits) (int x)"
    define v where "v = nat (?p div int ve)"
    have p: "0 \<le> ?p" "?p < int (2 ^ resultBits)"
      using slot_roundtrip(4) [of "int x" "2 ^ resultBits" rm] x by (simp_all add: int_below)
    have vx: "?p div int ve = int v" using p(1) vpos by (simp add: v_def pos_imp_zdiv_nonneg_iff)
    have vy: "logicalToPackedSlot rm (2 ^ resultBits) (int y) div int ve = int v"
      using same vx by (simp add: sameVector_def)
    have "?p div int ve < int (2 ^ resultBits) div int ve"
    proof -
      have "ve dvd 2 ^ resultBits" using j k by (simp add: le_imp_power_dvd)
      then obtain q where q: "2 ^ resultBits = ve * q" by blast
      have "?p < int q * int ve" using p(2) unfolding q by (simp add: mult.commute)
      moreover have "?p div int ve * int ve \<le> ?p"
        using div_mult_mod_eq [of ?p "int ve"] pos_mod_sign [of "int ve" ?p] vpos by linarith
      ultimately have "?p div int ve < int q"
        using mult_less_cancel_right_pos [of "int ve" "?p div int ve" "int q"] vpos by linarith
      then show ?thesis unfolding q using vpos by simp
    qed
    then have "v < 2 ^ resultBits div ve" unfolding vx by (metis of_nat_less_iff zdiv_int)
    note sv = supportsVector_slot [OF vector [OF this]]
    have "itemOf x = itemOf y \<and>
        logicalToPackedSlot sm (2 ^ sourceBits) (int (slotOf x)) sdiv int ve =
        logicalToPackedSlot sm (2 ^ sourceBits) (int (slotOf y)) sdiv int ve"
      using sv [OF x vx vpos] sv [OF y vy vpos] val [OF x] val [OF y] by simp
    moreover have "0 \<le> logicalToPackedSlot sm (2 ^ sourceBits) (int (slotOf z))" if "z < 2 ^ resultBits" for z
      using slot_roundtrip(4) [of "int (slotOf z)" "2 ^ sourceBits" sm] range [OF that] by (simp add: int_below)
    moreover have "0 \<le> a \<Longrightarrow> a sdiv int ve = a div int ve" for a
      using vpos by (simp add: signed_divide_int_def sgn_if)
    ultimately show ?thesis using x y by (simp add: sameVector_def)
  qed
  then show ?thesis using pt plan j by (auto simp: uniformRow_def planShape_def)
qed

subsection \<open>The plan\<close>

text \<open>The widest vector is the greatest power of two within the limit; the rounds are enough.\<close>

lemma doubleUpTo_power:
  "2 ^ a \<le> limit \<Longrightarrow> \<exists>k. doubleUpTo fuel limit (2 ^ a) = 2 ^ k \<and> 2 ^ k \<le> limit"
proof (induction fuel arbitrary: a)
  case (Suc fuel)
  show ?case
  proof (cases "(2 :: nat) ^ a \<le> limit div 2")
    case True
    then have "2 ^ Suc a \<le> limit" by simp
    from Suc.IH [OF this] show ?thesis using True by (simp add: mult.commute)
  next
    case False
    then show ?thesis using Suc.prems by auto
  qed
qed auto

lemma doubleUpTo_greatest:
  "limit < v * 2 ^ Suc fuel \<Longrightarrow> limit < 2 * doubleUpTo fuel limit v"
proof (induction fuel arbitrary: v)
  case (Suc fuel)
  show ?case
  proof (cases "v \<le> limit div 2")
    case True
    then show ?thesis using Suc.IH [of "v * 2"] Suc.prems by (simp add: mult.assoc mult.left_commute)
  next
    case False
    then show ?thesis by simp
  qed
qed simp

lemma getMaxPacketVectorElements_greatest:
  assumes "getMaxPacketVectorElements sourceSlots resultSlots maxElements = Some m"
  shows "\<exists>k. m = 2 ^ k" and "m \<le> min sourceSlots (min resultSlots maxElements)"
    and "min sourceSlots (min resultSlots maxElements) < 2 * m"
proof -
  define limit where "limit = min sourceSlots (min resultSlots maxElements)"
  have m: "m = doubleUpTo limit limit 1" "1 \<le> limit"
    using assms by (auto simp: getMaxPacketVectorElements_def limit_def Let_def split: if_splits)
  show "\<exists>k. m = 2 ^ k" "m \<le> min sourceSlots (min resultSlots maxElements)"
    using doubleUpTo_power [of 0 limit limit] m unfolding limit_def [symmetric] by auto
  have "limit < 1 * 2 ^ Suc limit" unfolding power_Suc mult_1 using less_exp [of limit] by linarith
  from doubleUpTo_greatest [OF this]
  show "min sourceSlots (min resultSlots maxElements) < 2 * m" unfolding limit_def [symmetric] m(1) .
qed

lemma uniformRow_mono:
  "uniformRow plan sourceSlots resultSlots f slotOf \<Longrightarrow>
   (\<And>x y. x < resultSlots \<Longrightarrow> y < resultSlots \<Longrightarrow> f x = f y \<Longrightarrow> g x = g y) \<Longrightarrow>
   uniformRow plan sourceSlots resultSlots g slotOf"
  unfolding uniformRow_def by blast

definition ownerOf :: "nat option \<Rightarrow> int \<Rightarrow> int" where
  "ownerOf waveWidth item = (case waveWidth of None \<Rightarrow> item | Some width \<Rightarrow> item mod int width)"

lemma buildPacketPlan_uniform:
  assumes st: "soundStore st" and exprs: "im_exprs carrier = [sourceBlock, sourceItem, sourceSlot]"
    and plan: "buildPacketPlan st op carrier maxElements waveWidth allow = Inr plan"
    and b: "b < rd_blocks op" "i < rd_items op" and env: "env kBlock = int b" "env kItem = int i"
    and row: "slotRow carrier env (rd_resultSlots op) sourceSlot slotOf"
    and item: "\<And>x. x < rd_resultSlots op \<Longrightarrow> hasValue (atSlot env x) sourceItem (itemOf x)"
    and range: "\<And>x. x < rd_resultSlots op \<Longrightarrow> slotOf x < rd_sourceSlots op"
  shows "planShape carrier sourceItem sourceSlot (rd_sourceSlots op) (rd_resultSlots op) plan \<and>
    (\<exists>j. pp_vectorElements plan = 2 ^ j) \<and>
    (isPowerOf2_64 (rd_sourceSlots op) \<and> isPowerOf2_64 (rd_resultSlots op) \<or> pp_vectorElements plan = 1) \<and>
    pp_vectorElements plan \<le> min (rd_sourceSlots op) (min (rd_resultSlots op) maxElements) \<and>
    uniformRow plan (rd_sourceSlots op) (rd_resultSlots op) (\<lambda>x. ownerOf waveWidth (itemOf x)) slotOf"
proof -
  let ?S = "rd_sourceSlots op" and ?R = "rd_resultSlots op"
  let ?owner = "case waveWidth of Some width \<Rightarrow> composeWithInt sourceItem SymMod (int width) | None \<Rightarrow> sourceItem"
  let ?limit = "min ?S (min ?R maxElements)"
  obtain m candidate where max: "getMaxPacketVectorElements ?S ?R maxElements = Some m"
    and c: "proveInitialPacketPlan st carrier ?owner sourceItem sourceSlot ?S ?R m allow = Inr candidate"
    and refine: "refineEnumeratedPacketPlan st op carrier sourceItem sourceSlot ?S ?R m allow candidate
      = Inr (Some plan)"
    using plan by (auto simp: buildPacketPlan_def exprs Let_def result_simps split: option.splits)
  note greatest = getMaxPacketVectorElements_greatest [OF max]
  obtain k where k: "m = 2 ^ k" using greatest(1) by blast
  have bound: "(2 :: nat) ^ j \<le> ?limit" if "j \<le> k" for j
    using greatest(2) k that power_increasing [of j k "2 :: nat"] by linarith
  have owner: "hasValue (atSlot env x) ?owner (ownerOf waveWidth (itemOf x))" if "x < ?R" for x
    using item [OF that] by (auto simp: ownerOf_def intro: hasValue_rules split: option.split)
  let ?ok = "\<lambda>p. planShape carrier sourceItem sourceSlot ?S ?R p \<and> (\<exists>j. pp_vectorElements p = 2 ^ j) \<and>
    (isPowerOf2_64 ?S \<and> isPowerOf2_64 ?R \<or> pp_vectorElements p = 1) \<and> pp_vectorElements p \<le> ?limit \<and>
    uniformRow p ?S ?R (\<lambda>x. ownerOf waveWidth (itemOf x)) slotOf"
  have powers: "?ok p" if two: "isPowerOf2_64 ?S" "isPowerOf2_64 ?R"
    and found: "searchPowerOfTwoPacketPlan st carrier ?owner sourceItem sourceSlot ?S ?R m allow = Inr (Some p)" for p
  proof -
    obtain sb rb where S: "?S = 2 ^ sb" and R: "?R = 2 ^ rb" using two power_of_two_slots by blast
    have u: "planShape carrier sourceItem sourceSlot ?S ?R p \<and> (\<exists>j \<le> k. pp_vectorElements p = 2 ^ j) \<and>
        uniformRow p ?S ?R (\<lambda>x. evalSym (atSlot env x) ?owner) slotOf"
      using powerOfTwo_uniform [OF st row [unfolded R] range [unfolded R S] found [unfolded S R k]]
      unfolding S R by blast
    have "uniformRow p ?S ?R (\<lambda>x. ownerOf waveWidth (itemOf x)) slotOf"
      by (rule uniformRow_mono [OF conjunct2 [OF conjunct2 [OF u]]]) (use owner in \<open>simp add: hasValue_def\<close>)
    then show ?thesis using u two bound by metis
  qed
  have initial: "?ok p" if "candidate = Some p" for p
  proof (cases "isPowerOf2_64 ?S \<and> isPowerOf2_64 ?R")
    case True
    then show ?thesis using c that powers by (simp add: proveInitialPacketPlan_def)
  next
    case False
    then have "provePacketPlan st carrier sourceItem sourceSlot ?S ?R 1 0 0 = Inr (Some p)"
      using c that by (simp add: proveInitialPacketPlan_def split: if_splits)
    then obtain pt where pt: "buildPacketPartition carrier sourceSlot ?S ?R 1 0 0 = Inr pt"
      and p: "p = planOf sourceItem pt 0 0 1 ?S ?R" using provePacketPlan_found by blast
    have "uniformRow p ?S ?R (\<lambda>x. ownerOf waveWidth (itemOf x)) slotOf"
      by (auto simp: uniformRow_def p sameVector_def packed_zero_mask)
    moreover have "(1 :: nat) \<le> ?limit" using bound [of 0] by simp
    ultimately show ?thesis using pt p unfolding planShape_def by (metis planOf_fields(4) power_0)
  qed
  show ?thesis
  proof (cases "candidate = Some plan")
    case True
    then show ?thesis by (rule initial)
  next
    case False
    then obtain least where two: "isPowerOf2_64 ?S" "isPowerOf2_64 ?R"
      and e: "searchEnumeratedPacketPlan st op carrier sourceItem sourceSlot ?S ?R m least allow = Inr (Some plan)"
      using refine by (auto simp: refineEnumeratedPacketPlan_def result_simps split: if_splits)
    obtain sb rb where S: "?S = 2 ^ sb" and R: "?R = 2 ^ rb" using two power_of_two_slots by blast
    obtain points where points: "enumeratePacketPoints st carrier sourceItem sourceSlot (rd_blocks op) (rd_items op) ?R
        = Inr points"
      and f: "searchEnumeratedPacketMasks carrier points sourceItem sourceSlot (rd_blocks op) (rd_items op) ?S ?R m
        least allow = Inr (Some plan)"
      using e by (auto simp: searchEnumeratedPacketPlan_def Let_def result_simps split: option.splits if_splits)
    have "(2 :: nat) ^ k \<le> 2 ^ rb" using bound [of k] R by simp
    then have "k \<le> rb" by simp
    then have u: "planShape carrier sourceItem sourceSlot ?S ?R plan \<and> (\<exists>j \<le> k. pp_vectorElements plan = 2 ^ j) \<and>
        uniformRow plan ?S ?R itemOf slotOf"
      using enumerated_uniform [OF st points [unfolded R] b env row [unfolded R] item [unfolded R]
          range [unfolded R S] f [unfolded S R k]] unfolding S R by blast
    have "uniformRow plan ?S ?R (\<lambda>x. ownerOf waveWidth (itemOf x)) slotOf"
      by (rule uniformRow_mono [OF conjunct2 [OF conjunct2 [OF u]]]) simp
    then show ?thesis using u two bound by metis
  qed
qed

lemma plan_counts:
  assumes "planShape carrier sourceItem sourceSlot sourceSlots resultSlots plan"
  shows "pp_sourceItem plan = sourceItem"
    and "pp_sourceGroups plan = sourceSlots div pp_vectorElements plan"
    and "pp_resultGroups plan = resultSlots div pp_vectorElements plan"
  using assms by (auto simp: planShape_def)

text \<open>The expressions of a plan: the vector of the packed source slot, and the place in it.\<close>

lemma plan_coordinates:
  assumes "planShape carrier sourceItem sourceSlot sourceSlots resultSlots plan"
    and "hasValue env sourceSlot n"
  shows "hasValue env (pp_sourceGroup plan)
      (logicalToPackedSlot (pp_sourceWithinMask plan) sourceSlots n div int (pp_vectorElements plan))"
    and "hasValue env (pp_sourceWithin plan)
      (logicalToPackedSlot (pp_sourceWithinMask plan) sourceSlots n mod int (pp_vectorElements plan))"
  using assms composeSlotPermutation_value [OF assms(2), of sourceSlots _ False]
  by (auto simp: planShape_def buildPacketPartition_def result_simps Let_def factorCoordinate_def
      intro!: hasValue_rules)

end
