(* ===== verification/Redist_Wave.thy ===== *)
theory Redist_Wave
  imports Redist_Packet_Props
begin

unbundle bit_operations_syntax

text \<open>
  The lowering of a redistribution inside waves, \<^verbatim>\<open>lib/Dialect/Wave/Transforms/WaveLowerRedistribute.cpp\<close>:
  each lane packs its source slots into slices, a shuffle fetches the slice of another lane, and the
  components of the slice become slots of the result. The emitted code is read as what it computes
  for one item: \<open>source item slot\<close> is the component the item holds, a shuffle reads the lane of the
  same wave, selects choose by the value of their selector. The parameter \<open>materialize\<close> stands for
  \<^verbatim>\<open>ExprMaterializer\<close>: \<^verbatim>\<open>prepare\<close> receives exactly the points that are materialized afterwards
  (\<^verbatim>\<open>getWaveMaterializationPoints\<close>), so its failure is the failure of one of those points.
\<close>

subsection \<open>Selection\<close>

text \<open>
  \<^verbatim>\<open>MaterializedExpr\<close>: a literal known when the code is emitted, or a value that the lane computes.
\<close>

datatype materialized = LiteralAt int | ValueAt int

fun valueOf :: "materialized \<Rightarrow> int" where
  "valueOf (LiteralAt i) = i"
| "valueOf (ValueAt i) = i"

fun selectComponent :: "'v list \<Rightarrow> materialized \<Rightarrow> 'v result" where
  "selectComponent [] selector = Inl Failure"
| "selectComponent (c # cs) (LiteralAt index) =
     (if index < 0 \<or> index \<ge> int (length (c # cs)) then Inl Failure else Inr ((c # cs) ! nat index))"
| "selectComponent (c # cs) (ValueAt selector) =
     Inr (fold (\<lambda>index chosen. if selector = int index then (c # cs) ! index else chosen)
            [1 ..< length (c # cs)] c)"

fun selectKeyedComponent :: "'v list \<Rightarrow> nat list \<Rightarrow> materialized \<Rightarrow> 'v result" where
  "selectKeyedComponent candidates keys (LiteralAt selector) =
     (case find (\<lambda>index. int (keys ! index) = selector) [0 ..< length keys] of
        None \<Rightarrow> Inl Failure
      | Some index \<Rightarrow> Inr (candidates ! index))"
| "selectKeyedComponent candidates keys (ValueAt selector) =
     (case candidates of
        [] \<Rightarrow> Inl Failure
      | first # _ \<Rightarrow> Inr (fold (\<lambda>index chosen. if selector = int (keys ! index) then candidates ! index
                                 else chosen) [1 ..< length candidates] first))"

subsection \<open>The plan\<close>

record direct_wave_plan =
  dw_packet :: packet_plan
  dw_sourceGroups :: "nat list list"
  dw_sourceLane :: sym_expr

text \<open>\<^verbatim>\<open>evaluateRedistributionPoint\<close> has the body of \<^verbatim>\<open>evaluatePacketCoordinate\<close>.\<close>

definition seenSourceGroups ::
    "sym_store \<Rightarrow> redistribute_op \<Rightarrow> index_map \<Rightarrow> packet_plan \<Rightarrow> nat \<Rightarrow> nat list result" where
  "seenSourceGroups st op carrier packet grp =
     (let packedSlot = grp * pp_vectorElements packet;
          slot = nat (packedToLogicalSlot (pp_resultWithinMask packet) (rd_resultSlots op) (int packedSlot))
      in bindR (collectR (\<lambda>(block, item).
             bindR (evaluatePacketCoordinate st carrier (pp_sourceGroup packet) block item slot) (\<lambda>sourceGroup.
               if sourceGroup < 0 \<or> sourceGroup \<ge> int (pp_sourceGroups packet) then Inl Failure
               else Inr (nat sourceGroup)))
           (concat (map (\<lambda>block. map (Pair block) [0 ..< rd_items op]) [0 ..< rd_blocks op])))
         (\<lambda>seen. Inr (sort (remdups seen))))"

definition collectDirectWaveSourceGroups ::
    "sym_store \<Rightarrow> redistribute_op \<Rightarrow> index_map \<Rightarrow> packet_plan \<Rightarrow> nat list list result" where
  "collectDirectWaveSourceGroups st op carrier packet =
     collectR (seenSourceGroups st op carrier packet) [0 ..< pp_resultGroups packet]"

definition buildDirectWavePlan ::
    "sym_store \<Rightarrow> redistribute_op \<Rightarrow> index_map \<Rightarrow> nat \<Rightarrow> direct_wave_plan result" where
  "buildDirectWavePlan st op carrier waveWidth =
     (if \<not> isPowerOf2_64 waveWidth then Inl Failure
      else let maxElements = min (rd_sourceSlots op) (rd_resultSlots op)
        in bindR (buildPacketPlan st op carrier maxElements (Some waveWidth) False) (\<lambda>packet.
           bindR (collectDirectWaveSourceGroups st op carrier packet) (\<lambda>sourceGroups.
             Inr \<lparr>dw_packet = packet, dw_sourceGroups = sourceGroups,
                  dw_sourceLane = composeWithInt (pp_sourceItem packet) SymMod (int waveWidth)\<rparr>)))"

subsection \<open>The code for one item\<close>

definition extractPacketSlices :: "packet_plan \<Rightarrow> (nat \<Rightarrow> 'v) \<Rightarrow> 'v list list" where
  "extractPacketSlices plan components =
     map (\<lambda>grp. map (\<lambda>within1.
       let packedSlot = grp * pp_vectorElements plan + within1;
           sourceSlot = packedToLogicalSlot (pp_sourceWithinMask plan)
                          (pp_sourceGroups plan * pp_vectorElements plan) (int packedSlot)
       in components (nat sourceSlot)) [0 ..< pp_vectorElements plan]) [0 ..< pp_sourceGroups plan]"

definition buildShuffledWaveGroup ::
    "(sym_expr \<Rightarrow> nat \<Rightarrow> materialized result) \<Rightarrow> direct_wave_plan \<Rightarrow> (nat \<Rightarrow> nat \<Rightarrow> 'v) \<Rightarrow> nat \<Rightarrow> nat \<Rightarrow>
     nat \<Rightarrow> nat \<Rightarrow> 'v list result" where
  "buildShuffledWaveGroup materialize plan source waveWidth item resultSlots grp =
     (let packet = dw_packet plan;
          packedSlot = grp * pp_vectorElements packet;
          slot = nat (packedToLogicalSlot (pp_resultWithinMask packet) resultSlots (int packedSlot))
      in bindR (materialize (dw_sourceLane plan) slot) (\<lambda>lane.
         bindR (materialize (pp_sourceGroup packet) slot) (\<lambda>selector.
           let sourceGroups = dw_sourceGroups plan ! grp;
               sourceItem = item div waveWidth * waveWidth + nat (valueOf lane);
               candidates = map (\<lambda>sourceGroup.
                 extractPacketSlices packet (source sourceItem) ! sourceGroup) sourceGroups
           in selectKeyedComponent candidates sourceGroups selector)))"

fun writeShuffledWaveGroup ::
    "(sym_expr \<Rightarrow> nat \<Rightarrow> materialized result) \<Rightarrow> packet_plan \<Rightarrow> 'v list \<Rightarrow> nat \<Rightarrow> nat \<Rightarrow> nat list \<Rightarrow>
     'v option list \<Rightarrow> 'v option list result" where
  "writeShuffledWaveGroup materialize plan components resultSlots grp [] result1 = Inr result1"
| "writeShuffledWaveGroup materialize plan components resultSlots grp (offset # offsets) result1 =
     (let packedSlot = grp * pp_vectorElements plan;
          resultSlot = nat (packedToLogicalSlot (pp_resultWithinMask plan) resultSlots (int (packedSlot + offset)))
      in bindR (materialize (pp_sourceWithin plan) resultSlot) (\<lambda>within1.
         bindR (selectComponent components within1) (\<lambda>component.
           writeShuffledWaveGroup materialize plan components resultSlots grp offsets
             (result1[resultSlot := Some component]))))"

fun lowerWaveGroups ::
    "(sym_expr \<Rightarrow> nat \<Rightarrow> materialized result) \<Rightarrow> direct_wave_plan \<Rightarrow> (nat \<Rightarrow> nat \<Rightarrow> 'v) \<Rightarrow> nat \<Rightarrow> nat \<Rightarrow>
     nat \<Rightarrow> nat list \<Rightarrow> 'v option list \<Rightarrow> 'v option list result" where
  "lowerWaveGroups materialize plan source waveWidth item resultSlots [] result1 = Inr result1"
| "lowerWaveGroups materialize plan source waveWidth item resultSlots (grp # groups) result1 =
     bindR (buildShuffledWaveGroup materialize plan source waveWidth item resultSlots grp) (\<lambda>selected.
     bindR (writeShuffledWaveGroup materialize (dw_packet plan) selected resultSlots grp
              [0 ..< pp_vectorElements (dw_packet plan)] result1)
       (lowerWaveGroups materialize plan source waveWidth item resultSlots groups))"

definition lowerWave ::
    "sym_store \<Rightarrow> redistribute_op \<Rightarrow> index_map \<Rightarrow> nat \<Rightarrow> (sym_expr \<Rightarrow> nat \<Rightarrow> materialized result) \<Rightarrow>
     (nat \<Rightarrow> nat \<Rightarrow> 'v) \<Rightarrow> nat \<Rightarrow> 'v option list result" where
  "lowerWave st op carrier waveWidth materialize source item =
     bindR (buildDirectWavePlan st op carrier waveWidth) (\<lambda>plan.
       lowerWaveGroups materialize plan source waveWidth item (rd_resultSlots op)
         [0 ..< pp_resultGroups (dw_packet plan)] (replicate (rd_resultSlots op) None))"

subsection \<open>Selections choose by key\<close>

lemma fold_unchosen:
  "(\<And>k. k \<in> set xs \<Longrightarrow> \<not> P k) \<Longrightarrow>
   fold (\<lambda>index chosen. if P index then f index else chosen) xs d = d"
  by (induction xs) auto

lemma fold_chosen:
  assumes "i \<in> set xs" and "P i" and "\<And>k. k \<in> set xs \<Longrightarrow> P k \<Longrightarrow> k = i"
  shows "fold (\<lambda>index chosen. if P index then f index else chosen) xs d = f i"
  using assms
proof (induction xs arbitrary: d)
  case (Cons x xs)
  show ?case
  proof (cases "i \<in> set xs")
    case True
    have "fold (\<lambda>index chosen. if P index then f index else chosen) xs e = f i" for e
      by (rule Cons.IH [OF True Cons.prems(2)]) (use Cons.prems(3) in auto)
    then show ?thesis by simp
  next
    case False
    then have x: "x = i" "\<And>k. k \<in> set xs \<Longrightarrow> \<not> P k" using Cons.prems by auto
    have "fold (\<lambda>index chosen. if P index then f index else chosen) xs e = e" for e
      by (rule fold_unchosen) (rule x(2))
    then show ?thesis using x(1) Cons.prems(2) by simp
  qed
qed simp

lemma selectComponent_value:
  assumes "valueOf selector = int i" and "i < length cs"
  shows "selectComponent cs selector = Inr (cs ! i)"
proof (cases cs)
  case (Cons c cs')
  show ?thesis
  proof (cases selector)
    case (ValueAt v)
    have v: "v = int i" using assms(1) ValueAt by simp
    show ?thesis
    proof (cases "i = 0")
      case True
      have "fold (\<lambda>index chosen. if v = int index then (c # cs') ! index else chosen) [1 ..< length (c # cs')] c = c"
        by (rule fold_unchosen) (use True v in auto)
      then show ?thesis using Cons ValueAt True by simp
    next
      case False
      have "fold (\<lambda>index chosen. if v = int index then (c # cs') ! index else chosen) [1 ..< length (c # cs')] c
          = (c # cs') ! i"
        by (rule fold_chosen) (use False assms(2) Cons v in auto)
      then show ?thesis using Cons ValueAt by simp
    qed
  qed (use assms Cons in auto)
qed (use assms in simp)

lemma selectKeyedComponent_value:
  assumes sel: "valueOf selector = int (keys ! i)" and i: "i < length keys" and "distinct keys"
    and len: "length cands = length keys"
  shows "selectKeyedComponent cands keys selector = Inr (cands ! i)"
proof -
  have only: "k = i" if "k < length keys" "keys ! k = keys ! i" for k
    using that i \<open>distinct keys\<close> nth_eq_iff_index_eq by blast
  show ?thesis
  proof (cases selector)
    case (LiteralAt v)
    have "keys ! k \<noteq> keys ! i" if "k < i" for k using only [of k] that i by auto
    then have "find (\<lambda>index. int (keys ! index) = v) [0 ..< length keys] = Some i"
      using sel LiteralAt i by (auto simp: find_Some_iff intro!: exI [of _ i])
    then show ?thesis using LiteralAt by simp
  next
    case (ValueAt v)
    then have v: "v = int (keys ! i)" using sel by simp
    obtain c cs where c: "cands = c # cs" using i len by (cases cands) auto
    have at: "v = int (keys ! k) \<longleftrightarrow> k = i" if "k \<in> set [1 ..< length cands]" for k
    proof -
      have "k < length keys" using that len by simp
      then show ?thesis using only [of k] unfolding v by auto
    qed
    have "fold (\<lambda>index chosen. if v = int (keys ! index) then cands ! index else chosen) [1 ..< length cands] c
        = cands ! i"
    proof (cases "i = 0")
      case True
      have "fold (\<lambda>index chosen. if v = int (keys ! index) then cands ! index else chosen) [1 ..< length cands] c = c"
        by (rule fold_unchosen) (use at True in force)
      then show ?thesis using c True by simp
    next
      case False
      then have "i \<in> set [1 ..< length cands]" using i len by simp
      then show ?thesis by (rule fold_chosen) (rule v, use at in blast)
    qed
    then show ?thesis unfolding ValueAt by (simp only: c selectKeyedComponent.simps list.case)
  qed
qed

subsection \<open>The lanes compute the relation\<close>

lemma seenSourceGroups_props:
  assumes seen: "seenSourceGroups st op carrier packet grp = Inr keys"
    and st: "soundStore st" and b: "b < rd_blocks op" "i < rd_items op"
    and env: "env kBlock = int b" "env kItem = int i"
    and val: "hasValue (atSlot env (nat (packedToLogicalSlot (pp_resultWithinMask packet) (rd_resultSlots op)
      (int (grp * pp_vectorElements packet))))) (pp_sourceGroup packet) (int h)"
  shows "distinct keys" and "h \<in> set keys" and "set keys \<subseteq> {..< pp_sourceGroups packet}"
proof -
  let ?slot = "nat (packedToLogicalSlot (pp_resultWithinMask packet) (rd_resultSlots op)
      (int (grp * pp_vectorElements packet)))"
  let ?f = "\<lambda>(block, item). bindR (evaluatePacketCoordinate st carrier (pp_sourceGroup packet) block item ?slot)
    (\<lambda>sourceGroup. if sourceGroup < 0 \<or> sourceGroup \<ge> int (pp_sourceGroups packet) then Inl Failure
                    else Inr (nat sourceGroup))"
  let ?pts = "concat (map (\<lambda>block. map (Pair block) [0 ..< rd_items op]) [0 ..< rd_blocks op])"
  obtain vals where vals: "collectR ?f ?pts = Inr vals" and keys: "keys = sort (remdups vals)"
    using seen by (auto simp: seenSourceGroups_def Let_def result_simps)
  note nth = collectR_nth [OF vals]
  show "distinct keys" by (simp add: keys)
  have "v < pp_sourceGroups packet" if v: "v \<in> set vals" for v
  proof -
    obtain k where k: "k < length ?pts" "v = vals ! k" using v nth(1) by (metis in_set_conv_nth)
    have "?f (?pts ! k) = Inr v" using nth(2) [OF k(1)] k(2) by simp
    then show ?thesis by (cases "?pts ! k") (auto simp: result_simps split: if_splits)
  qed
  then show "set keys \<subseteq> {..< pp_sourceGroups packet}" by (auto simp: keys)
  have "(b, i) \<in> set ?pts" using b by force
  then obtain k where k: "k < length ?pts" "?pts ! k = (b, i)" by (metis in_set_conv_nth)
  then have "?f (b, i) = Inr (vals ! k)" using nth(2) [OF k(1)] by simp
  then obtain v where v: "evaluatePacketCoordinate st carrier (pp_sourceGroup packet) b i ?slot = Inr v"
    and w: "vals ! k = nat v" by (auto simp: result_simps split: if_splits)
  have "v = int h" using hasValue_unique [OF evaluatePacketCoordinate_value [OF st v env] val] .
  then have "h \<in> set vals" using w k(1) nth(1) by (metis nat_int nth_mem)
  then show "h \<in> set keys" by (simp add: keys)
qed

text \<open>Writing right components keeps right components, and fills the written slots.\<close>

lemma writeShuffledWaveGroup_value:
  assumes mat: "\<And>off. off \<in> set offs \<Longrightarrow>
      \<exists>m. materialize (pp_sourceWithin plan) (slotAt off) = Inr m \<and> valueOf m = int (idx off) \<and>
        idx off < length components \<and> components ! idx off = want (slotAt off)"
    and slot: "\<And>off. off \<in> set offs \<Longrightarrow>
      slotAt off = nat (packedToLogicalSlot (pp_resultWithinMask plan) slots (int (grp * pp_vectorElements plan + off)))
      \<and> slotAt off < length r"
  shows "\<exists>r'. writeShuffledWaveGroup materialize plan components slots grp offs r = Inr r' \<and> length r' = length r \<and>
    (\<forall>x < length r. r' ! x = (if x \<in> slotAt ` set offs then Some (want x) else r ! x))"
  using assms
proof (induction offs arbitrary: r)
  case (Cons off offs)
  obtain m where m: "materialize (pp_sourceWithin plan) (slotAt off) = Inr m" "valueOf m = int (idx off)"
    "idx off < length components" "components ! idx off = want (slotAt off)" using Cons.prems(1) by force
  have s: "slotAt off = nat (packedToLogicalSlot (pp_resultWithinMask plan) slots (int (grp * pp_vectorElements plan + off)))"
    "slotAt off < length r" using Cons.prems(2) [of off] by simp_all
  let ?r = "r[slotAt off := Some (want (slotAt off))]"
  have eq: "writeShuffledWaveGroup materialize plan components slots grp (off # offs) r =
      writeShuffledWaveGroup materialize plan components slots grp offs ?r"
    by (simp only: writeShuffledWaveGroup.simps Let_def s(1) [symmetric] m(1,4) bindR_simps
        selectComponent_value [OF m(2,3)])
  have "\<exists>r'. writeShuffledWaveGroup materialize plan components slots grp offs ?r = Inr r' \<and> length r' = length ?r \<and>
      (\<forall>x < length ?r. r' ! x = (if x \<in> slotAt ` set offs then Some (want x) else ?r ! x))"
  proof (rule Cons.IH)
    fix o1 assume o1: "o1 \<in> set offs"
    show "\<exists>m. materialize (pp_sourceWithin plan) (slotAt o1) = Inr m \<and> valueOf m = int (idx o1) \<and>
        idx o1 < length components \<and> components ! idx o1 = want (slotAt o1)"
      by (rule Cons.prems(1)) (simp add: o1)
    show "slotAt o1 = nat (packedToLogicalSlot (pp_resultWithinMask plan) slots
        (int (grp * pp_vectorElements plan + o1))) \<and> slotAt o1 < length ?r"
      unfolding length_list_update by (rule Cons.prems(2)) (simp add: o1)
  qed
  then obtain r' where r': "writeShuffledWaveGroup materialize plan components slots grp offs ?r = Inr r'"
    "length r' = length r"
    "\<And>x. x < length r \<Longrightarrow> r' ! x = (if x \<in> slotAt ` set offs then Some (want x) else ?r ! x)" by auto
  have "r' ! x = (if x \<in> slotAt ` set (off # offs) then Some (want x) else r ! x)" if "x < length r" for x
    using r'(3) [OF that] that by (auto simp: nth_list_update)
  then show ?case using r'(1,2) unfolding eq by blast
qed simp

lemma lowerWaveGroups_value:
  assumes groups: "\<And>grp. grp \<in> set grps \<Longrightarrow> \<exists>components.
      buildShuffledWaveGroup materialize plan source waveWidth item slots grp = Inr components \<and>
      (\<forall>off < pp_vectorElements (dw_packet plan). \<exists>m k.
         materialize (pp_sourceWithin (dw_packet plan)) (slotAt grp off) = Inr m \<and> valueOf m = int k \<and>
         k < length components \<and> components ! k = want (slotAt grp off))"
    and slot: "\<And>grp off. grp \<in> set grps \<Longrightarrow> off < pp_vectorElements (dw_packet plan) \<Longrightarrow>
      slotAt grp off = nat (packedToLogicalSlot (pp_resultWithinMask (dw_packet plan)) slots
        (int (grp * pp_vectorElements (dw_packet plan) + off))) \<and> slotAt grp off < length r"
  shows "\<exists>r'. lowerWaveGroups materialize plan source waveWidth item slots grps r = Inr r' \<and> length r' = length r \<and>
    (\<forall>x < length r. r' ! x =
      (if \<exists>grp \<in> set grps. \<exists>off < pp_vectorElements (dw_packet plan). x = slotAt grp off
       then Some (want x) else r ! x))"
  using assms
proof (induction grps arbitrary: r)
  case (Cons grp grps)
  let ?ve = "pp_vectorElements (dw_packet plan)"
  obtain components where c: "buildShuffledWaveGroup materialize plan source waveWidth item slots grp = Inr components"
    and off: "\<forall>off < ?ve. \<exists>m k. materialize (pp_sourceWithin (dw_packet plan)) (slotAt grp off) = Inr m \<and>
      valueOf m = int k \<and> k < length components \<and> components ! k = want (slotAt grp off)"
    using Cons.prems(1) [of grp] by auto
  obtain idx where idx: "\<And>off. off < ?ve \<Longrightarrow> \<exists>m. materialize (pp_sourceWithin (dw_packet plan)) (slotAt grp off) = Inr m \<and>
      valueOf m = int (idx off) \<and> idx off < length components \<and> components ! idx off = want (slotAt grp off)"
    using off by metis
  have s0: "slotAt grp off = nat (packedToLogicalSlot (pp_resultWithinMask (dw_packet plan)) slots
      (int (grp * ?ve + off))) \<and> slotAt grp off < length r" if "off < ?ve" for off
    by (rule Cons.prems(2)) (use that in simp_all)
  have "\<exists>r'. writeShuffledWaveGroup materialize (dw_packet plan) components slots grp [0 ..< ?ve] r = Inr r' \<and>
      length r' = length r \<and>
      (\<forall>x < length r. r' ! x = (if x \<in> slotAt grp ` set [0 ..< ?ve] then Some (want x) else r ! x))"
    by (rule writeShuffledWaveGroup_value [where idx = idx]) ((rule idx | rule s0), simp)+
  then obtain r1 where r1: "writeShuffledWaveGroup materialize (dw_packet plan) components slots grp [0 ..< ?ve] r = Inr r1"
    "length r1 = length r"
    "\<And>x. x < length r \<Longrightarrow> r1 ! x = (if x \<in> slotAt grp ` set [0 ..< ?ve] then Some (want x) else r ! x)" by auto
  have "\<exists>r'. lowerWaveGroups materialize plan source waveWidth item slots grps r1 = Inr r' \<and> length r' = length r1 \<and>
    (\<forall>x < length r1. r' ! x =
      (if \<exists>grp \<in> set grps. \<exists>off < ?ve. x = slotAt grp off then Some (want x) else r1 ! x))"
  proof (rule Cons.IH)
    fix g assume g: "g \<in> set grps"
    show "\<exists>components. buildShuffledWaveGroup materialize plan source waveWidth item slots g = Inr components \<and>
        (\<forall>off < ?ve. \<exists>m k. materialize (pp_sourceWithin (dw_packet plan)) (slotAt g off) = Inr m \<and>
          valueOf m = int k \<and> k < length components \<and> components ! k = want (slotAt g off))"
      by (rule Cons.prems(1)) (simp add: g)
    fix off assume o: "off < ?ve"
    show "slotAt g off = nat (packedToLogicalSlot (pp_resultWithinMask (dw_packet plan)) slots
        (int (g * ?ve + off))) \<and> slotAt g off < length r1"
      unfolding r1(2) by (rule Cons.prems(2) [OF _ o]) (simp add: g)
  qed
  then obtain r' where r': "lowerWaveGroups materialize plan source waveWidth item slots grps r1 = Inr r'"
    "length r' = length r"
    "\<And>x. x < length r \<Longrightarrow> r' ! x =
      (if \<exists>grp \<in> set grps. \<exists>off < ?ve. x = slotAt grp off then Some (want x) else r1 ! x)"
    using r1(2) by auto
  have "r' ! x = (if \<exists>g \<in> set (grp # grps). \<exists>off < ?ve. x = slotAt g off then Some (want x) else r ! x)"
    if "x < length r" for x
    using r'(3) [OF that] r1(3) [OF that] by auto
  moreover have "lowerWaveGroups materialize plan source waveWidth item slots (grp # grps) r = Inr r'"
    using c r1(1) r'(1) by simp
  ultimately show ?case using r'(2) by blast
qed simp

text \<open>The vectors divide the slots of a plan evenly.\<close>

lemma plan_divides:
  assumes "isPowerOf2_64 slots \<or> ve = 1" and "ve = 2 ^ j" and "ve \<le> slots"
  shows "slots div ve * ve = slots"
proof (cases "ve = 1")
  case False
  then obtain s where s: "slots = 2 ^ s" using assms(1) power_of_two_slots by blast
  then have "j \<le> s" using assms(2,3) by simp
  then show ?thesis using s assms(2) by (simp add: le_imp_power_dvd)
qed simp

text \<open>What the code that fetches a component needs: the materializer gives the values of expressions.\<close>

definition faithfulMaterializer ::
    "(sym_expr \<Rightarrow> nat \<Rightarrow> materialized result) \<Rightarrow> (string \<Rightarrow> int) \<Rightarrow> nat \<Rightarrow> bool" where
  "faithfulMaterializer materialize env resultSlots \<longleftrightarrow>
     (\<forall>e. \<forall>x < resultSlots. \<forall>n. hasValue (atSlot env x) e n \<longrightarrow>
        (\<exists>m. materialize e x = Inr m \<and> valueOf m = n))"

lemma slice_component:
  assumes "h < pp_sourceGroups plan" and "k < pp_vectorElements plan"
    and "pp_sourceGroups plan * pp_vectorElements plan = slots"
    and y: "y < slots" and packed: "logicalToPackedSlot (pp_sourceWithinMask plan) slots (int y)
      = int (h * pp_vectorElements plan + k)"
  shows "extractPacketSlices plan components ! h ! k = components y"
    and "k < length (extractPacketSlices plan components ! h)"
proof -
  have "packedToLogicalSlot (pp_sourceWithinMask plan) slots (int (h * pp_vectorElements plan + k)) = int y"
    unfolding packed [symmetric] using slot_roundtrip(2) [of "int y" slots] y by simp
  then show "extractPacketSlices plan components ! h ! k = components y"
    using assms(1-3) by (simp add: extractPacketSlices_def Let_def)
  show "k < length (extractPacketSlices plan components ! h)"
    using assms(1,2) by (simp add: extractPacketSlices_def)
qed

text \<open>
  The setting of one item: the plan covers the slots evenly, its vectors are uniform, and the
  relation reads inside the wave of the item.
\<close>

definition slotAt :: "packet_plan \<Rightarrow> nat \<Rightarrow> nat \<Rightarrow> nat \<Rightarrow> nat" where
  "slotAt plan resultSlots grp off = nat (packedToLogicalSlot (pp_resultWithinMask plan) resultSlots
     (int (grp * pp_vectorElements plan + off)))"

definition waveRow ::
    "redistribute_op \<Rightarrow> index_map \<Rightarrow> nat \<Rightarrow> packet_plan \<Rightarrow> sym_expr \<Rightarrow> sym_expr \<Rightarrow> (string \<Rightarrow> int) \<Rightarrow> nat \<Rightarrow>
     (nat \<Rightarrow> int) \<Rightarrow> (nat \<Rightarrow> nat) \<Rightarrow> bool" where
  "waveRow op carrier waveWidth plan sourceItem sourceSlot env i itemOf slotOf \<longleftrightarrow>
     planShape carrier sourceItem sourceSlot (rd_sourceSlots op) (rd_resultSlots op) plan \<and>
     0 < pp_vectorElements plan \<and> 0 < waveWidth \<and>
     pp_sourceGroups plan * pp_vectorElements plan = rd_sourceSlots op \<and>
     pp_resultGroups plan * pp_vectorElements plan = rd_resultSlots op \<and>
     uniformRow plan (rd_sourceSlots op) (rd_resultSlots op) (\<lambda>x. itemOf x mod int waveWidth) slotOf \<and>
     slotRow carrier env (rd_resultSlots op) sourceSlot slotOf \<and>
     (\<forall>x < rd_resultSlots op. hasValue (atSlot env x) sourceItem (itemOf x) \<and> slotOf x < rd_sourceSlots op \<and>
        itemOf x div int waveWidth = int (i div waveWidth))"

lemma slotAt_props:
  assumes row: "waveRow op carrier waveWidth plan sourceItem sourceSlot env i itemOf slotOf"
    and "grp < pp_resultGroups plan" and "off < pp_vectorElements plan"
  shows "slotAt plan (rd_resultSlots op) grp off < rd_resultSlots op"
    and "logicalToPackedSlot (pp_resultWithinMask plan) (rd_resultSlots op)
      (int (slotAt plan (rd_resultSlots op) grp off)) = int (grp * pp_vectorElements plan + off)"
proof -
  let ?q = "grp * pp_vectorElements plan + off" and ?R = "rd_resultSlots op"
  have "?q < Suc grp * pp_vectorElements plan" using assms(3) by simp
  also have "\<dots> \<le> pp_resultGroups plan * pp_vectorElements plan" using assms(2) by (intro mult_le_mono1) simp
  also have "\<dots> = ?R" using row by (simp add: waveRow_def)
  finally have "int ?q < int ?R" by (simp only: of_nat_less_iff)
  then show "slotAt plan ?R grp off < ?R"
    "logicalToPackedSlot (pp_resultWithinMask plan) ?R (int (slotAt plan ?R grp off)) = int ?q"
    using slot_roundtrip [of "int ?q" ?R "pp_resultWithinMask plan"] by (simp_all add: slotAt_def nat_less_iff)
qed

lemma slotAt_covers:
  assumes row: "waveRow op carrier waveWidth plan sourceItem sourceSlot env i itemOf slotOf"
    and x: "x < rd_resultSlots op"
  shows "\<exists>grp < pp_resultGroups plan. \<exists>off < pp_vectorElements plan. x = slotAt plan (rd_resultSlots op) grp off"
proof -
  let ?R = "rd_resultSlots op" and ?ve = "pp_vectorElements plan"
  define q where "q = nat (logicalToPackedSlot (pp_resultWithinMask plan) ?R (int x))"
  have q: "int q = logicalToPackedSlot (pp_resultWithinMask plan) ?R (int x)" "q < ?R"
    using slot_roundtrip(4) [of "int x" ?R "pp_resultWithinMask plan"] x by (simp_all add: q_def nat_less_iff)
  have "slotAt plan ?R (q div ?ve) (q mod ?ve) = x"
    using slot_roundtrip(2) [of "int x" ?R "pp_resultWithinMask plan"] x q(1) by (simp add: slotAt_def)
  moreover have "q < pp_resultGroups plan * ?ve" using q(2) row by (simp add: waveRow_def)
  then have "q div ?ve < pp_resultGroups plan" by (simp add: less_mult_imp_div_less)
  moreover have "q mod ?ve < ?ve" using row by (simp add: waveRow_def)
  ultimately show ?thesis by metis
qed

text \<open>All slots of a vector read the item and the source vector that its first slot reads.\<close>

lemma vector_reads:
  assumes row: "waveRow op carrier waveWidth plan sourceItem sourceSlot env i itemOf slotOf"
    and "grp < pp_resultGroups plan" and "off < pp_vectorElements plan"
  defines "x \<equiv> slotAt plan (rd_resultSlots op) grp off" and "y \<equiv> slotAt plan (rd_resultSlots op) grp 0"
  shows "itemOf x = itemOf y"
    and "sameVector (pp_sourceWithinMask plan) (rd_sourceSlots op) (pp_vectorElements plan) (slotOf x) (slotOf y)"
    and "int (i div waveWidth * waveWidth) + itemOf y mod int waveWidth = itemOf y"
proof -
  have ve: "0 < pp_vectorElements plan" using row by (simp add: waveRow_def)
  have xy: "x < rd_resultSlots op" "y < rd_resultSlots op"
    using slotAt_props(1) [OF row assms(2)] assms(3) ve by (simp_all add: x_def y_def)
  have "sameVector (pp_resultWithinMask plan) (rd_resultSlots op) (pp_vectorElements plan) x y"
    using slotAt_props(2) [OF row assms(2,3)] slotAt_props(2) [OF row assms(2) ve] assms(3)
    by (simp add: sameVector_def x_def y_def)
  then have o: "itemOf x mod int waveWidth = itemOf y mod int waveWidth"
    "sameVector (pp_sourceWithinMask plan) (rd_sourceSlots op) (pp_vectorElements plan) (slotOf x) (slotOf y)"
    using row xy by (auto simp: waveRow_def uniformRow_def)
  have w: "itemOf z div int waveWidth = int (i div waveWidth)" if "z < rd_resultSlots op" for z
    using row that by (simp add: waveRow_def)
  show "itemOf x = itemOf y" using o(1) w [OF xy(1)] w [OF xy(2)] by (metis div_mult_mod_eq)
  show "int (i div waveWidth * waveWidth) + itemOf y mod int waveWidth = itemOf y"
    using w [OF xy(2)] by (metis div_mult_mod_eq of_nat_mult)
  show "sameVector (pp_sourceWithinMask plan) (rd_sourceSlots op) (pp_vectorElements plan) (slotOf x) (slotOf y)"
    by (rule o(2))
qed

text \<open>The shuffle fetches the slice that holds the source components of the vector.\<close>

definition sourceVector :: "redistribute_op \<Rightarrow> packet_plan \<Rightarrow> nat \<Rightarrow> nat" where
  "sourceVector op plan y = nat (logicalToPackedSlot (pp_sourceWithinMask plan) (rd_sourceSlots op) (int y))
     div pp_vectorElements plan"

definition sourcePlace :: "redistribute_op \<Rightarrow> packet_plan \<Rightarrow> nat \<Rightarrow> nat" where
  "sourcePlace op plan y = nat (logicalToPackedSlot (pp_sourceWithinMask plan) (rd_sourceSlots op) (int y))
     mod pp_vectorElements plan"

lemma source_coordinates:
  assumes row: "waveRow op carrier waveWidth plan sourceItem sourceSlot env i itemOf slotOf"
    and x: "x < rd_resultSlots op"
  shows "hasValue (atSlot env x) (pp_sourceGroup plan) (int (sourceVector op plan (slotOf x)))"
    and "hasValue (atSlot env x) (pp_sourceWithin plan) (int (sourcePlace op plan (slotOf x)))"
    and "sourcePlace op plan (slotOf x) < pp_vectorElements plan"
    and "logicalToPackedSlot (pp_sourceWithinMask plan) (rd_sourceSlots op) (int (slotOf x)) =
      int (sourceVector op plan (slotOf x) * pp_vectorElements plan + sourcePlace op plan (slotOf x))"
proof -
  let ?p = "logicalToPackedSlot (pp_sourceWithinMask plan) (rd_sourceSlots op) (int (slotOf x))"
  have shape: "planShape carrier sourceItem sourceSlot (rd_sourceSlots op) (rd_resultSlots op) plan"
    and slot: "hasValue (atSlot env x) sourceSlot (int (slotOf x))" and range: "slotOf x < rd_sourceSlots op"
    and ve: "0 < pp_vectorElements plan"
    using row x by (simp_all add: waveRow_def slotRow_def)
  have p: "?p = int (nat ?p)" using slot_roundtrip(4) [of "int (slotOf x)" "rd_sourceSlots op"] range by simp
  show "hasValue (atSlot env x) (pp_sourceGroup plan) (int (sourceVector op plan (slotOf x)))"
    using plan_coordinates(1) [OF shape slot] p by (metis sourceVector_def zdiv_int)
  show "hasValue (atSlot env x) (pp_sourceWithin plan) (int (sourcePlace op plan (slotOf x)))"
    using plan_coordinates(2) [OF shape slot] p by (metis sourcePlace_def zmod_int)
  show "sourcePlace op plan (slotOf x) < pp_vectorElements plan" using ve by (simp add: sourcePlace_def)
  show "?p = int (sourceVector op plan (slotOf x) * pp_vectorElements plan + sourcePlace op plan (slotOf x))"
    using p by (metis div_mult_mod_eq sourceVector_def sourcePlace_def)
qed

lemma same_sourceVector:
  assumes "sameVector (pp_sourceWithinMask plan) (rd_sourceSlots op) (pp_vectorElements plan) x y"
    and "x < rd_sourceSlots op" and "y < rd_sourceSlots op"
  shows "sourceVector op plan x = sourceVector op plan y"
proof -
  have "sourceVector op plan z = nat (logicalToPackedSlot (pp_sourceWithinMask plan) (rd_sourceSlots op) (int z)
      div int (pp_vectorElements plan))" if "z < rd_sourceSlots op" for z
    using slot_roundtrip(4) [of "int z" "rd_sourceSlots op" "pp_sourceWithinMask plan"] that
    by (simp add: sourceVector_def nat_div_distrib)
  then show ?thesis using assms by (simp add: sameVector_def)
qed

lemma materialize_value:
  assumes "faithfulMaterializer materialize env resultSlots" and "x < resultSlots"
    and "hasValue (atSlot env x) e n"
  obtains m where "materialize e x = Inr m" and "valueOf m = n"
  using assms unfolding faithfulMaterializer_def by blast

lemma shuffled_group:
  assumes row: "waveRow op carrier waveWidth (dw_packet plan) sourceItem sourceSlot env i itemOf slotOf"
    and st: "soundStore st" and b: "b < rd_blocks op" "i < rd_items op"
    and env: "env kBlock = int b" "env kItem = int i"
    and mat: "faithfulMaterializer materialize env (rd_resultSlots op)"
    and lane: "dw_sourceLane plan = composeWithInt (pp_sourceItem (dw_packet plan)) SymMod (int waveWidth)"
    and groups: "collectDirectWaveSourceGroups st op carrier (dw_packet plan) = Inr (dw_sourceGroups plan)"
    and grp: "grp < pp_resultGroups (dw_packet plan)"
  defines "x \<equiv> slotAt (dw_packet plan) (rd_resultSlots op) grp 0"
  shows "buildShuffledWaveGroup materialize plan source waveWidth i (rd_resultSlots op) grp =
      Inr (extractPacketSlices (dw_packet plan) (source (nat (itemOf x))) ! sourceVector op (dw_packet plan) (slotOf x))"
    and "sourceVector op (dw_packet plan) (slotOf x) < pp_sourceGroups (dw_packet plan)"
proof -
  let ?p = "dw_packet plan" and ?R = "rd_resultSlots op" and ?keys = "dw_sourceGroups plan ! grp"
  let ?h = "sourceVector op ?p (slotOf x)" and ?slices = "extractPacketSlices ?p (source (nat (itemOf x)))"
  have ve: "0 < pp_vectorElements ?p" and width: "0 < waveWidth" using row by (simp_all add: waveRow_def)
  have x: "x < ?R" unfolding x_def by (rule slotAt_props(1) [OF row grp ve])
  have slot: "nat (packedToLogicalSlot (pp_resultWithinMask ?p) ?R (int (grp * pp_vectorElements ?p))) = x"
    by (simp add: x_def slotAt_def)
  have "hasValue (atSlot env x) (dw_sourceLane plan) (itemOf x mod int waveWidth)"
    unfolding lane using row x plan_counts(1) [of carrier sourceItem sourceSlot _ _ ?p]
    by (auto simp: waveRow_def intro!: hasValue_rules)
  then obtain l where l: "materialize (dw_sourceLane plan) x = Inr l" "valueOf l = itemOf x mod int waveWidth"
    by (rule materialize_value [OF mat x])
  note h = source_coordinates(1) [OF row x]
  obtain s where s: "materialize (pp_sourceGroup ?p) x = Inr s" "valueOf s = int ?h"
    by (rule materialize_value [OF mat x h])
  have "seenSourceGroups st op carrier ?p grp = Inr ?keys"
    using collectR_nth(2) [OF groups [unfolded collectDirectWaveSourceGroups_def], of grp] grp by simp
  note seen = seenSourceGroups_props [OF this st b env, unfolded slot, OF h]
  then obtain k where k: "k < length ?keys" "?keys ! k = ?h" by (metis in_set_conv_nth)
  have "int (i div waveWidth * waveWidth + nat (valueOf l)) = itemOf x"
    using vector_reads(3) [OF row grp ve] width by (simp add: l(2) x_def)
  then have who: "i div waveWidth * waveWidth + nat (valueOf l) = nat (itemOf x)" by linarith
  have "selectKeyedComponent (map ((!) ?slices) ?keys) ?keys s = Inr (map ((!) ?slices) ?keys ! k)"
    using selectKeyedComponent_value [of s ?keys k "map ((!) ?slices) ?keys"] s(2) k seen(1) by simp
  then show "buildShuffledWaveGroup materialize plan source waveWidth i ?R grp = Inr (?slices ! ?h)"
    unfolding buildShuffledWaveGroup_def Let_def slot l(1) s(1) bindR_simps who using k by simp
  show "?h < pp_sourceGroups ?p" using seen(2,3) by auto
qed

lemma group_components:
  fixes source :: "nat \<Rightarrow> nat \<Rightarrow> 'v"
  assumes row: "waveRow op carrier waveWidth plan sourceItem sourceSlot env i itemOf slotOf"
    and mat: "faithfulMaterializer materialize env (rd_resultSlots op)"
    and grp: "grp < pp_resultGroups plan" and off: "off < pp_vectorElements plan"
    and h: "sourceVector op plan (slotOf (slotAt plan (rd_resultSlots op) grp 0)) < pp_sourceGroups plan"
  defines "x \<equiv> slotAt plan (rd_resultSlots op) grp 0" and "y \<equiv> slotAt plan (rd_resultSlots op) grp off"
  defines "sl \<equiv> extractPacketSlices plan (source (nat (itemOf x))) ! sourceVector op plan (slotOf x)"
  shows "\<exists>m k. materialize (pp_sourceWithin plan) y = Inr m \<and> valueOf m = int k \<and>
    k < length sl \<and> sl ! k = source (nat (itemOf y)) (slotOf y)"
proof -
  have ve: "0 < pp_vectorElements plan" and S: "pp_sourceGroups plan * pp_vectorElements plan = rd_sourceSlots op"
    using row by (simp_all add: waveRow_def)
  have y: "y < rd_resultSlots op" unfolding y_def by (rule slotAt_props(1) [OF row grp off])
  have x: "x < rd_resultSlots op" unfolding x_def by (rule slotAt_props(1) [OF row grp ve])
  have range: "slotOf z < rd_sourceSlots op" if "z < rd_resultSlots op" for z
    using row that by (simp add: waveRow_def)
  note reads = vector_reads(1,2) [OF row grp off, folded x_def y_def]
  have v: "sourceVector op plan (slotOf y) = sourceVector op plan (slotOf x)"
    by (rule same_sourceVector [OF reads(2) range [OF y] range [OF x]])
  note c = source_coordinates(2-4) [OF row y]
  obtain m where m: "materialize (pp_sourceWithin plan) y = Inr m" "valueOf m = int (sourcePlace op plan (slotOf y))"
    by (rule materialize_value [OF mat y c(1)])
  note slice_component [OF h [folded x_def] c(2) S range [OF y] c(3) [unfolded v], of "source (nat (itemOf x))"]
  with m show ?thesis unfolding sl_def reads(1) by blast
qed

lemma lowerWave_value:
  fixes source :: "nat \<Rightarrow> nat \<Rightarrow> 'v"
  assumes st: "soundStore st" and exprs: "im_exprs carrier = [sourceBlock, sourceItem, sourceSlot]"
    and plan: "buildDirectWavePlan st op carrier waveWidth = Inr plan"
    and b: "b < rd_blocks op" "i < rd_items op" and env: "env kBlock = int b" "env kItem = int i"
    and row: "slotRow carrier env (rd_resultSlots op) sourceSlot slotOf"
    and item: "\<And>x. x < rd_resultSlots op \<Longrightarrow> hasValue (atSlot env x) sourceItem (itemOf x)"
    and range: "\<And>x. x < rd_resultSlots op \<Longrightarrow> slotOf x < rd_sourceSlots op"
    and wave: "\<And>x. x < rd_resultSlots op \<Longrightarrow> itemOf x div int waveWidth = int (i div waveWidth)"
    and mat: "faithfulMaterializer materialize env (rd_resultSlots op)"
  shows "\<exists>r. lowerWave st op carrier waveWidth materialize source i = Inr r \<and> length r = rd_resultSlots op \<and>
    (\<forall>x < rd_resultSlots op. r ! x = Some (source (nat (itemOf x)) (slotOf x)))"
proof -
  let ?S = "rd_sourceSlots op" and ?R = "rd_resultSlots op" and ?p = "dw_packet plan"
  let ?none = "replicate ?R None :: 'v option list"
  let ?want = "\<lambda>x. source (nat (itemOf x)) (slotOf x)"
  have packet: "buildPacketPlan st op carrier (min ?S ?R) (Some waveWidth) False = Inr ?p"
    and groups: "collectDirectWaveSourceGroups st op carrier ?p = Inr (dw_sourceGroups plan)"
    and lane: "dw_sourceLane plan = composeWithInt (pp_sourceItem ?p) SymMod (int waveWidth)"
    and two: "isPowerOf2_64 waveWidth"
    using plan by (auto simp: buildDirectWavePlan_def Let_def result_simps split: if_splits)
  note u = buildPacketPlan_uniform [OF st exprs packet b env row item range]
  then obtain j where shape: "planShape carrier sourceItem sourceSlot ?S ?R ?p" and j: "pp_vectorElements ?p = 2 ^ j"
    by blast
  have even: "pp_sourceGroups ?p * pp_vectorElements ?p = ?S" "pp_resultGroups ?p * pp_vectorElements ?p = ?R"
    using u plan_counts(2,3) [OF shape] plan_divides [OF _ j, of ?S] plan_divides [OF _ j, of ?R] by auto
  have W: "waveRow op carrier waveWidth ?p sourceItem sourceSlot env i itemOf slotOf"
    using u shape even row item range wave two j by (auto simp: waveRow_def ownerOf_def isPowerOf2_64_def)
  have "\<exists>r'. lowerWaveGroups materialize plan source waveWidth i ?R [0 ..< pp_resultGroups ?p] ?none = Inr r' \<and>
    length r' = length ?none \<and> (\<forall>x < length ?none. r' ! x =
      (if \<exists>grp \<in> set [0 ..< pp_resultGroups ?p]. \<exists>off < pp_vectorElements ?p. x = slotAt ?p ?R grp off
       then Some (?want x) else ?none ! x))"
  proof (rule lowerWaveGroups_value)
    fix grp assume "grp \<in> set [0 ..< pp_resultGroups ?p]"
    then have g: "grp < pp_resultGroups ?p" by simp
    note built = shuffled_group(1) [OF W st b env mat lane groups g, of source]
      shuffled_group(2) [OF W st b env mat lane groups g]
    show "\<exists>components. buildShuffledWaveGroup materialize plan source waveWidth i ?R grp = Inr components \<and>
      (\<forall>off < pp_vectorElements ?p. \<exists>m k. materialize (pp_sourceWithin ?p) (slotAt ?p ?R grp off) = Inr m \<and>
         valueOf m = int k \<and> k < length components \<and> components ! k = ?want (slotAt ?p ?R grp off))"
      using built(1) group_components [OF W mat g _ built(2)] by blast
    fix off assume o: "off < pp_vectorElements ?p"
    show "slotAt ?p ?R grp off = nat (packedToLogicalSlot (pp_resultWithinMask ?p) ?R
        (int (grp * pp_vectorElements ?p + off))) \<and> slotAt ?p ?R grp off < length ?none"
      using slotAt_props(1) [OF W g o] by (simp add: slotAt_def)
  qed
  then obtain r where r: "lowerWaveGroups materialize plan source waveWidth i ?R [0 ..< pp_resultGroups ?p] ?none = Inr r"
    "length r = ?R" "\<And>x. x < ?R \<Longrightarrow> r ! x =
      (if \<exists>grp \<in> set [0 ..< pp_resultGroups ?p]. \<exists>off < pp_vectorElements ?p. x = slotAt ?p ?R grp off
       then Some (?want x) else None)" by auto
  have "r ! x = Some (?want x)" if "x < ?R" for x
    using r(3) [OF that] slotAt_covers [OF W that] by auto
  then show ?thesis using plan r(1,2) by (auto simp: lowerWave_def)
qed

end
