(* ===== verification/Redist_Props.thy ===== *)
theory Redist_Props
  imports Redist_Layout_Props Redist_Wave
begin

unbundle bit_operations_syntax

text \<open>
  The properties of the planning and lowering of redistributions, and a small symbolic store on
  which they are applied: it substitutes and folds constants, and its checks answer true for the
  goals of one relation, each of which holds at every point.
\<close>

subsection \<open>Group windows\<close>

lemma appendFactorProof_exact:
  assumes "0 < size1" and "hasValue env value (int n)"
  shows "hasValue env (cf_group (factorCoordinate value size1)) (int (n div size1))"
    and "hasValue env (cf_within (factorCoordinate value size1)) (int (n mod size1))"
  using hasValue_floorDiv [OF assms(2), of "int size1"] hasValue_withInt(3) [OF assms(2), of "int size1"]
  by (simp_all add: factorCoordinate_def zdiv_int zmod_int)

definition windowSplits ::
    "(string \<Rightarrow> int) \<Rightarrow> nat \<Rightarrow> nat \<Rightarrow> group_window \<Rightarrow> bool" where
  "windowSplits env n sourceGroups window \<longleftrightarrow>
     (let L = gw_localGroups window
      in 0 < L \<and> hasValue env (gw_stage window) (int (n div L)) \<and> hasValue env (gw_local window) (int (n mod L)) \<and>
         n div L < gw_stageCount window \<and> gw_stageCount window = (sourceGroups + L - 1) div L)"

lemma stage_bound: "n < G \<Longrightarrow> 0 < L \<Longrightarrow> n div L < (G + L - 1) div (L :: nat)"
proof -
  assume "n < G" "0 < L"
  then have "(n + L) div L \<le> (G + L - 1) div L" by (intro div_le_mono) simp
  then show ?thesis using \<open>0 < L\<close> by simp
qed

lemma proveGroupWindow_splits:
  assumes st: "soundStore st" and dom: "inDomain carrier env" and n: "hasValue env sourceGroup (int n)" "n < G"
    and L: "0 < L" and w: "proveGroupWindow st carrier sourceGroup G L atZero needInv = Inr (Some window)"
  shows "windowSplits env n G window \<and> gw_localGroups window = L"
proof -
  let ?f = "factorCoordinate sourceGroup L" and ?ref = "st_substituteExpr st (cf_group (factorCoordinate sourceGroup L)) atZero"
  note vals = appendFactorProof_exact [OF L n(1)]
  show ?thesis
  proof (cases needInv)
    case False
    then show ?thesis
      using w vals stage_bound [OF n(2) L]
      by (auto simp: proveGroupWindow_def Let_def result_simps windowSplits_def L split: if_splits)
  next
    case True
    obtain es where c: "st_check st carrier (appendFactorProof st sourceGroup ?f G L @ [equal_pred (cf_group ?f) ?ref])
        = Inr CheckTrue" and es: "st_simplify st carrier [?ref] = Inr es"
      and window: "window = \<lparr>gw_stage = hd es, gw_local = cf_within ?f, gw_localGroups = L,
        gw_stageCount = (G + L - 1) div L\<rparr>"
      using w True by (auto simp: proveGroupWindow_def Let_def result_simps split: if_splits)
    have "evalSym env (cf_group ?f) = evalSym env ?ref"
      using sound_check [OF st c dom] by (simp add: equal_pred_sound)
    moreover have "map (evalSym env) es = [evalSym env ?ref]" using sound_simplify [OF st es dom] by simp
    then have "evalSym env (hd es) = evalSym env ?ref" by (cases es) auto
    ultimately have "hasValue env (hd es) (int (n div L))" using vals(1) by (simp add: hasValue_def)
    then show ?thesis using vals(2) stage_bound [OF n(2) L] L by (simp add: window windowSplits_def Let_def)
  qed
qed

lemma fiberAmong_splits:
  assumes st: "soundStore st" and dom: "inDomain carrier env" and n: "hasValue env sourceGroup (int n)" "n < G"
    and "fiberAmong st carrier sourceGroup G atZero ls = Inr (Some window)" and "0 \<notin> set ls"
  shows "windowSplits env n G window"
  using assms(5,6)
proof (induction ls)
  case Nil
  then have "window = \<lparr>gw_stage = SymInt 0, gw_local = sourceGroup, gw_localGroups = G, gw_stageCount = 1\<rparr>" by simp
  moreover have "(G + G - 1) div G = 1" using n(2) by (intro div_nat_eqI) simp_all
  ultimately show ?case using n by (simp add: windowSplits_def Let_def hasValue_def)
next
  case (Cons l ls)
  then show ?case
    using proveGroupWindow_splits [OF st dom n, of l atZero True window]
    by (auto simp: result_simps split: if_splits)
qed

subsection \<open>A small store\<close>

fun substSym :: "sym_expr \<Rightarrow> (sym_expr \<times> sym_expr) list \<Rightarrow> sym_expr" where
  "substSym (SymInt i) subs = SymInt i"
| "substSym (SymVar x) subs = (case map_of subs (SymVar x) of None \<Rightarrow> SymVar x | Some r \<Rightarrow> r)"
| "substSym (SymFloor e) subs = SymFloor (substSym e subs)"
| "substSym (SymBinary op l r) subs = SymBinary op (substSym l subs) (substSym r subs)"

lemma substSym_sound:
  assumes "\<And>x. hasValue env (case map_of subs (SymVar x) of None \<Rightarrow> SymVar x | Some r \<Rightarrow> r) (env' x)"
  shows "evalSym env (substSym e subs) = evalSym env' e"
  using assms by (induction e) (simp_all add: hasValue_def)

text \<open>The value of a closed expression over the integers, when its shape shows one.\<close>

fun foldSym :: "sym_expr \<Rightarrow> int option" where
  "foldSym (SymInt i) = Some i"
| "foldSym (SymVar x) = None"
| "foldSym (SymFloor (SymBinary SymDiv l r)) =
     (case (foldSym l, foldSym r) of (Some a, Some b) \<Rightarrow> Some (a div b) | _ \<Rightarrow> None)"
| "foldSym (SymFloor e) = None"
| "foldSym (SymBinary op l r) =
     (case (foldSym l, foldSym r) of
        (Some a, Some b) \<Rightarrow>
          (case op of SymAdd \<Rightarrow> Some (a + b) | SymSub \<Rightarrow> Some (a - b) | SymMul \<Rightarrow> Some (a * b)
                    | SymMod \<Rightarrow> Some (a mod b) | SymXor \<Rightarrow> Some (a XOR b) | _ \<Rightarrow> None)
      | _ \<Rightarrow> None)"

lemma foldSym_sound: "foldSym e = Some n \<Longrightarrow> hasValue env e n"
proof (induction e arbitrary: n rule: foldSym.induct)
  case (3 l r)
  then obtain a b where "foldSym l = Some a" "foldSym r = Some b" "n = a div b"
    by (auto split: option.splits)
  then show ?case using 3 by (simp add: hasValue_def Let_def floor_divide_of_int_eq)
next
  case (5 op l r)
  obtain a b where ab: "foldSym l = Some a" "foldSym r = Some b" using "5.prems" by (auto split: option.splits)
  have v: "hasValue env l a" "hasValue env r b" using "5.IH" ab by blast+
  have m: "hasValue env (SymBinary SymMod l r) (a mod b)" "hasValue env (SymBinary SymMul l r) (a * b)"
    using v hasValue_withInt(2,3) [OF v(1), of b] by (simp_all add: hasValue_def composeWithInt_def Let_def)
  show ?case using "5.prems" ab hasValue_binary [OF v] m by (auto split: ExprBinaryOp.splits)
qed simp_all

definition foldingStore :: "index_map \<Rightarrow> sym_pred list \<Rightarrow> sym_store" where
  "foldingStore carrier table =
     \<lparr>st_isIntegerValued = (\<lambda>_. True),
      st_substituteExpr = substSym,
      st_simplifyExpr = (\<lambda>e. case foldSym e of None \<Rightarrow> e | Some n \<Rightarrow> SymInt n),
      st_simplify = (\<lambda>_ es. Inr es),
      st_check = (\<lambda>m goals. if m = carrier \<and> list_all (\<lambda>g. g \<in> set table) goals then Inr CheckTrue
                            else Inr CheckUnknown)\<rparr>"

lemma foldingStore_sound:
  assumes "\<And>env g. inDomain carrier env \<Longrightarrow> g \<in> set table \<Longrightarrow> evalPred env g"
  shows "soundStore (foldingStore carrier table)"
proof -
  have "evalSym env (case foldSym e of None \<Rightarrow> e | Some n \<Rightarrow> SymInt n) = evalSym env e" for env e
    using foldSym_sound [of e] by (auto simp: hasValue_def split: option.split)
  then show ?thesis
    using assms substSym_sound
    by (auto simp: soundStore_def foldingStore_def list_all_iff split: if_splits)
qed

text \<open>
  Two items of one wave exchange their two slots: the item is read from its neighbour. The table
  holds the goals of the vector of two elements.
\<close>

definition swapOp :: redistribute_op where
  "swapOp = \<lparr>rd_blocks = 1, rd_items = 2, rd_sourceSlots = 2, rd_resultSlots = 2\<rparr>"

definition swapItem :: sym_expr where
  "swapItem = SymBinary SymXor (SymVar kItem) (SymInt 1)"

definition swapCarrier :: index_map where
  "swapCarrier = \<lparr>im_inputs = [\<lparr>in_variable = SymVar kBlock, in_extent = Some 1\<rparr>,
                                \<lparr>in_variable = SymVar kItem, in_extent = Some 2\<rparr>,
                                \<lparr>in_variable = SymVar kSlot, in_extent = Some 2\<rparr>],
                  im_facts = [], im_requirements = [], im_definitions = [],
                  im_exprs = [SymVar kBlock, swapItem, SymVar kSlot]\<rparr>"

definition swapTable :: "sym_pred list" where
  "swapTable =
     (let slot = SymVar kSlot; lane = composeWithInt swapItem SymMod 2;
          g = floorDiv slot 2; w = composeWithInt slot SymMod 2
      in [equal_pred lane lane, equal_pred swapItem swapItem,
          equal_pred (composeWithInt slot SymXor 1) (toggleCoordinateBit slot 1),
          SymCmp g CmpGe (SymInt 0), SymCmp g CmpLt (SymInt 1), SymCmp w CmpGe (SymInt 0), SymCmp w CmpLt (SymInt 2),
          equal_pred slot (SymBinary SymAdd (composeWithInt g SymMul 2) w)])"

definition swapStore :: sym_store where
  "swapStore = foldingStore swapCarrier swapTable"

lemma swap_point:
  assumes "inDomain swapCarrier env"
  shows "env kSlot = 0 \<or> env kSlot = 1"
proof -
  have "\<exists>n. hasValue env (SymVar kSlot) n \<and> 0 \<le> n \<and> n < 2"
    using assms by (simp add: inDomain_def swapCarrier_def)
  then have "0 \<le> env kSlot \<and> env kSlot < 2" by (auto simp: hasValue_def)
  then show ?thesis by arith
qed

lemma swapStore_sound: "soundStore swapStore"
  unfolding swapStore_def
proof (rule foldingStore_sound)
  fix env g assume dom: "inDomain swapCarrier env" and g: "g \<in> set swapTable"
  have bits: "(0 :: int) XOR 1 = 1" "(1 :: int) XOR 1 = 0" by simp_all
  have half: "\<lfloor>1 / 2 :: rat\<rfloor> = 0" by (simp add: floor_eq_iff)
  show "evalPred env g"
    using g swap_point [OF dom] bits half
    by (auto simp: swapTable_def Let_def equal_pred_def composeWithInt_def floorDiv_def toggleCoordinateBit_def)
qed

lemma swap_domain:
  assumes "env kBlock = 0" and "env kItem = 0 \<or> env kItem = 1" and "x < 2"
  shows "inDomain swapCarrier (atSlot env x)"
  using assms by (auto simp: inDomain_def swapCarrier_def hasValue_def kBlock_def kItem_def kSlot_def
      intro: exI [of _ "int x"])

subsection \<open>Properties\<close>


definition swapPlan :: packet_plan where
  "swapPlan = \<lparr>pp_sourceItem = swapItem, pp_sourceWithin = composeWithInt (SymVar kSlot) SymMod 2,
     pp_sourceGroup = floorDiv (SymVar kSlot) 2, pp_sourceWithinMask = 1, pp_resultWithinMask = 1,
     pp_vectorElements = 2, pp_sourceGroups = 1, pp_resultGroups = 1\<rparr>"


lemma swap_packet_plan: "buildPacketPlan swapStore swapOp swapCarrier 2 None True = Inr swapPlan"
  by code_simp


lemma swap_row: "slotRow swapCarrier (\<lambda>_. 0) 2 (SymVar kSlot) (\<lambda>x. x)"
  using swap_domain [of "\<lambda>_. 0"] by (simp add: slotRow_def hasValue_def)

lemma swap_item: "hasValue (atSlot (\<lambda>_. 0) x) swapItem 1"
  by (simp add: hasValue_def swapItem_def kItem_def kSlot_def)


text \<open>C10: A packet plan groups the slots of the result soundly. Whichever search finds it (by proofs about bits or by enumerating the relation), slots of the result that the plan puts into one vector come from one owner (the source item, or its lane when a wave width is given) and from one vector of the source; vectors are a power of two wide, not wider than either packet or the limit.\<close>
theorem packet_plan_uniform:
  assumes "soundStore st" and "im_exprs carrier = [sourceBlock, sourceItem, sourceSlot]"
    and "buildPacketPlan st op carrier maxElements waveWidth allow = Inr plan"
    and "b < rd_blocks op" and "i < rd_items op" and "env kBlock = int b" and "env kItem = int i"
    and "slotRow carrier env (rd_resultSlots op) sourceSlot slotOf"
    and "\<And>x. x < rd_resultSlots op \<Longrightarrow> hasValue (atSlot env x) sourceItem (itemOf x)"
    and "\<And>x. x < rd_resultSlots op \<Longrightarrow> slotOf x < rd_sourceSlots op"
    and "x < rd_resultSlots op" and "y < rd_resultSlots op"
    and "sameVector (pp_resultWithinMask plan) (rd_resultSlots op) (pp_vectorElements plan) x y"
  shows "ownerOf waveWidth (itemOf x) = ownerOf waveWidth (itemOf y) \<and>
    sameVector (pp_sourceWithinMask plan) (rd_sourceSlots op) (pp_vectorElements plan) (slotOf x) (slotOf y) \<and>
    (\<exists>j. pp_vectorElements plan = 2 ^ j) \<and>
    pp_vectorElements plan \<le> min (rd_sourceSlots op) (min (rd_resultSlots op) maxElements)"
  using buildPacketPlan_uniform [OF assms(1-10)] assms(11-13) unfolding uniformRow_def by blast

theorem packet_plan_uniform_witness:
  "sameVector (pp_sourceWithinMask swapPlan) 2 (pp_vectorElements swapPlan) 0 1 \<and> pp_vectorElements swapPlan = 2"
proof -
  have "sameVector (pp_resultWithinMask swapPlan) (rd_resultSlots swapOp) (pp_vectorElements swapPlan) 0 1"
    by code_simp
  then have "sameVector (pp_sourceWithinMask swapPlan) (rd_sourceSlots swapOp) (pp_vectorElements swapPlan) 0 1"
    using swap_row swap_item
    by (intro conjunct1 [OF conjunct2 [OF packet_plan_uniform [OF swapStore_sound _ swap_packet_plan,
          where b = 0 and i = 0 and env = "\<lambda>_. 0" and slotOf = "\<lambda>x. x" and itemOf = "\<lambda>_. 1" and x = 0 and y = 1]]])
      (simp_all add: swapOp_def swapCarrier_def)
  then show ?thesis by (simp add: swapOp_def swapPlan_def)
qed

text \<open>C34: A group window splits the source vectors exactly: the stage and the local group of every point are the quotient and the remainder of the source vector by the number of local groups, the stage is below the count of stages, and the window respects the capacity.\<close>
theorem group_window_splits:
  assumes "soundStore st" and "inDomain carrier env"
    and "hasValue env sourceGroup (int n)" and "n < sourceGroups"
    and "buildGroupWindow st carrier sourceGroup sourceGroups maxLocalGroups = Inr window"
  shows "0 < gw_localGroups window \<and> gw_localGroups window \<le> maxLocalGroups \<and>
    hasValue env (gw_stage window) (int (n div gw_localGroups window)) \<and>
    hasValue env (gw_local window) (int (n mod gw_localGroups window)) \<and>
    n div gw_localGroups window < gw_stageCount window \<and>
    gw_stageCount window = (sourceGroups + gw_localGroups window - 1) div gw_localGroups window"
proof -
  obtain item :: map_input and found where max: "maxLocalGroups \<noteq> 0"
    and found: "findGroupWindowFiber st carrier sourceGroup sourceGroups [(in_variable item, SymInt 0)] = Inr found"
    and rest: "(case found of None \<Rightarrow> Inl Failure
      | Some w \<Rightarrow> if min (gw_localGroups w) maxLocalGroups = gw_localGroups w then Inr w
             else bindR (proveGroupWindow st carrier sourceGroup sourceGroups
                 (min (gw_localGroups w) maxLocalGroups) [(in_variable item, SymInt 0)] False)
               (\<lambda>refined. case refined of Some w \<Rightarrow> Inr w | None \<Rightarrow> Inl Failure)) = Inr window"
    using assms(5) by (auto simp: buildGroupWindow_def Let_def result_simps split: if_split_asm)
  obtain fiber where some: "found = Some fiber" using rest by (cases found) auto
  then have fiber: "findGroupWindowFiber st carrier sourceGroup sourceGroups [(in_variable item, SymInt 0)]
      = Inr (Some fiber)" using found by simp
  have w: "min (gw_localGroups fiber) maxLocalGroups = gw_localGroups fiber \<and> window = fiber \<or>
      proveGroupWindow st carrier sourceGroup sourceGroups (min (gw_localGroups fiber) maxLocalGroups)
        [(in_variable item, SymInt 0)] False = Inr (Some window)"
    using rest by (auto simp: some Let_def result_simps split: if_split_asm option.split_asm)
  have f: "windowSplits env n sourceGroups fiber"
    using fiberAmong_splits [OF assms(1-4) fiber [unfolded findGroupWindowFiber_def]] by simp
  then have "0 < min (gw_localGroups fiber) maxLocalGroups" using max by (simp add: windowSplits_def Let_def)
  then have "windowSplits env n sourceGroups window \<and> gw_localGroups window \<le> maxLocalGroups"
    using w f proveGroupWindow_splits [OF assms(1-4)] by (metis min.cobounded2)
  then show ?thesis by (simp add: windowSplits_def Let_def)
qed

text \<open>A window over four vectors with room for two of them.\<close>

definition windowCarrier :: index_map where
  "windowCarrier = \<lparr>im_inputs = [\<lparr>in_variable = SymVar kItem, in_extent = Some 4\<rparr>],
                    im_facts = [], im_requirements = [], im_definitions = [], im_exprs = []\<rparr>"

definition windowTable :: "sym_pred list" where
  "windowTable = appendFactorProof (foldingStore windowCarrier []) (SymVar kItem) (factorCoordinate (SymVar kItem) 2) 4 2"

definition windowStore :: sym_store where
  "windowStore = foldingStore windowCarrier windowTable"

lemma windowStore_sound: "soundStore windowStore"
  unfolding windowStore_def
proof (rule foldingStore_sound)
  fix env g assume dom: "inDomain windowCarrier env" and g: "g \<in> set windowTable"
  have "0 \<le> env kItem \<and> env kItem < 4"
    using dom by (auto simp: inDomain_def windowCarrier_def hasValue_def)
  then consider "env kItem = 0" | "env kItem = 1" | "env kItem = 2" | "env kItem = 3" by linarith
  moreover have "\<lfloor>1 / 2 :: rat\<rfloor> = 0" "\<lfloor>3 / 2 :: rat\<rfloor> = 1" by (simp_all add: floor_eq_iff)
  ultimately show "evalPred env g"
    using g by cases (auto simp: windowTable_def foldingStore_def appendFactorProof_def Let_def
      appendCoordinateRequirements_def factorCoordinate_def equal_pred_def composeWithInt_def floorDiv_def)
qed

theorem group_window_splits_witness:
  "\<exists>window. buildGroupWindow windowStore windowCarrier (SymVar kItem) 4 2 = Inr window \<and>
     gw_localGroups window \<le> 2 \<and>
     hasValue (\<lambda>_. 3) (gw_stage window) (int (3 div gw_localGroups window)) \<and>
     hasValue (\<lambda>_. 3) (gw_local window) (int (3 mod gw_localGroups window))"
proof -
  let ?w = "\<lparr>gw_stage = floorDiv (SymVar kItem) 2, gw_local = composeWithInt (SymVar kItem) SymMod 2,
    gw_localGroups = 2, gw_stageCount = 2\<rparr>"
  have w: "buildGroupWindow windowStore windowCarrier (SymVar kItem) 4 2 = Inr ?w" by code_simp
  have "inDomain windowCarrier (\<lambda>_. 3)"
    by (auto simp: inDomain_def windowCarrier_def hasValue_def intro: exI [of _ 3])
  then show ?thesis
    using w group_window_splits [OF windowStore_sound _ _ _ w, of "\<lambda>_. 3" 3] by (simp add: hasValue_def)
qed

text \<open>Vectors at permuted items fill the buffer without overlap.\<close>

lemma vectors_fill:
  assumes p: "\<And>g. bij_betw (\<lambda>x. p x g) {..< items} {..< items}"
  shows "bij_betw (\<lambda>(g, x, e). (g * items + p x g) * ve + e) ({..< groups} \<times> {..< items} \<times> {..< ve})
    {..< groups * items * ve :: nat}"
proof -
  let ?f = "\<lambda>(g, x, e). (g * items + p x g) * ve + e" and ?A = "{..< groups} \<times> {..< items} \<times> {..< ve}"
  have range: "p x g < items" if "x < items" for x g using p [of g] that by (auto simp: bij_betw_def)
  have below: "a * n + b < m * n" if "a < m" "b < n" for a b m n :: nat
  proof -
    have "a * n + b < Suc a * n" using that(2) by simp
    also have "\<dots> \<le> m * n" using that(1) by (intro mult_le_mono1) simp
    finally show ?thesis .
  qed
  have split: "a = a' \<and> b = b'" if "a * n + b = a' * n + b'" "b < n" "b' < n" for a b a' b' n :: nat
  proof -
    have "(a * n + b) div n = a" "(a * n + b) mod n = b" using that(2) by simp_all
    moreover have "(a' * n + b') div n = a'" "(a' * n + b') mod n = b'" using that(3) by simp_all
    ultimately show ?thesis using that(1) by simp
  qed
  have inj: "inj_on ?f ?A"
  proof (rule inj_onI)
    fix a b assume a: "a \<in> ?A" and b: "b \<in> ?A" and eq: "?f a = ?f b"
    obtain g x e where ga: "a = (g, x, e)" by (cases a)
    obtain g' x' e' where gb: "b = (g', x', e')" by (cases b)
    have dom: "x < items" "x' < items" "e < ve" "e' < ve" using a b by (simp_all add: ga gb)
    have "(g * items + p x g) * ve + e = (g' * items + p x' g') * ve + e'" using eq by (simp add: ga gb)
    from split [OF this dom(3,4)] have s: "g * items + p x g = g' * items + p x' g' \<and> e = e'" .
    have g: "g = g' \<and> p x g = p x' g'"
      by (rule split [OF conjunct1 [OF s] range [OF dom(1)] range [OF dom(2)]])
    moreover have "inj_on (\<lambda>x. p x g) {..< items}" using p [of g] by (simp add: bij_betw_def)
    ultimately have "x = x'" using dom g by (auto dest: inj_onD)
    then show "a = b" using s g by (simp add: ga gb)
  qed
  have "?f ` ?A \<subseteq> {..< groups * items * ve}" using below range by auto
  moreover have "card (?f ` ?A) = card {..< groups * items * ve}"
    using card_image [OF inj] by (simp add: card_cartesian_product)
  ultimately have "?f ` ?A = {..< groups * items * ve}" by (intro card_subset_eq) simp_all
  with inj show ?thesis unfolding bij_betw_def by blast
qed

text \<open>C9: The selected scratch layout loses nothing: whatever candidates the search visits, the vectors of all items of all local groups are stored at addresses that do not overlap and fill the buffer exactly; the items are permuted inside their aligned tiles.\<close>
theorem scratch_vectors_disjoint:
  assumes "selectScratchPhysicalLayout op packet window waveWidth elementBits literals targetModule = Inr layout"
    and "0 < rd_items op"
  shows "bij_betw (\<lambda>(g, x, e). physicalVectorAddress layout (rd_items op) (pp_vectorElements packet) x g + e)
      ({..< gw_localGroups window} \<times> {..< rd_items op} \<times> {..< pp_vectorElements packet})
      {..< gw_localGroups window * rd_items op * pp_vectorElements packet} \<and>
    physicalItem layout x g div 2 ^ countr_zero (rd_items op) = x div 2 ^ countr_zero (rd_items op)"
proof
  have valid: "validLayout (countr_zero (rd_items op)) layout" by (rule selected_cases(1) [OF assms(1)])
  have "bij_betw (\<lambda>x. physicalItem layout x g) {..< rd_items op} {..< rd_items op}" for g
    using physicalItem_permutes [OF valid countr_zero_dvd] assms(2) by (simp add: lessThan_atLeast0)
  then show "bij_betw (\<lambda>(g, x, e). physicalVectorAddress layout (rd_items op) (pp_vectorElements packet) x g + e)
      ({..< gw_localGroups window} \<times> {..< rd_items op} \<times> {..< pp_vectorElements packet})
      {..< gw_localGroups window * rd_items op * pp_vectorElements packet}"
    unfolding physicalVectorAddress_def by (rule vectors_fill)
  show "physicalItem layout x g div 2 ^ countr_zero (rd_items op) = x div 2 ^ countr_zero (rd_items op)"
    by (rule physicalItem_tile [OF valid])
qed

text \<open>Four items exchange one 32-bit element with the opposite item, in two local groups.\<close>

definition scratchOp :: redistribute_op where
  "scratchOp = \<lparr>rd_blocks = 1, rd_items = 4, rd_sourceSlots = 2, rd_resultSlots = 2\<rparr>"

definition scratchPacket :: packet_plan where
  "scratchPacket = \<lparr>pp_sourceItem = SymVar kItem, pp_sourceWithin = SymInt 0, pp_sourceGroup = SymVar kSlot,
     pp_sourceWithinMask = 0, pp_resultWithinMask = 0, pp_vectorElements = 1, pp_sourceGroups = 2, pp_resultGroups = 2\<rparr>"

definition scratchWindow :: group_window where
  "scratchWindow = \<lparr>gw_stage = SymInt 0, gw_local = SymVar kSlot, gw_localGroups = 2, gw_stageCount = 1\<rparr>"

definition scratchLiterals :: "nat \<Rightarrow> nat \<Rightarrow> int \<Rightarrow> (int option \<times> int option) option" where
  "scratchLiterals block item slot = Some (Some (3 - int item), Some slot)"

lemma scratch_inputs:
  "\<exists>pattern. buildScratchLayoutInputs scratchOp scratchPacket scratchWindow 32 scratchLiterals None =
     Inr (Some (pattern, \<lparr>sh_vectorBits = 32, sh_workPerScore = 16\<rparr>,
       \<lparr>lt_bankCount = 32, lt_dwordsPerLane = 1, lt_loadLaneGrouping = Contiguous\<rparr>))"
proof -
  have "isIdentitySlotPermutation 2 0" by (simp add: isIdentitySlotPermutation_def popcount.simps [of 0])
  then show ?thesis
    by (simp add: buildScratchLayoutInputs_def getScratchLayoutShape_def getScratchLayoutPoints_def
        getScratchAccessShape_def getSharedMemoryAccessTopology_def buildScratchAccessPattern_def
        specializeLoadPoint_def getScratchLoadPoint_def scratchOp_def scratchPacket_def scratchWindow_def
        scratchLiterals_def checkedMul_def checkedAdd_def kMaxLayoutPoints_def packedToLogicalSlot_def
        upt_conv_Cons Let_def)
qed

lemma scratch_selected:
  "\<exists>layout. selectScratchPhysicalLayout scratchOp scratchPacket scratchWindow 4 32 scratchLiterals None = Inr layout"
  using scratch_inputs by (auto simp: selectScratchPhysicalLayout_def)

theorem scratch_vectors_disjoint_witness:
  "\<exists>layout. selectScratchPhysicalLayout scratchOp scratchPacket scratchWindow 4 32 scratchLiterals None = Inr layout \<and>
     bij_betw (\<lambda>(g, x, e). physicalVectorAddress layout 4 1 x g + e) ({..< 2} \<times> {..< 4} \<times> {..< 1}) {..< 8} \<and>
     physicalItem layout 3 1 div 4 = 0"
proof -
  obtain layout where layout: "selectScratchPhysicalLayout scratchOp scratchPacket scratchWindow 4 32 scratchLiterals None
      = Inr layout" using scratch_selected by blast
  have "countr_zero 4 = 2"
    using countr_zero.simps [of 4] countr_zero.simps [of 2] countr_zero.simps [of 1] by simp
  then show ?thesis
    using scratch_vectors_disjoint [OF layout, of 3 1] layout
    by (auto simp: scratchOp_def scratchPacket_def scratchWindow_def)
qed

text \<open>C22: The search for a scratch layout never makes bank conflicts worse: under the topology of the target the selected layout has at most the conflicts of the identity layout, whatever the budget left and also when the layout found for contiguous lanes is taken early.\<close>
theorem scratch_layout_never_worse:
  assumes "selectScratchPhysicalLayout op packet window waveWidth elementBits literals targetModule = Inr layout"
    and "buildScratchLayoutInputs op packet window elementBits literals targetModule
      = Inr (Some (pattern, shape, topology))"
  shows "scoreScratchLayout op pattern packet (gw_localGroups window) waveWidth elementBits shape topology layout
      \<le> scoreScratchLayout op pattern packet (gw_localGroups window) waveWidth elementBits shape topology
          identityLayout"
  by (rule selected_cases(2) [OF assms])

theorem scratch_layout_never_worse_witness:
  "\<exists>layout pattern. selectScratchPhysicalLayout scratchOp scratchPacket scratchWindow 4 32 scratchLiterals None = Inr layout \<and>
     scoreScratchLayout scratchOp pattern scratchPacket 2 4 32 \<lparr>sh_vectorBits = 32, sh_workPerScore = 16\<rparr>
       \<lparr>lt_bankCount = 32, lt_dwordsPerLane = 1, lt_loadLaneGrouping = Contiguous\<rparr> layout
     \<le> scoreScratchLayout scratchOp pattern scratchPacket 2 4 32 \<lparr>sh_vectorBits = 32, sh_workPerScore = 16\<rparr>
       \<lparr>lt_bankCount = 32, lt_dwordsPerLane = 1, lt_loadLaneGrouping = Contiguous\<rparr> identityLayout"
proof -
  obtain layout where layout: "selectScratchPhysicalLayout scratchOp scratchPacket scratchWindow 4 32 scratchLiterals None
      = Inr layout" using scratch_selected by blast
  obtain pattern where inputs: "buildScratchLayoutInputs scratchOp scratchPacket scratchWindow 32 scratchLiterals None =
     Inr (Some (pattern, \<lparr>sh_vectorBits = 32, sh_workPerScore = 16\<rparr>,
       \<lparr>lt_bankCount = 32, lt_dwordsPerLane = 1, lt_loadLaneGrouping = Contiguous\<rparr>))"
    using scratch_inputs by blast
  have "gw_localGroups scratchWindow = 2" by (simp add: scratchWindow_def)
  then show ?thesis using layout scratch_layout_never_worse [OF layout inputs] by auto
qed

text \<open>C33: The expression emitted for the physical item computes the layout: for every layout the search selects, the exclusive-ors gathered by shift and mask and the phase of the group evaluate to the item that the scores were computed with.\<close>
theorem physical_item_expression:
  assumes "selectScratchPhysicalLayout op packet window waveWidth elementBits literals targetModule = Inr layout"
    and "hasValue env item (int x)" and "hasValue env localGroup (int g)"
  shows "hasValue env (composeScratchPhysicalItem item localGroup layout) (int (physicalItem layout x g))"
  by (rule composeScratchPhysicalItem_value [OF selected_cases(1) [OF assms(1)] assms(2,3)])

theorem physical_item_expression_witness:
  "\<exists>layout. selectScratchPhysicalLayout scratchOp scratchPacket scratchWindow 4 32 scratchLiterals None = Inr layout \<and>
     hasValue (\<lambda>_. 1) (composeScratchPhysicalItem (SymVar kItem) (SymVar kSlot) layout) (int (physicalItem layout 1 1))"
proof -
  obtain layout where layout: "selectScratchPhysicalLayout scratchOp scratchPacket scratchWindow 4 32 scratchLiterals None
      = Inr layout" using scratch_selected by blast
  have "hasValue (\<lambda>_. 1) (SymVar y) (int 1)" for y by (simp add: hasValue_def)
  from physical_item_expression [OF layout this this] show ?thesis using layout by blast
qed

text \<open>C35: Renumbering slots by a mask and back is the identity: for every mask and every count of slots, the expression of the inverse permutation applied to the expression of the permutation has the value of the slot, and the packed slot stays in range.\<close>
theorem slot_permutation_roundtrip:
  assumes "hasValue env value x" and "0 \<le> x" and "x < int slots"
  shows "hasValue env (composeSlotPermutation (composeSlotPermutation value slots withinMask False) slots withinMask True) x \<and>
    hasValue env (composeSlotPermutation value slots withinMask False) (logicalToPackedSlot withinMask slots x) \<and>
    packedToLogicalSlot withinMask slots (logicalToPackedSlot withinMask slots x) = x \<and>
    0 \<le> logicalToPackedSlot withinMask slots x \<and> logicalToPackedSlot withinMask slots x < int slots"
  using composeSlotPermutation_value [OF assms(1), of slots withinMask False]
    composeSlotPermutation_value [OF composeSlotPermutation_value [OF assms(1), of slots withinMask False],
      of slots withinMask True] slot_roundtrip(2,4) [OF assms(2,3), of withinMask]
  by simp

theorem slot_permutation_roundtrip_witness:
  "packedToLogicalSlot 5 8 (logicalToPackedSlot 5 8 6) = 6 \<and>
   hasValue (\<lambda>_. 6) (composeSlotPermutation (SymVar kSlot) 8 5 False) (logicalToPackedSlot 5 8 6)"
  using slot_permutation_roundtrip [of "\<lambda>_. 6" "SymVar kSlot" 6 8 5] by (simp add: hasValue_def)

end
