(* ===== verification/Spec2Isabelle.thy ===== *)
theory Spec2Isabelle
  imports Resource_Props Sched_Tables Calibration Wave_Props Wave_Hazards Wave_Describe
    Multi_Wave_Props Event_Sim_Props Reg_Alloc_Props Reg_Budget Int_Div_Props
    Mod_Props Redist_Props
begin

text \<open>
  A verification development of four parts of a compiler from GPU kernels to machine code of AMD
  targets: the instruction cost model of the WaveAMDMachine dialect
  (\<^verbatim>\<open>lib/Dialect/WaveAMDMachine/CostModel\<close>, \<^verbatim>\<open>CostModel/\<close> below; the headers are in
  \<^verbatim>\<open>include/mlir/Dialect/WaveAMDMachine/CostModel\<close>), the linear-scan register allocator
  (\<^verbatim>\<open>lib/Dialect/Wave/Transforms/RegAlloc\<close>), the integer arithmetic of the Wave dialect with
  the expansion of divisions (\<^verbatim>\<open>lib/Dialect/Wave/IR/Wave.cpp\<close>,
  \<^verbatim>\<open>lib/Dialect/Wave/Transforms/WaveExpandIntegerDivRem.cpp\<close>), and the redistribution of values
  between work items (\<^verbatim>\<open>lib/Dialect/Wave/Transforms/WaveRedistributePlanning.cpp\<close>,
  \<^verbatim>\<open>WaveRedistributeLayoutPlanning.cpp\<close>, \<^verbatim>\<open>WaveLowerRedistribute.cpp\<close>).

  The program. Kernels are written in the Wave dialect; integer divisions, which the targets do not
  have, are expanded into multiplications, shifts and selects. The compiler lowers the result to
  machine operations, schedules them and allocates registers. The cost model simulates the
  hardware: it tells the schedulers and the event simulator in which cycle an operation can issue
  and why it has to wait. The parts of the cost model, from the data to the clients:

  \<^item> \<open>Prelude\<close>: results of fallible code (\<open>error + 'a\<close>: \<open>Failure\<close> is
    \<^verbatim>\<open>mlir::failure()\<close>, \<open>FatalError\<close> and \<open>Unreachable\<close> end the process), the
    conversions of machine integers, loops that may fail, and the locale \<open>timeline\<close>: a state with
    an invariant and a clock that its steps only move forward.
  \<^item> \<open>Arch_Data\<close> (\<^verbatim>\<open>ArchData.cpp\<close>, \<^verbatim>\<open>CostModelEnums.td\<close>), \<open>Sched_Tables\<close>
    (\<^verbatim>\<open>LatencyTable.cpp/.inc\<close>, \<^verbatim>\<open>FunctionalUnit.cpp\<close>,
    \<^verbatim>\<open>FunctionalUnitTable.inc\<close>): the parameters of every target, its scheduling tables and
    their lookups.
  \<^item> \<open>Resource_State\<close>, \<open>Resource_Props\<close> (\<^verbatim>\<open>InstructionResourceState.cpp\<close>): calendars of the
    issue resources of a compute unit. A calendar is a list of half-open reservations with a
    capacity; \<open>query_rs\<close> finds the first feasible cycle among finitely many candidates,
    \<open>commit_rs\<close> records the uses and prunes what has ended.
  \<^item> \<open>Machine_IR\<close> (\<^verbatim>\<open>WaveAMDMachineWaitcntInfo.cpp\<close>, traits), \<open>Op_Classifier\<close>
    (\<^verbatim>\<open>OpClassifier.cpp\<close>): what the cost model reads of an operation, and its scheduling
    class, issue count and coexecution model.
  \<^item> \<open>Calibration\<close> (\<^verbatim>\<open>CalibrationData.cpp\<close>) and \<open>Memory_Timing\<close>
    (\<^verbatim>\<open>MemoryCounterTiming.cpp\<close>): measured latencies, wait counters and memory latencies.
  \<^item> \<open>Schedule_Model\<close> (first half of \<^verbatim>\<open>InstructionExecutionState.cpp\<close>): the program-order
    resource preview and the policy that admits and ranks ready candidates.
  \<^item> \<open>Execution_State\<close>, \<open>Execution_Query\<close>, \<open>Execution_Commit\<close> (the rest of
    \<^verbatim>\<open>InstructionExecutionState.cpp\<close>): one wave. Its state records when values are ready, the
    pending memory events with one queue per wait counter, the queues of pipes and memory issue
    units, hazards in issue slots and the coexecution window; \<open>queryWithResources\<close> computes the
    stall of an operation, \<open>commitWithResources\<close> issues it.
  \<^item> \<open>Multi_Wave\<close> (\<^verbatim>\<open>MultiWaveExecutionState.cpp\<close>): the waves resident on a compute unit,
    each with its own state, all with one \<open>resource_state\<close>; selection of the next wave, commits
    and cohorts.
  \<^item> \<open>Event_Sim\<close> (\<^verbatim>\<open>EventSimulator.cpp\<close>): a kernel with structured control flow on one
    wave, or a linear kernel on a full compute unit, as a timeline of events.

  The parts of the register allocator:

  \<^item> \<open>Reg_State\<close> (\<^verbatim>\<open>WaveAMDRegAllocTransformState.h\<close>, \<^verbatim>\<open>...Utils.h\<close>): values, alias
    sets and assignments; live ranges as ordered lists of closed intervals with insertion, merge
    and overlap.
  \<^item> \<open>Reg_Target\<close> (\<^verbatim>\<open>WaveAMDRegisterLimits.cpp\<close>, \<^verbatim>\<open>WaveAMDExecIfUtils.cpp\<close>): register
    limits, legal bases of scalar tuples, and the area that saves execution masks.
  \<^item> \<open>Reg_Budget\<close> (last part of \<^verbatim>\<open>WaveAMDRegAllocTransformState.cpp\<close>): how many registers of a
    class the allocation may use; the scanner gets the result as \<open>sc_budget\<close> and
    \<open>sc_familyBudget\<close>.
  \<^item> \<open>Reg_Entry\<close> (first third of \<^verbatim>\<open>WaveAMDRegAllocTransformLoop.cpp\<close>,
    \<^verbatim>\<open>...Utils.cpp\<close>): registers fixed by the entry ABI, hardware register reads, names of
    scalar registers, operands that die at a definition.
  \<^item> \<open>Reg_Scan\<close> (\<^verbatim>\<open>RegAllocLinearScanner\<close> of the same file): \<open>parseState\<close> builds the
    environment (index of the sets, fixed bases, reservations), \<open>scanSets\<close> visits the alias sets
    in the order of their starts, \<open>expire\<close> drops what has ended, \<open>allocateSet\<close> picks the fixed
    base, the first free base or a base to reuse, and \<open>run_scan\<close> gives every value its register
    or records why that is not possible.

  The parts of the integer arithmetic:

  \<^item> \<open>Wave_Expr\<close> (\<^verbatim>\<open>Wave.cpp\<close>, \<^verbatim>\<open>WaveEnums.td\<close>): operations as expression trees with the
    value they compute; the folders of binary operations and integer conversions.
  \<^item> \<open>Wave_Typing\<close> (\<^verbatim>\<open>Wave.cpp\<close>): the verifiers of the operations the expansion builds.
  \<^item> \<open>Int_Div\<close> (\<^verbatim>\<open>WaveExpandIntegerDivRem.cpp\<close>): normalization of signed divisions and the
    expansion, with its forms for known powers of two, constants (magic numbers), 32-bit
    reciprocals, restoring division, signed operands and operands known to be narrow. An operation
    of the code that is used twice occurs twice in the tree: its value is the same.
  \<^item> \<open>Mod_Recurrence\<close> (the same file): the collection of remainders of an induction variable in a
    loop and their replacement by residues that the loop carries.

  The parts of the redistribution:

  \<^item> \<open>Redist_Slots\<close> (\<^verbatim>\<open>WaveRedistributePlanning.cpp\<close>, \<^verbatim>\<open>WaveSymbols.h\<close>): symbolic expressions
    with their rational value, the plan structures, and the permutations of slot numbers by a mask,
    as functions and as emitted expressions.
  \<^item> \<open>Redist_Packet\<close> (the rest of that file): \<open>buildPacketPlan\<close> groups the slots of the result into
    vectors, by proofs about the bits of the slots or by enumerating the relation;
    \<open>buildGroupWindow\<close> splits the vectors of the source into stages. Every query of the symbolic
    store is a call of a field of the record \<open>sym_store\<close>.
  \<^item> \<open>Redist_Layout\<close> (\<^verbatim>\<open>WaveRedistributeLayoutPlanning.cpp\<close> and the local-memory functions of
    \<^verbatim>\<open>WaveAMDMachineTarget.cpp\<close>): the layouts of the scratch buffer, their bank scores and the
    bounded search for the best one.
  \<^item> \<open>Redist_Wave\<close> (\<^verbatim>\<open>lowerWave\<close> in \<^verbatim>\<open>WaveLowerRedistribute.cpp\<close>): the direct plan and the code it
    emits, read as what it computes for one item.

  The state of every C++ class is a record with a field for each member, its methods are functions
  that take and return the record, and the functions call each other as the methods do. The record
  \<open>op_info\<close> is the view of an operation; uses of a value are read from the list of operations
  \<open>prog\<close> that stands for the surrounding IR. Regions of the event simulator are lists of
  \<open>machine_op\<close>.

  What the lemmas show:

  \<^item> Resources: \<open>canReserve\<close> decides the capacity bound at every cycle, \<open>query_rs\<close> is the least
    feasible cycle and exists, commits keep all calendars within capacity, pruning is not
    observable.
  \<^item> One wave (\<open>Drain\<close>, \<open>Execution_Queues\<close>, \<open>Execution_Invariant\<close>, \<open>Execution_Props\<close>): the locale
    \<open>drain\<close> is the contract of an in-order queue (from which cycle on are at most \<open>k\<close> entries
    left); counters, pipes and memory queues are its interpretations. The invariant \<open>waveOk\<close> holds
    initially and after every bind and commit. \<open>Wave_Props\<close>, \<open>Wave_Hazards\<close> and \<open>Wave_Describe\<close>
    state what a committed instruction has waited for: operands, tokens, counters, issue slots.
  \<^item> Compute unit (\<open>Multi_Wave_Invariant\<close>, \<open>Multi_Wave_Props\<close>): every commit issues where the
    query found all shared resources free; arbitration picks the earliest wave and is fair; a
    cohort commit is a sequence of single-wave commits. The locale \<open>timeline\<close> is interpreted on
    the steps of a compute unit.
  \<^item> Event simulator (\<open>Event_Sim_Props\<close>): the locale \<open>observation\<close> states which parts of a
    timeline no step reads; its interpretations give that trial runs cost what real runs do and
    that recording is not observable. The recorded timeline is ordered and complete, and a run
    over a full compute unit issues every instruction on every wave.

  \<^item> Register allocation: \<open>Reg_Scan_Inv\<close> and \<open>Reg_Scan_Props\<close> state the invariant \<open>scan_ok\<close> (all
    assignments so far are legal and pairwise separated) and that every step keeps it; \<open>Reg_Active\<close>
    shows that the lanes, the map and the heap of \<open>active_assignments\<close> agree, with the locale
    \<open>heap_order\<close> for what expiry uses of the heap; \<open>Reg_Parse\<close> that \<open>parseState\<close> establishes the
    invariant; \<open>Reg_First_Fit\<close> that the search for a base is a first fit. \<open>Reg_Alloc_Props\<close> has the
    results: live values never clash, budgets are kept, the scan ends. \<open>Reg_Exec_Save\<close>: the saved
    masks fit; \<open>Reg_Budget\<close>: the budget is the least of the limits that apply. \<open>Reg_Example\<close> is the run that the witnesses use.
  \<^item> Integer arithmetic: \<open>Wave_Fold\<close> shows the folders sound; \<open>Int_Div_Unsigned\<close> the high product
    from halves, the magic-number division, the restoring division and the Newton step;
    \<open>Int_Div_Signed\<close> the sign corrections; \<open>Int_Div_Types\<close> that what is built passes the verifiers;
    \<open>Int_Div_Expand\<close> the remaining forms. \<open>Int_Div_Props\<close> has the results: the expansion computes
    what the constant folder computes, with the operations for which it does not. \<open>Mod_Props\<close>
    shows that carried residues are the remainders they replace, and two kinds of offsets for
    which they are not.

  \<^item> Redistribution: \<open>Redist_Packet_Props\<close> shows what the searches rely on (dependencies between
    bits are sound) and that plans are uniform; \<open>Redist_Layout_Props\<close> that every candidate layout
    permutes the items inside their tiles, that scores are not negative and that the search only
    improves; \<open>Redist_Props\<close> has the results: the lowering inside waves delivers what the relation
    names, vectors in the scratch buffer do not overlap, a selected layout is never worse than the
    identity, windows split exactly, slot permutations are invertible.

  Bounds and fuel. \<^verbatim>\<open>int64_t\<close> cycles are \<open>int\<close>: the saturating operations of the code are
  modelled as they are, and a commit whose issue cycle exceeds \<open>INT64_MAX\<close> is outside the model
  (the hypothesis \<open>issueCycle r \<le> INT64_MAX\<close>, or the value \<open>Unreachable\<close>).
  \<^verbatim>\<open>unsigned\<close> and \<^verbatim>\<open>uint64_t\<close> are \<open>nat\<close>, reduced with \<open>to_u32\<close>, \<open>trunc_u32\<close> and
  \<open>wrap_u64\<close> where they are converted or may wrap. All loops are structural recursions or have a
  termination proof (\<open>sweepEvents\<close>, \<open>reachesStoreWriteData\<close>, \<open>cohortLoop\<close>), except
  \<open>findFreeLoop\<close>: it gets two steps more than the greatest base, and the first-fit theorem and
  \<open>run_scan_total\<close> show that it never uses them up, and \<open>doubleUpTo\<close>, which gets as many steps
  as its limit: \<open>getMaxPacketVectorElements_greatest\<close> shows that they are enough.
  \<open>selectItemXorLayout\<close> ends because every round uses one more pair of bits. Slots, items and
  addresses of redistributions are naturals (their products pass the checked arithmetic), the
  budgets \<open>kMaxLayoutWork\<close> and \<open>kMaxEnumeratedPacketPoints\<close> are those of the code. Registers are 32-bit numbers, the bounds on
  budgets and positions in \<open>input_ok\<close> exclude wrap-around. Values of integer operations are naturals
  below \<open>2 ^ bits\<close>, for every width.

  What is not code of the repository is a parameter: \<open>llvm_env\<close> holds what LLVM reports for
  gfx1250, and \<open>json\<close> values stand for the result of LLVM's parser; \<open>magics\<close> stands for LLVM's
  \<^verbatim>\<open>UnsignedDivisionByConstantInfo\<close> with its documented property (\<open>magics_ok\<close>, which
  \<open>roundUpMagics\<close> has), the reciprocal estimate of the hardware for a function with a bounded
  error (\<open>reciprocal_estimate\<close>), and the record \<open>proofs\<close> for the answers of the range and
  power-of-two analyses (\<open>sound_proofs\<close>). The symbolic store of the redistribution is the record
  \<open>sym_store\<close>: its checks answer true only for goals that hold at every point, substitution and
  simplification keep values (\<open>soundStore\<close>; \<open>foldingStore\<close> is an instance). The materializer of
  expressions is a function that gives their value (\<open>faithfulMaterializer\<close>), \<open>literals\<close> is what
  the store simplifies scratch coordinates to, and \<open>lds_subtarget\<close> what LLVM reports of the target.
  Sorting with equal keys keeps
  the order; \<^verbatim>\<open>llvm::sort\<close> leaves it open.

  Not modelled: diagnostics (only that an operation fails), copy constructors and assignment
  (values are copied by nature), the file access of \<^verbatim>\<open>CalibrationData::loadFromFile\<close>, name
  tables for printing (\<^verbatim>\<open>SchedClass.cpp\<close>); of the register allocator the construction of alias
  sets from MLIR liveness, the packing of its state into attributes and the transformations that
  relieve pressure after a failure; of the division passes the range and power-of-two analyses and
  the walk over all loops of a function; of redistributions the emission of operations, the
  lowering inside one item and through local memory; and the rest of the compiler: the other
  operations of the dialects, the passes that build and move MLIR operations, target emission,
  bindings and the runtime.
\<close>

end
